(* ===== verification/CDC_Prelude.thy ===== *)
theory CDC_Prelude
  imports Main "HOL-Library.Word"
begin

text \<open>
  Shared vocabulary of the development: bytes and C strings, the error results that model
  \<^verbatim>\<open>ereport(ERROR)\<close>/\<^verbatim>\<open>elog(ERROR)\<close>, a memory model with
  uninitialised cells, big-endian integer encodings, and the generic lemmas and lemma
  collections the component theories rest on.
\<close>

named_theorems res_simps \<open>unfolding of the error monad\<close>
named_theorems write_intros \<open>what a writer appends to a message\<close>
named_theorems parse_intros \<open>what a reader consumes from a message\<close>

section \<open>Bytes, identifiers and results\<close>

type_synonym byte = char
type_synonym cstring = "char list"
type_synonym Oid = "32 word"
type_synonym TransactionId = "32 word"
type_synonym XLogRecPtr = "64 word"
type_synonym TimestampTz = "64 word"

abbreviation NUL :: byte where "NUL \<equiv> CHR 0x00"
abbreviation InvalidXLogRecPtr :: XLogRecPtr where "InvalidXLogRecPtr \<equiv> 0"
abbreviation InvalidTransactionId :: TransactionId where "InvalidTransactionId \<equiv> 0"

text \<open>
  An error of the server (\<^verbatim>\<open>PgError\<close>, with the message text), an access the C language
  leaves undefined, a loop that never ends, or a process that ends by itself
  (\<^verbatim>\<open>proc_exit(0)\<close>).
\<close>

datatype undefined_access = OutOfBounds | UninitialisedRead | NullPointer

datatype pg_error = PgError string | Undefined undefined_access | Diverges | ProcExit

type_synonym 'a res = "pg_error + 'a"

definition bindR :: "'a res \<Rightarrow> ('a \<Rightarrow> 'b res) \<Rightarrow> 'b res" where
  "bindR m f = (case m of Inl e \<Rightarrow> Inl e | Inr x \<Rightarrow> f x)"

lemma bindR_Inl [simp, res_simps]: "bindR (Inl e) f = Inl e"
  by (simp add: bindR_def)

lemma bindR_Inr [simp, res_simps]: "bindR (Inr x) f = f x"
  by (simp add: bindR_def)

lemma bindR_assoc: "bindR (bindR m f) g = bindR m (\<lambda>x. bindR (f x) g)"
  by (cases m) auto

lemma bindR_eq_Inr_iff: "bindR m f = Inr y \<longleftrightarrow> (\<exists>x. m = Inr x \<and> f x = Inr y)"
  by (cases m) auto

lemma bindR_cong [fundef_cong]:
  "m = m' \<Longrightarrow> (\<And>x. m' = Inr x \<Longrightarrow> f x = f' x) \<Longrightarrow> bindR m f = bindR m' f'"
  by (cases m') auto

text \<open>The value of a byte as a C \<^verbatim>\<open>unsigned char\<close> and as a (signed) \<^verbatim>\<open>char\<close>.\<close>

definition uchar :: "byte \<Rightarrow> nat" where
  "uchar c = of_char c"

definition schar :: "byte \<Rightarrow> int" where
  "schar c = (if uchar c < 128 then int (uchar c) else int (uchar c) - 256)"

lemma uchar_less: "uchar c < 256"
  unfolding uchar_def by (rule nat_of_char_less_256)

lemma char_of_uchar [simp]: "char_of (uchar c) = c"
  by (simp add: uchar_def)

lemma uchar_char_of [simp]: "uchar (char_of n) = n mod 256" for n :: nat
  by (simp add: uchar_def)

lemma uchar_inject [simp]: "uchar c = uchar d \<longleftrightarrow> c = d"
  by (simp add: uchar_def)

lemma char_of_0 [simp]: "char_of (0 :: nat) = NUL"
  by (simp add: char_of_def)

text \<open>The value of a character literal.\<close>

lemma uchar_Char [simp]:
  "uchar (Char b0 b1 b2 b3 b4 b5 b6 b7) = of_bool b0 + 2 * of_bool b1 + 4 * of_bool b2 + 8 * of_bool b3
     + 16 * of_bool b4 + 32 * of_bool b5 + 64 * of_bool b6 + 128 * of_bool b7"
  by (simp add: uchar_def of_char_def)

lemma uchar_eq_0_iff [simp]: "uchar c = 0 \<longleftrightarrow> c = NUL"
proof -
  have "uchar c = uchar NUL \<longleftrightarrow> c = NUL" by (rule uchar_inject)
  then show ?thesis by simp
qed

section \<open>C strings\<close>

text \<open>A C string is kept without its terminator; \<open>nul_free\<close> says that it has no NUL inside.\<close>

definition nul_free :: "cstring \<Rightarrow> bool" where
  "nul_free s \<longleftrightarrow> NUL \<notin> set s"

definition c_str :: "byte list \<Rightarrow> cstring" where
  "c_str bs = takeWhile (\<lambda>c. c \<noteq> NUL) bs"

lemma nul_free_Nil [simp]: "nul_free []"
  by (simp add: nul_free_def)

lemma nul_free_Cons [simp]: "nul_free (c # s) \<longleftrightarrow> c \<noteq> NUL \<and> nul_free s"
  by (auto simp: nul_free_def)

lemma nul_free_append [simp]: "nul_free (s @ t) \<longleftrightarrow> nul_free s \<and> nul_free t"
  by (auto simp: nul_free_def)

lemma nul_free_take: "nul_free s \<Longrightarrow> nul_free (take n s)"
  by (auto simp: nul_free_def dest: in_set_takeD)

lemma c_str_terminated [simp]: "nul_free s \<Longrightarrow> c_str (s @ NUL # rest) = s"
  by (induction s) (auto simp: c_str_def)

lemma c_str_nul_free [simp]: "nul_free s \<Longrightarrow> c_str s = s"
  by (induction s) (auto simp: c_str_def)

lemma nul_free_c_str [simp]: "nul_free (c_str s)"
  by (auto simp: c_str_def nul_free_def dest: set_takeWhileD)

section \<open>Memory cells\<close>

text \<open>A cell that was allocated and never written holds \<^const>\<open>None\<close>.\<close>

type_synonym cell = "byte option"

definition mem_write :: "cell list \<Rightarrow> nat \<Rightarrow> byte list \<Rightarrow> cell list res" where
  "mem_write m off bs =
     (if off + length bs \<le> length m
      then Inr (take off m @ map Some bs @ drop (off + length bs) m)
      else Inl (Undefined OutOfBounds))"

definition mem_read :: "cell list \<Rightarrow> nat \<Rightarrow> nat \<Rightarrow> byte list res" where
  "mem_read m off n =
     (if off + n \<le> length m
      then (if None \<in> set (take n (drop off m)) then Inl (Undefined UninitialisedRead)
            else Inr (map the (take n (drop off m))))
      else Inl (Undefined OutOfBounds))"

text \<open>\<^verbatim>\<open>strlen\<close> of the bytes at an address, reading cell by cell.\<close>

fun cells_strlen :: "cell list \<Rightarrow> nat res" where
  "cells_strlen [] = Inl (Undefined OutOfBounds)"
| "cells_strlen (None # m) = Inl (Undefined UninitialisedRead)"
| "cells_strlen (Some c # m) = (if c = NUL then Inr 0 else bindR (cells_strlen m) (\<lambda>n. Inr (Suc n)))"

lemma cells_strlen_terminated:
  "nul_free s \<Longrightarrow> cells_strlen (map Some s @ Some NUL # rest) = Inr (length s)"
  by (induction s) auto

lemma mem_write_ok:
  assumes "off + length bs \<le> length m"
  shows "mem_write m off bs = Inr (take off m @ map Some bs @ drop (off + length bs) m)"
  using assms by (simp add: mem_write_def)

lemma mem_write_keeps:
  assumes "mem_write m off bs = Inr m'"
  shows "length m' = length m" and "take off m' = take off m"
  using assms by (auto simp: mem_write_def split: if_splits)

lemma mem_read_map_Some:
  assumes "m = pre @ map Some bs @ post" and "off = length pre" and "n = length bs"
  shows "mem_read m off n = Inr bs"
  using assms by (auto simp: mem_read_def comp_def)

text \<open>The C string a buffer holds.\<close>

definition string_at :: "cell list \<Rightarrow> cstring res" where
  "string_at m = bindR (cells_strlen m) (\<lambda>n. mem_read m 0 n)"

lemma string_at_prefix:
  assumes "take (length t + 1) m = map Some (t @ [NUL])" and "nul_free t"
  shows "string_at m = Inr t"
proof -
  have m: "m = map Some t @ Some NUL # drop (length t + 1) m"
    using assms(1) by (metis append_take_drop_id append.assoc append_Cons append_Nil list.simps(8,9) map_append)
  then have "cells_strlen m = Inr (length t)" using cells_strlen_terminated [OF assms(2)] by metis
  moreover have "mem_read m 0 (length t) = Inr t"
    using m by (intro mem_read_map_Some [where pre = "[]" and post = "Some NUL # drop (length t + 1) m"]) simp_all
  ultimately show ?thesis by (simp add: string_at_def)
qed

lemma cells_strlen_prefix:
  "cells_strlen m = Inr n \<Longrightarrow> n < length m \<and> None \<notin> set (take n m) \<and> nul_free (map the (take n m))"
  by (induction m arbitrary: n rule: cells_strlen.induct) (auto simp: bindR_eq_Inr_iff split: if_splits)

lemma string_at_nul_free: "string_at m = Inr s \<Longrightarrow> nul_free s"
  by (auto simp: string_at_def bindR_eq_Inr_iff mem_read_def dest!: cells_strlen_prefix split: if_splits)

lemma string_at_terminated: "nul_free s \<Longrightarrow> string_at (map Some (s @ NUL # rest)) = Inr s"
  by (rule string_at_prefix) simp_all

text \<open>A terminated buffer is read up to the first terminator.\<close>

lemma string_at_c_str: "string_at (map Some (s @ [NUL])) = Inr (c_str s)"
proof -
  have "s @ [NUL] = c_str s @ NUL # drop (Suc (length (c_str s))) (s @ [NUL])"
    unfolding c_str_def by (induction s) auto
  then show ?thesis using string_at_terminated [OF nul_free_c_str] by metis
qed

section \<open>Big-endian integers\<close>

text \<open>
  \<^verbatim>\<open>pg_hton16/32/64\<close> followed by a \<^verbatim>\<open>memcpy\<close> stores the value most
  significant byte first, whatever the host's byte order is; \<open>be_bytes k n\<close> is that
  byte sequence for a \<open>k\<close>-byte value.
\<close>

fun be_bytes :: "nat \<Rightarrow> nat \<Rightarrow> byte list" where
  "be_bytes 0 n = []"
| "be_bytes (Suc k) n = be_bytes k (n div 256) @ [char_of n]"

definition be_value :: "byte list \<Rightarrow> nat" where
  "be_value bs = foldl (\<lambda>a c. a * 256 + uchar c) 0 bs"

lemma length_be_bytes [simp]: "length (be_bytes k n) = k"
  by (induction k arbitrary: n) auto

lemma be_value_snoc [simp]: "be_value (bs @ [c]) = be_value bs * 256 + uchar c"
  by (simp add: be_value_def)

lemma be_value_be_bytes: "be_value (be_bytes k n) = n mod 256 ^ k"
proof (induction k arbitrary: n)
  case 0
  then show ?case by (simp add: be_value_def)
next
  case (Suc k)
  have "n mod 256 ^ Suc k = (n div 256 mod 256 ^ k) * 256 + n mod 256"
    by (simp add: mod_mult2_eq)
  then show ?case using Suc by simp
qed

lemma be_value_less: "be_value bs < 256 ^ length bs"
proof (induction bs rule: rev_induct)
  case Nil
  then show ?case by (simp add: be_value_def)
next
  case (snoc c bs)
  have "be_value bs * 256 + uchar c < (be_value bs + 1) * 256"
    using uchar_less [of c] by simp
  also have "\<dots> \<le> 256 ^ length bs * 256"
    using snoc by (intro mult_right_mono) auto
  finally show ?case by (simp add: mult.commute)
qed

lemma be_bytes_be_value: "length bs = k \<Longrightarrow> be_bytes k (be_value bs) = bs"
proof (induction bs arbitrary: k rule: rev_induct)
  case Nil
  then show ?case by simp
next
  case (snoc c bs)
  have div: "(be_value bs * 256 + uchar c) div 256 = be_value bs"
    using uchar_less [of c] by simp
  have "char_of (be_value bs * 256 + uchar c) = c"
  proof -
    have "char_of ((be_value bs * 256 + uchar c) mod 256) = char_of (uchar c)"
      using uchar_less [of c] by simp
    then show ?thesis by (simp only: char_of_mod_256 char_of_uchar)
  qed
  with snoc div show ?case by auto
qed

section \<open>Decimal and hexadecimal output\<close>

text \<open>What \<^verbatim>\<open>printf\<close> writes for \<^verbatim>\<open>%u\<close>, \<^verbatim>\<open>%d\<close> and \<^verbatim>\<open>%04x\<close>.\<close>

fun show_nat :: "nat \<Rightarrow> string" where
  "show_nat n = (if n < 10 then [char_of (48 + n)] else show_nat (n div 10) @ [char_of (48 + n mod 10)])"

declare show_nat.simps [simp del]

lemma show_nat_inj: "show_nat m = show_nat n \<longleftrightarrow> m = n"
proof -
  define val where "val s = foldl (\<lambda>a c. a * 10 + (uchar c - 48)) 0 s" for s
  have "val (show_nat k) = k" for k
  proof (induction k rule: show_nat.induct)
    case (1 k)
    show ?case
    proof (cases "k < 10")
      case True
      then show ?thesis by (simp add: val_def show_nat.simps [of k])
    next
      case False
      have "val (s @ [c]) = val s * 10 + (uchar c - 48)" for s c by (simp add: val_def)
      with 1 False show ?thesis by (subst show_nat.simps) simp
    qed
  qed
  then show ?thesis by metis
qed

definition show_int :: "int \<Rightarrow> string" where
  "show_int i = (if i < 0 then CHR ''-'' # show_nat (nat (- i)) else show_nat (nat i))"

definition hex_digit :: "nat \<Rightarrow> byte" where
  "hex_digit n = (if n < 10 then char_of (48 + n) else char_of (87 + n))"

definition show_hex4 :: "nat \<Rightarrow> string" where
  "show_hex4 n = [hex_digit (n div 4096 mod 16), hex_digit (n div 256 mod 16),
                  hex_digit (n div 16 mod 16), hex_digit (n mod 16)]"

text \<open>Signed 32-bit arithmetic; the program is compiled with wrap-around on overflow.\<close>

definition c_int :: "int \<Rightarrow> int" where
  "c_int i = sint (of_int i :: 32 word)"

definition c_longlong :: "int \<Rightarrow> int" where
  "c_longlong i = sint (of_int i :: 64 word)"

lemma c_longlong_small: "- (2 ^ 63) \<le> i \<Longrightarrow> i < 2 ^ 63 \<Longrightarrow> c_longlong i = i"
  by (simp add: c_longlong_def signed_of_int signed_take_bit_int_eq_self)

lemma c_int_small: "- (2 ^ 31) \<le> i \<Longrightarrow> i < 2 ^ 31 \<Longrightarrow> c_int i = i"
  by (simp add: c_int_def signed_of_int signed_take_bit_int_eq_self)

end
