(* ===== verification/StringInfo.thy ===== *)
theory StringInfo
  imports CDC_Prelude
begin

text \<open>
  The extensible byte buffer of \<^verbatim>\<open>src/common/stringinfo.c\<close> and
  \<^verbatim>\<open>src/include/lib/stringinfo.h\<close>: allocation, growth by doubling, the append
  operations, and their refinement to appending a byte list. The build of this repository
  disables assertions (\<^verbatim>\<open>--disable-cassert\<close>), so an \<^verbatim>\<open>Assert\<close> is no
  branch of the model; lengths are non-negative C ints and are kept as \<^typ>\<open>nat\<close>,
  requested sizes as \<^typ>\<open>int\<close>.
\<close>

section \<open>The buffer and its operations\<close>

definition MaxAllocSize :: nat where
  "MaxAllocSize = 0x3fffffff"

definition STRINGINFO_DEFAULT_SIZE :: nat where
  "STRINGINFO_DEFAULT_SIZE = 1024"

record StringInfoData =
  si_data :: "cell list"
  si_len :: nat
  si_maxlen :: nat
  si_cursor :: nat

lemma si_update_order [simp]: "s\<lparr>si_len := n, si_data := d\<rparr> = s\<lparr>si_data := d, si_len := n\<rparr>"
  by (cases s) simp

definition palloc :: "nat \<Rightarrow> cell list" where
  "palloc n = replicate n None"

definition repalloc :: "cell list \<Rightarrow> nat \<Rightarrow> cell list" where
  "repalloc m n = take n m @ replicate (n - length m) None"

definition resetStringInfo :: "StringInfoData \<Rightarrow> StringInfoData res" where
  "resetStringInfo s =
     bindR (mem_write (si_data s) 0 [NUL])
       (\<lambda>d. Inr (s\<lparr>si_data := d, si_len := 0, si_cursor := 0\<rparr>))"

definition initStringInfoInternal :: "nat \<Rightarrow> StringInfoData res" where
  "initStringInfoInternal initsize =
     resetStringInfo \<lparr>si_data = palloc initsize, si_len = 0, si_maxlen = initsize, si_cursor = 0\<rparr>"

definition makeStringInfo :: "StringInfoData res" where
  "makeStringInfo = initStringInfoInternal STRINGINFO_DEFAULT_SIZE"

definition initStringInfo :: "StringInfoData res" where
  "initStringInfo = initStringInfoInternal STRINGINFO_DEFAULT_SIZE"

definition initReadOnlyStringInfo :: "cell list \<Rightarrow> nat \<Rightarrow> StringInfoData" where
  "initReadOnlyStringInfo d n = \<lparr>si_data = d, si_len = n, si_maxlen = 0, si_cursor = 0\<rparr>"

definition initStringInfoFromString :: "cell list \<Rightarrow> nat \<Rightarrow> StringInfoData" where
  "initStringInfoFromString d n = \<lparr>si_data = d, si_len = n, si_maxlen = n + 1, si_cursor = 0\<rparr>"

text \<open>The doubling loop. It never ends on a read-only buffer, whose size is recorded as 0.\<close>

partial_function (option) enlarge_loop :: "nat \<Rightarrow> nat \<Rightarrow> nat option" where
  "enlarge_loop needed newlen =
     (if needed > newlen then enlarge_loop needed (2 * newlen) else Some newlen)"

definition enlargeStringInfo :: "int \<Rightarrow> StringInfoData \<Rightarrow> StringInfoData res" where
  "enlargeStringInfo needed s =
     (if needed < 0 then Inl (PgError ''invalid string enlargement request size'')
      else if needed \<ge> (int MaxAllocSize - int (si_len s)) mod 2 ^ 64
      then Inl (PgError ''string buffer exceeds maximum allowed length'')
      else let total = nat needed + si_len s + 1 in
        if total \<le> si_maxlen s then Inr s
        else case enlarge_loop total (2 * si_maxlen s) of
            None \<Rightarrow> Inl Diverges
          | Some newlen0 \<Rightarrow>
              let newlen = (if newlen0 > MaxAllocSize then MaxAllocSize else newlen0)
              in Inr (s\<lparr>si_data := repalloc (si_data s) newlen, si_maxlen := newlen\<rparr>))"

definition appendStringInfoChar :: "byte \<Rightarrow> StringInfoData \<Rightarrow> StringInfoData res" where
  "appendStringInfoChar ch s =
     bindR (if si_len s + 1 \<ge> si_maxlen s then enlargeStringInfo 1 s else Inr s)
       (\<lambda>s. bindR (mem_write (si_data s) (si_len s) [ch])
         (\<lambda>d. bindR (mem_write d (si_len s + 1) [NUL])
           (\<lambda>d. Inr (s\<lparr>si_data := d, si_len := si_len s + 1\<rparr>))))"

definition appendStringInfoCharMacro :: "byte \<Rightarrow> StringInfoData \<Rightarrow> StringInfoData res" where
  "appendStringInfoCharMacro ch s =
     (if si_len s + 1 \<ge> si_maxlen s then appendStringInfoChar ch s
      else bindR (mem_write (si_data s) (si_len s) [ch])
         (\<lambda>d. bindR (mem_write d (si_len s + 1) [NUL])
           (\<lambda>d. Inr (s\<lparr>si_data := d, si_len := si_len s + 1\<rparr>))))"

definition appendStringInfoSpaces :: "int \<Rightarrow> StringInfoData \<Rightarrow> StringInfoData res" where
  "appendStringInfoSpaces count s =
     (if count > 0
      then bindR (enlargeStringInfo count s)
        (\<lambda>s. bindR (mem_write (si_data s) (si_len s) (replicate (nat count) (CHR '' '')))
          (\<lambda>d. bindR (mem_write d (si_len s + nat count) [NUL])
            (\<lambda>d. Inr (s\<lparr>si_data := d, si_len := si_len s + nat count\<rparr>))))
      else Inr s)"

text \<open>The callers pass the length of their data as a C int.\<close>

definition appendBinaryStringInfo :: "byte list \<Rightarrow> StringInfoData \<Rightarrow> StringInfoData res" where
  "appendBinaryStringInfo data s =
     (let datalen = c_int (int (length data)) in
      bindR (enlargeStringInfo datalen s)
       (\<lambda>s. bindR (mem_write (si_data s) (si_len s) (take (nat datalen) data))
         (\<lambda>d. bindR (mem_write d (si_len s + nat datalen) [NUL])
           (\<lambda>d. Inr (s\<lparr>si_data := d, si_len := si_len s + nat datalen\<rparr>)))))"

definition appendBinaryStringInfoNT :: "byte list \<Rightarrow> StringInfoData \<Rightarrow> StringInfoData res" where
  "appendBinaryStringInfoNT data s =
     (let datalen = c_int (int (length data)) in
      bindR (enlargeStringInfo datalen s)
       (\<lambda>s. bindR (mem_write (si_data s) (si_len s) (take (nat datalen) data))
         (\<lambda>d. Inr (s\<lparr>si_data := d, si_len := si_len s + nat datalen\<rparr>))))"

definition appendStringInfoString :: "cstring \<Rightarrow> StringInfoData \<Rightarrow> StringInfoData res" where
  "appendStringInfoString str s = appendBinaryStringInfo (c_str str) s"

text \<open>
  \<^verbatim>\<open>pvsnprintf\<close> (\<^verbatim>\<open>src/common/psprintf.c\<close>) for a format whose
  rendering is the text \<open>txt\<close>: C99's \<^verbatim>\<open>vsnprintf\<close> stores what fits in
  \<open>n\<close> bytes, with a terminator, and returns the full length; the wrapper returns a
  recommended buffer size when the text did not fit.
\<close>

definition pvsnprintf :: "cell list \<Rightarrow> nat \<Rightarrow> nat \<Rightarrow> cstring \<Rightarrow> (nat \<times> cell list) res" where
  "pvsnprintf m off n txt =
     bindR (mem_write m off (take (n - 1) txt @ [NUL]))
       (\<lambda>m. if length txt < n then Inr (length txt, m)
             else if length txt > MaxAllocSize - 1 then Inl (PgError ''out of memory'')
             else Inr (length txt + 1, m))"

text \<open>\<^verbatim>\<open>appendStringInfoVA\<close>, and the retry loop of \<^verbatim>\<open>appendStringInfo\<close>.\<close>

definition appendStringInfoVA :: "cstring \<Rightarrow> StringInfoData \<Rightarrow> (nat \<times> StringInfoData) res" where
  "appendStringInfoVA txt s =
     (let avail = int (si_maxlen s) - int (si_len s) in
      if avail < 16 then Inr (32, s)
      else bindR (pvsnprintf (si_data s) (si_len s) (nat avail) txt)
        (\<lambda>(nprinted, d).
          if int nprinted < avail
          then Inr (0, s\<lparr>si_data := d, si_len := si_len s + nprinted\<rparr>)
          else bindR (mem_write d (si_len s) [NUL])
                 (\<lambda>d. Inr (nprinted, s\<lparr>si_data := d\<rparr>))))"

partial_function (option) appendStringInfo ::
    "cstring \<Rightarrow> StringInfoData \<Rightarrow> StringInfoData res option" where
  "appendStringInfo txt s =
     (case appendStringInfoVA txt s of
        Inl e \<Rightarrow> Some (Inl e)
      | Inr (needed, s') \<Rightarrow>
          if needed = 0 then Some (Inr s')
          else case enlargeStringInfo (int needed) s' of
              Inl e \<Rightarrow> Some (Inl e)
            | Inr s'' \<Rightarrow> appendStringInfo txt s'')"

section \<open>The invariant and the abstract contents\<close>

text \<open>
  \<open>si_wf\<close> is the promise of \<^verbatim>\<open>stringinfo.h\<close> for a writable buffer:
  \<^verbatim>\<open>maxlen\<close> is the allocated size, at most \<^const>\<open>MaxAllocSize\<close>, there is always
  room for a terminator, and the bytes below \<^verbatim>\<open>len\<close> have been written.
\<close>

definition si_wf :: "StringInfoData \<Rightarrow> bool" where
  "si_wf s \<longleftrightarrow> si_len s < si_maxlen s \<and> length (si_data s) = si_maxlen s
     \<and> si_maxlen s \<le> MaxAllocSize \<and> None \<notin> set (take (si_len s) (si_data s))"

definition si_bytes :: "StringInfoData \<Rightarrow> byte list" where
  "si_bytes s = map the (take (si_len s) (si_data s))"

definition si_terminated :: "StringInfoData \<Rightarrow> bool" where
  "si_terminated s \<longleftrightarrow> si_len s < length (si_data s) \<and> si_data s ! si_len s = Some NUL"

lemma length_si_bytes: "si_wf s \<Longrightarrow> length (si_bytes s) = si_len s"
  by (simp add: si_bytes_def si_wf_def)

lemma si_data_split: "si_wf s \<Longrightarrow> si_data s = map Some (si_bytes s) @ drop (si_len s) (si_data s)"
proof -
  assume "si_wf s"
  then have "map (Some \<circ> the) (take (si_len s) (si_data s)) = take (si_len s) (si_data s)"
    by (intro map_idI) (metis comp_apply option.exhaust_sel si_wf_def)
  then show ?thesis
    by (metis append_take_drop_id list.map_comp si_bytes_def)
qed

lemma si_wfI:
  assumes "si_data s = map Some bs @ rest" and "si_len s = length bs" and "rest \<noteq> []"
    and "si_maxlen s = length (si_data s)" and "si_maxlen s \<le> MaxAllocSize"
  shows "si_wf s" and "si_bytes s = bs"
  using assms by (auto simp: si_wf_def si_bytes_def comp_def)

section \<open>Growth\<close>

text \<open>
  The doubling loop ends from every positive size, reaches the size asked for, and never
  goes past twice that size: with a request of at most \<^const>\<open>MaxAllocSize\<close> the C int
  cannot overflow.
\<close>

lemma enlarge_loop_ends:
  assumes "0 < newlen"
  shows "\<exists>r. enlarge_loop needed newlen = Some r \<and> needed \<le> r \<and> newlen \<le> r
           \<and> (r = newlen \<or> r < 2 * needed)"
  using assms
proof (induction "needed - newlen" arbitrary: newlen rule: less_induct)
  case less
  show ?case
  proof (cases "needed > newlen")
    case True
    with less.prems obtain r where "enlarge_loop needed (2 * newlen) = Some r"
        and "needed \<le> r" and "2 * newlen \<le> r" and "r = 2 * newlen \<or> r < 2 * needed"
      using less.hyps [of "2 * newlen"] diff_less_mono2 [of newlen "2 * newlen" needed] by auto
    with True show ?thesis by (subst enlarge_loop.simps) auto
  next
    case False
    then show ?thesis by (subst enlarge_loop.simps) auto
  qed
qed

lemma size_limit_no_wrap:
  assumes "n \<le> MaxAllocSize"
  shows "(int MaxAllocSize - int n) mod 18446744073709551616 = int (MaxAllocSize - n)"
  using assms by (simp add: MaxAllocSize_def)

text \<open>
  A request that fits gives a buffer with the same contents and enough room; one that does
  not fit is refused, and the buffer is not touched.
\<close>

lemma enlargeStringInfo_ok:
  assumes wf: "si_wf s" and fits: "si_len s + n < MaxAllocSize"
  shows "\<exists>s'. enlargeStringInfo (int n) s = Inr s' \<and> si_wf s' \<and> si_bytes s' = si_bytes s
           \<and> si_len s' = si_len s \<and> si_cursor s' = si_cursor s \<and> si_len s + n < si_maxlen s'"
proof (cases "n + si_len s + 1 \<le> si_maxlen s")
  case True
  moreover have "si_len s \<le> MaxAllocSize" using wf by (simp add: si_wf_def)
  ultimately show ?thesis using wf fits
    by (simp add: enlargeStringInfo_def size_limit_no_wrap)
next
  case False
  from wf have pos: "0 < 2 * si_maxlen s" by (auto simp: si_wf_def)
  obtain r where r: "enlarge_loop (n + si_len s + 1) (2 * si_maxlen s) = Some r"
      and ge: "n + si_len s + 1 \<le> r" and ge2: "2 * si_maxlen s \<le> r"
    using enlarge_loop_ends [OF pos, of "n + si_len s + 1"] by auto
  define newlen where "newlen = (if r > MaxAllocSize then MaxAllocSize else r)"
  define s' where "s' = s\<lparr>si_data := repalloc (si_data s) newlen, si_maxlen := newlen\<rparr>"
  have grows: "si_maxlen s \<le> newlen" "newlen \<le> MaxAllocSize" "si_len s + n < newlen"
    using wf fits ge ge2 by (auto simp: newlen_def si_wf_def)
  have "enlargeStringInfo (int n) s = Inr s'"
    using False fits r size_limit_no_wrap [of "si_len s"]
    by (simp add: enlargeStringInfo_def newlen_def s'_def Let_def)
  moreover have "si_wf s'" "si_bytes s' = si_bytes s"
    using wf grows by (auto simp: s'_def si_wf_def si_bytes_def repalloc_def)
  ultimately show ?thesis using grows by (auto simp: s'_def)
qed

lemma enlargeStringInfo_full:
  assumes "si_wf s" and "MaxAllocSize \<le> si_len s + n"
  shows "enlargeStringInfo (int n) s = Inl (PgError ''string buffer exceeds maximum allowed length'')"
  using assms size_limit_no_wrap [of "si_len s"] by (simp add: enlargeStringInfo_def si_wf_def)

section \<open>Appending\<close>

text \<open>
  \<open>appends w bs\<close>: on every well-formed buffer the operation \<open>w\<close> adds exactly the bytes
  \<open>bs\<close> when the result stays below \<^const>\<open>MaxAllocSize\<close>, and fails otherwise, as long as the
  number of bytes is a C int.
\<close>

definition appends :: "(StringInfoData \<Rightarrow> StringInfoData res) \<Rightarrow> byte list \<Rightarrow> bool" where
  "appends w bs \<longleftrightarrow>
     (\<forall>s. si_wf s \<longrightarrow>
        (if si_len s + length bs < MaxAllocSize
         then \<exists>s'. w s = Inr s' \<and> si_wf s' \<and> si_bytes s' = si_bytes s @ bs \<and> si_cursor s' = si_cursor s
         else length bs < 2 ^ 31 \<longrightarrow> (\<exists>m. w s = Inl (PgError m))))"

lemma appendsI:
  assumes "\<And>s. si_wf s \<Longrightarrow> si_len s + length bs < MaxAllocSize \<Longrightarrow>
             \<exists>s'. w s = Inr s' \<and> si_wf s' \<and> si_bytes s' = si_bytes s @ bs \<and> si_cursor s' = si_cursor s"
    and "\<And>s. si_wf s \<Longrightarrow> MaxAllocSize \<le> si_len s + length bs \<Longrightarrow> length bs < 2 ^ 31 \<Longrightarrow> \<exists>m. w s = Inl (PgError m)"
  shows "appends w bs"
  using assms by (simp add: appends_def not_less)

lemma appends_okE:
  assumes "appends w bs" and "si_wf s" and "si_len s + length bs < MaxAllocSize"
  obtains s' where "w s = Inr s'" and "si_wf s'" and "si_bytes s' = si_bytes s @ bs"
    and "si_cursor s' = si_cursor s" and "si_len s' = si_len s + length bs"
proof -
  from assms obtain s' where s': "w s = Inr s'" "si_wf s'" "si_bytes s' = si_bytes s @ bs"
      "si_cursor s' = si_cursor s" unfolding appends_def by meson
  moreover from this assms(2) have "si_len s' = si_len s + length bs"
    using length_si_bytes [of s] length_si_bytes [of s'] by simp
  ultimately show thesis by (rule that)
qed

lemma appends_fullE:
  assumes "appends w bs" and "si_wf s" and "MaxAllocSize \<le> si_len s + length bs" and "length bs < 2 ^ 31"
  obtains m where "w s = Inl (PgError m)"
  using assms unfolding appends_def by (meson not_less)

text \<open>Two appends in a row, and a list of them.\<close>

lemma appends_Nil: "appends Inr []"
proof (rule appendsI)
  show "\<exists>m. Inr s = Inl (PgError m)" if "si_wf s" "MaxAllocSize \<le> si_len s + length []" for s
    using that by (auto simp: si_wf_def)
qed simp

lemma appends_bind:
  assumes w: "appends w bs" and v: "appends v cs"
  shows "appends (\<lambda>s. bindR (w s) v) (bs @ cs)"
proof (rule appendsI)
  fix s assume wf: "si_wf s" and fits: "si_len s + length (bs @ cs) < MaxAllocSize"
  then have "si_len s + length bs < MaxAllocSize" by simp
  from appends_okE [OF w wf this] obtain s1 where s1: "w s = Inr s1" "si_wf s1"
      "si_bytes s1 = si_bytes s @ bs" "si_cursor s1 = si_cursor s" "si_len s1 = si_len s + length bs" .
  from s1(5) fits have "si_len s1 + length cs < MaxAllocSize" by simp
  from appends_okE [OF v s1(2) this] s1
  show "\<exists>s'. bindR (w s) v = Inr s' \<and> si_wf s' \<and> si_bytes s' = si_bytes s @ bs @ cs
          \<and> si_cursor s' = si_cursor s"
    by (metis append.assoc bindR_Inr)
next
  fix s assume wf: "si_wf s" and full: "MaxAllocSize \<le> si_len s + length (bs @ cs)" and small: "length (bs @ cs) < 2 ^ 31"
  then have small': "length bs < 2 ^ 31" "length cs < 2 ^ 31" by simp_all
  show "\<exists>m. bindR (w s) v = Inl (PgError m)"
  proof (cases "si_len s + length bs < MaxAllocSize")
    case True
    from appends_okE [OF w wf True] obtain s1 where s1: "w s = Inr s1" "si_wf s1"
        "si_len s1 = si_len s + length bs" by metis
    from s1(3) full have "MaxAllocSize \<le> si_len s1 + length cs" by simp
    from appends_fullE [OF v s1(2) this small'(2)] s1(1) show ?thesis by (metis bindR_Inr)
  next
    case False
    with appends_fullE [OF w wf _ small'(1)] show ?thesis by (metis bindR_Inl not_less)
  qed
qed

text \<open>A sequence of statements that each append to the same buffer.\<close>

fun seq_writes :: "(StringInfoData \<Rightarrow> StringInfoData res) list \<Rightarrow> StringInfoData \<Rightarrow> StringInfoData res" where
  "seq_writes [] s = Inr s"
| "seq_writes (w # ws) s = bindR (w s) (seq_writes ws)"

lemma appends_seq_Nil [write_intros]: "appends (seq_writes []) []"
proof -
  have "seq_writes [] = Inr" by (rule ext) simp
  then show ?thesis by (simp add: appends_Nil)
qed

lemma appends_seq_Cons [write_intros]:
  assumes "appends w bs" and "appends (seq_writes ws) cs"
  shows "appends (seq_writes (w # ws)) (bs @ cs)"
proof -
  have "seq_writes (w # ws) = (\<lambda>s. bindR (w s) (seq_writes ws))" by (rule ext) simp
  then show ?thesis using appends_bind [OF assms] by simp
qed

lemma seq_writes_append: "seq_writes (ws @ vs) s = bindR (seq_writes ws s) (seq_writes vs)"
proof (induction ws arbitrary: s)
  case (Cons w ws)
  then have "seq_writes (ws @ vs) = (\<lambda>s. bindR (seq_writes ws s) (seq_writes vs))" by (rule ext)
  then show ?case by (simp add: bindR_assoc)
qed simp

lemma appends_seq_append:
  assumes "appends (seq_writes ws) bs" and "appends (seq_writes vs) cs"
  shows "appends (seq_writes (ws @ vs)) (bs @ cs)"
proof -
  have "seq_writes (ws @ vs) = (\<lambda>s. bindR (seq_writes ws s) (seq_writes vs))"
    by (rule ext) (rule seq_writes_append)
  then show ?thesis using appends_bind [OF assms] by simp
qed

lemma appends_seq_map:
  assumes "\<And>x. x \<in> set xs \<Longrightarrow> appends (w x) (enc x)"
  shows "appends (seq_writes (map w xs)) (concat (map enc xs))"
  using assms
proof (induction xs)
  case Nil
  show ?case by (simp add: appends_Nil)
next
  case (Cons x xs)
  have "appends (w x) (enc x)" "appends (seq_writes (map w xs)) (concat (map enc xs))"
    using Cons by auto
  then have "appends (seq_writes (w x # map w xs)) (enc x @ concat (map enc xs))"
    by (rule appends_seq_Cons)
  then show ?case by (simp only: list.map concat.simps)
qed

subsection \<open>Storing bytes past the end of the contents\<close>

lemma store_bytes:
  assumes wf: "si_wf s" and room: "si_len s + length bs < si_maxlen s"
  obtains d where "mem_write (si_data s) (si_len s) bs = Inr d"
    and "si_wf (s\<lparr>si_data := d, si_len := si_len s + length bs\<rparr>)"
    and "si_bytes (s\<lparr>si_data := d, si_len := si_len s + length bs\<rparr>) = si_bytes s @ bs"
    and "length d = si_maxlen s"
proof -
  define rest where "rest = drop (si_len s + length bs) (si_data s)"
  define d where "d = take (si_len s) (si_data s) @ map Some bs @ rest"
  have len: "length (si_data s) = si_maxlen s" using wf by (simp add: si_wf_def)
  have pre: "take (si_len s) (si_data s) = map Some (si_bytes s)"
    using si_data_split [OF wf] length_si_bytes [OF wf] by (metis append_eq_conv_conj length_map)
  have "mem_write (si_data s) (si_len s) bs = Inr d"
    using room len by (simp add: mem_write_def d_def rest_def)
  moreover have ld: "length d = si_maxlen s" using room len by (simp add: d_def rest_def)
  moreover have "rest \<noteq> []" using room len by (simp add: rest_def)
  moreover have "si_maxlen s \<le> MaxAllocSize" using wf by (simp add: si_wf_def)
  ultimately show thesis
    using si_wfI [of "s\<lparr>si_data := d, si_len := si_len s + length bs\<rparr>" "si_bytes s @ bs" rest]
      length_si_bytes [OF wf] pre by (intro that [of d]) (auto simp: d_def)
qed

lemma store_terminator:
  assumes wf: "si_wf s"
  obtains d where "mem_write (si_data s) (si_len s) [NUL] = Inr d"
    and "si_wf (s\<lparr>si_data := d\<rparr>)" and "si_bytes (s\<lparr>si_data := d\<rparr>) = si_bytes s"
    and "si_terminated (s\<lparr>si_data := d\<rparr>)"
proof -
  define d where "d = take (si_len s) (si_data s) @ Some NUL # drop (si_len s + 1) (si_data s)"
  have "length (si_data s) = si_maxlen s" "si_len s < si_maxlen s" using wf by (auto simp: si_wf_def)
  then have "mem_write (si_data s) (si_len s) [NUL] = Inr d" "length d = si_maxlen s"
    "take (si_len s) d = take (si_len s) (si_data s)" "d ! si_len s = Some NUL"
    by (auto simp: mem_write_def d_def nth_append)
  then show thesis using wf
    by (intro that [of d]) (auto simp: si_wf_def si_bytes_def si_terminated_def)
qed

subsection \<open>The append operations\<close>

lemma appendBinaryStringInfo_short:
  assumes "length bs < 2 ^ 31"
  shows "appendBinaryStringInfo bs s =
     bindR (enlargeStringInfo (int (length bs)) s)
       (\<lambda>s. bindR (mem_write (si_data s) (si_len s) bs)
         (\<lambda>d. bindR (mem_write d (si_len s + length bs) [NUL])
           (\<lambda>d. Inr (s\<lparr>si_data := d, si_len := si_len s + length bs\<rparr>))))"
    and "appendBinaryStringInfoNT bs s =
     bindR (enlargeStringInfo (int (length bs)) s)
       (\<lambda>s. bindR (mem_write (si_data s) (si_len s) bs)
         (\<lambda>d. Inr (s\<lparr>si_data := d, si_len := si_len s + length bs\<rparr>)))"
  using assms by (simp_all add: appendBinaryStringInfo_def appendBinaryStringInfoNT_def c_int_small)

lemma below_limit_short: "si_len s + length bs < MaxAllocSize \<Longrightarrow> length bs < 2 ^ 31"
  by (simp add: MaxAllocSize_def)

lemma appendBinaryStringInfoNT_appends [write_intros]: "appends (appendBinaryStringInfoNT bs) bs"
proof (rule appendsI)
  fix s assume "si_wf s" and fits: "si_len s + length bs < MaxAllocSize"
  from enlargeStringInfo_ok [OF this] obtain s1 where s1: "enlargeStringInfo (int (length bs)) s = Inr s1"
      "si_wf s1" "si_bytes s1 = si_bytes s" "si_len s1 = si_len s" "si_cursor s1 = si_cursor s"
      "si_len s1 + length bs < si_maxlen s1" by auto
  from store_bytes [OF s1(2,6)] obtain d where "mem_write (si_data s1) (si_len s1) bs = Inr d"
      "si_wf (s1\<lparr>si_data := d, si_len := si_len s1 + length bs\<rparr>)"
      "si_bytes (s1\<lparr>si_data := d, si_len := si_len s1 + length bs\<rparr>) = si_bytes s1 @ bs" .
  with s1 show "\<exists>s'. appendBinaryStringInfoNT bs s = Inr s' \<and> si_wf s' \<and> si_bytes s' = si_bytes s @ bs
      \<and> si_cursor s' = si_cursor s"
    by (simp add: appendBinaryStringInfo_short(2) [OF below_limit_short [OF fits]])
qed (simp add: appendBinaryStringInfo_short(2) enlargeStringInfo_full)

text \<open>Where the C code stores a terminator, the buffer is NUL-terminated afterwards.\<close>

lemma append_terminated:
  assumes "si_wf s" and "si_len s + length bs < si_maxlen s"
  shows "\<exists>s'. bindR (mem_write (si_data s) (si_len s) bs)
           (\<lambda>d. bindR (mem_write d (si_len s + length bs) [NUL])
             (\<lambda>d. Inr (s\<lparr>si_data := d, si_len := si_len s + length bs\<rparr>))) = Inr s'
           \<and> si_wf s' \<and> si_bytes s' = si_bytes s @ bs \<and> si_cursor s' = si_cursor s \<and> si_terminated s'"
proof -
  from store_bytes [OF assms] obtain d where d: "mem_write (si_data s) (si_len s) bs = Inr d"
      "si_wf (s\<lparr>si_data := d, si_len := si_len s + length bs\<rparr>)"
      "si_bytes (s\<lparr>si_data := d, si_len := si_len s + length bs\<rparr>) = si_bytes s @ bs" .
  let ?s1 = "s\<lparr>si_data := d, si_len := si_len s + length bs\<rparr>"
  obtain e where "mem_write (si_data ?s1) (si_len ?s1) [NUL] = Inr e" "si_wf (?s1\<lparr>si_data := e\<rparr>)"
      "si_bytes (?s1\<lparr>si_data := e\<rparr>) = si_bytes ?s1" "si_terminated (?s1\<lparr>si_data := e\<rparr>)"
    by (rule store_terminator [OF d(2)])
  then show ?thesis using d by simp
qed

lemma appendBinaryStringInfo_ok:
  assumes "si_wf s" and "si_len s + length bs < MaxAllocSize"
  shows "\<exists>s'. appendBinaryStringInfo bs s = Inr s' \<and> si_wf s' \<and> si_bytes s' = si_bytes s @ bs
           \<and> si_cursor s' = si_cursor s \<and> si_terminated s'"
proof -
  from enlargeStringInfo_ok [OF assms] obtain s1 where
      s1: "enlargeStringInfo (int (length bs)) s = Inr s1"
      "si_wf s1" "si_bytes s1 = si_bytes s" "si_len s1 = si_len s" "si_cursor s1 = si_cursor s"
      "si_len s1 + length bs < si_maxlen s1" by auto
  from append_terminated [OF s1(2,6)] s1 show ?thesis
    by (simp add: appendBinaryStringInfo_short(1) [OF below_limit_short [OF assms(2)]])
qed

lemma appendBinaryStringInfo_appends [write_intros]: "appends (appendBinaryStringInfo bs) bs"
proof (rule appendsI)
  fix s assume "si_wf s" "si_len s + length bs < MaxAllocSize"
  from appendBinaryStringInfo_ok [OF this] show "\<exists>s'. appendBinaryStringInfo bs s = Inr s' \<and> si_wf s'
      \<and> si_bytes s' = si_bytes s @ bs \<and> si_cursor s' = si_cursor s" by blast
qed (simp add: appendBinaryStringInfo_short(1) enlargeStringInfo_full)

lemma appendStringInfoChar_ok:
  assumes wf: "si_wf s" and fits: "si_len s + 1 < MaxAllocSize"
  shows "\<exists>s'. appendStringInfoChar ch s = Inr s' \<and> si_wf s' \<and> si_bytes s' = si_bytes s @ [ch]
      \<and> si_cursor s' = si_cursor s \<and> si_terminated s'"
proof -
  have "\<exists>s1. (if si_len s + 1 \<ge> si_maxlen s then enlargeStringInfo 1 s else Inr s) = Inr s1
      \<and> si_wf s1 \<and> si_bytes s1 = si_bytes s \<and> si_cursor s1 = si_cursor s
      \<and> si_len s1 + length [ch] < si_maxlen s1"
    using enlargeStringInfo_ok [of s 1] wf fits by auto
  then obtain s1 where s1:
      "(if si_len s + 1 \<ge> si_maxlen s then enlargeStringInfo 1 s else Inr s) = Inr s1"
      "si_wf s1" "si_bytes s1 = si_bytes s" "si_cursor s1 = si_cursor s"
      "si_len s1 + length [ch] < si_maxlen s1" by blast
  from append_terminated [OF s1(2,5)] s1 show ?thesis by (auto simp: appendStringInfoChar_def)
qed

lemma appendStringInfoChar_appends [write_intros]: "appends (appendStringInfoChar ch) [ch]"
proof (rule appendsI)
  fix s assume wf: "si_wf s" and fits: "si_len s + length [ch] < MaxAllocSize"
  then show "\<exists>s'. appendStringInfoChar ch s = Inr s' \<and> si_wf s' \<and> si_bytes s' = si_bytes s @ [ch]
      \<and> si_cursor s' = si_cursor s" using appendStringInfoChar_ok by fastforce
next
  fix s assume wf: "si_wf s" and full: "MaxAllocSize \<le> si_len s + length [ch]"
  then have "si_maxlen s \<le> si_len s + 1" by (auto simp: si_wf_def)
  with enlargeStringInfo_full [OF wf, of 1] full show "\<exists>m. appendStringInfoChar ch s = Inl (PgError m)"
    by (simp add: appendStringInfoChar_def)
qed

text \<open>The macro is the function: its inlined branch is the one where no room has to be made.\<close>

lemma appendStringInfoCharMacro_eq: "appendStringInfoCharMacro ch s = appendStringInfoChar ch s"
  by (simp add: appendStringInfoCharMacro_def appendStringInfoChar_def)

lemma appendStringInfoCharMacro_appends [write_intros]: "appends (appendStringInfoCharMacro ch) [ch]"
proof -
  have "appendStringInfoCharMacro ch = appendStringInfoChar ch"
    by (rule ext) (rule appendStringInfoCharMacro_eq)
  then show ?thesis by (simp add: appendStringInfoChar_appends)
qed

lemma appendStringInfoString_appends: "nul_free str \<Longrightarrow> appends (appendStringInfoString str) str"
  using appendBinaryStringInfo_appends [of str] by (simp add: appends_def appendStringInfoString_def)

lemma appendStringInfoSpaces_eq:
  assumes "count < 2 ^ 31"
  shows "appendStringInfoSpaces count s =
    (if count > 0 then appendBinaryStringInfo (replicate (nat count) (CHR '' '')) s else Inr s)"
  using assms by (simp add: appendStringInfoSpaces_def appendBinaryStringInfo_short(1) nat_less_iff)

subsection \<open>Formatted text: the retry loop ends\<close>

lemma appendStringInfoVA_cases:
  assumes wf: "si_wf s"
  obtains (fits) s' where "appendStringInfoVA txt s = Inr (0, s')" and "si_wf s'"
      and "si_bytes s' = si_bytes s @ txt" and "si_cursor s' = si_cursor s" and "si_terminated s'"
  | (retry) needed s' where "appendStringInfoVA txt s = Inr (needed, s')" and "0 < needed"
      and "si_wf s'" and "si_bytes s' = si_bytes s" and "si_cursor s' = si_cursor s"
      and "si_maxlen s' = si_maxlen s" and "si_maxlen s - si_len s \<le> needed"
      and "needed = 32 \<or> needed = length txt + 1"
  | (refused) m where "appendStringInfoVA txt s = Inl (PgError m)" and "MaxAllocSize \<le> length txt"
proof (cases "si_maxlen s - si_len s < 16")
  case True
  then have "int (si_maxlen s) - int (si_len s) < 16" by linarith
  then have "appendStringInfoVA txt s = Inr (32, s)" by (simp add: appendStringInfoVA_def Let_def)
  with True wf show thesis by (intro retry [of 32 s]) auto
next
  case False
  have avail: "int (si_maxlen s) - int (si_len s) = int (si_maxlen s - si_len s)"
    using wf by (simp add: si_wf_def)
  show thesis
  proof (cases "length txt < si_maxlen s - si_len s")
    case True
    then have "si_len s + length txt < si_maxlen s" by simp
    from store_bytes [OF wf this] obtain d where d: "mem_write (si_data s) (si_len s) txt = Inr d"
        "si_wf (s\<lparr>si_data := d, si_len := si_len s + length txt\<rparr>)"
        "si_bytes (s\<lparr>si_data := d, si_len := si_len s + length txt\<rparr>) = si_bytes s @ txt"
        "length d = si_maxlen s" .
    let ?s1 = "s\<lparr>si_data := d, si_len := si_len s + length txt\<rparr>"
    obtain e where e: "mem_write (si_data ?s1) (si_len ?s1) [NUL] = Inr e" "si_wf (?s1\<lparr>si_data := e\<rparr>)"
        "si_bytes (?s1\<lparr>si_data := e\<rparr>) = si_bytes ?s1" "si_terminated (?s1\<lparr>si_data := e\<rparr>)"
      by (rule store_terminator [OF d(2)])
    have "mem_write (si_data s) (si_len s) (txt @ [NUL]) = Inr e"
      using d(1) e(1) \<open>si_len s + length txt < si_maxlen s\<close> wf
      by (auto simp: mem_write_def si_wf_def split: if_splits)
    then have "appendStringInfoVA txt s = Inr (0, s\<lparr>si_data := e, si_len := si_len s + length txt\<rparr>)"
      using True False by (simp add: appendStringInfoVA_def avail pvsnprintf_def Let_def del: of_nat_diff)
    then show thesis by (rule fits) (use d e in simp_all)
  next
    case too_long: False
    let ?n = "si_maxlen s - si_len s"
    have len: "length (si_data s) = si_maxlen s" "si_len s < si_maxlen s" using wf by (auto simp: si_wf_def)
    obtain d where d: "mem_write (si_data s) (si_len s) (take (?n - 1) txt @ [NUL]) = Inr d"
      using len too_long by (auto simp: mem_write_def)
    obtain e where e: "mem_write d (si_len s) [NUL] = Inr e"
      using len mem_write_keeps(1) [OF d] by (auto simp: mem_write_def)
    have same: "length e = si_maxlen s" "take (si_len s) e = take (si_len s) (si_data s)"
      using mem_write_keeps [OF d] mem_write_keeps [OF e] len by auto
    have va: "appendStringInfoVA txt s = (if length txt < MaxAllocSize then Inr (length txt + 1, s\<lparr>si_data := e\<rparr>)
        else Inl (PgError ''out of memory''))"
      using False too_long d e by (auto simp: appendStringInfoVA_def avail pvsnprintf_def Let_def simp del: of_nat_diff)
    have wf': "si_wf (s\<lparr>si_data := e\<rparr>)" "si_bytes (s\<lparr>si_data := e\<rparr>) = si_bytes s"
      using wf same by (simp_all add: si_wf_def si_bytes_def)
    show thesis
    proof (cases "length txt < MaxAllocSize")
      case True
      then show thesis using va wf' too_long by (intro retry [of "length txt + 1" "s\<lparr>si_data := e\<rparr>"]) simp_all
    next
      case False
      then show thesis using va by (intro refused) simp_all
    qed
  qed
qed

text \<open>
  Every retry makes the buffer strictly larger, and a large enough buffer takes the text: the
  loop returns, with the text appended and terminated, or refuses a text that would bring the
  buffer within the 33 bytes below the limit that its minimal request may need.
\<close>

lemma appendStringInfo_ends:
  assumes "si_wf s"
  shows "(\<exists>s'. appendStringInfo str s = Some (Inr s') \<and> si_wf s' \<and> si_bytes s' = si_bytes s @ str
           \<and> si_cursor s' = si_cursor s \<and> si_terminated s') \<or>
    (\<exists>m. appendStringInfo str s = Some (Inl (PgError m)) \<and> MaxAllocSize \<le> si_len s + length str + 33)"
  using assms
proof (induction "MaxAllocSize - si_maxlen s" arbitrary: s rule: less_induct)
  case less
  show ?case
  proof (cases rule: appendStringInfoVA_cases [OF less.prems, of str])
    case (1 s')
    then show ?thesis by (subst (1) appendStringInfo.simps) simp
  next
    case (2 needed s')
    have len: "si_len s' = si_len s"
      using length_si_bytes less.prems 2(3,4) by metis
    show ?thesis
    proof (cases "si_len s' + needed < MaxAllocSize")
      case True
      from enlargeStringInfo_ok [OF 2(3) this] obtain s2 where
          s2: "enlargeStringInfo (int needed) s' = Inr s2" "si_wf s2" "si_bytes s2 = si_bytes s'"
            "si_len s2 = si_len s'" "si_cursor s2 = si_cursor s'" "si_len s' + needed < si_maxlen s2" by auto
      have grow: "si_maxlen s < si_maxlen s2" using s2(6) 2(7) len by simp
      have "si_maxlen s2 \<le> MaxAllocSize" using s2(2) by (simp add: si_wf_def)
      with grow have "MaxAllocSize - si_maxlen s2 < MaxAllocSize - si_maxlen s" by simp
      moreover have "appendStringInfo str s = appendStringInfo str s2" using 2(1,2) s2(1) by (subst appendStringInfo.simps) simp
      ultimately show ?thesis using less.hyps [of s2] s2 len 2 by simp
    next
      case False
      then have "enlargeStringInfo (int needed) s' = Inl (PgError ''string buffer exceeds maximum allowed length'')"
        by (intro enlargeStringInfo_full [OF 2(3)]) simp
      moreover have "MaxAllocSize \<le> si_len s + length str + 33" using False 2(8) len by auto
      ultimately show ?thesis using 2(1,2) by (subst (2) appendStringInfo.simps) simp
    qed
  next
    case (3 m)
    then show ?thesis by (subst (2) appendStringInfo.simps) simp
  qed
qed

lemma appendStringInfo_ok:
  assumes "si_wf s" and "si_len s + length str + 33 < MaxAllocSize"
  shows "\<exists>s'. appendStringInfo str s = Some (Inr s') \<and> si_wf s' \<and> si_bytes s' = si_bytes s @ str
           \<and> si_cursor s' = si_cursor s"
  using appendStringInfo_ends [OF assms(1), of str] assms(2) by auto

section \<open>Creation\<close>

lemma initStringInfoInternal_ok:
  assumes "1 \<le> n" and "n \<le> MaxAllocSize"
  shows "\<exists>s. initStringInfoInternal n = Inr s \<and> si_wf s \<and> si_bytes s = [] \<and> si_cursor s = 0
           \<and> si_terminated s"
  using assms
  by (cases n) (auto simp: initStringInfoInternal_def resetStringInfo_def mem_write_def palloc_def
      si_wf_def si_bytes_def si_terminated_def)

lemma initStringInfo_ok:
  obtains s where "initStringInfo = Inr s" and "si_wf s" and "si_bytes s = []" and "si_cursor s = 0"
    and "si_len s = 0"
proof -
  obtain s where "initStringInfo = Inr s" "si_wf s" "si_bytes s = []" "si_cursor s = 0"
    using initStringInfoInternal_ok [of STRINGINFO_DEFAULT_SIZE]
    by (auto simp: initStringInfo_def STRINGINFO_DEFAULT_SIZE_def MaxAllocSize_def)
  with length_si_bytes [of s] show thesis by (intro that [of s]) auto
qed

lemma resetStringInfo_ok:
  assumes "si_wf s"
  obtains s' where "resetStringInfo s = Inr s'" and "si_wf s'" and "si_bytes s' = []" and "si_len s' = 0"
  using assms that by (cases "si_data s") (auto simp: resetStringInfo_def mem_write_def si_wf_def si_bytes_def)

section \<open>The buffer as an interface\<close>

text \<open>
  What the message writers rely on: an operation that appends bytes or reports that the
  limit is reached. A client that appends a list of chunks gets their concatenation.
\<close>

locale byte_sink =
  fixes wf :: "'s \<Rightarrow> bool" and contents :: "'s \<Rightarrow> byte list"
    and put :: "byte list \<Rightarrow> 's \<Rightarrow> 's res" and limit :: nat
  assumes put_ok: "wf s \<Longrightarrow> length (contents s) + length bs < limit \<Longrightarrow>
      \<exists>s'. put bs s = Inr s' \<and> wf s' \<and> contents s' = contents s @ bs"
    and put_full: "wf s \<Longrightarrow> limit \<le> length (contents s) + length bs \<Longrightarrow> length bs < 2 ^ 31 \<Longrightarrow> \<exists>m. put bs s = Inl (PgError m)"
begin

primrec put_all :: "byte list list \<Rightarrow> 's \<Rightarrow> 's res" where
  "put_all [] s = Inr s"
| "put_all (bs # bss) s = bindR (put bs s) (put_all bss)"

lemma put_all_ok:
  "wf s \<Longrightarrow> length (contents s) + length (concat bss) < limit \<Longrightarrow>
     \<exists>s'. put_all bss s = Inr s' \<and> wf s' \<and> contents s' = contents s @ concat bss"
proof (induction bss arbitrary: s)
  case Nil
  then show ?case by simp
next
  case (Cons bs bss)
  then obtain s1 where s1: "put bs s = Inr s1" "wf s1" "contents s1 = contents s @ bs"
    using put_ok [of s bs] by auto
  with Cons.IH [of s1] Cons.prems show ?case by auto
qed

end

interpretation si_nul: byte_sink si_wf si_bytes appendBinaryStringInfo MaxAllocSize
proof
  fix s and bs :: "byte list" assume "si_wf s" "length (si_bytes s) + length bs < MaxAllocSize"
  then show "\<exists>s'. appendBinaryStringInfo bs s = Inr s' \<and> si_wf s' \<and> si_bytes s' = si_bytes s @ bs"
    using appendBinaryStringInfo_ok [of s bs] by (auto simp: length_si_bytes)
next
  fix s and bs :: "byte list" assume "si_wf s" "MaxAllocSize \<le> length (si_bytes s) + length bs" "length bs < 2 ^ 31"
  then show "\<exists>m. appendBinaryStringInfo bs s = Inl (PgError m)"
    using appends_fullE [OF appendBinaryStringInfo_appends] by (metis length_si_bytes)
qed

interpretation si_raw: byte_sink si_wf si_bytes appendBinaryStringInfoNT MaxAllocSize
proof
  fix s and bs :: "byte list" assume "si_wf s" "length (si_bytes s) + length bs < MaxAllocSize"
  then show "\<exists>s'. appendBinaryStringInfoNT bs s = Inr s' \<and> si_wf s' \<and> si_bytes s' = si_bytes s @ bs"
    using appends_okE [OF appendBinaryStringInfoNT_appends] by (metis length_si_bytes)
next
  fix s and bs :: "byte list" assume "si_wf s" "MaxAllocSize \<le> length (si_bytes s) + length bs" "length bs < 2 ^ 31"
  then show "\<exists>m. appendBinaryStringInfoNT bs s = Inl (PgError m)"
    using appends_fullE [OF appendBinaryStringInfoNT_appends] by (metis length_si_bytes)
qed

section \<open>Properties of the buffer\<close>

definition demo_buffer :: StringInfoData where
  "demo_buffer = \<lparr>si_data = [Some (CHR ''a''), Some NUL], si_len = 1, si_maxlen = 2, si_cursor = 0\<rparr>"

lemma demo_buffer_wf: "si_wf demo_buffer" "si_bytes demo_buffer = ''a''" "si_len demo_buffer = 1"
  by (simp_all add: si_wf_def si_bytes_def demo_buffer_def MaxAllocSize_def)

text \<open>Enlarging a buffer: the doubling loop always ends; a request that stays below the
  allocation limit gives the same contents with room for the request and a terminator, and any
  other request, a negative one included, is an error.\<close>

theorem enlarge_contract:
  assumes "si_wf s"
  shows "if 0 \<le> needed \<and> int (si_len s) + needed < int MaxAllocSize
    then \<exists>s'. enlargeStringInfo needed s = Inr s' \<and> si_wf s' \<and> si_bytes s' = si_bytes s \<and>
      int (si_len s') + needed < int (si_maxlen s')
    else \<exists>m. enlargeStringInfo needed s = Inl (PgError m)"
proof (cases "0 \<le> needed")
  case True
  then obtain n where n: "needed = int n" using nonneg_int_cases by blast
  show ?thesis
  proof (cases "si_len s + n < MaxAllocSize")
    case True
    then show ?thesis using enlargeStringInfo_ok [OF assms True] n by fastforce
  next
    case False
    then show ?thesis using enlargeStringInfo_full [OF assms, of n] n by simp
  qed
qed (simp add: enlargeStringInfo_def)

theorem enlarge_contract_witness:
  "\<exists>s'. enlargeStringInfo 5 demo_buffer = Inr s' \<and> si_wf s' \<and> si_bytes s' = ''a'' \<and>
     int (si_len s') + 5 < int (si_maxlen s')"
  using enlarge_contract [OF demo_buffer_wf(1), of 5] by (simp add: demo_buffer_wf MaxAllocSize_def)

text \<open>
  The outcome of an operation that appends \<open>bs\<close>: the buffer with the bytes, terminated, or an
  error because the limit would be reached.
\<close>

definition appended :: "StringInfoData \<Rightarrow> byte list \<Rightarrow> StringInfoData \<Rightarrow> bool" where
  "appended s bs s' \<longleftrightarrow> si_wf s' \<and> si_bytes s' = si_bytes s @ bs \<and> si_cursor s' = si_cursor s \<and> si_terminated s'"

definition append_outcome :: "StringInfoData \<Rightarrow> byte list \<Rightarrow> StringInfoData res \<Rightarrow> bool" where
  "append_outcome s bs r \<longleftrightarrow>
     (if si_len s + length bs < MaxAllocSize then \<exists>s'. r = Inr s' \<and> appended s bs s' else \<exists>m. r = Inl (PgError m))"

lemma appendBinaryStringInfo_outcome:
  assumes "si_wf s" and "length bs < 2 ^ 31"
  shows "append_outcome s bs (appendBinaryStringInfo bs s)"
  using assms appendBinaryStringInfo_ok [of s bs] appends_fullE [OF appendBinaryStringInfo_appends assms(1) _ assms(2)]
  by (auto simp: append_outcome_def appended_def not_less)

text \<open>Claim C39. The append operations on a well-formed terminated buffer. Those for a character, for spaces, for bytes and for
  a string add exactly their bytes, keep the invariant and leave the buffer terminated, or fail because the result would reach
  the allocation limit; the lengths are those of a C int. The variant without terminator adds the bytes likewise. The
  formatted append, which measures, enlarges and tries again, always ends: it has added the formatted text, terminated, or has
  refused a text that brings the buffer within 33 bytes of the limit. None of them writes outside the buffer.\<close>

theorem append_contract:
  assumes "si_wf s" and "si_terminated s" and "count < 2 ^ 31" and "length bs < 2 ^ 31" and "length (c_str str) < 2 ^ 31"
  shows "append_outcome s [ch] (appendStringInfoChar ch s) \<and>
    append_outcome s [ch] (appendStringInfoCharMacro ch s) \<and>
    append_outcome s (replicate (nat count) (CHR '' '')) (appendStringInfoSpaces count s) \<and>
    append_outcome s bs (appendBinaryStringInfo bs s) \<and>
    append_outcome s (c_str str) (appendStringInfoString str s) \<and>
    (if si_len s + length bs < MaxAllocSize
      then \<exists>s'. appendBinaryStringInfoNT bs s = Inr s' \<and> si_wf s' \<and> si_bytes s' = si_bytes s @ bs \<and> si_cursor s' = si_cursor s
      else \<exists>m. appendBinaryStringInfoNT bs s = Inl (PgError m)) \<and>
    ((\<exists>s'. appendStringInfo fmt s = Some (Inr s') \<and> appended s fmt s') \<or>
      (\<exists>m. appendStringInfo fmt s = Some (Inl (PgError m)) \<and> MaxAllocSize \<le> si_len s + length fmt + 33))"
proof -
  have ch: "append_outcome s [ch] (appendStringInfoChar ch s)"
    using assms(1) appendStringInfoChar_ok [OF assms(1), of ch] appends_fullE [OF appendStringInfoChar_appends assms(1), of ch]
    by (auto simp: append_outcome_def appended_def not_less)
  then have macro: "append_outcome s [ch] (appendStringInfoCharMacro ch s)" by (simp add: appendStringInfoCharMacro_eq)
  have spaces: "append_outcome s (replicate (nat count) (CHR '' '')) (appendStringInfoSpaces count s)"
  proof (cases "count > 0")
    case True
    then show ?thesis using appendBinaryStringInfo_outcome [OF assms(1), of "replicate (nat count) (CHR '' '')"] assms(3)
      by (simp add: appendStringInfoSpaces_eq nat_less_iff)
  next
    case False
    then show ?thesis using assms(1,2) by (auto simp: appendStringInfoSpaces_def append_outcome_def appended_def si_wf_def)
  qed
  have bin: "append_outcome s bs (appendBinaryStringInfo bs s)" by (rule appendBinaryStringInfo_outcome [OF assms(1,4)])
  have string: "append_outcome s (c_str str) (appendStringInfoString str s)"
    using appendBinaryStringInfo_outcome [OF assms(1,5)] by (simp add: appendStringInfoString_def)
  have nt: "if si_len s + length bs < MaxAllocSize
      then \<exists>s'. appendBinaryStringInfoNT bs s = Inr s' \<and> si_wf s' \<and> si_bytes s' = si_bytes s @ bs \<and> si_cursor s' = si_cursor s
      else \<exists>m. appendBinaryStringInfoNT bs s = Inl (PgError m)"
    using appendBinaryStringInfoNT_appends [of bs] assms(1,4) by (auto simp: appends_def)
  have fmt: "(\<exists>s'. appendStringInfo fmt s = Some (Inr s') \<and> appended s fmt s') \<or>
      (\<exists>m. appendStringInfo fmt s = Some (Inl (PgError m)) \<and> MaxAllocSize \<le> si_len s + length fmt + 33)"
    using appendStringInfo_ends [OF assms(1), of fmt] by (auto simp: appended_def)
  from ch macro spaces bin string nt fmt show ?thesis by (intro conjI)
qed

theorem append_contract_witness:
  "\<exists>s'. appendStringInfoSpaces 3 demo_buffer = Inr s' \<and> si_bytes s' = ''a   '' \<and> si_terminated s'"
proof -
  have "si_terminated demo_buffer" by (simp add: si_terminated_def demo_buffer_def)
  from append_contract [OF demo_buffer_wf(1) this, of 3 "[]" "[]"]
  have "append_outcome demo_buffer (replicate (nat 3) (CHR '' '')) (appendStringInfoSpaces 3 demo_buffer)" by simp
  then show ?thesis
    by (auto simp: append_outcome_def appended_def demo_buffer_wf MaxAllocSize_def c_str_def numeral_3_eq_3)
qed

text \<open>The formatting append measures, enlarges and tries again: the loop returns, with the
  formatted text appended, whenever the result stays below the allocation limit by the 32 bytes
  of its minimal request.\<close>

theorem appendStringInfo_total:
  assumes "si_wf s" and "si_len s + length str + 33 < MaxAllocSize"
  shows "\<exists>s'. appendStringInfo str s = Some (Inr s') \<and> si_wf s' \<and> si_bytes s' = si_bytes s @ str"
  using appendStringInfo_ok [OF assms] by blast

theorem appendStringInfo_total_witness:
  "\<exists>s'. appendStringInfo ''xyz'' demo_buffer = Some (Inr s') \<and> si_bytes s' = ''axyz''"
  using appendStringInfo_total [OF demo_buffer_wf(1), of "''xyz''"] by (auto simp: demo_buffer_wf MaxAllocSize_def)

end
