(* ===== verification/PqFormat.thy ===== *)
theory PqFormat
  imports StringInfo
begin

text \<open>
  The binary message routines of \<^verbatim>\<open>src/backend/libpq/pqformat.c\<close> and
  \<^verbatim>\<open>src/include/libpq/pqformat.h\<close>: fixed-width integers in network byte order,
  counted and NUL-terminated text, and the bounds-checked readers. The encoding conversions
  \<^verbatim>\<open>pg_server_to_client\<close> and \<^verbatim>\<open>pg_client_to_server\<close> are parameters
  (\<open>s2c\<close>, \<open>c2s\<close>): they depend on the encodings of two databases, and returning the
  argument itself models "no conversion needed".
\<close>

section \<open>Writing\<close>

definition pq_writeint8 :: "8 word \<Rightarrow> StringInfoData \<Rightarrow> StringInfoData res" where
  "pq_writeint8 i s = bindR (mem_write (si_data s) (si_len s) (be_bytes 1 (unat i)))
     (\<lambda>d. Inr (s\<lparr>si_data := d, si_len := si_len s + 1\<rparr>))"

definition pq_writeint16 :: "16 word \<Rightarrow> StringInfoData \<Rightarrow> StringInfoData res" where
  "pq_writeint16 i s = bindR (mem_write (si_data s) (si_len s) (be_bytes 2 (unat i)))
     (\<lambda>d. Inr (s\<lparr>si_data := d, si_len := si_len s + 2\<rparr>))"

definition pq_writeint32 :: "32 word \<Rightarrow> StringInfoData \<Rightarrow> StringInfoData res" where
  "pq_writeint32 i s = bindR (mem_write (si_data s) (si_len s) (be_bytes 4 (unat i)))
     (\<lambda>d. Inr (s\<lparr>si_data := d, si_len := si_len s + 4\<rparr>))"

definition pq_writeint64 :: "64 word \<Rightarrow> StringInfoData \<Rightarrow> StringInfoData res" where
  "pq_writeint64 i s = bindR (mem_write (si_data s) (si_len s) (be_bytes 8 (unat i)))
     (\<lambda>d. Inr (s\<lparr>si_data := d, si_len := si_len s + 8\<rparr>))"

definition pq_writestring :: "(cstring \<Rightarrow> cstring) \<Rightarrow> cstring \<Rightarrow> StringInfoData \<Rightarrow> StringInfoData res" where
  "pq_writestring s2c str s =
     (let p = s2c (c_str str);
          slen = (if p \<noteq> c_str str then length (c_str p) else length (c_str str))
      in bindR (mem_write (si_data s) (si_len s) (take slen p @ [NUL]))
           (\<lambda>d. Inr (s\<lparr>si_data := d, si_len := si_len s + slen + 1\<rparr>)))"

definition pq_sendint8 :: "8 word \<Rightarrow> StringInfoData \<Rightarrow> StringInfoData res" where
  "pq_sendint8 i s = bindR (enlargeStringInfo 1 s) (pq_writeint8 i)"

definition pq_sendint16 :: "16 word \<Rightarrow> StringInfoData \<Rightarrow> StringInfoData res" where
  "pq_sendint16 i s = bindR (enlargeStringInfo 2 s) (pq_writeint16 i)"

definition pq_sendint32 :: "32 word \<Rightarrow> StringInfoData \<Rightarrow> StringInfoData res" where
  "pq_sendint32 i s = bindR (enlargeStringInfo 4 s) (pq_writeint32 i)"

definition pq_sendint64 :: "64 word \<Rightarrow> StringInfoData \<Rightarrow> StringInfoData res" where
  "pq_sendint64 i s = bindR (enlargeStringInfo 8 s) (pq_writeint64 i)"

definition pq_sendbyte :: "8 word \<Rightarrow> StringInfoData \<Rightarrow> StringInfoData res" where
  "pq_sendbyte byt = pq_sendint8 byt"

definition pq_sendint :: "32 word \<Rightarrow> int \<Rightarrow> StringInfoData \<Rightarrow> StringInfoData res" where
  "pq_sendint i b s =
     (if b = 1 then pq_sendint8 (ucast i) s
      else if b = 2 then pq_sendint16 (ucast i) s
      else if b = 4 then pq_sendint32 i s
      else Inl (PgError ''unsupported integer size''))"

definition pq_sendbytes :: "byte list \<Rightarrow> StringInfoData \<Rightarrow> StringInfoData res" where
  "pq_sendbytes bs s = appendBinaryStringInfo bs s"

definition pq_sendcountedtext :: "(cstring \<Rightarrow> cstring) \<Rightarrow> byte list \<Rightarrow> StringInfoData \<Rightarrow> StringInfoData res" where
  "pq_sendcountedtext s2c str s =
     (let p = s2c str in
      if p \<noteq> str
      then bindR (pq_sendint32 (of_nat (length (c_str p))) s) (appendBinaryStringInfoNT (c_str p))
      else bindR (pq_sendint32 (of_nat (length str)) s) (appendBinaryStringInfoNT str))"

definition pq_sendtext :: "(cstring \<Rightarrow> cstring) \<Rightarrow> byte list \<Rightarrow> StringInfoData \<Rightarrow> StringInfoData res" where
  "pq_sendtext s2c str s =
     (let p = s2c str in
      if p \<noteq> str then appendBinaryStringInfo (c_str p) s
      else appendBinaryStringInfo str s)"

definition pq_sendstring :: "(cstring \<Rightarrow> cstring) \<Rightarrow> cstring \<Rightarrow> StringInfoData \<Rightarrow> StringInfoData res" where
  "pq_sendstring s2c str s =
     (let str = c_str str; p = s2c str in
      if p \<noteq> str then appendBinaryStringInfoNT (c_str p @ [NUL]) s
      else appendBinaryStringInfoNT (str @ [NUL]) s)"

fun pq_send_ascii_string :: "cstring \<Rightarrow> StringInfoData \<Rightarrow> StringInfoData res" where
  "pq_send_ascii_string [] s = appendStringInfoChar NUL s"
| "pq_send_ascii_string (ch # str) s =
     (if ch = NUL then appendStringInfoChar NUL s
      else bindR (appendStringInfoCharMacro (if uchar ch \<ge> 128 then CHR ''?'' else ch) s)
             (pq_send_ascii_string str))"

section \<open>Reading\<close>

type_synonym 'a reader = "StringInfoData \<Rightarrow> ('a \<times> StringInfoData) res"

definition advance :: "nat \<Rightarrow> StringInfoData \<Rightarrow> StringInfoData" where
  "advance n s = s\<lparr>si_cursor := si_cursor s + n\<rparr>"

definition pq_copymsgbytes :: "int \<Rightarrow> byte list reader" where
  "pq_copymsgbytes datalen s =
     (if datalen < 0 \<or> datalen > int (si_len s) - int (si_cursor s)
      then Inl (PgError ''insufficient data left in message'')
      else bindR (mem_read (si_data s) (si_cursor s) (nat datalen))
             (\<lambda>bs. Inr (bs, advance (nat datalen) s)))"

definition pq_getmsgbytes :: "int \<Rightarrow> byte list reader" where
  "pq_getmsgbytes datalen s =
     (if datalen < 0 \<or> datalen > int (si_len s) - int (si_cursor s)
      then Inl (PgError ''insufficient data left in message'')
      else bindR (mem_read (si_data s) (si_cursor s) (nat datalen))
             (\<lambda>bs. Inr (bs, advance (nat datalen) s)))"

definition pq_getmsgbyte :: "byte reader" where
  "pq_getmsgbyte s =
     (if si_cursor s \<ge> si_len s then Inl (PgError ''no data left in message'')
      else bindR (mem_read (si_data s) (si_cursor s) 1) (\<lambda>bs. Inr (hd bs, advance 1 s)))"

definition pq_getmsgint :: "int \<Rightarrow> 32 word reader" where
  "pq_getmsgint b s =
     (if b = 1 then bindR (pq_copymsgbytes 1 s) (\<lambda>(bs, s). Inr (of_nat (be_value bs), s))
      else if b = 2 then bindR (pq_copymsgbytes 2 s) (\<lambda>(bs, s). Inr (of_nat (be_value bs), s))
      else if b = 4 then bindR (pq_copymsgbytes 4 s) (\<lambda>(bs, s). Inr (of_nat (be_value bs), s))
      else Inl (PgError ''unsupported integer size''))"

definition pq_getmsgint64 :: "64 word reader" where
  "pq_getmsgint64 s = bindR (pq_copymsgbytes 8 s) (\<lambda>(bs, s). Inr (of_nat (be_value bs), s))"

definition pq_getmsgtext :: "(cstring \<Rightarrow> cstring) \<Rightarrow> int \<Rightarrow> (cstring \<times> nat) reader" where
  "pq_getmsgtext c2s rawbytes s =
     (if rawbytes < 0 \<or> rawbytes > int (si_len s) - int (si_cursor s)
      then Inl (PgError ''insufficient data left in message'')
      else bindR (mem_read (si_data s) (si_cursor s) (nat rawbytes))
        (\<lambda>str. let p = c2s str in
           if p \<noteq> str then Inr ((p, length (c_str p)), advance (nat rawbytes) s)
           else Inr ((str, nat rawbytes), advance (nat rawbytes) s)))"

definition pq_getmsgrawstring :: "cstring reader" where
  "pq_getmsgrawstring s =
     bindR (cells_strlen (drop (si_cursor s) (si_data s)))
       (\<lambda>slen. if si_cursor s + slen \<ge> si_len s then Inl (PgError ''invalid string in message'')
          else bindR (mem_read (si_data s) (si_cursor s) slen) (\<lambda>str. Inr (str, advance (slen + 1) s)))"

definition pq_getmsgstring :: "(cstring \<Rightarrow> cstring) \<Rightarrow> cstring reader" where
  "pq_getmsgstring c2s s =
     bindR (cells_strlen (drop (si_cursor s) (si_data s)))
       (\<lambda>slen. if si_cursor s + slen \<ge> si_len s then Inl (PgError ''invalid string in message'')
          else bindR (mem_read (si_data s) (si_cursor s) slen)
                 (\<lambda>str. Inr (c2s str, advance (slen + 1) s)))"

definition pq_getmsgend :: "unit reader" where
  "pq_getmsgend s =
     (if si_cursor s \<noteq> si_len s then Inl (PgError ''invalid message format'') else Inr ((), s))"

section \<open>What the writers append\<close>

lemma be_bytes_1: "be_bytes 1 n = [char_of n]"
  by simp

lemma pq_sendint_eq_append:
  "pq_sendint8 i8 = appendBinaryStringInfoNT (be_bytes 1 (unat i8))"
  "pq_sendint16 i16 = appendBinaryStringInfoNT (be_bytes 2 (unat i16))"
  "pq_sendint32 i32 = appendBinaryStringInfoNT (be_bytes 4 (unat i32))"
  "pq_sendint64 i64 = appendBinaryStringInfoNT (be_bytes 8 (unat i64))"
  by (intro ext, simp only: pq_sendint8_def pq_writeint8_def [abs_def] pq_sendint16_def
      pq_writeint16_def [abs_def] pq_sendint32_def pq_writeint32_def [abs_def] pq_sendint64_def
      pq_writeint64_def [abs_def], subst appendBinaryStringInfo_short(2), simp add: length_be_bytes,
      simp only: length_be_bytes of_nat_numeral of_nat_1)+

lemma pq_sendint_appends [write_intros]:
  "appends (pq_sendint8 i8) (be_bytes 1 (unat i8))"
  "appends (pq_sendint16 i16) (be_bytes 2 (unat i16))"
  "appends (pq_sendint32 i32) (be_bytes 4 (unat i32))"
  "appends (pq_sendint64 i64) (be_bytes 8 (unat i64))"
  unfolding pq_sendint_eq_append by (rule appendBinaryStringInfoNT_appends)+

lemma pq_sendbyte_appends [write_intros]: "appends (pq_sendbyte i) [char_of (unat i)]"
  using pq_sendint_appends(1) [of i] by (simp add: pq_sendbyte_def)

lemma pq_sendbytes_appends [write_intros]: "appends (pq_sendbytes bs) bs"
proof -
  have "pq_sendbytes bs = appendBinaryStringInfo bs" by (rule ext) (simp add: pq_sendbytes_def)
  then show ?thesis by (simp add: appendBinaryStringInfo_appends)
qed

lemma pq_sendint4_appends [write_intros]: "appends (pq_sendint i 4) (be_bytes 4 (unat i))"
proof -
  have "pq_sendint i 4 = pq_sendint32 i" by (rule ext) (simp add: pq_sendint_def)
  then show ?thesis by (simp only: pq_sendint_appends)
qed

text \<open>The text a conversion produces, as the C code measures it with \<^verbatim>\<open>strlen\<close>.\<close>

definition converted :: "(cstring \<Rightarrow> cstring) \<Rightarrow> byte list \<Rightarrow> byte list" where
  "converted conv str = (if conv str \<noteq> str then c_str (conv str) else str)"

lemma pq_sendcountedtext_appends [write_intros]:
  "appends (pq_sendcountedtext s2c str)
     (be_bytes 4 (unat (of_nat (length (converted s2c str)) :: 32 word)) @ converted s2c str)"
proof -
  have "pq_sendcountedtext s2c str = (\<lambda>s. bindR (pq_sendint32 (of_nat (length (converted s2c str))) s)
      (appendBinaryStringInfoNT (converted s2c str)))"
    by (rule ext) (simp add: pq_sendcountedtext_def converted_def Let_def)
  then show ?thesis
    using appends_bind [OF pq_sendint_appends(3) appendBinaryStringInfoNT_appends] by simp
qed

lemma pq_sendstring_appends [write_intros]:
  "appends (pq_sendstring s2c str) (converted s2c (c_str str) @ [NUL])"
proof -
  have "pq_sendstring s2c str = appendBinaryStringInfoNT (converted s2c (c_str str) @ [NUL])"
    by (rule ext) (simp add: pq_sendstring_def converted_def Let_def)
  then show ?thesis by (simp add: appendBinaryStringInfoNT_appends)
qed

lemma pq_sendtext_appends: "appends (pq_sendtext s2c str) (converted s2c str)"
proof -
  have "pq_sendtext s2c str = appendBinaryStringInfo (converted s2c str)"
    by (rule ext) (simp add: pq_sendtext_def converted_def Let_def)
  then show ?thesis by (simp add: appendBinaryStringInfo_appends)
qed

text \<open>The fallback writer sends only 7-bit characters, one per input byte, and a terminator.\<close>

lemma pq_send_ascii_string_appends:
  "appends (pq_send_ascii_string str)
     (map (\<lambda>ch. if uchar ch \<ge> 128 then CHR ''?'' else ch) (c_str str) @ [NUL])"
proof (induction str)
  case Nil
  have "pq_send_ascii_string [] = appendStringInfoChar NUL" by (rule ext) simp
  then show ?case using appendStringInfoChar_appends [of NUL] by (simp add: c_str_def)
next
  case (Cons ch str)
  show ?case
  proof (cases "ch = NUL")
    case True
    then have "pq_send_ascii_string (ch # str) = appendStringInfoChar NUL" by (intro ext) simp
    then show ?thesis using True appendStringInfoChar_appends [of NUL] by (simp add: c_str_def)
  next
    case False
    let ?c = "if uchar ch \<ge> 128 then CHR ''?'' else ch"
    have "pq_send_ascii_string (ch # str) =
        (\<lambda>s. bindR (appendStringInfoCharMacro ?c s) (pq_send_ascii_string str))"
      using False by (intro ext) simp
    then show ?thesis
      using appends_bind [OF appendStringInfoCharMacro_appends Cons.IH, of ?c] False
      by (simp add: c_str_def)
  qed
qed

section \<open>What the readers consume\<close>

text \<open>
  A received message: the bytes below \<^verbatim>\<open>len\<close> have been written, a NUL follows them
  (as \<^verbatim>\<open>PQgetCopyData\<close> and the append routines provide it), and the cursor is
  inside. \<open>remaining\<close> is what has not been read yet.
\<close>

definition msg_ok :: "StringInfoData \<Rightarrow> bool" where
  "msg_ok s \<longleftrightarrow> si_cursor s \<le> si_len s \<and> si_terminated s \<and> None \<notin> set (take (si_len s) (si_data s))"

definition remaining :: "StringInfoData \<Rightarrow> byte list" where
  "remaining s = drop (si_cursor s) (si_bytes s)"

definition parses :: "'a reader \<Rightarrow> byte list \<Rightarrow> 'a \<Rightarrow> bool" where
  "parses r bs x \<longleftrightarrow>
     (\<forall>s rest. msg_ok s \<longrightarrow> remaining s = bs @ rest \<longrightarrow> r s = Inr (x, advance (length bs) s))"

text \<open>The message that arrives when \<open>bs\<close> was sent.\<close>

definition received :: "byte list \<Rightarrow> StringInfoData" where
  "received bs = initReadOnlyStringInfo (map Some (bs @ [NUL])) (length bs)"

lemma received_ok [simp]: "msg_ok (received bs)" "remaining (received bs) = bs" "si_cursor (received bs) = 0"
  by (auto simp: received_def msg_ok_def initReadOnlyStringInfo_def si_terminated_def remaining_def
      si_bytes_def nth_append comp_def)

lemma advance_0 [simp]: "advance 0 s = s"
  by (simp add: advance_def)

lemma advance_advance [simp]: "advance m (advance n s) = advance (n + m) s"
  by (simp add: advance_def add.assoc)

lemma length_remaining: "msg_ok s \<Longrightarrow> length (remaining s) = si_len s - si_cursor s"
  by (simp add: msg_ok_def remaining_def si_bytes_def si_terminated_def)

lemma advance_ok:
  assumes "msg_ok s" and "remaining s = bs @ rest"
  shows "msg_ok (advance (length bs) s)" and "remaining (advance (length bs) s) = rest"
proof -
  have "length bs \<le> si_len s - si_cursor s" using length_remaining [OF assms(1)] assms(2) by simp
  with assms(1) show "msg_ok (advance (length bs) s)"
    by (auto simp: msg_ok_def advance_def si_terminated_def)
  have "drop (length bs) (remaining s) = rest" using assms(2) by simp
  then show "remaining (advance (length bs) s) = rest"
    by (simp add: remaining_def advance_def si_bytes_def add.commute)
qed

text \<open>The cells of a message from the cursor on.\<close>

lemma msg_cells:
  assumes "msg_ok s" and "remaining s = bs"
  shows "\<exists>junk. drop (si_cursor s) (si_data s) = map Some bs @ Some NUL # junk"
    and "length (take (si_cursor s) (si_data s)) = si_cursor s"
proof -
  let ?n = "si_len s"
  have n: "?n < length (si_data s)" "si_data s ! ?n = Some NUL" "si_cursor s \<le> ?n"
    and written: "None \<notin> set (take ?n (si_data s))"
    using assms(1) by (auto simp: msg_ok_def si_terminated_def)
  have "map Some (map the (take ?n (si_data s))) = take ?n (si_data s)"
    using written by (simp add: comp_def) (intro map_idI, metis option.exhaust_sel)
  then have "map Some bs = drop (si_cursor s) (take ?n (si_data s))"
    using assms(2) by (metis drop_map remaining_def si_bytes_def)
  moreover have "si_data s = take ?n (si_data s) @ Some NUL # drop (Suc ?n) (si_data s)"
    using n by (metis id_take_nth_drop)
  moreover have "length (take ?n (si_data s)) = ?n" using n by simp
  ultimately have "drop (si_cursor s) (si_data s) = map Some bs @ Some NUL # drop (Suc ?n) (si_data s)"
    using n(3) by (metis diff_is_0_eq' drop0 drop_append)
  then show "\<exists>junk. drop (si_cursor s) (si_data s) = map Some bs @ Some NUL # junk" ..
  show "length (take (si_cursor s) (si_data s)) = si_cursor s" using n by simp
qed

lemma mem_read_msg:
  assumes "msg_ok s" and "remaining s = bs @ rest"
  shows "mem_read (si_data s) (si_cursor s) (length bs) = Inr bs"
proof -
  obtain junk where "drop (si_cursor s) (si_data s) = map Some (bs @ rest) @ Some NUL # junk"
    using msg_cells(1) [OF assms] by blast
  then have "si_data s = take (si_cursor s) (si_data s) @ map Some bs @ (map Some rest @ Some NUL # junk)"
    by (metis append.assoc append_take_drop_id map_append)
  then show ?thesis
    by (rule mem_read_map_Some) (simp_all only: msg_cells(2) [OF assms] refl)
qed

lemma parsesI:
  assumes "\<And>s rest. msg_ok s \<Longrightarrow> remaining s = bs @ rest \<Longrightarrow> r s = Inr (x, advance (length bs) s)"
  shows "parses r bs x"
  using assms by (simp add: parses_def)

lemma parsesD:
  "parses r bs x \<Longrightarrow> msg_ok s \<Longrightarrow> remaining s = bs @ rest \<Longrightarrow> r s = Inr (x, advance (length bs) s)"
  by (simp add: parses_def)

lemma parses_received: "parses r bs x \<Longrightarrow> r (received bs) = Inr (x, advance (length bs) (received bs))"
  by (rule parsesD [where rest = "[]"]) auto

text \<open>One read after another.\<close>

lemma parses_return [parse_intros]: "parses (\<lambda>s. Inr (x, s)) [] x"
  by (rule parsesI) simp

lemma parses_bind:
  assumes "parses r bs x" and "parses (f x) cs y"
  shows "parses (\<lambda>s. bindR (r s) (\<lambda>(x, s). f x s)) (bs @ cs) y"
proof (rule parsesI)
  fix s rest assume s: "msg_ok s" "remaining s = (bs @ cs) @ rest"
  then have "remaining s = bs @ (cs @ rest)" by simp
  note next_ok = advance_ok [OF s(1) this] and first = parsesD [OF assms(1) s(1) this]
  from first parsesD [OF assms(2) next_ok]
  show "bindR (r s) (\<lambda>(x, s). f x s) = Inr (y, advance (length (bs @ cs)) s)" by simp
qed

subsection \<open>The readers\<close>

lemma pq_copymsgbytes_parses: "n = int (length bs) \<Longrightarrow> parses (pq_copymsgbytes n) bs bs"
proof (rule parsesI)
  fix s rest assume n: "n = int (length bs)" and s: "msg_ok s" "remaining s = bs @ rest"
  have "length bs \<le> si_len s - si_cursor s" "si_cursor s \<le> si_len s"
    using length_remaining [OF s(1)] s by (auto simp: msg_ok_def)
  then show "pq_copymsgbytes n s = Inr (bs, advance (length bs) s)"
    using mem_read_msg [OF s] n by (simp add: pq_copymsgbytes_def)
qed

lemma pq_getmsgbyte_parses [parse_intros]: "parses pq_getmsgbyte [c] c"
proof (rule parsesI)
  fix s rest assume s: "msg_ok s" "remaining s = [c] @ rest"
  have "si_cursor s < si_len s" using length_remaining [OF s(1)] s(2) by simp
  then show "pq_getmsgbyte s = Inr (c, advance (length [c]) s)"
    using mem_read_msg [OF s] by (simp add: pq_getmsgbyte_def)
qed

lemma be_value_word:
  "be_value (be_bytes 2 (unat h)) = unat h" "be_value (be_bytes 4 (unat w)) = unat w"
  "be_value (be_bytes 8 (unat d)) = unat d" for h :: "16 word" and w :: "32 word" and d :: "64 word"
  using unsigned_less [of h, where ?'a = nat] unsigned_less [of w, where ?'a = nat]
    unsigned_less [of d, where ?'a = nat] by (simp_all add: be_value_be_bytes)

lemma int_reader_parses:
  assumes "n = int (length bs)"
  shows "parses (\<lambda>s. bindR (pq_copymsgbytes n s) (\<lambda>(bs, s). Inr (f bs, s))) bs (f bs)"
  using parses_bind [OF pq_copymsgbytes_parses [OF assms] parses_return] by simp

lemma pq_getmsgint_parses [parse_intros]:
  "parses (pq_getmsgint 4) (be_bytes 4 (unat w)) w"
  "parses (pq_getmsgint 2) (be_bytes 2 (unat h)) (ucast h)"
  "parses (pq_getmsgint 1) [c] (of_nat (uchar c))" for w :: "32 word" and h :: "16 word"
proof -
  have "parses (\<lambda>s. bindR (pq_copymsgbytes 4 s) (\<lambda>(bs, s). Inr (of_nat (be_value bs) :: 32 word, s)))
      (be_bytes 4 (unat w)) (of_nat (be_value (be_bytes 4 (unat w))))"
    by (rule int_reader_parses) simp
  then show "parses (pq_getmsgint 4) (be_bytes 4 (unat w)) w"
    by (simp add: pq_getmsgint_def [abs_def] be_value_word del: be_bytes.simps)
  have "parses (\<lambda>s. bindR (pq_copymsgbytes 2 s) (\<lambda>(bs, s). Inr (of_nat (be_value bs) :: 32 word, s)))
      (be_bytes 2 (unat h)) (of_nat (be_value (be_bytes 2 (unat h))))"
    by (rule int_reader_parses) simp
  then show "parses (pq_getmsgint 2) (be_bytes 2 (unat h)) (ucast h)"
    by (simp add: pq_getmsgint_def [abs_def] be_value_word del: be_bytes.simps)
  have "parses (\<lambda>s. bindR (pq_copymsgbytes 1 s) (\<lambda>(bs, s). Inr (of_nat (be_value bs) :: 32 word, s)))
      [c] (of_nat (be_value [c]))"
    by (rule int_reader_parses) simp
  then show "parses (pq_getmsgint 1) [c] (of_nat (uchar c))"
    by (simp add: pq_getmsgint_def [abs_def] be_value_def)
qed

lemma pq_getmsgint64_parses [parse_intros]:
  "parses pq_getmsgint64 (be_bytes 8 (unat w)) w" for w :: "64 word"
proof -
  have "parses (\<lambda>s. bindR (pq_copymsgbytes 8 s) (\<lambda>(bs, s). Inr (of_nat (be_value bs) :: 64 word, s)))
      (be_bytes 8 (unat w)) (of_nat (be_value (be_bytes 8 (unat w))))"
    by (rule int_reader_parses) simp
  then show ?thesis by (simp add: pq_getmsgint64_def [abs_def] be_value_word del: be_bytes.simps)
qed

lemma pq_getmsgstring_parses:
  assumes "nul_free str"
  shows "parses (pq_getmsgstring c2s) (str @ [NUL]) (c2s str)"
proof (rule parsesI)
  fix s rest assume s: "msg_ok s" "remaining s = (str @ [NUL]) @ rest"
  obtain junk where "drop (si_cursor s) (si_data s) = map Some ((str @ [NUL]) @ rest) @ Some NUL # junk"
    using msg_cells(1) [OF s] by blast
  then have "cells_strlen (drop (si_cursor s) (si_data s)) = Inr (length str)"
    using cells_strlen_terminated [OF assms] by simp
  moreover have "si_cursor s + length str < si_len s" using length_remaining [OF s(1)] s(2) by simp
  moreover have "mem_read (si_data s) (si_cursor s) (length str) = Inr str"
    using mem_read_msg [OF s(1), of str "NUL # rest"] s(2) by simp
  ultimately show "pq_getmsgstring c2s s = Inr (c2s str, advance (length (str @ [NUL])) s)"
    by (simp add: pq_getmsgstring_def)
qed

subsection \<open>Reads never leave the message\<close>

text \<open>
  Whatever the bytes are, a reader that succeeds on a message leaves the cursor inside it,
  changes nothing else, and one that fails reports an error of the protocol: no access is
  outside the buffer or to an unwritten cell.
\<close>

definition safe_reader :: "'a reader \<Rightarrow> bool" where
  "safe_reader r \<longleftrightarrow>
     (\<forall>s. msg_ok s \<longrightarrow> (case r s of
         Inl e \<Rightarrow> (\<exists>m. e = PgError m)
       | Inr (_, s') \<Rightarrow> \<exists>n. s' = advance n s \<and> msg_ok s'))"

lemma safe_readerE:
  assumes "safe_reader r" and "msg_ok s"
  obtains (err) m where "r s = Inl (PgError m)"
  | (ok) x n where "r s = Inr (x, advance n s)" and "msg_ok (advance n s)"
proof (cases "r s")
  case (Inl e)
  with assms show thesis by (auto simp: safe_reader_def dest!: spec [of _ s] intro: err)
next
  case (Inr p)
  with assms show thesis by (cases p) (auto simp: safe_reader_def dest!: spec [of _ s] intro: ok)
qed

lemma safe_return [intro]: "safe_reader (\<lambda>s. Inr (x, s))"
  unfolding safe_reader_def by (auto intro: exI [of _ 0])

lemma safe_error [intro]: "safe_reader (\<lambda>s. Inl (PgError m))"
  unfolding safe_reader_def by auto

lemma safe_bind [intro]:
  assumes "safe_reader r" and "\<And>x. safe_reader (f x)"
  shows "safe_reader (\<lambda>s. bindR (r s) (\<lambda>(x, s). f x s))"
  unfolding safe_reader_def
proof (intro allI impI)
  fix s assume s: "msg_ok s"
  show "case bindR (r s) (\<lambda>(x, s). f x s) of Inl e \<Rightarrow> \<exists>m. e = PgError m
      | Inr (_, s') \<Rightarrow> \<exists>n. s' = advance n s \<and> msg_ok s'"
  proof (cases rule: safe_readerE [OF assms(1) s])
    case (2 x n)
    then show ?thesis by (cases rule: safe_readerE [OF assms(2) 2(2), of x]) auto
  qed simp
qed

lemma safe_if [intro]: "safe_reader r \<Longrightarrow> safe_reader q \<Longrightarrow> safe_reader (\<lambda>s. if b then r s else q s)"
  by (cases b) simp_all

lemma mem_read_inside:
  assumes "msg_ok s" and "si_cursor s + n \<le> si_len s"
  shows "\<exists>bs. mem_read (si_data s) (si_cursor s) n = Inr bs \<and> length bs = n" and "msg_ok (advance n s)"
proof -
  have n: "length (take n (remaining s)) = n" using length_remaining [OF assms(1)] assms(2) by simp
  from mem_read_msg [OF assms(1), of "take n (remaining s)" "drop n (remaining s)"] n
  show "\<exists>bs. mem_read (si_data s) (si_cursor s) n = Inr bs \<and> length bs = n" by auto
  from assms show "msg_ok (advance n s)" by (auto simp: msg_ok_def advance_def si_terminated_def)
qed

lemma pq_copymsgbytes_safe [intro]: "safe_reader (pq_copymsgbytes n)"
  unfolding safe_reader_def
proof (intro allI impI)
  fix s assume s: "msg_ok s"
  show "case pq_copymsgbytes n s of Inl e \<Rightarrow> \<exists>m. e = PgError m
      | Inr (_, s') \<Rightarrow> \<exists>n. s' = advance n s \<and> msg_ok s'"
  proof (cases "n < 0 \<or> n > int (si_len s) - int (si_cursor s)")
    case False
    then have "si_cursor s + nat n \<le> si_len s" by linarith
    from mem_read_inside [OF s this] False show ?thesis by (auto simp: pq_copymsgbytes_def)
  qed (simp add: pq_copymsgbytes_def)
qed

lemma pq_getmsgbytes_eq: "pq_getmsgbytes = pq_copymsgbytes"
  by (intro ext) (simp add: pq_getmsgbytes_def pq_copymsgbytes_def)

lemma pq_getmsgbyte_safe [intro]: "safe_reader pq_getmsgbyte"
  unfolding safe_reader_def
proof (intro allI impI)
  fix s assume s: "msg_ok s"
  show "case pq_getmsgbyte s of Inl e \<Rightarrow> \<exists>m. e = PgError m
      | Inr (_, s') \<Rightarrow> \<exists>n. s' = advance n s \<and> msg_ok s'"
  proof (cases "si_cursor s < si_len s")
    case True
    then have "si_cursor s + 1 \<le> si_len s" by simp
    from mem_read_inside [OF s this] True show ?thesis by (auto simp: pq_getmsgbyte_def)
  qed (simp add: pq_getmsgbyte_def)
qed

lemma pq_getmsgint_safe [intro]: "safe_reader (pq_getmsgint b)"
  unfolding pq_getmsgint_def [abs_def] by (intro safe_if safe_bind safe_return safe_error pq_copymsgbytes_safe)

lemma pq_getmsgint64_safe [intro]: "safe_reader pq_getmsgint64"
  unfolding pq_getmsgint64_def [abs_def] by (intro safe_bind safe_return pq_copymsgbytes_safe)

lemma cells_strlen_msg:
  "\<exists>n. cells_strlen (map Some bs @ Some NUL # junk) = Inr n \<and> n \<le> length bs"
  by (induction bs) auto

lemma pq_getmsgstring_safe [intro]: "safe_reader (pq_getmsgstring c2s)"
  unfolding safe_reader_def
proof (intro allI impI)
  fix s assume s: "msg_ok s"
  obtain junk where "drop (si_cursor s) (si_data s) = map Some (remaining s) @ Some NUL # junk"
    using msg_cells(1) [OF s refl] by blast
  then obtain n where n: "cells_strlen (drop (si_cursor s) (si_data s)) = Inr n"
    using cells_strlen_msg by metis
  show "case pq_getmsgstring c2s s of Inl e \<Rightarrow> \<exists>m. e = PgError m
      | Inr (_, s') \<Rightarrow> \<exists>n. s' = advance n s \<and> msg_ok s'"
  proof (cases "si_cursor s + n < si_len s")
    case True
    then obtain bs where "mem_read (si_data s) (si_cursor s) n = Inr bs"
      using mem_read_inside(1) [OF s, of n] by auto
    moreover have "msg_ok (advance (n + 1) s)" using mem_read_inside(2) [OF s, of "n + 1"] True by simp
    ultimately show ?thesis using n True by (auto simp: pq_getmsgstring_def)
  qed (simp add: pq_getmsgstring_def n)
qed

lemma pq_getmsgrawstring_eq: "pq_getmsgrawstring = pq_getmsgstring (\<lambda>s. s)"
  by (intro ext) (simp add: pq_getmsgrawstring_def pq_getmsgstring_def)

section \<open>Properties of the message format\<close>

text \<open>Integers cross the connection unchanged, at every width: what the send functions append,
  most significant byte first, is what the get functions read back.\<close>

theorem integers_roundtrip:
  "(\<exists>bs. appends (pq_sendint16 h) bs \<and> parses (pq_getmsgint 2) bs (ucast h)) \<and>
   (\<exists>bs. appends (pq_sendint32 w) bs \<and> parses (pq_getmsgint 4) bs w) \<and>
   (\<exists>bs. appends (pq_sendint64 d) bs \<and> parses pq_getmsgint64 bs d) \<and>
   (\<exists>bs. appends (pq_sendbyte b) bs \<and> parses pq_getmsgbyte bs (char_of (unat b)))"
  by (intro conjI exI) (rule pq_sendint_appends pq_sendbyte_appends pq_getmsgint_parses
      pq_getmsgint64_parses pq_getmsgbyte_parses)+

end
