(* ===== verification/LogicalProto.thy ===== *)
theory LogicalProto
  imports PqFormat
begin

text \<open>
  The logical replication wire protocol of \<^verbatim>\<open>src/backend/replication/logical/proto.c\<close>
  with the types of \<^verbatim>\<open>src/include/replication/logicalproto.h\<close>: every message
  writer the publisher calls and every reader the subscriber calls. The system catalogues and
  the type output functions of the publisher are a parameter (\<open>catalog\<close>), as are the two
  encoding conversions.
\<close>

unbundle bit_operations_syntax

section \<open>Message types\<close>

datatype LogicalRepMsgType =
    LOGICAL_REP_MSG_BEGIN | LOGICAL_REP_MSG_COMMIT | LOGICAL_REP_MSG_ORIGIN
  | LOGICAL_REP_MSG_INSERT | LOGICAL_REP_MSG_UPDATE | LOGICAL_REP_MSG_DELETE
  | LOGICAL_REP_MSG_TRUNCATE | LOGICAL_REP_MSG_RELATION | LOGICAL_REP_MSG_TYPE
  | LOGICAL_REP_MSG_MESSAGE | LOGICAL_REP_MSG_BEGIN_PREPARE | LOGICAL_REP_MSG_PREPARE
  | LOGICAL_REP_MSG_COMMIT_PREPARED | LOGICAL_REP_MSG_ROLLBACK_PREPARED
  | LOGICAL_REP_MSG_STREAM_START | LOGICAL_REP_MSG_STREAM_STOP
  | LOGICAL_REP_MSG_STREAM_COMMIT | LOGICAL_REP_MSG_STREAM_ABORT
  | LOGICAL_REP_MSG_STREAM_PREPARE

fun msg_char :: "LogicalRepMsgType \<Rightarrow> byte" where
  "msg_char LOGICAL_REP_MSG_BEGIN = CHR ''B''"
| "msg_char LOGICAL_REP_MSG_COMMIT = CHR ''C''"
| "msg_char LOGICAL_REP_MSG_ORIGIN = CHR ''O''"
| "msg_char LOGICAL_REP_MSG_INSERT = CHR ''I''"
| "msg_char LOGICAL_REP_MSG_UPDATE = CHR ''U''"
| "msg_char LOGICAL_REP_MSG_DELETE = CHR ''D''"
| "msg_char LOGICAL_REP_MSG_TRUNCATE = CHR ''T''"
| "msg_char LOGICAL_REP_MSG_RELATION = CHR ''R''"
| "msg_char LOGICAL_REP_MSG_TYPE = CHR ''Y''"
| "msg_char LOGICAL_REP_MSG_MESSAGE = CHR ''M''"
| "msg_char LOGICAL_REP_MSG_BEGIN_PREPARE = CHR ''b''"
| "msg_char LOGICAL_REP_MSG_PREPARE = CHR ''P''"
| "msg_char LOGICAL_REP_MSG_COMMIT_PREPARED = CHR ''K''"
| "msg_char LOGICAL_REP_MSG_ROLLBACK_PREPARED = CHR ''r''"
| "msg_char LOGICAL_REP_MSG_STREAM_START = CHR ''S''"
| "msg_char LOGICAL_REP_MSG_STREAM_STOP = CHR ''E''"
| "msg_char LOGICAL_REP_MSG_STREAM_COMMIT = CHR ''c''"
| "msg_char LOGICAL_REP_MSG_STREAM_ABORT = CHR ''A''"
| "msg_char LOGICAL_REP_MSG_STREAM_PREPARE = CHR ''p''"

text \<open>A character as the \<^verbatim>\<open>uint8\<close> that \<^verbatim>\<open>pq_sendbyte\<close> takes.\<close>

definition u8 :: "byte \<Rightarrow> 8 word" where
  "u8 c = of_nat (uchar c)"

lemma char_of_u8 [simp]: "char_of (unat (u8 c)) = c"
  using uchar_less [of c] by (simp add: u8_def unat_of_nat take_bit_eq_mod)

section \<open>Protocol data\<close>

record LogicalRepTupleData =
  colvalues :: "StringInfoData option list"
  colstatus :: "byte list"
  ncols :: nat

record LogicalRepRelation =
  remoteid :: "32 word"
  nspname :: cstring
  relname :: cstring
  natts :: nat
  attnames :: "cstring list"
  atttyps :: "Oid list"
  replident :: byte
  attkeys :: "nat list"

record LogicalRepTyp =
  typ_remoteid :: Oid
  typ_nspname :: cstring
  typ_typname :: cstring

record LogicalRepBeginData =
  bd_final_lsn :: XLogRecPtr
  bd_committime :: TimestampTz
  bd_xid :: TransactionId

record LogicalRepCommitData =
  cd_commit_lsn :: XLogRecPtr
  cd_end_lsn :: XLogRecPtr
  cd_committime :: TimestampTz

record LogicalRepPreparedTxnData =
  pd_prepare_lsn :: XLogRecPtr
  pd_end_lsn :: XLogRecPtr
  pd_prepare_time :: TimestampTz
  pd_xid :: TransactionId
  pd_gid :: cstring

record LogicalRepCommitPreparedTxnData =
  cp_commit_lsn :: XLogRecPtr
  cp_end_lsn :: XLogRecPtr
  cp_commit_time :: TimestampTz
  cp_xid :: TransactionId
  cp_gid :: cstring

record LogicalRepRollbackPreparedTxnData =
  rb_prepare_end_lsn :: XLogRecPtr
  rb_rollback_end_lsn :: XLogRecPtr
  rb_prepare_time :: TimestampTz
  rb_rollback_time :: TimestampTz
  rb_xid :: TransactionId
  rb_gid :: cstring

record LogicalRepStreamAbortData =
  ab_xid :: TransactionId
  ab_subxid :: TransactionId
  ab_abort_lsn :: XLogRecPtr
  ab_abort_time :: TimestampTz

text \<open>
  The fields of a decoded transaction that the writers and the output plugin read. The commit,
  prepare and abort times share storage (a C union), so they are one field; the pointer to the
  top-level transaction of a subtransaction is its transaction id.
\<close>

type_synonym RepOriginId = "16 word"

record ReorderBufferTXN =
  txn_xid :: TransactionId
  txn_final_lsn :: XLogRecPtr
  txn_end_lsn :: XLogRecPtr
  txn_xact_time :: TimestampTz
  txn_gid :: cstring
  txn_first_lsn :: XLogRecPtr
  txn_toptxn :: "TransactionId option"
  txn_origin_id :: RepOriginId
  txn_origin_lsn :: XLogRecPtr
  txn_is_streamed :: bool

text \<open>\<^verbatim>\<open>strlcpy\<close> into a buffer of \<^verbatim>\<open>GIDSIZE\<close> bytes.\<close>

definition GIDSIZE :: nat where
  "GIDSIZE = 200"

definition strlcpy :: "cstring \<Rightarrow> nat \<Rightarrow> cstring" where
  "strlcpy src siz = take (siz - 1) (c_str src)"

section \<open>Transaction messages\<close>

definition logicalrep_write_begin :: "ReorderBufferTXN \<Rightarrow> StringInfoData \<Rightarrow> StringInfoData res" where
  "logicalrep_write_begin txn =
     seq_writes [pq_sendbyte (u8 (msg_char LOGICAL_REP_MSG_BEGIN)),
       pq_sendint64 (txn_final_lsn txn),
       pq_sendint64 (txn_xact_time txn),
       pq_sendint32 (txn_xid txn)]"

definition logicalrep_read_begin :: "LogicalRepBeginData reader" where
  "logicalrep_read_begin s =
     bindR (pq_getmsgint64 s) (\<lambda>(final_lsn, s).
     if final_lsn = InvalidXLogRecPtr then Inl (PgError ''final_lsn not set in begin message'') else
     bindR (pq_getmsgint64 s) (\<lambda>(committime, s).
     bindR (pq_getmsgint 4 s) (\<lambda>(xid, s).
     Inr (\<lparr>bd_final_lsn = final_lsn, bd_committime = committime, bd_xid = xid\<rparr>, s))))"

definition logicalrep_write_commit ::
    "ReorderBufferTXN \<Rightarrow> XLogRecPtr \<Rightarrow> StringInfoData \<Rightarrow> StringInfoData res" where
  "logicalrep_write_commit txn commit_lsn =
     seq_writes [pq_sendbyte (u8 (msg_char LOGICAL_REP_MSG_COMMIT)),
       pq_sendbyte 0,
       pq_sendint64 commit_lsn,
       pq_sendint64 (txn_end_lsn txn),
       pq_sendint64 (txn_xact_time txn)]"

definition logicalrep_read_commit :: "LogicalRepCommitData reader" where
  "logicalrep_read_commit s =
     bindR (pq_getmsgbyte s) (\<lambda>(flags, s).
     if flags \<noteq> NUL then Inl (PgError ''unrecognized flags in commit message'') else
     bindR (pq_getmsgint64 s) (\<lambda>(commit_lsn, s).
     bindR (pq_getmsgint64 s) (\<lambda>(end_lsn, s).
     bindR (pq_getmsgint64 s) (\<lambda>(committime, s).
     Inr (\<lparr>cd_commit_lsn = commit_lsn, cd_end_lsn = end_lsn, cd_committime = committime\<rparr>, s)))))"

definition logicalrep_write_begin_prepare ::
    "(cstring \<Rightarrow> cstring) \<Rightarrow> ReorderBufferTXN \<Rightarrow> StringInfoData \<Rightarrow> StringInfoData res" where
  "logicalrep_write_begin_prepare s2c txn =
     seq_writes [pq_sendbyte (u8 (msg_char LOGICAL_REP_MSG_BEGIN_PREPARE)),
       pq_sendint64 (txn_final_lsn txn),
       pq_sendint64 (txn_end_lsn txn),
       pq_sendint64 (txn_xact_time txn),
       pq_sendint32 (txn_xid txn),
       pq_sendstring s2c (txn_gid txn)]"

definition logicalrep_read_begin_prepare :: "(cstring \<Rightarrow> cstring) \<Rightarrow> LogicalRepPreparedTxnData reader" where
  "logicalrep_read_begin_prepare c2s s =
     bindR (pq_getmsgint64 s) (\<lambda>(prepare_lsn, s).
     if prepare_lsn = InvalidXLogRecPtr then Inl (PgError ''prepare_lsn not set in begin prepare message'') else
     bindR (pq_getmsgint64 s) (\<lambda>(end_lsn, s).
     if end_lsn = InvalidXLogRecPtr then Inl (PgError ''end_lsn not set in begin prepare message'') else
     bindR (pq_getmsgint64 s) (\<lambda>(prepare_time, s).
     bindR (pq_getmsgint 4 s) (\<lambda>(xid, s).
     bindR (pq_getmsgstring c2s s) (\<lambda>(gid, s).
     Inr (\<lparr>pd_prepare_lsn = prepare_lsn, pd_end_lsn = end_lsn, pd_prepare_time = prepare_time,
           pd_xid = xid, pd_gid = strlcpy gid GIDSIZE\<rparr>, s))))))"

definition logicalrep_write_prepare_common ::
    "(cstring \<Rightarrow> cstring) \<Rightarrow> LogicalRepMsgType \<Rightarrow> ReorderBufferTXN \<Rightarrow> XLogRecPtr \<Rightarrow>
     StringInfoData \<Rightarrow> StringInfoData res" where
  "logicalrep_write_prepare_common s2c type txn prepare_lsn =
     seq_writes [pq_sendbyte (u8 (msg_char type)),
       pq_sendbyte 0,
       pq_sendint64 prepare_lsn,
       pq_sendint64 (txn_end_lsn txn),
       pq_sendint64 (txn_xact_time txn),
       pq_sendint32 (txn_xid txn),
       pq_sendstring s2c (txn_gid txn)]"

definition logicalrep_write_prepare ::
    "(cstring \<Rightarrow> cstring) \<Rightarrow> ReorderBufferTXN \<Rightarrow> XLogRecPtr \<Rightarrow> StringInfoData \<Rightarrow> StringInfoData res" where
  "logicalrep_write_prepare s2c txn prepare_lsn =
     logicalrep_write_prepare_common s2c LOGICAL_REP_MSG_PREPARE txn prepare_lsn"

definition logicalrep_read_prepare_common ::
    "(cstring \<Rightarrow> cstring) \<Rightarrow> string \<Rightarrow> LogicalRepPreparedTxnData reader" where
  "logicalrep_read_prepare_common c2s msgtype s =
     bindR (pq_getmsgbyte s) (\<lambda>(flags, s).
     if flags \<noteq> NUL then Inl (PgError (''unrecognized flags in '' @ msgtype @ '' message'')) else
     bindR (pq_getmsgint64 s) (\<lambda>(prepare_lsn, s).
     if prepare_lsn = InvalidXLogRecPtr
       then Inl (PgError (''prepare_lsn is not set in '' @ msgtype @ '' message'')) else
     bindR (pq_getmsgint64 s) (\<lambda>(end_lsn, s).
     if end_lsn = InvalidXLogRecPtr
       then Inl (PgError (''end_lsn is not set in '' @ msgtype @ '' message'')) else
     bindR (pq_getmsgint64 s) (\<lambda>(prepare_time, s).
     bindR (pq_getmsgint 4 s) (\<lambda>(xid, s).
     if xid = InvalidTransactionId
       then Inl (PgError (''invalid two-phase transaction ID in '' @ msgtype @ '' message'')) else
     bindR (pq_getmsgstring c2s s) (\<lambda>(gid, s).
     Inr (\<lparr>pd_prepare_lsn = prepare_lsn, pd_end_lsn = end_lsn, pd_prepare_time = prepare_time,
           pd_xid = xid, pd_gid = strlcpy gid GIDSIZE\<rparr>, s)))))))"

definition logicalrep_read_prepare :: "(cstring \<Rightarrow> cstring) \<Rightarrow> LogicalRepPreparedTxnData reader" where
  "logicalrep_read_prepare c2s s = logicalrep_read_prepare_common c2s ''prepare'' s"

definition logicalrep_write_commit_prepared ::
    "(cstring \<Rightarrow> cstring) \<Rightarrow> ReorderBufferTXN \<Rightarrow> XLogRecPtr \<Rightarrow> StringInfoData \<Rightarrow> StringInfoData res" where
  "logicalrep_write_commit_prepared s2c txn commit_lsn =
     seq_writes [pq_sendbyte (u8 (msg_char LOGICAL_REP_MSG_COMMIT_PREPARED)),
       pq_sendbyte 0,
       pq_sendint64 commit_lsn,
       pq_sendint64 (txn_end_lsn txn),
       pq_sendint64 (txn_xact_time txn),
       pq_sendint32 (txn_xid txn),
       pq_sendstring s2c (txn_gid txn)]"

definition logicalrep_read_commit_prepared ::
    "(cstring \<Rightarrow> cstring) \<Rightarrow> LogicalRepCommitPreparedTxnData reader" where
  "logicalrep_read_commit_prepared c2s s =
     bindR (pq_getmsgbyte s) (\<lambda>(flags, s).
     if flags \<noteq> NUL then Inl (PgError ''unrecognized flags in commit prepared message'') else
     bindR (pq_getmsgint64 s) (\<lambda>(commit_lsn, s).
     if commit_lsn = InvalidXLogRecPtr
       then Inl (PgError ''commit_lsn is not set in commit prepared message'') else
     bindR (pq_getmsgint64 s) (\<lambda>(end_lsn, s).
     if end_lsn = InvalidXLogRecPtr
       then Inl (PgError ''end_lsn is not set in commit prepared message'') else
     bindR (pq_getmsgint64 s) (\<lambda>(commit_time, s).
     bindR (pq_getmsgint 4 s) (\<lambda>(xid, s).
     bindR (pq_getmsgstring c2s s) (\<lambda>(gid, s).
     Inr (\<lparr>cp_commit_lsn = commit_lsn, cp_end_lsn = end_lsn, cp_commit_time = commit_time,
           cp_xid = xid, cp_gid = strlcpy gid GIDSIZE\<rparr>, s)))))))"

definition logicalrep_write_rollback_prepared ::
    "(cstring \<Rightarrow> cstring) \<Rightarrow> ReorderBufferTXN \<Rightarrow> XLogRecPtr \<Rightarrow> TimestampTz \<Rightarrow>
     StringInfoData \<Rightarrow> StringInfoData res" where
  "logicalrep_write_rollback_prepared s2c txn prepare_end_lsn prepare_time =
     seq_writes [pq_sendbyte (u8 (msg_char LOGICAL_REP_MSG_ROLLBACK_PREPARED)),
       pq_sendbyte 0,
       pq_sendint64 prepare_end_lsn,
       pq_sendint64 (txn_end_lsn txn),
       pq_sendint64 prepare_time,
       pq_sendint64 (txn_xact_time txn),
       pq_sendint32 (txn_xid txn),
       pq_sendstring s2c (txn_gid txn)]"

definition logicalrep_read_rollback_prepared ::
    "(cstring \<Rightarrow> cstring) \<Rightarrow> LogicalRepRollbackPreparedTxnData reader" where
  "logicalrep_read_rollback_prepared c2s s =
     bindR (pq_getmsgbyte s) (\<lambda>(flags, s).
     if flags \<noteq> NUL then Inl (PgError ''unrecognized flags in rollback prepared message'') else
     bindR (pq_getmsgint64 s) (\<lambda>(prepare_end_lsn, s).
     if prepare_end_lsn = InvalidXLogRecPtr
       then Inl (PgError ''prepare_end_lsn is not set in rollback prepared message'') else
     bindR (pq_getmsgint64 s) (\<lambda>(rollback_end_lsn, s).
     if rollback_end_lsn = InvalidXLogRecPtr
       then Inl (PgError ''rollback_end_lsn is not set in rollback prepared message'') else
     bindR (pq_getmsgint64 s) (\<lambda>(prepare_time, s).
     bindR (pq_getmsgint64 s) (\<lambda>(rollback_time, s).
     bindR (pq_getmsgint 4 s) (\<lambda>(xid, s).
     bindR (pq_getmsgstring c2s s) (\<lambda>(gid, s).
     Inr (\<lparr>rb_prepare_end_lsn = prepare_end_lsn, rb_rollback_end_lsn = rollback_end_lsn,
           rb_prepare_time = prepare_time, rb_rollback_time = rollback_time,
           rb_xid = xid, rb_gid = strlcpy gid GIDSIZE\<rparr>, s))))))))"

definition logicalrep_write_stream_prepare ::
    "(cstring \<Rightarrow> cstring) \<Rightarrow> ReorderBufferTXN \<Rightarrow> XLogRecPtr \<Rightarrow> StringInfoData \<Rightarrow> StringInfoData res" where
  "logicalrep_write_stream_prepare s2c txn prepare_lsn =
     logicalrep_write_prepare_common s2c LOGICAL_REP_MSG_STREAM_PREPARE txn prepare_lsn"

definition logicalrep_read_stream_prepare :: "(cstring \<Rightarrow> cstring) \<Rightarrow> LogicalRepPreparedTxnData reader" where
  "logicalrep_read_stream_prepare c2s s = logicalrep_read_prepare_common c2s ''stream prepare'' s"

definition logicalrep_write_origin ::
    "(cstring \<Rightarrow> cstring) \<Rightarrow> cstring \<Rightarrow> XLogRecPtr \<Rightarrow> StringInfoData \<Rightarrow> StringInfoData res" where
  "logicalrep_write_origin s2c origin origin_lsn =
     seq_writes [pq_sendbyte (u8 (msg_char LOGICAL_REP_MSG_ORIGIN)),
       pq_sendint64 origin_lsn,
       pq_sendstring s2c origin]"

definition logicalrep_read_origin :: "(cstring \<Rightarrow> cstring) \<Rightarrow> (cstring \<times> XLogRecPtr) reader" where
  "logicalrep_read_origin c2s s =
     bindR (pq_getmsgint64 s) (\<lambda>(origin_lsn, s).
     bindR (pq_getmsgstring c2s s) (\<lambda>(origin, s). Inr ((origin, origin_lsn), s)))"

section \<open>Streaming messages\<close>

definition logicalrep_write_stream_start ::
    "TransactionId \<Rightarrow> bool \<Rightarrow> StringInfoData \<Rightarrow> StringInfoData res" where
  "logicalrep_write_stream_start xid first_segment =
     seq_writes [pq_sendbyte (u8 (msg_char LOGICAL_REP_MSG_STREAM_START)),
       pq_sendint32 xid,
       pq_sendbyte (if first_segment then 1 else 0)]"

definition logicalrep_read_stream_start :: "(TransactionId \<times> bool) reader" where
  "logicalrep_read_stream_start s =
     bindR (pq_getmsgint 4 s) (\<lambda>(xid, s).
     bindR (pq_getmsgbyte s) (\<lambda>(b, s). Inr ((xid, uchar b = 1), s)))"

definition logicalrep_write_stream_stop :: "StringInfoData \<Rightarrow> StringInfoData res" where
  "logicalrep_write_stream_stop = pq_sendbyte (u8 (msg_char LOGICAL_REP_MSG_STREAM_STOP))"

definition logicalrep_write_stream_commit ::
    "ReorderBufferTXN \<Rightarrow> XLogRecPtr \<Rightarrow> StringInfoData \<Rightarrow> StringInfoData res" where
  "logicalrep_write_stream_commit txn commit_lsn =
     seq_writes [pq_sendbyte (u8 (msg_char LOGICAL_REP_MSG_STREAM_COMMIT)),
       pq_sendint32 (txn_xid txn),
       pq_sendbyte 0,
       pq_sendint64 commit_lsn,
       pq_sendint64 (txn_end_lsn txn),
       pq_sendint64 (txn_xact_time txn)]"

definition logicalrep_read_stream_commit :: "(TransactionId \<times> LogicalRepCommitData) reader" where
  "logicalrep_read_stream_commit s =
     bindR (pq_getmsgint 4 s) (\<lambda>(xid, s).
     bindR (pq_getmsgbyte s) (\<lambda>(flags, s).
     if flags \<noteq> NUL then Inl (PgError ''unrecognized flags in commit message'') else
     bindR (pq_getmsgint64 s) (\<lambda>(commit_lsn, s).
     bindR (pq_getmsgint64 s) (\<lambda>(end_lsn, s).
     bindR (pq_getmsgint64 s) (\<lambda>(committime, s).
     Inr ((xid, \<lparr>cd_commit_lsn = commit_lsn, cd_end_lsn = end_lsn, cd_committime = committime\<rparr>), s))))))"

definition logicalrep_write_stream_abort ::
    "TransactionId \<Rightarrow> TransactionId \<Rightarrow> XLogRecPtr \<Rightarrow> TimestampTz \<Rightarrow> bool \<Rightarrow>
     StringInfoData \<Rightarrow> StringInfoData res" where
  "logicalrep_write_stream_abort xid subxid abort_lsn abort_time write_abort_info =
     seq_writes (pq_sendbyte (u8 (msg_char LOGICAL_REP_MSG_STREAM_ABORT)) #
       pq_sendint32 xid #
       pq_sendint32 subxid #
       (if write_abort_info then [pq_sendint64 abort_lsn, pq_sendint64 abort_time] else []))"

definition logicalrep_read_stream_abort :: "bool \<Rightarrow> LogicalRepStreamAbortData reader" where
  "logicalrep_read_stream_abort read_abort_info s =
     bindR (pq_getmsgint 4 s) (\<lambda>(xid, s).
     bindR (pq_getmsgint 4 s) (\<lambda>(subxid, s).
     if read_abort_info
     then bindR (pq_getmsgint64 s) (\<lambda>(abort_lsn, s).
          bindR (pq_getmsgint64 s) (\<lambda>(abort_time, s).
          Inr (\<lparr>ab_xid = xid, ab_subxid = subxid, ab_abort_lsn = abort_lsn, ab_abort_time = abort_time\<rparr>, s)))
     else Inr (\<lparr>ab_xid = xid, ab_subxid = subxid, ab_abort_lsn = InvalidXLogRecPtr, ab_abort_time = 0\<rparr>, s)))"

section \<open>Relations, columns and rows of the publisher\<close>

text \<open>
  What the writers read of the publisher's caches. A \<^verbatim>\<open>Bitmapset\<close> is the list of its
  members, and the NULL pointer is the empty set, as \<^verbatim>\<open>bitmapset.c\<close> has it.
\<close>

type_synonym Bitmapset = "int list"

datatype PublishGencolsType = PUBLISH_GENCOLS_NONE | PUBLISH_GENCOLS_STORED

record Form_pg_attribute =
  attname :: cstring
  atttypid :: Oid
  attlen :: int
  attnum :: int
  atttypmod :: "32 word"
  attgenerated :: byte
  attisdropped :: bool
  attalignby :: nat
  atthasmissing :: bool

record Form_pg_type =
  typnamespace :: Oid
  typname :: cstring
  typsend :: Oid
  typoutput :: Oid

record Relation =
  rd_id :: Oid
  rd_namespace :: Oid
  rd_relname :: cstring
  rd_relreplident :: byte
  rd_att :: "Form_pg_attribute list"
  rd_identity_key :: Bitmapset
  rd_relkind :: byte
  rd_relpersistence :: byte
  rd_relispartition :: bool

record 'd catalog =
  get_namespace_name :: "Oid \<Rightarrow> cstring option"
  getBaseType :: "Oid \<Rightarrow> Oid"
  SearchSysCacheType :: "Oid \<Rightarrow> Form_pg_type option"
  OidSendFunctionCall :: "Oid \<Rightarrow> 'd \<Rightarrow> byte list"
  OidOutputFunctionCall :: "Oid \<Rightarrow> 'd \<Rightarrow> cstring"
  VARATT_IS_EXTERNAL_ONDISK :: "'d \<Rightarrow> bool"

record 'd TupleTableSlot =
  tts_values :: "'d list"
  tts_isnull :: "bool list"

abbreviation PG_CATALOG_NAMESPACE :: Oid where "PG_CATALOG_NAMESPACE \<equiv> 11"
abbreviation REPLICA_IDENTITY_FULL :: byte where "REPLICA_IDENTITY_FULL \<equiv> CHR ''f''"
abbreviation ATTRIBUTE_GENERATED_STORED :: byte where "ATTRIBUTE_GENERATED_STORED \<equiv> CHR ''s''"
abbreviation LOGICALREP_COLUMN_NULL :: byte where "LOGICALREP_COLUMN_NULL \<equiv> CHR ''n''"
abbreviation LOGICALREP_COLUMN_UNCHANGED :: byte where "LOGICALREP_COLUMN_UNCHANGED \<equiv> CHR ''u''"
abbreviation LOGICALREP_COLUMN_TEXT :: byte where "LOGICALREP_COLUMN_TEXT \<equiv> CHR ''t''"
abbreviation LOGICALREP_COLUMN_BINARY :: byte where "LOGICALREP_COLUMN_BINARY \<equiv> CHR ''b''"
abbreviation FirstLowInvalidHeapAttributeNumber :: int where "FirstLowInvalidHeapAttributeNumber \<equiv> - 7"

definition bms_is_member :: "int \<Rightarrow> Bitmapset \<Rightarrow> bool" where
  "bms_is_member x a \<longleftrightarrow> x \<in> set a"

definition logicalrep_should_publish_column ::
    "Form_pg_attribute \<Rightarrow> Bitmapset \<Rightarrow> PublishGencolsType \<Rightarrow> bool" where
  "logicalrep_should_publish_column att columns include_gencols_type =
     (if attisdropped att then False
      else if columns \<noteq> [] then bms_is_member (attnum att) columns
      else if attgenerated att = NUL then True
      else if attgenerated att = ATTRIBUTE_GENERATED_STORED
      then include_gencols_type = PUBLISH_GENCOLS_STORED
      else False)"

definition logicalrep_write_namespace ::
    "(cstring \<Rightarrow> cstring) \<Rightarrow> 'd catalog \<Rightarrow> Oid \<Rightarrow> StringInfoData \<Rightarrow> StringInfoData res" where
  "logicalrep_write_namespace s2c cat nspid s =
     (if nspid = PG_CATALOG_NAMESPACE then pq_sendbyte 0 s
      else case get_namespace_name cat nspid of
          None \<Rightarrow> Inl (PgError ''cache lookup failed for namespace'')
        | Some name \<Rightarrow> pq_sendstring s2c name s)"

definition logicalrep_read_namespace :: "(cstring \<Rightarrow> cstring) \<Rightarrow> cstring reader" where
  "logicalrep_read_namespace c2s s =
     bindR (pq_getmsgstring c2s s) (\<lambda>(name, s). Inr (if name = [] then ''pg_catalog'' else name, s))"

text \<open>One column of \<^verbatim>\<open>logicalrep_write_tuple\<close>.\<close>

definition write_column ::
    "(cstring \<Rightarrow> cstring) \<Rightarrow> 'd catalog \<Rightarrow> bool \<Rightarrow> Form_pg_attribute \<Rightarrow> 'd \<Rightarrow> bool \<Rightarrow>
     StringInfoData \<Rightarrow> StringInfoData res" where
  "write_column s2c cat binary att val isnull =
     (if isnull then pq_sendbyte (u8 LOGICALREP_COLUMN_NULL)
      else if attlen att = -1 \<and> VARATT_IS_EXTERNAL_ONDISK cat val
      then pq_sendbyte (u8 LOGICALREP_COLUMN_UNCHANGED)
      else case SearchSysCacheType cat (atttypid att) of
          None \<Rightarrow> (\<lambda>s. Inl (PgError ''cache lookup failed for type''))
        | Some typclass \<Rightarrow>
            if binary \<and> typsend typclass \<noteq> 0
            then let outputbytes = OidSendFunctionCall cat (typsend typclass) val in
              seq_writes [pq_sendbyte (u8 LOGICALREP_COLUMN_BINARY),
                pq_sendint (of_nat (length outputbytes)) 4,
                pq_sendbytes outputbytes]
            else let outputstr = OidOutputFunctionCall cat (typoutput typclass) val in
              seq_writes [pq_sendbyte (u8 LOGICALREP_COLUMN_TEXT),
                pq_sendcountedtext s2c (c_str outputstr)])"

text \<open>
  The columns of a row that are published, with their values: \<^verbatim>\<open>slot_getallattrs\<close>
  fills one value and one null flag per attribute of the relation.
\<close>

definition published_columns ::
    "Relation \<Rightarrow> 'd TupleTableSlot \<Rightarrow> Bitmapset \<Rightarrow> PublishGencolsType \<Rightarrow>
     (Form_pg_attribute \<times> 'd \<times> bool) list" where
  "published_columns rel slot columns gencols =
     filter (\<lambda>(att, val, isnull). logicalrep_should_publish_column att columns gencols)
       (zip (rd_att rel) (zip (tts_values slot) (tts_isnull slot)))"

definition nliveatts :: "Relation \<Rightarrow> Bitmapset \<Rightarrow> PublishGencolsType \<Rightarrow> 16 word" where
  "nliveatts rel columns gencols =
     of_nat (length (filter (\<lambda>att. logicalrep_should_publish_column att columns gencols) (rd_att rel)))"

definition logicalrep_write_tuple ::
    "(cstring \<Rightarrow> cstring) \<Rightarrow> 'd catalog \<Rightarrow> Relation \<Rightarrow> 'd TupleTableSlot \<Rightarrow> bool \<Rightarrow> Bitmapset \<Rightarrow>
     PublishGencolsType \<Rightarrow> StringInfoData \<Rightarrow> StringInfoData res" where
  "logicalrep_write_tuple s2c cat rel slot binary columns gencols =
     seq_writes (pq_sendint16 (nliveatts rel columns gencols) #
       map (\<lambda>(att, val, isnull). write_column s2c cat binary att val isnull)
         (published_columns rel slot columns gencols))"

text \<open>
  Reading a row. A column without data keeps the zeroed \<^verbatim>\<open>StringInfoData\<close> of
  \<^verbatim>\<open>palloc0\<close>, whose \<^verbatim>\<open>data\<close> pointer is NULL: \<^const>\<open>None\<close>. The length is
  read into a C int; \<^verbatim>\<open>palloc(len + 1)\<close> refuses sizes above the limit, which a
  negative sum becomes when it is converted to an unsigned size.
\<close>

definition read_column :: "(byte \<times> StringInfoData option) reader" where
  "read_column s =
     bindR (pq_getmsgbyte s) (\<lambda>(kind, s).
     if kind = LOGICALREP_COLUMN_NULL \<or> kind = LOGICALREP_COLUMN_UNCHANGED then Inr ((kind, None), s)
     else if kind = LOGICALREP_COLUMN_TEXT \<or> kind = LOGICALREP_COLUMN_BINARY then
       bindR (pq_getmsgint 4 s) (\<lambda>(len, s).
       if sint (len + 1) < 0 \<or> sint (len + 1) > int MaxAllocSize
       then Inl (PgError ''invalid memory alloc request size'')
       else bindR (pq_copymsgbytes (sint len) s) (\<lambda>(buff, s).
         Inr ((kind, Some (initStringInfoFromString (map Some (buff @ [NUL])) (length buff))), s)))
     else Inl (PgError ''unrecognized data representation type''))"

fun read_columns :: "nat \<Rightarrow> (byte \<times> StringInfoData option) list reader" where
  "read_columns 0 s = Inr ([], s)"
| "read_columns (Suc n) s =
     bindR (read_column s) (\<lambda>(col, s). bindR (read_columns n s) (\<lambda>(cols, s). Inr (col # cols, s)))"

definition logicalrep_read_tuple :: "LogicalRepTupleData reader" where
  "logicalrep_read_tuple s =
     bindR (pq_getmsgint 2 s) (\<lambda>(n, s).
     bindR (read_columns (unat n) s) (\<lambda>(cols, s).
     Inr (\<lparr>colvalues = map snd cols, colstatus = map fst cols, ncols = unat n\<rparr>, s)))"

section \<open>Row changes\<close>

text \<open>The transaction id is sent while streaming only.\<close>

definition xid_if_streaming :: "TransactionId \<Rightarrow> (StringInfoData \<Rightarrow> StringInfoData res) list" where
  "xid_if_streaming xid = (if xid \<noteq> InvalidTransactionId then [pq_sendint32 xid] else [])"

definition logicalrep_write_insert ::
    "(cstring \<Rightarrow> cstring) \<Rightarrow> 'd catalog \<Rightarrow> TransactionId \<Rightarrow> Relation \<Rightarrow> 'd TupleTableSlot \<Rightarrow> bool \<Rightarrow>
     Bitmapset \<Rightarrow> PublishGencolsType \<Rightarrow> StringInfoData \<Rightarrow> StringInfoData res" where
  "logicalrep_write_insert s2c cat xid rel newslot binary columns gencols =
     seq_writes (pq_sendbyte (u8 (msg_char LOGICAL_REP_MSG_INSERT)) # xid_if_streaming xid @
       [pq_sendint32 (rd_id rel),
        pq_sendbyte (u8 (CHR ''N'')),
        logicalrep_write_tuple s2c cat rel newslot binary columns gencols])"

definition logicalrep_read_insert :: "(32 word \<times> LogicalRepTupleData) reader" where
  "logicalrep_read_insert s =
     bindR (pq_getmsgint 4 s) (\<lambda>(relid, s).
     bindR (pq_getmsgbyte s) (\<lambda>(action, s).
     if action \<noteq> CHR ''N'' then Inl (PgError ''expected new tuple'') else
     bindR (logicalrep_read_tuple s) (\<lambda>(newtup, s). Inr ((relid, newtup), s))))"

definition old_tuple_tag :: "Relation \<Rightarrow> byte" where
  "old_tuple_tag rel = (if rd_relreplident rel = REPLICA_IDENTITY_FULL then CHR ''O'' else CHR ''K'')"

definition logicalrep_write_update ::
    "(cstring \<Rightarrow> cstring) \<Rightarrow> 'd catalog \<Rightarrow> TransactionId \<Rightarrow> Relation \<Rightarrow> 'd TupleTableSlot option \<Rightarrow>
     'd TupleTableSlot \<Rightarrow> bool \<Rightarrow> Bitmapset \<Rightarrow> PublishGencolsType \<Rightarrow> StringInfoData \<Rightarrow> StringInfoData res" where
  "logicalrep_write_update s2c cat xid rel oldslot newslot binary columns gencols =
     seq_writes (pq_sendbyte (u8 (msg_char LOGICAL_REP_MSG_UPDATE)) # xid_if_streaming xid @
       [pq_sendint32 (rd_id rel)] @
       (case oldslot of None \<Rightarrow> []
        | Some slot \<Rightarrow> [pq_sendbyte (u8 (old_tuple_tag rel)),
            logicalrep_write_tuple s2c cat rel slot binary columns gencols]) @
       [pq_sendbyte (u8 (CHR ''N'')),
        logicalrep_write_tuple s2c cat rel newslot binary columns gencols])"

definition logicalrep_read_update ::
    "(32 word \<times> LogicalRepTupleData option \<times> LogicalRepTupleData) reader" where
  "logicalrep_read_update s =
     bindR (pq_getmsgint 4 s) (\<lambda>(relid, s).
     bindR (pq_getmsgbyte s) (\<lambda>(action, s).
     if action \<noteq> CHR ''K'' \<and> action \<noteq> CHR ''O'' \<and> action \<noteq> CHR ''N''
     then Inl (PgError ''expected action N, O or K'')
     else bindR
       (if action = CHR ''K'' \<or> action = CHR ''O''
        then bindR (logicalrep_read_tuple s) (\<lambda>(oldtup, s).
             bindR (pq_getmsgbyte s) (\<lambda>(action, s). Inr ((Some oldtup, action), s)))
        else Inr ((None, action), s))
       (\<lambda>((oldtup, action), s).
        if action \<noteq> CHR ''N'' then Inl (PgError ''expected action N'') else
        bindR (logicalrep_read_tuple s) (\<lambda>(newtup, s). Inr ((relid, oldtup, newtup), s)))))"

definition logicalrep_write_delete ::
    "(cstring \<Rightarrow> cstring) \<Rightarrow> 'd catalog \<Rightarrow> TransactionId \<Rightarrow> Relation \<Rightarrow> 'd TupleTableSlot \<Rightarrow> bool \<Rightarrow>
     Bitmapset \<Rightarrow> PublishGencolsType \<Rightarrow> StringInfoData \<Rightarrow> StringInfoData res" where
  "logicalrep_write_delete s2c cat xid rel oldslot binary columns gencols =
     seq_writes (pq_sendbyte (u8 (msg_char LOGICAL_REP_MSG_DELETE)) # xid_if_streaming xid @
       [pq_sendint32 (rd_id rel),
        pq_sendbyte (u8 (old_tuple_tag rel)),
        logicalrep_write_tuple s2c cat rel oldslot binary columns gencols])"

definition logicalrep_read_delete :: "(32 word \<times> LogicalRepTupleData) reader" where
  "logicalrep_read_delete s =
     bindR (pq_getmsgint 4 s) (\<lambda>(relid, s).
     bindR (pq_getmsgbyte s) (\<lambda>(action, s).
     if action \<noteq> CHR ''K'' \<and> action \<noteq> CHR ''O'' then Inl (PgError ''expected action O or K'') else
     bindR (logicalrep_read_tuple s) (\<lambda>(oldtup, s). Inr ((relid, oldtup), s))))"

section \<open>Truncation, messages, relations and types\<close>

definition logicalrep_write_truncate ::
    "TransactionId \<Rightarrow> Oid list \<Rightarrow> bool \<Rightarrow> bool \<Rightarrow> StringInfoData \<Rightarrow> StringInfoData res" where
  "logicalrep_write_truncate xid relids cascade restart_seqs =
     seq_writes (pq_sendbyte (u8 (msg_char LOGICAL_REP_MSG_TRUNCATE)) # xid_if_streaming xid @
       [pq_sendint32 (of_nat (length relids)),
        pq_sendint8 ((if cascade then 1 else 0) OR (if restart_seqs then 2 else 0))] @
       map pq_sendint32 relids)"

fun read_oids :: "nat \<Rightarrow> Oid list reader" where
  "read_oids 0 s = Inr ([], s)"
| "read_oids (Suc n) s =
     bindR (pq_getmsgint 4 s) (\<lambda>(oid, s). bindR (read_oids n s) (\<lambda>(oids, s). Inr (oid # oids, s)))"

definition logicalrep_read_truncate :: "(Oid list \<times> bool \<times> bool) reader" where
  "logicalrep_read_truncate s =
     bindR (pq_getmsgint 4 s) (\<lambda>(nrelids, s).
     bindR (pq_getmsgint 1 s) (\<lambda>(flags, s).
     bindR (read_oids (nat (sint nrelids)) s) (\<lambda>(relids, s).
     Inr ((relids, bit flags 0, bit flags 1), s))))"

definition logicalrep_write_message ::
    "(cstring \<Rightarrow> cstring) \<Rightarrow> TransactionId \<Rightarrow> XLogRecPtr \<Rightarrow> bool \<Rightarrow> cstring \<Rightarrow> byte list \<Rightarrow>
     StringInfoData \<Rightarrow> StringInfoData res" where
  "logicalrep_write_message s2c xid lsn transactional prefix message =
     seq_writes (pq_sendbyte (u8 (msg_char LOGICAL_REP_MSG_MESSAGE)) # xid_if_streaming xid @
       [pq_sendint8 (if transactional then 1 else 0),
        pq_sendint64 lsn,
        pq_sendstring s2c prefix,
        pq_sendint32 (of_nat (length message)),
        pq_sendbytes message])"

text \<open>One attribute of \<^verbatim>\<open>logicalrep_write_attrs\<close>.\<close>

definition attr_flags :: "Relation \<Rightarrow> Form_pg_attribute \<Rightarrow> 8 word" where
  "attr_flags rel att =
     (let replidentfull = (rd_relreplident rel = REPLICA_IDENTITY_FULL);
          idattrs = (if replidentfull then [] else rd_identity_key rel)
      in if replidentfull \<or> bms_is_member (attnum att - FirstLowInvalidHeapAttributeNumber) idattrs
         then 1 else 0)"

definition write_attr ::
    "(cstring \<Rightarrow> cstring) \<Rightarrow> Relation \<Rightarrow> Form_pg_attribute \<Rightarrow> StringInfoData \<Rightarrow> StringInfoData res" where
  "write_attr s2c rel att =
     seq_writes [pq_sendbyte (attr_flags rel att),
       pq_sendstring s2c (attname att),
       pq_sendint32 (atttypid att),
       pq_sendint32 (atttypmod att)]"

definition logicalrep_write_attrs ::
    "(cstring \<Rightarrow> cstring) \<Rightarrow> Relation \<Rightarrow> Bitmapset \<Rightarrow> PublishGencolsType \<Rightarrow>
     StringInfoData \<Rightarrow> StringInfoData res" where
  "logicalrep_write_attrs s2c rel columns gencols =
     seq_writes (pq_sendint16 (nliveatts rel columns gencols) #
       map (write_attr s2c rel)
         (filter (\<lambda>att. logicalrep_should_publish_column att columns gencols) (rd_att rel)))"

text \<open>One attribute as it is read: whether it belongs to the key, its name and its type.\<close>

definition read_attr :: "(cstring \<Rightarrow> cstring) \<Rightarrow> (bool \<times> cstring \<times> Oid) reader" where
  "read_attr c2s s =
     bindR (pq_getmsgbyte s) (\<lambda>(flags, s).
     bindR (pq_getmsgstring c2s s) (\<lambda>(name, s).
     bindR (pq_getmsgint 4 s) (\<lambda>(typ, s).
     bindR (pq_getmsgint 4 s) (\<lambda>(_, s). Inr ((odd (uchar flags), name, typ), s)))))"

fun read_attrs :: "(cstring \<Rightarrow> cstring) \<Rightarrow> nat \<Rightarrow> (bool \<times> cstring \<times> Oid) list reader" where
  "read_attrs c2s 0 s = Inr ([], s)"
| "read_attrs c2s (Suc n) s =
     bindR (read_attr c2s s) (\<lambda>(a, s). bindR (read_attrs c2s n s) (\<lambda>(as, s). Inr (a # as, s)))"

definition logicalrep_read_attrs ::
    "(cstring \<Rightarrow> cstring) \<Rightarrow> LogicalRepRelation \<Rightarrow> LogicalRepRelation reader" where
  "logicalrep_read_attrs c2s rel s =
     bindR (pq_getmsgint 2 s) (\<lambda>(n, s).
     bindR (read_attrs c2s (unat n) s) (\<lambda>(as, s).
     Inr (rel\<lparr>attnames := map (fst \<circ> snd) as, atttyps := map (snd \<circ> snd) as,
             attkeys := filter (\<lambda>i. fst (as ! i)) [0..<unat n], natts := unat n\<rparr>, s)))"

definition logicalrep_write_rel ::
    "(cstring \<Rightarrow> cstring) \<Rightarrow> 'd catalog \<Rightarrow> TransactionId \<Rightarrow> Relation \<Rightarrow> Bitmapset \<Rightarrow>
     PublishGencolsType \<Rightarrow> StringInfoData \<Rightarrow> StringInfoData res" where
  "logicalrep_write_rel s2c cat xid rel columns gencols =
     seq_writes (pq_sendbyte (u8 (msg_char LOGICAL_REP_MSG_RELATION)) # xid_if_streaming xid @
       [pq_sendint32 (rd_id rel),
        logicalrep_write_namespace s2c cat (rd_namespace rel),
        pq_sendstring s2c (rd_relname rel),
        pq_sendbyte (u8 (rd_relreplident rel)),
        logicalrep_write_attrs s2c rel columns gencols])"

definition logicalrep_read_rel :: "(cstring \<Rightarrow> cstring) \<Rightarrow> LogicalRepRelation reader" where
  "logicalrep_read_rel c2s s =
     bindR (pq_getmsgint 4 s) (\<lambda>(rid, s).
     bindR (logicalrep_read_namespace c2s s) (\<lambda>(nsp, s).
     bindR (pq_getmsgstring c2s s) (\<lambda>(rname, s).
     bindR (pq_getmsgbyte s) (\<lambda>(ident, s).
     logicalrep_read_attrs c2s
       \<lparr>remoteid = rid, nspname = nsp, relname = rname, natts = 0, attnames = [], atttyps = [],
        replident = ident, attkeys = []\<rparr> s))))"

definition logicalrep_write_typ ::
    "(cstring \<Rightarrow> cstring) \<Rightarrow> 'd catalog \<Rightarrow> TransactionId \<Rightarrow> Oid \<Rightarrow> StringInfoData \<Rightarrow> StringInfoData res" where
  "logicalrep_write_typ s2c cat xid typoid =
     seq_writes (pq_sendbyte (u8 (msg_char LOGICAL_REP_MSG_TYPE)) # xid_if_streaming xid @
       [\<lambda>s. case SearchSysCacheType cat (getBaseType cat typoid) of
            None \<Rightarrow> Inl (PgError ''cache lookup failed for type'')
          | Some typtup \<Rightarrow>
              seq_writes [pq_sendint32 typoid,
                logicalrep_write_namespace s2c cat (typnamespace typtup),
                pq_sendstring s2c (typname typtup)] s])"

definition logicalrep_read_typ :: "(cstring \<Rightarrow> cstring) \<Rightarrow> LogicalRepTyp reader" where
  "logicalrep_read_typ c2s s =
     bindR (pq_getmsgint 4 s) (\<lambda>(rid, s).
     bindR (logicalrep_read_namespace c2s s) (\<lambda>(nsp, s).
     bindR (pq_getmsgstring c2s s) (\<lambda>(name, s).
     Inr (\<lparr>typ_remoteid = rid, typ_nspname = nsp, typ_typname = name\<rparr>, s))))"

section \<open>Names of the messages\<close>

definition logicalrep_message_type :: "byte \<Rightarrow> string" where
  "logicalrep_message_type action =
     (if action = msg_char LOGICAL_REP_MSG_BEGIN then ''BEGIN''
      else if action = msg_char LOGICAL_REP_MSG_COMMIT then ''COMMIT''
      else if action = msg_char LOGICAL_REP_MSG_ORIGIN then ''ORIGIN''
      else if action = msg_char LOGICAL_REP_MSG_INSERT then ''INSERT''
      else if action = msg_char LOGICAL_REP_MSG_UPDATE then ''UPDATE''
      else if action = msg_char LOGICAL_REP_MSG_DELETE then ''DELETE''
      else if action = msg_char LOGICAL_REP_MSG_TRUNCATE then ''TRUNCATE''
      else if action = msg_char LOGICAL_REP_MSG_RELATION then ''RELATION''
      else if action = msg_char LOGICAL_REP_MSG_TYPE then ''TYPE''
      else if action = msg_char LOGICAL_REP_MSG_MESSAGE then ''MESSAGE''
      else if action = msg_char LOGICAL_REP_MSG_BEGIN_PREPARE then ''BEGIN PREPARE''
      else if action = msg_char LOGICAL_REP_MSG_PREPARE then ''PREPARE''
      else if action = msg_char LOGICAL_REP_MSG_COMMIT_PREPARED then ''COMMIT PREPARED''
      else if action = msg_char LOGICAL_REP_MSG_ROLLBACK_PREPARED then ''ROLLBACK PREPARED''
      else if action = msg_char LOGICAL_REP_MSG_STREAM_START then ''STREAM START''
      else if action = msg_char LOGICAL_REP_MSG_STREAM_STOP then ''STREAM STOP''
      else if action = msg_char LOGICAL_REP_MSG_STREAM_COMMIT then ''STREAM COMMIT''
      else if action = msg_char LOGICAL_REP_MSG_STREAM_ABORT then ''STREAM ABORT''
      else if action = msg_char LOGICAL_REP_MSG_STREAM_PREPARE then ''STREAM PREPARE''
      else take 19 (''??? ('' @ show_nat (uchar action) @ '')''))"

end
