(* ===== verification/ProtoRoundtrip.thy ===== *)
theory ProtoRoundtrip
  imports LogicalProto
begin

text \<open>
  What the publisher writes is what the subscriber reads: for every message of
  \<^verbatim>\<open>proto.c\<close> that has a reader, the bytes the writer produces are parsed back to the
  same data and consumed exactly. The sequence readers (columns, attributes, relation ids)
  share one interface, \<open>wire_sequence\<close>.
\<close>

section \<open>Sending and receiving one message\<close>

text \<open>
  One message from a fresh buffer of the publisher to the subscriber: written, delivered,
  its type byte read, its body read, and checked to be fully consumed.
\<close>

definition transmit ::
    "(StringInfoData \<Rightarrow> StringInfoData res) \<Rightarrow> 'a reader \<Rightarrow> (byte \<times> 'a) res" where
  "transmit w r =
     bindR (bindR initStringInfo w) (\<lambda>out.
     bindR (pq_getmsgbyte (received (si_bytes out))) (\<lambda>(tag, s).
     bindR (r s) (\<lambda>(x, s). bindR (pq_getmsgend s) (\<lambda>_. Inr (tag, x)))))"

lemma transmit_eq:
  assumes w: "appends w ([c] @ bs)" and r: "parses r bs x" and fits: "length bs + 1 < MaxAllocSize"
  shows "transmit w r = Inr (c, x)"
proof -
  obtain s0 where s0: "initStringInfo = Inr s0" "si_wf s0" "si_bytes s0 = []" "si_len s0 = 0"
    using initStringInfo_ok by metis
  obtain out where out: "w s0 = Inr out" "si_bytes out = [c] @ bs"
    using appends_okE [OF w s0(2)] s0(3,4) fits by (metis Suc_eq_plus1 append_Nil length_Cons append_Cons add_0)
  let ?m = "received ([c] @ bs)"
  have rest: "msg_ok (advance 1 ?m)" "remaining (advance 1 ?m) = bs"
    using advance_ok [of ?m "[c]" bs] by simp_all
  have "pq_getmsgbyte ?m = Inr (c, advance 1 ?m)"
    using parsesD [OF pq_getmsgbyte_parses, of ?m c bs] by simp
  moreover have "r (advance 1 ?m) = Inr (x, advance (length bs) (advance 1 ?m))"
    using parsesD [OF r rest(1), of "[]"] rest(2) by simp
  moreover have "pq_getmsgend (advance (length bs) (advance 1 ?m)) = Inr ((), advance (1 + length bs) ?m)"
    by (simp add: pq_getmsgend_def advance_def received_def initReadOnlyStringInfo_def)
  ultimately show ?thesis
    unfolding transmit_def s0(1) bindR_Inr out by (simp only: bindR_Inr prod.case)
qed

text \<open>A text that survives the conversion to the subscriber's encoding and back.\<close>

definition survives :: "(cstring \<Rightarrow> cstring) \<Rightarrow> (cstring \<Rightarrow> cstring) \<Rightarrow> cstring \<Rightarrow> bool" where
  "survives s2c c2s str \<longleftrightarrow>
     nul_free str \<and> nul_free (converted s2c str) \<and> c2s (converted s2c str) = str"

lemma survives_id: "survives (\<lambda>s. s) (\<lambda>s. s) str \<longleftrightarrow> nul_free str"
  by (simp add: survives_def converted_def)

lemma parses_string [parse_intros]:
  "survives s2c c2s str \<Longrightarrow> parses (pq_getmsgstring c2s) (converted s2c (c_str str) @ [NUL]) str"
  using pq_getmsgstring_parses [of "converted s2c str" c2s] by (simp add: survives_def)

lemma parses_guard [parse_intros]:
  "\<not> b \<Longrightarrow> parses r bs x \<Longrightarrow> parses (\<lambda>s. if b then Inl e else r s) bs x"
  by simp

lemma pq_sendbyte_char [write_intros]: "appends (pq_sendbyte (u8 c)) [c]"
  using pq_sendbyte_appends [of "u8 c"] by simp

lemma pq_sendbyte_zero [write_intros]: "appends (pq_sendbyte 0) [NUL]"
  using pq_sendbyte_appends [of 0] by simp

lemma gid_kept: "length str < GIDSIZE \<Longrightarrow> nul_free str \<Longrightarrow> strlcpy str GIDSIZE = str"
  by (simp add: strlcpy_def GIDSIZE_def)

lemma not_NUL_NUL: "\<not> NUL \<noteq> NUL"
  by simp

section \<open>Transaction messages\<close>

lemma begin_appends:
  "appends (logicalrep_write_begin txn)
     ([msg_char LOGICAL_REP_MSG_BEGIN] @ be_bytes 8 (unat (txn_final_lsn txn)) @
      be_bytes 8 (unat (txn_xact_time txn)) @ be_bytes 4 (unat (txn_xid txn)) @ [])"
  unfolding logicalrep_write_begin_def by (rule write_intros)+

lemma begin_parses:
  assumes "final_lsn \<noteq> InvalidXLogRecPtr"
  shows "parses logicalrep_read_begin
     (be_bytes 8 (unat final_lsn) @ be_bytes 8 (unat time) @ be_bytes 4 (unat xid) @ [])
     \<lparr>bd_final_lsn = final_lsn, bd_committime = time, bd_xid = xid\<rparr>"
  unfolding logicalrep_read_begin_def [abs_def]
  by (rule parse_intros parses_bind assms)+

lemma commit_appends:
  "appends (logicalrep_write_commit txn commit_lsn)
     ([msg_char LOGICAL_REP_MSG_COMMIT] @ [NUL] @ be_bytes 8 (unat commit_lsn) @
      be_bytes 8 (unat (txn_end_lsn txn)) @ be_bytes 8 (unat (txn_xact_time txn)) @ [])"
  unfolding logicalrep_write_commit_def by (rule write_intros)+

lemma commit_parses:
  "parses logicalrep_read_commit
     ([NUL] @ be_bytes 8 (unat commit_lsn) @ be_bytes 8 (unat end_lsn) @ be_bytes 8 (unat time) @ [])
     \<lparr>cd_commit_lsn = commit_lsn, cd_end_lsn = end_lsn, cd_committime = time\<rparr>"
  unfolding logicalrep_read_commit_def [abs_def] by (rule parse_intros parses_bind not_NUL_NUL)+

lemma begin_prepare_appends:
  "appends (logicalrep_write_begin_prepare s2c txn)
     ([msg_char LOGICAL_REP_MSG_BEGIN_PREPARE] @ be_bytes 8 (unat (txn_final_lsn txn)) @
      be_bytes 8 (unat (txn_end_lsn txn)) @ be_bytes 8 (unat (txn_xact_time txn)) @
      be_bytes 4 (unat (txn_xid txn)) @ (converted s2c (c_str (txn_gid txn)) @ [NUL]) @ [])"
  unfolding logicalrep_write_begin_prepare_def by (rule write_intros)+

lemma begin_prepare_parses:
  assumes "prepare_lsn \<noteq> InvalidXLogRecPtr" and "end_lsn \<noteq> InvalidXLogRecPtr"
    and "survives s2c c2s gid"
  shows "parses (logicalrep_read_begin_prepare c2s)
     (be_bytes 8 (unat prepare_lsn) @ be_bytes 8 (unat end_lsn) @ be_bytes 8 (unat time) @
      be_bytes 4 (unat xid) @ (converted s2c (c_str gid) @ [NUL]) @ [])
     \<lparr>pd_prepare_lsn = prepare_lsn, pd_end_lsn = end_lsn, pd_prepare_time = time,
      pd_xid = xid, pd_gid = strlcpy gid GIDSIZE\<rparr>"
  unfolding logicalrep_read_begin_prepare_def [abs_def] by (rule parse_intros parses_bind assms)+

lemma prepare_common_appends:
  "appends (logicalrep_write_prepare_common s2c type txn prepare_lsn)
     ([msg_char type] @ [NUL] @ be_bytes 8 (unat prepare_lsn) @
      be_bytes 8 (unat (txn_end_lsn txn)) @ be_bytes 8 (unat (txn_xact_time txn)) @
      be_bytes 4 (unat (txn_xid txn)) @ (converted s2c (c_str (txn_gid txn)) @ [NUL]) @ [])"
  unfolding logicalrep_write_prepare_common_def by (rule write_intros)+

lemma prepare_common_parses:
  assumes "prepare_lsn \<noteq> InvalidXLogRecPtr" and "end_lsn \<noteq> InvalidXLogRecPtr"
    and "xid \<noteq> InvalidTransactionId" and "survives s2c c2s gid"
  shows "parses (logicalrep_read_prepare_common c2s msgtype)
     ([NUL] @ be_bytes 8 (unat prepare_lsn) @ be_bytes 8 (unat end_lsn) @ be_bytes 8 (unat time) @
      be_bytes 4 (unat xid) @ (converted s2c (c_str gid) @ [NUL]) @ [])
     \<lparr>pd_prepare_lsn = prepare_lsn, pd_end_lsn = end_lsn, pd_prepare_time = time,
      pd_xid = xid, pd_gid = strlcpy gid GIDSIZE\<rparr>"
  unfolding logicalrep_read_prepare_common_def [abs_def]
  by (rule parse_intros parses_bind assms not_NUL_NUL)+

lemma commit_prepared_appends:
  "appends (logicalrep_write_commit_prepared s2c txn commit_lsn)
     ([msg_char LOGICAL_REP_MSG_COMMIT_PREPARED] @ [NUL] @ be_bytes 8 (unat commit_lsn) @
      be_bytes 8 (unat (txn_end_lsn txn)) @ be_bytes 8 (unat (txn_xact_time txn)) @
      be_bytes 4 (unat (txn_xid txn)) @ (converted s2c (c_str (txn_gid txn)) @ [NUL]) @ [])"
  unfolding logicalrep_write_commit_prepared_def by (rule write_intros)+

lemma commit_prepared_parses:
  assumes "commit_lsn \<noteq> InvalidXLogRecPtr" and "end_lsn \<noteq> InvalidXLogRecPtr"
    and "survives s2c c2s gid"
  shows "parses (logicalrep_read_commit_prepared c2s)
     ([NUL] @ be_bytes 8 (unat commit_lsn) @ be_bytes 8 (unat end_lsn) @ be_bytes 8 (unat time) @
      be_bytes 4 (unat xid) @ (converted s2c (c_str gid) @ [NUL]) @ [])
     \<lparr>cp_commit_lsn = commit_lsn, cp_end_lsn = end_lsn, cp_commit_time = time,
      cp_xid = xid, cp_gid = strlcpy gid GIDSIZE\<rparr>"
  unfolding logicalrep_read_commit_prepared_def [abs_def]
  by (rule parse_intros parses_bind assms not_NUL_NUL)+

lemma rollback_prepared_appends:
  "appends (logicalrep_write_rollback_prepared s2c txn prepare_end_lsn prepare_time)
     ([msg_char LOGICAL_REP_MSG_ROLLBACK_PREPARED] @ [NUL] @ be_bytes 8 (unat prepare_end_lsn) @
      be_bytes 8 (unat (txn_end_lsn txn)) @ be_bytes 8 (unat prepare_time) @
      be_bytes 8 (unat (txn_xact_time txn)) @ be_bytes 4 (unat (txn_xid txn)) @
      (converted s2c (c_str (txn_gid txn)) @ [NUL]) @ [])"
  unfolding logicalrep_write_rollback_prepared_def by (rule write_intros)+

lemma rollback_prepared_parses:
  assumes "prepare_end_lsn \<noteq> InvalidXLogRecPtr" and "end_lsn \<noteq> InvalidXLogRecPtr"
    and "survives s2c c2s gid"
  shows "parses (logicalrep_read_rollback_prepared c2s)
     ([NUL] @ be_bytes 8 (unat prepare_end_lsn) @ be_bytes 8 (unat end_lsn) @
      be_bytes 8 (unat ptime) @ be_bytes 8 (unat time) @
      be_bytes 4 (unat xid) @ (converted s2c (c_str gid) @ [NUL]) @ [])
     \<lparr>rb_prepare_end_lsn = prepare_end_lsn, rb_rollback_end_lsn = end_lsn,
      rb_prepare_time = ptime, rb_rollback_time = time, rb_xid = xid, rb_gid = strlcpy gid GIDSIZE\<rparr>"
  unfolding logicalrep_read_rollback_prepared_def [abs_def]
  by (rule parse_intros parses_bind assms not_NUL_NUL)+

lemma origin_appends:
  "appends (logicalrep_write_origin s2c origin origin_lsn)
     ([msg_char LOGICAL_REP_MSG_ORIGIN] @ be_bytes 8 (unat origin_lsn) @
      (converted s2c (c_str origin) @ [NUL]) @ [])"
  unfolding logicalrep_write_origin_def by (rule write_intros)+

lemma origin_parses:
  assumes "survives s2c c2s origin"
  shows "parses (logicalrep_read_origin c2s)
     (be_bytes 8 (unat origin_lsn) @ (converted s2c (c_str origin) @ [NUL]) @ []) (origin, origin_lsn)"
  unfolding logicalrep_read_origin_def [abs_def] by (rule parse_intros parses_bind assms)+

section \<open>Streaming messages\<close>

lemma stream_start_appends:
  "appends (logicalrep_write_stream_start xid first_segment)
     ([msg_char LOGICAL_REP_MSG_STREAM_START] @ be_bytes 4 (unat xid) @
      [char_of (if first_segment then 1 else 0 :: nat)] @ [])"
proof -
  have "appends (pq_sendbyte (if first_segment then 1 else 0)) [char_of (if first_segment then 1 else 0 :: nat)]"
    using pq_sendbyte_appends [of "if first_segment then 1 else 0"] by (cases first_segment) simp_all
  then show ?thesis unfolding logicalrep_write_stream_start_def
    by (intro appends_seq_Cons appends_seq_Nil pq_sendbyte_char pq_sendint_appends)
qed

lemma stream_start_parses:
  "parses logicalrep_read_stream_start (be_bytes 4 (unat xid) @ [c] @ []) (xid, uchar c = 1)"
  unfolding logicalrep_read_stream_start_def [abs_def] by (rule parse_intros parses_bind)+

lemma stream_commit_appends:
  "appends (logicalrep_write_stream_commit txn commit_lsn)
     ([msg_char LOGICAL_REP_MSG_STREAM_COMMIT] @ be_bytes 4 (unat (txn_xid txn)) @ [NUL] @
      be_bytes 8 (unat commit_lsn) @ be_bytes 8 (unat (txn_end_lsn txn)) @
      be_bytes 8 (unat (txn_xact_time txn)) @ [])"
  unfolding logicalrep_write_stream_commit_def by (rule write_intros)+

lemma stream_commit_parses:
  "parses logicalrep_read_stream_commit
     (be_bytes 4 (unat xid) @ [NUL] @ be_bytes 8 (unat commit_lsn) @ be_bytes 8 (unat end_lsn) @
      be_bytes 8 (unat time) @ [])
     (xid, \<lparr>cd_commit_lsn = commit_lsn, cd_end_lsn = end_lsn, cd_committime = time\<rparr>)"
  unfolding logicalrep_read_stream_commit_def [abs_def] by (rule parse_intros parses_bind not_NUL_NUL)+

definition abort_info_bytes :: "XLogRecPtr \<Rightarrow> TimestampTz \<Rightarrow> bool \<Rightarrow> byte list" where
  "abort_info_bytes lsn time info =
     (if info then be_bytes 8 (unat lsn) @ be_bytes 8 (unat time) @ [] else [])"

lemma stream_abort_appends:
  "appends (logicalrep_write_stream_abort xid subxid lsn time info)
     ([msg_char LOGICAL_REP_MSG_STREAM_ABORT] @ be_bytes 4 (unat xid) @ be_bytes 4 (unat subxid) @
      abort_info_bytes lsn time info)"
  unfolding logicalrep_write_stream_abort_def abort_info_bytes_def
  by (cases info; simp only: if_True if_False) (rule write_intros)+

lemma stream_abort_parses:
  "parses (logicalrep_read_stream_abort info)
     (be_bytes 4 (unat xid) @ be_bytes 4 (unat subxid) @ abort_info_bytes lsn time info)
     \<lparr>ab_xid = xid, ab_subxid = subxid,
      ab_abort_lsn = (if info then lsn else InvalidXLogRecPtr),
      ab_abort_time = (if info then time else 0)\<rparr>"
  unfolding logicalrep_read_stream_abort_def [abs_def] abort_info_bytes_def
  by (cases info; simp only: if_True if_False) (rule parse_intros parses_bind)+

section \<open>Sequences on the wire\<close>

text \<open>
  A reader of one item and the loop that reads a given number of them. The loops of
  \<^verbatim>\<open>logicalrep_read_tuple\<close>, \<^verbatim>\<open>logicalrep_read_attrs\<close> and
  \<^verbatim>\<open>logicalrep_read_truncate\<close> are the instances.
\<close>

locale wire_sequence =
  fixes enc :: "'a \<Rightarrow> byte list" and valid :: "'a \<Rightarrow> bool" and view :: "'a \<Rightarrow> 'b"
    and dec :: "'b reader" and decs :: "nat \<Rightarrow> 'b list reader"
  assumes item: "valid x \<Longrightarrow> parses dec (enc x) (view x)"
    and loop_end: "decs 0 = (\<lambda>s. Inr ([], s))"
    and loop_step: "decs (Suc n) =
      (\<lambda>s. bindR (dec s) (\<lambda>(y, s). bindR (decs n s) (\<lambda>(ys, s). Inr (y # ys, s))))"
begin

lemma sequence_parses:
  "list_all valid xs \<Longrightarrow> parses (decs (length xs)) (concat (map enc xs)) (map view xs)"
proof (induction xs)
  case Nil
  then show ?case using parses_return by (simp add: loop_end)
next
  case (Cons x xs)
  then have step: "parses dec (enc x) (view x)"
      and rest: "parses (decs (length xs)) (concat (map enc xs)) (map view xs)"
    using item by simp_all
  have "parses (\<lambda>s. bindR (decs (length xs) s) (\<lambda>(ys, s). Inr (view x # ys, s)))
      (concat (map enc xs) @ []) (map view (x # xs))"
    using parses_bind [OF rest parses_return, of "\<lambda>ys. view x # ys"] by simp
  from parses_bind [where f = "\<lambda>y s. bindR (decs (length xs) s) (\<lambda>(ys, s). Inr (y # ys, s))", OF step this]
  show ?case by (simp add: loop_step)
qed

end

section \<open>Rows\<close>

text \<open>What a column looks like to the reader: its kind and, unless it is null or unchanged, its bytes.\<close>

definition column_image ::
    "(cstring \<Rightarrow> cstring) \<Rightarrow> 'd catalog \<Rightarrow> bool \<Rightarrow> Form_pg_attribute \<times> 'd \<times> bool \<Rightarrow> (byte \<times> byte list option) option" where
  "column_image s2c cat binary = (\<lambda>(att, val, isnull).
     if isnull then Some (LOGICALREP_COLUMN_NULL, None)
     else if attlen att = -1 \<and> VARATT_IS_EXTERNAL_ONDISK cat val
     then Some (LOGICALREP_COLUMN_UNCHANGED, None)
     else map_option (\<lambda>typ.
        if binary \<and> typsend typ \<noteq> 0
        then (LOGICALREP_COLUMN_BINARY, Some (OidSendFunctionCall cat (typsend typ) val))
        else (LOGICALREP_COLUMN_TEXT,
              Some (converted s2c (c_str (OidOutputFunctionCall cat (typoutput typ) val)))))
      (SearchSysCacheType cat (atttypid att)))"

fun column_bytes :: "byte \<times> byte list option \<Rightarrow> byte list" where
  "column_bytes (kind, None) = [kind]"
| "column_bytes (kind, Some data) = [kind] @ be_bytes 4 (unat (of_nat (length data) :: 32 word)) @ data"

definition column_view :: "byte \<times> byte list option \<Rightarrow> byte \<times> StringInfoData option" where
  "column_view = map_prod id (map_option (\<lambda>data. initStringInfoFromString (map Some (data @ [NUL])) (length data)))"

definition column_valid :: "byte \<times> byte list option \<Rightarrow> bool" where
  "column_valid col \<longleftrightarrow>
     (case col of (kind, None) \<Rightarrow> kind = LOGICALREP_COLUMN_NULL \<or> kind = LOGICALREP_COLUMN_UNCHANGED
      | (kind, Some data) \<Rightarrow> (kind = LOGICALREP_COLUMN_TEXT \<or> kind = LOGICALREP_COLUMN_BINARY)
          \<and> length data < MaxAllocSize)"

lemma write_column_appends:
  assumes "column_image s2c cat binary (att, val, isnull) = Some img"
  shows "appends (write_column s2c cat binary att val isnull) (column_bytes img)"
proof (cases "isnull \<or> attlen att = -1 \<and> VARATT_IS_EXTERNAL_ONDISK cat val")
  case True
  with assms show ?thesis
    by (auto simp: write_column_def column_image_def pq_sendbyte_char split: if_splits)
next
  case False
  with assms obtain ty where ty: "SearchSysCacheType cat (atttypid att) = Some ty"
    by (auto simp: column_image_def)
  show ?thesis
  proof (cases "binary \<and> typsend ty \<noteq> 0")
    case True
    let ?d = "OidSendFunctionCall cat (typsend ty) val"
    have "appends (seq_writes [pq_sendbyte (u8 LOGICALREP_COLUMN_BINARY), pq_sendint (of_nat (length ?d)) 4,
        pq_sendbytes ?d]) ([LOGICALREP_COLUMN_BINARY] @ be_bytes 4 (unat (of_nat (length ?d) :: 32 word)) @ ?d @ [])"
      by (rule write_intros)+
    with True False ty assms show ?thesis by (auto simp: write_column_def column_image_def Let_def)
  next
    case as_text: False
    let ?t = "c_str (OidOutputFunctionCall cat (typoutput ty) val)"
    have "appends (seq_writes [pq_sendbyte (u8 LOGICALREP_COLUMN_TEXT), pq_sendcountedtext s2c ?t])
        ([LOGICALREP_COLUMN_TEXT] @ (be_bytes 4 (unat (of_nat (length (converted s2c ?t)) :: 32 word)) @
          converted s2c ?t) @ [])"
      by (rule write_intros)+
    with as_text False ty assms show ?thesis by (auto simp: write_column_def column_image_def Let_def)
  qed
qed

lemma sint_of_small_nat: "n < 2 ^ 31 \<Longrightarrow> sint (of_nat n :: 32 word) = int n"
proof -
  assume n: "n < 2 ^ 31"
  then have "take_bit 32 (int n) = int n" by (simp add: take_bit_int_eq_self_iff)
  moreover have "signed_take_bit 31 (int n) = int n" using n by (simp add: signed_take_bit_int_eq_self_iff)
  ultimately show ?thesis by (simp add: sint_uint unsigned_of_nat of_nat_take_bit)
qed

lemma small_length_word:
  assumes "n < MaxAllocSize"
  shows "sint (of_nat n :: 32 word) = int n" and "sint (of_nat n + 1 :: 32 word) = int n + 1"
proof -
  have n: "n + 1 < 2 ^ 31" using assms by (simp add: MaxAllocSize_def)
  then show "sint (of_nat n :: 32 word) = int n" by (intro sint_of_small_nat) simp
  show "sint (of_nat n + 1 :: 32 word) = int n + 1" using sint_of_small_nat [OF n] by (simp add: add.commute)
qed

lemma read_column_parses:
  assumes "column_valid col"
  shows "parses read_column (column_bytes col) (column_view col)"
proof (cases col rule: column_bytes.cases)
  case (1 kind)
  then have kind: "kind = LOGICALREP_COLUMN_NULL \<or> kind = LOGICALREP_COLUMN_UNCHANGED"
    using assms by (simp add: column_valid_def)
  have "parses read_column ([kind] @ []) (kind, None)"
    unfolding read_column_def [abs_def]
    by (rule parses_bind, rule pq_getmsgbyte_parses, simp only: kind if_True, rule parses_return)
  with 1 show ?thesis by (simp add: column_view_def)
next
  case (2 kind data)
  then have kind: "\<not> (kind = LOGICALREP_COLUMN_NULL \<or> kind = LOGICALREP_COLUMN_UNCHANGED)"
      "kind = LOGICALREP_COLUMN_TEXT \<or> kind = LOGICALREP_COLUMN_BINARY"
      and len: "length data < MaxAllocSize"
    using assms by (auto simp: column_valid_def)
  let ?w = "of_nat (length data) :: 32 word"
  have fits: "\<not> (sint (?w + 1) < 0 \<or> sint (?w + 1) > int MaxAllocSize)" "sint ?w = int (length data)"
    using small_length_word [OF len] len by simp_all
  have "parses read_column ([kind] @ be_bytes 4 (unat ?w) @ data @ []) (column_view (kind, Some data))"
    unfolding read_column_def [abs_def] column_view_def
    by (rule parses_bind, rule pq_getmsgbyte_parses, simp only: kind if_False if_True map_prod_simp id_apply option.map,
        rule parses_bind, rule pq_getmsgint_parses(1), simp only: fits if_False,
        rule parses_bind, rule pq_copymsgbytes_parses, rule refl, rule parses_return)
  with 2 show ?thesis by simp
qed

interpretation cols: wire_sequence column_bytes column_valid column_view read_column read_columns
  by unfold_locales (auto simp: read_column_parses intro!: ext)

interpretation oids: wire_sequence "\<lambda>oid. be_bytes 4 (unat oid)" "\<lambda>_. True" id "pq_getmsgint 4" read_oids
  by unfold_locales (auto simp: pq_getmsgint_parses(1) simp del: be_bytes.simps intro!: ext)

lemma column_image_valid:
  assumes "column_image s2c cat binary col = Some img" and "length (column_bytes img) < MaxAllocSize"
  shows "column_valid img"
  using assms by (cases col) (auto simp: column_image_def column_valid_def split: if_splits)

text \<open>The published columns of a row as they travel, and the row the subscriber rebuilds.\<close>

definition row_image ::
    "(cstring \<Rightarrow> cstring) \<Rightarrow> 'd catalog \<Rightarrow> Relation \<Rightarrow> 'd TupleTableSlot \<Rightarrow> bool \<Rightarrow> Bitmapset \<Rightarrow>
     PublishGencolsType \<Rightarrow> (byte \<times> byte list option) list option" where
  "row_image s2c cat rel slot binary columns gencols =
     those (map (column_image s2c cat binary) (published_columns rel slot columns gencols))"

definition row_bytes :: "(byte \<times> byte list option) list \<Rightarrow> byte list" where
  "row_bytes imgs = be_bytes 2 (unat (of_nat (length imgs) :: 16 word)) @ concat (map column_bytes imgs)"

definition row_view :: "(byte \<times> byte list option) list \<Rightarrow> LogicalRepTupleData" where
  "row_view imgs = \<lparr>colvalues = map (snd \<circ> column_view) imgs, colstatus = map fst imgs,
                    ncols = length imgs\<rparr>"

text \<open>A slot has one value and one null flag per attribute of its relation.\<close>

definition slot_of :: "Relation \<Rightarrow> 'd TupleTableSlot \<Rightarrow> bool" where
  "slot_of rel slot \<longleftrightarrow>
     length (tts_values slot) = length (rd_att rel) \<and> length (tts_isnull slot) = length (rd_att rel)"

lemma filter_zip_fst: "length xs = length ys \<Longrightarrow> map fst (filter (\<lambda>p. P (fst p)) (zip xs ys)) = filter P xs"
  by (induction xs ys rule: list_induct2) auto

lemma those_Some_iff: "those ys = Some zs \<longleftrightarrow> ys = map Some zs"
  by (induction ys arbitrary: zs) (auto split: option.splits)

lemma map_image_the:
  assumes "map f xs = map Some ys"
  shows "length xs = length ys" and "map (\<lambda>x. g (the (f x))) xs = map g ys"
proof -
  show "length xs = length ys" using assms by (metis length_map)
  have "map (g \<circ> the) (map f xs) = map (g \<circ> the) (map Some ys)" using assms by simp
  then show "map (\<lambda>x. g (the (f x))) xs = map g ys" by (simp add: comp_def)
qed

lemma map_eq_Some_member:
  assumes "map f xs = map Some ys" and "x \<in> set xs"
  shows "\<exists>y. f x = Some y"
proof -
  have "f x \<in> set (map Some ys)" using assms(2) unfolding assms(1) [symmetric] by simp
  then show ?thesis by auto
qed

lemma map_eq_Some_preimage:
  assumes "map f xs = map Some ys" and "y \<in> set ys"
  shows "\<exists>x. f x = Some y"
proof -
  have "Some y \<in> set (map f xs)" using assms(2) unfolding assms(1) by simp
  then show ?thesis by auto
qed

lemma row_image_iff:
  "row_image s2c cat rel slot binary columns gencols = Some imgs \<longleftrightarrow>
     map (column_image s2c cat binary) (published_columns rel slot columns gencols) = map Some imgs"
  by (simp add: row_image_def those_Some_iff)

lemma nliveatts_published:
  assumes "slot_of rel slot"
  shows "nliveatts rel columns gencols = of_nat (length (published_columns rel slot columns gencols))"
proof -
  let ?P = "\<lambda>att. logicalrep_should_publish_column att columns gencols"
  have "filter ?P (rd_att rel) = map fst (published_columns rel slot columns gencols)"
    using filter_zip_fst [of "rd_att rel" "zip (tts_values slot) (tts_isnull slot)" ?P] assms
    by (simp add: published_columns_def slot_of_def case_prod_unfold)
  then show ?thesis by (simp add: nliveatts_def)
qed

lemma write_tuple_appends:
  assumes "slot_of rel slot" and img: "row_image s2c cat rel slot binary columns gencols = Some imgs"
  shows "appends (logicalrep_write_tuple s2c cat rel slot binary columns gencols) (row_bytes imgs)"
proof -
  let ?cols = "published_columns rel slot columns gencols"
  let ?enc = "\<lambda>col. column_bytes (the (column_image s2c cat binary col))"
  have imgs: "map (column_image s2c cat binary) ?cols = map Some imgs" using img by (simp add: row_image_iff)
  then have len: "length ?cols = length imgs" and enc: "map ?enc ?cols = map column_bytes imgs"
    using map_image_the [OF imgs] by simp_all
  have "appends (case col of (att, val, isnull) \<Rightarrow> write_column s2c cat binary att val isnull) (?enc col)"
    if col: "col \<in> set ?cols" for col
  proof -
    obtain i where "column_image s2c cat binary col = Some i"
      using map_eq_Some_member [OF imgs col] by blast
    then show ?thesis using write_column_appends by (cases col) fastforce
  qed
  then have "appends (seq_writes (map (\<lambda>(att, val, isnull). write_column s2c cat binary att val isnull) ?cols))
      (concat (map ?enc ?cols))"
    by (intro appends_seq_map) auto
  then show ?thesis
    unfolding logicalrep_write_tuple_def nliveatts_published [OF assms(1)] row_bytes_def len enc
    by (intro appends_seq_Cons pq_sendint_appends(2))
qed

lemma row_images_valid:
  assumes "row_image s2c cat rel slot binary columns gencols = Some imgs"
    and "length (row_bytes imgs) < MaxAllocSize"
  shows "list_all column_valid imgs"
  unfolding list_all_iff
proof
  fix img assume img: "img \<in> set imgs"
  then obtain col where "column_image s2c cat binary col = Some img"
    using assms(1) unfolding row_image_iff by (metis map_eq_Some_preimage)
  moreover have "length (column_bytes img) \<le> length (concat (map column_bytes imgs))"
    using img by (auto simp: length_concat intro!: member_le_sum_list)
  then have "length (column_bytes img) < MaxAllocSize" using assms(2) by (simp add: row_bytes_def)
  ultimately show "column_valid img" by (rule column_image_valid)
qed

lemma read_tuple_parses:
  assumes "list_all column_valid imgs" and "length imgs < 65536"
  shows "parses logicalrep_read_tuple (row_bytes imgs) (row_view imgs)"
proof -
  let ?h = "of_nat (length imgs) :: 16 word"
  have "unat (ucast ?h :: 32 word) = length imgs"
    using assms(2) by (simp add: unsigned_of_nat unsigned_ucast_eq take_bit_eq_mod)
  then have "parses (read_columns (unat (ucast ?h :: 32 word))) (concat (map column_bytes imgs)) (map column_view imgs)"
    and n: "unat (ucast ?h :: 32 word) = length imgs"
    using cols.sequence_parses [OF assms(1)] by simp_all
  note body = parses_bind [OF this(1) parses_return]
  have "parses logicalrep_read_tuple (be_bytes 2 (unat ?h) @ concat (map column_bytes imgs) @ [])
      \<lparr>colvalues = map snd (map column_view imgs), colstatus = map fst (map column_view imgs),
       ncols = unat (ucast ?h :: 32 word)\<rparr>"
    unfolding logicalrep_read_tuple_def [abs_def]
    by (rule parses_bind, rule pq_getmsgint_parses(2), rule body)
  then show ?thesis by (simp add: row_bytes_def row_view_def n column_view_def)
qed

section \<open>Row changes\<close>

text \<open>
  While a transaction is streamed, \<^verbatim>\<open>handle_streamed_transaction\<close> reads the
  transaction id in front of the message before the message is read.
\<close>

definition read_streamed :: "bool \<Rightarrow> 'a reader \<Rightarrow> (TransactionId \<times> 'a) reader" where
  "read_streamed streaming r s =
     bindR (if streaming
            then bindR (pq_getmsgint 4 s) (\<lambda>(xid, s).
                 if xid = InvalidTransactionId
                 then Inl (PgError ''invalid transaction ID in streamed replication transaction'')
                 else Inr (xid, s))
            else Inr (InvalidTransactionId, s))
       (\<lambda>(xid, s). bindR (r s) (\<lambda>(x, s). Inr ((xid, x), s)))"

definition xid_bytes :: "TransactionId \<Rightarrow> byte list" where
  "xid_bytes xid = (if xid \<noteq> InvalidTransactionId then be_bytes 4 (unat xid) @ [] else [])"

lemma xid_if_streaming_appends: "appends (seq_writes (xid_if_streaming xid)) (xid_bytes xid)"
  unfolding xid_if_streaming_def xid_bytes_def
  by (cases "xid \<noteq> InvalidTransactionId"; simp only: if_True if_False not_False_eq_True) (rule write_intros)+

lemma streamed_writer_appends:
  assumes "appends (seq_writes ws) bs"
  shows "appends (seq_writes (pq_sendbyte (u8 c) # xid_if_streaming xid @ ws)) ([c] @ xid_bytes xid @ bs)"
  using assms by (intro appends_seq_Cons appends_seq_append pq_sendbyte_char xid_if_streaming_appends)

lemma streamed_reader_parses:
  assumes "parses r bs x"
  shows "parses (read_streamed (xid \<noteq> InvalidTransactionId) r) (xid_bytes xid @ bs) (xid, x)"
proof -
  have body: "parses (\<lambda>s. bindR (r s) (\<lambda>(x, s). Inr ((xid, x), s))) bs (xid, x)"
    using parses_bind [OF assms parses_return] by simp
  show ?thesis
  proof (cases "xid = InvalidTransactionId")
    case True
    with body show ?thesis by (simp add: read_streamed_def [abs_def] xid_bytes_def)
  next
    case False
    have "parses (\<lambda>s. bindR (pq_getmsgint 4 s) (\<lambda>(xid, s).
        if xid = InvalidTransactionId
        then Inl (PgError ''invalid transaction ID in streamed replication transaction'')
        else Inr (xid, s))) (be_bytes 4 (unat xid) @ []) xid"
      by (rule parse_intros parses_bind False)+
    from parses_bind [where f = "\<lambda>xid s. bindR (r s) (\<lambda>(x, s). Inr ((xid, x), s))", OF this body] False
    show ?thesis by (simp add: read_streamed_def [abs_def] xid_bytes_def del: be_bytes.simps)
  qed
qed

text \<open>A message that may be streamed: written and read back, transaction id included.\<close>

lemma transmit_streamed:
  assumes "appends (seq_writes ws) bs" and "parses r bs x" and "length (xid_bytes xid @ bs) + 1 < MaxAllocSize"
  shows "transmit (seq_writes (pq_sendbyte (u8 c) # xid_if_streaming xid @ ws))
           (read_streamed (xid \<noteq> InvalidTransactionId) r) = Inr (c, (xid, x))"
  using transmit_eq [OF streamed_writer_appends [OF assms(1)] streamed_reader_parses [OF assms(2)] assms(3)] .

lemma length_xid_bytes: "length (xid_bytes xid) \<le> 4"
  by (simp add: xid_bytes_def)

lemma read_insert_parses:
  assumes "parses logicalrep_read_tuple bs tup"
  shows "parses logicalrep_read_insert (be_bytes 4 (unat relid) @ [CHR ''N''] @ bs @ []) (relid, tup)"
  unfolding logicalrep_read_insert_def [abs_def]
  by (rule parses_bind, rule pq_getmsgint_parses(1), rule parses_bind, rule pq_getmsgbyte_parses,
      rule parses_guard, simp, rule parses_bind, rule assms, rule parses_return)

lemma old_tuple_tag_cases: "old_tuple_tag rel = CHR ''K'' \<or> old_tuple_tag rel = CHR ''O''"
  by (simp add: old_tuple_tag_def)

lemma read_delete_parses:
  assumes "parses logicalrep_read_tuple bs tup"
  shows "parses logicalrep_read_delete (be_bytes 4 (unat relid) @ [old_tuple_tag rel] @ bs @ []) (relid, tup)"
  unfolding logicalrep_read_delete_def [abs_def]
  by (rule parses_bind, rule pq_getmsgint_parses(1), rule parses_bind, rule pq_getmsgbyte_parses,
      rule parses_guard, use old_tuple_tag_cases in blast, rule parses_bind, rule assms, rule parses_return)

lemma read_update_parses_new:
  assumes new: "parses logicalrep_read_tuple cs new"
  shows "parses logicalrep_read_update (be_bytes 4 (unat relid) @ [CHR ''N''] @ cs @ []) (relid, None, new)"
  unfolding logicalrep_read_update_def [abs_def]
  by (rule parses_bind, rule pq_getmsgint_parses(1), rule parses_bind, rule pq_getmsgbyte_parses,
      simp del: append_Nil2, rule parses_bind, rule new, rule parses_return)

lemma read_update_parses_old:
  assumes old: "parses logicalrep_read_tuple bs oldtup" and new: "parses logicalrep_read_tuple cs new"
  shows "parses logicalrep_read_update
    (be_bytes 4 (unat relid) @ [old_tuple_tag rel] @ (bs @ [CHR ''N''] @ []) @ cs @ []) (relid, Some oldtup, new)"
proof -
  let ?a = "old_tuple_tag rel"
  have a: "\<not> (?a \<noteq> CHR ''K'' \<and> ?a \<noteq> CHR ''O'' \<and> ?a \<noteq> CHR ''N'')" "?a = CHR ''K'' \<or> ?a = CHR ''O''"
    using old_tuple_tag_cases by blast+
  have first: "parses (\<lambda>s. bindR (logicalrep_read_tuple s) (\<lambda>(oldtup, s).
      bindR (pq_getmsgbyte s) (\<lambda>(action, s). Inr ((Some oldtup, action), s)))) (bs @ [CHR ''N''] @ [])
      (Some oldtup, CHR ''N'')"
    by (rule parses_bind, rule old, rule parses_bind, rule pq_getmsgbyte_parses, rule parses_return)
  have rest: "parses (\<lambda>s. if CHR ''N'' \<noteq> CHR ''N'' then Inl (PgError ''expected action N'') else
      bindR (logicalrep_read_tuple s) (\<lambda>(newtup, s). Inr ((relid, Some oldtup, newtup), s)))
      (cs @ []) (relid, Some oldtup, new)"
    by (rule parses_guard, simp, rule parses_bind, rule new, rule parses_return)
  have both: "parses (\<lambda>s. bindR (bindR (logicalrep_read_tuple s) (\<lambda>(oldtup, s).
      bindR (pq_getmsgbyte s) (\<lambda>(action, s). Inr ((Some oldtup, action), s))))
      (\<lambda>((oldtup, action), s). if action \<noteq> CHR ''N'' then Inl (PgError ''expected action N'') else
        bindR (logicalrep_read_tuple s) (\<lambda>(newtup, s). Inr ((relid, oldtup, newtup), s))))
      ((bs @ [CHR ''N''] @ []) @ cs @ []) (relid, Some oldtup, new)"
    using parses_bind [where f = "\<lambda>(oldtup, action) s. if action \<noteq> CHR ''N'' then Inl (PgError ''expected action N'') else
        bindR (logicalrep_read_tuple s) (\<lambda>(newtup, s). Inr ((relid, oldtup, newtup), s))", OF first] rest
    by (simp add: case_prod_unfold)
  show ?thesis
    unfolding logicalrep_read_update_def [abs_def]
    by (rule parses_bind, rule pq_getmsgint_parses(1), rule parses_bind, rule pq_getmsgbyte_parses,
        simp only: a if_True if_False, rule both)
qed

text \<open>
  A row that can be sent: its slot matches the relation, every published column has an image
  (its type is in the catalogue), and the count of columns fits the 16 bits it is sent in.
\<close>

definition row_sent ::
    "(cstring \<Rightarrow> cstring) \<Rightarrow> 'd catalog \<Rightarrow> Relation \<Rightarrow> 'd TupleTableSlot \<Rightarrow> bool \<Rightarrow> Bitmapset \<Rightarrow>
     PublishGencolsType \<Rightarrow> (byte \<times> byte list option) list \<Rightarrow> bool" where
  "row_sent s2c cat rel slot binary columns gencols imgs \<longleftrightarrow>
     slot_of rel slot \<and> row_image s2c cat rel slot binary columns gencols = Some imgs \<and>
     length imgs < 65536"

lemma row_sent_tuple:
  assumes "row_sent s2c cat rel slot binary columns gencols imgs"
  shows "appends (logicalrep_write_tuple s2c cat rel slot binary columns gencols) (row_bytes imgs)"
    and "length (row_bytes imgs) < MaxAllocSize \<Longrightarrow>
         parses logicalrep_read_tuple (row_bytes imgs) (row_view imgs)"
  using assms unfolding row_sent_def by (blast intro: write_tuple_appends read_tuple_parses row_images_valid)+

text \<open>An INSERT message that the publisher writes for a row is read back by the
  subscriber as the same relation id and the same columns, with the transaction id in front exactly
  when the transaction is streamed; every byte of the message is consumed.\<close>

theorem insert_roundtrip:
  assumes "row_sent s2c cat rel slot binary columns gencols imgs"
    and "length (row_bytes imgs) + 10 < MaxAllocSize"
  shows "transmit (logicalrep_write_insert s2c cat xid rel slot binary columns gencols)
           (read_streamed (xid \<noteq> InvalidTransactionId) logicalrep_read_insert) =
         Inr (msg_char LOGICAL_REP_MSG_INSERT, (xid, rd_id rel, row_view imgs))"
proof -
  note row = row_sent_tuple [OF assms(1)]
  let ?bs = "be_bytes 4 (unat (rd_id rel)) @ [CHR ''N''] @ row_bytes imgs @ []"
  have "appends (seq_writes [pq_sendint32 (rd_id rel), pq_sendbyte (u8 (CHR ''N'')),
      logicalrep_write_tuple s2c cat rel slot binary columns gencols]) ?bs"
    by (rule write_intros row(1))+
  moreover have "parses logicalrep_read_insert ?bs (rd_id rel, row_view imgs)"
    using assms(2) by (intro read_insert_parses row(2)) simp
  moreover have "length (xid_bytes xid @ ?bs) + 1 < MaxAllocSize"
    using assms(2) length_xid_bytes [of xid] by simp
  ultimately show ?thesis unfolding logicalrep_write_insert_def by (rule transmit_streamed)
qed

text \<open>A DELETE message is read back as the same relation id and old row, whether the
  old row is the replica identity or the full row.\<close>

theorem delete_roundtrip:
  assumes "row_sent s2c cat rel slot binary columns gencols imgs"
    and "length (row_bytes imgs) + 10 < MaxAllocSize"
  shows "transmit (logicalrep_write_delete s2c cat xid rel slot binary columns gencols)
           (read_streamed (xid \<noteq> InvalidTransactionId) logicalrep_read_delete) =
         Inr (msg_char LOGICAL_REP_MSG_DELETE, (xid, rd_id rel, row_view imgs))"
proof -
  note row = row_sent_tuple [OF assms(1)]
  let ?bs = "be_bytes 4 (unat (rd_id rel)) @ [old_tuple_tag rel] @ row_bytes imgs @ []"
  have "appends (seq_writes [pq_sendint32 (rd_id rel), pq_sendbyte (u8 (old_tuple_tag rel)),
      logicalrep_write_tuple s2c cat rel slot binary columns gencols]) ?bs"
    by (rule write_intros row(1))+
  moreover have "parses logicalrep_read_delete ?bs (rd_id rel, row_view imgs)"
    using assms(2) by (intro read_delete_parses row(2)) simp
  moreover have "length (xid_bytes xid @ ?bs) + 1 < MaxAllocSize"
    using assms(2) length_xid_bytes [of xid] by simp
  ultimately show ?thesis unfolding logicalrep_write_delete_def by (rule transmit_streamed)
qed

lemma update_transmitted_new:
  assumes "row_sent s2c cat rel slot binary columns gencols imgs"
    and "length (row_bytes imgs) + 10 < MaxAllocSize"
  shows "transmit (logicalrep_write_update s2c cat xid rel None slot binary columns gencols)
           (read_streamed (xid \<noteq> InvalidTransactionId) logicalrep_read_update) =
         Inr (msg_char LOGICAL_REP_MSG_UPDATE, (xid, rd_id rel, None, row_view imgs))"
proof -
  note row = row_sent_tuple [OF assms(1)]
  let ?bs = "be_bytes 4 (unat (rd_id rel)) @ [CHR ''N''] @ row_bytes imgs @ []"
  have "appends (seq_writes [pq_sendint32 (rd_id rel), pq_sendbyte (u8 (CHR ''N'')),
      logicalrep_write_tuple s2c cat rel slot binary columns gencols]) ?bs"
    by (rule write_intros row(1))+
  moreover have "parses logicalrep_read_update ?bs (rd_id rel, None, row_view imgs)"
    using assms(2) by (intro read_update_parses_new row(2)) simp
  moreover have "length (xid_bytes xid @ ?bs) + 1 < MaxAllocSize"
    using assms(2) length_xid_bytes [of xid] by simp
  ultimately show ?thesis unfolding logicalrep_write_update_def option.case append_Cons append_Nil by (rule transmit_streamed)
qed

lemma update_transmitted_old:
  assumes "row_sent s2c cat rel old binary columns gencols olds"
    and "row_sent s2c cat rel slot binary columns gencols imgs"
    and "length (row_bytes olds) + length (row_bytes imgs) + 11 < MaxAllocSize"
  shows "transmit (logicalrep_write_update s2c cat xid rel (Some old) slot binary columns gencols)
           (read_streamed (xid \<noteq> InvalidTransactionId) logicalrep_read_update) =
         Inr (msg_char LOGICAL_REP_MSG_UPDATE, (xid, rd_id rel, Some (row_view olds), row_view imgs))"
proof -
  note old = row_sent_tuple [OF assms(1)] and row = row_sent_tuple [OF assms(2)]
  let ?bs = "be_bytes 4 (unat (rd_id rel)) @ [old_tuple_tag rel] @ row_bytes olds @ [CHR ''N''] @ row_bytes imgs @ []"
  have "appends (seq_writes [pq_sendint32 (rd_id rel),
      pq_sendbyte (u8 (old_tuple_tag rel)), logicalrep_write_tuple s2c cat rel old binary columns gencols,
      pq_sendbyte (u8 (CHR ''N'')), logicalrep_write_tuple s2c cat rel slot binary columns gencols]) ?bs"
    by (rule write_intros old(1) row(1))+
  moreover have "parses logicalrep_read_update ?bs (rd_id rel, Some (row_view olds), row_view imgs)"
    using read_update_parses_old [OF old(2) row(2), of "rd_id rel" rel] assms(3) by simp
  moreover have "length (xid_bytes xid @ ?bs) + 1 < MaxAllocSize"
    using assms(3) length_xid_bytes [of xid] by simp
  ultimately show ?thesis unfolding logicalrep_write_update_def option.case append_Cons append_Nil by (rule transmit_streamed)
qed

section \<open>Truncation, relations and types\<close>

lemma truncate_flags:
  fixes c r :: bool
  defines "f \<equiv> (if c then 1 else 0) OR (if r then 2 else 0) :: 8 word"
  shows "bit (of_nat (uchar (char_of (unat f))) :: 32 word) 0 = c"
    and "bit (of_nat (uchar (char_of (unat f))) :: 32 word) 1 = r"
proof -
  have f: "uchar (char_of (unat f)) = (if c then 1 else 0) + (if r then 2 else 0)"
    by (cases c; cases r; simp add: f_def)
  show "bit (of_nat (uchar (char_of (unat f))) :: 32 word) 0 = c"
    unfolding f by (cases c; cases r; simp add: bit_0)
  show "bit (of_nat (uchar (char_of (unat f))) :: 32 word) 1 = r"
    unfolding f by (cases c; cases r; simp add: bit_1_iff)
qed

text \<open>A TRUNCATE message is read back as the same relations, in order, with the
  CASCADE and RESTART IDENTITY flags.\<close>

theorem truncate_roundtrip:
  assumes "4 * length relids + 10 < MaxAllocSize"
  shows "transmit (logicalrep_write_truncate xid relids cascade restart_seqs)
           (read_streamed (xid \<noteq> InvalidTransactionId) logicalrep_read_truncate) =
         Inr (msg_char LOGICAL_REP_MSG_TRUNCATE, (xid, relids, cascade, restart_seqs))"
proof -
  let ?n = "of_nat (length relids) :: 32 word"
  let ?f = "(if cascade then 1 else 0) OR (if restart_seqs then 2 else 0) :: 8 word"
  let ?oids = "concat (map (\<lambda>oid. be_bytes 4 (unat oid)) relids)"
  let ?bs = "be_bytes 4 (unat ?n) @ [char_of (unat ?f)] @ ?oids"
  have "appends (seq_writes ([pq_sendint32 ?n, pq_sendint8 ?f] @ map pq_sendint32 relids)) ?bs"
  proof -
    have "appends (pq_sendint8 ?f) [char_of (unat ?f)]" using pq_sendint_appends(1) [of ?f] by simp
    moreover have "appends (seq_writes (map pq_sendint32 relids)) ?oids"
      by (rule appends_seq_map) (rule pq_sendint_appends)
    ultimately show ?thesis unfolding append_Cons [of "pq_sendint32 ?n"] append_Cons [of "pq_sendint8 ?f"] append_Nil
      by (intro appends_seq_Cons pq_sendint_appends(3))
  qed
  moreover have "parses logicalrep_read_truncate ?bs (relids, cascade, restart_seqs)"
  proof -
    have n: "nat (sint ?n) = length relids"
      using assms small_length_word(1) [of "length relids"] by simp
    have oids: "parses (read_oids (nat (sint ?n))) ?oids relids"
      using oids.sequence_parses [of relids] by (simp add: n list_all_iff)
    have "parses logicalrep_read_truncate (be_bytes 4 (unat ?n) @ [char_of (unat ?f)] @ ?oids @ [])
        (relids, bit (of_nat (uchar (char_of (unat ?f))) :: 32 word) 0, bit (of_nat (uchar (char_of (unat ?f))) :: 32 word) 1)"
      unfolding logicalrep_read_truncate_def [abs_def]
      by (rule parses_bind, rule pq_getmsgint_parses(1), rule parses_bind, rule pq_getmsgint_parses(3),
          rule parses_bind, rule oids, rule parses_return)
    then show ?thesis by (simp only: truncate_flags append_Nil2)
  qed
  moreover have "length (xid_bytes xid @ ?bs) + 1 < MaxAllocSize"
    using assms length_xid_bytes [of xid] by (simp add: length_concat comp_def sum_list_triv)
  ultimately show ?thesis unfolding logicalrep_write_truncate_def by (rule transmit_streamed)
qed

lemma namespace_appends:
  assumes "nspid \<noteq> PG_CATALOG_NAMESPACE" and "get_namespace_name cat nspid = Some name"
  shows "appends (logicalrep_write_namespace s2c cat nspid) (converted s2c (c_str name) @ [NUL])"
proof -
  have "logicalrep_write_namespace s2c cat nspid = pq_sendstring s2c name"
    using assms by (intro ext) (simp add: logicalrep_write_namespace_def)
  then show ?thesis by (simp add: pq_sendstring_appends)
qed

lemma namespace_catalog_appends: "appends (logicalrep_write_namespace s2c cat PG_CATALOG_NAMESPACE) [NUL]"
  using pq_sendbyte_zero by (simp add: logicalrep_write_namespace_def [abs_def])

text \<open>
  The namespace a schema id stands for on the other side: the empty string is sent for
  \<^verbatim>\<open>pg_catalog\<close>.
\<close>

definition sent_namespace :: "'d catalog \<Rightarrow> Oid \<Rightarrow> cstring option" where
  "sent_namespace cat nspid =
     (if nspid = PG_CATALOG_NAMESPACE then Some [] else get_namespace_name cat nspid)"

definition read_namespace_name :: "cstring \<Rightarrow> cstring" where
  "read_namespace_name name = (if name = [] then ''pg_catalog'' else name)"

lemma sent_namespace_appends:
  assumes "sent_namespace cat nspid = Some name" and "survives s2c c2s name" and "converted s2c [] = []"
  shows "appends (logicalrep_write_namespace s2c cat nspid) (converted s2c (c_str name) @ [NUL])"
proof (cases "nspid = PG_CATALOG_NAMESPACE")
  case True
  then show ?thesis using assms namespace_catalog_appends by (auto simp: sent_namespace_def)
next
  case False
  then show ?thesis using assms(1) by (intro namespace_appends) (simp_all add: sent_namespace_def)
qed

lemma read_namespace_parses [parse_intros]:
  assumes "survives s2c c2s name"
  shows "parses (logicalrep_read_namespace c2s) (converted s2c (c_str name) @ [NUL]) (read_namespace_name name)"
proof -
  have "parses (logicalrep_read_namespace c2s) ((converted s2c (c_str name) @ [NUL]) @ []) (read_namespace_name name)"
    unfolding logicalrep_read_namespace_def [abs_def] read_namespace_name_def
    by (rule parse_intros parses_bind assms)+
  then show ?thesis by simp
qed

text \<open>One attribute on the wire.\<close>

definition attr_bytes :: "(cstring \<Rightarrow> cstring) \<Rightarrow> Relation \<Rightarrow> Form_pg_attribute \<Rightarrow> byte list" where
  "attr_bytes s2c rel att =
     [char_of (unat (attr_flags rel att))] @ (converted s2c (c_str (attname att)) @ [NUL]) @
     be_bytes 4 (unat (atttypid att)) @ be_bytes 4 (unat (atttypmod att)) @ []"

definition is_key_attr :: "Relation \<Rightarrow> Form_pg_attribute \<Rightarrow> bool" where
  "is_key_attr rel att \<longleftrightarrow> rd_relreplident rel = REPLICA_IDENTITY_FULL \<or>
     bms_is_member (attnum att - FirstLowInvalidHeapAttributeNumber) (rd_identity_key rel)"

lemma odd_attr_flags: "odd (uchar (char_of (unat (attr_flags rel att)))) = is_key_attr rel att"
  by (simp add: attr_flags_def is_key_attr_def Let_def bms_is_member_def)

lemma write_attr_appends: "appends (write_attr s2c rel att) (attr_bytes s2c rel att)"
  unfolding write_attr_def attr_bytes_def by (rule write_intros)+

lemma read_attr_parses:
  assumes "survives s2c c2s (attname att)"
  shows "parses (read_attr c2s) (attr_bytes s2c rel att) (is_key_attr rel att, attname att, atttypid att)"
proof -
  have "parses (read_attr c2s) (attr_bytes s2c rel att)
      (odd (uchar (char_of (unat (attr_flags rel att)))), attname att, atttypid att)"
    unfolding read_attr_def [abs_def] attr_bytes_def by (rule parse_intros parses_bind assms)+
  then show ?thesis by (simp only: odd_attr_flags)
qed

lemma read_attrs_loop:
  "read_attrs c2s 0 = (\<lambda>s. Inr ([], s))"
  "read_attrs c2s (Suc n) =
     (\<lambda>s. bindR (read_attr c2s s) (\<lambda>(a, s). bindR (read_attrs c2s n s) (\<lambda>(as, s). Inr (a # as, s))))"
  by (auto intro!: ext)

interpretation attrs: wire_sequence "attr_bytes s2c rel" "\<lambda>att. survives s2c c2s (attname att)"
    "\<lambda>att. (is_key_attr rel att, attname att, atttypid att)" "read_attr c2s" "read_attrs c2s"
  for s2c c2s rel
  by unfold_locales (simp_all only: read_attr_parses read_attrs_loop)

definition published_attrs :: "Relation \<Rightarrow> Bitmapset \<Rightarrow> PublishGencolsType \<Rightarrow> Form_pg_attribute list" where
  "published_attrs rel columns gencols =
     filter (\<lambda>att. logicalrep_should_publish_column att columns gencols) (rd_att rel)"

definition attrs_bytes :: "(cstring \<Rightarrow> cstring) \<Rightarrow> Relation \<Rightarrow> Form_pg_attribute list \<Rightarrow> byte list" where
  "attrs_bytes s2c rel atts =
     be_bytes 2 (unat (of_nat (length atts) :: 16 word)) @ concat (map (attr_bytes s2c rel) atts)"

lemma write_attrs_appends:
  "appends (logicalrep_write_attrs s2c rel columns gencols)
     (attrs_bytes s2c rel (published_attrs rel columns gencols))"
  unfolding logicalrep_write_attrs_def attrs_bytes_def nliveatts_def published_attrs_def
  by (intro appends_seq_Cons pq_sendint_appends(2) appends_seq_map write_attr_appends)

text \<open>The relation the subscriber caches.\<close>

definition relation_view :: "Relation \<Rightarrow> cstring \<Rightarrow> Form_pg_attribute list \<Rightarrow> LogicalRepRelation" where
  "relation_view rel nsp atts =
     \<lparr>remoteid = rd_id rel, nspname = read_namespace_name nsp, relname = rd_relname rel,
      natts = length atts, attnames = map attname atts, atttyps = map atttypid atts,
      replident = rd_relreplident rel, attkeys = filter (\<lambda>i. is_key_attr rel (atts ! i)) [0..<length atts]\<rparr>"

lemma read_attrs_parses:
  assumes "list_all (\<lambda>att. survives s2c c2s (attname att)) atts" and "length atts < 65536"
  shows "parses (logicalrep_read_attrs c2s lrel) (attrs_bytes s2c rel atts)
    (lrel\<lparr>attnames := map attname atts, atttyps := map atttypid atts,
      attkeys := filter (\<lambda>i. is_key_attr rel (atts ! i)) [0..<length atts], natts := length atts\<rparr>)"
proof -
  let ?h = "of_nat (length atts) :: 16 word"
  let ?as = "map (\<lambda>att. (is_key_attr rel att, attname att, atttypid att)) atts"
  have n: "unat (ucast ?h :: 32 word) = length atts"
    using assms(2) by (simp add: unsigned_of_nat unsigned_ucast_eq take_bit_eq_mod)
  have as: "parses (read_attrs c2s (unat (ucast ?h :: 32 word))) (concat (map (attr_bytes s2c rel) atts)) ?as"
    using attrs.sequence_parses [OF assms(1), of rel] by (simp only: n)
  have "parses (logicalrep_read_attrs c2s lrel)
      (be_bytes 2 (unat ?h) @ concat (map (attr_bytes s2c rel) atts) @ [])
      (lrel\<lparr>attnames := map (fst \<circ> snd) ?as, atttyps := map (snd \<circ> snd) ?as,
        attkeys := filter (\<lambda>i. fst (?as ! i)) [0..<unat (ucast ?h :: 32 word)],
        natts := unat (ucast ?h :: 32 word)\<rparr>)"
    unfolding logicalrep_read_attrs_def [abs_def]
    by (rule parses_bind, rule pq_getmsgint_parses(2), rule parses_bind, rule as, rule parses_return)
  moreover have "filter (\<lambda>i. fst (?as ! i)) [0..<length atts] = filter (\<lambda>i. is_key_attr rel (atts ! i)) [0..<length atts]"
    by (rule filter_cong) simp_all
  ultimately show ?thesis by (simp add: attrs_bytes_def n comp_def)
qed

text \<open>The names of a relation and of its published columns reach the subscriber, and the message fits.\<close>

definition relation_sent ::
    "(cstring \<Rightarrow> cstring) \<Rightarrow> (cstring \<Rightarrow> cstring) \<Rightarrow> 'd catalog \<Rightarrow> Relation \<Rightarrow> Bitmapset \<Rightarrow> PublishGencolsType \<Rightarrow> cstring \<Rightarrow> bool" where
  "relation_sent s2c c2s cat rel columns gencols nsp \<longleftrightarrow>
     sent_namespace cat (rd_namespace rel) = Some nsp \<and> survives s2c c2s nsp \<and> converted s2c [] = [] \<and>
     survives s2c c2s (rd_relname rel) \<and> list_all (\<lambda>att. survives s2c c2s (attname att)) (published_attrs rel columns gencols) \<and>
     length (published_attrs rel columns gencols) < 65536 \<and>
     length (attrs_bytes s2c rel (published_attrs rel columns gencols)) + length (converted s2c nsp)
       + length (converted s2c (rd_relname rel)) + 36 < MaxAllocSize"

lemma relation_written:
  fixes s2c c2s :: "cstring \<Rightarrow> cstring"
  assumes nsp: "sent_namespace cat (rd_namespace rel) = Some nsp" "survives s2c c2s nsp" "converted s2c [] = []"
    and name: "survives s2c c2s (rd_relname rel)"
    and atts: "list_all (\<lambda>att. survives s2c c2s (attname att)) (published_attrs rel columns gencols)"
      "length (published_attrs rel columns gencols) < 65536"
  obtains bs where "appends (seq_writes [pq_sendint32 (rd_id rel), logicalrep_write_namespace s2c cat (rd_namespace rel),
      pq_sendstring s2c (rd_relname rel), pq_sendbyte (u8 (rd_relreplident rel)), logicalrep_write_attrs s2c rel columns gencols]) bs"
    and "parses (logicalrep_read_rel c2s) bs (relation_view rel nsp (published_attrs rel columns gencols))"
    and "length bs = length (attrs_bytes s2c rel (published_attrs rel columns gencols)) + length (converted s2c nsp)
      + length (converted s2c (rd_relname rel)) + 7"
proof
  let ?atts = "published_attrs rel columns gencols"
  let ?bs = "be_bytes 4 (unat (rd_id rel)) @ (converted s2c (c_str nsp) @ [NUL]) @
    (converted s2c (c_str (rd_relname rel)) @ [NUL]) @ [rd_relreplident rel] @ attrs_bytes s2c rel ?atts"
  have "appends (seq_writes [pq_sendint32 (rd_id rel), logicalrep_write_namespace s2c cat (rd_namespace rel),
      pq_sendstring s2c (rd_relname rel), pq_sendbyte (u8 (rd_relreplident rel)),
      logicalrep_write_attrs s2c rel columns gencols])
      (be_bytes 4 (unat (rd_id rel)) @ (converted s2c (c_str nsp) @ [NUL]) @
       (converted s2c (c_str (rd_relname rel)) @ [NUL]) @ [rd_relreplident rel] @ attrs_bytes s2c rel ?atts @ [])"
    by (rule write_intros sent_namespace_appends [OF nsp] write_attrs_appends)+
  then show "appends (seq_writes [pq_sendint32 (rd_id rel), logicalrep_write_namespace s2c cat (rd_namespace rel),
      pq_sendstring s2c (rd_relname rel), pq_sendbyte (u8 (rd_relreplident rel)),
      logicalrep_write_attrs s2c rel columns gencols]) ?bs" by (simp only: append_Nil2)
  let ?lrel = "\<lparr>remoteid = rd_id rel, nspname = read_namespace_name nsp, relname = rd_relname rel, natts = 0,
    attnames = [], atttyps = [], replident = rd_relreplident rel, attkeys = []\<rparr>"
  have "parses (logicalrep_read_attrs c2s ?lrel) (attrs_bytes s2c rel ?atts) (relation_view rel nsp ?atts)"
    using read_attrs_parses [OF atts, of ?lrel rel] by (simp add: relation_view_def)
  then show "parses (logicalrep_read_rel c2s) ?bs (relation_view rel nsp ?atts)" unfolding logicalrep_read_rel_def [abs_def]
    by (rule parses_bind [OF pq_getmsgint_parses(1) parses_bind [OF read_namespace_parses [OF nsp(2)]
          parses_bind [OF parses_string [OF name] parses_bind [OF pq_getmsgbyte_parses]]]])
  show "length ?bs = length (attrs_bytes s2c rel ?atts) + length (converted s2c nsp) + length (converted s2c (rd_relname rel)) + 7"
    using nsp(2) name by (simp add: survives_def)
qed

text \<open>A RELATION message gives the subscriber the relation's name, its published
  columns in order with their names and types, and as key columns exactly those of the replica
  identity.\<close>

theorem relation_roundtrip:
  assumes nsp: "sent_namespace cat (rd_namespace rel) = Some nsp" "survives s2c c2s nsp" "converted s2c [] = []"
    and name: "survives s2c c2s (rd_relname rel)"
    and atts: "list_all (\<lambda>att. survives s2c c2s (attname att)) (published_attrs rel columns gencols)"
      "length (published_attrs rel columns gencols) < 65536"
    and fits: "length (attrs_bytes s2c rel (published_attrs rel columns gencols)) + length (converted s2c nsp)
      + length (converted s2c (rd_relname rel)) + 12 < MaxAllocSize"
  shows "transmit (logicalrep_write_rel s2c cat xid rel columns gencols)
           (read_streamed (xid \<noteq> InvalidTransactionId) (logicalrep_read_rel c2s)) =
         Inr (msg_char LOGICAL_REP_MSG_RELATION,
           (xid, relation_view rel nsp (published_attrs rel columns gencols)))"
proof -
  obtain bs where bs: "appends (seq_writes [pq_sendint32 (rd_id rel), logicalrep_write_namespace s2c cat (rd_namespace rel),
      pq_sendstring s2c (rd_relname rel), pq_sendbyte (u8 (rd_relreplident rel)), logicalrep_write_attrs s2c rel columns gencols]) bs"
    "parses (logicalrep_read_rel c2s) bs (relation_view rel nsp (published_attrs rel columns gencols))"
    "length bs = length (attrs_bytes s2c rel (published_attrs rel columns gencols)) + length (converted s2c nsp)
      + length (converted s2c (rd_relname rel)) + 7" by (rule relation_written [OF nsp name atts])
  have "length (xid_bytes xid @ bs) + 1 < MaxAllocSize" using fits bs(3) length_xid_bytes [of xid] by simp
  then show ?thesis unfolding logicalrep_write_rel_def by (rule transmit_streamed [OF bs(1,2)])
qed

lemma type_written:
  fixes s2c c2s :: "cstring \<Rightarrow> cstring"
  assumes nsp: "sent_namespace cat (typnamespace ty) = Some nsp" "survives s2c c2s nsp" "converted s2c [] = []"
    and name: "survives s2c c2s (typname ty)"
  obtains bs where "appends (seq_writes [seq_writes [pq_sendint32 typoid, logicalrep_write_namespace s2c cat (typnamespace ty),
      pq_sendstring s2c (typname ty)]]) bs"
    and "parses (logicalrep_read_typ c2s) bs \<lparr>typ_remoteid = typoid, typ_nspname = read_namespace_name nsp, typ_typname = typname ty\<rparr>"
    and "length bs = length (converted s2c nsp) + length (converted s2c (typname ty)) + 6"
proof
  let ?w = "seq_writes [pq_sendint32 typoid, logicalrep_write_namespace s2c cat (typnamespace ty),
    pq_sendstring s2c (typname ty)]"
  let ?bs = "be_bytes 4 (unat typoid) @ (converted s2c (c_str nsp) @ [NUL]) @
    (converted s2c (c_str (typname ty)) @ [NUL]) @ []"
  have "appends ?w ?bs" by (rule write_intros sent_namespace_appends [OF nsp])+
  then have "appends (seq_writes [?w]) (?bs @ [])" by (rule appends_seq_Cons) (rule appends_seq_Nil)
  then show "appends (seq_writes [?w]) ?bs" by (simp only: append_Nil2)
  show "parses (logicalrep_read_typ c2s) ?bs
      \<lparr>typ_remoteid = typoid, typ_nspname = read_namespace_name nsp, typ_typname = typname ty\<rparr>"
    unfolding logicalrep_read_typ_def [abs_def]
    by (rule parses_bind [OF pq_getmsgint_parses(1) parses_bind [OF read_namespace_parses [OF nsp(2)]
            parses_bind [OF parses_string [OF name] parses_return]]])
  show "length ?bs = length (converted s2c nsp) + length (converted s2c (typname ty)) + 6" using nsp(2) name by (simp add: survives_def)
qed

text \<open>A TYPE message is read back as the type's id, schema and name; the base type is
  looked up for the names, and the catalogue schema is sent as an empty string.\<close>

theorem type_roundtrip:
  assumes ty: "SearchSysCacheType cat (getBaseType cat typoid) = Some ty"
    and nsp: "sent_namespace cat (typnamespace ty) = Some nsp" "survives s2c c2s nsp" "converted s2c [] = []"
    and name: "survives s2c c2s (typname ty)"
    and fits: "length (converted s2c nsp) + length (converted s2c (typname ty)) + 12 < MaxAllocSize"
  shows "transmit (logicalrep_write_typ s2c cat xid typoid)
           (read_streamed (xid \<noteq> InvalidTransactionId) (logicalrep_read_typ c2s)) =
         Inr (msg_char LOGICAL_REP_MSG_TYPE,
           (xid, \<lparr>typ_remoteid = typoid, typ_nspname = read_namespace_name nsp, typ_typname = typname ty\<rparr>))"
proof -
  obtain bs where bs: "appends (seq_writes [seq_writes [pq_sendint32 typoid, logicalrep_write_namespace s2c cat (typnamespace ty),
      pq_sendstring s2c (typname ty)]]) bs"
    "parses (logicalrep_read_typ c2s) bs \<lparr>typ_remoteid = typoid, typ_nspname = read_namespace_name nsp, typ_typname = typname ty\<rparr>"
    "length bs = length (converted s2c nsp) + length (converted s2c (typname ty)) + 6" by (rule type_written [OF nsp name])
  have "length (xid_bytes xid @ bs) + 1 < MaxAllocSize" using fits bs(3) length_xid_bytes [of xid] by simp
  then show ?thesis unfolding logicalrep_write_typ_def ty option.case by (rule transmit_streamed [OF bs(1,2)])
qed

section \<open>Reading hostile input\<close>

text \<open>
  The readers are bounds-checked on every byte sequence, whether or not a publisher of this
  program produced it.
\<close>

lemmas safe_readers = safe_return safe_error safe_bind safe_if pq_copymsgbytes_safe pq_getmsgbyte_safe
  pq_getmsgint_safe pq_getmsgint64_safe pq_getmsgstring_safe

lemma read_column_safe: "safe_reader read_column"
  unfolding read_column_def [abs_def] by (intro safe_readers)

lemma read_columns_safe: "safe_reader (read_columns n)"
proof (induction n)
  case 0
  have "read_columns 0 = (\<lambda>s. Inr ([], s))" by (rule ext) simp
  then show ?case by (simp add: safe_return)
next
  case (Suc n)
  have "read_columns (Suc n) = (\<lambda>s. bindR (read_column s) (\<lambda>(col, s).
      bindR (read_columns n s) (\<lambda>(cols, s). Inr (col # cols, s))))" by (rule ext) simp
  then show ?case using Suc by (simp only:) (intro safe_readers read_column_safe)
qed

lemma read_oids_safe: "safe_reader (read_oids n)"
proof (induction n)
  case 0
  have "read_oids 0 = (\<lambda>s. Inr ([], s))" by (rule ext) simp
  then show ?case by (simp add: safe_return)
next
  case (Suc n)
  have "read_oids (Suc n) = (\<lambda>s. bindR (pq_getmsgint 4 s) (\<lambda>(oid, s).
      bindR (read_oids n s) (\<lambda>(oids, s). Inr (oid # oids, s))))" by (rule ext) simp
  then show ?case using Suc by (simp only:) (intro safe_readers)
qed

lemma read_attrs_safe: "safe_reader (read_attrs c2s n)"
proof (induction n)
  case 0
  show ?case by (simp only: read_attrs_loop) (rule safe_return)
next
  case (Suc n)
  have "safe_reader (read_attr c2s)" unfolding read_attr_def [abs_def] by (intro safe_readers)
  with Suc show ?case unfolding read_attrs_loop by (intro safe_readers)
qed

lemma read_tuple_safe: "safe_reader logicalrep_read_tuple"
  unfolding logicalrep_read_tuple_def [abs_def] by (intro safe_readers read_columns_safe)

lemma read_namespace_safe: "safe_reader (logicalrep_read_namespace c2s)"
  unfolding logicalrep_read_namespace_def [abs_def] by (intro safe_readers)

lemma transaction_readers_safe:
  "safe_reader logicalrep_read_begin" "safe_reader logicalrep_read_commit"
  "safe_reader (logicalrep_read_begin_prepare c2s)" "safe_reader (logicalrep_read_prepare c2s)"
  "safe_reader (logicalrep_read_commit_prepared c2s)" "safe_reader (logicalrep_read_rollback_prepared c2s)"
  "safe_reader (logicalrep_read_stream_prepare c2s)" "safe_reader (logicalrep_read_origin c2s)"
  "safe_reader logicalrep_read_stream_start" "safe_reader logicalrep_read_stream_commit"
  "safe_reader (logicalrep_read_stream_abort info)"
  unfolding logicalrep_read_begin_def [abs_def] logicalrep_read_commit_def [abs_def]
    logicalrep_read_begin_prepare_def [abs_def] logicalrep_read_prepare_def [abs_def]
    logicalrep_read_commit_prepared_def [abs_def] logicalrep_read_rollback_prepared_def [abs_def]
    logicalrep_read_stream_prepare_def [abs_def] logicalrep_read_origin_def [abs_def]
    logicalrep_read_stream_start_def [abs_def] logicalrep_read_stream_commit_def [abs_def]
    logicalrep_read_stream_abort_def [abs_def] logicalrep_read_prepare_common_def [abs_def]
  by (intro safe_readers)+

lemma update_action_safe:
  "safe_reader (\<lambda>s. bindR
       (if action = CHR ''K'' \<or> action = CHR ''O''
        then bindR (logicalrep_read_tuple s) (\<lambda>(oldtup, s).
             bindR (pq_getmsgbyte s) (\<lambda>(action, s). Inr ((Some oldtup, action), s)))
        else Inr ((None, action), s))
       (\<lambda>((oldtup, action), s).
        if action \<noteq> CHR ''N'' then Inl (PgError ''expected action N'') else
        bindR (logicalrep_read_tuple s) (\<lambda>(newtup, s). Inr ((relid, oldtup, newtup), s))))"
proof -
  have first: "safe_reader (\<lambda>s. if action = CHR ''K'' \<or> action = CHR ''O''
        then bindR (logicalrep_read_tuple s) (\<lambda>(oldtup, s).
             bindR (pq_getmsgbyte s) (\<lambda>(action, s). Inr ((Some oldtup, action), s)))
        else Inr ((None, action), s))"
    by (intro safe_readers read_tuple_safe)
  have rest: "safe_reader (\<lambda>s. if snd p \<noteq> CHR ''N'' then Inl (PgError ''expected action N'') else
        bindR (logicalrep_read_tuple s) (\<lambda>(newtup, s). Inr ((relid, fst p, newtup), s)))" for p
    by (intro safe_readers read_tuple_safe)
  show ?thesis using safe_bind [OF first rest] by (simp add: case_prod_unfold)
qed

lemma change_readers_safe:
  "safe_reader logicalrep_read_insert" "safe_reader logicalrep_read_update"
  "safe_reader logicalrep_read_delete" "safe_reader logicalrep_read_truncate"
  "safe_reader (logicalrep_read_rel c2s)" "safe_reader (logicalrep_read_typ c2s)"
  unfolding logicalrep_read_insert_def [abs_def] logicalrep_read_update_def [abs_def]
    logicalrep_read_delete_def [abs_def] logicalrep_read_truncate_def [abs_def]
    logicalrep_read_rel_def [abs_def] logicalrep_read_typ_def [abs_def] logicalrep_read_attrs_def [abs_def]
  by (intro safe_readers read_tuple_safe read_oids_safe read_attrs_safe read_namespace_safe update_action_safe)+

lemma read_streamed_safe: "safe_reader r \<Longrightarrow> safe_reader (read_streamed streaming r)"
  unfolding read_streamed_def [abs_def] by (intro safe_readers)

section \<open>Properties of the protocol\<close>

text \<open>A small publisher: one schema, one text type, a table with a key and a nullable column.\<close>

definition demo_catalog :: "cstring catalog" where
  "demo_catalog =
     \<lparr>get_namespace_name = (\<lambda>oid. if oid = 2200 then Some ''public'' else None),
      getBaseType = (\<lambda>oid. oid),
      SearchSysCacheType = (\<lambda>oid. if oid = 25
        then Some \<lparr>typnamespace = 11, typname = ''text'', typsend = 0, typoutput = 47\<rparr> else None),
      OidSendFunctionCall = (\<lambda>_ d. d),
      OidOutputFunctionCall = (\<lambda>_ d. d),
      VARATT_IS_EXTERNAL_ONDISK = (\<lambda>d. d = ''toast'')\<rparr>"

definition demo_attribute :: "cstring \<Rightarrow> int \<Rightarrow> Form_pg_attribute" where
  "demo_attribute name num =
     \<lparr>attname = name, atttypid = 25, attlen = -1, attnum = num, atttypmod = -1,
      attgenerated = NUL, attisdropped = False, attalignby = 4, atthasmissing = False\<rparr>"

definition demo_relation :: Relation where
  "demo_relation =
     \<lparr>rd_id = 16384, rd_namespace = 2200, rd_relname = ''t'', rd_relreplident = CHR ''d'',
      rd_att = [demo_attribute ''id'' 1, demo_attribute ''name'' 2], rd_identity_key = [8],
      rd_relkind = CHR ''r'', rd_relpersistence = CHR ''p'', rd_relispartition = False\<rparr>"

definition demo_slot :: "cstring TupleTableSlot" where
  "demo_slot = \<lparr>tts_values = [''7'', []], tts_isnull = [False, True]\<rparr>"

abbreviation demo_image :: "(byte \<times> byte list option) list" where
  "demo_image \<equiv> [(LOGICALREP_COLUMN_TEXT, Some ''7''), (LOGICALREP_COLUMN_NULL, None)]"

lemmas demo_simps = demo_catalog_def demo_attribute_def demo_relation_def demo_slot_def
  row_sent_def slot_of_def row_image_def published_columns_def logicalrep_should_publish_column_def
  column_image_def converted_def row_bytes_def MaxAllocSize_def published_attrs_def attrs_bytes_def attr_bytes_def
  sent_namespace_def survives_def c_str_def

lemma demo_row_sent:
  "row_sent (\<lambda>s. s) demo_catalog demo_relation demo_slot False [] PUBLISH_GENCOLS_NONE demo_image"
  "length (row_bytes demo_image) = 9"
  by (simp_all add: demo_simps)

theorem insert_roundtrip_witness:
  "row_sent (\<lambda>s. s) demo_catalog demo_relation demo_slot False [] PUBLISH_GENCOLS_NONE demo_image \<and>
   transmit (logicalrep_write_insert (\<lambda>s. s) demo_catalog 733 demo_relation demo_slot False [] PUBLISH_GENCOLS_NONE)
     (read_streamed True logicalrep_read_insert) = Inr (CHR ''I'', (733, 16384, row_view demo_image))"
  using insert_roundtrip [OF demo_row_sent(1), of 733] demo_row_sent
  by (simp add: MaxAllocSize_def) (simp add: demo_relation_def)

theorem delete_roundtrip_witness:
  "transmit (logicalrep_write_delete (\<lambda>s. s) demo_catalog 0 demo_relation demo_slot False [] PUBLISH_GENCOLS_NONE)
     (read_streamed False logicalrep_read_delete) = Inr (CHR ''D'', (0, 16384, row_view demo_image))"
  using delete_roundtrip [OF demo_row_sent(1), of 0] demo_row_sent(2)
  by (simp add: MaxAllocSize_def) (simp add: demo_relation_def)

text \<open>An UPDATE message is read back as the same relation id, the same new row, and the
  old row exactly when the publisher sent one.\<close>

theorem update_roundtrip:
  assumes "row_sent s2c cat rel slot binary columns gencols imgs"
    and "rel_option (\<lambda>oldslot oldimgs. row_sent s2c cat rel oldslot binary columns gencols oldimgs) old olds"
    and "(case olds of None \<Rightarrow> 0 | Some oldimgs \<Rightarrow> length (row_bytes oldimgs)) + length (row_bytes imgs) + 11 < MaxAllocSize"
  shows "transmit (logicalrep_write_update s2c cat xid rel old slot binary columns gencols)
           (read_streamed (xid \<noteq> InvalidTransactionId) logicalrep_read_update) =
         Inr (msg_char LOGICAL_REP_MSG_UPDATE, (xid, rd_id rel, map_option row_view olds, row_view imgs))"
proof (cases old)
  case None
  with assms show ?thesis by (simp add: update_transmitted_new)
next
  case (Some oldslot)
  with assms(2) obtain oldimgs where "olds = Some oldimgs" "row_sent s2c cat rel oldslot binary columns gencols oldimgs"
    by (cases olds) simp_all
  with Some assms show ?thesis by (simp add: update_transmitted_old)
qed

theorem update_roundtrip_witness:
  "transmit (logicalrep_write_update (\<lambda>s. s) demo_catalog 0 demo_relation (Some demo_slot) demo_slot False []
       PUBLISH_GENCOLS_NONE) (read_streamed False logicalrep_read_update) =
     Inr (CHR ''U'', (0, 16384, Some (row_view demo_image), row_view demo_image))"
  using update_roundtrip [OF demo_row_sent(1), of "Some demo_slot" "Some demo_image" 0] demo_row_sent
  by (simp add: MaxAllocSize_def) (simp add: demo_relation_def)

theorem truncate_roundtrip_witness:
  "transmit (logicalrep_write_truncate 9 [16384, 16390] True False) (read_streamed True logicalrep_read_truncate) =
     Inr (CHR ''T'', (9, [16384, 16390], True, False))"
  using truncate_roundtrip [of "[16384, 16390]" 9 True False] by (simp add: MaxAllocSize_def)

theorem relation_roundtrip_witness:
  "transmit (logicalrep_write_rel (\<lambda>s. s) demo_catalog 0 demo_relation [] PUBLISH_GENCOLS_NONE)
     (read_streamed False (logicalrep_read_rel (\<lambda>s. s))) =
   Inr (CHR ''R'', (0, relation_view demo_relation ''public''
     [demo_attribute ''id'' 1, demo_attribute ''name'' 2]))"
  using relation_roundtrip [of demo_catalog demo_relation "''public''" "\<lambda>s. s" "\<lambda>s. s" "[]" PUBLISH_GENCOLS_NONE 0]
  by (simp add: demo_simps)

theorem type_roundtrip_witness:
  "transmit (logicalrep_write_typ (\<lambda>s. s) demo_catalog 0 25) (read_streamed False (logicalrep_read_typ (\<lambda>s. s))) =
   Inr (CHR ''Y'', (0, \<lparr>typ_remoteid = 25, typ_nspname = ''pg_catalog'', typ_typname = ''text''\<rparr>))"
  using type_roundtrip [of demo_catalog 25 "\<lparr>typnamespace = 11, typname = ''text'', typsend = 0, typoutput = 47\<rparr>"
      "[]" "\<lambda>s. s" "\<lambda>s. s" 0]
  by (simp add: demo_simps read_namespace_name_def)

text \<open>A BEGIN message carries the final LSN, the commit time and the transaction id to the
  subscriber, and a COMMIT message its three positions.\<close>

theorem begin_commit_roundtrip:
  assumes "txn_final_lsn txn \<noteq> InvalidXLogRecPtr"
  shows "transmit (logicalrep_write_begin txn) logicalrep_read_begin =
      Inr (msg_char LOGICAL_REP_MSG_BEGIN,
        \<lparr>bd_final_lsn = txn_final_lsn txn, bd_committime = txn_xact_time txn, bd_xid = txn_xid txn\<rparr>) \<and>
    transmit (logicalrep_write_commit txn commit_lsn) logicalrep_read_commit =
      Inr (msg_char LOGICAL_REP_MSG_COMMIT,
        \<lparr>cd_commit_lsn = commit_lsn, cd_end_lsn = txn_end_lsn txn, cd_committime = txn_xact_time txn\<rparr>)"
  using transmit_eq [OF begin_appends begin_parses [OF assms]]
    transmit_eq [OF commit_appends [of txn commit_lsn] commit_parses]
  by (simp add: MaxAllocSize_def)

definition demo_txn :: ReorderBufferTXN where
  "demo_txn = \<lparr>txn_xid = 733, txn_final_lsn = 0x16B3748, txn_end_lsn = 0x16B3778, txn_xact_time = 42,
               txn_gid = ''gid1'', txn_first_lsn = 0x16B3700, txn_toptxn = None, txn_origin_id = 0, txn_origin_lsn = 0,
               txn_is_streamed = False\<rparr>"

theorem begin_commit_roundtrip_witness:
  "transmit (logicalrep_write_begin demo_txn) logicalrep_read_begin =
     Inr (CHR ''B'', \<lparr>bd_final_lsn = 0x16B3748, bd_committime = 42, bd_xid = 733\<rparr>)"
  using begin_commit_roundtrip [of demo_txn] by (simp add: demo_txn_def)

text \<open>The five messages of two-phase commit are read back with their positions, times,
  transaction id and global identifier, for identifiers that fit the buffer of the reader.\<close>

theorem two_phase_roundtrip:
  assumes lsn: "txn_final_lsn txn \<noteq> InvalidXLogRecPtr" "txn_end_lsn txn \<noteq> InvalidXLogRecPtr"
      "lsn \<noteq> InvalidXLogRecPtr" "txn_xid txn \<noteq> InvalidTransactionId"
    and gid: "survives s2c c2s (txn_gid txn)" "length (txn_gid txn) < GIDSIZE"
    and fits: "length (converted s2c (txn_gid txn)) + 40 < MaxAllocSize"
  shows "(transmit (logicalrep_write_begin_prepare s2c txn) (logicalrep_read_begin_prepare c2s) =
      Inr (CHR ''b'', \<lparr>pd_prepare_lsn = txn_final_lsn txn, pd_end_lsn = txn_end_lsn txn,
        pd_prepare_time = txn_xact_time txn, pd_xid = txn_xid txn, pd_gid = txn_gid txn\<rparr>)) \<and>
      (transmit (logicalrep_write_prepare s2c txn lsn) (logicalrep_read_prepare c2s) =
      Inr (CHR ''P'', \<lparr>pd_prepare_lsn = lsn, pd_end_lsn = txn_end_lsn txn,
        pd_prepare_time = txn_xact_time txn, pd_xid = txn_xid txn, pd_gid = txn_gid txn\<rparr>)) \<and>
      (transmit (logicalrep_write_stream_prepare s2c txn lsn) (logicalrep_read_stream_prepare c2s) =
      Inr (CHR ''p'', \<lparr>pd_prepare_lsn = lsn, pd_end_lsn = txn_end_lsn txn,
        pd_prepare_time = txn_xact_time txn, pd_xid = txn_xid txn, pd_gid = txn_gid txn\<rparr>)) \<and>
      (transmit (logicalrep_write_commit_prepared s2c txn lsn) (logicalrep_read_commit_prepared c2s) =
      Inr (CHR ''K'', \<lparr>cp_commit_lsn = lsn, cp_end_lsn = txn_end_lsn txn,
        cp_commit_time = txn_xact_time txn, cp_xid = txn_xid txn, cp_gid = txn_gid txn\<rparr>)) \<and>
      (transmit (logicalrep_write_rollback_prepared s2c txn lsn time) (logicalrep_read_rollback_prepared c2s) =
      Inr (CHR ''r'', \<lparr>rb_prepare_end_lsn = lsn, rb_rollback_end_lsn = txn_end_lsn txn, rb_prepare_time = time,
        rb_rollback_time = txn_xact_time txn, rb_xid = txn_xid txn, rb_gid = txn_gid txn\<rparr>))" (is "?bp \<and> ?p \<and> ?sp \<and> ?cp \<and> ?rp")
proof -
  have nf: "nul_free (txn_gid txn)" using gid(1) by (simp add: survives_def)
  note keep = gid_kept [OF gid(2) nf] c_str_nul_free [OF nf]
  have ?bp using transmit_eq [OF begin_prepare_appends begin_prepare_parses [OF lsn(1,2) gid(1)]] fits
    by (simp add: keep)
  moreover have ?p using transmit_eq [OF prepare_common_appends prepare_common_parses [OF lsn(3,2,4) gid(1)]] fits
    by (simp add: keep logicalrep_write_prepare_def logicalrep_read_prepare_def [abs_def])
  moreover have ?sp using transmit_eq [OF prepare_common_appends prepare_common_parses [OF lsn(3,2,4) gid(1)]] fits
    by (simp add: keep logicalrep_write_stream_prepare_def logicalrep_read_stream_prepare_def [abs_def])
  moreover have ?cp using transmit_eq [OF commit_prepared_appends commit_prepared_parses [OF lsn(3,2) gid(1)]] fits
    by (simp add: keep)
  moreover have ?rp using transmit_eq [OF rollback_prepared_appends rollback_prepared_parses [OF lsn(3,2) gid(1)]] fits
    by (simp add: keep)
  ultimately show ?thesis by blast
qed

theorem two_phase_roundtrip_witness:
  "transmit (logicalrep_write_prepare (\<lambda>s. s) demo_txn 0x16B3760) (logicalrep_read_prepare (\<lambda>s. s)) =
     Inr (CHR ''P'', \<lparr>pd_prepare_lsn = 0x16B3760, pd_end_lsn = 0x16B3778, pd_prepare_time = 42, pd_xid = 733,
       pd_gid = ''gid1''\<rparr>)"
  using two_phase_roundtrip [of demo_txn "0x16B3760" "\<lambda>s. s" "\<lambda>s. s"]
  by (simp add: demo_txn_def survives_id GIDSIZE_def converted_def MaxAllocSize_def)

text \<open>The messages that delimit a streamed transaction are read back: the first-segment
  mark, the commit positions, and the abort positions exactly when both sides exchange them.\<close>

theorem streaming_roundtrip:
  "(transmit (logicalrep_write_stream_start xid first_segment) logicalrep_read_stream_start =
     Inr (msg_char LOGICAL_REP_MSG_STREAM_START, (xid, first_segment))) \<and>
   (transmit (logicalrep_write_stream_commit txn commit_lsn) logicalrep_read_stream_commit =
     Inr (msg_char LOGICAL_REP_MSG_STREAM_COMMIT, (txn_xid txn, \<lparr>cd_commit_lsn = commit_lsn,
       cd_end_lsn = txn_end_lsn txn, cd_committime = txn_xact_time txn\<rparr>))) \<and>
   (transmit (logicalrep_write_stream_abort xid subxid lsn time info) (logicalrep_read_stream_abort info) =
     Inr (msg_char LOGICAL_REP_MSG_STREAM_ABORT, \<lparr>ab_xid = xid, ab_subxid = subxid,
       ab_abort_lsn = (if info then lsn else InvalidXLogRecPtr), ab_abort_time = (if info then time else 0)\<rparr>))"
  using transmit_eq [OF stream_start_appends stream_start_parses, of xid first_segment]
    transmit_eq [OF stream_commit_appends [of txn commit_lsn] stream_commit_parses]
    transmit_eq [OF stream_abort_appends [of xid subxid lsn time info] stream_abort_parses]
  by (simp_all add: MaxAllocSize_def abort_info_bytes_def)

text \<open>Claim C32. Whatever bytes arrive, every message reader either returns with the cursor still
  inside the message and the message unchanged, or raises a protocol error: none reads outside the
  buffer or an unwritten cell.\<close>

theorem readers_safe:
  "safe_reader (read_streamed streaming logicalrep_read_insert) \<and>
   safe_reader (read_streamed streaming logicalrep_read_update) \<and>
   safe_reader (read_streamed streaming logicalrep_read_delete) \<and>
   safe_reader (read_streamed streaming logicalrep_read_truncate) \<and>
   safe_reader (read_streamed streaming (logicalrep_read_rel c2s)) \<and>
   safe_reader (read_streamed streaming (logicalrep_read_typ c2s)) \<and>
   safe_reader logicalrep_read_begin \<and> safe_reader logicalrep_read_commit \<and>
   safe_reader (logicalrep_read_begin_prepare c2s) \<and> safe_reader (logicalrep_read_prepare c2s) \<and>
   safe_reader (logicalrep_read_stream_prepare c2s) \<and> safe_reader (logicalrep_read_commit_prepared c2s) \<and>
   safe_reader (logicalrep_read_rollback_prepared c2s) \<and> safe_reader (logicalrep_read_origin c2s) \<and>
   safe_reader logicalrep_read_stream_start \<and> safe_reader logicalrep_read_stream_commit \<and>
   safe_reader (logicalrep_read_stream_abort info)"
  by (intro conjI read_streamed_safe change_readers_safe transaction_readers_safe)

end
