(* ===== verification/RelationMap.thy ===== *)
theory RelationMap
  imports LogicalProto
begin

text \<open>
  The relation map of \<^verbatim>\<open>src/backend/replication/logical/relation.c\<close>: the descriptions the
  publisher has sent, by remote id, each with the local table it was resolved to. The local
  catalog is an argument: names and ids of tables, their columns and keys, the state of a
  table's synchronisation, which index serves a search, and whether taking the lock of a table
  delivers an invalidation of it.
\<close>

abbreviation SUBREL_STATE_READY :: byte where "SUBREL_STATE_READY \<equiv> CHR ''r''"
abbreviation SUBREL_STATE_SYNCDONE :: byte where "SUBREL_STATE_SYNCDONE \<equiv> CHR ''s''"
abbreviation SUBREL_STATE_UNKNOWN :: byte where "SUBREL_STATE_UNKNOWN \<equiv> NUL"
abbreviation RELKIND_RELATION :: byte where "RELKIND_RELATION \<equiv> CHR ''r''"
abbreviation RELKIND_PARTITIONED_TABLE :: byte where "RELKIND_PARTITIONED_TABLE \<equiv> CHR ''p''"
abbreviation InvalidOid :: Oid where "InvalidOid \<equiv> 0"

section \<open>The local catalog\<close>

record local_attribute =
  la_name :: cstring
  la_dropped :: bool
  la_generated :: bool

text \<open>The key bitmaps hold attribute numbers less \<^verbatim>\<open>FirstLowInvalidHeapAttributeNumber\<close>.\<close>

record local_table =
  lt_relkind :: byte
  lt_atts :: "local_attribute list"
  lt_identity_key :: "nat list"
  lt_primary_key :: "nat list"

record local_catalog =
  RangeVarGetRelid :: "cstring \<Rightarrow> cstring \<Rightarrow> Oid"
  table_of :: "Oid \<Rightarrow> local_table option"
  lock_invalidates :: "Oid \<Rightarrow> bool"
  subrel_state :: "Oid \<Rightarrow> byte \<times> XLogRecPtr"
  local_index :: "Oid \<Rightarrow> LogicalRepRelation \<Rightarrow> Oid"

section \<open>Entries\<close>

record LogicalRepRelMapEntry =
  remoterel :: LogicalRepRelation
  localrelvalid :: bool
  localreloid :: Oid
  localrel :: "local_table option"
  attrmap :: "int list option"
  updatable :: bool
  localindexoid :: Oid
  state :: byte
  statelsn :: XLogRecPtr

type_synonym relmap = "Oid \<rightharpoonup> LogicalRepRelMapEntry"

text \<open>\<open>order\<close> is the order in which a scan of the hash table delivers the entries.\<close>

fun invalidate_first :: "Oid list \<Rightarrow> Oid \<Rightarrow> relmap \<Rightarrow> relmap" where
  "invalidate_first [] reloid rm = rm"
| "invalidate_first (k # ks) reloid rm =
     (case rm k of None \<Rightarrow> invalidate_first ks reloid rm
      | Some entry \<Rightarrow>
          if localreloid entry = reloid then rm(k \<mapsto> entry\<lparr>localrelvalid := False\<rparr>)
          else invalidate_first ks reloid rm)"

definition logicalrep_relmap_invalidate_cb :: "Oid list \<Rightarrow> Oid \<Rightarrow> relmap \<Rightarrow> relmap" where
  "logicalrep_relmap_invalidate_cb order reloid rm =
     (if reloid \<noteq> InvalidOid then invalidate_first order reloid rm
      else map_option (\<lambda>entry. entry\<lparr>localrelvalid := False\<rparr>) \<circ> rm)"

text \<open>The zeroed entry gets copies of the description's strings and arrays.\<close>

definition copy_remoterel :: "LogicalRepRelation \<Rightarrow> LogicalRepRelation res" where
  "copy_remoterel rel =
     (if natts rel \<le> length (attnames rel) \<and> natts rel \<le> length (atttyps rel)
      then Inr \<lparr>remoteid = remoteid rel, nspname = c_str (nspname rel), relname = c_str (relname rel),
             natts = natts rel, attnames = map c_str (take (natts rel) (attnames rel)),
             atttyps = take (natts rel) (atttyps rel), replident = replident rel, attkeys = attkeys rel\<rparr>
      else Inl (Undefined OutOfBounds))"

definition logicalrep_relmap_update :: "LogicalRepRelation \<Rightarrow> relmap \<Rightarrow> relmap res" where
  "logicalrep_relmap_update rel rm =
     bindR (copy_remoterel rel) (\<lambda>copy.
     Inr (rm(remoteid rel \<mapsto> \<lparr>remoterel = copy, localrelvalid = False, localreloid = 0, localrel = None,
        attrmap = None, updatable = False, localindexoid = 0, state = NUL, statelsn = 0\<rparr>)))"

fun att_by_name_loop :: "cstring list \<Rightarrow> int \<Rightarrow> cstring \<Rightarrow> int" where
  "att_by_name_loop [] i name = -1"
| "att_by_name_loop (n # ns) i name = (if c_str n = c_str name then i else att_by_name_loop ns (i + 1) name)"

definition logicalrep_rel_att_by_name :: "LogicalRepRelation \<Rightarrow> cstring \<Rightarrow> int" where
  "logicalrep_rel_att_by_name rel name = att_by_name_loop (take (natts rel) (attnames rel)) 0 name"

text \<open>The attribute map, the remote columns not found, and those found generated.\<close>

fun map_atts :: "LogicalRepRelation \<Rightarrow> local_attribute list \<Rightarrow> int list \<Rightarrow> int list \<Rightarrow> int list \<Rightarrow> int list \<times> int list \<times> int list" where
  "map_atts rel [] attnums missing generated = (attnums, missing, generated)"
| "map_atts rel (attr # atts) attnums missing generated =
     (if la_dropped attr then map_atts rel atts (attnums @ [-1]) missing generated
      else
        let attnum = logicalrep_rel_att_by_name rel (la_name attr)
        in if attnum \<ge> 0
           then map_atts rel atts (attnums @ [attnum]) (filter (\<lambda>a. a \<noteq> attnum) missing)
                  (if la_generated attr then attnum # generated else generated)
           else map_atts rel atts (attnums @ [attnum]) missing generated)"

definition logicalrep_report_missing_or_gen_attrs :: "int list \<Rightarrow> int list \<Rightarrow> unit res" where
  "logicalrep_report_missing_or_gen_attrs missing generated =
     (if missing \<noteq> [] then Inl (PgError ''logical replication target relation is missing replicated columns'')
      else if generated \<noteq> [] then Inl (PgError ''logical replication target relation has incompatible generated columns'')
      else Inr ())"

fun key_covered :: "nat list \<Rightarrow> int list \<Rightarrow> nat list \<Rightarrow> bool res" where
  "key_covered [] attnums keys = Inr True"
| "key_covered (i # idkey) attnums keys =
     (if int i - 7 \<le> 0 then Inl (PgError ''logical replication target relation uses system columns in REPLICA IDENTITY index'')
      else if length attnums \<le> nat (int i - 8) then Inl (Undefined OutOfBounds)
      else if attnums ! nat (int i - 8) < 0 \<or> nat (attnums ! nat (int i - 8)) \<notin> set keys then Inr False
      else key_covered idkey attnums keys)"

definition logicalrep_rel_mark_updatable :: "LogicalRepRelation \<Rightarrow> local_table \<Rightarrow> int list \<Rightarrow> bool res" where
  "logicalrep_rel_mark_updatable rel tab attnums =
     (let idkey = (if lt_identity_key tab = [] then lt_primary_key tab else lt_identity_key tab)
      in if idkey = [] \<and> replident rel \<noteq> REPLICA_IDENTITY_FULL then Inr False
         else key_covered idkey attnums (attkeys rel))"

definition CheckSubscriptionRelkind :: "byte \<Rightarrow> unit res" where
  "CheckSubscriptionRelkind relkind =
     (if relkind \<noteq> RELKIND_RELATION \<and> relkind \<noteq> RELKIND_PARTITIONED_TABLE
      then Inl (PgError ''cannot use relation as logical replication target'') else Inr ())"

text \<open>Opening by id, when the entry is valid: the lock may deliver an invalidation.\<close>

definition reopen_by_oid :: "local_catalog \<Rightarrow> LogicalRepRelMapEntry \<Rightarrow> LogicalRepRelMapEntry" where
  "reopen_by_oid cat entry =
     (if localrelvalid entry then
        (case table_of cat (localreloid entry) of
           None \<Rightarrow> entry\<lparr>localrelvalid := False\<rparr>
         | Some tab \<Rightarrow>
             if lock_invalidates cat (localreloid entry) then entry\<lparr>localrelvalid := False\<rparr>
             else entry\<lparr>localrel := Some tab\<rparr>)
      else entry)"

definition rebuild_by_name :: "local_catalog \<Rightarrow> LogicalRepRelMapEntry \<Rightarrow> LogicalRepRelMapEntry res" where
  "rebuild_by_name cat entry =
     (let rel = remoterel entry; relid = RangeVarGetRelid cat (nspname rel) (relname rel)
      in if relid = InvalidOid then Inl (PgError ''logical replication target relation does not exist'')
         else case table_of cat relid of
           None \<Rightarrow> Inl (PgError ''could not open relation'')
         | Some tab \<Rightarrow>
             bindR (CheckSubscriptionRelkind (lt_relkind tab)) (\<lambda>_.
             let (attnums, missing, generated) =
               map_atts rel (lt_atts tab) [] (map int [0..<natts rel]) []
             in bindR (logicalrep_report_missing_or_gen_attrs missing generated) (\<lambda>_.
                bindR (logicalrep_rel_mark_updatable rel tab attnums) (\<lambda>upd.
                Inr (entry\<lparr>localrel := Some tab, localreloid := relid, attrmap := Some attnums, updatable := upd,
                   localindexoid := local_index cat relid rel, localrelvalid := True\<rparr>)))))"

definition logicalrep_rel_open :: "local_catalog \<Rightarrow> Oid \<Rightarrow> relmap \<Rightarrow> (LogicalRepRelMapEntry \<times> relmap) res" where
  "logicalrep_rel_open cat rid rm =
     (case rm rid of
        None \<Rightarrow> Inl (PgError ''no relation map entry for remote relation ID'')
      | Some entry \<Rightarrow>
          if localrel entry \<noteq> None then Inl (PgError ''remote relation ID is already open'')
          else
            let entry = reopen_by_oid cat entry
            in bindR (if \<not> localrelvalid entry then rebuild_by_name cat (entry\<lparr>attrmap := None\<rparr>) else Inr entry) (\<lambda>entry.
               let entry = (if state entry \<noteq> SUBREL_STATE_READY
                            then entry\<lparr>state := fst (subrel_state cat (localreloid entry)),
                                       statelsn := snd (subrel_state cat (localreloid entry))\<rparr>
                            else entry)
               in Inr (entry, rm(rid \<mapsto> entry))))"

definition logicalrep_rel_close :: "Oid \<Rightarrow> relmap \<Rightarrow> relmap res" where
  "logicalrep_rel_close rid rm =
     (case rm rid of None \<Rightarrow> Inl (Undefined NullPointer)
      | Some entry \<Rightarrow> if localrel entry = None then Inl (Undefined NullPointer)
                      else Inr (rm(rid \<mapsto> entry\<lparr>localrel := None\<rparr>)))"


section \<open>The attribute map\<close>

lemma att_by_name_loop_eq:
  "att_by_name_loop ns i name = (if c_str name \<in> c_str ` set ns
     then i + int (length (takeWhile (\<lambda>n. c_str n \<noteq> c_str name) ns)) else -1)"
  by (induction ns arbitrary: i) auto

text \<open>The index of a name: the first column of that name, or \<open>-1\<close>.\<close>

lemma att_by_name_found:
  assumes "logicalrep_rel_att_by_name rel name = int j"
  shows "j < natts rel" and "j < length (attnames rel)" and "c_str (attnames rel ! j) = c_str name"
proof -
  let ?ns = "take (natts rel) (attnames rel)"
  let ?tw = "takeWhile (\<lambda>n. c_str n \<noteq> c_str name) ?ns"
  have *: "c_str name \<in> c_str ` set ?ns" and j: "j = length ?tw"
    using assms by (auto simp: logicalrep_rel_att_by_name_def att_by_name_loop_eq split: if_splits)
  then have "?tw \<noteq> ?ns" by (metis (mono_tags, lifting) imageE takeWhile_eq_all_conv)
  then have len: "j < length ?ns" unfolding j using takeWhile_eq_take [of "\<lambda>n. c_str n \<noteq> c_str name" ?ns]
    by (metis linorder_not_less take_all)
  have "\<not> c_str (?ns ! j) \<noteq> c_str name" using nth_length_takeWhile len unfolding j by blast
  then show "j < natts rel" "j < length (attnames rel)" "c_str (attnames rel ! j) = c_str name"
    using len by auto
qed

definition att_target :: "LogicalRepRelation \<Rightarrow> local_attribute \<Rightarrow> int" where
  "att_target rel attr = (if la_dropped attr then -1 else logicalrep_rel_att_by_name rel (la_name attr))"

lemma map_atts_eq:
  "map_atts rel atts attnums missing generated =
     (attnums @ map (att_target rel) atts,
      filter (\<lambda>a. a \<notin> att_target rel ` set atts \<or> a < 0) missing,
      rev (map (att_target rel) (filter (\<lambda>attr. att_target rel attr \<ge> 0 \<and> la_generated attr) atts)) @ generated)"
proof (induction atts arbitrary: attnums missing generated)
  case (Cons attr atts)
  show ?case
    by (cases "la_dropped attr") (auto simp: Cons.IH att_target_def Let_def intro!: filter_cong)
qed simp

text \<open>
  \<open>resolved\<close>: the local table an entry stands for has, for every column of the description, a
  live column of the same name that is not generated, and the map of the entry leads from each
  local column to the remote column of its name.
\<close>

definition resolved :: "local_table \<Rightarrow> LogicalRepRelMapEntry \<Rightarrow> bool" where
  "resolved tab entry \<longleftrightarrow>
     attrmap entry = Some (map (att_target (remoterel entry)) (lt_atts tab)) \<and>
     lt_relkind tab \<in> {RELKIND_RELATION, RELKIND_PARTITIONED_TABLE} \<and>
     (\<forall>j < natts (remoterel entry). \<exists>attr\<in>set (lt_atts tab). \<not> la_dropped attr \<and> \<not> la_generated attr \<and>
        c_str (la_name attr) = c_str (attnames (remoterel entry) ! j))"

lemma no_missing_columns:
  assumes "map_atts rel atts [] (map int [0..<natts rel]) [] = (attnums, missing, generated)"
    and "logicalrep_report_missing_or_gen_attrs missing generated = Inr u"
  shows "attnums = map (att_target rel) atts \<and>
    (\<forall>j < natts rel. \<exists>attr\<in>set atts. \<not> la_dropped attr \<and> \<not> la_generated attr \<and>
        c_str (la_name attr) = c_str (attnames rel ! j))"
proof (intro conjI allI impI)
  have none: "missing = []" "generated = []"
    using assms(2) by (auto simp: logicalrep_report_missing_or_gen_attrs_def split: if_splits)
  show "attnums = map (att_target rel) atts" using assms(1) by (simp add: map_atts_eq)
  fix j assume "j < natts rel"
  then have "int j \<in> set (map int [0..<natts rel])" by simp
  then have "int j \<in> att_target rel ` set atts"
    using assms(1) none by (auto simp: map_atts_eq filter_empty_conv)
  then obtain attr where attr: "attr \<in> set atts" "att_target rel attr = int j" by auto
  have "\<not> la_generated attr" using assms(1) none attr by (auto simp: map_atts_eq filter_empty_conv)
  moreover have "\<not> la_dropped attr" using attr(2) by (auto simp: att_target_def)
  ultimately show "\<exists>attr\<in>set atts. \<not> la_dropped attr \<and> \<not> la_generated attr \<and>
        c_str (la_name attr) = c_str (attnames rel ! j)"
    using attr att_by_name_found(3) [of rel "la_name attr" j] by (auto simp: att_target_def)
qed

lemma rebuild_by_name_resolved:
  assumes "rebuild_by_name cat entry = Inr entry'"
  obtains tab where "table_of cat (localreloid entry') = Some tab" and "localrel entry' = Some tab"
    and "localreloid entry' = RangeVarGetRelid cat (nspname (remoterel entry)) (relname (remoterel entry))"
    and "resolved tab entry'" and "remoterel entry' = remoterel entry" and "localrelvalid entry'"
    and "state entry' = state entry"
proof -
  let ?rel = "remoterel entry"
  from assms obtain tab attnums missing generated upd where
    t: "table_of cat (RangeVarGetRelid cat (nspname ?rel) (relname ?rel)) = Some tab"
    "CheckSubscriptionRelkind (lt_relkind tab) = Inr ()"
    "map_atts ?rel (lt_atts tab) [] (map int [0..<natts ?rel]) [] = (attnums, missing, generated)"
    "logicalrep_report_missing_or_gen_attrs missing generated = Inr ()"
    and e: "entry' = entry\<lparr>localrel := Some tab, localreloid := RangeVarGetRelid cat (nspname ?rel) (relname ?rel),
      attrmap := Some attnums, updatable := upd,
      localindexoid := local_index cat (RangeVarGetRelid cat (nspname ?rel) (relname ?rel)) ?rel, localrelvalid := True\<rparr>"
    by (auto simp: rebuild_by_name_def Let_def bindR_eq_Inr_iff split: if_splits option.splits prod.splits)
  have "resolved tab entry'"
    using no_missing_columns [OF t(3,4)] t(2) e
    by (auto simp: resolved_def CheckSubscriptionRelkind_def split: if_splits)
  with t(1) e show thesis by (intro that [of tab]) simp_all
qed


section \<open>The map between messages\<close>

text \<open>
  Between messages every entry is closed, and an entry that is still valid fits the local table
  of its id, unless an invalidation of that table is on its way.
\<close>

definition entry_ok :: "local_catalog \<Rightarrow> LogicalRepRelMapEntry \<Rightarrow> bool" where
  "entry_ok cat entry \<longleftrightarrow> localrel entry = None \<and>
     (localrelvalid entry \<and> \<not> lock_invalidates cat (localreloid entry) \<longrightarrow>
        (\<forall>tab. table_of cat (localreloid entry) = Some tab \<longrightarrow> resolved tab entry))"

definition relmap_ok :: "local_catalog \<Rightarrow> relmap \<Rightarrow> bool" where
  "relmap_ok cat rm \<longleftrightarrow> (\<forall>k entry. rm k = Some entry \<longrightarrow> entry_ok cat entry)"

lemma relmap_ok_upd: "relmap_ok cat rm \<Longrightarrow> entry_ok cat entry \<Longrightarrow> relmap_ok cat (rm(k \<mapsto> entry))"
  by (simp add: relmap_ok_def)

lemma relmap_ok_lookup: "relmap_ok cat rm \<Longrightarrow> rm k = Some entry \<Longrightarrow> entry_ok cat entry"
  by (simp add: relmap_ok_def)

lemma relmap_update_ok:
  assumes "relmap_ok cat rm" and "logicalrep_relmap_update rel rm = Inr rm'"
  shows "relmap_ok cat rm'"
  using assms by (auto simp: logicalrep_relmap_update_def bindR_eq_Inr_iff entry_ok_def intro!: relmap_ok_upd)

lemma invalidate_first_ok: "relmap_ok cat rm \<Longrightarrow> relmap_ok cat (invalidate_first order reloid rm)"
  by (induction order) (auto split: option.splits intro!: relmap_ok_upd dest: relmap_ok_lookup simp: entry_ok_def)

lemma relmap_invalidate_ok: "relmap_ok cat rm \<Longrightarrow> relmap_ok cat (logicalrep_relmap_invalidate_cb order reloid rm)"
  by (auto simp: logicalrep_relmap_invalidate_cb_def invalidate_first_ok)
    (auto simp: relmap_ok_def entry_ok_def)

lemma reopen_resolved:
  assumes "entry_ok cat entry" and "localrelvalid (reopen_by_oid cat entry)"
  obtains tab where "table_of cat (localreloid entry) = Some tab" and "resolved tab entry"
    and "reopen_by_oid cat entry = entry\<lparr>localrel := Some tab\<rparr>"
  using assms that by (auto simp: reopen_by_oid_def entry_ok_def split: if_splits option.splits)

lemma resolved_cong:
  "attrmap e = attrmap e' \<Longrightarrow> remoterel e = remoterel e' \<Longrightarrow> resolved tab e \<longleftrightarrow> resolved tab e'"
  by (simp add: resolved_def)

lemma rel_open_resolved:
  assumes ok: "relmap_ok cat rm" and r: "logicalrep_rel_open cat rid rm = Inr (entry, rm')"
  obtains tab old where "rm rid = Some old" and "remoterel entry = remoterel old" and "localrel entry = Some tab"
    and "table_of cat (localreloid entry) = Some tab" and "resolved tab entry" and "localrelvalid entry"
    and "rm' = rm(rid \<mapsto> entry)"
proof -
  from r obtain old where old: "rm rid = Some old" "localrel old = None"
    by (auto simp: logicalrep_rel_open_def split: option.splits if_splits)
  let ?e = "reopen_by_oid cat old"
  from r old obtain e where e: "(if \<not> localrelvalid ?e then rebuild_by_name cat (?e\<lparr>attrmap := None\<rparr>) else Inr ?e) = Inr e"
    and entry: "entry = (if state e \<noteq> SUBREL_STATE_READY
       then e\<lparr>state := fst (subrel_state cat (localreloid e)),
              statelsn := snd (subrel_state cat (localreloid e))\<rparr> else e)"
    and rm': "rm' = rm(rid \<mapsto> entry)"
    unfolding logicalrep_rel_open_def Let_def by (auto simp: bindR_eq_Inr_iff)
  have same: "remoterel ?e = remoterel old" by (simp add: reopen_by_oid_def split: option.splits)
  obtain tab where t: "table_of cat (localreloid e) = Some tab" "localrel e = Some tab" "resolved tab e"
    "remoterel e = remoterel old" "localrelvalid e"
  proof (cases "localrelvalid ?e")
    case True
    then obtain tab where "table_of cat (localreloid old) = Some tab" "resolved tab old"
      "?e = old\<lparr>localrel := Some tab\<rparr>" by (rule reopen_resolved [OF relmap_ok_lookup [OF ok old(1)]])
    with e True show thesis by (intro that [of tab]) (auto simp: resolved_def)
  next
    case False
    then have "rebuild_by_name cat (?e\<lparr>attrmap := None\<rparr>) = Inr e" using e by simp
    then show thesis by (rule rebuild_by_name_resolved) (use that same in simp)
  qed
  show thesis by (rule that [of old tab]) (use t old rm' in \<open>simp_all add: entry resolved_def\<close>)
qed

lemma rel_open_close:
  assumes "relmap_ok cat rm" and "logicalrep_rel_open cat rid rm = Inr (entry, rm')"
  shows "\<exists>rm''. logicalrep_rel_close rid rm' = Inr rm'' \<and> relmap_ok cat rm''"
proof -
  obtain tab old where o: "localrel entry = Some tab" "table_of cat (localreloid entry) = Some tab" "resolved tab entry"
    "rm' = rm(rid \<mapsto> entry)" by (rule rel_open_resolved [OF assms])
  have "entry_ok cat (entry\<lparr>localrel := None\<rparr>)"
    using o by (auto simp: entry_ok_def resolved_def)
  then show ?thesis using o assms(1) by (auto simp: logicalrep_rel_close_def intro: relmap_ok_upd)
qed

section \<open>Properties of the relation map\<close>

lemma opened_relation:
  assumes "relmap_ok cat rm" and "logicalrep_relmap_update rel rm = Inr rm1"
    and "logicalrep_rel_open cat (remoteid rel) rm1 = Inr (entry, rm2)"
  shows "copy_remoterel rel = Inr (remoterel entry) \<and>
    localreloid entry = RangeVarGetRelid cat (c_str (nspname rel)) (c_str (relname rel)) \<and>
    (\<exists>tab. localrel entry = Some tab \<and> table_of cat (localreloid entry) = Some tab \<and> resolved tab entry) \<and>
    (\<exists>rm3. logicalrep_rel_close (remoteid rel) rm2 = Inr rm3 \<and> relmap_ok cat rm3)"
proof -
  obtain copy where copy: "copy_remoterel rel = Inr copy" and rm1: "rm1 (remoteid rel) =
      Some \<lparr>remoterel = copy, localrelvalid = False, localreloid = 0, localrel = None,
        attrmap = None, updatable = False, localindexoid = 0, state = NUL, statelsn = 0\<rparr>" (is "_ = Some ?fresh")
    using assms(2) by (auto simp: logicalrep_relmap_update_def bindR_eq_Inr_iff)
  have ok: "relmap_ok cat rm1" by (rule relmap_update_ok [OF assms(1,2)])
  obtain tab where t: "remoterel entry = copy" "localrel entry = Some tab" "table_of cat (localreloid entry) = Some tab" "resolved tab entry"
    by (rule rel_open_resolved [OF ok assms(3)]) (use rm1 in auto)
  obtain e where "rebuild_by_name cat ?fresh = Inr e" and "localreloid entry = localreloid e"
    using assms(3) rm1 by (auto simp: logicalrep_rel_open_def reopen_by_oid_def Let_def bindR_eq_Inr_iff)
  then have "localreloid entry = RangeVarGetRelid cat (c_str (nspname rel)) (c_str (relname rel))"
    using copy by (auto elim!: rebuild_by_name_resolved simp: copy_remoterel_def split: if_splits)
  then show ?thesis using copy t rel_open_close [OF ok assms(3)] by auto
qed

text \<open>Claim C30. Opening a relation that the publisher has described gives the description last sent and a
  local table that can hold it: every published column has a live local column of its name
  which is not generated, and the attribute map pairs the columns by name. Closing it leaves
  the map as the next message expects it.\<close>

theorem rel_open_resolves:
  assumes "relmap_ok cat rm" and "logicalrep_relmap_update rel rm = Inr rm1"
    and "logicalrep_rel_open cat (remoteid rel) rm1 = Inr (entry, rm2)"
  shows "copy_remoterel rel = Inr (remoterel entry) \<and>
    localreloid entry = RangeVarGetRelid cat (c_str (nspname rel)) (c_str (relname rel)) \<and>
    (\<exists>tab. table_of cat (localreloid entry) = Some tab \<and> resolved tab entry) \<and>
    (\<exists>rm3. logicalrep_rel_close (remoteid rel) rm2 = Inr rm3 \<and> relmap_ok cat rm3)"
  using opened_relation [OF assms] by blast

definition demo_catalog :: local_catalog where
  "demo_catalog = \<lparr>RangeVarGetRelid = (\<lambda>_ _. 40), table_of = (\<lambda>oid. if oid = 40 then
       Some \<lparr>lt_relkind = RELKIND_RELATION, lt_atts = [\<lparr>la_name = ''note'', la_dropped = False, la_generated = False\<rparr>,
          \<lparr>la_name = ''id'', la_dropped = False, la_generated = False\<rparr>], lt_identity_key = [9], lt_primary_key = [9]\<rparr> else None),
     lock_invalidates = (\<lambda>_. False), subrel_state = (\<lambda>_. (SUBREL_STATE_READY, 5)), local_index = (\<lambda>_ _. 41)\<rparr>"

definition demo_remote_rel :: LogicalRepRelation where
  "demo_remote_rel = \<lparr>remoteid = 7, nspname = ''public'', relname = ''t'', natts = 1, attnames = [''id''],
     atttyps = [23], replident = CHR ''d'', attkeys = [0]\<rparr>"

lemma demo_open:
  obtains entry rm1 rm2 where "logicalrep_relmap_update demo_remote_rel (\<lambda>_. None) = Inr rm1"
    and "logicalrep_rel_open demo_catalog 7 rm1 = Inr (entry, rm2)" and "attrmap entry = Some [-1, 0]"
    and "updatable entry" and "remoterel entry = demo_remote_rel" and "state entry = SUBREL_STATE_READY"
  using that by (simp add: logicalrep_relmap_update_def copy_remoterel_def demo_remote_rel_def logicalrep_rel_open_def
      reopen_by_oid_def rebuild_by_name_def demo_catalog_def CheckSubscriptionRelkind_def logicalrep_rel_att_by_name_def
      logicalrep_report_missing_or_gen_attrs_def logicalrep_rel_mark_updatable_def Let_def)

theorem rel_open_resolves_witness:
  "\<exists>rm1 entry rm2. logicalrep_relmap_update demo_remote_rel (\<lambda>_. None) = Inr rm1 \<and>
     logicalrep_rel_open demo_catalog 7 rm1 = Inr (entry, rm2) \<and> localreloid entry = 40 \<and> attrmap entry = Some [-1, 0]"
proof -
  obtain entry rm1 rm2 where d: "logicalrep_relmap_update demo_remote_rel (\<lambda>_. None) = Inr rm1"
    "logicalrep_rel_open demo_catalog 7 rm1 = Inr (entry, rm2)" "attrmap entry = Some [-1, 0]" by (rule demo_open)
  have "relmap_ok demo_catalog (\<lambda>_. None)" by (simp add: relmap_ok_def)
  from rel_open_resolves [OF this d(1)] d(2) have "localreloid entry = 40"
    by (simp add: demo_catalog_def demo_remote_rel_def)
  with d show ?thesis by blast
qed

end
