(* ===== verification/CJson.thy ===== *)
theory CJson
  imports StringInfo
begin

text \<open>
  The JSON library \<^verbatim>\<open>src/backend/utils/adt/cJSON.c\<close> that builds and prints the
  change events. An item is a tree: the chain of siblings a \<^verbatim>\<open>child\<close> pointer starts is
  the list of the children. Memory comes from \<^verbatim>\<open>palloc0\<close>, which never returns NULL and
  refuses sizes above its limit; the buffers the printer fills and the parser unescapes into
  are modelled cell by cell, so that a write past their end is an \<^const>\<open>Undefined\<close> result.
  Floating-point arithmetic and its \<^verbatim>\<open>printf\<close> conversions are a parameter.
\<close>

unbundle bit_operations_syntax

section \<open>Items\<close>

abbreviation cJSON_False :: "32 word" where "cJSON_False \<equiv> 0"
abbreviation cJSON_True :: "32 word" where "cJSON_True \<equiv> 1"
abbreviation cJSON_NULL :: "32 word" where "cJSON_NULL \<equiv> 2"
abbreviation cJSON_Number :: "32 word" where "cJSON_Number \<equiv> 3"
abbreviation cJSON_String :: "32 word" where "cJSON_String \<equiv> 4"
abbreviation cJSON_Array :: "32 word" where "cJSON_Array \<equiv> 5"
abbreviation cJSON_Object :: "32 word" where "cJSON_Object \<equiv> 6"
abbreviation cJSON_IsReference :: "32 word" where "cJSON_IsReference \<equiv> 256"
abbreviation cJSON_StringIsConst :: "32 word" where "cJSON_StringIsConst \<equiv> 512"

record 'r cJSON_fields =
  cj_type :: "32 word"
  valuestring :: "cstring option"
  valueint :: "32 word"
  valuedouble :: 'r
  cj_string :: "cstring option"

datatype 'r cJSON = CJSON (node: "'r cJSON_fields") (child: "'r cJSON list")

text \<open>What the code uses of \<^verbatim>\<open>double\<close>.\<close>

record 'r double_ops =
  fp_of_int :: "int \<Rightarrow> 'r"
  fp_add :: "'r \<Rightarrow> 'r \<Rightarrow> 'r"
  fp_mul :: "'r \<Rightarrow> 'r \<Rightarrow> 'r"
  fp_pow10 :: "'r \<Rightarrow> 'r"
  fp_to_int :: "'r \<Rightarrow> 32 word"
  fp_is_zero :: "'r \<Rightarrow> bool"
  fp_is_int :: "32 word \<Rightarrow> 'r \<Rightarrow> bool"
  fp_is_whole :: "'r \<Rightarrow> bool"
  fp_needs_exponent :: "'r \<Rightarrow> bool"
  fp_sprintf_0f :: "'r \<Rightarrow> cstring"
  fp_sprintf_e :: "'r \<Rightarrow> cstring"
  fp_sprintf_f :: "'r \<Rightarrow> cstring"

definition cJSON_New_Item :: "'r::zero cJSON" where
  "cJSON_New_Item = CJSON \<lparr>cj_type = 0, valuestring = None, valueint = 0, valuedouble = 0, cj_string = None\<rparr> []"

definition set_type :: "32 word \<Rightarrow> 'r cJSON \<Rightarrow> 'r cJSON" where
  "set_type t item = CJSON (node item\<lparr>cj_type := t\<rparr>) (child item)"

definition set_string :: "cstring option \<Rightarrow> 'r cJSON \<Rightarrow> 'r cJSON" where
  "set_string str item = CJSON (node item\<lparr>cj_string := str\<rparr>) (child item)"

definition cJSON_CreateNull :: "'r::zero cJSON" where
  "cJSON_CreateNull = set_type cJSON_NULL cJSON_New_Item"

definition cJSON_CreateTrue :: "'r::zero cJSON" where
  "cJSON_CreateTrue = set_type cJSON_True cJSON_New_Item"

definition cJSON_CreateFalse :: "'r::zero cJSON" where
  "cJSON_CreateFalse = set_type cJSON_False cJSON_New_Item"

definition cJSON_CreateBool :: "32 word \<Rightarrow> 'r::zero cJSON" where
  "cJSON_CreateBool b = set_type (if b \<noteq> 0 then cJSON_True else cJSON_False) cJSON_New_Item"

definition cJSON_CreateNumber :: "'r double_ops \<Rightarrow> 'r \<Rightarrow> 'r::zero cJSON" where
  "cJSON_CreateNumber fp num =
     CJSON (node (cJSON_New_Item :: 'r cJSON)\<lparr>cj_type := cJSON_Number, valuedouble := num,
            valueint := fp_to_int fp num\<rparr>) []"

text \<open>\<^verbatim>\<open>cJSON_strdup\<close> copies up to the terminator; a NULL argument is dereferenced.\<close>

definition cJSON_strdup :: "cstring option \<Rightarrow> cstring res" where
  "cJSON_strdup str = (case str of None \<Rightarrow> Inl (Undefined NullPointer) | Some s \<Rightarrow> Inr (c_str s))"

definition cJSON_CreateString :: "cstring option \<Rightarrow> 'r::zero cJSON res" where
  "cJSON_CreateString str =
     bindR (cJSON_strdup str) (\<lambda>copy.
       Inr (CJSON (node (cJSON_New_Item :: 'r cJSON)\<lparr>cj_type := cJSON_String, valuestring := Some copy\<rparr>) []))"

definition cJSON_CreateArray :: "'r::zero cJSON" where
  "cJSON_CreateArray = set_type cJSON_Array cJSON_New_Item"

definition cJSON_CreateObject :: "'r::zero cJSON" where
  "cJSON_CreateObject = set_type cJSON_Object cJSON_New_Item"

section \<open>Arrays and objects\<close>

definition tolower :: "byte \<Rightarrow> nat" where
  "tolower c = (if 65 \<le> uchar c \<and> uchar c \<le> 90 then uchar c + 32 else uchar c)"

text \<open>The comparison loop; the end of a list is the terminator.\<close>

fun casecmp_loop :: "cstring \<Rightarrow> cstring \<Rightarrow> int" where
  "casecmp_loop [] [] = 0"
| "casecmp_loop [] (c # _) = (if c = NUL then 0 else - int (tolower c))"
| "casecmp_loop (c # _) [] = (if c = NUL then 0 else int (tolower c))"
| "casecmp_loop (c # s) (d # t) =
     (if tolower c = tolower d then (if c = NUL then 0 else casecmp_loop s t)
      else int (tolower c) - int (tolower d))"

definition cJSON_strcasecmp :: "cstring option \<Rightarrow> cstring option \<Rightarrow> int" where
  "cJSON_strcasecmp s1 s2 =
     (case s1 of None \<Rightarrow> (if s2 = None then 0 else 1)
      | Some a \<Rightarrow> (case s2 of None \<Rightarrow> 1 | Some b \<Rightarrow> casecmp_loop a b))"

definition cJSON_GetArraySize :: "'r cJSON \<Rightarrow> nat" where
  "cJSON_GetArraySize array = length (child array)"

text \<open>\<^verbatim>\<open>while (c && item > 0)\<close>: a negative index is the first item.\<close>

definition cJSON_GetArrayItem :: "'r cJSON \<Rightarrow> int \<Rightarrow> 'r cJSON option" where
  "cJSON_GetArrayItem array item =
     (if nat item < length (child array) then Some (child array ! nat item) else None)"

definition cJSON_GetObjectItem :: "'r cJSON \<Rightarrow> cstring option \<Rightarrow> 'r cJSON option" where
  "cJSON_GetObjectItem object str =
     find (\<lambda>c. cJSON_strcasecmp (cj_string (node c)) str = 0) (child object)"

definition cJSON_AddItemToArray :: "'r cJSON \<Rightarrow> 'r cJSON option \<Rightarrow> 'r cJSON" where
  "cJSON_AddItemToArray array item =
     (case item of None \<Rightarrow> array | Some it \<Rightarrow> CJSON (node array) (child array @ [it]))"

definition cJSON_AddItemToObject :: "'r cJSON \<Rightarrow> cstring option \<Rightarrow> 'r cJSON option \<Rightarrow> 'r cJSON res" where
  "cJSON_AddItemToObject object str item =
     (case item of None \<Rightarrow> Inr object
      | Some it \<Rightarrow> bindR (cJSON_strdup str) (\<lambda>copy.
          Inr (cJSON_AddItemToArray object (Some (set_string (Some copy) it)))))"

definition cJSON_AddItemToObjectCS :: "'r cJSON \<Rightarrow> cstring option \<Rightarrow> 'r cJSON option \<Rightarrow> 'r cJSON" where
  "cJSON_AddItemToObjectCS object str item =
     (case item of None \<Rightarrow> object
      | Some it \<Rightarrow> cJSON_AddItemToArray object
          (Some (set_type (cj_type (node it) OR cJSON_StringIsConst) (set_string str it))))"

text \<open>A reference shares the children of the item it refers to.\<close>

definition create_reference :: "'r cJSON \<Rightarrow> 'r cJSON" where
  "create_reference item = set_type (cj_type (node item) OR cJSON_IsReference) (set_string None item)"

definition cJSON_AddItemReferenceToArray :: "'r cJSON \<Rightarrow> 'r cJSON \<Rightarrow> 'r cJSON" where
  "cJSON_AddItemReferenceToArray array item = cJSON_AddItemToArray array (Some (create_reference item))"

definition cJSON_AddItemReferenceToObject :: "'r cJSON \<Rightarrow> cstring option \<Rightarrow> 'r cJSON \<Rightarrow> 'r cJSON res" where
  "cJSON_AddItemReferenceToObject object str item = cJSON_AddItemToObject object str (Some (create_reference item))"

definition cJSON_AddStringToObject :: "'r::zero cJSON \<Rightarrow> cstring option \<Rightarrow> cstring option \<Rightarrow> 'r cJSON res" where
  "cJSON_AddStringToObject object name s =
     bindR (cJSON_CreateString s) (\<lambda>it. cJSON_AddItemToObject object name (Some it))"

text \<open>The item that is removed, and what is left.\<close>

definition cJSON_DetachItemFromArray :: "'r cJSON \<Rightarrow> int \<Rightarrow> 'r cJSON option \<times> 'r cJSON" where
  "cJSON_DetachItemFromArray array which =
     (let i = nat which in
      if i < length (child array)
      then (Some (child array ! i), CJSON (node array) (take i (child array) @ drop (Suc i) (child array)))
      else (None, array))"

definition cJSON_DeleteItemFromArray :: "'r cJSON \<Rightarrow> int \<Rightarrow> 'r cJSON" where
  "cJSON_DeleteItemFromArray array which = snd (cJSON_DetachItemFromArray array which)"

fun index_of_name :: "cstring option \<Rightarrow> 'r cJSON list \<Rightarrow> nat option" where
  "index_of_name str [] = None"
| "index_of_name str (c # cs) =
     (if cJSON_strcasecmp (cj_string (node c)) str = 0 then Some 0
      else map_option Suc (index_of_name str cs))"

definition cJSON_DetachItemFromObject :: "'r cJSON \<Rightarrow> cstring option \<Rightarrow> 'r cJSON option \<times> 'r cJSON" where
  "cJSON_DetachItemFromObject object str =
     (case index_of_name str (child object) of
        None \<Rightarrow> (None, object)
      | Some i \<Rightarrow> cJSON_DetachItemFromArray object (int i))"

definition cJSON_DeleteItemFromObject :: "'r cJSON \<Rightarrow> cstring option \<Rightarrow> 'r cJSON" where
  "cJSON_DeleteItemFromObject object str = snd (cJSON_DetachItemFromObject object str)"

definition cJSON_InsertItemInArray :: "'r cJSON \<Rightarrow> int \<Rightarrow> 'r cJSON \<Rightarrow> 'r cJSON" where
  "cJSON_InsertItemInArray array which newitem =
     (let i = nat which in
      if i < length (child array)
      then CJSON (node array) (take i (child array) @ newitem # drop i (child array))
      else cJSON_AddItemToArray array (Some newitem))"

definition cJSON_ReplaceItemInArray :: "'r cJSON \<Rightarrow> int \<Rightarrow> 'r cJSON \<Rightarrow> 'r cJSON" where
  "cJSON_ReplaceItemInArray array which newitem =
     (let i = nat which in
      if i < length (child array) then CJSON (node array) ((child array)[i := newitem]) else array)"

definition cJSON_ReplaceItemInObject :: "'r cJSON \<Rightarrow> cstring option \<Rightarrow> 'r cJSON \<Rightarrow> 'r cJSON res" where
  "cJSON_ReplaceItemInObject object str newitem =
     (case index_of_name str (child object) of
        None \<Rightarrow> Inr object
      | Some i \<Rightarrow> bindR (cJSON_strdup str) (\<lambda>copy.
          Inr (cJSON_ReplaceItemInArray object (int i) (set_string (Some copy) newitem))))"

text \<open>The array constructors append one item per element; \<open>fp\<close> converts the numbers.\<close>

definition cJSON_CreateDoubleArray :: "'r double_ops \<Rightarrow> 'r list \<Rightarrow> 'r::zero cJSON" where
  "cJSON_CreateDoubleArray fp numbers =
     foldl (\<lambda>a n. cJSON_AddItemToArray a (Some (cJSON_CreateNumber fp n))) cJSON_CreateArray numbers"

definition cJSON_CreateIntArray :: "'r double_ops \<Rightarrow> int list \<Rightarrow> 'r::zero cJSON" where
  "cJSON_CreateIntArray fp numbers =
     foldl (\<lambda>a n. cJSON_AddItemToArray a (Some (cJSON_CreateNumber fp (fp_of_int fp n)))) cJSON_CreateArray numbers"

fun append_strings :: "'r::zero cJSON \<Rightarrow> cstring option list \<Rightarrow> 'r cJSON res" where
  "append_strings a [] = Inr a"
| "append_strings a (s # ss) =
     bindR (cJSON_CreateString s) (\<lambda>n. append_strings (cJSON_AddItemToArray a (Some n)) ss)"

definition cJSON_CreateStringArray :: "cstring option list \<Rightarrow> 'r::zero cJSON res" where
  "cJSON_CreateStringArray strings = append_strings cJSON_CreateArray strings"

fun cJSON_Duplicate :: "'r cJSON \<Rightarrow> bool \<Rightarrow> 'r cJSON" where
  "cJSON_Duplicate (CJSON f cs) recurse =
     CJSON (f\<lparr>cj_type := cj_type f AND NOT cJSON_IsReference,
              valuestring := map_option c_str (valuestring f), cj_string := map_option c_str (cj_string f)\<rparr>)
       (if recurse then map (\<lambda>c. cJSON_Duplicate c True) cs else [])"

section \<open>Printing\<close>

definition palloc0 :: "int \<Rightarrow> cell list res" where
  "palloc0 sz =
     (if 0 \<le> sz \<and> sz \<le> int MaxAllocSize then Inr (replicate (nat sz) (Some NUL))
      else Inl (PgError ''invalid memory alloc request size''))"

text \<open>
  A buffer with the position the next byte goes to: \<open>put\<close> stores bytes and moves on,
  \<open>poke\<close> stores bytes and stays.
\<close>

type_synonym pen = "cell list \<times> nat"

definition put :: "byte list \<Rightarrow> pen \<Rightarrow> pen res" where
  "put bs = (\<lambda>(m, p). bindR (mem_write m p bs) (\<lambda>m. Inr (m, p + length bs)))"

definition poke :: "byte list \<Rightarrow> pen \<Rightarrow> pen res" where
  "poke bs = (\<lambda>(m, p). bindR (mem_write m p bs) (\<lambda>m. Inr (m, p)))"

definition strcpy_advance :: "cstring \<Rightarrow> pen \<Rightarrow> pen res" where
  "strcpy_advance s = (\<lambda>(m, p). bindR (mem_write m p (s @ [NUL])) (\<lambda>m. Inr (m, p + length s)))"

definition finish :: "pen res \<Rightarrow> cstring option res" where
  "finish r = bindR r (\<lambda>(m, p). bindR (string_at m) (\<lambda>s. Inr (Some s)))"

subsection \<open>Strings\<close>

definition needs_escape :: "byte \<Rightarrow> bool" where
  "needs_escape c \<longleftrightarrow> (0 < schar c \<and> schar c < 32) \<or> c = CHR 0x22 \<or> c = CHR 0x5C"

fun escaped_len :: "cstring \<Rightarrow> int" where
  "escaped_len [] = 0"
| "escaped_len (token # s) =
     (if token \<in> {CHR 0x22, CHR 0x5C, CHR 0x08, CHR 0x0C, CHR 0x0A, CHR 0x0D, CHR 0x09} then 2
      else if uchar token < 32 then 6 else 1) + escaped_len s"

fun print_escaped :: "cstring \<Rightarrow> pen \<Rightarrow> pen res" where
  "print_escaped [] p = Inr p"
| "print_escaped (c # s) p =
     bindR
       (if uchar c > 31 \<and> c \<noteq> CHR 0x22 \<and> c \<noteq> CHR 0x5C then put [c] p
        else bindR (put [CHR 0x5C] p) (\<lambda>p.
          if c = CHR 0x5C then put [CHR 0x5C] p
          else if c = CHR 0x22 then put [CHR 0x22] p
          else if c = CHR 0x08 then put ''b'' p
          else if c = CHR 0x0C then put ''f'' p
          else if c = CHR 0x0A then put ''n'' p
          else if c = CHR 0x0D then put ''r'' p
          else if c = CHR 0x09 then put ''t'' p
          else strcpy_advance (CHR ''u'' # show_hex4 (uchar c)) p))
       (print_escaped s)"

definition print_string_ptr :: "cstring option \<Rightarrow> cstring option res" where
  "print_string_ptr str =
     (case str of None \<Rightarrow> Inl (Undefined NullPointer)
      | Some s0 \<Rightarrow> let s = c_str s0 in
          if \<not> list_ex needs_escape s then
            let len = int (length s) in
            bindR (palloc0 (c_int (len + 3))) (\<lambda>out.
            finish (bindR (put [CHR 0x22] (out, 0)) (\<lambda>p.
            bindR (strcpy_advance s p) (\<lambda>p.
            bindR (put [CHR 0x22] p) (put [NUL])))))
          else
            let len = c_int (escaped_len s) in
            bindR (palloc0 (c_int (len + 3))) (\<lambda>out.
            finish (bindR (put [CHR 0x22] (out, 0)) (\<lambda>p.
            bindR (print_escaped s p) (\<lambda>p.
            bindR (put [CHR 0x22] p) (put [NUL]))))))"

subsection \<open>Numbers\<close>

definition sprintf_new :: "int \<Rightarrow> cstring \<Rightarrow> cstring option res" where
  "sprintf_new sz s = bindR (palloc0 sz) (\<lambda>out. finish (strcpy_advance s (out, 0)))"

definition print_number :: "'r double_ops \<Rightarrow> 'r cJSON \<Rightarrow> cstring option res" where
  "print_number fp item =
     (let d = valuedouble (node item); n = valueint (node item) in
      if fp_is_zero fp d then sprintf_new 2 ''0''
      else if fp_is_int fp n d then sprintf_new 21 (show_int (sint n))
      else sprintf_new 64
        (if fp_is_whole fp d then fp_sprintf_0f fp d
         else if fp_needs_exponent fp d then fp_sprintf_e fp d
         else fp_sprintf_f fp d))"

subsection \<open>Arrays and objects\<close>

text \<open>
  The second passes, which compose the output from the printed entries. \<open>repeat_tab\<close> is the
  indentation.
\<close>

definition repeat_tab :: "nat \<Rightarrow> cstring" where
  "repeat_tab n = replicate n (CHR 0x09)"

fun compose_array :: "bool \<Rightarrow> cstring list \<Rightarrow> pen \<Rightarrow> pen res" where
  "compose_array fmt [] p = Inr p"
| "compose_array fmt [e] p = put e p"
| "compose_array fmt (e # e' # es) p =
     bindR (put e p) (\<lambda>p.
     bindR (put (if fmt then '', '' else '','') p) (\<lambda>p.
     bindR (poke [NUL] p) (compose_array fmt (e' # es))))"

fun compose_object :: "nat \<Rightarrow> bool \<Rightarrow> (cstring \<times> cstring) list \<Rightarrow> pen \<Rightarrow> pen res" where
  "compose_object depth fmt [] p = Inr p"
| "compose_object depth fmt ((name, e) # es) p =
     bindR (put (if fmt then repeat_tab depth else []) p) (\<lambda>p.
     bindR (put name p) (\<lambda>p.
     bindR (put (if fmt then [CHR '':'', CHR 0x09] else '':'') p) (\<lambda>p.
     bindR (strcpy_advance e p) (\<lambda>p.
     bindR (put ((if es \<noteq> [] then '','' else []) @ (if fmt then [CHR 0x0A] else [])) p) (\<lambda>p.
     bindR (poke [NUL] p) (compose_object depth fmt es))))))"

definition array_text :: "bool \<Rightarrow> cstring list \<Rightarrow> pen \<Rightarrow> pen res" where
  "array_text fmt entries p =
     bindR (put ''['' p) (\<lambda>p. bindR (poke [NUL] p) (\<lambda>p.
     bindR (compose_array fmt entries p) (\<lambda>p. bindR (put '']'' p) (put [NUL]))))"

definition object_text :: "nat \<Rightarrow> bool \<Rightarrow> (cstring \<times> cstring) list \<Rightarrow> pen \<Rightarrow> pen res" where
  "object_text depth fmt entries p =
     bindR (put (if fmt then [CHR ''{'', CHR 0x0A] else ''{'') p) (\<lambda>p. bindR (poke [NUL] p) (\<lambda>p.
     bindR (compose_object depth fmt entries p) (\<lambda>p.
     bindR (put (if fmt then repeat_tab (depth - 1) else []) p) (\<lambda>p.
     bindR (put ''}'' p) (put [NUL])))))"

definition empty_object_text :: "nat \<Rightarrow> bool \<Rightarrow> cstring option res" where
  "empty_object_text depth fmt =
     bindR (palloc0 (if fmt then int depth + 4 else 3)) (\<lambda>out.
     finish (bindR (put ''{'' (out, 0)) (\<lambda>p.
     bindR (put (if fmt then CHR 0x0A # repeat_tab (depth - 1) else []) p) (\<lambda>p.
     bindR (put ''}'' p) (put [NUL])))))"

text \<open>
  The first passes print the children and add up the length of the output. An array stops at
  the first child that cannot be printed; an object goes on and fails at the end
  (\<^const>\<open>None\<close>).
\<close>

function print_value :: "'r double_ops \<Rightarrow> 'r cJSON \<Rightarrow> nat \<Rightarrow> bool \<Rightarrow> cstring option res"
  and print_array :: "'r double_ops \<Rightarrow> 'r cJSON \<Rightarrow> nat \<Rightarrow> bool \<Rightarrow> cstring option res"
  and print_object :: "'r double_ops \<Rightarrow> 'r cJSON \<Rightarrow> nat \<Rightarrow> bool \<Rightarrow> cstring option res"
  and array_entries :: "'r double_ops \<Rightarrow> 'r cJSON list \<Rightarrow> nat \<Rightarrow> bool \<Rightarrow> int \<Rightarrow> (cstring list \<times> int) option res"
  and object_entries :: "'r double_ops \<Rightarrow> 'r cJSON list \<Rightarrow> nat \<Rightarrow> bool \<Rightarrow> int \<Rightarrow>
       ((cstring \<times> cstring) list \<times> int) option res"
where
  "print_value fp (CJSON f cs) depth fmt =
     (let t = cj_type f AND 255 in
      if t = cJSON_NULL then Inr (Some ''null'')
      else if t = cJSON_False then Inr (Some ''false'')
      else if t = cJSON_True then Inr (Some ''true'')
      else if t = cJSON_Number then print_number fp (CJSON f cs)
      else if t = cJSON_String then print_string_ptr (valuestring f)
      else if t = cJSON_Array then print_array fp (CJSON f cs) depth fmt
      else if t = cJSON_Object then print_object fp (CJSON f cs) depth fmt
      else Inr None)"
| "print_array fp (CJSON f cs) depth fmt =
     (if cs = [] then sprintf_new 3 ''[]''
      else bindR (array_entries fp cs (depth + 1) fmt 5) (\<lambda>r. case r of None \<Rightarrow> Inr None
        | Some (entries, len) \<Rightarrow> bindR (palloc0 len) (\<lambda>out. finish (array_text fmt entries (out, 0)))))"
| "print_object fp (CJSON f cs) depth fmt =
     (if cs = [] then empty_object_text depth fmt
      else bindR (object_entries fp cs (depth + 1) fmt (c_int (7 + (if fmt then int (depth + 1) else 0))))
        (\<lambda>r. case r of None \<Rightarrow> Inr None
         | Some (entries, len) \<Rightarrow>
             bindR (palloc0 len) (\<lambda>out. finish (object_text (depth + 1) fmt entries (out, 0)))))"
| "array_entries fp [] depth fmt len = Inr (Some ([], len))"
| "array_entries fp (c # cs) depth fmt len =
     bindR (print_value fp c depth fmt) (\<lambda>ret. case ret of None \<Rightarrow> Inr None
       | Some e \<Rightarrow>
           bindR (array_entries fp cs depth fmt (c_int (len + int (length e) + 2 + (if fmt then 1 else 0))))
             (\<lambda>r. Inr (map_option (\<lambda>(es, len). (e # es, len)) r)))"
| "object_entries fp [] depth fmt len = Inr (Some ([], len))"
| "object_entries fp (c # cs) depth fmt len =
     bindR (print_string_ptr (cj_string (node c))) (\<lambda>str.
     bindR (print_value fp c depth fmt) (\<lambda>ret.
     bindR (object_entries fp cs depth fmt
       (case (str, ret) of
          (Some n, Some e) \<Rightarrow> c_int (len + int (length e) + int (length n) + 2 + (if fmt then 2 + int depth else 0))
        | _ \<Rightarrow> len)) (\<lambda>r.
     Inr (case (str, ret, r) of
          (Some n, Some e, Some (es, len)) \<Rightarrow> Some ((n, e) # es, len)
        | _ \<Rightarrow> None))))"

  by pat_completeness auto

termination
  by (relation "measure (case_sum
        (case_sum (\<lambda>(fp, item, depth, fmt). 2 * size item + 1) (\<lambda>(fp, item, depth, fmt). 2 * size item))
        (case_sum (\<lambda>(fp, item, depth, fmt). 2 * size item)
          (case_sum (\<lambda>(fp, cs, depth, fmt, len). 2 * size_list size cs)
             (\<lambda>(fp, cs, depth, fmt, len). 2 * size_list size cs))))") simp_all

definition cJSON_Print :: "'r double_ops \<Rightarrow> 'r cJSON \<Rightarrow> cstring option res" where
  "cJSON_Print fp item = print_value fp item 0 True"

definition cJSON_PrintUnformatted :: "'r double_ops \<Rightarrow> 'r cJSON \<Rightarrow> cstring option res" where
  "cJSON_PrintUnformatted fp item = print_value fp item 0 False"

end
