(* ===== verification/CJsonPrint.thy ===== *)
theory CJsonPrint
  imports CJson
begin

text \<open>
  What the printer of \<^verbatim>\<open>cJSON.c\<close> produces: the two-pass routines, which first
  measure and then fill an allocated buffer, write the text of a specification and never
  outside the buffer they measured.
\<close>

section \<open>Writing into a buffer\<close>

text \<open>
  \<open>prints e w bs\<close>: \<open>w\<close> stores \<open>bs\<close> and moves behind them, wherever there is room for them
  and \<open>e\<close> more cells.
\<close>

definition prints :: "nat \<Rightarrow> (pen \<Rightarrow> pen res) \<Rightarrow> byte list \<Rightarrow> bool" where
  "prints e w bs \<longleftrightarrow>
     (\<forall>m p. p + length bs + e \<le> length m \<longrightarrow>
        (\<exists>m'. w (m, p) = Inr (m', p + length bs) \<and> length m' = length m \<and>
              take (p + length bs) m' = take p m @ map Some bs))"

lemma printsE:
  assumes "prints e w bs" and "p + length bs + e \<le> length m"
  obtains m' where "w (m, p) = Inr (m', p + length bs)" and "length m' = length m"
    and "take (p + length bs) m' = take p m @ map Some bs"
  using assms by (auto simp: prints_def)

lemma prints_Nil [write_intros]: "prints 0 Inr []"
  by (simp add: prints_def)

lemma prints_put [write_intros]: "prints 0 (put bs) bs"
  by (auto simp: prints_def put_def mem_write_def)

lemma prints_poke [write_intros]: "prints (length bs) (poke bs) []"
  by (auto simp: prints_def poke_def mem_write_def)

lemma prints_strcpy [write_intros]: "prints 1 (strcpy_advance s) s"
  by (auto simp: prints_def strcpy_advance_def mem_write_def)

lemma prints_weaken: "prints e w bs \<Longrightarrow> e \<le> e' \<Longrightarrow> prints e' w bs"
  by (simp add: prints_def)

lemma prints_bind:
  assumes w: "prints e w bs" and v: "prints e' v cs" and le: "e \<le> length cs + e'"
  shows "prints e' (\<lambda>p. bindR (w p) v) (bs @ cs)"
  unfolding prints_def
proof (intro allI impI)
  fix m :: "cell list" and p :: nat assume room: "p + length (bs @ cs) + e' \<le> length m"
  then have "p + length bs + e \<le> length m" using le by simp
  then obtain m1 where m1: "w (m, p) = Inr (m1, p + length bs)" "length m1 = length m"
      "take (p + length bs) m1 = take p m @ map Some bs"
    by (rule printsE [OF w])
  have "p + length bs + length cs + e' \<le> length m1" using room m1(2) by simp
  then obtain m2 where m2: "v (m1, p + length bs) = Inr (m2, p + length bs + length cs)" "length m2 = length m1"
      "take (p + length bs + length cs) m2 = take (p + length bs) m1 @ map Some cs"
    by (rule printsE [OF v])
  show "\<exists>m'. bindR (w (m, p)) v = Inr (m', p + length (bs @ cs)) \<and> length m' = length m \<and>
      take (p + length (bs @ cs)) m' = take p m @ map Some (bs @ cs)"
    using m1 m2 by (simp add: add.assoc)
qed

lemma finish_prints:
  assumes "prints 0 w (t @ [NUL])" and "nul_free t" and "length t < n"
  shows "finish (w (replicate n (Some NUL), 0)) = Inr (Some t)"
proof -
  have "0 + length (t @ [NUL]) + 0 \<le> length (replicate n (Some NUL))" using assms(3) by simp
  then obtain m' where "w (replicate n (Some NUL), 0) = Inr (m', 0 + length (t @ [NUL]))"
      "take (0 + length (t @ [NUL])) m' = take 0 (replicate n (Some NUL)) @ map Some (t @ [NUL])"
    by (rule printsE [OF assms(1)])
  then show ?thesis using string_at_prefix [OF _ assms(2), of m'] by (simp add: finish_def)
qed

lemma palloc0_ok: "0 \<le> sz \<Longrightarrow> sz \<le> int MaxAllocSize \<Longrightarrow> palloc0 sz = Inr (replicate (nat sz) (Some NUL))"
  by (simp add: palloc0_def)

lemma sprintf_new_ok:
  assumes "nul_free s" and "length s < n" and "n \<le> MaxAllocSize"
  shows "sprintf_new (int n) s = Inr (Some s)"
proof -
  have "string_at (map Some s @ Some NUL # drop (Suc (length s)) (replicate n (Some NUL))) = Inr s"
    using assms by (intro string_at_prefix) simp_all
  then show ?thesis using assms
    by (simp add: sprintf_new_def palloc0_ok finish_def strcpy_advance_def mem_write_def)
qed

section \<open>The text of an item\<close>

definition escape_char :: "byte \<Rightarrow> cstring" where
  "escape_char c =
     (if uchar c > 31 \<and> c \<noteq> CHR 0x22 \<and> c \<noteq> CHR 0x5C then [c]
      else CHR 0x5C #
        (if c = CHR 0x5C \<or> c = CHR 0x22 then [c]
         else if c = CHR 0x08 then ''b''
         else if c = CHR 0x0C then ''f''
         else if c = CHR 0x0A then ''n''
         else if c = CHR 0x0D then ''r''
         else if c = CHR 0x09 then ''t''
         else CHR ''u'' # show_hex4 (uchar c)))"

definition quoted :: "cstring \<Rightarrow> cstring" where
  "quoted s = CHR 0x22 # concat (map escape_char s) @ [CHR 0x22]"

definition number_text :: "'r double_ops \<Rightarrow> 'r cJSON_fields \<Rightarrow> cstring" where
  "number_text fp f =
     (let d = valuedouble f in
      if fp_is_zero fp d then ''0''
      else if fp_is_int fp (valueint f) d then show_int (sint (valueint f))
      else if fp_is_whole fp d then fp_sprintf_0f fp d
      else if fp_needs_exponent fp d then fp_sprintf_e fp d
      else fp_sprintf_f fp d)"

fun join_text :: "cstring \<Rightarrow> cstring list \<Rightarrow> cstring" where
  "join_text sep [] = []"
| "join_text sep [e] = e"
| "join_text sep (e # es) = e @ sep @ join_text sep es"

definition indent :: "nat \<Rightarrow> bool \<Rightarrow> cstring" where
  "indent n fmt = (if fmt then repeat_tab n else [])"

definition newline :: "bool \<Rightarrow> cstring" where
  "newline fmt = (if fmt then [CHR 0x0A] else [])"

definition member_text :: "nat \<Rightarrow> bool \<Rightarrow> cstring \<times> cstring \<Rightarrow> cstring" where
  "member_text depth fmt = (\<lambda>(name, e). indent depth fmt @ name @ (if fmt then [CHR '':'', CHR 0x09] else '':'') @ e)"

definition members_text :: "nat \<Rightarrow> bool \<Rightarrow> (cstring \<times> cstring) list \<Rightarrow> cstring" where
  "members_text depth fmt ms =
     (if ms = [] then [] else join_text (CHR '','' # newline fmt) (map (member_text depth fmt) ms) @ newline fmt)"

fun json_text :: "'r double_ops \<Rightarrow> 'r cJSON \<Rightarrow> nat \<Rightarrow> bool \<Rightarrow> cstring option" where
  "json_text fp (CJSON f cs) depth fmt =
     (let t = cj_type f AND 255 in
      if t = cJSON_NULL then Some ''null''
      else if t = cJSON_False then Some ''false''
      else if t = cJSON_True then Some ''true''
      else if t = cJSON_Number then Some (number_text fp f)
      else if t = cJSON_String then map_option (quoted \<circ> c_str) (valuestring f)
      else if t = cJSON_Array then
        map_option (\<lambda>es. ''['' @ join_text (if fmt then '', '' else '','') es @ '']'')
          (those (map (\<lambda>c. json_text fp c (depth + 1) fmt) cs))
      else if t = cJSON_Object then
        map_option (\<lambda>ms. ''{'' @ newline fmt @ members_text (depth + 1) fmt ms @
              indent (if cs = [] then depth - 1 else depth) fmt @ ''}'')
          (those (map (\<lambda>c. case cj_string (node c) of None \<Rightarrow> None
             | Some name \<Rightarrow> map_option (\<lambda>e. (quoted (c_str name), e)) (json_text fp c (depth + 1) fmt)) cs))
      else None)"

section \<open>Strings\<close>

lemma print_escaped_prints: "prints 1 (print_escaped s) (concat (map escape_char s))"
proof (induction s)
  case Nil
  have "print_escaped [] = Inr" by (rule ext) simp
  then show ?case using prints_weaken [OF prints_Nil, of 1] by simp
next
  case (Cons c s)
  let ?first = "\<lambda>p. if uchar c > 31 \<and> c \<noteq> CHR 0x22 \<and> c \<noteq> CHR 0x5C then put [c] p
        else bindR (put [CHR 0x5C] p) (\<lambda>p.
          if c = CHR 0x5C then put [CHR 0x5C] p
          else if c = CHR 0x22 then put [CHR 0x22] p
          else if c = CHR 0x08 then put ''b'' p
          else if c = CHR 0x0C then put ''f'' p
          else if c = CHR 0x0A then put ''n'' p
          else if c = CHR 0x0D then put ''r'' p
          else if c = CHR 0x09 then put ''t'' p
          else strcpy_advance (CHR ''u'' # show_hex4 (uchar c)) p)"
  have put1: "prints 1 (put bs) bs" for bs using prints_weaken [OF prints_put] by simp
  have esc: "prints 1 (\<lambda>p. bindR (put [CHR 0x5C] p) v) (CHR 0x5C # bs)" if "prints 1 v bs" for v bs
    using prints_bind [OF prints_put that, of "[CHR 0x5C]"] by simp
  have "prints 1 ?first (escape_char c)"
  proof (cases "uchar c > 31 \<and> c \<noteq> CHR 0x22 \<and> c \<noteq> CHR 0x5C")
    case True
    then show ?thesis using put1 by (simp add: escape_char_def)
  next
    case False
    show ?thesis unfolding escape_char_def if_not_P [OF False]
      by (rule esc) (simp add: put1 [unfolded One_nat_def] prints_strcpy [unfolded One_nat_def])
  qed
  moreover have "print_escaped (c # s) = (\<lambda>p. bindR (?first p) (print_escaped s))" by (rule ext) simp
  ultimately show ?case using prints_bind [OF _ Cons, of 1 ?first "escape_char c"] by simp
qed

lemma length_escape_char:
  "length (escape_char c) =
     (if c \<in> {CHR 0x22, CHR 0x5C, CHR 0x08, CHR 0x0C, CHR 0x0A, CHR 0x0D, CHR 0x09} then 2
      else if uchar c < 32 then 6 else 1)"
proof (cases "c \<in> {CHR 0x22, CHR 0x5C, CHR 0x08, CHR 0x0C, CHR 0x0A, CHR 0x0D, CHR 0x09}")
  case True
  then show ?thesis by (elim insertE emptyE) (simp_all add: escape_char_def)
qed (simp add: escape_char_def show_hex4_def)

lemma escaped_len_escape: "escaped_len s = int (length (concat (map escape_char s)))"
proof (induction s)
  case (Cons c s)
  have "escaped_len (c # s) = int (length (escape_char c)) + escaped_len s"
    unfolding length_escape_char
    by (cases "c \<in> {CHR 0x22, CHR 0x5C, CHR 0x08, CHR 0x0C, CHR 0x0A, CHR 0x0D, CHR 0x09}"; cases "uchar c < 32";
        simp only: escaped_len.simps if_True if_False of_nat_numeral of_nat_1)
  with Cons show ?case by simp
qed simp

lemma no_escape_char: "\<not> needs_escape c \<Longrightarrow> c \<noteq> NUL \<Longrightarrow> escape_char c = [c]"
proof -
  assume a: "\<not> needs_escape c" "c \<noteq> NUL"
  then have "uchar c \<noteq> 0" by simp
  then have "uchar c > 31" using a(1) by (cases "uchar c < 128") (simp_all add: needs_escape_def schar_def)
  then show ?thesis using a(1) by (simp add: escape_char_def needs_escape_def)
qed

lemma no_escape_text: "\<not> list_ex needs_escape s \<Longrightarrow> nul_free s \<Longrightarrow> concat (map escape_char s) = s"
  by (induction s) (auto simp: no_escape_char)

lemma hex_digit_not_NUL: "n < 16 \<Longrightarrow> hex_digit n \<noteq> NUL"
  by (auto simp: hex_digit_def dest!: arg_cong [where f = uchar])

lemma nul_free_escape: "c \<noteq> NUL \<Longrightarrow> nul_free (escape_char c)"
  by (auto simp: escape_char_def show_hex4_def hex_digit_not_NUL)

lemma nul_free_quoted [simp]: "nul_free s \<Longrightarrow> nul_free (quoted s)"
  by (induction s) (auto simp: quoted_def nul_free_escape)

lemma print_string_ptr_text:
  assumes "length (quoted (c_str s)) + 1 \<le> MaxAllocSize"
  shows "print_string_ptr (Some s) = Inr (Some (quoted (c_str s)))"
proof -
  define t where "t = concat (map escape_char (c_str s))"
  have q: "quoted (c_str s) = CHR 0x22 # t @ [CHR 0x22]" by (simp add: quoted_def t_def)
  have len: "length t + 3 \<le> MaxAllocSize" using assms q by simp
  have small: "int (length t) + 3 < 2 ^ 31" using len by (simp add: MaxAllocSize_def)
  have cint: "c_int (int (length t)) = int (length t)" "c_int (int (length t) + 3) = int (length t) + 3"
    using small by (simp_all add: c_int_small)
  have alloc: "palloc0 (int (length t) + 3) = Inr (replicate (length t + 3) (Some NUL))"
    using len palloc0_ok [of "int (length t) + 3"] by (simp add: nat_add_distrib)
  have "nul_free (quoted (c_str s))" by simp
  then have fin: "finish (w (replicate (length t + 3) (Some NUL), 0)) = Inr (Some (quoted (c_str s)))"
    if "prints 0 w ([CHR 0x22] @ t @ [CHR 0x22] @ [NUL])" for w
    using finish_prints [of w "quoted (c_str s)"] that q by simp
  show ?thesis
  proof (cases "list_ex needs_escape (c_str s)")
    case True
    have "prints 0 (\<lambda>p. bindR (put [CHR 0x22] p) (\<lambda>p. bindR (print_escaped (c_str s) p) (\<lambda>p.
        bindR (put [CHR 0x22] p) (put [NUL])))) ([CHR 0x22] @ t @ [CHR 0x22] @ [NUL])"
      unfolding t_def
      by (rule prints_bind [OF prints_put prints_bind [OF print_escaped_prints prints_bind [OF prints_put prints_put]]]) simp_all
    from fin [OF this] True show ?thesis
      by (simp add: print_string_ptr_def escaped_len_escape t_def [symmetric] cint alloc)
  next
    case False
    then have t: "c_str s = t" using no_escape_text by (simp add: t_def)
    have "prints 0 (\<lambda>p. bindR (put [CHR 0x22] p) (\<lambda>p. bindR (strcpy_advance t p) (\<lambda>p.
        bindR (put [CHR 0x22] p) (put [NUL])))) ([CHR 0x22] @ t @ [CHR 0x22] @ [NUL])"
      by (rule prints_bind [OF prints_put prints_bind [OF prints_strcpy prints_bind [OF prints_put prints_put]]]) simp_all
    from fin [OF this] False t show ?thesis by (simp add: print_string_ptr_def cint alloc)
  qed
qed

section \<open>Composing arrays and objects\<close>

lemma prints_put_Suc: "prints (Suc 0) (put bs) bs"
  using prints_weaken [OF prints_put] by simp

lemma prints_poke_NUL: "prints (Suc 0) (poke [NUL]) []"
  using prints_poke [of "[NUL]"] by simp

lemma prints_strcpy_Suc: "prints (Suc 0) (strcpy_advance s) s"
  using prints_strcpy by simp

abbreviation array_sep :: "bool \<Rightarrow> cstring" where
  "array_sep fmt \<equiv> (if fmt then '', '' else '','')"

lemma compose_array_prints: "prints (Suc 0) (compose_array fmt es) (join_text (array_sep fmt) es)"
proof (induction es rule: induct_list012)
  case 1
  have "compose_array fmt [] = Inr" by (rule ext) simp
  then show ?case using prints_weaken [OF prints_Nil] by simp
next
  case (2 e)
  have "compose_array fmt [e] = put e" by (rule ext) simp
  then show ?case by (simp add: prints_put_Suc)
next
  case (3 e e' es)
  have "compose_array fmt (e # e' # es) = (\<lambda>p. bindR (put e p) (\<lambda>p. bindR (put (array_sep fmt) p) (\<lambda>p.
      bindR (poke [NUL] p) (compose_array fmt (e' # es)))))" by (rule ext) simp
  moreover have "prints (Suc 0) \<dots> (e @ array_sep fmt @ [] @ join_text (array_sep fmt) (e' # es))"
    by (rule prints_bind [OF prints_put prints_bind [OF prints_put prints_bind [OF prints_poke_NUL 3(2)]]]) simp_all
  ultimately show ?case by simp
qed

lemma array_text_prints:
  "prints 0 (array_text fmt es) (''['' @ join_text (array_sep fmt) es @ '']'' @ [NUL])"
proof -
  have "prints 0 (\<lambda>p. bindR (put ''['' p) (\<lambda>p. bindR (poke [NUL] p) (\<lambda>p.
     bindR (compose_array fmt es p) (\<lambda>p. bindR (put '']'' p) (put [NUL])))))
     (''['' @ [] @ join_text (array_sep fmt) es @ '']'' @ [NUL])"
    by (rule prints_bind [OF prints_put prints_bind [OF prints_poke_NUL
          prints_bind [OF compose_array_prints prints_bind [OF prints_put prints_put]]]]) simp_all
  then show ?thesis by (simp add: array_text_def [abs_def])
qed

lemma members_text_Cons:
  "members_text depth fmt (m # ms) =
     member_text depth fmt m @ ((if ms \<noteq> [] then '','' else []) @ newline fmt) @ members_text depth fmt ms"
  by (cases ms) (auto simp: members_text_def)

lemma compose_object_prints: "prints (Suc 0) (compose_object depth fmt ms) (members_text depth fmt ms)"
proof (induction ms)
  case Nil
  have "compose_object depth fmt [] = Inr" by (rule ext) simp
  then show ?case using prints_weaken [OF prints_Nil] by (simp add: members_text_def)
next
  case (Cons m ms)
  obtain name e where m: "m = (name, e)" by force
  let ?fin = "(if ms \<noteq> [] then '','' else []) @ (if fmt then [CHR 0x0A] else [])"
  let ?colon = "if fmt then [CHR '':'', CHR 0x09] else '':''"
  have "compose_object depth fmt (m # ms) = (\<lambda>p. bindR (put (if fmt then repeat_tab depth else []) p) (\<lambda>p.
     bindR (put name p) (\<lambda>p. bindR (put ?colon p) (\<lambda>p. bindR (strcpy_advance e p) (\<lambda>p.
     bindR (put ?fin p) (\<lambda>p. bindR (poke [NUL] p) (compose_object depth fmt ms)))))))"
    unfolding m by (rule ext) (simp only: compose_object.simps)
  moreover have "prints (Suc 0) \<dots> ((if fmt then repeat_tab depth else []) @ name @ ?colon @ e @ ?fin @ [] @
      members_text depth fmt ms)"
    by (rule prints_bind [OF prints_put prints_bind [OF prints_put prints_bind [OF prints_put
          prints_bind [OF prints_strcpy_Suc prints_bind [OF prints_put prints_bind [OF prints_poke_NUL Cons]]]]]])
      simp_all
  ultimately show ?case
    by (simp add: members_text_Cons member_text_def m indent_def newline_def)
qed

lemma object_text_prints:
  "prints 0 (object_text depth fmt ms)
     (''{'' @ newline fmt @ members_text depth fmt ms @ indent (depth - 1) fmt @ ''}'' @ [NUL])"
proof -
  let ?open = "if fmt then [CHR ''{'', CHR 0x0A] else ''{''"
  have "prints 0 (\<lambda>p. bindR (put ?open p) (\<lambda>p. bindR (poke [NUL] p) (\<lambda>p.
     bindR (compose_object depth fmt ms p) (\<lambda>p.
     bindR (put (if fmt then repeat_tab (depth - 1) else []) p) (\<lambda>p. bindR (put ''}'' p) (put [NUL]))))))
     (?open @ [] @ members_text depth fmt ms @ (if fmt then repeat_tab (depth - 1) else []) @ ''}'' @ [NUL])"
    by (rule prints_bind [OF prints_put prints_bind [OF prints_poke_NUL prints_bind [OF compose_object_prints
          prints_bind [OF prints_put prints_bind [OF prints_put prints_put]]]]]) simp_all
  then show ?thesis by (cases fmt) (simp_all add: object_text_def [abs_def] indent_def newline_def)
qed

lemma empty_object_text_eq:
  assumes "depth + 4 \<le> MaxAllocSize"
  shows "empty_object_text depth fmt = Inr (Some (''{'' @ newline fmt @ indent (depth - 1) fmt @ ''}''))"
proof -
  let ?t = "''{'' @ newline fmt @ indent (depth - 1) fmt @ ''}''"
  let ?mid = "if fmt then CHR 0x0A # repeat_tab (depth - 1) else []"
  have mid: "?mid = newline fmt @ indent (depth - 1) fmt" by (simp add: newline_def indent_def)
  have "prints 0 (\<lambda>p. bindR (put ''{'' p) (\<lambda>p. bindR (put ?mid p) (\<lambda>p. bindR (put ''}'' p) (put [NUL]))))
      (''{'' @ ?mid @ ''}'' @ [NUL])"
    by (rule prints_bind [OF prints_put prints_bind [OF prints_put prints_bind [OF prints_put prints_put]]]) simp_all
  then have w: "prints 0 (\<lambda>p. bindR (put ''{'' p) (\<lambda>p. bindR (put ?mid p) (\<lambda>p. bindR (put ''}'' p) (put [NUL]))))
      (?t @ [NUL])" unfolding mid by simp
  have nf: "nul_free ?t" by (simp add: newline_def indent_def repeat_tab_def nul_free_def)
  have len: "length ?t < (if fmt then depth + 4 else 3)"
    by (cases fmt) (simp_all add: newline_def indent_def repeat_tab_def less_Suc_eq_le)
  have "palloc0 (if fmt then int depth + 4 else 3) = Inr (replicate (if fmt then depth + 4 else 3) (Some NUL))"
    using assms by (simp add: palloc0_def MaxAllocSize_def nat_add_distrib)
  then show ?thesis using finish_prints [OF w nf len] by (simp only: empty_object_text_def bindR_Inr)
qed

section \<open>Numbers\<close>

text \<open>
  The conversions the C library documents: an integral value below \<open>10^60\<close> and a value
  between \<open>10^-6\<close> and \<open>10^9\<close> take at most 63 characters, exponent notation fewer.
\<close>

definition sprintf_fits :: "'r double_ops \<Rightarrow> bool" where
  "sprintf_fits fp \<longleftrightarrow>
     (\<forall>d. (fp_is_whole fp d \<longrightarrow> nul_free (fp_sprintf_0f fp d) \<and> length (fp_sprintf_0f fp d) < 64) \<and>
          (fp_needs_exponent fp d \<longrightarrow> nul_free (fp_sprintf_e fp d) \<and> length (fp_sprintf_e fp d) < 64) \<and>
          (\<not> fp_needs_exponent fp d \<longrightarrow> nul_free (fp_sprintf_f fp d) \<and> length (fp_sprintf_f fp d) < 64))"

lemma show_nat_length: "n < 10 ^ k \<Longrightarrow> 0 < k \<Longrightarrow> length (show_nat n) \<le> k"
proof (induction n arbitrary: k rule: show_nat.induct)
  case (1 n)
  show ?case
  proof (cases "n < 10")
    case True
    then show ?thesis using 1 by (simp add: show_nat.simps [of n])
  next
    case False
    from 1(3) obtain j where k: "k = Suc j" by (cases k) simp_all
    have j: "0 < j" using False 1(2) k by (cases j) simp_all
    have "n div 10 < 10 ^ j" using 1(2) k by auto
    with False j 1(1) [of j] show ?thesis by (simp add: show_nat.simps [of n] k)
  qed
qed

lemma nul_free_show_nat: "nul_free (show_nat n)"
proof (induction n rule: show_nat.induct)
  case (1 n)
  have digit: "char_of (48 + m :: nat) \<noteq> NUL" if "m < 10" for m
    using that by (auto dest: arg_cong [where f = uchar])
  show ?case using 1 digit [of n] digit [of "n mod 10"] by (subst show_nat.simps) simp
qed

lemma show_int_word:
  fixes w :: "32 word"
  shows "length (show_int (sint w)) < 21" and "nul_free (show_int (sint w))"
proof -
  have "\<bar>sint w\<bar> \<le> 2 ^ 31" using sint_ge [of w] sint_lt [of w] by simp
  then have "nat (sint w) < 10 ^ 10" "nat (- sint w) < 10 ^ 10" by simp_all
  from show_nat_length [OF this(1)] show_nat_length [OF this(2)]
  show "length (show_int (sint w)) < 21" by (simp add: show_int_def)
  show "nul_free (show_int (sint w))" by (simp add: show_int_def nul_free_show_nat)
qed

lemma number_text_nul_free: "sprintf_fits fp \<Longrightarrow> nul_free (number_text fp f)"
  by (auto simp: number_text_def sprintf_fits_def show_int_word Let_def)

lemma print_number_text:
  assumes "sprintf_fits fp"
  shows "print_number fp (CJSON f cs) = Inr (Some (number_text fp f))"
proof -
  have two: "sprintf_new 2 ''0'' = Inr (Some ''0'')"
    using sprintf_new_ok [of "''0''" 2] by (simp add: MaxAllocSize_def)
  have int: "sprintf_new 21 (show_int (sint w)) = Inr (Some (show_int (sint w)))" for w :: "32 word"
    using sprintf_new_ok [of "show_int (sint w)" 21] show_int_word by (simp add: MaxAllocSize_def)
  have dbl: "sprintf_new 64 s = Inr (Some s)" if "nul_free s" "length s < 64" for s
    using sprintf_new_ok [OF that] by (simp add: MaxAllocSize_def)
  show ?thesis using assms two int dbl
    by (auto simp: print_number_def number_text_def sprintf_fits_def Let_def)
qed

section \<open>The printer writes the text\<close>

lemma nul_free_concat: "nul_free (concat xs) \<longleftrightarrow> (\<forall>x\<in>set xs. nul_free x)"
  by (auto simp: nul_free_def)

lemma nul_free_join: "nul_free sep \<Longrightarrow> \<forall>e\<in>set es. nul_free e \<Longrightarrow> nul_free (join_text sep es)"
  by (induction sep es rule: join_text.induct) auto

lemma those_Some_map: "those (map f xs) = Some ys \<longleftrightarrow> map f xs = map Some ys"
  by (induction xs arbitrary: ys) (auto split: option.splits)

lemma those_member:
  assumes "those (map f xs) = Some ys" and "y \<in> set ys"
  obtains x where "x \<in> set xs" and "f x = Some y"
proof -
  have "Some y \<in> set (map f xs)" using assms(2) unfolding assms(1) [unfolded those_Some_map] by simp
  then show thesis using that by auto
qed

lemma nul_free_members:
  assumes "\<forall>(n, e)\<in>set ms. nul_free n \<and> nul_free e"
  shows "nul_free (members_text depth fmt ms)"
proof -
  have "\<forall>t\<in>set (map (member_text depth fmt) ms). nul_free t"
    using assms by (auto simp: member_text_def indent_def repeat_tab_def nul_free_def)
  then show ?thesis
    by (simp add: members_text_def nul_free_join newline_def)
qed

definition member_entry :: "'r double_ops \<Rightarrow> nat \<Rightarrow> bool \<Rightarrow> 'r cJSON \<Rightarrow> (cstring \<times> cstring) option" where
  "member_entry fp depth fmt c =
     (case cj_string (node c) of None \<Rightarrow> None
      | Some name \<Rightarrow> map_option (\<lambda>e. (quoted (c_str name), e)) (json_text fp c depth fmt))"

declare json_text.simps [simp del]

lemma json_text_array:
  "cj_type f AND 255 = cJSON_Array \<Longrightarrow> json_text fp (CJSON f cs) depth fmt =
     map_option (\<lambda>es. ''['' @ join_text (array_sep fmt) es @ '']'')
       (those (map (\<lambda>c. json_text fp c (depth + 1) fmt) cs))"
  by (simp add: json_text.simps)

lemma json_text_object:
  "cj_type f AND 255 = cJSON_Object \<Longrightarrow> json_text fp (CJSON f cs) depth fmt =
     map_option (\<lambda>ms. ''{'' @ newline fmt @ members_text (depth + 1) fmt ms @
              indent (if cs = [] then depth - 1 else depth) fmt @ ''}'')
       (those (map (member_entry fp (depth + 1) fmt) cs))"
  unfolding json_text.simps Let_def member_entry_def [abs_def] by simp

lemma member_entry_nul_free:
  assumes "member_entry fp depth fmt c = Some (n, e)"
    and "\<And>t. json_text fp c depth fmt = Some t \<Longrightarrow> nul_free t"
  shows "nul_free n \<and> nul_free e"
  using assms by (auto simp: member_entry_def split: option.splits)

lemma json_text_nul_free:
  assumes "sprintf_fits fp"
  shows "json_text fp item depth fmt = Some t \<Longrightarrow> nul_free t"
proof (induction item arbitrary: depth t)
  case (CJSON f cs)
  let ?t = "cj_type f AND 255"
  consider (arr) "?t = cJSON_Array" | (obj) "?t = cJSON_Object" | (other) "?t \<noteq> cJSON_Array" "?t \<noteq> cJSON_Object"
    by blast
  then show ?case
  proof cases
    case arr
    with CJSON(2) obtain es where es: "those (map (\<lambda>c. json_text fp c (depth + 1) fmt) cs) = Some es"
        and t: "t = ''['' @ join_text (array_sep fmt) es @ '']''" by (auto simp: json_text_array)
    have "\<forall>e\<in>set es. nul_free e"
    proof
      fix e assume "e \<in> set es"
      then obtain c where "c \<in> set cs" "json_text fp c (depth + 1) fmt = Some e" by (rule those_member [OF es])
      then show "nul_free e" by (rule CJSON(1))
    qed
    then show ?thesis unfolding t by (simp add: nul_free_join)
  next
    case obj
    with CJSON(2) obtain ms where ms: "those (map (member_entry fp (depth + 1) fmt) cs) = Some ms"
        and t: "t = ''{'' @ newline fmt @ members_text (depth + 1) fmt ms @
              indent (if cs = [] then depth - 1 else depth) fmt @ ''}''" by (auto simp: json_text_object)
    have "\<forall>(n, e)\<in>set ms. nul_free n \<and> nul_free e"
    proof (clarify del: conjI)
      fix n e assume "(n, e) \<in> set ms"
      then obtain c where c: "c \<in> set cs" "member_entry fp (depth + 1) fmt c = Some (n, e)"
        by (rule those_member [OF ms])
      show "nul_free n \<and> nul_free e" by (rule member_entry_nul_free [OF c(2) CJSON(1) [OF c(1)]])
    qed
    then show ?thesis unfolding t
      by (simp add: nul_free_members newline_def indent_def repeat_tab_def) (simp add: nul_free_def)
  next
    case other
    with CJSON(2) show ?thesis
      by (auto simp: json_text.simps number_text_nul_free [OF assms] Let_def split: if_splits)
  qed
qed

subsection \<open>The measured length is enough\<close>

definition array_room :: "bool \<Rightarrow> cstring list \<Rightarrow> int" where
  "array_room fmt es = sum_list (map (\<lambda>e. int (length e) + 2 + (if fmt then 1 else 0)) es)"

definition object_room :: "nat \<Rightarrow> bool \<Rightarrow> (cstring \<times> cstring) list \<Rightarrow> int" where
  "object_room depth fmt ms =
     sum_list (map (\<lambda>(n, e). int (length e) + int (length n) + 2 + (if fmt then 2 + int depth else 0)) ms)"

lemma array_room_simps [simp]:
  "array_room fmt [] = 0"
  "array_room fmt (e # es) = int (length e) + 2 + (if fmt then 1 else 0) + array_room fmt es"
  by (simp_all add: array_room_def)

lemma object_room_simps [simp]:
  "object_room depth fmt [] = 0"
  "object_room depth fmt ((n, e) # ms) =
     int (length e) + int (length n) + 2 + (if fmt then 2 + int depth else 0) + object_room depth fmt ms"
  by (simp_all add: object_room_def)

lemma room_nonneg: "0 \<le> array_room fmt es" "0 \<le> object_room depth fmt ms"
  by (auto simp: array_room_def object_room_def intro!: sum_list_nonneg)

lemma join_length_array:
  "int (length (join_text (array_sep fmt) es)) \<le> array_room fmt es"
  "array_room fmt es \<le> 2 * int (length (join_text (array_sep fmt) es)) + 3"
  by (induction es rule: induct_list012) auto

lemma members_length:
  "int (length (members_text depth fmt ms)) \<le> object_room depth fmt ms"
  "object_room depth fmt ms \<le> int (length (members_text depth fmt ms)) + 1"
proof (induction ms)
  case Nil
  case 1 show ?case by (simp add: members_text_def)
  case 2 show ?case by simp
next
  case (Cons m ms)
  obtain n e where m: "m = (n, e)" by force
  have base: "ms = [] \<Longrightarrow> object_room depth fmt ms = 0 \<and> length (members_text depth fmt ms) = 0"
    by (simp add: members_text_def)
  case 1 show ?case using Cons base
    by (cases "ms = []"; cases fmt) (simp_all add: m members_text_Cons member_text_def indent_def newline_def repeat_tab_def)
  case 2 show ?case using Cons base
    by (cases "ms = []"; cases fmt) (simp_all add: m members_text_Cons member_text_def indent_def newline_def repeat_tab_def)
qed

lemma empty_object_unformatted: "empty_object_text depth False = Inr (Some ''{}'')"
  using empty_object_text_eq [of 0 False]
  by (simp add: empty_object_text_def newline_def indent_def MaxAllocSize_def)

lemma finish_new:
  assumes "prints 0 w (t @ [NUL])" and "nul_free t" and "int (length t) < sz" and "sz \<le> int MaxAllocSize"
  shows "bindR (palloc0 sz) (\<lambda>out. finish (w (out, 0))) = Inr (Some t)"
proof -
  have "length t < nat sz" using assms(3) by linarith
  then show ?thesis using finish_prints [OF assms(1,2)] assms(3,4) by (simp add: palloc0_ok)
qed

lemma join_length_member: "e \<in> set es \<Longrightarrow> length e \<le> length (join_text sep es)"
  by (induction sep es rule: join_text.induct) auto

lemma members_length_member: "(n, e) \<in> set ms \<Longrightarrow> length n + length e \<le> length (members_text depth fmt ms)"
  by (induction ms) (auto simp: members_text_Cons member_text_def)

definition fits :: "cstring \<Rightarrow> bool" where
  "fits t \<longleftrightarrow> 2 * length t + 8 \<le> MaxAllocSize"

lemma fits_le: "fits t \<Longrightarrow> length s \<le> length t \<Longrightarrow> fits s"
  by (simp add: fits_def)

lemma finish_array:
  assumes "fits t" and t: "t = ''['' @ join_text (array_sep fmt) es @ '']''" and nf: "nul_free t"
  shows "bindR (palloc0 (5 + array_room fmt es)) (\<lambda>out. finish (array_text fmt es (out, 0))) = Inr (Some t)"
    and "\<forall>e\<in>set es. fits e" and "5 + array_room fmt es < 2 ^ 31"
proof -
  have room: "5 + array_room fmt es \<le> int MaxAllocSize" "int (length t) < 5 + array_room fmt es"
    using join_length_array [of fmt es] assms(1) unfolding t fits_def by simp_all
  then show "bindR (palloc0 (5 + array_room fmt es)) (\<lambda>out. finish (array_text fmt es (out, 0))) = Inr (Some t)"
    using nf array_text_prints [of fmt es] by (intro finish_new) (simp_all add: t)
  have "length e \<le> length t" if "e \<in> set es" for e using join_length_member [OF that, of "array_sep fmt"] by (simp add: t)
  then show "\<forall>e\<in>set es. fits e" using fits_le [OF assms(1)] by blast
  show "5 + array_room fmt es < 2 ^ 31" using room(1) by (simp add: MaxAllocSize_def)
qed

lemma finish_object:
  fixes depth :: nat and fmt :: bool
  defines "base \<equiv> 7 + (if fmt then int (depth + 1) else 0)"
  assumes "fits t" and nf: "nul_free t"
    and t: "t = ''{'' @ newline fmt @ members_text (depth + 1) fmt ms @ indent depth fmt @ ''}''"
  shows "bindR (palloc0 (base + object_room (depth + 1) fmt ms))
      (\<lambda>out. finish (object_text (depth + 1) fmt ms (out, 0))) = Inr (Some t)"
    and "\<forall>(n, e)\<in>set ms. fits n \<and> fits e" and "base + object_room (depth + 1) fmt ms < 2 ^ 31"
proof -
  have room: "base + object_room (depth + 1) fmt ms \<le> int MaxAllocSize"
      "int (length t) < base + object_room (depth + 1) fmt ms"
    using members_length [of "depth + 1" fmt ms] assms(2) unfolding t fits_def base_def
    by (cases fmt; simp add: newline_def indent_def repeat_tab_def)+
  then show "bindR (palloc0 (base + object_room (depth + 1) fmt ms))
      (\<lambda>out. finish (object_text (depth + 1) fmt ms (out, 0))) = Inr (Some t)"
    using nf object_text_prints [of "depth + 1" fmt ms] by (intro finish_new) (simp_all add: t)
  have "length n \<le> length t \<and> length e \<le> length t" if "(n, e) \<in> set ms" for n e
    using members_length_member [OF that, of "depth + 1" fmt] by (simp add: t)
  then show "\<forall>(n, e)\<in>set ms. fits n \<and> fits e" using fits_le [OF assms(2)] by blast
  show "base + object_room (depth + 1) fmt ms < 2 ^ 31" using room(1) by (simp add: MaxAllocSize_def)
qed

lemma print_string_fits: "fits (quoted (c_str s)) \<Longrightarrow> print_string_ptr (Some s) = Inr (Some (quoted (c_str s)))"
  by (rule print_string_ptr_text) (simp add: fits_def)

lemma member_entry_Some:
  assumes "member_entry fp depth fmt c = Some (n, e)" and "fits n"
  shows "print_string_ptr (cj_string (node c)) = Inr (Some n)" and "json_text fp c depth fmt = Some e"
  using assms print_string_fits by (auto simp: member_entry_def split: option.splits)

lemma print_array_step:
  assumes fp: "sprintf_fits fp" and ty: "cj_type f AND 255 = cJSON_Array"
    and txt_of: "json_text fp (CJSON f cs) depth fmt = Some t" and fits: "fits t"
    and entries: "\<And>es. cs \<noteq> [] \<Longrightarrow> those (map (\<lambda>c. json_text fp c (depth + 1) fmt) cs) = Some es \<Longrightarrow>
      \<forall>e\<in>set es. fits e \<Longrightarrow> 5 + array_room fmt es < 2 ^ 31 \<Longrightarrow>
      array_entries fp cs (depth + 1) fmt 5 = Inr (Some (es, 5 + array_room fmt es))"
  shows "print_array fp (CJSON f cs) depth fmt = Inr (Some t)"
proof -
  from txt_of ty obtain es where es: "those (map (\<lambda>c. json_text fp c (depth + 1) fmt) cs) = Some es"
      and t: "t = ''['' @ join_text (array_sep fmt) es @ '']''" by (auto simp: json_text_array)
  note fin = finish_array [OF fits t json_text_nul_free [OF fp txt_of]]
  show ?thesis
  proof (cases "cs = []")
    case True
    with es t show ?thesis using sprintf_new_ok [of "''[]''" 3] by (simp add: MaxAllocSize_def)
  next
    case False
    with entries [OF False es fin(2,3)] fin(1) show ?thesis by simp
  qed
qed

lemma print_object_step:
  assumes fp: "sprintf_fits fp" and ty: "cj_type f AND 255 = cJSON_Object"
    and txt_of: "json_text fp (CJSON f cs) depth fmt = Some t" and fits: "fits t"
    and entries: "\<And>ms len. cs \<noteq> [] \<Longrightarrow> len = c_int (7 + (if fmt then int (depth + 1) else 0)) \<Longrightarrow>
      those (map (member_entry fp (depth + 1) fmt) cs) = Some ms \<Longrightarrow>
      \<forall>(n, e)\<in>set ms. fits n \<and> fits e \<Longrightarrow> 0 \<le> len \<Longrightarrow> len + object_room (depth + 1) fmt ms < 2 ^ 31 \<Longrightarrow>
      object_entries fp cs (depth + 1) fmt len = Inr (Some (ms, len + object_room (depth + 1) fmt ms))"
  shows "print_object fp (CJSON f cs) depth fmt = Inr (Some t)"
proof -
  from txt_of ty obtain ms where ms: "those (map (member_entry fp (depth + 1) fmt) cs) = Some ms"
      and t: "t = ''{'' @ newline fmt @ members_text (depth + 1) fmt ms @
        indent (if cs = [] then depth - 1 else depth) fmt @ ''}''" by (auto simp: json_text_object)
  show ?thesis
  proof (cases "cs = []")
    case True
    have "fmt \<Longrightarrow> depth - 1 + 3 \<le> length t" using True by (simp add: t indent_def repeat_tab_def newline_def)
    then have "fmt \<Longrightarrow> depth + 4 \<le> MaxAllocSize" using fits by (simp add: fits_def)
    with True ms show ?thesis using empty_object_text_eq [of depth fmt] empty_object_unformatted [of depth]
      by (cases fmt) (simp_all add: t members_text_def newline_def indent_def)
  next
    case False
    let ?base = "7 + (if fmt then int (depth + 1) else 0)"
    have "t = ''{'' @ newline fmt @ members_text (depth + 1) fmt ms @ indent depth fmt @ ''}''"
      using t False by simp
    note fin = finish_object [OF fits json_text_nul_free [OF fp txt_of] this]
    have base: "?base = c_int ?base" using fin(3) room_nonneg(2) [of "depth + 1" fmt ms]
      by (intro c_int_small [symmetric]; cases fmt; simp)
    from entries [OF False base ms fin(2) _ fin(3)] base [symmetric] False fin(1) show ?thesis by simp
  qed
qed

lemma print_text:
  "sprintf_fits fp \<Longrightarrow> json_text fp item depth fmt = Some t \<Longrightarrow> fits t \<Longrightarrow>
     print_value fp item depth fmt = Inr (Some t)"
  "sprintf_fits fp \<Longrightarrow> cj_type (node item) AND 255 = cJSON_Array \<Longrightarrow> json_text fp item depth fmt = Some t \<Longrightarrow>
     fits t \<Longrightarrow> print_array fp item depth fmt = Inr (Some t)"
  "sprintf_fits fp \<Longrightarrow> cj_type (node item) AND 255 = cJSON_Object \<Longrightarrow> json_text fp item depth fmt = Some t \<Longrightarrow>
     fits t \<Longrightarrow> print_object fp item depth fmt = Inr (Some t)"
  "sprintf_fits fp \<Longrightarrow> those (map (\<lambda>c. json_text fp c depth fmt) cs) = Some es \<Longrightarrow> \<forall>e\<in>set es. fits e \<Longrightarrow>
     0 \<le> len \<Longrightarrow> len + array_room fmt es < 2 ^ 31 \<Longrightarrow>
     array_entries fp cs depth fmt len = Inr (Some (es, len + array_room fmt es))"
  "sprintf_fits fp \<Longrightarrow> those (map (member_entry fp depth fmt) cs) = Some ms \<Longrightarrow>
     \<forall>(n, e)\<in>set ms. fits n \<and> fits e \<Longrightarrow> 0 \<le> len \<Longrightarrow> len + object_room depth fmt ms < 2 ^ 31 \<Longrightarrow>
     object_entries fp cs depth fmt len = Inr (Some (ms, len + object_room depth fmt ms))"
proof (induction fp item depth fmt and fp item depth fmt and fp item depth fmt and fp cs depth fmt len
    and fp cs depth fmt len arbitrary: t and t and t and es and ms
    rule: print_value_print_array_print_object_array_entries_object_entries.induct)
  case (1 fp f cs depth fmt)
  then show ?case
    by (auto simp: json_text.simps print_number_text Let_def print_string_fits split: if_splits)
next
  case (2 fp f cs depth fmt)
  then show ?case by (intro print_array_step) auto
next
  case (3 fp f cs depth fmt)
  then show ?case by (intro print_object_step) auto
next
  case (4 fp depth fmt len)
  then show ?case by simp
next
  case (5 fp c cs depth fmt len)
  from 5(4) obtain e es' where es: "es = e # es'" and e: "json_text fp c depth fmt = Some e"
      and es': "those (map (\<lambda>c. json_text fp c depth fmt) cs) = Some es'"
    by (auto split: option.splits)
  let ?len = "len + int (length e) + 2 + (if fmt then 1 else 0)"
  have first: "print_value fp c depth fmt = Inr (Some e)" using 5(1) [OF 5(3) e] 5(5) es by simp
  have len: "c_int ?len = ?len" using 5(6,7) room_nonneg(1) [of fmt es'] es by (intro c_int_small) simp_all
  have "array_entries fp cs depth fmt ?len = Inr (Some (es', ?len + array_room fmt es'))"
    using 5(2) [OF first refl, unfolded len, OF 5(3) es'] 5(5,6,7) es by simp
  with first len show ?case by (simp add: es algebra_simps)
next
  case (6 fp depth fmt len)
  then show ?case by simp
next
  case (7 fp c cs depth fmt len)
  from 7(4) obtain n e ms' where ms: "ms = (n, e) # ms'" and ne: "member_entry fp depth fmt c = Some (n, e)"
      and ms': "those (map (member_entry fp depth fmt) cs) = Some ms'"
    by (auto split: option.splits)
  let ?len = "len + int (length e) + int (length n) + 2 + (if fmt then 2 + int depth else 0)"
  have "fits n" "fits e" using 7(5) ms by auto
  note str = member_entry_Some [OF ne this(1)]
  have val: "print_value fp c depth fmt = Inr (Some e)" using 7(1) [OF str(1) 7(3) str(2)] \<open>fits e\<close> by simp
  have len: "c_int ?len = ?len" using 7(6,7) room_nonneg(2) [of depth fmt ms'] ms by (intro c_int_small) simp_all
  have "object_entries fp cs depth fmt ?len = Inr (Some (ms', ?len + object_room depth fmt ms'))"
    using 7(2) [OF str(1) val, of ms'] 7(3,5,6,7) ms ms' len by simp
  with str(1) val len show ?case by (simp add: ms algebra_simps)
qed

end
