(* ===== verification/CJsonParse.thy ===== *)
theory CJsonParse
  imports CJsonPrint
begin

text \<open>
  The parser of \<^verbatim>\<open>cJSON.c\<close>. A \<^verbatim>\<open>const char *\<close> into the text is the rest of
  the text from there; the empty list points at the terminator, and a pointer moved behind the
  terminator is an \<^const>\<open>Undefined\<close> access, since every loop dereferences it next. A parse
  routine returns NULL (\<^const>\<open>Inl\<close>, with the position the error pointer \<^verbatim>\<open>ep\<close> is set
  to) or what it read and the rest. The mutual recursion of the C code is bounded by the length
  of the text only; the model takes it as fuel.
\<close>

section \<open>Tokens\<close>

definition deref :: "byte list \<Rightarrow> byte" where
  "deref p = (case p of [] \<Rightarrow> NUL | c # _ \<Rightarrow> c)"

definition adv :: "nat \<Rightarrow> byte list \<Rightarrow> byte list res" where
  "adv n p = (if n \<le> length p then Inr (drop n p) else Inl (Undefined OutOfBounds))"

definition skip :: "byte list \<Rightarrow> byte list" where
  "skip p = dropWhile (\<lambda>c. uchar c \<le> 32) p"

definition hexval :: "byte \<Rightarrow> nat option" where
  "hexval c = (if 48 \<le> uchar c \<and> uchar c \<le> 57 then Some (uchar c - 48)
     else if 65 \<le> uchar c \<and> uchar c \<le> 70 then Some (10 + uchar c - 65)
     else if 97 \<le> uchar c \<and> uchar c \<le> 102 then Some (10 + uchar c - 97)
     else None)"

definition parse_hex4 :: "byte list \<Rightarrow> nat" where
  "parse_hex4 str =
     (case hexval (deref str) of None \<Rightarrow> 0 | Some h1 \<Rightarrow>
      (case hexval (deref (drop 1 str)) of None \<Rightarrow> 0 | Some h2 \<Rightarrow>
      (case hexval (deref (drop 2 str)) of None \<Rightarrow> 0 | Some h3 \<Rightarrow>
      (case hexval (deref (drop 3 str)) of None \<Rightarrow> 0 | Some h4 \<Rightarrow>
        ((h1 * 16 + h2) * 16 + h3) * 16 + h4))))"

text \<open>The UTF-8 bytes of a code point, stored from the last to the first.\<close>

definition utf8_bytes :: "nat \<Rightarrow> byte list" where
  "utf8_bytes uc =
     (let tail = (\<lambda>u :: nat. char_of ((u OR 0x80) AND 0xBF) :: byte) in
      if uc < 0x80 then [char_of uc]
      else if uc < 0x800 then [char_of (uc div 64 OR 0xC0), tail uc]
      else if uc < 0x10000 then [char_of (uc div 4096 OR 0xE0), tail (uc div 64), tail uc]
      else [char_of (uc div 262144 OR 0xF0), tail (uc div 4096), tail (uc div 64), tail uc])"

text \<open>The first pass over a string literal counts the characters, an escape as one.\<close>

fun scan_len :: "byte list \<Rightarrow> int res" where
  "scan_len [] = Inr 0"
| "scan_len (c # p) =
     (if c = CHR 0x22 then Inr 0
      else if c = CHR 0x5C
      then (case p of [] \<Rightarrow> Inl (Undefined OutOfBounds) | _ # q \<Rightarrow> bindR (scan_len q) (\<lambda>n. Inr (n + 1)))
      else bindR (scan_len p) (\<lambda>n. Inr (n + 1)))"

text \<open>
  One round of the second pass: the bytes it stores and the rest of the text. An escape of a
  code point that is invalid stores nothing.
\<close>

definition unescape_u :: "byte list \<Rightarrow> (byte list \<times> byte list) res" where
  "unescape_u q =
     (let uc = parse_hex4 q in
      bindR (adv 4 q) (\<lambda>r.
      if (0xDC00 \<le> uc \<and> uc \<le> 0xDFFF) \<or> uc = 0 then Inr ([], r)
      else if 0xD800 \<le> uc \<and> uc \<le> 0xDBFF then
        (if deref r \<noteq> CHR 0x5C \<or> deref (drop 1 r) \<noteq> CHR ''u'' then Inr ([], r)
         else let uc2 = parse_hex4 (drop 2 r) in
           bindR (adv 6 r) (\<lambda>r.
           if uc2 < 0xDC00 \<or> uc2 > 0xDFFF then Inr ([], r)
           else Inr (utf8_bytes (0x10000 + ((uc AND 0x3FF) * 1024 OR uc2 AND 0x3FF)), r)))
      else Inr (utf8_bytes uc, r)))"

fun unescape_char :: "byte list \<Rightarrow> (byte list \<times> byte list) res" where
  "unescape_char [] = Inr ([], [])"
| "unescape_char (c # p) =
     (if c \<noteq> CHR 0x5C then Inr ([c], p)
      else case p of [] \<Rightarrow> Inl (Undefined OutOfBounds)
        | e # q \<Rightarrow>
          if e = CHR ''b'' then Inr ([CHR 0x08], q)
          else if e = CHR ''f'' then Inr ([CHR 0x0C], q)
          else if e = CHR ''n'' then Inr ([CHR 0x0A], q)
          else if e = CHR ''r'' then Inr ([CHR 0x0D], q)
          else if e = CHR ''t'' then Inr ([CHR 0x09], q)
          else if e = CHR ''u'' then unescape_u q
          else Inr ([e], q))"

lemma adv_length: "adv n p = Inr r \<Longrightarrow> length r \<le> length p"
  by (auto simp: adv_def split: if_splits)

lemma unescape_u_shorter: "unescape_u q = Inr (out, r) \<Longrightarrow> length r \<le> length q"
  by (auto simp: unescape_u_def Let_def bindR_eq_Inr_iff split: if_splits dest!: adv_length)

lemma unescape_char_shorter: "unescape_char (c # p) = Inr (out, r) \<Longrightarrow> length r \<le> length p"
  using unescape_u_shorter by (auto split: if_splits list.splits) fastforce

text \<open>The second pass copies, undoing the escapes.\<close>

function unescape :: "byte list \<Rightarrow> pen \<Rightarrow> (pen \<times> byte list) res" where
  "unescape p w =
     (if p = [] \<or> deref p = CHR 0x22 then Inr (w, p)
      else bindR (unescape_char p) (\<lambda>(out, rest). bindR (put out w) (\<lambda>w. unescape rest w)))"
  by pat_completeness auto

termination
proof (relation "measure (\<lambda>(p, w). length p)")
  fix p :: "byte list" and w :: pen and x out rest and w' :: pen
  assume "\<not> (p = [] \<or> deref p = CHR 0x22)" and x: "unescape_char p = Inr x" "(out, rest) = x"
  then show "((rest, w'), p, w) \<in> measure (\<lambda>(p, w). length p)"
    using unescape_char_shorter by (cases p) (fastforce simp: less_Suc_eq_le)+
qed simp

declare scan_len.simps [simp del] unescape.simps [simp del] unescape_char.simps [simp del]

type_synonym 'a parsed = "(byte list + 'a \<times> byte list) res"

definition parse_string :: "byte list \<Rightarrow> cstring parsed" where
  "parse_string str =
     (if deref str \<noteq> CHR 0x22 then Inr (Inl str)
      else bindR (scan_len (tl str)) (\<lambda>len.
        bindR (palloc0 (c_int (c_int len + 1))) (\<lambda>out.
        bindR (unescape (tl str) (out, 0)) (\<lambda>(w, ptr).
        bindR (put [NUL] w) (\<lambda>(m, _).
        bindR (string_at m) (\<lambda>s.
        Inr (Inr (s, if deref ptr = CHR 0x22 then tl ptr else ptr))))))))"

section \<open>Numbers\<close>

definition is_digit :: "byte \<Rightarrow> bool" where
  "is_digit c \<longleftrightarrow> 48 \<le> uchar c \<and> uchar c \<le> 57"

definition digit_value :: "byte \<Rightarrow> int" where
  "digit_value c = int (uchar c) - 48"

definition add_digits :: "'r double_ops \<Rightarrow> 'r \<Rightarrow> byte list \<Rightarrow> 'r" where
  "add_digits fp n ds =
     foldl (\<lambda>n c. fp_add fp (fp_mul fp n (fp_of_int fp 10)) (fp_of_int fp (digit_value c))) n ds"

text \<open>The sign, the digits before and after the point, and the rest.\<close>

definition parse_mantissa :: "byte list \<Rightarrow> int \<times> byte list \<times> byte list \<times> byte list" where
  "parse_mantissa num0 =
     (let sign = (if deref num0 = CHR ''-'' then -1 else 1);
          num1 = (if deref num0 = CHR ''-'' then tl num0 else num0);
          num2 = (if deref num1 = CHR ''0'' then tl num1 else num1);
          whole = (if is_digit (deref num2) \<and> deref num2 \<noteq> CHR ''0'' then takeWhile is_digit num2 else []);
          num3 = drop (length whole) num2;
          frac = (if deref num3 = CHR ''.'' then takeWhile is_digit (drop 1 num3) else [])
      in (sign, whole, frac, if frac = [] then num3 else drop (1 + length frac) num3))"

text \<open>The exponent, with the sign, and the rest.\<close>

definition parse_exponent :: "byte list \<Rightarrow> int \<times> byte list" where
  "parse_exponent num =
     (if deref num = CHR ''e'' \<or> deref num = CHR ''E'' then
        (let num1 = tl num;
             signsubscale = (if deref num1 = CHR ''-'' then -1 else 1);
             num2 = (if deref num1 = CHR ''+'' \<or> deref num1 = CHR ''-'' then tl num1 else num1);
             ds = takeWhile is_digit num2;
             subscale = foldl (\<lambda>s c. c_int (s * 10 + digit_value c)) 0 ds
         in (c_int (subscale * signsubscale), drop (length ds) num2))
      else (0, num))"

definition parse_number :: "'r::zero double_ops \<Rightarrow> byte list \<Rightarrow> 'r cJSON \<times> byte list" where
  "parse_number fp num =
     (case parse_mantissa num of (sign, whole, frac, num) \<Rightarrow>
      case parse_exponent num of (exponent, num) \<Rightarrow>
      let n = add_digits fp (add_digits fp (fp_of_int fp 0) whole) frac;
          scale = foldl (\<lambda>s c. fp_add fp s (fp_of_int fp (-1))) (fp_of_int fp 0) frac;
          value = fp_mul fp (fp_mul fp (fp_of_int fp sign) n)
                    (fp_pow10 fp (fp_add fp scale (fp_of_int fp exponent)))
      in (CJSON (node (cJSON_New_Item :: 'r cJSON)\<lparr>cj_type := cJSON_Number, valuedouble := value,
                  valueint := fp_to_int fp value\<rparr>) [], num))"

section \<open>Values\<close>

definition starts_with :: "cstring \<Rightarrow> byte list \<Rightarrow> bool" where
  "starts_with lit p \<longleftrightarrow> take (length lit) p = lit"

definition on_parsed :: "'a parsed \<Rightarrow> ('a \<Rightarrow> byte list \<Rightarrow> 'b parsed) \<Rightarrow> 'b parsed" where
  "on_parsed r f = bindR r (\<lambda>x. case x of Inl ep \<Rightarrow> Inr (Inl ep) | Inr (a, rest) \<Rightarrow> f a rest)"

function parse_value :: "nat \<Rightarrow> 'r::zero double_ops \<Rightarrow> byte list \<Rightarrow> 'r cJSON parsed"
  and parse_array :: "nat \<Rightarrow> 'r::zero double_ops \<Rightarrow> byte list \<Rightarrow> 'r cJSON parsed"
  and parse_elements :: "nat \<Rightarrow> 'r::zero double_ops \<Rightarrow> byte list \<Rightarrow> 'r cJSON list parsed"
  and parse_object :: "nat \<Rightarrow> 'r::zero double_ops \<Rightarrow> byte list \<Rightarrow> 'r cJSON parsed"
  and parse_members :: "nat \<Rightarrow> 'r::zero double_ops \<Rightarrow> byte list \<Rightarrow> 'r cJSON list parsed"
where
  "parse_value 0 fp value = Inl Diverges"
| "parse_value (Suc n) fp value =
     (if starts_with ''null'' value then Inr (Inr (set_type cJSON_NULL cJSON_New_Item, drop 4 value))
      else if starts_with ''false'' value then Inr (Inr (set_type cJSON_False cJSON_New_Item, drop 5 value))
      else if starts_with ''true'' value
      then Inr (Inr (CJSON (node (cJSON_New_Item :: 'r cJSON)\<lparr>cj_type := cJSON_True, valueint := 1\<rparr>) [], drop 4 value))
      else if deref value = CHR 0x22
      then on_parsed (parse_string value) (\<lambda>s rest.
        Inr (Inr (CJSON (node (cJSON_New_Item :: 'r cJSON)\<lparr>valuestring := Some s, cj_type := cJSON_String\<rparr>) [], rest)))
      else if deref value = CHR ''-'' \<or> is_digit (deref value) then Inr (Inr (parse_number fp value))
      else if deref value = CHR ''['' then parse_array n fp value
      else if deref value = CHR ''{'' then parse_object n fp value
      else Inr (Inl value))"
| "parse_array 0 fp value = Inl Diverges"
| "parse_array (Suc n) fp value =
     (if deref value \<noteq> CHR ''['' then Inr (Inl value)
      else let value = skip (tl value) in
        if deref value = CHR '']'' then Inr (Inr (set_type cJSON_Array cJSON_New_Item, tl value))
        else on_parsed (parse_elements n fp value) (\<lambda>cs value.
          if deref value = CHR '']''
          then Inr (Inr (CJSON (node (set_type cJSON_Array cJSON_New_Item)) cs, tl value))
          else Inr (Inl value)))"
| "parse_elements 0 fp value = Inl Diverges"
| "parse_elements (Suc n) fp value =
     on_parsed (parse_value n fp (skip value)) (\<lambda>c value.
       let value = skip value in
       if deref value = CHR '',''
       then on_parsed (parse_elements n fp (tl value)) (\<lambda>cs value. Inr (Inr (c # cs, value)))
       else Inr (Inr ([c], value)))"
| "parse_object 0 fp value = Inl Diverges"
| "parse_object (Suc n) fp value =
     (if deref value \<noteq> CHR ''{'' then Inr (Inl value)
      else let value = skip (tl value) in
        if deref value = CHR ''}'' then Inr (Inr (set_type cJSON_Object cJSON_New_Item, tl value))
        else on_parsed (parse_members n fp value) (\<lambda>cs value.
          if deref value = CHR ''}''
          then Inr (Inr (CJSON (node (set_type cJSON_Object cJSON_New_Item)) cs, tl value))
          else Inr (Inl value)))"
| "parse_members 0 fp value = Inl Diverges"
| "parse_members (Suc n) fp value =
     on_parsed (parse_string (skip value)) (\<lambda>name value.
       let value = skip value in
       if deref value \<noteq> CHR '':'' then Inr (Inl value)
       else on_parsed (parse_value n fp (skip (tl value))) (\<lambda>c value.
         let value = skip value; c = set_string (Some name) c in
         if deref value = CHR '',''
         then on_parsed (parse_members n fp (tl value)) (\<lambda>cs value. Inr (Inr (c # cs, value)))
         else Inr (Inr ([c], value))))"

  by pat_completeness auto

termination
  by (relation "measure (case_sum (case_sum (\<lambda>(n, fp, v). n) (\<lambda>(n, fp, v). n))
        (case_sum (\<lambda>(n, fp, v). n) (case_sum (\<lambda>(n, fp, v). n) (\<lambda>(n, fp, v). n))))") simp_all

definition parse_fuel :: "byte list \<Rightarrow> nat" where
  "parse_fuel value = 3 * length value + 3"

definition cJSON_ParseWithOpts :: "'r::zero double_ops \<Rightarrow> cstring \<Rightarrow> bool \<Rightarrow> 'r cJSON parsed" where
  "cJSON_ParseWithOpts fp value0 require_null_terminated =
     (let value = c_str value0 in
      on_parsed (parse_value (parse_fuel value) fp (skip value)) (\<lambda>c endp.
        if require_null_terminated
        then (let endp = skip endp in if endp \<noteq> [] then Inr (Inl endp) else Inr (Inr (c, endp)))
        else Inr (Inr (c, endp))))"

definition cJSON_Parse :: "'r::zero double_ops \<Rightarrow> cstring \<Rightarrow> 'r cJSON parsed" where
  "cJSON_Parse fp value = cJSON_ParseWithOpts fp value False"

section \<open>Parsing ends\<close>

text \<open>No step of the tokenizer loops, and every token consumes input.\<close>

definition ends :: "'a res \<Rightarrow> bool" where
  "ends r \<longleftrightarrow> r \<noteq> Inl Diverges"

lemma ends_Inr [simp]: "ends (Inr x)"
  by (simp add: ends_def)

lemma ends_error [simp]: "ends (Inl (PgError m))" "ends (Inl (Undefined u))"
  by (simp_all add: ends_def)

lemma ends_bind: "ends m \<Longrightarrow> (\<And>x. m = Inr x \<Longrightarrow> ends (f x)) \<Longrightarrow> ends (bindR m f)"
  by (cases m) (auto simp: ends_def)

lemma ends_put: "ends (put bs w)"
  by (cases w) (simp add: put_def mem_write_def)

lemma ends_adv: "ends (adv n p)"
  by (simp add: adv_def)

lemma ends_cells_strlen: "ends (cells_strlen m)"
  by (induction m rule: cells_strlen.induct) (auto intro: ends_bind)

lemma ends_string_at: "ends (string_at m)"
  unfolding string_at_def by (rule ends_bind [OF ends_cells_strlen]) (simp add: mem_read_def)

lemma ends_map_result: "ends (bindR m (\<lambda>x. Inr (f x))) \<longleftrightarrow> ends m"
  by (cases m) (auto simp: ends_def)

lemma ends_scan_len: "ends (scan_len p)"
proof (induction "length p" arbitrary: p rule: less_induct)
  case less
  show ?case
  proof (cases p)
    case (Cons c q)
    have "ends (scan_len r)" if "length r \<le> length q" for r using less Cons that by simp
    then show ?thesis unfolding Cons scan_len.simps(2) by (auto simp: ends_map_result split: list.splits)
  qed (simp add: scan_len.simps)
qed

lemma ends_unescape_u: "ends (unescape_u q)"
  unfolding unescape_u_def Let_def by (auto intro!: ends_bind [OF ends_adv])

lemma ends_unescape_char: "ends (unescape_char p)"
  by (cases p) (auto simp: unescape_char.simps ends_unescape_u split: list.splits)

lemma ends_unescape: "ends (unescape p w)"
proof (induction p w rule: unescape.induct)
  case (1 p w)
  show ?case
  proof (cases "p = [] \<or> deref p = CHR 0x22")
    case True
    then show ?thesis by (simp add: unescape.simps [of p])
  next
    case False
    then show ?thesis unfolding unescape.simps [of p] if_not_P [OF False]
      by (intro ends_bind [OF ends_unescape_char]) (auto intro: ends_bind [OF ends_put] 1)
  qed
qed

lemma ends_parse_string: "ends (parse_string str)"
  unfolding parse_string_def
  by (auto simp: palloc0_def split: prod.splits
      intro!: ends_bind ends_scan_len ends_unescape ends_put ends_string_at)

text \<open>Every value that is read consumes input.\<close>

lemma unescape_shorter: "unescape p w = Inr (w', r) \<Longrightarrow> length r \<le> length p"
proof (induction p w rule: unescape.induct)
  case (1 p w)
  show ?case
  proof (cases "p = [] \<or> deref p = CHR 0x22")
    case True
    with 1(2) show ?thesis by (simp add: unescape.simps [of p])
  next
    case False
    with 1(2) obtain out rest w'' where u: "unescape_char p = Inr (out, rest)" "put out w = Inr w''"
        "unescape rest w'' = Inr (w', r)"
      unfolding unescape.simps [of p] by (auto simp: bindR_eq_Inr_iff)
    have "length r \<le> length rest" using 1(1) [OF False u(1) refl u(2) u(3)] .
    moreover have "length rest \<le> length p" using u(1) False unescape_char_shorter by (cases p) fastforce+
    ultimately show ?thesis by simp
  qed
qed

lemma length_tl_le: "length (tl p) \<le> length p"
  by simp

lemma parse_string_shorter:
  assumes "parse_string str = Inr (Inr (s, r))"
  shows "length r < length str"
proof -
  have "str \<noteq> []" using assms by (auto simp: parse_string_def deref_def)
  moreover obtain w w' ptr where "unescape (tl str) w = Inr (w', ptr)" "r = ptr \<or> r = tl ptr"
    using assms by (auto simp: parse_string_def bindR_eq_Inr_iff split: if_splits)
  then have "length r \<le> length (tl str)" using unescape_shorter by fastforce
  ultimately show ?thesis by (cases str) auto
qed

lemma skip_shorter: "length (skip p) \<le> length p"
  by (simp add: skip_def length_dropWhile_le)

lemma deref_NUL: "deref p = c \<Longrightarrow> c \<noteq> NUL \<Longrightarrow> p \<noteq> []"
  by (auto simp: deref_def)

lemma starts_with_shorter: "starts_with lit p \<Longrightarrow> lit \<noteq> [] \<Longrightarrow> length (drop (length lit) p) < length p"
  by (cases p) (auto simp: starts_with_def)

lemma takeWhile_digit: "is_digit (deref p) \<Longrightarrow> takeWhile is_digit p \<noteq> []"
  by (cases p) (auto simp: deref_def is_digit_def)

lemma parse_exponent_shorter: "parse_exponent p = (e, r) \<Longrightarrow> length r \<le> length p"
  by (auto simp: parse_exponent_def Let_def split: if_splits)

lemma parse_mantissa_shorter:
  assumes "deref p = CHR ''-'' \<or> is_digit (deref p)" and "parse_mantissa p = (s, w, f, r)"
  shows "length r < length p"
proof -
  let ?n1 = "if deref p = CHR ''-'' then tl p else p"
  let ?n2 = "if deref ?n1 = CHR ''0'' then tl ?n1 else ?n1"
  let ?w = "if is_digit (deref ?n2) \<and> deref ?n2 \<noteq> CHR ''0'' then takeWhile is_digit ?n2 else []"
  have p: "p \<noteq> []" using assms(1) by (auto simp: deref_def is_digit_def)
  have "length r \<le> length (drop (length ?w) ?n2)"
    using assms(2) by (auto simp: parse_mantissa_def Let_def split: if_splits)
  moreover have "length (drop (length ?w) ?n2) < length p"
  proof (cases "deref p = CHR ''-'' \<or> deref p = CHR ''0''")
    case True
    then show ?thesis using p by (cases p) (auto simp: deref_def)
  next
    case False
    then have "?n2 = p" by simp
    then show ?thesis using False assms(1) p takeWhile_digit [of p] by (cases p) (auto simp: deref_def)
  qed
  ultimately show ?thesis by simp
qed

lemma parse_number_shorter:
  assumes "deref p = CHR ''-'' \<or> is_digit (deref p)" and "parse_number fp p = (c, r)"
  shows "length r < length p"
proof -
  obtain s w f q e where "parse_mantissa p = (s, w, f, q)" "parse_exponent q = (e, r)"
    using assms(2) by (auto simp: parse_number_def Let_def split: prod.splits)
  then show ?thesis using parse_mantissa_shorter [OF assms(1)] parse_exponent_shorter by fastforce
qed

lemma on_parsed_Inr:
  "on_parsed m f = Inr (Inr y) \<longleftrightarrow> (\<exists>a r. m = Inr (Inr (a, r)) \<and> f a r = Inr (Inr y))"
  by (cases m) (auto simp: on_parsed_def split: sum.splits)

lemma ends_on_parsed:
  "ends m \<Longrightarrow> (\<And>a r. m = Inr (Inr (a, r)) \<Longrightarrow> ends (f a r)) \<Longrightarrow> ends (on_parsed m f)"
  unfolding on_parsed_def by (rule ends_bind) (auto split: sum.splits)

declare parse_value.simps [simp del] parse_array.simps [simp del] parse_elements.simps [simp del]
  parse_object.simps [simp del] parse_members.simps [simp del]

definition consumes :: "byte list \<Rightarrow> 'a parsed \<Rightarrow> bool" where
  "consumes v x \<longleftrightarrow> (\<forall>a r. x = Inr (Inr (a, r)) \<longrightarrow> length r < length v)"

lemma consumes_simps [simp]:
  "consumes v (Inl e)" "consumes v (Inr (Inl ep))" "consumes v (Inr (Inr (a, r))) \<longleftrightarrow> length r < length v"
  by (simp_all add: consumes_def)

lemma consumes_bind:
  assumes "consumes v m" and "\<And>a r. length r < length v \<Longrightarrow> consumes v (f a r)"
  shows "consumes v (on_parsed m f)"
  using assms by (auto simp: consumes_def on_parsed_Inr)

lemma consumes_le: "consumes u m \<Longrightarrow> length u \<le> length v \<Longrightarrow> consumes v m"
  by (auto simp: consumes_def)

lemma consumes_string: "consumes v (parse_string v)"
  using parse_string_shorter by (auto simp: consumes_def)

lemma consumes_skip: "consumes (skip v) m \<Longrightarrow> consumes v m"
  using consumes_le skip_shorter by blast

lemma length_skip_tl: "length r < length v \<Longrightarrow> length (skip (tl r)) < length v" "length r < length v \<Longrightarrow> length (tl (skip r)) < length v"
  "length r < length v \<Longrightarrow> length (skip r) < length v"
  using skip_shorter [of "tl r"] skip_shorter [of r] by simp_all

lemma consumes_less: "consumes u m \<Longrightarrow> length u < length v \<Longrightarrow> consumes v m"
  by (auto simp: consumes_def)

lemma deref_nonempty: "deref p = CHR ''['' \<Longrightarrow> p \<noteq> []" "deref p = CHR ''{'' \<Longrightarrow> p \<noteq> []"
  by (auto simp: deref_def)

lemma value_consumes:
  assumes "consumes v (parse_array n fp v)" and "consumes v (parse_object n fp v)"
  shows "consumes v (parse_value (Suc n) fp v)"
proof -
  have "consumes v (Inr (Inr (parse_number fp v)))" if "deref v = CHR ''-'' \<or> is_digit (deref v)"
    using parse_number_shorter [OF that, of fp] by (cases "parse_number fp v") simp
  moreover have "consumes v (on_parsed (parse_string v) (\<lambda>s rest. Inr (Inr (g s, rest))))" for g :: "cstring \<Rightarrow> 'a cJSON"
    by (rule consumes_bind [OF consumes_string]) simp
  moreover have "length (drop 4 v) < length v" if "starts_with ''null'' v \<or> starts_with ''true'' v"
    using that starts_with_shorter [of "''null''" v] starts_with_shorter [of "''true''" v] by auto
  moreover have "length (drop 5 v) < length v" if "starts_with ''false'' v"
    using that starts_with_shorter [of "''false''" v] by auto
  ultimately show ?thesis using assms by (simp add: parse_value.simps)
qed

lemma array_consumes:
  assumes "\<And>u. consumes u (parse_elements n fp u)"
  shows "consumes v (parse_array (Suc n) fp v)"
proof (cases "deref v = CHR ''[''")
  case True
  then have v: "length (skip (tl v)) < length v" using deref_nonempty(1) skip_shorter [of "tl v"] by (cases v) fastforce+
  then have "consumes v (parse_elements n fp (skip (tl v)))" using consumes_less [OF assms] by blast
  then have "consumes v (on_parsed (parse_elements n fp (skip (tl v))) (\<lambda>cs value.
      if deref value = CHR '']'' then Inr (Inr (g cs, tl value)) else Inr (Inl value)))" for g :: "'a cJSON list \<Rightarrow> 'a cJSON"
    by (rule consumes_bind) (simp add: less_imp_diff_less)
  with True v show ?thesis by (simp add: parse_array.simps Let_def less_imp_diff_less)
qed (simp add: parse_array.simps)

lemma object_consumes:
  assumes "\<And>u. consumes u (parse_members n fp u)"
  shows "consumes v (parse_object (Suc n) fp v)"
proof (cases "deref v = CHR ''{''")
  case True
  then have v: "length (skip (tl v)) < length v" using deref_nonempty(2) skip_shorter [of "tl v"] by (cases v) fastforce+
  then have "consumes v (parse_members n fp (skip (tl v)))" using consumes_less [OF assms] by blast
  then have "consumes v (on_parsed (parse_members n fp (skip (tl v))) (\<lambda>cs value.
      if deref value = CHR ''}'' then Inr (Inr (g cs, tl value)) else Inr (Inl value)))" for g :: "'a cJSON list \<Rightarrow> 'a cJSON"
    by (rule consumes_bind) (simp add: less_imp_diff_less)
  with True v show ?thesis by (simp add: parse_object.simps Let_def less_imp_diff_less)
qed (simp add: parse_object.simps)

lemma elements_consumes:
  assumes "\<And>u. consumes u (parse_value n fp u)" and "\<And>u. consumes u (parse_elements n fp u)"
  shows "consumes v (parse_elements (Suc n) fp v)"
  unfolding parse_elements.simps Let_def
proof (rule consumes_bind [OF consumes_skip [OF assms(1)]])
  fix c and r :: "byte list" assume r: "length r < length v"
  have "consumes v (on_parsed (parse_elements n fp (tl (skip r))) (\<lambda>cs value. Inr (Inr (c # cs, value))))"
    by (rule consumes_bind [OF consumes_less [OF assms(2) length_skip_tl(2) [OF r]]]) simp
  then show "consumes v (if deref (skip r) = CHR '','' then on_parsed (parse_elements n fp (tl (skip r)))
      (\<lambda>cs value. Inr (Inr (c # cs, value))) else Inr (Inr ([c], skip r)))"
    using length_skip_tl(3) [OF r] by simp
qed

lemma members_consumes:
  assumes "\<And>u. consumes u (parse_value n fp u)" and "\<And>u. consumes u (parse_members n fp u)"
  shows "consumes v (parse_members (Suc n) fp v)"
  unfolding parse_members.simps Let_def
proof (rule consumes_bind [OF consumes_skip [OF consumes_string]])
  fix name and r :: "byte list" assume r: "length r < length v"
  have "consumes v (on_parsed (parse_value n fp (skip (tl (skip r)))) (\<lambda>c value.
      if deref (skip value) = CHR '',''
      then on_parsed (parse_members n fp (tl (skip value))) (\<lambda>cs value. Inr (Inr (set_string (Some name) c # cs, value)))
      else Inr (Inr ([set_string (Some name) c], skip value))))"
  proof (rule consumes_bind [OF consumes_less [OF assms(1)]])
    show "length (skip (tl (skip r))) < length v" using length_skip_tl(1) [OF length_skip_tl(3) [OF r]] .
  next
    fix c and q :: "byte list" assume q: "length q < length v"
    have "consumes v (on_parsed (parse_members n fp (tl (skip q))) (\<lambda>cs value. Inr (Inr (set_string (Some name) c # cs, value))))"
      by (rule consumes_bind [OF consumes_less [OF assms(2) length_skip_tl(2) [OF q]]]) simp
    then show "consumes v (if deref (skip q) = CHR '',''
      then on_parsed (parse_members n fp (tl (skip q))) (\<lambda>cs value. Inr (Inr (set_string (Some name) c # cs, value)))
      else Inr (Inr ([set_string (Some name) c], skip q)))" using length_skip_tl(3) [OF q] by simp
  qed
  then show "consumes v (if deref (skip r) \<noteq> CHR '':'' then Inr (Inl (skip r)) else
      on_parsed (parse_value n fp (skip (tl (skip r)))) (\<lambda>c value.
      if deref (skip value) = CHR '',''
      then on_parsed (parse_members n fp (tl (skip value))) (\<lambda>cs value. Inr (Inr (set_string (Some name) c # cs, value)))
      else Inr (Inr ([set_string (Some name) c], skip value))))" by simp
qed

lemma parse_consumes:
  "consumes v (parse_value n fp v) \<and> consumes v (parse_array n fp v) \<and> consumes v (parse_elements n fp v) \<and>
   consumes v (parse_object n fp v) \<and> consumes v (parse_members n fp v)"
proof (induction n arbitrary: v)
  case 0
  show ?case by (simp add: parse_value.simps parse_array.simps parse_elements.simps parse_object.simps parse_members.simps)
next
  case (Suc n)
  then show ?case
    by (simp add: value_consumes array_consumes elements_consumes object_consumes members_consumes)
qed

text \<open>Enough fuel for the length of the text: the parser never runs out of it.\<close>

lemma value_ends:
  assumes "deref v = CHR ''['' \<Longrightarrow> ends (parse_array n fp v)" and "deref v = CHR ''{'' \<Longrightarrow> ends (parse_object n fp v)"
  shows "ends (parse_value (Suc n) fp v)"
  using assms by (auto simp: parse_value.simps intro!: ends_on_parsed ends_parse_string)

lemma array_ends:
  assumes "deref v = CHR ''['' \<Longrightarrow> ends (parse_elements n fp (skip (tl v)))"
  shows "ends (parse_array (Suc n) fp v)"
  using assms by (auto simp: parse_array.simps Let_def intro!: ends_on_parsed)

lemma object_ends:
  assumes "deref v = CHR ''{'' \<Longrightarrow> ends (parse_members n fp (skip (tl v)))"
  shows "ends (parse_object (Suc n) fp v)"
  using assms by (auto simp: parse_object.simps Let_def intro!: ends_on_parsed)

lemma elements_ends:
  assumes "ends (parse_value n fp (skip v))"
    and "\<And>r. length r < length v \<Longrightarrow> ends (parse_elements n fp (tl (skip r)))"
  shows "ends (parse_elements (Suc n) fp v)"
  unfolding parse_elements.simps Let_def
proof (rule ends_on_parsed [OF assms(1)])
  fix c r assume "parse_value n fp (skip v) = Inr (Inr (c, r))"
  then have "length r < length v"
    using parse_consumes [of "skip v" n fp] skip_shorter [of v] by (simp add: consumes_def)
  from assms(2) [OF this]
  show "ends (if deref (skip r) = CHR '','' then on_parsed (parse_elements n fp (tl (skip r)))
      (\<lambda>cs value. Inr (Inr (c # cs, value))) else Inr (Inr ([c], skip r)))"
    by (auto intro!: ends_on_parsed)
qed

lemma members_ends:
  assumes "\<And>r. length r < length v \<Longrightarrow> ends (parse_value n fp (skip (tl (skip r))))"
    and "\<And>r. length r < length v \<Longrightarrow> ends (parse_members n fp (tl (skip r)))"
  shows "ends (parse_members (Suc n) fp v)"
  unfolding parse_members.simps Let_def
proof (rule ends_on_parsed [OF ends_parse_string])
  fix name r assume "parse_string (skip v) = Inr (Inr (name, r))"
  then have r: "length r < length v"
    using parse_string_shorter skip_shorter [of v] less_le_trans by blast
  have "ends (on_parsed (parse_value n fp (skip (tl (skip r)))) (\<lambda>c value.
      if deref (skip value) = CHR '',''
      then on_parsed (parse_members n fp (tl (skip value))) (\<lambda>cs value. Inr (Inr (set_string (Some name) c # cs, value)))
      else Inr (Inr ([set_string (Some name) c], skip value))))"
  proof (rule ends_on_parsed [OF assms(1) [OF r]])
    fix c q assume "parse_value n fp (skip (tl (skip r))) = Inr (Inr (c, q))"
    then have "length q < length v"
      using parse_consumes [of "skip (tl (skip r))" n fp] length_skip_tl(1) [OF length_skip_tl(3) [OF r]]
      by (simp add: consumes_def)
    from assms(2) [OF this]
    show "ends (if deref (skip q) = CHR '',''
      then on_parsed (parse_members n fp (tl (skip q))) (\<lambda>cs value. Inr (Inr (set_string (Some name) c # cs, value)))
      else Inr (Inr ([set_string (Some name) c], skip q)))" by (auto intro!: ends_on_parsed)
  qed
  then show "ends (if deref (skip r) \<noteq> CHR '':'' then Inr (Inl (skip r)) else
      on_parsed (parse_value n fp (skip (tl (skip r)))) (\<lambda>c value.
      if deref (skip value) = CHR '',''
      then on_parsed (parse_members n fp (tl (skip value))) (\<lambda>cs value. Inr (Inr (set_string (Some name) c # cs, value)))
      else Inr (Inr ([set_string (Some name) c], skip value))))" by simp
qed

lemma parse_ends:
  "(3 * length v + 1 \<le> n \<longrightarrow> ends (parse_value n fp v)) \<and>
   (3 * length v \<le> n \<and> 1 \<le> n \<longrightarrow> ends (parse_array n fp v) \<and> ends (parse_object n fp v)) \<and>
   (3 * length v + 2 \<le> n \<longrightarrow> ends (parse_elements n fp v) \<and> ends (parse_members n fp v))"
proof (induction n arbitrary: v)
  case (Suc n)
  note IH = Suc
  have val: "ends (parse_value (Suc n) fp v)" if "3 * length v + 1 \<le> Suc n"
    using that IH [of v] deref_nonempty [of v] by (intro value_ends) (cases v; simp)+
  have tail: "3 * length (skip (tl v)) + 2 \<le> n" if "3 * length v \<le> Suc n" "v \<noteq> []"
    using that skip_shorter [of "tl v"] by (cases v) auto
  have arr: "ends (parse_array (Suc n) fp v)" "ends (parse_object (Suc n) fp v)" if "3 * length v \<le> Suc n"
    using tail [OF that] IH deref_nonempty by (intro array_ends object_ends; blast)+
  have room: "3 * length (tl (skip r)) + 2 \<le> n" "3 * length (skip (tl (skip r))) + 1 \<le> n"
    if "3 * length v + 2 \<le> Suc n" "length r < length v" for r
    using that length_skip_tl(2) [OF that(2)] length_skip_tl(1) [OF length_skip_tl(3) [OF that(2)]] by linarith+
  have rest: "ends (parse_elements (Suc n) fp v)" "ends (parse_members (Suc n) fp v)" if "3 * length v + 2 \<le> Suc n"
    using room [OF that] IH that skip_shorter [of v] by (intro elements_ends members_ends; simp)+
  from val arr rest show ?case by blast
qed simp

end
