(* ===== verification/CJsonRoundtrip.thy ===== *)
theory CJsonRoundtrip
  imports CJsonParse
begin

text \<open>
  Printing and parsing are inverse on the documents the program emits: an abstract JSON value
  (\<open>json\<close>), the value an item tree stands for (\<open>json_of\<close>), its text, and the proof
  that the parser reads the value back from the text. Numbers are left out: the change events
  have none.
\<close>

section \<open>Abstract values\<close>

datatype json = JNull | JBool bool | JString cstring | JArray "json list" | JObject "(cstring \<times> json) list"

fun json_of :: "'r cJSON \<Rightarrow> json option" where
  "json_of (CJSON f cs) =
     (let t = cj_type f AND 255 in
      if t = cJSON_NULL then Some JNull
      else if t = cJSON_False then Some (JBool False)
      else if t = cJSON_True then Some (JBool True)
      else if t = cJSON_String then map_option (JString \<circ> c_str) (valuestring f)
      else if t = cJSON_Array then map_option JArray (those (map json_of cs))
      else if t = cJSON_Object then
        map_option JObject (those (map (\<lambda>c. case cj_string (node c) of None \<Rightarrow> None
          | Some name \<Rightarrow> map_option (Pair (c_str name)) (json_of c)) cs))
      else None)"

declare json_of.simps [simp del]

fun text_of :: "json \<Rightarrow> nat \<Rightarrow> bool \<Rightarrow> cstring" where
  "text_of JNull depth fmt = ''null''"
| "text_of (JBool b) depth fmt = (if b then ''true'' else ''false'')"
| "text_of (JString s) depth fmt = quoted s"
| "text_of (JArray js) depth fmt =
     ''['' @ join_text (array_sep fmt) (map (\<lambda>j. text_of j (depth + 1) fmt) js) @ '']''"
| "text_of (JObject ms) depth fmt =
     ''{'' @ newline fmt @ members_text (depth + 1) fmt (map (\<lambda>(n, j). (quoted n, text_of j (depth + 1) fmt)) ms) @
       indent (if ms = [] then depth - 1 else depth) fmt @ ''}''"

text \<open>The item the parser builds for a value.\<close>

fun item_of :: "json \<Rightarrow> 'r::zero cJSON" where
  "item_of JNull = set_type cJSON_NULL cJSON_New_Item"
| "item_of (JBool b) = (if b
     then CJSON (node (cJSON_New_Item :: 'r cJSON)\<lparr>cj_type := cJSON_True, valueint := 1\<rparr>) []
     else set_type cJSON_False cJSON_New_Item)"
| "item_of (JString s) =
     CJSON (node (cJSON_New_Item :: 'r cJSON)\<lparr>valuestring := Some s, cj_type := cJSON_String\<rparr>) []"
| "item_of (JArray js) = CJSON (node (set_type cJSON_Array cJSON_New_Item)) (map item_of js)"
| "item_of (JObject ms) = CJSON (node (set_type cJSON_Object cJSON_New_Item))
     (map (\<lambda>(n, j). set_string (Some n) (item_of j)) ms)"

fun json_nul_free :: "json \<Rightarrow> bool" where
  "json_nul_free JNull = True"
| "json_nul_free (JBool b) = True"
| "json_nul_free (JString s) = nul_free s"
| "json_nul_free (JArray js) = list_all json_nul_free js"
| "json_nul_free (JObject ms) = list_all (\<lambda>(n, j). nul_free n \<and> json_nul_free j) ms"

lemma those_map_Some: "those (map (\<lambda>x. Some (f x)) xs) = Some (map f xs)"
  by (induction xs) auto

lemma those_map_cong:
  assumes "those (map f xs) = Some ys" and "\<And>x y. x \<in> set xs \<Longrightarrow> f x = Some y \<Longrightarrow> g x = Some (h y)"
  shows "those (map g xs) = Some (map h ys)"
  using assms by (induction xs arbitrary: ys) (auto split: option.splits)

lemma json_of_text:
  "json_of item = Some j \<Longrightarrow> json_text fp item depth fmt = Some (text_of j depth fmt)"
proof (induction item arbitrary: j depth)
  case (CJSON f cs)
  let ?t = "cj_type f AND 255"
  consider (arr) "?t = cJSON_Array" | (obj) "?t = cJSON_Object" | (other) "?t \<noteq> cJSON_Array" "?t \<noteq> cJSON_Object"
    by blast
  then show ?case
  proof cases
    case arr
    with CJSON(2) obtain js where js: "those (map json_of cs) = Some js" and j: "j = JArray js"
      by (auto simp: json_of.simps)
    have "those (map (\<lambda>c. json_text fp c (depth + 1) fmt) cs) = Some (map (\<lambda>j. text_of j (depth + 1) fmt) js)"
      by (rule those_map_cong [OF js]) (rule CJSON(1))
    with arr j show ?thesis by (simp add: json_text_array)
  next
    case obj
    let ?m = "\<lambda>c. case cj_string (node c) of None \<Rightarrow> None | Some name \<Rightarrow> map_option (Pair (c_str name)) (json_of c)"
    from obj CJSON(2) obtain ms where ms: "those (map ?m cs) = Some ms" and j: "j = JObject ms"
      by (auto simp: json_of.simps)
    have "those (map (member_entry fp (depth + 1) fmt) cs) =
        Some (map (\<lambda>(n, j). (quoted n, text_of j (depth + 1) fmt)) ms)"
      by (rule those_map_cong [OF ms]) (auto simp: member_entry_def dest!: CJSON(1) split: option.splits)
    moreover have "cs = [] \<longleftrightarrow> ms = []" using ms by (auto simp: those_Some_map)
    ultimately show ?thesis using obj j by (simp add: json_text_object)
  next
    case other
    with CJSON(2) show ?thesis by (auto simp: json_of.simps json_text.simps Let_def split: if_splits)
  qed
qed

lemma json_of_nul_free: "json_of item = Some j \<Longrightarrow> json_nul_free j"
proof (induction item arbitrary: j)
  case (CJSON f cs)
  let ?t = "cj_type f AND 255"
  consider (arr) "?t = cJSON_Array" | (obj) "?t = cJSON_Object" | (other) "?t \<noteq> cJSON_Array" "?t \<noteq> cJSON_Object"
    by blast
  then show ?case
  proof cases
    case arr
    with CJSON(2) obtain js where js: "those (map json_of cs) = Some js" and j: "j = JArray js"
      by (auto simp: json_of.simps)
    have "json_nul_free x" if "x \<in> set js" for x using that by (rule those_member [OF js]) (rule CJSON(1))
    then show ?thesis by (simp add: j list_all_iff)
  next
    case obj
    let ?m = "\<lambda>c. case cj_string (node c) of None \<Rightarrow> None | Some name \<Rightarrow> map_option (Pair (c_str name)) (json_of c)"
    from obj CJSON(2) obtain ms where ms: "those (map ?m cs) = Some ms" and j: "j = JObject ms"
      by (auto simp: json_of.simps)
    have "case x of (n, j) \<Rightarrow> nul_free n \<and> json_nul_free j" if "x \<in> set ms" for x
      using that by (rule those_member [OF ms]) (auto dest: CJSON(1) split: option.splits)
    then show ?thesis by (simp add: j list_all_iff)
  next
    case other
    with CJSON(2) show ?thesis by (auto simp: json_of.simps Let_def split: if_splits)
  qed
qed

lemma json_of_set_string: "json_of (set_string s item) = json_of item"
  by (cases item) (simp add: set_string_def json_of.simps Let_def)

lemma cj_string_set_string [simp]: "cj_string (node (set_string s item)) = s"
  by (simp add: set_string_def)

lemma json_of_item_of: "json_nul_free j \<Longrightarrow> json_of (item_of j :: 'r::zero cJSON) = Some j"
proof (induction j)
  case (JArray js)
  have "those (map (json_of \<circ> (item_of :: json \<Rightarrow> 'r cJSON)) js) = Some js"
    unfolding those_Some_map using JArray by (auto simp: list_all_iff)
  then show ?case by (simp add: json_of.simps set_type_def cJSON_New_Item_def)
next
  case (JObject ms)
  let ?m = "\<lambda>c :: 'r cJSON. case cj_string (node c) of None \<Rightarrow> None
    | Some name \<Rightarrow> map_option (Pair (c_str name)) (json_of c)"
  have "?m (set_string (Some n) (item_of j)) = Some (n, j)" if nj: "(n, j) \<in> set ms" for n j
  proof -
    have "nul_free n" "json_nul_free j" using JObject(2) nj by (auto simp: list_all_iff)
    moreover from JObject(1) [OF nj] this(2) have "json_of (item_of j :: 'r cJSON) = Some j" by simp
    ultimately show ?thesis by (simp add: json_of_set_string)
  qed
  then have "those (map (?m \<circ> (\<lambda>(n, j). set_string (Some n) (item_of j))) ms) = Some ms"
    unfolding those_Some_map by auto
  then show ?case by (simp add: json_of.simps set_type_def cJSON_New_Item_def)
qed (simp_all add: json_of.simps set_type_def cJSON_New_Item_def)

section \<open>String literals\<close>

lemma hexval_hex_digit: "n < 16 \<Longrightarrow> hexval (hex_digit n) = Some n"
  by (auto simp: hexval_def hex_digit_def)

lemma parse_hex4_show: "n < 65536 \<Longrightarrow> parse_hex4 (show_hex4 n @ q) = n"
proof -
  assume "n < 65536"
  define a b c where "a = n div 16" and "b = a div 16" and "c = b div 16"
  have "n div 256 = b" "n div 4096 = c" by (simp_all add: a_def b_def c_def div_mult2_eq [symmetric])
  moreover have "a * 16 + n mod 16 = n" "b * 16 + a mod 16 = a" "c * 16 + b mod 16 = b"
    unfolding a_def b_def c_def by (rule div_mult_mod_eq)+
  ultimately have "((n div 4096 * 16 + n div 256 mod 16) * 16 + n div 16 mod 16) * 16 + n mod 16 = n"
    by (simp add: a_def [symmetric])
  with \<open>n < 65536\<close> show ?thesis by (simp add: parse_hex4_def show_hex4_def deref_def hexval_hex_digit)
qed

lemma unescape_u_control:
  assumes "uchar c < 32" and "c \<noteq> NUL"
  shows "unescape_u (show_hex4 (uchar c) @ q) = Inr ([c], q)"
proof -
  have "uchar c \<noteq> 0" using assms(2) by simp
  moreover have "adv 4 (show_hex4 (uchar c) @ q) = Inr q" by (simp add: adv_def show_hex4_def)
  ultimately show ?thesis using assms(1) parse_hex4_show [of "uchar c" q]
    by (simp add: unescape_u_def utf8_bytes_def)
qed

lemma unescape_escape: "c \<noteq> NUL \<Longrightarrow> unescape_char (escape_char c @ q) = Inr ([c], q)"
proof (cases "31 < uchar c \<and> c \<noteq> CHR 0x22 \<and> c \<noteq> CHR 0x5C")
  case True
  then show ?thesis by (simp add: escape_char_def unescape_char.simps)
next
  case False
  assume "c \<noteq> NUL"
  show ?thesis
  proof (cases "c \<in> {CHR 0x22, CHR 0x5C, CHR 0x08, CHR 0x0C, CHR 0x0A, CHR 0x0D, CHR 0x09}")
    case True
    then show ?thesis by (elim insertE emptyE) (simp_all add: escape_char_def unescape_char.simps)
  next
    case other: False
    with False have "uchar c < 32" by simp
    with unescape_u_control [OF this \<open>c \<noteq> NUL\<close>, of q] other show ?thesis
      by (simp add: escape_char_def unescape_char.simps)
  qed
qed

lemma escape_char_shape: "escape_char c \<noteq> []" "deref (escape_char c @ q) \<noteq> CHR 0x22"
  by (auto simp: escape_char_def deref_def)

text \<open>The first pass counts at least the characters and at most the bytes of the literal.\<close>

lemma hex_digit_plain: "n < 16 \<Longrightarrow> hex_digit n \<noteq> CHR 0x22" "n < 16 \<Longrightarrow> hex_digit n \<noteq> CHR 0x5C"
  by (auto simp: hex_digit_def dest!: arg_cong [where f = uchar])

lemma scan_escape:
  assumes "scan_len q = Inr n"
  shows "\<exists>k. scan_len (escape_char c @ q) = Inr (n + k) \<and> 1 \<le> k \<and> k \<le> int (length (escape_char c))"
proof (cases "31 < uchar c \<and> c \<noteq> CHR 0x22 \<and> c \<noteq> CHR 0x5C")
  case True
  then show ?thesis using assms by (simp add: escape_char_def scan_len.simps)
next
  case False
  obtain e es where e: "escape_char c = CHR 0x5C # e # es" "es = [] \<or> es = show_hex4 (uchar c)"
  proof (cases "c \<in> {CHR 0x22, CHR 0x5C, CHR 0x08, CHR 0x0C, CHR 0x0A, CHR 0x0D, CHR 0x09}")
    case True
    then have "\<exists>e. escape_char c = [CHR 0x5C, e]" by (elim insertE emptyE) (simp_all add: escape_char_def)
    then show thesis using that by blast
  next
    case other: False
    then show thesis using that False by (simp add: escape_char_def)
  qed
  then have "scan_len (es @ q) = Inr (n + int (length es))"
    using assms by (auto simp: show_hex4_def scan_len.simps hex_digit_plain)
  then have "scan_len (escape_char c @ q) = Inr (n + (int (length es) + 1))"
    by (simp add: e(1) scan_len.simps)
  then show ?thesis by (intro exI [of _ "int (length es) + 1"]) (simp add: e(1))
qed

lemma scan_literal:
  "\<exists>n. scan_len (concat (map escape_char s) @ CHR 0x22 # rest) = Inr n \<and> int (length s) \<le> n \<and>
     n \<le> int (length (concat (map escape_char s)))"
proof (induction s)
  case Nil
  show ?case by (simp add: scan_len.simps)
next
  case (Cons c s)
  then obtain n where n: "scan_len (concat (map escape_char s) @ CHR 0x22 # rest) = Inr n"
      "int (length s) \<le> n" "n \<le> int (length (concat (map escape_char s)))" by blast
  from scan_escape [OF n(1), of c] n(2,3) show ?case by fastforce
qed

lemma unescape_literal:
  assumes "nul_free s"
  shows "prints 0 (\<lambda>w. bindR (unescape (concat (map escape_char s) @ CHR 0x22 # rest) w)
      (\<lambda>(w, ptr). if ptr = CHR 0x22 # rest then Inr w else Inl (PgError ''rest''))) s"
  using assms
proof (induction s)
  case Nil
  have "unescape (CHR 0x22 # rest) w = Inr (w, CHR 0x22 # rest)" for w
    by (simp add: unescape.simps deref_def)
  then show ?case using prints_Nil by simp
next
  case (Cons c s)
  let ?q = "concat (map escape_char s) @ CHR 0x22 # rest"
  have "unescape (escape_char c @ ?q) w = bindR (put [c] w) (unescape ?q)" for w
    using Cons(2) unescape_escape [of c ?q] escape_char_shape by (subst unescape.simps) simp
  then show ?case using prints_bind [OF prints_put Cons(1), of "[c]"] Cons(2) by (simp add: bindR_assoc)
qed

lemma parse_string_quoted:
  assumes "nul_free s" and "length (quoted s) \<le> MaxAllocSize"
  shows "parse_string (quoted s @ rest) = Inr (Inr (s, rest))"
proof -
  let ?p = "concat (map escape_char s) @ CHR 0x22 # rest"
  have lit: "quoted s @ rest = CHR 0x22 # ?p" by (simp add: quoted_def)
  obtain n where n: "scan_len ?p = Inr n" "int (length s) \<le> n" "n \<le> int (length (concat (map escape_char s)))"
    using scan_literal by blast
  then have "n + 2 \<le> int MaxAllocSize" using assms(2) by (simp add: quoted_def)
  then have alloc: "palloc0 (c_int (c_int n + 1)) = Inr (replicate (nat (n + 1)) (Some NUL))"
    using n(2) by (simp add: c_int_small MaxAllocSize_def palloc0_def)
  let ?m = "replicate (nat (n + 1)) (Some NUL) :: cell list"
  have "0 + length s + 0 \<le> length ?m" using n(2) by simp
  then obtain m' where m': "bindR (unescape ?p (?m, 0))
      (\<lambda>(w, ptr). if ptr = CHR 0x22 # rest then Inr w else Inl (PgError ''rest'')) = Inr (m', 0 + length s)"
      "length m' = length ?m" "take (0 + length s) m' = take 0 ?m @ map Some s"
    by (rule printsE [OF unescape_literal [OF assms(1)]])
  then have un: "unescape ?p (?m, 0) = Inr ((m', length s), CHR 0x22 # rest)"
    by (auto simp: bindR_eq_Inr_iff split: if_splits)
  define m'' where "m'' = map Some (s @ [NUL]) @ drop (Suc (length s)) m'"
  have "put [NUL] (m', length s) = Inr (m'', length s + 1)"
    using m'(2,3) n(2) by (simp add: put_def mem_write_def m''_def)
  moreover have "string_at m'' = Inr s" by (rule string_at_prefix) (simp_all add: m''_def assms(1))
  ultimately show ?thesis using n(1) alloc un
    by (simp only: parse_string_def lit) (simp add: deref_def)
qed

section \<open>Values\<close>

lemma skip_blank [simp]:
  "skip (newline fmt @ p) = skip p" "skip (indent k fmt @ p) = skip p" "skip (CHR 0x20 # p) = skip p"
  "skip (CHR 0x09 # p) = skip p"
proof -
  have "skip (replicate k (CHR 0x09) @ p) = skip p" by (induction k) (simp_all add: skip_def)
  then show "skip (indent k fmt @ p) = skip p" by (simp add: indent_def repeat_tab_def)
qed (simp_all add: skip_def newline_def)

lemma skip_visible: "32 < uchar (deref p) \<Longrightarrow> skip p = p"
  by (cases p) (simp_all add: skip_def deref_def)

lemma skip_skip [simp]: "skip (skip p) = skip p"
  by (simp add: skip_def dropWhile_idem)

lemma text_of_visible: "32 < uchar (deref (text_of j depth fmt @ rest))"
  by (cases j) (auto simp: deref_def quoted_def)

lemma text_of_first: "deref (text_of j depth fmt @ rest) \<noteq> CHR '']''"
  by (cases j) (auto simp: deref_def quoted_def)

lemma text_of_not_Nil: "text_of j depth fmt \<noteq> []"
  by (cases j) (auto simp: quoted_def)

lemma skip_text_of [simp]: "skip (text_of j depth fmt @ rest) = text_of j depth fmt @ rest"
  by (rule skip_visible [OF text_of_visible])

lemma skip_quoted [simp]: "skip (quoted s @ rest) = quoted s @ rest"
  by (rule skip_visible) (simp add: quoted_def deref_def)

definition reads :: "json \<Rightarrow> nat \<Rightarrow> bool \<Rightarrow> 'r::zero double_ops \<Rightarrow> bool" where
  "reads j depth fmt fp \<longleftrightarrow>
     (\<forall>n rest. 3 * length (text_of j depth fmt) + 1 \<le> n \<longrightarrow>
        parse_value n fp (text_of j depth fmt @ rest) = Inr (Inr (item_of j, rest)))"

lemma parse_elements_skip: "skip v = skip w \<Longrightarrow> parse_elements n fp v = parse_elements n fp w"
  by (cases n) (simp_all add: parse_elements.simps)

lemma parse_members_skip: "skip v = skip w \<Longrightarrow> parse_members n fp v = parse_members n fp w"
  by (cases n) (simp_all add: parse_members.simps)

lemma parse_elements_text:
  assumes "\<And>j. j \<in> set js \<Longrightarrow> reads j depth fmt fp" and "js \<noteq> []" and "deref (skip rest) \<noteq> CHR '',''"
    and "3 * length (join_text (array_sep fmt) (map (\<lambda>j. text_of j depth fmt) js)) + 2 \<le> n"
  shows "parse_elements n fp (join_text (array_sep fmt) (map (\<lambda>j. text_of j depth fmt) js) @ rest) =
    Inr (Inr (map item_of js, skip rest))"
  using assms
proof (induction js arbitrary: n)
  case (Cons j js)
  from Cons.prems(4) obtain m where n: "n = Suc m" by (cases n) simp_all
  have j: "reads j depth fmt fp" using Cons.prems(1) by simp
  show ?case
  proof (cases "js = []")
    case True
    have "parse_value m fp (text_of j depth fmt @ rest) = Inr (Inr (item_of j, rest))"
      using j Cons.prems(4) True n by (simp add: reads_def)
    then show ?thesis using True Cons.prems(3)
      by (simp add: n parse_elements.simps on_parsed_def Let_def)
  next
    case False
    let ?js = "join_text (array_sep fmt) (map (\<lambda>j. text_of j depth fmt) js)"
    have joined: "join_text (array_sep fmt) (map (\<lambda>j. text_of j depth fmt) (j # js)) =
        text_of j depth fmt @ array_sep fmt @ ?js" using False by (cases js) simp_all
    have "3 * length ?js + 2 \<le> m" "3 * length (text_of j depth fmt) + 1 \<le> m"
      using Cons.prems(4) n joined by (simp_all split: if_splits)
    then have "parse_elements m fp (?js @ rest) = Inr (Inr (map item_of js, skip rest))"
        "parse_value m fp (text_of j depth fmt @ array_sep fmt @ ?js @ rest) =
         Inr (Inr (item_of j, array_sep fmt @ ?js @ rest))"
      using Cons.IH [OF _ False Cons.prems(3)] Cons.prems(1) j by (simp_all add: reads_def)
    moreover have "skip (array_sep fmt @ ?js @ rest) = array_sep fmt @ ?js @ rest"
      by (rule skip_visible) (simp add: deref_def)
    moreover have "parse_elements m fp (tl (array_sep fmt @ ?js @ rest)) = parse_elements m fp (?js @ rest)"
      by (rule parse_elements_skip) (cases fmt; simp)
    moreover have "deref (array_sep fmt @ ?js @ rest) = CHR '',''" by (simp add: deref_def)
    ultimately show ?thesis unfolding joined n
      by (simp only: append.assoc parse_elements.simps skip_text_of on_parsed_def bindR_Inr sum.case prod.case Let_def
          if_True list.map simp_thms)
  qed
qed simp

text \<open>One member of an object, up to the separator.\<close>

abbreviation member_of :: "nat \<Rightarrow> bool \<Rightarrow> cstring \<times> json \<Rightarrow> cstring" where
  "member_of depth fmt \<equiv> \<lambda>(n, j). member_text depth fmt (quoted n, text_of j depth fmt)"

lemma parse_member_text:
  assumes "reads j depth fmt fp" and "nul_free name" and "length (quoted name) \<le> MaxAllocSize"
    and "3 * length (text_of j depth fmt) + 1 \<le> m"
  shows "parse_members (Suc m) fp (member_of depth fmt (name, j) @ rest) =
    (if deref (skip rest) = CHR '',''
     then on_parsed (parse_members m fp (tl (skip rest)))
       (\<lambda>cs value. Inr (Inr (set_string (Some name) (item_of j) # cs, value)))
     else Inr (Inr ([set_string (Some name) (item_of j)], skip rest)))"
proof -
  let ?colon = "if fmt then [CHR '':'', CHR 0x09] else '':''"
  let ?e = "text_of j depth fmt @ rest"
  have "skip (member_of depth fmt (name, j) @ rest) = quoted name @ ?colon @ ?e"
    by (simp add: member_text_def)
  moreover have "parse_string (quoted name @ ?colon @ ?e) = Inr (Inr (name, ?colon @ ?e))"
    by (rule parse_string_quoted [OF assms(2,3)])
  moreover have "skip (?colon @ ?e) = ?colon @ ?e" "deref (?colon @ ?e) = CHR '':''"
    by (auto simp: skip_visible deref_def)
  moreover have "skip (tl (?colon @ ?e)) = ?e" by simp
  moreover have "parse_value m fp ?e = Inr (Inr (item_of j, rest))" using assms(1,4) by (simp add: reads_def)
  ultimately show ?thesis
    by (simp only: parse_members.simps on_parsed_def bindR_Inr sum.case prod.case Let_def if_False simp_thms not_True_eq_False)
qed

lemma parse_members_text:
  assumes "\<And>n j. (n, j) \<in> set ms \<Longrightarrow> reads j depth fmt fp \<and> nul_free n"
    and "ms \<noteq> []" and "deref (skip rest) \<noteq> CHR '',''"
    and "3 * length (join_text (CHR '','' # newline fmt) (map (member_of depth fmt) ms)) + 2 \<le> n"
    and "length (join_text (CHR '','' # newline fmt) (map (member_of depth fmt) ms)) \<le> MaxAllocSize"
  shows "parse_members n fp (join_text (CHR '','' # newline fmt) (map (member_of depth fmt) ms) @ rest) =
    Inr (Inr (map (\<lambda>(n, j). set_string (Some n) (item_of j)) ms, skip rest))"
  using assms
proof (induction ms arbitrary: n)
  case (Cons p ms)
  obtain name j where p: "p = (name, j)" by force
  from Cons.prems(4) obtain m where n: "n = Suc m" by (cases n) simp_all
  have j: "reads j depth fmt fp" "nul_free name" using Cons.prems(1) p by auto
  have len: "length (quoted name) + length (text_of j depth fmt) \<le> length (member_of depth fmt p)"
    by (simp add: p member_text_def)
  show ?case
  proof (cases "ms = []")
    case True
    have "length (quoted name) \<le> MaxAllocSize" "3 * length (text_of j depth fmt) + 1 \<le> m"
      using Cons.prems(4,5) True n len by simp_all
    from parse_member_text [OF j this] Cons.prems(3) True show ?thesis by (simp add: n p)
  next
    case False
    let ?ms = "join_text (CHR '','' # newline fmt) (map (member_of depth fmt) ms)"
    have joined: "join_text (CHR '','' # newline fmt) (map (member_of depth fmt) (p # ms)) =
        member_of depth fmt p @ CHR '','' # newline fmt @ ?ms" using False by (cases ms) simp_all
    have room: "length (quoted name) \<le> MaxAllocSize" "3 * length (text_of j depth fmt) + 1 \<le> m"
        "3 * length ?ms + 2 \<le> m" "length ?ms \<le> MaxAllocSize"
      using Cons.prems(4,5) n len unfolding joined by simp_all
    have "parse_members m fp (?ms @ rest) = Inr (Inr (map (\<lambda>(n, j). set_string (Some n) (item_of j)) ms, skip rest))"
      using Cons.IH [OF _ False Cons.prems(3) room(3,4)] Cons.prems(1) by auto
    moreover have "parse_members m fp (newline fmt @ ?ms @ rest) = parse_members m fp (?ms @ rest)"
      by (rule parse_members_skip) simp
    moreover have "skip (CHR '','' # newline fmt @ ?ms @ rest) = CHR '','' # newline fmt @ ?ms @ rest"
      by (rule skip_visible) (simp add: deref_def)
    ultimately show ?thesis
      using parse_member_text [OF j room(1,2), of "CHR '','' # newline fmt @ ?ms @ rest"]
      unfolding joined unfolding n p by (simp add: deref_def on_parsed_def)
  qed
qed simp

lemma starts_with_deref: "starts_with lit p \<Longrightarrow> lit = c # cs \<Longrightarrow> deref p = c"
  by (cases p) (auto simp: starts_with_def deref_def)

lemma parse_value_other:
  assumes "deref v = c" and "c \<in> {CHR 0x22, CHR ''['', CHR ''{''}"
  shows "parse_value (Suc n) fp v =
    (if c = CHR 0x22 then on_parsed (parse_string v) (\<lambda>s rest.
        Inr (Inr (CJSON (node (cJSON_New_Item :: 'r::zero cJSON)\<lparr>valuestring := Some s, cj_type := cJSON_String\<rparr>) [], rest)))
     else if c = CHR ''['' then parse_array n fp v else parse_object n fp v)"
proof -
  have "\<not> starts_with ''null'' v" "\<not> starts_with ''false'' v" "\<not> starts_with ''true'' v"
    using assms starts_with_deref [of _ v] by fastforce+
  then show ?thesis using assms by (auto simp: parse_value.simps is_digit_def)
qed

lemma reads_array:
  assumes "\<And>j. j \<in> set js \<Longrightarrow> reads j (depth + 1) fmt fp"
  shows "reads (JArray js) depth fmt fp"
  unfolding reads_def
proof (intro allI impI)
  fix n rest
  let ?es = "join_text (array_sep fmt) (map (\<lambda>j. text_of j (depth + 1) fmt) js)"
  assume n: "3 * length (text_of (JArray js) depth fmt) + 1 \<le> n"
  obtain k where k: "n = Suc (Suc k)" using n by (cases n; cases "n - 1") simp_all
  have t: "text_of (JArray js) depth fmt @ rest = CHR ''['' # ?es @ CHR '']'' # rest" by simp
  have "parse_array (Suc k) fp (CHR ''['' # ?es @ CHR '']'' # rest) = Inr (Inr (item_of (JArray js), rest))"
  proof (cases "js = []")
    case True
    then show ?thesis by (simp add: parse_array.simps deref_def skip_def set_type_def cJSON_New_Item_def)
  next
    case False
    then obtain j js' where js: "js = j # js'" by (cases js) auto
    then obtain x where es: "?es = text_of j (depth + 1) fmt @ x" by (cases js') simp_all
    have "skip (?es @ CHR '']'' # rest) = ?es @ CHR '']'' # rest" "deref (?es @ CHR '']'' # rest) \<noteq> CHR '']''"
      unfolding es append.assoc using text_of_first by simp_all
    moreover have "skip (CHR '']'' # rest) = CHR '']'' # rest" by (simp add: skip_def)
    moreover have "3 * length ?es + 2 \<le> k" using n k by simp
    ultimately show ?thesis using parse_elements_text [OF assms False, of "CHR '']'' # rest" k]
      by (simp add: parse_array.simps deref_def on_parsed_def Let_def)
  qed
  then show "parse_value n fp (text_of (JArray js) depth fmt @ rest) = Inr (Inr (item_of (JArray js), rest))"
    unfolding t k by (subst parse_value_other [where c = "CHR ''[''"]) (simp_all add: deref_def)
qed

lemma reads_object:
  assumes ms: "\<And>n j. (n, j) \<in> set ms \<Longrightarrow> reads j (depth + 1) fmt fp \<and> nul_free n"
    and len: "length (text_of (JObject ms) depth fmt) \<le> MaxAllocSize"
  shows "reads (JObject ms) depth fmt fp"
  unfolding reads_def
proof (intro allI impI)
  fix n rest
  let ?members = "join_text (CHR '','' # newline fmt) (map (member_of (depth + 1) fmt) ms)"
  let ?close = "newline fmt @ indent depth fmt @ CHR ''}'' # rest"
  assume n: "3 * length (text_of (JObject ms) depth fmt) + 1 \<le> n"
  have "3 \<le> n" using n by simp
  then obtain k where k: "n = Suc (Suc k)" by (metis Suc_le_D numeral_3_eq_3 Suc_le_mono)
  have "parse_object (Suc k) fp (text_of (JObject ms) depth fmt @ rest) = Inr (Inr (item_of (JObject ms), rest))"
  proof (cases "ms = []")
    case True
    have "skip (CHR ''}'' # rest) = CHR ''}'' # rest" by (simp add: skip_def)
    then show ?thesis using True
      by (simp add: parse_object.simps deref_def set_type_def cJSON_New_Item_def members_text_def)
  next
    case False
    have members: "members_text (depth + 1) fmt (map (\<lambda>(n, j). (quoted n, text_of j (depth + 1) fmt)) ms) = ?members @ newline fmt"
      using False by (simp add: members_text_def comp_def case_prod_unfold)
    then have t: "text_of (JObject ms) depth fmt @ rest = CHR ''{'' # newline fmt @ ?members @ ?close"
      using False by simp
    have close: "skip ?close = CHR ''}'' # rest" by (simp add: skip_visible deref_def)
    have fuel: "3 * length ?members + 2 \<le> k" using n k members False by simp
    have small: "length ?members \<le> MaxAllocSize" using len members False by simp
    have "parse_members k fp (?members @ ?close) =
        Inr (Inr (map (\<lambda>(n, j). set_string (Some n) (item_of j)) ms, CHR ''}'' # rest))"
      using parse_members_text [OF ms False _ fuel small, of ?close] close by (simp add: deref_def)
    moreover have "parse_members k fp (skip (newline fmt @ ?members @ ?close)) = parse_members k fp (?members @ ?close)"
      by (rule parse_members_skip) (simp add: skip_skip)
    moreover have "deref (skip (newline fmt @ ?members @ ?close)) \<noteq> CHR ''}''"
    proof -
      obtain name j ms' where "ms = (name, j) # ms'" using False by (cases ms) auto
      then obtain x where "?members = member_of (depth + 1) fmt (name, j) @ x" by (cases ms') simp_all
      then have "skip (newline fmt @ ?members @ ?close) = skip (quoted name @ (if fmt then [CHR '':'', CHR 0x09] else '':'')
          @ text_of j (depth + 1) fmt @ x @ ?close)" by (simp add: member_text_def)
      then show ?thesis by (simp only: skip_quoted) (simp add: quoted_def deref_def)
    qed
    ultimately show ?thesis unfolding t by (simp add: parse_object.simps deref_def on_parsed_def Let_def)
  qed
  then show "parse_value n fp (text_of (JObject ms) depth fmt @ rest) = Inr (Inr (item_of (JObject ms), rest))"
    unfolding k by (subst parse_value_other [where c = "CHR ''{''"]) (simp_all add: deref_def)
qed

lemma text_of_array_member:
  assumes "j \<in> set js"
  shows "length (text_of j (depth + 1) fmt) \<le> length (text_of (JArray js) depth fmt)"
proof -
  have "text_of j (depth + 1) fmt \<in> set (map (\<lambda>j. text_of j (depth + 1) fmt) js)" using assms by simp
  from join_length_member [OF this, of "array_sep fmt"] show ?thesis by simp
qed

lemma text_of_object_member:
  assumes "(n, j) \<in> set ms"
  shows "length (text_of j (depth + 1) fmt) \<le> length (text_of (JObject ms) depth fmt)"
proof -
  have "(quoted n, text_of j (depth + 1) fmt) \<in> set (map (\<lambda>(n, j). (quoted n, text_of j (depth + 1) fmt)) ms)"
    using assms by force
  from members_length_member [OF this, of "depth + 1" fmt] show ?thesis by simp
qed

lemma readsI:
  assumes "\<And>n rest. parse_value (Suc n) fp (text_of j depth fmt @ rest) = Inr (Inr (item_of j, rest))"
  shows "reads j depth fmt fp"
  unfolding reads_def
proof (intro allI impI)
  fix n rest assume "3 * length (text_of j depth fmt) + 1 \<le> n"
  then obtain m where "n = Suc m" by (cases n) simp_all
  with assms show "parse_value n fp (text_of j depth fmt @ rest) = Inr (Inr (item_of j, rest))" by simp
qed

lemma reads_text: "json_nul_free j \<Longrightarrow> length (text_of j depth fmt) \<le> MaxAllocSize \<Longrightarrow> reads j depth fmt fp"
proof (induction j arbitrary: depth)
  case (JString s)
  have "parse_value (Suc n) fp (quoted s @ rest) = Inr (Inr (item_of (JString s), rest))" for n rest
    using JString parse_string_quoted [of s rest]
    by (subst parse_value_other [where c = "CHR 0x22"]) (simp_all add: on_parsed_def, simp_all add: quoted_def deref_def)
  then show ?case by (intro readsI) simp
next
  case (JArray js)
  then show ?case using text_of_array_member
    by (intro reads_array) (meson json_nul_free.simps(4) list_all_iff le_trans)
next
  case (JObject ms)
  have "reads j (depth + 1) fmt fp \<and> nul_free n" if nj: "(n, j) \<in> set ms" for n j
  proof -
    have "nul_free n \<and> json_nul_free j" using JObject(2) nj by (auto simp: list_all_iff)
    moreover have "length (text_of j (depth + 1) fmt) \<le> MaxAllocSize"
      using text_of_object_member [OF nj] JObject(3) le_trans by blast
    ultimately show ?thesis using JObject(1) [OF nj] by simp
  qed
  then show ?case using JObject(3) by (rule reads_object)
qed (auto simp: starts_with_def parse_value.simps intro!: readsI)

section \<open>Printing and parsing back\<close>

lemma print_json:
  assumes "sprintf_fits fp" and "json_of item = Some j" and "fits (text_of j 0 fmt)"
  shows "print_value fp item 0 fmt = Inr (Some (text_of j 0 fmt))"
  using print_text(1) [OF assms(1) json_of_text [OF assms(2)] assms(3)] .

lemma text_of_nul_free:
  assumes "json_of (item :: 'r cJSON) = Some j" and "sprintf_fits (fp :: 'r double_ops)"
  shows "nul_free (text_of j depth fmt)"
  using json_text_nul_free [OF assms(2) json_of_text [OF assms(1)]] .

lemma parse_text:
  assumes "json_nul_free j" and "fits (text_of j 0 fmt)" and "nul_free (text_of j 0 fmt)"
  shows "cJSON_ParseWithOpts fp (text_of j 0 fmt) strict = Inr (Inr (item_of j, []))"
proof -
  let ?t = "text_of j 0 fmt"
  have r: "reads j 0 fmt fp" using assms by (intro reads_text) (simp_all add: fits_def)
  have "parse_value (parse_fuel ?t) fp (?t @ []) = Inr (Inr (item_of j, []))"
    by (rule r [unfolded reads_def, rule_format]) (simp add: parse_fuel_def)
  moreover have "skip ?t = ?t" using skip_text_of [of j 0 fmt "[]"] by simp
  ultimately show ?thesis using assms(3)
    by (simp add: cJSON_ParseWithOpts_def on_parsed_def skip_def)
qed

section \<open>Properties of the JSON library\<close>

text \<open>Arithmetic on doubles for the examples: integers, whose text is their decimal digits.\<close>

definition demo_fp :: "int double_ops" where
  "demo_fp =
     \<lparr>fp_of_int = (\<lambda>i. i), fp_add = (+), fp_mul = (*), fp_pow10 = (\<lambda>e. 10 ^ nat e),
      fp_to_int = of_int, fp_is_zero = (\<lambda>d. d = 0), fp_is_int = (\<lambda>n d. sint n = d),
      fp_is_whole = (\<lambda>_. False), fp_needs_exponent = (\<lambda>_. True),
      fp_sprintf_0f = (\<lambda>_. ''0''), fp_sprintf_e = (\<lambda>_. ''1e+10''), fp_sprintf_f = (\<lambda>_. ''0.5'')\<rparr>"

lemma demo_fp_fits: "sprintf_fits demo_fp"
  by (simp add: sprintf_fits_def demo_fp_def)

text \<open>\<^verbatim>\<open>cJSON_Print\<close> measures, allocates and fills: whenever the text of the item
  takes less than half of the allocation limit, it returns exactly that text and writes nowhere
  outside the buffers it allocated, at every nesting depth.\<close>

theorem cJSON_Print_writes_text:
  assumes "sprintf_fits fp" and "json_text fp item 0 True = Some t" and "fits t"
  shows "cJSON_Print fp item = Inr (Some t)"
  using print_text(1) [OF assms] by (simp add: cJSON_Print_def)

definition demo_item :: "int cJSON" where
  "demo_item = CJSON (node (set_type cJSON_Object cJSON_New_Item))
     [set_string (Some ''op'') (CJSON \<lparr>cj_type = cJSON_String, valuestring = Some ''I'', valueint = 0, valuedouble = 0, cj_string = None\<rparr> []),
      set_string (Some ''n'') (CJSON \<lparr>cj_type = cJSON_Number, valuestring = None, valueint = 7, valuedouble = 7, cj_string = None\<rparr> [])]"

abbreviation demo_item_text :: cstring where
  "demo_item_text \<equiv>
     [CHR ''{'', CHR 0x0A, CHR 0x09, CHR 0x22, CHR ''o'', CHR ''p'', CHR 0x22, CHR '':'', CHR 0x09,
      CHR 0x22, CHR ''I'', CHR 0x22, CHR '','', CHR 0x0A, CHR 0x09, CHR 0x22, CHR ''n'', CHR 0x22, CHR '':'',
      CHR 0x09, CHR ''7'', CHR 0x0A, CHR ''}'']"

theorem cJSON_Print_writes_text_witness:
  "cJSON_Print demo_fp demo_item = Inr (Some demo_item_text)"
proof (rule cJSON_Print_writes_text [OF demo_fp_fits])
  show "json_text demo_fp demo_item 0 True = Some demo_item_text"
    by (simp add: demo_item_def json_text.simps set_type_def set_string_def cJSON_New_Item_def demo_fp_def
        number_text_def show_int_def show_nat.simps quoted_def escape_char_def members_text_def member_text_def
        newline_def indent_def repeat_tab_def c_str_def char_of_def bit_Suc bit_0)
qed (simp add: fits_def MaxAllocSize_def)

text \<open>Claim C34. Printing and parsing are inverse: an item without numbers prints, formatted or not, to a
  text that the strict parser accepts as a whole, and the parsed item stands for the same value,
  escapes included.\<close>

theorem cJSON_print_parse:
  assumes "sprintf_fits fp" and "json_of item = Some j" and "fits (text_of j 0 fmt)"
  shows "\<exists>t item'. (if fmt then cJSON_Print fp item else cJSON_PrintUnformatted fp item) = Inr (Some t) \<and>
    cJSON_ParseWithOpts fp t True = Inr (Inr (item', [])) \<and> json_of item' = Some j"
proof -
  let ?t = "text_of j 0 fmt"
  have "(if fmt then cJSON_Print fp item else cJSON_PrintUnformatted fp item) = Inr (Some ?t)"
    using print_json [OF assms] by (cases fmt) (simp_all add: cJSON_Print_def cJSON_PrintUnformatted_def)
  moreover have "cJSON_ParseWithOpts fp ?t True = Inr (Inr (item_of j, []))"
    by (rule parse_text [OF json_of_nul_free [OF assms(2)] assms(3) text_of_nul_free [OF assms(2,1)]])
  moreover have "json_of (item_of j) = Some j" by (rule json_of_item_of [OF json_of_nul_free [OF assms(2)]])
  ultimately show ?thesis by blast
qed

theorem cJSON_print_parse_witness:
  "\<exists>t item'. cJSON_Print demo_fp (item_of (JArray [JString [CHR 0x22, CHR 0x01], JNull])) = Inr (Some t) \<and>
     cJSON_ParseWithOpts demo_fp t True = Inr (Inr (item', [])) \<and>
     json_of item' = Some (JArray [JString [CHR 0x22, CHR 0x01], JNull])"
  using cJSON_print_parse [OF demo_fp_fits json_of_item_of, of "JArray [JString [CHR 0x22, CHR 0x01], JNull]" True]
  by (simp add: fits_def MaxAllocSize_def quoted_def escape_char_def show_hex4_def)

lemma casecmp_refl: "casecmp_loop s s = 0"
  by (induction s) auto

text \<open>A member that was added to an object is found under its name, without regard to case,
  unless an earlier member has that name.\<close>

lemma cJSON_add_get:
  assumes "cJSON_GetObjectItem object (Some name) = None" and "nul_free name"
    and "cJSON_AddItemToObject object (Some name) (Some item) = Inr object'"
  shows "cJSON_GetObjectItem object' (Some name) = Some (set_string (Some name) item)"
proof -
  have "object' = CJSON (node object) (child object @ [set_string (Some name) item])"
    using assms(2,3) by (simp add: cJSON_AddItemToObject_def cJSON_strdup_def cJSON_AddItemToArray_def)
  moreover have "find P (xs @ [y]) = (case find P xs of None \<Rightarrow> if P y then Some y else None | Some z \<Rightarrow> Some z)"
    for P :: "'a cJSON \<Rightarrow> bool" and xs y by (induction xs) auto
  ultimately show ?thesis using assms(1)
    by (simp add: cJSON_GetObjectItem_def cJSON_strcasecmp_def casecmp_refl)
qed

text \<open>Detaching the element at a position and inserting it there again restores the array.\<close>

lemma cJSON_detach_insert:
  assumes "0 \<le> i" and "nat i < cJSON_GetArraySize array"
  shows "\<exists>item rest. cJSON_DetachItemFromArray array i = (Some item, rest) \<and>
    cJSON_GetArrayItem array i = Some item \<and> cJSON_GetArraySize rest = cJSON_GetArraySize array - 1 \<and>
    cJSON_InsertItemInArray rest i item = array"
proof -
  let ?cs = "child array" and ?i = "nat i"
  have i: "?i < length ?cs" using assms(2) by (simp add: cJSON_GetArraySize_def)
  let ?rest = "CJSON (node array) (take ?i ?cs @ drop (Suc ?i) ?cs)"
  have "take ?i ?cs @ ?cs ! ?i # drop (Suc ?i) ?cs = ?cs" using i by (rule id_take_nth_drop [symmetric])
  then have "cJSON_InsertItemInArray ?rest i (?cs ! ?i) = array"
    using i by (cases "Suc ?i < length ?cs")
      (auto simp: cJSON_InsertItemInArray_def cJSON_AddItemToArray_def Let_def min_def cJSON.expand)
  then show ?thesis using i
    by (intro exI [of _ ?rest] exI [of _ "?cs ! ?i"])
      (auto simp: cJSON_DetachItemFromArray_def cJSON_GetArrayItem_def cJSON_GetArraySize_def Let_def)
qed

end
