(* ===== verification/KafkaProducer.thy ===== *)
theory KafkaProducer
  imports StringInfo "HOL-Library.Sublist"
begin

text \<open>
  The Kafka producer of \<^verbatim>\<open>src/backend/utils/adt/kafka.c\<close>: finding the database name
  in a connection string, configuring the client, and the counted, flushing send. The client
  library librdkafka is outside the repository: its calls are the fields of a parameter record
  over an unknown state, and the server's configuration parameters are a lookup function.
\<close>

section \<open>Database name of a connection string\<close>

text \<open>\<^verbatim>\<open>strstr\<close>: the text from the first occurrence on.\<close>

fun strstr :: "cstring \<Rightarrow> cstring \<Rightarrow> cstring option" where
  "strstr [] key = (if key = [] then Some [] else None)"
| "strstr (c # s) key = (if take (length key) (c # s) = key then Some (c # s) else strstr s key)"

definition is_blank :: "byte \<Rightarrow> bool" where
  "is_blank c \<longleftrightarrow> c \<in> {CHR 0x20, CHR 0x09, CHR 0x0A, CHR 0x0D}"

definition get_dbname_from_conninfo :: "cstring \<Rightarrow> cell list \<Rightarrow> int \<Rightarrow> cell list res" where
  "get_dbname_from_conninfo conninfo0 out_dbname max_len =
     (let conninfo = c_str conninfo0 in
      bindR (if max_len < 0 then Inl (Undefined OutOfBounds)
             else mem_write out_dbname 0 (replicate (nat max_len) NUL)) (\<lambda>out_dbname.
      case strstr conninfo ''dbname='' of
        None \<Rightarrow> Inr out_dbname
      | Some start0 \<Rightarrow>
          let start = drop 7 start0;
              len = length (takeWhile (\<lambda>c. \<not> is_blank c) start);
              len = (if int len \<ge> max_len then max_len - 1 else int len)
          in if len < 0 then Inl (Undefined OutOfBounds)
             else mem_write out_dbname 0 (take (nat len) start)))"

section \<open>The client library\<close>

type_synonym conf = "(string \<times> string option) list"

record ('w, 'rk, 'rkt) rdkafka =
  conf_accepts :: "string \<Rightarrow> string option \<Rightarrow> bool"
  rd_kafka_conf_new :: bool
  rd_kafka_new :: "'w \<Rightarrow> conf \<Rightarrow> 'rk option \<times> 'w"
  rd_kafka_topic_new :: "'w \<Rightarrow> 'rk \<Rightarrow> string \<Rightarrow> 'rkt option \<times> 'w"
  rd_kafka_produce :: "'w \<Rightarrow> 'rkt \<Rightarrow> byte list \<Rightarrow> int \<times> 'w"
  rd_kafka_flush :: "'w \<Rightarrow> 'rk \<Rightarrow> int \<Rightarrow> int \<times> 'w"
  rd_kafka_poll :: "'w \<Rightarrow> 'rk \<Rightarrow> int \<Rightarrow> 'w"
  rd_kafka_topic_destroy :: "'w \<Rightarrow> 'rkt \<Rightarrow> 'w"
  rd_kafka_destroy :: "'w \<Rightarrow> 'rk \<Rightarrow> 'w"

abbreviation RD_KAFKA_RESP_ERR__QUEUE_FULL :: int where "RD_KAFKA_RESP_ERR__QUEUE_FULL \<equiv> - 184"
abbreviation RD_KAFKA_RESP_ERR_NO_ERROR :: int where "RD_KAFKA_RESP_ERR_NO_ERROR \<equiv> 0"

text \<open>
  The static counters of the file, the state of the client library, and the server log (newest
  last).
\<close>

record 'w kafka_state =
  message_count :: int
  max_message_count :: int
  local_memory_usage :: int
  max_memory_kbytes :: int
  client :: 'w
  server_log :: "string list"

definition elog :: "string \<Rightarrow> 'w kafka_state \<Rightarrow> 'w kafka_state" where
  "elog msg st = st\<lparr>server_log := server_log st @ [msg]\<rparr>"

section \<open>Configuration\<close>

type_synonym guc = "string \<Rightarrow> string option"

text \<open>\<^verbatim>\<open>atoi\<close>: white space, a sign, digits.\<close>

definition atoi :: "string option \<Rightarrow> int res" where
  "atoi str = (case str of None \<Rightarrow> Inl (Undefined NullPointer)
     | Some s \<Rightarrow>
         let t = dropWhile (\<lambda>c. c = CHR 0x20 \<or> (9 \<le> uchar c \<and> uchar c \<le> 13)) s;
             neg = (t \<noteq> [] \<and> hd t = CHR ''-'');
             digits = takeWhile (\<lambda>c. 48 \<le> uchar c \<and> uchar c \<le> 57)
                        (if t \<noteq> [] \<and> (hd t = CHR ''-'' \<or> hd t = CHR ''+'') then tl t else t);
             n = foldl (\<lambda>n c. n * 10 + (int (uchar c) - 48)) 0 digits
         in Inr (c_int (if neg then - n else n)))"

text \<open>\<^verbatim>\<open>rd_kafka_conf_set\<close>: a refused setting leaves the configuration as it was.\<close>

definition rd_kafka_conf_set :: "('w, 'rk, 'rkt) rdkafka \<Rightarrow> string \<Rightarrow> string option \<Rightarrow> conf \<Rightarrow> conf" where
  "rd_kafka_conf_set lib name value conf =
     (if conf_accepts lib name value then conf @ [(name, value)] else conf)"

definition set_nonempty :: "('w, 'rk, 'rkt) rdkafka \<Rightarrow> guc \<Rightarrow> string \<Rightarrow> string \<Rightarrow> conf \<Rightarrow> conf" where
  "set_nonempty lib guc name option_name conf =
     (case guc option_name of None \<Rightarrow> conf
      | Some v \<Rightarrow> if v \<noteq> [] then rd_kafka_conf_set lib name (Some v) conf else conf)"

definition performance_settings :: "guc \<Rightarrow> conf" where
  "performance_settings guc =
    [(''message.max.bytes'', Some ''1000000000''),
     (''queue.buffering.max.messages'', guc ''kafka_queue_buffering_max_messages''),
     (''queue.buffering.max.kbytes'', guc ''kafka_queue_buffering_max_kbytes''),
     (''batch.num.messages'', guc ''kafka_batch_num_messages''),
     (''queue.enqueue.timeout.ms'', guc ''kafka_queue_enqueue_timeout_ms''),
     (''message.timeout.ms'', guc ''kafka_message_timeout_ms''),
     (''retries'', guc ''kafka_retries''),
     (''retry.backoff.ms'', guc ''kafka_retry_backoff_ms''),
     (''socket.send.buffer.bytes'', guc ''kafka_socket_send_buffer_bytes''),
     (''socket.receive.buffer.bytes'', guc ''kafka_socket_receive_buffer_bytes''),
     (''socket.connection.setup.timeout.ms'', guc ''kafka_socket_connection_setup_timeout_ms''),
     (''metadata.max.age.ms'', guc ''kafka_metadata_max_age_ms''),
     (''compression.codec'', guc ''kafka_compression_codec''),
     (''compression.level'', guc ''kafka_compression_level''),
     (''enable.idempotence'', Some ''true'')]"

definition base_settings :: "guc \<Rightarrow> conf" where
  "base_settings guc =
    [(''client.id'', guc ''kafka_client_id''),
     (''log_level'', guc ''kafka_log_level''),
     (''debug'', guc ''kafka_debug'')]"

definition set_all :: "('w, 'rk, 'rkt) rdkafka \<Rightarrow> conf \<Rightarrow> conf \<Rightarrow> conf" where
  "set_all lib settings conf = foldl (\<lambda>conf (name, value). rd_kafka_conf_set lib name value conf) conf settings"

definition is_ssl_protocol :: "guc \<Rightarrow> bool" where
  "is_ssl_protocol guc \<longleftrightarrow> guc ''kafka_security_protocol'' \<in> {Some ''SSL'', Some ''SASL_SSL''}"

definition is_sasl_protocol :: "guc \<Rightarrow> bool" where
  "is_sasl_protocol guc \<longleftrightarrow> guc ''kafka_security_protocol'' \<in> {Some ''SASL_PLAINTEXT'', Some ''SASL_SSL''}"

definition needs_auth :: "string \<Rightarrow> bool" where
  "needs_auth mechanism \<longleftrightarrow> mechanism = ''PLAIN'' \<or> take 5 mechanism = ''SCRAM''"

definition security_conf :: "('w, 'rk, 'rkt) rdkafka \<Rightarrow> guc \<Rightarrow> conf \<Rightarrow> conf" where
  "security_conf lib guc conf =
     (let conf = (case guc ''kafka_security_protocol'' of None \<Rightarrow> conf
            | Some p \<Rightarrow> if p \<noteq> []
                then rd_kafka_conf_set lib ''enable.ssl.certificate.verification''
                       (guc ''kafka_enable_ssl_certificate_verification'')
                       (rd_kafka_conf_set lib ''security.protocol'' (Some p) conf)
                else conf);
          conf = (if is_ssl_protocol guc then
              set_nonempty lib guc ''ssl.endpoint.identification.algorithm'' ''kafka_ssl_endpoint_identification_algorithm''
             (set_nonempty lib guc ''ssl.ca.location'' ''kafka_ssl_ca_location''
             (set_nonempty lib guc ''ssl.certificate.location'' ''kafka_ssl_certificate_location''
             (set_nonempty lib guc ''ssl.key.password'' ''kafka_ssl_key_password''
             (set_nonempty lib guc ''ssl.key.location'' ''kafka_ssl_key_location''
             (set_nonempty lib guc ''ssl.cipher.suites'' ''kafka_ssl_cipher_suites'' conf)))))
            else conf)
      in if is_sasl_protocol guc then
           (case guc ''kafka_sasl_mechanism'' of None \<Rightarrow> conf
            | Some m \<Rightarrow> if m = [] then conf
                else let conf = rd_kafka_conf_set lib ''sasl.mechanism'' (Some m) conf in
                  if needs_auth m
                  then set_nonempty lib guc ''sasl.password'' ''kafka_sasl_password''
                         (set_nonempty lib guc ''sasl.username'' ''kafka_sasl_username'' conf)
                  else conf)
         else conf)"

text \<open>
  The result: the C return value with the two handles, or the error of an
  \<^verbatim>\<open>ereport(ERROR)\<close>.
\<close>

definition kafka_conf :: "('w, 'rk, 'rkt) rdkafka \<Rightarrow> guc \<Rightarrow> conf" where
  "kafka_conf lib guc =
     set_all lib (base_settings guc) (security_conf lib guc (set_all lib (performance_settings guc) []))"

definition kafka_init ::
    "('w, 'rk, 'rkt) rdkafka \<Rightarrow> guc \<Rightarrow> 'rk option \<Rightarrow> 'rkt option \<Rightarrow> string option \<Rightarrow> string option \<Rightarrow> 'w kafka_state \<Rightarrow>
     (int \<times> 'rk option \<times> 'rkt option \<times> 'w kafka_state) res" where
  "kafka_init lib guc apply_g_rk apply_g_rkt brokers topic st =
     (case (brokers, topic) of
        (Some brokers, Some topic) \<Rightarrow>
          if \<not> rd_kafka_conf_new lib
          then Inr (-1, apply_g_rk, apply_g_rkt, elog ''ERROR: Failed to create Kafka config'' st)
          else
          bindR (atoi (guc ''kafka_queue_buffering_max_messages'')) (\<lambda>max_messages.
          bindR (atoi (guc ''kafka_queue_buffering_max_kbytes'')) (\<lambda>max_kbytes.
          let st = st\<lparr>max_message_count := max_messages, max_memory_kbytes := max_kbytes\<rparr>;
              conf = kafka_conf lib guc
          in if \<not> conf_accepts lib ''bootstrap.servers'' (Some brokers)
             then Inr (-1, apply_g_rk, apply_g_rkt, elog ''ERROR: Config set fail'' st)
             else
               let conf = rd_kafka_conf_set lib ''bootstrap.servers'' (Some brokers) conf in
               case rd_kafka_new lib (client st) conf of
                 (None, w) \<Rightarrow> Inl (PgError ''ERROR: New producer fail'')
               | (Some rk, w) \<Rightarrow>
                   (case rd_kafka_topic_new lib w rk topic of
                      (None, w) \<Rightarrow> Inl (PgError ''Kafka topic creation failed'')
                    | (Some rkt, w) \<Rightarrow>
                        Inr (0, Some rk, Some rkt, elog ''SUCCESS'' (st\<lparr>client := w\<rparr>)))))
      | _ \<Rightarrow> Inr (-1, apply_g_rk, apply_g_rkt, elog ''ERROR: Invalid parameters passed to kafka_init'' st))"

definition kafka_close_copy ::
    "('w, 'rk, 'rkt) rdkafka \<Rightarrow> 'rk option \<Rightarrow> 'rkt option \<Rightarrow> 'w kafka_state \<Rightarrow>
     'rk option \<times> 'rkt option \<times> 'w kafka_state" where
  "kafka_close_copy lib rk rkt st =
     (let w = (case rkt of None \<Rightarrow> client st | Some t \<Rightarrow> rd_kafka_topic_destroy lib (client st) t);
          w = (case rk of None \<Rightarrow> w | Some k \<Rightarrow> rd_kafka_destroy lib (snd (rd_kafka_flush lib w k 5000)) k)
      in (None, None,
          elog ''SUCCESS: Kafka COPY'' (st\<lparr>client := w, message_count := 0, local_memory_usage := 0\<rparr>)))"

section \<open>Sending\<close>

abbreviation MAX_RETRY_ATTEMPTS :: nat where "MAX_RETRY_ATTEMPTS \<equiv> 10"

text \<open>The \<^verbatim>\<open>do ... while\<close> loop; the result says whether the message was enqueued.\<close>

function produce_loop ::
    "('w, 'rk, 'rkt) rdkafka \<Rightarrow> 'rk \<Rightarrow> 'rkt \<Rightarrow> byte list \<Rightarrow> nat \<Rightarrow> 'w kafka_state \<Rightarrow> (bool \<times> 'w kafka_state) res" where
  "produce_loop lib rk rkt msg retries st =
     (let (err, w) = rd_kafka_produce lib (client st) rkt msg; st = st\<lparr>client := w\<rparr> in
      if err = RD_KAFKA_RESP_ERR__QUEUE_FULL then
        (let st = elog ''Kafka internal queue full, forcing flush...'' st;
             w = rd_kafka_poll lib (snd (rd_kafka_flush lib (client st) rk 2000)) rk 100;
             st = st\<lparr>client := w, message_count := 0\<rparr>
         in if Suc retries > MAX_RETRY_ATTEMPTS
            then Inl (PgError ''Failed to send after forced flushes. Aborting.'')
            else produce_loop lib rk rkt msg (Suc retries) st)
      else if err \<noteq> RD_KAFKA_RESP_ERR_NO_ERROR then Inr (False, elog ''Produce failed'' st)
      else Inr (True, st))"
  by pat_completeness auto

termination
  by (relation "measure (\<lambda>(lib, rk, rkt, msg, retries, st). 10 - retries)") auto

declare produce_loop.simps [simp del]

definition over_limit :: "'w kafka_state \<Rightarrow> int \<Rightarrow> bool" where
  "over_limit st estimated_size \<longleftrightarrow>
     message_count st \<ge> max_message_count st \<or>
     c_longlong (local_memory_usage st + estimated_size) \<ge> max_memory_kbytes st * 1024"

definition count_message ::
    "('w, 'rk, 'rkt) rdkafka \<Rightarrow> 'rk \<Rightarrow> int \<Rightarrow> 'w kafka_state \<Rightarrow> 'w kafka_state" where
  "count_message lib rk estimated_size st =
     (let st = st\<lparr>message_count := c_int (message_count st + 1),
                  local_memory_usage := c_longlong (local_memory_usage st + estimated_size)\<rparr>
      in if message_count st mod 10 = 0 then st\<lparr>client := rd_kafka_poll lib (client st) rk 0\<rparr> else st)"

definition kafka_send_optimized ::
    "('w, 'rk, 'rkt) rdkafka \<Rightarrow> byte list option \<Rightarrow> 'rk option \<Rightarrow> 'rkt option \<Rightarrow> 'w kafka_state \<Rightarrow>
     'w kafka_state res" where
  "kafka_send_optimized lib msg rk rkt st =
     (case (rk, rkt, msg) of
        (Some rk, Some rkt, Some msg0) \<Rightarrow>
          let msg = c_str msg0;
              estimated_size = c_int (c_int (int (length msg)) + 100);
              st = (if over_limit st estimated_size
                    then (let (result, w) = rd_kafka_flush lib (client st) rk 1000;
                              st = st\<lparr>client := w, message_count := 0\<rparr>
                          in if result \<noteq> 0
                             then elog ''Kafka queue is full, forced flush timed out. Proceeding with risk.'' st
                             else st)
                    else st)
          in bindR (produce_loop lib rk rkt msg 0 st) (\<lambda>(sent, st).
             Inr (if sent then count_message lib rk estimated_size st else st))
      | _ \<Rightarrow> Inr (elog ''ERROR: Invalid parameters'' st))"

section \<open>The database name\<close>

text \<open>The value behind the first \<^verbatim>\<open>dbname=\<close>, up to white space.\<close>

definition conninfo_dbname :: "cstring \<Rightarrow> cstring" where
  "conninfo_dbname conninfo =
     (case strstr conninfo ''dbname='' of None \<Rightarrow> []
      | Some start \<Rightarrow> takeWhile (\<lambda>c. \<not> is_blank c) (drop 7 start))"

lemma strstr_suffix: "strstr s key = Some t \<Longrightarrow> \<exists>pre. s = pre @ t"
proof (induction s arbitrary: t)
  case (Cons c s)
  then show ?case by (auto split: if_splits)
qed (auto split: if_splits)

lemma strstr_key: "strstr s key = Some t \<Longrightarrow> take (length key) t = key"
  by (induction s) (auto split: if_splits)

lemma conninfo_dbname_short:
  assumes "conninfo \<noteq> []"
  shows "length (conninfo_dbname conninfo) < length conninfo"
proof (cases "strstr conninfo ''dbname=''")
  case (Some start)
  then obtain pre where "conninfo = pre @ start" using strstr_suffix by blast
  moreover have "7 \<le> length start" using strstr_key [OF Some] by (cases "7 \<le> length start") auto
  moreover have "length (takeWhile (\<lambda>c. \<not> is_blank c) (drop 7 start)) \<le> length (drop 7 start)"
    by (rule length_takeWhile_le)
  ultimately show ?thesis using Some by (simp add: conninfo_dbname_def)
qed (use assms in \<open>simp add: conninfo_dbname_def\<close>)

lemma nul_free_conninfo_dbname: "nul_free conninfo \<Longrightarrow> nul_free (conninfo_dbname conninfo)"
proof (cases "strstr conninfo ''dbname=''")
  case (Some start)
  assume nf: "nul_free conninfo"
  obtain pre where "conninfo = pre @ start" using strstr_suffix [OF Some] by blast
  with nf have "NUL \<notin> set start" by (simp add: nul_free_def)
  then show ?thesis using Some
    by (auto simp: conninfo_dbname_def nul_free_def dest!: set_takeWhileD in_set_dropD)
qed (simp add: conninfo_dbname_def)

lemma get_dbname_ok:
  assumes "nul_free conninfo" and "conninfo \<noteq> []" and "length conninfo \<le> length buf"
  obtains buf' where "get_dbname_from_conninfo conninfo buf (int (length conninfo)) = Inr buf'"
    and "string_at buf' = Inr (conninfo_dbname conninfo)" and "length buf' = length buf"
proof -
  let ?n = "length conninfo" and ?db = "conninfo_dbname conninfo"
  let ?zero = "replicate ?n (Some NUL) @ drop ?n buf"
  let ?buf' = "map Some ?db @ drop (length ?db) ?zero"
  have short: "length ?db < ?n" by (rule conninfo_dbname_short [OF assms(2)])
  have zero: "mem_write buf 0 (replicate ?n NUL) = Inr ?zero" using assms(3) by (simp add: mem_write_def)
  have db: "mem_write ?zero 0 ?db = Inr ?buf'" using short by (simp add: mem_write_def)
  have "get_dbname_from_conninfo conninfo buf (int ?n) = Inr ?buf'"
  proof (cases "strstr conninfo ''dbname=''")
    case None
    then show ?thesis using assms(1) zero by (simp add: get_dbname_from_conninfo_def conninfo_dbname_def)
  next
    case (Some start)
    have "take (length ?db) (drop 7 start) = ?db"
      using Some by (simp add: conninfo_dbname_def takeWhile_eq_take [symmetric])
    then show ?thesis using Some assms(1) zero db short
      by (simp add: get_dbname_from_conninfo_def conninfo_dbname_def Let_def)
  qed
  moreover have "string_at ?buf' = Inr ?db"
    using short nul_free_conninfo_dbname [OF assms(1)]
    by (intro string_at_prefix) (auto simp: drop_replicate take_Cons' Suc_diff_le)
  moreover have "length ?buf' = length buf" using short assms(3) by simp
  ultimately show thesis by (rule that)
qed

lemma get_dbname_overflow:
  "nul_free conninfo \<Longrightarrow> length buf < length conninfo \<Longrightarrow>
   get_dbname_from_conninfo conninfo buf (int (length conninfo)) = Inl (Undefined OutOfBounds)"
  by (simp add: get_dbname_from_conninfo_def mem_write_def)

section \<open>Sending\<close>

text \<open>
  What the client library documents: \<^verbatim>\<open>rd_kafka_produce\<close> returns 0 when it has copied
  the message to its queue and -1 when it has not (the reason is in
  \<^verbatim>\<open>rd_kafka_last_error()\<close>); flushing and polling neither add nor remove accepted
  messages. \<open>accepted\<close> observes the messages accepted so far.
\<close>

definition client_contract :: "('w, 'rk, 'rkt) rdkafka \<Rightarrow> ('w \<Rightarrow> byte list list) \<Rightarrow> bool" where
  "client_contract lib accepted \<longleftrightarrow>
     (\<forall>w rkt m. fst (rd_kafka_produce lib w rkt m) \<in> {0, -1} \<and>
        accepted (snd (rd_kafka_produce lib w rkt m)) =
          accepted w @ (if fst (rd_kafka_produce lib w rkt m) = 0 then [m] else [])) \<and>
     (\<forall>w rk ms. accepted (snd (rd_kafka_flush lib w rk ms)) = accepted w) \<and>
     (\<forall>w rk ms. accepted (rd_kafka_poll lib w rk ms) = accepted w)"

lemma client_contract_produce:
  assumes "client_contract lib accepted" and p: "rd_kafka_produce lib w rkt m = (err, w')"
  shows "err \<in> {0, -1}" and "accepted w' = accepted w @ (if err = 0 then [m] else [])"
proof -
  have "fst (rd_kafka_produce lib w rkt m) \<in> {0, -1} \<and> accepted (snd (rd_kafka_produce lib w rkt m)) =
      accepted w @ (if fst (rd_kafka_produce lib w rkt m) = 0 then [m] else [])"
    using assms(1) unfolding client_contract_def by blast
  then show "err \<in> {0, -1}" "accepted w' = accepted w @ (if err = 0 then [m] else [])" unfolding p by simp_all
qed

lemma client_contract_flush:
  assumes "client_contract lib accepted" and f: "rd_kafka_flush lib w rk ms = (r, w')"
  shows "accepted w' = accepted w"
proof -
  have "accepted (snd (rd_kafka_flush lib w rk ms)) = accepted w"
    using assms(1) unfolding client_contract_def by blast
  then show ?thesis unfolding f by simp
qed

text \<open>The flush in front of a send that would pass the limits.\<close>

definition flushed_before ::
    "('w, 'rk, 'rkt) rdkafka \<Rightarrow> 'rk \<Rightarrow> int \<Rightarrow> 'w kafka_state \<Rightarrow> 'w kafka_state" where
  "flushed_before lib rk estimated_size st =
     (if over_limit st estimated_size
      then (let (result, w) = rd_kafka_flush lib (client st) rk 1000;
                st = st\<lparr>client := w, message_count := 0\<rparr>
            in if result \<noteq> 0
               then elog ''Kafka queue is full, forced flush timed out. Proceeding with risk.'' st
               else st)
      else st)"

lemma kafka_send_eq:
  "kafka_send_optimized lib (Some msg) (Some rk) (Some rkt) st =
     (let est = c_int (c_int (int (length (c_str msg))) + 100) in
      bindR (produce_loop lib rk rkt (c_str msg) 0 (flushed_before lib rk est st))
        (\<lambda>(sent, st). Inr (if sent then count_message lib rk est st else st)))"
  by (simp add: kafka_send_optimized_def flushed_before_def Let_def)

lemma flushed_before_simps [simp]:
  "local_memory_usage (flushed_before lib rk est st) = local_memory_usage st"
  "max_memory_kbytes (flushed_before lib rk est st) = max_memory_kbytes st"
  "max_message_count (flushed_before lib rk est st) = max_message_count st"
  "message_count (flushed_before lib rk est st) = (if over_limit st est then 0 else message_count st)"
  by (auto simp: flushed_before_def elog_def Let_def split: prod.splits)

lemma flushed_before_accepted:
  "client_contract lib accepted \<Longrightarrow> accepted (client (flushed_before lib rk est st)) = accepted (client st)"
proof -
  assume c: "client_contract lib accepted"
  obtain r w where f: "rd_kafka_flush lib (client st) rk 1000 = (r, w)" by force
  then have "accepted w = accepted (client st)" by (rule client_contract_flush [OF c])
  then show ?thesis using f by (simp add: flushed_before_def elog_def Let_def)
qed

lemma produce_once:
  assumes "client_contract lib accepted"
  shows "produce_loop lib rk rkt msg 0 st =
    (case rd_kafka_produce lib (client st) rkt msg of (err, w) \<Rightarrow>
       if err = 0 then Inr (True, st\<lparr>client := w\<rparr>)
       else Inr (False, elog ''Produce failed'' (st\<lparr>client := w\<rparr>)))"
proof -
  have "fst (rd_kafka_produce lib (client st) rkt msg) \<in> {0, -1}" using assms by (simp add: client_contract_def)
  then show ?thesis by (subst produce_loop.simps) (auto split: prod.splits)
qed

lemma count_message_simps [simp]:
  "message_count (count_message lib rk est st) = c_int (message_count st + 1)"
  "local_memory_usage (count_message lib rk est st) = c_longlong (local_memory_usage st + est)"
  "max_memory_kbytes (count_message lib rk est st) = max_memory_kbytes st"
  "max_message_count (count_message lib rk est st) = max_message_count st"
  "server_log (count_message lib rk est st) = server_log st"
  by (simp_all add: count_message_def Let_def)

lemma count_message_accepted:
  "client_contract lib accepted \<Longrightarrow> accepted (client (count_message lib rk est st)) = accepted (client st)"
  by (simp add: count_message_def Let_def client_contract_def)

text \<open>One send: the message joins the accepted ones, or it is dropped with a line in the log.\<close>

lemma kafka_send_cases:
  fixes msg :: "byte list" and rk :: 'rk and rkt :: 'rkt and st :: "'w kafka_state"
    and lib :: "('w, 'rk, 'rkt) rdkafka"
  assumes c: "client_contract lib accepted"
  defines "est \<equiv> c_int (c_int (int (length (c_str msg))) + 100)"
  defines "st1 \<equiv> flushed_before lib rk est st"
  obtains (sent) st' where "kafka_send_optimized lib (Some msg) (Some rk) (Some rkt) st = Inr st'"
      and "accepted (client st') = accepted (client st) @ [c_str msg]"
      and "server_log st' = server_log st1"
      and "message_count st' = c_int (message_count st1 + 1)"
      and "local_memory_usage st' = c_longlong (local_memory_usage st + est)"
      and "max_memory_kbytes st' = max_memory_kbytes st" and "max_message_count st' = max_message_count st"
  | (dropped) st' where "kafka_send_optimized lib (Some msg) (Some rk) (Some rkt) st = Inr st'"
      and "accepted (client st') = accepted (client st)"
      and "fst (rd_kafka_produce lib (client st1) rkt (c_str msg)) = -1"
      and "server_log st' = server_log st1 @ [''Produce failed'']"
      and "message_count st' = message_count st1" and "local_memory_usage st' = local_memory_usage st"
      and "max_memory_kbytes st' = max_memory_kbytes st" and "max_message_count st' = max_message_count st"
proof -
  obtain err w where p: "rd_kafka_produce lib (client st1) rkt (c_str msg) = (err, w)" by force
  have err: "err = 0 \<or> err = -1" "accepted w = accepted (client st1) @ (if err = 0 then [c_str msg] else [])"
    using client_contract_produce [OF c p] by auto
  have st1: "accepted (client st1) = accepted (client st)"
    unfolding st1_def by (rule flushed_before_accepted [OF c])
  note send = kafka_send_eq [of lib msg rk rkt st, folded est_def, unfolded Let_def, folded st1_def]
  show thesis
  proof (cases "err = 0")
    case True
    let ?st = "count_message lib rk est (st1\<lparr>client := w\<rparr>)"
    have "kafka_send_optimized lib (Some msg) (Some rk) (Some rkt) st = Inr ?st"
      using True p by (simp add: send produce_once [OF c] est_def)
    then show thesis using True err st1 count_message_accepted [OF c, of rk est "st1\<lparr>client := w\<rparr>"]
      by (intro sent [of ?st]) (simp_all add: st1_def)
  next
    case False
    let ?st = "elog ''Produce failed'' (st1\<lparr>client := w\<rparr>)"
    have "kafka_send_optimized lib (Some msg) (Some rk) (Some rkt) st = Inr ?st"
      using False p by (simp add: send produce_once [OF c])
    then show thesis using False err st1 p by (intro dropped [of ?st]) (simp_all add: st1_def elog_def)
  qed
qed

section \<open>Properties of the producer\<close>

text \<open>A client for the examples: a queue of bounded size that nothing drains.\<close>

definition demo_client :: "nat \<Rightarrow> (byte list list, unit, unit) rdkafka" where
  "demo_client capacity =
     \<lparr>conf_accepts = (\<lambda>name value. value \<noteq> None), rd_kafka_conf_new = True,
      rd_kafka_new = (\<lambda>w conf. (Some (), w)), rd_kafka_topic_new = (\<lambda>w rk topic. (Some (), w)),
      rd_kafka_produce = (\<lambda>w rkt m. if length w < capacity then (0, w @ [m]) else (- 1, w)),
      rd_kafka_flush = (\<lambda>w rk ms. (- 185, w)), rd_kafka_poll = (\<lambda>w rk ms. w),
      rd_kafka_topic_destroy = (\<lambda>w rkt. w), rd_kafka_destroy = (\<lambda>w rk. w)\<rparr>"

lemma demo_client_contract: "client_contract (demo_client capacity) (\<lambda>w. w)"
  by (simp add: client_contract_def demo_client_def)

definition demo_producer :: "byte list list kafka_state" where
  "demo_producer = \<lparr>message_count = 0, max_message_count = 2, local_memory_usage = 0, max_memory_kbytes = 1,
     client = [], server_log = []\<rparr>"

text \<open>Sending several messages in order.\<close>

fun send_all ::
    "('w, 'rk, 'rkt) rdkafka \<Rightarrow> 'rk \<Rightarrow> 'rkt \<Rightarrow> byte list list \<Rightarrow> 'w kafka_state \<Rightarrow> 'w kafka_state res" where
  "send_all lib rk rkt [] st = Inr st"
| "send_all lib rk rkt (m # ms) st =
     bindR (kafka_send_optimized lib (Some m) (Some rk) (Some rkt) st) (\<lambda>st. send_all lib rk rkt ms st)"

lemma strstr_first:
  "(\<And>k. k < length pre \<Longrightarrow> take (length key) (drop k (pre @ key @ rest)) \<noteq> key) \<Longrightarrow>
   strstr (pre @ key @ rest) key = Some (key @ rest)"
proof (induction pre)
  case Nil
  have "take (length key) (key @ rest) = key" by simp
  then show ?case by (cases "key @ rest") (auto split: if_splits)
next
  case (Cons c pre)
  have "take (length key) (c # pre @ key @ rest) \<noteq> key" using Cons.prems [of 0] by simp
  moreover have "strstr (pre @ key @ rest) key = Some (key @ rest)"
  proof (rule Cons.IH)
    fix k assume "k < length pre"
    then show "take (length key) (drop k (pre @ key @ rest)) \<noteq> key" using Cons.prems [of "Suc k"] by simp
  qed
  ultimately show ?case by simp
qed

text \<open>From a connection string that fits the buffer, \<^verbatim>\<open>get_dbname_from_conninfo\<close> stores
  the word behind the first \<^verbatim>\<open>dbname=\<close>, terminated, called as the apply worker calls it, with the
  length of the connection string as the limit.\<close>

theorem dbname_found:
  assumes "conninfo = pre @ ''dbname='' @ name @ rest" and "nul_free conninfo" and "length conninfo \<le> length buf"
    and "\<forall>k < length pre. take 7 (drop k conninfo) \<noteq> ''dbname=''"
    and "list_all (\<lambda>c. \<not> is_blank c) name" and "rest = [] \<or> is_blank (hd rest)"
  shows "\<exists>buf'. get_dbname_from_conninfo conninfo buf (int (length conninfo)) = Inr buf' \<and> string_at buf' = Inr name"
proof -
  have "length ''dbname='' = 7" by simp
  then have start: "strstr conninfo ''dbname='' = Some (''dbname='' @ name @ rest)"
    unfolding assms(1) using assms(1,4) by (intro strstr_first) metis
  have "takeWhile (\<lambda>c. \<not> is_blank c) (name @ rest) = name"
    using assms(5,6) by (cases rest) (auto simp: takeWhile_append list_all_iff)
  then have "conninfo_dbname conninfo = name" using start by (simp add: conninfo_dbname_def)
  moreover have "conninfo \<noteq> []" by (simp add: assms(1))
  ultimately show ?thesis by (metis get_dbname_ok [OF assms(2) _ assms(3)])
qed

theorem dbname_found_witness:
  "\<exists>buf'. get_dbname_from_conninfo ''host=a dbname=shop port=1'' (replicate 64 None) 25 = Inr buf' \<and>
     string_at buf' = Inr ''shop''"
proof -
  have "k < 7 \<Longrightarrow> take 7 (drop k ''host=a dbname=shop port=1'') \<noteq> ''dbname=''" for k :: nat
    by (cases k) (auto simp: take_Cons' drop_Cons' split: if_splits)
  then show ?thesis
    using dbname_found [of "''host=a dbname=shop port=1''" "''host=a ''" "''shop''" "'' port=1''" "replicate 64 None"]
    by (simp add: nul_free_def is_blank_def)
qed

text \<open>How often the log records a failed send.\<close>

definition failures :: "'w kafka_state \<Rightarrow> nat" where
  "failures st = count_list (server_log st) ''Produce failed''"

lemma flushed_before_failures [simp]: "failures (flushed_before lib rk est st) = failures st"
  by (simp add: flushed_before_def failures_def elog_def Let_def split: prod.split)

text \<open>
  A client that can be started: the library makes its configuration, its handle and its topic
  handle when it is asked to, the server setting is accepted, and the limits of the queue are set.
  Neither handle brings or loses accepted messages.
\<close>

definition client_starts :: "('w, 'rk, 'rkt) rdkafka \<Rightarrow> ('w \<Rightarrow> byte list list) \<Rightarrow> guc \<Rightarrow> bool" where
  "client_starts lib accepted guc \<longleftrightarrow>
     rd_kafka_conf_new lib \<and> guc ''kafka_server'' \<noteq> None \<and> conf_accepts lib ''bootstrap.servers'' (guc ''kafka_server'') \<and>
     guc ''kafka_queue_buffering_max_messages'' \<noteq> None \<and> guc ''kafka_queue_buffering_max_kbytes'' \<noteq> None \<and>
     (\<forall>w conf. fst (rd_kafka_new lib w conf) \<noteq> None \<and> accepted (snd (rd_kafka_new lib w conf)) = accepted w) \<and>
     (\<forall>w rk topic. fst (rd_kafka_topic_new lib w rk topic) \<noteq> None \<and> accepted (snd (rd_kafka_topic_new lib w rk topic)) = accepted w)"

lemma kafka_init_starts:
  assumes "client_starts lib accepted guc"
  obtains rk rkt st' where "kafka_init lib guc rk0 rkt0 (guc ''kafka_server'') (Some topic) st = Inr (0, Some rk, Some rkt, st')"
    and "accepted (client st') = accepted (client st)" and "failures st' = failures st"
proof -
  obtain brokers mm mk where g: "guc ''kafka_server'' = Some brokers" "atoi (guc ''kafka_queue_buffering_max_messages'') = Inr mm"
    "atoi (guc ''kafka_queue_buffering_max_kbytes'') = Inr mk" using assms by (auto simp: client_starts_def atoi_def Let_def)
  let ?conf = "rd_kafka_conf_set lib ''bootstrap.servers'' (Some brokers) (kafka_conf lib guc)"
  obtain rk w where rk: "rd_kafka_new lib (client st) ?conf = (Some rk, w)" "accepted w = accepted (client st)"
    using assms unfolding client_starts_def by (metis option.exhaust prod.collapse)
  obtain rkt w' where rkt: "rd_kafka_topic_new lib w rk topic = (Some rkt, w')" "accepted w' = accepted w"
    using assms unfolding client_starts_def by (metis option.exhaust prod.collapse)
  let ?st = "elog ''SUCCESS'' (st\<lparr>max_message_count := mm, max_memory_kbytes := mk, client := w'\<rparr>)"
  have "kafka_init lib guc rk0 rkt0 (guc ''kafka_server'') (Some topic) st = Inr (0, Some rk, Some rkt, ?st)"
    using assms rk(1) rkt(1) by (simp add: kafka_init_def g client_starts_def Let_def)
  moreover have "accepted (client ?st) = accepted (client st)" "failures ?st = failures st" using rk(2) rkt(2) by (simp_all add: elog_def failures_def)
  ultimately show thesis by (rule that)
qed

lemma demo_client_starts: "client_starts (demo_client capacity) (\<lambda>w. w) (\<lambda>_. Some ''7'')"
  by (simp add: client_starts_def demo_client_def)

lemma kafka_send_step:
  fixes st :: "'w kafka_state" and lib :: "('w, 'rk, 'rkt) rdkafka"
  assumes c: "client_contract lib accepted"
  obtains st' where "kafka_send_optimized lib (Some msg) (Some rk) (Some rkt) st = Inr st'"
    and "accepted (client st') = accepted (client st) @ [c_str msg] \<and> failures st' = failures st \<or>
         accepted (client st') = accepted (client st) \<and> failures st' = Suc (failures st)"
proof (rule kafka_send_cases [OF c, where msg = msg and rk = rk and rkt = rkt and st = st])
  fix st'
  let ?st1 = "flushed_before lib rk (c_int (c_int (int (length (c_str msg))) + 100)) st"
  assume "kafka_send_optimized lib (Some msg) (Some rk) (Some rkt) st = Inr st'"
    and "accepted (client st') = accepted (client st) @ [c_str msg]"
    and "server_log st' = server_log ?st1"
  moreover from this(3) have "failures st' = failures ?st1" by (simp only: failures_def)
  ultimately show thesis by (intro that [of st']) simp_all
next
  fix st'
  let ?st1 = "flushed_before lib rk (c_int (c_int (int (length (c_str msg))) + 100)) st"
  assume "kafka_send_optimized lib (Some msg) (Some rk) (Some rkt) st = Inr st'"
    and "accepted (client st') = accepted (client st)"
    and "server_log st' = server_log ?st1 @ [''Produce failed'']"
  moreover from this(3) have "failures st' = Suc (failures ?st1)" by (simp add: failures_def)
  ultimately show thesis by (intro that [of st']) simp_all
qed

text \<open>Claim C33. With a client that keeps its documented contract, sending never raises an error and
  never reorders or repeats: the accepted messages are those accepted before and then a
  subsequence of the messages sent, and every message that is missing has its line in the log.\<close>

theorem sends_in_order:
  assumes "client_contract lib accepted"
  shows "\<exists>st' ms. send_all lib rk rkt msgs st = Inr st' \<and> accepted (client st') = accepted (client st) @ ms \<and>
    subseq ms (map c_str msgs) \<and> length msgs = length ms + (failures st' - failures st) \<and> failures st \<le> failures st'"
proof (induction msgs arbitrary: st)
  case (Cons m msgs)
  obtain st1 where send: "kafka_send_optimized lib (Some m) (Some rk) (Some rkt) st = Inr st1"
    and st1: "accepted (client st1) = accepted (client st) @ [c_str m] \<and> failures st1 = failures st \<or>
      accepted (client st1) = accepted (client st) \<and> failures st1 = Suc (failures st)"
    by (rule kafka_send_step [OF assms])
  from Cons.IH [of st1] obtain st' ms where rest: "send_all lib rk rkt msgs st1 = Inr st'"
    "accepted (client st') = accepted (client st1) @ ms" "subseq ms (map c_str msgs)"
    "length msgs = length ms + (failures st' - failures st1)" "failures st1 \<le> failures st'" by blast
  from st1 show ?case
  proof (elim disjE conjE)
    assume "accepted (client st1) = accepted (client st) @ [c_str m]" "failures st1 = failures st"
    then show ?thesis using send rest by (intro exI [of _ st'] exI [of _ "c_str m # ms"]) simp
  next
    assume "accepted (client st1) = accepted (client st)" "failures st1 = Suc (failures st)"
    then show ?thesis using send rest by (intro exI [of _ st'] exI [of _ ms]) auto
  qed
qed simp

theorem sends_in_order_witness:
  "\<exists>st' ms. send_all (demo_client 1) () () [''a'', ''b''] demo_producer = Inr st' \<and> client st' = ms \<and>
     subseq ms [''a'', ''b''] \<and> 2 = length ms + failures st'"
  using sends_in_order [OF demo_client_contract [of 1], of "()" "()" "[''a'', ''b'']" demo_producer]
  by (auto simp: demo_producer_def failures_def c_str_def)

text \<open>Claim C37. The retry for a full queue is never taken: a full queue makes \<^verbatim>\<open>rd_kafka_produce\<close> return
  -1, not the error code the loop compares with, so the first refused attempt is the last. The
  send returns normally and the message is lost.\<close>

theorem full_queue_drops:
  assumes "client_contract lib accepted" and "\<not> over_limit st (c_int (c_int (int (length (c_str msg))) + 100))"
    and "rd_kafka_produce lib (client st) rkt (c_str msg) = (-1, w)"
  shows "kafka_send_optimized lib (Some msg) (Some rk) (Some rkt) st =
      Inr (elog ''Produce failed'' (st\<lparr>client := w\<rparr>)) \<and> accepted w = accepted (client st)"
  using client_contract_produce(2) [OF assms(1,3)] assms(2,3)
  by (simp add: kafka_send_eq Let_def flushed_before_def produce_once [OF assms(1)])

theorem full_queue_drops_witness:
  "kafka_send_optimized (demo_client 0) (Some ''a'') (Some ()) (Some ()) demo_producer =
      Inr (elog ''Produce failed'' demo_producer)"
  using full_queue_drops [OF demo_client_contract [of 0], of demo_producer "''a''" "()" "[]" "()"]
  by (simp add: demo_producer_def demo_client_def over_limit_def c_str_def c_int_small c_longlong_def elog_def)

definition counter_ok :: "'w kafka_state \<Rightarrow> bool" where
  "counter_ok st \<longleftrightarrow> 0 \<le> message_count st \<and> message_count st \<le> max 1 (max_message_count st) \<and>
     max_message_count st < 2 ^ 31"

text \<open>The message counter stays between zero and the configured bound (one, where the bound is
  not positive), through every send.\<close>

theorem message_count_bounded:
  assumes "client_contract lib accepted" and "counter_ok st"
    and "kafka_send_optimized lib (Some msg) (Some rk) (Some rkt) st = Inr st'"
  shows "counter_ok st'"
proof -
  let ?st1 = "flushed_before lib rk (c_int (c_int (int (length (c_str msg))) + 100)) st"
  have st1: "0 \<le> message_count ?st1" "message_count ?st1 < max 1 (max_message_count st)"
    using assms(2) by (auto simp: counter_ok_def over_limit_def)
  then have "c_int (message_count ?st1 + 1) = message_count ?st1 + 1"
    using assms(2) by (intro c_int_small) (auto simp: counter_ok_def)
  then show ?thesis
    using kafka_send_cases [OF assms(1), of msg rk rkt st "counter_ok st'"] assms(2,3) st1
    by (auto simp: counter_ok_def)
qed

theorem message_count_bounded_witness:
  "\<exists>st'. kafka_send_optimized (demo_client 5) (Some ''a'') (Some ()) (Some ()) demo_producer = Inr st' \<and> counter_ok st'"
proof -
  obtain st' where "kafka_send_optimized (demo_client 5) (Some ''a'') (Some ()) (Some ()) demo_producer = Inr st'"
    by (rule kafka_send_step [OF demo_client_contract])
  moreover have "counter_ok demo_producer" by (simp add: counter_ok_def demo_producer_def)
  ultimately show ?thesis using message_count_bounded [OF demo_client_contract] by blast
qed

definition memory_full :: "'w kafka_state \<Rightarrow> bool" where
  "memory_full st \<longleftrightarrow> max_memory_kbytes st * 1024 \<le> local_memory_usage st"

lemma estimate_small:
  "length msg < 2 ^ 30 \<Longrightarrow> c_int (c_int (int (length msg)) + 100) = int (length msg) + 100"
  by (simp add: c_int_small)

text \<open>The estimate of the memory in use is never taken back by a flush: once it has reached the
  configured limit it stays there through any further send, whose check therefore forces
  another blocking flush for every later message.\<close>

theorem memory_stays_full:
  assumes "client_contract lib accepted" and "memory_full st"
    and "length msg < 2 ^ 30" and "0 \<le> local_memory_usage st" and "local_memory_usage st < 2 ^ 62"
  shows "\<exists>st'. kafka_send_optimized lib (Some msg) (Some rk) (Some rkt) st = Inr st' \<and> memory_full st' \<and>
    message_count st' \<le> 1 \<and> over_limit st (int (length (c_str msg)) + 100)"
proof -
  let ?n = "int (length (c_str msg)) + 100"
  have n: "length (c_str msg) < 2 ^ 30" 
    using assms(3) length_takeWhile_le [of "\<lambda>c. c \<noteq> NUL" msg] unfolding c_str_def by linarith
  have sum: "c_longlong (local_memory_usage st + ?n) = local_memory_usage st + ?n"
    using assms(4,5) n by (intro c_longlong_small) auto
  then have over: "over_limit st ?n" using assms(2) by (simp add: over_limit_def memory_full_def)
  have one: "c_int 1 = 1" by (simp add: c_int_small)
  note send = kafka_send_cases [OF assms(1), of msg rk rkt st, unfolded estimate_small [OF n] flushed_before_simps sum]
  show ?thesis
    by (rule send) (use over assms(2) one in \<open>auto simp: memory_full_def\<close>)
qed

theorem memory_stays_full_witness:
  "\<exists>st'. kafka_send_optimized (demo_client 5) (Some ''a'') (Some ()) (Some ())
      (demo_producer\<lparr>local_memory_usage := 1024\<rparr>) = Inr st' \<and> memory_full st'"
  using memory_stays_full [OF demo_client_contract [of 5], of "demo_producer\<lparr>local_memory_usage := 1024\<rparr>" "''a''" "()" "()"]
  by (auto simp: demo_producer_def memory_full_def)

section \<open>Properties of the configuration\<close>

lemma set_all_subset: "set (set_all lib settings conf) \<subseteq> set conf \<union> set settings"
  by (induction settings arbitrary: conf) (fastforce simp: set_all_def rd_kafka_conf_set_def split: if_splits)+

lemma set_all_old: "set conf \<subseteq> set (set_all lib settings conf)"
  by (induction settings arbitrary: conf) (fastforce simp: set_all_def rd_kafka_conf_set_def split: if_splits)+

lemma set_all_accepted: "(n, v) \<in> set settings \<Longrightarrow> conf_accepts lib n v \<Longrightarrow> (n, v) \<in> set (set_all lib settings conf)"
proof (induction settings arbitrary: conf)
  case (Cons nv settings)
  then show ?case using set_all_old [of "rd_kafka_conf_set lib n v conf" lib settings]
    by (cases nv) (auto simp: set_all_def rd_kafka_conf_set_def)
qed simp

lemma set_nonempty_iff:
  "(n, v) \<in> set (set_nonempty lib guc name opt conf) \<longleftrightarrow>
     (n, v) \<in> set conf \<or> n = name \<and> v = guc opt \<and> v \<noteq> None \<and> v \<noteq> Some [] \<and> conf_accepts lib n v"
  by (auto simp: set_nonempty_def rd_kafka_conf_set_def split: option.split)

lemma conf_kept:
  "x \<in> set conf \<Longrightarrow> x \<in> set (rd_kafka_conf_set lib name value conf)"
  "x \<in> set conf \<Longrightarrow> x \<in> set (set_nonempty lib guc name opt conf)"
  by (auto simp: set_nonempty_def rd_kafka_conf_set_def split: option.split)

lemma security_conf_old: "x \<in> set conf \<Longrightarrow> x \<in> set (security_conf lib guc conf)"
  by (simp add: security_conf_def Let_def conf_kept split: option.split)

text \<open>Credentials reach the client only with a protocol that uses them: a SASL name or
  password only under a SASL protocol with a mechanism that needs one, key material and its
  password only under TLS. Idempotence is asked for on every producer.\<close>

theorem credentials_match_protocol:
  "((''sasl.password'', v) \<in> set (kafka_conf lib guc) \<or> (''sasl.username'', v) \<in> set (kafka_conf lib guc) \<longrightarrow>
      is_sasl_protocol guc \<and> (\<exists>m. guc ''kafka_sasl_mechanism'' = Some m \<and> needs_auth m)) \<and>
   ((''ssl.key.password'', v) \<in> set (kafka_conf lib guc) \<or> (''ssl.key.location'', v) \<in> set (kafka_conf lib guc) \<longrightarrow>
      is_ssl_protocol guc) \<and>
   (conf_accepts lib ''enable.idempotence'' (Some ''true'') \<longrightarrow>
      (''enable.idempotence'', Some ''true'') \<in> set (kafka_conf lib guc))"
proof -
  let ?perf = "set_all lib (performance_settings guc) []"
  have perf: "set ?perf \<subseteq> set (performance_settings guc)" using set_all_subset [of lib _ "[]"] by simp
  have conf: "set (kafka_conf lib guc) \<subseteq> set (security_conf lib guc ?perf) \<union> set (base_settings guc)"
    unfolding kafka_conf_def by (rule set_all_subset)
  have sasl: "is_sasl_protocol guc \<and> (\<exists>m. guc ''kafka_sasl_mechanism'' = Some m \<and> needs_auth m)"
    if "(n, v) \<in> set (kafka_conf lib guc)" "n = ''sasl.password'' \<or> n = ''sasl.username''" for n
  proof -
    have "(n, v) \<notin> set ?perf" "(n, v) \<notin> set (base_settings guc)"
      using perf that(2) by (auto simp: performance_settings_def base_settings_def)
    with that conf have "(n, v) \<in> set (security_conf lib guc ?perf)" "(n, v) \<notin> set ?perf" by auto
    then show ?thesis using that(2)
      by (auto simp: security_conf_def Let_def set_nonempty_iff rd_kafka_conf_set_def split: option.splits if_splits)
  qed
  have ssl: "is_ssl_protocol guc"
    if "(n, v) \<in> set (kafka_conf lib guc)" "n = ''ssl.key.password'' \<or> n = ''ssl.key.location''" for n
  proof -
    have "(n, v) \<notin> set ?perf" "(n, v) \<notin> set (base_settings guc)"
      using perf that(2) by (auto simp: performance_settings_def base_settings_def)
    with that conf have "(n, v) \<in> set (security_conf lib guc ?perf)" "(n, v) \<notin> set ?perf" by auto
    then show ?thesis using that(2)
      by (auto simp: security_conf_def Let_def set_nonempty_iff rd_kafka_conf_set_def split: option.splits if_splits)
  qed
  have "(''enable.idempotence'', Some ''true'') \<in> set (kafka_conf lib guc)"
    if "conf_accepts lib ''enable.idempotence'' (Some ''true'')"
  proof -
    have "(''enable.idempotence'', Some ''true'') \<in> set ?perf"
      using that by (intro set_all_accepted) (simp_all add: performance_settings_def)
    from security_conf_old [OF this] show ?thesis
      unfolding kafka_conf_def by (rule subsetD [OF set_all_old])
  qed
  then show ?thesis using sasl [OF _ disjI1 [OF refl]] sasl [OF _ disjI2 [OF refl]]
      ssl [OF _ disjI1 [OF refl]] ssl [OF _ disjI2 [OF refl]] by argo
qed

theorem credentials_match_protocol_witness:
  "(''enable.idempotence'', Some ''true'') \<in> set (kafka_conf (demo_client 1) Map.empty)"
  using credentials_match_protocol [of None "demo_client 1" Map.empty] by (simp add: demo_client_def)

text \<open>Starting the producer: success (0) hands out both handles, made from a configuration that
  holds the broker list, with the limits read from the server's configuration; failure (-1)
  leaves handles and client alone; a missing queue limit is a null dereference.\<close>

theorem kafka_init_result:
  assumes "kafka_init lib guc rk rkt brokers topic st = Inr (r, rk', rkt', st')"
  shows "(r = 0 \<and> (\<exists>b conf w k t. brokers = Some b \<and> (''bootstrap.servers'', Some b) \<in> set conf \<and>
            rd_kafka_new lib (client st) conf = (Some k, w) \<and> rk' = Some k \<and> rkt' = Some t) \<and>
            atoi (guc ''kafka_queue_buffering_max_messages'') = Inr (max_message_count st') \<and>
            atoi (guc ''kafka_queue_buffering_max_kbytes'') = Inr (max_memory_kbytes st')) \<or>
         (r = -1 \<and> rk' = rk \<and> rkt' = rkt \<and> client st' = client st)"
proof (cases "brokers = None \<or> topic = None \<or> \<not> rd_kafka_conf_new lib")
  case True
  then show ?thesis using assms by (auto simp: kafka_init_def elog_def split: option.splits if_splits)
next
  case False
  then obtain b t where bt: "brokers = Some b" "topic = Some t" by auto
  from assms False bt obtain mm mk where limits: "atoi (guc ''kafka_queue_buffering_max_messages'') = Inr mm"
      "atoi (guc ''kafka_queue_buffering_max_kbytes'') = Inr mk"
    by (auto simp: kafka_init_def bindR_eq_Inr_iff)
  show ?thesis
  proof (cases "conf_accepts lib ''bootstrap.servers'' (Some b)")
    case True
    let ?conf = "kafka_conf lib guc @ [(''bootstrap.servers'', Some b)]"
    obtain k w where new: "rd_kafka_new lib (client st) ?conf = (k, w)" by force
    show ?thesis using assms False bt limits True new
      by (auto simp: kafka_init_def rd_kafka_conf_set_def Let_def elog_def split: option.splits prod.splits)
        (rule exI [of _ ?conf], simp)+
  next
    case notset: False
    then show ?thesis using assms False bt limits by (auto simp: kafka_init_def elog_def Let_def)
  qed
qed

theorem kafka_init_result_witness:
  "\<exists>st' conf w. kafka_init (demo_client 1) (\<lambda>_. Some ''7'') None None (Some ''b'') (Some ''t'') demo_producer =
       Inr (0, Some (), Some (), st') \<and> rd_kafka_new (demo_client 1) [] conf = (Some (), w) \<and>
       (''bootstrap.servers'', Some ''b'') \<in> set conf"
proof -
  obtain mm where "atoi (Some ''7'') = Inr mm" by (simp add: atoi_def Let_def)
  then obtain st' where init: "kafka_init (demo_client 1) (\<lambda>_. Some ''7'') None None (Some ''b'') (Some ''t'') demo_producer =
       Inr (0, Some (), Some (), st')"
    by (simp add: kafka_init_def demo_client_def Let_def)
  from kafka_init_result [OF this] show ?thesis using init by (auto simp: demo_producer_def)
qed

end
