(* ===== verification/ChangeJson.thy ===== *)
theory ChangeJson
  imports RelationMap CJsonRoundtrip KafkaProducer
begin

text \<open>
  The step of the apply worker (\<^verbatim>\<open>src/backend/replication/logical/worker.c\<close>) that
  turns a row change into a Kafka message: starting the producer on the first change, building
  the JSON object, printing it and sending it. The C code links the empty arrays into the
  object and fills them afterwards through the pointers it has kept; the tree is the same as
  the one obtained by linking the filled arrays, which is how the model builds it.
\<close>

section \<open>The publisher of changes\<close>

text \<open>The static variables of \<^verbatim>\<open>worker.c\<close> that belong to the producer.\<close>

record ('w, 'rk, 'rkt) change_publisher =
  apply_dbname :: "cell list"
  apply_g_rk :: "'rk option"
  apply_g_rkt :: "'rkt option"
  kafka_initialized :: bool
  producer :: "'w kafka_state"

definition check_kafka_init ::
    "('w, 'rk, 'rkt) rdkafka \<Rightarrow> guc \<Rightarrow> cstring \<Rightarrow> ('w, 'rk, 'rkt) change_publisher \<Rightarrow>
     ('w, 'rk, 'rkt) change_publisher res" where
  "check_kafka_init lib guc conninfo p =
     bindR
       (if apply_g_rk p = None \<and> \<not> kafka_initialized p then
          bindR (get_dbname_from_conninfo conninfo (apply_dbname p) (int (length (c_str conninfo)))) (\<lambda>dbname.
          bindR (string_at dbname) (\<lambda>topic.
          bindR (kafka_init lib guc (apply_g_rk p) (apply_g_rkt p) (guc ''kafka_server'') (Some topic) (producer p))
            (\<lambda>(r, rk, rkt, st).
             if r = 0
             then Inr (p\<lparr>apply_dbname := dbname, apply_g_rk := rk, apply_g_rkt := rkt, producer := st,
                         kafka_initialized := True\<rparr>)
             else Inl (PgError ''Kafka is not initialized''))))
        else Inr p)
       (\<lambda>p. if apply_g_rk p = None \<or> \<not> kafka_initialized p
             then Inl (PgError ''Kafka is not initialized'') else Inr p)"

section \<open>The JSON objects\<close>

text \<open>\<^verbatim>\<open>snprintf(table_name, 128, "%s.%s", ...)\<close>\<close>

definition table_name_of :: "LogicalRepRelation \<Rightarrow> cstring" where
  "table_name_of rel = take 127 (c_str (nspname rel) @ ''.'' @ c_str (relname rel))"

text \<open>A column without data is null; other data is a C string.\<close>

definition column_item :: "StringInfoData option \<Rightarrow> 'r::zero cJSON res" where
  "column_item value = (case value of None \<Rightarrow> Inr cJSON_CreateNull
     | Some v \<Rightarrow> bindR (string_at (si_data v)) (\<lambda>s. cJSON_CreateString (Some s)))"

text \<open>
  The loops: from column \<open>i\<close> on, append the name of the column (of the relation map, which
  the loop reads without a bound) and its value.
\<close>

definition attname_at :: "LogicalRepRelation \<Rightarrow> nat \<Rightarrow> cstring res" where
  "attname_at rel i = (if i < length (attnames rel) then Inr (attnames rel ! i) else Inl (Undefined OutOfBounds))"

fun add_values :: "StringInfoData option list \<Rightarrow> 'r::zero cJSON \<Rightarrow> 'r cJSON res" where
  "add_values [] array = Inr array"
| "add_values (v # vs) array =
     bindR (column_item v) (\<lambda>it. add_values vs (cJSON_AddItemToArray array (Some it)))"

fun add_columns :: "LogicalRepRelation \<Rightarrow> nat \<Rightarrow> StringInfoData option list \<Rightarrow> 'r::zero cJSON \<Rightarrow> 'r cJSON \<Rightarrow>
     ('r cJSON \<times> 'r cJSON) res" where
  "add_columns rel i [] names array = Inr (names, array)"
| "add_columns rel i (v # vs) names array =
     bindR (attname_at rel i) (\<lambda>name.
     bindR (cJSON_CreateString (Some name)) (\<lambda>name_item.
     bindR (column_item v) (\<lambda>it.
     add_columns rel (Suc i) vs (cJSON_AddItemToArray names (Some name_item))
       (cJSON_AddItemToArray array (Some it)))))"

text \<open>The members all three objects start with.\<close>

definition change_head :: "cstring \<Rightarrow> cstring \<Rightarrow> LogicalRepRelation \<Rightarrow> 'r::zero cJSON res" where
  "change_head opr db rel =
     bindR (cJSON_AddStringToObject cJSON_CreateObject (Some ''op'') (Some opr)) (\<lambda>root.
     bindR (cJSON_AddStringToObject root (Some ''db'') (Some db)) (\<lambda>root.
     cJSON_AddStringToObject root (Some ''table'') (Some (table_name_of rel))))"

definition insert_item :: "cstring \<Rightarrow> LogicalRepRelation \<Rightarrow> LogicalRepTupleData \<Rightarrow> 'r::zero cJSON res" where
  "insert_item db rel newtup =
     bindR (change_head ''I'' db rel) (\<lambda>root.
     bindR (add_columns rel 0 (colvalues newtup) cJSON_CreateArray cJSON_CreateArray) (\<lambda>(array_attnames, array_after).
     bindR (cJSON_AddItemToObject root (Some ''attnames'') (Some array_attnames)) (\<lambda>root.
     cJSON_AddItemToObject root (Some ''after'') (Some array_after))))"

definition update_item ::
    "cstring \<Rightarrow> LogicalRepRelation \<Rightarrow> LogicalRepTupleData option \<Rightarrow> LogicalRepTupleData \<Rightarrow> 'r::zero cJSON res" where
  "update_item db rel oldtup newtup =
     bindR (change_head ''U'' db rel) (\<lambda>root.
     bindR (add_columns rel 0 (colvalues newtup) cJSON_CreateArray cJSON_CreateArray) (\<lambda>(array_attnames, array_after).
     bindR (case oldtup of None \<Rightarrow> Inr cJSON_CreateArray
            | Some old \<Rightarrow> add_values (colvalues old) cJSON_CreateArray) (\<lambda>array_before.
     bindR (cJSON_AddItemToObject root (Some ''attnames'') (Some array_attnames)) (\<lambda>root.
     bindR (cJSON_AddItemToObject root (Some ''before'') (Some array_before)) (\<lambda>root.
     cJSON_AddItemToObject root (Some ''after'') (Some array_after))))))"

definition delete_item :: "cstring \<Rightarrow> LogicalRepRelation \<Rightarrow> LogicalRepTupleData \<Rightarrow> 'r::zero cJSON res" where
  "delete_item db rel oldtup =
     bindR (change_head ''D'' db rel) (\<lambda>root.
     bindR (add_columns rel 0 (colvalues oldtup) cJSON_CreateArray cJSON_CreateArray) (\<lambda>(array_attnames, array_before).
     bindR (cJSON_AddItemToObject root (Some ''attnames'') (Some array_attnames)) (\<lambda>root.
     cJSON_AddItemToObject root (Some ''before'') (Some array_before))))"

text \<open>Print the object, send the text if there is one.\<close>

definition send_item ::
    "('w, 'rk, 'rkt) rdkafka \<Rightarrow> 'r double_ops \<Rightarrow> 'r cJSON res \<Rightarrow> ('w, 'rk, 'rkt) change_publisher \<Rightarrow>
     ('w, 'rk, 'rkt) change_publisher res" where
  "send_item lib fp item p =
     bindR item (\<lambda>root.
     bindR (cJSON_Print fp root) (\<lambda>json_str.
     case json_str of None \<Rightarrow> Inr p
     | Some str \<Rightarrow> bindR (kafka_send_optimized lib (Some str) (apply_g_rk p) (apply_g_rkt p) (producer p)) (\<lambda>st.
         Inr (p\<lparr>producer := st\<rparr>))))"

definition INSERT_TO_JSON ::
    "('w, 'rk, 'rkt) rdkafka \<Rightarrow> guc \<Rightarrow> 'r::zero double_ops \<Rightarrow> cstring \<Rightarrow> LogicalRepRelation \<Rightarrow> LogicalRepTupleData \<Rightarrow>
     ('w, 'rk, 'rkt) change_publisher \<Rightarrow> ('w, 'rk, 'rkt) change_publisher res" where
  "INSERT_TO_JSON lib guc fp conninfo rel newtup p =
     bindR (check_kafka_init lib guc conninfo p) (\<lambda>p.
     bindR (string_at (apply_dbname p)) (\<lambda>db. send_item lib fp (insert_item db rel newtup) p))"

definition UPDATE_TO_JSON ::
    "('w, 'rk, 'rkt) rdkafka \<Rightarrow> guc \<Rightarrow> 'r::zero double_ops \<Rightarrow> cstring \<Rightarrow> LogicalRepRelation \<Rightarrow>
     LogicalRepTupleData option \<Rightarrow> LogicalRepTupleData \<Rightarrow>
     ('w, 'rk, 'rkt) change_publisher \<Rightarrow> ('w, 'rk, 'rkt) change_publisher res" where
  "UPDATE_TO_JSON lib guc fp conninfo rel oldtup newtup p =
     bindR (check_kafka_init lib guc conninfo p) (\<lambda>p.
     bindR (string_at (apply_dbname p)) (\<lambda>db. send_item lib fp (update_item db rel oldtup newtup) p))"

definition DELETE_TO_JSON ::
    "('w, 'rk, 'rkt) rdkafka \<Rightarrow> guc \<Rightarrow> 'r::zero double_ops \<Rightarrow> cstring \<Rightarrow> LogicalRepRelation \<Rightarrow> LogicalRepTupleData \<Rightarrow>
     ('w, 'rk, 'rkt) change_publisher \<Rightarrow> ('w, 'rk, 'rkt) change_publisher res" where
  "DELETE_TO_JSON lib guc fp conninfo rel oldtup p =
     bindR (check_kafka_init lib guc conninfo p) (\<lambda>p.
     bindR (string_at (apply_dbname p)) (\<lambda>db. send_item lib fp (delete_item db rel oldtup) p))"

section \<open>The objects as JSON values\<close>

text \<open>
  What the items stand for. A change is an object of the operation, the database, the table,
  the column names and the old and new values; a value is the column's text, or null.
\<close>

definition json_value :: "cstring option \<Rightarrow> json" where
  "json_value v = (case v of None \<Rightarrow> JNull | Some s \<Rightarrow> JString s)"

datatype change_row = Inserted "cstring option list"
  | Updated "cstring option list option" "cstring option list"
  | Deleted "cstring option list"

fun change_columns :: "change_row \<Rightarrow> cstring option list" where
  "change_columns (Inserted new) = new"
| "change_columns (Updated old new) = new"
| "change_columns (Deleted old) = old"

definition json_row :: "cstring option list \<Rightarrow> json" where
  "json_row row = JArray (map json_value row)"

definition change_json :: "cstring \<Rightarrow> cstring \<Rightarrow> cstring list \<Rightarrow> change_row \<Rightarrow> json" where
  "change_json db tbl names ch =
     JObject ([(''op'', JString (case ch of Inserted _ \<Rightarrow> ''I'' | Updated _ _ \<Rightarrow> ''U'' | Deleted _ \<Rightarrow> ''D'')),
        (''db'', JString db), (''table'', JString tbl),
        (''attnames'', JArray (map JString (take (length (change_columns ch)) names)))] @
       (case ch of Inserted new \<Rightarrow> [(''after'', json_row new)]
        | Updated old new \<Rightarrow> [(''before'', json_row (case old of None \<Rightarrow> [] | Some row \<Rightarrow> row)), (''after'', json_row new)]
        | Deleted old \<Rightarrow> [(''before'', json_row old)]))"

text \<open>The text of a column value, as the C code reads it.\<close>

definition column_text :: "StringInfoData option \<Rightarrow> cstring option res" where
  "column_text value = (case value of None \<Rightarrow> Inr None
     | Some v \<Rightarrow> bindR (string_at (si_data v)) (\<lambda>s. Inr (Some s)))"

fun row_text :: "StringInfoData option list \<Rightarrow> cstring option list res" where
  "row_text [] = Inr []"
| "row_text (v # vs) = bindR (column_text v) (\<lambda>t. bindR (row_text vs) (\<lambda>ts. Inr (t # ts)))"

lemma create_items:
  "cJSON_CreateString (Some s) = Inr (item_of (JString (c_str s)) :: 'r::zero cJSON)"
  "(cJSON_CreateNull :: 'r::zero cJSON) = item_of JNull"
  "(cJSON_CreateArray :: 'r::zero cJSON) = item_of (JArray [])"
  "(cJSON_CreateObject :: 'r::zero cJSON) = item_of (JObject [])"
  by (simp_all add: cJSON_CreateString_def cJSON_strdup_def cJSON_CreateNull_def cJSON_CreateArray_def
      cJSON_CreateObject_def set_type_def cJSON_New_Item_def)

lemma add_to_array:
  "cJSON_AddItemToArray (item_of (JArray js)) (Some (item_of j)) = (item_of (JArray (js @ [j])) :: 'r::zero cJSON)"
  by (simp add: cJSON_AddItemToArray_def)

lemma add_to_object:
  "nul_free name \<Longrightarrow> cJSON_AddItemToObject (item_of (JObject ms)) (Some name) (Some (item_of j)) =
     Inr (item_of (JObject (ms @ [(name, j)])) :: 'r::zero cJSON)"
  by (simp add: cJSON_AddItemToObject_def cJSON_strdup_def cJSON_AddItemToArray_def)

lemma add_string_to_object:
  "nul_free name \<Longrightarrow> cJSON_AddStringToObject (item_of (JObject ms)) (Some name) (Some s) =
     Inr (item_of (JObject (ms @ [(name, JString (c_str s))])) :: 'r::zero cJSON)"
  by (simp add: cJSON_AddStringToObject_def create_items(1) add_to_object del: item_of.simps)

lemma column_item_text: "column_text v = Inr t \<Longrightarrow> column_item v = Inr (item_of (json_value t) :: 'r::zero cJSON)"
  by (auto simp: column_text_def column_item_def json_value_def create_items bindR_eq_Inr_iff string_at_nul_free
      simp del: item_of.simps split: option.splits)

lemma row_text_length: "row_text vs = Inr ts \<Longrightarrow> length ts = length vs"
  by (induction vs arbitrary: ts) (auto simp: bindR_eq_Inr_iff)

lemma add_values_text:
  "row_text vs = Inr ts \<Longrightarrow>
   add_values vs (item_of (JArray js) :: 'r::zero cJSON) = Inr (item_of (JArray (js @ map json_value ts)))"
  by (induction vs arbitrary: ts js)
    (auto simp: bindR_eq_Inr_iff column_item_text add_to_array simp del: item_of.simps)

lemma add_columns_text:
  assumes "row_text vs = Inr ts" and "i + length vs \<le> length (attnames rel)" and "list_all nul_free (attnames rel)"
  shows "add_columns rel i vs (item_of (JArray ns)) (item_of (JArray js) :: 'r::zero cJSON) =
    Inr (item_of (JArray (ns @ map JString (take (length vs) (drop i (attnames rel))))),
         item_of (JArray (js @ map json_value ts)))"
  using assms
proof (induction vs arbitrary: i ts ns js)
  case (Cons v vs)
  then have "nul_free (attnames rel ! i)" by (simp add: list_all_length)
  moreover have "take (length (v # vs)) (drop i (attnames rel)) =
      attnames rel ! i # take (length vs) (drop (Suc i) (attnames rel))"
    using Cons.prems(2) by (simp add: take_Suc_conv_app_nth Cons_nth_drop_Suc [symmetric])
  ultimately show ?case using Cons.prems
    by (auto simp: bindR_eq_Inr_iff attname_at_def create_items(1) column_item_text add_to_array Cons.IH
        simp del: item_of.simps)
qed simp

lemma add_columns_overrun:
  assumes "row_text vs = Inr ts" and "length (attnames rel) < i + length vs" and "i \<le> length (attnames rel)"
  shows "add_columns rel i vs names (array :: 'r::zero cJSON) = Inl (Undefined OutOfBounds)"
  using assms
proof (induction vs arbitrary: i ts names array)
  case (Cons v vs)
  then show ?case
    by (auto simp: bindR_eq_Inr_iff attname_at_def create_items(1) column_item_text Cons.IH simp del: item_of.simps)
qed simp

lemma change_head_item:
  "nul_free opr \<Longrightarrow> nul_free db \<Longrightarrow> change_head opr db rel =
     Inr (item_of (JObject [(''op'', JString opr), (''db'', JString db), (''table'', JString (c_str (table_name_of rel)))]) :: 'r::zero cJSON)"
  by (simp add: change_head_def create_items(4) add_string_to_object del: item_of.simps)

lemma nul_free_table_name: "nul_free (table_name_of rel)"
  by (simp add: table_name_of_def nul_free_take)

text \<open>
  The relation description a change is published with has distinct memory per column name: the
  loop is safe when the row has at most as many columns as the relation has names.
\<close>

lemma change_items:
  assumes db: "nul_free db" and names: "list_all nul_free (attnames rel)"
    and new: "row_text (colvalues newtup) = Inr new" "length (colvalues newtup) \<le> length (attnames rel)"
  shows "insert_item db rel newtup =
      Inr (item_of (change_json db (table_name_of rel) (attnames rel) (Inserted new)) :: 'r::zero cJSON)"
    and "delete_item db rel newtup =
      Inr (item_of (change_json db (table_name_of rel) (attnames rel) (Deleted new)) :: 'r::zero cJSON)"
    and "row_text (colvalues old) = Inr ov \<Longrightarrow> update_item db rel (Some old) newtup =
      Inr (item_of (change_json db (table_name_of rel) (attnames rel) (Updated (Some ov) new)) :: 'r::zero cJSON)"
    and "update_item db rel None newtup =
      Inr (item_of (change_json db (table_name_of rel) (attnames rel) (Updated None new)) :: 'r::zero cJSON)"
proof -
  have len: "length new = length (colvalues newtup)" by (rule row_text_length [OF new(1)])
  note cols = add_columns_text [OF new(1) _ names, of 0 "[]" "[]", where 'r = 'r, simplified append_Nil drop_0 add_0, OF new(2)]
  note rules = change_head_item db create_items(3) cols add_to_object nul_free_table_name change_json_def json_row_def len
  show "insert_item db rel newtup =
      Inr (item_of (change_json db (table_name_of rel) (attnames rel) (Inserted new)) :: 'r::zero cJSON)"
    by (simp add: insert_item_def rules del: item_of.simps)
  show "delete_item db rel newtup =
      Inr (item_of (change_json db (table_name_of rel) (attnames rel) (Deleted new)) :: 'r::zero cJSON)"
    by (simp add: delete_item_def rules del: item_of.simps)
  show "update_item db rel (Some old) newtup =
      Inr (item_of (change_json db (table_name_of rel) (attnames rel) (Updated (Some ov) new)) :: 'r::zero cJSON)"
    if "row_text (colvalues old) = Inr ov"
    using add_values_text [OF that, of "[]", where 'r = 'r] by (simp add: update_item_def rules del: item_of.simps)
  show "update_item db rel None newtup =
      Inr (item_of (change_json db (table_name_of rel) (attnames rel) (Updated None new)) :: 'r::zero cJSON)"
    by (simp add: update_item_def rules del: item_of.simps)
qed

section \<open>Sending\<close>

text \<open>A publisher whose producer runs, for a database.\<close>

definition ready :: "cstring \<Rightarrow> ('w, 'rk, 'rkt) change_publisher \<Rightarrow> bool" where
  "ready db p \<longleftrightarrow> apply_g_rk p \<noteq> None \<and> apply_g_rkt p \<noteq> None \<and> kafka_initialized p \<and>
     string_at (apply_dbname p) = Inr db"

text \<open>
  One message handed to the client: it is accepted, or it is dropped and the failure is
  logged.
\<close>

definition handed_over ::
    "('w \<Rightarrow> byte list list) \<Rightarrow> byte list \<Rightarrow> ('w, 'rk, 'rkt) change_publisher \<Rightarrow> ('w, 'rk, 'rkt) change_publisher \<Rightarrow> bool" where
  "handed_over accepted msg p p' \<longleftrightarrow>
     (accepted (client (producer p')) = accepted (client (producer p)) @ [msg] \<and>
        failures (producer p') = failures (producer p)) \<or>
     (accepted (client (producer p')) = accepted (client (producer p)) \<and>
        failures (producer p') = Suc (failures (producer p)))"

text \<open>
  A publisher that serves a database: its producer runs, or it is as the process starts it, with
  the zeroed buffer for the database name, and the first change can start the producer.
\<close>

definition unstarted :: "('w, 'rk, 'rkt) rdkafka \<Rightarrow> ('w \<Rightarrow> byte list list) \<Rightarrow> guc \<Rightarrow> cstring \<Rightarrow> ('w, 'rk, 'rkt) change_publisher \<Rightarrow> bool" where
  "unstarted lib accepted guc conninfo p \<longleftrightarrow> apply_g_rk p = None \<and> apply_g_rkt p = None \<and> \<not> kafka_initialized p \<and>
     apply_dbname p = replicate 64 (Some NUL) \<and> client_starts lib accepted guc \<and> nul_free conninfo \<and> conninfo \<noteq> [] \<and> length conninfo \<le> 64"

definition serving :: "('w, 'rk, 'rkt) rdkafka \<Rightarrow> ('w \<Rightarrow> byte list list) \<Rightarrow> guc \<Rightarrow> cstring \<Rightarrow> cstring \<Rightarrow> ('w, 'rk, 'rkt) change_publisher \<Rightarrow> bool" where
  "serving lib accepted guc conninfo db p \<longleftrightarrow> ready db p \<or> unstarted lib accepted guc conninfo p \<and> db = conninfo_dbname conninfo"

lemma check_kafka_init_ready: "ready db p \<Longrightarrow> check_kafka_init lib guc conninfo p = Inr p"
  by (simp add: ready_def check_kafka_init_def)

lemma serving_starts:
  assumes "serving lib accepted guc conninfo db p"
  obtains p1 where "check_kafka_init lib guc conninfo p = Inr p1" and "ready db p1"
    and "accepted (client (producer p1)) = accepted (client (producer p))" and "failures (producer p1) = failures (producer p)"
proof (cases "ready db p")
  case True
  then show thesis using that [OF check_kafka_init_ready] by blast
next
  case False
  then have u: "unstarted lib accepted guc conninfo p" and db: "db = conninfo_dbname conninfo" using assms by (auto simp: serving_def)
  have c: "nul_free conninfo" "conninfo \<noteq> []" "length conninfo \<le> length (apply_dbname p)" using u by (simp_all add: unstarted_def)
  obtain buf where buf: "get_dbname_from_conninfo conninfo (apply_dbname p) (int (length conninfo)) = Inr buf" "string_at buf = Inr db"
    unfolding db by (rule get_dbname_ok [OF c])
  obtain rk rkt st where init: "kafka_init lib guc (apply_g_rk p) (apply_g_rkt p) (guc ''kafka_server'') (Some db) (producer p) = Inr (0, Some rk, Some rkt, st)"
      "accepted (client st) = accepted (client (producer p))" "failures st = failures (producer p)"
    using u kafka_init_starts by (metis unstarted_def)
  show thesis
    by (rule that [of "p\<lparr>apply_dbname := buf, apply_g_rk := Some rk, apply_g_rkt := Some rkt, producer := st, kafka_initialized := True\<rparr>"])
      (use u buf init c(1) in \<open>simp_all add: check_kafka_init_def unstarted_def ready_def\<close>)
qed

lemma handed_over_start:
  "handed_over accepted m p1 p' \<Longrightarrow> accepted (client (producer p1)) = accepted (client (producer p)) \<Longrightarrow>
    failures (producer p1) = failures (producer p) \<Longrightarrow> handed_over accepted m p p'"
  by (simp add: handed_over_def)

lemma send_json:
  fixes fp :: "'r::zero double_ops"
  assumes c: "client_contract lib accepted" and fp: "sprintf_fits fp" and p: "ready db p"
    and j: "json_nul_free j" "fits (text_of j 0 True)"
  obtains p' where "send_item lib fp (Inr (item_of j)) p = Inr p'" and "ready db p'"
    and "handed_over accepted (text_of j 0 True) p p'"
proof -
  let ?t = "text_of j 0 True"
  have json: "json_of (item_of j :: 'r cJSON) = Some j" by (rule json_of_item_of [OF j(1)])
  have pr: "cJSON_Print fp (item_of j) = Inr (Some ?t)"
    using print_json [OF fp json j(2)] by (simp add: cJSON_Print_def)
  have t: "c_str ?t = ?t" by (rule c_str_nul_free [OF text_of_nul_free [OF json fp]])
  obtain rk rkt where h: "apply_g_rk p = Some rk" "apply_g_rkt p = Some rkt" using p by (auto simp: ready_def)
  obtain st' where st': "kafka_send_optimized lib (Some ?t) (Some rk) (Some rkt) (producer p) = Inr st'"
    and acc: "accepted (client st') = accepted (client (producer p)) @ [c_str ?t] \<and> failures st' = failures (producer p) \<or>
         accepted (client st') = accepted (client (producer p)) \<and> failures st' = Suc (failures (producer p))"
    by (rule kafka_send_step [OF c])
  show thesis
    by (rule that [of "p\<lparr>producer := st'\<rparr>"]) (use pr h st' p acc t in \<open>auto simp: send_item_def ready_def handed_over_def\<close>)
qed

text \<open>The JSON value of a change is well formed: no member holds a terminator.\<close>

lemma row_text_nul_free: "row_text vs = Inr ts \<Longrightarrow> list_all json_nul_free (map json_value ts)"
proof (induction vs arbitrary: ts)
  case (Cons v vs)
  then show ?case
    by (auto simp: bindR_eq_Inr_iff column_text_def json_value_def string_at_nul_free split: option.splits)
qed simp

lemma change_json_nul_free:
  assumes "nul_free db" and "nul_free tbl" and "list_all nul_free names"
    and "list_all json_nul_free (map json_value (change_columns ch))"
    and "case ch of Updated (Some old) new \<Rightarrow> list_all json_nul_free (map json_value old) | _ \<Rightarrow> True"
  shows "json_nul_free (change_json db tbl names ch)"
proof -
  have "list_all json_nul_free (map JString (take (length (change_columns ch)) names))"
    using assms(3) by (auto simp: list_all_iff dest: in_set_takeD)
  then show ?thesis using assms
    by (cases ch) (auto simp: change_json_def json_row_def split: option.splits)
qed

lemma string_at_ready: "ready db p \<Longrightarrow> string_at (apply_dbname p) = Inr db \<and> nul_free db"
  by (auto simp: ready_def dest: string_at_nul_free)

text \<open>
  The three entry points on a publisher that serves a database; the first change starts the
  producer. \<open>change_text\<close> is the message: the formatted text of the change.
\<close>

definition change_text :: "cstring \<Rightarrow> LogicalRepRelation \<Rightarrow> change_row \<Rightarrow> cstring" where
  "change_text db rel ch = text_of (change_json db (table_name_of rel) (attnames rel) ch) 0 True"

lemma change_sent:
  fixes fp :: "'r::zero double_ops" and rel ch
  defines "j \<equiv> \<lambda>db. change_json db (table_name_of rel) (attnames rel) ch"
  assumes "client_contract lib accepted" and "sprintf_fits fp" and p: "serving lib accepted guc conninfo db p"
    and names: "list_all nul_free (attnames rel)" and cols: "list_all json_nul_free (map json_value (change_columns ch))"
    and old: "case ch of Updated (Some old) new \<Rightarrow> list_all json_nul_free (map json_value old) | _ \<Rightarrow> True"
    and item: "nul_free db \<Longrightarrow> item db = Inr (item_of (j db))" and "fits (change_text db rel ch)"
  obtains p' where "bindR (check_kafka_init lib guc conninfo p) (\<lambda>p. bindR (string_at (apply_dbname p)) (\<lambda>db.
      send_item lib fp (item db) p)) = Inr p'" and "ready db p'" and "handed_over accepted (change_text db rel ch) p p'"
proof -
  obtain p1 where p1: "check_kafka_init lib guc conninfo p = Inr p1" "ready db p1"
    "accepted (client (producer p1)) = accepted (client (producer p))" "failures (producer p1) = failures (producer p)" by (rule serving_starts [OF p])
  have db: "string_at (apply_dbname p1) = Inr db" "nul_free db" using string_at_ready [OF p1(2)] by simp_all
  have "json_nul_free (j db)"
    unfolding j_def by (rule change_json_nul_free [OF db(2) nul_free_table_name names cols old])
  from send_json [OF assms(2,3) p1(2) this] assms(9) obtain p' where "send_item lib fp (Inr (item_of (j db))) p1 = Inr p'"
    "ready db p'" "handed_over accepted (change_text db rel ch) p1 p'" by (auto simp: change_text_def j_def)
  then show thesis using handed_over_start p1(3,4) by (intro that [of p']) (simp_all add: p1(1) db item)
qed

lemma insert_to_json:
  assumes "client_contract lib accepted" and "sprintf_fits fp" and "serving lib accepted guc conninfo db p"
    and rel: "list_all nul_free (attnames rel)"
    and new: "row_text (colvalues newtup) = Inr new" "length (colvalues newtup) \<le> length (attnames rel)"
    and "fits (change_text db rel (Inserted new))"
  obtains p' where "INSERT_TO_JSON lib guc fp conninfo rel newtup p = Inr p'" and "ready db p'"
    and "handed_over accepted (change_text db rel (Inserted new)) p p'"
  using row_text_nul_free [OF new(1)] change_items(1) [OF _ rel new] assms(7) that unfolding INSERT_TO_JSON_def
  by - (rule change_sent [OF assms(1-3) rel, where ch = "Inserted new" and item = "\<lambda>db. insert_item db rel newtup"], simp_all)

lemma delete_to_json:
  assumes "client_contract lib accepted" and "sprintf_fits fp" and "serving lib accepted guc conninfo db p"
    and rel: "list_all nul_free (attnames rel)"
    and old: "row_text (colvalues oldtup) = Inr old" "length (colvalues oldtup) \<le> length (attnames rel)"
    and "fits (change_text db rel (Deleted old))"
  obtains p' where "DELETE_TO_JSON lib guc fp conninfo rel oldtup p = Inr p'" and "ready db p'"
    and "handed_over accepted (change_text db rel (Deleted old)) p p'"
  using row_text_nul_free [OF old(1)] change_items(2) [OF _ rel old] assms(7) that unfolding DELETE_TO_JSON_def
  by - (rule change_sent [OF assms(1-3) rel, where ch = "Deleted old" and item = "\<lambda>db. delete_item db rel oldtup"], simp_all)

text \<open>The old row of an update, when one was received.\<close>

definition old_row_text :: "LogicalRepTupleData option \<Rightarrow> cstring option list option res" where
  "old_row_text oldtup = (case oldtup of None \<Rightarrow> Inr None
     | Some t \<Rightarrow> bindR (row_text (colvalues t)) (\<lambda>r. Inr (Some r)))"

lemma update_to_json:
  fixes fp :: "'r::zero double_ops"
  assumes "client_contract lib accepted" and "sprintf_fits fp" and "serving lib accepted guc conninfo db p"
    and rel: "list_all nul_free (attnames rel)"
    and new: "row_text (colvalues newtup) = Inr new" "length (colvalues newtup) \<le> length (attnames rel)"
    and old: "old_row_text oldtup = Inr old" and "fits (change_text db rel (Updated old new))"
  obtains p' where "UPDATE_TO_JSON lib guc fp conninfo rel oldtup newtup p = Inr p'" and "ready db p'"
    and "handed_over accepted (change_text db rel (Updated old new)) p p'"
proof -
  have "case old of None \<Rightarrow> True | Some r \<Rightarrow> list_all json_nul_free (map json_value r)"
    using old row_text_nul_free by (auto simp: old_row_text_def bindR_eq_Inr_iff split: option.splits)
  moreover have "update_item db rel oldtup newtup =
      Inr (item_of (change_json db (table_name_of rel) (attnames rel) (Updated old new)) :: 'r cJSON)" if "nul_free db"
    using old change_items(3,4) [OF that rel new] by (auto simp: old_row_text_def bindR_eq_Inr_iff split: option.splits)
  ultimately show thesis
    using that row_text_nul_free [OF new(1)] assms(8) unfolding UPDATE_TO_JSON_def
    by - (rule change_sent [OF assms(1-3) rel, where ch = "Updated old new" and item = "\<lambda>db. update_item db rel oldtup newtup"], simp_all split: option.splits)
qed

text \<open>Several messages handed over in order, each accepted or counted as a failure.\<close>

definition handed_over_all ::
    "('w \<Rightarrow> byte list list) \<Rightarrow> byte list list \<Rightarrow> ('w, 'rk, 'rkt) change_publisher \<Rightarrow> ('w, 'rk, 'rkt) change_publisher \<Rightarrow> bool" where
  "handed_over_all accepted msgs p p' \<longleftrightarrow>
     (\<exists>sel. subseq sel msgs \<and> accepted (client (producer p')) = accepted (client (producer p)) @ sel \<and>
        failures (producer p') + length sel = failures (producer p) + length msgs)"

lemma handed_over_all_Nil [simp]: "handed_over_all accepted [] p p"
  by (simp add: handed_over_all_def)

lemma handed_over_all_Cons:
  assumes "handed_over accepted m p p1" and "handed_over_all accepted ms p1 p2"
  shows "handed_over_all accepted (m # ms) p p2"
proof -
  obtain sel where sel: "subseq sel ms" "accepted (client (producer p2)) = accepted (client (producer p1)) @ sel"
    "failures (producer p2) + length sel = failures (producer p1) + length ms" using assms(2) by (auto simp: handed_over_all_def)
  from assms(1) show ?thesis unfolding handed_over_def
  proof
    assume "accepted (client (producer p1)) = accepted (client (producer p)) @ [m] \<and> failures (producer p1) = failures (producer p)"
    then show ?thesis using sel unfolding handed_over_all_def by (intro exI [of _ "m # sel"]) simp
  next
    assume "accepted (client (producer p1)) = accepted (client (producer p)) \<and> failures (producer p1) = Suc (failures (producer p))"
    then show ?thesis using sel unfolding handed_over_all_def by (intro exI [of _ sel]) (auto intro: list_emb_Cons)
  qed
qed

section \<open>Properties of the messages\<close>

text \<open>The publisher of a process that has just started.\<close>

definition demo_start_publisher :: "(byte list list, unit, unit) change_publisher" where
  "demo_start_publisher = \<lparr>apply_dbname = replicate 64 (Some NUL), apply_g_rk = None, apply_g_rkt = None,
     kafka_initialized = False, producer = demo_producer\<rparr>"

lemma demo_publisher_serving: "serving (demo_client 5) (\<lambda>w. w) (\<lambda>_. Some ''7'') ''dbname=shop'' ''shop'' demo_start_publisher"
proof -
  have "conninfo_dbname ''dbname=shop'' = ''shop''" by (simp add: conninfo_dbname_def is_blank_def)
  then show ?thesis using demo_client_starts by (simp add: serving_def unstarted_def demo_start_publisher_def nul_free_def)
qed

text \<open>Claim C36. The limit that \<^verbatim>\<open>check_kafka_init\<close> passes for its 64-byte buffer is the length of the connection string, not
  of the buffer. In a process that has not sent anything yet, the first change, of whichever kind, writes past the end of the
  buffer when the connection string is longer than 64 bytes, whatever the database name; with a shorter one the producer is
  started under the database name of the connection string.\<close>

theorem dbname_overflow:
  assumes "apply_g_rk p = None" and "apply_g_rkt p = None" and "\<not> kafka_initialized p"
    and "apply_dbname p = replicate 64 (Some NUL)" and "client_starts lib accepted guc" and "nul_free conninfo" and "conninfo \<noteq> []"
  shows "if 64 < length conninfo
    then INSERT_TO_JSON lib guc fp conninfo rel newtup p = Inl (Undefined OutOfBounds) \<and>
      UPDATE_TO_JSON lib guc fp conninfo rel oldtup newtup p = Inl (Undefined OutOfBounds) \<and>
      DELETE_TO_JSON lib guc fp conninfo rel newtup p = Inl (Undefined OutOfBounds)
    else \<exists>p'. check_kafka_init lib guc conninfo p = Inr p' \<and> ready (conninfo_dbname conninfo) p'"
proof (cases "64 < length conninfo")
  case True
  then have "get_dbname_from_conninfo conninfo (apply_dbname p) (int (length conninfo)) = Inl (Undefined OutOfBounds)"
    using assms(4,6) by (simp add: get_dbname_overflow)
  then have "check_kafka_init lib guc conninfo p = Inl (Undefined OutOfBounds)"
    using assms(1,3,6) by (simp add: check_kafka_init_def)
  with True show ?thesis by (simp add: INSERT_TO_JSON_def UPDATE_TO_JSON_def DELETE_TO_JSON_def)
next
  case False
  then have "serving lib accepted guc conninfo (conninfo_dbname conninfo) p" using assms by (simp add: serving_def unstarted_def)
  then show ?thesis using False serving_starts by metis
qed

theorem dbname_overflow_witness:
  "INSERT_TO_JSON (demo_client 5) (\<lambda>_. Some ''7'') demo_fp (''dbname=a host='' @ replicate 60 (CHR ''h''))
     \<lparr>remoteid = 7, nspname = ''public'', relname = ''t'', natts = 0, attnames = [], atttyps = [], replident = CHR ''d'', attkeys = []\<rparr>
     \<lparr>colvalues = [], colstatus = [], ncols = 0\<rparr> demo_start_publisher = Inl (Undefined OutOfBounds)"
  using dbname_overflow [where p = demo_start_publisher and conninfo = "''dbname=a host='' @ replicate 60 (CHR ''h'')" and
      newtup = "\<lparr>colvalues = [], colstatus = [], ncols = 0\<rparr>" and fp = demo_fp and
      rel = "\<lparr>remoteid = 7, nspname = ''public'', relname = ''t'', natts = 0, attnames = [], atttyps = [], replident = CHR ''d'', attkeys = []\<rparr>",
      OF _ _ _ _ demo_client_starts]
  by (simp add: demo_start_publisher_def nul_free_def)

definition demo_publisher :: "(byte list list, unit, unit) change_publisher" where
  "demo_publisher = \<lparr>apply_dbname = map Some (''shop'' @ [NUL]), apply_g_rk = Some (), apply_g_rkt = Some (),
     kafka_initialized = True, producer = demo_producer\<rparr>"

lemma demo_publisher_ready: "ready ''shop'' demo_publisher"
proof -
  have "string_at (map Some (''shop'' @ [NUL])) = Inr ''shop''" by (rule string_at_terminated) (simp add: nul_free_def)
  then show ?thesis by (simp add: ready_def demo_publisher_def)
qed

text \<open>The first change starts the producer: with a connection string that fits the 64-byte
  buffer, the topic is the database name behind \<^verbatim>\<open>dbname=\<close>, and later changes use the same
  handles without another start.\<close>

theorem first_change_starts_producer:
  assumes "nul_free conninfo" and "conninfo \<noteq> []" and "length conninfo \<le> length (apply_dbname p)"
    and "apply_g_rk p = None" and "\<not> kafka_initialized p"
    and "kafka_init lib guc None (apply_g_rkt p) (guc ''kafka_server'') (Some (conninfo_dbname conninfo)) (producer p) =
       Inr (0, Some rk, Some rkt, st)"
  shows "\<exists>p'. check_kafka_init lib guc conninfo p = Inr p' \<and> ready (conninfo_dbname conninfo) p' \<and>
    apply_g_rk p' = Some rk \<and> apply_g_rkt p' = Some rkt \<and> producer p' = st \<and>
    check_kafka_init lib guc conninfo p' = Inr p'"
proof -
  obtain buf where "get_dbname_from_conninfo conninfo (apply_dbname p) (int (length conninfo)) = Inr buf"
    and "string_at buf = Inr (conninfo_dbname conninfo)" by (rule get_dbname_ok [OF assms(1-3)])
  then show ?thesis using assms by (simp add: check_kafka_init_def ready_def)
qed

theorem first_change_starts_producer_witness:
  "\<exists>p'. check_kafka_init (demo_client 1) (\<lambda>_. Some ''7'') ''dbname=shop''
      (demo_publisher\<lparr>apply_dbname := replicate 64 (Some NUL), apply_g_rk := None, kafka_initialized := False\<rparr>) = Inr p' \<and>
     ready ''shop'' p'"
proof -
  let ?p = "demo_publisher\<lparr>apply_dbname := replicate 64 (Some NUL), apply_g_rk := None, kafka_initialized := False\<rparr>"
  have name: "conninfo_dbname ''dbname=shop'' = ''shop''" by (simp add: conninfo_dbname_def is_blank_def)
  obtain mm where "atoi (Some ''7'') = Inr mm" by (simp add: atoi_def Let_def)
  then obtain st where "kafka_init (demo_client 1) (\<lambda>_. Some ''7'') None (apply_g_rkt ?p) (Some ''7'') (Some ''shop'') (producer ?p) =
      Inr (0, Some (), Some (), st)"
    by (simp add: kafka_init_def demo_client_def Let_def)
  with first_change_starts_producer [of "''dbname=shop''" ?p "demo_client 1" "\<lambda>_. Some ''7''" "()" "()" st] name
  show ?thesis by (auto simp: nul_free_def demo_publisher_def)
qed

lemma first_separator: "a @ x # b = c @ x # d \<Longrightarrow> x \<notin> set a \<Longrightarrow> x \<notin> set c \<Longrightarrow> a = c \<and> b = d"
proof (induction a arbitrary: c)
  case Nil
  then show ?case by (cases c) auto
next
  case (Cons y a)
  then show ?case by (cases c) auto
qed

text \<open>The table field is the schema and the table name, joined by a dot: identifiers of the
  server's length (at most 63 bytes) fit the 128-byte buffer, so no name is cut off, and
  different tables have different fields unless an identifier contains a dot.\<close>

theorem table_name_exact:
  assumes "length (nspname rel) < 64" and "length (relname rel) < 64"
    and "nul_free (nspname rel)" and "nul_free (relname rel)"
  shows "table_name_of rel = nspname rel @ ''.'' @ relname rel \<and>
    (CHR ''.'' \<notin> set (nspname rel) \<and> CHR ''.'' \<notin> set (nspname rel') \<and> length (nspname rel') < 64 \<and>
       length (relname rel') < 64 \<and> nul_free (nspname rel') \<and> nul_free (relname rel') \<longrightarrow>
     (table_name_of rel = table_name_of rel' \<longleftrightarrow> nspname rel = nspname rel' \<and> relname rel = relname rel'))"
proof -
  have exact: "table_name_of r = nspname r @ ''.'' @ relname r"
    if "length (nspname r) < 64" "length (relname r) < 64" "nul_free (nspname r)" "nul_free (relname r)"
    for r :: LogicalRepRelation
    using that by (simp add: table_name_of_def)
  show ?thesis using exact [OF assms] exact [of rel']
    by (auto dest: first_separator)
qed

theorem table_name_exact_witness: "table_name_of demo_remote_rel = ''public.t''"
  using table_name_exact [of demo_remote_rel] by (simp add: demo_remote_rel_def nul_free_def)

text \<open>Claim C31. A row with more columns than the relation description has names makes the loop read
  behind the array of names: the column count of the message is never compared with the
  description.\<close>

theorem column_overrun:
  fixes fp :: "'r::zero double_ops"
  assumes "ready db p" and "row_text (colvalues newtup) = Inr new"
    and "length (attnames rel) < length (colvalues newtup)"
  shows "INSERT_TO_JSON lib guc fp conninfo rel newtup p = Inl (Undefined OutOfBounds) \<and>
    DELETE_TO_JSON lib guc fp conninfo rel newtup p = Inl (Undefined OutOfBounds)"
proof -
  have db: "string_at (apply_dbname p) = Inr db" "nul_free db" using string_at_ready [OF assms(1)] by simp_all
  have "add_columns rel 0 (colvalues newtup) names array = Inl (Undefined OutOfBounds)" for names array :: "'r cJSON"
    using assms(3) by (intro add_columns_overrun [OF assms(2)]) simp_all
  then show ?thesis
    by (simp add: INSERT_TO_JSON_def DELETE_TO_JSON_def check_kafka_init_ready [OF assms(1)] db send_item_def
        insert_item_def delete_item_def change_head_item del: item_of.simps)
qed

theorem column_overrun_witness:
  "INSERT_TO_JSON (demo_client 1) (\<lambda>_. None) demo_fp [] demo_remote_rel
     \<lparr>colvalues = [None, None], colstatus = ''nn'', ncols = 2\<rparr> demo_publisher = Inl (Undefined OutOfBounds)"
  using column_overrun [OF demo_publisher_ready, of "\<lparr>colvalues = [None, None], colstatus = ''nn'', ncols = 2\<rparr>"
      "[None, None]" demo_remote_rel "demo_client 1" "\<lambda>_. None" demo_fp "[]"]
  by (simp add: demo_remote_rel_def column_text_def)

end
