(* ===== verification/LocalXact.thy ===== *)
theory LocalXact
  imports CDC_Prelude
begin

text \<open>
  The local transaction the apply worker runs in, as far as the worker observes it: the block
  states of \<^verbatim>\<open>src/backend/access/transam/xact.c\<close>, what a commit records of the write-ahead
  log and of the replication origin, and the prepared transactions of
  \<^verbatim>\<open>twophase.c\<close>. Only a parallel worker uses subtransactions, so the block states of
  subtransactions are left out. Where a log record ends is up to the rest of the server: the
  function \<open>rec_end\<close>, from the end of the log before the record to the end after it, is a
  parameter.
\<close>

datatype TBlockState = TBLOCK_DEFAULT | TBLOCK_STARTED | TBLOCK_BEGIN | TBLOCK_INPROGRESS
  | TBLOCK_IMPLICIT_INPROGRESS | TBLOCK_PARALLEL_INPROGRESS | TBLOCK_END | TBLOCK_ABORT
  | TBLOCK_ABORT_END | TBLOCK_ABORT_PENDING | TBLOCK_PREPARE

text \<open>A prepared transaction: its identifier, and the origin position and time of its header.\<close>

record gxact =
  gx_gid :: cstring
  gx_origin_lsn :: XLogRecPtr
  gx_origin_timestamp :: TimestampTz

record local_xact =
  blockState :: TBlockState
  xid_assigned :: bool
  wal_end :: XLogRecPtr
  XactLastRecEnd :: XLogRecPtr
  XactLastCommitEnd :: XLogRecPtr
  prepareGID :: "cstring option"
  prepXacts :: "gxact list"
  replorigin_session_origin_lsn :: XLogRecPtr
  replorigin_session_origin_timestamp :: TimestampTz
  origin_remote_lsn :: XLogRecPtr

type_synonym wal = "XLogRecPtr \<Rightarrow> XLogRecPtr"

section \<open>The log and the origin\<close>

definition XLogInsert :: "wal \<Rightarrow> local_xact \<Rightarrow> local_xact" where
  "XLogInsert rec_end x = x\<lparr>wal_end := rec_end (wal_end x), XactLastRecEnd := rec_end (wal_end x)\<rparr>"

text \<open>The session of an apply worker always has an origin.\<close>

definition replorigin_session_advance :: "XLogRecPtr \<Rightarrow> local_xact \<Rightarrow> local_xact" where
  "replorigin_session_advance remote_commit x =
     (if origin_remote_lsn x < remote_commit then x\<lparr>origin_remote_lsn := remote_commit\<rparr> else x)"

text \<open>
  The commit record is written, and the origin moved on, only when the transaction has an id;
  a transaction that has neither an id nor written to the log leaves no trace. The record for
  invalidation messages of a transaction without an id is left out: such messages come from
  in-place updates of the catalogs and from temporary tables emptied at commit, and a transaction
  of the worker has neither.
\<close>

definition RecordTransactionCommit :: "wal \<Rightarrow> local_xact \<Rightarrow> local_xact" where
  "RecordTransactionCommit rec_end x =
     (if \<not> xid_assigned x \<and> XactLastRecEnd x = 0 then x
      else
        let x = (if xid_assigned x
                 then replorigin_session_advance (replorigin_session_origin_lsn x) (XLogInsert rec_end x) else x)
        in x\<lparr>XactLastCommitEnd := XactLastRecEnd x, XactLastRecEnd := 0\<rparr>)"

definition StartTransaction :: "local_xact \<Rightarrow> local_xact" where
  "StartTransaction x = x\<lparr>xid_assigned := False\<rparr>"

definition CommitTransaction :: "wal \<Rightarrow> local_xact \<Rightarrow> local_xact" where
  "CommitTransaction rec_end x = (RecordTransactionCommit rec_end x)\<lparr>xid_assigned := False\<rparr>"

definition PrepareTransaction :: "wal \<Rightarrow> local_xact \<Rightarrow> local_xact res" where
  "PrepareTransaction rec_end x =
     (case prepareGID x of None \<Rightarrow> Inl (Undefined NullPointer)
      | Some gid \<Rightarrow>
          if gid \<in> set (map gx_gid (prepXacts x)) then Inl (PgError ''transaction identifier is already in use'')
          else
            let g = \<lparr>gx_gid = gid, gx_origin_lsn = replorigin_session_origin_lsn x,
                      gx_origin_timestamp = replorigin_session_origin_timestamp x\<rparr>;
                x = replorigin_session_advance (replorigin_session_origin_lsn x) (XLogInsert rec_end x)
            in Inr (x\<lparr>prepXacts := prepXacts x @ [g], prepareGID := None, XactLastRecEnd := 0, xid_assigned := False\<rparr>))"

section \<open>Commands and blocks\<close>

text \<open>
  \<^verbatim>\<open>state == TRANS_INPROGRESS\<close>: between commands that is the case unless no transaction is
  open or the open one has failed.
\<close>

definition IsTransactionState :: "local_xact \<Rightarrow> bool" where
  "IsTransactionState x \<longleftrightarrow> blockState x \<notin> {TBLOCK_DEFAULT, TBLOCK_ABORT, TBLOCK_ABORT_END}"

definition IsTransactionBlock :: "local_xact \<Rightarrow> bool" where
  "IsTransactionBlock x \<longleftrightarrow> blockState x \<notin> {TBLOCK_DEFAULT, TBLOCK_STARTED}"

definition StartTransactionCommand :: "local_xact \<Rightarrow> local_xact res" where
  "StartTransactionCommand x =
     (case blockState x of
        TBLOCK_DEFAULT \<Rightarrow> Inr ((StartTransaction x)\<lparr>blockState := TBLOCK_STARTED\<rparr>)
      | TBLOCK_INPROGRESS \<Rightarrow> Inr x
      | TBLOCK_IMPLICIT_INPROGRESS \<Rightarrow> Inr x
      | TBLOCK_ABORT \<Rightarrow> Inr x
      | _ \<Rightarrow> Inl (PgError ''StartTransactionCommand: unexpected state''))"

text \<open>The worker never chains transactions. An aborted transaction is the end of the worker.\<close>

definition CommitTransactionCommand :: "wal \<Rightarrow> local_xact \<Rightarrow> local_xact res" where
  "CommitTransactionCommand rec_end x =
     (case blockState x of
        TBLOCK_STARTED \<Rightarrow> Inr ((CommitTransaction rec_end x)\<lparr>blockState := TBLOCK_DEFAULT\<rparr>)
      | TBLOCK_BEGIN \<Rightarrow> Inr (x\<lparr>blockState := TBLOCK_INPROGRESS\<rparr>)
      | TBLOCK_INPROGRESS \<Rightarrow> Inr x
      | TBLOCK_IMPLICIT_INPROGRESS \<Rightarrow> Inr x
      | TBLOCK_END \<Rightarrow> Inr ((CommitTransaction rec_end x)\<lparr>blockState := TBLOCK_DEFAULT\<rparr>)
      | TBLOCK_ABORT \<Rightarrow> Inr x
      | TBLOCK_ABORT_END \<Rightarrow> Inr (x\<lparr>blockState := TBLOCK_DEFAULT\<rparr>)
      | TBLOCK_ABORT_PENDING \<Rightarrow> Inr (x\<lparr>blockState := TBLOCK_DEFAULT, xid_assigned := False, XactLastRecEnd := 0\<rparr>)
      | TBLOCK_PREPARE \<Rightarrow> bindR (PrepareTransaction rec_end x) (\<lambda>x. Inr (x\<lparr>blockState := TBLOCK_DEFAULT\<rparr>))
      | _ \<Rightarrow> Inl (PgError ''CommitTransactionCommand: unexpected state''))"

definition BeginTransactionBlock :: "local_xact \<Rightarrow> local_xact res" where
  "BeginTransactionBlock x =
     (case blockState x of
        TBLOCK_STARTED \<Rightarrow> Inr (x\<lparr>blockState := TBLOCK_BEGIN\<rparr>)
      | TBLOCK_IMPLICIT_INPROGRESS \<Rightarrow> Inr (x\<lparr>blockState := TBLOCK_BEGIN\<rparr>)
      | TBLOCK_INPROGRESS \<Rightarrow> Inr x
      | TBLOCK_PARALLEL_INPROGRESS \<Rightarrow> Inr x
      | TBLOCK_ABORT \<Rightarrow> Inr x
      | _ \<Rightarrow> Inl (PgError ''BeginTransactionBlock: unexpected state''))"

text \<open>The result of the C function, and the new state (without chaining).\<close>

definition EndTransactionBlock :: "local_xact \<Rightarrow> (bool \<times> local_xact) res" where
  "EndTransactionBlock x =
     (case blockState x of
        TBLOCK_INPROGRESS \<Rightarrow> Inr (True, x\<lparr>blockState := TBLOCK_END\<rparr>)
      | TBLOCK_IMPLICIT_INPROGRESS \<Rightarrow> Inr (True, x\<lparr>blockState := TBLOCK_END\<rparr>)
      | TBLOCK_ABORT \<Rightarrow> Inr (False, x\<lparr>blockState := TBLOCK_ABORT_END\<rparr>)
      | TBLOCK_STARTED \<Rightarrow> Inr (True, x)
      | _ \<Rightarrow> Inl (PgError ''EndTransactionBlock: unexpected state''))"

definition PrepareTransactionBlock :: "cstring \<Rightarrow> local_xact \<Rightarrow> (bool \<times> local_xact) res" where
  "PrepareTransactionBlock gid x =
     bindR (EndTransactionBlock x) (\<lambda>(result, x).
     if result then
       (if blockState x = TBLOCK_END
        then Inr (True, x\<lparr>prepareGID := Some gid, blockState := TBLOCK_PREPARE\<rparr>)
        else Inr (False, x))
     else Inr (False, x))"

section \<open>Prepared transactions\<close>

definition TwoPhaseTransactionGid :: "Oid \<Rightarrow> TransactionId \<Rightarrow> cstring res" where
  "TwoPhaseTransactionGid subid xid =
     (if xid = InvalidTransactionId then Inl (PgError ''invalid two-phase transaction ID'')
      else Inr (take (200 - 1) (''pg_gid_'' @ show_nat (unat subid) @ ''_'' @ show_nat (unat xid))))"

definition LookupGXact :: "cstring \<Rightarrow> XLogRecPtr \<Rightarrow> TimestampTz \<Rightarrow> local_xact \<Rightarrow> bool" where
  "LookupGXact gid prepare_end_lsn prepare_time x \<longleftrightarrow>
     list_ex (\<lambda>g. gx_gid g = gid \<and> gx_origin_lsn g = prepare_end_lsn \<and> gx_origin_timestamp g = prepare_time) (prepXacts x)"

text \<open>
  Finishing a prepared transaction, either way, writes a record, moves the origin on and
  removes the entry.
\<close>

definition FinishPreparedTransaction :: "wal \<Rightarrow> cstring \<Rightarrow> bool \<Rightarrow> local_xact \<Rightarrow> local_xact res" where
  "FinishPreparedTransaction rec_end gid isCommit x =
     (if gid \<notin> set (map gx_gid (prepXacts x)) then Inl (PgError ''prepared transaction does not exist'')
      else Inr ((replorigin_session_advance (replorigin_session_origin_lsn x) (XLogInsert rec_end x))
             \<lparr>prepXacts := filter (\<lambda>g. gx_gid g \<noteq> gid) (prepXacts x)\<rparr>))"

end
