(* ===== verification/FlushFeedback.thy ===== *)
theory FlushFeedback
  imports PqFormat
begin

text \<open>
  How the apply worker of \<^verbatim>\<open>worker.c\<close> acknowledges: the list that associates the end of
  a remote transaction with the end of the local commit, the positions computed from it, and
  the status message sent to the publisher. The position up to which the local log is on disk,
  the clock and the settings are arguments.
\<close>

section \<open>Positions\<close>

record FlushPosition =
  local_end :: XLogRecPtr
  remote_end :: XLogRecPtr

type_synonym lsn_mapping = "FlushPosition list"

text \<open>
  The loop of \<^verbatim>\<open>get_flush_position\<close> deletes the entries that are on disk and stops at
  the first that is not, taking the write position from the tail of the list.
\<close>

fun flush_loop :: "XLogRecPtr \<Rightarrow> lsn_mapping \<Rightarrow> XLogRecPtr \<Rightarrow> XLogRecPtr \<Rightarrow>
     XLogRecPtr \<times> XLogRecPtr \<times> bool \<times> lsn_mapping" where
  "flush_loop local_flush [] writep flush = (writep, flush, False, [])"
| "flush_loop local_flush (pos # rest) writep flush =
     (if local_end pos \<le> local_flush
      then flush_loop local_flush rest (remote_end pos) (remote_end pos)
      else (remote_end (last (pos # rest)), flush, True, pos # rest))"

definition get_flush_position :: "XLogRecPtr \<Rightarrow> lsn_mapping \<Rightarrow> XLogRecPtr \<times> XLogRecPtr \<times> bool \<times> lsn_mapping" where
  "get_flush_position local_flush mapping = flush_loop local_flush mapping InvalidXLogRecPtr InvalidXLogRecPtr"

definition store_flush_position :: "bool \<Rightarrow> XLogRecPtr \<Rightarrow> XLogRecPtr \<Rightarrow> lsn_mapping \<Rightarrow> lsn_mapping" where
  "store_flush_position parallel_worker remote_lsn local_lsn mapping =
     (if parallel_worker then mapping else mapping @ [\<lparr>local_end = local_lsn, remote_end = remote_lsn\<rparr>])"

section \<open>The status message\<close>

text \<open>The static variables of \<^verbatim>\<open>send_feedback\<close>, and what was sent (newest last).\<close>

record feedback =
  reply_message :: "StringInfoData option"
  send_time :: TimestampTz
  last_recvpos :: XLogRecPtr
  last_writepos :: XLogRecPtr
  last_flushpos :: XLogRecPtr
  sent :: "byte list list"

definition TimestampDifferenceExceeds :: "TimestampTz \<Rightarrow> TimestampTz \<Rightarrow> int \<Rightarrow> bool" where
  "TimestampDifferenceExceeds start_time stop_time msec \<longleftrightarrow> sint (stop_time - start_time) \<ge> msec * 1000"

definition reply_writer :: "XLogRecPtr \<Rightarrow> XLogRecPtr \<Rightarrow> XLogRecPtr \<Rightarrow> TimestampTz \<Rightarrow> bool \<Rightarrow> StringInfoData \<Rightarrow> StringInfoData res" where
  "reply_writer recvpos flushpos writepos now requestReply =
     seq_writes [pq_sendbyte (of_nat (uchar (CHR ''r''))), pq_sendint64 recvpos, pq_sendint64 flushpos,
       pq_sendint64 writepos, pq_sendint64 now, pq_sendbyte (if requestReply then 1 else 0)]"

definition send_feedback ::
    "XLogRecPtr \<Rightarrow> TimestampTz \<Rightarrow> int \<Rightarrow> XLogRecPtr \<Rightarrow> bool \<Rightarrow> bool \<Rightarrow> lsn_mapping \<times> feedback \<Rightarrow> (lsn_mapping \<times> feedback) res" where
  "send_feedback local_flush now status_interval recvpos0 force requestReply = (\<lambda>(mapping, fb).
     if \<not> force \<and> status_interval \<le> 0 then Inr (mapping, fb)
     else
       let recvpos = (if recvpos0 < last_recvpos fb then last_recvpos fb else recvpos0);
           (writepos0, flushpos0, have_pending_txes, mapping) = get_flush_position local_flush mapping;
           writepos1 = (if \<not> have_pending_txes then recvpos else writepos0);
           flushpos1 = (if \<not> have_pending_txes then recvpos else flushpos0);
           writepos = (if writepos1 < last_writepos fb then last_writepos fb else writepos1);
           flushpos = (if flushpos1 < last_flushpos fb then last_flushpos fb else flushpos1)
       in if \<not> force \<and> writepos = last_writepos fb \<and> flushpos = last_flushpos fb \<and>
             \<not> TimestampDifferenceExceeds (send_time fb) now (status_interval * 1000)
          then Inr (mapping, fb)
          else
            bindR (case reply_message fb of None \<Rightarrow> makeStringInfo | Some m \<Rightarrow> resetStringInfo m) (\<lambda>msg.
            bindR (reply_writer recvpos flushpos writepos now requestReply msg) (\<lambda>msg.
            bindR (mem_read (si_data msg) 0 (si_len msg)) (\<lambda>bytes.
            Inr (mapping, fb\<lparr>reply_message := Some msg, send_time := now, sent := sent fb @ [bytes],
               last_recvpos := (if recvpos > last_recvpos fb then recvpos else last_recvpos fb),
               last_writepos := (if writepos > last_writepos fb then writepos else last_writepos fb),
               last_flushpos := (if flushpos > last_flushpos fb then flushpos else last_flushpos fb)\<rparr>)))))"

section \<open>What the positions mean\<close>

text \<open>The entries whose local commit is on disk: the longest such prefix.\<close>

definition on_disk :: "XLogRecPtr \<Rightarrow> lsn_mapping \<Rightarrow> lsn_mapping" where
  "on_disk local_flush mapping = takeWhile (\<lambda>pos. local_end pos \<le> local_flush) mapping"

definition pending :: "XLogRecPtr \<Rightarrow> lsn_mapping \<Rightarrow> lsn_mapping" where
  "pending local_flush mapping = dropWhile (\<lambda>pos. local_end pos \<le> local_flush) mapping"

definition last_remote :: "XLogRecPtr \<Rightarrow> lsn_mapping \<Rightarrow> XLogRecPtr" where
  "last_remote start mapping = (if mapping = [] then start else remote_end (last mapping))"

lemma flush_loop_eq:
  "flush_loop local_flush mapping writep flush =
     (last_remote writep mapping, last_remote flush (on_disk local_flush mapping),
      pending local_flush mapping \<noteq> [], pending local_flush mapping)"
  by (induction mapping arbitrary: writep flush) (auto simp: on_disk_def pending_def last_remote_def)

lemma get_flush_position_eq:
  "get_flush_position local_flush mapping =
     (last_remote 0 mapping, last_remote 0 (on_disk local_flush mapping),
      pending local_flush mapping \<noteq> [], pending local_flush mapping)"
  by (simp add: get_flush_position_def flush_loop_eq)

definition reply_bytes :: "XLogRecPtr \<Rightarrow> XLogRecPtr \<Rightarrow> XLogRecPtr \<Rightarrow> TimestampTz \<Rightarrow> bool \<Rightarrow> byte list" where
  "reply_bytes recvpos flushpos writepos now requestReply =
     [CHR ''r''] @ be_bytes 8 (unat recvpos) @ be_bytes 8 (unat flushpos) @ be_bytes 8 (unat writepos) @
     be_bytes 8 (unat now) @ [char_of (unat (if requestReply then 1 else 0 :: 8 word))] @ []"

lemma length_reply_bytes: "length (reply_bytes recvpos flushpos writepos now requestReply) = 34"
  by (simp add: reply_bytes_def)

lemma reply_writer_appends:
  "appends (reply_writer recvpos flushpos writepos now requestReply) (reply_bytes recvpos flushpos writepos now requestReply)"
proof -
  have r: "appends (pq_sendbyte (of_nat (uchar c))) [c]" for c
    using pq_sendbyte_appends [of "of_nat (uchar c)"] uchar_less [of c] by (simp add: unat_of_nat)
  show ?thesis unfolding reply_writer_def reply_bytes_def by (rule write_intros r)+
qed


section \<open>What is sent\<close>

text \<open>The positions of a report: what was received, what is on disk, what was applied.\<close>

definition recv_position :: "XLogRecPtr \<Rightarrow> feedback \<Rightarrow> XLogRecPtr" where
  "recv_position recvpos fb = max recvpos (last_recvpos fb)"

definition flush_position :: "XLogRecPtr \<Rightarrow> XLogRecPtr \<Rightarrow> lsn_mapping \<Rightarrow> feedback \<Rightarrow> XLogRecPtr" where
  "flush_position local_flush recvpos mapping fb =
     max (last_flushpos fb) (if pending local_flush mapping = [] then recv_position recvpos fb
                             else last_remote 0 (on_disk local_flush mapping))"

definition write_position :: "XLogRecPtr \<Rightarrow> XLogRecPtr \<Rightarrow> lsn_mapping \<Rightarrow> feedback \<Rightarrow> XLogRecPtr" where
  "write_position local_flush recvpos mapping fb =
     max (last_writepos fb) (if pending local_flush mapping = [] then recv_position recvpos fb
                             else last_remote 0 mapping)"

definition fb_wf :: "feedback \<Rightarrow> bool" where
  "fb_wf fb \<longleftrightarrow> (case reply_message fb of None \<Rightarrow> True | Some m \<Rightarrow> si_wf m)"

text \<open>The report is sent, unless it would repeat the last one too early.\<close>

definition report_due :: "XLogRecPtr \<Rightarrow> TimestampTz \<Rightarrow> int \<Rightarrow> XLogRecPtr \<Rightarrow> bool \<Rightarrow> lsn_mapping \<Rightarrow> feedback \<Rightarrow> bool" where
  "report_due local_flush now status_interval recvpos force mapping fb \<longleftrightarrow>
     force \<or> write_position local_flush recvpos mapping fb \<noteq> last_writepos fb \<or>
     flush_position local_flush recvpos mapping fb \<noteq> last_flushpos fb \<or>
     TimestampDifferenceExceeds (send_time fb) now (status_interval * 1000)"

lemma empty_reply:
  assumes "fb_wf fb"
  obtains msg where "(case reply_message fb of None \<Rightarrow> makeStringInfo | Some m \<Rightarrow> resetStringInfo m) = Inr msg"
    and "si_wf msg" and "si_bytes msg = []" and "si_len msg = 0"
proof (cases "reply_message fb")
  case None
  obtain s where "initStringInfo = Inr s" "si_wf s" "si_bytes s = []" "si_len s = 0" by (rule initStringInfo_ok)
  then show thesis using None by (intro that [of s]) (simp_all add: makeStringInfo_def initStringInfo_def)
next
  case (Some m)
  then have "si_wf m" using assms by (simp add: fb_wf_def)
  then obtain s where "resetStringInfo m = Inr s" "si_wf s" "si_bytes s = []" "si_len s = 0"
    by (rule resetStringInfo_ok)
  then show thesis using Some by (intro that [of s]) simp_all
qed

lemma reply_built:
  assumes "fb_wf fb"
  obtains msg where "bindR (case reply_message fb of None \<Rightarrow> makeStringInfo | Some m \<Rightarrow> resetStringInfo m)
      (reply_writer recvpos flushpos writepos now requestReply) = Inr msg" and "si_wf msg"
    and "mem_read (si_data msg) 0 (si_len msg) = Inr (reply_bytes recvpos flushpos writepos now requestReply)"
proof -
  let ?bs = "reply_bytes recvpos flushpos writepos now requestReply"
  obtain msg0 where m0: "(case reply_message fb of None \<Rightarrow> makeStringInfo | Some m \<Rightarrow> resetStringInfo m) = Inr msg0"
    "si_wf msg0" "si_bytes msg0 = []" "si_len msg0 = 0" by (rule empty_reply [OF assms])
  have "si_len msg0 + length ?bs < MaxAllocSize" using m0(4) by (simp add: length_reply_bytes MaxAllocSize_def)
  then obtain msg where m: "reply_writer recvpos flushpos writepos now requestReply msg0 = Inr msg" "si_wf msg"
    "si_bytes msg = ?bs" using m0(3) by (auto elim: appends_okE [OF reply_writer_appends m0(2)])
  have "mem_read (si_data msg) 0 (si_len msg) = Inr ?bs"
    using si_data_split [OF m(2)] length_si_bytes [OF m(2)] m(3)
    by (intro mem_read_map_Some [where pre = "[]" and post = "drop (si_len msg) (si_data msg)"]) simp_all
  then show thesis using m0(1) m by (intro that [of msg]) simp_all
qed

lemma send_feedback_skipped:
  "(\<not> force \<and> status_interval \<le> 0) \<Longrightarrow>
   send_feedback local_flush now status_interval recvpos force requestReply (mapping, fb) = Inr (mapping, fb)"
  by (simp add: send_feedback_def)

lemma max_if: "(if a < b then b else a) = max a b" for a b :: "'a::linorder"
  by (auto simp: max_def)

lemma send_feedback_sends:
  assumes "fb_wf fb" and "force \<or> 0 < status_interval"
  obtains msg where "si_wf msg" and
    "send_feedback local_flush now status_interval recvpos force requestReply (mapping, fb) =
      Inr (pending local_flush mapping,
        (if report_due local_flush now status_interval recvpos force mapping fb
         then fb\<lparr>reply_message := Some msg, send_time := now,
           sent := sent fb @ [reply_bytes (recv_position recvpos fb) (flush_position local_flush recvpos mapping fb)
                     (write_position local_flush recvpos mapping fb) now requestReply],
           last_recvpos := recv_position recvpos fb,
           last_writepos := write_position local_flush recvpos mapping fb,
           last_flushpos := flush_position local_flush recvpos mapping fb\<rparr>
         else fb))"
proof -
  let ?r = "recv_position recvpos fb" and ?f = "flush_position local_flush recvpos mapping fb"
    and ?w = "write_position local_flush recvpos mapping fb"
  obtain msg where m: "bindR (case reply_message fb of None \<Rightarrow> makeStringInfo | Some m \<Rightarrow> resetStringInfo m)
      (reply_writer ?r ?f ?w now requestReply) = Inr msg" "si_wf msg"
    "mem_read (si_data msg) 0 (si_len msg) = Inr (reply_bytes ?r ?f ?w now requestReply)"
    by (rule reply_built [OF assms(1)])
  have r: "max recvpos (last_recvpos fb) = ?r" "max (last_recvpos fb) ?r = ?r"
    by (simp_all add: recv_position_def)
  have f: "max (if pending local_flush mapping = [] then ?r else last_remote 0 (on_disk local_flush mapping)) (last_flushpos fb) = ?f"
    "max (last_flushpos fb) ?f = ?f" by (simp_all add: flush_position_def max.commute)
  have w: "max (if pending local_flush mapping = [] then ?r else last_remote 0 mapping) (last_writepos fb) = ?w"
    "max (last_writepos fb) ?w = ?w" by (simp_all add: write_position_def max.commute)
  have due: "report_due local_flush now status_interval recvpos force mapping fb \<longleftrightarrow>
      \<not> (\<not> force \<and> ?w = last_writepos fb \<and> ?f = last_flushpos fb \<and>
         \<not> TimestampDifferenceExceeds (send_time fb) now (status_interval * 1000))"
    by (auto simp: report_due_def)
  have on: "\<not> (\<not> force \<and> status_interval \<le> 0)" using assms(2) by auto
  have "send_feedback local_flush now status_interval recvpos force requestReply (mapping, fb) =
      (if \<not> report_due local_flush now status_interval recvpos force mapping fb
       then Inr (pending local_flush mapping, fb)
       else bindR (bindR (case reply_message fb of None \<Rightarrow> makeStringInfo | Some m \<Rightarrow> resetStringInfo m)
          (reply_writer ?r ?f ?w now requestReply)) (\<lambda>msg.
          bindR (mem_read (si_data msg) 0 (si_len msg)) (\<lambda>bytes.
          Inr (pending local_flush mapping, fb\<lparr>reply_message := Some msg, send_time := now, sent := sent fb @ [bytes],
             last_recvpos := ?r, last_writepos := ?w, last_flushpos := ?f\<rparr>))))"
    unfolding send_feedback_def Let_def get_flush_position_eq prod.case not_not max_if r f w due bindR_assoc
    by (simp only: on if_False)
  with m show thesis by (intro that [of msg]) simp_all
qed


section \<open>Runs of the worker\<close>

text \<open>
  A run, as the acknowledgement sees it: transactions are stored, the local log reaches the
  disk, feedback is sent. The publisher sends transactions in commit order, past everything the
  worker has reported as received, and what the worker reports as received covers what it
  has stored. \<open>stored\<close> is the history of the tracking list.
\<close>

record ack_run =
  disk :: XLogRecPtr
  tracked :: lsn_mapping
  stored :: lsn_mapping
  status :: feedback

inductive ack_step :: "ack_run \<Rightarrow> ack_run \<Rightarrow> bool" where
  store: "last_recvpos (status a) < remote_lsn \<Longrightarrow> \<forall>pos\<in>set (stored a). remote_end pos < remote_lsn \<Longrightarrow>
    ack_step a (a\<lparr>tracked := store_flush_position False remote_lsn local_lsn (tracked a),
       stored := stored a @ [\<lparr>local_end = local_lsn, remote_end = remote_lsn\<rparr>]\<rparr>)"
| log_flush: "disk a \<le> lsn \<Longrightarrow> ack_step a (a\<lparr>disk := lsn\<rparr>)"
| report: "\<forall>pos\<in>set (stored a). remote_end pos \<le> recvpos \<Longrightarrow>
    send_feedback (disk a) now status_interval recvpos force requestReply (tracked a, status a) = Inr (mapping, fb) \<Longrightarrow>
    ack_step a (a\<lparr>tracked := mapping, status := fb\<rparr>)"

definition ack_start :: ack_run where
  "ack_start = \<lparr>disk = 0, tracked = [], stored = [],
     status = \<lparr>reply_message = None, send_time = 0, last_recvpos = 0, last_writepos = 0, last_flushpos = 0, sent = []\<rparr>\<rparr>"

inductive ack_reachable :: "ack_run \<Rightarrow> bool" where
  start: "ack_reachable ack_start"
| step: "ack_reachable a \<Longrightarrow> ack_step a b \<Longrightarrow> ack_reachable b"

inductive_cases ack_stepE: "ack_step a b"

definition reports_flush :: "XLogRecPtr \<Rightarrow> byte list \<Rightarrow> bool" where
  "reports_flush flushpos msg \<longleftrightarrow> (\<exists>recvpos writepos now r. msg = reply_bytes recvpos flushpos writepos now r)"

definition ack_inv :: "ack_run \<Rightarrow> bool" where
  "ack_inv a \<longleftrightarrow> fb_wf (status a) \<and> sorted_wrt (\<lambda>p q. remote_end p < remote_end q) (stored a) \<and>
     (\<exists>gone. stored a = gone @ tracked a \<and> (\<forall>pos\<in>set gone. local_end pos \<le> disk a)) \<and>
     (\<forall>pos\<in>set (tracked a). last_flushpos (status a) < remote_end pos) \<and>
     last_flushpos (status a) \<le> last_recvpos (status a) \<and>
     (\<forall>msg\<in>set (sent (status a)). \<exists>f. reports_flush f msg \<and> f \<le> last_flushpos (status a))"

lemma on_disk_pending: "on_disk l m @ pending l m = m"
  by (simp add: on_disk_def pending_def)

lemma on_disk_local: "pos \<in> set (on_disk l m) \<Longrightarrow> local_end pos \<le> l"
  by (auto simp: on_disk_def dest: set_takeWhileD)

lemma last_remote_cases: "last_remote 0 m = 0 \<or> (\<exists>pos\<in>set m. last_remote 0 m = remote_end pos)"
  by (auto simp: last_remote_def intro: last_in_set)

text \<open>What a report acknowledges lies below every transaction that is still pending.\<close>

lemma flush_position_below:
  assumes "ack_inv a" and "pos \<in> set (pending (disk a) (tracked a))"
  shows "flush_position (disk a) recvpos (tracked a) (status a) < remote_end pos"
proof -
  let ?d = "on_disk (disk a) (tracked a)" and ?p = "pending (disk a) (tracked a)"
  have t: "tracked a = ?d @ ?p" by (simp add: on_disk_pending)
  then have pos: "pos \<in> set (tracked a)" using assms(2) by (metis UnCI set_append)
  have "sorted_wrt (\<lambda>p q. remote_end p < remote_end q) (?d @ ?p)"
    using assms(1) t by (auto simp: ack_inv_def sorted_wrt_append)
  then have "\<forall>q\<in>set ?d. remote_end q < remote_end pos" using assms(2) by (simp add: sorted_wrt_append)
  moreover have old: "last_flushpos (status a) < remote_end pos" using assms(1) pos by (simp add: ack_inv_def)
  then have "0 < remote_end pos" by (metis word_gt_0 word_le_less_eq word_zero_le leD)
  ultimately have "last_remote 0 ?d < remote_end pos" using last_remote_cases [of ?d] by auto
  moreover have "?p \<noteq> []" using assms(2) by auto
  ultimately show ?thesis using old by (simp add: flush_position_def)
qed

text \<open>A report never acknowledges more than was received.\<close>

lemma flush_position_received:
  assumes "ack_inv a" and "\<forall>pos\<in>set (stored a). remote_end pos \<le> recvpos"
  shows "flush_position (disk a) recvpos (tracked a) (status a) \<le> recv_position recvpos (status a)"
proof -
  have "set (on_disk (disk a) (tracked a)) \<subseteq> set (stored a)"
    using assms(1) on_disk_pending by (auto simp: ack_inv_def on_disk_def dest: set_takeWhileD)
  then have "last_remote 0 (on_disk (disk a) (tracked a)) \<le> recvpos"
    using last_remote_cases [of "on_disk (disk a) (tracked a)"] assms(2) by auto
  moreover have "last_flushpos (status a) \<le> last_recvpos (status a)" using assms(1) by (simp add: ack_inv_def)
  ultimately show ?thesis by (auto simp: flush_position_def recv_position_def max_def)
qed

lemma ack_inv_report:
  assumes inv: "ack_inv a" and recv: "\<forall>pos\<in>set (stored a). remote_end pos \<le> recvpos"
    and r: "send_feedback (disk a) now status_interval recvpos force requestReply (tracked a, status a) = Inr (mapping, fb)"
  shows "ack_inv (a\<lparr>tracked := mapping, status := fb\<rparr>)"
proof (cases "force \<or> 0 < status_interval")
  case False
  then have "a\<lparr>tracked := mapping, status := fb\<rparr> = a" using r by (auto simp: send_feedback_skipped)
  then show ?thesis using inv by simp
next
  case True
  have wf: "fb_wf (status a)" using inv by (simp add: ack_inv_def)
  let ?f = "flush_position (disk a) recvpos (tracked a) (status a)"
  have below: "\<forall>pos\<in>set (pending (disk a) (tracked a)). ?f < remote_end pos"
    using flush_position_below [OF inv] by blast
  have f: "last_flushpos (status a) \<le> ?f" "?f \<le> recv_position recvpos (status a)"
    using flush_position_received [OF inv recv] by (simp_all add: flush_position_def)
  obtain gone where gone: "stored a = gone @ tracked a" "\<forall>pos\<in>set gone. local_end pos \<le> disk a"
    using inv by (auto simp: ack_inv_def)
  have split: "\<exists>gone. stored a = gone @ pending (disk a) (tracked a) \<and> (\<forall>pos\<in>set gone. local_end pos \<le> disk a)"
    using gone on_disk_local on_disk_pending [of "disk a" "tracked a"]
    by (intro exI [of _ "gone @ on_disk (disk a) (tracked a)"]) auto
  have rep: "reports_flush g (reply_bytes x g y z b)" for g x y z b by (auto simp: reports_flush_def)
  have old: "\<forall>msg\<in>set (sent (status a)). \<exists>g. reports_flush g msg \<and> g \<le> ?f"
    using inv f(1) by (meson ack_inv_def order_trans)
  have pend: "set (pending (disk a) (tracked a)) \<subseteq> set (tracked a)"
    by (auto simp: pending_def dest: set_dropWhileD)
  obtain msg where "si_wf msg" and "send_feedback (disk a) now status_interval recvpos force requestReply (tracked a, status a) =
      Inr (pending (disk a) (tracked a),
        (if report_due (disk a) now status_interval recvpos force (tracked a) (status a)
         then (status a)\<lparr>reply_message := Some msg, send_time := now,
           sent := sent (status a) @ [reply_bytes (recv_position recvpos (status a)) ?f
                     (write_position (disk a) recvpos (tracked a) (status a)) now requestReply],
           last_recvpos := recv_position recvpos (status a),
           last_writepos := write_position (disk a) recvpos (tracked a) (status a),
           last_flushpos := ?f\<rparr>
         else status a))" by (rule send_feedback_sends [OF wf True])
  then consider (sent) m where "mapping = pending (disk a) (tracked a)" "fb_wf fb" "last_flushpos fb = ?f"
      "last_recvpos fb = recv_position recvpos (status a)" "sent fb = sent (status a) @ [m]" "reports_flush ?f m"
    | (silent) "mapping = pending (disk a) (tracked a)" "fb = status a"
    using r rep by (auto simp: fb_wf_def split: if_splits)
  then show ?thesis
  proof cases
    case sent
    then have "\<forall>msg\<in>set (sent fb). \<exists>g. reports_flush g msg \<and> g \<le> ?f" using old by (auto intro: exI [of _ ?f])
    then show ?thesis using sent inv below f split by (simp add: ack_inv_def)
  next
    case silent
    then show ?thesis using inv split pend unfolding ack_inv_def by auto
  qed
qed

lemma ack_inv_store:
  assumes inv: "ack_inv a" and "last_recvpos (status a) < remote_lsn" and "\<forall>pos\<in>set (stored a). remote_end pos < remote_lsn"
  shows "ack_inv (a\<lparr>tracked := store_flush_position False remote_lsn local_lsn (tracked a),
       stored := stored a @ [\<lparr>local_end = local_lsn, remote_end = remote_lsn\<rparr>]\<rparr>)"
proof -
  have "last_flushpos (status a) < remote_lsn" using assms(1,2) by (auto simp: ack_inv_def)
  then show ?thesis using assms by (auto simp: ack_inv_def store_flush_position_def sorted_wrt_append)
qed

lemma ack_inv_log_flush: "ack_inv a \<Longrightarrow> disk a \<le> lsn \<Longrightarrow> ack_inv (a\<lparr>disk := lsn\<rparr>)"
  unfolding ack_inv_def by (auto intro: order_trans)

lemma ack_inv_step: "ack_inv a \<Longrightarrow> ack_step a b \<Longrightarrow> ack_inv b"
  by (erule ack_stepE) (simp_all add: ack_inv_store ack_inv_report ack_inv_log_flush)

lemma ack_inv_reachable: "ack_reachable a \<Longrightarrow> ack_inv a"
  by (induction rule: ack_reachable.induct) (auto simp: ack_inv_step, simp add: ack_inv_def ack_start_def fb_wf_def)

section \<open>Properties of the acknowledgement\<close>

text \<open>The loop over the tracking list, which deletes entries while it walks and leaves early,
  computes what a declarative reading gives: the write position is the last transaction's, the
  flush position that of the last transaction in the longest prefix on disk, and the list
  keeps the rest.\<close>

theorem flush_position_reference:
  "get_flush_position local_flush mapping =
     (if mapping = [] then 0 else remote_end (last mapping),
      let durable = takeWhile (\<lambda>pos. local_end pos \<le> local_flush) mapping
      in if durable = [] then 0 else remote_end (last durable),
      \<not> list_all (\<lambda>pos. local_end pos \<le> local_flush) mapping,
      dropWhile (\<lambda>pos. local_end pos \<le> local_flush) mapping)"
  by (simp add: get_flush_position_eq last_remote_def on_disk_def pending_def Let_def list_all_iff)

text \<open>Claim C27. In every run, each status message the worker has sent reports a flush position such
  that all transactions at or before it had their local commit on disk; the messages are the
  34 bytes of the protocol.\<close>

theorem acknowledged_is_durable:
  assumes "ack_reachable a" and "msg \<in> set (sent (status a))"
  shows "length msg = 34 \<and> (\<exists>recvpos flushpos writepos now r. msg = reply_bytes recvpos flushpos writepos now r \<and>
    (\<forall>pos\<in>set (stored a). remote_end pos \<le> flushpos \<longrightarrow> local_end pos \<le> disk a))"
proof -
  have inv: "ack_inv a" by (rule ack_inv_reachable [OF assms(1)])
  then obtain f where f: "reports_flush f msg" "f \<le> last_flushpos (status a)" using assms(2) by (auto simp: ack_inv_def)
  have "local_end pos \<le> disk a" if "pos \<in> set (stored a)" "remote_end pos \<le> f" for pos
  proof -
    have "\<not> last_flushpos (status a) < remote_end pos" using that(2) f(2) by simp
    then show ?thesis using inv that(1) by (auto simp: ack_inv_def)
  qed
  moreover obtain recvpos writepos now r where "msg = reply_bytes recvpos f writepos now r"
    using f(1) by (auto simp: reports_flush_def)
  ultimately show ?thesis by (metis length_reply_bytes)
qed


theorem acknowledged_is_durable_witness:
  "\<exists>a msg. ack_reachable a \<and> map remote_end (stored a) = [10] \<and> set (sent (status a)) = {msg} \<and> length msg = 34"
proof -
  let ?a1 = "ack_start\<lparr>tracked := store_flush_position False 10 5 (tracked ack_start),
       stored := stored ack_start @ [\<lparr>local_end = 5, remote_end = 10\<rparr>]\<rparr>"
  have "ack_step ack_start ?a1" by (rule ack_step.store) (simp_all add: ack_start_def)
  then have r1: "ack_reachable ?a1" by (rule ack_reachable.step [OF ack_reachable.start])
  have wf: "fb_wf (status ?a1)" by (simp add: ack_start_def fb_wf_def)
  obtain m fb where fb: "send_feedback (disk ?a1) 1 10 10 True False (tracked ?a1, status ?a1) = Inr (m, fb)"
    "length (sent fb) = 1"
    by (rule send_feedback_sends [OF wf, where force = True and status_interval = 10 and local_flush = "disk ?a1"
          and now = 1 and recvpos = 10 and requestReply = False and mapping = "tracked ?a1"])
      (auto simp: report_due_def ack_start_def)
  let ?a2 = "?a1\<lparr>tracked := m, status := fb\<rparr>"
  have "ack_step ?a1 ?a2" by (rule ack_step.report [OF _ fb(1)]) (simp add: ack_start_def)
  then have r2: "ack_reachable ?a2" by (rule ack_reachable.step [OF r1])
  obtain msg where "sent fb = [msg]" using fb(2) by (auto simp: length_Suc_conv)
  moreover have "length msg = 34" using acknowledged_is_durable [OF r2, of msg] calculation by simp
  ultimately show ?thesis using r2 by (intro exI [of _ ?a2] exI [of _ msg]) (simp add: ack_start_def)
qed

end
