(* ===== verification/SpoolFile.thy ===== *)
theory SpoolFile
  imports PqFormat
begin

text \<open>
  The files the apply worker (\<^verbatim>\<open>worker.c\<close>) spools streamed transactions to: the changes
  file of a transaction, appended to while segments of it arrive, and the file that remembers
  where in it each subtransaction starts, so that an aborted subtransaction can be cut off.
  The temporary files are a map from names to contents; a position in a file is its distance
  from the start (the C code splits it into a segment number and an offset). Lengths are
  stored in the byte order of the machine, little-endian here.
\<close>

section \<open>State\<close>

record SubXactInfo =
  sx_xid :: TransactionId
  sx_offset :: nat

text \<open>An unallocated array is empty; a cell that was not written yet is \<^const>\<open>None\<close>.\<close>

record ApplySubXactData =
  nsubxacts :: nat
  nsubxacts_max :: nat
  subxact_last :: TransactionId
  subxacts :: "SubXactInfo option list"

text \<open>
  The subxact file holds a count and items; a shorter list overwrites the file from its start,
  leaving old items behind the new ones. \<open>stream_fd\<close> is the open changes file and the position in it.
\<close>

record spool =
  fileset_ready :: bool
  changes_files :: "cstring \<rightharpoonup> byte list"
  subxact_files :: "cstring \<rightharpoonup> nat \<times> SubXactInfo list"
  stream_fd :: "(cstring \<times> nat) option"
  subxact_data :: ApplySubXactData

definition no_subxacts :: ApplySubXactData where
  "no_subxacts = \<lparr>nsubxacts = 0, nsubxacts_max = 0, subxact_last = InvalidTransactionId, subxacts = []\<rparr>"

definition empty_spool :: spool where
  "empty_spool = \<lparr>fileset_ready = False, changes_files = (\<lambda>_. None), subxact_files = (\<lambda>_. None),
     stream_fd = None, subxact_data = no_subxacts\<rparr>"

section \<open>Operations\<close>

definition subxact_filename :: "Oid \<Rightarrow> TransactionId \<Rightarrow> cstring" where
  "subxact_filename subid xid = show_nat (unat subid) @ ''-'' @ show_nat (unat xid) @ ''.subxacts''"

definition changes_filename :: "Oid \<Rightarrow> TransactionId \<Rightarrow> cstring" where
  "changes_filename subid xid = show_nat (unat subid) @ ''-'' @ show_nat (unat xid) @ ''.changes''"

definition cleanup_subxact_info :: "spool \<Rightarrow> spool" where
  "cleanup_subxact_info sp = sp\<lparr>subxact_data := no_subxacts\<rparr>"

text \<open>\<^verbatim>\<open>palloc\<close> refuses requests beyond its limit; an item has 16 bytes.\<close>

definition alloc_items :: "nat \<Rightarrow> SubXactInfo option list \<Rightarrow> SubXactInfo option list res" where
  "alloc_items n old =
     (if 16 * n \<le> MaxAllocSize then Inr (take n old @ replicate (n - length old) None)
      else Inl (PgError ''invalid memory alloc request size''))"

definition subxact_info_write :: "Oid \<Rightarrow> TransactionId \<Rightarrow> spool \<Rightarrow> spool res" where
  "subxact_info_write subid xid sp =
     (let path = subxact_filename subid xid; d = subxact_data sp
      in if \<not> fileset_ready sp then Inl (Undefined NullPointer)
         else if nsubxacts d = 0
         then Inr ((cleanup_subxact_info sp)\<lparr>subxact_files := (subxact_files sp)(path := None)\<rparr>)
         else if length (subxacts d) < nsubxacts d then Inl (Undefined OutOfBounds)
         else if None \<in> set (take (nsubxacts d) (subxacts d)) then Inl (Undefined UninitialisedRead)
         else
           let old = (case subxact_files sp path of None \<Rightarrow> [] | Some (n, items) \<Rightarrow> items);
               items = map the (take (nsubxacts d) (subxacts d)) @ drop (nsubxacts d) old
           in Inr ((cleanup_subxact_info sp)\<lparr>subxact_files := (subxact_files sp)(path \<mapsto> (nsubxacts d, items))\<rparr>))"

fun ceil_log2 :: "nat \<Rightarrow> nat" where
  "ceil_log2 n = (if n \<le> 1 then 0 else Suc (ceil_log2 ((n + 1) div 2)))"

declare ceil_log2.simps [simp del]

definition subxact_info_read :: "Oid \<Rightarrow> TransactionId \<Rightarrow> spool \<Rightarrow> spool res" where
  "subxact_info_read subid xid sp =
     (if \<not> fileset_ready sp then Inl (Undefined NullPointer)
      else case subxact_files sp (subxact_filename subid xid) of
        None \<Rightarrow> Inr sp
      | Some (n, items) \<Rightarrow>
          let cap = 2 ^ ceil_log2 n
          in bindR (alloc_items cap []) (\<lambda>cells.
             if n > length items then Inl (PgError ''could not read from file set'')
             else Inr (sp\<lparr>subxact_data := (subxact_data sp)\<lparr>nsubxacts := n, nsubxacts_max := cap,
                    subxacts := map Some (take n items) @ drop n cells\<rparr>\<rparr>)))"

text \<open>The scan from the tail: the index of the last item of a transaction.\<close>

fun find_subxact :: "SubXactInfo option list \<Rightarrow> TransactionId \<Rightarrow> nat \<Rightarrow> nat option res" where
  "find_subxact cells xid 0 = Inr None"
| "find_subxact cells xid (Suc i) =
     (if length cells \<le> i then Inl (Undefined OutOfBounds)
      else case cells ! i of None \<Rightarrow> Inl (Undefined UninitialisedRead)
      | Some item \<Rightarrow> if sx_xid item = xid then Inr (Some i) else find_subxact cells xid i)"

text \<open>Room for one more item: 128 of them at first, then twice as many.\<close>

definition grow_subxacts :: "ApplySubXactData \<Rightarrow> ApplySubXactData res" where
  "grow_subxacts d =
     (if nsubxacts d = 0 then
        bindR (alloc_items 128 []) (\<lambda>cells. Inr (d\<lparr>nsubxacts_max := 128, subxacts := cells\<rparr>))
      else if nsubxacts d = nsubxacts_max d then
        bindR (alloc_items (2 * nsubxacts_max d) (subxacts d)) (\<lambda>cells.
        Inr (d\<lparr>nsubxacts_max := 2 * nsubxacts_max d, subxacts := cells\<rparr>))
      else Inr d)"

definition subxact_info_add :: "TransactionId \<Rightarrow> TransactionId \<Rightarrow> spool \<Rightarrow> spool res" where
  "subxact_info_add stream_xid xid sp =
     (let d = subxact_data sp
      in if stream_xid = xid then Inr sp
         else if subxact_last d = xid then Inr sp
         else
           let d = d\<lparr>subxact_last := xid\<rparr>
           in bindR (find_subxact (subxacts d) xid (nsubxacts d)) (\<lambda>found.
              if found \<noteq> None then Inr (sp\<lparr>subxact_data := d\<rparr>)
              else bindR (grow_subxacts d) (\<lambda>d.
                case stream_fd sp of None \<Rightarrow> Inl (Undefined NullPointer)
                | Some (path, pos) \<Rightarrow>
                    if length (subxacts d) \<le> nsubxacts d then Inl (Undefined OutOfBounds)
                    else Inr (sp\<lparr>subxact_data := d\<lparr>subxacts := (subxacts d)[nsubxacts d := Some \<lparr>sx_xid = xid, sx_offset = pos\<rparr>],
                             nsubxacts := nsubxacts d + 1\<rparr>\<rparr>))))"

definition stream_cleanup_files :: "Oid \<Rightarrow> TransactionId \<Rightarrow> spool \<Rightarrow> spool res" where
  "stream_cleanup_files subid xid sp =
     (if \<not> fileset_ready sp then Inl (Undefined NullPointer)
      else if changes_files sp (changes_filename subid xid) = None then Inl (PgError ''could not delete unknown BufFile'')
      else Inr (sp\<lparr>changes_files := (changes_files sp)(changes_filename subid xid := None),
                   subxact_files := (subxact_files sp)(subxact_filename subid xid := None)\<rparr>))"

definition open_changes :: "cstring \<Rightarrow> spool \<Rightarrow> byte list res" where
  "open_changes path sp =
     (if \<not> fileset_ready sp then Inl (Undefined NullPointer)
      else case changes_files sp path of None \<Rightarrow> Inl (PgError ''could not open temporary file from BufFile'')
      | Some bytes \<Rightarrow> Inr bytes)"

definition stream_open_file :: "Oid \<Rightarrow> TransactionId \<Rightarrow> bool \<Rightarrow> spool \<Rightarrow> spool res" where
  "stream_open_file subid xid first_segment sp =
     (let path = changes_filename subid xid
      in if \<not> fileset_ready sp then Inl (Undefined NullPointer)
         else if first_segment then Inr (sp\<lparr>changes_files := (changes_files sp)(path \<mapsto> []), stream_fd := Some (path, 0)\<rparr>)
         else bindR (open_changes path sp) (\<lambda>bytes. Inr (sp\<lparr>stream_fd := Some (path, length bytes)\<rparr>)))"

definition stream_close_file :: "spool \<Rightarrow> spool" where
  "stream_close_file sp = sp\<lparr>stream_fd := None\<rparr>"

text \<open>Writing at the current position of the open file.\<close>

definition BufFileWrite :: "byte list \<Rightarrow> spool \<Rightarrow> spool res" where
  "BufFileWrite bs sp =
     (case stream_fd sp of None \<Rightarrow> Inl (Undefined NullPointer)
      | Some (path, pos) \<Rightarrow>
          bindR (open_changes path sp) (\<lambda>bytes.
          Inr (sp\<lparr>changes_files := (changes_files sp)(path \<mapsto> take pos bytes @ bs @ drop (pos + length bs) bytes),
                  stream_fd := Some (path, pos + length bs)\<rparr>)))"

definition le_bytes :: "nat \<Rightarrow> nat \<Rightarrow> byte list" where
  "le_bytes k n = rev (be_bytes k n)"

definition le_value :: "byte list \<Rightarrow> nat" where
  "le_value bs = be_value (rev bs)"

definition stream_write_change :: "byte \<Rightarrow> StringInfoData \<Rightarrow> spool \<Rightarrow> spool res" where
  "stream_write_change action s sp =
     (let len = si_len s - si_cursor s
      in bindR (BufFileWrite (le_bytes 4 (len + 1)) sp) (\<lambda>sp.
         bindR (BufFileWrite [action] sp) (\<lambda>sp.
         bindR (mem_read (si_data s) (si_cursor s) len) (\<lambda>bytes. BufFileWrite bytes sp))))"

text \<open>
  The next record of the open file: its length, then its bytes; \<^const>\<open>None\<close> at the end of
  the file.
\<close>

definition next_record :: "spool \<Rightarrow> (byte list option \<times> spool) res" where
  "next_record sp =
     (case stream_fd sp of None \<Rightarrow> Inl (Undefined NullPointer)
      | Some (path, pos) \<Rightarrow>
          bindR (open_changes path sp) (\<lambda>bytes.
          let rest = drop pos bytes
          in if rest = [] then Inr (None, sp)
             else if length rest < 4 then Inl (PgError ''could not read from file set'')
             else
               let len = sint (of_nat (le_value (take 4 rest)) :: 32 word)
               in if len \<le> 0 then Inl (PgError ''incorrect length in streaming transaction's changes file'')
                  else if length rest < 4 + nat len then Inl (PgError ''could not read from file set'')
                  else Inr (Some (take (nat len) (drop 4 rest)), sp\<lparr>stream_fd := Some (path, pos + 4 + nat len)\<rparr>)))"

text \<open>
  The file part of \<^verbatim>\<open>stream_abort_internal\<close>: an aborted transaction loses its files, an
  aborted subtransaction everything from its first change on.
\<close>

definition stream_abort_files :: "Oid \<Rightarrow> TransactionId \<Rightarrow> TransactionId \<Rightarrow> spool \<Rightarrow> spool res" where
  "stream_abort_files subid xid subxid sp =
     (if xid = subxid then stream_cleanup_files subid xid sp
      else
        bindR (subxact_info_read subid xid sp) (\<lambda>sp.
        bindR (find_subxact (subxacts (subxact_data sp)) subxid (nsubxacts (subxact_data sp))) (\<lambda>found.
        case found of None \<Rightarrow> Inr (cleanup_subxact_info sp)
        | Some subidx \<Rightarrow>
            (case subxacts (subxact_data sp) ! subidx of None \<Rightarrow> Inl (Undefined UninitialisedRead)
             | Some item \<Rightarrow>
                 bindR (open_changes (changes_filename subid xid) sp) (\<lambda>bytes.
                 subxact_info_write subid xid
                   (sp\<lparr>changes_files := (changes_files sp)(changes_filename subid xid \<mapsto> take (sx_offset item) bytes),
                       subxact_data := (subxact_data sp)\<lparr>nsubxacts := subidx\<rparr>\<rparr>))))))"


section \<open>The spooled transaction\<close>

text \<open>
  What the files stand for: the changes of a transaction in order, each with the transaction id
  it was made under and the bytes of its message (action and contents).
\<close>

type_synonym spooled = "(TransactionId \<times> byte list) list"

definition record_bytes :: "byte list \<Rightarrow> byte list" where
  "record_bytes r = le_bytes 4 (length r) @ r"

definition spool_bytes :: "spooled \<Rightarrow> byte list" where
  "spool_bytes cs = concat (map (\<lambda>(x, r). record_bytes r) cs)"

definition first_of_subxact :: "TransactionId \<Rightarrow> spooled \<Rightarrow> nat \<Rightarrow> bool" where
  "first_of_subxact xtop cs i \<longleftrightarrow> fst (cs ! i) \<noteq> xtop \<and> fst (cs ! i) \<notin> fst ` set (take i cs)"

definition sub_starts :: "TransactionId \<Rightarrow> spooled \<Rightarrow> SubXactInfo list" where
  "sub_starts xtop cs = map (\<lambda>i. \<lparr>sx_xid = fst (cs ! i), sx_offset = length (spool_bytes (take i cs))\<rparr>)
     (filter (first_of_subxact xtop cs) [0..<length cs])"

text \<open>Aborting a subtransaction drops its first change and all that came later.\<close>

definition drop_subxact :: "TransactionId \<Rightarrow> spooled \<Rightarrow> spooled" where
  "drop_subxact subxid cs = takeWhile (\<lambda>(x, r). x \<noteq> subxid) cs"

definition spooled_ok :: "spooled \<Rightarrow> bool" where
  "spooled_ok cs \<longleftrightarrow> (\<forall>(x, r)\<in>set cs. x \<noteq> InvalidTransactionId \<and> r \<noteq> [] \<and> length r < 2 ^ 31)"

lemma spool_bytes_append [simp]: "spool_bytes (cs @ ds) = spool_bytes cs @ spool_bytes ds"
  by (simp add: spool_bytes_def)

lemma spool_bytes_Nil [simp]: "spool_bytes [] = []"
  by (simp add: spool_bytes_def)

lemma spool_bytes_Cons [simp]: "spool_bytes ((x, r) # cs) = record_bytes r @ spool_bytes cs"
  by (simp add: spool_bytes_def)

lemma length_le_bytes [simp]: "length (le_bytes k n) = k"
  by (simp add: le_bytes_def)

lemma le_value_le_bytes: "le_value (le_bytes k n) = n mod 256 ^ k"
  by (simp add: le_bytes_def le_value_def be_value_be_bytes)

lemma sub_starts_Nil [simp]: "sub_starts xtop [] = []"
  by (simp add: sub_starts_def)

lemma sub_starts_length: "length (sub_starts xtop cs) \<le> length cs"
  unfolding sub_starts_def using length_filter_le [of "first_of_subxact xtop cs" "[0..<length cs]"] by simp

lemma sub_starts_prefix: "\<exists>rest. sub_starts xtop (cs @ ds) = sub_starts xtop cs @ rest"
proof (rule exI)
  have "filter (first_of_subxact xtop (cs @ ds)) [0..<length cs] = filter (first_of_subxact xtop cs) [0..<length cs]"
    by (rule filter_cong) (auto simp: first_of_subxact_def nth_append)
  then show "sub_starts xtop (cs @ ds) = sub_starts xtop cs @
      map (\<lambda>i. \<lparr>sx_xid = fst ((cs @ ds) ! i), sx_offset = length (spool_bytes (take i (cs @ ds)))\<rparr>)
        (filter (first_of_subxact xtop (cs @ ds)) [length cs..<length cs + length ds])"
    unfolding sub_starts_def by (simp add: upt_add_eq_append [of 0, simplified] nth_append)
qed

lemma sub_starts_snoc:
  "sub_starts xtop (cs @ [(x, r)]) = sub_starts xtop cs @
     (if x = xtop \<or> x \<in> fst ` set cs then [] else [\<lparr>sx_xid = x, sx_offset = length (spool_bytes cs)\<rparr>])"
proof -
  have "filter (first_of_subxact xtop (cs @ [(x, r)])) [0..<length cs] = filter (first_of_subxact xtop cs) [0..<length cs]"
    by (rule filter_cong) (auto simp: first_of_subxact_def nth_append)
  then show ?thesis unfolding sub_starts_def by (auto simp: nth_append first_of_subxact_def)
qed

lemma sub_starts_xids: "sx_xid ` set (sub_starts xtop cs) = fst ` set cs - {xtop}"
proof (induction cs rule: rev_induct)
  case (snoc c cs)
  then show ?case by (cases c) (auto simp: sub_starts_snoc)
qed simp

lemma sub_starts_distinct: "distinct (map sx_xid (sub_starts xtop cs))"
proof (induction cs rule: rev_induct)
  case (snoc c cs)
  then show ?case using sub_starts_xids [of xtop cs] by (cases c) (auto simp: sub_starts_snoc)
qed simp

text \<open>The item of a subtransaction marks the changes made before it.\<close>

lemma sub_starts_split:
  assumes "subxid \<in> fst ` set cs" and "subxid \<noteq> xtop"
  obtains rest where "sub_starts xtop cs = sub_starts xtop (drop_subxact subxid cs) @
      \<lparr>sx_xid = subxid, sx_offset = length (spool_bytes (drop_subxact subxid cs))\<rparr> # rest"
    and "\<exists>more. spool_bytes cs = spool_bytes (drop_subxact subxid cs) @ more"
proof -
  let ?p = "drop_subxact subxid cs"
  have "dropWhile (\<lambda>(x, r). x \<noteq> subxid) cs \<noteq> []" using assms(1) by (auto simp: dropWhile_eq_Nil_conv)
  then obtain c ds where c: "dropWhile (\<lambda>(x, r). x \<noteq> subxid) cs = c # ds" by (cases "dropWhile (\<lambda>(x, r). x \<noteq> subxid) cs") auto
  then have "fst c = subxid" by (metis (mono_tags, lifting) case_prod_beta dropWhile_eq_Cons_conv)
  then have cs: "cs = (?p @ [(subxid, snd c)]) @ ds"
    using takeWhile_dropWhile_id [of "\<lambda>(x, r). x \<noteq> subxid" cs] c by (cases c) (simp add: drop_subxact_def)
  have "subxid \<notin> fst ` set ?p" by (auto simp: drop_subxact_def dest: set_takeWhileD)
  then have "sub_starts xtop (?p @ [(subxid, snd c)]) =
      sub_starts xtop ?p @ [\<lparr>sx_xid = subxid, sx_offset = length (spool_bytes ?p)\<rparr>]"
    using assms(2) by (simp add: sub_starts_snoc)
  then obtain rest where "sub_starts xtop cs = sub_starts xtop ?p @ \<lparr>sx_xid = subxid, sx_offset = length (spool_bytes ?p)\<rparr> # rest"
    using sub_starts_prefix [of xtop "?p @ [(subxid, snd c)]" ds] cs by auto
  moreover have "spool_bytes cs = spool_bytes ?p @ (record_bytes (snd c) @ spool_bytes ds)" using cs
    by (metis append.assoc append_Nil2 spool_bytes_Cons spool_bytes_Nil spool_bytes_append)
  ultimately show thesis using that by blast
qed

lemma drop_subxact_absent: "subxid \<notin> fst ` set cs \<Longrightarrow> drop_subxact subxid cs = cs"
  by (force simp: drop_subxact_def takeWhile_eq_all_conv)


section \<open>Files and transaction\<close>

lemma changes_filename_inj: "changes_filename subid x = changes_filename subid y \<longleftrightarrow> x = y"
  by (simp add: changes_filename_def show_nat_inj word_unat_eq_iff)

lemma subxact_filename_inj: "subxact_filename subid x = subxact_filename subid y \<longleftrightarrow> x = y"
  by (simp add: subxact_filename_def show_nat_inj word_unat_eq_iff)

text \<open>The array holds the items, and the last transaction seen is among them.\<close>

definition items_in :: "SubXactInfo list \<Rightarrow> ApplySubXactData \<Rightarrow> bool" where
  "items_in items d \<longleftrightarrow> nsubxacts d = length items \<and> length (subxacts d) = nsubxacts_max d \<and>
     length items \<le> nsubxacts_max d \<and> (nsubxacts_max d = 0 \<or> (\<exists>k. nsubxacts_max d = 2 ^ k)) \<and> take (length items) (subxacts d) = map Some items \<and>
     (subxact_last d = InvalidTransactionId \<or> subxact_last d \<in> sx_xid ` set items)"

text \<open>The files of a transaction that is not being streamed, and of one that is.\<close>

definition at_rest :: "Oid \<Rightarrow> TransactionId \<Rightarrow> spooled \<Rightarrow> spool \<Rightarrow> bool" where
  "at_rest subid xid cs sp \<longleftrightarrow> fileset_ready sp \<and> stream_fd sp = None \<and> subxact_data sp = no_subxacts \<and>
     changes_files sp (changes_filename subid xid) = Some (spool_bytes cs) \<and>
     (if sub_starts xid cs = [] then subxact_files sp (subxact_filename subid xid) = None
      else \<exists>stale. subxact_files sp (subxact_filename subid xid) =
             Some (length (sub_starts xid cs), sub_starts xid cs @ stale))"

definition streaming :: "Oid \<Rightarrow> TransactionId \<Rightarrow> spooled \<Rightarrow> spool \<Rightarrow> bool" where
  "streaming subid xid cs sp \<longleftrightarrow> fileset_ready sp \<and>
     stream_fd sp = Some (changes_filename subid xid, length (spool_bytes cs)) \<and>
     changes_files sp (changes_filename subid xid) = Some (spool_bytes cs) \<and>
     items_in (sub_starts xid cs) (subxact_data sp)"

lemma find_subxact_items:
  assumes "take (length items) cells = map Some items" and "n \<le> length items"
  shows "find_subxact cells xid n = Inr (if xid \<in> sx_xid ` set (take n items)
     then Some (GREATEST i. i < n \<and> sx_xid (items ! i) = xid) else None)"
  using assms(2)
proof (induction n)
  case (Suc n)
  have len: "length items \<le> length cells" using arg_cong [OF assms(1), of length] by simp
  have cell: "cells ! n = Some (items ! n)"
    using Suc.prems assms(1) by (metis Suc_le_lessD nth_map nth_take)
  have take: "take (Suc n) items = take n items @ [items ! n]" using Suc.prems by (simp add: take_Suc_conv_app_nth)
  show ?case
  proof (cases "sx_xid (items ! n) = xid")
    case True
    then have "(GREATEST i. i < Suc n \<and> sx_xid (items ! i) = xid) = n" by (intro Greatest_equality) auto
    then show ?thesis using True cell len Suc.prems take by simp
  next
    case False
    then have "(i < Suc n \<and> sx_xid (items ! i) = xid) = (i < n \<and> sx_xid (items ! i) = xid)" for i
      using less_Suc_eq by auto
    then show ?thesis using False cell len Suc take by auto
  qed
qed simp

text \<open>Items have distinct transactions, so the scan finds the one there is.\<close>

lemma find_subxact_at:
  assumes "take (length (as @ item # bs)) cells = map Some (as @ item # bs)"
    and "distinct (map sx_xid (as @ item # bs))"
  shows "find_subxact cells (sx_xid item) (length (as @ item # bs)) = Inr (Some (length as))"
proof -
  let ?items = "as @ item # bs"
  have "(GREATEST i. i < length ?items \<and> sx_xid (?items ! i) = sx_xid item) = length as"
  proof (rule Greatest_equality)
    fix i assume i: "i < length ?items \<and> sx_xid (?items ! i) = sx_xid item"
    then have "map sx_xid ?items ! i = map sx_xid ?items ! length as"
      using nth_map [of i ?items sx_xid] nth_map [of "length as" ?items sx_xid] by (simp del: map_append list.map)
    then have "i = length as" using assms(2) i nth_eq_iff_index_eq [of "map sx_xid ?items" i "length as"] by simp
    then show "i \<le> length as" by simp
  qed simp
  then show ?thesis using find_subxact_items [OF assms(1), of "length ?items" "sx_xid item"] by simp
qed

lemma find_subxact_none:
  assumes "items_in items d" and "xid \<notin> sx_xid ` set items"
  shows "find_subxact (subxacts d) xid (nsubxacts d) = Inr None"
  using find_subxact_items [of items "subxacts d" "length items" xid] assms by (simp add: items_in_def)

lemma ceil_log2_bound: "n \<le> 2 ^ ceil_log2 n"
proof (induction n rule: ceil_log2.induct)
  case (1 n)
  show ?case
  proof (cases "n \<le> 1")
    case True
    then show ?thesis by (simp add: ceil_log2.simps [of n])
  next
    case False
    then have "n \<le> 2 * ((n + 1) div 2)" by simp
    also have "\<dots> \<le> 2 * 2 ^ ceil_log2 ((n + 1) div 2)" using 1 [OF False] by simp
    finally show ?thesis using False by (simp add: ceil_log2.simps [of n])
  qed
qed


lemma ceil_log2_least: "n \<le> 2 ^ k \<Longrightarrow> ceil_log2 n \<le> k"
proof (induction n arbitrary: k rule: ceil_log2.induct)
  case (1 n)
  show ?case
  proof (cases "n \<le> 1")
    case True
    then show ?thesis by (simp add: ceil_log2.simps [of n])
  next
    case False
    then obtain j where j: "k = Suc j" using 1(2) by (cases k) auto
    then have "(n + 1) div 2 \<le> 2 ^ j" using 1(2) by simp
    then show ?thesis using 1(1) [OF False] False j by (simp add: ceil_log2.simps [of n])
  qed
qed

text \<open>Up to \<open>2\<^sup>2\<^sup>5\<close> subtransactions the array can be allocated.\<close>

definition few :: "TransactionId \<Rightarrow> spooled \<Rightarrow> bool" where
  "few xid cs \<longleftrightarrow> length (sub_starts xid cs) \<le> 2 ^ 25"

lemma alloc_items_ok: "n \<le> 2 ^ 25 \<Longrightarrow> alloc_items n old = Inr (take n old @ replicate (n - length old) None)"
  by (simp add: alloc_items_def MaxAllocSize_def)

lemma grow_subxacts_ok:
  assumes d: "items_in items d" and few: "length items < 2 ^ 25"
  obtains d' where "grow_subxacts d = Inr d'" and "nsubxacts d' = length items" and "length (subxacts d') = nsubxacts_max d'"
    and "length items < nsubxacts_max d'" and "\<exists>k. nsubxacts_max d' = 2 ^ k"
    and "take (length items) (subxacts d') = map Some items" and "subxact_last d' = subxact_last d"
proof -
  consider (first) "items = []" | (full) "items \<noteq> []" "length items = nsubxacts_max d"
    | (room) "items \<noteq> []" "length items < nsubxacts_max d" using d by (force simp: items_in_def)
  then show thesis
  proof cases
    case first
    have "\<exists>k. (128 :: nat) = 2 ^ k" by (rule exI [of _ 7]) simp
    then show thesis using first d that [of "d\<lparr>nsubxacts_max := 128, subxacts := replicate 128 None\<rparr>"]
      by (simp add: grow_subxacts_def items_in_def alloc_items_ok)
  next
    case full
    then obtain k where k: "length items = 2 ^ k" using d by (auto simp: items_in_def)
    then have "(2 :: nat) ^ k < 2 ^ 25" using few by simp
    then have "Suc k \<le> 25" using power_less_imp_less_exp by (metis Suc_leI less_numeral_extra(4) one_less_numeral_iff semiring_norm(76))
    then have "(2 :: nat) ^ Suc k \<le> 2 ^ 25" by (intro power_increasing) simp_all
    then have a: "alloc_items (2 * nsubxacts_max d) (subxacts d) =
        Inr (subxacts d @ replicate (length items) None)"
      using full k d by (simp add: alloc_items_ok items_in_def)
    have "\<exists>j. 2 * length items = 2 ^ j" "0 < length items" using k by (auto intro: exI [of _ "Suc k"])
    then show thesis using full a d
        that [of "d\<lparr>nsubxacts_max := 2 * nsubxacts_max d, subxacts := subxacts d @ replicate (length items) None\<rparr>"]
      by (simp add: grow_subxacts_def items_in_def)
  next
    case room
    then show thesis using d that [of d] by (auto simp: grow_subxacts_def items_in_def)
  qed
qed

section \<open>The operations on a spooled transaction\<close>

definition same_others :: "Oid \<Rightarrow> TransactionId \<Rightarrow> spool \<Rightarrow> spool \<Rightarrow> bool" where
  "same_others subid xid sp sp' \<longleftrightarrow> (\<forall>y. y \<noteq> xid \<longrightarrow>
     changes_files sp' (changes_filename subid y) = changes_files sp (changes_filename subid y) \<and>
     subxact_files sp' (subxact_filename subid y) = subxact_files sp (subxact_filename subid y))"

lemma same_others_refl [simp]: "same_others subid xid sp sp"
  by (simp add: same_others_def)

lemma same_others_trans: "same_others subid xid a b \<Longrightarrow> same_others subid xid b c \<Longrightarrow> same_others subid xid a c"
  by (simp add: same_others_def)

lemma stream_open_first:
  assumes "fileset_ready sp" and "subxact_data sp = no_subxacts"
  obtains sp' where "stream_open_file subid xid True sp = Inr sp'" and "streaming subid xid [] sp'"
    and "same_others subid xid sp sp'"
proof -
  have "stream_open_file subid xid True sp = Inr (sp\<lparr>changes_files := (changes_files sp)(changes_filename subid xid \<mapsto> []),
      stream_fd := Some (changes_filename subid xid, 0)\<rparr>)" (is "_ = Inr ?sp")
    using assms by (simp add: stream_open_file_def Let_def)
  then show thesis using assms that [of ?sp]
    by (simp add: streaming_def items_in_def no_subxacts_def same_others_def changes_filename_inj)
qed

lemma stream_open_again:
  assumes rest: "at_rest subid xid cs sp" and "few xid cs"
  obtains sp' where "bindR (stream_open_file subid xid False sp) (subxact_info_read subid xid) = Inr sp'"
    and "streaming subid xid cs sp'" and "same_others subid xid sp sp'"
proof -
  let ?sp1 = "sp\<lparr>stream_fd := Some (changes_filename subid xid, length (spool_bytes cs))\<rparr>"
  have o: "stream_open_file subid xid False sp = Inr ?sp1"
    using rest by (simp add: stream_open_file_def at_rest_def open_changes_def)
  show thesis
  proof (cases "sub_starts xid cs = []")
    case True
    then have "subxact_info_read subid xid ?sp1 = Inr ?sp1" using rest by (simp add: subxact_info_read_def at_rest_def)
    then show thesis using o rest True that [of ?sp1]
      by (simp add: at_rest_def streaming_def items_in_def no_subxacts_def same_others_def)
  next
    case False
    let ?n = "length (sub_starts xid cs)"
    obtain stale where f: "subxact_files sp (subxact_filename subid xid) = Some (?n, sub_starts xid cs @ stale)"
      using rest False by (auto simp: at_rest_def)
    have cap: "?n \<le> 2 ^ ceil_log2 ?n" by (rule ceil_log2_bound)
    have "ceil_log2 ?n \<le> 25" using assms(2) by (intro ceil_log2_least) (simp add: few_def)
    then have "(2 :: nat) ^ ceil_log2 ?n \<le> 2 ^ 25" by (intro power_increasing) simp_all
    then have "alloc_items (2 ^ ceil_log2 ?n) [] = Inr (replicate (2 ^ ceil_log2 ?n) None)" by (simp add: alloc_items_ok)
    then have "subxact_info_read subid xid ?sp1 = Inr (?sp1\<lparr>subxact_data := (subxact_data sp)\<lparr>nsubxacts := ?n,
        nsubxacts_max := 2 ^ ceil_log2 ?n, subxacts := map Some (sub_starts xid cs) @ replicate (2 ^ ceil_log2 ?n - ?n) None\<rparr>\<rparr>)"
      (is "_ = Inr ?sp2")
      using f rest by (simp add: subxact_info_read_def at_rest_def Let_def)
    then show thesis using o rest cap that [of ?sp2]
      by (auto simp: at_rest_def streaming_def items_in_def no_subxacts_def same_others_def)
  qed
qed


lemma subxact_info_add_ok:
  assumes st: "streaming subid xid cs sp" and x: "x \<noteq> InvalidTransactionId" and few: "few xid (cs @ [(x, r)])"
  obtains sp' where "subxact_info_add xid x sp = Inr sp'" and "changes_files sp' = changes_files sp"
    and "subxact_files sp' = subxact_files sp" and "stream_fd sp' = stream_fd sp" and "fileset_ready sp'"
    and "items_in (sub_starts xid (cs @ [(x, r)])) (subxact_data sp')"
proof -
  let ?d = "subxact_data sp" and ?items = "sub_starts xid cs"
  have in0: "items_in ?items ?d" using st by (simp add: streaming_def)
  have xids: "sx_xid ` set ?items = fst ` set cs - {xid}" by (rule sub_starts_xids)
  consider (same) "xid = x \<or> subxact_last ?d = x" | (seen) "xid \<noteq> x" "subxact_last ?d \<noteq> x" "x \<in> fst ` set cs"
    | (new) "xid \<noteq> x" "subxact_last ?d \<noteq> x" "x \<notin> fst ` set cs" by blast
  then show thesis
  proof cases
    case same
    then have "sub_starts xid (cs @ [(x, r)]) = ?items"
      using in0 x xids by (auto simp: sub_starts_snoc items_in_def)
    then show thesis using same st that [of sp] by (auto simp: subxact_info_add_def Let_def streaming_def)
  next
    case seen
    have d: "items_in ?items (?d\<lparr>subxact_last := x\<rparr>)" using in0 seen xids by (simp add: items_in_def)
    have "x \<in> sx_xid ` set ?items" using seen xids by simp
    then have "find_subxact (subxacts ?d) x (nsubxacts ?d) \<noteq> Inr None \<and>
        (\<exists>i. find_subxact (subxacts ?d) x (nsubxacts ?d) = Inr (Some i))"
      using find_subxact_items [of ?items "subxacts ?d" "length ?items" x] in0 by (simp add: items_in_def)
    then show thesis using seen st d that [of "sp\<lparr>subxact_data := ?d\<lparr>subxact_last := x\<rparr>\<rparr>"]
      by (auto simp: subxact_info_add_def Let_def streaming_def sub_starts_snoc)
  next
    case new
    have none: "find_subxact (subxacts ?d) x (nsubxacts ?d) = Inr None"
      using new xids by (intro find_subxact_none [OF in0]) simp
    have d0: "items_in ?items (?d\<lparr>subxact_last := InvalidTransactionId\<rparr>)" using in0 by (simp add: items_in_def)
    have n: "length ?items < 2 ^ 25" using few new by (simp add: few_def sub_starts_snoc)
    obtain d' where d': "grow_subxacts ?d = Inr d'" "nsubxacts d' = length ?items" "length (subxacts d') = nsubxacts_max d'"
      "length ?items < nsubxacts_max d'" "\<exists>k. nsubxacts_max d' = 2 ^ k"
      "take (length ?items) (subxacts d') = map Some ?items" by (rule grow_subxacts_ok [OF in0 n])
    have g: "grow_subxacts (?d\<lparr>subxact_last := x\<rparr>) = Inr (d'\<lparr>subxact_last := x\<rparr>)"
      using d'(1) by (auto simp: grow_subxacts_def bindR_eq_Inr_iff split: if_splits)
    let ?item = "\<lparr>sx_xid = x, sx_offset = length (spool_bytes cs)\<rparr>"
    have "take (Suc (length ?items)) ((subxacts d')[length ?items := Some ?item]) = map Some (?items @ [?item])"
      using d'(3,4,6) by (simp add: take_Suc_conv_app_nth)
    then have in1: "items_in (sub_starts xid (cs @ [(x, r)]))
        (d'\<lparr>subxact_last := x, subxacts := (subxacts d')[length ?items := Some ?item], nsubxacts := length ?items + 1\<rparr>)"
      using d' new by (simp add: items_in_def sub_starts_snoc)
    show thesis
      by (rule that [of "sp\<lparr>subxact_data := d'\<lparr>subxact_last := x, subxacts := (subxacts d')[length ?items := Some ?item],
            nsubxacts := length ?items + 1\<rparr>\<rparr>"])
        (use new none g st d' in1 in \<open>auto simp: subxact_info_add_def Let_def streaming_def\<close>)
  qed
qed

lemma BufFileWrite_end:
  assumes "fileset_ready sp" and "stream_fd sp = Some (path, pos)" and "changes_files sp path = Some bytes"
    and "pos = length bytes"
  shows "BufFileWrite bs sp = Inr (sp\<lparr>changes_files := (changes_files sp)(path \<mapsto> bytes @ bs),
     stream_fd := Some (path, pos + length bs)\<rparr>)"
  using assms by (simp add: BufFileWrite_def open_changes_def)

text \<open>One change, written behind the others, with its subtransaction noted if it is new.\<close>

lemma spool_change_ok:
  assumes st: "streaming subid xid cs sp" and x: "x \<noteq> InvalidTransactionId"
    and few: "few xid (cs @ [(x, action # bytes)])"
    and msg: "mem_read (si_data s) (si_cursor s) (si_len s - si_cursor s) = Inr bytes"
  obtains sp' where "bindR (subxact_info_add xid x sp) (stream_write_change action s) = Inr sp'"
    and "streaming subid xid (cs @ [(x, action # bytes)]) sp'" and "same_others subid xid sp sp'"
proof -
  let ?path = "changes_filename subid xid"
  obtain sp1 where a: "subxact_info_add xid x sp = Inr sp1" "changes_files sp1 = changes_files sp"
    "subxact_files sp1 = subxact_files sp" "stream_fd sp1 = stream_fd sp" "fileset_ready sp1"
    "items_in (sub_starts xid (cs @ [(x, action # bytes)])) (subxact_data sp1)"
    by (rule subxact_info_add_ok [OF st x few])
  have len: "si_len s - si_cursor s = length bytes"
    using msg by (auto simp: mem_read_def split: if_splits)
  have f: "stream_fd sp1 = Some (?path, length (spool_bytes cs))" "changes_files sp1 ?path = Some (spool_bytes cs)"
    using st a by (simp_all add: streaming_def)
  let ?file = "spool_bytes cs @ record_bytes (action # bytes)"
  have "stream_write_change action s sp1 = Inr (sp1\<lparr>changes_files := (changes_files sp1)(?path \<mapsto> ?file),
      stream_fd := Some (?path, length ?file)\<rparr>)" (is "_ = Inr ?sp2")
    using a(5) f msg len by (simp add: stream_write_change_def BufFileWrite_end record_bytes_def Let_def ac_simps)
  then show thesis using a st
    by (intro that [of ?sp2]) (simp_all add: streaming_def same_others_def changes_filename_inj)
qed

lemma stream_stop_ok:
  assumes st: "streaming subid xid cs sp"
  obtains sp' where "subxact_info_write subid xid sp = Inr sp'" and "at_rest subid xid cs (stream_close_file sp')"
    and "same_others subid xid sp (stream_close_file sp')"
proof -
  let ?d = "subxact_data sp" and ?items = "sub_starts xid cs"
  have d: "nsubxacts ?d = length ?items" "take (length ?items) (subxacts ?d) = map Some ?items"
    "length ?items \<le> length (subxacts ?d)" using st by (simp_all add: streaming_def items_in_def)
  show thesis
  proof (cases "?items = []")
    case True
    then show thesis using st d
      by (intro that [of "(cleanup_subxact_info sp)\<lparr>subxact_files := (subxact_files sp)(subxact_filename subid xid := None)\<rparr>"])
        (simp_all add: subxact_info_write_def Let_def streaming_def at_rest_def cleanup_subxact_info_def stream_close_file_def
          same_others_def subxact_filename_inj)
  next
    case False
    let ?old = "case subxact_files sp (subxact_filename subid xid) of None \<Rightarrow> [] | Some (n, items) \<Rightarrow> items"
    have "subxact_info_write subid xid sp = Inr ((cleanup_subxact_info sp)\<lparr>subxact_files :=
        (subxact_files sp)(subxact_filename subid xid \<mapsto> (length ?items, ?items @ drop (length ?items) ?old))\<rparr>)" (is "_ = Inr ?sp")
      using st d False by (simp add: subxact_info_write_def Let_def streaming_def comp_def)
    then show thesis using st False
      by (intro that [of ?sp])
        (auto simp: streaming_def at_rest_def cleanup_subxact_info_def stream_close_file_def same_others_def subxact_filename_inj)
  qed
qed


lemma subxact_info_read_keeps:
  "subxact_info_read subid xid sp = Inr sp' \<Longrightarrow> changes_files sp' = changes_files sp \<and> subxact_files sp' = subxact_files sp"
  by (auto simp: subxact_info_read_def Let_def bindR_eq_Inr_iff split: option.splits if_splits prod.splits)

lemma stream_abort_sub_ok:
  assumes rest: "at_rest subid xid cs sp" and few: "few xid cs" and sub: "subxid \<noteq> xid"
  obtains sp' where "stream_abort_files subid xid subxid sp = Inr sp'"
    and "at_rest subid xid (drop_subxact subxid cs) sp'" and "same_others subid xid sp sp'"
proof -
  obtain sp1 where o: "bindR (stream_open_file subid xid False sp) (subxact_info_read subid xid) = Inr sp1"
    and st: "streaming subid xid cs sp1" and same: "same_others subid xid sp sp1"
    by (rule stream_open_again [OF rest few])
  let ?fd = "Some (changes_filename subid xid, length (spool_bytes cs))"
  have "subxact_info_read subid xid (sp\<lparr>stream_fd := ?fd\<rparr>) = Inr sp1"
    using o rest by (simp add: stream_open_file_def at_rest_def open_changes_def)
  then have r: "subxact_info_read subid xid sp = Inr (sp1\<lparr>stream_fd := None\<rparr>)"
    using rest by (auto simp: subxact_info_read_def at_rest_def Let_def bindR_eq_Inr_iff split: option.splits if_splits prod.splits)
  let ?sp = "sp1\<lparr>stream_fd := None\<rparr>" and ?d = "subxact_data sp1"
  have d: "items_in (sub_starts xid cs) ?d" using st by (simp add: streaming_def)
  have files: "changes_files sp1 = changes_files sp" "subxact_files sp1 = subxact_files sp" "fileset_ready sp1"
    using subxact_info_read_keeps [OF r] st by (simp_all add: streaming_def)
  show thesis
  proof (cases "subxid \<in> fst ` set cs")
    case False
    then have "subxid \<notin> sx_xid ` set (sub_starts xid cs)" by (simp add: sub_starts_xids)
    then have "stream_abort_files subid xid subxid sp = Inr (cleanup_subxact_info ?sp)"
      using r sub find_subxact_none [OF d] by (simp add: stream_abort_files_def)
    then show thesis using False rest files same
      by (intro that [of "cleanup_subxact_info ?sp"])
        (simp_all add: drop_subxact_absent at_rest_def cleanup_subxact_info_def same_others_def)
  next
    case True
    let ?p = "drop_subxact subxid cs"
    let ?item = "\<lparr>sx_xid = subxid, sx_offset = length (spool_bytes ?p)\<rparr>"
    obtain later more where s: "sub_starts xid cs = sub_starts xid ?p @ ?item # later" "spool_bytes cs = spool_bytes ?p @ more"
      by (rule sub_starts_split [OF True sub]) blast
    have cells: "take (length (sub_starts xid cs)) (subxacts ?d) = map Some (sub_starts xid cs)"
      "nsubxacts ?d = length (sub_starts xid cs)" "length (sub_starts xid cs) \<le> length (subxacts ?d)"
      using d by (simp_all add: items_in_def)
    have found: "find_subxact (subxacts ?d) subxid (nsubxacts ?d) = Inr (Some (length (sub_starts xid ?p)))"
      using find_subxact_at [of "sub_starts xid ?p" ?item later "subxacts ?d"] cells s(1)
        sub_starts_distinct [of xid cs] by simp
    have item: "subxacts ?d ! length (sub_starts xid ?p) = Some ?item"
      using cells(1) s(1) by (metis length_append_singleton length_map nth_append_length nth_map nth_take append_Cons append_Nil2
          add_diff_cancel_left' length_append less_add_same_cancel1 list.size(4) zero_less_Suc add_Suc_right)
    let ?cut = "?sp\<lparr>changes_files := (changes_files sp1)(changes_filename subid xid \<mapsto> spool_bytes ?p),
        stream_fd := Some (changes_filename subid xid, length (spool_bytes ?p)),
        subxact_data := ?d\<lparr>nsubxacts := length (sub_starts xid ?p), subxact_last := InvalidTransactionId\<rparr>\<rparr>"
    have "take (length (sub_starts xid ?p)) (subxacts ?d) = map Some (sub_starts xid ?p)"
      using arg_cong [OF cells(1), of "take (length (sub_starts xid ?p))"] s(1) by (simp add: min_def)
    then have cut: "streaming subid xid ?p ?cut"
      using files(3) d s(1) by (auto simp: streaming_def items_in_def)
    obtain sp2 where w: "subxact_info_write subid xid ?cut = Inr sp2" "at_rest subid xid ?p (stream_close_file sp2)"
      "same_others subid xid ?cut (stream_close_file sp2)" by (rule stream_stop_ok [OF cut])
    let ?trunc = "?sp\<lparr>changes_files := (changes_files sp1)(changes_filename subid xid \<mapsto> spool_bytes ?p),
        subxact_data := ?d\<lparr>nsubxacts := length (sub_starts xid ?p)\<rparr>\<rparr>"
    have w': "subxact_info_write subid xid ?trunc = Inr (stream_close_file sp2)"
      using w(1) files(3) by (auto simp: subxact_info_write_def Let_def cleanup_subxact_info_def stream_close_file_def split: if_splits)
    have "open_changes (changes_filename subid xid) ?sp = Inr (spool_bytes cs)"
      using rest files by (simp add: open_changes_def at_rest_def)
    then have "stream_abort_files subid xid subxid sp = Inr (stream_close_file sp2)"
      using r sub found item s(2) w' by (simp add: stream_abort_files_def)
    moreover have "same_others subid xid sp (stream_close_file sp2)"
      using same w(3) by (simp add: same_others_def changes_filename_inj)
    ultimately show thesis using w(2) that by blast
  qed
qed

lemma stream_cleanup_ok:
  assumes "at_rest subid xid cs sp"
  obtains sp' where "stream_cleanup_files subid xid sp = Inr sp'" and "same_others subid xid sp sp'"
    and "changes_files sp' (changes_filename subid xid) = None" and "subxact_files sp' (subxact_filename subid xid) = None"
    and "fileset_ready sp'" and "stream_fd sp' = None" and "subxact_data sp' = no_subxacts"
  using assms that [of "sp\<lparr>changes_files := (changes_files sp)(changes_filename subid xid := None),
      subxact_files := (subxact_files sp)(subxact_filename subid xid := None)\<rparr>"]
  by (auto simp: stream_cleanup_files_def at_rest_def same_others_def changes_filename_inj subxact_filename_inj)

section \<open>Reading the records back\<close>

lemma next_record_ok:
  assumes "fileset_ready sp" and "stream_fd sp = Some (path, length (spool_bytes cs))"
    and "changes_files sp path = Some (spool_bytes (cs @ (x, r) # ds))" and "r \<noteq> []" and "length r < 2 ^ 31"
  shows "next_record sp = Inr (Some r, sp\<lparr>stream_fd := Some (path, length (spool_bytes (cs @ [(x, r)])))\<rparr>)"
proof -
  have "le_value (le_bytes 4 (length r)) = length r" using assms(5) by (simp add: le_value_le_bytes)
  moreover have "sint (of_nat (length r) :: 32 word) = int (length r)"
    using assms(5) by (simp add: signed_of_nat signed_take_bit_int_eq_self)
  moreover have "0 < length r" using assms(4) by simp
  ultimately show ?thesis using assms by (simp add: next_record_def open_changes_def record_bytes_def Let_def)
qed

lemma next_record_end:
  assumes "fileset_ready sp" and "stream_fd sp = Some (path, length bytes)" and "changes_files sp path = Some bytes"
  shows "next_record sp = Inr (None, sp)"
  using assms by (simp add: next_record_def open_changes_def Let_def)


section \<open>A journal of changes\<close>

text \<open>
  The interface the rest of the worker uses: segments are added to a journal, a subtransaction
  is cut off, and the journal holds the changes that are left. The events of a transaction
  then have the effect they have on the list of its changes.
\<close>

datatype journal_event = Segment spooled | Cut TransactionId

fun journal_step :: "spooled \<Rightarrow> journal_event \<Rightarrow> spooled" where
  "journal_step cs (Segment ds) = cs @ ds"
| "journal_step cs (Cut x) = drop_subxact x cs"

definition journal :: "journal_event list \<Rightarrow> spooled \<Rightarrow> spooled" where
  "journal es cs = foldl journal_step cs es"

fun event_ok :: "TransactionId \<Rightarrow> journal_event \<Rightarrow> bool" where
  "event_ok xid (Segment ds) \<longleftrightarrow> spooled_ok ds"
| "event_ok xid (Cut x) \<longleftrightarrow> x \<noteq> xid"

locale change_journal =
  fixes xid :: TransactionId and holds :: "spooled \<Rightarrow> 's \<Rightarrow> bool" and room :: "spooled \<Rightarrow> bool"
    and segment :: "spooled \<Rightarrow> 's \<Rightarrow> 's res" and cut :: "TransactionId \<Rightarrow> 's \<Rightarrow> 's res"
  assumes segment_ok: "holds cs s \<Longrightarrow> spooled_ok ds \<Longrightarrow> room (cs @ ds) \<Longrightarrow> \<exists>s'. segment ds s = Inr s' \<and> holds (cs @ ds) s'"
    and cut_ok: "holds cs s \<Longrightarrow> room cs \<Longrightarrow> x \<noteq> xid \<Longrightarrow> \<exists>s'. cut x s = Inr s' \<and> holds (drop_subxact x cs) s'"
begin

fun run :: "journal_event list \<Rightarrow> 's \<Rightarrow> 's res" where
  "run [] s = Inr s"
| "run (Segment ds # es) s = bindR (segment ds s) (run es)"
| "run (Cut x # es) s = bindR (cut x s) (run es)"

lemma run_holds:
  assumes "holds cs s" and "list_all (event_ok xid) es" and "\<forall>n \<le> length es. room (journal (take n es) cs)"
  shows "\<exists>s'. run es s = Inr s' \<and> holds (journal es cs) s'"
  using assms
proof (induction es arbitrary: cs s)
  case (Cons e es)
  have now: "room cs" and then1: "room (journal_step cs e)"
    using Cons.prems(3) by (auto simp: journal_def dest: spec [of _ 0] spec [of _ 1])
  have later: "\<forall>n \<le> length es. room (journal (take n es) (journal_step cs e))"
    using Cons.prems(3) by (auto simp: journal_def dest: spec [of _ "Suc n" for n])
  obtain s1 where "run (e # es) s = run es s1" "holds (journal_step cs e) s1"
    using segment_ok [OF Cons.prems(1)] cut_ok [OF Cons.prems(1) now] Cons.prems(2) then1 by (cases e) fastforce+
  with Cons.IH [OF _ _ later] Cons.prems(2) show ?case by (simp add: journal_def)
qed (simp add: journal_def)

end

text \<open>
  A segment as the worker writes it: open the files, note and write each change, close. A
  change arrives as the message behind its action and transaction id.
\<close>

definition change_message :: "byte list \<Rightarrow> StringInfoData" where
  "change_message r = \<lparr>si_data = map Some (tl r), si_len = length (tl r), si_maxlen = 0, si_cursor = 0\<rparr>"

fun spool_changes :: "TransactionId \<Rightarrow> spooled \<Rightarrow> spool \<Rightarrow> spool res" where
  "spool_changes xid [] sp = Inr sp"
| "spool_changes xid ((x, r) # cs) sp =
     bindR (bindR (subxact_info_add xid x sp) (stream_write_change (hd r) (change_message r))) (spool_changes xid cs)"

definition spool_segment :: "Oid \<Rightarrow> TransactionId \<Rightarrow> bool \<Rightarrow> spooled \<Rightarrow> spool \<Rightarrow> spool res" where
  "spool_segment subid xid first_segment cs sp =
     bindR (bindR (stream_open_file subid xid first_segment sp)
              (if first_segment then Inr else subxact_info_read subid xid)) (\<lambda>sp.
     bindR (spool_changes xid cs sp) (\<lambda>sp.
     bindR (subxact_info_write subid xid sp) (\<lambda>sp. Inr (stream_close_file sp))))"

lemma few_prefix: "few xid (cs @ ds) \<Longrightarrow> few xid cs"
  using sub_starts_prefix [of xid cs ds] by (auto simp: few_def)

lemma spool_changes_ok:
  assumes "streaming subid xid cs sp" and "spooled_ok ds" and "few xid (cs @ ds)"
  obtains sp' where "spool_changes xid ds sp = Inr sp'" and "streaming subid xid (cs @ ds) sp'"
    and "same_others subid xid sp sp'"
  using assms
proof (induction ds arbitrary: cs sp thesis)
  case (Cons d ds)
  obtain x r where d: "d = (x, r)" by (cases d)
  have x: "x \<noteq> InvalidTransactionId" and r: "r = hd r # tl r" and ds: "spooled_ok ds"
    using Cons.prems(3) d by (auto simp: spooled_ok_def)
  have "few xid ((cs @ [(x, r)]) @ ds)" using Cons.prems(4) d by simp
  then have few: "few xid (cs @ [(x, hd r # tl r)])" using few_prefix r by metis
  have "mem_read (si_data (change_message r)) (si_cursor (change_message r))
      (si_len (change_message r) - si_cursor (change_message r)) = Inr (tl r)"
    by (simp add: change_message_def mem_read_def comp_def)
  then obtain sp1 where "bindR (subxact_info_add xid x sp) (stream_write_change (hd r) (change_message r)) = Inr sp1"
    "streaming subid xid (cs @ [(x, r)]) sp1" "same_others subid xid sp sp1"
    using spool_change_ok [OF Cons.prems(2) x few] r by metis
  moreover from this(2) obtain sp2 where "spool_changes xid ds sp1 = Inr sp2" "streaming subid xid ((cs @ [(x, r)]) @ ds) sp2"
    "same_others subid xid sp1 sp2" by (rule Cons.IH [rotated]) (use ds Cons.prems(4) d in simp_all)
  ultimately show thesis using d by (intro Cons.prems(1) [of sp2]) (auto intro: same_others_trans)
qed simp

lemma spool_segment_ok:
  assumes "spooled_ok ds" and "few xid (cs @ ds)"
    and "if first_segment then fileset_ready sp \<and> subxact_data sp = no_subxacts \<and> cs = [] else at_rest subid xid cs sp"
  obtains sp' where "spool_segment subid xid first_segment ds sp = Inr sp'" and "at_rest subid xid (cs @ ds) sp'"
    and "same_others subid xid sp sp'"
proof -
  obtain sp1 where o: "bindR (stream_open_file subid xid first_segment sp)
      (if first_segment then Inr else subxact_info_read subid xid) = Inr sp1" "streaming subid xid cs sp1" "same_others subid xid sp sp1"
  proof (cases first_segment)
    case True
    then obtain sp1 where "stream_open_file subid xid True sp = Inr sp1" "streaming subid xid [] sp1" "same_others subid xid sp sp1"
      using assms(3) stream_open_first [of sp subid xid] by auto
    then show thesis using True assms(3) that [of sp1] by simp
  next
    case False
    then have "at_rest subid xid cs sp" using assms(3) by simp
    then obtain sp1 where "bindR (stream_open_file subid xid False sp) (subxact_info_read subid xid) = Inr sp1"
      "streaming subid xid cs sp1" "same_others subid xid sp sp1"
      by (rule stream_open_again [OF _ few_prefix [OF assms(2)]])
    then show thesis using False that [of sp1] by simp
  qed
  obtain sp2 where w: "spool_changes xid ds sp1 = Inr sp2" "streaming subid xid (cs @ ds) sp2" "same_others subid xid sp1 sp2"
    by (rule spool_changes_ok [OF o(2) assms(1,2)])
  obtain sp3 where "subxact_info_write subid xid sp2 = Inr sp3" "at_rest subid xid (cs @ ds) (stream_close_file sp3)"
    "same_others subid xid sp2 (stream_close_file sp3)" by (rule stream_stop_ok [OF w(2)])
  with o w show thesis
    by (intro that [of "stream_close_file sp3"]) (auto simp: spool_segment_def intro: same_others_trans)
qed


text \<open>Reading all records of a changes file, as the replay does; every record has bytes.\<close>

fun read_records :: "nat \<Rightarrow> spool \<Rightarrow> byte list list res" where
  "read_records 0 sp = Inl Diverges"
| "read_records (Suc fuel) sp =
     bindR (next_record sp) (\<lambda>(r, sp).
     case r of None \<Rightarrow> Inr [] | Some r \<Rightarrow> bindR (read_records fuel sp) (\<lambda>rs. Inr (r # rs)))"

definition read_changes :: "Oid \<Rightarrow> TransactionId \<Rightarrow> spool \<Rightarrow> byte list list res" where
  "read_changes subid xid sp =
     bindR (open_changes (changes_filename subid xid) sp) (\<lambda>bytes.
     read_records (Suc (length bytes)) (sp\<lparr>stream_fd := Some (changes_filename subid xid, 0)\<rparr>))"

lemma read_records_ok:
  assumes "fileset_ready sp" and "changes_files sp path = Some (spool_bytes (cs @ ds))" and "spooled_ok ds"
    and "stream_fd sp = Some (path, length (spool_bytes cs))" and "length ds < fuel"
  shows "read_records fuel sp = Inr (map snd ds)"
  using assms
proof (induction ds arbitrary: cs sp fuel)
  case Nil
  then show ?case using next_record_end [of sp path "spool_bytes cs"] by (cases fuel) simp_all
next
  case (Cons d ds)
  obtain x r f where d: "d = (x, r)" and f: "fuel = Suc f" using Cons.prems(5) by (cases d, cases fuel) auto
  have r: "r \<noteq> []" "length r < 2 ^ 31" "spooled_ok ds" using Cons.prems(3) d by (auto simp: spooled_ok_def)
  let ?sp = "sp\<lparr>stream_fd := Some (path, length (spool_bytes (cs @ [(x, r)])))\<rparr>"
  have n: "next_record sp = Inr (Some r, ?sp)"
    using Cons.prems r by (intro next_record_ok [of sp path cs x r ds]) (simp_all add: d)
  have "read_records f ?sp = Inr (map snd ds)"
    using Cons.prems r d f by (intro Cons.IH [of _ "cs @ [(x, r)]"]) simp_all
  with n show ?case by (simp add: d f)
qed

lemma spooled_ok_short: "spooled_ok cs \<Longrightarrow> length cs \<le> length (spool_bytes cs)"
  by (induction cs) (auto simp: spooled_ok_def record_bytes_def)

lemma read_changes_ok:
  assumes "at_rest subid xid cs sp" and "spooled_ok cs"
  shows "read_changes subid xid sp = Inr (map snd cs)"
  using assms read_records_ok [of "sp\<lparr>stream_fd := Some (changes_filename subid xid, 0)\<rparr>" "changes_filename subid xid" "[]" cs
      "Suc (length (spool_bytes cs))"] spooled_ok_short [OF assms(2)]
  by (simp add: read_changes_def open_changes_def at_rest_def)

lemma journal_spooled_ok: "spooled_ok cs \<Longrightarrow> list_all (event_ok xid) es \<Longrightarrow> spooled_ok (journal es cs)"
proof (induction es arbitrary: cs)
  case (Cons e es)
  have "spooled_ok (journal_step cs e)"
    using Cons.prems by (cases e) (auto simp: spooled_ok_def drop_subxact_def dest: set_takeWhileD)
  then show ?case using Cons by (simp add: journal_def)
qed (simp add: journal_def)

interpretation spool_journal: change_journal xid "at_rest subid xid" "few xid" "spool_segment subid xid False"
  "stream_abort_files subid xid" for subid xid
proof
  show "\<exists>s'. spool_segment subid xid False ds s = Inr s' \<and> at_rest subid xid (cs @ ds) s'"
    if "at_rest subid xid cs s" "spooled_ok ds" "few xid (cs @ ds)" for cs s ds
    using that by (auto elim: spool_segment_ok [of ds xid cs False s subid])
  show "\<exists>s'. stream_abort_files subid xid x s = Inr s' \<and> at_rest subid xid (drop_subxact x cs) s'"
    if "at_rest subid xid cs s" "few xid cs" "x \<noteq> xid" for cs s x
    using that by (auto elim: stream_abort_sub_ok [of subid xid cs s x])
qed

text \<open>Claim C25. The spool files implement the list of a streamed transaction's changes. After a first segment
  and any sequence of further segments and aborts of subtransactions, what the replay reads is
  the changes in the order they arrived, less, for each aborted subtransaction, its first
  change and all that followed it at that time; the array of subtransactions is never
  overrun.\<close>

theorem spool_refines_list:
  assumes "fileset_ready sp" and "stream_fd sp = None" and "subxact_data sp = no_subxacts"
    and "spooled_ok ds" and "list_all (event_ok xid) es"
    and "\<forall>n \<le> length es. few xid (journal (take n es) ds)"
  shows "\<exists>sp1 sp2. spool_segment subid xid True ds sp = Inr sp1 \<and>
    change_journal.run (spool_segment subid xid False) (stream_abort_files subid xid) es sp1 = Inr sp2 \<and>
    read_changes subid xid sp2 = Inr (map snd (journal es ds))"
proof -
  have "few xid ([] @ ds)" using assms(6) by (auto simp: journal_def dest: spec [of _ 0])
  then obtain sp1 where 1: "spool_segment subid xid True ds sp = Inr sp1" "at_rest subid xid ([] @ ds) sp1"
    by (rule spool_segment_ok [OF assms(4), where first_segment = True and sp = sp and subid = subid]) (use assms(1,3) in simp_all)
  obtain sp2 where "change_journal.run (spool_segment subid xid False) (stream_abort_files subid xid) es sp1 = Inr sp2"
    "at_rest subid xid (journal es ds) sp2"
    using spool_journal.run_holds [of subid xid ds sp1 es] 1(2) assms(5,6) by auto
  then show ?thesis using 1(1) read_changes_ok [OF _ journal_spooled_ok [OF assms(4,5)]] by blast
qed

theorem spool_refines_list_witness:
  "\<exists>sp1 sp2. spool_segment 1 10 True [(10, ''I1''), (11, ''I2'')] (empty_spool\<lparr>fileset_ready := True\<rparr>) = Inr sp1 \<and>
    change_journal.run (spool_segment 1 10 False) (stream_abort_files 1 10) [Segment [(12, ''D3'')], Cut 11, Segment [(10, ''U4'')]] sp1 = Inr sp2 \<and>
    read_changes 1 10 sp2 = Inr [''I1'', ''U4'']"
proof -
  let ?ds = "[(10, ''I1''), (11, ''I2'')] :: spooled" and ?es = "[Segment [(12, ''D3'')], Cut 11, Segment [(10, ''U4'')]]"
  have "length (journal (take n ?es) ?ds) \<le> 8" if "n \<le> length ?es" for n
    using that by (cases n; cases "n - 1"; cases "n - 2"; cases "n - 3") (auto simp: journal_def drop_subxact_def)
  then have "few 10 (journal (take n ?es) ?ds)" if "n \<le> length ?es" for n
    using that sub_starts_length [of 10 "journal (take n ?es) ?ds"] unfolding few_def by fastforce
  then show ?thesis
    using spool_refines_list [of "empty_spool\<lparr>fileset_ready := True\<rparr>" ?ds 10 ?es 1]
    by (simp add: empty_spool_def spooled_ok_def journal_def drop_subxact_def)
qed

end
