(* ===== verification/ApplyWorker.thy ===== *)
theory ApplyWorker
  imports ProtoRoundtrip ChangeJson LocalXact FlushFeedback SpoolFile
begin

text \<open>
  The apply worker of \<^verbatim>\<open>src/backend/replication/logical/worker.c\<close>: one handler per message of
  the protocol, the dispatcher, and the replay of a spooled transaction. The worker modelled is
  the leader or a table synchronisation worker of a subscription that does not use parallel
  apply, so that no parallel worker is ever found and a streamed transaction is serialized to
  a file. Snapshots, memory contexts, activity reports and debug messages are left out;
  assertions are not compiled in.

  The rest of the server is an argument: the local catalog and privileges, where log records
  end, the conversion of received text, and \<^verbatim>\<open>process_syncing_tables\<close>, which acts on the
  catalog in a transaction of its own.
\<close>

section \<open>State\<close>

datatype LogicalRepWorkerType = WORKERTYPE_UNKNOWN | WORKERTYPE_TABLESYNC | WORKERTYPE_APPLY

text \<open>The fields of a subscription that the worker reads.\<close>

record Subscription =
  sub_dbid :: Oid
  sub_name :: cstring
  sub_owner :: Oid
  sub_ownersuperuser :: bool
  sub_enabled :: bool
  sub_binary :: bool
  sub_stream :: byte
  sub_passwordrequired :: bool
  sub_skiplsn :: XLogRecPtr
  sub_conninfo :: cstring
  sub_slotname :: cstring
  sub_origin :: cstring
  sub_publications :: "cstring list"

record ('w, 'rk, 'rkt, 'r) worker_env =
  worker_type :: LogicalRepWorkerType
  subid :: Oid
  worker_relid :: Oid
  kafka_lib :: "('w, 'rk, 'rkt) rdkafka"
  settings :: guc
  doubles :: "'r double_ops"
  local_cat :: local_catalog
  rec_end :: wal
  to_server :: "cstring \<Rightarrow> cstring"
  process_syncing_tables :: "XLogRecPtr \<Rightarrow> local_xact \<Rightarrow> local_xact res"
  TargetPrivilegesCheck :: "Oid \<Rightarrow> unit res"
  find_all_inheritors :: "Oid \<Rightarrow> Oid list"
  other_temp :: "Oid \<Rightarrow> bool"

text \<open>
  The static variables of \<^verbatim>\<open>worker.c\<close> with the components they belong to; \<open>sub_row\<close> is
  the subscription's row in the catalog, and \<^verbatim>\<open>err_\<close> the fields of
  \<^verbatim>\<open>apply_error_callback_arg\<close> that the handlers set.
\<close>

record ('w, 'rk, 'rkt) worker =
  in_remote_transaction :: bool
  in_streamed_transaction :: bool
  stream_xid :: TransactionId
  remote_final_lsn :: XLogRecPtr
  skip_xact_finish_lsn :: XLogRecPtr
  MySubscription :: Subscription
  MySubscriptionValid :: bool
  sub_row :: "Subscription option"
  err_command :: byte
  err_xid :: TransactionId
  err_lsn :: XLogRecPtr
  relations :: relmap
  xact :: local_xact
  lsn_map :: lsn_mapping
  files :: spool
  pub :: "('w, 'rk, 'rkt) change_publisher"

section \<open>Steps and subscription\<close>

definition set_apply_error_context_xact :: "TransactionId \<Rightarrow> XLogRecPtr \<Rightarrow> ('w, 'rk, 'rkt) worker \<Rightarrow> ('w, 'rk, 'rkt) worker" where
  "set_apply_error_context_xact xid lsn w = w\<lparr>err_xid := xid, err_lsn := lsn\<rparr>"

definition reset_apply_error_context_info :: "('w, 'rk, 'rkt) worker \<Rightarrow> ('w, 'rk, 'rkt) worker" where
  "reset_apply_error_context_info w =
     set_apply_error_context_xact InvalidTransactionId InvalidXLogRecPtr (w\<lparr>err_command := NUL\<rparr>)"

definition start_command :: "('w, 'rk, 'rkt) worker \<Rightarrow> ('w, 'rk, 'rkt) worker res" where
  "start_command w = bindR (StartTransactionCommand (xact w)) (\<lambda>x. Inr (w\<lparr>xact := x\<rparr>))"

definition commit_command :: "('w, 'rk, 'rkt, 'r) worker_env \<Rightarrow> ('w, 'rk, 'rkt) worker \<Rightarrow> ('w, 'rk, 'rkt) worker res" where
  "commit_command env w = bindR (CommitTransactionCommand (rec_end env) (xact w)) (\<lambda>x. Inr (w\<lparr>xact := x\<rparr>))"

text \<open>The parameters whose change makes the worker restart.\<close>

definition connection_changed :: "Subscription \<Rightarrow> Subscription \<Rightarrow> bool" where
  "connection_changed newsub my \<longleftrightarrow>
     sub_conninfo newsub \<noteq> sub_conninfo my \<or> sub_name newsub \<noteq> sub_name my \<or>
     sub_slotname newsub \<noteq> sub_slotname my \<or> sub_binary newsub \<noteq> sub_binary my \<or>
     sub_stream newsub \<noteq> sub_stream my \<or> sub_passwordrequired newsub \<noteq> sub_passwordrequired my \<or>
     sub_origin newsub \<noteq> sub_origin my \<or> sub_owner newsub \<noteq> sub_owner my \<or>
     sub_publications newsub \<noteq> sub_publications my"

text \<open>Take over the row of the catalog, or leave; a transaction started for it is committed.\<close>

definition adopt_subscription ::
    "('w, 'rk, 'rkt, 'r) worker_env \<Rightarrow> bool \<Rightarrow> ('w, 'rk, 'rkt) worker \<Rightarrow> ('w, 'rk, 'rkt) worker res" where
  "adopt_subscription env started_tx w =
     (case sub_row w of None \<Rightarrow> Inl ProcExit
      | Some newsub \<Rightarrow>
          if \<not> sub_enabled newsub then Inl ProcExit
          else if connection_changed newsub (MySubscription w) then Inl ProcExit
          else if \<not> sub_ownersuperuser newsub \<and> sub_ownersuperuser (MySubscription w) then Inl ProcExit
          else if sub_dbid newsub \<noteq> sub_dbid (MySubscription w)
          then Inl (PgError ''subscription changed unexpectedly'')
          else bindR (let w = w\<lparr>MySubscription := newsub\<rparr> in if started_tx then commit_command env w else Inr w) (\<lambda>w.
               Inr (w\<lparr>MySubscriptionValid := True\<rparr>)))"

definition maybe_reread_subscription ::
    "('w, 'rk, 'rkt, 'r) worker_env \<Rightarrow> ('w, 'rk, 'rkt) worker \<Rightarrow> ('w, 'rk, 'rkt) worker res" where
  "maybe_reread_subscription env w =
     (if MySubscriptionValid w then Inr w
      else
        let started_tx = \<not> IsTransactionState (xact w)
        in bindR (if started_tx then start_command w else Inr w) (adopt_subscription env started_tx))"

definition begin_replication_step ::
    "('w, 'rk, 'rkt, 'r) worker_env \<Rightarrow> ('w, 'rk, 'rkt) worker \<Rightarrow> ('w, 'rk, 'rkt) worker res" where
  "begin_replication_step env w =
     (if \<not> IsTransactionState (xact w)
      then bindR (start_command w) (maybe_reread_subscription env) else Inr w)"

definition should_apply_changes_for_rel ::
    "('w, 'rk, 'rkt, 'r) worker_env \<Rightarrow> ('w, 'rk, 'rkt) worker \<Rightarrow> LogicalRepRelMapEntry \<Rightarrow> bool res" where
  "should_apply_changes_for_rel env w rel =
     (case worker_type env of
        WORKERTYPE_TABLESYNC \<Rightarrow> Inr (worker_relid env = localreloid rel)
      | WORKERTYPE_APPLY \<Rightarrow>
          Inr (state rel = SUBREL_STATE_READY \<or>
               (state rel = SUBREL_STATE_SYNCDONE \<and> statelsn rel \<le> remote_final_lsn w))
      | WORKERTYPE_UNKNOWN \<Rightarrow> Inl (PgError ''Unknown worker type''))"

section \<open>Skipping a transaction\<close>

definition is_skipping_changes :: "('w, 'rk, 'rkt) worker \<Rightarrow> bool" where
  "is_skipping_changes w \<longleftrightarrow> skip_xact_finish_lsn w \<noteq> InvalidXLogRecPtr"

definition maybe_start_skipping_changes :: "XLogRecPtr \<Rightarrow> ('w, 'rk, 'rkt) worker \<Rightarrow> ('w, 'rk, 'rkt) worker" where
  "maybe_start_skipping_changes finish_lsn w =
     (if sub_skiplsn (MySubscription w) = InvalidXLogRecPtr \<or> sub_skiplsn (MySubscription w) \<noteq> finish_lsn then w
      else w\<lparr>skip_xact_finish_lsn := finish_lsn\<rparr>)"

definition stop_skipping_changes :: "('w, 'rk, 'rkt) worker \<Rightarrow> ('w, 'rk, 'rkt) worker" where
  "stop_skipping_changes w =
     (if \<not> is_skipping_changes w then w else w\<lparr>skip_xact_finish_lsn := InvalidXLogRecPtr\<rparr>)"

text \<open>
  Updating the row gives the transaction an id and writes to the log; the change invalidates
  the worker's copy of the subscription.
\<close>

definition clear_subscription_skip_lsn ::
    "('w, 'rk, 'rkt, 'r) worker_env \<Rightarrow> ('w, 'rk, 'rkt) worker \<Rightarrow> ('w, 'rk, 'rkt) worker res" where
  "clear_subscription_skip_lsn env w =
     (let myskiplsn = sub_skiplsn (MySubscription w); started_tx = \<not> IsTransactionState (xact w)
      in if myskiplsn = InvalidXLogRecPtr then Inr w
         else bindR (if started_tx then start_command w else Inr w) (\<lambda>w.
           case sub_row w of None \<Rightarrow> Inl (PgError ''subscription does not exist'')
           | Some row \<Rightarrow>
               let w = (if sub_skiplsn row = myskiplsn
                        then w\<lparr>sub_row := Some (row\<lparr>sub_skiplsn := InvalidXLogRecPtr\<rparr>), MySubscriptionValid := False,
                               xact := XLogInsert (rec_end env) ((xact w)\<lparr>xid_assigned := True\<rparr>)\<rparr>
                        else w)
               in if started_tx then commit_command env w else Inr w))"

section \<open>Streamed transactions\<close>

datatype TransApplyAction = TRANS_LEADER_APPLY | TRANS_LEADER_SERIALIZE

definition get_transaction_apply_action :: "('w, 'rk, 'rkt) worker \<Rightarrow> TransApplyAction" where
  "get_transaction_apply_action w = (if in_streamed_transaction w then TRANS_LEADER_SERIALIZE else TRANS_LEADER_APPLY)"

text \<open>Whether the message was serialized, with the message behind what was read of it.\<close>

definition handle_streamed_transaction ::
    "LogicalRepMsgType \<Rightarrow> StringInfoData \<Rightarrow> ('w, 'rk, 'rkt) worker \<Rightarrow>
     (bool \<times> StringInfoData \<times> ('w, 'rk, 'rkt) worker) res" where
  "handle_streamed_transaction action s w =
     (if get_transaction_apply_action w = TRANS_LEADER_APPLY then Inr (False, s, w)
      else
        bindR (pq_getmsgint 4 s) (\<lambda>(current_xid, s).
        if current_xid = InvalidTransactionId
        then Inl (PgError ''invalid transaction ID in streamed replication transaction'')
        else
          bindR (subxact_info_add (stream_xid w) current_xid (files w)) (\<lambda>sp.
          bindR (stream_write_change (msg_char action) s sp) (\<lambda>sp.
          Inr (True, s, w\<lparr>files := sp\<rparr>)))))"

definition stream_start_internal ::
    "('w, 'rk, 'rkt, 'r) worker_env \<Rightarrow> TransactionId \<Rightarrow> bool \<Rightarrow> ('w, 'rk, 'rkt) worker \<Rightarrow> ('w, 'rk, 'rkt) worker res" where
  "stream_start_internal env xid first_segment w =
     bindR (begin_replication_step env w) (\<lambda>w.
     bindR (stream_open_file (subid env) xid first_segment ((files w)\<lparr>fileset_ready := True\<rparr>)) (\<lambda>sp.
     bindR (if \<not> first_segment then subxact_info_read (subid env) xid sp else Inr sp) (\<lambda>sp.
     Inr (w\<lparr>files := sp\<rparr>))))"

definition stream_stop_internal ::
    "('w, 'rk, 'rkt, 'r) worker_env \<Rightarrow> TransactionId \<Rightarrow> ('w, 'rk, 'rkt) worker \<Rightarrow> ('w, 'rk, 'rkt) worker res" where
  "stream_stop_internal env xid w =
     bindR (subxact_info_write (subid env) xid (files w)) (\<lambda>sp.
     commit_command env (w\<lparr>files := stream_close_file sp\<rparr>))"

definition stream_abort_internal ::
    "('w, 'rk, 'rkt, 'r) worker_env \<Rightarrow> TransactionId \<Rightarrow> TransactionId \<Rightarrow> ('w, 'rk, 'rkt) worker \<Rightarrow> ('w, 'rk, 'rkt) worker res" where
  "stream_abort_internal env xid subxid w =
     (if xid = subxid
      then bindR (stream_cleanup_files (subid env) xid (files w)) (\<lambda>sp. Inr (w\<lparr>files := sp\<rparr>))
      else
        bindR (begin_replication_step env w) (\<lambda>w.
        bindR (stream_abort_files (subid env) xid subxid (files w)) (\<lambda>sp.
        commit_command env (w\<lparr>files := sp\<rparr>))))"


section \<open>Messages of a transaction\<close>

definition apply_handle_begin :: "StringInfoData \<Rightarrow> ('w, 'rk, 'rkt) worker \<Rightarrow> ('w, 'rk, 'rkt) worker res" where
  "apply_handle_begin s w =
     bindR (logicalrep_read_begin s) (\<lambda>(begin_data, s).
     let w = set_apply_error_context_xact (bd_xid begin_data) (bd_final_lsn begin_data) w;
         w = maybe_start_skipping_changes (bd_final_lsn begin_data) (w\<lparr>remote_final_lsn := bd_final_lsn begin_data\<rparr>)
     in Inr (w\<lparr>in_remote_transaction := True\<rparr>))"

definition sync_tables :: "('w, 'rk, 'rkt, 'r) worker_env \<Rightarrow> XLogRecPtr \<Rightarrow> ('w, 'rk, 'rkt) worker \<Rightarrow> ('w, 'rk, 'rkt) worker res" where
  "sync_tables env lsn w = bindR (process_syncing_tables env lsn (xact w)) (\<lambda>x. Inr (w\<lparr>xact := x\<rparr>))"

definition track_flush :: "XLogRecPtr \<Rightarrow> XLogRecPtr \<Rightarrow> ('w, 'rk, 'rkt) worker \<Rightarrow> ('w, 'rk, 'rkt) worker" where
  "track_flush remote_lsn local_lsn w = w\<lparr>lsn_map := store_flush_position False remote_lsn local_lsn (lsn_map w)\<rparr>"

definition set_origin :: "XLogRecPtr \<Rightarrow> TimestampTz \<Rightarrow> ('w, 'rk, 'rkt) worker \<Rightarrow> ('w, 'rk, 'rkt) worker" where
  "set_origin lsn time w =
     w\<lparr>xact := (xact w)\<lparr>replorigin_session_origin_lsn := lsn, replorigin_session_origin_timestamp := time\<rparr>\<rparr>"

definition end_block :: "('w, 'rk, 'rkt, 'r) worker_env \<Rightarrow> ('w, 'rk, 'rkt) worker \<Rightarrow> ('w, 'rk, 'rkt) worker res" where
  "end_block env w =
     (if IsTransactionBlock (xact w)
      then bindR (EndTransactionBlock (xact w)) (\<lambda>(r, x). commit_command env (w\<lparr>xact := x\<rparr>)) else Inr w)"

definition apply_handle_commit_internal ::
    "('w, 'rk, 'rkt, 'r) worker_env \<Rightarrow> LogicalRepCommitData \<Rightarrow> ('w, 'rk, 'rkt) worker \<Rightarrow> ('w, 'rk, 'rkt) worker res" where
  "apply_handle_commit_internal env commit_data w =
     bindR (if is_skipping_changes w then
              let w = stop_skipping_changes w
              in if \<not> IsTransactionState (xact w) then start_command w else Inr w
            else Inr w) (\<lambda>w.
     bindR (if IsTransactionState (xact w) then
              bindR (clear_subscription_skip_lsn env w) (\<lambda>w.
              bindR (commit_command env (set_origin (cd_end_lsn commit_data) (cd_committime commit_data) w)) (\<lambda>w.
              bindR (end_block env w) (\<lambda>w.
              Inr (track_flush (cd_end_lsn commit_data) (XactLastCommitEnd (xact w)) w))))
            else maybe_reread_subscription env w) (\<lambda>w.
     Inr (w\<lparr>in_remote_transaction := False\<rparr>)))"

definition apply_handle_commit ::
    "('w, 'rk, 'rkt, 'r) worker_env \<Rightarrow> StringInfoData \<Rightarrow> ('w, 'rk, 'rkt) worker \<Rightarrow> ('w, 'rk, 'rkt) worker res" where
  "apply_handle_commit env s w =
     bindR (logicalrep_read_commit s) (\<lambda>(commit_data, s).
     if cd_commit_lsn commit_data \<noteq> remote_final_lsn w
     then Inl (PgError ''incorrect commit LSN in commit message'')
     else
       bindR (apply_handle_commit_internal env commit_data w) (\<lambda>w.
       bindR (sync_tables env (cd_end_lsn commit_data) w) (\<lambda>w.
       Inr (reset_apply_error_context_info w))))"

section \<open>Two-phase transactions\<close>

definition apply_handle_begin_prepare ::
    "('w, 'rk, 'rkt, 'r) worker_env \<Rightarrow> StringInfoData \<Rightarrow> ('w, 'rk, 'rkt) worker \<Rightarrow> ('w, 'rk, 'rkt) worker res" where
  "apply_handle_begin_prepare env s w =
     (if worker_type env = WORKERTYPE_TABLESYNC
      then Inl (PgError ''tablesync worker received a BEGIN PREPARE message'')
      else
        bindR (logicalrep_read_begin_prepare (to_server env) s) (\<lambda>(begin_data, s).
        let w = set_apply_error_context_xact (pd_xid begin_data) (pd_prepare_lsn begin_data) w;
            w = maybe_start_skipping_changes (pd_prepare_lsn begin_data) (w\<lparr>remote_final_lsn := pd_prepare_lsn begin_data\<rparr>)
        in Inr (w\<lparr>in_remote_transaction := True\<rparr>)))"

definition apply_handle_prepare_internal ::
    "('w, 'rk, 'rkt, 'r) worker_env \<Rightarrow> LogicalRepPreparedTxnData \<Rightarrow> ('w, 'rk, 'rkt) worker \<Rightarrow> ('w, 'rk, 'rkt) worker res" where
  "apply_handle_prepare_internal env prepare_data w =
     bindR (TwoPhaseTransactionGid (subid env) (pd_xid prepare_data)) (\<lambda>gid.
     bindR (if \<not> IsTransactionBlock (xact w)
            then bindR (BeginTransactionBlock (xact w)) (\<lambda>x. commit_command env (w\<lparr>xact := x\<rparr>))
            else Inr w) (\<lambda>w.
     let w = set_origin (pd_end_lsn prepare_data) (pd_prepare_time prepare_data) w
     in bindR (PrepareTransactionBlock gid (xact w)) (\<lambda>(r, x). Inr (w\<lparr>xact := x\<rparr>))))"

definition apply_handle_prepare ::
    "('w, 'rk, 'rkt, 'r) worker_env \<Rightarrow> StringInfoData \<Rightarrow> ('w, 'rk, 'rkt) worker \<Rightarrow> ('w, 'rk, 'rkt) worker res" where
  "apply_handle_prepare env s w =
     bindR (logicalrep_read_prepare (to_server env) s) (\<lambda>(prepare_data, s).
     if pd_prepare_lsn prepare_data \<noteq> remote_final_lsn w
     then Inl (PgError ''incorrect prepare LSN in prepare message'')
     else
       bindR (begin_replication_step env w) (\<lambda>w.
       bindR (apply_handle_prepare_internal env prepare_data w) (\<lambda>w.
       bindR (commit_command env w) (\<lambda>w.
       let w = (track_flush (pd_end_lsn prepare_data) InvalidXLogRecPtr w)\<lparr>in_remote_transaction := False\<rparr>
       in bindR (sync_tables env (pd_end_lsn prepare_data) w) (\<lambda>w.
          bindR (clear_subscription_skip_lsn env (stop_skipping_changes w)) (\<lambda>w.
          Inr (reset_apply_error_context_info w)))))))"

definition finish_prepared ::
    "('w, 'rk, 'rkt, 'r) worker_env \<Rightarrow> cstring \<Rightarrow> bool \<Rightarrow> ('w, 'rk, 'rkt) worker \<Rightarrow> ('w, 'rk, 'rkt) worker res" where
  "finish_prepared env gid isCommit w =
     bindR (FinishPreparedTransaction (rec_end env) gid isCommit (xact w)) (\<lambda>x. commit_command env (w\<lparr>xact := x\<rparr>))"

definition apply_handle_commit_prepared ::
    "('w, 'rk, 'rkt, 'r) worker_env \<Rightarrow> StringInfoData \<Rightarrow> ('w, 'rk, 'rkt) worker \<Rightarrow> ('w, 'rk, 'rkt) worker res" where
  "apply_handle_commit_prepared env s w =
     bindR (logicalrep_read_commit_prepared (to_server env) s) (\<lambda>(prepare_data, s).
     let w = set_apply_error_context_xact (cp_xid prepare_data) (cp_commit_lsn prepare_data) w
     in bindR (TwoPhaseTransactionGid (subid env) (cp_xid prepare_data)) (\<lambda>gid.
        bindR (begin_replication_step env w) (\<lambda>w.
        bindR (finish_prepared env gid True (set_origin (cp_end_lsn prepare_data) (cp_commit_time prepare_data) w)) (\<lambda>w.
        let w = (track_flush (cp_end_lsn prepare_data) (XactLastCommitEnd (xact w)) w)\<lparr>in_remote_transaction := False\<rparr>
        in bindR (sync_tables env (cp_end_lsn prepare_data) w) (\<lambda>w.
           bindR (clear_subscription_skip_lsn env w) (\<lambda>w.
           Inr (reset_apply_error_context_info w)))))))"

definition apply_handle_rollback_prepared ::
    "('w, 'rk, 'rkt, 'r) worker_env \<Rightarrow> StringInfoData \<Rightarrow> ('w, 'rk, 'rkt) worker \<Rightarrow> ('w, 'rk, 'rkt) worker res" where
  "apply_handle_rollback_prepared env s w =
     bindR (logicalrep_read_rollback_prepared (to_server env) s) (\<lambda>(rollback_data, s).
     let w = set_apply_error_context_xact (rb_xid rollback_data) (rb_rollback_end_lsn rollback_data) w
     in bindR (TwoPhaseTransactionGid (subid env) (rb_xid rollback_data)) (\<lambda>gid.
        bindR (if LookupGXact gid (rb_prepare_end_lsn rollback_data) (rb_prepare_time rollback_data) (xact w)
               then
                 bindR (begin_replication_step env
                     (set_origin (rb_rollback_end_lsn rollback_data) (rb_rollback_time rollback_data) w)) (\<lambda>w.
                 bindR (finish_prepared env gid False w) (clear_subscription_skip_lsn env))
               else Inr w) (\<lambda>w.
        let w = (track_flush (rb_rollback_end_lsn rollback_data) InvalidXLogRecPtr w)\<lparr>in_remote_transaction := False\<rparr>
        in bindR (sync_tables env (rb_rollback_end_lsn rollback_data) w) (\<lambda>w.
           Inr (reset_apply_error_context_info w)))))"

definition apply_handle_origin ::
    "('w, 'rk, 'rkt, 'r) worker_env \<Rightarrow> ('w, 'rk, 'rkt) worker \<Rightarrow> ('w, 'rk, 'rkt) worker res" where
  "apply_handle_origin env w =
     (if \<not> in_streamed_transaction w \<and>
         (\<not> in_remote_transaction w \<or> (IsTransactionState (xact w) \<and> worker_type env \<noteq> WORKERTYPE_TABLESYNC))
      then Inl (PgError ''ORIGIN message sent out of order'') else Inr w)"


section \<open>Descriptions and changes\<close>

text \<open>
  Partitions are never opened by this worker, so the partition map of \<^verbatim>\<open>relation.c\<close> does
  not exist and resetting it does nothing.
\<close>

definition apply_handle_relation ::
    "('w, 'rk, 'rkt, 'r) worker_env \<Rightarrow> StringInfoData \<Rightarrow> ('w, 'rk, 'rkt) worker \<Rightarrow> ('w, 'rk, 'rkt) worker res" where
  "apply_handle_relation env s w =
     bindR (handle_streamed_transaction LOGICAL_REP_MSG_RELATION s w) (\<lambda>(streamed, s, w).
     if streamed then Inr w
     else
       bindR (logicalrep_read_rel (to_server env) s) (\<lambda>(rel, s).
       bindR (logicalrep_relmap_update rel (relations w)) (\<lambda>rm. Inr (w\<lparr>relations := rm\<rparr>))))"

definition apply_handle_type ::
    "('w, 'rk, 'rkt, 'r) worker_env \<Rightarrow> StringInfoData \<Rightarrow> ('w, 'rk, 'rkt) worker \<Rightarrow> ('w, 'rk, 'rkt) worker res" where
  "apply_handle_type env s w =
     bindR (handle_streamed_transaction LOGICAL_REP_MSG_TYPE s w) (\<lambda>(streamed, s, w).
     if streamed then Inr w
     else bindR (logicalrep_read_typ (to_server env) s) (\<lambda>(ltyp, s). Inr w))"

text \<open>
  The frame of the three row handlers: skip or spool the message, or begin a step, read it
  with \<open>reader\<close>, open its relation, turn the change into a message with \<open>to_json\<close>, close.
\<close>

definition publish_change ::
    "('w, 'rk, 'rkt, 'r) worker_env \<Rightarrow> (32 word \<times> 'c) reader \<Rightarrow>
     (LogicalRepRelation \<Rightarrow> 'c \<Rightarrow> ('w, 'rk, 'rkt) change_publisher \<Rightarrow> ('w, 'rk, 'rkt) change_publisher res) \<Rightarrow>
     StringInfoData \<Rightarrow> ('w, 'rk, 'rkt) worker \<Rightarrow> ('w, 'rk, 'rkt) worker res" where
  "publish_change env reader to_json s w =
     bindR (reader s) (\<lambda>((relid, change), s).
     bindR (logicalrep_rel_open (local_cat env) relid (relations w)) (\<lambda>(rel, rm).
     bindR (to_json (remoterel rel) change (pub w)) (\<lambda>p.
     bindR (logicalrep_rel_close relid rm) (\<lambda>rm.
     Inr (w\<lparr>relations := rm, pub := p\<rparr>)))))"

definition handle_change ::
    "('w, 'rk, 'rkt, 'r) worker_env \<Rightarrow> LogicalRepMsgType \<Rightarrow> (32 word \<times> 'c) reader \<Rightarrow>
     (LogicalRepRelation \<Rightarrow> 'c \<Rightarrow> ('w, 'rk, 'rkt) change_publisher \<Rightarrow> ('w, 'rk, 'rkt) change_publisher res) \<Rightarrow>
     StringInfoData \<Rightarrow> ('w, 'rk, 'rkt) worker \<Rightarrow> ('w, 'rk, 'rkt) worker res" where
  "handle_change env action reader to_json s w =
     (if is_skipping_changes w then Inr w
      else
        bindR (handle_streamed_transaction action s w) (\<lambda>(streamed, s, w).
        if streamed then Inr w
        else bindR (begin_replication_step env w) (publish_change env reader to_json s)))"

definition apply_handle_insert ::
    "('w, 'rk, 'rkt, 'r::zero) worker_env \<Rightarrow> StringInfoData \<Rightarrow> ('w, 'rk, 'rkt) worker \<Rightarrow> ('w, 'rk, 'rkt) worker res" where
  "apply_handle_insert env s w = handle_change env LOGICAL_REP_MSG_INSERT logicalrep_read_insert
     (\<lambda>rel newtup. INSERT_TO_JSON (kafka_lib env) (settings env) (doubles env) (sub_conninfo (MySubscription w)) rel newtup) s w"

definition apply_handle_update ::
    "('w, 'rk, 'rkt, 'r::zero) worker_env \<Rightarrow> StringInfoData \<Rightarrow> ('w, 'rk, 'rkt) worker \<Rightarrow> ('w, 'rk, 'rkt) worker res" where
  "apply_handle_update env s w = handle_change env LOGICAL_REP_MSG_UPDATE logicalrep_read_update
     (\<lambda>rel (oldtup, newtup). UPDATE_TO_JSON (kafka_lib env) (settings env) (doubles env) (sub_conninfo (MySubscription w)) rel oldtup newtup) s w"

definition apply_handle_delete ::
    "('w, 'rk, 'rkt, 'r::zero) worker_env \<Rightarrow> StringInfoData \<Rightarrow> ('w, 'rk, 'rkt) worker \<Rightarrow> ('w, 'rk, 'rkt) worker res" where
  "apply_handle_delete env s w = handle_change env LOGICAL_REP_MSG_DELETE logicalrep_read_delete
     (\<lambda>rel oldtup. DELETE_TO_JSON (kafka_lib env) (settings env) (doubles env) (sub_conninfo (MySubscription w)) rel oldtup) s w"

text \<open>TRUNCATE opens and checks every table, and closes them again.\<close>

fun check_partitions :: "('w, 'rk, 'rkt, 'r) worker_env \<Rightarrow> Oid list \<Rightarrow> Oid list \<Rightarrow> Oid list res" where
  "check_partitions env [] relids = Inr relids"
| "check_partitions env (childrelid # children) relids =
     (if childrelid \<in> set relids then check_partitions env children relids
      else if table_of (local_cat env) childrelid = None then Inl (PgError ''could not open relation'')
      else if other_temp env childrelid then check_partitions env children relids
      else bindR (TargetPrivilegesCheck env childrelid) (\<lambda>_. check_partitions env children (relids @ [childrelid])))"

fun open_truncated ::
    "('w, 'rk, 'rkt, 'r) worker_env \<Rightarrow> Oid list \<Rightarrow> Oid list \<Rightarrow> Oid list \<Rightarrow> ('w, 'rk, 'rkt) worker \<Rightarrow>
     (Oid list \<times> ('w, 'rk, 'rkt) worker) res" where
  "open_truncated env [] remote_rels relids w = Inr (remote_rels, w)"
| "open_truncated env (relid # rest) remote_rels relids w =
     bindR (logicalrep_rel_open (local_cat env) relid (relations w)) (\<lambda>(rel, rm).
     bindR (should_apply_changes_for_rel env w rel) (\<lambda>apply_it.
     if \<not> apply_it
     then bindR (logicalrep_rel_close relid rm) (\<lambda>rm. open_truncated env rest remote_rels relids (w\<lparr>relations := rm\<rparr>))
     else
       bindR (TargetPrivilegesCheck env (localreloid rel)) (\<lambda>_.
       bindR (case localrel rel of None \<Rightarrow> Inl (Undefined NullPointer)
              | Some tab \<Rightarrow>
                  if lt_relkind tab = RELKIND_PARTITIONED_TABLE
                  then check_partitions env (find_all_inheritors env (localreloid rel)) (relids @ [localreloid rel])
                  else Inr (relids @ [localreloid rel])) (\<lambda>relids.
       open_truncated env rest (remote_rels @ [relid]) relids (w\<lparr>relations := rm\<rparr>)))))"

fun close_all :: "Oid list \<Rightarrow> relmap \<Rightarrow> relmap res" where
  "close_all [] rm = Inr rm"
| "close_all (relid # rest) rm = bindR (logicalrep_rel_close relid rm) (close_all rest)"

definition check_truncated ::
    "('w, 'rk, 'rkt, 'r) worker_env \<Rightarrow> StringInfoData \<Rightarrow> ('w, 'rk, 'rkt) worker \<Rightarrow> ('w, 'rk, 'rkt) worker res" where
  "check_truncated env s w =
     bindR (logicalrep_read_truncate s) (\<lambda>((remote_relids, cascade, restart_seqs), s).
     bindR (open_truncated env remote_relids [] [] w) (\<lambda>(remote_rels, w).
     bindR (close_all remote_rels (relations w)) (\<lambda>rm. Inr (w\<lparr>relations := rm\<rparr>))))"

definition apply_handle_truncate ::
    "('w, 'rk, 'rkt, 'r) worker_env \<Rightarrow> StringInfoData \<Rightarrow> ('w, 'rk, 'rkt) worker \<Rightarrow> ('w, 'rk, 'rkt) worker res" where
  "apply_handle_truncate env s w =
     (if is_skipping_changes w then Inr w
      else
        bindR (handle_streamed_transaction LOGICAL_REP_MSG_TRUNCATE s w) (\<lambda>(streamed, s, w).
        if streamed then Inr w
        else bindR (begin_replication_step env w) (check_truncated env s)))"

section \<open>Messages of a streamed transaction\<close>

definition apply_handle_stream_start ::
    "('w, 'rk, 'rkt, 'r) worker_env \<Rightarrow> StringInfoData \<Rightarrow> ('w, 'rk, 'rkt) worker \<Rightarrow> ('w, 'rk, 'rkt) worker res" where
  "apply_handle_stream_start env s w =
     (if in_streamed_transaction w then Inl (PgError ''duplicate STREAM START message'')
      else
        bindR (logicalrep_read_stream_start s) (\<lambda>((xid, first_segment), s).
        if xid = InvalidTransactionId
        then Inl (PgError ''invalid transaction ID in streamed replication transaction'')
        else
          let w = set_apply_error_context_xact xid InvalidXLogRecPtr
                    (w\<lparr>in_streamed_transaction := True, stream_xid := xid\<rparr>)
          in bindR (if first_segment \<and> worker_type env = WORKERTYPE_APPLY
                    then maybe_reread_subscription env w else Inr w)
               (stream_start_internal env xid first_segment)))"

definition apply_handle_stream_stop ::
    "('w, 'rk, 'rkt, 'r) worker_env \<Rightarrow> ('w, 'rk, 'rkt) worker \<Rightarrow> ('w, 'rk, 'rkt) worker res" where
  "apply_handle_stream_stop env w =
     (if \<not> in_streamed_transaction w then Inl (PgError ''STREAM STOP message without STREAM START'')
      else
        bindR (stream_stop_internal env (stream_xid w) w) (\<lambda>w.
        Inr (reset_apply_error_context_info
          (w\<lparr>in_streamed_transaction := False, stream_xid := InvalidTransactionId\<rparr>))))"

definition apply_handle_stream_abort ::
    "('w, 'rk, 'rkt, 'r) worker_env \<Rightarrow> StringInfoData \<Rightarrow> ('w, 'rk, 'rkt) worker \<Rightarrow> ('w, 'rk, 'rkt) worker res" where
  "apply_handle_stream_abort env s w =
     (if in_streamed_transaction w then Inl (PgError ''STREAM ABORT message without STREAM STOP'')
      else
        bindR (logicalrep_read_stream_abort False s) (\<lambda>(abort_data, s).
        bindR (stream_abort_internal env (ab_xid abort_data) (ab_subxid abort_data)
            (set_apply_error_context_xact (ab_subxid abort_data) (ab_abort_lsn abort_data) w)) (\<lambda>w.
        Inr (reset_apply_error_context_info w))))"

section \<open>Replaying a spooled transaction\<close>

text \<open>\<open>dispatch\<close> is the dispatcher; \<open>pos\<close> the position behind the last record read.\<close>

definition ensure_last_message ::
    "('w, 'rk, 'rkt, 'r) worker_env \<Rightarrow> TransactionId \<Rightarrow> nat \<Rightarrow> ('w, 'rk, 'rkt) worker \<Rightarrow> ('w, 'rk, 'rkt) worker res" where
  "ensure_last_message env xid pos w =
     bindR (begin_replication_step env w) (\<lambda>w.
     bindR (open_changes (changes_filename (subid env) xid) (files w)) (\<lambda>bytes.
     if length bytes \<noteq> pos then Inl (PgError ''unexpected message left in streaming transaction's changes file'')
     else Inr w))"

fun replay_loop ::
    "nat \<Rightarrow> ('w, 'rk, 'rkt, 'r) worker_env \<Rightarrow> (StringInfoData \<Rightarrow> ('w, 'rk, 'rkt) worker \<Rightarrow> ('w, 'rk, 'rkt) worker res) \<Rightarrow>
     TransactionId \<Rightarrow> ('w, 'rk, 'rkt) worker \<Rightarrow> ('w, 'rk, 'rkt) worker res" where
  "replay_loop 0 env dispatch xid w = Inl Diverges"
| "replay_loop (Suc fuel) env dispatch xid w =
     bindR (next_record (files w)) (\<lambda>(r, sp).
     case r of None \<Rightarrow> Inr (w\<lparr>files := sp\<rparr>)
     | Some r \<Rightarrow>
         bindR (dispatch (initReadOnlyStringInfo (map Some r) (length r)) (w\<lparr>files := sp\<rparr>)) (\<lambda>w.
         if stream_fd (files w) = None
         then ensure_last_message env xid (case stream_fd sp of None \<Rightarrow> 0 | Some (path, pos) \<Rightarrow> pos) w
         else replay_loop fuel env dispatch xid w))"

definition apply_spooled_messages ::
    "('w, 'rk, 'rkt, 'r) worker_env \<Rightarrow> (StringInfoData \<Rightarrow> ('w, 'rk, 'rkt) worker \<Rightarrow> ('w, 'rk, 'rkt) worker res) \<Rightarrow>
     TransactionId \<Rightarrow> XLogRecPtr \<Rightarrow> ('w, 'rk, 'rkt) worker \<Rightarrow> ('w, 'rk, 'rkt) worker res" where
  "apply_spooled_messages env dispatch xid lsn w =
     bindR (begin_replication_step env (maybe_start_skipping_changes lsn w)) (\<lambda>w.
     bindR (open_changes (changes_filename (subid env) xid) (files w)) (\<lambda>bytes.
     let w = w\<lparr>files := (files w)\<lparr>stream_fd := Some (changes_filename (subid env) xid, 0)\<rparr>,
               remote_final_lsn := lsn, in_remote_transaction := True\<rparr>
     in bindR (replay_loop (Suc (length bytes)) env dispatch xid w) (\<lambda>w.
        Inr (if stream_fd (files w) \<noteq> None then w\<lparr>files := stream_close_file (files w)\<rparr> else w))))"

definition cleanup_files :: "('w, 'rk, 'rkt, 'r) worker_env \<Rightarrow> TransactionId \<Rightarrow> ('w, 'rk, 'rkt) worker \<Rightarrow> ('w, 'rk, 'rkt) worker res" where
  "cleanup_files env xid w = bindR (stream_cleanup_files (subid env) xid (files w)) (\<lambda>sp. Inr (w\<lparr>files := sp\<rparr>))"

definition apply_handle_stream_commit ::
    "('w, 'rk, 'rkt, 'r) worker_env \<Rightarrow> (StringInfoData \<Rightarrow> ('w, 'rk, 'rkt) worker \<Rightarrow> ('w, 'rk, 'rkt) worker res) \<Rightarrow>
     StringInfoData \<Rightarrow> ('w, 'rk, 'rkt) worker \<Rightarrow> ('w, 'rk, 'rkt) worker res" where
  "apply_handle_stream_commit env dispatch s w =
     (if in_streamed_transaction w then Inl (PgError ''STREAM COMMIT message without STREAM STOP'')
      else
        bindR (logicalrep_read_stream_commit s) (\<lambda>((xid, commit_data), s).
        bindR (apply_spooled_messages env dispatch xid (cd_commit_lsn commit_data)
            (set_apply_error_context_xact xid (cd_commit_lsn commit_data) w)) (\<lambda>w.
        bindR (apply_handle_commit_internal env commit_data w) (\<lambda>w.
        bindR (cleanup_files env xid w) (\<lambda>w.
        bindR (sync_tables env (cd_end_lsn commit_data) w) (\<lambda>w.
        Inr (reset_apply_error_context_info w)))))))"

definition apply_handle_stream_prepare ::
    "('w, 'rk, 'rkt, 'r) worker_env \<Rightarrow> (StringInfoData \<Rightarrow> ('w, 'rk, 'rkt) worker \<Rightarrow> ('w, 'rk, 'rkt) worker res) \<Rightarrow>
     StringInfoData \<Rightarrow> ('w, 'rk, 'rkt) worker \<Rightarrow> ('w, 'rk, 'rkt) worker res" where
  "apply_handle_stream_prepare env dispatch s w =
     (if in_streamed_transaction w then Inl (PgError ''STREAM PREPARE message without STREAM STOP'')
      else if worker_type env = WORKERTYPE_TABLESYNC
      then Inl (PgError ''tablesync worker received a STREAM PREPARE message'')
      else
        bindR (logicalrep_read_stream_prepare (to_server env) s) (\<lambda>(prepare_data, s).
        bindR (apply_spooled_messages env dispatch (pd_xid prepare_data) (pd_prepare_lsn prepare_data)
            (set_apply_error_context_xact (pd_xid prepare_data) (pd_prepare_lsn prepare_data) w)) (\<lambda>w.
        bindR (apply_handle_prepare_internal env prepare_data w) (\<lambda>w.
        bindR (commit_command env w) (\<lambda>w.
        bindR (cleanup_files env (pd_xid prepare_data)
            ((track_flush (pd_end_lsn prepare_data) InvalidXLogRecPtr w)\<lparr>in_remote_transaction := False\<rparr>)) (\<lambda>w.
        bindR (sync_tables env (pd_end_lsn prepare_data) w) (\<lambda>w.
        bindR (clear_subscription_skip_lsn env (stop_skipping_changes w)) (\<lambda>w.
        Inr (reset_apply_error_context_info w)))))))))"

section \<open>The dispatcher\<close>

text \<open>
  The dispatcher calls itself through the replay of a spooled transaction; \<open>depth\<close> bounds how
  deep.
\<close>

definition dispatch_action ::
    "('w, 'rk, 'rkt, 'r::zero) worker_env \<Rightarrow> (StringInfoData \<Rightarrow> ('w, 'rk, 'rkt) worker \<Rightarrow> ('w, 'rk, 'rkt) worker res) \<Rightarrow>
     byte \<Rightarrow> StringInfoData \<Rightarrow> ('w, 'rk, 'rkt) worker \<Rightarrow> ('w, 'rk, 'rkt) worker res" where
  "dispatch_action env dispatch action s w =
     (if action = msg_char LOGICAL_REP_MSG_BEGIN then apply_handle_begin s w
      else if action = msg_char LOGICAL_REP_MSG_COMMIT then apply_handle_commit env s w
      else if action = msg_char LOGICAL_REP_MSG_INSERT then apply_handle_insert env s w
      else if action = msg_char LOGICAL_REP_MSG_UPDATE then apply_handle_update env s w
      else if action = msg_char LOGICAL_REP_MSG_DELETE then apply_handle_delete env s w
      else if action = msg_char LOGICAL_REP_MSG_TRUNCATE then apply_handle_truncate env s w
      else if action = msg_char LOGICAL_REP_MSG_RELATION then apply_handle_relation env s w
      else if action = msg_char LOGICAL_REP_MSG_TYPE then apply_handle_type env s w
      else if action = msg_char LOGICAL_REP_MSG_ORIGIN then apply_handle_origin env w
      else if action = msg_char LOGICAL_REP_MSG_MESSAGE then Inr w
      else if action = msg_char LOGICAL_REP_MSG_STREAM_START then apply_handle_stream_start env s w
      else if action = msg_char LOGICAL_REP_MSG_STREAM_STOP then apply_handle_stream_stop env w
      else if action = msg_char LOGICAL_REP_MSG_STREAM_ABORT then apply_handle_stream_abort env s w
      else if action = msg_char LOGICAL_REP_MSG_STREAM_COMMIT then apply_handle_stream_commit env dispatch s w
      else if action = msg_char LOGICAL_REP_MSG_BEGIN_PREPARE then apply_handle_begin_prepare env s w
      else if action = msg_char LOGICAL_REP_MSG_PREPARE then apply_handle_prepare env s w
      else if action = msg_char LOGICAL_REP_MSG_COMMIT_PREPARED then apply_handle_commit_prepared env s w
      else if action = msg_char LOGICAL_REP_MSG_ROLLBACK_PREPARED then apply_handle_rollback_prepared env s w
      else if action = msg_char LOGICAL_REP_MSG_STREAM_PREPARE then apply_handle_stream_prepare env dispatch s w
      else Inl (PgError ''invalid logical replication message type''))"

fun apply_dispatch ::
    "nat \<Rightarrow> ('w, 'rk, 'rkt, 'r::zero) worker_env \<Rightarrow> StringInfoData \<Rightarrow> ('w, 'rk, 'rkt) worker \<Rightarrow> ('w, 'rk, 'rkt) worker res" where
  "apply_dispatch 0 env s w = Inl Diverges"
| "apply_dispatch (Suc depth) env s w =
     bindR (pq_getmsgbyte s) (\<lambda>(action, s).
     bindR (dispatch_action env (apply_dispatch depth env) action s (w\<lparr>err_command := action\<rparr>)) (\<lambda>w'.
     Inr (w'\<lparr>err_command := err_command w\<rparr>)))"

text \<open>A run of the worker on a sequence of messages.\<close>

fun apply_messages ::
    "nat \<Rightarrow> ('w, 'rk, 'rkt, 'r::zero) worker_env \<Rightarrow> byte list list \<Rightarrow> ('w, 'rk, 'rkt) worker \<Rightarrow> ('w, 'rk, 'rkt) worker res" where
  "apply_messages depth env [] w = Inr w"
| "apply_messages depth env (m # ms) w = bindR (apply_dispatch depth env (received m) w) (apply_messages depth env ms)"

end
