(* ===== verification/WorkerPublish.thy ===== *)
theory WorkerPublish
  imports ApplyWorker "HOL-Library.Sublist"
begin

text \<open>
  From the publisher's row to the Kafka message: what the apply worker does with the row
  messages of a transaction, and what it acknowledges afterwards.
\<close>

section \<open>Messages at the dispatcher\<close>

text \<open>A message written by the publisher and dispatched by the worker.\<close>

definition deliver ::
    "(StringInfoData \<Rightarrow> StringInfoData res) \<Rightarrow> nat \<Rightarrow> ('w, 'rk, 'rkt, 'r::zero) worker_env \<Rightarrow> ('w, 'rk, 'rkt) worker \<Rightarrow>
     ('w, 'rk, 'rkt) worker res" where
  "deliver wr depth env w =
     bindR (bindR initStringInfo wr) (\<lambda>out. apply_dispatch depth env (received (si_bytes out)) w)"

lemma written_bytes:
  assumes "appends wr bs" and "length bs < MaxAllocSize"
  shows "deliver wr depth env w = apply_dispatch depth env (received bs) w"
proof -
  obtain s0 where s0: "initStringInfo = Inr s0" "si_wf s0" "si_bytes s0 = []" "si_len s0 = 0" by (rule initStringInfo_ok)
  then obtain out where "wr s0 = Inr out" "si_bytes out = bs"
    using appends_okE [OF assms(1) s0(2)] assms(2) by (metis add_0 append_Nil)
  then show ?thesis by (simp add: deliver_def s0)
qed

text \<open>A message whose unread part is \<open>m\<close>: the whole of a received message, or what follows a header.\<close>

definition carries :: "StringInfoData \<Rightarrow> byte list \<Rightarrow> bool" where
  "carries s m \<longleftrightarrow> msg_ok s \<and> remaining s = m"

lemma carries_received [simp]: "carries (received m) m"
  by (simp add: carries_def)

lemma carries_advance: "carries s (c # m) \<Longrightarrow> carries (advance 1 s) m"
  using advance_ok [of s "[c]" m] by (simp add: carries_def)

lemma dispatch_carried:
  assumes "carries s (c # bs)"
  shows "apply_dispatch (Suc depth) env s w =
     bindR (dispatch_action env (apply_dispatch depth env) c (advance 1 s) (w\<lparr>err_command := c\<rparr>)) (\<lambda>w'.
     Inr (w'\<lparr>err_command := err_command w\<rparr>))"
  using parsesD [OF pq_getmsgbyte_parses, of s c bs] assms by (simp add: carries_def)

declare apply_dispatch.simps [simp del]

lemma parse_carried:
  assumes "parses r bs x" and "carries s (c # bs)"
  shows "\<exists>s'. r (advance 1 s) = Inr (x, s')"
  using parsesD [OF assms(1), of "advance 1 s" "[]"] carries_advance [OF assms(2)] by (simp add: carries_def)

section \<open>Opening a relation twice\<close>

lemma rebuild_determined:
  assumes "rebuild_by_name cat (e\<lparr>attrmap := None\<rparr>) = Inr e1" and "remoterel f = remoterel e"
  shows "\<exists>f1. rebuild_by_name cat (f\<lparr>attrmap := None\<rparr>) = Inr f1 \<and> remoterel f1 = remoterel e"
  using assms by (auto simp: rebuild_by_name_def Let_def bindR_eq_Inr_iff split: if_splits option.splits prod.splits)

lemma reopen_same [simp]: "localreloid (reopen_by_oid cat e) = localreloid e" "remoterel (reopen_by_oid cat e) = remoterel e"
  by (simp_all add: reopen_by_oid_def split: option.splits)

lemma reopen_valid: "localrelvalid (reopen_by_oid cat e) \<Longrightarrow> \<not> lock_invalidates cat (localreloid e)"
  by (auto simp: reopen_by_oid_def split: if_splits option.splits)

text \<open>
  A relation is usable when its description is in the map and it can be opened; it stays so
  while the relations are opened and closed.
\<close>

definition usable :: "local_catalog \<Rightarrow> Oid \<Rightarrow> LogicalRepRelation \<Rightarrow> relmap \<Rightarrow> bool" where
  "usable cat relid rel rm \<longleftrightarrow> (\<exists>entry rm'. logicalrep_rel_open cat relid rm = Inr (entry, rm') \<and> remoterel entry = rel)"

lemma usable_other:
  "a \<noteq> b \<Longrightarrow> usable cat a rel (rm(b \<mapsto> e)) \<longleftrightarrow> usable cat a rel rm"
  by (auto simp: usable_def logicalrep_rel_open_def Let_def bindR_eq_Inr_iff split: option.splits if_splits)

lemma usable_again:
  assumes ok: "relmap_ok cat rm" and o: "logicalrep_rel_open cat rid rm = Inr (entry, rm1)"
    and c: "logicalrep_rel_close rid rm1 = Inr rm2"
  shows "usable cat rid (remoterel entry) rm2"
proof -
  obtain tab old where e: "rm rid = Some old" "remoterel entry = remoterel old" "localrel entry = Some tab"
    "table_of cat (localreloid entry) = Some tab" "localrelvalid entry" "rm1 = rm(rid \<mapsto> entry)"
    by (rule rel_open_resolved [OF ok o])
  let ?e = "entry\<lparr>localrel := None\<rparr>"
  have rm2: "rm2 rid = Some ?e" using c e by (auto simp: logicalrep_rel_close_def)
  show ?thesis
  proof (cases "lock_invalidates cat (localreloid entry)")
    case False
    then have "reopen_by_oid cat ?e = entry" using e by (simp add: reopen_by_oid_def)
    then show ?thesis using rm2 e by (auto simp: usable_def logicalrep_rel_open_def Let_def)
  next
    case True
    then have re: "reopen_by_oid cat ?e = ?e\<lparr>localrelvalid := False\<rparr>" using e by (simp add: reopen_by_oid_def)
    have "\<exists>e0 e1. rebuild_by_name cat (e0\<lparr>attrmap := None\<rparr>) = Inr e1 \<and> remoterel e0 = remoterel old"
    proof (cases "localrelvalid (reopen_by_oid cat old)")
      case True
      then have "localreloid entry = localreloid old"
        using o e(1) True by (auto simp: logicalrep_rel_open_def Let_def split: if_splits)
      then show ?thesis using reopen_valid [OF True] \<open>lock_invalidates cat (localreloid entry)\<close> by simp
    next
      case False
      moreover have "remoterel (reopen_by_oid cat old) = remoterel old" by simp
      ultimately show ?thesis using o e(1) by (auto simp: logicalrep_rel_open_def Let_def bindR_eq_Inr_iff split: if_splits)
    qed
    then obtain e0 e1 where "rebuild_by_name cat (e0\<lparr>attrmap := None\<rparr>) = Inr e1"
      "remoterel (?e\<lparr>localrelvalid := False\<rparr>) = remoterel e0" using e(2) by auto
    then obtain f1 where "rebuild_by_name cat ((?e\<lparr>localrelvalid := False\<rparr>)\<lparr>attrmap := None\<rparr>) = Inr f1"
      "remoterel f1 = remoterel entry" using rebuild_determined [of cat e0 e1 "?e\<lparr>localrelvalid := False\<rparr>"] by auto
    then show ?thesis using rm2 re by (auto simp: usable_def logicalrep_rel_open_def Let_def)
  qed
qed


section \<open>A worker that applies changes\<close>

text \<open>
  The worker neither skips nor streams, is in a transaction or can start one, its producer
  runs or can be started, and its relation map is in order.
\<close>

definition applying :: "('w \<Rightarrow> byte list list) \<Rightarrow> cstring \<Rightarrow> ('w, 'rk, 'rkt, 'r) worker_env \<Rightarrow> ('w, 'rk, 'rkt) worker \<Rightarrow> bool" where
  "applying accepted db env w \<longleftrightarrow> \<not> is_skipping_changes w \<and> \<not> in_streamed_transaction w \<and>
     (IsTransactionState (xact w) \<or> blockState (xact w) = TBLOCK_DEFAULT \<and> MySubscriptionValid w) \<and>
     serving (kafka_lib env) accepted (settings env) (sub_conninfo (MySubscription w)) db (pub w) \<and> relmap_ok (local_cat env) (relations w)"

lemma in_started [simp]: "IsTransactionState (x\<lparr>blockState := TBLOCK_STARTED\<rparr>)"
  by (simp add: IsTransactionState_def)

lemma begin_step:
  assumes "applying accepted db env w"
  obtains x where "begin_replication_step env w = Inr (w\<lparr>xact := x\<rparr>)" and "IsTransactionState x"
    and "x = (if IsTransactionState (xact w) then xact w else (StartTransaction (xact w))\<lparr>blockState := TBLOCK_STARTED\<rparr>)"
proof (cases "IsTransactionState (xact w)")
  case True
  then show thesis by (intro that [of "xact w"]) (simp_all add: begin_replication_step_def)
next
  case False
  then have d: "blockState (xact w) = TBLOCK_DEFAULT" "MySubscriptionValid w" using assms by (simp_all add: applying_def)
  show thesis
    by (rule that [of "(StartTransaction (xact w))\<lparr>blockState := TBLOCK_STARTED\<rparr>"])
      (use False d in \<open>simp_all add: begin_replication_step_def start_command_def StartTransactionCommand_def
        maybe_reread_subscription_def IsTransactionState_def\<close>)
qed

text \<open>
  What a row handler leaves: the same worker, in a transaction, the relation map reopened, and
  the change handed over.
\<close>

definition row_applied ::
    "('w \<Rightarrow> byte list list) \<Rightarrow> byte list \<Rightarrow> local_catalog \<Rightarrow> ('w, 'rk, 'rkt) worker \<Rightarrow> ('w, 'rk, 'rkt) worker \<Rightarrow> bool" where
  "row_applied accepted msg cat w w' \<longleftrightarrow>
     handed_over accepted msg (pub w) (pub w') \<and>
     w' = w\<lparr>pub := pub w', relations := relations w', xact := xact w'\<rparr> \<and> IsTransactionState (xact w') \<and>
     xact w' = (if IsTransactionState (xact w) then xact w else (StartTransaction (xact w))\<lparr>blockState := TBLOCK_STARTED\<rparr>) \<and>
     (\<forall>relid rel. usable cat relid rel (relations w) \<longrightarrow> usable cat relid rel (relations w'))"

lemma handle_change_applied:
  assumes w: "applying accepted db env w" and use: "usable (local_cat env) relid rel (relations w)"
    and reader: "reader s = Inr ((relid, change), s')"
    and json: "\<exists>p. to_json rel change (pub w) = Inr p \<and> ready db p \<and> handed_over accepted msg (pub w) p"
  shows "\<exists>w'. handle_change env action reader to_json s w = Inr w' \<and> applying accepted db env w' \<and>
    row_applied accepted msg (local_cat env) w w'"
proof -
  obtain x where x: "begin_replication_step env w = Inr (w\<lparr>xact := x\<rparr>)" "IsTransactionState x"
    "x = (if IsTransactionState (xact w) then xact w else (StartTransaction (xact w))\<lparr>blockState := TBLOCK_STARTED\<rparr>)"
    by (rule begin_step [OF w])
  have ok: "relmap_ok (local_cat env) (relations w)" using w by (simp add: applying_def)
  obtain entry rm1 where o: "logicalrep_rel_open (local_cat env) relid (relations w) = Inr (entry, rm1)" "remoterel entry = rel"
    using use by (auto simp: usable_def)
  obtain rm2 where c: "logicalrep_rel_close relid rm1 = Inr rm2" "relmap_ok (local_cat env) rm2"
    using rel_open_close [OF ok o(1)] by auto
  obtain p where p: "to_json rel change (pub w) = Inr p" "ready db p" "handed_over accepted msg (pub w) p" using json by auto
  have keep: "usable (local_cat env) r rl rm2" if u: "usable (local_cat env) r rl (relations w)" for r rl
  proof (cases "r = relid")
    case True
    then show ?thesis using usable_again [OF ok o(1) c(1)] u o by (auto simp: usable_def)
  next
    case False
    obtain tab old where "rm1 = (relations w)(relid \<mapsto> entry)" by (rule rel_open_resolved [OF ok o(1)])
    moreover then have "rm2 = (relations w)(relid \<mapsto> entry\<lparr>localrel := None\<rparr>)"
      using c(1) by (auto simp: logicalrep_rel_close_def split: if_splits)
    ultimately show ?thesis using u usable_other [OF False] by simp
  qed
  let ?w = "w\<lparr>xact := x, relations := rm2, pub := p\<rparr>"
  have "handle_change env action reader to_json s w = Inr ?w"
    using w x(1) reader o p(1) c(1)
    by (simp add: handle_change_def publish_change_def handle_streamed_transaction_def get_transaction_apply_action_def applying_def)
  moreover have "applying accepted db env ?w" using w x(2) p(2) c(2) by (simp add: applying_def is_skipping_changes_def serving_def)
  moreover have "row_applied accepted msg (local_cat env) w ?w" using p(3) x keep by (simp add: row_applied_def)
  ultimately show ?thesis by blast
qed

section \<open>Row messages\<close>

text \<open>
  The text a column value is published as: what stands before the first terminator of the
  data, and nothing for a null as for an unchanged value.
\<close>

definition image_text :: "(byte \<times> byte list option) list \<Rightarrow> cstring option list" where
  "image_text imgs = map (\<lambda>(kind, data). map_option c_str data) imgs"

lemma row_view_text: "row_text (colvalues (row_view imgs)) = Inr (image_text imgs)"
proof (induction imgs)
  case Nil
  then show ?case by (simp add: row_view_def image_text_def)
next
  case (Cons img imgs)
  obtain kind data where img: "img = (kind, data)" by (cases img)
  have "column_text (snd (column_view img)) = Inr (map_option c_str data)"
    by (cases data) (simp_all add: img column_view_def column_text_def initStringInfoFromString_def string_at_c_str del: map_append)
  then show ?case using Cons by (simp add: row_view_def image_text_def img)
qed

lemma length_row_view [simp]: "length (colvalues (row_view imgs)) = length imgs"
  by (simp add: row_view_def)

text \<open>A row message: its bytes, its relation, and the change it stands for.\<close>

inductive row_message :: "byte list \<Rightarrow> Oid \<Rightarrow> change_row \<Rightarrow> bool" where
  inserted: "parses logicalrep_read_insert bs (relid, row_view imgs) \<Longrightarrow>
    row_message (CHR ''I'' # bs) relid (Inserted (image_text imgs))"
| updated: "parses logicalrep_read_update bs (relid, map_option row_view olds, row_view imgs) \<Longrightarrow>
    row_message (CHR ''U'' # bs) relid (Updated (map_option image_text olds) (image_text imgs))"
| deleted: "parses logicalrep_read_delete bs (relid, row_view imgs) \<Longrightarrow>
    row_message (CHR ''D'' # bs) relid (Deleted (image_text imgs))"

lemma dispatch_row_actions:
  "dispatch_action env dispatch (CHR ''I'') s w = apply_handle_insert env s w"
  "dispatch_action env dispatch (CHR ''U'') s w = apply_handle_update env s w"
  "dispatch_action env dispatch (CHR ''D'') s w = apply_handle_delete env s w"
  by (simp_all add: dispatch_action_def)

text \<open>The relation of a change has a name for each column, and the message fits the printer's buffers.\<close>

definition publishable :: "cstring \<Rightarrow> LogicalRepRelation \<Rightarrow> change_row \<Rightarrow> bool" where
  "publishable db rel ch \<longleftrightarrow> list_all nul_free (attnames rel) \<and>
     length (change_columns ch) \<le> length (attnames rel) \<and> fits (change_text db rel ch)"

lemma applying_err [simp]: "applying accepted db env (w\<lparr>err_command := c\<rparr>) \<longleftrightarrow> applying accepted db env w"
  by (simp add: applying_def is_skipping_changes_def)

lemma dispatch_row:
  fixes env :: "('w, 'rk, 'rkt, 'r::zero) worker_env"
  assumes lib: "client_contract (kafka_lib env) accepted" and fp: "sprintf_fits (doubles env)"
    and w: "applying accepted db env w" and m: "row_message m relid ch" and s: "carries s m"
    and use: "usable (local_cat env) relid rel (relations w)" and ch: "publishable db rel ch"
  shows "\<exists>w'. apply_dispatch (Suc depth) env s w = Inr w' \<and> applying accepted db env w' \<and>
    row_applied accepted (change_text db rel ch) (local_cat env) w w'"
proof -
  obtain c bs where mb: "m = c # bs" using m by (cases rule: row_message.cases) auto
  have cs: "carries s (c # bs)" using s mb by simp
  let ?w = "w\<lparr>err_command := c\<rparr>" and ?s = "advance 1 s"
  have w': "applying accepted db env ?w" using w by simp
  have use': "usable (local_cat env) relid rel (relations ?w)" using use by simp
  have p: "serving (kafka_lib env) accepted (settings env) (sub_conninfo (MySubscription ?w)) db (pub ?w)" using w by (simp add: applying_def)
  have names: "list_all nul_free (attnames rel)" and cols: "length (change_columns ch) \<le> length (attnames rel)"
    and fits: "fits (change_text db rel ch)" using ch by (simp_all add: publishable_def)
  have "\<exists>w'. dispatch_action env (apply_dispatch depth env) c ?s ?w = Inr w' \<and> applying accepted db env w' \<and>
      row_applied accepted (change_text db rel ch) (local_cat env) ?w w'"
    using m
  proof cases
    case (inserted bs' imgs)
    then obtain s' where r: "logicalrep_read_insert ?s = Inr ((relid, row_view imgs), s')" using mb parse_carried [OF _ cs, of logicalrep_read_insert "(relid, row_view imgs)"] by auto
    have len: "length (colvalues (row_view imgs)) \<le> length (attnames rel)" using inserted cols by (simp add: image_text_def)
    have json: "\<exists>p'. INSERT_TO_JSON (kafka_lib env) (settings env) (doubles env) (sub_conninfo (MySubscription ?w)) rel (row_view imgs) (pub ?w) =
        Inr p' \<and> ready db p' \<and> handed_over accepted (change_text db rel ch) (pub ?w) p'"
      using insert_to_json [OF lib fp p names row_view_text len] inserted cols fits by blast
    have "\<exists>w'. apply_handle_insert env ?s ?w = Inr w' \<and> applying accepted db env w' \<and>
        row_applied accepted (change_text db rel ch) (local_cat env) ?w w'"
      unfolding apply_handle_insert_def by (rule handle_change_applied [OF w' use', where change = "row_view imgs"]) (use r json in simp_all)
    then show ?thesis using inserted mb by (simp add: dispatch_row_actions)
  next
    case (updated bs' olds imgs)
    then obtain s' where r: "logicalrep_read_update ?s = Inr ((relid, map_option row_view olds, row_view imgs), s')"
      using mb parse_carried [OF _ cs, of logicalrep_read_update "(relid, map_option row_view olds, row_view imgs)"] by auto
    have len: "length (colvalues (row_view imgs)) \<le> length (attnames rel)" using updated cols by (simp add: image_text_def)
    have old: "old_row_text (map_option row_view olds) = Inr (map_option image_text olds)"
      by (cases olds) (simp_all add: old_row_text_def row_view_text)
    have json: "\<exists>p'. UPDATE_TO_JSON (kafka_lib env) (settings env) (doubles env) (sub_conninfo (MySubscription ?w)) rel
        (map_option row_view olds) (row_view imgs) (pub ?w) =
        Inr p' \<and> ready db p' \<and> handed_over accepted (change_text db rel ch) (pub ?w) p'"
      using update_to_json [OF lib fp p names row_view_text len old] updated cols fits by blast
    have "\<exists>w'. apply_handle_update env ?s ?w = Inr w' \<and> applying accepted db env w' \<and>
        row_applied accepted (change_text db rel ch) (local_cat env) ?w w'"
      unfolding apply_handle_update_def
      by (rule handle_change_applied [OF w' use', where change = "(map_option row_view olds, row_view imgs)"]) (use r json in simp_all)
    then show ?thesis using updated mb by (simp add: dispatch_row_actions)
  next
    case (deleted bs' imgs)
    then obtain s' where r: "logicalrep_read_delete ?s = Inr ((relid, row_view imgs), s')" using mb parse_carried [OF _ cs, of logicalrep_read_delete "(relid, row_view imgs)"] by auto
    have len: "length (colvalues (row_view imgs)) \<le> length (attnames rel)" using deleted cols by (simp add: image_text_def)
    have json: "\<exists>p'. DELETE_TO_JSON (kafka_lib env) (settings env) (doubles env) (sub_conninfo (MySubscription ?w)) rel (row_view imgs) (pub ?w) =
        Inr p' \<and> ready db p' \<and> handed_over accepted (change_text db rel ch) (pub ?w) p'"
      using delete_to_json [OF lib fp p names row_view_text len] deleted cols fits by blast
    have "\<exists>w'. apply_handle_delete env ?s ?w = Inr w' \<and> applying accepted db env w' \<and>
        row_applied accepted (change_text db rel ch) (local_cat env) ?w w'"
      unfolding apply_handle_delete_def by (rule handle_change_applied [OF w' use', where change = "row_view imgs"]) (use r json in simp_all)
    then show ?thesis using deleted mb by (simp add: dispatch_row_actions)
  qed
  then obtain w1 where d: "dispatch_action env (apply_dispatch depth env) c ?s ?w = Inr w1" "applying accepted db env w1"
    "row_applied accepted (change_text db rel ch) (local_cat env) ?w w1" by auto
  obtain p r x where w1: "w1 = ?w\<lparr>pub := p, relations := r, xact := x\<rparr>" using d(3) unfolding row_applied_def by blast
  have "w1\<lparr>err_command := err_command w\<rparr> = w\<lparr>pub := pub w1, relations := relations w1, xact := xact w1\<rparr>"
    unfolding w1 by (cases w) simp
  then have "row_applied accepted (change_text db rel ch) (local_cat env) w (w1\<lparr>err_command := err_command w\<rparr>)"
    using d(3) by (simp add: row_applied_def)
  then show ?thesis using d by (simp add: dispatch_carried [OF cs])
qed


section \<open>Rows of the publisher\<close>

lemma row_written:
  fixes s2c :: "cstring \<Rightarrow> cstring"
  assumes row: "row_sent s2c cat rel slot binary columns gencols imgs" and fits: "length (row_bytes imgs) + 6 < lim" "lim \<le> MaxAllocSize"
  shows "\<exists>m. row_message m (rd_id rel) (Inserted (image_text imgs)) \<and>
      appends (logicalrep_write_insert s2c cat InvalidTransactionId rel slot binary columns gencols) m \<and> length m < lim"
    and "\<exists>m. row_message m (rd_id rel) (Deleted (image_text imgs)) \<and>
      appends (logicalrep_write_delete s2c cat InvalidTransactionId rel slot binary columns gencols) m \<and> length m < lim"
proof -
  have "length (row_bytes imgs) < MaxAllocSize" using fits by simp
  note row = row_sent_tuple(1) [OF row] row_sent_tuple(2) [OF row this]
  let ?bs = "\<lambda>c. be_bytes 4 (unat (rd_id rel)) @ [c] @ row_bytes imgs @ []"
  have w: "appends (seq_writes [pq_sendint32 (rd_id rel), pq_sendbyte (u8 c),
      logicalrep_write_tuple s2c cat rel slot binary columns gencols]) (?bs c)" for c
    by (rule write_intros row(1))+
  have m: "appends (seq_writes (pq_sendbyte (u8 a) # xid_if_streaming InvalidTransactionId @
      [pq_sendint32 (rd_id rel), pq_sendbyte (u8 c), logicalrep_write_tuple s2c cat rel slot binary columns gencols])) (a # ?bs c)" for a c
    using streamed_writer_appends [OF w, of a InvalidTransactionId c] by (simp add: xid_bytes_def del: be_bytes.simps)
  have "parses logicalrep_read_insert (?bs (CHR ''N'')) (rd_id rel, row_view imgs)" by (rule read_insert_parses [OF row(2)])
  from row_message.inserted [OF this] m [of "CHR ''I''" "CHR ''N''"] fits
  show "\<exists>m. row_message m (rd_id rel) (Inserted (image_text imgs)) \<and>
      appends (logicalrep_write_insert s2c cat InvalidTransactionId rel slot binary columns gencols) m \<and> length m < lim"
    by (intro exI [of _ "CHR ''I'' # ?bs (CHR ''N'')"]) (simp add: logicalrep_write_insert_def)
  have "parses logicalrep_read_delete (?bs (old_tuple_tag rel)) (rd_id rel, row_view imgs)" by (rule read_delete_parses [OF row(2)])
  from row_message.deleted [OF this] m [of "CHR ''D''" "old_tuple_tag rel"] fits
  show "\<exists>m. row_message m (rd_id rel) (Deleted (image_text imgs)) \<and>
      appends (logicalrep_write_delete s2c cat InvalidTransactionId rel slot binary columns gencols) m \<and> length m < lim"
    by (intro exI [of _ "CHR ''D'' # ?bs (old_tuple_tag rel)"]) (simp add: logicalrep_write_delete_def)
qed

lemmas written_row_message = row_written [OF _ _ order_refl]

lemma deliver_row:
  assumes "client_contract (kafka_lib env) accepted" and "sprintf_fits (doubles env)" and "applying accepted db env w"
    and "usable (local_cat env) relid rrel (relations w)" and "publishable db rrel ch"
    and "\<exists>m. row_message m relid ch \<and> appends wr m \<and> length m < MaxAllocSize"
  shows "\<exists>w'. deliver wr (Suc depth) env w = Inr w' \<and> applying accepted db env w' \<and>
    row_applied accepted (change_text db rrel ch) (local_cat env) w w'"
  using dispatch_row [OF assms(1-3) _ carries_received assms(4,5)] written_bytes assms(6) by metis


lemma update_written:
  assumes new: "row_sent s2c cat rel slot binary columns gencols imgs"
    and old: "rel_option (\<lambda>oldslot oldimgs. row_sent s2c cat rel oldslot binary columns gencols oldimgs) oldrow olds"
    and fits: "(case olds of None \<Rightarrow> 0 | Some oldimgs \<Rightarrow> length (row_bytes oldimgs)) + length (row_bytes imgs) + 7 < lim" "lim \<le> MaxAllocSize"
  shows "\<exists>m. row_message m (rd_id rel) (Updated (map_option image_text olds) (image_text imgs)) \<and>
      appends (logicalrep_write_update s2c cat InvalidTransactionId rel oldrow slot binary columns gencols) m \<and> length m < lim"
proof -
  note row = row_sent_tuple(1) [OF new] row_sent_tuple(2) [OF new]
  have upd: "?thesis" if "appends (seq_writes ws) bs" "length bs + 1 < lim"
      "parses logicalrep_read_update bs (rd_id rel, map_option row_view olds, row_view imgs)"
      "logicalrep_write_update s2c cat InvalidTransactionId rel oldrow slot binary columns gencols =
         seq_writes (pq_sendbyte (u8 (CHR ''U'')) # xid_if_streaming InvalidTransactionId @ ws)" for ws bs
    using row_message.updated [OF that(3)] streamed_writer_appends [OF that(1), of "CHR ''U''" InvalidTransactionId] that(2,4)
    by (intro exI [of _ "CHR ''U'' # bs"]) (simp add: xid_bytes_def)
  show ?thesis
  proof (cases oldrow)
    case None
    let ?bs = "be_bytes 4 (unat (rd_id rel)) @ [CHR ''N''] @ row_bytes imgs @ []"
    have n: "olds = None" using old None by simp
    have "appends (seq_writes [pq_sendint32 (rd_id rel), pq_sendbyte (u8 (CHR ''N'')),
        logicalrep_write_tuple s2c cat rel slot binary columns gencols]) ?bs" by (rule write_intros row(1))+
    then show ?thesis
    proof (rule upd)
      show "parses logicalrep_read_update ?bs (rd_id rel, map_option row_view olds, row_view imgs)"
        using fits n read_update_parses_new [OF row(2)] by simp
    qed (use fits n None in \<open>simp_all add: logicalrep_write_update_def\<close>)
  next
    case (Some oldslot)
    then obtain oldimgs where o: "olds = Some oldimgs" "row_sent s2c cat rel oldslot binary columns gencols oldimgs"
      using old by (cases olds) simp_all
    note orow = row_sent_tuple(1) [OF o(2)] row_sent_tuple(2) [OF o(2)]
    let ?bs = "be_bytes 4 (unat (rd_id rel)) @ [old_tuple_tag rel] @ row_bytes oldimgs @ [CHR ''N''] @ row_bytes imgs @ []"
    have "appends (seq_writes [pq_sendint32 (rd_id rel), pq_sendbyte (u8 (old_tuple_tag rel)),
        logicalrep_write_tuple s2c cat rel oldslot binary columns gencols, pq_sendbyte (u8 (CHR ''N'')),
        logicalrep_write_tuple s2c cat rel slot binary columns gencols]) ?bs" by (rule write_intros orow(1) row(1))+
    then show ?thesis
    proof (rule upd)
      show "parses logicalrep_read_update ?bs (rd_id rel, map_option row_view olds, row_view imgs)"
        using fits o read_update_parses_old [OF orow(2) row(2), of "rd_id rel" rel] by simp
    qed (use fits o Some in \<open>simp_all add: logicalrep_write_update_def\<close>)
  qed
qed

lemmas written_update_message = update_written [OF _ _ _ order_refl]

section \<open>Transactions\<close>

text \<open>A row message together with the relation it is for and what it is published as.\<close>

definition row_ok ::
    "cstring \<Rightarrow> local_catalog \<Rightarrow> relmap \<Rightarrow> byte list \<times> Oid \<times> LogicalRepRelation \<times> change_row \<Rightarrow> bool" where
  "row_ok db cat rm r = (case r of (m, relid, rel, ch) \<Rightarrow>
     row_message m relid ch \<and> usable cat relid rel rm \<and> publishable db rel ch)"

definition row_published :: "cstring \<Rightarrow> byte list \<times> Oid \<times> LogicalRepRelation \<times> change_row \<Rightarrow> byte list" where
  "row_published db r = (case r of (m, relid, rel, ch) \<Rightarrow> change_text db rel ch)"

definition in_xact :: "local_xact \<Rightarrow> local_xact" where
  "in_xact x = (if IsTransactionState x then x else (StartTransaction x)\<lparr>blockState := TBLOCK_STARTED\<rparr>)"

lemma rows_applied:
  fixes env :: "('w, 'rk, 'rkt, 'r::zero) worker_env"
  assumes "client_contract (kafka_lib env) accepted" and "sprintf_fits (doubles env)"
    and "applying accepted db env w" and "list_all (row_ok db (local_cat env) (relations w)) rows"
  shows "\<exists>w'. apply_messages (Suc depth) env (map fst rows) w = Inr w' \<and> applying accepted db env w' \<and>
    handed_over_all accepted (map (row_published db) rows) (pub w) (pub w') \<and>
    w' = w\<lparr>pub := pub w', relations := relations w', xact := if rows = [] then xact w else in_xact (xact w)\<rparr>"
  using assms(3,4)
proof (induction rows arbitrary: w)
  case (Cons r rows)
  obtain m relid rel ch where r: "r = (m, relid, rel, ch)" by (cases r)
  have ok: "row_message m relid ch" "usable (local_cat env) relid rel (relations w)" "publishable db rel ch"
    using Cons.prems(2) r by (simp_all add: row_ok_def)
  obtain w1 where w1: "apply_dispatch (Suc depth) env (received m) w = Inr w1" "applying accepted db env w1"
    "row_applied accepted (change_text db rel ch) (local_cat env) w w1"
    using dispatch_row [OF assms(1,2) Cons.prems(1) ok(1) carries_received ok(2,3)] by blast
  have "list_all (row_ok db (local_cat env) (relations w1)) rows"
    using Cons.prems(2) w1(3) by (auto simp: list_all_iff row_ok_def row_applied_def)
  from Cons.IH [OF w1(2) this] obtain w2 where w2: "apply_messages (Suc depth) env (map fst rows) w1 = Inr w2" "applying accepted db env w2"
    "handed_over_all accepted (map (row_published db) rows) (pub w1) (pub w2)"
    "w2 = w1\<lparr>pub := pub w2, relations := relations w2, xact := if rows = [] then xact w1 else in_xact (xact w1)\<rparr>" by blast
  have x: "xact w1 = in_xact (xact w)" "in_xact (xact w1) = in_xact (xact w)"
    using w1(3) by (simp_all add: row_applied_def in_xact_def)
  obtain p rm where w1': "w1 = w\<lparr>pub := p, relations := rm, xact := in_xact (xact w)\<rparr>"
    using w1(3) x(1) unfolding row_applied_def by metis
  have "w2 = w\<lparr>pub := pub w2, relations := relations w2, xact := in_xact (xact w)\<rparr>"
    using w2(4) x by (subst w2(4)) (subst w1', simp)
  moreover have "handed_over_all accepted (map (row_published db) (r # rows)) (pub w) (pub w2)"
    using handed_over_all_Cons w1(3) w2(3) by (auto simp: row_applied_def row_published_def r)
  ultimately show ?case using w1(1) w2(1,2) r by (intro exI [of _ w2]) simp
qed simp


text \<open>
  A worker between transactions: no local transaction is open, none has been given an id, and no
  transaction is to be skipped. \<open>no_table_syncs\<close> says that no table is being synchronised, so
  that \<^verbatim>\<open>process_syncing_tables\<close> has nothing to do.
\<close>

definition idle :: "('w \<Rightarrow> byte list list) \<Rightarrow> cstring \<Rightarrow> ('w, 'rk, 'rkt, 'r) worker_env \<Rightarrow> ('w, 'rk, 'rkt) worker \<Rightarrow> bool" where
  "idle accepted db env w \<longleftrightarrow> applying accepted db env w \<and> blockState (xact w) = TBLOCK_DEFAULT \<and> MySubscriptionValid w \<and>
     sub_skiplsn (MySubscription w) = InvalidXLogRecPtr \<and> \<not> xid_assigned (xact w) \<and> XactLastRecEnd (xact w) = 0"

definition no_table_syncs :: "('w, 'rk, 'rkt, 'r) worker_env \<Rightarrow> bool" where
  "no_table_syncs env \<longleftrightarrow> (\<forall>lsn x. process_syncing_tables env lsn x = Inr x)"

text \<open>The commit of a transaction that wrote nothing locally: it leaves no trace in the log.\<close>

lemma commit_without_writes:
  assumes "\<not> is_skipping_changes w" and "blockState (xact w) = TBLOCK_STARTED" and "\<not> xid_assigned (xact w)"
    and "XactLastRecEnd (xact w) = 0" and "sub_skiplsn (MySubscription w) = InvalidXLogRecPtr"
  shows "apply_handle_commit_internal env cd w = Inr (w\<lparr>
     xact := (xact w)\<lparr>replorigin_session_origin_lsn := cd_end_lsn cd, replorigin_session_origin_timestamp := cd_committime cd,
       blockState := TBLOCK_DEFAULT\<rparr>,
     lsn_map := lsn_map w @ [\<lparr>local_end = XactLastCommitEnd (xact w), remote_end = cd_end_lsn cd\<rparr>],
     in_remote_transaction := False\<rparr>)"
  using assms
  by (simp add: apply_handle_commit_internal_def IsTransactionState_def clear_subscription_skip_lsn_def commit_command_def
      CommitTransactionCommand_def set_origin_def CommitTransaction_def RecordTransactionCommit_def end_block_def
      IsTransactionBlock_def track_flush_def store_flush_position_def Let_def)

lemma commit_of_nothing:
  assumes "idle accepted db env w"
  shows "apply_handle_commit_internal env cd w = Inr (w\<lparr>in_remote_transaction := False\<rparr>)"
  using assms by (simp add: idle_def applying_def apply_handle_commit_internal_def IsTransactionState_def maybe_reread_subscription_def)

lemma dispatch_begin:
  assumes "parses logicalrep_read_begin bs bd" and "idle accepted db env w" and s: "carries s (CHR ''B'' # bs)"
  shows "\<exists>w'. apply_dispatch (Suc depth) env s w = Inr w' \<and> idle accepted db env w' \<and>
    remote_final_lsn w' = bd_final_lsn bd \<and> pub w' = pub w \<and> relations w' = relations w \<and> xact w' = xact w \<and> lsn_map w' = lsn_map w"
proof -
  obtain s' where "logicalrep_read_begin (advance 1 s) = Inr (bd, s')" using parse_carried [OF assms(1) s] by blast
  then show ?thesis using assms(2)
    by (simp add: dispatch_carried [OF s] dispatch_action_def apply_handle_begin_def idle_def maybe_start_skipping_changes_def
        set_apply_error_context_xact_def Let_def) (simp add: applying_def is_skipping_changes_def)
qed

lemma dispatch_commit:
  fixes env :: "('w, 'rk, 'rkt, 'r::zero) worker_env"
  assumes "parses logicalrep_read_commit bs cd" and "cd_commit_lsn cd = remote_final_lsn w" and "no_table_syncs env"
    and "apply_handle_commit_internal env cd (w\<lparr>err_command := CHR ''C''\<rparr>) = Inr w1" and s: "carries s (CHR ''C'' # bs)"
  shows "apply_dispatch (Suc depth) env s w =
    Inr ((reset_apply_error_context_info w1)\<lparr>err_command := err_command w\<rparr>)"
proof -
  obtain s' where "logicalrep_read_commit (advance 1 s) = Inr (cd, s')" using parse_carried [OF assms(1) s] by blast
  then show ?thesis using assms(2-4)
    by (simp add: dispatch_carried [OF s] dispatch_action_def apply_handle_commit_def sync_tables_def no_table_syncs_def)
qed

lemma apply_messages_append:
  "apply_messages depth env (ms @ ns) w = bindR (apply_messages depth env ms w) (apply_messages depth env ns)"
  by (induction ms arbitrary: w) (simp_all add: bindR_assoc cong: bindR_cong)

section \<open>Properties of the publication\<close>

definition demo_subscription :: Subscription where
  "demo_subscription = \<lparr>sub_dbid = 1, sub_name = ''s'', sub_owner = 10, sub_ownersuperuser = True, sub_enabled = True,
     sub_binary = False, sub_stream = CHR ''f'', sub_passwordrequired = False, sub_skiplsn = 0, sub_conninfo = ''dbname=shop'',
     sub_slotname = ''s'', sub_origin = ''any'', sub_publications = [''p'']\<rparr>"

definition demo_env :: "(byte list list, unit, unit, int) worker_env" where
  "demo_env = \<lparr>worker_type = WORKERTYPE_APPLY, subid = 1, worker_relid = 0, kafka_lib = demo_client 5, settings = (\<lambda>_. Some ''7''),
     doubles = demo_fp, local_cat = RelationMap.demo_catalog, rec_end = (\<lambda>lsn. lsn + 8), to_server = (\<lambda>s. s),
     process_syncing_tables = (\<lambda>_. Inr), TargetPrivilegesCheck = (\<lambda>_. Inr ()), find_all_inheritors = (\<lambda>_. []), other_temp = (\<lambda>_. False)\<rparr>"

definition demo_worker :: "relmap \<Rightarrow> (byte list list, unit, unit) worker" where
  "demo_worker rm = \<lparr>in_remote_transaction = False, in_streamed_transaction = False, stream_xid = 0, remote_final_lsn = 0,
     skip_xact_finish_lsn = 0, MySubscription = demo_subscription, MySubscriptionValid = True, sub_row = Some demo_subscription,
     err_command = NUL, err_xid = 0, err_lsn = 0, relations = rm,
     xact = \<lparr>blockState = TBLOCK_DEFAULT, xid_assigned = False, wal_end = 100, XactLastRecEnd = 0, XactLastCommitEnd = 0,
       prepareGID = None, prepXacts = [], replorigin_session_origin_lsn = 0, replorigin_session_origin_timestamp = 0, origin_remote_lsn = 0\<rparr>,
     lsn_map = [], files = empty_spool, pub = demo_start_publisher\<rparr>"

lemma demo_worker_idle:
  obtains rm where "idle (\<lambda>w. w) ''shop'' demo_env (demo_worker rm)" and "usable (local_cat demo_env) 7 demo_remote_rel rm"
proof -
  obtain entry rm1 rm2 where d: "logicalrep_relmap_update demo_remote_rel (\<lambda>_. None) = Inr rm1"
    "logicalrep_rel_open RelationMap.demo_catalog 7 rm1 = Inr (entry, rm2)" "remoterel entry = demo_remote_rel" by (rule demo_open)
  have "relmap_ok RelationMap.demo_catalog rm1" by (rule relmap_update_ok [OF _ d(1)]) (simp add: relmap_ok_def)
  then have "idle (\<lambda>w. w) ''shop'' demo_env (demo_worker rm1)"
    using demo_publisher_serving by (simp add: idle_def applying_def demo_worker_def demo_env_def is_skipping_changes_def demo_subscription_def)
  moreover have "usable (local_cat demo_env) 7 demo_remote_rel rm1" using d by (auto simp: usable_def demo_env_def)
  ultimately show thesis by (rule that)
qed


lemma demo_publishable:
  "publishable ''shop'' demo_remote_rel (Inserted [Some ''7''])" "publishable ''shop'' demo_remote_rel (Deleted [Some ''7''])"
  "publishable ''shop'' demo_remote_rel (Updated None [Some ''7''])"
proof -
  have "length (change_text ''shop'' demo_remote_rel (Inserted [Some ''7''])) < 200"
    "length (change_text ''shop'' demo_remote_rel (Deleted [Some ''7''])) < 200"
    "length (change_text ''shop'' demo_remote_rel (Updated None [Some ''7''])) < 200" by code_simp+
  then show "publishable ''shop'' demo_remote_rel (Inserted [Some ''7''])" "publishable ''shop'' demo_remote_rel (Deleted [Some ''7''])"
    "publishable ''shop'' demo_remote_rel (Updated None [Some ''7''])"
    by (simp_all add: publishable_def fits_def MaxAllocSize_def) (simp_all add: demo_remote_rel_def)
qed

text \<open>Claim C8. End to end, for a row that the publisher inserts or deletes: the message it writes makes the worker
  hand exactly one message to Kafka, the JSON object of the change with the column texts of the row (the bytes before
  the first terminator; null for NULL and for a value the publisher left out as unchanged).\<close>

theorem insert_delete_published:
  fixes env :: "('w, 'rk, 'rkt, 'r::zero) worker_env"
  assumes "client_contract (kafka_lib env) accepted" and "sprintf_fits (doubles env)" and "applying accepted db env w"
    and "row_sent s2c cat rel slot binary columns gencols imgs" and "length (row_bytes imgs) + 6 < MaxAllocSize"
    and "usable (local_cat env) (rd_id rel) rrel (relations w)"
    and "publishable db rrel (Inserted (image_text imgs))" and "publishable db rrel (Deleted (image_text imgs))"
  shows "(\<exists>w'. deliver (logicalrep_write_insert s2c cat InvalidTransactionId rel slot binary columns gencols) (Suc depth) env w = Inr w' \<and>
      applying accepted db env w' \<and> handed_over accepted (change_text db rrel (Inserted (image_text imgs))) (pub w) (pub w')) \<and>
    (\<exists>w'. deliver (logicalrep_write_delete s2c cat InvalidTransactionId rel slot binary columns gencols) (Suc depth) env w = Inr w' \<and>
      applying accepted db env w' \<and> handed_over accepted (change_text db rrel (Deleted (image_text imgs))) (pub w) (pub w'))"
  using deliver_row [OF assms(1-3) assms(6,7) written_row_message(1) [OF assms(4,5)], of depth]
    deliver_row [OF assms(1-3) assms(6,8) written_row_message(2) [OF assms(4,5)], of depth]
  unfolding row_applied_def by blast

theorem insert_delete_published_witness:
  "\<exists>rm w'. deliver (logicalrep_write_insert (\<lambda>s. s) ProtoRoundtrip.demo_catalog 0 (demo_relation\<lparr>rd_id := 7, rd_att := [demo_attribute ''id'' 1]\<rparr>)
      \<lparr>tts_values = [''7''], tts_isnull = [False]\<rparr> False [] PUBLISH_GENCOLS_NONE) 1 demo_env (demo_worker rm) = Inr w' \<and>
    handed_over (\<lambda>w. w) (change_text ''shop'' demo_remote_rel (Inserted [Some ''7''])) (pub (demo_worker rm)) (pub w')"
proof -
  obtain rm where rm: "idle (\<lambda>w. w) ''shop'' demo_env (demo_worker rm)" "usable (local_cat demo_env) 7 demo_remote_rel rm"
    by (rule demo_worker_idle)
  let ?imgs = "[(LOGICALREP_COLUMN_TEXT, Some ''7'')]"
  have "row_sent (\<lambda>s. s) ProtoRoundtrip.demo_catalog (demo_relation\<lparr>rd_id := 7, rd_att := [demo_attribute ''id'' 1]\<rparr>)
      \<lparr>tts_values = [''7''], tts_isnull = [False]\<rparr> False [] PUBLISH_GENCOLS_NONE ?imgs" "length (row_bytes ?imgs) + 6 < MaxAllocSize"
    by (simp_all add: demo_simps)
  moreover have "image_text ?imgs = [Some ''7'']" by (simp add: image_text_def c_str_def)
  moreover note demo_publishable
  ultimately show ?thesis
    using insert_delete_published [of demo_env "\<lambda>w. w" "''shop''" "demo_worker rm" "\<lambda>s. s" ProtoRoundtrip.demo_catalog
        "demo_relation\<lparr>rd_id := 7, rd_att := [demo_attribute ''id'' 1]\<rparr>" "\<lparr>tts_values = [''7''], tts_isnull = [False]\<rparr>" False "[]"
        PUBLISH_GENCOLS_NONE ?imgs demo_remote_rel 0] rm demo_client_contract [of 5] demo_fp_fits
    by (auto simp: idle_def demo_env_def demo_worker_def)
qed

text \<open>End to end, for an update: the message carries the new row under its column names, and the old key or row
  when the publisher sent one, else an empty list.\<close>

theorem update_published:
  fixes env :: "('w, 'rk, 'rkt, 'r::zero) worker_env"
  assumes "client_contract (kafka_lib env) accepted" and "sprintf_fits (doubles env)" and "applying accepted db env w"
    and "row_sent s2c cat rel slot binary columns gencols imgs"
    and "rel_option (\<lambda>oldslot oldimgs. row_sent s2c cat rel oldslot binary columns gencols oldimgs) oldrow olds"
    and "(case olds of None \<Rightarrow> 0 | Some oldimgs \<Rightarrow> length (row_bytes oldimgs)) + length (row_bytes imgs) + 7 < MaxAllocSize"
    and "usable (local_cat env) (rd_id rel) rrel (relations w)"
    and "publishable db rrel (Updated (map_option image_text olds) (image_text imgs))"
  shows "\<exists>w'. deliver (logicalrep_write_update s2c cat InvalidTransactionId rel oldrow slot binary columns gencols) (Suc depth) env w = Inr w' \<and>
      applying accepted db env w' \<and>
      handed_over accepted (change_text db rrel (Updated (map_option image_text olds) (image_text imgs))) (pub w) (pub w')"
  using deliver_row [OF assms(1-3) assms(7,8) written_update_message [OF assms(4-6)], of depth] unfolding row_applied_def by blast

text \<open>Claim C7. A remote transaction as a whole: after BEGIN, any number of row messages and COMMIT, the changes have
  been handed to Kafka in their order, each once. The transaction is then tracked with the end of the last local commit
  that wrote something, since it has written nothing itself: neither the local log nor the replication origin moves. The producer runs, or
  the first of the rows starts it.\<close>

theorem transaction_published:
  fixes env :: "('w, 'rk, 'rkt, 'r::zero) worker_env"
  assumes "client_contract (kafka_lib env) accepted" and "sprintf_fits (doubles env)" and "no_table_syncs env"
    and "idle accepted db env w" and "list_all (row_ok db (local_cat env) (relations w)) rows"
    and "parses logicalrep_read_begin bb bd" and "parses logicalrep_read_commit cb cd" and "cd_commit_lsn cd = bd_final_lsn bd"
  shows "\<exists>w'. apply_messages (Suc depth) env ((CHR ''B'' # bb) # map fst rows @ [CHR ''C'' # cb]) w = Inr w' \<and> idle accepted db env w' \<and>
    handed_over_all accepted (map (row_published db) rows) (pub w) (pub w') \<and>
    lsn_map w' = lsn_map w @ (if rows = [] then [] else [\<lparr>local_end = XactLastCommitEnd (xact w), remote_end = cd_end_lsn cd\<rparr>]) \<and>
    wal_end (xact w') = wal_end (xact w) \<and> origin_remote_lsn (xact w') = origin_remote_lsn (xact w)"
proof -
  obtain w1 where w1: "apply_dispatch (Suc depth) env (received (CHR ''B'' # bb)) w = Inr w1" "idle accepted db env w1"
    "remote_final_lsn w1 = bd_final_lsn bd" "pub w1 = pub w" "relations w1 = relations w" "xact w1 = xact w" "lsn_map w1 = lsn_map w"
    using dispatch_begin [OF assms(6,4) carries_received] by blast
  have a1: "applying accepted db env w1" using w1(2) by (simp add: idle_def)
  obtain w2 where w2: "apply_messages (Suc depth) env (map fst rows) w1 = Inr w2" "applying accepted db env w2"
    "handed_over_all accepted (map (row_published db) rows) (pub w1) (pub w2)"
    "w2 = w1\<lparr>pub := pub w2, relations := relations w2, xact := if rows = [] then xact w1 else in_xact (xact w1)\<rparr>"
    using rows_applied [OF assms(1,2) a1, of rows] assms(5) w1(5) by auto
  obtain p2 r2 where w2': "w2 = w1\<lparr>pub := p2, relations := r2, xact := if rows = [] then xact w1 else in_xact (xact w1)\<rparr>"
    using w2(4) by blast
  have fin: "cd_commit_lsn cd = remote_final_lsn w2" using assms(8) w1(3) by (simp add: w2')
  let ?c = "w2\<lparr>err_command := CHR ''C''\<rparr>"
  have x2: "\<not> is_skipping_changes ?c" "sub_skiplsn (MySubscription ?c) = 0" "MySubscriptionValid ?c" "lsn_map ?c = lsn_map w"
    using w1(2,7) by (simp_all add: w2' applying_def is_skipping_changes_def idle_def)
  obtain w3 where w3: "apply_handle_commit_internal env cd ?c = Inr w3" "pub w3 = pub w2" "relations w3 = relations w2"
    "lsn_map w3 = lsn_map w @ (if rows = [] then [] else [\<lparr>local_end = XactLastCommitEnd (xact w), remote_end = cd_end_lsn cd\<rparr>])"
    "wal_end (xact w3) = wal_end (xact w)" "origin_remote_lsn (xact w3) = origin_remote_lsn (xact w)" "idle accepted db env w3"
  proof (cases "rows = []")
    case True
    then have x: "xact w2 = xact w" using w1(6) by (simp add: w2')
    have i: "idle accepted db env ?c" using w2(2) assms(4) x2(2,3) x by (simp add: idle_def)
    then have "idle accepted db env (?c\<lparr>in_remote_transaction := False\<rparr>)" by (simp add: idle_def applying_def is_skipping_changes_def)
    then show thesis by (intro that [OF commit_of_nothing [OF i]]) (use True x2(4) x in simp_all)
  next
    case False
    then have x: "xact w2 = in_xact (xact w)" using w1(6) by (simp add: w2')
    have st: "blockState (xact ?c) = TBLOCK_STARTED" "\<not> xid_assigned (xact ?c)" "XactLastRecEnd (xact ?c) = 0"
      "XactLastCommitEnd (xact ?c) = XactLastCommitEnd (xact w)" "wal_end (xact ?c) = wal_end (xact w)"
      "origin_remote_lsn (xact ?c) = origin_remote_lsn (xact w)"
      using assms(4) by (simp_all add: x in_xact_def idle_def IsTransactionState_def StartTransaction_def)
    show thesis
      by (rule that, rule commit_without_writes [OF x2(1) st(1-3) x2(2)])
        (use False x2 w2(2) st in \<open>simp_all add: idle_def applying_def is_skipping_changes_def\<close>)
  qed
  let ?w' = "(reset_apply_error_context_info w3)\<lparr>err_command := err_command w2\<rparr>"
  have "apply_dispatch (Suc depth) env (received (CHR ''C'' # cb)) w2 = Inr ?w'"
    by (rule dispatch_commit [OF assms(7) fin assms(3) w3(1) carries_received])
  then have "apply_messages (Suc depth) env ((CHR ''B'' # bb) # map fst rows @ [CHR ''C'' # cb]) w = Inr ?w'"
    using w1(1) w2(1) by (simp add: apply_messages_append)
  moreover have "idle accepted db env ?w'" using w3(7)
    by (simp add: reset_apply_error_context_info_def set_apply_error_context_xact_def idle_def applying_def is_skipping_changes_def)
  ultimately show ?thesis using w3 w2(3) w1(4)
    by (intro exI [of _ ?w']) (simp add: reset_apply_error_context_info_def set_apply_error_context_xact_def)
qed


lemma demo_row:
  "row_sent (\<lambda>s. s) ProtoRoundtrip.demo_catalog (demo_relation\<lparr>rd_id := 7, rd_att := [demo_attribute ''id'' 1]\<rparr>)
      \<lparr>tts_values = [''7''], tts_isnull = [False]\<rparr> False [] PUBLISH_GENCOLS_NONE [(LOGICALREP_COLUMN_TEXT, Some ''7'')]"
  "length (row_bytes [(LOGICALREP_COLUMN_TEXT, Some ''7'')]) + 7 < MaxAllocSize"
  "image_text [(LOGICALREP_COLUMN_TEXT, Some ''7'')] = [Some ''7'']"
  by (simp_all add: demo_simps image_text_def c_str_def)

theorem update_published_witness:
  "\<exists>rm w'. deliver (logicalrep_write_update (\<lambda>s. s) ProtoRoundtrip.demo_catalog 0 (demo_relation\<lparr>rd_id := 7, rd_att := [demo_attribute ''id'' 1]\<rparr>)
      None \<lparr>tts_values = [''7''], tts_isnull = [False]\<rparr> False [] PUBLISH_GENCOLS_NONE) 1 demo_env (demo_worker rm) = Inr w' \<and>
    handed_over (\<lambda>w. w) (change_text ''shop'' demo_remote_rel (Updated None [Some ''7''])) (pub (demo_worker rm)) (pub w')"
proof -
  obtain rm where rm: "idle (\<lambda>w. w) ''shop'' demo_env (demo_worker rm)" "usable (local_cat demo_env) 7 demo_remote_rel rm"
    by (rule demo_worker_idle)
  then show ?thesis
    using update_published [of demo_env "\<lambda>w. w" "''shop''" "demo_worker rm" "\<lambda>s. s" ProtoRoundtrip.demo_catalog
        "demo_relation\<lparr>rd_id := 7, rd_att := [demo_attribute ''id'' 1]\<rparr>" "\<lparr>tts_values = [''7''], tts_isnull = [False]\<rparr>" False "[]"
        PUBLISH_GENCOLS_NONE "[(LOGICALREP_COLUMN_TEXT, Some ''7'')]" None None demo_remote_rel 0]
      demo_row demo_publishable demo_client_contract [of 5] demo_fp_fits
    by (auto simp: idle_def demo_env_def demo_worker_def)
qed

theorem transaction_published_witness:
  "\<exists>rm m bb cb w'. apply_messages 1 demo_env [CHR ''B'' # bb, m, CHR ''C'' # cb] (demo_worker rm) = Inr w' \<and>
     lsn_map w' = [\<lparr>local_end = 0, remote_end = 60\<rparr>] \<and>
     handed_over_all (\<lambda>w. w) [change_text ''shop'' demo_remote_rel (Inserted [Some ''7''])] (pub (demo_worker rm)) (pub w')"
proof -
  obtain rm where rm: "idle (\<lambda>w. w) ''shop'' demo_env (demo_worker rm)" "usable (local_cat demo_env) 7 demo_remote_rel rm"
    by (rule demo_worker_idle)
  have "length (row_bytes [(LOGICALREP_COLUMN_TEXT, Some ''7'')]) + 6 < MaxAllocSize" using demo_row(2) by simp
  from written_row_message(1) [OF demo_row(1) this] obtain m where m: "row_message m 7 (Inserted [Some ''7''])"
    by (auto simp: demo_row(3))
  have "parses logicalrep_read_begin (be_bytes 8 (unat (50 :: 64 word)) @ be_bytes 8 (unat (1 :: 64 word)) @ be_bytes 4 (unat (9 :: 32 word)) @ [])
      \<lparr>bd_final_lsn = 50, bd_committime = 1, bd_xid = 9\<rparr>" (is "parses _ ?bb _") by (rule begin_parses) simp
  moreover have "parses logicalrep_read_commit ([NUL] @ be_bytes 8 (unat (50 :: 64 word)) @ be_bytes 8 (unat (60 :: 64 word)) @ be_bytes 8 (unat (1 :: 64 word)) @ [])
      \<lparr>cd_commit_lsn = 50, cd_end_lsn = 60, cd_committime = 1\<rparr>" (is "parses _ ?cb _") by (rule commit_parses)
  moreover have "client_contract (kafka_lib demo_env) (\<lambda>w. w)" "sprintf_fits (doubles demo_env)" "no_table_syncs demo_env"
    using demo_client_contract [of 5] demo_fp_fits by (simp_all add: demo_env_def no_table_syncs_def)
  moreover have "list_all (row_ok ''shop'' (local_cat demo_env) (relations (demo_worker rm))) [(m, 7, demo_remote_rel, Inserted [Some ''7''])]"
    using m rm(2) demo_publishable by (simp add: row_ok_def demo_worker_def)
  ultimately obtain w' where w': "apply_messages 1 demo_env ((CHR ''B'' # ?bb) # [m] @ [CHR ''C'' # ?cb]) (demo_worker rm) = Inr w'"
    "lsn_map w' = lsn_map (demo_worker rm) @ [\<lparr>local_end = XactLastCommitEnd (xact (demo_worker rm)), remote_end = 60\<rparr>]"
    "handed_over_all (\<lambda>w. w) [change_text ''shop'' demo_remote_rel (Inserted [Some ''7''])] (pub (demo_worker rm)) (pub w')"
    using transaction_published [of demo_env "\<lambda>w. w" "''shop''" "demo_worker rm" "[(m, 7, demo_remote_rel, Inserted [Some ''7''])]"
        ?bb "\<lparr>bd_final_lsn = 50, bd_committime = 1, bd_xid = 9\<rparr>" ?cb "\<lparr>cd_commit_lsn = 50, cd_end_lsn = 60, cd_committime = 1\<rparr>" 0] rm(1)
    by (auto simp: row_published_def)
  then show ?thesis by (intro exI [of _ rm] exI [of _ m] exI [of _ ?bb] exI [of _ ?cb] exI [of _ w']) (simp add: demo_worker_def del: be_bytes.simps)
qed

text \<open>Claim C29. The acknowledgement does not wait for Kafka: the commit of a transaction that was only published leaves the
  producer as it is, without a flush, and the very next report confirms the transaction to the publisher as soon as the
  earlier ones are confirmed, whether or not its messages have been delivered.\<close>

theorem acknowledged_before_delivery:
  assumes "\<not> is_skipping_changes w" and "blockState (xact w) = TBLOCK_STARTED" and "\<not> xid_assigned (xact w)"
    and "XactLastRecEnd (xact w) = 0" and "sub_skiplsn (MySubscription w) = InvalidXLogRecPtr"
    and "XactLastCommitEnd (xact w) \<le> local_flush" and "list_all (\<lambda>pos. local_end pos \<le> local_flush) (lsn_map w)"
  shows "\<exists>w'. apply_handle_commit_internal env cd w = Inr w' \<and> pub w' = pub w \<and>
    get_flush_position local_flush (lsn_map w') = (cd_end_lsn cd, cd_end_lsn cd, False, [])"
proof -
  have all: "on_disk local_flush m = m" "pending local_flush m = []" if "\<forall>pos\<in>set m. local_end pos \<le> local_flush" for m
    using that by (simp_all add: on_disk_def pending_def takeWhile_eq_all_conv dropWhile_eq_Nil_conv)
  have "\<forall>pos\<in>set (lsn_map w @ [\<lparr>local_end = XactLastCommitEnd (xact w), remote_end = cd_end_lsn cd\<rparr>]). local_end pos \<le> local_flush"
    using assms(6,7) by (auto simp: list_all_iff)
  then have "get_flush_position local_flush (lsn_map w @ [\<lparr>local_end = XactLastCommitEnd (xact w), remote_end = cd_end_lsn cd\<rparr>]) =
      (cd_end_lsn cd, cd_end_lsn cd, False, [])"
    by (simp add: get_flush_position_eq all last_remote_def)
  then show ?thesis unfolding commit_without_writes [OF assms(1-5)] by simp
qed

theorem acknowledged_before_delivery_witness:
  "\<exists>w w'. failures (producer (pub w)) = 1 \<and> apply_handle_commit_internal demo_env \<lparr>cd_commit_lsn = 50, cd_end_lsn = 60, cd_committime = 1\<rparr> w = Inr w' \<and>
     get_flush_position 0 (lsn_map w') = (60, 60, False, [])"
proof -
  let ?d = "demo_worker (\<lambda>_. None)"
  let ?w = "?d\<lparr>xact := (xact ?d)\<lparr>blockState := TBLOCK_STARTED\<rparr>, pub := demo_publisher\<lparr>producer := demo_producer\<lparr>server_log := [''Produce failed'']\<rparr>\<rparr>\<rparr>"
  have "\<not> is_skipping_changes ?w" "blockState (xact ?w) = TBLOCK_STARTED" "\<not> xid_assigned (xact ?w)" "XactLastRecEnd (xact ?w) = 0"
    "sub_skiplsn (MySubscription ?w) = 0" "XactLastCommitEnd (xact ?w) \<le> 0" "list_all (\<lambda>pos. local_end pos \<le> 0) (lsn_map ?w)"
    by (simp_all add: demo_worker_def is_skipping_changes_def demo_subscription_def)
  from acknowledged_before_delivery [OF this, of demo_env "\<lparr>cd_commit_lsn = 50, cd_end_lsn = 60, cd_committime = 1\<rparr>"]
  obtain w' where "apply_handle_commit_internal demo_env \<lparr>cd_commit_lsn = 50, cd_end_lsn = 60, cd_committime = 1\<rparr> ?w = Inr w'"
    "get_flush_position 0 (lsn_map w') = (60, 60, False, [])" by auto
  moreover have "failures (producer (pub ?w)) = 1" by (simp add: failures_def)
  ultimately show ?thesis by blast
qed

end
