(* ===== verification/WorkerReplay.thy ===== *)
theory WorkerReplay
  imports WorkerPublish
begin

text \<open>
  Which messages touch what: only row messages reach Kafka; a message that is replayed from a
  spool file has the effect it has when it is dispatched directly.
\<close>

section \<open>Steps that leave the producer alone\<close>

text \<open>The facts of \<open>keeps_pub\<close>: an operation that succeeds leaves the producer as it was.\<close>

named_theorems keeps_pub \<open>operations that do not publish\<close>

lemma start_command_pub [keeps_pub]: "start_command w = Inr w' \<Longrightarrow> pub w' = pub w"
  by (auto simp: start_command_def bindR_eq_Inr_iff)

lemma commit_command_pub [keeps_pub]: "commit_command env w = Inr w' \<Longrightarrow> pub w' = pub w"
  by (auto simp: commit_command_def bindR_eq_Inr_iff)

lemma reread_pub [keeps_pub]: "maybe_reread_subscription env w = Inr w' \<Longrightarrow> pub w' = pub w"
  by (auto simp: maybe_reread_subscription_def adopt_subscription_def Let_def bindR_eq_Inr_iff dest!: keeps_pub split: if_splits option.splits)

lemma begin_step_pub [keeps_pub]: "begin_replication_step env w = Inr w' \<Longrightarrow> pub w' = pub w"
  by (auto simp: begin_replication_step_def bindR_eq_Inr_iff dest!: keeps_pub split: if_splits)

lemma clear_skip_pub [keeps_pub]: "clear_subscription_skip_lsn env w = Inr w' \<Longrightarrow> pub w' = pub w"
  by (auto simp: clear_subscription_skip_lsn_def Let_def bindR_eq_Inr_iff dest!: keeps_pub split: if_splits option.splits)

lemma sync_tables_pub [keeps_pub]: "sync_tables env lsn w = Inr w' \<Longrightarrow> pub w' = pub w"
  by (auto simp: sync_tables_def bindR_eq_Inr_iff)

lemma settings_pub [simp]:
  "pub (set_apply_error_context_xact x l w) = pub w" "pub (reset_apply_error_context_info w) = pub w"
  "pub (maybe_start_skipping_changes l w) = pub w" "pub (stop_skipping_changes w) = pub w"
  "pub (set_origin l t w) = pub w" "pub (track_flush a b w) = pub w"
  by (simp_all add: set_apply_error_context_xact_def reset_apply_error_context_info_def maybe_start_skipping_changes_def
      stop_skipping_changes_def set_origin_def track_flush_def)

lemma end_block_pub [keeps_pub]: "end_block env w = Inr w' \<Longrightarrow> pub w' = pub w"
  by (auto simp: end_block_def bindR_eq_Inr_iff dest!: keeps_pub split: if_splits)

lemma commit_internal_pub [keeps_pub]: "apply_handle_commit_internal env cd w = Inr w' \<Longrightarrow> pub w' = pub w"
  by (auto simp: apply_handle_commit_internal_def Let_def bindR_eq_Inr_iff dest!: keeps_pub split: if_splits)

lemma prepare_internal_pub [keeps_pub]: "apply_handle_prepare_internal env pd w = Inr w' \<Longrightarrow> pub w' = pub w"
  by (auto simp: apply_handle_prepare_internal_def Let_def bindR_eq_Inr_iff dest!: keeps_pub split: if_splits)

lemma finish_prepared_pub [keeps_pub]: "finish_prepared env gid c w = Inr w' \<Longrightarrow> pub w' = pub w"
  by (auto simp: finish_prepared_def bindR_eq_Inr_iff dest!: keeps_pub)

lemma streamed_pub [keeps_pub]: "handle_streamed_transaction a s w = Inr (b, s', w') \<Longrightarrow> pub w' = pub w"
  by (auto simp: handle_streamed_transaction_def bindR_eq_Inr_iff split: if_splits)

lemma stream_internal_pub [keeps_pub]:
  "stream_start_internal env xid first w = Inr w' \<Longrightarrow> pub w' = pub w"
  "stream_stop_internal env xid w = Inr w' \<Longrightarrow> pub w' = pub w"
  "stream_abort_internal env xid subxid w = Inr w' \<Longrightarrow> pub w' = pub w"
  by (auto simp: stream_start_internal_def stream_stop_internal_def stream_abort_internal_def bindR_eq_Inr_iff
      dest!: keeps_pub split: if_splits)

lemma open_truncated_pub [keeps_pub]: "open_truncated env relids rels oids w = Inr (rels', w') \<Longrightarrow> pub w' = pub w"
proof (induction relids arbitrary: rels oids w)
  case (Cons relid relids)
  then show ?case by (fastforce simp: bindR_eq_Inr_iff split: if_splits)
qed simp

lemmas handler_defs = apply_handle_begin_def apply_handle_commit_def apply_handle_begin_prepare_def apply_handle_prepare_def
  apply_handle_commit_prepared_def apply_handle_rollback_prepared_def apply_handle_origin_def apply_handle_relation_def
  apply_handle_type_def apply_handle_truncate_def check_truncated_def apply_handle_stream_start_def apply_handle_stream_stop_def
  apply_handle_stream_abort_def

lemma handlers_pub [keeps_pub]:
  "apply_handle_begin s w = Inr w' \<Longrightarrow> pub w' = pub w"
  "apply_handle_commit env s w = Inr w' \<Longrightarrow> pub w' = pub w"
  "apply_handle_begin_prepare env s w = Inr w' \<Longrightarrow> pub w' = pub w"
  "apply_handle_prepare env s w = Inr w' \<Longrightarrow> pub w' = pub w"
  "apply_handle_commit_prepared env s w = Inr w' \<Longrightarrow> pub w' = pub w"
  "apply_handle_rollback_prepared env s w = Inr w' \<Longrightarrow> pub w' = pub w"
  "apply_handle_origin env w = Inr w' \<Longrightarrow> pub w' = pub w"
  "apply_handle_relation env s w = Inr w' \<Longrightarrow> pub w' = pub w"
  "apply_handle_type env s w = Inr w' \<Longrightarrow> pub w' = pub w"
  "apply_handle_truncate env s w = Inr w' \<Longrightarrow> pub w' = pub w"
  "apply_handle_stream_start env s w = Inr w' \<Longrightarrow> pub w' = pub w"
  "apply_handle_stream_stop env w = Inr w' \<Longrightarrow> pub w' = pub w"
  "apply_handle_stream_abort env s w = Inr w' \<Longrightarrow> pub w' = pub w"
  unfolding handler_defs
  by (auto simp: Let_def bindR_eq_Inr_iff dest!: keeps_pub split: if_splits)


section \<open>The spool files of a worker that does not stream\<close>

text \<open>\<open>with_files f r\<close> is the result \<open>r\<close> in a worker whose spool files are \<open>f\<close>.\<close>

definition with_files :: "spool \<Rightarrow> ('w, 'rk, 'rkt) worker res \<Rightarrow> ('w, 'rk, 'rkt) worker res" where
  "with_files f r = bindR r (\<lambda>w. Inr (w\<lparr>files := f\<rparr>))"

lemma with_files_simps [simp]: "with_files f (Inr w) = Inr (w\<lparr>files := f\<rparr>)" "with_files f (Inl e) = Inl e"
  by (simp_all add: with_files_def)

lemma with_files_bind:
  "(\<And>w. k (w\<lparr>files := f\<rparr>) = with_files f (k' w)) \<Longrightarrow> bindR (with_files f r) k = with_files f (bindR r k')"
  by (cases r) simp_all

lemma start_command_files: "start_command (w\<lparr>files := f\<rparr>) = with_files f (start_command w)"
  by (cases "StartTransactionCommand (xact w)") (simp_all add: start_command_def)

lemma commit_command_files: "commit_command env (w\<lparr>files := f\<rparr>) = with_files f (commit_command env w)"
  by (cases "CommitTransactionCommand (rec_end env) (xact w)") (simp_all add: commit_command_def)

lemma adopt_files: "adopt_subscription env b (w\<lparr>files := f\<rparr>) = with_files f (adopt_subscription env b w)"
proof (cases "sub_row w")
  case (Some newsub)
  have upd: "w\<lparr>files := f, MySubscription := newsub\<rparr> = w\<lparr>MySubscription := newsub\<rparr>\<lparr>files := f\<rparr>" by simp
  have "commit_command env (w\<lparr>files := f, MySubscription := newsub\<rparr>) = with_files f (commit_command env (w\<lparr>MySubscription := newsub\<rparr>))"
    unfolding upd by (rule commit_command_files)
  then show ?thesis using Some
    by (cases "commit_command env (w\<lparr>MySubscription := newsub\<rparr>)") (simp_all add: adopt_subscription_def Let_def)
qed (simp add: adopt_subscription_def)

lemma reread_files: "maybe_reread_subscription env (w\<lparr>files := f\<rparr>) = with_files f (maybe_reread_subscription env w)"
  by (simp add: maybe_reread_subscription_def Let_def start_command_files adopt_files with_files_bind)

lemma begin_step_files: "begin_replication_step env (w\<lparr>files := f\<rparr>) = with_files f (begin_replication_step env w)"
  by (simp add: begin_replication_step_def start_command_files reread_files with_files_bind)

text \<open>A worker that does not stream handles these messages without its spool files.\<close>

definition data_actions :: "byte set" where
  "data_actions = {CHR ''I'', CHR ''U'', CHR ''D'', CHR ''T'', CHR ''R'', CHR ''Y''}"

lemma not_streamed [simp]:
  "\<not> in_streamed_transaction w \<Longrightarrow> handle_streamed_transaction a s w = Inr (False, s, w)"
  by (simp add: handle_streamed_transaction_def get_transaction_apply_action_def)

lemma is_skipping_files [simp]: "is_skipping_changes (w\<lparr>files := f\<rparr>) = is_skipping_changes w"
  by (simp add: is_skipping_changes_def)

lemma publish_change_files:
  "publish_change env reader to_json s (w\<lparr>files := f\<rparr>) = with_files f (publish_change env reader to_json s w)"
  by (auto simp: publish_change_def bindR_def split: sum.splits prod.splits)

lemma handle_change_files:
  assumes "\<not> in_streamed_transaction w"
  shows "handle_change env action reader to_json s (w\<lparr>files := f\<rparr>) = with_files f (handle_change env action reader to_json s w)"
  using assms by (simp add: handle_change_def begin_step_files publish_change_files with_files_bind)

lemma open_truncated_files:
  "open_truncated env relids rels oids (w\<lparr>files := f\<rparr>) =
     bindR (open_truncated env relids rels oids w) (\<lambda>(r, w). Inr (r, w\<lparr>files := f\<rparr>))"
proof (induction relids arbitrary: rels oids w)
  case (Cons relid relids)
  have upd: "(w\<lparr>files := f\<rparr>)\<lparr>relations := rm\<rparr> = (w\<lparr>relations := rm\<rparr>)\<lparr>files := f\<rparr>" for rm by simp
  have "should_apply_changes_for_rel env (w\<lparr>files := f\<rparr>) rel = should_apply_changes_for_rel env w rel" for rel
    by (cases "worker_type env") (simp_all add: should_apply_changes_for_rel_def)
  then show ?case unfolding open_truncated.simps upd Cons.IH
    by (auto simp: bindR_def split: sum.splits prod.splits)
qed simp

lemma truncate_files:
  assumes "\<not> in_streamed_transaction w"
  shows "apply_handle_truncate env s (w\<lparr>files := f\<rparr>) = with_files f (apply_handle_truncate env s w)"
proof -
  have "check_truncated env s (v\<lparr>files := f\<rparr>) = with_files f (check_truncated env s v)" for s v
    unfolding check_truncated_def open_truncated_files by (auto simp: bindR_def split: sum.splits prod.splits)
  then show ?thesis using assms by (simp add: apply_handle_truncate_def begin_step_files with_files_bind)
qed

lemma relation_type_files:
  assumes "\<not> in_streamed_transaction w"
  shows "apply_handle_relation env s (w\<lparr>files := f\<rparr>) = with_files f (apply_handle_relation env s w)"
    and "apply_handle_type env s (w\<lparr>files := f\<rparr>) = with_files f (apply_handle_type env s w)"
  using assms unfolding apply_handle_relation_def apply_handle_type_def by (auto simp: bindR_def split: sum.splits prod.splits)


lemma dispatch_data_rest:
  "dispatch_action env dispatch (CHR ''T'') s w = apply_handle_truncate env s w"
  "dispatch_action env dispatch (CHR ''R'') s w = apply_handle_relation env s w"
  "dispatch_action env dispatch (CHR ''Y'') s w = apply_handle_type env s w"
  by (simp_all add: dispatch_action_def)

lemma dispatch_data_files:
  assumes "action \<in> data_actions" and "\<not> in_streamed_transaction w"
  shows "dispatch_action env dispatch action s (w\<lparr>files := f\<rparr>) = with_files f (dispatch_action env dispatch action s w)"
  using assms(1) unfolding data_actions_def
  by (elim insertE emptyE) (simp_all add: assms(2) dispatch_row_actions dispatch_data_rest apply_handle_insert_def apply_handle_update_def
      apply_handle_delete_def handle_change_files truncate_files relation_type_files)

text \<open>Such a message is handled outside of streaming, and leaves the worker so.\<close>

named_theorems keeps_streaming \<open>operations that do not start or stop streaming\<close>

lemma command_frame:
  "start_command w = Inr w' \<Longrightarrow> \<exists>x. w' = w\<lparr>xact := x\<rparr>"
  "commit_command env w = Inr w' \<Longrightarrow> \<exists>x. w' = w\<lparr>xact := x\<rparr>"
  by (auto simp: start_command_def commit_command_def bindR_eq_Inr_iff)

lemma adopt_frame:
  assumes "adopt_subscription env b w = Inr w'"
  shows "\<exists>x sub. w' = w\<lparr>xact := x, MySubscription := sub, MySubscriptionValid := True\<rparr>"
proof -
  obtain newsub v where v: "(if b then commit_command env (w\<lparr>MySubscription := newsub\<rparr>) else Inr (w\<lparr>MySubscription := newsub\<rparr>)) = Inr v"
    and w': "w' = v\<lparr>MySubscriptionValid := True\<rparr>"
    using assms by (auto simp: adopt_subscription_def Let_def bindR_eq_Inr_iff split: option.splits if_splits)
  obtain x where "v = w\<lparr>MySubscription := newsub, xact := x\<rparr>"
  proof (cases b)
    case True
    then show thesis using v command_frame(2) [of env "w\<lparr>MySubscription := newsub\<rparr>" v] that by auto
  next
    case False
    then have "v = w\<lparr>MySubscription := newsub\<rparr>" using v by simp
    then show thesis by (intro that [of "xact w"]) simp
  qed
  then have "w' = w\<lparr>xact := x, MySubscription := newsub, MySubscriptionValid := True\<rparr>" using w' by simp
  then show ?thesis by blast
qed

lemma reread_frame:
  assumes "maybe_reread_subscription env w = Inr w'"
  shows "\<exists>x sub v. w' = w\<lparr>xact := x, MySubscription := sub, MySubscriptionValid := v\<rparr>"
proof (cases "MySubscriptionValid w")
  case True
  then have "w' = w" using assms by (simp add: maybe_reread_subscription_def)
  then have "w' = w\<lparr>xact := xact w, MySubscription := MySubscription w, MySubscriptionValid := MySubscriptionValid w\<rparr>" by simp
  then show ?thesis by blast
next
  case False
  then obtain v where v: "(if \<not> IsTransactionState (xact w) then start_command w else Inr w) = Inr v"
    "adopt_subscription env (\<not> IsTransactionState (xact w)) v = Inr w'"
    using assms by (auto simp: maybe_reread_subscription_def Let_def bindR_eq_Inr_iff)
  obtain x where "v = w\<lparr>xact := x\<rparr>"
  proof (cases "IsTransactionState (xact w)")
    case True
    then show thesis using v(1) by (intro that [of "xact w"]) simp
  next
    case False
    then show thesis using v(1) command_frame(1) [of w v] that by auto
  qed
  then show ?thesis using adopt_frame [OF v(2)] by auto
qed

lemma begin_step_frame:
  assumes "begin_replication_step env w = Inr w'"
  shows "\<exists>x sub v. w' = w\<lparr>xact := x, MySubscription := sub, MySubscriptionValid := v\<rparr>"
proof (cases "IsTransactionState (xact w)")
  case True
  then have "w' = w\<lparr>xact := xact w, MySubscription := MySubscription w, MySubscriptionValid := MySubscriptionValid w\<rparr>"
    using assms by (simp add: begin_replication_step_def)
  then show ?thesis by blast
next
  case False
  then obtain v where "start_command w = Inr v" "maybe_reread_subscription env v = Inr w'"
    using assms by (auto simp: begin_replication_step_def bindR_eq_Inr_iff)
  then show ?thesis using command_frame(1) reread_frame by fastforce
qed

lemma begin_step_streaming [keeps_streaming]:
  "begin_replication_step env w = Inr w' \<Longrightarrow> in_streamed_transaction w' = in_streamed_transaction w"
  using begin_step_frame by fastforce

lemma open_truncated_streaming [keeps_streaming]:
  "open_truncated env relids rels oids w = Inr (rels', w') \<Longrightarrow> in_streamed_transaction w' = in_streamed_transaction w"
proof (induction relids arbitrary: rels oids w)
  case (Cons relid relids)
  then show ?case by (fastforce simp: bindR_eq_Inr_iff split: if_splits)
qed simp

lemma data_handlers_streaming:
  assumes "\<not> in_streamed_transaction w"
  shows "handle_change env action reader to_json s w = Inr w' \<Longrightarrow> \<not> in_streamed_transaction w'"
    and "apply_handle_truncate env s w = Inr w' \<Longrightarrow> \<not> in_streamed_transaction w'"
    and "apply_handle_relation env s w = Inr w' \<Longrightarrow> \<not> in_streamed_transaction w'"
    and "apply_handle_type env s w = Inr w' \<Longrightarrow> \<not> in_streamed_transaction w'"
  using assms
  by (auto simp: handle_change_def publish_change_def apply_handle_truncate_def check_truncated_def apply_handle_relation_def
      apply_handle_type_def bindR_eq_Inr_iff dest!: keeps_streaming split: if_splits)

lemma dispatch_data_streaming:
  assumes "dispatch_action env dispatch action s w = Inr w'" and "action \<in> data_actions" and "\<not> in_streamed_transaction w"
  shows "\<not> in_streamed_transaction w'"
  using assms(1,2) unfolding data_actions_def
  by (auto simp: dispatch_row_actions dispatch_data_rest apply_handle_insert_def apply_handle_update_def
      apply_handle_delete_def dest: data_handlers_streaming [OF assms(3)])

section \<open>Replay\<close>

text \<open>The message in a record of the spool file, and the records dispatched one after the other.\<close>

definition record_message :: "byte list \<Rightarrow> StringInfoData" where
  "record_message r = initReadOnlyStringInfo (map Some r) (length r)"

fun apply_records :: "(StringInfoData \<Rightarrow> ('w, 'rk, 'rkt) worker \<Rightarrow> ('w, 'rk, 'rkt) worker res) \<Rightarrow> byte list list \<Rightarrow>
     ('w, 'rk, 'rkt) worker \<Rightarrow> ('w, 'rk, 'rkt) worker res" where
  "apply_records dispatch [] w = Inr w"
| "apply_records dispatch (r # rs) w = bindR (dispatch (record_message r) w) (apply_records dispatch rs)"

definition data_records :: "spooled \<Rightarrow> bool" where
  "data_records cs \<longleftrightarrow> spooled_ok cs \<and> (\<forall>(x, r)\<in>set cs. hd r \<in> data_actions)"

lemma record_action: "r \<noteq> [] \<Longrightarrow> pq_getmsgbyte (record_message r) = Inr (hd r, advance 1 (record_message r))"
  by (cases r) (simp_all add: pq_getmsgbyte_def record_message_def initReadOnlyStringInfo_def mem_read_def)

lemma dispatch_record:
  assumes "r \<noteq> []" and "hd r \<in> data_actions" and "\<not> in_streamed_transaction w"
  shows "apply_dispatch (Suc depth) env (record_message r) (w\<lparr>files := f\<rparr>) =
      with_files f (apply_dispatch (Suc depth) env (record_message r) w)"
    and "apply_dispatch (Suc depth) env (record_message r) w = Inr w' \<Longrightarrow> \<not> in_streamed_transaction w'"
proof -
  have upd: "w\<lparr>files := f, err_command := hd r\<rparr> = w\<lparr>err_command := hd r\<rparr>\<lparr>files := f\<rparr>" by simp
  have "dispatch_action env (apply_dispatch depth env) (hd r) (advance 1 (record_message r)) (w\<lparr>files := f, err_command := hd r\<rparr>) =
      with_files f (dispatch_action env (apply_dispatch depth env) (hd r) (advance 1 (record_message r)) (w\<lparr>err_command := hd r\<rparr>))"
    unfolding upd by (rule dispatch_data_files) (use assms in simp_all)
  then show "apply_dispatch (Suc depth) env (record_message r) (w\<lparr>files := f\<rparr>) =
      with_files f (apply_dispatch (Suc depth) env (record_message r) w)"
    using record_action [OF assms(1)]
    by (cases "dispatch_action env (apply_dispatch depth env) (hd r) (advance 1 (record_message r)) (w\<lparr>err_command := hd r\<rparr>)")
      (simp_all add: apply_dispatch.simps)
  show "\<not> in_streamed_transaction w'" if "apply_dispatch (Suc depth) env (record_message r) w = Inr w'"
    using that record_action [OF assms(1)] dispatch_data_streaming [OF _ assms(2), of env "apply_dispatch depth env"] assms(3)
    by (auto simp: apply_dispatch.simps bindR_eq_Inr_iff)
qed

lemma replay_loop_records:
  fixes env :: "('w, 'rk, 'rkt, 'r::zero) worker_env" and w :: "('w, 'rk, 'rkt) worker"
  assumes "fileset_ready f" and "changes_files f path = Some (spool_bytes (cs @ ds))" and "data_records ds"
    and "stream_fd f = Some (path, length (spool_bytes cs))" and "length ds < fuel" and "\<not> in_streamed_transaction w"
  shows "replay_loop fuel env (apply_dispatch (Suc depth) env) xid (w\<lparr>files := f\<rparr>) =
    with_files (f\<lparr>stream_fd := Some (path, length (spool_bytes (cs @ ds)))\<rparr>) (apply_records (apply_dispatch (Suc depth) env) (map snd ds) w)"
  using assms
proof (induction ds arbitrary: cs f fuel w)
  case Nil
  then obtain n where "fuel = Suc n" by (cases fuel) auto
  then show ?case using Nil next_record_end [of f path "spool_bytes cs"] by simp
next
  case (Cons d ds)
  obtain x r n where d: "d = (x, r)" and fuel: "fuel = Suc n" using Cons.prems(5) by (cases d, cases fuel) auto
  have r: "r \<noteq> []" "length r < 2 ^ 31" "hd r \<in> data_actions" "data_records ds"
    using Cons.prems(3) d by (auto simp: data_records_def spooled_ok_def)
  let ?f = "f\<lparr>stream_fd := Some (path, length (spool_bytes (cs @ [(x, r)])))\<rparr>"
  have n: "next_record f = Inr (Some r, ?f)"
    using Cons.prems r by (intro next_record_ok [of f path cs x r ds]) (simp_all add: d)
  note disp = dispatch_record [OF r(1,3) Cons.prems(6), of depth env]
  show ?case
  proof (cases "apply_dispatch (Suc depth) env (record_message r) w")
    case (Inl e)
    then show ?thesis using n disp(1) [of ?f] by (simp add: fuel d record_message_def)
  next
    case (Inr w1)
    have "replay_loop n env (apply_dispatch (Suc depth) env) xid (w1\<lparr>files := ?f\<rparr>) =
        with_files (?f\<lparr>stream_fd := Some (path, length (spool_bytes ((cs @ [(x, r)]) @ ds)))\<rparr>)
          (apply_records (apply_dispatch (Suc depth) env) (map snd ds) w1)"
      by (rule Cons.IH) (use Cons.prems r fuel d disp(2) [OF Inr] in simp_all)
    then show ?thesis using n disp(1) [of ?f] Inr by (simp add: fuel d record_message_def)
  qed
qed


section \<open>Properties of the messages\<close>

text \<open>Claim C28. Only row messages reach Kafka, directly or through the replay of a streamed transaction. In particular a
  TRUNCATE is checked against the local tables and then dropped, and rolling back a prepared transaction sends nothing,
  although the rows of that transaction were published when they arrived, before PREPARE.\<close>

theorem only_rows_are_published:
  assumes "apply_dispatch (Suc depth) env s w = Inr w'" and "pq_getmsgbyte s = Inr (action, s1)"
    and "action \<notin> {CHR ''I'', CHR ''U'', CHR ''D'', CHR ''c'', CHR ''p''}"
  shows "pub w' = pub w"
proof -
  obtain v where v: "dispatch_action env (apply_dispatch depth env) action s1 (w\<lparr>err_command := action\<rparr>) = Inr v" "pub w' = pub v"
    using assms(1,2) by (auto simp: apply_dispatch.simps bindR_eq_Inr_iff)
  have "pub v = pub (w\<lparr>err_command := action\<rparr>)"
    using v(1) assms(3) unfolding dispatch_action_def by (auto dest: handlers_pub split: if_splits)
  then show ?thesis using v(2) by simp
qed

theorem only_rows_are_published_witness:
  "\<exists>w'. apply_dispatch 1 demo_env (received ''M'') (demo_worker (\<lambda>_. None)) = Inr w' \<and> pub w' = demo_start_publisher"
proof -
  have b: "pq_getmsgbyte (received ''M'') = Inr (CHR ''M'', advance 1 (received ''M''))"
    using parsesD [OF pq_getmsgbyte_parses, of "received ''M''" "CHR ''M''" "[]"] by simp
  then obtain w' where w': "apply_dispatch (Suc 0) demo_env (received ''M'') (demo_worker (\<lambda>_. None)) = Inr w'"
    by (simp add: apply_dispatch.simps dispatch_action_def)
  from only_rows_are_published [OF this b] w' show ?thesis by (simp add: demo_worker_def)
qed

text \<open>Claim C24. Replaying a spooled transaction is the same as dispatching its messages one after the other in a transaction
  of their own: same messages to Kafka, same errors, same relations. The replay always ends, and the spool files are as before.\<close>

theorem replay_is_direct:
  fixes env :: "('w, 'rk, 'rkt, 'r::zero) worker_env"
  assumes "at_rest (subid env) xid cs (files w)" and "data_records cs" and "\<not> in_streamed_transaction w"
  shows "apply_spooled_messages env (apply_dispatch (Suc depth) env) xid lsn w =
    bindR (begin_replication_step env (maybe_start_skipping_changes lsn w)) (\<lambda>v.
    with_files (files w) (apply_records (apply_dispatch (Suc depth) env) (map snd cs)
      (v\<lparr>remote_final_lsn := lsn, in_remote_transaction := True\<rparr>)))"
proof (cases "begin_replication_step env (maybe_start_skipping_changes lsn w)")
  case (Inr v)
  have v: "files v = files w" "\<not> in_streamed_transaction v"
    using begin_step_frame [OF Inr] assms(3) by (auto simp: maybe_start_skipping_changes_def split: if_splits)
  let ?path = "changes_filename (subid env) xid"
  have f: "fileset_ready (files w)" "changes_files (files w) ?path = Some (spool_bytes cs)" "stream_fd (files w) = None"
    using assms(1) by (simp_all add: at_rest_def)
  let ?v = "v\<lparr>remote_final_lsn := lsn, in_remote_transaction := True\<rparr>"
  have upd: "v\<lparr>files := (files v)\<lparr>stream_fd := Some (?path, 0)\<rparr>, remote_final_lsn := lsn, in_remote_transaction := True\<rparr> =
      ?v\<lparr>files := (files w)\<lparr>stream_fd := Some (?path, 0)\<rparr>\<rparr>" using v(1) by simp
  have loop: "replay_loop (Suc (length (spool_bytes cs))) env (apply_dispatch (Suc depth) env) xid (?v\<lparr>files := (files w)\<lparr>stream_fd := Some (?path, 0)\<rparr>\<rparr>) =
      with_files ((files w)\<lparr>stream_fd := Some (?path, length (spool_bytes cs))\<rparr>)
        (apply_records (apply_dispatch (Suc depth) env) (map snd cs) ?v)"
    using replay_loop_records [of "(files w)\<lparr>stream_fd := Some (?path, 0)\<rparr>" ?path "[]" cs "Suc (length (spool_bytes cs))" ?v env depth xid]
      f assms(2) v(2) spooled_ok_short [of cs] by (simp add: data_records_def)
  have closed: "stream_close_file ((files w)\<lparr>stream_fd := Some y\<rparr>) = files w" for y using f(3) by (simp add: stream_close_file_def)
  have "open_changes ?path (files v) = Inr (spool_bytes cs)" using f v(1) by (simp add: open_changes_def)
  then show ?thesis unfolding apply_spooled_messages_def Let_def Inr bindR_Inr upd
    using loop closed by (cases "apply_records (apply_dispatch (Suc depth) env) (map snd cs) ?v") simp_all
qed (simp add: apply_spooled_messages_def)

text \<open>The changes file of a transaction with one inserted row, which the replay publishes.\<close>

definition demo_record :: "byte list" where
  "demo_record = [CHR ''I'', NUL, NUL, NUL, CHR 0x07, CHR ''N'', NUL, CHR 0x01, CHR ''t'', NUL, NUL, NUL, CHR 0x01, CHR ''7'']"

definition demo_spool :: spool where
  "demo_spool = empty_spool\<lparr>fileset_ready := True, changes_files := (\<lambda>_. Some (spool_bytes [(10, demo_record)]))\<rparr>"

lemma demo_record_read: "logicalrep_read_insert (advance 1 (record_message demo_record)) =
    Inr ((7, row_view [(LOGICALREP_COLUMN_TEXT, Some ''7'')]), (record_message demo_record)\<lparr>si_cursor := 14\<rparr>)"
  by (simp add: logicalrep_read_insert_def pq_getmsgint_def pq_copymsgbytes_def pq_getmsgbyte_def mem_read_def record_message_def demo_record_def
      initReadOnlyStringInfo_def be_value_def logicalrep_read_tuple_def read_column_def MaxAllocSize_def row_view_def column_view_def
      initStringInfoFromString_def advance_def)

lemma demo_record_applied:
  assumes "applying (\<lambda>w. w) ''shop'' demo_env w" "usable (local_cat demo_env) 7 demo_remote_rel (relations w)"
  shows "\<exists>w'. apply_dispatch 1 demo_env (record_message demo_record) w = Inr w' \<and>
    handed_over (\<lambda>w. w) (change_text ''shop'' demo_remote_rel (Inserted [Some ''7''])) (pub w) (pub w')"
proof -
  let ?imgs = "[(LOGICALREP_COLUMN_TEXT, Some ''7'')]" and ?w = "w\<lparr>err_command := CHR ''I''\<rparr>"
  have w: "applying (\<lambda>w. w) ''shop'' demo_env ?w" "usable (local_cat demo_env) 7 demo_remote_rel (relations ?w)" using assms by simp_all
  have lib: "client_contract (kafka_lib demo_env) (\<lambda>w. w)" "sprintf_fits (doubles demo_env)"
    using demo_client_contract demo_fp_fits by (simp_all add: demo_env_def)
  have rel: "list_all nul_free (attnames demo_remote_rel)" "length (colvalues (row_view ?imgs)) \<le> length (attnames demo_remote_rel)"
    "fits (change_text ''shop'' demo_remote_rel (Inserted [Some ''7'']))"
    using demo_publishable(1) by (simp_all add: publishable_def row_view_def demo_remote_rel_def)
  have row: "row_text (colvalues (row_view ?imgs)) = Inr [Some ''7'']" using row_view_text [of ?imgs] demo_row(3) by simp
  have serve: "serving (kafka_lib demo_env) (\<lambda>w. w) (settings demo_env) (sub_conninfo (MySubscription ?w)) ''shop'' (pub ?w)"
    using w(1) by (simp add: applying_def)
  have json: "\<exists>p. INSERT_TO_JSON (kafka_lib demo_env) (settings demo_env) (doubles demo_env) (sub_conninfo (MySubscription ?w)) demo_remote_rel (row_view ?imgs) (pub ?w) =
      Inr p \<and> ready ''shop'' p \<and> handed_over (\<lambda>w. w) (change_text ''shop'' demo_remote_rel (Inserted [Some ''7''])) (pub ?w) p"
    by (rule insert_to_json [OF lib serve rel(1) row rel(2,3)]) blast
  have "\<exists>v. apply_handle_insert demo_env (advance 1 (record_message demo_record)) ?w = Inr v \<and> applying (\<lambda>w. w) ''shop'' demo_env v \<and>
      row_applied (\<lambda>w. w) (change_text ''shop'' demo_remote_rel (Inserted [Some ''7''])) (local_cat demo_env) ?w v"
    unfolding apply_handle_insert_def by (rule handle_change_applied [OF w, where change = "row_view ?imgs"]) (use demo_record_read json in simp_all)
  then obtain v where "apply_handle_insert demo_env (advance 1 (record_message demo_record)) ?w = Inr v"
    "handed_over (\<lambda>w. w) (change_text ''shop'' demo_remote_rel (Inserted [Some ''7''])) (pub ?w) (pub v)"
    by (auto simp: row_applied_def)
  moreover have "pq_getmsgbyte (record_message demo_record) = Inr (CHR ''I'', advance 1 (record_message demo_record))"
    using record_action [of demo_record] by (simp add: demo_record_def)
  ultimately show ?thesis by (simp add: apply_dispatch.simps dispatch_row_actions)
qed

theorem replay_is_direct_witness:
  "\<exists>rm w'. at_rest 1 10 [(10, demo_record)] demo_spool \<and>
    apply_spooled_messages demo_env (apply_dispatch 1 demo_env) 10 50 ((demo_worker rm)\<lparr>files := demo_spool\<rparr>) = Inr w' \<and> files w' = demo_spool \<and>
    handed_over (\<lambda>w. w) (change_text ''shop'' demo_remote_rel (Inserted [Some ''7''])) (pub (demo_worker rm)) (pub w')"
proof -
  obtain rm where rm: "idle (\<lambda>w. w) ''shop'' demo_env (demo_worker rm)" "usable (local_cat demo_env) 7 demo_remote_rel rm"
    by (rule demo_worker_idle)
  let ?w = "(demo_worker rm)\<lparr>files := demo_spool\<rparr>"
  have rest: "at_rest 1 10 [(10, demo_record)] demo_spool" by (simp add: at_rest_def demo_spool_def empty_spool_def sub_starts_def first_of_subxact_def)
  have ok: "data_records [(10, demo_record)]" "\<not> in_streamed_transaction ?w"
    by (simp_all add: data_records_def spooled_ok_def demo_record_def data_actions_def demo_worker_def)
  have skip: "maybe_start_skipping_changes 50 ?w = ?w" by (simp add: maybe_start_skipping_changes_def demo_worker_def demo_subscription_def)
  have app: "applying (\<lambda>w. w) ''shop'' demo_env ?w" using rm(1) by (simp add: idle_def applying_def is_skipping_changes_def)
  obtain x where x: "begin_replication_step demo_env ?w = Inr (?w\<lparr>xact := x\<rparr>)" "IsTransactionState x" by (rule begin_step [OF app])
  let ?v = "?w\<lparr>xact := x, remote_final_lsn := 50, in_remote_transaction := True\<rparr>"
  have "applying (\<lambda>w. w) ''shop'' demo_env ?v" using app x(2) by (simp add: applying_def is_skipping_changes_def)
  moreover have "usable (local_cat demo_env) 7 demo_remote_rel (relations ?v)" using rm(2) by (simp add: demo_worker_def)
  ultimately obtain w' where w': "apply_dispatch 1 demo_env (record_message demo_record) ?v = Inr w'"
    "handed_over (\<lambda>w. w) (change_text ''shop'' demo_remote_rel (Inserted [Some ''7''])) (pub ?v) (pub w')"
    using demo_record_applied by blast
  have "apply_spooled_messages demo_env (apply_dispatch 1 demo_env) 10 50 ?w = Inr (w'\<lparr>files := demo_spool\<rparr>)"
    using replay_is_direct [of demo_env 10 "[(10, demo_record)]" ?w 0 50] rest ok skip x(1) w'(1) by (simp add: demo_env_def)
  then show ?thesis using rest w'(2) by (intro exI [of _ rm] exI [of _ "w'\<lparr>files := demo_spool\<rparr>"]) simp
qed

end
