(* ===== verification/CopyText.thy ===== *)
theory CopyText
  imports LogicalProto
begin

text \<open>
  The text format of COPY, in which the rows of the initial synchronisation travel: the
  publisher writes a row as a line (\<^verbatim>\<open>src/backend/commands/copyto.c\<close>), the subscriber
  splits the line into fields (\<^verbatim>\<open>CopyReadAttributesText\<close> of
  \<^verbatim>\<open>src/backend/commands/copyfromparse.c\<close>). The main result is that splitting undoes
  writing. The DEFAULT marker is left out: the synchronisation never sets that option.
\<close>

abbreviation LF :: byte where "LF \<equiv> CHR 0x0A"
abbreviation CR :: byte where "CR \<equiv> CHR 0x0D"
abbreviation BSLASH :: byte where "BSLASH \<equiv> CHR 0x5C"

record copy_opts =
  delim :: byte
  null_print :: cstring

section \<open>Writing a row\<close>

text \<open>The letter that stands for a control character.\<close>

definition escape_letter :: "byte \<Rightarrow> byte option" where
  "escape_letter c =
     (if c = CHR 0x08 then Some (CHR ''b'') else if c = CHR 0x0C then Some (CHR ''f'')
      else if c = LF then Some (CHR ''n'') else if c = CR then Some (CHR ''r'')
      else if c = CHR 0x09 then Some (CHR ''t'') else if c = CHR 0x0B then Some (CHR ''v'') else None)"

text \<open>
  The loop: \<open>pending\<close> is what lies between \<^verbatim>\<open>start\<close> and \<^verbatim>\<open>ptr\<close>, not sent yet. A
  backslash or delimiter is sent with the run it begins, a control character is replaced.
\<close>

fun out_loop :: "byte \<Rightarrow> byte list \<Rightarrow> byte list \<Rightarrow> byte list \<Rightarrow> byte list" where
  "out_loop delimc [] pending out = out @ pending"
| "out_loop delimc (c # cs) pending out =
     (if uchar c < 0x20 then
        (case escape_letter c of
           Some e \<Rightarrow> out_loop delimc cs [] (out @ pending @ [BSLASH, e])
         | None \<Rightarrow>
             if c = delimc then out_loop delimc cs [] (out @ pending @ [BSLASH, c])
             else out_loop delimc cs (pending @ [c]) out)
      else if c = BSLASH \<or> c = delimc then out_loop delimc cs [c] (out @ pending @ [BSLASH])
      else out_loop delimc cs (pending @ [c]) out)"

text \<open>\<open>s2c\<close> converts to the encoding of the connection, in which no byte of a longer character is ASCII.\<close>

definition CopyAttributeOutText :: "(cstring \<Rightarrow> cstring) \<Rightarrow> copy_opts \<Rightarrow> cstring \<Rightarrow> byte list" where
  "CopyAttributeOutText s2c opts string = out_loop (delim opts) (c_str (s2c string)) [] []"

text \<open>The columns of \<^verbatim>\<open>attnumlist\<close>, separated by the delimiter; \<open>out_function\<close> turns a value into text.\<close>

fun send_columns ::
    "(cstring \<Rightarrow> cstring) \<Rightarrow> copy_opts \<Rightarrow> (nat \<Rightarrow> 'd \<Rightarrow> cstring) \<Rightarrow> 'd TupleTableSlot \<Rightarrow> bool \<Rightarrow> nat list \<Rightarrow> byte list" where
  "send_columns s2c opts out_function slot need_delim [] = []"
| "send_columns s2c opts out_function slot need_delim (attno # rest) =
     (if need_delim then [delim opts] else []) @
     (if tts_isnull slot ! (attno - 1) then null_print opts
      else CopyAttributeOutText s2c opts (out_function attno (tts_values slot ! (attno - 1)))) @
     send_columns s2c opts out_function slot True rest"

definition CopyToTextLikeOneRow ::
    "(cstring \<Rightarrow> cstring) \<Rightarrow> copy_opts \<Rightarrow> (nat \<Rightarrow> 'd \<Rightarrow> cstring) \<Rightarrow> nat list \<Rightarrow> 'd TupleTableSlot \<Rightarrow> byte list" where
  "CopyToTextLikeOneRow s2c opts out_function attnumlist slot =
     send_columns s2c opts out_function slot False attnumlist @ [LF]"

section \<open>Splitting a line\<close>

definition ISOCTAL :: "byte \<Rightarrow> bool" where
  "ISOCTAL c \<longleftrightarrow> schar c \<ge> schar (CHR ''0'') \<and> schar c \<le> schar (CHR ''7'')"

definition OCTVALUE :: "byte \<Rightarrow> nat" where
  "OCTVALUE c = uchar c - uchar (CHR ''0'')"

definition isxdigit :: "byte \<Rightarrow> bool" where
  "isxdigit c \<longleftrightarrow> c \<in> set ''0123456789abcdefABCDEF''"

definition GetDecimalFromHex :: "byte \<Rightarrow> nat" where
  "GetDecimalFromHex hex =
     (if hex \<in> set ''0123456789'' then uchar hex - uchar (CHR ''0'')
      else if hex \<in> set ''ABCDEF'' then uchar hex + 32 - uchar (CHR ''a'') + 10
      else uchar hex - uchar (CHR ''a'') + 10)"

text \<open>Up to two more digits of a \<open>\013\<close> escape.\<close>

definition octal_escape :: "byte \<Rightarrow> byte list \<Rightarrow> byte \<times> byte list" where
  "octal_escape c rest =
     (case rest of [] \<Rightarrow> (char_of (OCTVALUE c), rest)
      | c1 # rest1 \<Rightarrow>
          if \<not> ISOCTAL c1 then (char_of (OCTVALUE c), rest)
          else let val = OCTVALUE c * 8 + OCTVALUE c1
               in case rest1 of [] \<Rightarrow> (char_of val, rest1)
                  | c2 # rest2 \<Rightarrow>
                      if \<not> ISOCTAL c2 then (char_of val, rest1)
                      else (char_of ((val * 8 + OCTVALUE c2) mod 256), rest2))"

text \<open>A \<open>\x3F\<close> escape; without a digit the \<open>x\<close> stands for itself.\<close>

definition hex_escape :: "byte list \<Rightarrow> (byte \<times> byte list) option" where
  "hex_escape rest =
     (case rest of [] \<Rightarrow> None
      | h1 # rest1 \<Rightarrow>
          if \<not> isxdigit h1 then None
          else case rest1 of [] \<Rightarrow> Some (char_of (GetDecimalFromHex h1), rest1)
               | h2 # rest2 \<Rightarrow>
                   if \<not> isxdigit h2 then Some (char_of (GetDecimalFromHex h1), rest1)
                   else Some (char_of (GetDecimalFromHex h1 * 16 + GetDecimalFromHex h2), rest2))"

definition IS_HIGHBIT_SET :: "byte \<Rightarrow> bool" where
  "IS_HIGHBIT_SET c \<longleftrightarrow> uchar c \<ge> 128"

text \<open>The character behind a backslash: what it stands for, whether it may be invalid in the encoding, the rest.\<close>

definition copy_unescape :: "byte \<Rightarrow> byte list \<Rightarrow> byte \<times> bool \<times> byte list" where
  "copy_unescape c rest =
     (if ISOCTAL c then let (v, rest) = octal_escape c rest in (v, v = NUL \<or> IS_HIGHBIT_SET v, rest)
      else if c = CHR ''x'' then
        (case hex_escape rest of None \<Rightarrow> (c, False, rest) | Some (v, rest) \<Rightarrow> (v, v = NUL \<or> IS_HIGHBIT_SET v, rest))
      else if c = CHR ''b'' then (CHR 0x08, False, rest) else if c = CHR ''f'' then (CHR 0x0C, False, rest)
      else if c = CHR ''n'' then (LF, False, rest) else if c = CHR ''r'' then (CR, False, rest)
      else if c = CHR ''t'' then (CHR 0x09, False, rest) else if c = CHR ''v'' then (CHR 0x0B, False, rest)
      else (c, False, rest))"

lemma octal_escape_shorter: "octal_escape c rest = (v, rest') \<Longrightarrow> length rest' \<le> length rest"
  by (auto simp: octal_escape_def Let_def split: list.splits if_splits)

lemma hex_escape_shorter: "hex_escape rest = Some (v, rest') \<Longrightarrow> length rest' \<le> length rest"
  by (auto simp: hex_escape_def split: list.splits if_splits)

lemma copy_unescape_shorter: "copy_unescape c rest = (v, saw, rest') \<Longrightarrow> length rest' \<le> length rest"
  by (auto simp: copy_unescape_def Let_def split: if_splits option.splits prod.splits
      dest: octal_escape_shorter hex_escape_shorter)

text \<open>
  The inner loop. The result: the de-escaped characters, whether one of them may be invalid,
  whether a delimiter ended the field, the input from \<^verbatim>\<open>end_ptr\<close> on, and the input behind
  the field.
\<close>

function scan_field ::
    "byte \<Rightarrow> byte list \<Rightarrow> byte list \<Rightarrow> bool \<Rightarrow> byte list \<times> bool \<times> bool \<times> byte list \<times> byte list" where
  "scan_field delimc cur out saw =
     (case cur of [] \<Rightarrow> (out, saw, False, cur, [])
      | c # rest \<Rightarrow>
          if c = delimc then (out, saw, True, cur, rest)
          else if c = BSLASH then
            (case rest of [] \<Rightarrow> (out, saw, False, cur, [])
             | c1 # rest1 \<Rightarrow>
                 (case copy_unescape c1 rest1 of (v, saw1, rest2) \<Rightarrow> scan_field delimc rest2 (out @ [v]) (saw \<or> saw1)))
          else scan_field delimc rest (out @ [c]) saw)"
  by pat_completeness auto

termination
  by (relation "measure (\<lambda>(delimc, cur, out, saw). length cur)")
    (auto dest!: copy_unescape_shorter [OF sym] simp: less_Suc_eq_le le_imp_less_Suc)

declare scan_field.simps [simp del]

lemma scan_field_simps [simp]:
  "scan_field delimc [] out saw = (out, saw, False, [], [])"
  "scan_field delimc (delimc # rest) out saw = (out, saw, True, delimc # rest, rest)"
  "c \<noteq> delimc \<Longrightarrow> c \<noteq> BSLASH \<Longrightarrow> scan_field delimc (c # rest) out saw = scan_field delimc rest (out @ [c]) saw"
  "BSLASH \<noteq> delimc \<Longrightarrow> scan_field delimc [BSLASH] out saw = (out, saw, False, [BSLASH], [])"
  by (subst scan_field.simps; simp)+

lemma scan_field_escape:
  assumes "BSLASH \<noteq> delimc" and "copy_unescape c rest = (v, saw1, rest')"
  shows "scan_field delimc (BSLASH # c # rest) out saw = scan_field delimc rest' (out @ [v]) (saw \<or> saw1)"
  using assms by (subst scan_field.simps) (simp only: list.case if_False if_True simp_thms prod.case)

lemma scan_field_bounds:
  "scan_field delimc cur out saw = (out', saw', found, endp, rest) \<Longrightarrow>
   length out' + length endp \<le> length out + length cur \<and> length endp \<le> length cur \<and>
   (found \<longrightarrow> length endp = Suc (length rest)) \<and> (\<not> found \<longrightarrow> rest = [])"
proof (induction "length cur" arbitrary: cur out saw rule: less_induct)
  case less
  consider "cur = []" | cs where "cur = delimc # cs" | c cs where "cur = c # cs" "c \<noteq> delimc" "c \<noteq> BSLASH"
    | "cur = [BSLASH]" "BSLASH \<noteq> delimc" | c cs where "cur = BSLASH # c # cs" "BSLASH \<noteq> delimc"
    by (metis list.exhaust)
  then show ?case
  proof cases
    case (5 c cs)
    obtain v saw1 cs' where u: "copy_unescape c cs = (v, saw1, cs')" by (cases "copy_unescape c cs")
    with 5 less.prems have "scan_field delimc cs' (out @ [v]) (saw \<or> saw1) = (out', saw', found, endp, rest)"
      by (simp add: scan_field_escape)
    with less.hyps [OF _ this] copy_unescape_shorter [OF u] 5 show ?thesis by auto
  qed (use less in \<open>fastforce+\<close>)
qed

text \<open>
  The outer loop: \<open>cap\<close> is the size of \<^verbatim>\<open>attribute_buf\<close>, \<open>used\<close> how much of it is written;
  \<open>max_fields\<close> the size of \<^verbatim>\<open>raw_fields\<close>. A field that matches the null marker before
  de-escaping is NULL; \<open>verify_ok\<close> is the check of de-escaped bytes against the encoding.
\<close>

function read_fields ::
    "(byte list \<Rightarrow> bool) \<Rightarrow> copy_opts \<Rightarrow> nat \<Rightarrow> nat \<Rightarrow> byte list \<Rightarrow> cstring option list \<Rightarrow> nat \<Rightarrow> (cstring option list \<times> nat) res" where
  "read_fields verify_ok opts cap used cur fs max_fields =
     (let max_fields' = (if length fs \<ge> max_fields then max_fields * 2 else max_fields);
          (out, saw, found, endp, rest) = scan_field (delim opts) cur [] False;
          raw = take (length cur - length endp) cur
      in if length fs \<ge> max_fields \<and> 8 * max_fields' > MaxAllocSize
         then Inl (PgError ''invalid memory alloc request size'')
         else if used + length out + 1 > cap then Inl (Undefined OutOfBounds)
         else if raw \<noteq> null_print opts \<and> saw \<and> \<not> verify_ok out
         then Inl (PgError ''invalid byte sequence for encoding'')
         else
           let fs' = fs @ [if raw = null_print opts then None else Some out]
           in if found then read_fields verify_ok opts cap (used + length out + 1) rest fs' max_fields'
              else Inr (fs', max_fields'))"
  by pat_completeness auto

termination
  by (relation "measure (\<lambda>(verify_ok, opts, cap, used, cur, fs, max_fields). length cur)")
    (auto dest!: scan_field_bounds [OF sym])

declare read_fields.simps [simp del]

text \<open>The fields of a line, with the grown \<^verbatim>\<open>attribute_buf\<close> and size of \<^verbatim>\<open>raw_fields\<close>.\<close>

definition CopyReadAttributesText ::
    "(byte list \<Rightarrow> bool) \<Rightarrow> copy_opts \<Rightarrow> byte list \<Rightarrow> StringInfoData \<times> nat \<Rightarrow>
     (cstring option list \<times> StringInfoData \<times> nat) res" where
  "CopyReadAttributesText verify_ok opts line = (\<lambda>(attribute_buf, max_fields).
     if max_fields = 0 then
       (if line \<noteq> [] then Inl (PgError ''extra data after last expected column'')
        else Inr ([], attribute_buf, max_fields))
     else
       bindR (resetStringInfo attribute_buf) (\<lambda>buf.
       bindR (if si_maxlen buf \<le> length line then enlargeStringInfo (int (length line)) buf else Inr buf) (\<lambda>buf.
       bindR (read_fields verify_ok opts (si_maxlen buf) 0 line [] max_fields) (\<lambda>(fs, max_fields).
       Inr (fs, buf, max_fields)))))"

section \<open>Splitting undoes writing\<close>

text \<open>How one character is written.\<close>

definition esc1 :: "byte \<Rightarrow> byte \<Rightarrow> byte list" where
  "esc1 delimc c =
     (case escape_letter c of Some e \<Rightarrow> [BSLASH, e]
      | None \<Rightarrow> if c = BSLASH \<or> c = delimc then [BSLASH, c] else [c])"

definition esc :: "byte \<Rightarrow> cstring \<Rightarrow> byte list" where
  "esc delimc s = concat (map (esc1 delimc) s)"

lemma esc_simps [simp]: "esc delimc [] = []" "esc delimc (c # s) = esc1 delimc c @ esc delimc s"
  by (simp_all add: esc_def)

lemma escape_letter_control: "escape_letter c = Some e \<Longrightarrow> uchar c < 0x20"
  by (auto simp: escape_letter_def split: if_splits)

lemma out_loop_esc: "out_loop delimc s pending out = out @ pending @ esc delimc s"
proof (induction s arbitrary: pending out)
  case (Cons c s)
  have "uchar c < 0x20 \<Longrightarrow> c \<noteq> BSLASH" by auto
  with Cons show ?case
    by (cases "escape_letter c") (simp_all add: esc1_def escape_letter_control)
qed simp

text \<open>The delimiters COPY accepts; the null marker of the synchronisation is the default one.\<close>

definition copy_reserved :: "byte set" where
  "copy_reserved = set ''abcdefghijklmnopqrstuvwxyz0123456789''"

definition opts_ok :: "copy_opts \<Rightarrow> bool" where
  "opts_ok opts \<longleftrightarrow> delim opts \<notin> {NUL, LF, CR, BSLASH, CHR ''.'', CHR ''N''} \<and> delim opts \<notin> copy_reserved \<and>
     null_print opts = [BSLASH, CHR ''N'']"

lemma escape_letter_back: "escape_letter c = Some e \<Longrightarrow> copy_unescape e rest = (c, False, rest)"
  by (auto simp: escape_letter_def copy_unescape_def ISOCTAL_def schar_def split: if_splits)

lemma copy_unescape_literal:
  assumes "c \<notin> copy_reserved"
  shows "copy_unescape c rest = (c, False, rest)"
proof -
  have "\<not> ISOCTAL c"
  proof
    assume "ISOCTAL c"
    then have "uchar c \<in> {48..55}" using uchar_less [of c] by (auto simp: ISOCTAL_def schar_def split: if_splits)
    then have "uchar c \<in> {48, 49, 50, 51, 52, 53, 54, 55}" by auto
    then have "uchar c \<in> uchar ` set ''01234567''" by auto
    then obtain d where "d \<in> set ''01234567''" and "uchar c = uchar d" by (rule imageE)
    then have "c \<in> set ''01234567''" by (simp only: uchar_inject)
    with assms show False by (auto simp: copy_reserved_def)
  qed
  with assms show ?thesis by (auto simp: copy_unescape_def copy_reserved_def)
qed

lemma scan_field_esc1:
  assumes "opts_ok opts"
  shows "scan_field (delim opts) (esc1 (delim opts) c @ rest) out saw = scan_field (delim opts) rest (out @ [c]) saw"
proof (cases "escape_letter c")
  case (Some e)
  with assms show ?thesis
    by (auto simp: esc1_def scan_field_escape [OF _ escape_letter_back [OF Some]] opts_ok_def)
next
  case None
  show ?thesis
  proof (cases "c = BSLASH \<or> c = delim opts")
    case True
    then have "copy_unescape c rest = (c, False, rest)" using assms by (intro copy_unescape_literal) (auto simp: opts_ok_def copy_reserved_def)
    with True None assms show ?thesis by (auto simp: esc1_def scan_field_escape opts_ok_def)
  next
    case False
    with None show ?thesis by (simp add: esc1_def)
  qed
qed

lemma scan_field_esc:
  assumes "opts_ok opts"
  shows "scan_field (delim opts) (esc (delim opts) s @ rest) out saw = scan_field (delim opts) rest (out @ s) saw"
  using assms by (induction s arbitrary: out) (simp_all add: scan_field_esc1)

lemma esc_not_null: "opts_ok opts \<Longrightarrow> esc (delim opts) s \<noteq> null_print opts"
  by (cases s) (auto simp: opts_ok_def esc1_def escape_letter_def append_eq_Cons_conv split: option.splits if_splits)

section \<open>Rows\<close>

text \<open>The texts of a row, NULL as \<^const>\<open>None\<close>, and the line they are written as.\<close>

definition row_texts ::
    "(cstring \<Rightarrow> cstring) \<Rightarrow> (nat \<Rightarrow> 'd \<Rightarrow> cstring) \<Rightarrow> nat list \<Rightarrow> 'd TupleTableSlot \<Rightarrow> cstring option list" where
  "row_texts s2c out_function attnumlist slot =
     map (\<lambda>attno. if tts_isnull slot ! (attno - 1) then None
            else Some (c_str (s2c (out_function attno (tts_values slot ! (attno - 1)))))) attnumlist"

definition field_bytes :: "copy_opts \<Rightarrow> cstring option \<Rightarrow> byte list" where
  "field_bytes opts f = (case f of None \<Rightarrow> null_print opts | Some s \<Rightarrow> esc (delim opts) s)"

fun line_of :: "copy_opts \<Rightarrow> cstring option list \<Rightarrow> byte list" where
  "line_of opts [] = []"
| "line_of opts [f] = field_bytes opts f"
| "line_of opts (f # g # fs) = field_bytes opts f @ delim opts # line_of opts (g # fs)"

lemma send_columns_line:
  "send_columns s2c opts out_function slot need_delim attnos =
     (if need_delim \<and> attnos \<noteq> [] then [delim opts] else []) @ line_of opts (row_texts s2c out_function attnos slot)"
proof (induction attnos arbitrary: need_delim)
  case (Cons attno attnos)
  then show ?case
    by (cases attnos) (simp_all add: row_texts_def field_bytes_def CopyAttributeOutText_def out_loop_esc)
qed (simp add: row_texts_def)

lemma CopyToTextLikeOneRow_line:
  "CopyToTextLikeOneRow s2c opts out_function attnos slot = line_of opts (row_texts s2c out_function attnos slot) @ [LF]"
  by (simp add: CopyToTextLikeOneRow_def send_columns_line)

lemma scan_field_null:
  assumes "opts_ok opts"
  shows "scan_field (delim opts) (null_print opts @ rest) out saw = scan_field (delim opts) rest (out @ ''N'') saw"
proof -
  have "copy_unescape (CHR ''N'') rest = (CHR ''N'', False, rest)" by (rule copy_unescape_literal) (simp add: copy_reserved_def)
  then show ?thesis using assms by (auto simp: opts_ok_def scan_field_escape)
qed

text \<open>What the scan of a written field gives before a delimiter and at the end of the line.\<close>

definition field_out :: "cstring option \<Rightarrow> byte list" where
  "field_out f = (case f of None \<Rightarrow> ''N'' | Some s \<Rightarrow> s)"

lemma scan_field_written:
  assumes "opts_ok opts"
  shows "scan_field (delim opts) (field_bytes opts f @ delim opts # rest) [] False = (field_out f, False, True, delim opts # rest, rest)"
    and "scan_field (delim opts) (field_bytes opts f) [] False = (field_out f, False, False, [], [])"
  using scan_field_esc [OF assms, of _ "delim opts # rest"] scan_field_esc [OF assms, of _ "[]"]
    scan_field_null [OF assms, of "delim opts # rest"] scan_field_null [OF assms, of "[]"]
  by (cases f; simp add: field_bytes_def field_out_def)+

lemma field_out_le: "opts_ok opts \<Longrightarrow> length (field_out f) \<le> length (field_bytes opts f)"
  using scan_field_bounds [OF scan_field_written(2)] by fastforce

lemma field_bytes_null: "opts_ok opts \<Longrightarrow> field_bytes opts f = null_print opts \<longleftrightarrow> f = None"
  by (cases f) (simp_all add: field_bytes_def esc_not_null)

lemma field_read: "opts_ok opts \<Longrightarrow> (if field_bytes opts f = null_print opts then None else Some (field_out f)) = f"
  by (cases f) (simp_all add: field_bytes_null field_out_def)

lemma read_fields_line:
  assumes "opts_ok opts" and "fs \<noteq> []" and "used + length (line_of opts fs) + 1 \<le> cap"
    and "length acc + length fs \<le> max_fields"
  shows "read_fields verify_ok opts cap used (line_of opts fs) acc max_fields = Inr (acc @ fs, max_fields)"
  using assms(2-)
proof (induction fs arbitrary: used acc rule: induct_list012)
  case (2 f)
  then show ?case using field_out_le [OF assms(1), of f]
    by (subst read_fields.simps) (simp add: scan_field_written(2) [OF assms(1)] field_read [OF assms(1)])
next
  case (3 f g fs)
  then show ?case
    using "3.IH"(2) [of "used + length (field_out f) + 1" "acc @ [f]"] "3.prems" field_out_le [OF assms(1), of f]
    by (subst read_fields.simps) (simp add: scan_field_written(1) [OF assms(1)] field_read [OF assms(1)])
qed simp

text \<open>
  Every line is split inside the buffer that was reserved for it: the only failures are a
  line too long to reserve, too many fields, and bytes that are invalid in the encoding.
\<close>

lemma read_fields_safe:
  assumes "used + length cur + 1 \<le> cap"
  shows "read_fields verify_ok opts cap used cur acc max_fields \<noteq> Inl (Undefined u)"
  using assms
proof (induction "length cur" arbitrary: used cur acc max_fields rule: less_induct)
  case less
  obtain out saw found endp rest where sc: "scan_field (delim opts) cur [] False = (out, saw, found, endp, rest)"
    by (cases "scan_field (delim opts) cur [] False")
  from scan_field_bounds [OF sc] less.prems have "used + length out + 1 \<le> cap"
    and "found \<Longrightarrow> length rest < length cur" and "found \<Longrightarrow> used + length out + 1 + length rest + 1 \<le> cap" by auto
  then show ?case using less.hyps by (subst read_fields.simps) (auto simp: sc Let_def)
qed

text \<open>The reserved buffer.\<close>

lemma attribute_buf_reserved:
  assumes "si_wf buf" and "length line < MaxAllocSize"
  obtains buf1 buf2 where "resetStringInfo buf = Inr buf1"
    and "(if si_maxlen buf1 \<le> length line then enlargeStringInfo (int (length line)) buf1 else Inr buf1) = Inr buf2"
    and "si_wf buf2" and "length line < si_maxlen buf2"
proof -
  obtain buf1 where buf1: "resetStringInfo buf = Inr buf1" "si_wf buf1" "si_len buf1 = 0"
    using resetStringInfo_ok [OF assms(1)] by blast
  obtain buf2 where "enlargeStringInfo (int (length line)) buf1 = Inr buf2" "si_wf buf2" "length line < si_maxlen buf2"
    using enlargeStringInfo_ok [OF buf1(2), of "length line"] assms(2) buf1(3) by auto
  with buf1 show thesis by (intro that [of buf1 "if si_maxlen buf1 \<le> length line then buf2 else buf1"]) auto
qed

lemma read_attributes_line:
  assumes "opts_ok opts" and "si_wf buf" and "fs \<noteq> []" and "length fs \<le> max_fields" and "length (line_of opts fs) < MaxAllocSize"
  shows "\<exists>buf'. si_wf buf' \<and> CopyReadAttributesText verify_ok opts (line_of opts fs) (buf, max_fields) = Inr (fs, buf', max_fields)"
proof -
  let ?line = "line_of opts fs"
  obtain buf1 buf2 where buf: "resetStringInfo buf = Inr buf1"
      "(if si_maxlen buf1 \<le> length ?line then enlargeStringInfo (int (length ?line)) buf1 else Inr buf1) = Inr buf2"
      "si_wf buf2" "length ?line < si_maxlen buf2"
    using attribute_buf_reserved [OF assms(2,5)] .
  have "read_fields verify_ok opts (si_maxlen buf2) 0 ?line [] max_fields = Inr (fs, max_fields)"
    using read_fields_line [OF assms(1,3), of 0 "si_maxlen buf2" "[]" max_fields verify_ok] buf(4) assms(4) by simp
  moreover have "max_fields \<noteq> 0" using assms(3,4) by (cases fs) auto
  ultimately show ?thesis using buf by (auto simp: CopyReadAttributesText_def)
qed

text \<open>Claim C15. A row the publisher writes in the text format is split by the subscriber into the texts of its columns:
  NULL stays NULL, and no delimiter, backslash, line end or other control character inside a value is lost or misread.\<close>

theorem copy_row_roundtrip:
  assumes "opts_ok opts" and "si_wf buf" and "attnos \<noteq> []" and "length attnos \<le> max_fields"
    and "CopyToTextLikeOneRow s2c opts out_function attnos slot = line @ [LF]" and "length line < MaxAllocSize"
  shows "\<exists>buf'. si_wf buf' \<and> CopyReadAttributesText verify_ok opts line (buf, max_fields) =
    Inr (row_texts s2c out_function attnos slot, buf', max_fields)"
proof -
  have line: "line = line_of opts (row_texts s2c out_function attnos slot)"
    using assms(5) by (simp add: CopyToTextLikeOneRow_line)
  show ?thesis unfolding line
    using assms(3,4,6) by (intro read_attributes_line [OF assms(1,2)]) (simp_all add: row_texts_def line)
qed

definition tablesync_opts :: copy_opts where
  "tablesync_opts = \<lparr>delim = CHR 0x09, null_print = [BSLASH, CHR ''N'']\<rparr>"

lemma tablesync_opts_ok [simp]: "opts_ok tablesync_opts"
  by (simp add: tablesync_opts_def opts_ok_def copy_reserved_def)

definition demo_buf :: StringInfoData where
  "demo_buf = \<lparr>si_data = replicate 8 None, si_len = 0, si_maxlen = 8, si_cursor = 0\<rparr>"

lemma demo_buf_wf [simp]: "si_wf demo_buf"
  by (simp add: demo_buf_def si_wf_def MaxAllocSize_def)

theorem copy_row_roundtrip_witness:
  "\<exists>buf'. si_wf buf' \<and> CopyReadAttributesText (\<lambda>_. True) tablesync_opts
     [CHR ''a'', BSLASH, CHR ''t'', CHR 0x09, BSLASH, CHR ''N''] (demo_buf, 2) = Inr ([Some [CHR ''a'', CHR 0x09], None], buf', 2)"
proof -
  let ?slot = "\<lparr>tts_values = [[CHR ''a'', CHR 0x09], []], tts_isnull = [False, True]\<rparr>"
  have texts: "row_texts (\<lambda>s. s) (\<lambda>_ s. s) [1, 2] ?slot = [Some [CHR ''a'', CHR 0x09], None]"
    by (simp add: row_texts_def c_str_def)
  have "CopyToTextLikeOneRow (\<lambda>s. s) tablesync_opts (\<lambda>_ s. s) [1, 2] ?slot =
      [CHR ''a'', BSLASH, CHR ''t'', CHR 0x09, BSLASH, CHR ''N''] @ [LF]"
    by (simp add: CopyToTextLikeOneRow_def CopyAttributeOutText_def tablesync_opts_def c_str_def escape_letter_def)
  from copy_row_roundtrip [OF tablesync_opts_ok demo_buf_wf _ _ this, where max_fields = 2 and verify_ok = "\<lambda>_. True"]
  show ?thesis unfolding texts by (simp add: MaxAllocSize_def)
qed

text \<open>Claim C19. Whatever line arrives, the splitter stays inside the buffer it has reserved: it returns fields or reports
  an error, although it de-escapes without checking for space.\<close>

theorem split_stays_in_buffer:
  assumes "si_wf buf"
  shows "CopyReadAttributesText verify_ok opts line (buf, max_fields) \<noteq> Inl (Undefined u)"
proof (cases "length line < MaxAllocSize")
  case True
  obtain buf1 buf2 where "resetStringInfo buf = Inr buf1"
      "(if si_maxlen buf1 \<le> length line then enlargeStringInfo (int (length line)) buf1 else Inr buf1) = Inr buf2"
      "length line < si_maxlen buf2"
    using attribute_buf_reserved [OF assms True] by blast
  moreover from this(3) have "read_fields verify_ok opts (si_maxlen buf2) 0 line [] max_fields \<noteq> Inl (Undefined u)"
    by (intro read_fields_safe) simp
  ultimately show ?thesis
    by (cases "read_fields verify_ok opts (si_maxlen buf2) 0 line [] max_fields") (auto simp: CopyReadAttributesText_def)
next
  case False
  obtain buf1 where "resetStringInfo buf = Inr buf1" "si_wf buf1" "si_len buf1 = 0"
    using resetStringInfo_ok [OF assms] by blast
  moreover from this have "si_maxlen buf1 \<le> length line" using False by (simp add: si_wf_def)
  moreover have "enlargeStringInfo (int (length line)) buf1 = Inl (PgError ''string buffer exceeds maximum allowed length'')"
    using calculation False by (intro enlargeStringInfo_full) simp_all
  ultimately show ?thesis by (simp add: CopyReadAttributesText_def)
qed

theorem split_stays_in_buffer_witness:
  "CopyReadAttributesText (\<lambda>_. False) tablesync_opts [BSLASH, CHR ''x'', CHR ''8'', CHR ''0'', BSLASH] (demo_buf, 2) \<noteq> Inl (Undefined OutOfBounds)"
  by (rule split_stays_in_buffer) simp

end
