(* ===== verification/StartCommand.thy ===== *)
theory StartCommand
  imports ApplyWorker CopyText
begin

text \<open>
  How the subscriber asks for a stream: the options it derives from the subscription
  (\<^verbatim>\<open>set_stream_options\<close> of \<^verbatim>\<open>worker.c\<close>), the replication command it writes
  (\<^verbatim>\<open>libpqwalreceiver.c\<close>, with the escaping of \<^verbatim>\<open>src/interfaces/libpq/fe-exec.c\<close>), and the scanner
  and grammar with which the publisher reads the command (\<^verbatim>\<open>repl_scanner.l\<close>, \<^verbatim>\<open>repl_gram.y\<close>).
\<close>

abbreviation SQUOTE :: byte where "SQUOTE \<equiv> CHR 0x27"
abbreviation DBLQUOTE :: byte where "DBLQUOTE \<equiv> CHR 0x22"
abbreviation NAMEDATALEN :: nat where "NAMEDATALEN \<equiv> 64"

section \<open>Options of the subscription\<close>

text \<open>The arm of the union for logical replication.\<close>

record WalRcvStreamOptions =
  wo_slotname :: cstring
  wo_startpoint :: XLogRecPtr
  wo_proto_version :: "32 word"
  wo_publication_names :: "cstring list"
  wo_binary :: bool
  wo_streaming_str :: "cstring option"
  wo_twophase :: bool
  wo_origin :: "cstring option"

text \<open>The second result is the flag \<^verbatim>\<open>parallel_apply\<close> of the worker.\<close>

definition set_stream_options :: "int \<Rightarrow> Subscription \<Rightarrow> cstring \<Rightarrow> XLogRecPtr \<Rightarrow> WalRcvStreamOptions \<times> bool" where
  "set_stream_options server_version sub slotname origin_startpos =
     (let proto_version = (if 160000 \<le> server_version then 4 else if 150000 \<le> server_version then 3 else if 140000 \<le> server_version then 2 else 1);
          (streaming_str, parallel_apply) =
            (if 160000 \<le> server_version \<and> sub_stream sub = CHR ''p'' then (Some ''parallel'', True)
             else if 140000 \<le> server_version \<and> sub_stream sub \<noteq> CHR ''f'' then (Some ''on'', False)
             else (None, False))
      in (\<lparr>wo_slotname = slotname, wo_startpoint = origin_startpos, wo_proto_version = proto_version,
           wo_publication_names = sub_publications sub, wo_binary = sub_binary sub, wo_streaming_str = streaming_str,
           wo_twophase = False, wo_origin = Some (sub_origin sub)\<rparr>, parallel_apply))"

section \<open>Escaping\<close>

text \<open>The encoding of the connection: lengths of characters and the check for valid text.\<close>

record client_encoding =
  pg_encoding_mblen :: "byte list \<Rightarrow> nat"
  pg_encoding_mblen_or_incomplete :: "byte list \<Rightarrow> nat"
  pg_encoding_verifymbstr :: "byte list \<Rightarrow> nat"

text \<open>The first pass counts quotes and backslashes; \<^const>\<open>None\<close> for invalid text.\<close>

function escape_scan :: "client_encoding \<Rightarrow> byte \<Rightarrow> bool \<Rightarrow> byte list \<Rightarrow> (nat \<times> nat) option" where
  "escape_scan enc quote_char validated_mb [] = Some (0, 0)"
| "escape_scan enc quote_char validated_mb (c # s) =
     (if c = quote_char then map_option (\<lambda>(q, b). (Suc q, b)) (escape_scan enc quote_char validated_mb s)
      else if c = BSLASH then map_option (\<lambda>(q, b). (q, Suc b)) (escape_scan enc quote_char validated_mb s)
      else if IS_HIGHBIT_SET c then
        (let charlen = pg_encoding_mblen_or_incomplete enc (c # s)
         in if length (c # s) < charlen then None
            else if \<not> validated_mb \<and> pg_encoding_verifymbstr enc (c # s) \<noteq> length (c # s) then None
            else escape_scan enc quote_char True (drop (charlen - 1) s))
      else escape_scan enc quote_char validated_mb s)"
  by pat_completeness auto

termination by (relation "measure (length \<circ> snd \<circ> snd \<circ> snd)") auto

text \<open>The second pass copies, doubling what is special; a multibyte character is copied as a whole.\<close>

function escape_copy :: "client_encoding \<Rightarrow> byte \<Rightarrow> bool \<Rightarrow> byte list \<Rightarrow> byte list" where
  "escape_copy enc quote_char as_ident [] = []"
| "escape_copy enc quote_char as_ident (c # s) =
     (if c = quote_char \<or> \<not> as_ident \<and> c = BSLASH then c # c # escape_copy enc quote_char as_ident s
      else if \<not> IS_HIGHBIT_SET c then c # escape_copy enc quote_char as_ident s
      else let i = pg_encoding_mblen enc (c # s) in c # take (i - 1) s @ escape_copy enc quote_char as_ident (drop (i - 1) s))"
  by pat_completeness auto

termination by (relation "measure (length \<circ> snd \<circ> snd \<circ> snd)") auto

definition PQescapeInternal :: "client_encoding \<Rightarrow> cstring \<Rightarrow> bool \<Rightarrow> cstring option" where
  "PQescapeInternal enc str as_ident =
     (let quote_char = (if as_ident then DBLQUOTE else SQUOTE)
      in case escape_scan enc quote_char False str of
           None \<Rightarrow> None
         | Some (num_quotes, num_backslashes) \<Rightarrow>
             Some ((if \<not> as_ident \<and> 0 < num_backslashes then '' E'' else []) @ quote_char #
               (if num_quotes = 0 \<and> (num_backslashes = 0 \<or> as_ident) then str else escape_copy enc quote_char as_ident str) @ [quote_char]))"

definition PQescapeLiteral :: "client_encoding \<Rightarrow> cstring \<Rightarrow> cstring option" where
  "PQescapeLiteral enc str = PQescapeInternal enc str False"

definition PQescapeIdentifier :: "client_encoding \<Rightarrow> cstring \<Rightarrow> cstring option" where
  "PQescapeIdentifier enc str = PQescapeInternal enc str True"

text \<open>The loop over the names; \<open>first\<close> tells that no name has been written yet.\<close>

fun identifierstr_loop :: "client_encoding \<Rightarrow> bool \<Rightarrow> cstring list \<Rightarrow> cstring option" where
  "identifierstr_loop enc first [] = Some []"
| "identifierstr_loop enc first (val # vals) =
     (case PQescapeIdentifier enc val of
        None \<Rightarrow> None
      | Some val_escaped \<Rightarrow> map_option (\<lambda>res. (if first then [] else '','') @ val_escaped @ res) (identifierstr_loop enc False vals))"

definition stringlist_to_identifierstr :: "client_encoding \<Rightarrow> cstring list \<Rightarrow> cstring option" where
  "stringlist_to_identifierstr enc strings = identifierstr_loop enc True strings"

section \<open>The command\<close>

text \<open>What \<^verbatim>\<open>printf\<close> writes for \<^verbatim>\<open>%X\<close>.\<close>

definition hex_upper :: "nat \<Rightarrow> byte" where
  "hex_upper n = (if n < 10 then char_of (48 + n) else char_of (55 + n))"

fun show_hex :: "nat \<Rightarrow> string" where
  "show_hex n = (if n < 16 then [hex_upper n] else show_hex (n div 16) @ [hex_upper (n mod 16)])"

declare show_hex.simps [simp del]

definition quoted_option :: "cstring \<Rightarrow> cstring \<Rightarrow> cstring" where
  "quoted_option name val = name @ '' '' @ [SQUOTE] @ val @ [SQUOTE]"

text \<open>The text sent for logical replication.\<close>

definition startstreaming_command :: "client_encoding \<Rightarrow> int \<Rightarrow> WalRcvStreamOptions \<Rightarrow> cstring res" where
  "startstreaming_command enc server_version options =
     (case stringlist_to_identifierstr enc (wo_publication_names options) of
        None \<Rightarrow> Inl (PgError ''could not start WAL streaming'')
      | Some pubnames_str \<Rightarrow>
          (case PQescapeLiteral enc pubnames_str of
             None \<Rightarrow> Inl (PgError ''could not start WAL streaming'')
           | Some pubnames_literal \<Rightarrow>
               Inr (''START_REPLICATION SLOT '' @ [DBLQUOTE] @ wo_slotname options @ [DBLQUOTE] @ '' LOGICAL '' @
                 show_hex (unat (drop_bit 32 (wo_startpoint options))) @ ''/'' @ show_hex (unat (take_bit 32 (wo_startpoint options))) @ '' ('' @
                 quoted_option ''proto_version'' (show_nat (unat (wo_proto_version options))) @
                 (case wo_streaming_str options of Some str \<Rightarrow> '', '' @ quoted_option ''streaming'' str | None \<Rightarrow> []) @
                 (if wo_twophase options \<and> 150000 \<le> server_version then '', '' @ quoted_option ''two_phase'' ''on'' else []) @
                 (case wo_origin options of Some origin \<Rightarrow> if 160000 \<le> server_version then '', '' @ quoted_option ''origin'' origin else [] | None \<Rightarrow> []) @
                 '', publication_names '' @ pubnames_literal @
                 (if wo_binary options \<and> 140000 \<le> server_version then '', '' @ quoted_option ''binary'' ''true'' else []) @
                 '')'')))"

section \<open>Scanner\<close>

definition scanner_isspace :: "byte \<Rightarrow> bool" where
  "scanner_isspace ch \<longleftrightarrow> ch \<in> {CHR '' '', CHR 0x09, CHR 0x0A, CHR 0x0D, CHR 0x0B, CHR 0x0C}"

definition is_hexdigit :: "byte \<Rightarrow> bool" where
  "is_hexdigit c \<longleftrightarrow> is_digit c \<or> 65 \<le> uchar c \<and> uchar c \<le> 70 \<or> 97 \<le> uchar c \<and> uchar c \<le> 102"

definition ident_start :: "byte \<Rightarrow> bool" where
  "ident_start c \<longleftrightarrow> 65 \<le> uchar c \<and> uchar c \<le> 90 \<or> 97 \<le> uchar c \<and> uchar c \<le> 122 \<or> 128 \<le> uchar c \<or> c = CHR ''_''"

definition ident_cont :: "byte \<Rightarrow> bool" where
  "ident_cont c \<longleftrightarrow> ident_start c \<or> is_digit c \<or> c = CHR ''$''"

datatype repl_token = KEYWORD cstring | IDENT cstring | SCONST cstring | UCONST "32 word" | RECPTR XLogRecPtr | CHARTOK byte

definition repl_keywords :: "cstring list" where
  "repl_keywords = [''BASE_BACKUP'', ''IDENTIFY_SYSTEM'', ''READ_REPLICATION_SLOT'', ''SHOW'', ''TIMELINE'', ''START_REPLICATION'',
     ''CREATE_REPLICATION_SLOT'', ''DROP_REPLICATION_SLOT'', ''ALTER_REPLICATION_SLOT'', ''TIMELINE_HISTORY'', ''PHYSICAL'', ''RESERVE_WAL'',
     ''LOGICAL'', ''SLOT'', ''TEMPORARY'', ''TWO_PHASE'', ''EXPORT_SNAPSHOT'', ''NOEXPORT_SNAPSHOT'', ''USE_SNAPSHOT'', ''WAIT'', ''UPLOAD_MANIFEST'']"

text \<open>
  Identifiers of the server: the end of the last character within 63 bytes, whether a character
  of its encoding is one byte, and the character classes of the locale.
\<close>

record ident_rules =
  pg_mbcliplen :: "cstring \<Rightarrow> nat"
  enc_is_single_byte :: bool
  locale_isupper :: "byte \<Rightarrow> bool"
  locale_tolower :: "byte \<Rightarrow> byte"

definition truncate_identifier :: "ident_rules \<Rightarrow> cstring \<Rightarrow> cstring" where
  "truncate_identifier rules ident = (if NAMEDATALEN \<le> length ident then take (pg_mbcliplen rules ident) ident else ident)"

definition ascii_lower :: "byte \<Rightarrow> byte" where
  "ascii_lower ch = (if 65 \<le> uchar ch \<and> uchar ch \<le> 90 then char_of (uchar ch + 32) else ch)"

definition downcase_char :: "ident_rules \<Rightarrow> byte \<Rightarrow> byte" where
  "downcase_char rules ch = (if 65 \<le> uchar ch \<and> uchar ch \<le> 90 then ascii_lower ch
     else if enc_is_single_byte rules \<and> IS_HIGHBIT_SET ch \<and> locale_isupper rules ch then locale_tolower rules ch else ch)"

definition downcase_truncate_identifier :: "ident_rules \<Rightarrow> cstring \<Rightarrow> cstring" where
  "downcase_truncate_identifier rules ident =
     truncate_identifier rules (map (downcase_char rules) ident)"

text \<open>A text between quotes, behind the opening one; two quotes stand for one.\<close>

fun quoted_until :: "byte \<Rightarrow> byte list \<Rightarrow> (cstring \<times> byte list) option" where
  "quoted_until q [] = None"
| "quoted_until q (c # cs) =
     (if c \<noteq> q then map_option (\<lambda>(s, rest). (c # s, rest)) (quoted_until q cs)
      else case cs of [] \<Rightarrow> Some ([], [])
        | d # ds \<Rightarrow> if d = q then map_option (\<lambda>(s, rest). (q # s, rest)) (quoted_until q ds) else Some ([], cs))"

definition hexdigit_value :: "byte \<Rightarrow> nat" where
  "hexdigit_value c = (if is_digit c then uchar c - 48 else if uchar c \<le> 70 then uchar c - 55 else uchar c - 87)"

definition number_value :: "nat \<Rightarrow> cstring \<Rightarrow> nat" where
  "number_value base ds = foldl (\<lambda>a c. a * base + hexdigit_value c) 0 ds"

text \<open>A number that does not fit an \<^verbatim>\<open>unsigned long\<close> becomes the largest one.\<close>

definition ulong_value :: "nat \<Rightarrow> cstring \<Rightarrow> nat" where
  "ulong_value base ds = min (number_value base ds) (2 ^ 64 - 1)"

definition recptr_match :: "byte list \<Rightarrow> (cstring \<times> cstring \<times> byte list) option" where
  "recptr_match s =
     (let hi = takeWhile is_hexdigit s; rest = dropWhile is_hexdigit s
      in if hi \<noteq> [] \<and> rest \<noteq> [] \<and> hd rest = CHR ''/'' \<and> takeWhile is_hexdigit (tl rest) \<noteq> []
         then Some (hi, takeWhile is_hexdigit (tl rest), dropWhile is_hexdigit (tl rest)) else None)"

text \<open>The next token and the text behind it; \<^const>\<open>None\<close> at the end of the command.\<close>

definition replication_yylex :: "ident_rules \<Rightarrow> byte list \<Rightarrow> (repl_token \<times> byte list) option res" where
  "replication_yylex rules inp =
     (case dropWhile scanner_isspace inp of
        [] \<Rightarrow> Inr None
      | c # cs \<Rightarrow>
          (case recptr_match (c # cs) of
             Some (hi, lo, rest) \<Rightarrow>
               Inr (Some (RECPTR (word_cat (of_nat (ulong_value 16 hi) :: 32 word) (of_nat (ulong_value 16 lo) :: 32 word)), rest))
           | None \<Rightarrow>
               if is_digit c then Inr (Some (UCONST (of_nat (ulong_value 10 (takeWhile is_digit (c # cs)))), dropWhile is_digit (c # cs)))
               else if c = SQUOTE then
                 (case quoted_until SQUOTE cs of
                    None \<Rightarrow> Inl (PgError ''unterminated quoted string'')
                  | Some (lit, rest) \<Rightarrow> Inr (Some (SCONST lit, rest)))
               else if c = DBLQUOTE then
                 (if DBLQUOTE \<in> set cs
                  then Inr (Some (IDENT (truncate_identifier rules (takeWhile (\<lambda>d. d \<noteq> DBLQUOTE) cs)), tl (dropWhile (\<lambda>d. d \<noteq> DBLQUOTE) cs)))
                  else Inl (PgError ''unterminated quoted string''))
               else if ident_start c then
                 (let word = takeWhile ident_cont (c # cs)
                  in Inr (Some (if word \<in> set repl_keywords then KEYWORD word else IDENT (downcase_truncate_identifier rules word),
                       dropWhile ident_cont (c # cs))))
               else Inr (Some (CHARTOK c, cs))))"

lemma quoted_until_shorter: "quoted_until q cs = Some (s, rest) \<Longrightarrow> length rest \<le> length cs"
  by (induction q cs arbitrary: s rest rule: quoted_until.induct) (fastforce split: if_splits list.splits)+

lemma recptr_match_shorter:
  assumes "recptr_match s = Some (hi, lo, rest)"
  shows "length rest < length s"
proof -
  let ?r = "dropWhile is_hexdigit s"
  have "?r \<noteq> []" "rest = dropWhile is_hexdigit (tl ?r)" using assms by (auto simp: recptr_match_def Let_def split: if_splits)
  moreover have "length ?r \<le> length s" "length (dropWhile is_hexdigit (tl ?r)) \<le> length (tl ?r)" by (rule length_dropWhile_le)+
  ultimately show ?thesis by (cases ?r) auto
qed

lemma yylex_shorter:
  assumes "replication_yylex rules inp = Inr (Some (tok, rest))"
  shows "length rest < length inp"
proof -
  obtain c cs where c: "dropWhile scanner_isspace inp = c # cs" using assms by (cases "dropWhile scanner_isspace inp") (auto simp: replication_yylex_def)
  have le: "Suc (length cs) \<le> length inp" using length_dropWhile_le [of scanner_isspace inp] c by simp
  have d: "length (dropWhile P (c # cs)) \<le> length cs" if "P c" for P using that length_dropWhile_le [of P cs] by simp
  have q: "length (tl (dropWhile (\<lambda>d. d \<noteq> DBLQUOTE) cs)) \<le> length cs"
    using length_dropWhile_le [of "\<lambda>d. d \<noteq> DBLQUOTE" cs] by (simp add: diff_le_mono order_trans [of _ "length (dropWhile (\<lambda>d. d \<noteq> DBLQUOTE) cs)"])
  have "length rest \<le> length cs"
  proof (cases "recptr_match (c # cs)")
    case None
    then show ?thesis using assms c d [of is_digit] d [of ident_cont] q
      by (auto simp: replication_yylex_def ident_cont_def Let_def dest: quoted_until_shorter split: if_splits option.splits)
  next
    case (Some m)
    then show ?thesis using assms c recptr_match_shorter [of "c # cs"] by (cases m) (auto simp: replication_yylex_def)
  qed
  with le show ?thesis by simp
qed

function repl_scan :: "ident_rules \<Rightarrow> byte list \<Rightarrow> repl_token list res" where
  "repl_scan rules inp =
     (case replication_yylex rules inp of
        Inl e \<Rightarrow> Inl e
      | Inr None \<Rightarrow> Inr []
      | Inr (Some (tok, rest)) \<Rightarrow> bindR (repl_scan rules rest) (\<lambda>toks. Inr (tok # toks)))"
  by pat_completeness auto

termination by (relation "measure (length \<circ> snd)") (auto dest: yylex_shorter)

declare repl_scan.simps [simp del]

section \<open>Grammar\<close>

record DefElem =
  defname :: cstring
  de_arg :: "cstring option"

definition plugin_opt_arg :: "repl_token list \<Rightarrow> cstring option \<times> repl_token list" where
  "plugin_opt_arg toks = (case toks of SCONST val # rest \<Rightarrow> (Some val, rest) | _ \<Rightarrow> (None, toks))"

lemma plugin_opt_arg_shorter: "plugin_opt_arg toks = (val, rest) \<Longrightarrow> length rest \<le> length toks"
  by (auto simp: plugin_opt_arg_def split: list.splits repl_token.splits)

function plugin_opt_list :: "repl_token list \<Rightarrow> (DefElem list \<times> repl_token list) res" where
  "plugin_opt_list toks =
     (case toks of
        IDENT name # toks2 \<Rightarrow>
          (case plugin_opt_arg toks2 of
             (val, CHARTOK c # toks3) \<Rightarrow>
               if c = CHR '','' then bindR (plugin_opt_list toks3) (\<lambda>(opts, rest). Inr (\<lparr>defname = name, de_arg = val\<rparr> # opts, rest))
               else Inr ([\<lparr>defname = name, de_arg = val\<rparr>], CHARTOK c # toks3)
           | (val, rest) \<Rightarrow> Inr ([\<lparr>defname = name, de_arg = val\<rparr>], rest))
      | _ \<Rightarrow> Inl (PgError ''syntax error''))"
  by pat_completeness auto

termination by (relation "measure length") (auto dest!: sym [of _ "plugin_opt_arg _"] plugin_opt_arg_shorter)

declare plugin_opt_list.simps [simp del]

text \<open>The options, and the semicolon that may end a command.\<close>

definition plugin_options :: "repl_token list \<Rightarrow> (DefElem list \<times> repl_token list) res" where
  "plugin_options toks =
     (case toks of
        CHARTOK c # toks2 \<Rightarrow>
          if c = CHR ''('' then
            bindR (plugin_opt_list toks2) (\<lambda>(opts, rest).
              case rest of CHARTOK d # rest \<Rightarrow> if d = CHR '')'' then Inr (opts, rest) else Inl (PgError ''syntax error'') | _ \<Rightarrow> Inl (PgError ''syntax error''))
          else Inr ([], toks)
      | _ \<Rightarrow> Inr ([], toks))"

definition start_logical_replication :: "repl_token list \<Rightarrow> (cstring \<times> XLogRecPtr \<times> DefElem list) res" where
  "start_logical_replication toks =
     (case toks of
        KEYWORD k1 # KEYWORD k2 # IDENT slot # KEYWORD k3 # RECPTR startpoint # toks2 \<Rightarrow>
          if k1 = ''START_REPLICATION'' \<and> k2 = ''SLOT'' \<and> k3 = ''LOGICAL'' then
            bindR (plugin_options toks2) (\<lambda>(opts, rest).
              if rest = [] \<or> rest = [CHARTOK (CHR '';'')] then Inr (slot, startpoint, opts) else Inl (PgError ''syntax error''))
          else Inl (PgError ''syntax error'')
      | _ \<Rightarrow> Inl (PgError ''syntax error''))"

text \<open>Of the grammar only the production for logical streams is modelled; the texts of other commands are outside of this definition.\<close>

definition replication_parse :: "ident_rules \<Rightarrow> cstring \<Rightarrow> (cstring \<times> XLogRecPtr \<times> DefElem list) res" where
  "replication_parse rules cmd = bindR (repl_scan rules cmd) start_logical_replication"

section \<open>Escaped text\<close>

text \<open>
  Valid text of an encoding in which every byte of a multibyte character has its high bit set,
  such as UTF-8.
\<close>

function valid_text :: "client_encoding \<Rightarrow> byte list \<Rightarrow> bool" where
  "valid_text enc [] \<longleftrightarrow> True"
| "valid_text enc (c # s) \<longleftrightarrow>
     (if IS_HIGHBIT_SET c then
        (let n = pg_encoding_mblen enc (c # s)
         in n \<le> length (c # s) \<and> pg_encoding_mblen_or_incomplete enc (c # s) = n \<and> pg_encoding_verifymbstr enc (c # s) = length (c # s) \<and>
            list_all IS_HIGHBIT_SET (take (n - 1) s) \<and> valid_text enc (drop (n - 1) s))
      else valid_text enc s)"
  by pat_completeness auto

termination by (relation "measure (length \<circ> snd)") auto

definition doubled :: "byte \<Rightarrow> byte list \<Rightarrow> byte list" where
  "doubled q s = concat (map (\<lambda>c. if c = q then [q, q] else [c]) s)"

lemma doubled_append: "doubled q (s @ t) = doubled q s @ doubled q t"
  by (simp add: doubled_def)

lemma doubled_absent: "q \<notin> set s \<Longrightarrow> doubled q s = s"
  by (induction s) (auto simp: doubled_def)

lemma highbit_ascii: "IS_HIGHBIT_SET c \<Longrightarrow> c \<noteq> SQUOTE \<and> c \<noteq> DBLQUOTE \<and> c \<noteq> BSLASH"
  by (auto simp: IS_HIGHBIT_SET_def)

lemma highbit_absent: "list_all IS_HIGHBIT_SET s \<Longrightarrow> q \<in> {SQUOTE, DBLQUOTE, BSLASH} \<Longrightarrow> q \<notin> set s"
  using highbit_ascii by (auto simp: list_all_iff)

lemma escape_scan_valid:
  assumes "valid_text enc s" and "q \<in> {SQUOTE, DBLQUOTE}"
  shows "escape_scan enc q validated s = Some (count_list s q, count_list s BSLASH)"
  using assms
proof (induction enc q validated s rule: escape_scan.induct)
  case (2 enc q validated c s)
  have q: "q \<in> {SQUOTE, DBLQUOTE}" "q \<noteq> BSLASH" using "2.prems"(2) by auto
  show ?case
  proof (cases "IS_HIGHBIT_SET c")
    case True
    let ?n = "pg_encoding_mblen enc (c # s) - 1"
    have c: "c \<noteq> q" "c \<noteq> BSLASH" using highbit_ascii [OF True] q by auto
    have v: "list_all IS_HIGHBIT_SET (take ?n s)" "valid_text enc (drop ?n s)"
      "pg_encoding_mblen_or_incomplete enc (c # s) = pg_encoding_mblen enc (c # s)" "pg_encoding_mblen enc (c # s) \<le> length (c # s)"
      "pg_encoding_verifymbstr enc (c # s) = length (c # s)" using "2.prems"(1) True by (simp_all add: Let_def)
    have skip: "count_list (drop ?n s) x = count_list s x" if "x \<in> {SQUOTE, DBLQUOTE, BSLASH}" for x
    proof -
      have "count_list (take ?n s) x = 0" using highbit_absent [OF v(1) that] by (simp add: count_list_0_iff)
      then show ?thesis using count_list_append [of "take ?n s" "drop ?n s" x] by simp
    qed
    have "escape_scan enc q True (drop ?n s) = Some (count_list (drop ?n s) q, count_list (drop ?n s) BSLASH)"
      using "2.IH"(3) [OF c True refl] v q(1) by (simp add: not_less)
    then show ?thesis using c True v skip q(1) by (auto simp: Let_def)
  next
    case False
    then show ?thesis using 2 q(2) by (auto simp: Let_def)
  qed
qed simp

definition escaped :: "byte \<Rightarrow> bool \<Rightarrow> byte list \<Rightarrow> byte list" where
  "escaped q as_ident s = doubled q (if as_ident then s else doubled BSLASH s)"

lemma escaped_append: "escaped q as_ident (s @ t) = escaped q as_ident s @ escaped q as_ident t"
  by (simp add: escaped_def doubled_append)

lemma escaped_highbit: "list_all IS_HIGHBIT_SET s \<Longrightarrow> q \<in> {SQUOTE, DBLQUOTE} \<Longrightarrow> escaped q as_ident s = s"
  using highbit_absent [of s q] highbit_absent [of s BSLASH] by (auto simp: escaped_def doubled_absent)

lemma escaped_Cons:
  "q \<noteq> BSLASH \<Longrightarrow> escaped q as_ident (c # s) = (if c = q \<or> \<not> as_ident \<and> c = BSLASH then [c, c] else [c]) @ escaped q as_ident s"
  by (auto simp: escaped_def doubled_def)

lemma escape_copy_valid:
  assumes "valid_text enc s" and "q \<in> {SQUOTE, DBLQUOTE}"
  shows "escape_copy enc q as_ident s = escaped q as_ident s"
  using assms
proof (induction enc q as_ident s rule: escape_copy.induct)
  case (2 enc q as_ident c s)
  have q: "q \<noteq> BSLASH" using "2.prems"(2) by auto
  show ?case
  proof (cases "IS_HIGHBIT_SET c")
    case True
    let ?n = "pg_encoding_mblen enc (c # s) - 1"
    have c: "c \<noteq> q" "c \<noteq> BSLASH" using highbit_ascii [OF True] "2.prems"(2) by auto
    have v: "list_all IS_HIGHBIT_SET (take ?n s)" "valid_text enc (drop ?n s)" using "2.prems"(1) True by (simp_all add: Let_def)
    have "escaped q as_ident s = take ?n s @ escaped q as_ident (drop ?n s)"
      using escaped_append [of q as_ident "take ?n s" "drop ?n s"] escaped_highbit [OF v(1) "2.prems"(2)] by simp
    moreover have "escape_copy enc q as_ident (drop ?n s) = escaped q as_ident (drop ?n s)"
      using "2.IH"(3) [OF _ _ refl v(2) "2.prems"(2)] c True by simp
    ultimately show ?thesis using c True by (simp add: escaped_Cons [OF q] Let_def)
  next
    case False
    then show ?thesis using 2 by (auto simp: escaped_Cons [OF q])
  qed
qed (simp add: escaped_def doubled_def)

lemma escaped_identifier: "valid_text enc s \<Longrightarrow> PQescapeIdentifier enc s = Some (DBLQUOTE # doubled DBLQUOTE s @ [DBLQUOTE])"
  by (simp add: PQescapeIdentifier_def PQescapeInternal_def escape_scan_valid escape_copy_valid escaped_def doubled_absent count_list_0_iff Let_def)

lemma escaped_literal:
  "valid_text enc s \<Longrightarrow> BSLASH \<notin> set s \<Longrightarrow> PQescapeLiteral enc s = Some (SQUOTE # doubled SQUOTE s @ [SQUOTE])"
  by (simp add: PQescapeLiteral_def PQescapeInternal_def escape_scan_valid escape_copy_valid escaped_def doubled_absent count_list_0_iff Let_def)

text \<open>A backslash turns a literal into an escape string.\<close>

lemma escaped_backslash:
  "valid_text enc s \<Longrightarrow> BSLASH \<in> set s \<Longrightarrow>
    PQescapeLiteral enc s = Some ('' E'' @ SQUOTE # doubled SQUOTE (doubled BSLASH s) @ [SQUOTE])"
  using count_list_0_iff [of s BSLASH]
  by (simp add: PQescapeLiteral_def PQescapeInternal_def escape_scan_valid escape_copy_valid escaped_def Let_def)

lemma quoted_until_doubled:
  assumes "rest = [] \<or> hd rest \<noteq> q"
  shows "quoted_until q (doubled q s @ q # rest) = Some (s, rest)"
proof (induction s)
  case Nil
  with assms show ?case by (cases rest) (auto simp: doubled_def)
qed (auto simp: doubled_def)

section \<open>Scanning what was written\<close>

lemma scan_token:
  "replication_yylex rules inp = Inr (Some (tok, rest)) \<Longrightarrow> repl_scan rules inp = bindR (repl_scan rules rest) (\<lambda>toks. Inr (tok # toks))"
  by (subst repl_scan.simps) simp

lemma scan_end: "repl_scan rules [] = Inr []"
  by (subst repl_scan.simps) (simp add: replication_yylex_def)

lemma scan_space:
  assumes "scanner_isspace c"
  shows "repl_scan rules (c # inp) = repl_scan rules inp"
proof -
  have "replication_yylex rules (c # inp) = replication_yylex rules inp" using assms by (simp add: replication_yylex_def)
  then show ?thesis by (simp add: repl_scan.simps [of rules "c # inp"] repl_scan.simps [of rules inp])
qed

lemma takeWhile_word:
  assumes "list_all P w" and "rest = [] \<or> \<not> P (hd rest)"
  shows "takeWhile P (w @ rest) = w" "dropWhile P (w @ rest) = rest"
proof -
  have "takeWhile P rest = []" "dropWhile P rest = rest" using assms(2) by (cases rest; auto)+
  moreover have "\<forall>x \<in> set w. P x" using assms(1) by (simp add: list_all_iff)
  ultimately show "takeWhile P (w @ rest) = w" "dropWhile P (w @ rest) = rest" by (simp_all add: takeWhile_append2 dropWhile_append2)
qed

text \<open>What may follow a word without becoming part of it, nor making a position of it.\<close>

definition ends_word :: "byte list \<Rightarrow> bool" where
  "ends_word rest \<longleftrightarrow> rest = [] \<or> \<not> ident_cont (hd rest) \<and> hd rest \<noteq> CHR ''/''"

lemma hexdigit_cont: "is_hexdigit c \<Longrightarrow> ident_cont c"
  by (auto simp: is_hexdigit_def ident_cont_def ident_start_def)

lemma slash_not_cont: "\<not> ident_cont (CHR ''/'')"
  by (simp add: ident_cont_def ident_start_def is_digit_def)

lemma word_no_recptr:
  assumes "list_all ident_cont w" and "ends_word rest"
  shows "recptr_match (w @ rest) = None"
proof -
  have "dropWhile is_hexdigit (w @ rest) = [] \<or> hd (dropWhile is_hexdigit (w @ rest)) \<noteq> CHR ''/''"
    using assms
  proof (induction w)
    case Nil
    then show ?case using hexdigit_cont by (cases rest) (auto simp: ends_word_def)
  next
    case (Cons c w)
    then show ?case using slash_not_cont by auto
  qed
  then show ?thesis by (auto simp: recptr_match_def Let_def)
qed

definition word_token :: "ident_rules \<Rightarrow> cstring \<Rightarrow> repl_token" where
  "word_token rules w = (if w \<in> set repl_keywords then KEYWORD w else IDENT (downcase_truncate_identifier rules w))"

lemma ident_start_kinds: "ident_start c \<Longrightarrow> \<not> scanner_isspace c \<and> \<not> is_digit c \<and> c \<noteq> SQUOTE \<and> c \<noteq> DBLQUOTE"
  by (auto simp: ident_start_def scanner_isspace_def is_digit_def)

lemma scan_word:
  assumes "w \<noteq> []" and "ident_start (hd w)" and "list_all ident_cont w" and "ends_word rest"
  shows "repl_scan rules (w @ rest) = bindR (repl_scan rules rest) (\<lambda>toks. Inr (word_token rules w # toks))"
proof (rule scan_token)
  obtain c cs where w: "w = c # cs" using assms(1) by (cases w) auto
  have "takeWhile ident_cont (w @ rest) = w" "dropWhile ident_cont (w @ rest) = rest"
    using takeWhile_word [OF assms(3), of rest] assms(4) by (auto simp: ends_word_def)
  moreover have "recptr_match (w @ rest) = None" by (rule word_no_recptr [OF assms(3,4)])
  ultimately show "replication_yylex rules (w @ rest) = Inr (Some (word_token rules w, rest))"
    using ident_start_kinds [of c] assms(2) unfolding w by (simp add: replication_yylex_def word_token_def Let_def)
qed

lemma no_recptr: "\<not> is_hexdigit c \<Longrightarrow> recptr_match (c # cs) = None"
  by (simp add: recptr_match_def Let_def)

lemma scan_sconst:
  assumes "rest = [] \<or> hd rest \<noteq> SQUOTE"
  shows "repl_scan rules (SQUOTE # doubled SQUOTE s @ SQUOTE # rest) = bindR (repl_scan rules rest) (\<lambda>toks. Inr (SCONST s # toks))"
proof (rule scan_token)
  show "replication_yylex rules (SQUOTE # doubled SQUOTE s @ SQUOTE # rest) = Inr (Some (SCONST s, rest))"
    using quoted_until_doubled [OF assms, of s]
    by (simp add: replication_yylex_def scanner_isspace_def no_recptr is_hexdigit_def is_digit_def)
qed

lemma scan_delimited:
  assumes "DBLQUOTE \<notin> set s"
  shows "repl_scan rules (DBLQUOTE # s @ DBLQUOTE # rest) = bindR (repl_scan rules rest) (\<lambda>toks. Inr (IDENT (truncate_identifier rules s) # toks))"
proof (rule scan_token)
  have "list_all (\<lambda>d. d \<noteq> DBLQUOTE) s" using assms by (auto simp: list_all_iff)
  then have "takeWhile (\<lambda>d. d \<noteq> DBLQUOTE) (s @ DBLQUOTE # rest) = s" "dropWhile (\<lambda>d. d \<noteq> DBLQUOTE) (s @ DBLQUOTE # rest) = DBLQUOTE # rest"
    using takeWhile_word [of "\<lambda>d. d \<noteq> DBLQUOTE" s "DBLQUOTE # rest"] by simp_all
  then show "replication_yylex rules (DBLQUOTE # s @ DBLQUOTE # rest) = Inr (Some (IDENT (truncate_identifier rules s), rest))"
    by (simp add: replication_yylex_def scanner_isspace_def no_recptr is_hexdigit_def is_digit_def)
qed

lemma scan_char:
  assumes "c \<in> {CHR ''('', CHR '')'', CHR '',''}"
  shows "repl_scan rules (c # rest) = bindR (repl_scan rules rest) (\<lambda>toks. Inr (CHARTOK c # toks))"
proof (rule scan_token)
  show "replication_yylex rules (c # rest) = Inr (Some (CHARTOK c, rest))"
  proof -
    have c: "\<not> scanner_isspace c" "\<not> is_digit c" "\<not> is_hexdigit c" "\<not> ident_start c" "c \<noteq> SQUOTE" "c \<noteq> DBLQUOTE"
      using assms by (auto simp: scanner_isspace_def is_hexdigit_def is_digit_def ident_start_def)
    then show ?thesis using no_recptr [of c rest] by (simp add: replication_yylex_def)
  qed
qed

section \<open>Positions\<close>

lemma hex_upper_digit: "n < 16 \<Longrightarrow> is_hexdigit (hex_upper n) \<and> hexdigit_value (hex_upper n) = n"
  by (auto simp: hex_upper_def is_hexdigit_def is_digit_def hexdigit_value_def)

lemma show_hex_digits: "list_all is_hexdigit (show_hex n) \<and> show_hex n \<noteq> [] \<and> number_value 16 (show_hex n) = n"
proof (induction n rule: show_hex.induct)
  case (1 n)
  show ?case
  proof (cases "n < 16")
    case True
    then show ?thesis using hex_upper_digit [of n] by (simp add: show_hex.simps [of n] number_value_def)
  next
    case False
    have "number_value 16 (s @ [c]) = number_value 16 s * 16 + hexdigit_value c" for s c by (simp add: number_value_def)
    then show ?thesis using False 1 hex_upper_digit [of "n mod 16"] by (simp add: show_hex.simps [of n])
  qed
qed

lemma scan_position:
  assumes "rest = [] \<or> \<not> is_hexdigit (hd rest)" and "hi < 2 ^ 32" and "lo < 2 ^ 32"
  shows "repl_scan rules (show_hex hi @ ''/'' @ show_hex lo @ rest) =
    bindR (repl_scan rules rest) (\<lambda>toks. Inr (RECPTR (word_cat (of_nat hi :: 32 word) (of_nat lo :: 32 word)) # toks))"
proof (rule scan_token)
  note h = show_hex_digits [of hi] and l = show_hex_digits [of lo]
  obtain c cs where c: "show_hex hi = c # cs" "is_hexdigit c" using h by (cases "show_hex hi") auto
  have nsp: "\<not> scanner_isspace c" using c(2) by (auto simp: scanner_isspace_def is_hexdigit_def is_digit_def)
  have slash: "\<not> is_hexdigit (CHR ''/'')" by (simp add: is_hexdigit_def is_digit_def)
  have "takeWhile is_hexdigit (show_hex hi @ ''/'' @ show_hex lo @ rest) = show_hex hi"
    "dropWhile is_hexdigit (show_hex hi @ ''/'' @ show_hex lo @ rest) = ''/'' @ show_hex lo @ rest"
    using takeWhile_word [of is_hexdigit "show_hex hi" "''/'' @ show_hex lo @ rest"] h slash by simp_all
  moreover have "takeWhile is_hexdigit (show_hex lo @ rest) = show_hex lo" "dropWhile is_hexdigit (show_hex lo @ rest) = rest"
    using takeWhile_word [of is_hexdigit "show_hex lo" rest] l assms(1) by simp_all
  ultimately have m: "recptr_match (show_hex hi @ ''/'' @ show_hex lo @ rest) = Some (show_hex hi, show_hex lo, rest)"
    using h l by (simp add: recptr_match_def)
  have "ulong_value 16 (show_hex hi) = hi" "ulong_value 16 (show_hex lo) = lo" using h l assms(2,3) by (simp_all add: ulong_value_def)
  then show "replication_yylex rules (show_hex hi @ ''/'' @ show_hex lo @ rest) =
      Inr (Some (RECPTR (word_cat (of_nat hi :: 32 word) (of_nat lo :: 32 word)), rest))"
    using m nsp unfolding c(1) by (simp add: replication_yylex_def)
qed

lemma position_split: "word_cat (of_nat (unat (drop_bit 32 p)) :: 32 word) (of_nat (unat (take_bit 32 p)) :: 32 word) = (p :: 64 word)"
  by (rule bit_word_eqI)
    (auto simp: bit_word_cat_iff bit_drop_bit_eq bit_take_bit_iff bit_of_nat_iff bit_unsigned_iff not_less dest: bit_imp_le_length)

section \<open>Options\<close>

text \<open>The options of a command as pairs of name and value, and their text.\<close>

definition option_text :: "cstring \<times> cstring \<Rightarrow> cstring" where
  "option_text = (\<lambda>(name, val). name @ '' '' @ SQUOTE # doubled SQUOTE val @ [SQUOTE])"

definition more_options :: "(cstring \<times> cstring) list \<Rightarrow> cstring" where
  "more_options opts = concat (map (\<lambda>opt. '', '' @ option_text opt) opts)"

definition option_tokens :: "(cstring \<times> cstring) list \<Rightarrow> repl_token list" where
  "option_tokens opts = concat (map (\<lambda>(name, val). [CHARTOK (CHR '',''), IDENT name, SCONST val]) opts)"

definition option_name :: "cstring \<Rightarrow> bool" where
  "option_name name \<longleftrightarrow> name \<noteq> [] \<and> list_all (\<lambda>c. 97 \<le> uchar c \<and> uchar c \<le> 122 \<or> c = CHR ''_'') name \<and> length name < NAMEDATALEN \<and> name \<notin> set repl_keywords"

lemma option_name_token:
  assumes "option_name name"
  shows "word_token rules name = IDENT name" and "ident_start (hd name)" and "list_all ident_cont name"
proof -
  have all: "\<forall>c \<in> set name. 97 \<le> uchar c \<and> uchar c \<le> 122 \<or> c = CHR ''_''" using assms by (simp add: option_name_def list_all_iff)
  have "map (downcase_char rules) name = name"
    using all by (intro map_idI) (auto simp: downcase_char_def IS_HIGHBIT_SET_def)
  then show "word_token rules name = IDENT name"
    using assms by (simp add: word_token_def downcase_truncate_identifier_def truncate_identifier_def option_name_def)
  show "ident_start (hd name)" "list_all ident_cont name"
    using all assms by (cases name; auto simp: ident_start_def ident_cont_def option_name_def list_all_iff)+
qed

lemma scan_option:
  assumes "option_name name" and "rest = [] \<or> hd rest \<noteq> SQUOTE"
  shows "repl_scan rules (option_text (name, val) @ rest) = bindR (repl_scan rules rest) (\<lambda>toks. Inr (IDENT name # SCONST val # toks))"
proof -
  note n = option_name_token [OF assms(1)]
  have e: "ends_word (CHR '' '' # inp)" for inp by (simp add: ends_word_def ident_cont_def ident_start_def is_digit_def)
  have sp: "scanner_isspace (CHR '' '')" by (simp add: scanner_isspace_def)
  have "repl_scan rules (name @ CHR '' '' # SQUOTE # doubled SQUOTE val @ SQUOTE # rest) =
      bindR (repl_scan rules (CHR '' '' # SQUOTE # doubled SQUOTE val @ SQUOTE # rest)) (\<lambda>toks. Inr (IDENT name # toks))"
    using scan_word [OF _ n(2,3) e] assms(1) n(1) by (simp add: option_name_def)
  also have "\<dots> = bindR (repl_scan rules rest) (\<lambda>toks. Inr (IDENT name # SCONST val # toks))"
    unfolding scan_space [OF sp] scan_sconst [OF assms(2)] by (simp add: bindR_assoc)
  finally show ?thesis by (simp add: option_text_def)
qed

lemma scan_more_options:
  assumes "list_all (\<lambda>(name, val). option_name name) opts" and "rest = [] \<or> hd rest \<noteq> SQUOTE"
  shows "repl_scan rules (more_options opts @ rest) = bindR (repl_scan rules rest) (\<lambda>toks. Inr (option_tokens opts @ toks))"
  using assms(1)
proof (induction opts)
  case Nil
  then show ?case by (cases "repl_scan rules rest") (simp_all add: more_options_def option_tokens_def)
next
  case (Cons opt opts)
  obtain name val where opt: "opt = (name, val)" by (cases opt)
  have n: "option_name name" using Cons.prems opt by simp
  have sp: "scanner_isspace (CHR '' '')" by (simp add: scanner_isspace_def)
  have hd: "more_options opts @ rest = [] \<or> hd (more_options opts @ rest) \<noteq> SQUOTE" using assms(2) by (cases opts) (simp_all add: more_options_def)
  have "more_options (opt # opts) @ rest = CHR '','' # CHR '' '' # option_text (name, val) @ more_options opts @ rest"
    by (simp add: more_options_def opt)
  then show ?case using scan_option [OF n hd, of rules val] Cons
    by (simp add: scan_char scan_space [OF sp] bindR_assoc option_tokens_def opt)
qed

lemma parse_options:
  "plugin_opt_list (IDENT name # SCONST val # option_tokens opts @ CHARTOK (CHR '')'') # toks) =
     Inr (map (\<lambda>(name, val). \<lparr>defname = name, de_arg = Some val\<rparr>) ((name, val) # opts), CHARTOK (CHR '')'') # toks)"
proof (induction opts arbitrary: name val)
  case Nil
  then show ?case by (simp add: plugin_opt_list.simps plugin_opt_arg_def option_tokens_def)
next
  case (Cons opt opts)
  then show ?case by (subst plugin_opt_list.simps) (cases opt, simp add: plugin_opt_arg_def option_tokens_def)
qed

text \<open>A list of options that breaks off at a word behind the name of an option.\<close>

lemma parse_broken_options:
  "plugin_opt_list (IDENT name # SCONST val # option_tokens opts @ CHARTOK (CHR '','') # IDENT name2 # IDENT w # toks) =
     Inr (map (\<lambda>(name, val). \<lparr>defname = name, de_arg = Some val\<rparr>) ((name, val) # opts) @ [\<lparr>defname = name2, de_arg = None\<rparr>], IDENT w # toks)"
proof (induction opts arbitrary: name val)
  case Nil
  then show ?case by (simp add: plugin_opt_list.simps plugin_opt_arg_def option_tokens_def)
next
  case (Cons opt opts)
  then show ?case by (subst plugin_opt_list.simps) (cases opt, simp add: plugin_opt_arg_def option_tokens_def)
qed

section \<open>The command as the publisher reads it\<close>

definition delimited :: "cstring \<Rightarrow> cstring" where
  "delimited name = DBLQUOTE # doubled DBLQUOTE name @ [DBLQUOTE]"

fun identifier_list :: "cstring list \<Rightarrow> cstring" where
  "identifier_list [] = []"
| "identifier_list (name # names) = delimited name @ concat (map (\<lambda>name. '','' @ delimited name) names)"

lemma identifierstr_loop_valid:
  "list_all (valid_text enc) names \<Longrightarrow> identifierstr_loop enc False names = Some (concat (map (\<lambda>name. '','' @ delimited name) names))"
  by (induction names) (simp_all add: escaped_identifier delimited_def)

lemma identifierstr_valid: "list_all (valid_text enc) names \<Longrightarrow> stringlist_to_identifierstr enc names = Some (identifier_list names)"
  by (cases names) (simp_all add: stringlist_to_identifierstr_def escaped_identifier identifierstr_loop_valid delimited_def)

lemma set_doubled: "set (doubled q s) = set s"
  by (auto simp: doubled_def)

lemma identifier_list_backslash: "BSLASH \<in> set (identifier_list names) \<longleftrightarrow> (\<exists>name \<in> set names. BSLASH \<in> set name)"
  by (cases names) (auto simp: delimited_def set_doubled)

text \<open>The options behind the version of the protocol.\<close>

definition front_options :: "int \<Rightarrow> WalRcvStreamOptions \<Rightarrow> (cstring \<times> cstring) list" where
  "front_options server_version options =
     (case wo_streaming_str options of Some str \<Rightarrow> [(''streaming'', str)] | None \<Rightarrow> []) @
     (if wo_twophase options \<and> 150000 \<le> server_version then [(''two_phase'', ''on'')] else []) @
     (case wo_origin options of Some origin \<Rightarrow> if 160000 \<le> server_version then [(''origin'', origin)] else [] | None \<Rightarrow> [])"

definition back_options :: "int \<Rightarrow> WalRcvStreamOptions \<Rightarrow> (cstring \<times> cstring) list" where
  "back_options server_version options = (if wo_binary options \<and> 140000 \<le> server_version then [(''binary'', ''true'')] else [])"

definition further_options :: "int \<Rightarrow> WalRcvStreamOptions \<Rightarrow> (cstring \<times> cstring) list" where
  "further_options server_version options = front_options server_version options @
     (''publication_names'', identifier_list (wo_publication_names options)) # back_options server_version options"

lemma option_names:
  "option_name ''proto_version''" "option_name ''publication_names''" "list_all (\<lambda>(name, val). option_name name) (front_options server_version options)"
  "list_all (\<lambda>(name, val). option_name name) (back_options server_version options)"
  by (auto simp: option_name_def front_options_def back_options_def repl_keywords_def split: option.splits)

definition command_head :: "WalRcvStreamOptions \<Rightarrow> cstring" where
  "command_head options = ''START_REPLICATION SLOT '' @ [DBLQUOTE] @ wo_slotname options @ [DBLQUOTE] @ '' LOGICAL '' @
     show_hex (unat (drop_bit 32 (wo_startpoint options))) @ ''/'' @ show_hex (unat (take_bit 32 (wo_startpoint options))) @ '' (''"

text \<open>Names that can be written: valid text without a backslash, and values without quotes.\<close>

definition writable :: "client_encoding \<Rightarrow> WalRcvStreamOptions \<Rightarrow> bool" where
  "writable enc options \<longleftrightarrow> list_all (valid_text enc) (wo_publication_names options) \<and>
     valid_text enc (identifier_list (wo_publication_names options)) \<and>
     (\<forall>str. wo_streaming_str options = Some str \<longrightarrow> SQUOTE \<notin> set str) \<and> (\<forall>str. wo_origin options = Some str \<longrightarrow> SQUOTE \<notin> set str)"

lemma show_nat_quote: "SQUOTE \<notin> set (show_nat n)"
proof (induction n rule: show_nat.induct)
  case (1 n)
  have d: "char_of (48 + k) \<noteq> SQUOTE" if "k < 10" for k :: nat
  proof -
    have "uchar (char_of (48 + k)) \<noteq> uchar SQUOTE" using that by simp
    then show ?thesis by metis
  qed
  show ?case
  proof (cases "n < 10")
    case True
    then show ?thesis using d [of n] by (simp add: show_nat.simps [of n])
  next
    case False
    then show ?thesis using d [of "n mod 10"] 1 by (simp add: show_nat.simps [of n])
  qed
qed

lemma option_text_plain: "SQUOTE \<notin> set val \<Longrightarrow> quoted_option name val = option_text (name, val)"
  by (simp add: quoted_option_def option_text_def doubled_absent)

text \<open>The command is written around the literal for the list of publication names.\<close>

lemma command_written:
  assumes "writable enc options" and "PQescapeLiteral enc (identifier_list (wo_publication_names options)) = Some lit"
  shows "startstreaming_command enc server_version options = Inr (command_head options @
    option_text (''proto_version'', show_nat (unat (wo_proto_version options))) @ more_options (front_options server_version options) @
    '', publication_names '' @ lit @ more_options (back_options server_version options) @ '')'')"
proof -
  have "stringlist_to_identifierstr enc (wo_publication_names options) = Some (identifier_list (wo_publication_names options))"
    using assms(1) by (intro identifierstr_valid) (simp add: writable_def)
  then show ?thesis using assms show_nat_quote
    by (auto simp: startstreaming_command_def command_head_def front_options_def back_options_def more_options_def writable_def option_text_plain
        option_text_def split: option.splits)
qed

lemma command_text:
  assumes "writable enc options" and "\<forall>name \<in> set (wo_publication_names options). BSLASH \<notin> set name"
  shows "startstreaming_command enc server_version options = Inr (command_head options @
    option_text (''proto_version'', show_nat (unat (wo_proto_version options))) @ more_options (further_options server_version options) @ '')'')"
proof -
  have "BSLASH \<notin> set (identifier_list (wo_publication_names options))" using assms(2) by (simp add: identifier_list_backslash)
  then have "PQescapeLiteral enc (identifier_list (wo_publication_names options)) =
      Some (SQUOTE # doubled SQUOTE (identifier_list (wo_publication_names options)) @ [SQUOTE])"
    using assms(1) by (intro escaped_literal) (simp_all add: writable_def)
  then show ?thesis using command_written [OF assms(1)] by (simp add: further_options_def more_options_def option_text_def)
qed

lemma scan_head:
  assumes "DBLQUOTE \<notin> set (wo_slotname options)" and "length (wo_slotname options) < NAMEDATALEN"
  shows "repl_scan rules (command_head options @ rest) = bindR (repl_scan rules rest) (\<lambda>toks.
    Inr (KEYWORD ''START_REPLICATION'' # KEYWORD ''SLOT'' # IDENT (wo_slotname options) # KEYWORD ''LOGICAL'' # RECPTR (wo_startpoint options) #
      CHARTOK (CHR ''('') # toks))"
proof -
  let ?p = "wo_startpoint options"
  have sp: "scanner_isspace (CHR '' '')" by (simp add: scanner_isspace_def)
  have e: "ends_word (CHR '' '' # inp)" for inp by (simp add: ends_word_def ident_cont_def ident_start_def is_digit_def)
  have kw: "repl_scan rules (w @ CHR '' '' # inp) = bindR (repl_scan rules inp) (\<lambda>toks. Inr (KEYWORD w # toks))"
    if "w \<in> {''START_REPLICATION'', ''SLOT'', ''LOGICAL''}" for w inp
  proof -
    have "w \<noteq> []" "ident_start (hd w)" "list_all ident_cont w" "word_token rules w = KEYWORD w"
      using that by (auto simp: ident_start_def ident_cont_def word_token_def repl_keywords_def)
    then show ?thesis using scan_word [OF _ _ _ e] by (simp add: scan_space [OF sp])
  qed
  have pos: "unat (drop_bit 32 ?p) < 2 ^ 32" "unat (take_bit 32 ?p) < 2 ^ 32"
    unfolding unat_drop_bit_eq unsigned_take_bit_eq
    using unsigned_less [of ?p, where 'a = nat] by (simp_all add: drop_bit_eq_div take_bit_eq_mod less_mult_imp_div_less)
  have hd: "\<not> is_hexdigit (CHR '' '')" by (simp add: is_hexdigit_def is_digit_def)
  have "command_head options @ rest = ''START_REPLICATION'' @ CHR '' '' # ''SLOT'' @ CHR '' '' # DBLQUOTE # wo_slotname options @ DBLQUOTE # CHR '' '' #
      ''LOGICAL'' @ CHR '' '' # show_hex (unat (drop_bit 32 ?p)) @ ''/'' @ show_hex (unat (take_bit 32 ?p)) @ CHR '' '' # CHR ''('' # rest"
    by (simp add: command_head_def)
  then show ?thesis using assms
    by (simp only: kw insert_iff simp_thms scan_delimited scan_space [OF sp] scan_position [OF disjI2, of "CHR '' '' # _"] list.sel hd not_False_eq_True
        pos position_split scan_char bindR_assoc bindR_Inr) (simp add: truncate_identifier_def)
qed

lemma command_parsed:
  assumes w: "writable enc options" and bs: "\<forall>name \<in> set (wo_publication_names options). BSLASH \<notin> set name"
    and slot: "DBLQUOTE \<notin> set (wo_slotname options)" "length (wo_slotname options) < NAMEDATALEN"
  shows "\<exists>cmd. startstreaming_command enc server_version options = Inr cmd \<and>
    replication_parse rules cmd = Inr (wo_slotname options, wo_startpoint options,
      map (\<lambda>(name, val). \<lparr>defname = name, de_arg = Some val\<rparr>)
        ((''proto_version'', show_nat (unat (wo_proto_version options))) # further_options server_version options))"
proof -
  let ?v = "show_nat (unat (wo_proto_version options))" and ?more = "further_options server_version options"
  have names: "option_name ''proto_version''" "list_all (\<lambda>(name, val). option_name name) ?more"
    using option_names by (simp_all add: further_options_def)
  have hd: "more_options ?more @ '')'' = [] \<or> hd (more_options ?more @ '')'') \<noteq> SQUOTE"
    by (cases ?more) (simp_all add: more_options_def)
  have "repl_scan rules (more_options ?more @ '')'') = Inr (option_tokens ?more @ [CHARTOK (CHR '')'')])"
    using scan_more_options [OF names(2), of "'')''" rules] by (simp add: scan_char scan_end)
  then have scan: "repl_scan rules (command_head options @ option_text (''proto_version'', ?v) @ more_options ?more @ '')'') =
      Inr (KEYWORD ''START_REPLICATION'' # KEYWORD ''SLOT'' # IDENT (wo_slotname options) # KEYWORD ''LOGICAL'' # RECPTR (wo_startpoint options) #
        CHARTOK (CHR ''('') # IDENT ''proto_version'' # SCONST ?v # option_tokens ?more @ [CHARTOK (CHR '')'')])"
    unfolding scan_head [OF slot] scan_option [OF names(1) hd] by simp
  show ?thesis unfolding command_text [OF w bs]
  proof (intro exI conjI)
    show "replication_parse rules (command_head options @ option_text (''proto_version'', ?v) @ more_options ?more @ '')'') =
        Inr (wo_slotname options, wo_startpoint options,
          map (\<lambda>(name, val). \<lparr>defname = name, de_arg = Some val\<rparr>) ((''proto_version'', ?v) # ?more))"
      unfolding replication_parse_def scan bindR_Inr start_logical_replication_def plugin_options_def by (simp add: parse_options)
  qed (rule refl)
qed

text \<open>A backslash in a publication name makes the literal an escape string, which the scanner does not know.\<close>

lemma backslash_syntax_error:
  assumes w: "writable enc options" and bs: "\<exists>name \<in> set (wo_publication_names options). BSLASH \<in> set name"
    and slot: "DBLQUOTE \<notin> set (wo_slotname options)" "length (wo_slotname options) < NAMEDATALEN"
  shows "\<exists>cmd. startstreaming_command enc server_version options = Inr cmd \<and> replication_parse rules cmd = Inl (PgError ''syntax error'')"
proof -
  let ?names = "identifier_list (wo_publication_names options)" and ?v = "show_nat (unat (wo_proto_version options))"
  let ?front = "front_options server_version options" and ?behind = "back_options server_version options"
  let ?lit = "SQUOTE # doubled SQUOTE (doubled BSLASH ?names) @ SQUOTE # more_options ?behind @ '')''"
  let ?tail = "'', publication_names  E'' @ ?lit"
  have "BSLASH \<in> set ?names" using bs by (simp add: identifier_list_backslash)
  then have "PQescapeLiteral enc ?names = Some ('' E'' @ SQUOTE # doubled SQUOTE (doubled BSLASH ?names) @ [SQUOTE])"
    using w by (intro escaped_backslash) (simp_all add: writable_def)
  from command_written [OF w this] have cmd: "startstreaming_command enc server_version options =
      Inr (command_head options @ option_text (''proto_version'', ?v) @ more_options ?front @ ?tail)" by simp
  have sp: "scanner_isspace (CHR '' '')" by (simp add: scanner_isspace_def)
  have e: "ends_word (CHR '' '' # inp)" "ends_word (SQUOTE # inp)" for inp by (simp_all add: ends_word_def ident_cont_def ident_start_def is_digit_def)
  have hd: "more_options ?behind @ '')'' = [] \<or> hd (more_options ?behind @ '')'') \<noteq> SQUOTE" "more_options ?front @ ?tail = [] \<or> hd (more_options ?front @ ?tail) \<noteq> SQUOTE"
    by (cases ?behind; simp add: more_options_def) (cases ?front; simp add: more_options_def)
  have "repl_scan rules (more_options ?behind @ '')'') = Inr (option_tokens ?behind @ [CHARTOK (CHR '')'')])"
    using scan_more_options [OF option_names(4), of "'')''" rules] by (simp add: scan_char scan_end)
  then have lit: "repl_scan rules ?lit = Inr (SCONST (doubled BSLASH ?names) # option_tokens ?behind @ [CHARTOK (CHR '')'')])"
    unfolding scan_sconst [OF hd(1)] by simp
  have low: "ascii_lower (CHR ''E'') = CHR ''e''" by code_simp
  have E: "repl_scan rules (''E'' @ ?lit) = bindR (repl_scan rules ?lit) (\<lambda>toks. Inr (IDENT ''e'' # toks))"
    by (subst scan_word [OF _ _ _ e(2)]) (simp_all add: ident_start_def ident_cont_def word_token_def repl_keywords_def downcase_truncate_identifier_def
        truncate_identifier_def downcase_char_def low)
  note n = option_name_token [OF option_names(2)]
  have "repl_scan rules (''publication_names'' @ CHR '' '' # CHR '' '' # ''E'' @ ?lit) =
      bindR (repl_scan rules (''E'' @ ?lit)) (\<lambda>toks. Inr (IDENT ''publication_names'' # toks))"
    by (subst scan_word [OF _ n(2,3) e(1)]) (simp_all only: n(1) scan_space [OF sp] list.distinct not_False_eq_True)
  then have tail: "repl_scan rules ?tail = Inr (CHARTOK (CHR '','') # IDENT ''publication_names'' # IDENT ''e'' # SCONST (doubled BSLASH ?names) #
      option_tokens ?behind @ [CHARTOK (CHR '')'')])"
    using E lit by (simp add: scan_char scan_space [OF sp])
  have scan: "repl_scan rules (command_head options @ option_text (''proto_version'', ?v) @ more_options ?front @ ?tail) =
      Inr (KEYWORD ''START_REPLICATION'' # KEYWORD ''SLOT'' # IDENT (wo_slotname options) # KEYWORD ''LOGICAL'' # RECPTR (wo_startpoint options) #
        CHARTOK (CHR ''('') # IDENT ''proto_version'' # SCONST ?v # option_tokens ?front @ CHARTOK (CHR '','') # IDENT ''publication_names'' # IDENT ''e'' #
        SCONST (doubled BSLASH ?names) # option_tokens ?behind @ [CHARTOK (CHR '')'')])"
    unfolding scan_head [OF slot] scan_option [OF option_names(1) hd(2)] using scan_more_options [OF option_names(3), of ?tail rules] tail by simp
  have "replication_parse rules (command_head options @ option_text (''proto_version'', ?v) @ more_options ?front @ ?tail) = Inl (PgError ''syntax error'')"
    unfolding replication_parse_def scan bindR_Inr start_logical_replication_def plugin_options_def by (simp add: parse_broken_options)
  with cmd show ?thesis by blast
qed

end
