(* ===== verification/Publication.thy ===== *)
theory Publication
  imports RelationMap
begin

text \<open>
  Publications: the catalog data of \<^verbatim>\<open>src/backend/catalog/pg_publication.c\<close> that decides what a
  table publishes and under which name, and the conversion of a partition's rows into the
  columns of its root table (\<^verbatim>\<open>src/backend/access/common/attmap.c\<close> and \<^verbatim>\<open>tupconvert.c\<close>). The
  rows of the catalogs, as the snapshot of the decoded transaction shows them, are an argument.
\<close>

abbreviation RELPERSISTENCE_PERMANENT :: byte where "RELPERSISTENCE_PERMANENT \<equiv> CHR ''p''"
abbreviation FirstGenbkiObjectId :: Oid where "FirstGenbkiObjectId \<equiv> 10000"
abbreviation FirstUnpinnedObjectId :: Oid where "FirstUnpinnedObjectId \<equiv> 12000"
abbreviation FirstNormalObjectId :: Oid where "FirstNormalObjectId \<equiv> 16384"

section \<open>Catalog data\<close>

record PublicationActions =
  pubinsert :: bool
  pubupdate :: bool
  pubdelete :: bool
  pubtruncate :: bool

record Publication =
  pub_oid :: Oid
  pub_name :: cstring
  pub_alltables :: bool
  pub_viaroot :: bool
  pub_gencols_type :: PublishGencolsType
  pub_actions :: PublicationActions

text \<open>A row of \<^verbatim>\<open>pg_publication_rel\<close>: the row filter and the column list, each possibly null.\<close>

record Form_pg_publication_rel =
  prqual :: "cstring option"
  prattrs :: "int list option"

text \<open>
  What the plugin reads of the publisher. \<open>RelationIdGetRelation\<close> stands for the relation cache and
  for \<^verbatim>\<open>pg_class\<close>; \<open>ExecEvalExpr\<close> evaluates a stored filter expression on a row, with \<^const>\<open>None\<close>
  for the null value; \<open>Datum0\<close> is the unused value of a column that is null.
\<close>

record 'd pub_catalog =
  syscat :: "'d catalog"
  RelationIdGetRelation :: "Oid \<Rightarrow> Relation option"
  GetPublicationByName :: "cstring \<Rightarrow> Publication option"
  GetRelationPublications :: "Oid \<Rightarrow> Oid list"
  GetSchemaPublications :: "Oid \<Rightarrow> Oid list"
  get_partition_ancestors :: "Oid \<Rightarrow> Oid list"
  PUBLICATIONRELMAP :: "Oid \<Rightarrow> Oid \<Rightarrow> Form_pg_publication_rel option"
  PUBLICATIONNAMESPACEMAP :: "Oid \<Rightarrow> Oid \<Rightarrow> bool"
  ExecEvalExpr :: "cstring \<Rightarrow> 'd TupleTableSlot \<Rightarrow> bool option"
  replorigin_by_oid :: "RepOriginId \<Rightarrow> cstring option"
  Datum0 :: 'd

definition get_rel_namespace :: "'d pub_catalog \<Rightarrow> Oid \<Rightarrow> Oid" where
  "get_rel_namespace cat relid = (case RelationIdGetRelation cat relid of Some rel \<Rightarrow> rd_namespace rel | None \<Rightarrow> InvalidOid)"

definition get_rel_relkind :: "'d pub_catalog \<Rightarrow> Oid \<Rightarrow> byte" where
  "get_rel_relkind cat relid = (case RelationIdGetRelation cat relid of Some rel \<Rightarrow> rd_relkind rel | None \<Rightarrow> NUL)"

definition get_rel_relispartition :: "'d pub_catalog \<Rightarrow> Oid \<Rightarrow> bool" where
  "get_rel_relispartition cat relid = (case RelationIdGetRelation cat relid of Some rel \<Rightarrow> rd_relispartition rel | None \<Rightarrow> False)"

text \<open>Opening a relation that does not exist gives a null pointer, which the callers dereference.\<close>

definition open_relation :: "'d pub_catalog \<Rightarrow> Oid \<Rightarrow> Relation res" where
  "open_relation cat relid = (case RelationIdGetRelation cat relid of Some rel \<Rightarrow> Inr rel | None \<Rightarrow> Inl (Undefined NullPointer))"

section \<open>Which relations are published\<close>

definition IsCatalogRelationOid :: "Oid \<Rightarrow> bool" where
  "IsCatalogRelationOid relid \<longleftrightarrow> relid < FirstUnpinnedObjectId"

definition is_publishable_relation :: "Relation \<Rightarrow> bool" where
  "is_publishable_relation rel \<longleftrightarrow>
     (rd_relkind rel = RELKIND_RELATION \<or> rd_relkind rel = RELKIND_PARTITIONED_TABLE) \<and>
     \<not> IsCatalogRelationOid (rd_id rel) \<and>
     rd_relpersistence rel = RELPERSISTENCE_PERMANENT \<and>
     FirstNormalObjectId \<le> rd_id rel"

text \<open>The ancestors are listed from the parent upwards, so the last one found is the topmost.\<close>

fun top_most_loop :: "'d pub_catalog \<Rightarrow> Oid \<Rightarrow> Oid list \<Rightarrow> nat \<Rightarrow> Oid \<times> nat \<Rightarrow> Oid \<times> nat" where
  "top_most_loop cat puboid [] level found = found"
| "top_most_loop cat puboid (ancestor # ancestors) level found =
     (let level = level + 1
      in top_most_loop cat puboid ancestors level
        (if puboid \<in> set (GetRelationPublications cat ancestor) then (ancestor, level)
         else if puboid \<in> set (GetSchemaPublications cat (get_rel_namespace cat ancestor)) then (ancestor, level)
         else found))"

definition GetTopMostAncestorInPublication :: "'d pub_catalog \<Rightarrow> Oid \<Rightarrow> Oid list \<Rightarrow> Oid \<times> nat" where
  "GetTopMostAncestorInPublication cat puboid ancestors = top_most_loop cat puboid ancestors 0 (InvalidOid, 0)"

section \<open>Column lists\<close>

definition bms_add_member :: "Bitmapset \<Rightarrow> int \<Rightarrow> Bitmapset res" where
  "bms_add_member a x =
     (if x < 0 then Inl (PgError ''negative bitmapset member not allowed'')
      else Inr (if x \<in> set a then a else a @ [x]))"

definition bms_equal :: "Bitmapset \<Rightarrow> Bitmapset \<Rightarrow> bool" where
  "bms_equal a b \<longleftrightarrow> set a = set b"

fun pub_collist_to_bitmapset :: "Bitmapset \<Rightarrow> int list \<Rightarrow> Bitmapset res" where
  "pub_collist_to_bitmapset columns [] = Inr columns"
| "pub_collist_to_bitmapset columns (x # xs) = bindR (bms_add_member columns x) (\<lambda>columns. pub_collist_to_bitmapset columns xs)"

text \<open>Whether there is a column list, and its columns; a caller that passes no set ignores them.\<close>

definition check_and_fetch_column_list :: "'d pub_catalog \<Rightarrow> Publication \<Rightarrow> Oid \<Rightarrow> (bool \<times> Bitmapset) res" where
  "check_and_fetch_column_list cat pub relid =
     (if pub_alltables pub then Inr (False, [])
      else case PUBLICATIONRELMAP cat relid (pub_oid pub) of
          None \<Rightarrow> Inr (False, [])
        | Some cftuple \<Rightarrow>
            (case prattrs cftuple of
               None \<Rightarrow> Inr (False, [])
             | Some cfdatum \<Rightarrow> bindR (pub_collist_to_bitmapset [] cfdatum) (\<lambda>cols. Inr (True, cols))))"

fun form_cols_loop :: "PublishGencolsType \<Rightarrow> Form_pg_attribute list \<Rightarrow> Bitmapset \<Rightarrow> Bitmapset res" where
  "form_cols_loop gencols [] result = Inr result"
| "form_cols_loop gencols (att # atts) result =
     (if attisdropped att then form_cols_loop gencols atts result
      else if attgenerated att \<noteq> NUL \<and> attgenerated att \<noteq> ATTRIBUTE_GENERATED_STORED then form_cols_loop gencols atts result
      else if attgenerated att \<noteq> NUL \<and> gencols \<noteq> PUBLISH_GENCOLS_STORED then form_cols_loop gencols atts result
      else bindR (bms_add_member result (attnum att)) (form_cols_loop gencols atts))"

definition pub_form_cols_map :: "Relation \<Rightarrow> PublishGencolsType \<Rightarrow> Bitmapset res" where
  "pub_form_cols_map relation gencols = form_cols_loop gencols (rd_att relation) []"

section \<open>Attribute maps\<close>

text \<open>
  \<open>attnums[i]\<close> is the number of the input column for output column \<open>i\<close>, 0 for a dropped one. The
  search for a name starts behind the column found last and wraps around.
\<close>

type_synonym AttrMap = "int list"

fun find_inatt :: "Form_pg_attribute list \<Rightarrow> cstring \<Rightarrow> nat \<Rightarrow> int \<Rightarrow> Form_pg_attribute option \<times> int" where
  "find_inatt indesc name 0 nextindesc = (None, nextindesc)"
| "find_inatt indesc name (Suc j) nextindesc =
     (let nextindesc = (if int (length indesc) \<le> nextindesc + 1 then 0 else nextindesc + 1);
          inatt = indesc ! nat nextindesc
      in if \<not> attisdropped inatt \<and> attname inatt = name then (Some inatt, nextindesc)
         else find_inatt indesc name j nextindesc)"

fun attrmap_loop :: "Form_pg_attribute list \<Rightarrow> bool \<Rightarrow> Form_pg_attribute list \<Rightarrow> int \<Rightarrow> AttrMap res" where
  "attrmap_loop indesc missing_ok [] nextindesc = Inr []"
| "attrmap_loop indesc missing_ok (outatt # outdesc) nextindesc =
     (if attisdropped outatt
      then bindR (attrmap_loop indesc missing_ok outdesc nextindesc) (\<lambda>m. Inr (0 # m))
      else case find_inatt indesc (attname outatt) (length indesc) nextindesc of
          (Some inatt, nextindesc) \<Rightarrow>
            if atttypid outatt \<noteq> atttypid inatt \<or> atttypmod outatt \<noteq> atttypmod inatt
            then Inl (PgError ''could not convert row type'')
            else if attnum inatt = 0 \<and> \<not> missing_ok then Inl (PgError ''could not convert row type'')
            else bindR (attrmap_loop indesc missing_ok outdesc nextindesc) (\<lambda>m. Inr (attnum inatt # m))
        | (None, nextindesc) \<Rightarrow>
            if \<not> missing_ok then Inl (PgError ''could not convert row type'')
            else bindR (attrmap_loop indesc missing_ok outdesc nextindesc) (\<lambda>m. Inr (0 # m)))"

definition build_attrmap_by_name :: "Form_pg_attribute list \<Rightarrow> Form_pg_attribute list \<Rightarrow> bool \<Rightarrow> AttrMap res" where
  "build_attrmap_by_name indesc outdesc missing_ok = attrmap_loop indesc missing_ok outdesc (-1)"

definition check_attrmap_match :: "Form_pg_attribute list \<Rightarrow> Form_pg_attribute list \<Rightarrow> AttrMap \<Rightarrow> bool" where
  "check_attrmap_match indesc outdesc attrMap \<longleftrightarrow>
     length indesc = length outdesc \<and>
     (\<forall>i \<in> set [0..<length attrMap].
        \<not> atthasmissing (indesc ! i) \<and>
        (attrMap ! i = int i + 1 \<or>
         attrMap ! i = 0 \<and> attisdropped (indesc ! i) \<and> attlen (indesc ! i) = attlen (outdesc ! i) \<and>
         attalignby (indesc ! i) = attalignby (outdesc ! i)))"

definition build_attrmap_by_name_if_req ::
    "Form_pg_attribute list \<Rightarrow> Form_pg_attribute list \<Rightarrow> bool \<Rightarrow> AttrMap option res" where
  "build_attrmap_by_name_if_req indesc outdesc missing_ok =
     bindR (build_attrmap_by_name indesc outdesc missing_ok) (\<lambda>attrMap.
     Inr (if check_attrmap_match indesc outdesc attrMap then None else Some attrMap))"

text \<open>One column of the output; a number outside of the input row is an access behind its arrays.\<close>

definition map_column :: "'d \<Rightarrow> 'd TupleTableSlot \<Rightarrow> int \<Rightarrow> ('d \<times> bool) res" where
  "map_column datum0 in_slot num =
     (let j = num - 1
      in if j = -1 then Inr (datum0, True)
         else if j < 0 \<or> int (length (tts_values in_slot)) \<le> j \<or> int (length (tts_isnull in_slot)) \<le> j
         then Inl (Undefined OutOfBounds)
         else Inr (tts_values in_slot ! nat j, tts_isnull in_slot ! nat j))"

fun map_columns :: "'d \<Rightarrow> 'd TupleTableSlot \<Rightarrow> AttrMap \<Rightarrow> ('d \<times> bool) list res" where
  "map_columns datum0 in_slot [] = Inr []"
| "map_columns datum0 in_slot (a # as) =
     bindR (map_column datum0 in_slot a) (\<lambda>c. bindR (map_columns datum0 in_slot as) (\<lambda>cs. Inr (c # cs)))"

definition execute_attr_map_slot :: "'d \<Rightarrow> AttrMap \<Rightarrow> 'd TupleTableSlot \<Rightarrow> 'd TupleTableSlot res" where
  "execute_attr_map_slot datum0 attrMap in_slot =
     bindR (map_columns datum0 in_slot attrMap) (\<lambda>cs. Inr \<lparr>tts_values = map fst cs, tts_isnull = map snd cs\<rparr>)"

section \<open>Conversion by name\<close>

lemma find_inatt_found:
  assumes "find_inatt indesc name j nextindesc = (Some inatt, n')" and "indesc \<noteq> []" and "-1 \<le> nextindesc" and "nextindesc < int (length indesc)"
  shows "0 \<le> n' \<and> n' < int (length indesc) \<and> inatt = indesc ! nat n' \<and> \<not> attisdropped inatt \<and> attname inatt = name"
  using assms
proof (induction indesc name j nextindesc rule: find_inatt.induct)
  case (2 indesc name j nextindesc)
  let ?n = "if int (length indesc) \<le> nextindesc + 1 then 0 else nextindesc + 1"
  have "0 \<le> ?n" "?n < int (length indesc)" "-1 \<le> ?n" using "2.prems"(2-4) by auto
  with 2 show ?case by (auto simp: Let_def split: if_splits)
qed simp

text \<open>The columns of a relation are numbered from one.\<close>

definition numbered :: "Form_pg_attribute list \<Rightarrow> bool" where
  "numbered desc \<longleftrightarrow> (\<forall>i < length desc. attnum (desc ! i) = int i + 1)"

text \<open>Input column \<open>j\<close> serves output column \<open>outatt\<close>.\<close>

definition serves :: "Form_pg_attribute list \<Rightarrow> nat \<Rightarrow> Form_pg_attribute \<Rightarrow> bool" where
  "serves indesc j outatt \<longleftrightarrow> j < length indesc \<and> \<not> attisdropped (indesc ! j) \<and> attname (indesc ! j) = attname outatt \<and>
     atttypid (indesc ! j) = atttypid outatt \<and> atttypmod (indesc ! j) = atttypmod outatt"

definition mapped_to :: "Form_pg_attribute list \<Rightarrow> Form_pg_attribute \<Rightarrow> int \<Rightarrow> bool" where
  "mapped_to indesc outatt a \<longleftrightarrow> (if attisdropped outatt then a = 0 else \<exists>j. a = int j + 1 \<and> serves indesc j outatt)"

lemma attrmap_loop_serves:
  assumes "attrmap_loop indesc False outdesc nextindesc = Inr m" and "numbered indesc" and "-1 \<le> nextindesc" and "nextindesc < max 1 (int (length indesc))"
  shows "list_all2 (mapped_to indesc) outdesc m"
  using assms
proof (induction indesc "False" outdesc nextindesc arbitrary: m rule: attrmap_loop.induct)
  case (2 indesc outatt outdesc nextindesc)
  show ?case
  proof (cases "attisdropped outatt")
    case True
    with 2 show ?thesis by (auto simp: bindR_eq_Inr_iff mapped_to_def)
  next
    case False
    obtain res n' where f: "find_inatt indesc (attname outatt) (length indesc) nextindesc = (res, n')" by fastforce
    then obtain inatt where res: "res = Some inatt" using "2.prems"(1) False by (cases res) auto
    have ne: "indesc \<noteq> []" using f res by auto
    then have lt: "nextindesc < int (length indesc)" using "2.prems"(4) by (cases indesc) (auto simp: max_def split: if_splits)
    note found = find_inatt_found [OF f [unfolded res] ne "2.prems"(3) lt]
    let ?j = "nat n'"
    have "?j < length indesc" using found by linarith
    then have "attnum inatt = int ?j + 1" using found "2.prems"(2) unfolding numbered_def by blast
    moreover obtain m' where m': "m = attnum inatt # m'" "attrmap_loop indesc False outdesc n' = Inr m'"
      "atttypid outatt = atttypid inatt" "atttypmod outatt = atttypmod inatt"
      using "2.prems"(1) False f res by (auto simp: bindR_eq_Inr_iff split: if_splits)
    moreover have "list_all2 (mapped_to indesc) outdesc m'"
      using "2.hyps"(3) [OF False f [symmetric] res _ _ m'(2) "2.prems"(2)] found m'(3,4) calculation(1) by auto
    moreover have "serves indesc ?j outatt" using found m'(3,4) \<open>?j < length indesc\<close> unfolding serves_def by metis
    ultimately have "mapped_to indesc outatt (attnum inatt)" using False unfolding mapped_to_def by (metis (full_types))
    then show ?thesis using \<open>m = _\<close> \<open>list_all2 (mapped_to indesc) outdesc m'\<close> by simp
  qed
qed simp

definition slot_fits :: "Form_pg_attribute list \<Rightarrow> 'd TupleTableSlot \<Rightarrow> bool" where
  "slot_fits desc slot \<longleftrightarrow> length (tts_values slot) = length desc \<and> length (tts_isnull slot) = length desc"

text \<open>Column \<open>i\<close> of the output is the input column of the same name; a dropped column is null.\<close>

definition column_carried :: "Form_pg_attribute list \<Rightarrow> 'd TupleTableSlot \<Rightarrow> Form_pg_attribute \<Rightarrow> 'd \<Rightarrow> bool \<Rightarrow> bool" where
  "column_carried indesc slot outatt val isnull \<longleftrightarrow>
     (\<exists>j. serves indesc j outatt \<and> val = tts_values slot ! j \<and> isnull = tts_isnull slot ! j)"

lemma map_columns_carried:
  assumes "list_all2 (mapped_to indesc) outdesc m" and "slot_fits indesc slot"
  shows "\<exists>cs. map_columns datum0 slot m = Inr cs \<and>
    list_all2 (\<lambda>outatt (val, isnull). if attisdropped outatt then isnull else column_carried indesc slot outatt val isnull) outdesc cs"
  using assms(1)
proof (induction outdesc m rule: list_all2_induct)
  case (Cons outatt outdesc a m)
  obtain cs where cs: "map_columns datum0 slot m = Inr cs"
    "list_all2 (\<lambda>outatt (val, isnull). if attisdropped outatt then isnull else column_carried indesc slot outatt val isnull) outdesc cs"
    using Cons.IH by blast
  have "\<exists>val isnull. map_column datum0 slot a = Inr (val, isnull) \<and>
      (if attisdropped outatt then isnull else column_carried indesc slot outatt val isnull)"
  proof (cases "attisdropped outatt")
    case True
    then show ?thesis using Cons.hyps by (auto simp: mapped_to_def map_column_def)
  next
    case False
    then obtain j where "a = int j + 1" "serves indesc j outatt" using Cons.hyps by (auto simp: mapped_to_def)
    moreover from this have "j < length indesc" by (simp add: serves_def)
    ultimately show ?thesis using False assms(2) by (auto simp: map_column_def slot_fits_def column_carried_def)
  qed
  with cs show ?case by fastforce
qed simp

text \<open>Claim C23. A row of a partition that is published under the name of a root table: the attribute map built by the search that
  wraps around in the partition's columns gives every live column of the root the value and null flag of the partition's column of
  the same name, type and type modifier; this holds with a map and where the code decides that none is needed.\<close>

theorem conversion_by_name:
  assumes "build_attrmap_by_name_if_req indesc outdesc False = Inr m" and "numbered indesc" and "slot_fits indesc slot"
  shows "\<exists>out. (case m of None \<Rightarrow> Inr slot | Some attrMap \<Rightarrow> execute_attr_map_slot datum0 attrMap slot) = Inr out \<and> slot_fits outdesc out \<and>
    (\<forall>i < length outdesc. \<not> attisdropped (outdesc ! i) \<longrightarrow> column_carried indesc slot (outdesc ! i) (tts_values out ! i) (tts_isnull out ! i))"
proof -
  obtain am where am: "attrmap_loop indesc False outdesc (-1) = Inr am" "m = (if check_attrmap_match indesc outdesc am then None else Some am)"
    using assms(1) by (auto simp: build_attrmap_by_name_if_req_def build_attrmap_by_name_def bindR_eq_Inr_iff)
  have ser: "list_all2 (mapped_to indesc) outdesc am" by (rule attrmap_loop_serves [OF am(1) assms(2)]) auto
  show ?thesis
  proof (cases m)
    case None
    then have match: "check_attrmap_match indesc outdesc am" using am(2) by (simp split: if_splits)
    have "column_carried indesc slot (outdesc ! i) (tts_values slot ! i) (tts_isnull slot ! i)"
      if "i < length outdesc" "\<not> attisdropped (outdesc ! i)" for i
    proof -
      have len: "length am = length outdesc" using ser by (simp add: list_all2_lengthD)
      have "mapped_to indesc (outdesc ! i) (am ! i)" using ser that(1) by (rule list_all2_nthD)
      then obtain j where j: "am ! i = int j + 1" "serves indesc j (outdesc ! i)" using \<open>\<not> attisdropped (outdesc ! i)\<close> by (auto simp: mapped_to_def)
      have "am ! i = int i + 1 \<or> am ! i = 0" using match \<open>i < length outdesc\<close> len unfolding check_attrmap_match_def set_upt atLeastLessThan_iff Ball_def
        by (metis le0)
      then have "j = i" using j(1) by linarith
      with j show ?thesis by (auto simp: column_carried_def)
    qed
    then show ?thesis using None match assms(3) by (auto simp: check_attrmap_match_def slot_fits_def)
  next
    case (Some attrMap)
    then have "attrMap = am" using am(2) by (simp split: if_splits)
    obtain cs where cs: "map_columns datum0 slot am = Inr cs"
      "list_all2 (\<lambda>outatt (val, isnull). if attisdropped outatt then isnull else column_carried indesc slot outatt val isnull) outdesc cs"
      using map_columns_carried [OF ser assms(3)] by blast
    let ?out = "\<lparr>tts_values = map fst cs, tts_isnull = map snd cs\<rparr>"
    have len: "length cs = length outdesc" using cs(2) by (simp add: list_all2_lengthD)
    have "column_carried indesc slot (outdesc ! i) (tts_values ?out ! i) (tts_isnull ?out ! i)"
      if "i < length outdesc" "\<not> attisdropped (outdesc ! i)" for i
      using list_all2_nthD [OF cs(2) that(1)] that len by (simp add: case_prod_beta)
    then show ?thesis using Some \<open>attrMap = am\<close> cs(1) len by (auto simp: execute_attr_map_slot_def slot_fits_def)
  qed
qed

definition demo_column :: "cstring \<Rightarrow> int \<Rightarrow> bool \<Rightarrow> Form_pg_attribute" where
  "demo_column name num dropped = \<lparr>attname = name, atttypid = 25, attlen = -1, attnum = num, atttypmod = -1,
     attgenerated = NUL, attisdropped = dropped, attalignby = 4, atthasmissing = False\<rparr>"

theorem conversion_by_name_witness:
  "\<exists>m out. build_attrmap_by_name_if_req [demo_column ''b'' 1 False, demo_column ''c'' 2 True, demo_column ''a'' 3 False]
       [demo_column ''a'' 1 False, demo_column ''b'' 2 False] False = Inr (Some m) \<and>
     execute_attr_map_slot ''0'' m \<lparr>tts_values = [''2'', [], ''1''], tts_isnull = [False, True, False]\<rparr> = Inr out \<and>
     tts_values out ! 0 = ''1'' \<and> \<not> tts_isnull out ! 0"
proof -
  let ?in = "[demo_column ''b'' 1 False, demo_column ''c'' 2 True, demo_column ''a'' 3 False]"
  let ?out = "[demo_column ''a'' 1 False, demo_column ''b'' 2 False]"
  let ?slot = "\<lparr>tts_values = [''2'', [], ''1''], tts_isnull = [False, True, False]\<rparr>"
  have m: "build_attrmap_by_name_if_req ?in ?out False = Inr (Some [3, 1])"
    by (simp add: build_attrmap_by_name_if_req_def build_attrmap_by_name_def check_attrmap_match_def demo_column_def Let_def numeral_3_eq_3)
  have n: "numbered ?in" "slot_fits ?in ?slot" by (auto simp: numbered_def slot_fits_def demo_column_def less_Suc_eq)
  from conversion_by_name [OF m n, of "''0''"] obtain out where
    o: "execute_attr_map_slot ''0'' [3, 1] ?slot = Inr out" "column_carried ?in ?slot (?out ! 0) (tts_values out ! 0) (tts_isnull out ! 0)"
    by (auto simp: demo_column_def)
  obtain j where j: "serves ?in j (?out ! 0)" "tts_values out ! 0 = tts_values ?slot ! j" "tts_isnull out ! 0 = tts_isnull ?slot ! j"
    using o(2) unfolding column_carried_def by blast
  from j(1) have "j = 2" by (auto simp: serves_def demo_column_def less_Suc_eq)
  then have "tts_values out ! 0 = ''1''" "\<not> tts_isnull out ! 0" using j(2,3) by simp_all
  with m o(1) show ?thesis by blast
qed

end
