(* ===== verification/PgOutput.thy ===== *)
theory PgOutput
  imports Publication
begin

text \<open>
  The output plugin of the publisher, \<^verbatim>\<open>src/backend/replication/pgoutput/pgoutput.c\<close>: which
  changes of a decoded transaction are sent, as what, and when the description of a table goes
  ahead of them. Around it stand the callback wrappers of \<^verbatim>\<open>src/backend/replication/logical/logical.c\<close>
  and the two functions of \<^verbatim>\<open>src/backend/replication/walsender.c\<close> that put a message on the
  connection. The catalogs are those of the snapshot of the decoded change and may differ from
  one callback to the next.
\<close>

abbreviation InvalidRepOriginId :: RepOriginId where "InvalidRepOriginId \<equiv> 0"
abbreviation LOGICALREP_STREAM_OFF :: byte where "LOGICALREP_STREAM_OFF \<equiv> CHR ''f''"
abbreviation LOGICALREP_STREAM_ON :: byte where "LOGICALREP_STREAM_ON \<equiv> CHR ''t''"
abbreviation LOGICALREP_STREAM_PARALLEL :: byte where "LOGICALREP_STREAM_PARALLEL \<equiv> CHR ''p''"

section \<open>State\<close>

datatype RowFilterPubAction = PUBACTION_INSERT | PUBACTION_UPDATE | PUBACTION_DELETE

text \<open>
  What the plugin remembers of a relation. A row filter is the list of expressions that are
  combined with OR; \<^const>\<open>None\<close> is the null pointer. The tuple slots and memory contexts of an entry
  hold no information of their own.
\<close>

record RelationSyncEntry =
  re_replicate_valid :: bool
  re_schema_sent :: bool
  re_include_gencols_type :: PublishGencolsType
  re_streamed_txns :: "TransactionId list"
  re_pubactions :: PublicationActions
  re_exprstate :: "RowFilterPubAction \<Rightarrow> cstring list option"
  re_publish_as_relid :: Oid
  re_attrmap :: "AttrMap option"
  re_columns :: Bitmapset

record PGOutputData =
  po_in_streaming :: bool
  po_protocol_version :: "32 word"
  po_publication_names :: "cstring list"
  po_publications :: "Publication list"
  po_binary :: bool
  po_streaming :: byte
  po_messages :: bool
  po_two_phase :: bool
  po_publish_no_origin :: bool

text \<open>
  The decoding context, the private data of the plugin and of the open transactions (by
  transaction id: whether BEGIN has been sent), the static variables, and what has been sent.
\<close>

record decoding =
  accept_writes :: bool
  prepared_write :: bool
  write_xid :: TransactionId
  write_location :: XLogRecPtr
  end_xact :: bool
  out_buf :: StringInfoData
  sent_messages :: "byte list list"
  progress :: "(XLogRecPtr \<times> bool) list"
  plugin :: PGOutputData
  sent_begin_txn :: "TransactionId \<rightharpoonup> bool"
  publications_valid :: bool
  RelationSyncCache :: "(Oid \<rightharpoonup> RelationSyncEntry) option"

text \<open>The surroundings: the catalogs, the encoding of the client, and the clock by message.\<close>

record 'd output_env =
  pubcat :: "'d pub_catalog"
  to_client :: "cstring \<Rightarrow> cstring"
  send_clock :: "nat \<Rightarrow> TimestampTz"

section \<open>Writing a message\<close>

definition WalSndPrepareWrite :: "XLogRecPtr \<Rightarrow> bool \<Rightarrow> decoding \<Rightarrow> decoding res" where
  "WalSndPrepareWrite lsn last_write st =
     (let lsn = (if last_write then lsn else InvalidXLogRecPtr)
      in bindR (resetStringInfo (out_buf st)) (\<lambda>s.
         bindR (seq_writes [pq_sendbyte (u8 (CHR ''w'')), pq_sendint64 lsn, pq_sendint64 lsn, pq_sendint64 0] s) (\<lambda>s.
         Inr (st\<lparr>out_buf := s\<rparr>))))"

text \<open>The time is copied over the eight bytes that were kept free for it; the rest is socket I/O.\<close>

definition WalSndWriteData :: "TimestampTz \<Rightarrow> decoding \<Rightarrow> decoding res" where
  "WalSndWriteData now st =
     bindR (mem_write (si_data (out_buf st)) (1 + 8 + 8) (be_bytes 8 (unat now))) (\<lambda>cells.
     bindR (mem_read cells 0 (si_len (out_buf st))) (\<lambda>bytes.
     Inr (st\<lparr>out_buf := (out_buf st)\<lparr>si_data := cells\<rparr>, sent_messages := sent_messages st @ [bytes]\<rparr>)))"

definition OutputPluginPrepareWrite :: "bool \<Rightarrow> decoding \<Rightarrow> decoding res" where
  "OutputPluginPrepareWrite last_write st =
     (if \<not> accept_writes st then Inl (PgError ''writes are only accepted in commit, begin and change callbacks'')
      else bindR (WalSndPrepareWrite (write_location st) last_write st) (\<lambda>st. Inr (st\<lparr>prepared_write := True\<rparr>)))"

definition OutputPluginWrite :: "'d output_env \<Rightarrow> decoding \<Rightarrow> decoding res" where
  "OutputPluginWrite env st =
     (if \<not> prepared_write st then Inl (PgError ''OutputPluginPrepareWrite needs to be called before OutputPluginWrite'')
      else bindR (WalSndWriteData (send_clock env (length (sent_messages st))) st) (\<lambda>st. Inr (st\<lparr>prepared_write := False\<rparr>)))"

definition OutputPluginUpdateProgress :: "bool \<Rightarrow> decoding \<Rightarrow> decoding" where
  "OutputPluginUpdateProgress skipped_xact st = st\<lparr>progress := progress st @ [(write_location st, skipped_xact)]\<rparr>"

text \<open>A message writer on the buffer of the context.\<close>

definition write_out :: "(StringInfoData \<Rightarrow> StringInfoData res) \<Rightarrow> decoding \<Rightarrow> decoding res" where
  "write_out w st = bindR (w (out_buf st)) (\<lambda>s. Inr (st\<lparr>out_buf := s\<rparr>))"

definition send_message :: "'d output_env \<Rightarrow> bool \<Rightarrow> (StringInfoData \<Rightarrow> StringInfoData res) \<Rightarrow> decoding \<Rightarrow> decoding res" where
  "send_message env last_write w st =
     bindR (OutputPluginPrepareWrite last_write st) (\<lambda>st. bindR (write_out w st) (OutputPluginWrite env))"

definition send_repl_origin :: "'d output_env \<Rightarrow> RepOriginId \<Rightarrow> XLogRecPtr \<Rightarrow> bool \<Rightarrow> decoding \<Rightarrow> decoding res" where
  "send_repl_origin env origin_id origin_lsn send_origin st =
     (if send_origin then
        (case replorigin_by_oid (pubcat env) origin_id of
           Some origin \<Rightarrow>
             bindR (OutputPluginWrite env st) (\<lambda>st.
             bindR (OutputPluginPrepareWrite True st) (\<lambda>st.
             write_out (logicalrep_write_origin (to_client env) origin origin_lsn) st))
         | None \<Rightarrow> Inr st)
      else Inr st)"

section \<open>What a relation publishes\<close>

fun LoadPublications :: "'d pub_catalog \<Rightarrow> cstring list \<Rightarrow> Publication list" where
  "LoadPublications cat [] = []"
| "LoadPublications cat (pubname # pubnames) =
     (case GetPublicationByName cat pubname of
        Some pub \<Rightarrow> pub # LoadPublications cat pubnames
      | None \<Rightarrow> LoadPublications cat pubnames)"

text \<open>The three actions with a row filter, as an index of arrays.\<close>

fun publishes :: "PublicationActions \<Rightarrow> RowFilterPubAction \<Rightarrow> bool" where
  "publishes acts PUBACTION_INSERT = pubinsert acts"
| "publishes acts PUBACTION_UPDATE = pubupdate acts"
| "publishes acts PUBACTION_DELETE = pubdelete acts"

text \<open>The filter of one publication: \<^const>\<open>None\<close> when it does not restrict the rows of the table.\<close>

definition pub_filter :: "'d pub_catalog \<Rightarrow> Oid \<Rightarrow> Publication \<Rightarrow> cstring option" where
  "pub_filter cat relid pub =
     (if \<not> pub_alltables pub \<and> \<not> PUBLICATIONNAMESPACEMAP cat (get_rel_namespace cat relid) (pub_oid pub)
      then case PUBLICATIONRELMAP cat relid (pub_oid pub) of Some rftuple \<Rightarrow> prqual rftuple | None \<Rightarrow> None
      else None)"

fun row_filter_loop ::
    "'d pub_catalog \<Rightarrow> Oid \<Rightarrow> Publication list \<Rightarrow> (RowFilterPubAction \<Rightarrow> bool) \<Rightarrow> (RowFilterPubAction \<Rightarrow> cstring list) \<Rightarrow>
     bool \<times> (RowFilterPubAction \<Rightarrow> bool) \<times> (RowFilterPubAction \<Rightarrow> cstring list)" where
  "row_filter_loop cat relid [] no_filter rfnodes = (True, no_filter, rfnodes)"
| "row_filter_loop cat relid (pub # pubs) no_filter rfnodes =
     (case pub_filter cat relid pub of
        None \<Rightarrow>
          (let no_filter = (\<lambda>a. no_filter a \<or> publishes (pub_actions pub) a)
           in if no_filter PUBACTION_INSERT \<and> no_filter PUBACTION_UPDATE \<and> no_filter PUBACTION_DELETE
              then (False, no_filter, rfnodes)
              else row_filter_loop cat relid pubs no_filter rfnodes)
      | Some rfdatum \<Rightarrow>
          row_filter_loop cat relid pubs no_filter
            (\<lambda>a. if publishes (pub_actions pub) a \<and> \<not> no_filter a then rfnodes a @ [rfdatum] else rfnodes a))"

definition pgoutput_row_filter_init ::
    "'d pub_catalog \<Rightarrow> Publication list \<Rightarrow> RelationSyncEntry \<Rightarrow> RelationSyncEntry res" where
  "pgoutput_row_filter_init cat publications entry =
     (case row_filter_loop cat (re_publish_as_relid entry) publications (\<lambda>_. False) (\<lambda>_. []) of
        (has_filter, no_filter, rfnodes) \<Rightarrow>
          let rfnodes = (\<lambda>a. if no_filter a then [] else rfnodes a)
          in if has_filter
             then bindR (open_relation cat (re_publish_as_relid entry)) (\<lambda>relation.
               Inr (entry\<lparr>re_exprstate := (\<lambda>a. if rfnodes a = [] then re_exprstate entry a else Some (rfnodes a))\<rparr>))
             else Inr entry)"

fun gencol_loop :: "'d pub_catalog \<Rightarrow> Publication list \<Rightarrow> bool \<Rightarrow> RelationSyncEntry \<Rightarrow> RelationSyncEntry res" where
  "gencol_loop cat [] first entry = Inr entry"
| "gencol_loop cat (pub # pubs) first entry =
     bindR (check_and_fetch_column_list cat pub (re_publish_as_relid entry)) (\<lambda>(found, _).
     if found then gencol_loop cat pubs first entry
     else if first then gencol_loop cat pubs False (entry\<lparr>re_include_gencols_type := pub_gencols_type pub\<rparr>)
     else if re_include_gencols_type entry \<noteq> pub_gencols_type pub
     then Inl (PgError ''cannot use different values of publish_generated_columns for table in different publications'')
     else gencol_loop cat pubs False entry)"

definition check_and_init_gencol :: "'d pub_catalog \<Rightarrow> Publication list \<Rightarrow> RelationSyncEntry \<Rightarrow> RelationSyncEntry res" where
  "check_and_init_gencol cat publications entry =
     bindR (open_relation cat (re_publish_as_relid entry)) (\<lambda>relation.
     if \<not> list_ex (\<lambda>att. attgenerated att \<noteq> NUL) (rd_att relation)
     then Inr (entry\<lparr>re_include_gencols_type := PUBLISH_GENCOLS_NONE\<rparr>)
     else gencol_loop cat publications True entry)"

text \<open>
  The columns of all publications must agree; \<open>relcols\<close> are the columns of the table, computed
  for the first publication without a column list when there are several publications.
\<close>

fun column_list_loop ::
    "'d pub_catalog \<Rightarrow> Relation \<Rightarrow> bool \<Rightarrow> Publication list \<Rightarrow> bool \<Rightarrow> bool \<Rightarrow> Bitmapset \<Rightarrow> RelationSyncEntry \<Rightarrow> (bool \<times> RelationSyncEntry) res" where
  "column_list_loop cat relation several [] first found_pub_collist relcols entry = Inr (found_pub_collist, entry)"
| "column_list_loop cat relation several (pub # pubs) first found_pub_collist relcols entry =
     bindR (check_and_fetch_column_list cat pub (re_publish_as_relid entry)) (\<lambda>(found, cols).
     let found_pub_collist = (found_pub_collist \<or> found)
     in bindR
       (if cols = [] then
          bindR (if relcols = [] \<and> several then pub_form_cols_map relation (re_include_gencols_type entry) else Inr relcols)
            (\<lambda>relcols. Inr (relcols, relcols))
        else Inr (cols, relcols))
       (\<lambda>(cols, relcols).
        if first then column_list_loop cat relation several pubs False found_pub_collist relcols (entry\<lparr>re_columns := cols\<rparr>)
        else if \<not> bms_equal (re_columns entry) cols
        then Inl (PgError ''cannot use different column lists for table in different publications'')
        else column_list_loop cat relation several pubs False found_pub_collist relcols entry))"

definition pgoutput_column_list_init :: "'d pub_catalog \<Rightarrow> Publication list \<Rightarrow> RelationSyncEntry \<Rightarrow> RelationSyncEntry res" where
  "pgoutput_column_list_init cat publications entry =
     bindR (open_relation cat (re_publish_as_relid entry)) (\<lambda>relation.
     bindR (column_list_loop cat relation (1 < length publications) publications True False [] entry) (\<lambda>(found_pub_collist, entry).
     Inr (if \<not> found_pub_collist then entry\<lparr>re_columns := []\<rparr> else entry)))"

definition init_tuple_slot :: "'d pub_catalog \<Rightarrow> Relation \<Rightarrow> RelationSyncEntry \<Rightarrow> RelationSyncEntry res" where
  "init_tuple_slot cat relation entry =
     (if re_publish_as_relid entry \<noteq> rd_id relation
      then bindR (open_relation cat (re_publish_as_relid entry)) (\<lambda>ancestor.
           bindR (build_attrmap_by_name_if_req (rd_att relation) (rd_att ancestor) False) (\<lambda>attrMap.
           Inr (entry\<lparr>re_attrmap := attrMap\<rparr>)))
      else Inr entry)"

text \<open>One publication: does it publish the relation, as which relation, and at which ancestor level?\<close>

definition pub_target :: "'d pub_catalog \<Rightarrow> Oid \<Rightarrow> Publication \<Rightarrow> (bool \<times> Oid \<times> nat) res" where
  "pub_target cat relid pub =
     (let am_partition = get_rel_relispartition cat relid;
          ancestors = get_partition_ancestors cat relid
      in if pub_alltables pub
         then if pub_viaroot pub \<and> am_partition
              then if ancestors = [] then Inl (Undefined NullPointer)
                   else Inr (True, last ancestors, length ancestors)
              else Inr (True, relid, 0)
         else let (ancestor, level) = (if am_partition then GetTopMostAncestorInPublication cat (pub_oid pub) ancestors else (InvalidOid, 0));
                  ancestor_published = (ancestor \<noteq> InvalidOid);
                  publish = (pub_oid pub \<in> set (GetRelationPublications cat relid) \<or>
                    pub_oid pub \<in> set (GetSchemaPublications cat (get_rel_namespace cat relid)) \<or> ancestor_published)
              in Inr (if ancestor_published \<and> pub_viaroot pub then (publish, ancestor, level) else (publish, relid, 0)))"

definition add_actions :: "PublicationActions \<Rightarrow> PublicationActions \<Rightarrow> PublicationActions" where
  "add_actions acts new =
     \<lparr>pubinsert = pubinsert acts \<or> pubinsert new, pubupdate = pubupdate acts \<or> pubupdate new,
      pubdelete = pubdelete acts \<or> pubdelete new, pubtruncate = pubtruncate acts \<or> pubtruncate new\<rparr>"

fun publication_loop ::
    "'d pub_catalog \<Rightarrow> Oid \<Rightarrow> Publication list \<Rightarrow> PublicationActions \<times> Oid \<times> nat \<times> Publication list \<Rightarrow>
     (PublicationActions \<times> Oid \<times> nat \<times> Publication list) res" where
  "publication_loop cat relid [] acc = Inr acc"
| "publication_loop cat relid (pub # pubs) (acts, publish_as_relid, publish_ancestor_level, rel_publications) =
     bindR (pub_target cat relid pub) (\<lambda>(publish, pub_relid, ancestor_level).
     if publish \<and> (get_rel_relkind cat relid \<noteq> RELKIND_PARTITIONED_TABLE \<or> pub_viaroot pub)
     then let acts = add_actions acts (pub_actions pub)
          in if ancestor_level < publish_ancestor_level
             then publication_loop cat relid pubs (acts, publish_as_relid, publish_ancestor_level, rel_publications)
             else if publish_ancestor_level < ancestor_level
             then publication_loop cat relid pubs (acts, pub_relid, ancestor_level, [pub])
             else publication_loop cat relid pubs (acts, publish_as_relid, publish_ancestor_level, rel_publications @ [pub])
     else publication_loop cat relid pubs (acts, publish_as_relid, publish_ancestor_level, rel_publications))"

definition no_actions :: PublicationActions where
  "no_actions = \<lparr>pubinsert = False, pubupdate = False, pubdelete = False, pubtruncate = False\<rparr>"

definition new_entry :: RelationSyncEntry where
  "new_entry = \<lparr>re_replicate_valid = False, re_schema_sent = False, re_include_gencols_type = PUBLISH_GENCOLS_NONE,
     re_streamed_txns = [], re_pubactions = no_actions, re_exprstate = (\<lambda>_. None), re_publish_as_relid = InvalidOid,
     re_attrmap = None, re_columns = []\<rparr>"

text \<open>The entry of a relation, rebuilt after an invalidation: everything it held is forgotten first.\<close>

definition blank_entry :: "RelationSyncEntry \<Rightarrow> RelationSyncEntry" where
  "blank_entry entry = entry\<lparr>re_schema_sent := False, re_include_gencols_type := PUBLISH_GENCOLS_NONE, re_streamed_txns := [],
     re_columns := [], re_pubactions := no_actions, re_attrmap := None, re_exprstate := (\<lambda>_. None)\<rparr>"

definition fill_entry :: "'d pub_catalog \<Rightarrow> Publication list \<Rightarrow> Relation \<Rightarrow> RelationSyncEntry \<Rightarrow> RelationSyncEntry res" where
  "fill_entry cat rel_publications relation entry =
     (if pubinsert (re_pubactions entry) \<or> pubupdate (re_pubactions entry) \<or> pubdelete (re_pubactions entry)
      then bindR (init_tuple_slot cat relation entry) (\<lambda>entry.
           bindR (pgoutput_row_filter_init cat rel_publications entry) (\<lambda>entry.
           bindR (check_and_init_gencol cat rel_publications entry) (\<lambda>entry.
           pgoutput_column_list_init cat rel_publications entry)))
      else Inr entry)"

definition rebuild_entry :: "'d pub_catalog \<Rightarrow> Publication list \<Rightarrow> Relation \<Rightarrow> RelationSyncEntry \<Rightarrow> RelationSyncEntry res" where
  "rebuild_entry cat publications relation entry =
     bindR (publication_loop cat (rd_id relation) publications (no_actions, rd_id relation, 0, [])) (\<lambda>(acts, publish_as_relid, _, rel_publications).
     bindR (fill_entry cat rel_publications relation ((blank_entry entry)\<lparr>re_pubactions := acts, re_publish_as_relid := publish_as_relid\<rparr>)) (\<lambda>entry.
     Inr (entry\<lparr>re_replicate_valid := True\<rparr>)))"

definition get_rel_sync_entry :: "'d pub_catalog \<Rightarrow> Relation \<Rightarrow> decoding \<Rightarrow> (RelationSyncEntry \<times> decoding) res" where
  "get_rel_sync_entry cat relation st =
     (case RelationSyncCache st of
        None \<Rightarrow> Inl (Undefined NullPointer)
      | Some cache \<Rightarrow>
          let entry = (case cache (rd_id relation) of Some entry \<Rightarrow> entry | None \<Rightarrow> new_entry)
          in if re_replicate_valid entry then Inr (entry, st)
             else let st = (if publications_valid st then st
                    else st\<lparr>plugin := (plugin st)\<lparr>po_publications := LoadPublications cat (po_publication_names (plugin st))\<rparr>,
                            publications_valid := True\<rparr>)
                  in bindR (rebuild_entry cat (po_publications (plugin st)) relation entry) (\<lambda>entry.
                     Inr (entry, st\<lparr>RelationSyncCache := Some (cache(rd_id relation \<mapsto> entry))\<rparr>)))"

section \<open>Row filters\<close>

text \<open>OR of SQL: true as soon as one argument is, else null if one is null.\<close>

fun or_clause :: "bool option list \<Rightarrow> bool option" where
  "or_clause [] = Some False"
| "or_clause (Some True # vs) = Some True"
| "or_clause (Some False # vs) = or_clause vs"
| "or_clause (None # vs) = (case or_clause vs of Some True \<Rightarrow> Some True | _ \<Rightarrow> None)"

definition pgoutput_row_filter_exec_expr :: "'d pub_catalog \<Rightarrow> cstring list \<Rightarrow> 'd TupleTableSlot \<Rightarrow> bool" where
  "pgoutput_row_filter_exec_expr cat filters slot =
     (case or_clause (map (\<lambda>f. ExecEvalExpr cat f slot) filters) of None \<Rightarrow> False | Some b \<Rightarrow> b)"

text \<open>The kinds of change for which the reorder buffer calls the change callback.\<close>

datatype ReorderBufferChangeType = REORDER_BUFFER_CHANGE_INSERT | REORDER_BUFFER_CHANGE_UPDATE | REORDER_BUFFER_CHANGE_DELETE

fun map_changetype_pubaction :: "ReorderBufferChangeType \<Rightarrow> RowFilterPubAction" where
  "map_changetype_pubaction REORDER_BUFFER_CHANGE_INSERT = PUBACTION_INSERT"
| "map_changetype_pubaction REORDER_BUFFER_CHANGE_UPDATE = PUBACTION_UPDATE"
| "map_changetype_pubaction REORDER_BUFFER_CHANGE_DELETE = PUBACTION_DELETE"

text \<open>
  Values that are stored out of line and were not changed are missing in the new row; those of
  the identity columns are in the old row, from where they are taken.
\<close>

definition copy_unchanged ::
    "'d catalog \<Rightarrow> Relation \<Rightarrow> 'd TupleTableSlot \<Rightarrow> 'd TupleTableSlot \<Rightarrow> 'd TupleTableSlot" where
  "copy_unchanged cat relation old_slot new_slot =
     new_slot\<lparr>tts_values := map (\<lambda>(att, (nval, nnull), (oval, onull)).
         if nnull \<or> onull then nval
         else if attlen att = -1 \<and> VARATT_IS_EXTERNAL_ONDISK cat nval \<and> \<not> VARATT_IS_EXTERNAL_ONDISK cat oval then oval
         else nval)
       (zip (rd_att relation) (zip (zip (tts_values new_slot) (tts_isnull new_slot)) (zip (tts_values old_slot) (tts_isnull old_slot))))\<rparr>"

text \<open>
  \<^const>\<open>None\<close>: the change is not sent. Otherwise the new row to use and the action. A change without
  any row, which the code excludes by an assertion, is not sent either.
\<close>

definition pgoutput_row_filter ::
    "'d pub_catalog \<Rightarrow> Relation \<Rightarrow> 'd TupleTableSlot option \<Rightarrow> 'd TupleTableSlot option \<Rightarrow> RelationSyncEntry \<Rightarrow>
     ReorderBufferChangeType \<Rightarrow> ('d TupleTableSlot option \<times> ReorderBufferChangeType) option" where
  "pgoutput_row_filter cat relation old_slot new_slot entry action =
     (case re_exprstate entry (map_changetype_pubaction action) of
        None \<Rightarrow> Some (new_slot, action)
      | Some filters \<Rightarrow>
          let exec = pgoutput_row_filter_exec_expr cat filters
          in (case (old_slot, new_slot) of
                (None, None) \<Rightarrow> None
              | (None, Some new) \<Rightarrow> if exec new then Some (new_slot, action) else None
              | (Some old, None) \<Rightarrow> if exec old then Some (new_slot, action) else None
              | (Some old, Some new) \<Rightarrow>
                  let tmp_new = copy_unchanged (syscat cat) relation old new;
                      old_matched = exec old;
                      new_matched = exec tmp_new
                  in if \<not> old_matched \<and> \<not> new_matched then None
                     else if \<not> old_matched then Some (Some tmp_new, REORDER_BUFFER_CHANGE_INSERT)
                     else if \<not> new_matched then Some (new_slot, REORDER_BUFFER_CHANGE_DELETE)
                     else Some (new_slot, action)))"

section \<open>Descriptions\<close>

text \<open>
  A change; the fields of the C union for rows and for TRUNCATE stand side by side. A decoded
  tuple is the values and null flags of its columns.
\<close>

record 'd ReorderBufferChange =
  ch_lsn :: XLogRecPtr
  ch_action :: ReorderBufferChangeType
  ch_txn :: ReorderBufferTXN
  ch_oldtuple :: "'d TupleTableSlot option"
  ch_newtuple :: "'d TupleTableSlot option"
  ch_cascade :: bool
  ch_restart_seqs :: bool

fun send_types :: "'d output_env \<Rightarrow> TransactionId \<Rightarrow> RelationSyncEntry \<Rightarrow> Form_pg_attribute list \<Rightarrow> decoding \<Rightarrow> decoding res" where
  "send_types env xid relentry [] st = Inr st"
| "send_types env xid relentry (att # atts) st =
     (if \<not> logicalrep_should_publish_column att (re_columns relentry) (re_include_gencols_type relentry)
      then send_types env xid relentry atts st
      else if atttypid att < FirstGenbkiObjectId then send_types env xid relentry atts st
      else bindR (send_message env False (logicalrep_write_typ (to_client env) (syscat (pubcat env)) xid (atttypid att)) st)
        (send_types env xid relentry atts))"

definition send_relation_and_attrs ::
    "'d output_env \<Rightarrow> Relation \<Rightarrow> TransactionId \<Rightarrow> RelationSyncEntry \<Rightarrow> decoding \<Rightarrow> decoding res" where
  "send_relation_and_attrs env relation xid relentry st =
     bindR (send_types env xid relentry (rd_att relation) st)
       (send_message env False
          (logicalrep_write_rel (to_client env) (syscat (pubcat env)) xid relation (re_columns relentry) (re_include_gencols_type relentry)))"

definition get_schema_sent_in_streamed_txn :: "RelationSyncEntry \<Rightarrow> TransactionId \<Rightarrow> bool" where
  "get_schema_sent_in_streamed_txn entry xid \<longleftrightarrow> xid \<in> set (re_streamed_txns entry)"

definition set_schema_sent_in_streamed_txn :: "RelationSyncEntry \<Rightarrow> TransactionId \<Rightarrow> RelationSyncEntry" where
  "set_schema_sent_in_streamed_txn entry xid = entry\<lparr>re_streamed_txns := re_streamed_txns entry @ [xid]\<rparr>"

text \<open>The entry of a relation is changed in place.\<close>

definition put_entry :: "Oid \<Rightarrow> RelationSyncEntry \<Rightarrow> decoding \<Rightarrow> decoding" where
  "put_entry relid entry st = st\<lparr>RelationSyncCache := map_option (\<lambda>cache. cache(relid \<mapsto> entry)) (RelationSyncCache st)\<rparr>"

definition maybe_send_schema ::
    "'d output_env \<Rightarrow> 'd ReorderBufferChange \<Rightarrow> Relation \<Rightarrow> RelationSyncEntry \<Rightarrow> decoding \<Rightarrow> decoding res" where
  "maybe_send_schema env change relation relentry st =
     (let in_streaming = po_in_streaming (plugin st);
          xid = (if in_streaming then txn_xid (ch_txn change) else InvalidTransactionId);
          topxid = (case txn_toptxn (ch_txn change) of Some toptxn \<Rightarrow> toptxn | None \<Rightarrow> xid);
          schema_sent = (if in_streaming then get_schema_sent_in_streamed_txn relentry topxid else re_schema_sent relentry)
      in if schema_sent then Inr st
         else bindR
           (if re_publish_as_relid relentry \<noteq> rd_id relation
            then bindR (open_relation (pubcat env) (re_publish_as_relid relentry)) (\<lambda>ancestor.
                 send_relation_and_attrs env ancestor xid relentry st)
            else Inr st) (\<lambda>st.
           bindR (send_relation_and_attrs env relation xid relentry st) (\<lambda>st.
           Inr (put_entry (rd_id relation)
             (if in_streaming then set_schema_sent_in_streamed_txn relentry topxid else relentry\<lparr>re_schema_sent := True\<rparr>) st))))"

section \<open>Transactions\<close>

definition pgoutput_begin_txn :: "ReorderBufferTXN \<Rightarrow> decoding \<Rightarrow> decoding res" where
  "pgoutput_begin_txn txn st = Inr (st\<lparr>sent_begin_txn := (sent_begin_txn st)(txn_xid txn \<mapsto> False)\<rparr>)"

definition pgoutput_send_begin :: "'d output_env \<Rightarrow> ReorderBufferTXN \<Rightarrow> decoding \<Rightarrow> decoding res" where
  "pgoutput_send_begin env txn st =
     (let send_replication_origin = (txn_origin_id txn \<noteq> InvalidRepOriginId)
      in bindR (OutputPluginPrepareWrite (\<not> send_replication_origin) st) (\<lambda>st.
         bindR (write_out (logicalrep_write_begin txn) st) (\<lambda>st.
         let st = st\<lparr>sent_begin_txn := (sent_begin_txn st)(txn_xid txn \<mapsto> True)\<rparr>
         in bindR (send_repl_origin env (txn_origin_id txn) (txn_origin_lsn txn) send_replication_origin st)
              (OutputPluginWrite env))))"

text \<open>BEGIN goes ahead of the first message of a transaction that has private data.\<close>

definition ensure_begin :: "'d output_env \<Rightarrow> ReorderBufferTXN \<Rightarrow> decoding \<Rightarrow> decoding res" where
  "ensure_begin env txn st = (if sent_begin_txn st (txn_xid txn) = Some False then pgoutput_send_begin env txn st else Inr st)"

definition pgoutput_commit_txn :: "'d output_env \<Rightarrow> ReorderBufferTXN \<Rightarrow> XLogRecPtr \<Rightarrow> decoding \<Rightarrow> decoding res" where
  "pgoutput_commit_txn env txn commit_lsn st =
     (case sent_begin_txn st (txn_xid txn) of
        None \<Rightarrow> Inl (Undefined NullPointer)
      | Some sent_begin \<Rightarrow>
          let st = OutputPluginUpdateProgress (\<not> sent_begin) st;
              st = st\<lparr>sent_begin_txn := (sent_begin_txn st)(txn_xid txn := None)\<rparr>
          in if \<not> sent_begin then Inr st
             else send_message env True (logicalrep_write_commit txn commit_lsn) st)"

definition pgoutput_begin_prepare_txn :: "'d output_env \<Rightarrow> ReorderBufferTXN \<Rightarrow> decoding \<Rightarrow> decoding res" where
  "pgoutput_begin_prepare_txn env txn st =
     (let send_replication_origin = (txn_origin_id txn \<noteq> InvalidRepOriginId)
      in bindR (OutputPluginPrepareWrite (\<not> send_replication_origin) st) (\<lambda>st.
         bindR (write_out (logicalrep_write_begin_prepare (to_client env) txn) st) (\<lambda>st.
         bindR (send_repl_origin env (txn_origin_id txn) (txn_origin_lsn txn) send_replication_origin st)
           (OutputPluginWrite env))))"

definition pgoutput_prepare_txn :: "'d output_env \<Rightarrow> ReorderBufferTXN \<Rightarrow> XLogRecPtr \<Rightarrow> decoding \<Rightarrow> decoding res" where
  "pgoutput_prepare_txn env txn prepare_lsn st =
     send_message env True (logicalrep_write_prepare (to_client env) txn prepare_lsn) (OutputPluginUpdateProgress False st)"

definition pgoutput_commit_prepared_txn :: "'d output_env \<Rightarrow> ReorderBufferTXN \<Rightarrow> XLogRecPtr \<Rightarrow> decoding \<Rightarrow> decoding res" where
  "pgoutput_commit_prepared_txn env txn commit_lsn st =
     send_message env True (logicalrep_write_commit_prepared (to_client env) txn commit_lsn) (OutputPluginUpdateProgress False st)"

definition pgoutput_rollback_prepared_txn ::
    "'d output_env \<Rightarrow> ReorderBufferTXN \<Rightarrow> XLogRecPtr \<Rightarrow> TimestampTz \<Rightarrow> decoding \<Rightarrow> decoding res" where
  "pgoutput_rollback_prepared_txn env txn prepare_end_lsn prepare_time st =
     send_message env True (logicalrep_write_rollback_prepared (to_client env) txn prepare_end_lsn prepare_time)
       (OutputPluginUpdateProgress False st)"

section \<open>Changes\<close>

definition convert_tuple :: "'d output_env \<Rightarrow> RelationSyncEntry \<Rightarrow> 'd TupleTableSlot option \<Rightarrow> 'd TupleTableSlot option res" where
  "convert_tuple env relentry tup =
     (case (tup, re_attrmap relentry) of
        (Some slot, Some attrMap) \<Rightarrow> bindR (execute_attr_map_slot (Datum0 (pubcat env)) attrMap slot) (\<lambda>slot. Inr (Some slot))
      | _ \<Rightarrow> Inr tup)"

definition action_published :: "RelationSyncEntry \<Rightarrow> 'd ReorderBufferChange \<Rightarrow> bool" where
  "action_published relentry change =
     (case ch_action change of
        REORDER_BUFFER_CHANGE_INSERT \<Rightarrow> pubinsert (re_pubactions relentry)
      | REORDER_BUFFER_CHANGE_UPDATE \<Rightarrow> pubupdate (re_pubactions relentry)
      | REORDER_BUFFER_CHANGE_DELETE \<Rightarrow> pubdelete (re_pubactions relentry) \<and> ch_oldtuple change \<noteq> None)"

definition write_change ::
    "'d output_env \<Rightarrow> bool \<Rightarrow> TransactionId \<Rightarrow> Relation \<Rightarrow> RelationSyncEntry \<Rightarrow> 'd TupleTableSlot option \<Rightarrow> 'd TupleTableSlot option \<Rightarrow>
     ReorderBufferChangeType \<Rightarrow> StringInfoData \<Rightarrow> StringInfoData res" where
  "write_change env bin xid targetrel relentry old_slot new_slot action s =
     (case action of
        REORDER_BUFFER_CHANGE_INSERT \<Rightarrow>
          (case new_slot of
             None \<Rightarrow> Inl (Undefined NullPointer)
           | Some new \<Rightarrow> logicalrep_write_insert (to_client env) (syscat (pubcat env)) xid targetrel new bin
               (re_columns relentry) (re_include_gencols_type relentry) s)
      | REORDER_BUFFER_CHANGE_UPDATE \<Rightarrow>
          (case new_slot of
             None \<Rightarrow> Inl (Undefined NullPointer)
           | Some new \<Rightarrow> logicalrep_write_update (to_client env) (syscat (pubcat env)) xid targetrel old_slot new bin
               (re_columns relentry) (re_include_gencols_type relentry) s)
      | REORDER_BUFFER_CHANGE_DELETE \<Rightarrow>
          (case old_slot of
             None \<Rightarrow> Inl (Undefined NullPointer)
           | Some old \<Rightarrow> logicalrep_write_delete (to_client env) (syscat (pubcat env)) xid targetrel old bin
               (re_columns relentry) (re_include_gencols_type relentry) s))"

definition pgoutput_change :: "'d output_env \<Rightarrow> ReorderBufferTXN \<Rightarrow> Relation \<Rightarrow> 'd ReorderBufferChange \<Rightarrow> decoding \<Rightarrow> decoding res" where
  "pgoutput_change env txn relation change st =
     (if \<not> is_publishable_relation relation then Inr st
      else let xid = (if po_in_streaming (plugin st) then txn_xid (ch_txn change) else InvalidTransactionId)
      in bindR (get_rel_sync_entry (pubcat env) relation st) (\<lambda>(relentry, st).
         if \<not> action_published relentry change then Inr st
         else bindR
           (if re_publish_as_relid relentry \<noteq> rd_id relation then open_relation (pubcat env) (re_publish_as_relid relentry)
            else Inr relation) (\<lambda>targetrel.
           bindR (convert_tuple env relentry (ch_oldtuple change)) (\<lambda>old_slot.
           bindR (convert_tuple env relentry (ch_newtuple change)) (\<lambda>new_slot.
           case pgoutput_row_filter (pubcat env) targetrel old_slot new_slot relentry (ch_action change) of
             None \<Rightarrow> Inr st
           | Some (new_slot, action) \<Rightarrow>
               bindR (ensure_begin env txn st) (\<lambda>st.
               bindR (maybe_send_schema env change relation relentry st) (\<lambda>st.
               send_message env True
                 (write_change env (po_binary (plugin st)) xid targetrel relentry old_slot new_slot action) st)))))))"

text \<open>The relations of a TRUNCATE that are sent, each with its description.\<close>

fun truncate_loop ::
    "'d output_env \<Rightarrow> ReorderBufferTXN \<Rightarrow> 'd ReorderBufferChange \<Rightarrow> Relation list \<Rightarrow> decoding \<Rightarrow> (Oid list \<times> decoding) res" where
  "truncate_loop env txn change [] st = Inr ([], st)"
| "truncate_loop env txn change (relation # relations) st =
     (if \<not> is_publishable_relation relation then truncate_loop env txn change relations st
      else bindR (get_rel_sync_entry (pubcat env) relation st) (\<lambda>(relentry, st).
        if \<not> pubtruncate (re_pubactions relentry) then truncate_loop env txn change relations st
        else if rd_relispartition relation \<and> re_publish_as_relid relentry \<noteq> rd_id relation
        then truncate_loop env txn change relations st
        else bindR (ensure_begin env txn st) (\<lambda>st.
             bindR (maybe_send_schema env change relation relentry st) (\<lambda>st.
             bindR (truncate_loop env txn change relations st) (\<lambda>(relids, st).
             Inr (rd_id relation # relids, st))))))"

definition pgoutput_truncate :: "'d output_env \<Rightarrow> ReorderBufferTXN \<Rightarrow> Relation list \<Rightarrow> 'd ReorderBufferChange \<Rightarrow> decoding \<Rightarrow> decoding res" where
  "pgoutput_truncate env txn relations change st =
     (let xid = (if po_in_streaming (plugin st) then txn_xid (ch_txn change) else InvalidTransactionId)
      in bindR (truncate_loop env txn change relations st) (\<lambda>(relids, st).
         if relids \<noteq> [] then send_message env True (logicalrep_write_truncate xid relids (ch_cascade change) (ch_restart_seqs change)) st
         else Inr st))"

text \<open>A non-transactional message may come without a transaction; its id is read while streaming only.\<close>

definition pgoutput_message ::
    "'d output_env \<Rightarrow> ReorderBufferTXN option \<Rightarrow> XLogRecPtr \<Rightarrow> bool \<Rightarrow> cstring \<Rightarrow> byte list \<Rightarrow> decoding \<Rightarrow> decoding res" where
  "pgoutput_message env txn message_lsn transactional prefix message st =
     (if \<not> po_messages (plugin st) then Inr st
      else bindR
        (if po_in_streaming (plugin st)
         then case txn of Some txn \<Rightarrow> Inr (txn_xid txn) | None \<Rightarrow> Inl (Undefined NullPointer)
         else Inr InvalidTransactionId) (\<lambda>xid.
        bindR (if transactional
               then case txn of Some txn \<Rightarrow> ensure_begin env txn st | None \<Rightarrow> Inl (Undefined NullPointer)
               else Inr st) (\<lambda>st.
        send_message env True (logicalrep_write_message (to_client env) xid message_lsn transactional prefix message) st)))"

definition pgoutput_origin_filter :: "RepOriginId \<Rightarrow> decoding \<Rightarrow> bool" where
  "pgoutput_origin_filter origin_id st \<longleftrightarrow> po_publish_no_origin (plugin st) \<and> origin_id \<noteq> InvalidRepOriginId"

definition pgoutput_shutdown :: "decoding \<Rightarrow> decoding" where
  "pgoutput_shutdown st = st\<lparr>RelationSyncCache := None\<rparr>"

section \<open>Streamed transactions\<close>

definition pgoutput_stream_start :: "'d output_env \<Rightarrow> ReorderBufferTXN \<Rightarrow> decoding \<Rightarrow> decoding res" where
  "pgoutput_stream_start env txn st =
     (let send_replication_origin = (txn_origin_id txn \<noteq> InvalidRepOriginId \<and> \<not> txn_is_streamed txn)
      in bindR (OutputPluginPrepareWrite (\<not> send_replication_origin) st) (\<lambda>st.
         bindR (write_out (logicalrep_write_stream_start (txn_xid txn) (\<not> txn_is_streamed txn)) st) (\<lambda>st.
         bindR (send_repl_origin env (txn_origin_id txn) InvalidXLogRecPtr send_replication_origin st) (\<lambda>st.
         bindR (OutputPluginWrite env st) (\<lambda>st.
         Inr (st\<lparr>plugin := (plugin st)\<lparr>po_in_streaming := True\<rparr>\<rparr>))))))"

definition pgoutput_stream_stop :: "'d output_env \<Rightarrow> decoding \<Rightarrow> decoding res" where
  "pgoutput_stream_stop env st =
     bindR (send_message env True logicalrep_write_stream_stop st) (\<lambda>st.
     Inr (st\<lparr>plugin := (plugin st)\<lparr>po_in_streaming := False\<rparr>\<rparr>))"

definition cleanup_entry :: "TransactionId \<Rightarrow> bool \<Rightarrow> RelationSyncEntry \<Rightarrow> RelationSyncEntry" where
  "cleanup_entry xid is_commit entry =
     (if xid \<in> set (re_streamed_txns entry)
      then entry\<lparr>re_schema_sent := is_commit \<or> re_schema_sent entry, re_streamed_txns := remove1 xid (re_streamed_txns entry)\<rparr>
      else entry)"

definition cleanup_rel_sync_cache :: "TransactionId \<Rightarrow> bool \<Rightarrow> decoding \<Rightarrow> decoding res" where
  "cleanup_rel_sync_cache xid is_commit st =
     (case RelationSyncCache st of
        None \<Rightarrow> Inl (Undefined NullPointer)
      | Some cache \<Rightarrow> Inr (st\<lparr>RelationSyncCache := Some (map_option (cleanup_entry xid is_commit) \<circ> cache)\<rparr>))"

definition pgoutput_stream_abort :: "'d output_env \<Rightarrow> ReorderBufferTXN \<Rightarrow> XLogRecPtr \<Rightarrow> decoding \<Rightarrow> decoding res" where
  "pgoutput_stream_abort env txn abort_lsn st =
     (let write_abort_info = (po_streaming (plugin st) = LOGICALREP_STREAM_PARALLEL);
          topxid = (case txn_toptxn txn of Some toptxn \<Rightarrow> toptxn | None \<Rightarrow> txn_xid txn)
      in bindR (send_message env True (logicalrep_write_stream_abort topxid (txn_xid txn) abort_lsn (txn_xact_time txn) write_abort_info) st)
           (cleanup_rel_sync_cache topxid False))"

definition pgoutput_stream_commit :: "'d output_env \<Rightarrow> ReorderBufferTXN \<Rightarrow> XLogRecPtr \<Rightarrow> decoding \<Rightarrow> decoding res" where
  "pgoutput_stream_commit env txn commit_lsn st =
     bindR (send_message env True (logicalrep_write_stream_commit txn commit_lsn) (OutputPluginUpdateProgress False st))
       (cleanup_rel_sync_cache (txn_xid txn) True)"

definition pgoutput_stream_prepare_txn :: "'d output_env \<Rightarrow> ReorderBufferTXN \<Rightarrow> XLogRecPtr \<Rightarrow> decoding \<Rightarrow> decoding res" where
  "pgoutput_stream_prepare_txn env txn prepare_lsn st =
     send_message env True (logicalrep_write_stream_prepare (to_client env) txn prepare_lsn) (OutputPluginUpdateProgress False st)"

section \<open>Invalidation\<close>

definition publication_invalidation_cb :: "decoding \<Rightarrow> decoding" where
  "publication_invalidation_cb st = st\<lparr>publications_valid := False\<rparr>"

definition invalid_entry :: "RelationSyncEntry \<Rightarrow> RelationSyncEntry" where
  "invalid_entry entry = entry\<lparr>re_replicate_valid := False\<rparr>"

definition rel_sync_cache_relation_cb :: "Oid \<Rightarrow> decoding \<Rightarrow> decoding" where
  "rel_sync_cache_relation_cb relid st =
     (case RelationSyncCache st of
        None \<Rightarrow> st
      | Some cache \<Rightarrow>
          st\<lparr>RelationSyncCache := Some
            (if relid \<noteq> InvalidOid then (case cache relid of Some entry \<Rightarrow> cache(relid \<mapsto> invalid_entry entry) | None \<Rightarrow> cache)
             else map_option invalid_entry \<circ> cache)\<rparr>)"

definition rel_sync_cache_publication_cb :: "decoding \<Rightarrow> decoding" where
  "rel_sync_cache_publication_cb st =
     (case RelationSyncCache st of
        None \<Rightarrow> st
      | Some cache \<Rightarrow> st\<lparr>RelationSyncCache := Some (map_option invalid_entry \<circ> cache)\<rparr>)"

definition init_rel_sync_cache :: "decoding \<Rightarrow> decoding" where
  "init_rel_sync_cache st = (if RelationSyncCache st = None then st\<lparr>RelationSyncCache := Some (\<lambda>_. None)\<rparr> else st)"

section \<open>The callbacks as the reorder buffer calls them\<close>

definition set_output_state :: "TransactionId \<Rightarrow> XLogRecPtr \<Rightarrow> bool \<Rightarrow> decoding \<Rightarrow> decoding" where
  "set_output_state xid lsn ends st = st\<lparr>accept_writes := True, write_xid := xid, write_location := lsn, end_xact := ends\<rparr>"

definition begin_cb_wrapper :: "ReorderBufferTXN \<Rightarrow> decoding \<Rightarrow> decoding res" where
  "begin_cb_wrapper txn st = pgoutput_begin_txn txn (set_output_state (txn_xid txn) (txn_first_lsn txn) False st)"

definition commit_cb_wrapper :: "'d output_env \<Rightarrow> ReorderBufferTXN \<Rightarrow> XLogRecPtr \<Rightarrow> decoding \<Rightarrow> decoding res" where
  "commit_cb_wrapper env txn commit_lsn st =
     pgoutput_commit_txn env txn commit_lsn (set_output_state (txn_xid txn) (txn_end_lsn txn) True st)"

definition change_cb_wrapper ::
    "'d output_env \<Rightarrow> ReorderBufferTXN \<Rightarrow> Relation \<Rightarrow> 'd ReorderBufferChange \<Rightarrow> decoding \<Rightarrow> decoding res" where
  "change_cb_wrapper env txn relation change st =
     pgoutput_change env txn relation change (set_output_state (txn_xid txn) (ch_lsn change) False st)"

definition truncate_cb_wrapper ::
    "'d output_env \<Rightarrow> ReorderBufferTXN \<Rightarrow> Relation list \<Rightarrow> 'd ReorderBufferChange \<Rightarrow> decoding \<Rightarrow> decoding res" where
  "truncate_cb_wrapper env txn relations change st =
     pgoutput_truncate env txn relations change (set_output_state (txn_xid txn) (ch_lsn change) False st)"

definition message_cb_wrapper ::
    "'d output_env \<Rightarrow> ReorderBufferTXN option \<Rightarrow> XLogRecPtr \<Rightarrow> bool \<Rightarrow> cstring \<Rightarrow> byte list \<Rightarrow> decoding \<Rightarrow> decoding res" where
  "message_cb_wrapper env txn message_lsn transactional prefix message st =
     pgoutput_message env txn message_lsn transactional prefix message
       (set_output_state (case txn of Some txn \<Rightarrow> txn_xid txn | None \<Rightarrow> InvalidTransactionId) message_lsn False st)"

definition filter_by_origin_cb_wrapper :: "RepOriginId \<Rightarrow> decoding \<Rightarrow> bool \<times> decoding" where
  "filter_by_origin_cb_wrapper origin_id st =
     (let st = st\<lparr>accept_writes := False, end_xact := False\<rparr> in (pgoutput_origin_filter origin_id st, st))"

definition stream_start_cb_wrapper :: "'d output_env \<Rightarrow> ReorderBufferTXN \<Rightarrow> XLogRecPtr \<Rightarrow> decoding \<Rightarrow> decoding res" where
  "stream_start_cb_wrapper env txn first_lsn st = pgoutput_stream_start env txn (set_output_state (txn_xid txn) first_lsn False st)"

definition stream_stop_cb_wrapper :: "'d output_env \<Rightarrow> ReorderBufferTXN \<Rightarrow> XLogRecPtr \<Rightarrow> decoding \<Rightarrow> decoding res" where
  "stream_stop_cb_wrapper env txn last_lsn st = pgoutput_stream_stop env (set_output_state (txn_xid txn) last_lsn False st)"

definition stream_abort_cb_wrapper :: "'d output_env \<Rightarrow> ReorderBufferTXN \<Rightarrow> XLogRecPtr \<Rightarrow> decoding \<Rightarrow> decoding res" where
  "stream_abort_cb_wrapper env txn abort_lsn st =
     pgoutput_stream_abort env txn abort_lsn (set_output_state (txn_xid txn) abort_lsn True st)"

definition stream_commit_cb_wrapper :: "'d output_env \<Rightarrow> ReorderBufferTXN \<Rightarrow> XLogRecPtr \<Rightarrow> decoding \<Rightarrow> decoding res" where
  "stream_commit_cb_wrapper env txn commit_lsn st =
     pgoutput_stream_commit env txn commit_lsn (set_output_state (txn_xid txn) (txn_end_lsn txn) True st)"

definition stream_prepare_cb_wrapper :: "'d output_env \<Rightarrow> ReorderBufferTXN \<Rightarrow> XLogRecPtr \<Rightarrow> decoding \<Rightarrow> decoding res" where
  "stream_prepare_cb_wrapper env txn prepare_lsn st =
     pgoutput_stream_prepare_txn env txn prepare_lsn (set_output_state (txn_xid txn) (txn_end_lsn txn) True st)"

definition stream_change_cb_wrapper ::
    "'d output_env \<Rightarrow> ReorderBufferTXN \<Rightarrow> Relation \<Rightarrow> 'd ReorderBufferChange \<Rightarrow> decoding \<Rightarrow> decoding res" where
  "stream_change_cb_wrapper env txn relation change st =
     pgoutput_change env txn relation change (set_output_state (txn_xid txn) (ch_lsn change) False st)"

definition stream_truncate_cb_wrapper ::
    "'d output_env \<Rightarrow> ReorderBufferTXN \<Rightarrow> Relation list \<Rightarrow> 'd ReorderBufferChange \<Rightarrow> decoding \<Rightarrow> decoding res" where
  "stream_truncate_cb_wrapper env txn relations change st =
     pgoutput_truncate env txn relations change (set_output_state (txn_xid txn) (ch_lsn change) False st)"

definition stream_message_cb_wrapper ::
    "'d output_env \<Rightarrow> ReorderBufferTXN option \<Rightarrow> XLogRecPtr \<Rightarrow> bool \<Rightarrow> cstring \<Rightarrow> byte list \<Rightarrow> decoding \<Rightarrow> decoding res" where
  "stream_message_cb_wrapper env txn message_lsn transactional prefix message st =
     pgoutput_message env txn message_lsn transactional prefix message
       (set_output_state (case txn of Some txn \<Rightarrow> txn_xid txn | None \<Rightarrow> InvalidTransactionId) message_lsn False st)"

definition begin_prepare_cb_wrapper :: "'d output_env \<Rightarrow> ReorderBufferTXN \<Rightarrow> decoding \<Rightarrow> decoding res" where
  "begin_prepare_cb_wrapper env txn st = pgoutput_begin_prepare_txn env txn (set_output_state (txn_xid txn) (txn_first_lsn txn) False st)"

definition prepare_cb_wrapper :: "'d output_env \<Rightarrow> ReorderBufferTXN \<Rightarrow> XLogRecPtr \<Rightarrow> decoding \<Rightarrow> decoding res" where
  "prepare_cb_wrapper env txn prepare_lsn st = pgoutput_prepare_txn env txn prepare_lsn (set_output_state (txn_xid txn) (txn_end_lsn txn) True st)"

definition commit_prepared_cb_wrapper :: "'d output_env \<Rightarrow> ReorderBufferTXN \<Rightarrow> XLogRecPtr \<Rightarrow> decoding \<Rightarrow> decoding res" where
  "commit_prepared_cb_wrapper env txn commit_lsn st =
     pgoutput_commit_prepared_txn env txn commit_lsn (set_output_state (txn_xid txn) (txn_end_lsn txn) True st)"

definition rollback_prepared_cb_wrapper ::
    "'d output_env \<Rightarrow> ReorderBufferTXN \<Rightarrow> XLogRecPtr \<Rightarrow> TimestampTz \<Rightarrow> decoding \<Rightarrow> decoding res" where
  "rollback_prepared_cb_wrapper env txn prepare_end_lsn prepare_time st =
     pgoutput_rollback_prepared_txn env txn prepare_end_lsn prepare_time (set_output_state (txn_xid txn) (txn_end_lsn txn) True st)"

end
