(* ===== verification/ChangeStream.thy ===== *)
theory ChangeStream
  imports WorkerPublish
begin

text \<open>
  The messages of a stream of transactions, one at a time: what each of them means, which
  sequences a publisher may send, and what the worker has done after each. The worker may be
  stopped between any two messages, which is what its main loop does.
\<close>

section \<open>Streams\<close>

datatype element =
  Begin LogicalRepBeginData
| Describe LogicalRepRelation
| Change Oid LogicalRepRelation change_row
| Commit LogicalRepCommitData
| Note

text \<open>
  The bytes of a message and what they stand for; the relation of a change is not in the message.
  A \<open>Note\<close> is a description of a type or a logical message, which the subscriber does not use.
\<close>

inductive means :: "(cstring \<Rightarrow> cstring) \<Rightarrow> byte list \<Rightarrow> element \<Rightarrow> bool" for c2s where
  begin_tx: "parses logicalrep_read_begin bs bd \<Longrightarrow> means c2s (CHR ''B'' # bs) (Begin bd)"
| describe: "parses (logicalrep_read_rel c2s) bs rel \<Longrightarrow> means c2s (CHR ''R'' # bs) (Describe rel)"
| change: "row_message m relid ch \<Longrightarrow> means c2s m (Change relid rel ch)"
| commit_tx: "parses logicalrep_read_commit bs cd \<Longrightarrow> means c2s (CHR ''C'' # bs) (Commit cd)"
| type_note: "parses (logicalrep_read_typ c2s) bs ltyp \<Longrightarrow> means c2s (CHR ''Y'' # bs) Note"
| message_note: "means c2s (CHR ''M'' # bs) Note"

inductive_cases means_Begin: "means c2s m (Begin bd)"
inductive_cases means_Describe: "means c2s m (Describe rel)"
inductive_cases means_Change: "means c2s m (Change relid rel ch)"
inductive_cases means_Commit: "means c2s m (Commit cd)"
inductive_cases means_Note: "means c2s m Note"

text \<open>A description that can be matched with a local table.\<close>

definition fresh_entry :: "LogicalRepRelation \<Rightarrow> LogicalRepRelMapEntry" where
  "fresh_entry copy = \<lparr>remoterel = copy, localrelvalid = False, localreloid = 0, localrel = None,
     attrmap = None, updatable = False, localindexoid = 0, state = NUL, statelsn = 0\<rparr>"

definition resolvable :: "local_catalog \<Rightarrow> LogicalRepRelation \<Rightarrow> bool" where
  "resolvable cat rel \<longleftrightarrow> (\<exists>copy e. copy_remoterel rel = Inr copy \<and> rebuild_by_name cat (fresh_entry copy) = Inr e)"

definition description :: "LogicalRepRelation \<Rightarrow> LogicalRepRelation" where
  "description rel = (case copy_remoterel rel of Inr copy \<Rightarrow> copy | Inl _ \<Rightarrow> rel)"

text \<open>
  \<open>known\<close> are the descriptions sent so far, \<open>tx\<close> the commit position that the open transaction
  has announced. A change refers to the last description of its relation.
\<close>

type_synonym descriptions = "Oid \<rightharpoonup> LogicalRepRelation"

fun element_ok :: "cstring \<Rightarrow> local_catalog \<Rightarrow> descriptions \<Rightarrow> XLogRecPtr option \<Rightarrow> element \<Rightarrow> bool" where
  "element_ok db cat known tx (Begin bd) \<longleftrightarrow> tx = None"
| "element_ok db cat known tx (Describe rel) \<longleftrightarrow> resolvable cat rel"
| "element_ok db cat known tx (Change relid rel ch) \<longleftrightarrow> tx \<noteq> None \<and> known relid = Some rel \<and> publishable db rel ch"
| "element_ok db cat known tx (Commit cd) \<longleftrightarrow> tx = Some (cd_commit_lsn cd)"
| "element_ok db cat known tx Note \<longleftrightarrow> True"

fun known_after :: "element \<Rightarrow> descriptions \<Rightarrow> descriptions" where
  "known_after (Describe rel) known = known(remoteid rel \<mapsto> description rel)"
| "known_after el known = known"

fun tx_after :: "element \<Rightarrow> XLogRecPtr option \<Rightarrow> XLogRecPtr option" where
  "tx_after (Begin bd) tx = Some (bd_final_lsn bd)"
| "tx_after (Commit cd) tx = None"
| "tx_after el tx = tx"

fun stream_ok :: "cstring \<Rightarrow> local_catalog \<Rightarrow> descriptions \<Rightarrow> XLogRecPtr option \<Rightarrow> element list \<Rightarrow> bool" where
  "stream_ok db cat known tx [] \<longleftrightarrow> True"
| "stream_ok db cat known tx (el # els) \<longleftrightarrow>
     element_ok db cat known tx el \<and> stream_ok db cat (known_after el known) (tx_after el tx) els"

fun element_texts :: "cstring \<Rightarrow> element \<Rightarrow> byte list list" where
  "element_texts db (Change relid rel ch) = [change_text db rel ch]"
| "element_texts db el = []"

definition stream_texts :: "cstring \<Rightarrow> element list \<Rightarrow> byte list list" where
  "stream_texts db els = concat (map (element_texts db) els)"

section \<open>The worker between two messages\<close>

definition stage ::
    "('w \<Rightarrow> byte list list) \<Rightarrow> cstring \<Rightarrow> ('w, 'rk, 'rkt, 'r) worker_env \<Rightarrow> descriptions \<Rightarrow> XLogRecPtr option \<Rightarrow> ('w, 'rk, 'rkt) worker \<Rightarrow> bool" where
  "stage accepted db env known tx w \<longleftrightarrow>
     applying accepted db env w \<and> MySubscriptionValid w \<and> sub_skiplsn (MySubscription w) = InvalidXLogRecPtr \<and>
     \<not> xid_assigned (xact w) \<and> XactLastRecEnd (xact w) = 0 \<and>
     blockState (xact w) \<in> {TBLOCK_DEFAULT, TBLOCK_STARTED} \<and> (tx = None \<longrightarrow> blockState (xact w) = TBLOCK_DEFAULT) \<and>
     (\<forall>lsn. tx = Some lsn \<longrightarrow> remote_final_lsn w = lsn) \<and>
     (\<forall>relid rel. known relid = Some rel \<longrightarrow> usable (local_cat env) relid rel (relations w))"

lemma stage_idle: "stage accepted db env known None w \<Longrightarrow> idle accepted db env w"
  by (simp add: stage_def idle_def)

lemma idle_stage:
  "idle accepted db env w \<Longrightarrow> \<forall>relid rel. known relid = Some rel \<longrightarrow> usable (local_cat env) relid rel (relations w) \<Longrightarrow> stage accepted db env known None w"
  by (simp add: stage_def idle_def)

lemma stage_lsn_map [simp]: "stage accepted db env known tx (w\<lparr>lsn_map := m\<rparr>) \<longleftrightarrow> stage accepted db env known tx w"
  by (simp add: stage_def applying_def is_skipping_changes_def)

lemma described_usable:
  assumes "resolvable cat rel"
  obtains rm' where "logicalrep_relmap_update rel rm = Inr rm'" and "rm' = rm(remoteid rel \<mapsto> fresh_entry (description rel))"
    and "usable cat (remoteid rel) (description rel) rm'"
proof -
  obtain copy e where c: "copy_remoterel rel = Inr copy" "rebuild_by_name cat (fresh_entry copy) = Inr e"
    using assms by (auto simp: resolvable_def)
  let ?rm = "rm(remoteid rel \<mapsto> fresh_entry copy)"
  have "usable cat (remoteid rel) copy ?rm"
    using c(2) rebuild_by_name_resolved [OF c(2)]
    by (auto simp: usable_def logicalrep_rel_open_def reopen_by_oid_def fresh_entry_def Let_def)
  then show thesis using c(1)
    by (intro that [of ?rm]) (simp_all add: logicalrep_relmap_update_def description_def fresh_entry_def)
qed

lemma dispatch_relation:
  assumes "parses (logicalrep_read_rel (to_server env)) bs rel" and "resolvable (local_cat env) rel"
    and w: "applying accepted db env w" and s: "carries s (CHR ''R'' # bs)"
  shows "\<exists>rm. apply_dispatch (Suc depth) env s w = Inr (w\<lparr>relations := rm\<rparr>) \<and> relmap_ok (local_cat env) rm \<and>
    rm = (relations w)(remoteid rel \<mapsto> fresh_entry (description rel)) \<and> usable (local_cat env) (remoteid rel) (description rel) rm"
proof -
  obtain s' where r: "logicalrep_read_rel (to_server env) (advance 1 s) = Inr (rel, s')" using parse_carried [OF assms(1) s] by blast
  obtain rm where rm: "logicalrep_relmap_update rel (relations w) = Inr rm"
    "rm = (relations w)(remoteid rel \<mapsto> fresh_entry (description rel))" "usable (local_cat env) (remoteid rel) (description rel) rm"
    by (rule described_usable [OF assms(2)])
  have "relmap_ok (local_cat env) rm" using relmap_update_ok [OF _ rm(1)] w by (simp add: applying_def)
  moreover have "apply_dispatch (Suc depth) env s w = Inr (w\<lparr>relations := rm\<rparr>)"
    using r rm(1) w
    by (simp add: dispatch_carried [OF s] dispatch_action_def apply_handle_relation_def handle_streamed_transaction_def
        get_transaction_apply_action_def applying_def)
  ultimately show ?thesis using rm by blast
qed

text \<open>What a message adds to the tracking list: a commit of a transaction that has published something.\<close>

fun tracked_by :: "element \<Rightarrow> ('w, 'rk, 'rkt) worker \<Rightarrow> lsn_mapping" where
  "tracked_by (Commit cd) w =
     (if blockState (xact w) = TBLOCK_STARTED then [\<lparr>local_end = XactLastCommitEnd (xact w), remote_end = cd_end_lsn cd\<rparr>] else [])"
| "tracked_by el w = []"

text \<open>What one message does: \<open>w'\<close> is the next stage, and the local log and the origin stand still.\<close>

definition element_done ::
    "('w \<Rightarrow> byte list list) \<Rightarrow> cstring \<Rightarrow> ('w, 'rk, 'rkt, 'r) worker_env \<Rightarrow> descriptions \<Rightarrow> XLogRecPtr option \<Rightarrow> element \<Rightarrow>
     ('w, 'rk, 'rkt) worker \<Rightarrow> ('w, 'rk, 'rkt) worker \<Rightarrow> bool" where
  "element_done accepted db env known tx el w w' \<longleftrightarrow>
     stage accepted db env (known_after el known) (tx_after el tx) w' \<and>
     handed_over_all accepted (element_texts db el) (pub w) (pub w') \<and> lsn_map w' = lsn_map w @ tracked_by el w \<and>
     XactLastCommitEnd (xact w') = XactLastCommitEnd (xact w) \<and> wal_end (xact w') = wal_end (xact w) \<and>
     origin_remote_lsn (xact w') = origin_remote_lsn (xact w)"

lemma handed_over_one: "handed_over accepted m p p' \<Longrightarrow> handed_over_all accepted [m] p p'"
  by (rule handed_over_all_Cons [OF _ handed_over_all_Nil])

lemma begin_applied:
  assumes "stage accepted db env known tx w" and "means (to_server env) m (Begin bd)" and "tx = None" and s: "carries s m"
  shows "\<exists>w'. apply_dispatch (Suc depth) env s w = Inr w' \<and> element_done accepted db env known tx (Begin bd) w w'"
proof -
  obtain bs where m: "m = CHR ''B'' # bs" "parses logicalrep_read_begin bs bd" using assms(2) by (rule means_Begin)
  have i: "idle accepted db env w" using assms(1,3) stage_idle by blast
  obtain w' where w': "apply_dispatch (Suc depth) env s w = Inr w'" "idle accepted db env w'"
    "remote_final_lsn w' = bd_final_lsn bd" "pub w' = pub w" "relations w' = relations w" "xact w' = xact w" "lsn_map w' = lsn_map w"
    using dispatch_begin [OF m(2) i] s m(1) by blast
  then have "stage accepted db env known (Some (bd_final_lsn bd)) w'" using assms(1) by (auto simp: stage_def idle_def)
  then show ?thesis using w' by (auto simp: element_done_def)
qed

lemma describe_applied:
  assumes st: "stage accepted db env known tx w" and "means (to_server env) m (Describe rel)" and "resolvable (local_cat env) rel" and s: "carries s m"
  shows "\<exists>w'. apply_dispatch (Suc depth) env s w = Inr w' \<and> element_done accepted db env known tx (Describe rel) w w'"
proof -
  obtain bs where m: "m = CHR ''R'' # bs" "parses (logicalrep_read_rel (to_server env)) bs rel" using assms(2) by (rule means_Describe)
  have a: "applying accepted db env w" using st by (simp add: stage_def)
  obtain rm where rm: "apply_dispatch (Suc depth) env s w = Inr (w\<lparr>relations := rm\<rparr>)" "relmap_ok (local_cat env) rm"
    "rm = (relations w)(remoteid rel \<mapsto> fresh_entry (description rel))" "usable (local_cat env) (remoteid rel) (description rel) rm"
    using dispatch_relation [OF m(2) assms(3) a] s m(1) by blast
  have "usable (local_cat env) relid rel' rm" if "known_after (Describe rel) known relid = Some rel'" for relid rel'
    using that rm(3,4) st usable_other [of relid "remoteid rel"] by (auto simp: stage_def split: if_splits)
  then have "stage accepted db env (known_after (Describe rel) known) tx (w\<lparr>relations := rm\<rparr>)"
    using st rm(2) by (auto simp: stage_def applying_def is_skipping_changes_def)
  then show ?thesis using rm(1) by (auto simp: element_done_def)
qed

lemma change_applied:
  fixes env :: "('w, 'rk, 'rkt, 'r::zero) worker_env"
  assumes lib: "client_contract (kafka_lib env) accepted" "sprintf_fits (doubles env)"
    and st: "stage accepted db env known tx w" and "means (to_server env) m (Change relid rel ch)"
    and ok: "tx \<noteq> None" "known relid = Some rel" "publishable db rel ch" and s: "carries s m"
  shows "\<exists>w'. apply_dispatch (Suc depth) env s w = Inr w' \<and> element_done accepted db env known tx (Change relid rel ch) w w'"
proof -
  have m: "row_message m relid ch" using assms(4) by (rule means_Change)
  have a: "applying accepted db env w" and u: "usable (local_cat env) relid rel (relations w)" using st ok(2) by (auto simp: stage_def)
  obtain w' where w': "apply_dispatch (Suc depth) env s w = Inr w'" "applying accepted db env w'"
    "row_applied accepted (change_text db rel ch) (local_cat env) w w'"
    using dispatch_row [OF lib a m s u ok(3)] by blast
  obtain p rm where eq: "w' = w\<lparr>pub := p, relations := rm, xact := in_xact (xact w)\<rparr>"
  proof
    have "xact w' = in_xact (xact w)" using w'(3) by (simp add: row_applied_def in_xact_def)
    then show "w' = w\<lparr>pub := pub w', relations := relations w', xact := in_xact (xact w)\<rparr>" using w'(3) unfolding row_applied_def by metis
  qed
  have x: "in_xact (xact w) = (xact w)\<lparr>blockState := TBLOCK_STARTED\<rparr>"
    using st by (auto simp: in_xact_def stage_def IsTransactionState_def StartTransaction_def)
  have eq: "w' = w\<lparr>pub := p, relations := rm, xact := (xact w)\<lparr>blockState := TBLOCK_STARTED\<rparr>\<rparr>" using eq x by simp
  have "\<forall>relid rel. usable (local_cat env) relid rel (relations w) \<longrightarrow> usable (local_cat env) relid rel (relations w')"
    and h: "handed_over_all accepted [change_text db rel ch] (pub w) (pub w')"
    using w'(3) handed_over_one unfolding row_applied_def by blast+
  then have "stage accepted db env known tx w'" using st w'(2) ok(1) by (auto simp: stage_def eq)
  then show ?thesis using w'(1) h by (simp add: element_done_def) (simp add: eq)
qed

lemma commit_applied:
  fixes env :: "('w, 'rk, 'rkt, 'r::zero) worker_env"
  assumes "no_table_syncs env" and st: "stage accepted db env known tx w" and "means (to_server env) m (Commit cd)"
    and tx: "tx = Some (cd_commit_lsn cd)" and s: "carries s m"
  shows "\<exists>w'. apply_dispatch (Suc depth) env s w = Inr w' \<and> element_done accepted db env known tx (Commit cd) w w'"
proof -
  obtain bs where m: "m = CHR ''C'' # bs" "parses logicalrep_read_commit bs cd" using assms(3) by (rule means_Commit)
  have fin: "cd_commit_lsn cd = remote_final_lsn w" using st tx by (simp add: stage_def)
  let ?c = "w\<lparr>err_command := CHR ''C''\<rparr>"
  have "\<exists>w1. apply_handle_commit_internal env cd ?c = Inr w1 \<and> element_done accepted db env known tx (Commit cd) w w1"
  proof (cases "blockState (xact w) = TBLOCK_STARTED")
    case True
    have pre: "\<not> is_skipping_changes ?c" "blockState (xact ?c) = TBLOCK_STARTED" "\<not> xid_assigned (xact ?c)"
      "XactLastRecEnd (xact ?c) = 0" "sub_skiplsn (MySubscription ?c) = InvalidXLogRecPtr"
      using st True by (simp_all add: stage_def applying_def is_skipping_changes_def)
    show ?thesis unfolding commit_without_writes [OF pre] using st True
      by (simp add: element_done_def stage_def applying_def is_skipping_changes_def IsTransactionState_def)
  next
    case False
    then have i: "idle accepted db env ?c" using st by (auto simp: stage_def idle_def)
    show ?thesis unfolding commit_of_nothing [OF i] using st False
      by (simp add: element_done_def stage_def applying_def is_skipping_changes_def)
  qed
  then obtain w1 where w1: "apply_handle_commit_internal env cd ?c = Inr w1" "element_done accepted db env known tx (Commit cd) w w1" by blast
  let ?w' = "(reset_apply_error_context_info w1)\<lparr>err_command := err_command w\<rparr>"
  have "apply_dispatch (Suc depth) env s w = Inr ?w'"
    using dispatch_commit [OF m(2) fin assms(1) w1(1)] s m(1) by blast
  moreover have "element_done accepted db env known tx (Commit cd) w ?w'" using w1(2)
    by (simp add: element_done_def stage_def applying_def is_skipping_changes_def reset_apply_error_context_info_def set_apply_error_context_xact_def)
  ultimately show ?thesis by blast
qed

lemma note_applied:
  assumes st: "stage accepted db env known tx w" and "means (to_server env) m Note" and s: "carries s m"
  shows "\<exists>w'. apply_dispatch (Suc depth) env s w = Inr w' \<and> element_done accepted db env known tx Note w w'"
proof -
  have a: "applying accepted db env w" using st by (simp add: stage_def)
  consider (description) bs ltyp where "m = CHR ''Y'' # bs" "parses (logicalrep_read_typ (to_server env)) bs ltyp"
    | (message) bs where "m = CHR ''M'' # bs" using assms(2) by (auto elim: means_Note)
  then have "apply_dispatch (Suc depth) env s w = Inr w"
  proof cases
    case description
    from parse_carried [OF description(2) s [unfolded description(1)]] obtain s' where
      "logicalrep_read_typ (to_server env) (advance 1 s) = Inr (ltyp, s')" by blast
    then show ?thesis using a
      by (simp add: dispatch_carried [OF s [unfolded description(1)]] dispatch_action_def apply_handle_type_def handle_streamed_transaction_def
          get_transaction_apply_action_def applying_def)
  next
    case message
    show ?thesis using a by (simp add: dispatch_carried [OF s [unfolded message]] dispatch_action_def applying_def)
  qed
  then show ?thesis using st by (simp add: element_done_def)
qed

lemma element_applied:
  fixes env :: "('w, 'rk, 'rkt, 'r::zero) worker_env"
  assumes "client_contract (kafka_lib env) accepted" and "sprintf_fits (doubles env)" and "no_table_syncs env"
    and "stage accepted db env known tx w" and "means (to_server env) m el" and "element_ok db (local_cat env) known tx el" and "carries s m"
  shows "\<exists>w'. apply_dispatch (Suc depth) env s w = Inr w' \<and> element_done accepted db env known tx el w w'"
proof (cases el)
  case (Begin bd)
  then show ?thesis using begin_applied [OF assms(4) _ _ assms(7)] assms(5,6) by simp
next
  case (Describe rel)
  then show ?thesis using describe_applied [OF assms(4) _ _ assms(7)] assms(5,6) by simp
next
  case (Change relid rel ch)
  then show ?thesis using change_applied [OF assms(1,2,4) _ _ _ _ assms(7)] assms(5,6) by auto
next
  case (Commit cd)
  then show ?thesis using commit_applied [OF assms(3,4) _ _ assms(7)] assms(5,6) by simp
next
  case Note
  then show ?thesis using note_applied [OF assms(4) _ assms(7)] assms(5) by simp
qed

end
