(* ===== verification/ApplyLoop.thy ===== *)
theory ApplyLoop
  imports ChangeStream
begin

text \<open>
  The main loop of the apply worker (\<^verbatim>\<open>LogicalRepApplyLoop\<close> of
  \<^verbatim>\<open>src/backend/replication/logical/worker.c\<close>): it receives the messages of the publisher,
  passes the changes to the dispatcher, answers keepalives, reports positions, and watches for
  silence. What the connection delivers, the clock and the position to which the local log is on
  disk are the input of the loop, one record per wait.
\<close>

section \<open>State and input\<close>

record arrival =
  arr_bytes :: "byte list"
  arr_time :: TimestampTz
  arr_flush :: XLogRecPtr

text \<open>
  One iteration of the outer loop: the messages that are available, whether the stream ends
  behind them, and what the wait that follows returns.
\<close>

record loop_round =
  arrivals :: "arrival list"
  stream_ended :: bool
  round_time :: TimestampTz
  round_flush :: XLogRecPtr
  timed_out :: bool
  wake_time :: TimestampTz
  wake_flush :: XLogRecPtr

record worker_stats =
  ws_last_lsn :: XLogRecPtr
  ws_last_send_time :: TimestampTz
  ws_last_recv_time :: TimestampTz
  ws_reply_lsn :: XLogRecPtr
  ws_reply_time :: TimestampTz

record ('w, 'rk, 'rkt) apply_loop =
  wrk :: "('w, 'rk, 'rkt) worker"
  fback :: feedback
  last_received :: XLogRecPtr
  last_recv_timestamp :: TimestampTz
  ping_sent :: bool
  wstats :: worker_stats

record ('w, 'rk, 'rkt, 'r) loop_env =
  wenv :: "('w, 'rk, 'rkt, 'r) worker_env"
  dispatch_depth :: nat
  wal_receiver_timeout :: int
  wal_receiver_status_interval :: int
  AcceptInvalidationMessages :: "('w, 'rk, 'rkt) worker \<Rightarrow> ('w, 'rk, 'rkt) worker"

section \<open>The loop\<close>

definition UpdateWorkerStats :: "XLogRecPtr \<Rightarrow> TimestampTz \<Rightarrow> bool \<Rightarrow> TimestampTz \<Rightarrow> worker_stats \<Rightarrow> worker_stats" where
  "UpdateWorkerStats last_lsn sent_at reply now ws =
     (let ws = ws\<lparr>ws_last_lsn := last_lsn, ws_last_send_time := sent_at, ws_last_recv_time := now\<rparr>
      in if reply then ws\<lparr>ws_reply_lsn := last_lsn, ws_reply_time := sent_at\<rparr> else ws)"

text \<open>\<^verbatim>\<open>send_feedback\<close> with the variables it shares with the loop.\<close>

definition loop_feedback ::
    "('w, 'rk, 'rkt, 'r) loop_env \<Rightarrow> XLogRecPtr \<Rightarrow> TimestampTz \<Rightarrow> bool \<Rightarrow> bool \<Rightarrow> ('w, 'rk, 'rkt) apply_loop \<Rightarrow> ('w, 'rk, 'rkt) apply_loop res" where
  "loop_feedback env local_flush now force requestReply st =
     bindR (send_feedback local_flush now (wal_receiver_status_interval env) (last_received st) force requestReply (lsn_map (wrk st), fback st))
       (\<lambda>(m, fb). Inr (st\<lparr>wrk := (wrk st)\<lparr>lsn_map := m\<rparr>, fback := fb\<rparr>))"

definition advance_received :: "XLogRecPtr \<Rightarrow> ('w, 'rk, 'rkt) apply_loop \<Rightarrow> ('w, 'rk, 'rkt) apply_loop" where
  "advance_received lsn st = (if last_received st < lsn then st\<lparr>last_received := lsn\<rparr> else st)"

text \<open>One message of the stream: changes, a keepalive, or something else, which is ignored.\<close>

definition handle_message ::
    "('w, 'rk, 'rkt, 'r::zero) loop_env \<Rightarrow> arrival \<Rightarrow> ('w, 'rk, 'rkt) apply_loop \<Rightarrow> ('w, 'rk, 'rkt) apply_loop res" where
  "handle_message env a st =
     (let st = st\<lparr>last_recv_timestamp := arr_time a, ping_sent := False\<rparr>
      in bindR (pq_getmsgbyte (received (arr_bytes a))) (\<lambda>(c, s).
         if c = CHR ''w'' then
           bindR (pq_getmsgint64 s) (\<lambda>(start_lsn, s).
           bindR (pq_getmsgint64 s) (\<lambda>(end_lsn, s).
           bindR (pq_getmsgint64 s) (\<lambda>(sent_at, s).
           let st = advance_received end_lsn (advance_received start_lsn st);
               st = st\<lparr>wstats := UpdateWorkerStats (last_received st) sent_at False (arr_time a) (wstats st)\<rparr>
           in bindR (apply_dispatch (dispatch_depth env) (wenv env) s (wrk st)) (\<lambda>w. Inr (st\<lparr>wrk := w\<rparr>)))))
         else if c = CHR ''k'' then
           bindR (pq_getmsgint64 s) (\<lambda>(end_lsn, s).
           bindR (pq_getmsgint64 s) (\<lambda>(timestamp, s).
           bindR (pq_getmsgbyte s) (\<lambda>(reply_requested, s).
           bindR (loop_feedback env (arr_flush a) (arr_time a) (reply_requested \<noteq> NUL) False (advance_received end_lsn st)) (\<lambda>st.
           Inr (st\<lparr>wstats := UpdateWorkerStats (last_received st) timestamp True (arr_time a) (wstats st)\<rparr>)))))
         else Inr st))"

fun drain ::
    "('w, 'rk, 'rkt, 'r::zero) loop_env \<Rightarrow> arrival list \<Rightarrow> ('w, 'rk, 'rkt) apply_loop \<Rightarrow> ('w, 'rk, 'rkt) apply_loop res" where
  "drain env [] st = Inr st"
| "drain env (a # as) st = bindR (handle_message env a st) (drain env as)"

definition TimestampTzPlusMilliseconds :: "TimestampTz \<Rightarrow> int \<Rightarrow> TimestampTz" where
  "TimestampTzPlusMilliseconds tz ms = tz + of_int (ms * 1000)"

text \<open>
  A wait that ended by its timeout: give up after \<^verbatim>\<open>wal_receiver_timeout\<close>, ask for a reply once
  after half of it, and report in any case.
\<close>

definition after_timeout ::
    "('w, 'rk, 'rkt, 'r) loop_env \<Rightarrow> TimestampTz \<Rightarrow> XLogRecPtr \<Rightarrow> ('w, 'rk, 'rkt) apply_loop \<Rightarrow> ('w, 'rk, 'rkt) apply_loop res" where
  "after_timeout env now local_flush st =
     bindR
       (if 0 < wal_receiver_timeout env then
          (if sint (TimestampTzPlusMilliseconds (last_recv_timestamp st) (wal_receiver_timeout env)) \<le> sint now
           then Inl (PgError ''terminating logical replication worker due to timeout'')
           else Inr (\<not> ping_sent st \<and>
             sint (TimestampTzPlusMilliseconds (last_recv_timestamp st) (wal_receiver_timeout env div 2)) \<le> sint now))
        else Inr False)
       (\<lambda>requestReply. loop_feedback env local_flush now requestReply requestReply
          (if requestReply then st\<lparr>ping_sent := True\<rparr> else st))"

text \<open>Between transactions the worker looks for changes of its subscription and of the tables.\<close>

definition between_transactions ::
    "('w, 'rk, 'rkt, 'r) loop_env \<Rightarrow> ('w, 'rk, 'rkt) apply_loop \<Rightarrow> ('w, 'rk, 'rkt) apply_loop res" where
  "between_transactions env st =
     (if \<not> in_remote_transaction (wrk st) \<and> \<not> in_streamed_transaction (wrk st) then
        bindR (maybe_reread_subscription (wenv env) (AcceptInvalidationMessages env (wrk st))) (\<lambda>w.
        bindR (sync_tables (wenv env) (last_received st) w) (\<lambda>w. Inr (st\<lparr>wrk := w\<rparr>)))
      else Inr st)"

definition apply_round ::
    "('w, 'rk, 'rkt, 'r::zero) loop_env \<Rightarrow> loop_round \<Rightarrow> ('w, 'rk, 'rkt) apply_loop \<Rightarrow> ('w, 'rk, 'rkt) apply_loop res" where
  "apply_round env r st =
     bindR (drain env (arrivals r) st) (\<lambda>st.
     bindR (loop_feedback env (round_flush r) (round_time r) False False st) (\<lambda>st.
     bindR (between_transactions env st) (\<lambda>st.
     if stream_ended r \<or> \<not> timed_out r then Inr st else after_timeout env (wake_time r) (wake_flush r) st)))"

text \<open>The result says whether the stream has ended; otherwise the loop is about to wait for more.\<close>

fun LogicalRepApplyLoop ::
    "('w, 'rk, 'rkt, 'r::zero) loop_env \<Rightarrow> loop_round list \<Rightarrow> ('w, 'rk, 'rkt) apply_loop \<Rightarrow> (bool \<times> ('w, 'rk, 'rkt) apply_loop) res" where
  "LogicalRepApplyLoop env [] st = Inr (False, st)"
| "LogicalRepApplyLoop env (r # rs) st =
     bindR (apply_round env r st) (\<lambda>st. if stream_ended r then Inr (True, st) else LogicalRepApplyLoop env rs st)"

section \<open>What the connection delivers\<close>

datatype event = Data XLogRecPtr XLogRecPtr TimestampTz element | Keepalive XLogRecPtr TimestampTz bool | Other

inductive is_event :: "(cstring \<Rightarrow> cstring) \<Rightarrow> byte list \<Rightarrow> event \<Rightarrow> bool" for c2s where
  data: "means c2s m el \<Longrightarrow>
    is_event c2s (CHR ''w'' # be_bytes 8 (unat start_lsn) @ be_bytes 8 (unat end_lsn) @ be_bytes 8 (unat sent_at) @ m) (Data start_lsn end_lsn sent_at el)"
| keepalive: "is_event c2s (CHR ''k'' # be_bytes 8 (unat end_lsn) @ be_bytes 8 (unat sent_at) @ [b]) (Keepalive end_lsn sent_at (b \<noteq> NUL))"
| other: "c \<notin> {CHR ''w'', CHR ''k''} \<Longrightarrow> is_event c2s (c # bs) Other"

inductive_cases is_event_Data: "is_event c2s bs (Data start_lsn end_lsn sent_at el)"
inductive_cases is_event_Keepalive: "is_event c2s bs (Keepalive end_lsn sent_at reply)"
inductive_cases is_event_Other: "is_event c2s bs Other"

fun event_elements :: "event \<Rightarrow> element list" where
  "event_elements (Data start_lsn end_lsn sent_at el) = [el]"
| "event_elements ev = []"

text \<open>The highest position mentioned so far, and the order of the publisher: a commit ends behind everything mentioned before.\<close>

fun event_high :: "XLogRecPtr \<Rightarrow> event \<Rightarrow> XLogRecPtr" where
  "event_high hi (Data start_lsn end_lsn sent_at el) = max (max hi start_lsn) end_lsn"
| "event_high hi (Keepalive end_lsn sent_at reply) = max hi end_lsn"
| "event_high hi Other = hi"

fun in_order :: "XLogRecPtr \<Rightarrow> event \<Rightarrow> bool" where
  "in_order hi (Data start_lsn end_lsn sent_at (Commit cd)) \<longleftrightarrow> hi < cd_end_lsn cd \<and> cd_end_lsn cd \<le> max start_lsn end_lsn"
| "in_order hi ev \<longleftrightarrow> True"

fun events_in_order :: "XLogRecPtr \<Rightarrow> event list \<Rightarrow> bool" where
  "events_in_order hi [] \<longleftrightarrow> True"
| "events_in_order hi (ev # evs) \<longleftrightarrow> in_order hi ev \<and> events_in_order (event_high hi ev) evs"

lemma carries_int64:
  assumes "carries s (be_bytes 8 (unat v) @ m)"
  obtains s' where "pq_getmsgint64 s = Inr (v, s')" and "carries s' m"
  using parsesD [OF pq_getmsgint64_parses, of s v m] advance_ok [of s "be_bytes 8 (unat v)" m] assms by (auto simp: carries_def)

lemma carries_byte:
  assumes "carries s (c # m)"
  obtains s' where "pq_getmsgbyte s = Inr (c, s')" and "carries s' m"
  using parsesD [OF pq_getmsgbyte_parses, of s c m] advance_ok [of s "[c]" m] assms by (auto simp: carries_def)

section \<open>The invariant of the loop\<close>

text \<open>The loop as the acknowledgement sees it; \<open>finished\<close> is the history of the tracking list.\<close>

definition ack_view :: "XLogRecPtr \<Rightarrow> lsn_mapping \<Rightarrow> ('w, 'rk, 'rkt) apply_loop \<Rightarrow> ack_run" where
  "ack_view d finished st = \<lparr>disk = d, tracked = lsn_map (wrk st), stored = finished, status = fback st\<rparr>"

definition loop_inv ::
    "('w \<Rightarrow> byte list list) \<Rightarrow> cstring \<Rightarrow> ('w, 'rk, 'rkt, 'r) loop_env \<Rightarrow> descriptions \<Rightarrow> XLogRecPtr option \<Rightarrow> XLogRecPtr \<Rightarrow> lsn_mapping \<Rightarrow> ('w, 'rk, 'rkt) apply_loop \<Rightarrow> bool" where
  "loop_inv accepted db env known tx d finished st \<longleftrightarrow>
     stage accepted db (wenv env) known tx (wrk st) \<and> ack_inv (ack_view d finished st) \<and>
     last_recvpos (fback st) \<le> last_received st \<and> (\<forall>pos \<in> set finished. remote_end pos \<le> last_received st)"

lemma advance_received_eq [simp]: "advance_received lsn st = st\<lparr>last_received := max (last_received st) lsn\<rparr>"
  by (auto simp: advance_received_def max_def)

lemma loop_feedback_inv:
  assumes inv: "loop_inv accepted db env known tx d finished st" and "d \<le> f"
  shows "\<exists>st'. loop_feedback env f now force requestReply st = Inr st' \<and> loop_inv accepted db env known tx f finished st' \<and>
    st' = st\<lparr>wrk := (wrk st)\<lparr>lsn_map := lsn_map (wrk st')\<rparr>, fback := fback st'\<rparr>"
proof -
  let ?a = "ack_view f finished st"
  have a: "ack_inv ?a"
    using ack_inv_log_flush [of "ack_view d finished st" f] inv assms(2) by (simp add: loop_inv_def ack_view_def)
  then have wf: "fb_wf (fback st)" by (simp add: ack_inv_def ack_view_def)
  have recv: "\<forall>pos \<in> set (stored ?a). remote_end pos \<le> last_received st" using inv by (simp add: loop_inv_def ack_view_def)
  obtain m fb where r: "send_feedback f now (wal_receiver_status_interval env) (last_received st) force requestReply (lsn_map (wrk st), fback st) = Inr (m, fb)"
    and pos: "last_recvpos fb \<le> max (last_received st) (last_recvpos (fback st))"
  proof (cases "force \<or> 0 < wal_receiver_status_interval env")
    case True
    show thesis
      by (rule send_feedback_sends [OF wf True, of f now "last_received st" requestReply "lsn_map (wrk st)"])
        (auto intro!: that simp: recv_position_def)
  next
    case False
    then show thesis by (intro that [of "lsn_map (wrk st)" "fback st"]) (auto simp: send_feedback_skipped)
  qed
  have "ack_inv (?a\<lparr>tracked := m, status := fb\<rparr>)"
    by (rule ack_inv_report [OF a recv]) (use r in \<open>simp add: ack_view_def\<close>)
  then show ?thesis using r inv pos by (auto simp: loop_feedback_def loop_inv_def ack_view_def)
qed

text \<open>What the handling of one message, or of several, leaves.\<close>

definition events_done ::
    "('w \<Rightarrow> byte list list) \<Rightarrow> cstring \<Rightarrow> ('w, 'rk, 'rkt, 'r) loop_env \<Rightarrow> event list \<Rightarrow> descriptions \<Rightarrow> XLogRecPtr option \<Rightarrow> XLogRecPtr \<Rightarrow>
     ('w, 'rk, 'rkt) apply_loop \<Rightarrow> ('w, 'rk, 'rkt) apply_loop \<Rightarrow> bool" where
  "events_done accepted db env evs known tx f st st' \<longleftrightarrow>
     (\<exists>finished. loop_inv accepted db env (fold known_after (concat (map event_elements evs)) known)
        (fold tx_after (concat (map event_elements evs)) tx) f finished st') \<and>
     handed_over_all accepted (stream_texts db (concat (map event_elements evs))) (pub (wrk st)) (pub (wrk st')) \<and>
     last_received st' = fold (\<lambda>ev hi. event_high hi ev) evs (last_received st)"

lemma handed_over_all_append:
  assumes "handed_over_all accepted ms p p1" and "handed_over_all accepted ns p1 p2"
  shows "handed_over_all accepted (ms @ ns) p p2"
proof -
  obtain sel sel' where "subseq sel ms" "accepted (client (producer p1)) = accepted (client (producer p)) @ sel"
    "failures (producer p1) + length sel = failures (producer p) + length ms"
    "subseq sel' ns" "accepted (client (producer p2)) = accepted (client (producer p1)) @ sel'"
    "failures (producer p2) + length sel' = failures (producer p1) + length ns"
    using assms by (auto simp: handed_over_all_def)
  then show ?thesis unfolding handed_over_all_def by (intro exI [of _ "sel @ sel'"]) (auto intro: list_emb_append_mono)
qed

lemma data_handled:
  fixes env :: "('w, 'rk, 'rkt, 'r::zero) loop_env"
  assumes lib: "client_contract (kafka_lib (wenv env)) accepted" "sprintf_fits (doubles (wenv env))" "no_table_syncs (wenv env)"
    and depth: "0 < dispatch_depth env" and inv: "loop_inv accepted db env known tx d finished st" and f: "d \<le> arr_flush a"
    and a: "is_event (to_server (wenv env)) (arr_bytes a) (Data start_lsn end_lsn sent_at el)"
    and ok: "element_ok db (local_cat (wenv env)) known tx el" and ord: "in_order (last_received st) (Data start_lsn end_lsn sent_at el)"
  shows "\<exists>st'. handle_message env a st = Inr st' \<and> events_done accepted db env [Data start_lsn end_lsn sent_at el] known tx (arr_flush a) st st' \<and>
    last_recv_timestamp st' = arr_time a"
proof -
  obtain m where m: "arr_bytes a = CHR ''w'' # be_bytes 8 (unat start_lsn) @ be_bytes 8 (unat end_lsn) @ be_bytes 8 (unat sent_at) @ m"
    "means (to_server (wenv env)) m el" using a by (rule is_event_Data)
  obtain s0 where s0: "pq_getmsgbyte (received (arr_bytes a)) = Inr (CHR ''w'', s0)" "carries s0 (be_bytes 8 (unat start_lsn) @ be_bytes 8 (unat end_lsn) @ be_bytes 8 (unat sent_at) @ m)"
    by (rule carries_byte [OF carries_received [unfolded m(1)]]) (use m(1) in simp)
  obtain s1 where s1: "pq_getmsgint64 s0 = Inr (start_lsn, s1)" "carries s1 (be_bytes 8 (unat end_lsn) @ be_bytes 8 (unat sent_at) @ m)"
    by (rule carries_int64 [OF s0(2)])
  obtain s2 where s2: "pq_getmsgint64 s1 = Inr (end_lsn, s2)" "carries s2 (be_bytes 8 (unat sent_at) @ m)" by (rule carries_int64 [OF s1(2)])
  obtain s3 where s3: "pq_getmsgint64 s2 = Inr (sent_at, s3)" "carries s3 m" by (rule carries_int64 [OF s2(2)])
  obtain depth' where dep: "dispatch_depth env = Suc depth'" using depth by (cases "dispatch_depth env") auto
  have st: "stage accepted db (wenv env) known tx (wrk st)" using inv by (simp add: loop_inv_def)
  obtain w' where w': "apply_dispatch (Suc depth') (wenv env) s3 (wrk st) = Inr w'" "element_done accepted db (wenv env) known tx el (wrk st) w'"
    using element_applied [OF lib st m(2) ok s3(2)] by blast
  let ?hi = "max (max (last_received st) start_lsn) end_lsn"
  let ?st = "st\<lparr>last_recv_timestamp := arr_time a, ping_sent := False, last_received := ?hi,
      wstats := UpdateWorkerStats ?hi sent_at False (arr_time a) (wstats st), wrk := w'\<rparr>"
  have r: "handle_message env a st = Inr ?st"
    by (simp add: handle_message_def s0(1) s1(1) s2(1) s3(1) w'(1) dep Let_def)
  have map: "lsn_map w' = lsn_map (wrk st) @ tracked_by el (wrk st)" using w'(2) by (simp add: element_done_def)
  have hi: "last_received st \<le> ?hi" by (simp add: le_max_iff_disj)
  have "ack_inv (ack_view (arr_flush a) (finished @ tracked_by el (wrk st)) ?st) \<and> (\<forall>pos \<in> set (tracked_by el (wrk st)). remote_end pos \<le> ?hi)"
  proof (cases "tracked_by el (wrk st) = []")
    case True
    then show ?thesis using ack_inv_log_flush [of "ack_view d finished st" "arr_flush a"] inv f map by (simp add: loop_inv_def ack_view_def)
  next
    case False
    then obtain cd x where cd: "el = Commit cd" "tracked_by el (wrk st) = [\<lparr>local_end = x, remote_end = cd_end_lsn cd\<rparr>]"
      by (cases el) (auto split: if_splits)
    have a0: "ack_inv (ack_view (arr_flush a) finished st)"
      using ack_inv_log_flush [of "ack_view d finished st" "arr_flush a"] inv f by (simp add: loop_inv_def ack_view_def)
    have "last_received st < cd_end_lsn cd" "cd_end_lsn cd \<le> max start_lsn end_lsn" using ord cd(1) by simp_all
    moreover from this have "last_recvpos (fback st) < cd_end_lsn cd" "\<forall>pos \<in> set finished. remote_end pos < cd_end_lsn cd"
      using inv by (auto simp: loop_inv_def)
    ultimately show ?thesis using ack_inv_store [OF a0, of "cd_end_lsn cd" x] cd map
      by (simp add: ack_view_def store_flush_position_def le_max_iff_disj)
  qed
  then have "loop_inv accepted db env (known_after el known) (tx_after el tx) (arr_flush a) (finished @ tracked_by el (wrk st)) ?st"
    using inv w'(2) order_trans [OF _ hi] by (auto simp: loop_inv_def element_done_def)
  then show ?thesis using r w'(2) by (auto simp: events_done_def element_done_def stream_texts_def)
qed

lemma loop_inv_cong:
  assumes "loop_inv accepted db env known tx d finished st" and "d \<le> f" and "wrk st' = wrk st" and "fback st' = fback st" and "last_received st \<le> last_received st'"
  shows "loop_inv accepted db env known tx f finished st'"
  using assms ack_inv_log_flush [of "ack_view d finished st" f] order_trans [OF _ assms(5)]
  by (auto simp: loop_inv_def ack_view_def)

lemma keepalive_handled:
  fixes env :: "('w, 'rk, 'rkt, 'r::zero) loop_env"
  assumes inv: "loop_inv accepted db env known tx d finished st" and f: "d \<le> arr_flush a"
    and a: "is_event (to_server (wenv env)) (arr_bytes a) (Keepalive end_lsn sent_at reply)"
  shows "\<exists>st'. handle_message env a st = Inr st' \<and> events_done accepted db env [Keepalive end_lsn sent_at reply] known tx (arr_flush a) st st' \<and>
    last_recv_timestamp st' = arr_time a"
proof -
  obtain b where b: "arr_bytes a = CHR ''k'' # be_bytes 8 (unat end_lsn) @ be_bytes 8 (unat sent_at) @ [b]" "reply \<longleftrightarrow> b \<noteq> NUL"
    using a by (rule is_event_Keepalive)
  obtain s0 where s0: "pq_getmsgbyte (received (arr_bytes a)) = Inr (CHR ''k'', s0)" "carries s0 (be_bytes 8 (unat end_lsn) @ be_bytes 8 (unat sent_at) @ [b])"
    by (rule carries_byte [OF carries_received [unfolded b(1)]]) (use b(1) in simp)
  obtain s1 where s1: "pq_getmsgint64 s0 = Inr (end_lsn, s1)" "carries s1 (be_bytes 8 (unat sent_at) @ [b])" by (rule carries_int64 [OF s0(2)])
  obtain s2 where s2: "pq_getmsgint64 s1 = Inr (sent_at, s2)" "carries s2 [b]" by (rule carries_int64 [OF s1(2)])
  obtain s3 where s3: "pq_getmsgbyte s2 = Inr (b, s3)" by (rule carries_byte [OF s2(2)])
  let ?st = "st\<lparr>last_recv_timestamp := arr_time a, ping_sent := False, last_received := max (last_received st) end_lsn\<rparr>"
  have "loop_inv accepted db env known tx d finished ?st" by (rule loop_inv_cong [OF inv]) simp_all
  from loop_feedback_inv [OF this f, of "arr_time a" reply False] obtain st' where st':
    "loop_feedback env (arr_flush a) (arr_time a) reply False ?st = Inr st'" "loop_inv accepted db env known tx (arr_flush a) finished st'"
    "st' = ?st\<lparr>wrk := (wrk ?st)\<lparr>lsn_map := lsn_map (wrk st')\<rparr>, fback := fback st'\<rparr>" by blast
  obtain m fb where eq: "st' = ?st\<lparr>wrk := (wrk st)\<lparr>lsn_map := m\<rparr>, fback := fb\<rparr>" using st'(3) by force
  let ?st2 = "st'\<lparr>wstats := UpdateWorkerStats (last_received st') sent_at True (arr_time a) (wstats st')\<rparr>"
  have "handle_message env a st = Inr ?st2" using st'(1) b(2) by (simp add: handle_message_def s0(1) s1(1) s2(1) s3 Let_def)
  moreover have "loop_inv accepted db env known tx (arr_flush a) finished ?st2" by (rule loop_inv_cong [OF st'(2)]) simp_all
  ultimately show ?thesis by (auto simp: events_done_def eq stream_texts_def)
qed

lemma other_handled:
  fixes env :: "('w, 'rk, 'rkt, 'r::zero) loop_env"
  assumes inv: "loop_inv accepted db env known tx d finished st" and f: "d \<le> arr_flush a" and a: "is_event (to_server (wenv env)) (arr_bytes a) Other"
  shows "\<exists>st'. handle_message env a st = Inr st' \<and> events_done accepted db env [Other] known tx (arr_flush a) st st' \<and>
    last_recv_timestamp st' = arr_time a"
proof -
  obtain c bs where c: "arr_bytes a = c # bs" "c \<notin> {CHR ''w'', CHR ''k''}" using a by (auto elim: is_event_Other)
  obtain s0 where s0: "pq_getmsgbyte (received (arr_bytes a)) = Inr (c, s0)"
    by (rule carries_byte [OF carries_received [unfolded c(1)]]) (use c(1) in simp)
  let ?st = "st\<lparr>last_recv_timestamp := arr_time a, ping_sent := False\<rparr>"
  have "loop_inv accepted db env known tx (arr_flush a) finished ?st" by (rule loop_inv_cong [OF inv f]) simp_all
  moreover have "handle_message env a st = Inr ?st" using c(2) by (simp add: handle_message_def s0 Let_def)
  ultimately show ?thesis by (auto simp: events_done_def stream_texts_def)
qed

lemma message_handled:
  fixes env :: "('w, 'rk, 'rkt, 'r::zero) loop_env"
  assumes "client_contract (kafka_lib (wenv env)) accepted" "sprintf_fits (doubles (wenv env))" "no_table_syncs (wenv env)"
    and "0 < dispatch_depth env" and inv: "loop_inv accepted db env known tx d finished st" "d \<le> arr_flush a"
    and a: "is_event (to_server (wenv env)) (arr_bytes a) ev"
    and "stream_ok db (local_cat (wenv env)) known tx (event_elements ev)" and "in_order (last_received st) ev"
  shows "\<exists>st'. handle_message env a st = Inr st' \<and> events_done accepted db env [ev] known tx (arr_flush a) st st' \<and>
    last_recv_timestamp st' = arr_time a"
proof (cases ev)
  case (Data start_lsn end_lsn sent_at el)
  then show ?thesis using data_handled [OF assms(1-6)] assms(7-9) by simp
next
  case (Keepalive end_lsn sent_at reply)
  then show ?thesis using keepalive_handled [OF inv] a by simp
next
  case Other
  then show ?thesis using other_handled [OF inv] a by simp
qed

section \<open>Several messages\<close>

lemma stream_ok_append:
  "stream_ok db cat known tx (xs @ ys) \<longleftrightarrow>
     stream_ok db cat known tx xs \<and> stream_ok db cat (fold known_after xs known) (fold tx_after xs tx) ys"
  by (induction xs arbitrary: known tx) auto

lemma events_in_order_append:
  "events_in_order hi (xs @ ys) \<longleftrightarrow> events_in_order hi xs \<and> events_in_order (fold (\<lambda>ev hi. event_high hi ev) xs hi) ys"
  by (induction xs arbitrary: hi) auto

lemma events_done_append:
  assumes "events_done accepted db env evs known tx f st st1"
    and "events_done accepted db env evs' (fold known_after (concat (map event_elements evs)) known)
      (fold tx_after (concat (map event_elements evs)) tx) f' st1 st2"
  shows "events_done accepted db env (evs @ evs') known tx f' st st2"
  using assms handed_over_all_append by (auto simp: events_done_def stream_texts_def)

lemma events_done_Nil:
  assumes "loop_inv accepted db env known tx d finished st"
  shows "events_done accepted db env [] known tx d st st"
  using assms by (auto simp: events_done_def stream_texts_def)

definition heard :: "TimestampTz \<Rightarrow> arrival list \<Rightarrow> TimestampTz" where
  "heard t as = (if as = [] then t else arr_time (last as))"

lemma drained:
  fixes env :: "('w, 'rk, 'rkt, 'r::zero) loop_env"
  assumes lib: "client_contract (kafka_lib (wenv env)) accepted" "sprintf_fits (doubles (wenv env))" "no_table_syncs (wenv env)" "0 < dispatch_depth env"
    and "loop_inv accepted db env known tx d finished st" and "list_all2 (\<lambda>a. is_event (to_server (wenv env)) (arr_bytes a)) as evs"
    and "stream_ok db (local_cat (wenv env)) known tx (concat (map event_elements evs))" and "events_in_order (last_received st) evs"
    and "sorted (d # map arr_flush as)"
  shows "\<exists>st'. drain env as st = Inr st' \<and> events_done accepted db env evs known tx (last (d # map arr_flush as)) st st' \<and>
    last_recv_timestamp st' = heard (last_recv_timestamp st) as"
  using assms(5-)
proof (induction as arbitrary: evs known tx d finished st)
  case Nil
  then show ?case using events_done_Nil [OF Nil(1)] by (simp add: heard_def)
next
  case (Cons a as)
  obtain ev evs' where ev: "evs = ev # evs'" "is_event (to_server (wenv env)) (arr_bytes a) ev"
    "list_all2 (\<lambda>a. is_event (to_server (wenv env)) (arr_bytes a)) as evs'" using Cons.prems(2) by (auto simp: list_all2_Cons1)
  have d: "d \<le> arr_flush a" "sorted (arr_flush a # map arr_flush as)" using Cons.prems(5) by auto
  have ok: "stream_ok db (local_cat (wenv env)) known tx (event_elements ev)" "in_order (last_received st) ev"
    using Cons.prems(3,4) ev(1) by (simp_all add: stream_ok_append)
  obtain st1 where st1: "handle_message env a st = Inr st1" "events_done accepted db env [ev] known tx (arr_flush a) st st1"
    "last_recv_timestamp st1 = arr_time a" using message_handled [OF lib Cons.prems(1) d(1) ev(2) ok] by blast
  obtain finished1 where inv1: "loop_inv accepted db env (fold known_after (event_elements ev) known) (fold tx_after (event_elements ev) tx) (arr_flush a) finished1 st1"
    and hi: "last_received st1 = event_high (last_received st) ev" using st1(2) by (auto simp: events_done_def)
  have "stream_ok db (local_cat (wenv env)) (fold known_after (event_elements ev) known) (fold tx_after (event_elements ev) tx) (concat (map event_elements evs'))"
    "events_in_order (last_received st1) evs'" using Cons.prems(3,4) ev(1) hi by (simp_all add: stream_ok_append)
  from Cons.IH [OF inv1 ev(3) this d(2)] obtain st2 where st2: "drain env as st1 = Inr st2"
    "events_done accepted db env evs' (fold known_after (event_elements ev) known) (fold tx_after (event_elements ev) tx) (last (arr_flush a # map arr_flush as)) st1 st2"
    "last_recv_timestamp st2 = heard (last_recv_timestamp st1) as" by blast
  have "events_done accepted db env ([ev] @ evs') known tx (last (arr_flush a # map arr_flush as)) st st2"
    by (rule events_done_append [OF st1(2)]) (use st2(2) in simp)
  then show ?case using st1(1,3) st2(1,3) ev(1) by (auto simp: heard_def)
qed

section \<open>Rounds\<close>

text \<open>
  Nothing happens between transactions: no table is being synchronised and no catalog changes.
  A wait that ends by its timeout has to end before the connection is given up.
\<close>

definition quiet :: "('w, 'rk, 'rkt, 'r) loop_env \<Rightarrow> bool" where
  "quiet env \<longleftrightarrow> no_table_syncs (wenv env) \<and> AcceptInvalidationMessages env = (\<lambda>w. w)"

definition expired :: "('w, 'rk, 'rkt, 'r) loop_env \<Rightarrow> TimestampTz \<Rightarrow> TimestampTz \<Rightarrow> bool" where
  "expired env t now \<longleftrightarrow> 0 < wal_receiver_timeout env \<and>
     sint (TimestampTzPlusMilliseconds t (wal_receiver_timeout env)) \<le> sint now"

definition waits :: "loop_round \<Rightarrow> bool" where
  "waits r \<longleftrightarrow> timed_out r \<and> \<not> stream_ended r"

fun punctual :: "('w, 'rk, 'rkt, 'r) loop_env \<Rightarrow> TimestampTz \<Rightarrow> loop_round list \<Rightarrow> bool" where
  "punctual env t [] \<longleftrightarrow> True"
| "punctual env t (r # rs) \<longleftrightarrow> (waits r \<longrightarrow> \<not> expired env (heard t (arrivals r)) (wake_time r)) \<and> punctual env (heard t (arrivals r)) rs"

definition flushes :: "loop_round \<Rightarrow> XLogRecPtr list" where
  "flushes r = map arr_flush (arrivals r) @ [round_flush r] @ (if waits r then [wake_flush r] else [])"

lemma feedback_done:
  assumes ev: "events_done accepted db env evs known tx d st st1" and "d \<le> f"
  shows "\<exists>st'. loop_feedback env f now force requestReply st1 = Inr st' \<and> events_done accepted db env evs known tx f st st' \<and>
    last_recv_timestamp st' = last_recv_timestamp st1"
proof -
  let ?k = "fold known_after (concat (map event_elements evs)) known" and ?t = "fold tx_after (concat (map event_elements evs)) tx"
  obtain finished where inv: "loop_inv accepted db env ?k ?t d finished st1" using ev by (auto simp: events_done_def)
  from loop_feedback_inv [OF inv assms(2), of now force requestReply] obtain st' where
    st': "loop_feedback env f now force requestReply st1 = Inr st'" "loop_inv accepted db env ?k ?t f finished st'"
    "st' = st1\<lparr>wrk := (wrk st1)\<lparr>lsn_map := lsn_map (wrk st')\<rparr>, fback := fback st'\<rparr>" by blast
  obtain m fb where eq: "st' = st1\<lparr>wrk := (wrk st1)\<lparr>lsn_map := m\<rparr>, fback := fb\<rparr>" using st'(3) by force
  show ?thesis using ev st'(1,2) by (auto simp: events_done_def eq)
qed

lemma between_nothing:
  assumes "quiet env" and "events_done accepted db env evs known tx d st st1"
  shows "between_transactions env st1 = Inr st1"
  using assms by (auto simp: between_transactions_def events_done_def loop_inv_def stage_def maybe_reread_subscription_def
      sync_tables_def quiet_def no_table_syncs_def)

lemma timeout_done:
  assumes ev: "events_done accepted db env evs known tx d st st1" and "d \<le> f" and "\<not> expired env (last_recv_timestamp st1) now"
  shows "\<exists>st'. after_timeout env now f st1 = Inr st' \<and> events_done accepted db env evs known tx f st st' \<and>
    last_recv_timestamp st' = last_recv_timestamp st1"
proof -
  have "events_done accepted db env evs known tx d st (st1\<lparr>ping_sent := True\<rparr>)"
    using ev by (auto simp: events_done_def loop_inv_def ack_view_def)
  note on = feedback_done [OF this assms(2), of now True True] and off = feedback_done [OF ev assms(2), of now False False]
  from on off assms(3) show ?thesis by (auto simp: after_timeout_def expired_def)
qed

lemma last_flush:
  assumes "sorted (d # xs @ f # fs)"
  shows "last (d # xs) \<le> f \<and> sorted (d # xs) \<and> sorted (f # fs)"
proof -
  have s: "sorted ((d # xs) @ f # fs)" using assms by simp
  then have "\<forall>x \<in> set (d # xs). x \<le> f" unfolding sorted_append by simp
  then show ?thesis using s last_in_set [of "d # xs"] unfolding sorted_append by blast
qed

lemma round_done:
  fixes env :: "('w, 'rk, 'rkt, 'r::zero) loop_env"
  assumes lib: "client_contract (kafka_lib (wenv env)) accepted" "sprintf_fits (doubles (wenv env))" and q: "quiet env" and dep: "0 < dispatch_depth env"
    and inv: "loop_inv accepted db env known tx d finished st" and evs: "list_all2 (\<lambda>a. is_event (to_server (wenv env)) (arr_bytes a)) (arrivals r) evs"
    and ok: "stream_ok db (local_cat (wenv env)) known tx (concat (map event_elements evs))" "events_in_order (last_received st) evs"
    and fl: "sorted (d # flushes r)" and pun: "waits r \<longrightarrow> \<not> expired env (heard (last_recv_timestamp st) (arrivals r)) (wake_time r)"
  shows "\<exists>st'. apply_round env r st = Inr st' \<and> events_done accepted db env evs known tx (last (flushes r)) st st' \<and>
    last_recv_timestamp st' = heard (last_recv_timestamp st) (arrivals r)"
proof -
  have nts: "no_table_syncs (wenv env)" using q by (simp add: quiet_def)
  have "last (d # map arr_flush (arrivals r)) \<le> round_flush r \<and> sorted (d # map arr_flush (arrivals r)) \<and>
      sorted (round_flush r # (if waits r then [wake_flush r] else []))"
    by (rule last_flush) (use fl in \<open>simp add: flushes_def\<close>)
  then have fs: "sorted (d # map arr_flush (arrivals r))"
    and le: "last (d # map arr_flush (arrivals r)) \<le> round_flush r" "waits r \<Longrightarrow> round_flush r \<le> wake_flush r"
    by (simp_all del: last.simps)
  obtain st1 where st1: "drain env (arrivals r) st = Inr st1" "events_done accepted db env evs known tx (last (d # map arr_flush (arrivals r))) st st1"
    "last_recv_timestamp st1 = heard (last_recv_timestamp st) (arrivals r)" using drained [OF lib nts dep inv evs ok fs] by blast
  obtain st2 where st2: "loop_feedback env (round_flush r) (round_time r) False False st1 = Inr st2"
    "events_done accepted db env evs known tx (round_flush r) st st2" "last_recv_timestamp st2 = last_recv_timestamp st1"
    using feedback_done [OF st1(2) le(1)] by blast
  note b = between_nothing [OF q st2(2)]
  show ?thesis
  proof (cases "waits r")
    case True
    have "\<not> expired env (last_recv_timestamp st2) (wake_time r)" using pun True st1(3) st2(3) by simp
    from timeout_done [OF st2(2) le(2) [OF True] this] obtain st3 where
      "after_timeout env (wake_time r) (wake_flush r) st2 = Inr st3" "events_done accepted db env evs known tx (wake_flush r) st st3"
      "last_recv_timestamp st3 = last_recv_timestamp st2" by blast
    then show ?thesis using True st1(1,3) st2(1,3) b by (auto simp: apply_round_def flushes_def waits_def)
  next
    case False
    then show ?thesis using st1(1,3) st2 b by (auto simp: apply_round_def flushes_def waits_def)
  qed
qed

lemma loop_done:
  fixes env :: "('w, 'rk, 'rkt, 'r::zero) loop_env"
  assumes lib: "client_contract (kafka_lib (wenv env)) accepted" "sprintf_fits (doubles (wenv env))" "quiet env" "0 < dispatch_depth env"
    and "loop_inv accepted db env known tx d finished st"
    and "list_all2 (\<lambda>r. list_all2 (\<lambda>a. is_event (to_server (wenv env)) (arr_bytes a)) (arrivals r)) rounds evss"
    and "stream_ok db (local_cat (wenv env)) known tx (concat (map event_elements (concat evss)))"
    and "events_in_order (last_received st) (concat evss)" and "sorted (d # concat (map flushes rounds))"
    and "punctual env (last_recv_timestamp st) rounds" and "list_all (\<lambda>r. \<not> stream_ended r) (butlast rounds)"
  shows "\<exists>ended st'. LogicalRepApplyLoop env rounds st = Inr (ended, st') \<and>
    events_done accepted db env (concat evss) known tx (last (d # concat (map flushes rounds))) st st'"
  using assms(5-)
proof (induction rounds arbitrary: evss known tx d finished st)
  case Nil
  then show ?case using events_done_Nil [OF Nil(1)] by (intro exI [of _ False] exI [of _ st]) simp
next
  case (Cons r rounds)
  obtain evs evss' where e: "evss = evs # evss'" "list_all2 (\<lambda>a. is_event (to_server (wenv env)) (arr_bytes a)) (arrivals r) evs"
    "list_all2 (\<lambda>r. list_all2 (\<lambda>a. is_event (to_server (wenv env)) (arr_bytes a)) (arrivals r)) rounds evss'"
    using Cons.prems(2) by (auto simp: list_all2_Cons1)
  let ?els = "concat (map event_elements evs)"
  have ok: "stream_ok db (local_cat (wenv env)) known tx ?els" "events_in_order (last_received st) evs"
    and ok': "stream_ok db (local_cat (wenv env)) (fold known_after ?els known) (fold tx_after ?els tx) (concat (map event_elements (concat evss')))"
      "events_in_order (fold (\<lambda>ev hi. event_high hi ev) evs (last_received st)) (concat evss')"
    using Cons.prems(3,4) e(1) by (simp_all add: stream_ok_append events_in_order_append)
  have ne: "flushes r \<noteq> []" by (simp add: flushes_def)
  have "sorted ((d # flushes r) @ concat (map flushes rounds))" using Cons.prems(5) by simp
  then have fl: "sorted (d # flushes r)" "sorted (last (flushes r) # concat (map flushes rounds))"
    using last_in_set [OF ne] unfolding sorted_append by simp_all
  have pun: "waits r \<longrightarrow> \<not> expired env (heard (last_recv_timestamp st) (arrivals r)) (wake_time r)" using Cons.prems(6) by simp
  obtain st1 where st1: "apply_round env r st = Inr st1" "events_done accepted db env evs known tx (last (flushes r)) st st1"
    "last_recv_timestamp st1 = heard (last_recv_timestamp st) (arrivals r)"
    using round_done [OF lib Cons.prems(1) e(2) ok fl(1) pun] by blast
  show ?case
  proof (cases "stream_ended r")
    case True
    then have "rounds = []" using Cons.prems(7) by (cases rounds) auto
    then show ?thesis using st1(1,2) True e(1,3) ne by (auto simp: last_append)
  next
    case False
    obtain finished1 where inv1: "loop_inv accepted db env (fold known_after ?els known) (fold tx_after ?els tx) (last (flushes r)) finished1 st1"
      and hi: "last_received st1 = fold (\<lambda>ev hi. event_high hi ev) evs (last_received st)" using st1(2) by (auto simp: events_done_def)
    have "punctual env (last_recv_timestamp st1) rounds" "list_all (\<lambda>r. \<not> stream_ended r) (butlast rounds)"
      using Cons.prems(6,7) st1(3) by (auto split: if_splits)
    from Cons.IH [OF inv1 e(3) ok'(1) ok'(2) [folded hi] fl(2) this] obtain ended st2 where
      st2: "LogicalRepApplyLoop env rounds st1 = Inr (ended, st2)"
      "events_done accepted db env (concat evss') (fold known_after ?els known) (fold tx_after ?els tx) (last (last (flushes r) # concat (map flushes rounds))) st1 st2"
      by blast
    have "last (last (flushes r) # concat (map flushes rounds)) = last (d # concat (map flushes (r # rounds)))"
      using ne by (simp add: last_append)
    then show ?thesis using st1(1) st2 False e(1) events_done_append [OF st1(2)] by auto
  qed
qed

section \<open>Properties of the loop\<close>

text \<open>
  The process has just started: its producer can be started by the first change, nothing is tracked
  and nothing has been reported.
\<close>

definition loop_start :: "('w \<Rightarrow> byte list list) \<Rightarrow> cstring \<Rightarrow> ('w, 'rk, 'rkt, 'r) loop_env \<Rightarrow> descriptions \<Rightarrow> ('w, 'rk, 'rkt) apply_loop \<Rightarrow> bool" where
  "loop_start accepted db env known st \<longleftrightarrow> idle accepted db (wenv env) (wrk st) \<and>
     (\<forall>relid rel. known relid = Some rel \<longrightarrow> usable (local_cat (wenv env)) relid rel (relations (wrk st))) \<and>
     lsn_map (wrk st) = [] \<and> fback st = status ack_start"

lemma loop_start_inv: "loop_start accepted db env known st \<Longrightarrow> loop_inv accepted db env known None d [] st"
  by (auto simp: loop_start_def loop_inv_def ack_view_def ack_inv_def ack_start_def fb_wf_def intro: idle_stage)

lemma event_high_le: "hi \<le> event_high hi ev"
  by (cases ev) (simp_all add: le_max_iff_disj)

lemma later_commit: "events_in_order hi evs \<Longrightarrow> Data s e t (Commit cd) \<in> set evs \<Longrightarrow> hi < cd_end_lsn cd"
proof (induction evs arbitrary: hi)
  case (Cons ev evs)
  show ?case
  proof (cases "ev = Data s e t (Commit cd)")
    case True
    with Cons.prems(1) show ?thesis by simp
  next
    case False
    then have "event_high hi ev < cd_end_lsn cd" using Cons.prems by (intro Cons.IH) auto
    with event_high_le [of hi ev] show ?thesis by (rule order_le_less_trans)
  qed
qed simp

text \<open>Claim C2. The main loop: for any stream of transactions with the descriptions of their tables, cut into rounds anywhere,
  mixed with keepalives and unknown messages, and with waits in between, the loop returns; every change received so far has been
  handed to Kafka once and in order; and no status message confirms a transaction that has not been received completely: its
  flush position lies below the end of every commit that is still to come. The process has just started, and the first row starts the
  producer: the connection string fits its buffer of 64 bytes and the client library starts when it is asked to. A change is handed over
  when the library has accepted it or the refusal has been logged.\<close>

theorem loop_publishes:
  fixes env :: "('w, 'rk, 'rkt, 'r::zero) loop_env"
  assumes "client_contract (kafka_lib (wenv env)) accepted" and "sprintf_fits (doubles (wenv env))" and "quiet env" and "0 < dispatch_depth env"
    and "loop_start accepted db env known st"
    and "list_all2 (\<lambda>r. list_all2 (\<lambda>a. is_event (to_server (wenv env)) (arr_bytes a)) (arrivals r)) rounds evss"
    and "stream_ok db (local_cat (wenv env)) known None (concat (map event_elements (concat evss)))"
    and "events_in_order (last_received st) (concat evss @ later)" and "sorted (concat (map flushes rounds))"
    and "punctual env (last_recv_timestamp st) rounds" and "list_all (\<lambda>r. \<not> stream_ended r) (butlast rounds)"
  shows "\<exists>ended st'. LogicalRepApplyLoop env rounds st = Inr (ended, st') \<and>
    handed_over_all accepted (stream_texts db (concat (map event_elements (concat evss)))) (pub (wrk st)) (pub (wrk st')) \<and>
    (\<forall>msg \<in> set (sent (fback st')). \<exists>recvpos flushpos writepos now reply. msg = reply_bytes recvpos flushpos writepos now reply \<and>
      (\<forall>s e t cd. Data s e t (Commit cd) \<in> set later \<longrightarrow> flushpos < cd_end_lsn cd))"
proof -
  have ord: "events_in_order (last_received st) (concat evss)"
    "events_in_order (fold (\<lambda>ev hi. event_high hi ev) (concat evss) (last_received st)) later"
    using assms(8) by (simp_all add: events_in_order_append)
  have "sorted (0 # concat (map flushes rounds))" using assms(9) by simp
  then obtain ended st' where run: "LogicalRepApplyLoop env rounds st = Inr (ended, st')"
    and ev: "events_done accepted db env (concat evss) known None (last (0 # concat (map flushes rounds))) st st'"
    using loop_done [OF assms(1-4) loop_start_inv [OF assms(5)] assms(6,7) ord(1) _ assms(10,11)] by blast
  obtain k tx d finished where inv: "loop_inv accepted db env k tx d finished st'" using ev by (auto simp: events_done_def)
  have low: "last_flushpos (fback st') \<le> last_received st'" using inv by (auto simp: loop_inv_def ack_inv_def ack_view_def intro: order_trans)
  have "\<exists>recvpos flushpos writepos now reply. msg = reply_bytes recvpos flushpos writepos now reply \<and>
      (\<forall>s e t cd. Data s e t (Commit cd) \<in> set later \<longrightarrow> flushpos < cd_end_lsn cd)" if "msg \<in> set (sent (fback st'))" for msg
  proof -
    have "\<forall>msg\<in>set (sent (fback st')). \<exists>f. reports_flush f msg \<and> f \<le> last_flushpos (fback st')"
      using inv by (simp add: loop_inv_def ack_inv_def ack_view_def)
    with that obtain f where f: "reports_flush f msg" "f \<le> last_flushpos (fback st')" by blast
    have "f < cd_end_lsn cd" if "Data s e t (Commit cd) \<in> set later" for s e t cd
    proof -
      have "last_received st' < cd_end_lsn cd" using later_commit [OF ord(2) that] ev by (simp add: events_done_def)
      with f(2) low show ?thesis by (meson order_le_less_trans)
    qed
    then show ?thesis using f(1) unfolding reports_flush_def by blast
  qed
  then show ?thesis using run ev by (auto simp: events_done_def)
qed

section \<open>A silent publisher\<close>

definition half_expired :: "('w, 'rk, 'rkt, 'r) loop_env \<Rightarrow> TimestampTz \<Rightarrow> TimestampTz \<Rightarrow> bool" where
  "half_expired env t now \<longleftrightarrow> 0 < wal_receiver_timeout env \<and>
     sint (TimestampTzPlusMilliseconds t (wal_receiver_timeout env div 2)) \<le> sint now"

text \<open>The last byte of a status message asks the publisher for an answer.\<close>

definition asks_reply :: "byte list \<Rightarrow> bool" where
  "asks_reply msg \<longleftrightarrow> last msg \<noteq> NUL"

definition requests :: "('w, 'rk, 'rkt) apply_loop \<Rightarrow> nat" where
  "requests st = length (filter asks_reply (sent (fback st)))"

text \<open>
  What the loop needs while it only waits: the buffer of the status messages is in order once it has been made,
  and the subscription has not been invalidated, unless a transaction is open, in which it is not looked at.
\<close>

definition resting :: "('w, 'rk, 'rkt) apply_loop \<Rightarrow> bool" where
  "resting st \<longleftrightarrow> fb_wf (fback st) \<and> (in_remote_transaction (wrk st) \<or> in_streamed_transaction (wrk st) \<or> MySubscriptionValid (wrk st))"

lemma asks_reply_bytes [simp]: "asks_reply (reply_bytes recvpos flushpos writepos now requestReply) \<longleftrightarrow> requestReply"
proof -
  have "(char_of (1::nat) :: char) \<noteq> NUL" by (simp add: char_of_def bit_0)
  then show ?thesis by (simp add: asks_reply_def reply_bytes_def)
qed

lemma feedback_requests:
  assumes "resting st"
  shows "\<exists>m fb. loop_feedback env f now q q st = Inr (st\<lparr>wrk := (wrk st)\<lparr>lsn_map := m\<rparr>, fback := fb\<rparr>) \<and> fb_wf fb \<and>
    length (filter asks_reply (sent fb)) = requests st + (if q then 1 else 0)"
proof (cases "q \<or> 0 < wal_receiver_status_interval env")
  case True
  have wf: "fb_wf (fback st)" using assms by (simp add: resting_def)
  obtain m fb where "send_feedback f now (wal_receiver_status_interval env) (last_received st) q q (lsn_map (wrk st), fback st) = Inr (m, fb)"
    "fb_wf fb" "length (filter asks_reply (sent fb)) = requests st + (if q then 1 else 0)"
    by (rule send_feedback_sends [OF wf True, of f now "last_received st" q "lsn_map (wrk st)"])
      (rule that, assumption, use wf in \<open>auto simp: requests_def report_due_def fb_wf_def\<close>)
  then show ?thesis by (intro exI [of _ m] exI [of _ fb]) (simp add: loop_feedback_def)
next
  case False
  then show ?thesis using assms
    by (intro exI [of _ "lsn_map (wrk st)"] exI [of _ "fback st"]) (simp add: loop_feedback_def send_feedback_skipped requests_def resting_def)
qed

lemma resting_feedback: "resting st \<Longrightarrow> fb_wf fb \<Longrightarrow> resting (st\<lparr>wrk := (wrk st)\<lparr>lsn_map := m\<rparr>, fback := fb\<rparr>)"
  by (simp add: resting_def)

lemma between_resting:
  assumes "quiet env" and "resting st"
  shows "between_transactions env st = Inr st"
  using assms by (auto simp: between_transactions_def resting_def maybe_reread_subscription_def sync_tables_def quiet_def no_table_syncs_def)

lemma silent_round:
  assumes q: "quiet env" and rest: "resting st" and r: "arrivals r = []" "waits r"
  shows "if expired env (last_recv_timestamp st) (wake_time r)
    then apply_round env r st = Inl (PgError ''terminating logical replication worker due to timeout'')
    else \<exists>st'. apply_round env r st = Inr st' \<and> resting st' \<and> last_recv_timestamp st' = last_recv_timestamp st \<and>
      (ping_sent st' \<longleftrightarrow> ping_sent st \<or> half_expired env (last_recv_timestamp st) (wake_time r)) \<and>
      requests st' = requests st + (if \<not> ping_sent st \<and> half_expired env (last_recv_timestamp st) (wake_time r) then 1 else 0)"
proof -
  obtain m fb where f: "loop_feedback env (round_flush r) (round_time r) False False st = Inr (st\<lparr>wrk := (wrk st)\<lparr>lsn_map := m\<rparr>, fback := fb\<rparr>)"
    "fb_wf fb" "length (filter asks_reply (sent fb)) = requests st" using feedback_requests [OF rest] by fastforce
  let ?st = "st\<lparr>wrk := (wrk st)\<lparr>lsn_map := m\<rparr>, fback := fb\<rparr>"
  note rest1 = resting_feedback [OF rest f(2), of m]
  have round: "apply_round env r st = after_timeout env (wake_time r) (wake_flush r) ?st"
    using r by (simp add: apply_round_def waits_def f(1) between_resting [OF q rest1])
  show ?thesis
  proof (cases "expired env (last_recv_timestamp st) (wake_time r)")
    case True
    then show ?thesis by (simp add: round after_timeout_def expired_def)
  next
    case False
    let ?b = "\<not> ping_sent st \<and> half_expired env (last_recv_timestamp st) (wake_time r)"
    let ?st1 = "if ?b then ?st\<lparr>ping_sent := True\<rparr> else ?st"
    have "after_timeout env (wake_time r) (wake_flush r) ?st = loop_feedback env (wake_flush r) (wake_time r) ?b ?b ?st1"
      using False by (simp add: after_timeout_def expired_def half_expired_def)
    moreover have "resting ?st1" using rest1 by (simp add: resting_def)
    from feedback_requests [OF this, of env "wake_flush r" "wake_time r" ?b] obtain m' fb' where
      "loop_feedback env (wake_flush r) (wake_time r) ?b ?b ?st1 = Inr (?st1\<lparr>wrk := (wrk ?st1)\<lparr>lsn_map := m'\<rparr>, fback := fb'\<rparr>)" "fb_wf fb'"
      "length (filter asks_reply (sent fb')) = requests ?st1 + (if ?b then 1 else 0)" by blast
    moreover note resting_feedback [OF \<open>resting ?st1\<close> \<open>fb_wf fb'\<close>, of m']
    moreover have "requests ?st1 = requests st" using f(3) by (simp add: requests_def)
    ultimately show ?thesis using False by (auto simp: round requests_def)
  qed
qed

lemma silent_loop:
  assumes q: "quiet env" and "resting st" and "list_all (\<lambda>r. arrivals r = [] \<and> waits r) rounds"
  shows "if \<exists>r \<in> set rounds. expired env (last_recv_timestamp st) (wake_time r)
    then LogicalRepApplyLoop env rounds st = Inl (PgError ''terminating logical replication worker due to timeout'')
    else \<exists>st'. LogicalRepApplyLoop env rounds st = Inr (False, st') \<and>
      requests st' = requests st + (if \<not> ping_sent st \<and> (\<exists>r \<in> set rounds. half_expired env (last_recv_timestamp st) (wake_time r)) then 1 else 0)"
  using assms(2,3)
proof (induction rounds arbitrary: st)
  case (Cons r rounds)
  have r: "arrivals r = []" "waits r" "\<not> stream_ended r" using Cons.prems(2) by (simp_all add: waits_def)
  show ?case
  proof (cases "expired env (last_recv_timestamp st) (wake_time r)")
    case True
    then show ?thesis using silent_round [OF q Cons.prems(1) r(1,2)] by simp
  next
    case False
    then obtain st' where st': "apply_round env r st = Inr st'" "resting st'" "last_recv_timestamp st' = last_recv_timestamp st"
      "ping_sent st' \<longleftrightarrow> ping_sent st \<or> half_expired env (last_recv_timestamp st) (wake_time r)"
      "requests st' = requests st + (if \<not> ping_sent st \<and> half_expired env (last_recv_timestamp st) (wake_time r) then 1 else 0)"
      using silent_round [OF q Cons.prems(1) r(1,2)] by auto
    then show ?thesis using Cons.IH [OF st'(2)] Cons.prems(2) False r(3)
      by (cases "half_expired env (last_recv_timestamp st) (wake_time r)"; cases "ping_sent st") (auto split: if_splits)
  qed
qed simp

text \<open>Claim C26. A publisher that falls silent, at the start of the process or at any later moment, within a transaction or between two, while
  neither the subscription nor the synchronisation of tables changes: the worker gives the connection up at the first wait that ends later than
  \<^verbatim>\<open>wal_receiver_timeout\<close> after the last message; until then it asks for a sign of life once more, when half of that time has passed,
  unless it has already asked since the last message, and never twice, however often it wakes up.\<close>

theorem silence_detected:
  assumes "quiet env" and "fb_wf (fback st)"
    and "in_remote_transaction (wrk st) \<or> in_streamed_transaction (wrk st) \<or> MySubscriptionValid (wrk st)"
    and "list_all (\<lambda>r. arrivals r = [] \<and> waits r) rounds"
  shows "if \<exists>r \<in> set rounds. expired env (last_recv_timestamp st) (wake_time r)
    then LogicalRepApplyLoop env rounds st = Inl (PgError ''terminating logical replication worker due to timeout'')
    else \<exists>st'. LogicalRepApplyLoop env rounds st = Inr (False, st') \<and>
      length (filter asks_reply (sent (fback st'))) = length (filter asks_reply (sent (fback st))) +
        (if \<not> ping_sent st \<and> (\<exists>r \<in> set rounds. half_expired env (last_recv_timestamp st) (wake_time r)) then 1 else 0)"
proof -
  have "resting st" using assms(2,3) by (simp add: resting_def)
  from silent_loop [OF assms(1) this assms(4)] show ?thesis by (simp only: requests_def)
qed

section \<open>Concrete runs\<close>

definition demo_loop_env :: "(byte list list, unit, unit, int) loop_env" where
  "demo_loop_env = \<lparr>wenv = demo_env, dispatch_depth = 1, wal_receiver_timeout = 60000, wal_receiver_status_interval = 10,
     AcceptInvalidationMessages = (\<lambda>w. w)\<rparr>"

definition demo_loop :: "relmap \<Rightarrow> (byte list list, unit, unit) apply_loop" where
  "demo_loop rm = \<lparr>wrk = demo_worker rm, fback = status ack_start, last_received = 0, last_recv_timestamp = 0, ping_sent = False,
     wstats = \<lparr>ws_last_lsn = 0, ws_last_send_time = 0, ws_last_recv_time = 0, ws_reply_lsn = 0, ws_reply_time = 0\<rparr>\<rparr>"

definition demo_quiet_round :: "TimestampTz \<Rightarrow> loop_round" where
  "demo_quiet_round t = \<lparr>arrivals = [], stream_ended = False, round_time = 0, round_flush = 0, timed_out = True, wake_time = t, wake_flush = 0\<rparr>"

lemma demo_loop_quiet: "quiet demo_loop_env"
  by (simp add: quiet_def demo_loop_env_def demo_env_def no_table_syncs_def)

lemma demo_loop_start:
  assumes "idle (\<lambda>w. w) ''shop'' demo_env (demo_worker rm)" and "\<forall>relid rel. known relid = Some rel \<longrightarrow> usable (local_cat demo_env) relid rel rm"
  shows "loop_start (\<lambda>w. w) ''shop'' demo_loop_env known (demo_loop rm)"
  using assms by (simp add: loop_start_def demo_loop_env_def demo_loop_def) (simp add: demo_worker_def)

text \<open>The publisher falls silent within a transaction.\<close>

definition demo_open_loop :: "(byte list list, unit, unit) apply_loop" where
  "demo_open_loop = (demo_loop (\<lambda>_. None))\<lparr>wrk := (demo_worker (\<lambda>_. None))\<lparr>in_remote_transaction := True\<rparr>, last_recv_timestamp := 1000000\<rparr>"

theorem silence_detected_witness:
  "\<exists>st'. LogicalRepApplyLoop demo_loop_env [demo_quiet_round 10000000, demo_quiet_round 32000000, demo_quiet_round 40000000] demo_open_loop = Inr (False, st') \<and>
     length (filter asks_reply (sent (fback st'))) = 1"
proof -
  let ?rounds = "[demo_quiet_round 10000000, demo_quiet_round 32000000, demo_quiet_round 40000000]"
  have st: "fb_wf (fback demo_open_loop)" "in_remote_transaction (wrk demo_open_loop)" "\<not> ping_sent demo_open_loop"
    "last_recv_timestamp demo_open_loop = 1000000" "sent (fback demo_open_loop) = []"
    by (simp_all add: demo_open_loop_def demo_loop_def fb_wf_def ack_start_def)
  have "list_all (\<lambda>r. arrivals r = [] \<and> waits r) ?rounds" by (simp add: demo_quiet_round_def waits_def)
  moreover have "expired demo_loop_env 1000000 t \<longleftrightarrow> 61000000 \<le> sint t" "half_expired demo_loop_env 1000000 t \<longleftrightarrow> 31000000 \<le> sint t" for t
    by (simp_all add: expired_def half_expired_def TimestampTzPlusMilliseconds_def demo_loop_env_def)
  ultimately show ?thesis using silence_detected [OF demo_loop_quiet st(1) disjI1 [OF st(2)], of ?rounds] st
    by (auto simp: demo_quiet_round_def)
qed

definition demo_data :: "XLogRecPtr \<Rightarrow> byte list \<Rightarrow> arrival" where
  "demo_data lsn m = \<lparr>arr_bytes = CHR ''w'' # be_bytes 8 (unat lsn) @ be_bytes 8 (unat lsn) @ be_bytes 8 (unat (1 :: 64 word)) @ m,
     arr_time = 5, arr_flush = 0\<rparr>"

definition demo_ping :: arrival where
  "demo_ping = \<lparr>arr_bytes = CHR ''k'' # be_bytes 8 (unat (70 :: 64 word)) @ be_bytes 8 (unat (1 :: 64 word)) @ [CHR 0x01], arr_time = 6, arr_flush = 0\<rparr>"

definition demo_round :: "arrival list \<Rightarrow> loop_round" where
  "demo_round as = \<lparr>arrivals = as, stream_ended = False, round_time = 7, round_flush = 0, timed_out = False, wake_time = 0, wake_flush = 0\<rparr>"

text \<open>A transaction with one row, cut into two rounds, and a keepalive that asks for an answer.\<close>

theorem loop_publishes_witness:
  "\<exists>rm bb m cb ended st'. LogicalRepApplyLoop demo_loop_env [demo_round [demo_data 40 (CHR ''B'' # bb), demo_data 45 m],
       demo_round [demo_data 60 (CHR ''C'' # cb), demo_ping]] (demo_loop rm) = Inr (ended, st') \<and>
     handed_over_all (\<lambda>w. w) [change_text ''shop'' demo_remote_rel (Inserted [Some ''7''])] (pub (demo_worker rm)) (pub (wrk st'))"
proof -
  obtain rm where rm: "idle (\<lambda>w. w) ''shop'' demo_env (demo_worker rm)" "usable (local_cat demo_env) 7 demo_remote_rel rm"
    by (rule demo_worker_idle)
  have "length (row_bytes [(LOGICALREP_COLUMN_TEXT, Some ''7'')]) + 6 < MaxAllocSize" using demo_row(2) by simp
  from written_row_message(1) [OF demo_row(1) this] obtain m where m: "row_message m 7 (Inserted [Some ''7''])"
    by (auto simp: demo_row(3))
  have "parses logicalrep_read_begin (be_bytes 8 (unat (50 :: 64 word)) @ be_bytes 8 (unat (1 :: 64 word)) @ be_bytes 4 (unat (9 :: 32 word)) @ [])
      \<lparr>bd_final_lsn = 50, bd_committime = 1, bd_xid = 9\<rparr>" (is "parses _ ?bb ?bd") by (rule begin_parses) simp
  then have b: "means (\<lambda>s. s) (CHR ''B'' # ?bb) (Begin ?bd)" by (rule means.begin_tx)
  have "parses logicalrep_read_commit ([NUL] @ be_bytes 8 (unat (50 :: 64 word)) @ be_bytes 8 (unat (60 :: 64 word)) @ be_bytes 8 (unat (1 :: 64 word)) @ [])
      \<lparr>cd_commit_lsn = 50, cd_end_lsn = 60, cd_committime = 1\<rparr>" (is "parses _ ?cb ?cd") by (rule commit_parses)
  then have c: "means (\<lambda>s. s) (CHR ''C'' # ?cb) (Commit ?cd)" by (rule means.commit_tx)
  have d: "is_event (\<lambda>s. s) (arr_bytes (demo_data lsn x)) (Data lsn lsn 1 el)" if "means (\<lambda>s. s) x el" for lsn x el
    unfolding demo_data_def using is_event.data [OF that, of lsn lsn 1] by simp
  have k: "is_event (\<lambda>s. s) (arr_bytes demo_ping) (Keepalive 70 1 True)"
    unfolding demo_ping_def using is_event.keepalive [of "\<lambda>s. s" 70 1 "CHR 0x01"] by simp
  let ?rounds = "[demo_round [demo_data 40 (CHR ''B'' # ?bb), demo_data 45 m], demo_round [demo_data 60 (CHR ''C'' # ?cb), demo_ping]]"
  let ?evss = "[[Data 40 40 1 (Begin ?bd), Data 45 45 1 (Change 7 demo_remote_rel (Inserted [Some ''7'']))],
      [Data 60 60 1 (Commit ?cd), Keepalive 70 1 True]]"
  have ev: "list_all2 (\<lambda>r. list_all2 (\<lambda>a. is_event (to_server (wenv demo_loop_env)) (arr_bytes a)) (arrivals r)) ?rounds ?evss"
    using d [OF b, of 40] d [OF means.change [OF m, of "\<lambda>s. s" demo_remote_rel], of 45] d [OF c, of 60] k
    by (simp add: demo_round_def demo_loop_env_def demo_env_def del: be_bytes.simps)
  have start: "loop_start (\<lambda>w. w) ''shop'' demo_loop_env [7 \<mapsto> demo_remote_rel] (demo_loop rm)"
    by (rule demo_loop_start [OF rm(1)]) (use rm(2) in \<open>simp split: if_splits\<close>)
  have ok: "stream_ok ''shop'' (local_cat (wenv demo_loop_env)) [7 \<mapsto> demo_remote_rel] None (concat (map event_elements (concat ?evss)))"
    "events_in_order (last_received (demo_loop rm)) (concat ?evss @ [])"
    "sorted (concat (map flushes ?rounds))" "punctual demo_loop_env (last_recv_timestamp (demo_loop rm)) ?rounds"
    "list_all (\<lambda>r. \<not> stream_ended r) (butlast ?rounds)"
    using demo_publishable(1) by (simp_all add: demo_loop_def flushes_def demo_round_def demo_data_def demo_ping_def waits_def del: be_bytes.simps)
  have lib: "client_contract (kafka_lib (wenv demo_loop_env)) (\<lambda>w. w)" "sprintf_fits (doubles (wenv demo_loop_env))" "0 < dispatch_depth demo_loop_env"
    using demo_client_contract [of 5] demo_fp_fits by (simp_all add: demo_loop_env_def demo_env_def)
  obtain ended st' where "LogicalRepApplyLoop demo_loop_env ?rounds (demo_loop rm) = Inr (ended, st')"
    "handed_over_all (\<lambda>w. w) (stream_texts ''shop'' (concat (map event_elements (concat ?evss)))) (pub (wrk (demo_loop rm))) (pub (wrk st'))"
    using loop_publishes [OF lib(1,2) demo_loop_quiet lib(3) start ev ok] by blast
  then show ?thesis
    by (intro exI [of _ rm] exI [of _ ?bb] exI [of _ m] exI [of _ ?cb] exI [of _ ended] exI [of _ st'])
      (simp add: stream_texts_def demo_loop_def del: be_bytes.simps)
qed

end
