(* ===== verification/OutputStream.thy ===== *)
theory OutputStream
  imports PgOutput ApplyLoop
begin

text \<open>
  The messages that \<^verbatim>\<open>pgoutput.c\<close> puts on the connection, as the subscriber understands them:
  each writer conveys one element of a stream, the state of the plugin stays coherent with what
  the subscriber has been told, and every table is described ahead of its first change.
\<close>

section \<open>Messages on the connection\<close>

definition data_message :: "XLogRecPtr \<Rightarrow> TimestampTz \<Rightarrow> byte list \<Rightarrow> byte list" where
  "data_message lsn now m = CHR ''w'' # be_bytes 8 (unat lsn) @ be_bytes 8 (unat lsn) @ be_bytes 8 (unat now) @ m"

lemma data_message_event: "means c2s m el \<Longrightarrow> is_event c2s (data_message lsn now m) (Data lsn lsn now el)"
  unfolding data_message_def by (rule is_event.data)

text \<open>
  An interface through which messages leave one by one: a message that fits is delivered as a
  whole behind the ones before it, and the rest of the state stays.
\<close>

locale message_channel =
  fixes send :: "bool \<Rightarrow> (StringInfoData \<Rightarrow> StringInfoData res) \<Rightarrow> 's \<Rightarrow> 's res"
    and ready :: "'s \<Rightarrow> bool" and delivered :: "'s \<Rightarrow> byte list list" and position :: "'s \<Rightarrow> XLogRecPtr" and rest :: "'s \<Rightarrow> 'r"
  assumes send_delivers: "ready s \<Longrightarrow> appends w m \<Longrightarrow> length m + 25 < MaxAllocSize \<Longrightarrow>
      \<exists>s' now. send last_write w s = Inr s' \<and> ready s' \<and> rest s' = rest s \<and> position s' = position s \<and>
        delivered s' = delivered s @ [data_message (if last_write then position s else 0) now m]"
begin

text \<open>What a state change has emitted, as events of the subscriber.\<close>

definition emits :: "(cstring \<Rightarrow> cstring) \<Rightarrow> 's \<Rightarrow> 's \<Rightarrow> event list \<Rightarrow> bool" where
  "emits c2s s s' evs \<longleftrightarrow> (\<exists>msgs. delivered s' = delivered s @ msgs \<and> list_all2 (is_event c2s) msgs evs)"

lemma emits_nothing: "delivered s' = delivered s \<Longrightarrow> emits c2s s s' []"
  by (simp add: emits_def)

lemma emits_append: "emits c2s s s1 evs \<Longrightarrow> emits c2s s1 s2 evs' \<Longrightarrow> emits c2s s s2 (evs @ evs')"
  by (auto simp: emits_def intro: list_all2_appendI)

lemma send_emits:
  assumes "ready s" and "appends w m" and "length m + 25 < MaxAllocSize" and "means c2s m el"
  obtains s' now where "send last_write w s = Inr s'" and "ready s'" and "rest s' = rest s" and "position s' = position s"
    and "emits c2s s s' [Data (if last_write then position s else 0) (if last_write then position s else 0) now el]"
proof -
  obtain s' now where s': "send last_write w s = Inr s'" "ready s'" "rest s' = rest s" "position s' = position s"
    "delivered s' = delivered s @ [data_message (if last_write then position s else 0) now m]"
    using send_delivers [OF assms(1-3)] by blast
  then have "emits c2s s s' [Data (if last_write then position s else 0) (if last_write then position s else 0) now el]"
    using data_message_event [OF assms(4)] by (simp add: emits_def)
  with s'(1-4) show thesis by (rule that)
qed

end

text \<open>The parts of the decoding state that a message leaves alone, and when a message can be sent.\<close>

definition settled :: "decoding \<Rightarrow> PGOutputData \<times> (TransactionId \<rightharpoonup> bool) \<times> bool \<times> (Oid \<rightharpoonup> RelationSyncEntry) option \<times> (XLogRecPtr \<times> bool) list" where
  "settled st = (plugin st, sent_begin_txn st, publications_valid st, RelationSyncCache st, progress st)"

definition sendable :: "decoding \<Rightarrow> bool" where
  "sendable st \<longleftrightarrow> accept_writes st \<and> si_wf (out_buf st)"

lemma header_written:
  assumes "si_wf s" and "si_len s = 0" and "si_bytes s = []"
  obtains s' where "seq_writes [pq_sendbyte (u8 (CHR ''w'')), pq_sendint64 lsn, pq_sendint64 lsn, pq_sendint64 0] s = Inr s'"
    and "si_wf s'" and "si_len s' = 25" and "si_bytes s' = CHR ''w'' # be_bytes 8 (unat lsn) @ be_bytes 8 (unat lsn) @ be_bytes 8 0"
proof -
  have "appends (seq_writes [pq_sendbyte (u8 (CHR ''w'')), pq_sendint64 lsn, pq_sendint64 lsn, pq_sendint64 0])
      ([CHR ''w''] @ be_bytes 8 (unat lsn) @ be_bytes 8 (unat lsn) @ be_bytes 8 (unat (0 :: 64 word)) @ [])"
    by (rule write_intros)+
  then show thesis
  proof (rule appends_okE [OF _ assms(1)])
    show "si_len s + length ([CHR ''w''] @ be_bytes 8 (unat lsn) @ be_bytes 8 (unat lsn) @ be_bytes 8 (unat (0 :: 64 word)) @ []) < MaxAllocSize"
      using assms(2) by (simp add: MaxAllocSize_def)
  qed (use assms(2,3) in \<open>auto intro!: that simp del: be_bytes.simps\<close>)
qed

lemma time_filled_in:
  assumes wf: "si_wf s" and bytes: "si_bytes s = CHR ''w'' # be_bytes 8 (unat lsn) @ be_bytes 8 (unat lsn) @ be_bytes 8 0 @ m"
  obtains cells where "mem_write (si_data s) 17 (be_bytes 8 (unat now)) = Inr cells" and "si_wf (s\<lparr>si_data := cells\<rparr>)"
    and "mem_read cells 0 (si_len s) = Inr (data_message lsn now m)"
proof -
  let ?pre = "CHR ''w'' # be_bytes 8 (unat lsn) @ be_bytes 8 (unat lsn)" and ?post = "drop (si_len s) (si_data s)"
  let ?cells = "map Some (data_message lsn now m) @ ?post"
  have d: "si_data s = map Some (?pre @ be_bytes 8 0 @ m) @ ?post" using si_data_split [OF wf] bytes by simp
  have len: "si_len s = length (data_message lsn now m)"
    using length_si_bytes [OF wf] bytes by (simp add: data_message_def del: be_bytes.simps)
  have p: "length ?pre = 17" by simp
  have "mem_write (si_data s) 17 (be_bytes 8 (unat now)) = Inr (take 17 (si_data s) @ map Some (be_bytes 8 (unat now)) @ drop (17 + 8) (si_data s))"
    using arg_cong [OF d, of length] by (subst mem_write_ok) (simp_all del: be_bytes.simps)
  also have "take 17 (si_data s) @ map Some (be_bytes 8 (unat now)) @ drop (17 + 8) (si_data s) = ?cells"
    by (subst (1 2) d) (simp add: data_message_def del: be_bytes.simps)
  finally have w: "mem_write (si_data s) 17 (be_bytes 8 (unat now)) = Inr ?cells" .
  moreover have "mem_read ?cells 0 (si_len s) = Inr (data_message lsn now m)"
    by (rule mem_read_map_Some [where pre = "[]" and post = ?post]) (simp_all add: len)
  moreover have "si_wf (s\<lparr>si_data := ?cells\<rparr>)"
    using wf mem_write_keeps(1) [OF w] len unfolding si_wf_def by auto
  ultimately show thesis by (intro that)
qed

lemma send_message_ok:
  assumes "sendable st" and w: "appends w m" and fits: "length m + 25 < MaxAllocSize"
  shows "\<exists>st' now. send_message env last_write w st = Inr st' \<and> sendable st' \<and> settled st' = settled st \<and>
    write_location st' = write_location st \<and>
    sent_messages st' = sent_messages st @ [data_message (if last_write then write_location st else 0) now m]"
proof -
  let ?lsn = "if last_write then write_location st else 0" and ?now = "send_clock env (length (sent_messages st))"
  have acc: "accept_writes st" and wf: "si_wf (out_buf st)" using assms(1) by (simp_all add: sendable_def)
  obtain s0 where s0: "resetStringInfo (out_buf st) = Inr s0" "si_wf s0" "si_bytes s0 = []" "si_len s0 = 0" by (rule resetStringInfo_ok [OF wf])
  obtain s1 where s1: "seq_writes [pq_sendbyte (u8 (CHR ''w'')), pq_sendint64 ?lsn, pq_sendint64 ?lsn, pq_sendint64 0] s0 = Inr s1" "si_wf s1"
    "si_len s1 = 25" "si_bytes s1 = CHR ''w'' # be_bytes 8 (unat ?lsn) @ be_bytes 8 (unat ?lsn) @ be_bytes 8 0"
    by (rule header_written [OF s0(2,4,3)])
  have "si_len s1 + length m < MaxAllocSize" using s1(3) fits by simp
  then obtain s2 where s2: "w s1 = Inr s2" "si_wf s2" "si_bytes s2 = si_bytes s1 @ m" by (rule appends_okE [OF w s1(2)])
  have "si_bytes s2 = CHR ''w'' # be_bytes 8 (unat ?lsn) @ be_bytes 8 (unat ?lsn) @ be_bytes 8 0 @ m" using s2(3) s1(4) by simp
  then obtain cells where c: "mem_write (si_data s2) 17 (be_bytes 8 (unat ?now)) = Inr cells" "si_wf (s2\<lparr>si_data := cells\<rparr>)"
    "mem_read cells 0 (si_len s2) = Inr (data_message ?lsn ?now m)" by (rule time_filled_in [OF s2(2)])
  let ?st = "st\<lparr>out_buf := s2\<lparr>si_data := cells\<rparr>, prepared_write := False, sent_messages := sent_messages st @ [data_message ?lsn ?now m]\<rparr>"
  have "send_message env last_write w st = Inr ?st"
    using acc s0(1) s1(1) s2(1) c(1,3)
    by (simp add: send_message_def OutputPluginPrepareWrite_def WalSndPrepareWrite_def write_out_def OutputPluginWrite_def WalSndWriteData_def
        Let_def del: be_bytes.simps)
  then show ?thesis using acc c(2) by (intro exI [of _ ?st] exI [of _ ?now]) (simp add: sendable_def settled_def)
qed

interpretation out: message_channel "send_message env" sendable sent_messages write_location settled
  by unfold_locales (rule send_message_ok)

section \<open>What the writers convey\<close>

definition conveys :: "(cstring \<Rightarrow> cstring) \<Rightarrow> (StringInfoData \<Rightarrow> StringInfoData res) \<Rightarrow> element \<Rightarrow> bool" where
  "conveys c2s w el \<longleftrightarrow> (\<exists>m. means c2s m el \<and> appends w m \<and> length m + 25 < MaxAllocSize)"

lemma send_conveyed:
  assumes "sendable st" and "conveys c2s w el"
  obtains st' now where "send_message env last_write w st = Inr st'" and "sendable st'" and "settled st' = settled st"
    and "write_location st' = write_location st"
    and "out.emits c2s st st' [Data (if last_write then write_location st else 0) (if last_write then write_location st else 0) now el]"
proof -
  obtain m where "means c2s m el" "appends w m" "length m + 25 < MaxAllocSize" using assms(2) by (auto simp: conveys_def)
  then show thesis using out.send_emits [OF assms(1), of w m c2s el env last_write] that by metis
qed

lemma conveys_begin:
  assumes "txn_final_lsn txn \<noteq> InvalidXLogRecPtr"
  shows "conveys c2s (logicalrep_write_begin txn)
    (Begin \<lparr>bd_final_lsn = txn_final_lsn txn, bd_committime = txn_xact_time txn, bd_xid = txn_xid txn\<rparr>)"
  using means.begin_tx [OF begin_parses [OF assms]] begin_appends [of txn]
  unfolding conveys_def by (intro exI) (auto simp: MaxAllocSize_def simp del: be_bytes.simps)

lemma conveys_commit:
  "conveys c2s (logicalrep_write_commit txn commit_lsn)
    (Commit \<lparr>cd_commit_lsn = commit_lsn, cd_end_lsn = txn_end_lsn txn, cd_committime = txn_xact_time txn\<rparr>)"
  using means.commit_tx [OF commit_parses] commit_appends [of txn commit_lsn]
  unfolding conveys_def by (intro exI) (auto simp: MaxAllocSize_def simp del: be_bytes.simps)

lemma conveys_relation:
  assumes "relation_sent s2c c2s cat rel columns gencols nsp"
  shows "conveys c2s (logicalrep_write_rel s2c cat InvalidTransactionId rel columns gencols)
    (Describe (relation_view rel nsp (published_attrs rel columns gencols)))"
proof -
  note r = assms [unfolded relation_sent_def]
  obtain bs where bs: "appends (seq_writes [pq_sendint32 (rd_id rel), logicalrep_write_namespace s2c cat (rd_namespace rel),
      pq_sendstring s2c (rd_relname rel), pq_sendbyte (u8 (rd_relreplident rel)), logicalrep_write_attrs s2c rel columns gencols]) bs"
    "parses (logicalrep_read_rel c2s) bs (relation_view rel nsp (published_attrs rel columns gencols))"
    "length bs = length (attrs_bytes s2c rel (published_attrs rel columns gencols)) + length (converted s2c nsp)
      + length (converted s2c (rd_relname rel)) + 7" by (rule relation_written [of cat rel nsp s2c c2s columns gencols]) (use r in auto)
  have "appends (logicalrep_write_rel s2c cat InvalidTransactionId rel columns gencols) (CHR ''R'' # bs)"
    using streamed_writer_appends [OF bs(1), of "CHR ''R''" InvalidTransactionId] by (simp add: logicalrep_write_rel_def xid_bytes_def)
  then show ?thesis using means.describe [OF bs(2)] bs(3) r unfolding conveys_def by (intro exI [of _ "CHR ''R'' # bs"]) simp
qed

text \<open>A type outside of the system's own is described as well.\<close>

definition type_sent :: "(cstring \<Rightarrow> cstring) \<Rightarrow> (cstring \<Rightarrow> cstring) \<Rightarrow> 'd catalog \<Rightarrow> Oid \<Rightarrow> bool" where
  "type_sent s2c c2s cat typoid \<longleftrightarrow>
     (\<exists>ty nsp. SearchSysCacheType cat (getBaseType cat typoid) = Some ty \<and> sent_namespace cat (typnamespace ty) = Some nsp \<and>
        survives s2c c2s nsp \<and> converted s2c [] = [] \<and> survives s2c c2s (typname ty) \<and>
        length (converted s2c nsp) + length (converted s2c (typname ty)) + 32 < MaxAllocSize)"

lemma conveys_type:
  assumes "type_sent s2c c2s cat typoid"
  shows "conveys c2s (logicalrep_write_typ s2c cat InvalidTransactionId typoid) Note"
proof -
  obtain ty nsp where ty: "SearchSysCacheType cat (getBaseType cat typoid) = Some ty" "sent_namespace cat (typnamespace ty) = Some nsp"
    "survives s2c c2s nsp" "converted s2c [] = []" "survives s2c c2s (typname ty)"
    "length (converted s2c nsp) + length (converted s2c (typname ty)) + 32 < MaxAllocSize" using assms by (auto simp: type_sent_def)
  obtain bs where bs: "appends (seq_writes [seq_writes [pq_sendint32 typoid, logicalrep_write_namespace s2c cat (typnamespace ty),
      pq_sendstring s2c (typname ty)]]) bs"
    "parses (logicalrep_read_typ c2s) bs \<lparr>typ_remoteid = typoid, typ_nspname = read_namespace_name nsp, typ_typname = typname ty\<rparr>"
    "length bs = length (converted s2c nsp) + length (converted s2c (typname ty)) + 6" by (rule type_written [OF ty(2-5)])
  have "appends (logicalrep_write_typ s2c cat InvalidTransactionId typoid) (CHR ''Y'' # bs)"
    unfolding logicalrep_write_typ_def ty(1) option.case
    using streamed_writer_appends [OF bs(1), of "CHR ''Y''" InvalidTransactionId] by (simp add: xid_bytes_def del: seq_writes.simps)
  then show ?thesis using means.type_note [OF bs(2)] bs(3) ty(6) unfolding conveys_def by (intro exI [of _ "CHR ''Y'' # bs"]) simp
qed

text \<open>The rows of a change as the subscriber reads them: texts of the published columns.\<close>

definition row_read ::
    "'d output_env \<Rightarrow> bool \<Rightarrow> RelationSyncEntry \<Rightarrow> Relation \<Rightarrow> 'd TupleTableSlot \<Rightarrow> (byte \<times> byte list option) list \<Rightarrow> bool" where
  "row_read env bin entry rel slot imgs \<longleftrightarrow>
     row_sent (to_client env) (syscat (pubcat env)) rel slot bin (re_columns entry) (re_include_gencols_type entry) imgs"

fun change_read ::
    "'d output_env \<Rightarrow> bool \<Rightarrow> RelationSyncEntry \<Rightarrow> Relation \<Rightarrow> 'd TupleTableSlot option \<Rightarrow> 'd TupleTableSlot option \<Rightarrow>
     ReorderBufferChangeType \<Rightarrow> change_row \<Rightarrow> bool" where
  "change_read env bin entry rel old new REORDER_BUFFER_CHANGE_INSERT ch \<longleftrightarrow>
     (\<exists>slot imgs. new = Some slot \<and> row_read env bin entry rel slot imgs \<and> length (row_bytes imgs) + 31 < MaxAllocSize \<and>
        ch = Inserted (image_text imgs))"
| "change_read env bin entry rel old new REORDER_BUFFER_CHANGE_DELETE ch \<longleftrightarrow>
     (\<exists>slot imgs. old = Some slot \<and> row_read env bin entry rel slot imgs \<and> length (row_bytes imgs) + 31 < MaxAllocSize \<and>
        ch = Deleted (image_text imgs))"
| "change_read env bin entry rel old new REORDER_BUFFER_CHANGE_UPDATE ch \<longleftrightarrow>
     (\<exists>slot imgs olds. new = Some slot \<and> row_read env bin entry rel slot imgs \<and> rel_option (row_read env bin entry rel) old olds \<and>
        (case olds of None \<Rightarrow> 0 | Some oldimgs \<Rightarrow> length (row_bytes oldimgs)) + length (row_bytes imgs) + 32 < MaxAllocSize \<and>
        ch = Updated (map_option image_text olds) (image_text imgs))"

lemma conveys_change:
  assumes "change_read env bin entry rel old new action ch"
  shows "conveys c2s (write_change env bin InvalidTransactionId rel entry old new action) (Change (rd_id rel) lrel ch)"
proof -
  have "\<exists>m. row_message m (rd_id rel) ch \<and> appends (write_change env bin InvalidTransactionId rel entry old new action) m \<and> length m < MaxAllocSize - 25"
  proof (cases action)
    case REORDER_BUFFER_CHANGE_INSERT
    with assms obtain slot imgs where i: "new = Some slot" "row_read env bin entry rel slot imgs" "length (row_bytes imgs) + 6 < MaxAllocSize - 25"
      "ch = Inserted (image_text imgs)" by auto
    have "write_change env bin InvalidTransactionId rel entry old new action = logicalrep_write_insert (to_client env) (syscat (pubcat env))
        InvalidTransactionId rel slot bin (re_columns entry) (re_include_gencols_type entry)"
      by (simp add: fun_eq_iff write_change_def REORDER_BUFFER_CHANGE_INSERT i(1))
    then show ?thesis using row_written(1) [OF i(2) [unfolded row_read_def] i(3)] i(4) by simp
  next
    case REORDER_BUFFER_CHANGE_DELETE
    with assms obtain slot imgs where i: "old = Some slot" "row_read env bin entry rel slot imgs" "length (row_bytes imgs) + 6 < MaxAllocSize - 25"
      "ch = Deleted (image_text imgs)" by auto
    have "write_change env bin InvalidTransactionId rel entry old new action = logicalrep_write_delete (to_client env) (syscat (pubcat env))
        InvalidTransactionId rel slot bin (re_columns entry) (re_include_gencols_type entry)"
      by (simp add: fun_eq_iff write_change_def REORDER_BUFFER_CHANGE_DELETE i(1))
    then show ?thesis using row_written(2) [OF i(2) [unfolded row_read_def] i(3)] i(4) by simp
  next
    case REORDER_BUFFER_CHANGE_UPDATE
    with assms obtain slot imgs olds where i: "new = Some slot" "row_read env bin entry rel slot imgs"
      "rel_option (row_read env bin entry rel) old olds"
      "(case olds of None \<Rightarrow> 0 | Some oldimgs \<Rightarrow> length (row_bytes oldimgs)) + length (row_bytes imgs) + 7 < MaxAllocSize - 25"
      "ch = Updated (map_option image_text olds) (image_text imgs)" by auto
    have "write_change env bin InvalidTransactionId rel entry old new action = logicalrep_write_update (to_client env) (syscat (pubcat env))
        InvalidTransactionId rel old slot bin (re_columns entry) (re_include_gencols_type entry)"
      by (simp add: fun_eq_iff write_change_def REORDER_BUFFER_CHANGE_UPDATE i(1))
    then show ?thesis using update_written [OF i(2,3) [unfolded row_read_def] i(4)] i(5) by simp
  qed
  then show ?thesis unfolding conveys_def by (auto intro: means.change)
qed

text \<open>A relation whose description, with those of its types, reaches the subscriber as \<open>lrel\<close>.\<close>

definition describable :: "'d output_env \<Rightarrow> (cstring \<Rightarrow> cstring) \<Rightarrow> RelationSyncEntry \<Rightarrow> Relation \<Rightarrow> LogicalRepRelation \<Rightarrow> bool" where
  "describable env c2s entry rel lrel \<longleftrightarrow>
     (\<exists>nsp. relation_sent (to_client env) c2s (syscat (pubcat env)) rel (re_columns entry) (re_include_gencols_type entry) nsp \<and>
        lrel = relation_view rel nsp (published_attrs rel (re_columns entry) (re_include_gencols_type entry))) \<and>
     (\<forall>att \<in> set (published_attrs rel (re_columns entry) (re_include_gencols_type entry)).
        FirstGenbkiObjectId \<le> atttypid att \<longrightarrow> type_sent (to_client env) c2s (syscat (pubcat env)) (atttypid att))"

section \<open>Pieces of a stream\<close>

text \<open>
  Events without a commit, at positions below \<open>lim\<close>, that lead the subscriber from one knowledge
  of tables and one state of the transaction to the next, with the texts they publish.
\<close>

fun event_below :: "XLogRecPtr \<Rightarrow> event \<Rightarrow> bool" where
  "event_below lim (Data start_lsn end_lsn sent_at el) \<longleftrightarrow> start_lsn < lim \<and> end_lsn < lim \<and> (\<forall>cd. el \<noteq> Commit cd)"
| "event_below lim ev \<longleftrightarrow> False"

definition piece ::
    "cstring \<Rightarrow> local_catalog \<Rightarrow> XLogRecPtr \<Rightarrow> descriptions \<Rightarrow> XLogRecPtr option \<Rightarrow> event list \<Rightarrow> descriptions \<Rightarrow> XLogRecPtr option \<Rightarrow> byte list list \<Rightarrow> bool" where
  "piece db cat lim known tx evs known' tx' texts \<longleftrightarrow>
     stream_ok db cat known tx (concat (map event_elements evs)) \<and> list_all (event_below lim) evs \<and>
     fold known_after (concat (map event_elements evs)) known = known' \<and> fold tx_after (concat (map event_elements evs)) tx = tx' \<and>
     stream_texts db (concat (map event_elements evs)) = texts"

lemma piece_Nil: "piece db cat lim known tx [] known tx []"
  by (simp add: piece_def stream_texts_def)

lemma piece_append:
  assumes "piece db cat lim known tx evs known1 tx1 ts" and "piece db cat lim known1 tx1 evs' known2 tx2 ts'"
  shows "piece db cat lim known tx (evs @ evs') known2 tx2 (ts @ ts')"
  using assms by (auto simp: piece_def stream_ok_append stream_texts_def)

lemma piece_one:
  assumes "element_ok db cat known tx el" and "start_lsn < lim" and "end_lsn < lim" and "\<forall>cd. el \<noteq> Commit cd"
  shows "piece db cat lim known tx [Data start_lsn end_lsn now el] (known_after el known) (tx_after el tx) (element_texts db el)"
  using assms by (simp add: piece_def stream_texts_def)

lemma events_below_high:
  "list_all (event_below lim) evs \<Longrightarrow> hi < lim \<Longrightarrow> fold (\<lambda>ev hi. event_high hi ev) evs hi < lim \<and> events_in_order hi evs"
proof (induction evs arbitrary: hi)
  case (Cons ev evs)
  then obtain a b t el where ev: "ev = Data a b t el" "a < lim" "b < lim" "\<forall>cd. el \<noteq> Commit cd" by (cases ev) auto
  then have "event_high hi ev < lim" "in_order hi ev" using Cons.prems(2) by (auto, cases el) auto
  then show ?case using Cons by simp
qed simp

section \<open>Sending a description\<close>

lemma send_types_emits:
  assumes "0 < lim" and "sendable st" and "\<forall>att \<in> set atts. logicalrep_should_publish_column att (re_columns entry) (re_include_gencols_type entry) \<longrightarrow>
      FirstGenbkiObjectId \<le> atttypid att \<longrightarrow> type_sent (to_client env) c2s (syscat (pubcat env)) (atttypid att)"
  shows "\<exists>st' evs. send_types env InvalidTransactionId entry atts st = Inr st' \<and> sendable st' \<and> settled st' = settled st \<and>
    write_location st' = write_location st \<and> out.emits c2s st st' evs \<and> piece db cat lim known tx evs known tx []"
  using assms(2-)
proof (induction atts arbitrary: st)
  case Nil
  then show ?case using out.emits_nothing piece_Nil by fastforce
next
  case (Cons att atts)
  show ?case
  proof (cases "logicalrep_should_publish_column att (re_columns entry) (re_include_gencols_type entry) \<and> FirstGenbkiObjectId \<le> atttypid att")
    case True
    then have "conveys c2s (logicalrep_write_typ (to_client env) (syscat (pubcat env)) InvalidTransactionId (atttypid att)) Note"
      using Cons.prems(2) by (intro conveys_type) simp
    from send_conveyed [OF Cons.prems(1) this, of env False] obtain st1 now where st1:
      "send_message env False (logicalrep_write_typ (to_client env) (syscat (pubcat env)) InvalidTransactionId (atttypid att)) st = Inr st1"
      "sendable st1" "settled st1 = settled st" "write_location st1 = write_location st" "out.emits c2s st st1 [Data 0 0 now Note]" by auto
    obtain st' evs where st': "send_types env InvalidTransactionId entry atts st1 = Inr st'" "sendable st'" "settled st' = settled st1"
      "write_location st' = write_location st1" "out.emits c2s st1 st' evs" "piece db cat lim known tx evs known tx []"
      using Cons.IH [OF st1(2)] Cons.prems(2) by auto
    have "piece db cat lim known tx [Data 0 0 now Note] known tx []" using piece_one [of db cat known tx Note 0 lim 0 now] assms(1) by simp
    from piece_append [OF this st'(6)] out.emits_append [OF st1(5) st'(5)] show ?thesis using True st1 st' by auto
  next
    case False
    then show ?thesis using Cons.IH [OF Cons.prems(1)] Cons.prems(2) by (auto simp: not_le)
  qed
qed

lemma send_relation_emits:
  assumes "0 < lim" and "sendable st" and d: "describable env c2s entry rel lrel" and "resolvable cat lrel"
  shows "\<exists>st' evs. send_relation_and_attrs env rel InvalidTransactionId entry st = Inr st' \<and> sendable st' \<and> settled st' = settled st \<and>
    write_location st' = write_location st \<and> out.emits c2s st st' evs \<and>
    piece db cat lim known tx evs (known(rd_id rel \<mapsto> description lrel)) tx []"
proof -
  obtain nsp where nsp: "relation_sent (to_client env) c2s (syscat (pubcat env)) rel (re_columns entry) (re_include_gencols_type entry) nsp"
    "lrel = relation_view rel nsp (published_attrs rel (re_columns entry) (re_include_gencols_type entry))" using d by (auto simp: describable_def)
  have "\<forall>att \<in> set (rd_att rel). logicalrep_should_publish_column att (re_columns entry) (re_include_gencols_type entry) \<longrightarrow>
      FirstGenbkiObjectId \<le> atttypid att \<longrightarrow> type_sent (to_client env) c2s (syscat (pubcat env)) (atttypid att)"
    using d by (auto simp: describable_def published_attrs_def)
  from send_types_emits [OF assms(1,2) this] obtain st1 evs where st1: "send_types env InvalidTransactionId entry (rd_att rel) st = Inr st1"
    "sendable st1" "settled st1 = settled st" "write_location st1 = write_location st" "out.emits c2s st st1 evs"
    "piece db cat lim known tx evs known tx []" by blast
  let ?w = "logicalrep_write_rel (to_client env) (syscat (pubcat env)) InvalidTransactionId rel (re_columns entry) (re_include_gencols_type entry)"
  have "conveys c2s ?w (Describe lrel)" unfolding nsp(2) by (rule conveys_relation [OF nsp(1)])
  from send_conveyed [OF st1(2) this, of env False] obtain st' now where st':
    "send_message env False ?w st1 = Inr st'" "sendable st'" "settled st' = settled st1" "write_location st' = write_location st1"
    "out.emits c2s st1 st' [Data 0 0 now (Describe lrel)]" by auto
  have "piece db cat lim known tx [Data 0 0 now (Describe lrel)] (known(rd_id rel \<mapsto> description lrel)) tx []"
    using piece_one [of db cat known tx "Describe lrel" 0 lim 0 now] assms(1,4) nsp(2) by (simp add: relation_view_def)
  from piece_append [OF st1(6) this] out.emits_append [OF st1(5) st'(5)] show ?thesis
    using st1 st' by (auto simp: send_relation_and_attrs_def)
qed

section \<open>The entries of the relations\<close>

text \<open>A rebuilt entry does not depend on what was there before.\<close>

lemma rebuild_fresh:
  assumes "\<not> re_replicate_valid entry"
  shows "rebuild_entry cat pubs relation entry = rebuild_entry cat pubs relation new_entry"
proof -
  have "(blank_entry entry)\<lparr>re_pubactions := acts, re_publish_as_relid := relid\<rparr> =
      (blank_entry new_entry)\<lparr>re_pubactions := acts, re_publish_as_relid := relid\<rparr>" for acts relid
    using assms by (cases entry) (simp add: blank_entry_def new_entry_def)
  then show ?thesis by (simp add: rebuild_entry_def)
qed

text \<open>Building an entry sets no flag of what was sent.\<close>

definition unsent :: "RelationSyncEntry \<Rightarrow> bool" where
  "unsent entry \<longleftrightarrow> \<not> re_schema_sent entry \<and> re_streamed_txns entry = []"

lemma unsent_update [simp]:
  "unsent (entry\<lparr>re_include_gencols_type := g\<rparr>) = unsent entry" "unsent (entry\<lparr>re_columns := c\<rparr>) = unsent entry"
  "unsent (entry\<lparr>re_attrmap := m\<rparr>) = unsent entry" "unsent (entry\<lparr>re_exprstate := f\<rparr>) = unsent entry"
  "unsent (entry\<lparr>re_pubactions := acts\<rparr>) = unsent entry" "unsent (entry\<lparr>re_publish_as_relid := relid\<rparr>) = unsent entry"
  "unsent (entry\<lparr>re_replicate_valid := v\<rparr>) = unsent entry"
  by (simp_all add: unsent_def)

lemma gencol_loop_unsent: "gencol_loop cat pubs first entry = Inr entry' \<Longrightarrow> unsent entry' = unsent entry"
proof (induction pubs arbitrary: first entry)
  case (Cons pub pubs)
  then show ?case by (fastforce simp: bindR_eq_Inr_iff split: if_splits)
qed simp

lemma column_list_loop_unsent:
  "column_list_loop cat relation several pubs first found relcols entry = Inr (found', entry') \<Longrightarrow> unsent entry' = unsent entry"
proof (induction pubs arbitrary: first found relcols entry)
  case (Cons pub pubs)
  obtain f relcols' cols' where
    "(if first then column_list_loop cat relation several pubs False (found \<or> f) relcols' (entry\<lparr>re_columns := cols'\<rparr>)
      else if \<not> bms_equal (re_columns entry) cols'
      then Inl (PgError ''cannot use different column lists for table in different publications'')
      else column_list_loop cat relation several pubs False (found \<or> f) relcols' entry) = Inr (found', entry')"
    using Cons.prems by (auto simp: bindR_eq_Inr_iff Let_def)
  then show ?case using Cons.IH by (fastforce split: if_splits)
qed simp

lemma entry_steps_unsent:
  "init_tuple_slot cat relation entry = Inr entry' \<Longrightarrow> unsent entry' = unsent entry"
  "pgoutput_row_filter_init cat pubs entry = Inr entry' \<Longrightarrow> unsent entry' = unsent entry"
  "check_and_init_gencol cat pubs entry = Inr entry' \<Longrightarrow> unsent entry' = unsent entry"
  "pgoutput_column_list_init cat pubs entry = Inr entry' \<Longrightarrow> unsent entry' = unsent entry"
proof -
  show "init_tuple_slot cat relation entry = Inr entry' \<Longrightarrow> unsent entry' = unsent entry"
    by (auto simp: init_tuple_slot_def bindR_eq_Inr_iff split: if_splits)
  show "pgoutput_row_filter_init cat pubs entry = Inr entry' \<Longrightarrow> unsent entry' = unsent entry"
    by (cases "row_filter_loop cat (re_publish_as_relid entry) pubs (\<lambda>_. False) (\<lambda>_. [])"; cases "fst (row_filter_loop cat (re_publish_as_relid entry) pubs (\<lambda>_. False) (\<lambda>_. []))")
      (auto simp: pgoutput_row_filter_init_def bindR_eq_Inr_iff Let_def)
  show "check_and_init_gencol cat pubs entry = Inr entry' \<Longrightarrow> unsent entry' = unsent entry"
    by (auto simp: check_and_init_gencol_def bindR_eq_Inr_iff dest!: gencol_loop_unsent split: if_splits)
  show "pgoutput_column_list_init cat pubs entry = Inr entry' \<Longrightarrow> unsent entry' = unsent entry"
    by (auto simp: pgoutput_column_list_init_def bindR_eq_Inr_iff dest!: column_list_loop_unsent) (simp split: if_splits)
qed

lemma rebuilt_flags:
  assumes "rebuild_entry cat pubs relation entry = Inr entry'"
  shows "unsent entry' \<and> re_replicate_valid entry'"
proof -
  have "unsent (blank_entry entry)" by (simp add: unsent_def blank_entry_def)
  with assms show ?thesis
    by (auto simp: rebuild_entry_def fill_entry_def bindR_eq_Inr_iff dest!: entry_steps_unsent split: if_splits)
qed

text \<open>An entry in use differs from a newly built one in what it has sent.\<close>

definition same_entry :: "RelationSyncEntry \<Rightarrow> RelationSyncEntry \<Rightarrow> bool" where
  "same_entry e built \<longleftrightarrow> e = built\<lparr>re_schema_sent := re_schema_sent e, re_streamed_txns := re_streamed_txns e\<rparr>"

lemma same_entryD:
  assumes "same_entry e built"
  shows "re_columns e = re_columns built" "re_include_gencols_type e = re_include_gencols_type built" "re_pubactions e = re_pubactions built"
    "re_exprstate e = re_exprstate built" "re_publish_as_relid e = re_publish_as_relid built" "re_attrmap e = re_attrmap built"
    "re_replicate_valid e = re_replicate_valid built"
  using assms by (simp_all add: same_entry_def) (metis RelationSyncEntry.select_convs RelationSyncEntry.update_convs RelationSyncEntry.surjective)+

definition catalog_ok :: "'d pub_catalog \<Rightarrow> bool" where
  "catalog_ok cat \<longleftrightarrow> (\<forall>relid rel. RelationIdGetRelation cat relid = Some rel \<longrightarrow> rd_id rel = relid)"

text \<open>
  Every valid entry is what would be built now, and a relation whose description counts as sent is
  known to the subscriber, together with the relation it is published as. \<open>desc\<close> gives the one
  description of each relation.
\<close>

definition entry_coherent ::
    "'d pub_catalog \<Rightarrow> Publication list \<Rightarrow> (Oid \<Rightarrow> LogicalRepRelation) \<Rightarrow> descriptions \<Rightarrow> Oid \<Rightarrow> RelationSyncEntry \<Rightarrow> bool" where
  "entry_coherent cat pubs desc known relid e \<longleftrightarrow>
     (\<exists>relation built. RelationIdGetRelation cat relid = Some relation \<and> rebuild_entry cat pubs relation new_entry = Inr built \<and> same_entry e built) \<and>
     (re_schema_sent e \<longrightarrow> known relid = Some (description (desc relid)) \<and>
        known (re_publish_as_relid e) = Some (description (desc (re_publish_as_relid e))))"

definition coherent ::
    "'d output_env \<Rightarrow> cstring list \<Rightarrow> bool \<Rightarrow> (Oid \<Rightarrow> LogicalRepRelation) \<Rightarrow> descriptions \<Rightarrow> decoding \<Rightarrow> bool" where
  "coherent env names bin desc known st \<longleftrightarrow>
     si_wf (out_buf st) \<and> \<not> po_in_streaming (plugin st) \<and> po_publication_names (plugin st) = names \<and> po_binary (plugin st) = bin \<and>
     (publications_valid st \<longrightarrow> po_publications (plugin st) = LoadPublications (pubcat env) names) \<and>
     (\<exists>cache. RelationSyncCache st = Some cache \<and>
        (\<forall>relid e. cache relid = Some e \<longrightarrow> re_replicate_valid e \<longrightarrow>
           entry_coherent (pubcat env) (LoadPublications (pubcat env) names) desc known relid e)) \<and>
     (\<forall>relid r. known relid = Some r \<longrightarrow> r = description (desc relid))"

lemma coherent_settled:
  assumes "coherent env names bin desc known st" and "settled st' = settled st" and "si_wf (out_buf st')"
  shows "coherent env names bin desc known st'"
  using assms by (simp add: coherent_def settled_def)

lemma coherent_learns:
  assumes "coherent env names bin desc known st"
  shows "coherent env names bin desc (known(relid \<mapsto> description (desc relid))) st"
proof -
  have "entry_coherent cat pubs desc (known(relid \<mapsto> description (desc relid))) r e" if "entry_coherent cat pubs desc known r e" for cat pubs r e
    using that by (simp add: entry_coherent_def)
  moreover have "\<forall>r x. (known(relid \<mapsto> description (desc relid))) r = Some x \<longrightarrow> x = description (desc r)"
    using assms by (simp add: coherent_def)
  ultimately show ?thesis using assms unfolding coherent_def by blast
qed

lemma coherent_put:
  assumes coh: "coherent env names bin desc known st"
    and e: "entry_coherent (pubcat env) (LoadPublications (pubcat env) names) desc known relid e"
  shows "coherent env names bin desc known (put_entry relid e st)"
proof -
  obtain cache where "RelationSyncCache st = Some cache"
    "\<forall>relid e. cache relid = Some e \<longrightarrow> re_replicate_valid e \<longrightarrow>
       entry_coherent (pubcat env) (LoadPublications (pubcat env) names) desc known relid e" using coh by (auto simp: coherent_def)
  then show ?thesis using coh e by (simp add: coherent_def put_entry_def)
qed

text \<open>Looking a relation up.\<close>

lemma entry_found:
  assumes coh: "coherent env names bin desc known st" and rel: "RelationIdGetRelation (pubcat env) (rd_id relation) = Some relation"
    and built: "rebuild_entry (pubcat env) (LoadPublications (pubcat env) names) relation new_entry = Inr built"
  obtains e st' cache where "get_rel_sync_entry (pubcat env) relation st = Inr (e, st')" and "same_entry e built"
    and "coherent env names bin desc known st'" and "RelationSyncCache st' = Some cache" and "cache (rd_id relation) = Some e"
    and "accept_writes st' = accept_writes st" and "write_location st' = write_location st" and "sent_messages st' = sent_messages st"
    and "sent_begin_txn st' = sent_begin_txn st"
proof -
  obtain cache where c: "RelationSyncCache st = Some cache"
    "\<forall>relid e. cache relid = Some e \<longrightarrow> re_replicate_valid e \<longrightarrow>
       entry_coherent (pubcat env) (LoadPublications (pubcat env) names) desc known relid e" using coh by (auto simp: coherent_def)
  let ?e = "case cache (rd_id relation) of Some entry \<Rightarrow> entry | None \<Rightarrow> new_entry"
  show thesis
  proof (cases "re_replicate_valid ?e")
    case True
    then have e: "cache (rd_id relation) = Some ?e" by (auto simp: new_entry_def split: option.splits)
    then have "entry_coherent (pubcat env) (LoadPublications (pubcat env) names) desc known (rd_id relation) ?e" using c(2) True by blast
    then have "same_entry ?e built" using rel built by (auto simp: entry_coherent_def)
    then show thesis using True c(1) e coh by (intro that [of ?e st cache]) (simp_all add: get_rel_sync_entry_def Let_def)
  next
    case False
    let ?st = "if publications_valid st then st
      else st\<lparr>plugin := (plugin st)\<lparr>po_publications := LoadPublications (pubcat env) (po_publication_names (plugin st))\<rparr>, publications_valid := True\<rparr>"
    have pubs: "po_publications (plugin ?st) = LoadPublications (pubcat env) names" using coh by (simp add: coherent_def)
    have b: "rebuild_entry (pubcat env) (LoadPublications (pubcat env) names) relation ?e = Inr built" by (simp only: rebuild_fresh [OF False] built)
    let ?st' = "?st\<lparr>RelationSyncCache := Some (cache(rd_id relation \<mapsto> built))\<rparr>"
    have get: "get_rel_sync_entry (pubcat env) relation st = Inr (built, ?st')"
      using c(1) False pubs b by (simp add: get_rel_sync_entry_def Let_def)
    have flags: "\<not> re_schema_sent built" using rebuilt_flags [OF built] by (simp add: unsent_def)
    then have "entry_coherent (pubcat env) (LoadPublications (pubcat env) names) desc known (rd_id relation) built"
      using rel built by (simp add: entry_coherent_def same_entry_def)
    then have "coherent env names bin desc known ?st'" using coh c pubs by (simp add: coherent_def)
    then show thesis by (intro that [OF get, of "cache(rd_id relation \<mapsto> built)"]) (simp_all add: same_entry_def)
  qed
qed

text \<open>Descriptions go ahead of the first change: afterwards the subscriber knows both relations.\<close>

lemma schema_sent_first:
  assumes coh: "coherent env names bin desc known st" and acc: "accept_writes st" and lim: "0 < lim"
    and cache: "RelationSyncCache st = Some cache" "cache (rd_id relation) = Some e" "same_entry e built"
    and rel: "RelationIdGetRelation (pubcat env) (rd_id relation) = Some relation"
      "rebuild_entry (pubcat env) (LoadPublications (pubcat env) names) relation new_entry = Inr built"
    and target: "(if re_publish_as_relid e \<noteq> rd_id relation then open_relation (pubcat env) (re_publish_as_relid e) else Inr relation) = Inr target"
      "rd_id target = re_publish_as_relid e"
    and d: "describable env c2s built relation (desc (rd_id relation))" "describable env c2s built target (desc (rd_id target))"
    and res: "resolvable cat (desc (rd_id relation))" "resolvable cat (desc (rd_id target))"
  shows "\<exists>st' evs known'. maybe_send_schema env change relation e st = Inr st' \<and> accept_writes st' \<and> write_location st' = write_location st \<and>
    sent_begin_txn st' = sent_begin_txn st \<and> out.emits c2s st st' evs \<and> piece db cat lim known tx evs known' tx [] \<and>
    coherent env names bin desc known' st' \<and> known' (rd_id target) = Some (description (desc (rd_id target)))"
proof (cases "re_schema_sent e")
  case True
  have "re_replicate_valid e" using rebuilt_flags [OF rel(2)] same_entryD(7) [OF cache(3)] by simp
  then have "entry_coherent (pubcat env) (LoadPublications (pubcat env) names) desc known (rd_id relation) e"
    using coh cache(1,2) by (auto simp: coherent_def)
  then have "known (rd_id target) = Some (description (desc (rd_id target)))" using True target(2) by (simp add: entry_coherent_def)
  moreover have "maybe_send_schema env change relation e st = Inr st" using True coh by (simp add: maybe_send_schema_def coherent_def Let_def)
  ultimately show ?thesis using coh acc out.emits_nothing piece_Nil by fastforce
next
  case False
  have ns: "\<not> po_in_streaming (plugin st)" and wf: "si_wf (out_buf st)" using coh by (simp_all add: coherent_def)
  have d': "describable env c2s e relation (desc (rd_id relation))" "describable env c2s e target (desc (rd_id target))"
    using d same_entryD(1,2) [OF cache(3)] by (simp_all add: describable_def)
  have st: "sendable st" using acc wf by (simp add: sendable_def)
  obtain st1 evs1 known1 where st1: "(if re_publish_as_relid e \<noteq> rd_id relation
      then bindR (open_relation (pubcat env) (re_publish_as_relid e)) (\<lambda>ancestor. send_relation_and_attrs env ancestor InvalidTransactionId e st)
      else Inr st) = Inr st1" "sendable st1" "settled st1 = settled st" "write_location st1 = write_location st" "out.emits c2s st st1 evs1"
    "piece db cat lim known tx evs1 known1 tx []" "coherent env names bin desc known1 st1"
    "rd_id target \<noteq> rd_id relation \<longrightarrow> known1 (rd_id target) = Some (description (desc (rd_id target)))"
  proof (cases "re_publish_as_relid e \<noteq> rd_id relation")
    case True
    from send_relation_emits [OF lim st d'(2) res(2)] obtain st1 evs where s: "send_relation_and_attrs env target InvalidTransactionId e st = Inr st1"
      "sendable st1" "settled st1 = settled st" "write_location st1 = write_location st" "out.emits c2s st st1 evs"
      "piece db cat lim known tx evs (known(rd_id target \<mapsto> description (desc (rd_id target)))) tx []" by blast
    have "coherent env names bin desc (known(rd_id target \<mapsto> description (desc (rd_id target)))) st1"
      using coherent_settled [OF coherent_learns [OF coh] s(3)] s(2) by (simp add: sendable_def)
    then show thesis using True target s by (intro that [of st1 evs "known(rd_id target \<mapsto> description (desc (rd_id target)))"]) simp_all
  next
    case False
    then show thesis using target st coh out.emits_nothing piece_Nil by (intro that [of st "[]" known]) simp_all
  qed
  from send_relation_emits [OF lim st1(2) d'(1) res(1)] obtain st2 evs2 where st2: "send_relation_and_attrs env relation InvalidTransactionId e st1 = Inr st2"
    "sendable st2" "settled st2 = settled st1" "write_location st2 = write_location st1" "out.emits c2s st1 st2 evs2"
    "piece db cat lim known1 tx evs2 (known1(rd_id relation \<mapsto> description (desc (rd_id relation)))) tx []" by blast
  let ?known = "known1(rd_id relation \<mapsto> description (desc (rd_id relation)))"
  let ?st = "put_entry (rd_id relation) (e\<lparr>re_schema_sent := True\<rparr>) st2"
  have run: "maybe_send_schema env change relation e st = Inr ?st" using False ns st1(1) st2(1)
    by (cases "re_publish_as_relid e = rd_id relation") (simp_all add: maybe_send_schema_def Let_def)
  have known: "?known (rd_id relation) = Some (description (desc (rd_id relation)))" "?known (rd_id target) = Some (description (desc (rd_id target)))"
    using st1(8) by auto
  have coh2: "coherent env names bin desc ?known st2"
    using coherent_settled [OF coherent_learns [OF st1(7)] st2(3)] st2(2) by (simp add: sendable_def)
  have "same_entry (e\<lparr>re_schema_sent := True\<rparr>) built" using arg_cong [OF cache(3) [unfolded same_entry_def], of "\<lambda>e. e\<lparr>re_schema_sent := True\<rparr>"] by (simp add: same_entry_def)
  then have "entry_coherent (pubcat env) (LoadPublications (pubcat env) names) desc ?known (rd_id relation) (e\<lparr>re_schema_sent := True\<rparr>)"
    using rel known target(2) unfolding entry_coherent_def by auto
  then have coh3: "coherent env names bin desc ?known ?st" by (rule coherent_put [OF coh2])
  have "accept_writes ?st" "write_location ?st = write_location st" "sent_begin_txn ?st = sent_begin_txn st" "sent_messages ?st = sent_messages st2"
    using st1(3,4) st2(2,3,4) by (simp_all add: put_entry_def sendable_def settled_def)
  moreover from this out.emits_append [OF st1(5) st2(5)] have "out.emits c2s st ?st (evs1 @ evs2)" by (simp add: out.emits_def)
  moreover have "piece db cat lim known tx (evs1 @ evs2) ?known tx []" using piece_append [OF st1(6) st2(6)] by simp
  ultimately show ?thesis using run coh3 known(2) by blast
qed

end
