(* ===== verification/PublisherFlow.thy ===== *)
theory PublisherFlow
  imports OutputStream
begin

text \<open>
  A sequence of committed transactions through the callbacks of the output plugin, and on to
  Kafka: what one change, one transaction and a history of transactions put on the connection,
  composed with the main loop of the subscriber.
\<close>

section \<open>One change\<close>

text \<open>What \<^verbatim>\<open>pgoutput_change\<close> makes of a change: the relation it is sent for, its rows and its action.\<close>

definition outcome ::
    "'d output_env \<Rightarrow> RelationSyncEntry \<Rightarrow> Relation \<Rightarrow> 'd ReorderBufferChange \<Rightarrow>
     (Relation \<times> 'd TupleTableSlot option \<times> 'd TupleTableSlot option \<times> ReorderBufferChangeType) option res" where
  "outcome env built relation change =
     (if \<not> action_published built change then Inr None
      else bindR
        (if re_publish_as_relid built \<noteq> rd_id relation then open_relation (pubcat env) (re_publish_as_relid built) else Inr relation) (\<lambda>target.
        bindR (convert_tuple env built (ch_oldtuple change)) (\<lambda>old.
        bindR (convert_tuple env built (ch_newtuple change)) (\<lambda>new.
        Inr (map_option (\<lambda>(new, action). (target, old, new, action))
          (pgoutput_row_filter (pubcat env) target old new built (ch_action change)))))))"

text \<open>
  A change that the subscriber can publish: \<open>published\<close> is the relation and the row it is sent as,
  if it is sent at all.
\<close>

definition change_ok ::
    "'d output_env \<Rightarrow> cstring list \<Rightarrow> bool \<Rightarrow> (Oid \<Rightarrow> LogicalRepRelation) \<Rightarrow> (cstring \<Rightarrow> cstring) \<Rightarrow> cstring \<Rightarrow> local_catalog \<Rightarrow>
     Relation \<Rightarrow> 'd ReorderBufferChange \<Rightarrow> (Oid \<times> change_row) option \<Rightarrow> bool" where
  "change_ok env names bin desc c2s db cat relation change published \<longleftrightarrow>
     (if \<not> is_publishable_relation relation then published = None
      else \<exists>built. RelationIdGetRelation (pubcat env) (rd_id relation) = Some relation \<and>
        rebuild_entry (pubcat env) (LoadPublications (pubcat env) names) relation new_entry = Inr built \<and>
        (outcome env built relation change = Inr None \<and> published = None \<or>
         (\<exists>target old new action row. outcome env built relation change = Inr (Some (target, old, new, action)) \<and>
            change_read env bin built target old new action row \<and>
            describable env c2s built relation (desc (rd_id relation)) \<and> describable env c2s built target (desc (rd_id target)) \<and>
            resolvable cat (desc (rd_id relation)) \<and> resolvable cat (desc (rd_id target)) \<and>
            publishable db (description (desc (rd_id target))) row \<and> published = Some (rd_id target, row))))"

text \<open>The commit position that the subscriber has been told of.\<close>

definition announced :: "ReorderBufferTXN \<Rightarrow> bool \<Rightarrow> XLogRecPtr option" where
  "announced txn sent_begin = (if sent_begin then Some (txn_final_lsn txn) else None)"

fun published_texts :: "cstring \<Rightarrow> (Oid \<Rightarrow> LogicalRepRelation) \<Rightarrow> (Oid \<times> change_row) option \<Rightarrow> byte list list" where
  "published_texts db desc None = []"
| "published_texts db desc (Some (relid, row)) = [change_text db (description (desc relid)) row]"

lemma begin_is_message:
  assumes "txn_origin_id txn = InvalidRepOriginId"
  shows "pgoutput_send_begin env txn st =
    bindR (send_message env True (logicalrep_write_begin txn) st) (\<lambda>st. Inr (st\<lparr>sent_begin_txn := (sent_begin_txn st)(txn_xid txn \<mapsto> True)\<rparr>))"
  using assms
  by (auto simp: pgoutput_send_begin_def send_message_def send_repl_origin_def write_out_def bindR_def OutputPluginPrepareWrite_def
      WalSndPrepareWrite_def OutputPluginWrite_def WalSndWriteData_def Let_def simp del: seq_writes.simps split: sum.splits)

text \<open>BEGIN is sent unless it has been.\<close>

lemma begin_sent_first:
  assumes coh: "coherent env names bin desc known st" and acc: "accept_writes st" and txn: "txn_origin_id txn = InvalidRepOriginId"
    "txn_final_lsn txn \<noteq> InvalidXLogRecPtr" "sent_begin_txn st (txn_xid txn) = Some begun" and lim: "write_location st < lim"
  shows "\<exists>st' evs. ensure_begin env txn st = Inr st' \<and> accept_writes st' \<and> write_location st' = write_location st \<and>
    RelationSyncCache st' = RelationSyncCache st \<and> sent_begin_txn st' (txn_xid txn) = Some True \<and> out.emits c2s st st' evs \<and>
    piece db cat lim known (announced txn begun) evs known (announced txn True) [] \<and> coherent env names bin desc known st'"
proof (cases begun)
  case True
  then show ?thesis using assms out.emits_nothing piece_Nil by (fastforce simp: ensure_begin_def)
next
  case False
  let ?bd = "\<lparr>bd_final_lsn = txn_final_lsn txn, bd_committime = txn_xact_time txn, bd_xid = txn_xid txn\<rparr>"
  have "sendable st" using acc coh by (simp add: sendable_def coherent_def)
  from send_conveyed [OF this conveys_begin [OF txn(2)], of env True] obtain st1 now where st1:
    "send_message env True (logicalrep_write_begin txn) st = Inr st1" "sendable st1" "settled st1 = settled st"
    "write_location st1 = write_location st" "out.emits c2s st st1 [Data (write_location st) (write_location st) now (Begin ?bd)]" by auto
  let ?st = "st1\<lparr>sent_begin_txn := (sent_begin_txn st1)(txn_xid txn \<mapsto> True)\<rparr>"
  have "ensure_begin env txn st = Inr ?st" using False txn(3) st1(1) by (simp add: ensure_begin_def begin_is_message [OF txn(1)])
  moreover have "coherent env names bin desc known ?st"
    using coherent_settled [OF coh st1(3)] st1(2) by (simp add: sendable_def coherent_def)
  moreover have "piece db cat lim known (announced txn begun) [Data (write_location st) (write_location st) now (Begin ?bd)] known (announced txn True) []"
    using piece_one [of db cat known None "Begin ?bd" "write_location st" lim "write_location st" now] False lim by (simp add: announced_def)
  moreover have "out.emits c2s st ?st [Data (write_location st) (write_location st) now (Begin ?bd)]" using st1(5) by (simp add: out.emits_def)
  ultimately show ?thesis using st1(2,3,4) by (intro exI [of _ ?st] exI) (simp add: sendable_def settled_def)
qed

lemma outcome_same: "same_entry e built \<Longrightarrow> outcome env e relation change = outcome env built relation change"
  by (simp add: outcome_def action_published_def convert_tuple_def pgoutput_row_filter_def same_entryD cong: ReorderBufferChangeType.case_cong)

lemma change_read_same: "same_entry e built \<Longrightarrow> change_read env bin e rel old new action row = change_read env bin built rel old new action row"
  by (cases action) (simp_all add: row_read_def [abs_def] same_entryD)

text \<open>The change callback in terms of the outcome.\<close>

lemma change_by_outcome:
  assumes "is_publishable_relation relation" and "\<not> po_in_streaming (plugin st)" and "get_rel_sync_entry (pubcat env) relation st = Inr (e, st1)"
    and "outcome env e relation change = Inr res"
  shows "pgoutput_change env txn relation change st =
    (case res of None \<Rightarrow> Inr st1
     | Some (target, old, new, action) \<Rightarrow>
         bindR (ensure_begin env txn st1) (\<lambda>st. bindR (maybe_send_schema env change relation e st) (\<lambda>st.
           send_message env True (write_change env (po_binary (plugin st)) InvalidTransactionId target e old new action) st)))"
proof (cases "action_published e change")
  case False
  then show ?thesis using assms by (auto simp: pgoutput_change_def outcome_def)
next
  case True
  then obtain target old new where o: "(if re_publish_as_relid e \<noteq> rd_id relation then open_relation (pubcat env) (re_publish_as_relid e) else Inr relation) = Inr target"
    "convert_tuple env e (ch_oldtuple change) = Inr old" "convert_tuple env e (ch_newtuple change) = Inr new"
    "res = map_option (\<lambda>(new, action). (target, old, new, action)) (pgoutput_row_filter (pubcat env) target old new e (ch_action change))"
    using assms(4) unfolding outcome_def by (auto simp: bindR_eq_Inr_iff)
  show ?thesis using True assms(1-3) o(2-4)
    by (cases "pgoutput_row_filter (pubcat env) target old new e (ch_action change)") (auto simp: pgoutput_change_def o(1))
qed

lemma outcome_target:
  assumes "outcome env e relation change = Inr (Some (target, old, new, action))" and "catalog_ok (pubcat env)"
  shows "(if re_publish_as_relid e \<noteq> rd_id relation then open_relation (pubcat env) (re_publish_as_relid e) else Inr relation) = Inr target"
    and "rd_id target = re_publish_as_relid e"
proof -
  show o: "(if re_publish_as_relid e \<noteq> rd_id relation then open_relation (pubcat env) (re_publish_as_relid e) else Inr relation) = Inr target"
    using assms(1) unfolding outcome_def by (auto simp: bindR_eq_Inr_iff split: if_splits)
  then show "rd_id target = re_publish_as_relid e"
    using assms(2) by (auto simp: catalog_ok_def open_relation_def split: if_splits option.splits)
qed

lemma coherent_output_state [simp]:
  "coherent env names bin desc known (set_output_state xid lsn fin st) = coherent env names bin desc known st"
  by (simp add: coherent_def set_output_state_def)

lemma output_state_simps [simp]:
  "accept_writes (set_output_state xid lsn fin st)" "write_location (set_output_state xid lsn fin st) = lsn"
  "sent_messages (set_output_state xid lsn fin st) = sent_messages st" "sent_begin_txn (set_output_state xid lsn fin st) = sent_begin_txn st"
  "plugin (set_output_state xid lsn fin st) = plugin st" "RelationSyncCache (set_output_state xid lsn fin st) = RelationSyncCache st"
  by (simp_all add: set_output_state_def)

text \<open>A row is sent after its description.\<close>

lemma row_emits:
  assumes coh: "coherent env names bin desc known st" and acc: "accept_writes st"
    and row: "change_read env bin e target old new action row" "known (rd_id target) = Some (description (desc (rd_id target)))"
      "publishable db (description (desc (rd_id target))) row" and lim: "write_location st < lim"
  shows "\<exists>st' evs. send_message env True (write_change env (po_binary (plugin st)) InvalidTransactionId target e old new action) st = Inr st' \<and>
    sent_begin_txn st' = sent_begin_txn st \<and> out.emits c2s st st' evs \<and> coherent env names bin desc known st' \<and>
    piece db cat lim known (announced txn True) evs known (announced txn True) (published_texts db desc (Some (rd_id target, row)))"
proof -
  let ?el = "Change (rd_id target) (description (desc (rd_id target))) row"
  have bin: "po_binary (plugin st) = bin" and st: "sendable st" using coh acc by (simp_all add: sendable_def coherent_def)
  have "conveys c2s (write_change env bin InvalidTransactionId target e old new action) ?el" by (rule conveys_change [OF row(1)])
  from send_conveyed [OF st this, of env True] obtain st1 now where st1:
    "send_message env True (write_change env bin InvalidTransactionId target e old new action) st = Inr st1" "sendable st1" "settled st1 = settled st"
    "write_location st1 = write_location st" "out.emits c2s st st1 [Data (write_location st) (write_location st) now ?el]" by auto
  have "coherent env names bin desc known st1" using coherent_settled [OF coh st1(3)] st1(2) by (simp add: sendable_def)
  moreover have "piece db cat lim known (announced txn True) [Data (write_location st) (write_location st) now ?el] known (announced txn True)
      (published_texts db desc (Some (rd_id target, row)))"
    using piece_one [of db cat known "announced txn True" ?el "write_location st" lim "write_location st" now] row(2,3) lim
    by (simp add: announced_def)
  ultimately show ?thesis using st1 bin by (auto simp: settled_def)
qed

text \<open>One call of the change callback.\<close>

lemma change_emits:
  assumes coh: "coherent env names bin desc known st" and cat: "catalog_ok (pubcat env)" and txn: "txn_origin_id txn = InvalidRepOriginId"
    "txn_final_lsn txn \<noteq> InvalidXLogRecPtr" "sent_begin_txn st (txn_xid txn) = Some begun" and lim: "ch_lsn change < lim"
    and ok: "change_ok env names bin desc c2s db cat relation change published"
  shows "\<exists>st' evs known'. change_cb_wrapper env txn relation change st = Inr st' \<and>
    sent_begin_txn st' (txn_xid txn) = Some (begun \<or> published \<noteq> None) \<and> out.emits c2s st st' evs \<and>
    piece db cat lim known (announced txn begun) evs known' (announced txn (begun \<or> published \<noteq> None)) (published_texts db desc published) \<and>
    coherent env names bin desc known' st'"
proof -
  let ?st = "set_output_state (txn_xid txn) (ch_lsn change) False st"
  have coh0: "coherent env names bin desc known ?st" using coh by simp
  then have ns: "\<not> po_in_streaming (plugin ?st)" by (simp add: coherent_def)
  have unsent_change: ?thesis if "pgoutput_change env txn relation change ?st = Inr st'" "published = None" "coherent env names bin desc known st'"
    "sent_messages st' = sent_messages ?st" "sent_begin_txn st' = sent_begin_txn ?st" for st'
    using that txn(3) out.emits_nothing piece_Nil [of db cat lim known "announced txn begun"] by (fastforce simp: change_cb_wrapper_def)
  show ?thesis
  proof (cases "is_publishable_relation relation")
    case False
    then show ?thesis using coh0 ok by (intro unsent_change [of ?st]) (simp_all add: pgoutput_change_def change_ok_def)
  next
    case True
    then obtain built where b: "RelationIdGetRelation (pubcat env) (rd_id relation) = Some relation"
      "rebuild_entry (pubcat env) (LoadPublications (pubcat env) names) relation new_entry = Inr built"
      "outcome env built relation change = Inr None \<and> published = None \<or>
       (\<exists>target old new action row. outcome env built relation change = Inr (Some (target, old, new, action)) \<and>
          change_read env bin built target old new action row \<and>
          describable env c2s built relation (desc (rd_id relation)) \<and> describable env c2s built target (desc (rd_id target)) \<and>
          resolvable cat (desc (rd_id relation)) \<and> resolvable cat (desc (rd_id target)) \<and>
          publishable db (description (desc (rd_id target))) row \<and> published = Some (rd_id target, row))" using ok by (auto simp: change_ok_def)
    obtain e st1 cache where e: "get_rel_sync_entry (pubcat env) relation ?st = Inr (e, st1)" "same_entry e built"
      "coherent env names bin desc known st1" "RelationSyncCache st1 = Some cache" "cache (rd_id relation) = Some e"
      "accept_writes st1 = accept_writes ?st" "write_location st1 = write_location ?st" "sent_messages st1 = sent_messages ?st"
      "sent_begin_txn st1 = sent_begin_txn ?st" by (rule entry_found [OF coh0 b(1,2)])
    note run = change_by_outcome [OF True ns e(1), unfolded outcome_same [OF e(2)], of change _ txn]
    from b(3) show ?thesis
    proof (elim disjE exE conjE)
      assume "outcome env built relation change = Inr None" "published = None"
      then show ?thesis using run e by (intro unsent_change [of st1]) simp_all
    next
      fix target old new action row
      assume o: "outcome env built relation change = Inr (Some (target, old, new, action))" and read: "change_read env bin built target old new action row"
        and d: "describable env c2s built relation (desc (rd_id relation))" "describable env c2s built target (desc (rd_id target))"
        and res: "resolvable cat (desc (rd_id relation))" "resolvable cat (desc (rd_id target))"
        and p: "publishable db (description (desc (rd_id target))) row" "published = Some (rd_id target, row)"
      note t = outcome_target [OF o [folded outcome_same [OF e(2)]] cat]
      have w: "accept_writes st1" "write_location st1 < lim" "sent_begin_txn st1 (txn_xid txn) = Some begun" using e lim txn(3) by simp_all
      obtain st2 evs2 where st2: "ensure_begin env txn st1 = Inr st2" "accept_writes st2" "write_location st2 = write_location st1"
        "RelationSyncCache st2 = RelationSyncCache st1" "sent_begin_txn st2 (txn_xid txn) = Some True" "out.emits c2s st1 st2 evs2"
        "piece db cat lim known (announced txn begun) evs2 known (announced txn True) []" "coherent env names bin desc known st2"
        using begin_sent_first [OF e(3) w(1) txn(1,2) w(3,2)] by blast
      have lim0: "0 < lim" using order_le_less_trans [OF word_zero_le lim] .
      have cache2: "RelationSyncCache st2 = Some cache" using st2(4) e(4) by simp
      from schema_sent_first [OF st2(8,2) lim0 cache2 e(5,2) b(1,2) t d res] obtain st3 evs3 known3 where
        st3: "maybe_send_schema env change relation e st2 = Inr st3" "accept_writes st3" "write_location st3 = write_location st2"
        "sent_begin_txn st3 = sent_begin_txn st2" "out.emits c2s st2 st3 evs3" "piece db cat lim known (announced txn True) evs3 known3 (announced txn True) []"
        "coherent env names bin desc known3 st3" "known3 (rd_id target) = Some (description (desc (rd_id target)))"
        by metis
      have "write_location st3 < lim" using st3(3) st2(3) w(2) by simp
      from row_emits [OF st3(7,2) read [folded change_read_same [OF e(2)]] st3(8) p(1) this] obtain st4 evs4 where
        st4: "send_message env True (write_change env (po_binary (plugin st3)) InvalidTransactionId target e old new action) st3 = Inr st4"
        "sent_begin_txn st4 = sent_begin_txn st3" "out.emits c2s st3 st4 evs4" "coherent env names bin desc known3 st4"
        "piece db cat lim known3 (announced txn True) evs4 known3 (announced txn True) (published_texts db desc (Some (rd_id target, row)))" by blast
      have "change_cb_wrapper env txn relation change st = Inr st4"
        using run [OF o] st2(1) st3(1) st4(1) by (simp add: change_cb_wrapper_def)
      moreover have "out.emits c2s st st4 (evs2 @ evs3 @ evs4)"
        using out.emits_append [OF st2(6) out.emits_append [OF st3(5) st4(3)]] e(8) by (simp add: out.emits_def)
      moreover have "piece db cat lim known (announced txn begun) (evs2 @ evs3 @ evs4) known3 (announced txn True) (published_texts db desc published)"
        using piece_append [OF st2(7) piece_append [OF st3(6) st4(5)]] p(2) by simp
      ultimately show ?thesis using st2(5) st3(4) st4(2,4) p(2) by auto
    qed
  qed
qed

section \<open>Transactions\<close>

text \<open>
  What happens while the changes of a transaction are replayed: rows, logical messages, and
  invalidations, which may come at any time.
\<close>

datatype 'd decode_step =
  Row_change Relation "'d ReorderBufferChange"
| Logical_message XLogRecPtr bool cstring "byte list"
| Relation_invalidated Oid
| Publications_invalidated

fun run_step :: "'d output_env \<Rightarrow> ReorderBufferTXN \<Rightarrow> 'd decode_step \<Rightarrow> decoding \<Rightarrow> decoding res" where
  "run_step env txn (Row_change relation change) st = change_cb_wrapper env txn relation change st"
| "run_step env txn (Logical_message lsn transactional pfx message) st = message_cb_wrapper env (Some txn) lsn transactional pfx message st"
| "run_step env txn (Relation_invalidated relid) st = Inr (rel_sync_cache_relation_cb relid st)"
| "run_step env txn Publications_invalidated st = Inr (rel_sync_cache_publication_cb (publication_invalidation_cb st))"

fun run_steps :: "'d output_env \<Rightarrow> ReorderBufferTXN \<Rightarrow> 'd decode_step list \<Rightarrow> decoding \<Rightarrow> decoding res" where
  "run_steps env txn [] st = Inr st"
| "run_steps env txn (step # steps) st = bindR (run_step env txn step st) (run_steps env txn steps)"

text \<open>A committed transaction, and several of them in the order of their commits.\<close>

definition run_txn :: "'d output_env \<Rightarrow> ReorderBufferTXN \<times> 'd decode_step list \<Rightarrow> decoding \<Rightarrow> decoding res" where
  "run_txn env = (\<lambda>(txn, steps) st.
     bindR (begin_cb_wrapper txn st) (\<lambda>st. bindR (run_steps env txn steps st) (commit_cb_wrapper env txn (txn_final_lsn txn))))"

fun run_txns :: "'d output_env \<Rightarrow> (ReorderBufferTXN \<times> 'd decode_step list) list \<Rightarrow> decoding \<Rightarrow> decoding res" where
  "run_txns env [] st = Inr st"
| "run_txns env (t # ts) st = bindR (run_txn env t st) (run_txns env ts)"

fun step_below :: "XLogRecPtr \<Rightarrow> 'd decode_step \<Rightarrow> bool" where
  "step_below lim (Row_change relation change) \<longleftrightarrow> ch_lsn change < lim"
| "step_below lim (Logical_message lsn transactional pfx message) \<longleftrightarrow> lsn < lim"
| "step_below lim step \<longleftrightarrow> True"

fun step_ok ::
    "'d output_env \<Rightarrow> cstring list \<Rightarrow> bool \<Rightarrow> (Oid \<Rightarrow> LogicalRepRelation) \<Rightarrow> (cstring \<Rightarrow> cstring) \<Rightarrow> cstring \<Rightarrow> local_catalog \<Rightarrow>
     'd decode_step \<Rightarrow> (Oid \<times> change_row) option \<Rightarrow> bool" where
  "step_ok env names bin desc c2s db cat (Row_change relation change) published \<longleftrightarrow> change_ok env names bin desc c2s db cat relation change published"
| "step_ok env names bin desc c2s db cat (Logical_message lsn transactional pfx message) published \<longleftrightarrow>
     published = None \<and> length (converted (to_client env) (c_str pfx)) + length message + 40 < MaxAllocSize"
| "step_ok env names bin desc c2s db cat step published \<longleftrightarrow> published = None"

text \<open>Invalidations make the plugin forget, which does no harm.\<close>

lemma coherent_invalidated:
  assumes "coherent env names bin desc known st"
  shows "coherent env names bin desc known (rel_sync_cache_relation_cb relid st)"
    and "coherent env names bin desc known (rel_sync_cache_publication_cb (publication_invalidation_cb st))"
proof -
  obtain cache where "RelationSyncCache st = Some cache"
    "\<forall>relid e. cache relid = Some e \<longrightarrow> re_replicate_valid e \<longrightarrow>
       entry_coherent (pubcat env) (LoadPublications (pubcat env) names) desc known relid e" using assms by (auto simp: coherent_def)
  then show "coherent env names bin desc known (rel_sync_cache_relation_cb relid st)"
    "coherent env names bin desc known (rel_sync_cache_publication_cb (publication_invalidation_cb st))"
    using assms by (auto simp: coherent_def rel_sync_cache_relation_cb_def rel_sync_cache_publication_cb_def publication_invalidation_cb_def
        invalid_entry_def split: option.splits)
qed

lemma invalidated_keeps:
  "sent_messages (rel_sync_cache_relation_cb relid st) = sent_messages st" "sent_begin_txn (rel_sync_cache_relation_cb relid st) = sent_begin_txn st"
  "sent_messages (rel_sync_cache_publication_cb (publication_invalidation_cb st)) = sent_messages st"
  "sent_begin_txn (rel_sync_cache_publication_cb (publication_invalidation_cb st)) = sent_begin_txn st"
  by (simp_all add: rel_sync_cache_relation_cb_def rel_sync_cache_publication_cb_def publication_invalidation_cb_def split: option.splits)

lemma conveys_message:
  assumes "length (converted s2c (c_str pfx)) + length message + 40 < MaxAllocSize"
  shows "conveys c2s (logicalrep_write_message s2c InvalidTransactionId lsn transactional pfx message) Note"
proof -
  have "appends (seq_writes [pq_sendint8 (if transactional then 1 else 0), pq_sendint64 lsn, pq_sendstring s2c pfx,
      pq_sendint32 (of_nat (length message)), pq_sendbytes message])
    (be_bytes 1 (unat ((if transactional then 1 else 0) :: 8 word)) @ be_bytes 8 (unat lsn) @ (converted s2c (c_str pfx) @ [NUL]) @
      be_bytes 4 (unat ((of_nat (length message)) :: 32 word)) @ message @ [])" (is "appends _ ?bs")
    by (rule write_intros)+
  from streamed_writer_appends [OF this, of "CHR ''M''" InvalidTransactionId]
  have "appends (logicalrep_write_message s2c InvalidTransactionId lsn transactional pfx message) (CHR ''M'' # ?bs)"
    by (simp add: logicalrep_write_message_def xid_bytes_def del: be_bytes.simps)
  moreover have "length (CHR ''M'' # ?bs) + 25 < MaxAllocSize" using assms by (simp del: be_bytes.simps)
  ultimately show ?thesis unfolding conveys_def using means.message_note by blast
qed

lemma message_emits:
  assumes coh: "coherent env names bin desc known st" and txn: "txn_origin_id txn = InvalidRepOriginId"
    "txn_final_lsn txn \<noteq> InvalidXLogRecPtr" "sent_begin_txn st (txn_xid txn) = Some begun" and lim: "lsn < lim"
    and fits: "length (converted (to_client env) (c_str pfx)) + length message + 40 < MaxAllocSize"
  shows "\<exists>st' evs begun'. message_cb_wrapper env (Some txn) lsn transactional pfx message st = Inr st' \<and>
    sent_begin_txn st' (txn_xid txn) = Some begun' \<and> out.emits c2s st st' evs \<and>
    piece db cat lim known (announced txn begun) evs known (announced txn begun') [] \<and> coherent env names bin desc known st'"
proof (cases "po_messages (plugin st)")
  case False
  then show ?thesis using assms out.emits_nothing [of "set_output_state (txn_xid txn) lsn False st" st c2s] piece_Nil
    by (fastforce simp: message_cb_wrapper_def pgoutput_message_def)
next
  case True
  let ?st = "set_output_state (txn_xid txn) lsn False st"
  have coh0: "coherent env names bin desc known ?st" using coh by simp
  have "\<exists>st1 evs1 begun'. (if transactional then ensure_begin env txn ?st else Inr ?st) = Inr st1 \<and> accept_writes st1 \<and>
      write_location st1 = write_location ?st \<and> sent_begin_txn st1 (txn_xid txn) = Some begun' \<and> out.emits c2s ?st st1 evs1 \<and>
      piece db cat lim known (announced txn begun) evs1 known (announced txn begun') [] \<and> coherent env names bin desc known st1"
  proof (cases transactional)
    case True
    then show ?thesis using begin_sent_first [OF coh0 _ txn(1,2), of begun lim c2s db cat] txn(3) lim by auto
  next
    case False
    then show ?thesis using coh0 txn(3) out.emits_nothing [of ?st ?st c2s] piece_Nil by fastforce
  qed
  then obtain st1 evs1 begun' where st1: "(if transactional then ensure_begin env txn ?st else Inr ?st) = Inr st1" "accept_writes st1"
    "write_location st1 = lsn" "sent_begin_txn st1 (txn_xid txn) = Some begun'" "out.emits c2s ?st st1 evs1"
    "piece db cat lim known (announced txn begun) evs1 known (announced txn begun') []" "coherent env names bin desc known st1" by auto
  have "sendable st1" using st1(2,7) by (simp add: sendable_def coherent_def)
  from send_conveyed [OF this conveys_message [OF fits, of c2s lsn transactional], of env True] obtain st2 now where
    st2: "send_message env True (logicalrep_write_message (to_client env) InvalidTransactionId lsn transactional pfx message) st1 = Inr st2"
    "sendable st2" "settled st2 = settled st1" "write_location st2 = write_location st1" "out.emits c2s st1 st2 [Data lsn lsn now Note]"
    using st1(3) by auto
  have "\<not> po_in_streaming (plugin st)" using coh by (simp add: coherent_def)
  then have "message_cb_wrapper env (Some txn) lsn transactional pfx message st = Inr st2"
    using True st1(1) st2(1) by (cases transactional) (auto simp: message_cb_wrapper_def pgoutput_message_def)
  moreover have "coherent env names bin desc known st2" using coherent_settled [OF st1(7) st2(3)] st2(2) by (simp add: sendable_def)
  moreover have "piece db cat lim known (announced txn begun) (evs1 @ [Data lsn lsn now Note]) known (announced txn begun') []"
    using piece_append [OF st1(6) piece_one [of db cat known _ Note lsn lim lsn now]] lim by simp
  moreover have "out.emits c2s st st2 (evs1 @ [Data lsn lsn now Note])"
    using out.emits_append [OF st1(5) st2(5)] by (simp add: out.emits_def)
  ultimately show ?thesis using st1(4) st2(3) by (auto simp: settled_def)
qed

lemma step_emits:
  assumes coh: "coherent env names bin desc known st" and cat: "catalog_ok (pubcat env)" and txn: "txn_origin_id txn = InvalidRepOriginId"
    "txn_final_lsn txn \<noteq> InvalidXLogRecPtr" "sent_begin_txn st (txn_xid txn) = Some begun" and lim: "step_below lim step"
    and ok: "step_ok env names bin desc c2s db cat step published"
  shows "\<exists>st' evs known' begun'. run_step env txn step st = Inr st' \<and> sent_begin_txn st' (txn_xid txn) = Some begun' \<and>
    out.emits c2s st st' evs \<and> piece db cat lim known (announced txn begun) evs known' (announced txn begun') (published_texts db desc published) \<and>
    coherent env names bin desc known' st'"
proof (cases step)
  case (Row_change relation change)
  then show ?thesis using change_emits [OF coh cat txn, of change lim c2s db _ relation published] lim ok by (simp only: run_step.simps step_below.simps step_ok.simps) blast
next
  case (Logical_message lsn transactional pfx message)
  then show ?thesis using message_emits [OF coh txn, of lsn lim pfx message transactional c2s db cat] lim ok
    by (auto simp only: run_step.simps step_below.simps step_ok.simps published_texts.simps)
next
  case (Relation_invalidated relid)
  then show ?thesis using coherent_invalidated(1) [OF coh] ok txn(3) out.emits_nothing [OF invalidated_keeps(1)] piece_Nil
    by (intro exI [of _ "rel_sync_cache_relation_cb relid st"] exI [of _ "[]"] exI [of _ known] exI [of _ begun]) (simp add: invalidated_keeps)
next
  case Publications_invalidated
  then show ?thesis using coherent_invalidated(2) [OF coh] ok txn(3) out.emits_nothing [OF invalidated_keeps(3)] piece_Nil
    by (intro exI [of _ "rel_sync_cache_publication_cb (publication_invalidation_cb st)"] exI [of _ "[]"] exI [of _ known] exI [of _ begun]) (simp add: invalidated_keeps)
qed

lemma steps_emit:
  assumes "coherent env names bin desc known st" and cat: "catalog_ok (pubcat env)" and txn: "txn_origin_id txn = InvalidRepOriginId"
    "txn_final_lsn txn \<noteq> InvalidXLogRecPtr" and "sent_begin_txn st (txn_xid txn) = Some begun" and "list_all (step_below lim) steps"
    and "list_all2 (step_ok env names bin desc c2s db cat) steps pubs"
  shows "\<exists>st' evs known' begun'. run_steps env txn steps st = Inr st' \<and> sent_begin_txn st' (txn_xid txn) = Some begun' \<and>
    out.emits c2s st st' evs \<and>
    piece db cat lim known (announced txn begun) evs known' (announced txn begun') (concat (map (published_texts db desc) pubs)) \<and>
    coherent env names bin desc known' st'"
  using assms(1,5-)
proof (induction steps arbitrary: pubs known st begun)
  case Nil
  then show ?case using out.emits_nothing [of st st c2s] piece_Nil by fastforce
next
  case (Cons step steps)
  obtain p pubs' where p: "pubs = p # pubs'" "step_ok env names bin desc c2s db cat step p" "list_all2 (step_ok env names bin desc c2s db cat) steps pubs'"
    using Cons.prems(4) by (auto simp: list_all2_Cons1)
  have lims: "step_below lim step" "list_all (step_below lim) steps" using Cons.prems(3) by simp_all
  obtain st1 evs1 known1 begun1 where st1: "run_step env txn step st = Inr st1" "sent_begin_txn st1 (txn_xid txn) = Some begun1"
    "out.emits c2s st st1 evs1" "piece db cat lim known (announced txn begun) evs1 known1 (announced txn begun1) (published_texts db desc p)"
    "coherent env names bin desc known1 st1" using step_emits [OF Cons.prems(1) cat txn Cons.prems(2) lims(1) p(2)] by blast
  obtain st2 evs2 known2 begun2 where st2: "run_steps env txn steps st1 = Inr st2" "sent_begin_txn st2 (txn_xid txn) = Some begun2"
    "out.emits c2s st1 st2 evs2" "coherent env names bin desc known2 st2"
    "piece db cat lim known1 (announced txn begun1) evs2 known2 (announced txn begun2) (concat (map (published_texts db desc) pubs'))"
    using Cons.IH [OF st1(5,2) lims(2) p(3)] by blast
  show ?case using st1(1) st2(1,2,4) out.emits_append [OF st1(3) st2(3)] piece_append [OF st1(4) st2(5)] p(1) by auto
qed

text \<open>Events of whole transactions, from a subscriber that has seen positions up to \<open>h\<close> to one that has seen up to \<open>h'\<close>.\<close>

definition chunk ::
    "cstring \<Rightarrow> local_catalog \<Rightarrow> XLogRecPtr \<Rightarrow> descriptions \<Rightarrow> event list \<Rightarrow> XLogRecPtr \<Rightarrow> descriptions \<Rightarrow> byte list list \<Rightarrow> bool" where
  "chunk db cat h known evs h' known' texts \<longleftrightarrow>
     stream_ok db cat known None (concat (map event_elements evs)) \<and>
     fold known_after (concat (map event_elements evs)) known = known' \<and> fold tx_after (concat (map event_elements evs)) None = None \<and>
     stream_texts db (concat (map event_elements evs)) = texts \<and>
     (\<forall>hi \<le> h. events_in_order hi evs \<and> fold (\<lambda>ev hi. event_high hi ev) evs hi \<le> h')"

lemma chunk_Nil: "chunk db cat h known [] h known []"
  by (simp add: chunk_def stream_texts_def)

lemma chunk_append:
  assumes "chunk db cat h known evs h1 known1 ts" and "chunk db cat h1 known1 evs' h2 known2 ts'"
  shows "chunk db cat h known (evs @ evs') h2 known2 (ts @ ts')"
  using assms by (auto simp: chunk_def stream_ok_append events_in_order_append stream_texts_def)

lemma piece_chunk:
  assumes p: "piece db cat lim known None evs known' None texts" and "h < lim"
  shows "chunk db cat h known evs lim known' texts"
proof -
  have "events_in_order hi evs \<and> fold (\<lambda>ev hi. event_high hi ev) evs hi \<le> lim" if "hi \<le> h" for hi
    using events_below_high [of lim evs hi] p order_le_less_trans [OF that assms(2)] by (simp add: piece_def less_imp_le)
  then show ?thesis using p by (simp add: piece_def chunk_def)
qed

lemma piece_commit:
  assumes p: "piece db cat lim known None evs known' (Some (cd_commit_lsn cd)) texts" and "h < lim" and "cd_end_lsn cd = lim"
  shows "chunk db cat h known (evs @ [Data lim lim now (Commit cd)]) lim known' texts"
proof -
  let ?high = "fold (\<lambda>ev hi. event_high hi ev) evs"
  have "events_in_order hi (evs @ [Data lim lim now (Commit cd)]) \<and> ?high hi < lim" if "hi \<le> h" for hi
    using events_below_high [of lim evs hi] p order_le_less_trans [OF that assms(2)] assms(3) by (simp add: piece_def events_in_order_append)
  then show ?thesis using p by (auto simp: piece_def chunk_def stream_ok_append stream_texts_def less_imp_le)
qed

lemma txn_emits:
  assumes coh: "coherent env names bin desc known st" and cat: "catalog_ok (pubcat env)" and txn: "txn_origin_id txn = InvalidRepOriginId"
    "txn_final_lsn txn \<noteq> InvalidXLogRecPtr" and lim: "h < txn_end_lsn txn" "list_all (step_below (txn_end_lsn txn)) steps"
    and ok: "list_all2 (step_ok env names bin desc c2s db cat) steps pubs"
  shows "\<exists>st' evs known'. run_txn env (txn, steps) st = Inr st' \<and> out.emits c2s st st' evs \<and>
    chunk db cat h known evs (txn_end_lsn txn) known' (concat (map (published_texts db desc) pubs)) \<and> coherent env names bin desc known' st'"
proof -
  let ?st = "(set_output_state (txn_xid txn) (txn_first_lsn txn) False st)\<lparr>sent_begin_txn := (sent_begin_txn st)(txn_xid txn \<mapsto> False)\<rparr>"
  have b: "begin_cb_wrapper txn st = Inr ?st" by (simp add: begin_cb_wrapper_def pgoutput_begin_txn_def)
  have coh0: "coherent env names bin desc known ?st" using coh by (simp add: coherent_def set_output_state_def)
  have "sent_begin_txn ?st (txn_xid txn) = Some False" by simp
  from steps_emit [OF coh0 cat txn this lim(2) ok] obtain st1 evs1 known1 begun where
    st1: "run_steps env txn steps ?st = Inr st1" "sent_begin_txn st1 (txn_xid txn) = Some begun" "out.emits c2s ?st st1 evs1"
    "piece db cat (txn_end_lsn txn) known (announced txn False) evs1 known1 (announced txn begun) (concat (map (published_texts db desc) pubs))"
    "coherent env names bin desc known1 st1" by blast
  let ?st1 = "(OutputPluginUpdateProgress (\<not> begun) (set_output_state (txn_xid txn) (txn_end_lsn txn) True st1))
    \<lparr>sent_begin_txn := (sent_begin_txn st1)(txn_xid txn := None)\<rparr>"
  have coh1: "coherent env names bin desc known1 ?st1" using st1(5) by (simp add: coherent_def OutputPluginUpdateProgress_def set_output_state_def)
  have e1: "out.emits c2s st ?st1 evs1" using st1(3) by (simp add: out.emits_def OutputPluginUpdateProgress_def)
  have run: "run_txn env (txn, steps) st = (if begun then send_message env True (logicalrep_write_commit txn (txn_final_lsn txn)) ?st1 else Inr ?st1)"
    using b st1(1,2) by (simp add: run_txn_def commit_cb_wrapper_def pgoutput_commit_txn_def OutputPluginUpdateProgress_def Let_def)
  show ?thesis
  proof (cases begun)
    case False
    have "piece db cat (txn_end_lsn txn) known None evs1 known1 None (concat (map (published_texts db desc) pubs))"
      using st1(4) False by (simp add: announced_def)
    from piece_chunk [OF this lim(1)] show ?thesis using False run e1 coh1 by auto
  next
    case True
    let ?cd = "\<lparr>cd_commit_lsn = txn_final_lsn txn, cd_end_lsn = txn_end_lsn txn, cd_committime = txn_xact_time txn\<rparr>"
    have "sendable ?st1" "write_location ?st1 = txn_end_lsn txn"
      using coh1 by (simp_all add: sendable_def coherent_def OutputPluginUpdateProgress_def)
    with send_conveyed [OF _ conveys_commit [of c2s txn "txn_final_lsn txn"], of ?st1 env True] obtain st2 now where
      st2: "send_message env True (logicalrep_write_commit txn (txn_final_lsn txn)) ?st1 = Inr st2" "sendable st2" "settled st2 = settled ?st1"
      "out.emits c2s ?st1 st2 [Data (txn_end_lsn txn) (txn_end_lsn txn) now (Commit ?cd)]" by metis
    have "piece db cat (txn_end_lsn txn) known None evs1 known1 (Some (cd_commit_lsn ?cd)) (concat (map (published_texts db desc) pubs))"
      using st1(4) True by (simp add: announced_def)
    from piece_commit [OF this lim(1)] have
      "chunk db cat h known (evs1 @ [Data (txn_end_lsn txn) (txn_end_lsn txn) now (Commit ?cd)]) (txn_end_lsn txn) known1 (concat (map (published_texts db desc) pubs))"
      by simp
    moreover have "coherent env names bin desc known1 st2" using coherent_settled [OF coh1 st2(3)] st2(2) by (simp add: sendable_def)
    ultimately show ?thesis using True run st2(1) out.emits_append [OF e1 st2(4)] by auto
  qed
qed

section \<open>From the publisher to Kafka\<close>

text \<open>Transactions in the order of their commits: none comes from another origin, and none ends before the one ahead of it.\<close>

fun history_ok ::
    "('d decode_step \<Rightarrow> (Oid \<times> change_row) option \<Rightarrow> bool) \<Rightarrow> XLogRecPtr \<Rightarrow> (ReorderBufferTXN \<times> 'd decode_step list) list \<Rightarrow>
     (Oid \<times> change_row) option list list \<Rightarrow> bool" where
  "history_ok ok h [] pubss \<longleftrightarrow> pubss = []"
| "history_ok ok h ((txn, steps) # ts) pubss \<longleftrightarrow>
     txn_origin_id txn = InvalidRepOriginId \<and> txn_final_lsn txn \<noteq> InvalidXLogRecPtr \<and> h < txn_end_lsn txn \<and>
     list_all (step_below (txn_end_lsn txn)) steps \<and>
     (case pubss of [] \<Rightarrow> False | pubs # pubss \<Rightarrow> list_all2 ok steps pubs \<and> history_ok ok (txn_end_lsn txn) ts pubss)"

lemma txns_emit:
  assumes "coherent env names bin desc known st" and cat: "catalog_ok (pubcat env)"
    and "history_ok (step_ok env names bin desc c2s db cat) h ts pubss"
  shows "\<exists>st' evs h' known'. run_txns env ts st = Inr st' \<and> out.emits c2s st st' evs \<and>
    chunk db cat h known evs h' known' (concat (map (published_texts db desc) (concat pubss)))"
  using assms(1,3)
proof (induction ts arbitrary: st known h pubss)
  case Nil
  then show ?case using out.emits_nothing [of st st c2s] chunk_Nil by fastforce
next
  case (Cons t ts)
  obtain txn steps where t: "t = (txn, steps)" by (cases t)
  obtain pubs pubss' where p: "pubss = pubs # pubss'" "list_all2 (step_ok env names bin desc c2s db cat) steps pubs"
    "history_ok (step_ok env names bin desc c2s db cat) (txn_end_lsn txn) ts pubss'"
    "txn_origin_id txn = InvalidRepOriginId" "txn_final_lsn txn \<noteq> InvalidXLogRecPtr" "h < txn_end_lsn txn" "list_all (step_below (txn_end_lsn txn)) steps"
    using Cons.prems(2) t by (auto split: list.splits)
  obtain st1 evs1 known1 where st1: "run_txn env (txn, steps) st = Inr st1" "out.emits c2s st st1 evs1" "coherent env names bin desc known1 st1"
    "chunk db cat h known evs1 (txn_end_lsn txn) known1 (concat (map (published_texts db desc) pubs))"
    using txn_emits [OF Cons.prems(1) cat p(4-7,2)] by blast
  obtain st2 evs2 h2 known2 where st2: "run_txns env ts st1 = Inr st2" "out.emits c2s st1 st2 evs2"
    "chunk db cat (txn_end_lsn txn) known1 evs2 h2 known2 (concat (map (published_texts db desc) (concat pubss')))"
    using Cons.IH [OF st1(3) p(3)] by blast
  show ?case using t p(1) st1(1) st2(1) out.emits_append [OF st1(2) st2(2)] chunk_append [OF st1(4) st2(3)] by auto
qed

text \<open>Cutting the messages into pieces cuts the events along.\<close>

lemma events_cut:
  "list_all2 (is_event c2s) (concat (map (\<lambda>r. map arr_bytes (arrivals r)) rounds)) evs \<Longrightarrow>
     \<exists>evss. evs = concat evss \<and> list_all2 (\<lambda>r. list_all2 (\<lambda>a. is_event c2s (arr_bytes a)) (arrivals r)) rounds evss"
proof (induction rounds arbitrary: evs)
  case (Cons r rounds)
  then obtain es evs' where "evs = es @ evs'" "list_all2 (is_event c2s) (map arr_bytes (arrivals r)) es"
    "list_all2 (is_event c2s) (concat (map (\<lambda>r. map arr_bytes (arrivals r)) rounds)) evs'"
    by (auto simp: list_all2_append1)
  moreover from this(3) obtain evss where "evs' = concat evss"
    "list_all2 (\<lambda>r. list_all2 (\<lambda>a. is_event c2s (arr_bytes a)) (arrivals r)) rounds evss" using Cons.IH by blast
  ultimately show ?case by (intro exI [of _ "es # evss"]) (simp add: list_all2_map1)
qed simp

text \<open>The plugin as it is after start-up: nothing cached, nothing sent.\<close>

definition plugin_started :: "cstring list \<Rightarrow> bool \<Rightarrow> decoding \<Rightarrow> bool" where
  "plugin_started names bin st \<longleftrightarrow> si_wf (out_buf st) \<and> \<not> po_in_streaming (plugin st) \<and> po_publication_names (plugin st) = names \<and>
     po_binary (plugin st) = bin \<and> \<not> publications_valid st \<and> RelationSyncCache st = Some (\<lambda>_. None) \<and> sent_messages st = []"

lemma started_coherent: "plugin_started names bin st \<Longrightarrow> coherent env names bin desc (\<lambda>_. None) st"
  by (simp add: plugin_started_def coherent_def)

text \<open>Claim C1. From the publisher to Kafka: committed transactions with any mixture of row changes, logical messages and
  cache invalidations go through the callbacks of the output plugin, which returns; whatever way the messages it has sent are cut
  into rounds of the subscriber, the main loop there returns and hands to Kafka exactly the rows that the publication publishes
  (after column lists, conversion to the published table and row filters), once each, in the order of the changes and of the
  commits: each table is described before its first row, and transactions without a published row leave no trace. The subscriber is at
  the start of its process, and the first row starts its producer: the connection string fits its buffer of 64 bytes and the client library
  starts when it is asked to. A row is handed over when the library has accepted it or the refusal has been logged.\<close>

theorem publisher_to_kafka:
  fixes lenv :: "('w, 'rk, 'rkt, 'r::zero) loop_env"
  assumes "client_contract (kafka_lib (wenv lenv)) accepted" and "sprintf_fits (doubles (wenv lenv))" and "quiet lenv" and "0 < dispatch_depth lenv"
    and "loop_start accepted db lenv (\<lambda>_. None) lst"
    and "plugin_started names bin st" and "catalog_ok (pubcat env)"
    and "history_ok (step_ok env names bin desc (to_server (wenv lenv)) db (local_cat (wenv lenv))) (last_received lst) ts pubss"
  shows "\<exists>st'. run_txns env ts st = Inr st' \<and>
    (\<forall>rounds. concat (map (\<lambda>r. map arr_bytes (arrivals r)) rounds) = sent_messages st' \<longrightarrow> sorted (concat (map flushes rounds)) \<longrightarrow>
      punctual lenv (last_recv_timestamp lst) rounds \<longrightarrow> list_all (\<lambda>r. \<not> stream_ended r) (butlast rounds) \<longrightarrow>
      (\<exists>ended lst'. LogicalRepApplyLoop lenv rounds lst = Inr (ended, lst') \<and>
        handed_over_all accepted (concat (map (published_texts db desc) (concat pubss))) (pub (wrk lst)) (pub (wrk lst'))))"
proof -
  obtain st' evs h' known' where st': "run_txns env ts st = Inr st'" "out.emits (to_server (wenv lenv)) st st' evs"
    and c: "chunk db (local_cat (wenv lenv)) (last_received lst) (\<lambda>_. None) evs h' known' (concat (map (published_texts db desc) (concat pubss)))"
    using txns_emit [OF started_coherent [OF assms(6)] assms(7,8)] by blast
  have sent: "list_all2 (is_event (to_server (wenv lenv))) (sent_messages st') evs"
    using st'(2) assms(6) by (simp add: out.emits_def plugin_started_def)
  have "\<exists>ended lst'. LogicalRepApplyLoop lenv rounds lst = Inr (ended, lst') \<and>
      handed_over_all accepted (concat (map (published_texts db desc) (concat pubss))) (pub (wrk lst)) (pub (wrk lst'))"
    if r: "concat (map (\<lambda>r. map arr_bytes (arrivals r)) rounds) = sent_messages st'" "sorted (concat (map flushes rounds))"
      "punctual lenv (last_recv_timestamp lst) rounds" "list_all (\<lambda>r. \<not> stream_ended r) (butlast rounds)" for rounds
  proof -
    obtain evss where e: "evs = concat evss"
      "list_all2 (\<lambda>r. list_all2 (\<lambda>a. is_event (to_server (wenv lenv)) (arr_bytes a)) (arrivals r)) rounds evss"
      using events_cut [of _ rounds evs] sent r(1) by auto
    have ok: "stream_ok db (local_cat (wenv lenv)) (\<lambda>_. None) None (concat (map event_elements (concat evss)))"
      "events_in_order (last_received lst) (concat evss)"
      "stream_texts db (concat (map event_elements (concat evss))) = concat (map (published_texts db desc) (concat pubss))"
      using c by (simp_all add: chunk_def e(1))
    have "sorted (0 # concat (map flushes rounds))" using r(2) by simp
    from loop_done [OF assms(1-4) loop_start_inv [OF assms(5)] e(2) ok(1,2) this r(3,4)] show ?thesis
      unfolding events_done_def ok(3) by blast
  qed
  with st'(1) show ?thesis by blast
qed

section \<open>A concrete run\<close>

text \<open>A publication of one table with a row filter; the first row does not pass it, and the caches are dropped before the second.\<close>

definition demo_published :: Relation where
  "demo_published = demo_relation\<lparr>rd_att := [demo_attribute ''id'' 1]\<rparr>"

definition demo_publication :: Publication where
  "demo_publication = \<lparr>pub_oid = 100, pub_name = ''p'', pub_alltables = False, pub_viaroot = False, pub_gencols_type = PUBLISH_GENCOLS_NONE,
     pub_actions = \<lparr>pubinsert = True, pubupdate = True, pubdelete = True, pubtruncate = True\<rparr>\<rparr>"

definition demo_pubcat :: "cstring pub_catalog" where
  "demo_pubcat = \<lparr>syscat = ProtoRoundtrip.demo_catalog,
     RelationIdGetRelation = (\<lambda>relid. if relid = 16384 then Some demo_published else None),
     GetPublicationByName = (\<lambda>name. if name = ''p'' then Some demo_publication else None),
     GetRelationPublications = (\<lambda>relid. if relid = 16384 then [100] else []), GetSchemaPublications = (\<lambda>_. []), get_partition_ancestors = (\<lambda>_. []),
     PUBLICATIONRELMAP = (\<lambda>relid pub. if relid = 16384 \<and> pub = 100 then Some \<lparr>prqual = Some ''id <> 3'', prattrs = None\<rparr> else None),
     PUBLICATIONNAMESPACEMAP = (\<lambda>_ _. False), ExecEvalExpr = (\<lambda>f slot. Some (hd (tts_values slot) \<noteq> ''3'')),
     replorigin_by_oid = (\<lambda>_. None), Datum0 = []\<rparr>"

definition demo_output_env :: "cstring output_env" where
  "demo_output_env = \<lparr>pubcat = demo_pubcat, to_client = (\<lambda>s. s), send_clock = (\<lambda>n. 9)\<rparr>"

definition demo_decoding :: decoding where
  "demo_decoding = \<lparr>accept_writes = False, prepared_write = False, write_xid = 0, write_location = 0, end_xact = False, out_buf = demo_buffer,
     sent_messages = [], progress = [],
     plugin = \<lparr>po_in_streaming = False, po_protocol_version = 1, po_publication_names = [''p''], po_publications = [], po_binary = False,
       po_streaming = LOGICALREP_STREAM_OFF, po_messages = False, po_two_phase = False, po_publish_no_origin = False\<rparr>,
     sent_begin_txn = (\<lambda>_. None), publications_valid = False, RelationSyncCache = Some (\<lambda>_. None)\<rparr>"

definition demo_insert :: "XLogRecPtr \<Rightarrow> cstring \<Rightarrow> cstring decode_step" where
  "demo_insert lsn v = Row_change demo_published
     \<lparr>ch_lsn = lsn, ch_action = REORDER_BUFFER_CHANGE_INSERT, ch_txn = demo_txn, ch_oldtuple = None,
      ch_newtuple = Some \<lparr>tts_values = [v], tts_isnull = [False]\<rparr>, ch_cascade = False, ch_restart_seqs = False\<rparr>"

definition demo_steps :: "cstring decode_step list" where
  "demo_steps = [demo_insert 0x16B3710 ''3'', Publications_invalidated, demo_insert 0x16B3720 ''7'']"

definition demo_described :: LogicalRepRelation where
  "demo_described = demo_remote_rel\<lparr>remoteid := 16384, atttyps := [25]\<rparr>"

definition demo_built :: RelationSyncEntry where
  "demo_built = new_entry\<lparr>re_replicate_valid := True, re_pubactions := pub_actions demo_publication, re_publish_as_relid := 16384,
     re_exprstate := (\<lambda>_. Some [''id <> 3''])\<rparr>"

lemma demo_rebuilt:
  "LoadPublications demo_pubcat [''p''] = [demo_publication]"
  "rebuild_entry demo_pubcat [demo_publication] demo_published new_entry = Inr demo_built"
proof -
  show "LoadPublications demo_pubcat [''p''] = [demo_publication]" by (simp add: demo_pubcat_def)
  have r: "RelationIdGetRelation demo_pubcat 16384 = Some demo_published" "rd_id demo_published = 16384" "\<not> rd_relispartition demo_published"
    "rd_relkind demo_published = CHR ''r''" "rd_att demo_published = [demo_attribute ''id'' 1]"
    by (simp_all add: demo_pubcat_def demo_published_def demo_relation_def)
  have loop: "publication_loop demo_pubcat 16384 [demo_publication] (no_actions, 16384, 0, []) = Inr (pub_actions demo_publication, 16384, 0, [demo_publication])"
    using r by (simp add: pub_target_def get_rel_relispartition_def get_rel_relkind_def Let_def)
      (simp add: demo_publication_def demo_pubcat_def add_actions_def no_actions_def)
  have cols: "check_and_fetch_column_list demo_pubcat demo_publication 16384 = Inr (False, [])" "pub_filter demo_pubcat 16384 demo_publication = Some ''id <> 3''"
    by (simp_all add: check_and_fetch_column_list_def pub_filter_def demo_publication_def demo_pubcat_def)
  let ?e = "(blank_entry new_entry)\<lparr>re_pubactions := pub_actions demo_publication, re_publish_as_relid := 16384\<rparr>"
  have acts: "publishes (pub_actions demo_publication) a" "pubinsert (pub_actions demo_publication)" for a
    by (cases a) (simp_all add: demo_publication_def)
  have "fill_entry demo_pubcat [demo_publication] demo_published ?e = Inr (?e\<lparr>re_exprstate := (\<lambda>_. Some [''id <> 3''])\<rparr>)"
    using r cols acts by (simp add: fill_entry_def init_tuple_slot_def pgoutput_row_filter_init_def open_relation_def check_and_init_gencol_def
        pgoutput_column_list_init_def demo_attribute_def blank_entry_def new_entry_def Let_def)
  then show "rebuild_entry demo_pubcat [demo_publication] demo_published new_entry = Inr demo_built"
    using r(2) by (simp add: rebuild_entry_def loop demo_built_def del: publication_loop.simps) (simp add: blank_entry_def new_entry_def)
qed

lemma demo_change_ok:
  "step_ok demo_output_env [''p''] False (\<lambda>_. demo_described) (\<lambda>s. s) ''shop'' RelationMap.demo_catalog (demo_insert lsn ''3'') None"
  "step_ok demo_output_env [''p''] False (\<lambda>_. demo_described) (\<lambda>s. s) ''shop'' RelationMap.demo_catalog (demo_insert lsn ''7'')
     (Some (16384, Inserted [Some ''7'']))"
proof -
  have cat: "RelationIdGetRelation (pubcat demo_output_env) 16384 = Some demo_published" "rd_id demo_published = 16384"
    "LoadPublications (pubcat demo_output_env) [''p''] = [demo_publication]"
    "rebuild_entry (pubcat demo_output_env) [demo_publication] demo_published new_entry = Inr demo_built"
    "is_publishable_relation demo_published"
    using demo_rebuilt by (simp_all add: demo_output_env_def) (simp_all add: demo_pubcat_def demo_published_def demo_relation_def
        is_publishable_relation_def IsCatalogRelationOid_def)
  let ?change = "\<lambda>v. \<lparr>ch_lsn = lsn, ch_action = REORDER_BUFFER_CHANGE_INSERT, ch_txn = demo_txn, ch_oldtuple = None,
    ch_newtuple = Some \<lparr>tts_values = [v], tts_isnull = [False]\<rparr>, ch_cascade = False, ch_restart_seqs = False\<rparr>"
  have o: "outcome demo_output_env demo_built demo_published (?change v) =
      Inr (if v = ''3'' then None else Some (demo_published, None, Some \<lparr>tts_values = [v], tts_isnull = [False]\<rparr>, REORDER_BUFFER_CHANGE_INSERT))" for v
    using cat(2) by (simp add: outcome_def action_published_def demo_built_def demo_publication_def convert_tuple_def new_entry_def
        pgoutput_row_filter_def pgoutput_row_filter_exec_expr_def demo_output_env_def demo_pubcat_def Let_def)
  show "step_ok demo_output_env [''p''] False (\<lambda>_. demo_described) (\<lambda>s. s) ''shop'' RelationMap.demo_catalog (demo_insert lsn ''3'') None"
    using cat o [of "''3''"] by (simp add: demo_insert_def change_ok_def del: LoadPublications.simps)
  have row: "change_read demo_output_env False demo_built demo_published None (Some \<lparr>tts_values = [''7''], tts_isnull = [False]\<rparr>)
      REORDER_BUFFER_CHANGE_INSERT (Inserted [Some ''7''])"
    using demo_row by (simp add: row_read_def demo_output_env_def demo_pubcat_def demo_built_def new_entry_def demo_published_def demo_simps image_text_def)
  have d: "describable demo_output_env (\<lambda>s. s) demo_built demo_published demo_described"
    by (simp add: describable_def relation_sent_def demo_output_env_def demo_pubcat_def demo_built_def new_entry_def demo_published_def demo_simps
        relation_view_def demo_described_def demo_remote_rel_def read_namespace_name_def is_key_attr_def bms_is_member_def)
  have "resolvable RelationMap.demo_catalog demo_described"
    by (simp add: resolvable_def copy_remoterel_def demo_described_def demo_remote_rel_def fresh_entry_def rebuild_by_name_def
        RelationMap.demo_catalog_def CheckSubscriptionRelkind_def logicalrep_rel_att_by_name_def
        logicalrep_report_missing_or_gen_attrs_def logicalrep_rel_mark_updatable_def Let_def)
  moreover have "length (change_text ''shop'' (description demo_described) (Inserted [Some ''7''])) < 200" by code_simp
  then have "publishable ''shop'' (description demo_described) (Inserted [Some ''7''])"
    by (simp add: publishable_def fits_def MaxAllocSize_def) (simp add: description_def copy_remoterel_def demo_described_def demo_remote_rel_def c_str_def)
  ultimately show "step_ok demo_output_env [''p''] False (\<lambda>_. demo_described) (\<lambda>s. s) ''shop'' RelationMap.demo_catalog (demo_insert lsn ''7'')
      (Some (16384, Inserted [Some ''7'']))"
    using cat o [of "''7''"] row d by (simp add: demo_insert_def change_ok_def del: LoadPublications.simps)
qed

definition demo_arrivals :: "byte list list \<Rightarrow> loop_round" where
  "demo_arrivals ms = demo_round (map (\<lambda>m. \<lparr>arr_bytes = m, arr_time = 5, arr_flush = 0\<rparr>) ms)"

theorem publisher_to_kafka_witness:
  "\<exists>rm st' ended lst'. run_txns demo_output_env [(demo_txn, demo_steps)] demo_decoding = Inr st' \<and>
     LogicalRepApplyLoop demo_loop_env [demo_arrivals (sent_messages st')] (demo_loop rm) = Inr (ended, lst') \<and>
     handed_over_all (\<lambda>w. w) [change_text ''shop'' (description demo_described) (Inserted [Some ''7''])] (pub (demo_worker rm)) (pub (wrk lst'))"
proof -
  obtain rm where rm: "idle (\<lambda>w. w) ''shop'' demo_env (demo_worker rm)" by (rule demo_worker_idle)
  have start: "loop_start (\<lambda>w. w) ''shop'' demo_loop_env (\<lambda>_. None) (demo_loop rm)" by (rule demo_loop_start [OF rm]) simp
  have lib: "client_contract (kafka_lib (wenv demo_loop_env)) (\<lambda>w. w)" "sprintf_fits (doubles (wenv demo_loop_env))" "0 < dispatch_depth demo_loop_env"
    using demo_client_contract [of 5] demo_fp_fits by (simp_all add: demo_loop_env_def demo_env_def)
  have plug: "plugin_started [''p''] False demo_decoding" using demo_buffer_wf(1) by (simp add: plugin_started_def demo_decoding_def)
  have cat: "catalog_ok (pubcat demo_output_env)"
    by (simp add: catalog_ok_def demo_output_env_def demo_pubcat_def demo_published_def demo_relation_def)
  have h: "history_ok (step_ok demo_output_env [''p''] False (\<lambda>_. demo_described) (to_server (wenv demo_loop_env)) ''shop'' (local_cat (wenv demo_loop_env)))
      (last_received (demo_loop rm)) [(demo_txn, demo_steps)] [[None, None, Some (16384, Inserted [Some ''7''])]]"
    using demo_change_ok by (simp add: demo_loop_env_def demo_env_def demo_loop_def demo_steps_def demo_txn_def) (simp add: demo_insert_def)
  from publisher_to_kafka [OF lib(1,2) demo_loop_quiet lib(3) start plug cat h] obtain st' where
    run: "run_txns demo_output_env [(demo_txn, demo_steps)] demo_decoding = Inr st'"
    and loop: "concat (map (\<lambda>r. map arr_bytes (arrivals r)) rounds) = sent_messages st' \<Longrightarrow> sorted (concat (map flushes rounds)) \<Longrightarrow>
      punctual demo_loop_env (last_recv_timestamp (demo_loop rm)) rounds \<Longrightarrow> list_all (\<lambda>r. \<not> stream_ended r) (butlast rounds) \<Longrightarrow>
      \<exists>ended lst'. LogicalRepApplyLoop demo_loop_env rounds (demo_loop rm) = Inr (ended, lst') \<and>
        handed_over_all (\<lambda>w. w) [change_text ''shop'' (description demo_described) (Inserted [Some ''7''])] (pub (wrk (demo_loop rm))) (pub (wrk lst'))"
    for rounds by auto
  have "sorted (concat (map flushes [demo_arrivals ms]))" for ms
    by (simp add: flushes_def demo_arrivals_def demo_round_def waits_def sorted_append o_def map_replicate_const)
  moreover have "map arr_bytes (arrivals (demo_arrivals ms)) = ms" "punctual demo_loop_env t [demo_arrivals ms]" for ms t
    by (simp_all add: demo_arrivals_def demo_round_def waits_def o_def)
  ultimately obtain ended lst' where "LogicalRepApplyLoop demo_loop_env [demo_arrivals (sent_messages st')] (demo_loop rm) = Inr (ended, lst')"
    "handed_over_all (\<lambda>w. w) [change_text ''shop'' (description demo_described) (Inserted [Some ''7''])] (pub (wrk (demo_loop rm))) (pub (wrk lst'))"
    using loop [of "[demo_arrivals (sent_messages st')]"] by auto
  then show ?thesis using run by (intro exI [of _ rm] exI [of _ st'] exI [of _ ended] exI [of _ lst']) (simp add: demo_loop_def)
qed

end
