(* ===== verification/StreamOptions.thy ===== *)
theory StreamOptions
  imports StartCommand PublisherFlow
begin

text \<open>
  How the publisher takes the options of a stream: \<^verbatim>\<open>parse_output_parameters\<close> and
  \<^verbatim>\<open>pgoutput_startup\<close> of \<^verbatim>\<open>src/backend/replication/pgoutput/pgoutput.c\<close>, with the readers of option
  values they call (\<^verbatim>\<open>define.c\<close>, \<^verbatim>\<open>subscriptioncmds.c\<close>, \<^verbatim>\<open>varlena.c\<close>, \<^verbatim>\<open>pgstrcasecmp.c\<close>). The theorems
  join this to the command the subscriber writes: what the subscription asks for is what the
  plugin is started with.
\<close>

section \<open>Values of options\<close>

text \<open>A string ends with a NUL byte, which is its own lower case.\<close>

definition char_at_start :: "cstring \<Rightarrow> byte" where
  "char_at_start s = (case s of [] \<Rightarrow> NUL | c # _ \<Rightarrow> c)"

definition pg_fold_case :: "ident_rules \<Rightarrow> byte \<Rightarrow> byte" where
  "pg_fold_case rules ch = (if 65 \<le> uchar ch \<and> uchar ch \<le> 90 then ascii_lower ch
     else if IS_HIGHBIT_SET ch \<and> locale_isupper rules ch then locale_tolower rules ch else ch)"

lemma fold_NUL [simp]: "pg_fold_case rules NUL = NUL"
  by (simp add: pg_fold_case_def IS_HIGHBIT_SET_def)

function pg_strcasecmp :: "ident_rules \<Rightarrow> cstring \<Rightarrow> cstring \<Rightarrow> int" where
  "pg_strcasecmp rules s1 s2 =
     (let ch1 = char_at_start s1; ch2 = char_at_start s2;
          (ch1, ch2) = (if ch1 \<noteq> ch2 then (pg_fold_case rules ch1, pg_fold_case rules ch2) else (ch1, ch2))
      in if ch1 \<noteq> ch2 then int (uchar ch1) - int (uchar ch2) else if ch1 = NUL then 0 else pg_strcasecmp rules (tl s1) (tl s2))"
  by pat_completeness auto

termination
  by (relation "measure (\<lambda>(rules, s1, s2). length s1)") (auto simp: char_at_start_def split: list.splits if_splits)

declare pg_strcasecmp.simps [simp del]

text \<open>The grammar of replication commands makes only strings; a missing value is the null pointer.\<close>

definition defGetString :: "DefElem \<Rightarrow> cstring res" where
  "defGetString def = (case de_arg def of None \<Rightarrow> Inl (PgError (defname def @ '' requires a parameter'')) | Some sval \<Rightarrow> Inr sval)"

definition defGetBoolean :: "ident_rules \<Rightarrow> DefElem \<Rightarrow> bool res" where
  "defGetBoolean rules def =
     (if de_arg def = None then Inr True
      else bindR (defGetString def) (\<lambda>sval.
        if pg_strcasecmp rules sval ''true'' = 0 then Inr True
        else if pg_strcasecmp rules sval ''false'' = 0 then Inr False
        else if pg_strcasecmp rules sval ''on'' = 0 then Inr True
        else if pg_strcasecmp rules sval ''off'' = 0 then Inr False
        else Inl (PgError (defname def @ '' requires a Boolean value''))))"

definition defGetStreamingMode :: "ident_rules \<Rightarrow> DefElem \<Rightarrow> byte res" where
  "defGetStreamingMode rules def =
     (if de_arg def = None then Inr LOGICALREP_STREAM_ON
      else bindR (defGetString def) (\<lambda>sval.
        if pg_strcasecmp rules sval ''false'' = 0 \<or> pg_strcasecmp rules sval ''off'' = 0 then Inr LOGICALREP_STREAM_OFF
        else if pg_strcasecmp rules sval ''true'' = 0 \<or> pg_strcasecmp rules sval ''on'' = 0 then Inr LOGICALREP_STREAM_ON
        else if pg_strcasecmp rules sval ''parallel'' = 0 then Inr LOGICALREP_STREAM_PARALLEL
        else Inl (PgError (defname def @ '' requires a Boolean value or parallel''))))"

text \<open>\<^verbatim>\<open>strVal\<close> reads through the pointer it is given.\<close>

definition strVal :: "DefElem \<Rightarrow> cstring res" where
  "strVal def = (case de_arg def of None \<Rightarrow> Inl (Undefined NullPointer) | Some sval \<Rightarrow> Inr sval)"

text \<open>
  \<^verbatim>\<open>strtoul\<close> of the C library with base ten: the value, the text behind the number, and whether
  the number was too large. Without digits nothing is consumed.
\<close>

definition strtoul :: "cstring \<Rightarrow> nat \<times> cstring \<times> bool" where
  "strtoul nptr =
     (let s = dropWhile scanner_isspace nptr;
          neg = (s \<noteq> [] \<and> hd s = CHR ''-'');
          s = (if s \<noteq> [] \<and> hd s \<in> {CHR ''-'', CHR ''+''} then tl s else s);
          digits = takeWhile is_digit s; n = number_value 10 digits
      in if digits = [] then (0, nptr, False)
         else if 2 ^ 64 \<le> n then (2 ^ 64 - 1, dropWhile is_digit s, True)
         else (if neg then (2 ^ 64 - n) mod 2 ^ 64 else n, dropWhile is_digit s, False))"

section \<open>A list of names\<close>

text \<open>The loop of \<^verbatim>\<open>SplitIdentifierString\<close>, at the start of a name; \<^const>\<open>None\<close> for a syntax error.\<close>

definition split_one :: "ident_rules \<Rightarrow> byte \<Rightarrow> byte list \<Rightarrow> (cstring \<times> byte list) option" where
  "split_one rules separator nextp =
     (if char_at_start nextp = DBLQUOTE then quoted_until DBLQUOTE (tl nextp)
      else let curname = takeWhile (\<lambda>c. c \<noteq> separator \<and> \<not> scanner_isspace c) nextp
           in if curname = [] then None else Some (downcase_truncate_identifier rules curname, drop (length curname) nextp))"

lemma split_one_shorter: "split_one rules separator nextp = Some (name, rest) \<Longrightarrow> length rest < length nextp"
  by (cases nextp) (auto simp: split_one_def char_at_start_def Let_def less_Suc_eq_le dest: quoted_until_shorter split: if_splits)

function split_names :: "ident_rules \<Rightarrow> byte \<Rightarrow> byte list \<Rightarrow> cstring list option" where
  "split_names rules separator nextp =
     (case split_one rules separator nextp of
        None \<Rightarrow> None
      | Some (curname, nextp) \<Rightarrow>
          (case dropWhile scanner_isspace nextp of
             [] \<Rightarrow> Some [truncate_identifier rules curname]
           | c # nextp \<Rightarrow>
               if c = separator
               then map_option (\<lambda>names. truncate_identifier rules curname # names) (split_names rules separator (dropWhile scanner_isspace nextp))
               else None))"
  by pat_completeness auto

termination
proof (relation "measure (length \<circ> snd \<circ> snd)", goal_cases)
  case (2 rules separator nextp m curname rest c rest')
  have "length (dropWhile scanner_isspace rest') < length (dropWhile scanner_isspace rest)"
    using 2 length_dropWhile_le [of scanner_isspace rest'] by (metis length_Cons less_Suc_eq_le)
  also have "\<dots> \<le> length rest" by (rule length_dropWhile_le)
  also have "\<dots> < length nextp" using 2 split_one_shorter by metis
  finally show ?case by simp
qed simp

declare split_names.simps [simp del]

definition SplitIdentifierString :: "ident_rules \<Rightarrow> cstring \<Rightarrow> byte \<Rightarrow> cstring list option" where
  "SplitIdentifierString rules rawstring separator =
     (let nextp = dropWhile scanner_isspace rawstring in if nextp = [] then Some [] else split_names rules separator nextp)"

section \<open>Parameters of the plugin\<close>

record option_flags =
  protocol_version_given :: bool
  publication_names_given :: bool
  binary_option_given :: bool
  messages_option_given :: bool
  streaming_given :: bool
  two_phase_option_given :: bool
  origin_option_given :: bool

definition redundant :: "'a res" where
  "redundant = Inl (PgError ''conflicting or redundant options'')"

text \<open>One round of the loop over the options, by option.\<close>

definition proto_version_param :: "DefElem \<Rightarrow> option_flags \<Rightarrow> PGOutputData \<Rightarrow> (option_flags \<times> PGOutputData) res" where
  "proto_version_param defel fl data =
     (if protocol_version_given fl then redundant
      else bindR (strVal defel) (\<lambda>sval. case strtoul sval of (parsed, endptr, erange) \<Rightarrow>
        if erange \<or> endptr \<noteq> [] then Inl (PgError ''invalid proto_version'')
        else if 2 ^ 32 - 1 < parsed then Inl (PgError ''proto_version out of range'')
        else Inr (fl\<lparr>protocol_version_given := True\<rparr>, data\<lparr>po_protocol_version := of_nat parsed\<rparr>)))"

definition publication_names_param :: "ident_rules \<Rightarrow> DefElem \<Rightarrow> option_flags \<Rightarrow> PGOutputData \<Rightarrow> (option_flags \<times> PGOutputData) res" where
  "publication_names_param rules defel fl data =
     (if publication_names_given fl then redundant
      else bindR (strVal defel) (\<lambda>sval. case SplitIdentifierString rules sval (CHR '','') of
          None \<Rightarrow> Inl (PgError ''invalid publication_names syntax'')
        | Some names \<Rightarrow> Inr (fl\<lparr>publication_names_given := True\<rparr>, data\<lparr>po_publication_names := names\<rparr>)))"

definition origin_param :: "ident_rules \<Rightarrow> DefElem \<Rightarrow> option_flags \<Rightarrow> PGOutputData \<Rightarrow> (option_flags \<times> PGOutputData) res" where
  "origin_param rules defel fl data =
     (if origin_option_given fl then redundant
      else bindR (defGetString defel) (\<lambda>origin.
        if pg_strcasecmp rules origin ''none'' = 0 then Inr (fl\<lparr>origin_option_given := True\<rparr>, data\<lparr>po_publish_no_origin := True\<rparr>)
        else if pg_strcasecmp rules origin ''any'' = 0 then Inr (fl\<lparr>origin_option_given := True\<rparr>, data\<lparr>po_publish_no_origin := False\<rparr>)
        else Inl (PgError ''unrecognized origin value'')))"

definition parse_param :: "ident_rules \<Rightarrow> DefElem \<Rightarrow> option_flags \<times> PGOutputData \<Rightarrow> (option_flags \<times> PGOutputData) res" where
  "parse_param rules defel = (\<lambda>(fl, data).
     if defname defel = ''proto_version'' then proto_version_param defel fl data
     else if defname defel = ''publication_names'' then publication_names_param rules defel fl data
     else if defname defel = ''binary'' then
       (if binary_option_given fl then redundant
        else bindR (defGetBoolean rules defel) (\<lambda>b. Inr (fl\<lparr>binary_option_given := True\<rparr>, data\<lparr>po_binary := b\<rparr>)))
     else if defname defel = ''messages'' then
       (if messages_option_given fl then redundant
        else bindR (defGetBoolean rules defel) (\<lambda>b. Inr (fl\<lparr>messages_option_given := True\<rparr>, data\<lparr>po_messages := b\<rparr>)))
     else if defname defel = ''streaming'' then
       (if streaming_given fl then redundant
        else bindR (defGetStreamingMode rules defel) (\<lambda>m. Inr (fl\<lparr>streaming_given := True\<rparr>, data\<lparr>po_streaming := m\<rparr>)))
     else if defname defel = ''two_phase'' then
       (if two_phase_option_given fl then redundant
        else bindR (defGetBoolean rules defel) (\<lambda>b. Inr (fl\<lparr>two_phase_option_given := True\<rparr>, data\<lparr>po_two_phase := b\<rparr>)))
     else if defname defel = ''origin'' then origin_param rules defel fl data
     else Inl (PgError (''unrecognized pgoutput option: '' @ defname defel)))"

fun parse_params :: "ident_rules \<Rightarrow> DefElem list \<Rightarrow> option_flags \<times> PGOutputData \<Rightarrow> (option_flags \<times> PGOutputData) res" where
  "parse_params rules [] acc = Inr acc"
| "parse_params rules (defel # options) acc = bindR (parse_param rules defel acc) (parse_params rules options)"

definition no_flags :: option_flags where
  "no_flags = \<lparr>protocol_version_given = False, publication_names_given = False, binary_option_given = False, messages_option_given = False,
     streaming_given = False, two_phase_option_given = False, origin_option_given = False\<rparr>"

definition parse_output_parameters :: "ident_rules \<Rightarrow> DefElem list \<Rightarrow> PGOutputData \<Rightarrow> PGOutputData res" where
  "parse_output_parameters rules options data =
     bindR (parse_params rules options
       (no_flags, data\<lparr>po_binary := False, po_streaming := LOGICALREP_STREAM_OFF, po_messages := False, po_two_phase := False\<rparr>)) (\<lambda>(fl, data).
     if \<not> protocol_version_given fl then Inl (PgError ''option proto_version missing'')
     else if \<not> publication_names_given fl then Inl (PgError ''option publication_names missing'')
     else Inr data)"

section \<open>Start-up of the plugin\<close>

abbreviation LOGICALREP_PROTO_MIN_VERSION_NUM :: "32 word" where "LOGICALREP_PROTO_MIN_VERSION_NUM \<equiv> 1"
abbreviation LOGICALREP_PROTO_STREAM_VERSION_NUM :: "32 word" where "LOGICALREP_PROTO_STREAM_VERSION_NUM \<equiv> 2"
abbreviation LOGICALREP_PROTO_TWOPHASE_VERSION_NUM :: "32 word" where "LOGICALREP_PROTO_TWOPHASE_VERSION_NUM \<equiv> 3"
abbreviation LOGICALREP_PROTO_STREAM_PARALLEL_VERSION_NUM :: "32 word" where "LOGICALREP_PROTO_STREAM_PARALLEL_VERSION_NUM \<equiv> 4"
abbreviation LOGICALREP_PROTO_MAX_VERSION_NUM :: "32 word" where "LOGICALREP_PROTO_MAX_VERSION_NUM \<equiv> 4"

text \<open>The switches of the decoding context that the plugin reads and sets.\<close>

record decoding_switches =
  ctx_streaming :: bool
  ctx_twophase :: bool
  ctx_twophase_opt_given :: bool

definition zero_output_data :: PGOutputData where
  "zero_output_data = \<lparr>po_in_streaming = False, po_protocol_version = 0, po_publication_names = [], po_publications = [], po_binary = False,
     po_streaming = NUL, po_messages = False, po_two_phase = False, po_publish_no_origin = False\<rparr>"

definition startup_streaming :: "PGOutputData \<Rightarrow> decoding_switches \<Rightarrow> decoding_switches res" where
  "startup_streaming data sw =
     (if po_streaming data = LOGICALREP_STREAM_OFF then Inr (sw\<lparr>ctx_streaming := False\<rparr>)
      else if po_streaming data = LOGICALREP_STREAM_ON \<and> po_protocol_version data < LOGICALREP_PROTO_STREAM_VERSION_NUM
        then Inl (PgError ''requested proto_version does not support streaming'')
      else if po_streaming data = LOGICALREP_STREAM_PARALLEL \<and> po_protocol_version data < LOGICALREP_PROTO_STREAM_PARALLEL_VERSION_NUM
        then Inl (PgError ''requested proto_version does not support parallel streaming'')
      else if \<not> ctx_streaming sw then Inl (PgError ''streaming requested, but not supported by output plugin'')
      else Inr sw)"

definition startup_twophase :: "PGOutputData \<Rightarrow> decoding_switches \<Rightarrow> decoding_switches res" where
  "startup_twophase data sw =
     (if \<not> po_two_phase data then Inr (sw\<lparr>ctx_twophase_opt_given := False\<rparr>)
      else if po_protocol_version data < LOGICALREP_PROTO_TWOPHASE_VERSION_NUM
        then Inl (PgError ''requested proto_version does not support two-phase commit'')
      else if \<not> ctx_twophase sw then Inl (PgError ''two-phase commit requested, but not supported by output plugin'')
      else Inr (sw\<lparr>ctx_twophase_opt_given := True\<rparr>))"

text \<open>The registration of invalidation callbacks is left out: the callbacks themselves are steps of the decoded stream.\<close>

definition pgoutput_startup :: "ident_rules \<Rightarrow> DefElem list \<Rightarrow> bool \<Rightarrow> decoding_switches \<times> decoding \<Rightarrow> (decoding_switches \<times> decoding) res" where
  "pgoutput_startup rules options is_init = (\<lambda>(sw, st).
     if is_init then Inr (sw\<lparr>ctx_streaming := False, ctx_twophase := False\<rparr>, st\<lparr>plugin := zero_output_data\<rparr>)
     else bindR (parse_output_parameters rules options zero_output_data) (\<lambda>data.
       if LOGICALREP_PROTO_MAX_VERSION_NUM < po_protocol_version data
         then Inl (PgError ''client sent proto_version but server only supports protocol 4 or lower'')
       else if po_protocol_version data < LOGICALREP_PROTO_MIN_VERSION_NUM
         then Inl (PgError ''client sent proto_version but server only supports protocol 1 or higher'')
       else bindR (startup_streaming data sw) (\<lambda>sw. bindR (startup_twophase data sw) (\<lambda>sw.
         Inr (sw, init_rel_sync_cache (st\<lparr>plugin := data\<lparr>po_publications := []\<rparr>, publications_valid := False\<rparr>))))))"

section \<open>Reading what was written\<close>

lemma strcasecmp_refl: "NUL \<notin> set s \<Longrightarrow> pg_strcasecmp rules s s = 0"
  by (induction s) (simp_all add: pg_strcasecmp.simps [of _ "[]"] pg_strcasecmp.simps [of _ "_ # _"] char_at_start_def)

lemma strcasecmp_head:
  assumes "c \<noteq> d" "\<not> IS_HIGHBIT_SET c" "\<not> IS_HIGHBIT_SET d" "ascii_lower c \<noteq> ascii_lower d"
  shows "pg_strcasecmp rules (c # s) (d # t) \<noteq> 0"
  using assms by (auto simp: pg_strcasecmp.simps [of _ "_ # _"] char_at_start_def pg_fold_case_def ascii_lower_def split: if_splits)

lemma strcasecmp_step: "c \<noteq> NUL \<Longrightarrow> pg_strcasecmp rules (c # s) (c # t) = pg_strcasecmp rules s t"
  by (simp add: pg_strcasecmp.simps [of _ "_ # _"] char_at_start_def)

lemma split_delimited:
  assumes "length name < NAMEDATALEN" "rest = [] \<or> hd rest \<noteq> DBLQUOTE"
  shows "split_one rules (CHR '','') (delimited name @ rest) = Some (name, rest)"
  using quoted_until_doubled [OF assms(2), of name] by (simp add: split_one_def delimited_def char_at_start_def)

lemma split_delimited_list:
  assumes "list_all (\<lambda>name. length name < NAMEDATALEN) (name # names)"
  shows "split_names rules (CHR '','') (identifier_list (name # names)) = Some (name # names)"
  using assms
proof (induction names arbitrary: name)
  case Nil
  then show ?case using split_delimited [of name "[]"] by (simp add: split_names.simps [of _ _ "delimited name"] truncate_identifier_def)
next
  case (Cons n names)
  let ?rest = "identifier_list (n # names)"
  have "identifier_list (name # n # names) = delimited name @ CHR '','' # ?rest" by simp
  moreover have "split_one rules (CHR '','') (delimited name @ CHR '','' # ?rest) = Some (name, CHR '','' # ?rest)"
    using Cons.prems by (intro split_delimited) simp_all
  moreover have "dropWhile scanner_isspace ?rest = ?rest" by (simp add: delimited_def scanner_isspace_def)
  ultimately show ?case using Cons
    by (simp add: split_names.simps [of _ _ "delimited name @ CHR '','' # ?rest"] truncate_identifier_def scanner_isspace_def del: identifier_list.simps)
qed

lemma names_read:
  assumes "list_all (\<lambda>name. length name < NAMEDATALEN) names"
  shows "SplitIdentifierString rules (identifier_list names) (CHR '','') = Some names"
proof (cases names)
  case (Cons n ns)
  have "dropWhile scanner_isspace (identifier_list names) = identifier_list names" "identifier_list names \<noteq> []"
    by (simp_all add: Cons delimited_def scanner_isspace_def)
  then show ?thesis using split_delimited_list [of n ns] assms by (simp add: SplitIdentifierString_def Cons Let_def del: identifier_list.simps)
qed (simp add: SplitIdentifierString_def)

section \<open>What the subscription asks for\<close>

text \<open>The options of the apply worker; two-phase commit is asked for when it is pending and every table is ready.\<close>

definition run_apply_worker_options :: "int \<Rightarrow> Subscription \<Rightarrow> XLogRecPtr \<Rightarrow> bool \<Rightarrow> WalRcvStreamOptions" where
  "run_apply_worker_options server_version sub origin_startpos two_phase_due =
     (let options = fst (set_stream_options server_version sub (sub_slotname sub) origin_startpos)
      in if two_phase_due then options\<lparr>wo_twophase := True\<rparr> else options)"

lemmas option_simps = parse_param_def proto_version_param_def publication_names_param_def origin_param_def no_flags_def
  defGetBoolean_def defGetString_def defGetStreamingMode_def strVal_def

lemma version_read: "strtoul (show_nat 4) = (4, [], False)"
proof -
  have "show_nat 4 = ''4''" by code_simp
  then show ?thesis by (simp add: strtoul_def scanner_isspace_def is_digit_def number_value_def hexdigit_value_def Let_def)
qed

lemma mode_names:
  "pg_strcasecmp rules ''on'' ''true'' \<noteq> 0" "pg_strcasecmp rules ''on'' ''false'' \<noteq> 0" "pg_strcasecmp rules ''on'' ''off'' \<noteq> 0"
  "pg_strcasecmp rules ''on'' ''on'' = 0" "pg_strcasecmp rules ''true'' ''true'' = 0"
  "pg_strcasecmp rules ''parallel'' ''false'' \<noteq> 0" "pg_strcasecmp rules ''parallel'' ''off'' \<noteq> 0" "pg_strcasecmp rules ''parallel'' ''true'' \<noteq> 0"
  "pg_strcasecmp rules ''parallel'' ''on'' \<noteq> 0" "pg_strcasecmp rules ''parallel'' ''parallel'' = 0"
proof -
  have low: "ascii_lower c = c" if "97 \<le> uchar c" for c using that by (simp add: ascii_lower_def)
  have h: "\<not> IS_HIGHBIT_SET c" if "uchar c < 128" for c using that by (simp add: IS_HIGHBIT_SET_def)
  show "pg_strcasecmp rules ''on'' ''on'' = 0" "pg_strcasecmp rules ''true'' ''true'' = 0" "pg_strcasecmp rules ''parallel'' ''parallel'' = 0"
    by (simp_all add: strcasecmp_refl)
  show "pg_strcasecmp rules ''on'' ''off'' \<noteq> 0" by (simp add: strcasecmp_step strcasecmp_head low h)
  show "pg_strcasecmp rules ''on'' ''true'' \<noteq> 0" "pg_strcasecmp rules ''on'' ''false'' \<noteq> 0"
    "pg_strcasecmp rules ''parallel'' ''false'' \<noteq> 0" "pg_strcasecmp rules ''parallel'' ''off'' \<noteq> 0" "pg_strcasecmp rules ''parallel'' ''true'' \<noteq> 0"
    "pg_strcasecmp rules ''parallel'' ''on'' \<noteq> 0" by (simp_all add: strcasecmp_head low h)
qed

definition stream_mode :: "Subscription \<Rightarrow> byte" where
  "stream_mode sub = (if sub_stream sub = LOGICALREP_STREAM_PARALLEL then LOGICALREP_STREAM_PARALLEL
     else if sub_stream sub = LOGICALREP_STREAM_OFF then LOGICALREP_STREAM_OFF else LOGICALREP_STREAM_ON)"

definition requested :: "ident_rules \<Rightarrow> Subscription \<Rightarrow> bool \<Rightarrow> PGOutputData" where
  "requested rules sub two_phase_due = zero_output_data\<lparr>po_protocol_version := 4, po_publication_names := sub_publications sub, po_binary := sub_binary sub,
     po_streaming := stream_mode sub, po_two_phase := two_phase_due, po_publish_no_origin := (pg_strcasecmp rules (sub_origin sub) ''none'' = 0)\<rparr>"

lemma parameters_read:
  assumes "160000 \<le> server_version" and "list_all (\<lambda>name. length name < NAMEDATALEN) (sub_publications sub)"
    and "pg_strcasecmp rules (sub_origin sub) ''none'' = 0 \<or> pg_strcasecmp rules (sub_origin sub) ''any'' = 0"
    and options: "options = run_apply_worker_options server_version sub pos due"
  shows "parse_output_parameters rules (map (\<lambda>(name, val). \<lparr>defname = name, de_arg = Some val\<rparr>)
      ((''proto_version'', show_nat (unat (wo_proto_version options))) # further_options server_version options)) zero_output_data =
    Inr (requested rules sub due)"
proof -
  have o: "wo_proto_version options = 4" "wo_publication_names options = sub_publications sub" "wo_binary options = sub_binary sub"
    "wo_streaming_str options = (if sub_stream sub = CHR ''p'' then Some ''parallel'' else if sub_stream sub = CHR ''f'' then None else Some ''on'')"
    "wo_twophase options = due" "wo_origin options = Some (sub_origin sub)"
    using assms(1) by (simp_all add: options run_apply_worker_options_def set_stream_options_def Let_def)
  show ?thesis using assms(1,3) names_read [OF assms(2), of rules]
    by (cases "sub_binary sub"; cases due; cases "sub_stream sub = CHR ''p''"; cases "sub_stream sub = CHR ''f''")
      (auto simp: parse_output_parameters_def further_options_def front_options_def back_options_def o version_read option_simps mode_names
        requested_def stream_mode_def zero_output_data_def)
qed

text \<open>What can be asked for: names as the catalogs hold them, in text that is valid in the encoding of the connection.\<close>

definition subscription_ok :: "client_encoding \<Rightarrow> ident_rules \<Rightarrow> Subscription \<Rightarrow> bool" where
  "subscription_ok enc rules sub \<longleftrightarrow>
     list_all (\<lambda>name. valid_text enc name \<and> length name < NAMEDATALEN) (sub_publications sub) \<and> valid_text enc (identifier_list (sub_publications sub)) \<and>
     DBLQUOTE \<notin> set (sub_slotname sub) \<and> length (sub_slotname sub) < NAMEDATALEN \<and> SQUOTE \<notin> set (sub_origin sub) \<and>
     (pg_strcasecmp rules (sub_origin sub) ''none'' = 0 \<or> pg_strcasecmp rules (sub_origin sub) ''any'' = 0)"

lemma subscription_writable: "subscription_ok enc rules sub \<Longrightarrow> writable enc (run_apply_worker_options server_version sub pos due)"
  by (auto simp: subscription_ok_def writable_def run_apply_worker_options_def set_stream_options_def Let_def list_all_iff split: if_splits)

lemma run_options [simp]:
  "wo_publication_names (run_apply_worker_options server_version sub pos due) = sub_publications sub"
  "wo_slotname (run_apply_worker_options server_version sub pos due) = sub_slotname sub"
  "wo_startpoint (run_apply_worker_options server_version sub pos due) = pos"
  by (simp_all add: run_apply_worker_options_def set_stream_options_def Let_def)

text \<open>Claim C3. The negotiation of a stream: the command that the apply worker writes from its subscription, escaping included, is read by the
  scanner and the grammar of the publisher as the same slot and start position, and the output plugin starts with it: with the
  publications of the subscription in their order, its choice of binary transfer, its streaming mode and its choice of origins, two-phase
  commit exactly if it was due, and nothing cached or sent. The publisher is one of version 16 or later and no publication name
  contains a backslash.\<close>

theorem negotiation:
  assumes "160000 \<le> server_version" and "subscription_ok enc rules sub" and "\<forall>name \<in> set (sub_publications sub). BSLASH \<notin> set name"
    and "ctx_streaming sw" "ctx_twophase sw" and "si_wf (out_buf st)" "RelationSyncCache st = None" "sent_messages st = []"
  shows "\<exists>cmd params sw' st'. startstreaming_command enc server_version (run_apply_worker_options server_version sub pos due) = Inr cmd \<and>
    replication_parse rules cmd = Inr (sub_slotname sub, pos, params) \<and> pgoutput_startup rules params False (sw, st) = Inr (sw', st') \<and>
    plugin_started (sub_publications sub) (sub_binary sub) st' \<and>
    po_streaming (plugin st') = stream_mode sub \<and> (po_publish_no_origin (plugin st') \<longleftrightarrow> pg_strcasecmp rules (sub_origin sub) ''none'' = 0) \<and>
    (ctx_streaming sw' \<longleftrightarrow> stream_mode sub \<noteq> LOGICALREP_STREAM_OFF) \<and> ctx_twophase_opt_given sw' = due"
proof -
  let ?o = "run_apply_worker_options server_version sub pos due"
  let ?params = "map (\<lambda>(name, val). \<lparr>defname = name, de_arg = Some val\<rparr>)
      ((''proto_version'', show_nat (unat (wo_proto_version ?o))) # further_options server_version ?o)"
  have ok: "DBLQUOTE \<notin> set (wo_slotname ?o)" "length (wo_slotname ?o) < NAMEDATALEN" "list_all (\<lambda>name. length name < NAMEDATALEN) (sub_publications sub)"
    "pg_strcasecmp rules (sub_origin sub) ''none'' = 0 \<or> pg_strcasecmp rules (sub_origin sub) ''any'' = 0"
    using assms(2) by (auto simp: subscription_ok_def list_all_iff)
  have "\<forall>name \<in> set (wo_publication_names ?o). BSLASH \<notin> set name" using assms(3) by simp
  from command_parsed [OF subscription_writable [OF assms(2)] this ok(1,2)] obtain cmd where
    "startstreaming_command enc server_version ?o = Inr cmd" "replication_parse rules cmd = Inr (sub_slotname sub, pos, ?params)" by auto
  moreover have "parse_output_parameters rules ?params zero_output_data = Inr (requested rules sub due)"
    by (rule parameters_read [OF assms(1) ok(3,4) refl])
  then have "pgoutput_startup rules ?params False (sw, st) =
      Inr (sw\<lparr>ctx_streaming := (stream_mode sub \<noteq> LOGICALREP_STREAM_OFF), ctx_twophase_opt_given := due\<rparr>,
        init_rel_sync_cache (st\<lparr>plugin := requested rules sub due, publications_valid := False\<rparr>))"
    using assms(4,5) by (cases due) (auto simp: pgoutput_startup_def requested_def startup_streaming_def startup_twophase_def stream_mode_def zero_output_data_def)
  ultimately show ?thesis using assms(4-8)
    by (intro exI conjI) (assumption | simp add: plugin_started_def init_rel_sync_cache_def requested_def zero_output_data_def)+
qed

text \<open>Claim C5. A publication name with a backslash stops the subscription: the command is written, with the list of names as an escape string
  (\<^verbatim>\<open>E'...'\<close>), and the publisher rejects it as a syntax error, since its scanner of replication commands has no escape strings.\<close>

theorem backslash_refused:
  assumes "subscription_ok enc rules sub" and "\<exists>name \<in> set (sub_publications sub). BSLASH \<in> set name"
  shows "\<exists>cmd. startstreaming_command enc server_version (run_apply_worker_options server_version sub pos due) = Inr cmd \<and>
    replication_parse rules cmd = Inl (PgError ''syntax error'')"
  using assms backslash_syntax_error [OF subscription_writable [OF assms(1)], of server_version pos due] by (simp add: subscription_ok_def)

section \<open>What the plugin accepts\<close>

definition known_options :: "cstring list" where
  "known_options = [''proto_version'', ''publication_names'', ''binary'', ''messages'', ''streaming'', ''two_phase'', ''origin'']"

definition given :: "option_flags \<Rightarrow> cstring set" where
  "given fl = {x. if x = ''proto_version'' then protocol_version_given fl else if x = ''publication_names'' then publication_names_given fl
     else if x = ''binary'' then binary_option_given fl else if x = ''messages'' then messages_option_given fl
     else if x = ''streaming'' then streaming_given fl else if x = ''two_phase'' then two_phase_option_given fl
     else if x = ''origin'' then origin_option_given fl else False}"

lemma given_iff [simp]:
  "''proto_version'' \<in> given fl \<longleftrightarrow> protocol_version_given fl" "''publication_names'' \<in> given fl \<longleftrightarrow> publication_names_given fl"
  "''binary'' \<in> given fl \<longleftrightarrow> binary_option_given fl" "''messages'' \<in> given fl \<longleftrightarrow> messages_option_given fl"
  "''streaming'' \<in> given fl \<longleftrightarrow> streaming_given fl" "''two_phase'' \<in> given fl \<longleftrightarrow> two_phase_option_given fl"
  "''origin'' \<in> given fl \<longleftrightarrow> origin_option_given fl"
  by (simp_all add: given_def)

lemma given_insert [simp]:
  "given (fl\<lparr>protocol_version_given := True\<rparr>) = insert ''proto_version'' (given fl)"
  "given (fl\<lparr>publication_names_given := True\<rparr>) = insert ''publication_names'' (given fl)"
  "given (fl\<lparr>binary_option_given := True\<rparr>) = insert ''binary'' (given fl)" "given (fl\<lparr>messages_option_given := True\<rparr>) = insert ''messages'' (given fl)"
  "given (fl\<lparr>streaming_given := True\<rparr>) = insert ''streaming'' (given fl)" "given (fl\<lparr>two_phase_option_given := True\<rparr>) = insert ''two_phase'' (given fl)"
  "given (fl\<lparr>origin_option_given := True\<rparr>) = insert ''origin'' (given fl)"
  by (rule set_eqI, simp add: given_def)+

lemma streaming_mode_values: "defGetStreamingMode rules def = Inr m \<Longrightarrow> m \<in> {LOGICALREP_STREAM_OFF, LOGICALREP_STREAM_ON, LOGICALREP_STREAM_PARALLEL}"
  by (auto simp: defGetStreamingMode_def bindR_eq_Inr_iff split: if_splits)

lemma proto_version_done:
  assumes "proto_version_param defel fl data = Inr (fl', data')"
  shows "\<not> protocol_version_given fl \<and> fl' = fl\<lparr>protocol_version_given := True\<rparr> \<and> (\<exists>v. data' = data\<lparr>po_protocol_version := v\<rparr>)"
proof -
  obtain sval where sval: "strVal defel = Inr sval" using assms by (cases "strVal defel") (auto simp: proto_version_param_def redundant_def split: if_splits)
  obtain parsed endptr erange where "strtoul sval = (parsed, endptr, erange)" by (cases "strtoul sval")
  with assms sval show ?thesis by (auto simp: proto_version_param_def redundant_def split: if_splits)
qed

lemma publication_names_done:
  "publication_names_param rules defel fl data = Inr (fl', data') \<Longrightarrow>
    \<not> publication_names_given fl \<and> fl' = fl\<lparr>publication_names_given := True\<rparr> \<and> (\<exists>ns. data' = data\<lparr>po_publication_names := ns\<rparr>)"
  by (auto simp: publication_names_param_def redundant_def bindR_eq_Inr_iff split: if_splits option.splits)

lemma origin_done:
  "origin_param rules defel fl data = Inr (fl', data') \<Longrightarrow>
    \<not> origin_option_given fl \<and> fl' = fl\<lparr>origin_option_given := True\<rparr> \<and> (\<exists>b. data' = data\<lparr>po_publish_no_origin := b\<rparr>)"
  by (auto simp: origin_param_def redundant_def bindR_eq_Inr_iff split: if_splits)

lemma param_given:
  assumes "parse_param rules defel (fl, data) = Inr (fl', data')"
  shows "defname defel \<in> set known_options" and "defname defel \<notin> given fl" and "given fl' = insert (defname defel) (given fl)"
proof -
  have k: "defname defel \<in> set known_options"
  proof (rule ccontr)
    assume "defname defel \<notin> set known_options"
    then show False using assms by (simp add: parse_param_def known_options_def)
  qed
  then show "defname defel \<in> set known_options" .
  consider "defname defel = ''proto_version''" | "defname defel = ''publication_names''" | "defname defel = ''binary''" | "defname defel = ''messages''"
    | "defname defel = ''streaming''" | "defname defel = ''two_phase''" | "defname defel = ''origin''" using k by (auto simp: known_options_def)
  then have "defname defel \<notin> given fl \<and> given fl' = insert (defname defel) (given fl)"
    by cases (use assms in \<open>auto simp: parse_param_def redundant_def bindR_eq_Inr_iff
      dest!: proto_version_done publication_names_done origin_done split: if_splits\<close>)
  then show "defname defel \<notin> given fl" "given fl' = insert (defname defel) (given fl)" by auto
qed

lemma params_given:
  assumes "parse_params rules options (fl, data) = Inr (fl', data')"
  shows "distinct (map defname options) \<and> set (map defname options) \<subseteq> set known_options \<and> given fl \<inter> set (map defname options) = {} \<and>
    given fl' = given fl \<union> set (map defname options)"
  using assms
proof (induction options arbitrary: fl data)
  case (Cons defel options)
  then obtain fl1 data1 where "parse_param rules defel (fl, data) = Inr (fl1, data1)" "parse_params rules options (fl1, data1) = Inr (fl', data')"
    by (auto simp: bindR_eq_Inr_iff)
  then show ?case using Cons.IH [of fl1 data1] param_given [of rules defel fl data fl1 data1] by auto
qed simp

lemma params_streaming:
  assumes "parse_params rules options (fl, data) = Inr (fl', data')"
    and "po_streaming data \<in> {LOGICALREP_STREAM_OFF, LOGICALREP_STREAM_ON, LOGICALREP_STREAM_PARALLEL}"
  shows "po_streaming data' \<in> {LOGICALREP_STREAM_OFF, LOGICALREP_STREAM_ON, LOGICALREP_STREAM_PARALLEL}"
  using assms
proof (induction options arbitrary: fl data)
  case (Cons defel options)
  then obtain fl1 data1 where p: "parse_param rules defel (fl, data) = Inr (fl1, data1)" "parse_params rules options (fl1, data1) = Inr (fl', data')"
    by (auto simp: bindR_eq_Inr_iff)
  then have "po_streaming data1 = po_streaming data \<or> (\<exists>m. defGetStreamingMode rules defel = Inr m \<and> po_streaming data1 = m)"
    by (auto simp: parse_param_def redundant_def bindR_eq_Inr_iff dest!: proto_version_done publication_names_done origin_done split: if_splits)
  then show ?case using Cons.IH [OF p(2)] Cons.prems(2) streaming_mode_values by metis
qed simp

text \<open>Claim C4. What the plugin accepts at the start of a stream, from any client: the options are distinct and known, version and
  publication names are among them, the version is one of 1 to 4, and streaming, parallel streaming and two-phase commit are only
  switched on from the version of the protocol that has them. Everything else is an error or, for an option without its value, a crash.\<close>

theorem accepted_options:
  assumes "pgoutput_startup rules options False (sw, st) = Inr (sw', st')"
  shows "distinct (map defname options) \<and> set (map defname options) \<subseteq> set known_options \<and>
    ''proto_version'' \<in> set (map defname options) \<and> ''publication_names'' \<in> set (map defname options) \<and>
    po_protocol_version (plugin st') \<in> {1, 2, 3, 4} \<and>
    (ctx_streaming sw' \<longrightarrow> 2 \<le> po_protocol_version (plugin st')) \<and>
    (po_streaming (plugin st') = LOGICALREP_STREAM_PARALLEL \<longrightarrow> po_protocol_version (plugin st') = 4) \<and>
    (ctx_twophase_opt_given sw' \<longrightarrow> 3 \<le> po_protocol_version (plugin st') \<and> ctx_twophase sw)"
proof -
  obtain data where data: "parse_output_parameters rules options zero_output_data = Inr data" "1 \<le> po_protocol_version data" "po_protocol_version data \<le> 4"
    and sw: "bindR (startup_streaming data sw) (startup_twophase data) = Inr sw'" and st': "plugin st' = data\<lparr>po_publications := []\<rparr>"
    using assms by (auto simp: pgoutput_startup_def init_rel_sync_cache_def bindR_eq_Inr_iff not_less word_le_nat_alt word_less_nat_alt split: if_splits)
  obtain fl where p: "parse_params rules options (no_flags,
        zero_output_data\<lparr>po_binary := False, po_streaming := LOGICALREP_STREAM_OFF, po_messages := False, po_two_phase := False\<rparr>) = Inr (fl, data)"
    and fl: "protocol_version_given fl" "publication_names_given fl"
    using data(1) by (auto simp: parse_output_parameters_def bindR_eq_Inr_iff split: if_splits)
  have "given no_flags = {}" by (simp add: given_def no_flags_def)
  with params_given [OF p] fl have "distinct (map defname options)" "set (map defname options) \<subseteq> set known_options"
    "''proto_version'' \<in> set (map defname options)" "''publication_names'' \<in> set (map defname options)" by auto
  moreover have v: "po_protocol_version data \<in> {1, 2, 3, 4}"
  proof -
    have "unat (po_protocol_version data) \<in> {1, 2, 3, 4}" using data(2,3) by (auto simp: word_le_nat_alt)
    then show ?thesis by (auto simp: word_unat_eq_iff)
  qed
  moreover have "po_streaming data \<in> {LOGICALREP_STREAM_OFF, LOGICALREP_STREAM_ON, LOGICALREP_STREAM_PARALLEL}"
    using params_streaming [OF p] by simp
  ultimately show ?thesis using sw st' by (auto simp: startup_streaming_def startup_twophase_def split: if_splits)
qed

text \<open>
  The command of a client that gives an option without a value, behind options \<open>opts\<close> and before
  options \<open>post\<close> that have values.
\<close>

definition valueless_command :: "cstring \<Rightarrow> XLogRecPtr \<Rightarrow> (cstring \<times> cstring) list \<Rightarrow> cstring \<Rightarrow> (cstring \<times> cstring) list \<Rightarrow> cstring" where
  "valueless_command slot pos opts name post = ''START_REPLICATION SLOT '' @ [DBLQUOTE] @ slot @ [DBLQUOTE] @ '' LOGICAL '' @
     show_hex (unat (drop_bit 32 pos)) @ ''/'' @ show_hex (unat (take_bit 32 pos)) @ '' ('' @
     concat (map (\<lambda>opt. option_text opt @ '', '') opts) @ name @ more_options post @ '')''"

definition with_values :: "(cstring \<times> cstring) list \<Rightarrow> DefElem list" where
  "with_values opts = map (\<lambda>(name, val). \<lparr>defname = name, de_arg = Some val\<rparr>) opts"

lemma known_option_name: "name \<in> set known_options \<Longrightarrow> option_name name"
  by (auto simp: known_options_def option_name_def repl_keywords_def)

lemma ends_word_option: "ends_word (more_options post @ '')'')"
  by (cases post) (simp_all add: more_options_def ends_word_def ident_cont_def ident_start_def is_digit_def)

lemma scan_valueless:
  assumes "list_all (\<lambda>(n, val). option_name n) opts" "option_name name" "list_all (\<lambda>(n, val). option_name n) post"
  shows "repl_scan rules (concat (map (\<lambda>opt. option_text opt @ '', '') opts) @ name @ more_options post @ '')'') =
    Inr (concat (map (\<lambda>(n, val). [IDENT n, SCONST val, CHARTOK (CHR '','')]) opts) @ IDENT name # option_tokens post @ [CHARTOK (CHR '')'')])"
  using assms(1)
proof (induction opts)
  case Nil
  note n = option_name_token [OF assms(2)]
  have "repl_scan rules (more_options post @ '')'') = Inr (option_tokens post @ [CHARTOK (CHR '')'')])"
    using scan_more_options [OF assms(3), of "'')''" rules] by (simp add: scan_char scan_end)
  then show ?case using scan_word [OF _ n(2,3) ends_word_option, of rules post] n(1) assms(2) by (simp add: option_name_def)
next
  case (Cons opt opts)
  obtain n val where opt: "opt = (n, val)" by (cases opt)
  let ?rest = "concat (map (\<lambda>opt. option_text opt @ '', '') opts) @ name @ more_options post @ '')''"
  have sp: "scanner_isspace (CHR '' '')" by (simp add: scanner_isspace_def)
  have "repl_scan rules (option_text (n, val) @ CHR '','' # CHR '' '' # ?rest) =
      bindR (repl_scan rules (CHR '','' # CHR '' '' # ?rest)) (\<lambda>toks. Inr (IDENT n # SCONST val # toks))"
    using Cons.prems by (intro scan_option) (simp_all add: opt)
  then show ?case using Cons by (simp add: opt scan_char scan_space [OF sp])
qed

lemma parse_valueless:
  "plugin_opt_list (concat (map (\<lambda>(n, val). [IDENT n, SCONST val, CHARTOK (CHR '','')]) opts) @ IDENT name # option_tokens post @ [CHARTOK (CHR '')'')]) =
     Inr (with_values opts @ \<lparr>defname = name, de_arg = None\<rparr> # with_values post, [CHARTOK (CHR '')'')])"
proof (induction opts)
  case Nil
  show ?case
  proof (cases post)
    case Nil
    then show ?thesis by (simp add: plugin_opt_list.simps plugin_opt_arg_def option_tokens_def with_values_def)
  next
    case (Cons opt post')
    obtain n val where opt: "opt = (n, val)" by (cases opt)
    show ?thesis using parse_options [of n val post' "[]"]
      by (subst plugin_opt_list.simps) (simp add: Cons opt plugin_opt_arg_def option_tokens_def with_values_def)
  qed
next
  case (Cons opt opts)
  then show ?case by (subst plugin_opt_list.simps) (cases opt, simp add: plugin_opt_arg_def with_values_def)
qed

lemma params_append: "parse_params rules (xs @ ys) acc = bindR (parse_params rules xs acc) (parse_params rules ys)"
  by (induction xs arbitrary: acc) (simp_all add: bindR_def split: sum.splits)

lemma valueless_param:
  assumes "name \<in> {''proto_version'', ''publication_names''}"
  shows "parse_param rules \<lparr>defname = name, de_arg = None\<rparr> (fl, data) =
    Inl (if name \<in> given fl then PgError ''conflicting or redundant options'' else Undefined NullPointer)"
proof (cases "name = ''proto_version''")
  case True
  then show ?thesis by (simp add: parse_param_def proto_version_param_def redundant_def strVal_def)
next
  case False
  then have "name = ''publication_names''" using assms by simp
  then show ?thesis by (simp add: parse_param_def publication_names_param_def redundant_def strVal_def)
qed

text \<open>Claim C6. Any replication client can crash the process that serves it: an option \<^verbatim>\<open>proto_version\<close> or \<^verbatim>\<open>publication_names\<close> without a value, behind any
  options that the plugin accepts and before any others, passes the scanner and the grammar for every slot and position, and the plugin
  reads the value through a null pointer. Given for a second time, the option is refused as redundant instead.\<close>

theorem valueless_option_crashes:
  assumes "DBLQUOTE \<notin> set slot" "length slot < NAMEDATALEN" and "name \<in> {''proto_version'', ''publication_names''}"
    and "parse_params rules (with_values opts)
      (no_flags, zero_output_data\<lparr>po_binary := False, po_streaming := LOGICALREP_STREAM_OFF, po_messages := False, po_two_phase := False\<rparr>) = Inr acc"
    and "fst ` set post \<subseteq> set known_options"
  shows "\<exists>params. replication_parse rules (valueless_command slot pos opts name post) = Inr (slot, pos, params) \<and>
    pgoutput_startup rules params False (sw, st) =
      Inl (if name \<in> fst ` set opts then PgError ''conflicting or redundant options'' else Undefined NullPointer)"
proof -
  let ?o = "\<lparr>wo_slotname = slot, wo_startpoint = pos, wo_proto_version = 4, wo_publication_names = [], wo_binary = False, wo_streaming_str = None,
    wo_twophase = False, wo_origin = None\<rparr>"
  let ?params = "with_values opts @ \<lparr>defname = name, de_arg = None\<rparr> # with_values post"
  obtain fl data where acc: "acc = (fl, data)" by (cases acc)
  have names: "map defname (with_values opts) = map fst opts" by (simp add: with_values_def case_prod_beta comp_def)
  have "given no_flags = {}" by (simp add: given_def no_flags_def)
  with params_given [OF assms(4) [unfolded acc]] have known: "fst ` set opts \<subseteq> set known_options" and fl: "given fl = fst ` set opts"
    by (simp_all add: names)
  have ok: "list_all (\<lambda>(n, val). option_name n) opts" "option_name name" "list_all (\<lambda>(n, val). option_name n) post"
    using known assms(3,5) known_option_name option_names(1,2) by (auto simp: list_all_iff)
  have slot: "wo_slotname ?o = slot" "wo_startpoint ?o = pos" by simp_all
  have "valueless_command slot pos opts name post =
      command_head ?o @ concat (map (\<lambda>opt. option_text opt @ '', '') opts) @ name @ more_options post @ '')''"
    by (simp add: valueless_command_def command_head_def)
  then have "repl_scan rules (valueless_command slot pos opts name post) = Inr (KEYWORD ''START_REPLICATION'' # KEYWORD ''SLOT'' # IDENT slot #
      KEYWORD ''LOGICAL'' # RECPTR pos # CHARTOK (CHR ''('') #
      concat (map (\<lambda>(n, val). [IDENT n, SCONST val, CHARTOK (CHR '','')]) opts) @ IDENT name # option_tokens post @ [CHARTOK (CHR '')'')])"
    using scan_head [of ?o, unfolded slot, OF assms(1,2)] scan_valueless [OF ok, of rules] by (simp only: bindR_Inr)
  then have "replication_parse rules (valueless_command slot pos opts name post) = Inr (slot, pos, ?params)"
    by (simp add: replication_parse_def start_logical_replication_def plugin_options_def parse_valueless)
  moreover have "parse_param rules \<lparr>defname = name, de_arg = None\<rparr> (fl, data) =
      Inl (if name \<in> fst ` set opts then PgError ''conflicting or redundant options'' else Undefined NullPointer)"
    using valueless_param [OF assms(3)] fl by simp
  then have "pgoutput_startup rules ?params False (sw, st) =
      Inl (if name \<in> fst ` set opts then PgError ''conflicting or redundant options'' else Undefined NullPointer)"
    using assms(4) by (simp add: pgoutput_startup_def parse_output_parameters_def params_append acc)
  ultimately show ?thesis by blast
qed

section \<open>Witnesses\<close>

definition demo_encoding :: client_encoding where
  "demo_encoding = \<lparr>pg_encoding_mblen = (\<lambda>_. 1), pg_encoding_mblen_or_incomplete = (\<lambda>_. 1), pg_encoding_verifymbstr = length\<rparr>"

definition demo_rules :: ident_rules where
  "demo_rules = \<lparr>pg_mbcliplen = (\<lambda>_. 63), enc_is_single_byte = True, locale_isupper = (\<lambda>_. False), locale_tolower = (\<lambda>c. c)\<rparr>"

text \<open>A subscription to two publications, one with quotes in its name, that asks for streaming and for changes without origin.\<close>

definition asking :: "cstring list \<Rightarrow> Subscription" where
  "asking names = demo_subscription\<lparr>sub_publications := names, sub_binary := True, sub_stream := CHR ''p'', sub_origin := ''NONE''\<rparr>"

definition demo_switches :: decoding_switches where
  "demo_switches = \<lparr>ctx_streaming = True, ctx_twophase = True, ctx_twophase_opt_given = False\<rparr>"

lemma asking_ok:
  "subscription_ok demo_encoding demo_rules (asking [''p'', [CHR ''a'', DBLQUOTE, SQUOTE]])"
  "subscription_ok demo_encoding demo_rules (asking [[CHR ''a'', BSLASH]])"
  by code_simp+

theorem negotiation_witness:
  "\<exists>cmd params sw' st'. startstreaming_command demo_encoding 180000
      (run_apply_worker_options 180000 (asking [''p'', [CHR ''a'', DBLQUOTE, SQUOTE]]) 7 True) = Inr cmd \<and>
    replication_parse demo_rules cmd = Inr (''s'', 7, params) \<and>
    pgoutput_startup demo_rules params False (demo_switches, demo_decoding\<lparr>RelationSyncCache := None\<rparr>) = Inr (sw', st') \<and>
    plugin_started [''p'', [CHR ''a'', DBLQUOTE, SQUOTE]] True st' \<and> po_streaming (plugin st') = CHR ''p'' \<and> po_publish_no_origin (plugin st')"
proof -
  let ?sub = "asking [''p'', [CHR ''a'', DBLQUOTE, SQUOTE]]"
  have st: "si_wf (out_buf (demo_decoding\<lparr>RelationSyncCache := None\<rparr>))" "RelationSyncCache (demo_decoding\<lparr>RelationSyncCache := None\<rparr>) = None"
    "sent_messages (demo_decoding\<lparr>RelationSyncCache := None\<rparr>) = []" using demo_buffer_wf(1) by (simp_all add: demo_decoding_def)
  have sub: "sub_publications ?sub = [''p'', [CHR ''a'', DBLQUOTE, SQUOTE]]" "sub_binary ?sub" "stream_mode ?sub = CHR ''p''" "sub_slotname ?sub = ''s''"
    "pg_strcasecmp demo_rules (sub_origin ?sub) ''none'' = 0" by code_simp+
  have sw: "ctx_streaming demo_switches" "ctx_twophase demo_switches" by (simp_all add: demo_switches_def)
  have "\<forall>name \<in> set (sub_publications ?sub). BSLASH \<notin> set name" by (simp add: sub(1))
  from negotiation [OF _ asking_ok(1) this sw st, of 180000 7 True] sub show ?thesis by auto
qed

theorem backslash_refused_witness:
  "\<exists>cmd. startstreaming_command demo_encoding 180000 (run_apply_worker_options 180000 (asking [[CHR ''a'', BSLASH]]) 7 False) = Inr cmd \<and>
    replication_parse demo_rules cmd = Inl (PgError ''syntax error'')"
  by (rule backslash_refused [OF asking_ok(2)]) (simp add: asking_def)

definition demo_params :: "DefElem list" where
  "demo_params = [\<lparr>defname = ''proto_version'', de_arg = Some ''4''\<rparr>, \<lparr>defname = ''publication_names'', de_arg = Some ''p''\<rparr>,
     \<lparr>defname = ''streaming'', de_arg = None\<rparr>]"

theorem valueless_option_crashes_witness:
  "\<exists>params. replication_parse demo_rules (valueless_command ''s'' 7 [(''proto_version'', ''4'')] ''publication_names'' [(''binary'', ''true'')]) =
      Inr (''s'', 7, params) \<and>
    pgoutput_startup demo_rules params False (demo_switches, demo_decoding) = Inl (Undefined NullPointer)"
proof -
  have four: "strtoul ''4'' = (4, [], False)" by (simp add: strtoul_def scanner_isspace_def is_digit_def number_value_def hexdigit_value_def Let_def)
  obtain acc where acc: "parse_params demo_rules (with_values [(''proto_version'', ''4'')])
      (no_flags, zero_output_data\<lparr>po_binary := False, po_streaming := LOGICALREP_STREAM_OFF, po_messages := False, po_two_phase := False\<rparr>) = Inr acc"
    by (simp add: with_values_def option_simps four)
  show ?thesis using valueless_option_crashes [OF _ _ _ acc, of "''s''" "''publication_names''" "[(''binary'', ''true'')]" 7 demo_switches demo_decoding]
    by (simp add: known_options_def)
qed

theorem accepted_options_witness:
  "\<exists>sw' st'. pgoutput_startup demo_rules demo_params False (demo_switches, demo_decoding) = Inr (sw', st') \<and>
    ctx_streaming sw' \<and> 2 \<le> po_protocol_version (plugin st') \<and> po_protocol_version (plugin st') \<in> {1, 2, 3, 4}"
proof -
  have four: "strtoul ''4'' = (4, [], False)" by (simp add: strtoul_def scanner_isspace_def is_digit_def number_value_def hexdigit_value_def Let_def)
  have p: "SplitIdentifierString demo_rules ''p'' (CHR '','') = Some [''p'']" by code_simp
  obtain sw' st' where s: "pgoutput_startup demo_rules demo_params False (demo_switches, demo_decoding) = Inr (sw', st')" "ctx_streaming sw'"
    by (simp add: pgoutput_startup_def parse_output_parameters_def demo_params_def option_simps four p startup_streaming_def startup_twophase_def
        zero_output_data_def demo_switches_def)
  from accepted_options [OF s(1)] s show ?thesis by blast
qed

end
