(* ===== verification/RowFilter.thy ===== *)
theory RowFilter
  imports PgOutput ProtoRoundtrip
begin

text \<open>
  Row filters of the output plugin: the filters of several publications let a row pass exactly
  when one of the publications does, and a subscriber that plays the filtered changes keeps the
  filtered part of the publisher's table.
\<close>

section \<open>Combined filters\<close>

lemma or_clause_True: "or_clause vs = Some True \<longleftrightarrow> Some True \<in> set vs"
  by (induction vs rule: or_clause.induct) (auto split: option.splits bool.splits)

lemma exec_expr_iff: "pgoutput_row_filter_exec_expr cat filters slot \<longleftrightarrow> (\<exists>f \<in> set filters. ExecEvalExpr cat f slot = Some True)"
proof -
  have "pgoutput_row_filter_exec_expr cat filters slot \<longleftrightarrow> or_clause (map (\<lambda>f. ExecEvalExpr cat f slot) filters) = Some True"
    by (simp add: pgoutput_row_filter_exec_expr_def split: option.splits)
  then show ?thesis unfolding or_clause_True by force
qed

text \<open>What a publication lets pass.\<close>

definition pub_passes :: "'d pub_catalog \<Rightarrow> Oid \<Rightarrow> Publication \<Rightarrow> 'd TupleTableSlot \<Rightarrow> bool" where
  "pub_passes cat relid pub slot = (case pub_filter cat relid pub of None \<Rightarrow> True | Some f \<Rightarrow> ExecEvalExpr cat f slot = Some True)"

text \<open>What the filter of an action lets pass; no filter is no restriction.\<close>

definition passes :: "'d pub_catalog \<Rightarrow> RelationSyncEntry \<Rightarrow> RowFilterPubAction \<Rightarrow> 'd TupleTableSlot \<Rightarrow> bool" where
  "passes cat entry a slot = (case re_exprstate entry a of None \<Rightarrow> True | Some filters \<Rightarrow> pgoutput_row_filter_exec_expr cat filters slot)"

text \<open>
  The loop over the publications: an action is unrestricted when one of the publications seen so
  far is, else its filters are those of the publications that publish it.
\<close>

lemma row_filter_loop_spec:
  assumes "row_filter_loop cat relid pubs no_filter rfnodes = (has_filter, no_filter', rfnodes')"
  shows "(has_filter \<longrightarrow> no_filter' a = (no_filter a \<or> (\<exists>pub \<in> set pubs. publishes (pub_actions pub) a \<and> pub_filter cat relid pub = None)))
    \<and> (\<not> has_filter \<longrightarrow> no_filter a \<or> (\<exists>pub \<in> set pubs. publishes (pub_actions pub) a \<and> pub_filter cat relid pub = None))
    \<and> (has_filter \<longrightarrow> \<not> no_filter' a \<longrightarrow>
         set (rfnodes' a) = set (rfnodes a) \<union> {f. \<exists>pub \<in> set pubs. publishes (pub_actions pub) a \<and> pub_filter cat relid pub = Some f})"
  using assms
proof (induction pubs arbitrary: no_filter rfnodes)
  case (Cons pub pubs)
  show ?case
  proof (cases "pub_filter cat relid pub")
    case None
    let ?nf = "\<lambda>a. no_filter a \<or> publishes (pub_actions pub) a"
    show ?thesis
    proof (cases "?nf PUBACTION_INSERT \<and> ?nf PUBACTION_UPDATE \<and> ?nf PUBACTION_DELETE")
      case True
      then have "?nf a" by (cases a) simp_all
      then show ?thesis using True Cons.prems None by auto
    next
      case False
      then have "row_filter_loop cat relid pubs ?nf rfnodes = (has_filter, no_filter', rfnodes')" using Cons.prems None by (auto simp: Let_def)
      from Cons.IH [OF this] show ?thesis using None by auto
    qed
  next
    case (Some f)
    then show ?thesis using Cons.prems Cons.IH [of no_filter "\<lambda>a. if publishes (pub_actions pub) a \<and> \<not> no_filter a then rfnodes a @ [f] else rfnodes a"]
      by auto
  qed
qed auto

text \<open>Claim C22. The row filters of several publications: for each kind of change, a row passes the filters that the loop over the
  publications has collected (with its early exit and its clearing of lists) exactly when one of the publications that publish
  this kind of change lets it pass, by having no filter for the table or one that evaluates to true; null counts as false.\<close>

theorem row_filters_combined:
  assumes "pgoutput_row_filter_init cat pubs entry = Inr entry'" and "\<forall>a. re_exprstate entry a = None"
    and "\<exists>pub \<in> set pubs. publishes (pub_actions pub) a"
  shows "passes cat entry' a slot \<longleftrightarrow>
    (\<exists>pub \<in> set pubs. publishes (pub_actions pub) a \<and> pub_passes cat (re_publish_as_relid entry) pub slot)"
proof -
  let ?relid = "re_publish_as_relid entry"
  obtain has_filter no_filter rfnodes where l: "row_filter_loop cat ?relid pubs (\<lambda>_. False) (\<lambda>_. []) = (has_filter, no_filter, rfnodes)"
    by (metis prod_cases3)
  note spec = row_filter_loop_spec [OF l, of a]
  show ?thesis
  proof (cases "has_filter \<and> \<not> no_filter a")
    case True
    have e: "re_exprstate entry' a = (if rfnodes a = [] then None else Some (rfnodes a))"
      using assms(1,2) l True by (auto simp: pgoutput_row_filter_init_def bindR_eq_Inr_iff Let_def)
    have fs: "set (rfnodes a) = {f. \<exists>pub \<in> set pubs. publishes (pub_actions pub) a \<and> pub_filter cat ?relid pub = Some f}"
      and all: "\<not> (\<exists>pub \<in> set pubs. publishes (pub_actions pub) a \<and> pub_filter cat ?relid pub = None)"
      using spec True by auto
    have "rfnodes a \<noteq> []" using assms(3) fs all by fastforce
    then have "passes cat entry' a slot \<longleftrightarrow> (\<exists>f \<in> set (rfnodes a). ExecEvalExpr cat f slot = Some True)"
      using e by (simp add: passes_def exec_expr_iff)
    also have "\<dots> \<longleftrightarrow> (\<exists>pub \<in> set pubs. publishes (pub_actions pub) a \<and> pub_passes cat ?relid pub slot)"
      using all unfolding fs pub_passes_def by (fastforce split: option.splits)
    finally show ?thesis .
  next
    case False
    then have "\<exists>pub \<in> set pubs. publishes (pub_actions pub) a \<and> pub_filter cat ?relid pub = None" using spec by auto
    then have "\<exists>pub \<in> set pubs. publishes (pub_actions pub) a \<and> pub_passes cat ?relid pub slot" by (auto simp: pub_passes_def)
    moreover have "re_exprstate entry' a = None"
      using assms(1,2) l False by (auto simp: pgoutput_row_filter_init_def bindR_eq_Inr_iff Let_def split: if_splits)
    ultimately show ?thesis by (simp add: passes_def)
  qed
qed

section \<open>The table of the subscriber\<close>

text \<open>
  Tables as maps from keys to rows. A change concerns the row under its old key, the row under its
  new key, or both.
\<close>

record ('k, 'r) row_change =
  old_key :: 'k
  new_key :: 'k
  new_row :: 'r

fun play :: "ReorderBufferChangeType \<Rightarrow> ('k, 'r) row_change \<Rightarrow> ('k \<rightharpoonup> 'r) \<Rightarrow> ('k \<rightharpoonup> 'r)" where
  "play REORDER_BUFFER_CHANGE_INSERT c tab = tab(new_key c \<mapsto> new_row c)"
| "play REORDER_BUFFER_CHANGE_UPDATE c tab = (tab(old_key c := None))(new_key c \<mapsto> new_row c)"
| "play REORDER_BUFFER_CHANGE_DELETE c tab = tab(old_key c := None)"

definition filtered :: "('r \<Rightarrow> bool) \<Rightarrow> ('k \<rightharpoonup> 'r) \<Rightarrow> ('k \<rightharpoonup> 'r)" where
  "filtered P tab = (\<lambda>k. case tab k of Some r \<Rightarrow> if P r then Some r else None | None \<Rightarrow> None)"

text \<open>A change that can happen to a table: keys stay unique.\<close>

fun possible :: "ReorderBufferChangeType \<Rightarrow> ('k, 'r) row_change \<Rightarrow> ('k \<rightharpoonup> 'r) \<Rightarrow> bool" where
  "possible REORDER_BUFFER_CHANGE_INSERT c tab \<longleftrightarrow> tab (new_key c) = None"
| "possible REORDER_BUFFER_CHANGE_UPDATE c tab \<longleftrightarrow> tab (old_key c) \<noteq> None \<and> (new_key c = old_key c \<or> tab (new_key c) = None)"
| "possible REORDER_BUFFER_CHANGE_DELETE c tab \<longleftrightarrow> tab (old_key c) \<noteq> None"

text \<open>
  The decoded tuples of a change and what the filter says of the rows they stand for. The old tuple
  holds at least the columns the filter may use; an update without an old tuple has not touched
  these columns, and values that the new tuple lacks are in the old one.
\<close>

fun decoded ::
    "'d pub_catalog \<Rightarrow> Relation \<Rightarrow> cstring list \<Rightarrow> ('r \<Rightarrow> bool) \<Rightarrow> ReorderBufferChangeType \<Rightarrow> ('k, 'r) row_change \<Rightarrow> ('k \<rightharpoonup> 'r) \<Rightarrow>
     'd TupleTableSlot option \<Rightarrow> 'd TupleTableSlot option \<Rightarrow> bool" where
  "decoded cat rel fs P REORDER_BUFFER_CHANGE_INSERT c tab old new \<longleftrightarrow>
     old = None \<and> (\<exists>slot. new = Some slot \<and> pgoutput_row_filter_exec_expr cat fs slot = P (new_row c))"
| "decoded cat rel fs P REORDER_BUFFER_CHANGE_DELETE c tab old new \<longleftrightarrow>
     new = None \<and> (\<exists>slot. old = Some slot \<and> pgoutput_row_filter_exec_expr cat fs slot = P (the (tab (old_key c))))"
| "decoded cat rel fs P REORDER_BUFFER_CHANGE_UPDATE c tab old new \<longleftrightarrow>
     (\<exists>slot. new = Some slot \<and>
        (case old of
           None \<Rightarrow> pgoutput_row_filter_exec_expr cat fs slot = P (new_row c) \<and> P (the (tab (old_key c))) = P (new_row c)
         | Some oslot \<Rightarrow> pgoutput_row_filter_exec_expr cat fs oslot = P (the (tab (old_key c))) \<and>
             pgoutput_row_filter_exec_expr cat fs (copy_unchanged (syscat cat) rel oslot slot) = P (new_row c)))"

lemma filtered_insert: "filtered P (tab(k \<mapsto> r)) = (if P r then (filtered P tab)(k \<mapsto> r) else (filtered P tab)(k := None))"
  by (auto simp: filtered_def fun_eq_iff)

lemma filtered_delete: "filtered P (tab(k := None)) = (filtered P tab)(k := None)"
  by (auto simp: filtered_def fun_eq_iff)

lemma filtered_at: "filtered P tab k = (case tab k of Some r \<Rightarrow> if P r then Some r else None | None \<Rightarrow> None)"
  by (simp add: filtered_def)

lemmas view_simps = filtered_insert filtered_delete filtered_at fun_upd_idem

text \<open>Claim C21. Row filters and the table of the subscriber: for a table with one row filter, whatever change happens to it, the
  change that the plugin sends instead (none, the same, an insert for an update that moves a row into the filter, a delete for one
  that moves it out) takes the filtered part of the table before the change to the filtered part after it; a tuple sent as an insert
  passes the filter as it is sent.\<close>

theorem row_filter_keeps_view:
  assumes "\<forall>a. re_exprstate entry a = Some fs" and "possible action c tab" and "decoded cat rel fs P action c tab old new"
  shows "case pgoutput_row_filter cat rel old new entry action of
      None \<Rightarrow> filtered P (play action c tab) = filtered P tab
    | Some (new', action') \<Rightarrow> filtered P (play action c tab) = play action' c (filtered P tab) \<and>
        (action' = REORDER_BUFFER_CHANGE_INSERT \<longrightarrow> (\<exists>slot. new' = Some slot \<and> pgoutput_row_filter_exec_expr cat fs slot))"
proof (cases action)
  case REORDER_BUFFER_CHANGE_INSERT
  then show ?thesis using assms by (auto simp: pgoutput_row_filter_def view_simps)
next
  case REORDER_BUFFER_CHANGE_DELETE
  then show ?thesis using assms by (auto simp: pgoutput_row_filter_def view_simps)
next
  case REORDER_BUFFER_CHANGE_UPDATE
  then obtain slot where new: "new = Some slot" using assms(3) by auto
  obtain r where r: "tab (old_key c) = Some r" using assms(2) REORDER_BUFFER_CHANGE_UPDATE by auto
  have absent: "new_key c \<noteq> old_key c \<Longrightarrow> filtered P tab (new_key c) = None"
    using assms(2) REORDER_BUFFER_CHANGE_UPDATE by (auto simp: filtered_at)
  have old_in: "filtered P tab (old_key c) = (if P r then Some r else None)" using r by (simp add: filtered_at)
  let ?send = "pgoutput_row_filter cat rel old new entry REORDER_BUFFER_CHANGE_UPDATE"
  have view: "filtered P (play action c tab) = (if P (new_row c) then ((filtered P tab)(old_key c := None))(new_key c \<mapsto> new_row c)
      else (filtered P tab)(old_key c := None))"
    using absent REORDER_BUFFER_CHANGE_UPDATE by (cases "new_key c = old_key c") (simp_all add: filtered_insert filtered_delete fun_upd_idem)
  show ?thesis
  proof (cases old)
    case None
    then have "pgoutput_row_filter_exec_expr cat fs slot = P (new_row c)" "P r = P (new_row c)" using assms(3) REORDER_BUFFER_CHANGE_UPDATE new r by auto
    moreover have "?send = (if pgoutput_row_filter_exec_expr cat fs slot then Some (new, REORDER_BUFFER_CHANGE_UPDATE) else None)"
      using assms(1) None new by (simp add: pgoutput_row_filter_def Let_def)
    ultimately show ?thesis using view old_in by (cases "P r") (simp_all add: REORDER_BUFFER_CHANGE_UPDATE fun_upd_idem)
  next
    case (Some oslot)
    let ?tmp = "copy_unchanged (syscat cat) rel oslot slot"
    have "pgoutput_row_filter_exec_expr cat fs oslot = P r" "pgoutput_row_filter_exec_expr cat fs ?tmp = P (new_row c)"
      using assms(3) REORDER_BUFFER_CHANGE_UPDATE new r Some by auto
    then have "?send = (if \<not> P r \<and> \<not> P (new_row c) then None else if \<not> P r then Some (Some ?tmp, REORDER_BUFFER_CHANGE_INSERT)
        else if \<not> P (new_row c) then Some (new, REORDER_BUFFER_CHANGE_DELETE) else Some (new, REORDER_BUFFER_CHANGE_UPDATE))"
      using assms(1) Some new by (simp add: pgoutput_row_filter_def Let_def)
    with view old_in \<open>pgoutput_row_filter_exec_expr cat fs ?tmp = P (new_row c)\<close> show ?thesis
      by (cases "P r"; cases "P (new_row c)") (simp_all add: REORDER_BUFFER_CHANGE_UPDATE fun_upd_idem)
  qed
qed

section \<open>Concrete filters\<close>

text \<open>Two publications of one table: the first publishes everything of the rows ''a'', the second the inserts of the rows ''b''.\<close>

definition demo_filters :: "cstring pub_catalog" where
  "demo_filters = \<lparr>syscat = ProtoRoundtrip.demo_catalog, RelationIdGetRelation = (\<lambda>relid. if relid = 16384 then Some demo_relation else None),
     GetPublicationByName = (\<lambda>_. None), GetRelationPublications = (\<lambda>_. [1, 2]), GetSchemaPublications = (\<lambda>_. []), get_partition_ancestors = (\<lambda>_. []),
     PUBLICATIONRELMAP = (\<lambda>relid pub. Some \<lparr>prqual = Some (if pub = 1 then ''a'' else ''b''), prattrs = None\<rparr>),
     PUBLICATIONNAMESPACEMAP = (\<lambda>_ _. False), ExecEvalExpr = (\<lambda>f slot. Some (hd (tts_values slot) = f)),
     replorigin_by_oid = (\<lambda>_. None), Datum0 = []\<rparr>"

definition demo_filter_pub :: "Oid \<Rightarrow> bool \<Rightarrow> Publication" where
  "demo_filter_pub oid all = \<lparr>pub_oid = oid, pub_name = ''p'', pub_alltables = False, pub_viaroot = False, pub_gencols_type = PUBLISH_GENCOLS_NONE,
     pub_actions = \<lparr>pubinsert = True, pubupdate = all, pubdelete = all, pubtruncate = all\<rparr>\<rparr>"

theorem row_filters_combined_witness:
  "\<exists>entry'. pgoutput_row_filter_init demo_filters [demo_filter_pub 1 True, demo_filter_pub 2 False] (new_entry\<lparr>re_publish_as_relid := 16384\<rparr>) = Inr entry' \<and>
     passes demo_filters entry' PUBACTION_INSERT \<lparr>tts_values = [''b''], tts_isnull = [False]\<rparr> \<and>
     \<not> passes demo_filters entry' PUBACTION_UPDATE \<lparr>tts_values = [''b''], tts_isnull = [False]\<rparr>"
proof -
  let ?pubs = "[demo_filter_pub 1 True, demo_filter_pub 2 False]" and ?e = "new_entry\<lparr>re_publish_as_relid := 16384\<rparr>"
  have f: "pub_filter demo_filters relid (demo_filter_pub oid all) = Some (if oid = 1 then ''a'' else ''b'')" for relid oid all
    by (simp add: pub_filter_def demo_filters_def demo_filter_pub_def)
  obtain entry' where e: "pgoutput_row_filter_init demo_filters ?pubs ?e = Inr entry'"
    using f by (simp add: pgoutput_row_filter_init_def open_relation_def demo_filters_def Let_def)
  have "passes demo_filters entry' a \<lparr>tts_values = [''b''], tts_isnull = [False]\<rparr> \<longleftrightarrow> a = PUBACTION_INSERT" for a
    using row_filters_combined [OF e, of a "\<lparr>tts_values = [''b''], tts_isnull = [False]\<rparr>"] f
    by (cases a) (simp_all add: new_entry_def pub_passes_def, simp_all add: demo_filter_pub_def demo_filters_def)
  with e show ?thesis by auto
qed

theorem row_filter_keeps_view_witness:
  "\<exists>new'. pgoutput_row_filter demo_filters demo_relation (Some \<lparr>tts_values = [''b'', ''x''], tts_isnull = [False, False]\<rparr>)
       (Some \<lparr>tts_values = [''a'', ''x''], tts_isnull = [False, False]\<rparr>) (new_entry\<lparr>re_exprstate := (\<lambda>_. Some [''a''])\<rparr>) REORDER_BUFFER_CHANGE_UPDATE =
       Some (new', REORDER_BUFFER_CHANGE_INSERT) \<and>
     filtered (\<lambda>r. r = ''a'') (play REORDER_BUFFER_CHANGE_UPDATE \<lparr>old_key = 1, new_key = 2, new_row = ''a''\<rparr> [1 \<mapsto> ''b'']) =
       play REORDER_BUFFER_CHANGE_INSERT \<lparr>old_key = 1, new_key = 2, new_row = ''a''\<rparr> (filtered (\<lambda>r. r = ''a'') [1 :: nat \<mapsto> ''b''])"
proof -
  let ?c = "\<lparr>old_key = 1 :: nat, new_key = 2, new_row = ''a''\<rparr>" and ?tab = "[1 :: nat \<mapsto> ''b'']"
  let ?old = "\<lparr>tts_values = [''b'', ''x''], tts_isnull = [False, False]\<rparr>" and ?new = "\<lparr>tts_values = [''a'', ''x''], tts_isnull = [False, False]\<rparr>"
  let ?e = "new_entry\<lparr>re_exprstate := (\<lambda>_. Some [''a''])\<rparr>"
  have copy: "copy_unchanged (syscat demo_filters) demo_relation ?old ?new = ?new"
    by (simp add: copy_unchanged_def demo_filters_def ProtoRoundtrip.demo_catalog_def demo_relation_def)
  have e: "\<forall>a. re_exprstate ?e a = Some [''a'']" by simp
  have p: "possible REORDER_BUFFER_CHANGE_UPDATE ?c ?tab" by simp
  have d: "decoded demo_filters demo_relation [''a''] (\<lambda>r. r = ''a'') REORDER_BUFFER_CHANGE_UPDATE ?c ?tab (Some ?old) (Some ?new)"
    using copy by (simp add: exec_expr_iff) (simp add: demo_filters_def)
  have s: "pgoutput_row_filter demo_filters demo_relation (Some ?old) (Some ?new) ?e REORDER_BUFFER_CHANGE_UPDATE = Some (Some ?new, REORDER_BUFFER_CHANGE_INSERT)"
    using copy by (simp add: pgoutput_row_filter_def exec_expr_iff Let_def) (simp add: demo_filters_def)
  from row_filter_keeps_view [OF e p d] have
    "filtered (\<lambda>r. r = ''a'') (play REORDER_BUFFER_CHANGE_UPDATE ?c ?tab) = play REORDER_BUFFER_CHANGE_INSERT ?c (filtered (\<lambda>r. r = ''a'') ?tab)"
    unfolding s by simp
  with s show ?thesis by blast
qed

end
