(* ===== verification/CopyInput.thy ===== *)
theory CopyInput
  imports CopyText
begin

text \<open>
  How the subscriber reads the lines of a COPY (\<^verbatim>\<open>src/backend/commands/copyfromparse.c\<close>): messages
  of any size arrive from the publisher, are copied into a buffer of 64 KB
  (\<^verbatim>\<open>copy_read_data\<close> of \<^verbatim>\<open>tablesync.c\<close>), checked against the encoding, and searched for
  the end of the line, which may need characters that have not arrived yet. The main result
  is that the lines do not depend on where the messages end. Modelled is the text format
  without conversion of the encoding, in which \<^verbatim>\<open>raw_buf\<close> and \<^verbatim>\<open>input_buf\<close> are one buffer
  and \<^verbatim>\<open>raw_buf_index\<close> follows \<^verbatim>\<open>input_buf_index\<close>.
\<close>

section \<open>State\<close>

datatype EolType = EOL_UNKNOWN | EOL_NL | EOL_CR | EOL_CRNL

text \<open>
  \<open>raw_buf\<close> are the first \<^verbatim>\<open>raw_buf_len\<close> bytes of the buffer; a terminator follows them.
  \<open>copybuf\<close> is the unread part of the last message and \<open>incoming\<close> what will arrive, where an
  empty entry is a wait and the end of the list the end of the COPY.
\<close>

record copy_input =
  raw_buf :: "byte list"
  input_buf_len :: nat
  input_buf_index :: nat
  raw_reached_eof :: bool
  input_reached_eof :: bool
  input_reached_error :: bool
  copybuf :: "byte list"
  incoming :: "byte list list"
  eol_type :: EolType
  line_buf :: StringInfoData

text \<open>The encoding: how many leading bytes are valid complete characters, and the longest character.\<close>

record encoding =
  verifymbstr :: "byte list \<Rightarrow> nat"
  max_length :: nat

definition RAW_BUF_SIZE :: nat where
  "RAW_BUF_SIZE = 65536"

definition INPUT_BUF_BYTES :: "copy_input \<Rightarrow> nat" where
  "INPUT_BUF_BYTES st = input_buf_len st - input_buf_index st"

section \<open>Filling the buffer\<close>

text \<open>The receiving loop: \<open>out\<close> is what it has stored, \<open>bytesread\<close> counts the leftover too.\<close>

fun receive_loop ::
    "nat \<Rightarrow> nat \<Rightarrow> byte list \<Rightarrow> nat \<Rightarrow> byte list \<Rightarrow> byte list list \<Rightarrow> byte list \<times> nat \<times> byte list \<times> byte list list" where
  "receive_loop minread maxread out bytesread cb [] = (out, bytesread, cb, [])"
| "receive_loop minread maxread out bytesread cb (buf # rest) =
     (if maxread = 0 \<or> bytesread \<ge> minread then (out, bytesread, cb, buf # rest)
      else if buf = [] then receive_loop minread maxread out bytesread cb rest
      else
        let avail = min (length buf) maxread
        in receive_loop minread (maxread - avail) (out @ take avail buf) (bytesread + avail) (drop avail buf) rest)"

text \<open>
  The leftover of the last message is stored first. The C code does not move \<^verbatim>\<open>outbuf\<close> behind
  it: a message received in the same call would overwrite it.
\<close>

definition copy_read_data :: "nat \<Rightarrow> nat \<Rightarrow> copy_input \<Rightarrow> byte list \<times> nat \<times> copy_input" where
  "copy_read_data minread maxread st =
     (let avail = min (length (copybuf st)) maxread;
          (out, bytesread, cb, inc) = receive_loop minread (maxread - avail) [] avail (drop avail (copybuf st)) (incoming st)
      in (out @ drop (length out) (take avail (copybuf st)), bytesread, st\<lparr>copybuf := cb, incoming := inc\<rparr>))"

definition CopyConvertBuf :: "encoding \<Rightarrow> copy_input \<Rightarrow> copy_input" where
  "CopyConvertBuf enc st =
     (let unverifiedlen = length (raw_buf st) - input_buf_len st
      in if unverifiedlen = 0 then (if raw_reached_eof st then st\<lparr>input_reached_eof := True\<rparr> else st)
         else
           let nverified = verifymbstr enc (drop (input_buf_len st) (raw_buf st))
           in if nverified = 0 then
                (if raw_reached_eof st \<or> unverifiedlen \<ge> max_length enc then st\<lparr>input_reached_error := True\<rparr> else st)
              else st\<lparr>input_buf_len := input_buf_len st + nverified\<rparr>)"

text \<open>Move what is left to the front of the buffer and load at least one byte behind it.\<close>

definition CopyLoadRawBuf :: "copy_input \<Rightarrow> copy_input" where
  "CopyLoadRawBuf st =
     (let kept = drop (input_buf_index st) (raw_buf st);
          (bytes, inbytes, st') = copy_read_data 1 (RAW_BUF_SIZE - length kept) st;
          st' = st'\<lparr>raw_buf := kept @ take inbytes bytes, input_buf_len := input_buf_len st - input_buf_index st,
                    input_buf_index := 0\<rparr>
      in if inbytes = 0 then st'\<lparr>raw_reached_eof := True\<rparr> else st')"

text \<open>What is still to come, for the termination of the loops.\<close>

definition source_size :: "copy_input \<Rightarrow> nat" where
  "source_size st = length (copybuf st) + sum_list (map (\<lambda>m. Suc (length m)) (incoming st)) + (if raw_reached_eof st then 0 else 1)"

definition unverified :: "copy_input \<Rightarrow> nat" where
  "unverified st = length (raw_buf st) - input_buf_len st"

lemma receive_loop_size:
  "receive_loop minread maxread out bytesread cb inc = (out', n, cb', inc') \<Longrightarrow>
   length cb' + sum_list (map (\<lambda>m. Suc (length m)) inc') \<le> length cb + sum_list (map (\<lambda>m. Suc (length m)) inc) \<and>
   bytesread \<le> n \<and> n + length out = bytesread + length out' \<and>
   (n \<noteq> bytesread \<longrightarrow> length cb' + sum_list (map (\<lambda>m. Suc (length m)) inc') < sum_list (map (\<lambda>m. Suc (length m)) inc))"
  by (induction minread maxread out bytesread cb inc rule: receive_loop.induct)
    (fastforce simp: Let_def split: if_splits)+

lemma CopyLoadRawBuf_size:
  "source_size (CopyLoadRawBuf st) < source_size st \<or>
   (raw_reached_eof st \<and> source_size (CopyLoadRawBuf st) = source_size st \<and>
    raw_buf (CopyLoadRawBuf st) = drop (input_buf_index st) (raw_buf st) \<and>
    input_buf_len (CopyLoadRawBuf st) = input_buf_len st - input_buf_index st \<and> input_buf_index (CopyLoadRawBuf st) = 0)"
proof -
  let ?max = "RAW_BUF_SIZE - length (drop (input_buf_index st) (raw_buf st))"
  define avail where "avail = min (length (copybuf st)) ?max"
  obtain out n cb inc where r:
    "receive_loop 1 (?max - avail) [] avail (drop avail (copybuf st)) (incoming st) = (out, n, cb, inc)"
    by (cases "receive_loop 1 (?max - avail) [] avail (drop avail (copybuf st)) (incoming st)")
  from receive_loop_size [OF r] have n: "n = avail + length out"
    and s: "length cb + sum_list (map (\<lambda>m. Suc (length m)) inc) \<le> length (copybuf st) - avail + sum_list (map (\<lambda>m. Suc (length m)) (incoming st))"
    by auto
  from receive_loop_size [OF r] have s': "n \<noteq> avail \<Longrightarrow>
      length cb + sum_list (map (\<lambda>m. Suc (length m)) inc) < sum_list (map (\<lambda>m. Suc (length m)) (incoming st))"
    by auto
  have "CopyLoadRawBuf st = (let st' = st\<lparr>copybuf := cb, incoming := inc,
      raw_buf := drop (input_buf_index st) (raw_buf st) @ take n (out @ drop (length out) (take avail (copybuf st))),
      input_buf_len := input_buf_len st - input_buf_index st, input_buf_index := 0\<rparr>
      in if n = 0 then st'\<lparr>raw_reached_eof := True\<rparr> else st')"
    using r by (simp add: CopyLoadRawBuf_def copy_read_data_def avail_def Let_def split: prod.splits)
  moreover have "avail \<le> length (copybuf st)" by (simp add: avail_def)
  ultimately show ?thesis using n s s' by (cases "avail = 0"; cases "n = 0") (auto simp: source_size_def Let_def)
qed

lemma CopyConvertBuf_simps [simp]:
  "raw_buf (CopyConvertBuf enc st) = raw_buf st" "input_buf_index (CopyConvertBuf enc st) = input_buf_index st"
  "raw_reached_eof (CopyConvertBuf enc st) = raw_reached_eof st" "copybuf (CopyConvertBuf enc st) = copybuf st"
  "incoming (CopyConvertBuf enc st) = incoming st" "eol_type (CopyConvertBuf enc st) = eol_type st"
  "line_buf (CopyConvertBuf enc st) = line_buf st" "source_size (CopyConvertBuf enc st) = source_size st"
  by (simp_all add: CopyConvertBuf_def source_size_def Let_def)

lemma CopyConvertBuf_unverified:
  "unverified (CopyConvertBuf enc st) < unverified st \<or>
   (input_buf_len (CopyConvertBuf enc st) = input_buf_len st \<and> unverified (CopyConvertBuf enc st) = unverified st \<and>
    (raw_reached_eof st \<longrightarrow> input_reached_eof (CopyConvertBuf enc st) \<or> input_reached_error (CopyConvertBuf enc st)))"
  by (auto simp: CopyConvertBuf_def unverified_def Let_def)

text \<open>At the end of the data, or as soon as there is more than before, the loop stops.\<close>

function load_loop :: "encoding \<Rightarrow> nat \<Rightarrow> copy_input \<Rightarrow> copy_input res" where
  "load_loop enc nbytes st =
     (let st = CopyConvertBuf enc st
      in if INPUT_BUF_BYTES st > nbytes then Inr st
         else if input_reached_error st then Inl (PgError ''invalid byte sequence for encoding'')
         else if input_reached_eof st then Inr st
         else load_loop enc nbytes (CopyLoadRawBuf st))"
  by pat_completeness auto

termination
proof (relation "measures [\<lambda>(enc, nbytes, st). source_size st, \<lambda>(enc, nbytes, st). unverified st]", goal_cases)
  case (2 enc nbytes st st')
  have "unverified (CopyLoadRawBuf st') \<le> unverified st'"
    if "\<not> source_size (CopyLoadRawBuf st') < source_size st'"
    using CopyLoadRawBuf_size [of st'] that by (auto simp: unverified_def)
  then show ?case
    using 2 CopyLoadRawBuf_size [of st'] CopyConvertBuf_unverified [of enc st]
    by (auto simp del: not_less)
qed simp

declare load_loop.simps [simp del]

definition CopyLoadInputBuf :: "encoding \<Rightarrow> copy_input \<Rightarrow> copy_input res" where
  "CopyLoadInputBuf enc st = load_loop enc (INPUT_BUF_BYTES st) st"

lemma load_loop_progress:
  "load_loop enc nbytes st = Inr st' \<Longrightarrow>
   source_size st' < source_size st \<or>
   (source_size st' = source_size st \<and> unverified st' < unverified st) \<or>
   (source_size st' = source_size st \<and> unverified st' = unverified st \<and> st' = CopyConvertBuf enc st \<and>
    input_buf_len st' = input_buf_len st \<and> (nbytes < INPUT_BUF_BYTES st' \<or> input_reached_eof st'))"
proof (induction enc nbytes st rule: load_loop.induct)
  case (1 enc nbytes st)
  let ?st = "CopyConvertBuf enc st"
  consider "st' = ?st" "nbytes < INPUT_BUF_BYTES st' \<or> input_reached_eof st'" | "\<not> input_reached_eof ?st" "\<not> input_reached_error ?st" "\<not> INPUT_BUF_BYTES ?st > nbytes"
      "load_loop enc nbytes (CopyLoadRawBuf ?st) = Inr st'"
    using "1.prems" by (subst (asm) load_loop.simps) (auto simp: Let_def split: if_splits)
  then show ?case
  proof cases
    case 1
    then show ?thesis using CopyConvertBuf_unverified [of enc st] by auto
  next
    case 2
    have ih: "source_size st' < source_size (CopyLoadRawBuf ?st) \<or>
        source_size st' = source_size (CopyLoadRawBuf ?st) \<and> unverified st' \<le> unverified (CopyLoadRawBuf ?st)"
      using "1.IH" [OF refl] 2 by auto
    show ?thesis
    proof (cases "source_size (CopyLoadRawBuf ?st) < source_size ?st")
      case True
      with ih show ?thesis by auto
    next
      case False
      with CopyLoadRawBuf_size [of ?st] have eof: "raw_reached_eof st" "source_size (CopyLoadRawBuf ?st) = source_size st"
          "unverified (CopyLoadRawBuf ?st) \<le> unverified ?st" by (auto simp: unverified_def)
      with CopyConvertBuf_unverified [of enc st] 2 have "unverified ?st < unverified st" by auto
      with ih eof show ?thesis by auto
    qed
  qed
qed

section \<open>Finding the end of a line\<close>

text \<open>The bytes between \<^verbatim>\<open>input_buf_index\<close> and \<open>ptr\<close> belong to the line: move them there.\<close>

definition REFILL_LINEBUF :: "nat \<Rightarrow> copy_input \<Rightarrow> copy_input res" where
  "REFILL_LINEBUF ptr st =
     (if ptr > input_buf_index st then
        bindR (appendBinaryStringInfo (take (ptr - input_buf_index st) (drop (input_buf_index st) (raw_buf st))) (line_buf st)) (\<lambda>l.
        Inr (st\<lparr>line_buf := l, input_buf_index := ptr\<rparr>))
      else Inr st)"

text \<open>The buffer has a terminator behind its last byte.\<close>

definition buf_at :: "copy_input \<Rightarrow> nat \<Rightarrow> byte res" where
  "buf_at st i =
     (if i < length (raw_buf st) then Inr (raw_buf st ! i) else if i = length (raw_buf st) then Inr NUL
      else Inl (Undefined OutOfBounds))"

text \<open>What looking at one character leads to: load more first, go on at a position, or stop there.\<close>

datatype line_move = Refill | Go nat | Finish bool nat

definition need_more :: "copy_input \<Rightarrow> bool \<Rightarrow> nat \<Rightarrow> bool" where
  "need_more st hit_eof ptr \<longleftrightarrow> ptr \<ge> input_buf_len st \<and> \<not> hit_eof"

text \<open>The end-of-copy marker, behind its dot at \<open>ptr\<close>; \<open>prev\<close> is where it starts.\<close>

definition end_marker_tail :: "copy_input \<Rightarrow> bool \<Rightarrow> nat \<Rightarrow> nat \<Rightarrow> (line_move \<times> copy_input) res" where
  "end_marker_tail st hit_eof prev ptr =
     (if need_more st hit_eof ptr then Inr (Refill, st)
      else
        bindR (buf_at st ptr) (\<lambda>c2.
        if c2 \<noteq> CR \<and> c2 \<noteq> LF then Inl (PgError ''end-of-copy marker is not alone on its line'')
        else if (eol_type st = EOL_NL \<and> c2 \<noteq> LF) \<or> (eol_type st = EOL_CRNL \<and> c2 \<noteq> LF) \<or> (eol_type st = EOL_CR \<and> c2 \<noteq> CR)
        then Inl (PgError ''end-of-copy marker does not match previous newline style'')
        else if si_len (line_buf st) > 0 \<or> prev > input_buf_index st
        then Inl (PgError ''end-of-copy marker is not alone on its line'')
        else Inr (Finish True (ptr + 1), st\<lparr>input_buf_index := ptr + 1\<rparr>)))"

definition end_marker :: "copy_input \<Rightarrow> bool \<Rightarrow> nat \<Rightarrow> nat \<Rightarrow> (line_move \<times> copy_input) res" where
  "end_marker st hit_eof prev ptr =
     (if eol_type st = EOL_CRNL then
        (if need_more st hit_eof ptr then Inr (Refill, st)
         else
           bindR (buf_at st ptr) (\<lambda>c2.
           if c2 = LF then Inl (PgError ''end-of-copy marker does not match previous newline style'')
           else if c2 \<noteq> CR then Inl (PgError ''end-of-copy marker is not alone on its line'')
           else end_marker_tail st hit_eof prev (ptr + 1)))
      else end_marker_tail st hit_eof prev ptr)"

definition line_step :: "copy_input \<Rightarrow> nat \<Rightarrow> bool \<Rightarrow> (line_move \<times> copy_input) res" where
  "line_step st prev hit_eof =
     bindR (buf_at st prev) (\<lambda>c.
     let ptr = prev + 1
     in if c = CR then
          (if eol_type st = EOL_UNKNOWN \<or> eol_type st = EOL_CRNL then
             (if need_more st hit_eof ptr then Inr (Refill, st)
              else
                bindR (buf_at st ptr) (\<lambda>c1.
                if c1 = LF then Inr (Finish False (ptr + 1), st\<lparr>eol_type := EOL_CRNL\<rparr>)
                else if eol_type st = EOL_CRNL then Inl (PgError ''literal carriage return found in data'')
                else Inr (Finish False ptr, st\<lparr>eol_type := EOL_CR\<rparr>)))
           else if eol_type st = EOL_NL then Inl (PgError ''literal carriage return found in data'')
           else Inr (Finish False ptr, st))
        else if c = LF then
          (if eol_type st = EOL_CR \<or> eol_type st = EOL_CRNL then Inl (PgError ''literal newline found in data'')
           else Inr (Finish False ptr, st\<lparr>eol_type := EOL_NL\<rparr>))
        else if c = BSLASH then
          (if need_more st hit_eof ptr then Inr (Refill, st)
           else if ptr \<ge> input_buf_len st then Inr (Finish True ptr, st)
           else
             bindR (buf_at st ptr) (\<lambda>c2.
             if c2 = CHR ''.'' then end_marker st hit_eof prev (ptr + 1) else Inr (Go (ptr + 1), st)))
        else Inr (Go ptr, st))"

text \<open>One turn of the loop reloads when the buffer is exhausted or \<^verbatim>\<open>need_data\<close> is set.\<close>

definition line_load :: "encoding \<Rightarrow> copy_input \<Rightarrow> nat \<Rightarrow> bool \<Rightarrow> bool \<Rightarrow> (copy_input \<times> nat \<times> bool) res" where
  "line_load enc st ptr need_data hit_eof =
     (if ptr \<ge> input_buf_len st \<or> need_data then
        bindR (REFILL_LINEBUF ptr st) (\<lambda>st.
        bindR (CopyLoadInputBuf enc st) (\<lambda>st.
        Inr (st, input_buf_index st, input_reached_eof st)))
      else Inr (st, ptr, hit_eof))"

lemma REFILL_LINEBUF_keeps:
  assumes "REFILL_LINEBUF ptr st = Inr st'"
  shows "raw_buf st' = raw_buf st" "input_buf_len st' = input_buf_len st" "input_buf_index st' = max ptr (input_buf_index st)"
    "source_size st' = source_size st" "unverified st' = unverified st"
  using assms by (auto simp: REFILL_LINEBUF_def bindR_eq_Inr_iff source_size_def unverified_def max_def split: if_splits)

lemma line_step_Refill: "line_step st prev hit_eof = Inr (Refill, st') \<Longrightarrow> \<not> hit_eof \<and> st' = st"
  by (auto simp: line_step_def end_marker_def end_marker_tail_def need_more_def Let_def bindR_eq_Inr_iff split: if_splits)

lemma line_step_Go: "line_step st prev hit_eof = Inr (Go ptr, st') \<Longrightarrow> prev < ptr \<and> st' = st"
  by (auto simp: line_step_def end_marker_def end_marker_tail_def need_more_def Let_def bindR_eq_Inr_iff split: if_splits)

definition line_progress :: "(copy_input \<times> nat \<times> bool) rel" where
  "line_progress = inv_image (less_than <*lex*> less_than <*lex*> less_than <*lex*> less_than)
     (\<lambda>(st, ptr, need_data). (source_size st, unverified st, input_buf_len st - ptr, if need_data then 0 else 1))"

lemma wf_line_progress: "wf line_progress"
  unfolding line_progress_def by (intro wf_inv_image wf_lex_prod wf_less_than)

lemma line_load_progress:
  assumes "line_load enc st ptr need_data hit_eof = Inr (st', ptr', hit_eof')"
  shows "(\<forall>p n. ((st', p, n), st, ptr, need_data) \<in> line_progress) \<or>
    (source_size st' = source_size st \<and> unverified st' = unverified st \<and> input_buf_len st' = input_buf_len st \<and> ptr \<le> ptr' \<and>
     (need_data \<longrightarrow> hit_eof'))"
proof (cases "ptr \<ge> input_buf_len st \<or> need_data")
  case True
  then obtain st1 where st1: "REFILL_LINEBUF ptr st = Inr st1" "CopyLoadInputBuf enc st1 = Inr st'"
      and p: "ptr' = input_buf_index st'" "hit_eof' = input_reached_eof st'"
    using assms by (auto simp: line_load_def bindR_eq_Inr_iff)
  have "source_size st' < source_size st \<or> source_size st' = source_size st \<and> unverified st' < unverified st \<or>
      source_size st' = source_size st \<and> unverified st' = unverified st \<and> st' = CopyConvertBuf enc st1 \<and>
      input_buf_len st' = input_buf_len st1 \<and> (INPUT_BUF_BYTES st1 < INPUT_BUF_BYTES st' \<or> input_reached_eof st')"
    using load_loop_progress [OF st1(2) [unfolded CopyLoadInputBuf_def]] REFILL_LINEBUF_keeps [OF st1(1)] by auto
  moreover have "\<not> INPUT_BUF_BYTES st1 < INPUT_BUF_BYTES (CopyConvertBuf enc st1)"
    if "input_buf_len (CopyConvertBuf enc st1) = input_buf_len st1"
    using that by (simp add: INPUT_BUF_BYTES_def)
  ultimately show ?thesis using REFILL_LINEBUF_keeps [OF st1(1)] by (auto simp: line_progress_def p)
next
  case False
  then show ?thesis using assms by (auto simp: line_load_def)
qed

function line_loop :: "encoding \<Rightarrow> copy_input \<Rightarrow> nat \<Rightarrow> bool \<Rightarrow> bool \<Rightarrow> (bool \<times> copy_input) res" where
  "line_loop enc st ptr need_data hit_eof =
     bindR (line_load enc st ptr need_data hit_eof) (\<lambda>(st, ptr, hit_eof).
     if input_buf_len st \<le> ptr then bindR (REFILL_LINEBUF ptr st) (\<lambda>st. Inr (True, st))
     else
       bindR (line_step st ptr hit_eof) (\<lambda>(r, st).
       case r of Refill \<Rightarrow> line_loop enc st ptr True hit_eof
       | Go ptr \<Rightarrow> line_loop enc st ptr False hit_eof
       | Finish result ptr \<Rightarrow> bindR (REFILL_LINEBUF ptr st) (\<lambda>st. Inr (result, st))))"
  by pat_completeness auto

termination
proof (relation "inv_image line_progress (\<lambda>(enc, st, ptr, need_data, hit_eof). (st, ptr, need_data))", goal_cases)
  case 1
  then show ?case by (simp add: wf_line_progress)
next
  case (2 enc st ptr need_data hit_eof x st1 y ptr1 hit1 z r st2)
  then show ?case
    using line_load_progress [of enc st ptr need_data hit_eof st1 ptr1 hit1] line_step_Refill [of st1 ptr1 hit1 st2]
    by (auto simp: line_progress_def)
next
  case (3 enc st ptr need_data hit_eof x st1 y ptr1 hit1 z r st2 ptr2)
  then show ?case
    using line_load_progress [of enc st ptr need_data hit_eof st1 ptr1 hit1] line_step_Go [of st1 ptr1 hit1 ptr2 st2]
    by (auto simp: line_progress_def)
qed

declare line_loop.simps [simp del]

definition CopyReadLineText :: "encoding \<Rightarrow> copy_input \<Rightarrow> (bool \<times> copy_input) res" where
  "CopyReadLineText enc st = line_loop enc st (input_buf_index st) False False"

text \<open>
  The line without its end. The source is a callback, so nothing is skipped behind an
  end-of-copy marker.
\<close>

definition strip_eol :: "EolType \<Rightarrow> StringInfoData \<Rightarrow> StringInfoData res" where
  "strip_eol eol l =
     (let n = (case eol of EOL_NL \<Rightarrow> 1 | EOL_CR \<Rightarrow> 1 | EOL_CRNL \<Rightarrow> 2 | EOL_UNKNOWN \<Rightarrow> 0)
      in if n = 0 then Inr l
         else if si_len l < n then Inl (Undefined OutOfBounds)
         else bindR (mem_write (si_data l) (si_len l - n) [NUL]) (\<lambda>d. Inr (l\<lparr>si_data := d, si_len := si_len l - n\<rparr>)))"

definition CopyReadLine :: "encoding \<Rightarrow> copy_input \<Rightarrow> (bool \<times> copy_input) res" where
  "CopyReadLine enc st =
     bindR (resetStringInfo (line_buf st)) (\<lambda>l.
     bindR (CopyReadLineText enc (st\<lparr>line_buf := l\<rparr>)) (\<lambda>(result, st).
     if result then Inr (result, st)
     else bindR (strip_eol (eol_type st) (line_buf st)) (\<lambda>l. Inr (result, st\<lparr>line_buf := l\<rparr>))))"

section \<open>The lines do not depend on the messages\<close>

text \<open>The bytes still to be read, and the longest run of characters among the first of them.\<close>

definition stream :: "copy_input \<Rightarrow> byte list" where
  "stream st = drop (input_buf_index st) (raw_buf st) @ copybuf st @ concat (incoming st)"

fun whole :: "nat \<Rightarrow> byte list list \<Rightarrow> byte list list" where
  "whole n [] = []"
| "whole n (c # cs) = (if length c \<le> n then c # whole (n - length c) cs else [])"

text \<open>
  The contract of an encoding on a text: it is a sequence of characters, none longer than the
  maximum, and of a part that starts at a character the check accepts the complete characters.
\<close>

definition chars_ok :: "encoding \<Rightarrow> byte list list \<Rightarrow> bool" where
  "chars_ok enc cs \<longleftrightarrow> (\<forall>c \<in> set cs. c \<noteq> [] \<and> length c \<le> max_length enc) \<and>
     (\<forall>m n. n \<le> length (concat (drop m cs)) \<longrightarrow>
        verifymbstr enc (take n (concat (drop m cs))) = length (concat (whole n (drop m cs))))"

definition copy_wf :: "encoding \<Rightarrow> copy_input \<Rightarrow> bool" where
  "copy_wf enc st \<longleftrightarrow>
     input_buf_index st \<le> input_buf_len st \<and> input_buf_len st \<le> length (raw_buf st) \<and> length (raw_buf st) \<le> RAW_BUF_SIZE \<and>
     si_wf (line_buf st) \<and> \<not> input_reached_error st \<and> max_length enc + 3 \<le> RAW_BUF_SIZE \<and>
     (input_reached_eof st \<longrightarrow> raw_reached_eof st \<and> input_buf_len st = length (raw_buf st)) \<and>
     (raw_reached_eof st \<longrightarrow> copybuf st = [] \<and> concat (incoming st) = []) \<and>
     (\<exists>cs. chars_ok enc cs \<and> drop (input_buf_len st) (raw_buf st) @ copybuf st @ concat (incoming st) = concat cs)"

lemma whole_append: "whole n cs @ drop (length (whole n cs)) cs = cs"
  by (induction n cs rule: whole.induct) auto

lemma concat_whole: "concat (whole n cs) @ concat (drop (length (whole n cs)) cs) = concat cs"
  using whole_append [of n cs] by (metis concat_append)

lemma length_whole: "length (concat (whole n cs)) \<le> n"
  by (induction n cs rule: whole.induct) auto

lemma chars_ok_drop: "chars_ok enc cs \<Longrightarrow> chars_ok enc (drop m cs)"
  unfolding chars_ok_def by (auto dest: in_set_dropD simp: drop_drop)

lemma receive_loop_enough [simp]: "minread \<le> n \<Longrightarrow> receive_loop minread maxread out n cb inc = (out, n, cb, inc)"
  by (cases inc) simp_all

lemma receive_loop_first:
  "receive_loop 1 maxread [] 0 [] inc = (out, n, cb, inc') \<Longrightarrow> 0 < maxread \<Longrightarrow>
   out @ cb @ concat inc' = concat inc \<and> n = length out \<and> n \<le> maxread \<and> (n = 0 \<longrightarrow> concat inc = [] \<and> cb = [] \<and> inc' = [])"
proof (induction inc)
  case (Cons m inc)
  show ?case
  proof (cases "m = []")
    case False
    with Cons.prems show ?thesis by (auto simp: Let_def min_def Suc_le_eq split: if_splits)
  qed (use Cons in simp)
qed simp

lemma copy_read_data_first:
  assumes "copy_read_data 1 maxread st = (bytes, n, st')" and "0 < maxread"
  shows "bytes @ copybuf st' @ concat (incoming st') = copybuf st @ concat (incoming st)" "n = length bytes" "n \<le> maxread"
    "n = 0 \<Longrightarrow> copybuf st' = [] \<and> concat (incoming st') = []" "st' = st\<lparr>copybuf := copybuf st', incoming := incoming st'\<rparr>"
proof -
  let ?avail = "min (length (copybuf st)) maxread"
  obtain out k cb inc where r: "receive_loop 1 (maxread - ?avail) [] ?avail (drop ?avail (copybuf st)) (incoming st) = (out, k, cb, inc)"
    by (cases "receive_loop 1 (maxread - ?avail) [] ?avail (drop ?avail (copybuf st)) (incoming st)")
  from assms(1) r have res: "bytes = out @ drop (length out) (take ?avail (copybuf st))" "n = k"
      "st' = st\<lparr>copybuf := cb, incoming := inc\<rparr>"
    by (simp_all add: copy_read_data_def Let_def)
  have "bytes @ cb @ concat inc = copybuf st @ concat (incoming st) \<and> n = length bytes \<and> n \<le> maxread \<and>
    (n = 0 \<longrightarrow> cb = [] \<and> concat inc = [])"
  proof (cases "copybuf st = []")
    case True
    with r have "receive_loop 1 maxread [] 0 [] (incoming st) = (out, k, cb, inc)" by simp
    from receive_loop_first [OF this assms(2)] True res show ?thesis by auto
  next
    case False
    with assms(2) have "1 \<le> ?avail" by (simp add: Suc_le_eq)
    then have "receive_loop 1 (maxread - ?avail) [] ?avail (drop ?avail (copybuf st)) (incoming st) =
        ([], ?avail, drop ?avail (copybuf st), incoming st)" by simp
    with r res False assms(2) show ?thesis by (auto simp: min_def)
  qed
  then show "bytes @ copybuf st' @ concat (incoming st') = copybuf st @ concat (incoming st)" "n = length bytes" "n \<le> maxread"
    "n = 0 \<Longrightarrow> copybuf st' = [] \<and> concat (incoming st') = []" "st' = st\<lparr>copybuf := copybuf st', incoming := incoming st'\<rparr>"
    unfolding res(3) by simp_all
qed

lemma CopyLoadRawBuf_wf:
  assumes "copy_wf enc st" and "length (raw_buf st) - input_buf_index st < RAW_BUF_SIZE" and "\<not> raw_reached_eof st"
  shows "copy_wf enc (CopyLoadRawBuf st)" "stream (CopyLoadRawBuf st) = stream st"
    "INPUT_BUF_BYTES (CopyLoadRawBuf st) = INPUT_BUF_BYTES st" "line_buf (CopyLoadRawBuf st) = line_buf st"
    "eol_type (CopyLoadRawBuf st) = eol_type st"
proof -
  let ?kept = "drop (input_buf_index st) (raw_buf st)"
  obtain bytes n st1 where r: "copy_read_data 1 (RAW_BUF_SIZE - length ?kept) st = (bytes, n, st1)"
    by (cases "copy_read_data 1 (RAW_BUF_SIZE - length ?kept) st")
  from assms(2) have "0 < RAW_BUF_SIZE - length ?kept" by simp
  note data = copy_read_data_first [OF r this]
  from data(5) obtain cb inc where st1: "st1 = st\<lparr>copybuf := cb, incoming := inc\<rparr>" by blast
  define st2 where "st2 = st\<lparr>copybuf := cb, incoming := inc, raw_buf := ?kept @ bytes,
      input_buf_len := input_buf_len st - input_buf_index st, input_buf_index := 0,
      raw_reached_eof := (n = 0)\<rparr>"
  have load: "CopyLoadRawBuf st = st2"
    using r data(2) st1 assms(3) by (simp add: CopyLoadRawBuf_def st2_def Let_def)
  have eq: "bytes @ cb @ concat inc = copybuf st @ concat (incoming st)" using data(1) st1 by simp
  have "drop (input_buf_len st - input_buf_index st) ?kept = drop (input_buf_len st) (raw_buf st)"
    using assms(1) by (simp add: copy_wf_def)
  moreover have "input_buf_len st - input_buf_index st - length ?kept = 0" using assms(1) by (simp add: copy_wf_def)
  ultimately have "drop (input_buf_len st2) (raw_buf st2) @ copybuf st2 @ concat (incoming st2) =
      drop (input_buf_len st) (raw_buf st) @ copybuf st @ concat (incoming st)"
    using eq by (simp add: st2_def)
  then show "copy_wf enc (CopyLoadRawBuf st)" unfolding load
    using assms data(2-4) st1 by (auto simp: copy_wf_def st2_def)
  show "stream (CopyLoadRawBuf st) = stream st" unfolding load using eq by (simp add: stream_def st2_def)
  show "INPUT_BUF_BYTES (CopyLoadRawBuf st) = INPUT_BUF_BYTES st" "line_buf (CopyLoadRawBuf st) = line_buf st"
    "eol_type (CopyLoadRawBuf st) = eol_type st"
    unfolding load by (simp_all add: st2_def INPUT_BUF_BYTES_def)
qed

lemma CopyConvertBuf_wf:
  assumes "copy_wf enc st"
  shows "copy_wf enc (CopyConvertBuf enc st)" "stream (CopyConvertBuf enc st) = stream st"
    "INPUT_BUF_BYTES st < INPUT_BUF_BYTES (CopyConvertBuf enc st) \<or>
     INPUT_BUF_BYTES (CopyConvertBuf enc st) = INPUT_BUF_BYTES st \<and>
     (input_reached_eof (CopyConvertBuf enc st) \<or>
      \<not> raw_reached_eof st \<and> (unverified (CopyConvertBuf enc st) = 0 \<or> unverified (CopyConvertBuf enc st) < max_length enc))"
proof -
  let ?n = "length (raw_buf st) - input_buf_len st"
  obtain cs where cs: "chars_ok enc cs" "drop (input_buf_len st) (raw_buf st) @ copybuf st @ concat (incoming st) = concat cs"
    using assms by (auto simp: copy_wf_def)
  have part: "drop (input_buf_len st) (raw_buf st) = take ?n (concat cs)"
    using cs(2) by (metis append_eq_conv_conj length_drop)
  have le: "?n \<le> length (concat cs)" using cs(2) by (metis length_append length_drop le_add1)
  have verify: "verifymbstr enc (drop (input_buf_len st) (raw_buf st)) = length (concat (whole ?n cs))"
    using cs(1) le unfolding part chars_ok_def by (metis drop0)
  have none: "?n < max_length enc \<and> \<not> raw_reached_eof st" if "?n \<noteq> 0" "concat (whole ?n cs) = []"
  proof -
    from that(1) le obtain c cs' where cs': "cs = c # cs'" by (cases cs) auto
    with cs(1) have c: "c \<noteq> []" "length c \<le> max_length enc" by (auto simp: chars_ok_def)
    with that(2) cs' have "?n < length c" by (auto split: if_splits)
    moreover from this cs' have "?n < length (concat cs)" by simp
    moreover have "?n = length (concat cs)" if "raw_reached_eof st"
      using that assms cs(2) unfolding copy_wf_def by (metis append_Nil2 length_drop)
    ultimately show ?thesis using c(2) by auto
  qed
  have more: "copy_wf enc (st\<lparr>input_buf_len := input_buf_len st + length (concat (whole ?n cs))\<rparr>)" if "?n \<noteq> 0"
  proof -
    let ?k = "length (concat (whole ?n cs))"
    have "drop ?k (drop (input_buf_len st) (raw_buf st)) @ copybuf st @ concat (incoming st) = drop ?k (concat cs)"
      using cs(2) length_whole [of ?n cs] by (metis drop_append diff_is_0_eq drop0 length_drop)
    also have "\<dots> = concat (drop (length (whole ?n cs)) cs)" using concat_whole [of ?n cs] by (metis append_eq_conv_conj)
    finally have "\<exists>cs. chars_ok enc cs \<and>
        drop (input_buf_len st + ?k) (raw_buf st) @ copybuf st @ concat (incoming st) = concat cs"
      using chars_ok_drop [OF cs(1)] by (auto simp: add.commute)
    moreover have "input_buf_len st + ?k \<le> length (raw_buf st)" using length_whole [of ?n cs] that by simp
    ultimately show ?thesis using assms that by (auto simp: copy_wf_def)
  qed
  show "copy_wf enc (CopyConvertBuf enc st)"
    using assms more none by (auto simp: CopyConvertBuf_def Let_def verify) (auto simp: copy_wf_def)
  show "stream (CopyConvertBuf enc st) = stream st" by (simp add: stream_def)
  show "INPUT_BUF_BYTES st < INPUT_BUF_BYTES (CopyConvertBuf enc st) \<or>
     INPUT_BUF_BYTES (CopyConvertBuf enc st) = INPUT_BUF_BYTES st \<and>
     (input_reached_eof (CopyConvertBuf enc st) \<or>
      \<not> raw_reached_eof st \<and> (unverified (CopyConvertBuf enc st) = 0 \<or> unverified (CopyConvertBuf enc st) < max_length enc))"
  proof (cases "?n = 0 \<or> concat (whole ?n cs) = []")
    case True
    then show ?thesis using none
      by (auto simp: CopyConvertBuf_def Let_def verify INPUT_BUF_BYTES_def unverified_def)
  next
    case False
    then obtain k where "verifymbstr enc (drop (input_buf_len st) (raw_buf st)) = Suc k"
      using verify by (cases "length (concat (whole ?n cs))") auto
    then have "CopyConvertBuf enc st = st\<lparr>input_buf_len := input_buf_len st + Suc k\<rparr>"
      using False by (auto simp: CopyConvertBuf_def Let_def)
    moreover have "input_buf_index st \<le> input_buf_len st" using assms by (simp add: copy_wf_def)
    ultimately show ?thesis by (intro disjI1) (auto simp: INPUT_BUF_BYTES_def)
  qed
qed

text \<open>Loading keeps the stream, and gives more of it or the knowledge that there is no more.\<close>

lemma load_loop_wf:
  assumes "copy_wf enc st" and "INPUT_BUF_BYTES st = nbytes" and "nbytes \<le> 3"
  shows "\<exists>st'. load_loop enc nbytes st = Inr st' \<and> copy_wf enc st' \<and> stream st' = stream st \<and>
    line_buf st' = line_buf st \<and> eol_type st' = eol_type st \<and>
    (nbytes < INPUT_BUF_BYTES st' \<or> INPUT_BUF_BYTES st' = nbytes \<and> input_reached_eof st')"
  using assms
proof (induction enc nbytes st rule: load_loop.induct)
  case (1 enc nbytes st)
  let ?st = "CopyConvertBuf enc st"
  note conv = CopyConvertBuf_wf [OF "1.prems"(1)]
  show ?case
  proof (cases "nbytes < INPUT_BUF_BYTES ?st \<or> input_reached_eof ?st")
    case True
    moreover from this have "load_loop enc nbytes st = Inr ?st"
      using conv(1) by (subst load_loop.simps) (auto simp: copy_wf_def Let_def)
    ultimately show ?thesis using conv "1.prems"(2) by auto
  next
    case False
    with conv(3) "1.prems"(2) have st: "INPUT_BUF_BYTES ?st = nbytes" "\<not> raw_reached_eof ?st"
        "unverified ?st = 0 \<or> unverified ?st < max_length enc" by auto
    have err: "\<not> input_reached_error ?st" using conv(1) by (simp add: copy_wf_def)
    have "length (raw_buf ?st) - input_buf_index ?st = nbytes + unverified ?st"
      using conv(1) st(1) by (auto simp: copy_wf_def INPUT_BUF_BYTES_def unverified_def)
    with conv(1) st(3) "1.prems"(3) have "length (raw_buf ?st) - input_buf_index ?st < RAW_BUF_SIZE"
      by (auto simp: copy_wf_def RAW_BUF_SIZE_def)
    note raw = CopyLoadRawBuf_wf [OF conv(1) this st(2)]
    have "load_loop enc nbytes st = load_loop enc nbytes (CopyLoadRawBuf ?st)"
      using False err by (subst load_loop.simps) (simp add: Let_def)
    with "1.IH" [OF refl] False err raw st(1) conv(2) "1.prems"(3) show ?thesis by auto
  qed
qed

text \<open>The search for the end of a line on the stream itself, where every character is at hand.\<close>

definition ref_marker_tail :: "EolType \<Rightarrow> byte list \<Rightarrow> byte list \<Rightarrow> (bool \<times> byte list \<times> EolType \<times> byte list) res" where
  "ref_marker_tail eol acc cs =
     (case cs of [] \<Rightarrow> Inl (PgError ''end-of-copy marker is not alone on its line'')
      | c # rest \<Rightarrow>
          if c \<noteq> CR \<and> c \<noteq> LF then Inl (PgError ''end-of-copy marker is not alone on its line'')
          else if (eol = EOL_NL \<and> c \<noteq> LF) \<or> (eol = EOL_CRNL \<and> c \<noteq> LF) \<or> (eol = EOL_CR \<and> c \<noteq> CR)
          then Inl (PgError ''end-of-copy marker does not match previous newline style'')
          else if acc \<noteq> [] then Inl (PgError ''end-of-copy marker is not alone on its line'')
          else Inr (True, [], eol, rest))"

definition ref_marker :: "EolType \<Rightarrow> byte list \<Rightarrow> byte list \<Rightarrow> (bool \<times> byte list \<times> EolType \<times> byte list) res" where
  "ref_marker eol acc cs =
     (if eol \<noteq> EOL_CRNL then ref_marker_tail eol acc cs
      else case cs of [] \<Rightarrow> Inl (PgError ''end-of-copy marker is not alone on its line'')
        | c # rest \<Rightarrow>
            if c = LF then Inl (PgError ''end-of-copy marker does not match previous newline style'')
            else if c \<noteq> CR then Inl (PgError ''end-of-copy marker is not alone on its line'')
            else ref_marker_tail eol acc rest)"

fun ref_line :: "EolType \<Rightarrow> byte list \<Rightarrow> byte list \<Rightarrow> (bool \<times> byte list \<times> EolType \<times> byte list) res" where
  "ref_line eol acc [] = Inr (True, acc, eol, [])"
| "ref_line eol acc (c # cs) =
     (if c = CR then
        (if eol = EOL_UNKNOWN \<or> eol = EOL_CRNL then
           (if cs \<noteq> [] \<and> hd cs = LF then Inr (False, acc @ [CR, LF], EOL_CRNL, tl cs)
            else if eol = EOL_CRNL then Inl (PgError ''literal carriage return found in data'')
            else Inr (False, acc @ [CR], EOL_CR, cs))
         else if eol = EOL_NL then Inl (PgError ''literal carriage return found in data'')
         else Inr (False, acc @ [CR], eol, cs))
      else if c = LF then
        (if eol = EOL_CR \<or> eol = EOL_CRNL then Inl (PgError ''literal newline found in data'')
         else Inr (False, acc @ [LF], EOL_NL, cs))
      else if c = BSLASH then
        (case cs of [] \<Rightarrow> Inr (True, acc @ [BSLASH], eol, [])
         | c2 # rest \<Rightarrow> if c2 = CHR ''.'' then ref_marker eol acc rest else ref_line eol (acc @ [c, c2]) rest)
      else ref_line eol (acc @ [c]) cs)"

lemma ref_marker_line: "ref_marker eol acc cs = Inr (r, line, eol', rest) \<Longrightarrow> r \<and> acc = [] \<and> line = [] \<and> eol' = eol"
  by (auto simp: ref_marker_def ref_marker_tail_def split: if_splits list.splits)

declare ref_line.simps(2) [simp del]

lemma ref_line_plain [simp]:
  "c \<noteq> CR \<Longrightarrow> c \<noteq> LF \<Longrightarrow> c \<noteq> BSLASH \<Longrightarrow> ref_line eol acc (c # cs) = ref_line eol (acc @ [c]) cs"
  by (subst ref_line.simps) simp

lemma ref_line_escape [simp]:
  "ref_line eol acc [BSLASH] = Inr (True, acc @ [BSLASH], eol, [])"
  "ref_line eol acc (BSLASH # CHR ''.'' # cs) = ref_marker eol acc cs"
  "c2 \<noteq> CHR ''.'' \<Longrightarrow> ref_line eol acc (BSLASH # c2 # cs) = ref_line eol (acc @ [BSLASH, c2]) cs"
  by (subst ref_line.simps, simp)+

lemma ref_line_newline:
  "ref_line eol acc (LF # cs) =
     (if eol = EOL_CR \<or> eol = EOL_CRNL then Inl (PgError ''literal newline found in data'')
      else Inr (False, acc @ [LF], EOL_NL, cs))"
  by (subst ref_line.simps) simp

lemma ref_line_return:
  "ref_line eol acc (CR # cs) =
     (if eol = EOL_UNKNOWN \<or> eol = EOL_CRNL then
        (if cs \<noteq> [] \<and> hd cs = LF then Inr (False, acc @ [CR, LF], EOL_CRNL, tl cs)
         else if eol = EOL_CRNL then Inl (PgError ''literal carriage return found in data'')
         else Inr (False, acc @ [CR], EOL_CR, cs))
      else if eol = EOL_NL then Inl (PgError ''literal carriage return found in data'')
      else Inr (False, acc @ [CR], eol, cs))"
  by (subst ref_line.simps) simp

text \<open>The result extends what was found so far, and a line that ends holds its end.\<close>

definition eol_length :: "EolType \<Rightarrow> nat" where
  "eol_length eol = (case eol of EOL_NL \<Rightarrow> 1 | EOL_CR \<Rightarrow> 1 | EOL_CRNL \<Rightarrow> 2 | EOL_UNKNOWN \<Rightarrow> 0)"

lemma ref_line_result:
  "ref_line eol acc cs = Inr (r, line, eol', rest) \<Longrightarrow> (\<exists>t. line = acc @ t) \<and> (\<not> r \<longrightarrow> eol_length eol' \<le> length line)"
proof (induction "length cs" arbitrary: acc cs rule: less_induct)
  case less
  show ?case
  proof (cases cs)
    case (Cons c cs')
    consider "c = CR" | "c = LF" | "c = BSLASH" "cs' = []" | rest' where "c = BSLASH" "cs' = CHR ''.'' # rest'"
      | c2 rest' where "c = BSLASH" "cs' = c2 # rest'" "c2 \<noteq> CHR ''.''"
      | "c \<noteq> CR" "c \<noteq> LF" "c \<noteq> BSLASH"
      by (cases cs') auto
    then show ?thesis
    proof cases
      case (4 rest')
      with Cons less.prems have "ref_marker eol acc rest' = Inr (r, line, eol', rest)" by simp
      from ref_marker_line [OF this] show ?thesis by simp
    next
      case (5 c2 rest')
      with Cons less.prems have "ref_line eol (acc @ [BSLASH, c2]) rest' = Inr (r, line, eol', rest)" by simp
      from less.hyps [OF _ this] 5 Cons show ?thesis by auto
    next
      case 6
      with Cons less.prems have "ref_line eol (acc @ [c]) cs' = Inr (r, line, eol', rest)" by simp
      from less.hyps [OF _ this] Cons show ?thesis by auto
    qed (use Cons less.prems in \<open>auto simp: ref_line_return ref_line_newline eol_length_def split: if_splits EolType.splits\<close>)
  qed (use less.prems in auto)
qed

text \<open>The part of the buffer between two positions, and what follows a position.\<close>

definition seg :: "copy_input \<Rightarrow> nat \<Rightarrow> nat \<Rightarrow> byte list" where
  "seg st i j = take (j - i) (drop i (raw_buf st))"

definition from_pos :: "copy_input \<Rightarrow> nat \<Rightarrow> byte list" where
  "from_pos st i = drop i (raw_buf st) @ copybuf st @ concat (incoming st)"

lemma seg_append: "i \<le> j \<Longrightarrow> j \<le> k \<Longrightarrow> seg st i j @ seg st j k = seg st i k"
  using take_add [of "j - i" "k - j" "drop i (raw_buf st)"] by (simp add: seg_def)

lemma from_pos_Cons: "i < length (raw_buf st) \<Longrightarrow> from_pos st i = raw_buf st ! i # from_pos st (Suc i)"
  by (simp add: from_pos_def Cons_nth_drop_Suc [symmetric])

lemma from_pos_end: "copy_wf enc st \<Longrightarrow> input_reached_eof st \<Longrightarrow> input_buf_len st \<le> i \<Longrightarrow> from_pos st i = []"
  by (auto simp: from_pos_def copy_wf_def)

lemma seg_Suc: "i \<le> j \<Longrightarrow> j < length (raw_buf st) \<Longrightarrow> seg st i (Suc j) = seg st i j @ [raw_buf st ! j]"
  by (simp add: seg_def Suc_diff_le take_Suc_conv_app_nth)

lemma REFILL_LINEBUF_ok:
  assumes "copy_wf enc st" and "input_buf_index st \<le> ptr" and "ptr \<le> input_buf_len st"
    and "length (si_bytes (line_buf st) @ seg st (input_buf_index st) ptr) < MaxAllocSize"
  obtains l where "REFILL_LINEBUF ptr st = Inr (st\<lparr>line_buf := l, input_buf_index := ptr\<rparr>)" and "si_wf l"
    and "si_bytes l = si_bytes (line_buf st) @ seg st (input_buf_index st) ptr"
proof (cases "ptr = input_buf_index st")
  case True
  with assms(1) show ?thesis by (intro that [of "line_buf st"]) (auto simp: REFILL_LINEBUF_def seg_def copy_wf_def)
next
  case False
  have "si_wf (line_buf st)" using assms(1) by (simp add: copy_wf_def)
  moreover have "si_len (line_buf st) + length (seg st (input_buf_index st) ptr) < MaxAllocSize"
    using assms(4) length_si_bytes [OF calculation] by simp
  ultimately obtain l where "appendBinaryStringInfo (seg st (input_buf_index st) ptr) (line_buf st) = Inr l" "si_wf l"
      "si_bytes l = si_bytes (line_buf st) @ seg st (input_buf_index st) ptr"
    by (rule appends_okE [OF appendBinaryStringInfo_appends])
  with False assms(2) show ?thesis by (intro that [of l]) (auto simp: REFILL_LINEBUF_def seg_def)
qed

lemma peek:
  assumes "copy_wf enc st" and "hit \<longrightarrow> input_reached_eof st" and "i \<le> input_buf_len st"
  obtains "need_more st hit i" "input_buf_len st = i"
  | c where "\<not> need_more st hit i" "i < input_buf_len st" "buf_at st i = Inr c" "c = raw_buf st ! i" "from_pos st i = c # from_pos st (Suc i)"
  | "\<not> need_more st hit i" "i = input_buf_len st" "buf_at st i = Inr NUL" "from_pos st i = []"
proof (cases "i < input_buf_len st")
  case True
  with assms(1) from_pos_Cons [of i st] show ?thesis by (intro that(2)) (auto simp: need_more_def buf_at_def copy_wf_def)
next
  case False
  show ?thesis
  proof (cases hit)
    case True
    with assms have "input_reached_eof st" by simp
    with from_pos_end [OF assms(1)] False have "from_pos st i = []" by simp
    with \<open>input_reached_eof st\<close> False assms(1,3) True show ?thesis
      by (intro that(3)) (auto simp: need_more_def buf_at_def copy_wf_def)
  next
    case nohit: False
    with False assms(3) show ?thesis by (intro that(1)) (auto simp: need_more_def)
  qed
qed

text \<open>
  What one look at a character has to do, where \<open>(r, line, eol', rest)\<close> is the result on the
  stream: ask for more when at most three bytes are left, go on with the same result to
  come, or finish with the result.
\<close>

definition looked :: "encoding \<Rightarrow> bool \<times> byte list \<times> EolType \<times> byte list \<Rightarrow> copy_input \<Rightarrow> nat \<Rightarrow> (line_move \<times> copy_input) res \<Rightarrow> bool" where
  "looked enc res st p out \<longleftrightarrow>
     (case out of Inl e \<Rightarrow> False
      | Inr (Refill, st') \<Rightarrow> st' = st \<and> input_buf_len st - p \<le> 3
      | Inr (Go q, st') \<Rightarrow> st' = st \<and> p < q \<and> q \<le> input_buf_len st \<and>
          ref_line (eol_type st) (si_bytes (line_buf st) @ seg st (input_buf_index st) q) (from_pos st q) = Inr res
      | Inr (Finish r q, st') \<Rightarrow> copy_wf enc st' \<and> input_buf_index st' \<le> q \<and> q \<le> input_buf_len st' \<and>
          res = (r, si_bytes (line_buf st') @ seg st' (input_buf_index st') q, eol_type st', from_pos st' q))"

lemma copy_wf_eol [simp]: "copy_wf enc (st\<lparr>eol_type := e\<rparr>) = copy_wf enc st"
  by (simp add: copy_wf_def)

lemma seg_simps [simp]:
  "seg (st\<lparr>eol_type := e\<rparr>) i j = seg st i j" "from_pos (st\<lparr>eol_type := e\<rparr>) i = from_pos st i"
  "seg (st\<lparr>line_buf := l\<rparr>) i j = seg st i j" "from_pos (st\<lparr>line_buf := l\<rparr>) i = from_pos st i"
  "seg (st\<lparr>input_buf_index := k\<rparr>) i j = seg st i j" "from_pos (st\<lparr>input_buf_index := k\<rparr>) i = from_pos st i"
  "seg st i i = []"
  by (simp_all add: seg_def from_pos_def)

lemma end_marker_tail_looked:
  assumes "copy_wf enc st" and "hit \<longrightarrow> input_reached_eof st" and "input_buf_index st \<le> p" and "p < ptr" and "ptr \<le> p + 3"
    and "ptr \<le> input_buf_len st"
    and "ref_marker_tail (eol_type st) (si_bytes (line_buf st) @ seg st (input_buf_index st) p) (from_pos st ptr) = Inr res"
  shows "looked enc res st p (end_marker_tail st hit p ptr)"
proof (cases rule: peek [OF assms(1,2,6)])
  case 1
  then show ?thesis using assms(4,5) by (auto simp: end_marker_tail_def looked_def)
next
  case (2 c)
  have acc: "si_bytes (line_buf st) = []" "seg st (input_buf_index st) p = []"
    using assms(7) 2 by (auto simp: ref_marker_tail_def split: if_splits)
  have "p = input_buf_index st" using acc(2) assms(1,3,4) 2(2) by (auto simp: seg_def copy_wf_def)
  moreover have "si_len (line_buf st) = 0" using acc(1) assms(1) length_si_bytes [of "line_buf st"] by (simp add: copy_wf_def)
  moreover have "copy_wf enc (st\<lparr>input_buf_index := ptr + 1\<rparr>)" using assms(1) 2 by (auto simp: copy_wf_def)
  ultimately show ?thesis using assms(7) 2 acc
    by (auto simp: end_marker_tail_def looked_def ref_marker_tail_def split: if_splits)
next
  case 3
  then show ?thesis using assms(7) by (simp add: ref_marker_tail_def)
qed

lemma end_marker_looked:
  assumes wf: "copy_wf enc st" "hit \<longrightarrow> input_reached_eof st" and "input_buf_index st \<le> p" and ptr: "ptr = p + 2" "ptr \<le> input_buf_len st"
    and ref: "ref_marker (eol_type st) (si_bytes (line_buf st) @ seg st (input_buf_index st) p) (from_pos st ptr) = Inr res"
  shows "looked enc res st p (end_marker st hit p ptr)"
proof (cases "eol_type st = EOL_CRNL")
  case crnl: True
  show ?thesis
  proof (cases rule: peek [OF wf ptr(2)])
    case 1
    then show ?thesis using crnl ptr by (simp add: end_marker_def looked_def)
  next
    case (2 c)
    with ref crnl have c: "c = CR"
      and tail: "ref_marker_tail (eol_type st) (si_bytes (line_buf st) @ seg st (input_buf_index st) p) (from_pos st (ptr + 1)) = Inr res"
      by (auto simp: ref_marker_def split: if_splits)
    have "end_marker st hit p ptr = end_marker_tail st hit p (ptr + 1)"
      using c 2(1,3) crnl by (simp add: end_marker_def)
    with end_marker_tail_looked [OF wf assms(3) _ _ _ tail] ptr 2(2) show ?thesis by simp
  next
    case 3
    then show ?thesis using ref crnl by (simp add: ref_marker_def)
  qed
next
  case False
  with ref end_marker_tail_looked [OF wf assms(3) _ _ ptr(2)] ptr(1) show ?thesis
    by (simp add: ref_marker_def end_marker_def)
qed

lemma looked_Finish:
  assumes "copy_wf enc st" and "input_buf_index st \<le> q" and "q \<le> input_buf_len st"
    and "res = (r, si_bytes (line_buf st) @ seg st (input_buf_index st) q, e, from_pos st q)"
  shows "looked enc res st p (Inr (Finish r q, st\<lparr>eol_type := e\<rparr>))"
  using assms by (simp add: looked_def)

lemma line_step_looked:
  assumes wf: "copy_wf enc st" "hit \<longrightarrow> input_reached_eof st" and idx: "input_buf_index st \<le> p" and p: "p < input_buf_len st"
    and ref: "ref_line (eol_type st) (si_bytes (line_buf st) @ seg st (input_buf_index st) p) (from_pos st p) = Inr res"
  shows "looked enc res st p (line_step st p hit)"
proof -
  define c where "c = raw_buf st ! p"
  have raw: "p < length (raw_buf st)" using wf p by (simp add: copy_wf_def)
  have at: "buf_at st p = Inr c" using raw by (simp add: buf_at_def c_def)
  have fp: "from_pos st p = c # from_pos st (Suc p)" using from_pos_Cons [OF raw] by (simp add: c_def)
  have sg: "seg st (input_buf_index st) (Suc p) = seg st (input_buf_index st) p @ [c]" using seg_Suc [OF idx raw] by (simp add: c_def)
  have suc: "Suc p \<le> input_buf_len st" using p by simp
  have fin: "looked enc res st p (Inr (Finish r q, st\<lparr>eol_type := e\<rparr>))"
    if "res = (r, si_bytes (line_buf st) @ seg st (input_buf_index st) q, e, from_pos st q)" "p \<le> q" "q \<le> input_buf_len st" for r q e
    using looked_Finish [OF wf(1) _ that(3,1)] that(2) idx by simp
  consider "c = CR" | "c = LF" | "c = BSLASH" | "c \<noteq> CR" "c \<noteq> LF" "c \<noteq> BSLASH" by blast
  then show ?thesis
  proof cases
    case 1
    show ?thesis
    proof (cases rule: peek [OF wf suc])
      case more: 1
      then show ?thesis
        using 1 at ref fin [of False "Suc p" "eol_type st"] fp sg suc
        by (auto simp: line_step_def looked_def [of enc res st p "Inr (Refill, st)"] ref_line_return split: if_splits)
    next
      case (2 c1)
      have sg2: "seg st (input_buf_index st) (Suc (Suc p)) = seg st (input_buf_index st) p @ [c, c1]"
        using seg_Suc [of "input_buf_index st" "Suc p" st] idx 2(2,4) wf sg by (simp add: copy_wf_def)
      show ?thesis
        using 1 2 at ref fp sg sg2 suc fin [of False "Suc p" "eol_type st"] fin [of False "Suc (Suc p)" EOL_CRNL] fin [of False "Suc p" EOL_CR]
        by (auto simp: line_step_def ref_line_return split: if_splits)
    next
      case 3
      then show ?thesis
        using 1 at ref fp sg suc fin [of False "Suc p" "eol_type st"] fin [of False "Suc p" EOL_CR]
        by (auto simp: line_step_def ref_line_return split: if_splits)
    qed
  next
    case 2
    then show ?thesis using at ref fp sg suc fin [of False "Suc p" EOL_NL]
      by (auto simp: line_step_def ref_line_newline split: if_splits)
  next
    case 3
    show ?thesis
    proof (cases rule: peek [OF wf suc])
      case 1
      then show ?thesis using 3 at by (simp add: line_step_def looked_def)
    next
      case (2 c2)
      have sg2: "seg st (input_buf_index st) (Suc (Suc p)) = seg st (input_buf_index st) p @ [c, c2]"
        using seg_Suc [of "input_buf_index st" "Suc p" st] idx 2(2,4) wf sg by (simp add: copy_wf_def)
      show ?thesis
      proof (cases "c2 = CHR ''.''")
        case True
        with ref fp 3 2(5) have "ref_marker (eol_type st) (si_bytes (line_buf st) @ seg st (input_buf_index st) p) (from_pos st (p + 2)) = Inr res"
          by simp
        from end_marker_looked [OF wf idx refl _ this] True 3 2 at show ?thesis by (simp add: line_step_def)
      next
        case False
        with 3 2 at ref fp sg2 show ?thesis by (simp add: line_step_def looked_def)
      qed
    next
      case eof: 3
      then show ?thesis using 3 at ref fp sg suc fin [of True "Suc p" "eol_type st"] by (simp add: line_step_def)
    qed
  next
    case 4
    then show ?thesis using at ref fp sg suc by (simp add: line_step_def looked_def)
  qed
qed

text \<open>The state of the search: \<open>ptr\<close> is in the buffer and the result on the stream is known.\<close>

definition searching :: "encoding \<Rightarrow> bool \<times> byte list \<times> EolType \<times> byte list \<Rightarrow> copy_input \<Rightarrow> nat \<Rightarrow> bool \<Rightarrow> bool" where
  "searching enc res st ptr hit \<longleftrightarrow>
     copy_wf enc st \<and> input_buf_index st \<le> ptr \<and> ptr \<le> input_buf_len st \<and> (hit \<longrightarrow> input_reached_eof st) \<and>
     ref_line (eol_type st) (si_bytes (line_buf st) @ seg st (input_buf_index st) ptr) (from_pos st ptr) = Inr res \<and>
     length (fst (snd res)) < MaxAllocSize"

lemma searching_short:
  assumes "searching enc res st ptr hit"
  shows "length (si_bytes (line_buf st) @ seg st (input_buf_index st) ptr) < MaxAllocSize"
proof -
  obtain r line eol' rest where "res = (r, line, eol', rest)" by (cases res)
  with assms ref_line_result [of "eol_type st" "si_bytes (line_buf st) @ seg st (input_buf_index st) ptr" "from_pos st ptr" r line eol' rest]
  show ?thesis by (auto simp: searching_def)
qed

lemma stream_from_pos: "stream st = from_pos st (input_buf_index st)"
  by (simp add: stream_def from_pos_def)

lemma line_load_searching:
  assumes s: "searching enc res st ptr hit" and need: "need \<Longrightarrow> input_buf_len st - ptr \<le> 3"
  obtains st' ptr' hit' where "line_load enc st ptr need hit = Inr (st', ptr', hit')" and "searching enc res st' ptr' hit'"
    and "input_buf_len st' \<le> ptr' \<Longrightarrow> input_reached_eof st'"
proof (cases "ptr \<ge> input_buf_len st \<or> need")
  case True
  have wf: "copy_wf enc st" and ptr: "input_buf_index st \<le> ptr" "ptr \<le> input_buf_len st" using s by (simp_all add: searching_def)
  obtain l where l: "REFILL_LINEBUF ptr st = Inr (st\<lparr>line_buf := l, input_buf_index := ptr\<rparr>)" "si_wf l"
      "si_bytes l = si_bytes (line_buf st) @ seg st (input_buf_index st) ptr"
    by (rule REFILL_LINEBUF_ok [OF wf ptr searching_short [OF s]])
  let ?st1 = "st\<lparr>line_buf := l, input_buf_index := ptr\<rparr>"
  have wf1: "copy_wf enc ?st1" using wf l(2) ptr by (simp add: copy_wf_def)
  have n: "INPUT_BUF_BYTES ?st1 \<le> 3" using True need by (auto simp: INPUT_BUF_BYTES_def)
  from load_loop_wf [OF wf1 refl n] obtain st2 where st2: "CopyLoadInputBuf enc ?st1 = Inr st2" "copy_wf enc st2"
      "stream st2 = stream ?st1" "line_buf st2 = l" "eol_type st2 = eol_type st"
      "INPUT_BUF_BYTES ?st1 < INPUT_BUF_BYTES st2 \<or> INPUT_BUF_BYTES st2 = INPUT_BUF_BYTES ?st1 \<and> input_reached_eof st2"
    by (auto simp: CopyLoadInputBuf_def)
  have "from_pos st2 (input_buf_index st2) = from_pos st ptr" using st2(3) by (simp add: stream_from_pos)
  then have "searching enc res st2 (input_buf_index st2) (input_reached_eof st2)"
    using s st2 l(3) by (simp add: searching_def copy_wf_def)
  moreover have "line_load enc st ptr need hit = Inr (st2, input_buf_index st2, input_reached_eof st2)"
    using True l(1) st2(1) by (simp add: line_load_def)
  moreover have "input_reached_eof st2" if "input_buf_len st2 \<le> input_buf_index st2"
    using that st2(6) by (auto simp: INPUT_BUF_BYTES_def)
  ultimately show ?thesis by (intro that)
next
  case False
  with s show ?thesis by (intro that [of st ptr hit]) (auto simp: line_load_def)
qed

definition line_found :: "encoding \<Rightarrow> bool \<times> byte list \<times> EolType \<times> byte list \<Rightarrow> (bool \<times> copy_input) res \<Rightarrow> bool" where
  "line_found enc res out \<longleftrightarrow>
     (\<exists>st. out = Inr (fst res, st) \<and> copy_wf enc st \<and> res = (fst res, si_bytes (line_buf st), eol_type st, stream st))"

lemma line_found_finish:
  assumes "copy_wf enc st" and "input_buf_index st \<le> q" and "q \<le> input_buf_len st"
    and "res = (r, si_bytes (line_buf st) @ seg st (input_buf_index st) q, eol_type st, from_pos st q)"
    and "length (fst (snd res)) < MaxAllocSize"
  shows "line_found enc res (bindR (REFILL_LINEBUF q st) (\<lambda>st. Inr (r, st)))"
proof -
  have "length (si_bytes (line_buf st) @ seg st (input_buf_index st) q) < MaxAllocSize" using assms(4,5) by simp
  from REFILL_LINEBUF_ok [OF assms(1-3) this] obtain l where l: "REFILL_LINEBUF q st = Inr (st\<lparr>line_buf := l, input_buf_index := q\<rparr>)"
      "si_wf l" "si_bytes l = si_bytes (line_buf st) @ seg st (input_buf_index st) q" .
  moreover have "copy_wf enc (st\<lparr>line_buf := l, input_buf_index := q\<rparr>)" using assms(1-3) l(2) by (simp add: copy_wf_def)
  ultimately show ?thesis using assms(4) by (simp add: line_found_def stream_from_pos)
qed

lemma line_loop_searching:
  assumes "searching enc res st ptr hit" and "need \<Longrightarrow> input_buf_len st - ptr \<le> 3"
  shows "line_found enc res (line_loop enc st ptr need hit)"
  using assms
proof (induction enc st ptr need hit rule: line_loop.induct)
  case (1 enc st ptr need hit)
  obtain st1 ptr1 hit1 where load: "line_load enc st ptr need hit = Inr (st1, ptr1, hit1)"
      "searching enc res st1 ptr1 hit1" "input_buf_len st1 \<le> ptr1 \<Longrightarrow> input_reached_eof st1"
    using line_load_searching [OF "1.prems"] by blast
  then have wf: "copy_wf enc st1" "hit1 \<longrightarrow> input_reached_eof st1" "input_buf_index st1 \<le> ptr1" "ptr1 \<le> input_buf_len st1"
      and ref: "ref_line (eol_type st1) (si_bytes (line_buf st1) @ seg st1 (input_buf_index st1) ptr1) (from_pos st1 ptr1) = Inr res"
      and short: "length (fst (snd res)) < MaxAllocSize"
    by (simp_all add: searching_def)
  show ?case
  proof (cases "input_buf_len st1 \<le> ptr1")
    case True
    with load(3) wf from_pos_end [of enc st1 ptr1] have "from_pos st1 ptr1 = []" by simp
    with ref have "res = (True, si_bytes (line_buf st1) @ seg st1 (input_buf_index st1) ptr1, eol_type st1, from_pos st1 ptr1)" by simp
    from line_found_finish [OF wf(1,3,4) this short] True load(1) show ?thesis by (subst line_loop.simps) simp
  next
    case False
    then have lt: "ptr1 < input_buf_len st1" by simp
    note look = line_step_looked [OF wf(1-3) lt ref]
    then obtain s st2 where step: "line_step st1 ptr1 hit1 = Inr (s, st2)"
      by (auto simp: looked_def split: sum.splits)
    have loop: "line_loop enc st ptr need hit =
        (case s of Refill \<Rightarrow> line_loop enc st2 ptr1 True hit1 | Go ptr \<Rightarrow> line_loop enc st2 ptr False hit1
         | Finish result ptr \<Rightarrow> bindR (REFILL_LINEBUF ptr st2) (\<lambda>st. Inr (result, st)))"
      using load(1) step False by (subst line_loop.simps) simp
    note ih = "1.IH" [OF load(1) refl refl False step refl]
    show ?thesis
    proof (cases s)
      case Refill
      with look step have "st2 = st1" "input_buf_len st1 - ptr1 \<le> 3" by (simp_all add: looked_def)
      with ih(1) [OF Refill] load(2) loop Refill show ?thesis by simp
    next
      case (Go q)
      with look step wf short have "st2 = st1" "searching enc res st1 q hit1" by (simp_all add: looked_def searching_def)
      with ih(2) [OF Go] loop Go show ?thesis by simp
    next
      case (Finish r q)
      with look step have "copy_wf enc st2" "input_buf_index st2 \<le> q" "q \<le> input_buf_len st2"
          "res = (r, si_bytes (line_buf st2) @ seg st2 (input_buf_index st2) q, eol_type st2, from_pos st2 q)"
        by (simp_all add: looked_def)
      from line_found_finish [OF this short] loop Finish show ?thesis by simp
    qed
  qed
qed

text \<open>The line without its end, on the stream.\<close>

definition ref_read_line :: "EolType \<Rightarrow> byte list \<Rightarrow> (bool \<times> byte list \<times> EolType \<times> byte list) res" where
  "ref_read_line eol cs =
     bindR (ref_line eol [] cs) (\<lambda>(r, line, eol', rest).
     Inr (r, if r then line else take (length line - eol_length eol') line, eol', rest))"

lemma strip_eol_ok:
  assumes "si_wf l" and "eol_length eol \<le> si_len l"
  shows "\<exists>l'. strip_eol eol l = Inr l' \<and> si_wf l' \<and> si_bytes l' = take (si_len l - eol_length eol) (si_bytes l)"
proof -
  define k where "k = si_len l - eol_length eol"
  let ?l = "l\<lparr>si_data := take k (si_data l) @ Some NUL # drop (Suc k) (si_data l), si_len := k\<rparr>"
  have k: "k \<le> si_len l" "si_len l < length (si_data l)" using assms(1) by (auto simp: k_def si_wf_def)
  then have "length (take k (si_data l) @ Some NUL # drop (Suc k) (si_data l)) = length (si_data l)" by simp
  moreover have "set (take k (si_data l)) \<subseteq> set (take (si_len l) (si_data l))" using k(1) by (rule set_take_subset_set_take)
  ultimately have wf: "si_wf ?l" using assms(1) k by (auto simp: si_wf_def)
  moreover have "si_bytes ?l = take k (si_bytes l)" using k by (simp add: si_bytes_def take_map min_def)
  moreover have "strip_eol eol l = Inr (if eol_length eol = 0 then l else ?l)"
    using assms(2) k by (cases eol) (auto simp: strip_eol_def eol_length_def k_def mem_write_def)
  moreover have "si_bytes l = take (si_len l) (si_bytes l)" by (simp add: length_si_bytes [OF assms(1)])
  ultimately show ?thesis using assms(1) by (cases "eol_length eol = 0") (auto simp: k_def)
qed

lemma CopyReadLine_ref:
  assumes "copy_wf enc st" and "ref_read_line (eol_type st) (stream st) = Inr (r, line, eol', rest)"
    and "length line + 2 < MaxAllocSize"
  shows "\<exists>st'. CopyReadLine enc st = Inr (r, st') \<and> copy_wf enc st' \<and> si_bytes (line_buf st') = line \<and>
    eol_type st' = eol' \<and> stream st' = rest"
proof -
  obtain full where ref: "ref_line (eol_type st) [] (stream st) = Inr (r, full, eol', rest)"
    and line: "line = (if r then full else take (length full - eol_length eol') full)"
    using assms(2) by (auto simp: ref_read_line_def bindR_eq_Inr_iff)
  have full: "length full < MaxAllocSize"
    using assms(3) unfolding line by (auto simp: eol_length_def split: if_splits EolType.splits)
  have "si_wf (line_buf st)" using assms(1) by (simp add: copy_wf_def)
  then obtain l where l: "resetStringInfo (line_buf st) = Inr l" "si_wf l" "si_bytes l = []" by (rule resetStringInfo_ok)
  let ?st = "st\<lparr>line_buf := l\<rparr>"
  have "searching enc (r, full, eol', rest) ?st (input_buf_index ?st) False"
    using assms(1) l ref full by (auto simp: searching_def copy_wf_def stream_from_pos)
  from line_loop_searching [OF this, of False] obtain st1 where st1: "CopyReadLineText enc ?st = Inr (r, st1)" "copy_wf enc st1"
      "full = si_bytes (line_buf st1)" "eol' = eol_type st1" "rest = stream st1"
    by (auto simp: line_found_def CopyReadLineText_def)
  show ?thesis
  proof (cases r)
    case True
    with st1 l line show ?thesis by (auto simp: CopyReadLine_def)
  next
    case False
    have wf: "si_wf (line_buf st1)" using st1(2) by (simp add: copy_wf_def)
    moreover have "eol_length eol' \<le> si_len (line_buf st1)"
      using ref_line_result [of "eol_type st" "[]" "stream st" r full eol' rest] ref False st1(3) length_si_bytes [OF wf] by simp
    ultimately obtain l' where "strip_eol eol' (line_buf st1) = Inr l'" "si_wf l'"
        "si_bytes l' = take (si_len (line_buf st1) - eol_length eol') (si_bytes (line_buf st1))"
      using strip_eol_ok by blast
    moreover have "copy_wf enc (st1\<lparr>line_buf := l'\<rparr>)" using st1(2) calculation by (simp add: copy_wf_def)
    ultimately show ?thesis using False st1 l line length_si_bytes [OF wf] by (auto simp: CopyReadLine_def stream_def)
  qed
qed

text \<open>Claim C14. The subscriber finds the same lines wherever the messages of the COPY end: reading a line from the 64 KB
  buffer, with reloads in the middle of characters, escapes, line ends and end-of-copy markers, gives the line that a search
  over the whole stream gives, and leaves the rest of the stream unread.\<close>

theorem lines_independent_of_messages:
  assumes "copy_wf enc st" and "ref_read_line (eol_type st) (stream st) = Inr (r, line, eol', rest)"
    and "length line + 2 < MaxAllocSize"
  shows "\<exists>st'. CopyReadLine enc st = Inr (r, st') \<and> copy_wf enc st' \<and> si_bytes (line_buf st') = line \<and>
    eol_type st' = eol' \<and> stream st' = rest"
  by (rule CopyReadLine_ref [OF assms])

text \<open>A single-byte encoding, and the state before the first message.\<close>

definition single_byte :: encoding where
  "single_byte = \<lparr>verifymbstr = length, max_length = 1\<rparr>"

definition copy_start :: "byte list list \<Rightarrow> StringInfoData \<Rightarrow> copy_input" where
  "copy_start messages l =
     \<lparr>raw_buf = [], input_buf_len = 0, input_buf_index = 0, raw_reached_eof = False, input_reached_eof = False,
      input_reached_error = False, copybuf = [], incoming = messages, eol_type = EOL_UNKNOWN, line_buf = l\<rparr>"

lemma single_byte_chars: "chars_ok single_byte (map (\<lambda>c. [c]) s)"
proof -
  have "concat (map (\<lambda>c. [c]) t) = t" for t :: "byte list" by (induction t) auto
  moreover have "whole n (map (\<lambda>c. [c]) t) = map (\<lambda>c. [c]) (take n t)" for n and t :: "byte list"
    by (induction t arbitrary: n) (auto simp: take_Cons' Suc_le_eq)
  ultimately show ?thesis by (auto simp: chars_ok_def single_byte_def drop_map)
qed

lemma copy_start_wf:
  assumes "si_wf l" and "chars_ok enc cs" and "concat messages = concat cs" and "max_length enc \<le> 16"
  shows "copy_wf enc (copy_start messages l)" "stream (copy_start messages l) = concat messages"
  using assms by (auto simp: copy_wf_def copy_start_def stream_def RAW_BUF_SIZE_def)

theorem lines_independent_of_messages_witness:
  "\<exists>st'. CopyReadLine single_byte (copy_start [[CHR ''a'', BSLASH], [], [CHR ''t'', LF, CHR ''b'']] demo_buf) = Inr (False, st') \<and>
     si_bytes (line_buf st') = [CHR ''a'', BSLASH, CHR ''t''] \<and> stream st' = [CHR ''b'']"
proof -
  let ?ms = "[[CHR ''a'', BSLASH], [], [CHR ''t'', LF, CHR ''b'']]" and ?s = "[CHR ''a'', BSLASH, CHR ''t'', LF, CHR ''b'']"
  have "copy_wf single_byte (copy_start ?ms demo_buf)" "stream (copy_start ?ms demo_buf) = ?s"
    using copy_start_wf [OF demo_buf_wf single_byte_chars [of ?s], of ?ms] by (simp_all add: single_byte_def)
  moreover have "ref_read_line EOL_UNKNOWN ?s = Inr (False, [CHR ''a'', BSLASH, CHR ''t''], EOL_NL, [CHR ''b''])"
    by (simp add: ref_read_line_def ref_line_newline eol_length_def)
  ultimately show ?thesis
    using lines_independent_of_messages [of single_byte "copy_start ?ms demo_buf" False "[CHR ''a'', BSLASH, CHR ''t'']" EOL_NL "[CHR ''b'']"]
    by (auto simp: copy_start_def MaxAllocSize_def)
qed

text \<open>The lines the publisher writes are found one by one: no byte of a row looks like the end of a line.\<close>

lemma ref_line_esc1:
  assumes "opts_ok opts"
  shows "ref_line eol acc (esc1 (delim opts) c @ rest) = ref_line eol (acc @ esc1 (delim opts) c) rest"
proof (cases "escape_letter c")
  case (Some e)
  then have "e \<noteq> CHR ''.''" by (auto simp: escape_letter_def split: if_splits)
  with Some show ?thesis by (simp add: esc1_def)
next
  case None
  then have "c \<noteq> LF" "c \<noteq> CR" by (auto simp: escape_letter_def)
  with None assms show ?thesis by (auto simp: esc1_def opts_ok_def)
qed

lemma ref_line_esc:
  "opts_ok opts \<Longrightarrow> ref_line eol acc (esc (delim opts) s @ rest) = ref_line eol (acc @ esc (delim opts) s) rest"
  by (induction s arbitrary: acc) (simp_all add: ref_line_esc1)

lemma ref_line_field:
  assumes "opts_ok opts"
  shows "ref_line eol acc (field_bytes opts f @ rest) = ref_line eol (acc @ field_bytes opts f) rest"
  using assms ref_line_esc [OF assms] by (cases f) (simp_all add: field_bytes_def opts_ok_def)

lemma ref_line_line:
  assumes "opts_ok opts"
  shows "ref_line eol acc (line_of opts fs @ rest) = ref_line eol (acc @ line_of opts fs) rest"
proof (induction fs arbitrary: acc rule: induct_list012)
  case (3 f g fs)
  have "delim opts \<noteq> CR" "delim opts \<noteq> LF" "delim opts \<noteq> BSLASH" using assms by (auto simp: opts_ok_def)
  then show ?case using "3.IH"(2) by (simp add: ref_line_field [OF assms])
qed (simp_all add: ref_line_field [OF assms])

lemma ref_read_written:
  assumes "opts_ok opts" and "eol = EOL_UNKNOWN \<or> eol = EOL_NL"
  shows "ref_read_line eol (line_of opts fs @ LF # rest) = Inr (False, line_of opts fs, EOL_NL, rest)"
  using assms(2) by (auto simp: ref_read_line_def ref_line_line [OF assms(1)] ref_line_newline eol_length_def)

section \<open>Lines as an interface\<close>

text \<open>
  What the reader of rows relies on: a source of lines with some unread text, whose next line is the one a search over
  the text finds. Of the lines a publisher writes it reads one after the other, and then the end.
\<close>

locale line_source =
  fixes read_line :: "'s \<Rightarrow> (bool \<times> 's) res" and ok :: "'s \<Rightarrow> bool" and unread :: "'s \<Rightarrow> byte list" and line :: "'s \<Rightarrow> byte list"
    and mode :: "'s \<Rightarrow> EolType"
  assumes read_law: "ok s \<Longrightarrow> ref_read_line (mode s) (unread s) = Inr (r, l, m, rest) \<Longrightarrow> length l + 2 < MaxAllocSize \<Longrightarrow>
    \<exists>s'. read_line s = Inr (r, s') \<and> ok s' \<and> line s' = l \<and> mode s' = m \<and> unread s' = rest"
begin

definition between_lines :: "'s \<Rightarrow> bool" where
  "between_lines s \<longleftrightarrow> ok s \<and> (mode s = EOL_UNKNOWN \<or> mode s = EOL_NL)"

lemma read_written:
  assumes "opts_ok opts" and "between_lines s" and "unread s = line_of opts fs @ LF # rest" and "length (line_of opts fs) + 2 < MaxAllocSize"
  obtains s' where "read_line s = Inr (False, s')" and "between_lines s'" and "line s' = line_of opts fs" and "unread s' = rest"
proof -
  have "ref_read_line (mode s) (unread s) = Inr (False, line_of opts fs, EOL_NL, rest)"
    unfolding assms(3) using assms(2) by (intro ref_read_written [OF assms(1)]) (simp add: between_lines_def)
  from read_law [OF _ this assms(4)] assms(2) that show thesis by (auto simp: between_lines_def)
qed

lemma read_end:
  assumes "between_lines s" and "unread s = []"
  obtains s' where "read_line s = Inr (True, s')" and "between_lines s'" and "line s' = []" and "unread s' = []"
proof -
  have "ref_read_line (mode s) (unread s) = Inr (True, [], mode s, [])" by (simp add: assms(2) ref_read_line_def)
  from read_law [OF _ this] assms(1) that show thesis by (auto simp: between_lines_def MaxAllocSize_def)
qed

end

interpretation copy_lines: line_source "CopyReadLine enc" "copy_wf enc" stream "\<lambda>st. si_bytes (line_buf st)" eol_type for enc
  by unfold_locales (rule CopyReadLine_ref)

end
