(* ===== verification/CopyCommand.thy ===== *)
theory CopyCommand
  imports RelationMap
begin

text \<open>
  The SQL command with which the table synchronisation asks the publisher for the rows of a
  table (\<^verbatim>\<open>copy_table\<close> of \<^verbatim>\<open>src/backend/replication/logical/tablesync.c\<close>) and the quoting of the
  identifiers in it (\<^verbatim>\<open>src/backend/utils/adt/ruleutils.c\<close>). The main result is that the command,
  read with the rules of the SQL scanner, names exactly the table and the columns it is built from.
\<close>

section \<open>Quoting\<close>

definition char_between :: "byte \<Rightarrow> byte \<Rightarrow> byte \<Rightarrow> bool" where
  "char_between lo hi ch \<longleftrightarrow> uchar lo \<le> uchar ch \<and> uchar ch \<le> uchar hi"

definition plain_char :: "byte \<Rightarrow> bool" where
  "plain_char ch \<longleftrightarrow> char_between (CHR ''a'') (CHR ''z'') ch \<or> char_between (CHR ''0'') (CHR ''9'') ch \<or> ch = CHR ''_''"

abbreviation DQUOTE :: byte where "DQUOTE \<equiv> CHR 0x22"

text \<open>The keywords of \<^verbatim>\<open>kwlist.h\<close> that are not of the unreserved category.\<close>

definition quoted_keywords :: "cstring list" where
  "quoted_keywords =
    [''all'', ''analyse'', ''analyze'', ''and'', ''any'', ''array'', ''as'', ''asc'', ''asymmetric'', ''authorization'',
     ''between'', ''bigint'', ''binary'', ''bit'', ''boolean'', ''both'', ''case'', ''cast'', ''char'', ''character'',
     ''check'', ''coalesce'', ''collate'', ''collation'', ''column'', ''concurrently'', ''constraint'', ''create'',
     ''cross'', ''current_catalog'', ''current_date'', ''current_role'', ''current_schema'', ''current_time'',
     ''current_timestamp'', ''current_user'', ''dec'', ''decimal'', ''default'', ''deferrable'', ''desc'', ''distinct'',
     ''do'', ''else'', ''end'', ''except'', ''exists'', ''extract'', ''false'', ''fetch'', ''float'', ''for'', ''foreign'',
     ''freeze'', ''from'', ''full'', ''grant'', ''greatest'', ''group'', ''grouping'', ''having'', ''ilike'', ''in'',
     ''initially'', ''inner'', ''inout'', ''int'', ''integer'', ''intersect'', ''interval'', ''into'', ''is'', ''isnull'',
     ''join'', ''json'', ''json_array'', ''json_arrayagg'', ''json_exists'', ''json_object'', ''json_objectagg'',
     ''json_query'', ''json_scalar'', ''json_serialize'', ''json_table'', ''json_value'', ''lateral'', ''leading'',
     ''least'', ''left'', ''like'', ''limit'', ''localtime'', ''localtimestamp'', ''merge_action'', ''national'',
     ''natural'', ''nchar'', ''none'', ''normalize'', ''not'', ''notnull'', ''null'', ''nullif'', ''numeric'', ''offset'',
     ''on'', ''only'', ''or'', ''order'', ''out'', ''outer'', ''overlaps'', ''overlay'', ''placing'', ''position'',
     ''precision'', ''primary'', ''real'', ''references'', ''returning'', ''right'', ''row'', ''select'', ''session_user'',
     ''setof'', ''similar'', ''smallint'', ''some'', ''substring'', ''symmetric'', ''system_user'', ''table'',
     ''tablesample'', ''then'', ''time'', ''timestamp'', ''to'', ''trailing'', ''treat'', ''trim'', ''true'', ''union'',
     ''unique'', ''user'', ''using'', ''values'', ''varchar'', ''variadic'', ''verbose'', ''when'', ''where'', ''window'',
     ''with'', ''xmlattributes'', ''xmlconcat'', ''xmlelement'', ''xmlexists'', ''xmlforest'', ''xmlnamespaces'',
     ''xmlparse'', ''xmlpi'', ''xmlroot'', ''xmlserialize'', ''xmltable'']"

definition quote_identifier :: "bool \<Rightarrow> cstring \<Rightarrow> cstring" where
  "quote_identifier quote_all_identifiers ident =
     (let safe = (ident \<noteq> [] \<and> (char_between (CHR ''a'') (CHR ''z'') (hd ident) \<or> hd ident = CHR ''_'')) \<and> list_all plain_char ident;
          safe = (safe \<and> \<not> quote_all_identifiers);
          safe = (safe \<and> ident \<notin> set quoted_keywords)
      in if safe then ident
         else [DQUOTE] @ concat (map (\<lambda>ch. if ch = DQUOTE then [DQUOTE, ch] else [ch]) ident) @ [DQUOTE])"

definition quote_qualified_identifier :: "(cstring \<Rightarrow> cstring) \<Rightarrow> cstring option \<Rightarrow> cstring \<Rightarrow> cstring" where
  "quote_qualified_identifier quote qualifier ident =
     (case qualifier of None \<Rightarrow> [] | Some q \<Rightarrow> quote q @ ''.'') @ quote ident"

section \<open>The command\<close>

text \<open>The two loops over the columns write the same list.\<close>

fun quoted_names :: "(cstring \<Rightarrow> cstring) \<Rightarrow> cstring list \<Rightarrow> cstring" where
  "quoted_names quote [] = []"
| "quoted_names quote [name] = quote name"
| "quoted_names quote (name # name2 # names) = quote name @ '', '' @ quoted_names quote (name2 # names)"

text \<open>
  \<open>quals\<close> are the row filters of the publications, \<open>binary\<close> that the subscription asks for the
  binary format and the publisher is of version 16 or later.
\<close>

definition copy_command ::
    "(cstring \<Rightarrow> cstring) \<Rightarrow> byte \<Rightarrow> LogicalRepRelation \<Rightarrow> cstring list \<Rightarrow> bool \<Rightarrow> bool \<Rightarrow> cstring" where
  "copy_command quote relkind lrel quals gencol_published binary =
     (let names = take (natts lrel) (attnames lrel);
          tbl = quote_qualified_identifier quote (Some (nspname lrel)) (relname lrel)
      in (if relkind = RELKIND_RELATION \<and> quals = [] \<and> \<not> gencol_published then
            ''COPY '' @ tbl @ (if natts lrel \<noteq> 0 then '' ('' @ quoted_names quote names @ '')'' else []) @ '' TO STDOUT''
          else
            ''COPY (SELECT '' @ quoted_names quote names @ '' FROM '' @
            (if relkind = RELKIND_RELATION then ''ONLY '' else []) @ tbl @
            (case quals of [] \<Rightarrow> [] | q # qs \<Rightarrow> '' WHERE '' @ q @ concat (map (\<lambda>q. '' OR '' @ q) qs)) @
            '') TO STDOUT'') @
         (if binary then '' WITH (FORMAT binary)'' else []))"

section \<open>Reading the command back\<close>

text \<open>
  The identifiers of SQL as \<^verbatim>\<open>scan.l\<close> reads them: delimited by quotes, where two quotes stand for one
  and nothing between the quotes is an error, or a bare word, which is folded to lower case and
  is a name only if it is not a keyword. Names of more than 63 bytes, which the server would
  shorten, are not accepted here.
\<close>

definition ident_start :: "byte \<Rightarrow> bool" where
  "ident_start c \<longleftrightarrow> char_between (CHR ''A'') (CHR ''Z'') c \<or> char_between (CHR ''a'') (CHR ''z'') c \<or> 128 \<le> uchar c \<or> c = CHR ''_''"

definition ident_cont :: "byte \<Rightarrow> bool" where
  "ident_cont c \<longleftrightarrow> ident_start c \<or> char_between (CHR ''0'') (CHR ''9'') c \<or> c = CHR ''$''"

definition downcase :: "byte \<Rightarrow> byte" where
  "downcase c = (if char_between (CHR ''A'') (CHR ''Z'') c then char_of (uchar c + 32) else c)"

fun read_delimited :: "byte list \<Rightarrow> (cstring \<times> byte list) option" where
  "read_delimited [] = None"
| "read_delimited (c # cs) =
     (if c \<noteq> DQUOTE then map_option (\<lambda>(s, rest). (c # s, rest)) (read_delimited cs)
      else case cs of [] \<Rightarrow> Some ([], [])
        | d # ds \<Rightarrow> if d = DQUOTE then map_option (\<lambda>(s, rest). (DQUOTE # s, rest)) (read_delimited ds) else Some ([], cs))"

definition sql_name :: "cstring \<Rightarrow> bool" where
  "sql_name s \<longleftrightarrow> s \<noteq> [] \<and> length s < 64"

definition read_ident :: "byte list \<Rightarrow> (cstring \<times> byte list) option" where
  "read_ident cs =
     (if cs = [] then None
      else if hd cs = DQUOTE then
        case read_delimited (tl cs) of None \<Rightarrow> None | Some (s, rest) \<Rightarrow> if sql_name s then Some (s, rest) else None
      else if ident_start (hd cs) then
        let w = map downcase (takeWhile ident_cont cs)
        in if sql_name w \<and> w \<notin> set quoted_keywords then Some (w, dropWhile ident_cont cs) else None
      else None)"

lemma read_delimited_shorter: "read_delimited cs = Some (s, rest) \<Longrightarrow> length rest \<le> length cs"
  by (induction cs arbitrary: s rest rule: read_delimited.induct) (fastforce split: if_splits list.splits)+

lemma read_ident_shorter: "read_ident cs = Some (s, rest) \<Longrightarrow> length rest \<le> length cs"
  using read_delimited_shorter [of "tl cs" s rest]
  by (cases cs) (auto simp: read_ident_def Let_def le_SucI length_dropWhile_le split: if_splits option.splits)

function read_names :: "byte list \<Rightarrow> (cstring list \<times> byte list) option" where
  "read_names cs =
     (case read_ident cs of None \<Rightarrow> None
      | Some (s, rest) \<Rightarrow>
          if take 2 rest = '', '' then map_option (\<lambda>(ns, rest). (s # ns, rest)) (read_names (drop 2 rest))
          else Some ([s], rest))"
  by pat_completeness auto

termination
proof (relation "measure length", goal_cases)
  case (2 cs p s rest)
  then have "length rest \<le> length cs" by (auto dest: read_ident_shorter)
  moreover have "2 \<le> length rest" using 2(3) by (cases rest; cases "tl rest") auto
  ultimately show ?case by simp
qed simp

declare read_names.simps [simp del]

definition read_qualified :: "byte list \<Rightarrow> (cstring \<times> cstring \<times> byte list) option" where
  "read_qualified cs =
     (case read_ident cs of None \<Rightarrow> None
      | Some (nsp, rest) \<Rightarrow> if take 1 rest = ''.'' then map_option (\<lambda>r. (nsp, r)) (read_ident (drop 1 rest)) else None)"

definition read_fixed :: "byte list \<Rightarrow> byte list \<Rightarrow> byte list option" where
  "read_fixed word cs = (if take (length word) cs = word then Some (drop (length word) cs) else None)"

text \<open>
  What a COPY command asks for: the table, whether the rows of its children are left out, the
  columns, and what follows. COPY of a table by its name never includes the children; COPY of a
  query does unless the query says ONLY.
\<close>

record copy_target =
  ct_nsp :: cstring
  ct_rel :: cstring
  ct_only :: bool
  ct_names :: "cstring list"
  ct_rest :: "byte list"

definition read_copy_table :: "byte list \<Rightarrow> copy_target option" where
  "read_copy_table cs =
     (case read_qualified cs of None \<Rightarrow> None
      | Some (nsp, rel, rest) \<Rightarrow>
          (case read_fixed '' ('' rest of
             None \<Rightarrow> Some \<lparr>ct_nsp = nsp, ct_rel = rel, ct_only = True, ct_names = [], ct_rest = rest\<rparr>
           | Some rest \<Rightarrow>
               (case read_names rest of None \<Rightarrow> None
                | Some (names, rest) \<Rightarrow>
                    map_option (\<lambda>rest. \<lparr>ct_nsp = nsp, ct_rel = rel, ct_only = True, ct_names = names, ct_rest = rest\<rparr>)
                      (read_fixed '')'' rest))))"

definition read_copy_query :: "byte list \<Rightarrow> copy_target option" where
  "read_copy_query cs =
     (case (if take 1 cs = '' '' then Some ([], cs) else read_names cs) of None \<Rightarrow> None
      | Some (names, rest) \<Rightarrow>
          (case read_fixed '' FROM '' rest of None \<Rightarrow> None
           | Some rest \<Rightarrow>
               let only = take 5 rest = ''ONLY ''
               in map_option (\<lambda>(nsp, rel, rest). \<lparr>ct_nsp = nsp, ct_rel = rel, ct_only = only, ct_names = names, ct_rest = rest\<rparr>)
                    (read_qualified (if only then drop 5 rest else rest))))"

definition read_copy :: "byte list \<Rightarrow> copy_target option" where
  "read_copy cs =
     (case read_fixed ''COPY (SELECT '' cs of
        Some rest \<Rightarrow> read_copy_query rest
      | None \<Rightarrow> (case read_fixed ''COPY '' cs of None \<Rightarrow> None | Some rest \<Rightarrow> read_copy_table rest))"

text \<open>What may follow an identifier without becoming part of it.\<close>

definition ends_ident :: "byte list \<Rightarrow> bool" where
  "ends_ident rest \<longleftrightarrow> rest \<noteq> [] \<and> hd rest \<noteq> DQUOTE \<and> \<not> ident_cont (hd rest)"

lemma ends_ident_simps [simp]:
  "ends_ident (CHR '','' # r)" "ends_ident (CHR '')'' # r)" "ends_ident (CHR ''.'' # r)" "ends_ident (CHR '' '' # r)"
  by (simp_all add: ends_ident_def ident_cont_def ident_start_def char_between_def)

lemma read_delimited_quoted:
  assumes "ends_ident rest"
  shows "read_delimited (concat (map (\<lambda>ch. if ch = DQUOTE then [DQUOTE, ch] else [ch]) s) @ DQUOTE # rest) = Some (s, rest)"
proof (induction s)
  case Nil
  with assms show ?case by (cases rest) (auto simp: ends_ident_def)
qed auto

lemma plain_char_ident: "plain_char c \<Longrightarrow> ident_cont c \<and> downcase c = c"
  by (auto simp: plain_char_def ident_cont_def ident_start_def downcase_def char_between_def)

lemma read_ident_quote:
  assumes "ends_ident rest" and name: "sql_name ident"
  shows "read_ident (quote_identifier qa ident @ rest) = Some (ident, rest)"
proof (cases "(ident \<noteq> [] \<and> (char_between (CHR ''a'') (CHR ''z'') (hd ident) \<or> hd ident = CHR ''_'')) \<and>
    list_all plain_char ident \<and> \<not> qa \<and> ident \<notin> set quoted_keywords")
  case True
  then have q: "quote_identifier qa ident = ident" by (simp add: quote_identifier_def)
  have plain: "\<forall>c \<in> set ident. ident_cont c \<and> downcase c = c" using True plain_char_ident by (simp add: list_all_iff)
  have "hd ident \<noteq> DQUOTE" "ident_start (hd ident)" using True by (cases ident; auto simp: char_between_def ident_start_def)+
  moreover have "takeWhile ident_cont (ident @ rest) = ident" "dropWhile ident_cont (ident @ rest) = rest"
    using plain assms by (cases rest; auto simp: takeWhile_append dropWhile_append ends_ident_def)+
  moreover have "map downcase ident = ident" using plain by (simp add: map_idI)
  ultimately show ?thesis unfolding q using True name by (simp add: read_ident_def)
next
  case False
  then have "quote_identifier qa ident =
      [DQUOTE] @ concat (map (\<lambda>ch. if ch = DQUOTE then [DQUOTE, ch] else [ch]) ident) @ [DQUOTE]"
    by (auto simp: quote_identifier_def)
  then show ?thesis using read_delimited_quoted [OF assms(1)] name by (simp add: read_ident_def)
qed

text \<open>A quoted name starts with neither a blank, nor a parenthesis, nor a capital letter.\<close>

lemma quote_identifier_head:
  assumes "sql_name ident"
  obtains c cs where "quote_identifier qa ident = c # cs" and "c \<noteq> CHR '' ''" and "c \<noteq> CHR ''(''" and "c \<noteq> CHR ''O''"
proof (cases "quote_identifier qa ident = ident")
  case True
  obtain c cs where i: "ident = c # cs" using assms by (cases ident) (auto simp: sql_name_def)
  then have "plain_char c" if "c \<noteq> DQUOTE" using True that by (auto simp: quote_identifier_def split: if_splits)
  then have "c \<noteq> CHR '' ''" "c \<noteq> CHR ''(''" "c \<noteq> CHR ''O''" by (auto simp: plain_char_def char_between_def)
  then show ?thesis using that True i by simp
next
  case False
  then have "quote_identifier qa ident = DQUOTE # concat (map (\<lambda>ch. if ch = DQUOTE then [DQUOTE, ch] else [ch]) ident) @ [DQUOTE]"
    by (auto simp: quote_identifier_def)
  then show ?thesis by (rule that) simp_all
qed

lemma read_names_quoted:
  assumes "names \<noteq> []" and "ends_ident rest" and "take 2 rest \<noteq> '', ''" and "list_all sql_name names"
  shows "read_names (quoted_names (quote_identifier qa) names @ rest) = Some (names, rest)"
  using assms(1,4)
proof (induction names rule: induct_list012)
  case (2 name)
  then show ?case using assms(2,3) by (subst read_names.simps) (simp add: read_ident_quote)
next
  case (3 name name2 names)
  then show ?case by (subst read_names.simps) (simp add: read_ident_quote)
qed simp

lemma read_qualified_quoted:
  assumes "sql_name nsp" and "sql_name rel" and "ends_ident rest"
  shows "read_qualified (quote_qualified_identifier (quote_identifier qa) (Some nsp) rel @ rest) = Some (nsp, rel, rest)"
  using assms by (simp add: read_qualified_def quote_qualified_identifier_def read_ident_quote)

lemma read_fixed_append [simp]: "read_fixed word (word @ rest) = Some rest"
  by (simp add: read_fixed_def)

text \<open>The text behind the table: the row filters joined by OR, the destination and the format.\<close>

fun or_filters :: "cstring list \<Rightarrow> cstring" where
  "or_filters [] = []"
| "or_filters [q] = q"
| "or_filters (q # q2 # qs) = q @ '' OR '' @ or_filters (q2 # qs)"

definition copy_tail :: "bool \<Rightarrow> cstring list \<Rightarrow> bool \<Rightarrow> cstring" where
  "copy_tail query quals binary =
     (if quals = [] then [] else '' WHERE '' @ or_filters quals) @ (if query then '')'' else []) @ '' TO STDOUT'' @
     (if binary then '' WITH (FORMAT binary)'' else [])"

lemma or_filters_concat: "or_filters (q # qs) = q @ concat (map ((@) '' OR '') qs)"
  by (induction qs arbitrary: q) simp_all

lemma copy_tail_ends: "ends_ident (copy_tail query quals binary)" "take 2 (copy_tail query quals binary) \<noteq> '' (''"
  by (cases query; cases quals; simp add: copy_tail_def)+

lemma read_copy_table_quoted:
  assumes "sql_name nsp" and "sql_name rel" and "list_all sql_name names" and "take 2 rest \<noteq> '' (''" and "ends_ident rest"
  shows "read_copy_table (quote_qualified_identifier (quote_identifier qa) (Some nsp) rel @
      (if names \<noteq> [] then '' ('' @ quoted_names (quote_identifier qa) names @ '')'' else []) @ rest) =
    Some \<lparr>ct_nsp = nsp, ct_rel = rel, ct_only = True, ct_names = names, ct_rest = rest\<rparr>"
proof (cases "names = []")
  case True
  moreover have "read_fixed '' ('' rest = None" using assms(4) by (simp add: read_fixed_def numeral_2_eq_2)
  ultimately show ?thesis using assms by (simp add: read_copy_table_def read_qualified_quoted)
next
  case False
  then show ?thesis using assms read_names_quoted [OF False, of "CHR '')'' # rest"]
    by (simp add: read_copy_table_def read_qualified_quoted read_fixed_def)
qed

lemma read_copy_query_quoted:
  assumes "sql_name nsp" and "sql_name rel" and "list_all sql_name names" and "ends_ident rest"
  shows "read_copy_query (quoted_names (quote_identifier qa) names @ '' FROM '' @ (if only then ''ONLY '' else []) @
      quote_qualified_identifier (quote_identifier qa) (Some nsp) rel @ rest) =
    Some \<lparr>ct_nsp = nsp, ct_rel = rel, ct_only = only, ct_names = names, ct_rest = rest\<rparr>"
proof -
  let ?q = "quote_identifier qa" and ?tbl = "quote_qualified_identifier (quote_identifier qa) (Some nsp) rel"
  let ?from = "'' FROM '' @ (if only then ''ONLY '' else []) @ ?tbl @ rest"
  obtain c cs where q: "?q nsp = c # cs" and c: "c \<noteq> CHR ''O''" by (rule quote_identifier_head [OF assms(1)])
  have names: "(if take 1 (quoted_names ?q names @ ?from) = '' '' then Some ([], quoted_names ?q names @ ?from)
      else read_names (quoted_names ?q names @ ?from)) = Some (names, ?from)"
  proof (cases names)
    case (Cons name names')
    obtain d ds where "?q name = d # ds" "d \<noteq> CHR '' ''"
      by (rule quote_identifier_head [of name]) (use assms(3) Cons in simp)
    then have "take 1 (quoted_names ?q names @ ?from) \<noteq> '' ''" unfolding Cons by (cases names') simp_all
    then show ?thesis using read_names_quoted [of names ?from] Cons assms(3) by simp
  qed simp
  have "take 5 (?tbl @ rest) \<noteq> ''ONLY ''" unfolding quote_qualified_identifier_def using q c by simp
  then show ?thesis unfolding read_copy_query_def names [simplified append_assoc] using assms
    by (simp add: names [simplified append_assoc] read_fixed_def read_qualified_quoted)
qed

text \<open>Claim C20. The COPY command for a table, in the form for a whole table and in the form with a query for partitioned
  tables, row filters and generated columns, names the table and the columns it was built from and nothing else: read by the
  rules of the SQL scanner, keywords included, its identifiers are the schema, the table and the columns in their order,
  whatever bytes the names contain. Children are left out exactly for an ordinary table, and the rest of the command is the
  row filters joined by OR, the destination and the format.\<close>

theorem copy_command_names:
  assumes "quote = quote_identifier qa" and "natts lrel = length (attnames lrel)"
    and "sql_name (nspname lrel)" and "sql_name (relname lrel)" and "list_all sql_name (attnames lrel)"
  shows "read_copy (copy_command quote relkind lrel quals gencol_published binary) =
    Some \<lparr>ct_nsp = nspname lrel, ct_rel = relname lrel, ct_only = (relkind = RELKIND_RELATION), ct_names = attnames lrel,
      ct_rest = copy_tail (relkind \<noteq> RELKIND_RELATION \<or> quals \<noteq> [] \<or> gencol_published) quals binary\<rparr>"
proof (cases "relkind = RELKIND_RELATION \<and> quals = [] \<and> \<not> gencol_published")
  case True
  obtain c cs where "quote_identifier qa (nspname lrel) = c # cs" "c \<noteq> CHR ''(''" by (rule quote_identifier_head [OF assms(3)])
  then show ?thesis using True assms read_copy_table_quoted [OF assms(3-5), of "copy_tail False [] binary" qa]
    by (simp add: read_copy_def copy_command_def quote_qualified_identifier_def read_fixed_def copy_tail_ends copy_tail_def split: if_splits)
next
  case False
  have "copy_command quote relkind lrel quals gencol_published binary = ''COPY (SELECT '' @ quoted_names quote (attnames lrel) @ '' FROM '' @
      (if relkind = RELKIND_RELATION then ''ONLY '' else []) @ quote_qualified_identifier quote (Some (nspname lrel)) (relname lrel) @
      copy_tail True quals binary"
    using False assms(2) unfolding copy_command_def copy_tail_def by (cases quals) (auto simp del: append_Cons append_Nil simp: or_filters_concat)
  moreover have "(relkind \<noteq> RELKIND_RELATION \<or> quals \<noteq> [] \<or> gencol_published) = True" using False by blast
  ultimately show ?thesis using assms read_copy_query_quoted [OF assms(3-5), of "copy_tail True quals binary" qa]
    by (simp only: read_copy_def read_fixed_append option.case copy_tail_ends)
qed

definition demo_copy_rel :: LogicalRepRelation where
  "demo_copy_rel = \<lparr>remoteid = 7, nspname = ''public'', relname = ''user'', natts = 2, attnames = [''id'', [CHR ''a'', DQUOTE, CHR '','']],
     atttyps = [23, 25], replident = CHR ''d'', attkeys = [0]\<rparr>"

theorem copy_command_names_witness:
  "read_copy (copy_command (quote_identifier False) (CHR ''p'') demo_copy_rel [''(id > 7)'', ''(id < 3)''] False False) =
    Some \<lparr>ct_nsp = ''public'', ct_rel = ''user'', ct_only = False, ct_names = [''id'', [CHR ''a'', DQUOTE, CHR '','']],
      ct_rest = '' WHERE (id > 7) OR (id < 3)) TO STDOUT''\<rparr>"
  using copy_command_names [OF refl, where lrel = demo_copy_rel and relkind = "CHR ''p''" and quals = "[''(id > 7)'', ''(id < 3)'']"]
  by (simp add: demo_copy_rel_def sql_name_def copy_tail_def)

end
