(* ===== verification/CopyPublish.thy ===== *)
theory CopyPublish
  imports CopyInput CopyCommand ChangeJson
begin

text \<open>
  The initial copy of a table: how the rows of a COPY become Kafka messages
  (\<^verbatim>\<open>COPY_TO_JSON\<close> and \<^verbatim>\<open>CopyFromTextLikeOneRow\<close> of
  \<^verbatim>\<open>src/backend/commands/copyfromparse.c\<close>, the loop of \<^verbatim>\<open>CopyFrom\<close> in
  \<^verbatim>\<open>copyfrom.c\<close>) and how the table synchronisation prepares and starts it (\<^verbatim>\<open>copy_table\<close> of
  \<^verbatim>\<open>src/backend/replication/logical/tablesync.c\<close>). Modelled is the text format with the
  options of the synchronisation: no header line, no DEFAULT, errors stop the copy.
\<close>

section \<open>State\<close>

text \<open>\<^verbatim>\<open>CopyJsonInfo\<close>; its field \<^verbatim>\<open>before\<close> is used nowhere. The three buffers have a fixed size.\<close>

record CopyJsonInfo =
  info_dbname :: "cell list"
  info_table_name :: "cell list"
  info_attnames :: "cstring option list"
  info_after :: "cstring option list"
  info_field_count :: nat
  info_kafka_server :: "cell list"
  info_is_not_initdb :: bool

text \<open>The global variables of the copy: the description and the producer.\<close>

record ('w, 'rk, 'rkt) copy_publisher =
  g_json_copy_info :: CopyJsonInfo
  copy_g_rk :: "'rk option"
  copy_g_rkt :: "'rkt option"
  copy_kafka_initialized :: bool
  copy_producer :: "'w kafka_state"

text \<open>
  What a COPY reads and never changes. \<open>in_function\<close> are the input functions of the column
  types and \<open>defexpr\<close> the default expressions of the columns in \<open>defmap\<close>.
\<close>

record 'd copy_env =
  file_encoding :: encoding
  verify_field :: "byte list \<Rightarrow> bool"
  copts :: copy_opts
  attnumlist :: "nat list"
  num_phys_attrs :: nat
  in_function :: "nat \<Rightarrow> cstring option \<Rightarrow> 'd res"
  defmap :: "nat list"
  defexpr :: "nat \<Rightarrow> ('d \<times> bool) res"

record ('w, 'rk, 'rkt) CopyFromState =
  cinput :: copy_input
  attribute_buf :: StringInfoData
  max_fields :: nat
  cur_lineno :: "64 word"
  cpub :: "('w, 'rk, 'rkt) copy_publisher"

section \<open>Building and sending the message of a row\<close>

definition array_at :: "'a list \<Rightarrow> nat \<Rightarrow> 'a res" where
  "array_at xs i = (if i < length xs then Inr (xs ! i) else Inl (Undefined OutOfBounds))"

definition array_set :: "'a list \<Rightarrow> nat \<Rightarrow> 'a \<Rightarrow> 'a list res" where
  "array_set xs i x = (if i < length xs then Inr (xs[i := x]) else Inl (Undefined OutOfBounds))"

text \<open>A missing name is left out; a missing or empty value is null.\<close>

definition after_item :: "cstring option \<Rightarrow> 'r::zero cJSON res" where
  "after_item v = (case v of None \<Rightarrow> Inr cJSON_CreateNull
     | Some s \<Rightarrow> if c_str s = [] then Inr cJSON_CreateNull else cJSON_CreateString (Some s))"

fun copy_columns :: "CopyJsonInfo \<Rightarrow> nat list \<Rightarrow> 'r::zero cJSON \<Rightarrow> 'r cJSON \<Rightarrow> ('r cJSON \<times> 'r cJSON) res" where
  "copy_columns info [] names array = Inr (names, array)"
| "copy_columns info (i # is) names array =
     bindR (array_at (info_attnames info) i) (\<lambda>name.
     bindR (case name of None \<Rightarrow> Inr names
            | Some s \<Rightarrow> bindR (cJSON_CreateString (Some s)) (\<lambda>it. Inr (cJSON_AddItemToArray names (Some it)))) (\<lambda>names.
     bindR (array_at (info_after info) i) (\<lambda>v.
     bindR (after_item v) (\<lambda>it.
     copy_columns info is names (cJSON_AddItemToArray array (Some it))))))"

definition copy_item :: "CopyJsonInfo \<Rightarrow> 'r::zero cJSON res" where
  "copy_item info =
     bindR (string_at (info_dbname info)) (\<lambda>db.
     bindR (string_at (info_table_name info)) (\<lambda>tbl.
     bindR (cJSON_AddStringToObject cJSON_CreateObject (Some ''op'') (Some ''C'')) (\<lambda>root.
     bindR (cJSON_AddStringToObject root (Some ''db'') (Some db)) (\<lambda>root.
     bindR (cJSON_AddStringToObject root (Some ''table'') (Some tbl)) (\<lambda>root.
     bindR (copy_columns info [0..<info_field_count info] cJSON_CreateArray cJSON_CreateArray) (\<lambda>(array_attnames, array_after).
     bindR (cJSON_AddItemToObject root (Some ''attnames'') (Some array_attnames)) (\<lambda>root.
     cJSON_AddItemToObject root (Some ''after'') (Some array_after))))))))"

text \<open>The producer is started by the first row.\<close>

definition copy_kafka_init ::
    "('w, 'rk, 'rkt) rdkafka \<Rightarrow> guc \<Rightarrow> ('w, 'rk, 'rkt) copy_publisher \<Rightarrow> ('w, 'rk, 'rkt) copy_publisher res" where
  "copy_kafka_init lib guc p =
     bindR
       (if copy_g_rk p = None \<and> \<not> copy_kafka_initialized p then
          bindR (string_at (info_kafka_server (g_json_copy_info p))) (\<lambda>server.
          bindR (string_at (info_dbname (g_json_copy_info p))) (\<lambda>topic.
          bindR (kafka_init lib guc (copy_g_rk p) (copy_g_rkt p) (Some server) (Some topic) (copy_producer p))
            (\<lambda>(r, rk, rkt, st).
             if r = 0
             then Inr (p\<lparr>copy_g_rk := rk, copy_g_rkt := rkt, copy_producer := st, copy_kafka_initialized := True\<rparr>)
             else Inl (PgError ''Kafka is not initialized''))))
        else Inr p)
       (\<lambda>p. if copy_g_rk p = None \<or> \<not> copy_kafka_initialized p
             then Inl (PgError ''Kafka is not initialized'') else Inr p)"

definition COPY_TO_JSON ::
    "('w, 'rk, 'rkt) rdkafka \<Rightarrow> guc \<Rightarrow> 'r::zero double_ops \<Rightarrow> ('w, 'rk, 'rkt) copy_publisher \<Rightarrow>
     ('w, 'rk, 'rkt) copy_publisher res" where
  "COPY_TO_JSON lib guc fp p =
     bindR (copy_kafka_init lib guc p) (\<lambda>p.
     bindR (copy_item (g_json_copy_info p)) (\<lambda>root.
     bindR (cJSON_Print fp root) (\<lambda>json_str.
     case json_str of None \<Rightarrow> Inr p
     | Some str \<Rightarrow> bindR (kafka_send_optimized lib (Some str) (copy_g_rk p) (copy_g_rkt p) (copy_producer p)) (\<lambda>st.
         Inr (p\<lparr>copy_producer := st\<rparr>)))))"

section \<open>Reading rows\<close>

text \<open>The next line split into fields, or none when the data ends at the start of a line.\<close>

definition NextCopyFromRawFieldsInternal ::
    "'d copy_env \<Rightarrow> ('w, 'rk, 'rkt) CopyFromState \<Rightarrow> (cstring option list option \<times> ('w, 'rk, 'rkt) CopyFromState) res" where
  "NextCopyFromRawFieldsInternal env cs =
     bindR (CopyReadLine (file_encoding env) (cinput cs)) (\<lambda>(finished, inp).
     let cs = cs\<lparr>cur_lineno := cur_lineno cs + 1, cinput := inp\<rparr>
     in if finished \<and> si_len (line_buf inp) = 0 then Inr (None, cs)
        else
          bindR (CopyReadAttributesText (verify_field env) (copts env) (si_bytes (line_buf inp)) (attribute_buf cs, max_fields cs))
            (\<lambda>(field_strings, buf, n). Inr (Some field_strings, cs\<lparr>attribute_buf := buf, max_fields := n\<rparr>)))"

definition pstrdup :: "cstring option \<Rightarrow> cstring res" where
  "pstrdup s = (case s of None \<Rightarrow> Inl (Undefined NullPointer) | Some t \<Rightarrow> Inr (c_str t))"

text \<open>The loop over \<^verbatim>\<open>attnumlist\<close>: copy the text for the message, then convert it.\<close>

fun copy_row_columns ::
    "'d copy_env \<Rightarrow> nat list \<Rightarrow> cstring option list \<Rightarrow> nat \<Rightarrow> cstring option list \<Rightarrow> 'd TupleTableSlot \<Rightarrow>
     (cstring option list \<times> 'd TupleTableSlot) res" where
  "copy_row_columns env [] field_strings cur_val aft slot = Inr (aft, slot)"
| "copy_row_columns env (attno # rest) [] cur_val aft slot = Inl (PgError ''missing data for column'')"
| "copy_row_columns env (attno # rest) (string # field_strings) cur_val aft slot =
     (let m = attno - 1 in
      bindR (pstrdup string) (\<lambda>dup.
      bindR (array_set aft cur_val (Some dup)) (\<lambda>aft.
      bindR (if string \<noteq> None then array_set (tts_isnull slot) m False else Inr (tts_isnull slot)) (\<lambda>nulls.
      bindR (in_function env m string) (\<lambda>v.
      bindR (array_set (tts_values slot) m v) (\<lambda>values.
      copy_row_columns env rest field_strings (cur_val + 1) aft (slot\<lparr>tts_values := values, tts_isnull := nulls\<rparr>)))))))"

definition CopyFromTextLikeOneRow ::
    "('w, 'rk, 'rkt) rdkafka \<Rightarrow> guc \<Rightarrow> 'r::zero double_ops \<Rightarrow> 'd copy_env \<Rightarrow> 'd TupleTableSlot \<Rightarrow> ('w, 'rk, 'rkt) CopyFromState \<Rightarrow>
     ('d TupleTableSlot option \<times> ('w, 'rk, 'rkt) CopyFromState) res" where
  "CopyFromTextLikeOneRow lib guc fp env slot cs =
     bindR (NextCopyFromRawFieldsInternal env cs) (\<lambda>(r, cs).
     case r of None \<Rightarrow> Inr (None, cs)
     | Some field_strings \<Rightarrow>
         if 0 < length (attnumlist env) \<and> length field_strings > length (attnumlist env)
         then Inl (PgError ''extra data after last expected column'')
         else
           bindR (copy_row_columns env (attnumlist env) field_strings 0 (replicate (num_phys_attrs env) None) slot) (\<lambda>(aft, slot).
           let p = (cpub cs)\<lparr>g_json_copy_info := (g_json_copy_info (cpub cs))\<lparr>info_after := aft\<rparr>\<rparr>
           in bindR (if info_is_not_initdb (g_json_copy_info p) then COPY_TO_JSON lib guc fp p else Inr p) (\<lambda>p.
              Inr (Some slot, cs\<lparr>cpub := p\<rparr>))))"

text \<open>All values start as NULL; the columns that are not read get their defaults.\<close>

fun fill_defaults :: "'d copy_env \<Rightarrow> nat list \<Rightarrow> 'd TupleTableSlot \<Rightarrow> 'd TupleTableSlot res" where
  "fill_defaults env [] slot = Inr slot"
| "fill_defaults env (m # ms) slot =
     bindR (defexpr env m) (\<lambda>(v, isnull).
     bindR (array_set (tts_values slot) m v) (\<lambda>values.
     bindR (array_set (tts_isnull slot) m isnull) (\<lambda>nulls.
     fill_defaults env ms (slot\<lparr>tts_values := values, tts_isnull := nulls\<rparr>))))"

definition NextCopyFrom ::
    "('w, 'rk, 'rkt) rdkafka \<Rightarrow> guc \<Rightarrow> 'r::zero double_ops \<Rightarrow> 'd::zero copy_env \<Rightarrow> ('w, 'rk, 'rkt) CopyFromState \<Rightarrow>
     ('d TupleTableSlot option \<times> ('w, 'rk, 'rkt) CopyFromState) res" where
  "NextCopyFrom lib guc fp env cs =
     bindR (CopyFromTextLikeOneRow lib guc fp env
         \<lparr>tts_values = replicate (num_phys_attrs env) 0, tts_isnull = replicate (num_phys_attrs env) True\<rparr> cs) (\<lambda>(r, cs).
     case r of None \<Rightarrow> Inr (None, cs)
     | Some slot \<Rightarrow> bindR (fill_defaults env (defmap env) slot) (\<lambda>slot. Inr (Some slot, cs)))"

text \<open>
  The loop of \<^verbatim>\<open>CopyFrom\<close>: an unconditional \<^verbatim>\<open>continue\<close> behind the call makes the rest
  of its body, which stores the row, unreachable. The result is the number of stored rows.
\<close>

partial_function (option) copy_loop ::
    "('w, 'rk, 'rkt) rdkafka \<Rightarrow> guc \<Rightarrow> 'r::zero double_ops \<Rightarrow> 'd::zero copy_env \<Rightarrow> nat \<Rightarrow> ('w, 'rk, 'rkt) CopyFromState \<Rightarrow>
     (nat \<times> ('w, 'rk, 'rkt) CopyFromState) res option" where
  "copy_loop lib guc fp env processed cs =
     (case NextCopyFrom lib guc fp env cs of
        Inl e \<Rightarrow> Some (Inl e)
      | Inr (None, cs) \<Rightarrow> Some (Inr (processed, cs))
      | Inr (Some slot, cs) \<Rightarrow> copy_loop lib guc fp env processed cs)"

definition CopyFrom ::
    "('w, 'rk, 'rkt) rdkafka \<Rightarrow> guc \<Rightarrow> 'r::zero double_ops \<Rightarrow> 'd::zero copy_env \<Rightarrow> ('w, 'rk, 'rkt) CopyFromState \<Rightarrow>
     (nat \<times> ('w, 'rk, 'rkt) CopyFromState) res option" where
  "CopyFrom lib guc fp env cs = copy_loop lib guc fp env 0 cs"

section \<open>Starting the copy\<close>

text \<open>
  \<^verbatim>\<open>copy_table\<close> fills the description: the database of the connection string, the server by a
  \<^verbatim>\<open>strncpy\<close> of the source's length (which stores no terminator), the table and the names of the
  remote columns.
\<close>

definition copy_info_set :: "guc \<Rightarrow> cstring \<Rightarrow> LogicalRepRelation \<Rightarrow> CopyJsonInfo \<Rightarrow> CopyJsonInfo res" where
  "copy_info_set guc conninfo lrel info =
     bindR (get_dbname_from_conninfo conninfo (info_dbname info) (int (length (c_str conninfo)))) (\<lambda>db.
     case guc ''kafka_server'' of None \<Rightarrow> Inl (Undefined NullPointer)
     | Some server \<Rightarrow>
         bindR (mem_write (info_kafka_server info) 0 (c_str server)) (\<lambda>ks.
         bindR (mem_write (info_table_name info) 0 (table_name_of lrel @ [NUL])) (\<lambda>tn.
         if natts lrel \<le> length (attnames lrel)
         then Inr (info\<lparr>info_dbname := db, info_kafka_server := ks, info_is_not_initdb := True, info_table_name := tn,
                   info_field_count := natts lrel, info_attnames := map (\<lambda>n. Some (c_str n)) (take (natts lrel) (attnames lrel))\<rparr>)
         else Inl (Undefined OutOfBounds))))"

definition make_copy_attnamelist :: "LogicalRepRelMapEntry \<Rightarrow> cstring list" where
  "make_copy_attnamelist rel = take (natts (remoterel rel)) (attnames (remoterel rel))"

text \<open>The attribute number of a name: live columns only, and not a generated one.\<close>

fun find_attnum :: "cstring \<Rightarrow> nat \<Rightarrow> local_attribute list \<Rightarrow> nat res" where
  "find_attnum name i [] = Inl (PgError ''column does not exist'')"
| "find_attnum name i (att # atts) =
     (if la_dropped att then find_attnum name (i + 1) atts
      else if c_str (la_name att) = c_str name
      then (if la_generated att then Inl (PgError ''column is a generated column'') else Inr (i + 1))
      else find_attnum name (i + 1) atts)"

fun named_attnums :: "local_attribute list \<Rightarrow> cstring list \<Rightarrow> nat list \<Rightarrow> nat list res" where
  "named_attnums atts [] attnums = Inr attnums"
| "named_attnums atts (name # names) attnums =
     bindR (find_attnum name 0 atts) (\<lambda>n.
     if n \<in> set attnums then Inl (PgError ''column specified more than once'')
     else named_attnums atts names (attnums @ [n]))"

definition CopyGetAttnums :: "local_attribute list \<Rightarrow> cstring list \<Rightarrow> nat list res" where
  "CopyGetAttnums atts attnamelist =
     (if attnamelist = []
      then Inr (map (\<lambda>(i, att). i + 1) (filter (\<lambda>(i, att). \<not> (la_dropped att \<or> la_generated att)) (enumerate 0 atts)))
      else named_attnums atts attnamelist [])"

text \<open>The fresh state of a COPY whose data arrives as \<open>messages\<close>.\<close>

definition begin_copy_state ::
    "byte list list \<Rightarrow> nat \<Rightarrow> ('w, 'rk, 'rkt) copy_publisher \<Rightarrow> ('w, 'rk, 'rkt) CopyFromState res" where
  "begin_copy_state messages attr_count p =
     bindR initStringInfo (\<lambda>attribute_buf.
     bindR initStringInfo (\<lambda>line_buf.
     Inr \<lparr>cinput = copy_start messages line_buf, attribute_buf = attribute_buf, max_fields = attr_count, cur_lineno = 0, cpub = p\<rparr>))"

text \<open>
  \<open>remote_copy\<close> is the answer of the publisher to the command: an error, or the messages of the
  COPY. \<open>lrel\<close>, its kind, the row filters and whether generated columns are published come from
  the queries of \<^verbatim>\<open>fetch_remote_table_info\<close>. The subscription does not ask for the binary format.
\<close>

definition copy_table ::
    "('w, 'rk, 'rkt) rdkafka \<Rightarrow> guc \<Rightarrow> 'r::zero double_ops \<Rightarrow> (cstring \<Rightarrow> cstring) \<Rightarrow> cstring \<Rightarrow> local_catalog \<Rightarrow>
     (cstring \<Rightarrow> byte list list res) \<Rightarrow> byte \<Rightarrow> LogicalRepRelation \<Rightarrow> cstring list \<Rightarrow> bool \<Rightarrow> 'd::zero copy_env \<Rightarrow>
     relmap \<Rightarrow> ('w, 'rk, 'rkt) copy_publisher \<Rightarrow> (relmap \<times> ('w, 'rk, 'rkt) copy_publisher) res option" where
  "copy_table lib guc fp quote conninfo cat remote_copy relkind lrel quals gencol_published env rm p =
     (case
        bindR (copy_info_set guc conninfo lrel (g_json_copy_info p)) (\<lambda>info.
        bindR (logicalrep_relmap_update lrel rm) (\<lambda>rm.
        bindR (logicalrep_rel_open cat (remoteid lrel) rm) (\<lambda>(relmapentry, rm).
        bindR (remote_copy (copy_command quote relkind lrel quals gencol_published False)) (\<lambda>messages.
        case localrel relmapentry of None \<Rightarrow> Inl (Undefined NullPointer)
        | Some tab \<Rightarrow>
            bindR (CopyGetAttnums (lt_atts tab) (make_copy_attnamelist relmapentry)) (\<lambda>attnums.
            bindR (begin_copy_state messages (length attnums) (p\<lparr>g_json_copy_info := info\<rparr>)) (\<lambda>cs.
            Inr (env\<lparr>attnumlist := attnums, num_phys_attrs := length (lt_atts tab)\<rparr>, rm, cs)))))))
      of Inl e \<Rightarrow> Some (Inl e)
      | Inr (env, rm, cs) \<Rightarrow>
          map_option (\<lambda>r. bindR r (\<lambda>(n, cs). bindR (logicalrep_rel_close (remoteid lrel) rm) (\<lambda>rm. Inr (rm, cpub cs))))
            (CopyFrom lib guc fp env cs))"

section \<open>The message of a row\<close>

text \<open>The JSON value: like that of an insert, with operation C and null for an empty text.\<close>

definition copy_value :: "cstring \<Rightarrow> json" where
  "copy_value s = (if s = [] then JNull else JString s)"

definition copy_json :: "cstring \<Rightarrow> cstring \<Rightarrow> cstring list \<Rightarrow> cstring list \<Rightarrow> json" where
  "copy_json db tbl names vals =
     JObject [(''op'', JString ''C''), (''db'', JString db), (''table'', JString tbl),
       (''attnames'', JArray (map JString names)), (''after'', JArray (map copy_value vals))]"

definition copy_text :: "cstring \<Rightarrow> cstring \<Rightarrow> cstring list \<Rightarrow> cstring list \<Rightarrow> byte list" where
  "copy_text db tbl names vals = text_of (copy_json db tbl names vals) 0 True"

lemma after_item_value: "nul_free s \<Longrightarrow> after_item (Some s) = Inr (item_of (copy_value s) :: 'r::zero cJSON)"
  by (simp add: after_item_def copy_value_def create_items del: item_of.simps)

lemma copy_columns_json:
  assumes "info_attnames info = map Some names" and "info_after info = map Some vals @ unset" and "length vals = length names"
    and "list_all nul_free names" and "list_all nul_free vals" and "i \<le> length names"
  shows "copy_columns info [i..<length names] (item_of (JArray ns)) (item_of (JArray js) :: 'r::zero cJSON) =
    Inr (item_of (JArray (ns @ map JString (drop i names))), item_of (JArray (js @ map copy_value (drop i vals))))"
  using assms(6)
proof (induction "length names - i" arbitrary: i ns js)
  case (Suc n)
  then have i: "i < length names" by simp
  have nf: "nul_free (names ! i)" "nul_free (vals ! i)" using assms(3-5) i by (simp_all add: list_all_length)
  have at: "array_at (info_attnames info) i = Inr (Some (names ! i))" "array_at (info_after info) i = Inr (Some (vals ! i))"
    using assms(1-3) i by (simp_all add: array_at_def nth_append)
  have "drop i names = names ! i # drop (Suc i) names" "drop i vals = vals ! i # drop (Suc i) vals"
    using i assms(3) by (simp_all add: Cons_nth_drop_Suc)
  then show ?case using Suc.hyps(1) [of "Suc i"] Suc.hyps(2) i nf at
    by (simp add: upt_conv_Cons create_items(1) after_item_value add_to_array del: item_of.simps)
qed (use assms in simp)

lemma copy_item_json:
  assumes "string_at (info_dbname info) = Inr db" and "string_at (info_table_name info) = Inr tbl"
    and "info_attnames info = map Some names" and "info_after info = map Some vals @ unset" and "length vals = length names"
    and "list_all nul_free names" and "list_all nul_free vals" and "info_field_count info = length names"
  shows "copy_item info = Inr (item_of (copy_json db tbl names vals) :: 'r::zero cJSON)"
proof -
  have "nul_free db" "nul_free tbl" using assms(1,2) by (auto dest: string_at_nul_free)
  then show ?thesis
    using copy_columns_json [OF assms(3-7), of 0 "[]" "[]", where 'r = 'r] assms(1,2,8)
    by (simp add: copy_item_def copy_json_def create_items add_string_to_object add_to_object del: item_of.simps)
qed

lemma copy_json_nul_free:
  "nul_free db \<Longrightarrow> nul_free tbl \<Longrightarrow> list_all nul_free names \<Longrightarrow> list_all nul_free vals \<Longrightarrow> json_nul_free (copy_json db tbl names vals)"
  by (auto simp: copy_json_def copy_value_def list_all_iff)

section \<open>Sending the rows\<close>

text \<open>The copy's producer as one of the changes' publishers, and a description that is complete.\<close>

definition as_publisher :: "('w, 'rk, 'rkt) copy_publisher \<Rightarrow> ('w, 'rk, 'rkt) change_publisher" where
  "as_publisher p = \<lparr>apply_dbname = info_dbname (g_json_copy_info p), apply_g_rk = copy_g_rk p, apply_g_rkt = copy_g_rkt p,
     kafka_initialized = copy_kafka_initialized p, producer = copy_producer p\<rparr>"

definition described :: "cstring \<Rightarrow> cstring \<Rightarrow> cstring list \<Rightarrow> CopyJsonInfo \<Rightarrow> bool" where
  "described db tbl names info \<longleftrightarrow>
     string_at (info_dbname info) = Inr db \<and> string_at (info_table_name info) = Inr tbl \<and> info_attnames info = map Some names \<and>
     info_field_count info = length names \<and> list_all nul_free names \<and> info_is_not_initdb info"

lemma described_after [simp]: "described db tbl names (info\<lparr>info_after := aft\<rparr>) = described db tbl names info"
  by (simp add: described_def)

lemma as_publisher_after [simp]:
  "as_publisher (p\<lparr>g_json_copy_info := (g_json_copy_info p)\<lparr>info_after := aft\<rparr>\<rparr>) = as_publisher p"
  by (simp add: as_publisher_def)

lemma copy_kafka_init_ready: "ready db (as_publisher p) \<Longrightarrow> copy_kafka_init lib guc p = Inr p"
  by (simp add: ready_def as_publisher_def copy_kafka_init_def)

lemma copy_kafka_init_info:
  assumes "copy_kafka_init lib guc p = Inr p1"
  shows "g_json_copy_info p1 = g_json_copy_info p"
    and "copy_kafka_init lib guc (p\<lparr>g_json_copy_info := (g_json_copy_info p)\<lparr>info_after := aft\<rparr>\<rparr>) =
      Inr (p1\<lparr>g_json_copy_info := (g_json_copy_info p1)\<lparr>info_after := aft\<rparr>\<rparr>)"
proof -
  from assms show "g_json_copy_info p1 = g_json_copy_info p"
    by (auto simp: copy_kafka_init_def bindR_eq_Inr_iff split: if_splits)
  show "copy_kafka_init lib guc (p\<lparr>g_json_copy_info := (g_json_copy_info p)\<lparr>info_after := aft\<rparr>\<rparr>) =
      Inr (p1\<lparr>g_json_copy_info := (g_json_copy_info p1)\<lparr>info_after := aft\<rparr>\<rparr>)"
  proof (cases "copy_g_rk p = None \<and> \<not> copy_kafka_initialized p")
    case True
    with assms obtain server topic rk rkt st where "string_at (info_kafka_server (g_json_copy_info p)) = Inr server"
        "string_at (info_dbname (g_json_copy_info p)) = Inr topic"
        "kafka_init lib guc None (copy_g_rkt p) (Some server) (Some topic) (copy_producer p) = Inr (0, Some rk, rkt, st)"
        "p1 = p\<lparr>copy_g_rk := Some rk, copy_g_rkt := rkt, copy_producer := st, copy_kafka_initialized := True\<rparr>"
      by (auto simp: copy_kafka_init_def bindR_eq_Inr_iff split: if_splits)
    with True show ?thesis by (simp add: copy_kafka_init_def)
  next
    case False
    with assms show ?thesis by (auto simp: copy_kafka_init_def bindR_eq_Inr_iff split: if_splits)
  qed
qed

lemma copy_to_json:
  fixes fp :: "'r::zero double_ops"
  assumes c: "client_contract lib accepted" and fp: "sprintf_fits fp"
    and init: "copy_kafka_init lib guc p = Inr p1" "ready db (as_publisher p1)"
    and info: "described db tbl names (g_json_copy_info p)" "info_after (g_json_copy_info p) = map Some vals @ unset"
      "length vals = length names" "list_all nul_free vals" and fits: "fits (copy_text db tbl names vals)"
  obtains p' where "COPY_TO_JSON lib guc fp p = Inr p'" and "ready db (as_publisher p')"
    and "g_json_copy_info p' = g_json_copy_info p" and "handed_over accepted (copy_text db tbl names vals) (as_publisher p1) (as_publisher p')"
proof -
  let ?j = "copy_json db tbl names vals"
  have item: "copy_item (g_json_copy_info p1) = Inr (item_of ?j :: 'r cJSON)"
    unfolding copy_kafka_init_info(1) [OF init(1)]
    using info by (intro copy_item_json [where unset = unset]) (simp_all add: described_def)
  have "nul_free db" "nul_free tbl" using info(1) by (auto simp: described_def dest: string_at_nul_free)
  then have "json_nul_free ?j" using info by (intro copy_json_nul_free) (simp_all add: described_def)
  from send_json [OF c fp init(2) this fits [unfolded copy_text_def]] obtain q where
      q: "send_item lib fp (Inr (item_of ?j)) (as_publisher p1) = Inr q" "ready db q" "handed_over accepted (copy_text db tbl names vals) (as_publisher p1) q"
    unfolding copy_text_def by blast
  from q(1) obtain js where js: "cJSON_Print fp (item_of ?j) = Inr js" by (auto simp: send_item_def bindR_eq_Inr_iff)
  obtain p' where p': "bindR (cJSON_Print fp (item_of ?j)) (\<lambda>json_str. case json_str of None \<Rightarrow> Inr p1
      | Some str \<Rightarrow> bindR (kafka_send_optimized lib (Some str) (copy_g_rk p1) (copy_g_rkt p1) (copy_producer p1)) (\<lambda>st.
         Inr (p1\<lparr>copy_producer := st\<rparr>))) = Inr p'" "q = as_publisher p'" "g_json_copy_info p' = g_json_copy_info p1"
  proof (cases js)
    case None
    with q(1) js show thesis by (intro that [of p1]) (simp_all add: send_item_def del: item_of.simps)
  next
    case (Some str)
    with q(1) js obtain st where "kafka_send_optimized lib (Some str) (copy_g_rk p1) (copy_g_rkt p1) (copy_producer p1) = Inr st"
        "q = as_publisher (p1\<lparr>copy_producer := st\<rparr>)"
      by (auto simp: send_item_def bindR_eq_Inr_iff as_publisher_def)
    with Some js show thesis by (intro that [of "p1\<lparr>copy_producer := st\<rparr>"]) (simp_all del: item_of.simps)
  qed
  show thesis
    by (rule that [of p']) (use p' q init item copy_kafka_init_info(1) [OF init(1)] in \<open>simp_all add: COPY_TO_JSON_def del: item_of.simps\<close>)
qed

section \<open>Reading the rows\<close>

definition env_ok :: "'d copy_env \<Rightarrow> bool" where
  "env_ok env \<longleftrightarrow>
     opts_ok (copts env) \<and> attnumlist env \<noteq> [] \<and> length (attnumlist env) \<le> num_phys_attrs env \<and>
     (\<forall>a \<in> set (attnumlist env). 0 < a \<and> a \<le> num_phys_attrs env) \<and>
     (\<forall>m \<in> set (defmap env). m < num_phys_attrs env \<and> (\<exists>d. defexpr env m = Inr d))"

definition copying :: "'d copy_env \<Rightarrow> ('w, 'rk, 'rkt) CopyFromState \<Rightarrow> bool" where
  "copying env cs \<longleftrightarrow>
     copy_lines.between_lines (file_encoding env) (cinput cs) \<and> si_wf (attribute_buf cs) \<and> max_fields cs = length (attnumlist env)"

lemma next_fields:
  assumes "env_ok env" and "copying env cs" and "stream (cinput cs) = line_of (copts env) fs @ LF # rest"
    and "length fs = length (attnumlist env)" and "length (line_of (copts env) fs) + 2 < MaxAllocSize"
  obtains cs' where "NextCopyFromRawFieldsInternal env cs = Inr (Some fs, cs')" and "copying env cs'"
    and "stream (cinput cs') = rest" and "cpub cs' = cpub cs"
proof -
  have opts: "opts_ok (copts env)" using assms(1) by (simp add: env_ok_def)
  have between: "copy_lines.between_lines (file_encoding env) (cinput cs)" using assms(2) by (simp add: copying_def)
  obtain inp where inp: "CopyReadLine (file_encoding env) (cinput cs) = Inr (False, inp)" "copy_lines.between_lines (file_encoding env) inp"
      "si_bytes (line_buf inp) = line_of (copts env) fs" "stream inp = rest"
    by (rule copy_lines.read_written [OF opts between assms(3,5)])
  have "si_wf (attribute_buf cs)" "fs \<noteq> []" "max_fields cs = length fs" "length (line_of (copts env) fs) < MaxAllocSize"
    using assms by (auto simp: copying_def env_ok_def)
  then obtain buf where "si_wf buf"
      "CopyReadAttributesText (verify_field env) (copts env) (line_of (copts env) fs) (attribute_buf cs, max_fields cs) = Inr (fs, buf, max_fields cs)"
    using read_attributes_line [OF opts, of "attribute_buf cs" fs "max_fields cs" "verify_field env"] by auto
  with inp assms(2) show thesis
    by (intro that [of "cs\<lparr>cur_lineno := cur_lineno cs + 1, cinput := inp, attribute_buf := buf\<rparr>"])
      (auto simp: NextCopyFromRawFieldsInternal_def copying_def)
qed

lemma next_end:
  assumes "copying env cs" and "stream (cinput cs) = []"
  obtains cs' where "NextCopyFromRawFieldsInternal env cs = Inr (None, cs')" and "cpub cs' = cpub cs" and "stream (cinput cs') = []"
proof -
  have "copy_lines.between_lines (file_encoding env) (cinput cs)" using assms(1) by (simp add: copying_def)
  from copy_lines.read_end [OF this assms(2)] obtain inp where
      inp: "CopyReadLine (file_encoding env) (cinput cs) = Inr (True, inp)" "copy_lines.between_lines (file_encoding env) inp"
        "si_bytes (line_buf inp) = []" "stream inp = []" .
  then have "si_len (line_buf inp) = 0"
    using length_si_bytes [of "line_buf inp"] by (simp add: copy_lines.between_lines_def copy_wf_def)
  with inp show thesis
    by (intro that [of "cs\<lparr>cur_lineno := cur_lineno cs + 1, cinput := inp\<rparr>"]) (simp_all add: NextCopyFromRawFieldsInternal_def)
qed

text \<open>The texts of a row that the input functions accept.\<close>

definition convertible :: "'d copy_env \<Rightarrow> nat list \<Rightarrow> cstring list \<Rightarrow> bool" where
  "convertible env attnos vals \<longleftrightarrow> list_all2 (\<lambda>a v. \<exists>d. in_function env (a - 1) (Some v) = Inr d) attnos vals"

definition slot_size :: "nat \<Rightarrow> 'd TupleTableSlot \<Rightarrow> bool" where
  "slot_size n slot \<longleftrightarrow> length (tts_values slot) = n \<and> length (tts_isnull slot) = n"

lemma copy_row_columns_texts:
  assumes "convertible env attnos vals" and "\<forall>a \<in> set attnos. 0 < a \<and> a \<le> n" and "slot_size n slot"
    and "list_all nul_free vals" and "cur + length vals \<le> length aft"
  shows "\<exists>slot'. slot_size n slot' \<and> copy_row_columns env attnos (map Some vals) cur aft slot =
    Inr (take cur aft @ map Some vals @ drop (cur + length vals) aft, slot')"
  using assms unfolding convertible_def
proof (induction attnos vals arbitrary: cur aft slot rule: list_all2_induct)
  case (Cons a attnos v vals)
  then obtain d where d: "in_function env (a - 1) (Some v) = Inr d" by blast
  have a: "a - 1 < n" using Cons.prems(1) by (auto simp: less_eq_Suc_le)
  let ?slot = "slot\<lparr>tts_values := (tts_values slot)[a - 1 := d], tts_isnull := (tts_isnull slot)[a - 1 := False]\<rparr>"
  let ?aft = "aft[cur := Some v]"
  have "slot_size n ?slot" using Cons.prems(2) by (simp add: slot_size_def)
  then obtain slot' where "slot_size n slot'" "copy_row_columns env attnos (map Some vals) (cur + 1) ?aft ?slot =
      Inr (take (cur + 1) ?aft @ map Some vals @ drop (cur + 1 + length vals) ?aft, slot')"
    using Cons.IH [of ?slot "cur + 1" ?aft] Cons.prems by auto
  moreover have "take (cur + 1) ?aft = take cur aft @ [Some v]" using Cons.prems(4) by (simp add: take_Suc_conv_app_nth)
  moreover have "copy_row_columns env (a # attnos) (map Some (v # vals)) cur aft slot =
      copy_row_columns env attnos (map Some vals) (cur + 1) ?aft ?slot"
    using d a Cons.prems by (simp add: pstrdup_def array_set_def slot_size_def Let_def)
  ultimately show ?case by auto
qed auto

lemma copy_row_columns_null:
  assumes "convertible env attnos vals" and "\<forall>a \<in> set attnos. 0 < a \<and> a \<le> n" and "slot_size n slot"
    and "cur + length vals \<le> length aft"
  shows "copy_row_columns env (attnos @ a # attnos') (map Some vals @ None # fs) cur aft slot = Inl (Undefined NullPointer)"
  using assms unfolding convertible_def
proof (induction attnos vals arbitrary: cur aft slot rule: list_all2_induct)
  case Nil
  then show ?case by (simp add: pstrdup_def)
next
  case (Cons b attnos v vals)
  then obtain d where d: "in_function env (b - 1) (Some v) = Inr d" by blast
  have "b - 1 < n" using Cons.prems(1) by (auto simp: less_eq_Suc_le)
  with d Cons.prems show ?case by (simp add: pstrdup_def array_set_def slot_size_def Let_def Cons.IH)
qed

lemma fill_defaults_ok:
  assumes "\<forall>m \<in> set ms. m < n \<and> (\<exists>d. defexpr env m = Inr d)" and "slot_size n slot"
  shows "\<exists>slot'. fill_defaults env ms slot = Inr slot'"
  using assms by (induction ms arbitrary: slot) (auto simp: array_set_def slot_size_def)

definition row_fits :: "'d copy_env \<Rightarrow> cstring \<Rightarrow> cstring \<Rightarrow> cstring list \<Rightarrow> cstring list \<Rightarrow> bool" where
  "row_fits env db tbl names vals \<longleftrightarrow>
     convertible env (attnumlist env) vals \<and> list_all nul_free vals \<and> fits (copy_text db tbl names vals) \<and>
     length (line_of (copts env) (map Some vals)) + 2 < MaxAllocSize"

definition line_bytes :: "'d copy_env \<Rightarrow> cstring list \<Rightarrow> byte list" where
  "line_bytes env vals = line_of (copts env) (map Some vals) @ [LF]"

lemma copy_row_sent:
  fixes fp :: "'r::zero double_ops" and env :: "'d::zero copy_env"
  assumes c: "client_contract lib accepted" "sprintf_fits fp" and ok: "env_ok env" "copying env cs"
    and s: "stream (cinput cs) = line_bytes env vals @ rest" and fits: "row_fits env db tbl names vals"
    and info: "described db tbl names (g_json_copy_info (cpub cs))" "length names = length (attnumlist env)"
    and init: "copy_kafka_init lib guc (cpub cs) = Inr p1" "ready db (as_publisher p1)"
  obtains slot cs' where "NextCopyFrom lib guc fp env cs = Inr (Some slot, cs')" and "copying env cs'" and "stream (cinput cs') = rest"
    and "described db tbl names (g_json_copy_info (cpub cs'))" and "ready db (as_publisher (cpub cs'))"
    and "handed_over accepted (copy_text db tbl names vals) (as_publisher p1) (as_publisher (cpub cs'))"
proof -
  let ?n = "num_phys_attrs env" and ?slot = "\<lparr>tts_values = replicate (num_phys_attrs env) 0, tts_isnull = replicate (num_phys_attrs env) True\<rparr> :: 'd TupleTableSlot"
  have conv: "convertible env (attnumlist env) vals" "list_all nul_free vals" using fits by (simp_all add: row_fits_def)
  have len: "length vals = length (attnumlist env)" using conv(1) by (simp add: convertible_def list_all2_lengthD)
  obtain cs1 where cs1: "NextCopyFromRawFieldsInternal env cs = Inr (Some (map Some vals), cs1)" "copying env cs1"
      "stream (cinput cs1) = rest" "cpub cs1 = cpub cs"
    using next_fields [OF ok, of "map Some vals" rest] s fits len by (auto simp: line_bytes_def row_fits_def)
  obtain slot1 where slot1: "slot_size ?n slot1" "copy_row_columns env (attnumlist env) (map Some vals) 0 (replicate ?n None) ?slot =
      Inr (map Some vals @ replicate (?n - length vals) None, slot1)"
    using copy_row_columns_texts [OF conv(1) _ _ conv(2), of ?n ?slot 0 "replicate ?n None"] ok(1) len
    by (auto simp: env_ok_def slot_size_def drop_replicate)
  let ?p = "(cpub cs)\<lparr>g_json_copy_info := (g_json_copy_info (cpub cs))\<lparr>info_after := map Some vals @ replicate (?n - length vals) None\<rparr>\<rparr>"
    and ?p1 = "p1\<lparr>g_json_copy_info := (g_json_copy_info p1)\<lparr>info_after := map Some vals @ replicate (?n - length vals) None\<rparr>\<rparr>"
  have "ready db (as_publisher ?p1)" "described db tbl names (g_json_copy_info ?p)" "length vals = length names"
      "info_after (g_json_copy_info ?p) = map Some vals @ replicate (?n - length vals) None" "fits (copy_text db tbl names vals)"
    using init(2) info len fits by (simp_all add: row_fits_def)
  from copy_to_json [OF c copy_kafka_init_info(2) [OF init(1)] this(1,2,4,3) conv(2) this(5)] obtain p' where
      p': "COPY_TO_JSON lib guc fp ?p = Inr p'" "ready db (as_publisher p')" "g_json_copy_info p' = g_json_copy_info ?p"
      "handed_over accepted (copy_text db tbl names vals) (as_publisher p1) (as_publisher p')"
    unfolding as_publisher_after by blast
  obtain slot2 where "fill_defaults env (defmap env) slot1 = Inr slot2"
    using fill_defaults_ok [of "defmap env" ?n env slot1] ok(1) slot1(1) by (auto simp: env_ok_def)
  with cs1 slot1 p' len info show thesis
    by (intro that [of slot2 "cs1\<lparr>cpub := p'\<rparr>"])
      (simp_all add: NextCopyFrom_def CopyFromTextLikeOneRow_def Let_def copying_def described_def)
qed

lemma copy_end:
  assumes "copying env cs" and "stream (cinput cs) = []"
  obtains cs' where "copy_loop lib guc fp env n cs = Some (Inr (n, cs'))" and "cpub cs' = cpub cs" and "stream (cinput cs') = []"
proof -
  obtain cs' where "NextCopyFromRawFieldsInternal env cs = Inr (None, cs')" "cpub cs' = cpub cs" "stream (cinput cs') = []"
    by (rule next_end [OF assms])
  then show thesis by (intro that [of cs']) (subst copy_loop.simps, simp_all add: NextCopyFrom_def CopyFromTextLikeOneRow_def)
qed

lemma copy_loop_rows:
  assumes c: "client_contract lib accepted" "sprintf_fits fp" and ok: "env_ok env" and "copying env cs"
    and "stream (cinput cs) = concat (map (line_bytes env) rows)" and "\<forall>vals \<in> set rows. row_fits env db tbl names vals"
    and "described db tbl names (g_json_copy_info (cpub cs))" and names: "length names = length (attnumlist env)"
    and "rows \<noteq> [] \<Longrightarrow> copy_kafka_init lib guc (cpub cs) = Inr p1 \<and> ready db (as_publisher p1)" and "rows = [] \<Longrightarrow> p1 = cpub cs"
  shows "\<exists>cs'. copy_loop lib guc fp env n cs = Some (Inr (n, cs')) \<and> stream (cinput cs') = [] \<and>
    handed_over_all accepted (map (copy_text db tbl names) rows) (as_publisher p1) (as_publisher (cpub cs'))"
  using assms(4-)
proof (induction rows arbitrary: cs p1)
  case Nil
  from copy_end [OF Nil.prems(1), of lib guc fp n] Nil.prems obtain cs' where "copy_loop lib guc fp env n cs = Some (Inr (n, cs'))"
    "cpub cs' = cpub cs" "stream (cinput cs') = []" by auto
  with Nil.prems(7) show ?case by (intro exI [of _ cs']) simp
next
  case (Cons vals rows)
  have fits: "row_fits env db tbl names vals" using Cons.prems(3) by simp
  have s: "stream (cinput cs) = line_bytes env vals @ concat (map (line_bytes env) rows)" using Cons.prems(2) by simp
  have init: "copy_kafka_init lib guc (cpub cs) = Inr p1" "ready db (as_publisher p1)" using Cons.prems(6) by simp_all
  obtain slot cs1 where cs1: "NextCopyFrom lib guc fp env cs = Inr (Some slot, cs1)" "copying env cs1"
      "stream (cinput cs1) = concat (map (line_bytes env) rows)" "described db tbl names (g_json_copy_info (cpub cs1))"
      "ready db (as_publisher (cpub cs1))" "handed_over accepted (copy_text db tbl names vals) (as_publisher p1) (as_publisher (cpub cs1))"
    by (rule copy_row_sent [OF c ok Cons.prems(1) s fits Cons.prems(4,5) init])
  have "\<forall>vals \<in> set rows. row_fits env db tbl names vals" using Cons.prems(3) by simp
  from Cons.IH [OF cs1(2,3) this cs1(4) names, of "cpub cs1"] copy_kafka_init_ready [OF cs1(5)] cs1(5) obtain cs' where
      cs': "copy_loop lib guc fp env n cs1 = Some (Inr (n, cs'))" "stream (cinput cs') = []"
        "handed_over_all accepted (map (copy_text db tbl names) rows) (as_publisher (cpub cs1)) (as_publisher (cpub cs'))"
    by auto
  then have "copy_loop lib guc fp env n cs = Some (Inr (n, cs'))" using cs1(1) by (subst copy_loop.simps) simp
  with cs' handed_over_all_Cons [OF cs1(6) cs'(3)] show ?case by auto
qed

section \<open>The copy of a table\<close>

text \<open>The columns of the remote table are found in the local one, in their order.\<close>

lemma find_attnum_range:
  "find_attnum name i atts = Inr n \<Longrightarrow> i < n \<and> n \<le> i + length atts \<and> c_str (la_name (atts ! (n - i - 1))) = c_str name"
proof (induction name i atts rule: find_attnum.induct)
  case (2 name i att atts)
  show ?case
  proof (cases "\<not> la_dropped att \<and> c_str (la_name att) = c_str name")
    case True
    with "2.prems" show ?thesis by (auto split: if_splits)
  next
    case False
    with "2.prems" have "find_attnum name (i + 1) atts = Inr n" by (auto split: if_splits)
    with "2.IH" False have *: "i + 1 < n" "n \<le> i + 1 + length atts" "c_str (la_name (atts ! (n - (i + 1) - 1))) = c_str name" by auto
    moreover from * have "n - i - 1 = Suc (n - (i + 1) - 1)" by simp
    ultimately show ?thesis by simp
  qed
qed simp

definition live_names :: "local_attribute list \<Rightarrow> cstring list" where
  "live_names atts = map (\<lambda>a. c_str (la_name a)) (filter (\<lambda>a. \<not> la_dropped a) atts)"

lemma live_names_Cons:
  "live_names (a # atts) = (if la_dropped a then live_names atts else c_str (la_name a) # live_names atts)"
  by (simp add: live_names_def)

lemma find_attnum_found:
  assumes "attr \<in> set atts" and "\<not> la_dropped attr" and "\<not> la_generated attr" and "c_str (la_name attr) = c_str name"
    and "distinct (live_names atts)"
  shows "\<exists>n. find_attnum name i atts = Inr n"
  using assms(1,5)
proof (induction atts arbitrary: i)
  case (Cons a atts)
  show ?case
  proof (cases "attr = a")
    case False
    then have attr: "attr \<in> set atts" using Cons.prems(1) by simp
    then have "c_str name \<in> set (live_names atts)" unfolding assms(4) [symmetric] using assms(2) by (auto simp: live_names_def)
    then show ?thesis using Cons.IH [OF attr] Cons.prems(2) by (cases "la_dropped a") (auto simp: live_names_Cons)
  qed (use assms in simp)
qed simp

lemma named_attnums_ok:
  assumes "\<forall>name \<in> set names. \<exists>n. find_attnum name 0 atts = Inr n" and "distinct (map c_str names)"
    and "\<forall>n \<in> set acc. \<forall>name \<in> set names. find_attnum name 0 atts \<noteq> Inr n" and "distinct acc" and "set acc \<subseteq> {1..length atts}"
  shows "\<exists>ns. named_attnums atts names acc = Inr (acc @ ns) \<and> length ns = length names \<and> distinct (acc @ ns) \<and>
    set (acc @ ns) \<subseteq> {1..length atts}"
  using assms
proof (induction names arbitrary: acc)
  case (Cons name names)
  then obtain n where n: "find_attnum name 0 atts = Inr n" by auto
  have range: "1 \<le> n" "n \<le> length atts" and same: "c_str (la_name (atts ! (n - 1))) = c_str name"
    using find_attnum_range [OF n] by auto
  have new: "n \<notin> set acc" using Cons.prems(3) n by auto
  have "find_attnum other 0 atts \<noteq> Inr n" if "other \<in> set names" for other
    using find_attnum_range [of other 0 atts n] same Cons.prems(2) that by (auto simp: image_iff)
  then have "\<forall>n \<in> set (acc @ [n]). \<forall>name \<in> set names. find_attnum name 0 atts \<noteq> Inr n" using Cons.prems(3) by auto
  moreover have "distinct (acc @ [n])" "set (acc @ [n]) \<subseteq> {1..length atts}" using Cons.prems(4,5) new range by auto
  ultimately obtain ns where "named_attnums atts names (acc @ [n]) = Inr ((acc @ [n]) @ ns)" "length ns = length names"
      "distinct ((acc @ [n]) @ ns)" "set ((acc @ [n]) @ ns) \<subseteq> {1..length atts}"
    using Cons.IH [of "acc @ [n]"] Cons.prems(1,2) by auto
  then show ?case using n new by (intro exI [of _ "n # ns"]) simp
qed auto

lemma copy_attnums:
  assumes "resolved tab entry" and "distinct (live_names (lt_atts tab))" and "natts (remoterel entry) = length (attnames (remoterel entry))"
    and "attnames (remoterel entry) \<noteq> []" and "distinct (map c_str (attnames (remoterel entry)))"
  obtains ns where "CopyGetAttnums (lt_atts tab) (make_copy_attnamelist entry) = Inr ns"
    and "length ns = length (attnames (remoterel entry))" and "\<forall>a \<in> set ns. 0 < a \<and> a \<le> length (lt_atts tab)"
    and "length ns \<le> length (lt_atts tab)"
proof -
  let ?names = "attnames (remoterel entry)"
  have "\<exists>n. find_attnum name 0 (lt_atts tab) = Inr n" if "name \<in> set ?names" for name
  proof -
    from that assms(3) obtain j where j: "j < natts (remoterel entry)" "name = ?names ! j" by (auto simp: in_set_conv_nth)
    then obtain attr where "attr \<in> set (lt_atts tab)" "\<not> la_dropped attr" "\<not> la_generated attr" "c_str (la_name attr) = c_str name"
      using assms(1) unfolding resolved_def by blast
    then show ?thesis using find_attnum_found assms(2) by blast
  qed
  with named_attnums_ok [of ?names "lt_atts tab" "[]"] assms(5) obtain ns where ns: "named_attnums (lt_atts tab) ?names [] = Inr ns"
      "length ns = length ?names" "distinct ns" "set ns \<subseteq> {1..length (lt_atts tab)}" by auto
  moreover have "length ns \<le> length (lt_atts tab)"
    using card_mono [OF _ ns(4)] distinct_card [OF ns(3)] by simp
  ultimately show thesis using assms(3,4) by (intro that [of ns]) (auto simp: CopyGetAttnums_def make_copy_attnamelist_def)
qed

text \<open>The description before the copy: a C global, hence zero.\<close>

definition copy_globals :: CopyJsonInfo where
  "copy_globals =
     \<lparr>info_dbname = replicate 64 (Some NUL), info_table_name = replicate 128 (Some NUL), info_attnames = [], info_after = [],
      info_field_count = 0, info_kafka_server = replicate 64 (Some NUL), info_is_not_initdb = False\<rparr>"

lemma copy_info_set_ok:
  assumes "nul_free conninfo" and "conninfo \<noteq> []" and "length conninfo \<le> 64"
    and "guc ''kafka_server'' = Some server" and "nul_free server" and "length server < 64"
    and "natts lrel = length (attnames lrel)"
  obtains info where "copy_info_set guc conninfo lrel copy_globals = Inr info"
    and "described (conninfo_dbname conninfo) (table_name_of lrel) (map c_str (attnames lrel)) info"
    and "string_at (info_kafka_server info) = Inr server"
proof -
  obtain db where db: "get_dbname_from_conninfo conninfo (replicate 64 (Some NUL)) (int (length conninfo)) = Inr db"
      "string_at db = Inr (conninfo_dbname conninfo)"
    using get_dbname_ok [OF assms(1,2), of "replicate 64 (Some NUL)"] assms(3) by auto
  define ks where "ks = map Some server @ replicate (64 - length server) (Some NUL)"
  have ks: "mem_write (replicate 64 (Some NUL)) 0 server = Inr ks" using assms(6) by (simp add: mem_write_def ks_def)
  have "64 - length server = Suc (63 - length server)" using assms(6) by simp
  then have "string_at ks = Inr server" unfolding ks_def using assms(5) by (intro string_at_prefix [of server]) simp_all
  moreover define tn where "tn = map Some (table_name_of lrel @ [NUL]) @ replicate (127 - length (table_name_of lrel)) (Some NUL)"
  have len: "length (table_name_of lrel) \<le> 127" by (simp add: table_name_of_def)
  then have "mem_write (replicate 128 (Some NUL)) 0 (table_name_of lrel @ [NUL]) = Inr tn" by (simp add: mem_write_def tn_def)
  moreover have "string_at tn = Inr (table_name_of lrel)"
    unfolding tn_def by (rule string_at_prefix) (simp_all add: nul_free_table_name)
  ultimately show thesis using db ks assms
    by (intro that [of "copy_globals\<lparr>info_dbname := db, info_kafka_server := ks, info_is_not_initdb := True, info_table_name := tn,
        info_field_count := natts lrel, info_attnames := map (\<lambda>n. Some (c_str n)) (attnames lrel)\<rparr>"])
      (simp_all add: copy_info_set_def copy_globals_def described_def list_all_iff)
qed

text \<open>
  The publisher's answer: the rows of its table in the text format, cut into messages anywhere,
  in an encoding whose check accepts them; none of their columns is NULL and their texts are \<open>rows\<close>.
\<close>

definition answer_of ::
    "encoding \<Rightarrow> copy_opts \<Rightarrow> (cstring \<Rightarrow> cstring) \<Rightarrow> (nat \<Rightarrow> 'e \<Rightarrow> cstring) \<Rightarrow> nat list \<Rightarrow> 'e TupleTableSlot list \<Rightarrow> cstring list list \<Rightarrow>
     byte list list \<Rightarrow> bool" where
  "answer_of enc opts s2c out_function attnos slots rows messages \<longleftrightarrow>
     concat messages = concat (map (CopyToTextLikeOneRow s2c opts out_function attnos) slots) \<and>
     map (row_texts s2c out_function attnos) slots = map (map Some) rows \<and>
     (\<exists>cs. chars_ok enc cs \<and> concat messages = concat cs) \<and> max_length enc \<le> 16"

lemma answer_lines:
  "answer_of (file_encoding env) (copts env) s2c out_function attnos slots rows messages \<Longrightarrow>
   concat messages = concat (map (line_bytes env) rows)"
proof -
  assume a: "answer_of (file_encoding env) (copts env) s2c out_function attnos slots rows messages"
  then have "map (CopyToTextLikeOneRow s2c (copts env) out_function attnos) slots =
      map (\<lambda>fs. line_of (copts env) fs @ [LF]) (map (row_texts s2c out_function attnos) slots)"
    by (simp add: CopyToTextLikeOneRow_line)
  also have "\<dots> = map (line_bytes env) rows" using a by (simp add: answer_of_def line_bytes_def)
  finally show ?thesis using a by (simp add: answer_of_def)
qed

lemma begin_copy_state_ok:
  assumes "answer_of (file_encoding env) (copts env) s2c out_function attnos slots rows messages"
  obtains cs where "begin_copy_state messages (length (attnumlist env)) p = Inr cs" and "copying env cs" and "cpub cs = p"
    and "stream (cinput cs) = concat (map (line_bytes env) rows)"
proof -
  obtain l where l: "initStringInfo = Inr l" "si_wf l" by (rule initStringInfo_ok)
  from assms obtain chars where "chars_ok (file_encoding env) chars" "concat messages = concat chars" "max_length (file_encoding env) \<le> 16"
    by (auto simp: answer_of_def)
  note start = copy_start_wf [OF l(2) this]
  have "begin_copy_state messages (length (attnumlist env)) p =
      Inr \<lparr>cinput = copy_start messages l, attribute_buf = l, max_fields = length (attnumlist env), cur_lineno = 0, cpub = p\<rparr>"
    unfolding begin_copy_state_def l(1) by simp
  then show thesis using start l(2) answer_lines [OF assms]
    by (intro that) (auto simp: copying_def copy_lines.between_lines_def copy_start_def)
qed

text \<open>The hypotheses on the subscriber's side: the settings, and the local table the remote one is mapped to.\<close>

definition subscriber_ok :: "guc \<Rightarrow> cstring \<Rightarrow> cstring \<Rightarrow> LogicalRepRelation \<Rightarrow> bool" where
  "subscriber_ok guc server conninfo lrel \<longleftrightarrow>
     nul_free conninfo \<and> conninfo \<noteq> [] \<and> length conninfo \<le> 64 \<and> guc ''kafka_server'' = Some server \<and> nul_free server \<and>
     length server < 64 \<and> natts lrel = length (attnames lrel) \<and> attnames lrel \<noteq> [] \<and> distinct (map c_str (attnames lrel))"

definition target_ok :: "'d copy_env \<Rightarrow> local_table \<Rightarrow> bool" where
  "target_ok env tab \<longleftrightarrow>
     opts_ok (copts env) \<and> distinct (live_names (lt_atts tab)) \<and>
     (\<forall>m \<in> set (defmap env). m < length (lt_atts tab) \<and> (\<exists>d. defexpr env m = Inr d))"

text \<open>Every text of the rows is accepted by the input function of the local column it is copied to.\<close>

definition accepts_rows :: "'d copy_env \<Rightarrow> LogicalRepRelMapEntry \<Rightarrow> local_table \<Rightarrow> cstring list list \<Rightarrow> bool" where
  "accepts_rows env entry tab rows \<longleftrightarrow>
     (\<forall>ns. CopyGetAttnums (lt_atts tab) (make_copy_attnamelist entry) = Inr ns \<longrightarrow> (\<forall>vals \<in> set rows. convertible env ns vals))"

lemma copy_table_starts:
  fixes env :: "'d::zero copy_env"
  assumes sub: "subscriber_ok guc server conninfo lrel" and rm: "relmap_ok cat rm" "logicalrep_relmap_update lrel rm = Inr rm1"
      "logicalrep_rel_open cat (remoteid lrel) rm1 = Inr (entry, rm2)"
    and env: "\<And>tab. localrel entry = Some tab \<Longrightarrow> target_ok env tab \<and> accepts_rows env entry tab rows"
    and p: "g_json_copy_info p = copy_globals" and ans: "remote_copy (copy_command quote relkind lrel quals gen False) = Inr messages"
      "answer_of (file_encoding env) (copts env) s2c out_function attnos slots rows messages"
  obtains env' :: "'d copy_env" and cs rm3 where "copy_table lib guc fp quote conninfo cat remote_copy relkind lrel quals gen env rm p =
      map_option (\<lambda>r. bindR r (\<lambda>(n, cs). Inr (rm3, cpub cs))) (CopyFrom lib guc fp env' cs)"
    and "relmap_ok cat rm3" and "env_ok env'" and "copying env' cs" and "length (attnumlist env') = length (attnames lrel)"
    and "copts env' = copts env" and "\<forall>vals \<in> set rows. convertible env' (attnumlist env') vals"
    and "stream (cinput cs) = concat (map (line_bytes env') rows)"
    and "described (conninfo_dbname conninfo) (table_name_of lrel) (map c_str (attnames lrel)) (g_json_copy_info (cpub cs))"
    and "string_at (info_kafka_server (g_json_copy_info (cpub cs))) = Inr server" and "cpub cs = p\<lparr>g_json_copy_info := g_json_copy_info (cpub cs)\<rparr>"
proof -
  have names: "natts lrel = length (attnames lrel)" "attnames lrel \<noteq> []" "distinct (map c_str (attnames lrel))"
    using sub by (simp_all add: subscriber_ok_def)
  obtain info where info: "copy_info_set guc conninfo lrel copy_globals = Inr info"
      "described (conninfo_dbname conninfo) (table_name_of lrel) (map c_str (attnames lrel)) info"
      "string_at (info_kafka_server info) = Inr server"
    using copy_info_set_ok [of conninfo guc server lrel] sub by (auto simp: subscriber_ok_def)
  obtain tab rm3 where tab: "copy_remoterel lrel = Inr (remoterel entry)" "localrel entry = Some tab" "resolved tab entry"
      "logicalrep_rel_close (remoteid lrel) rm2 = Inr rm3" "relmap_ok cat rm3"
    using opened_relation [OF rm] by blast
  have remote: "attnames (remoterel entry) = map c_str (attnames lrel)" "natts (remoterel entry) = length (attnames lrel)"
    using tab(1) names(1) by (auto simp: copy_remoterel_def split: if_splits dest!: sym [of _ "remoterel entry"])
  have conv: "target_ok env tab" "accepts_rows env entry tab rows" using env [OF tab(2)] by auto
  obtain ns where ns: "CopyGetAttnums (lt_atts tab) (make_copy_attnamelist entry) = Inr ns" "length ns = length (attnames lrel)"
      "\<forall>a \<in> set ns. 0 < a \<and> a \<le> length (lt_atts tab)" "length ns \<le> length (lt_atts tab)"
  proof (rule copy_attnums [OF tab(3)])
    show "distinct (live_names (lt_atts tab))" using conv(1) by (simp add: target_ok_def)
  qed (use remote names in \<open>auto simp: comp_def\<close>)
  define env' where "env' = env\<lparr>attnumlist := ns, num_phys_attrs := length (lt_atts tab)\<rparr>"
  have env': "env_ok env'" using conv(1) ns names(2) by (auto simp: env_ok_def target_ok_def env'_def)
  have texts: "\<forall>vals \<in> set rows. convertible env' (attnumlist env') vals"
    using conv(2) ns(1) by (simp add: accepts_rows_def convertible_def env'_def)
  obtain cs where cs: "begin_copy_state messages (length (attnumlist env')) (p\<lparr>g_json_copy_info := info\<rparr>) = Inr cs" "copying env' cs"
      "cpub cs = p\<lparr>g_json_copy_info := info\<rparr>" "stream (cinput cs) = concat (map (line_bytes env') rows)"
    by (rule begin_copy_state_ok [of env' s2c out_function attnos slots rows messages]) (use ans(2) in \<open>simp_all add: env'_def\<close>)
  have "copy_table lib guc fp quote conninfo cat remote_copy relkind lrel quals gen env rm p =
      map_option (\<lambda>r. bindR r (\<lambda>(n, cs). Inr (rm3, cpub cs))) (CopyFrom lib guc fp env' cs)"
    using info(1) rm(2,3) ans(1) tab(2,4) ns(1) cs(1) p by (simp add: copy_table_def env'_def)
  then show thesis
    by (rule that [of rm3 env' cs, OF _ _ _ _ _ _ texts]) (use tab env' cs ns info in \<open>simp_all add: env'_def\<close>)
qed

text \<open>Claim C9. The initial copy publishes the table: for rows without NULL whose texts the input functions of the local columns accept,
  however the publisher cuts its answer into messages, \<^verbatim>\<open>copy_table\<close> returns, and every row has been handed to Kafka once and in order,
  as an object with operation C, the remote database, the table, the remote column names and the texts of the columns, by a producer that
  the first row starts. An empty text is published as null. The connection string and the server setting fit their buffers of 64 bytes.\<close>

theorem initial_copy_published:
  fixes fp :: "'r::zero double_ops" and env :: "'d::zero copy_env"
  assumes "client_contract lib accepted" and "sprintf_fits fp" and sub: "subscriber_ok guc server conninfo lrel"
    and rm: "relmap_ok cat rm" "logicalrep_relmap_update lrel rm = Inr rm1" "logicalrep_rel_open cat (remoteid lrel) rm1 = Inr (entry, rm2)"
    and env: "\<And>tab. localrel entry = Some tab \<Longrightarrow> target_ok env tab \<and> accepts_rows env entry tab rows"
    and p: "g_json_copy_info p = copy_globals" "copy_g_rk p = None" "\<not> copy_kafka_initialized p"
    and ans: "remote_copy (copy_command quote relkind lrel quals gen False) = Inr messages"
      "answer_of (file_encoding env) (copts env) s2c out_function attnos slots rows messages"
    and rows: "\<forall>vals \<in> set rows. length vals = length (attnames lrel) \<and> list_all nul_free vals \<and>
        length (line_of (copts env) (map Some vals)) + 2 < MaxAllocSize \<and>
        fits (copy_text (conninfo_dbname conninfo) (table_name_of lrel) (map c_str (attnames lrel)) vals)"
    and init: "kafka_init lib guc None (copy_g_rkt p) (Some server) (Some (conninfo_dbname conninfo)) (copy_producer p) =
        Inr (0, Some rk, Some rkt, st)"
  shows "\<exists>rm' p'. copy_table lib guc fp quote conninfo cat remote_copy relkind lrel quals gen env rm p = Some (Inr (rm', p')) \<and>
    relmap_ok cat rm' \<and>
    handed_over_all accepted (map (copy_text (conninfo_dbname conninfo) (table_name_of lrel) (map c_str (attnames lrel))) rows)
      (as_publisher (if rows = [] then p else p\<lparr>copy_producer := st\<rparr>)) (as_publisher p')"
proof -
  let ?db = "conninfo_dbname conninfo" and ?tbl = "table_name_of lrel" and ?names = "map c_str (attnames lrel)"
  obtain env' :: "'d copy_env" and cs rm3 where tbl: "copy_table lib guc fp quote conninfo cat remote_copy relkind lrel quals gen env rm p =
      map_option (\<lambda>r. bindR r (\<lambda>(n, cs). Inr (rm3, cpub cs))) (CopyFrom lib guc fp env' cs)" "relmap_ok cat rm3"
    and e: "env_ok env'" "copying env' cs" "length (attnumlist env') = length (attnames lrel)" "copts env' = copts env"
      "\<forall>vals \<in> set rows. convertible env' (attnumlist env') vals"
    and s: "stream (cinput cs) = concat (map (line_bytes env') rows)" and d: "described ?db ?tbl ?names (g_json_copy_info (cpub cs))"
    and ks: "string_at (info_kafka_server (g_json_copy_info (cpub cs))) = Inr server" and cp: "cpub cs = p\<lparr>g_json_copy_info := g_json_copy_info (cpub cs)\<rparr>"
    by (rule copy_table_starts [where remote_copy = remote_copy and quote = quote and relkind = relkind and quals = quals and gen = gen and lib = lib and fp = fp,
          OF sub rm env p(1) ans])
  have fits: "\<forall>vals \<in> set rows. row_fits env' ?db ?tbl ?names vals"
    using rows e(4,5) by (auto simp: row_fits_def)
  define p1 where "p1 = (cpub cs)\<lparr>copy_g_rk := Some rk, copy_g_rkt := Some rkt, copy_producer := st, copy_kafka_initialized := True\<rparr>"
  obtain info where cpub: "cpub cs = p\<lparr>g_json_copy_info := info\<rparr>" using cp by blast
  have init1: "copy_kafka_init lib guc (cpub cs) = Inr p1" "ready ?db (as_publisher p1)"
    using init p(2,3) ks d by (simp_all add: copy_kafka_init_def cpub described_def p1_def ready_def as_publisher_def)
  obtain cs' where cs': "CopyFrom lib guc fp env' cs = Some (Inr (0, cs'))"
      "handed_over_all accepted (map (copy_text ?db ?tbl ?names) rows) (as_publisher (if rows = [] then cpub cs else p1)) (as_publisher (cpub cs'))"
    using copy_loop_rows [OF assms(1,2) e(1,2) s fits d, of guc "if rows = [] then cpub cs else p1" 0] init1 e(3) by (auto simp: CopyFrom_def)
  have "handed_over_all accepted msgs (as_publisher (if rows = [] then cpub cs else p1)) q =
      handed_over_all accepted msgs (as_publisher (if rows = [] then p else p\<lparr>copy_producer := st\<rparr>)) q" for msgs q
    by (simp add: handed_over_all_def as_publisher_def p1_def cpub)
  with tbl cs' show ?thesis by auto
qed

definition demo_copy_env :: "nat copy_env" where
  "demo_copy_env = \<lparr>file_encoding = single_byte, verify_field = (\<lambda>_. True), copts = tablesync_opts, attnumlist = [], num_phys_attrs = 0,
     in_function = (\<lambda>_ s. if s = Some ''42'' then Inr 42 else Inl (PgError ''invalid input syntax'')), defmap = [], defexpr = (\<lambda>_. Inr (0, True))\<rparr>"

definition demo_copy_publisher :: "(byte list list, unit, unit) copy_publisher" where
  "demo_copy_publisher = \<lparr>g_json_copy_info = copy_globals, copy_g_rk = None, copy_g_rkt = None, copy_kafka_initialized = False,
     copy_producer = demo_producer\<rparr>"

lemma demo_subscriber_ok: "subscriber_ok (\<lambda>_. Some ''7'') ''7'' ''dbname=shop'' demo_remote_rel"
  by (simp add: subscriber_ok_def nul_free_def demo_remote_rel_def)

lemma demo_conversion:
  assumes "logicalrep_relmap_update demo_remote_rel (\<lambda>_. None) = Inr rm1" and "logicalrep_rel_open demo_catalog 7 rm1 = Inr (entry, rm2)"
    and "localrel entry = Some tab"
  shows "target_ok demo_copy_env tab \<and> accepts_rows demo_copy_env entry tab [[''42'']]"
proof -
  have "relmap_ok demo_catalog (\<lambda>_. None)" by (simp add: relmap_ok_def)
  moreover have "remoteid demo_remote_rel = 7" by (simp add: demo_remote_rel_def)
  ultimately have "localreloid entry = 40" "table_of demo_catalog (localreloid entry) = Some tab"
    and res: "resolved tab entry" and "copy_remoterel demo_remote_rel = Inr (remoterel entry)"
    using opened_relation [of demo_catalog "\<lambda>_. None" demo_remote_rel rm1 entry rm2] assms by (auto simp: demo_catalog_def)
  then have tab: "tab = the (table_of demo_catalog 40)" and rel: "attnames (remoterel entry) = [''id'']" "natts (remoterel entry) = 1"
    by (auto simp: copy_remoterel_def demo_remote_rel_def c_str_def split: if_splits dest!: sym [of _ "remoterel entry"])
  have target: "target_ok demo_copy_env tab" by (simp add: tab demo_catalog_def target_ok_def demo_copy_env_def live_names_def c_str_def)
  obtain ns where ns: "CopyGetAttnums (lt_atts tab) (make_copy_attnamelist entry) = Inr ns" "length ns = 1"
  proof (rule copy_attnums [OF res])
    show "distinct (live_names (lt_atts tab))" using target by (simp add: target_ok_def)
  qed (use rel in simp_all)
  from ns(2) obtain n where "ns = [n]" by (auto simp: length_Suc_conv)
  with ns(1) target show ?thesis by (simp add: accepts_rows_def convertible_def demo_copy_env_def)
qed

lemma demo_copy_fits: "fits (copy_text ''shop'' ''public.t'' [''id''] [''42''])"
proof -
  have "length (copy_text ''shop'' ''public.t'' [''id''] [''42'']) < 200" by code_simp
  then show ?thesis by (simp add: fits_def MaxAllocSize_def)
qed

lemma demo_copy_answer:
  "answer_of single_byte tablesync_opts (\<lambda>s. s) (\<lambda>_ s. s) [1] [\<lparr>tts_values = [''42''], tts_isnull = [False]\<rparr>] [[''42'']] [''4'', ''2'' @ [LF]]"
proof -
  have "CopyToTextLikeOneRow (\<lambda>s. s) tablesync_opts (\<lambda>_ s. s) [1] \<lparr>tts_values = [''42''], tts_isnull = [False]\<rparr> = ''42'' @ [LF]"
    by (simp add: CopyToTextLikeOneRow_def CopyAttributeOutText_def tablesync_opts_def c_str_def escape_letter_def)
  moreover have "concat (map (\<lambda>c. [c]) (''42'' @ [LF])) = ''42'' @ [LF]" by simp
  ultimately show ?thesis using single_byte_chars [of "''42'' @ [LF]"]
    by (auto simp: answer_of_def row_texts_def c_str_def single_byte_def intro!: exI [of _ "map (\<lambda>c. [c]) (''42'' @ [LF])"])
qed

theorem initial_copy_published_witness:
  "\<exists>rm' p' st. copy_table (demo_client 5) (\<lambda>_. Some ''7'') demo_fp (\<lambda>s. s) ''dbname=shop'' demo_catalog (\<lambda>_. Inr [''4'', ''2'' @ [LF]])
      RELKIND_RELATION demo_remote_rel [] False demo_copy_env (\<lambda>_. None) demo_copy_publisher = Some (Inr (rm', p')) \<and>
     handed_over_all (\<lambda>w. w) [copy_text ''shop'' ''public.t'' [''id''] [''42'']]
       (as_publisher (demo_copy_publisher\<lparr>copy_producer := st\<rparr>)) (as_publisher p')"
proof -
  obtain entry rm1 rm2 where rm: "logicalrep_relmap_update demo_remote_rel (\<lambda>_. None) = Inr rm1"
    "logicalrep_rel_open demo_catalog 7 rm1 = Inr (entry, rm2)" by (rule demo_open)
  have names: "conninfo_dbname ''dbname=shop'' = ''shop''" "table_name_of demo_remote_rel = ''public.t''" "attnames demo_remote_rel = [''id'']"
      "map c_str [''id''] = [''id'']"
    by (simp_all add: conninfo_dbname_def is_blank_def table_name_of_def demo_remote_rel_def c_str_def)
  obtain mm where "atoi (Some ''7'') = Inr mm" by (simp add: atoi_def Let_def)
  then obtain st where init: "kafka_init (demo_client 5) (\<lambda>_. Some ''7'') None None (Some ''7'') (Some ''shop'') demo_producer =
      Inr (0, Some (), Some (), st)"
    by (simp add: kafka_init_def demo_client_def Let_def)
  have line: "length (line_of tablesync_opts [Some ''42'']) + 2 < MaxAllocSize"
    by (simp add: field_bytes_def esc1_def escape_letter_def tablesync_opts_def MaxAllocSize_def)
  have "\<exists>rm' p'. copy_table (demo_client 5) (\<lambda>_. Some ''7'') demo_fp (\<lambda>s. s) ''dbname=shop'' demo_catalog (\<lambda>_. Inr [''4'', ''2'' @ [LF]])
      RELKIND_RELATION demo_remote_rel [] False demo_copy_env (\<lambda>_. None) demo_copy_publisher = Some (Inr (rm', p')) \<and>
    relmap_ok demo_catalog rm' \<and>
    handed_over_all (\<lambda>w. w) (map (copy_text (conninfo_dbname ''dbname=shop'') (table_name_of demo_remote_rel) (map c_str (attnames demo_remote_rel))) [[''42'']])
       (as_publisher (if [[''42'']] = [] then demo_copy_publisher else demo_copy_publisher\<lparr>copy_producer := st\<rparr>)) (as_publisher p')"
  proof (rule initial_copy_published [OF demo_client_contract demo_fp_fits demo_subscriber_ok _ rm(1)])
    show "answer_of (file_encoding demo_copy_env) (copts demo_copy_env) (\<lambda>s. s) (\<lambda>_ s. s) [1] [\<lparr>tts_values = [''42''], tts_isnull = [False]\<rparr>]
        [[''42'']] [''4'', ''2'' @ [LF]]" using demo_copy_answer by (simp add: demo_copy_env_def)
    show "logicalrep_rel_open demo_catalog (remoteid demo_remote_rel) rm1 = Inr (entry, rm2)" using rm(2) by (simp add: demo_remote_rel_def)
    show "target_ok demo_copy_env tab \<and> accepts_rows demo_copy_env entry tab [[''42'']]" if "localrel entry = Some tab" for tab
      by (rule demo_conversion [OF rm that])
  qed (use init line demo_copy_fits names in \<open>simp_all add: relmap_ok_def demo_copy_publisher_def demo_copy_env_def nul_free_def\<close>)
  then show ?thesis unfolding names by auto
qed

text \<open>Claim C16. A NULL column ends the process: the text of every column is duplicated before it is tested, so the first row
  with a NULL makes the copy read through a null pointer. This holds for every COPY FROM in the text format, not only for the
  initial copy of a subscription.\<close>

theorem copy_null_crashes:
  assumes "env_ok env" and "copying env cs" and "stream (cinput cs) = CopyToTextLikeOneRow s2c (copts env) out_function attnos slot @ rest"
    and "length attnos = length (attnumlist env)" and texts: "row_texts s2c out_function attnos slot = map Some us @ None # fs"
    and "convertible env (take (length us) (attnumlist env)) us"
    and "length (CopyToTextLikeOneRow s2c (copts env) out_function attnos slot) + 1 < MaxAllocSize"
  shows "CopyFrom lib guc fp env cs = Some (Inl (Undefined NullPointer))"
proof -
  let ?fs = "map Some us @ None # fs" and ?n = "num_phys_attrs env"
  have len: "length ?fs = length (attnumlist env)" using assms(4) by (simp add: texts [symmetric] row_texts_def)
  obtain cs1 where cs1: "NextCopyFromRawFieldsInternal env cs = Inr (Some ?fs, cs1)"
    using next_fields [OF assms(1,2) _ len, of rest] assms(3,7) by (auto simp: CopyToTextLikeOneRow_line texts)
  have "take (length us) (attnumlist env) @ drop (length us) (attnumlist env) = attnumlist env" by simp
  moreover obtain a as where "drop (length us) (attnumlist env) = a # as" using len by (cases "drop (length us) (attnumlist env)") auto
  ultimately have split: "attnumlist env = take (length us) (attnumlist env) @ a # as" by metis
  have sz: "slot_size ?n \<lparr>tts_values = replicate ?n 0, tts_isnull = replicate ?n True\<rparr>" by (simp add: slot_size_def)
  have "\<forall>a \<in> set (take (length us) (attnumlist env)). 0 < a \<and> a \<le> ?n" "0 + length us \<le> length (replicate ?n None)"
    using assms(1) len by (auto simp: env_ok_def dest: in_set_takeD)
  from copy_row_columns_null [OF assms(6) this(1) sz this(2)] split
  have "copy_row_columns env (attnumlist env) ?fs 0 (replicate ?n None) \<lparr>tts_values = replicate ?n 0, tts_isnull = replicate ?n True\<rparr> =
      Inl (Undefined NullPointer)" by metis
  with cs1 len show ?thesis
    unfolding CopyFrom_def by (subst copy_loop.simps) (simp add: NextCopyFrom_def CopyFromTextLikeOneRow_def)
qed

theorem copy_null_crashes_witness:
  "\<exists>cs. begin_copy_state [[BSLASH, CHR ''N'', LF]] 1 demo_copy_publisher = Inr cs \<and>
     CopyFrom (demo_client 5) (\<lambda>_. None) demo_fp (demo_copy_env\<lparr>attnumlist := [1], num_phys_attrs := 1\<rparr>) cs = Some (Inl (Undefined NullPointer))"
proof -
  let ?env = "demo_copy_env\<lparr>attnumlist := [1], num_phys_attrs := 1\<rparr>" and ?slot = "\<lparr>tts_values = [''''], tts_isnull = [True]\<rparr>"
  have row: "CopyToTextLikeOneRow (\<lambda>s. s) tablesync_opts (\<lambda>_ s. s) [1] ?slot = [BSLASH, CHR ''N'', LF]"
    by (simp add: CopyToTextLikeOneRow_def tablesync_opts_def)
  obtain l where l: "initStringInfo = Inr l" "si_wf l" by (rule initStringInfo_ok)
  define cs where "cs = \<lparr>cinput = copy_start [[BSLASH, CHR ''N'', LF]] l, attribute_buf = l, max_fields = 1, cur_lineno = 0, cpub = demo_copy_publisher\<rparr>"
  have "begin_copy_state [[BSLASH, CHR ''N'', LF]] 1 demo_copy_publisher = Inr cs" unfolding begin_copy_state_def l(1) cs_def by simp
  moreover have start: "copy_wf single_byte (copy_start [[BSLASH, CHR ''N'', LF]] l)" "stream (copy_start [[BSLASH, CHR ''N'', LF]] l) = [BSLASH, CHR ''N'', LF]"
    using copy_start_wf [OF l(2) single_byte_chars [of "[BSLASH, CHR ''N'', LF]"], of "[[BSLASH, CHR ''N'', LF]]"] by (simp_all add: single_byte_def)
  then have "copying ?env cs" "stream (cinput cs) = CopyToTextLikeOneRow (\<lambda>s. s) (copts ?env) (\<lambda>_ s. s) [1] ?slot @ []"
    using l(2) row by (simp_all add: copying_def copy_lines.between_lines_def cs_def demo_copy_env_def copy_start_def)
  moreover have "env_ok ?env" by (simp add: env_ok_def demo_copy_env_def)
  ultimately show ?thesis
    using copy_null_crashes [of ?env cs "\<lambda>s. s" "\<lambda>_ s. s" "[1]" ?slot "[]" "[]" "[]"] row
    by (simp add: row_texts_def convertible_def demo_copy_env_def MaxAllocSize_def)
qed

text \<open>A \<^verbatim>\<open>kafka_server\<close> setting longer than the 64-byte buffer is copied past its end.\<close>

lemma copy_server_overflow:
  assumes "nul_free conninfo" and "conninfo \<noteq> []" and "length conninfo \<le> 64" and "g_json_copy_info p = copy_globals"
    and "guc ''kafka_server'' = Some server" and "nul_free server" and "64 < length server"
  shows "copy_table lib guc fp quote conninfo cat remote_copy relkind lrel quals gen env rm p = Some (Inl (Undefined OutOfBounds))"
proof -
  obtain db where "get_dbname_from_conninfo conninfo (replicate 64 (Some NUL)) (int (length conninfo)) = Inr db"
    using get_dbname_ok [OF assms(1,2), of "replicate 64 (Some NUL)"] assms(3) by auto
  then show ?thesis using assms by (simp add: copy_table_def copy_info_set_def copy_globals_def mem_write_def)
qed

end
