(* ===== verification/TableSync.thy ===== *)
theory TableSync
  imports CopyPublish FlushFeedback "HOL-Library.AList"
begin

text \<open>
  The synchronisation of tables (\<^verbatim>\<open>src/backend/replication/logical/tablesync.c\<close>): the
  worker that copies a table and catches up, and the part of the apply worker that starts it,
  tells it how far to catch up and takes the table over. The first part models the routines,
  the second the interleaving of the workers, with the result that no transaction of the
  publisher is lost when a table is handed over, and which of them are published twice.
\<close>

section \<open>State\<close>

abbreviation SUBREL_STATE_INIT :: byte where "SUBREL_STATE_INIT \<equiv> CHR ''i''"
abbreviation SUBREL_STATE_DATASYNC :: byte where "SUBREL_STATE_DATASYNC \<equiv> CHR ''d''"
abbreviation SUBREL_STATE_FINISHEDCOPY :: byte where "SUBREL_STATE_FINISHEDCOPY \<equiv> CHR ''f''"
abbreviation SUBREL_STATE_SYNCWAIT :: byte where "SUBREL_STATE_SYNCWAIT \<equiv> CHR ''w''"
abbreviation SUBREL_STATE_CATCHUP :: byte where "SUBREL_STATE_CATCHUP \<equiv> CHR ''c''"

text \<open>
  What the workers share: the rows of \<^verbatim>\<open>pg_subscription_rel\<close>, the synchronisation workers in
  shared memory (\<^verbatim>\<open>relstate\<close> and \<^verbatim>\<open>relstate_lsn\<close> by table), the progress of the origins that
  belong to a table, and the tables with a slot on the publisher.
\<close>

record sync_shared =
  subscription_rel :: "Oid \<rightharpoonup> byte \<times> XLogRecPtr"
  sync_workers :: "(Oid \<times> byte \<times> XLogRecPtr) list"
  sync_origins :: "Oid \<rightharpoonup> XLogRecPtr"
  sync_slots :: "Oid \<Rightarrow> bool"

datatype SyncingTablesState = SYNC_TABLE_STATE_NEEDS_REBUILD | SYNC_TABLE_STATE_REBUILD_STARTED | SYNC_TABLE_STATE_VALID

record SubscriptionRelState =
  rs_relid :: Oid
  rs_state :: byte
  rs_lsn :: XLogRecPtr

record sync_apply =
  table_states_validity :: SyncingTablesState
  table_states_not_ready :: "SubscriptionRelState list"
  has_subrels :: bool
  last_start_times :: "(Oid \<rightharpoonup> TimestampTz) option"

section \<open>Names, catalog rows, slots and origins\<close>

definition ReplicationSlotNameForTablesync :: "64 word \<Rightarrow> Oid \<Rightarrow> Oid \<Rightarrow> nat \<Rightarrow> cstring" where
  "ReplicationSlotNameForTablesync system_identifier suboid relid szslot =
     take (szslot - 1) (''pg_'' @ show_nat (unat suboid) @ ''_sync_'' @ show_nat (unat relid) @ ''_'' @ show_nat (unat system_identifier))"

definition GetSubscriptionRelState :: "Oid \<Rightarrow> sync_shared \<Rightarrow> byte \<times> XLogRecPtr" where
  "GetSubscriptionRelState relid sh = (case subscription_rel sh relid of None \<Rightarrow> (SUBREL_STATE_UNKNOWN, 0) | Some r \<Rightarrow> r)"

definition UpdateSubscriptionRelState :: "Oid \<Rightarrow> byte \<Rightarrow> XLogRecPtr \<Rightarrow> sync_shared \<Rightarrow> sync_shared res" where
  "UpdateSubscriptionRelState relid st lsn sh =
     (case subscription_rel sh relid of None \<Rightarrow> Inl (PgError ''subscription table does not exist'')
      | Some _ \<Rightarrow> Inr (sh\<lparr>subscription_rel := (subscription_rel sh)(relid \<mapsto> (st, lsn))\<rparr>))"

definition ReplicationSlotDropAtPubNode :: "Oid \<Rightarrow> bool \<Rightarrow> sync_shared \<Rightarrow> sync_shared res" where
  "ReplicationSlotDropAtPubNode relid missing_ok sh =
     (if sync_slots sh relid then Inr (sh\<lparr>sync_slots := (sync_slots sh)(relid := False)\<rparr>)
      else if missing_ok then Inr sh else Inl (PgError ''could not drop replication slot''))"

definition drop_origin :: "Oid \<Rightarrow> sync_shared \<Rightarrow> sync_shared" where
  "drop_origin relid sh = sh\<lparr>sync_origins := (sync_origins sh)(relid := None)\<rparr>"

definition set_worker :: "Oid \<Rightarrow> byte \<Rightarrow> XLogRecPtr \<Rightarrow> sync_shared \<Rightarrow> sync_shared" where
  "set_worker relid st lsn sh = sh\<lparr>sync_workers := AList.update relid (st, lsn) (sync_workers sh)\<rparr>"

text \<open>The worker leaves shared memory when its process exits.\<close>

definition finish_sync_worker :: "Oid \<Rightarrow> sync_shared \<Rightarrow> sync_shared" where
  "finish_sync_worker relid sh = sh\<lparr>sync_workers := AList.delete relid (sync_workers sh)\<rparr>"

section \<open>The synchronisation worker\<close>

text \<open>The result says whether the worker has finished.\<close>

definition process_syncing_tables_for_sync :: "Oid \<Rightarrow> XLogRecPtr \<Rightarrow> sync_shared \<Rightarrow> (bool \<times> sync_shared) res" where
  "process_syncing_tables_for_sync relid current_lsn sh =
     (case map_of (sync_workers sh) relid of None \<Rightarrow> Inl (Undefined NullPointer)
      | Some (relstate, relstate_lsn) \<Rightarrow>
          if relstate = SUBREL_STATE_CATCHUP \<and> current_lsn \<ge> relstate_lsn then
            bindR (UpdateSubscriptionRelState relid SUBREL_STATE_SYNCDONE current_lsn (set_worker relid SUBREL_STATE_SYNCDONE current_lsn sh)) (\<lambda>sh.
            bindR (ReplicationSlotDropAtPubNode relid False sh) (\<lambda>sh.
            Inr (True, finish_sync_worker relid (drop_origin relid sh))))
          else Inr (False, sh))"

text \<open>
  The start of the worker. It exits, or it has to copy the table, or the copy was done by an
  earlier worker and the origin knows how far that one came.
\<close>

datatype sync_start = Sync_exit | Sync_copy | Sync_copied XLogRecPtr

definition sync_table_begin :: "Oid \<Rightarrow> sync_shared \<Rightarrow> (sync_start \<times> sync_shared) res" where
  "sync_table_begin relid sh =
     (let (relstate, relstate_lsn) = GetSubscriptionRelState relid sh;
          sh = set_worker relid relstate relstate_lsn sh
      in if relstate \<in> {SUBREL_STATE_SYNCDONE, SUBREL_STATE_READY, SUBREL_STATE_UNKNOWN}
         then Inr (Sync_exit, finish_sync_worker relid sh)
         else if relstate = SUBREL_STATE_FINISHEDCOPY then
           (case sync_origins sh relid of None \<Rightarrow> Inl (PgError ''replication origin does not exist'')
            | Some lsn \<Rightarrow> Inr (Sync_copied lsn, sh))
         else
           bindR (if relstate = SUBREL_STATE_DATASYNC then ReplicationSlotDropAtPubNode relid True sh else Inr sh) (\<lambda>sh.
           bindR (UpdateSubscriptionRelState relid SUBREL_STATE_DATASYNC 0 (set_worker relid SUBREL_STATE_DATASYNC 0 sh)) (\<lambda>sh.
           Inr (Sync_copy, sh))))"

text \<open>
  The copy: a slot on the publisher, consistent at \<open>startpos\<close>, an origin for the table, and the
  rows; then the state that says so. \<open>copy\<close> is \<^verbatim>\<open>copy_table\<close> on the producer of the copy.
\<close>

definition sync_table_copy ::
    "('p \<Rightarrow> 'p res) \<Rightarrow> XLogRecPtr \<Rightarrow> Oid \<Rightarrow> sync_shared \<times> 'p \<Rightarrow> (sync_shared \<times> 'p) res" where
  "sync_table_copy copy startpos relid = (\<lambda>(sh, p).
     if sync_slots sh relid then Inl (PgError ''could not create replication slot'')
     else if sync_origins sh relid \<noteq> None then Inl (PgError ''replication origin already exists'')
     else
       let sh = sh\<lparr>sync_slots := (sync_slots sh)(relid := True), sync_origins := (sync_origins sh)(relid \<mapsto> startpos)\<rparr>
       in bindR (copy p) (\<lambda>p.
          bindR (UpdateSubscriptionRelState relid SUBREL_STATE_FINISHEDCOPY 0 sh) (\<lambda>sh. Inr (sh, p))))"

text \<open>
  The whole start: \<open>rel\<close> is the local relation, which is opened only for a copy, and \<open>others\<close>
  what the other processes do while the worker waits for the state CATCHUP. The producer of the
  copy is closed under the name of the relation.
\<close>

definition LogicalRepSyncTableStart ::
    "('w, 'rk, 'rkt) rdkafka \<Rightarrow> (('w, 'rk, 'rkt) copy_publisher \<Rightarrow> ('w, 'rk, 'rkt) copy_publisher res) \<Rightarrow> XLogRecPtr \<Rightarrow>
     (sync_shared \<Rightarrow> sync_shared) \<Rightarrow> Oid \<Rightarrow> cstring \<Rightarrow> sync_shared \<Rightarrow> ('w, 'rk, 'rkt) copy_publisher \<Rightarrow>
     (XLogRecPtr option \<times> sync_shared \<times> ('w, 'rk, 'rkt) copy_publisher) res" where
  "LogicalRepSyncTableStart lib copy slot_lsn others relid rd_name sh p =
     bindR (sync_table_begin relid sh) (\<lambda>(start, sh).
     bindR (case start of
              Sync_exit \<Rightarrow> Inr (None, None, sh, p)
            | Sync_copied lsn \<Rightarrow> Inr (Some lsn, None, sh, p)
            | Sync_copy \<Rightarrow> bindR (sync_table_copy copy slot_lsn relid (sh, p)) (\<lambda>(sh, p). Inr (Some slot_lsn, Some rd_name, sh, p)))
       (\<lambda>(startpos, rel, sh, p).
        case startpos of None \<Rightarrow> Inr (None, sh, p)
        | Some lsn \<Rightarrow>
            let sh = others (set_worker relid SUBREL_STATE_SYNCWAIT lsn sh)
            in case rel of None \<Rightarrow> Inl (Undefined NullPointer)
               | Some name \<Rightarrow>
                   let (rk, rkt, st) = kafka_close_copy lib (copy_g_rk p) (copy_g_rkt p) (copy_producer p)
                   in Inr (Some lsn, sh, p\<lparr>copy_g_rk := rk, copy_g_rkt := rkt, copy_producer := st\<rparr>)))"

section \<open>The apply worker\<close>

text \<open>
  \<open>rows\<close> are the subscription's tables in the order of a scan; the list is rebuilt from the
  catalog unless it is valid.
\<close>

definition FetchTableStates :: "Oid list \<Rightarrow> sync_shared \<Rightarrow> sync_apply \<Rightarrow> bool \<times> sync_apply" where
  "FetchTableStates rows sh ap =
     (if table_states_validity ap \<noteq> SYNC_TABLE_STATE_VALID then
        let present = filter (\<lambda>r. subscription_rel sh r \<noteq> None) rows;
            states = map (\<lambda>r. \<lparr>rs_relid = r, rs_state = fst (GetSubscriptionRelState r sh), rs_lsn = snd (GetSubscriptionRelState r sh)\<rparr>) present;
            not_ready = filter (\<lambda>rs. rs_state rs \<noteq> SUBREL_STATE_READY) states;
            ap = ap\<lparr>table_states_not_ready := not_ready, has_subrels := not_ready \<noteq> [] \<or> present \<noteq> [],
                    table_states_validity := SYNC_TABLE_STATE_VALID\<rparr>
        in (has_subrels ap, ap)
      else (has_subrels ap, ap))"

definition AllTablesyncsReady :: "Oid list \<Rightarrow> sync_shared \<Rightarrow> sync_apply \<Rightarrow> bool \<times> sync_apply" where
  "AllTablesyncsReady rows sh ap =
     (let (has, ap) = FetchTableStates rows sh ap in (has \<and> table_states_not_ready ap = [], ap))"

text \<open>
  The settings of the loop: the time, the limits, and whether a new worker finds a free slot. A
  launched worker is registered with an unknown state.
\<close>

record sync_settings =
  sync_now :: TimestampTz
  max_sync_workers_per_subscription :: nat
  wal_retrieve_retry_interval :: int
  worker_slot_free :: bool

text \<open>The table of start times exists while there are tables to synchronise.\<close>

definition prepare_start_times :: "sync_apply \<Rightarrow> sync_apply" where
  "prepare_start_times ap =
     (if table_states_not_ready ap \<noteq> [] \<and> last_start_times ap = None then ap\<lparr>last_start_times := Some (\<lambda>_. None)\<rparr>
      else if table_states_not_ready ap = [] \<and> last_start_times ap \<noteq> None then ap\<lparr>last_start_times := None\<rparr> else ap)"

definition start_due :: "sync_settings \<Rightarrow> Oid \<Rightarrow> (Oid \<rightharpoonup> TimestampTz) \<Rightarrow> bool" where
  "start_due cfg relid start_times =
     (case start_times relid of None \<Rightarrow> True
      | Some t \<Rightarrow> TimestampDifferenceExceeds t (sync_now cfg) (wal_retrieve_retry_interval cfg))"

text \<open>The body of the loop for one table. The last parts of the result: a transaction was started, and the
  loop has to wait for the worker to finish.\<close>

definition sync_one_table ::
    "sync_settings \<Rightarrow> XLogRecPtr \<Rightarrow> SubscriptionRelState \<Rightarrow> sync_shared \<Rightarrow> sync_apply \<Rightarrow>
     (SubscriptionRelState \<times> sync_shared \<times> sync_apply \<times> bool \<times> bool) res" where
  "sync_one_table cfg current_lsn rstate sh ap =
     (if rs_state rstate = SUBREL_STATE_SYNCDONE then
        (if current_lsn \<ge> rs_lsn rstate then
           bindR (UpdateSubscriptionRelState (rs_relid rstate) SUBREL_STATE_READY current_lsn (drop_origin (rs_relid rstate) sh)) (\<lambda>sh.
           Inr (rstate\<lparr>rs_state := SUBREL_STATE_READY, rs_lsn := current_lsn\<rparr>, sh,
                ap\<lparr>table_states_validity := SYNC_TABLE_STATE_NEEDS_REBUILD\<rparr>, True, False))
         else Inr (rstate, sh, ap, False, False))
      else case map_of (sync_workers sh) (rs_relid rstate) of
        Some (relstate, relstate_lsn) \<Rightarrow>
          let rstate = rstate\<lparr>rs_state := relstate, rs_lsn := relstate_lsn\<rparr>
          in if relstate = SUBREL_STATE_SYNCWAIT
             then Inr (rstate, set_worker (rs_relid rstate) SUBREL_STATE_CATCHUP (max relstate_lsn current_lsn) sh, ap, True, True)
             else Inr (rstate, sh, ap, False, False)
      | None \<Rightarrow>
          if length (sync_workers sh) < max_sync_workers_per_subscription cfg then
            (case last_start_times ap of None \<Rightarrow> Inl (Undefined NullPointer)
             | Some start_times \<Rightarrow>
                 if start_due cfg (rs_relid rstate) start_times
                 then Inr (rstate, if worker_slot_free cfg then set_worker (rs_relid rstate) SUBREL_STATE_UNKNOWN 0 sh else sh,
                           ap\<lparr>last_start_times := Some (start_times(rs_relid rstate \<mapsto> sync_now cfg))\<rparr>, False, False)
                 else Inr (rstate, sh, ap, False, False))
          else Inr (rstate, sh, ap, False, False))"

text \<open>\<open>others\<close> is what the other processes do while the loop waits.\<close>

fun sync_loop ::
    "sync_settings \<Rightarrow> (sync_shared \<Rightarrow> sync_shared) \<Rightarrow> XLogRecPtr \<Rightarrow> bool \<Rightarrow> SubscriptionRelState list \<Rightarrow> SubscriptionRelState list \<Rightarrow>
     sync_shared \<Rightarrow> sync_apply \<Rightarrow> (bool \<times> SubscriptionRelState list \<times> sync_shared \<times> sync_apply) res" where
  "sync_loop cfg others current_lsn started_tx seen [] sh ap = Inr (started_tx, seen, sh, ap)"
| "sync_loop cfg others current_lsn started_tx seen (rstate # rest) sh ap =
     bindR (sync_one_table cfg current_lsn rstate sh ap) (\<lambda>(rstate, sh, ap, started, wait).
     sync_loop cfg others current_lsn (started_tx \<or> started) (seen @ [rstate]) rest (if wait then others sh else sh) ap)"

definition process_syncing_tables_for_apply ::
    "sync_settings \<Rightarrow> (sync_shared \<Rightarrow> sync_shared) \<Rightarrow> Oid list \<Rightarrow> bool \<Rightarrow> XLogRecPtr \<Rightarrow> sync_shared \<Rightarrow> sync_apply \<Rightarrow>
     (sync_shared \<times> sync_apply) res" where
  "process_syncing_tables_for_apply cfg others rows twophase_pending current_lsn sh ap =
     (let started_tx = (table_states_validity ap \<noteq> SYNC_TABLE_STATE_VALID);
          (has, ap) = FetchTableStates rows sh ap;
          ap = prepare_start_times ap
      in bindR (sync_loop cfg others current_lsn started_tx [] (table_states_not_ready ap) sh ap) (\<lambda>(started_tx, states, sh, ap).
         let ap = ap\<lparr>table_states_not_ready := states\<rparr>
         in if started_tx \<and> twophase_pending
            then (let (all_ready, ap) = AllTablesyncsReady rows sh ap in if all_ready then Inl ProcExit else Inr (sh, ap))
            else Inr (sh, ap)))"

section \<open>Restart after the copy\<close>

text \<open>Claim C17. A synchronisation worker that is restarted after its copy has been recorded crashes: the relation is not opened
  on that path, and its name is read for the closing message as soon as the apply worker lets it catch up. The table stays in
  the state FINISHEDCOPY.\<close>

theorem restart_after_copy_crashes:
  assumes "subscription_rel sh relid = Some (SUBREL_STATE_FINISHEDCOPY, lsn)" and "sync_origins sh relid = Some startpos"
  shows "LogicalRepSyncTableStart lib copy slot_lsn others relid rd_name sh p = Inl (Undefined NullPointer)"
  using assms
  by (simp add: LogicalRepSyncTableStart_def sync_table_begin_def GetSubscriptionRelState_def set_worker_def Let_def)

definition demo_shared :: sync_shared where
  "demo_shared = \<lparr>subscription_rel = [40 \<mapsto> (SUBREL_STATE_FINISHEDCOPY, 0)], sync_workers = [(40, SUBREL_STATE_UNKNOWN, 0)],
     sync_origins = [40 \<mapsto> 100], sync_slots = (\<lambda>r. r = 40)\<rparr>"

theorem restart_after_copy_crashes_witness:
  "LogicalRepSyncTableStart (demo_client 1) Inr 0 (\<lambda>sh. sh) 40 ''t'' demo_shared demo_copy_publisher = Inl (Undefined NullPointer)"
  by (rule restart_after_copy_crashes) (simp_all add: demo_shared_def)

section \<open>Slot names\<close>

lemma length_show_nat: "n < 10 ^ k \<Longrightarrow> 0 < k \<Longrightarrow> length (show_nat n) \<le> k"
proof (induction n arbitrary: k rule: show_nat.induct)
  case (1 n)
  show ?case
  proof (cases "n < 10")
    case True
    with "1.prems" show ?thesis by (subst show_nat.simps) simp
  next
    case False
    then obtain j where k: "k = Suc j" "0 < j" using "1.prems" by (cases k; cases "k - 1") auto
    then have "n div 10 < 10 ^ j" using "1.prems"(1) by (simp add: less_mult_imp_div_less mult.commute)
    with "1.IH" [of j] False k show ?thesis by (subst show_nat.simps) simp
  qed
qed

lemma show_nat_digits: "c \<in> set (show_nat n) \<Longrightarrow> c \<noteq> CHR ''_''"
proof (induction n rule: show_nat.induct)
  case (1 n)
  have "char_of (48 + d) \<noteq> CHR ''_''" if "d < 10" for d :: nat
  proof
    assume "char_of (48 + d) = CHR ''_''"
    then have "uchar (char_of (48 + d)) = uchar (CHR ''_'')" by simp
    with that show False by simp
  qed
  from this [of n] this [of "n mod 10"] 1 show ?case by (subst (asm) show_nat.simps) (auto split: if_splits)
qed

text \<open>The name of a table's slot has at most 50 bytes, so that it is never cut off in a name of 64 bytes, and different
  subscriptions or tables have different slots.\<close>

theorem slot_name_unique:
  "length (ReplicationSlotNameForTablesync sysid suboid relid 64) \<le> 50 \<and>
   (ReplicationSlotNameForTablesync sysid suboid relid 64 = ReplicationSlotNameForTablesync sysid suboid' relid' 64 \<longleftrightarrow>
    suboid = suboid' \<and> relid = relid')"
proof -
  have oid: "length (show_nat (unat w)) \<le> 10" for w :: Oid
  proof (rule length_show_nat)
    have "unat w < 2 ^ LENGTH(32)" by (rule unsigned_less)
    then show "unat w < 10 ^ 10" by simp
  qed simp
  have sys: "length (show_nat (unat sysid)) \<le> 20"
  proof (rule length_show_nat)
    have "unat sysid < 2 ^ LENGTH(64)" by (rule unsigned_less)
    then show "unat sysid < 10 ^ 20" by simp
  qed simp
  have name: "ReplicationSlotNameForTablesync sysid sub rel 64 =
      ''pg_'' @ show_nat (unat sub) @ ''_sync_'' @ show_nat (unat rel) @ ''_'' @ show_nat (unat sysid)" for sub rel
    using oid [of sub] oid [of rel] sys by (simp add: ReplicationSlotNameForTablesync_def)
  have digits: "CHR ''_'' \<notin> set (show_nat n)" for n using show_nat_digits by blast
  have "suboid = suboid' \<and> relid = relid'"
    if eq: "ReplicationSlotNameForTablesync sysid suboid relid 64 = ReplicationSlotNameForTablesync sysid suboid' relid' 64"
  proof -
    from eq have "show_nat (unat suboid) @ CHR ''_'' # ''sync_'' @ show_nat (unat relid) @ ''_'' @ show_nat (unat sysid) =
        show_nat (unat suboid') @ CHR ''_'' # ''sync_'' @ show_nat (unat relid') @ ''_'' @ show_nat (unat sysid)"
      by (simp add: name)
    from first_separator [OF this digits digits] have "unat suboid = unat suboid'" "unat relid = unat relid'" by (simp_all add: show_nat_inj)
    then show ?thesis by (simp add: unsigned_word_eqI)
  qed
  moreover have "length (ReplicationSlotNameForTablesync sysid suboid relid 64) \<le> 50"
    using oid [of suboid] oid [of relid] sys by (simp add: name)
  ultimately show ?thesis by blast
qed

section \<open>The workers together\<close>

text \<open>
  The transactions of the publisher, by the position of the commit record and the position
  behind it, in commit order. \<open>clean\<close>: a position inside no commit record. The decoding of a
  slot delivers the transactions one after the other.
\<close>

type_synonym transaction = "XLogRecPtr \<times> XLogRecPtr"

definition history_ok :: "transaction list \<Rightarrow> bool" where
  "history_ok hist \<longleftrightarrow> sorted_wrt (\<lambda>x y. snd x \<le> fst y) hist \<and> (\<forall>x \<in> set hist. fst x < snd x)"

definition ended_by :: "transaction list \<Rightarrow> XLogRecPtr \<Rightarrow> transaction list" where
  "ended_by hist p = filter (\<lambda>x. snd x \<le> p) hist"

definition clean :: "transaction list \<Rightarrow> XLogRecPtr \<Rightarrow> bool" where
  "clean hist p \<longleftrightarrow> (\<forall>x \<in> set hist. snd x \<le> p \<or> p \<le> fst x)"

definition next_tx :: "transaction list \<Rightarrow> XLogRecPtr \<Rightarrow> transaction \<Rightarrow> bool" where
  "next_tx hist p tx \<longleftrightarrow> tx \<in> set hist \<and> p \<le> fst tx \<and> (\<forall>x \<in> set hist. snd x \<le> p \<or> fst tx \<le> fst x)"

definition no_tx :: "transaction list \<Rightarrow> XLogRecPtr \<Rightarrow> XLogRecPtr \<Rightarrow> bool" where
  "no_tx hist p q \<longleftrightarrow> p \<le> q \<and> (\<forall>x \<in> set hist. snd x \<le> p \<or> q \<le> fst x)"

definition since :: "transaction list \<Rightarrow> XLogRecPtr \<Rightarrow> XLogRecPtr \<Rightarrow> transaction list" where
  "since hist p q = filter (\<lambda>x. p \<le> fst x) (ended_by hist q)"

lemma ended_by_next:
  assumes "history_ok hist" and "next_tx hist p tx"
  shows "ended_by hist (snd tx) = ended_by hist p @ [tx]" "clean hist (snd tx)"
proof -
  obtain pre post where h: "hist = pre @ tx # post" using assms(2) split_list by (fastforce simp: next_tx_def)
  have tx: "fst tx < snd tx" "p \<le> fst tx" using assms by (auto simp: history_ok_def next_tx_def)
  have pre: "snd x \<le> fst tx" "fst x < snd x" if "x \<in> set pre" for x
    using assms(1) that by (auto simp: history_ok_def h sorted_wrt_append)
  have post: "snd tx \<le> fst x" "fst x < snd x" if "x \<in> set post" for x
    using assms(1) that by (auto simp: history_ok_def h sorted_wrt_append)
  have pre_p: "snd x \<le> p" if "x \<in> set pre" for x
    using assms(2) pre [OF that] that by (auto simp: next_tx_def h)
  have pre_tx: "snd x \<le> snd tx" if "x \<in> set pre" for x using pre(1) [OF that] tx(1) by simp
  have "filter (\<lambda>x. snd x \<le> p) pre = pre" "filter (\<lambda>x. snd x \<le> snd tx) pre = pre"
    using pre_p pre_tx by (auto simp: filter_id_conv)
  moreover have "filter (\<lambda>x. snd x \<le> p) post = []" "filter (\<lambda>x. snd x \<le> snd tx) post = []"
    using post tx by (force simp: filter_empty_conv)+
  ultimately show "ended_by hist (snd tx) = ended_by hist p @ [tx]" using tx by (simp add: ended_by_def h)
  show "clean hist (snd tx)" using pre_tx post by (auto simp: clean_def h)
qed

lemma ended_by_no_tx:
  assumes "history_ok hist" and "no_tx hist p q"
  shows "ended_by hist q = ended_by hist p" "clean hist q"
proof -
  have "snd x \<le> q \<longleftrightarrow> snd x \<le> p" if "x \<in> set hist" for x
    using assms that by (force simp: no_tx_def history_ok_def)
  then show "ended_by hist q = ended_by hist p" unfolding ended_by_def by (rule filter_cong [OF refl])
  show "clean hist q" using assms(2) by (auto simp: no_tx_def clean_def intro: order_trans)
qed

text \<open>What ended by \<open>l\<close>, followed by what started since and ended by \<open>p\<close>, is what ended by the later of the two.\<close>

lemma ended_by_since:
  assumes "history_ok hist" and "clean hist l"
  shows "ended_by hist l @ since hist l p = ended_by hist (max l p)"
  using assms
proof (induction hist)
  case (Cons x xs)
  have xs: "history_ok xs" "clean xs l" and x: "fst x < snd x" using Cons.prems by (simp_all add: history_ok_def clean_def)
  show ?case
  proof (cases "snd x \<le> l")
    case True
    with x have "\<not> l \<le> fst x" by simp
    with True Cons.IH [OF xs] show ?thesis by (auto simp: ended_by_def since_def max_def)
  next
    case False
    then have "l \<le> fst x" using Cons.prems(2) by (simp add: clean_def)
    moreover have "snd x \<le> fst y" "fst y < snd y" if "y \<in> set xs" for y
      using that Cons.prems(1) by (simp_all add: history_ok_def)
    ultimately have xs_later: "l \<le> fst y" "l < snd y" if "y \<in> set xs" for y
      using that x order_le_less_trans [of l "fst x"] order_le_less_trans [of l "fst y"] by (meson less_imp_le order_trans)+
    have later: "l < snd y" "l \<le> fst y" if "y \<in> set (x # xs)" for y
      using that xs_later [of y] x \<open>l \<le> fst x\<close> order_le_less_trans [OF \<open>l \<le> fst x\<close> x] by (cases "y = x"; simp)+
    then have "filter (\<lambda>y. snd y \<le> l) (x # xs) = []" unfolding filter_empty_conv by (blast dest: leD)
    moreover have "filter (\<lambda>y. l \<le> fst y) (filter (\<lambda>y. snd y \<le> p) (x # xs)) = filter (\<lambda>y. snd y \<le> max l p) (x # xs)"
      unfolding filter_filter
      by (intro filter_cong [OF refl]) (metis later le_max_iff_disj not_less)
    ultimately show ?thesis unfolding ended_by_def since_def by simp
  qed
qed (simp add: ended_by_def since_def)

lemma since_refl: "history_ok hist \<Longrightarrow> since hist p p = []"
  unfolding since_def ended_by_def history_ok_def filter_filter filter_empty_conv by (meson leD order_less_le_trans)

lemma since_later: "a \<le> l \<Longrightarrow> filter (\<lambda>x. l \<le> fst x) (since hist a p) = since hist l p"
  by (auto simp: since_def intro!: filter_cong)

text \<open>
  Where each worker is: the apply worker in the list of tables it processes, a synchronisation
  worker in its start. The last fields record what has been published: \<open>applied\<close> by the apply
  worker since its start position, \<open>copied r\<close> the transactions whose effect is in the copy of
  \<open>r\<close>, and \<open>streamed r\<close> by the worker of \<open>r\<close> behind the copy. The handlers of a change do not ask
  for the state of its table (the test \<^verbatim>\<open>should_apply_changes_for_rel\<close> is compiled out of
  INSERT, UPDATE and DELETE), so \<open>applied\<close> and \<open>streamed\<close> hold the changes of every table.
\<close>

datatype sync_pc = Not_running | Launched | Copying | Waiting | Streaming

record sync_sys =
  shared :: sync_shared
  a_pos :: XLogRecPtr
  a_ap :: sync_apply
  a_seen :: "SubscriptionRelState list"
  a_todo :: "SubscriptionRelState list"
  a_wait :: "Oid option"
  s_pc :: "Oid \<Rightarrow> sync_pc"
  s_pos :: "Oid \<Rightarrow> XLogRecPtr"
  a_start :: XLogRecPtr
  applied :: "transaction list"
  copied :: "Oid \<Rightarrow> transaction list"
  streamed :: "Oid \<Rightarrow> transaction list"

text \<open>
  One step of one worker. The apply worker takes a transaction or learns that there is none up
  to a position, and then goes through the tables; a synchronisation worker starts, copies the
  table at a position, waits, and streams. Steps that fail are not taken: the relation describes
  the runs in which no worker is restarted after an error.
\<close>

inductive sync_step :: "transaction list \<Rightarrow> Oid list \<Rightarrow> sync_sys \<Rightarrow> sync_sys \<Rightarrow> bool" for hist rows where
  apply_tx: "a_todo s = [] \<Longrightarrow> a_wait s = None \<Longrightarrow> next_tx hist (a_pos s) (c, e) \<Longrightarrow> FetchTableStates rows (shared s) (a_ap s) = (has, ap) \<Longrightarrow>
    sync_step hist rows s (s\<lparr>applied := applied s @ [(c, e)],
      a_pos := e, a_ap := prepare_start_times ap, a_seen := [], a_todo := table_states_not_ready ap\<rparr>)"
| apply_keepalive: "a_todo s = [] \<Longrightarrow> a_wait s = None \<Longrightarrow> no_tx hist (a_pos s) q \<Longrightarrow> FetchTableStates rows (shared s) (a_ap s) = (has, ap) \<Longrightarrow>
    sync_step hist rows s (s\<lparr>a_pos := q, a_ap := prepare_start_times ap, a_seen := [], a_todo := table_states_not_ready ap\<rparr>)"
| apply_table: "a_todo s = rs # rest \<Longrightarrow> a_wait s = None \<Longrightarrow>
    sync_one_table cfg (a_pos s) rs (shared s) (a_ap s) = Inr (rs', sh, ap, started, wait) \<Longrightarrow>
    sync_step hist rows s (s\<lparr>shared := sh, a_ap := ap\<lparr>table_states_not_ready := a_seen s @ rs' # rest\<rparr>, a_seen := a_seen s @ [rs'], a_todo := rest,
      a_wait := if wait then Some (rs_relid rs) else None,
      s_pc := (s_pc s)(rs_relid rs :=
        if map_of (sync_workers (shared s)) (rs_relid rs) = None \<and> map_of (sync_workers sh) (rs_relid rs) \<noteq> None
        then Launched else s_pc s (rs_relid rs))\<rparr>)"
| apply_wake: "a_wait s = Some r \<Longrightarrow> fst (GetSubscriptionRelState r (shared s)) = SUBREL_STATE_SYNCDONE \<Longrightarrow>
    sync_step hist rows s (s\<lparr>a_wait := None\<rparr>)"
| invalidated: "sync_step hist rows s (s\<lparr>a_ap := (a_ap s)\<lparr>table_states_validity := SYNC_TABLE_STATE_NEEDS_REBUILD\<rparr>\<rparr>)"
| sync_begins: "s_pc s r = Launched \<Longrightarrow> sync_table_begin r (shared s) = Inr (start, sh) \<Longrightarrow> start = Sync_exit \<or> start = Sync_copy \<Longrightarrow>
    sync_step hist rows s (s\<lparr>shared := sh, s_pc := (s_pc s)(r := if start = Sync_exit then Not_running else Copying)\<rparr>)"
| sync_copies: "s_pc s r = Copying \<Longrightarrow> clean hist L \<Longrightarrow> sync_table_copy Inr L r (shared s, ()) = Inr (sh, u) \<Longrightarrow>
    sync_step hist rows s (s\<lparr>shared := set_worker r SUBREL_STATE_SYNCWAIT L sh, s_pc := (s_pc s)(r := Waiting), s_pos := (s_pos s)(r := L),
      copied := (copied s)(r := ended_by hist L)\<rparr>)"
| sync_catches_up: "s_pc s r = Waiting \<Longrightarrow> map_of (sync_workers (shared s)) r = Some (SUBREL_STATE_CATCHUP, T) \<Longrightarrow>
    sync_step hist rows s (s\<lparr>s_pc := (s_pc s)(r := Streaming)\<rparr>)"
| sync_tx: "s_pc s r = Streaming \<Longrightarrow> next_tx hist (s_pos s r) (c, e) \<Longrightarrow> process_syncing_tables_for_sync r e (shared s) = Inr (fin, sh) \<Longrightarrow>
    sync_step hist rows s (s\<lparr>shared := sh, s_pc := (s_pc s)(r := if fin then Not_running else Streaming), s_pos := (s_pos s)(r := e),
      streamed := (streamed s)(r := streamed s r @ [(c, e)])\<rparr>)"
| sync_keepalive: "s_pc s r = Streaming \<Longrightarrow> no_tx hist (s_pos s r) q \<Longrightarrow> process_syncing_tables_for_sync r q (shared s) = Inr (fin, sh) \<Longrightarrow>
    sync_step hist rows s (s\<lparr>shared := sh, s_pc := (s_pc s)(r := if fin then Not_running else Streaming), s_pos := (s_pos s)(r := q)\<rparr>)"

text \<open>The start: every table waits for its synchronisation and no worker runs.\<close>

definition sync_initial :: "transaction list \<Rightarrow> sync_sys \<Rightarrow> bool" where
  "sync_initial hist s \<longleftrightarrow>
     (\<forall>r. fst (GetSubscriptionRelState r (shared s)) \<in> {SUBREL_STATE_UNKNOWN, SUBREL_STATE_INIT}) \<and> sync_workers (shared s) = [] \<and>
     clean hist (a_pos s) \<and> table_states_not_ready (a_ap s) = [] \<and> a_todo s = [] \<and> a_seen s = [] \<and> a_wait s = None \<and>
     a_start s = a_pos s \<and> applied s = [] \<and> (\<forall>r. s_pc s r = Not_running \<and> copied s r = [] \<and> streamed s r = [])"

inductive sync_reach :: "transaction list \<Rightarrow> Oid list \<Rightarrow> sync_sys \<Rightarrow> bool" for hist rows where
  start: "sync_initial hist s \<Longrightarrow> sync_reach hist rows s"
| step: "sync_reach hist rows s \<Longrightarrow> sync_step hist rows s s' \<Longrightarrow> sync_reach hist rows s'"

section \<open>No transaction is lost\<close>

text \<open>What the routines do to the catalog and to the workers in shared memory.\<close>

definition catalog :: "sync_shared \<Rightarrow> Oid \<Rightarrow> byte \<times> XLogRecPtr" where
  "catalog sh = (\<lambda>r. GetSubscriptionRelState r sh)"

definition workers_of :: "sync_shared \<Rightarrow> Oid \<rightharpoonup> byte \<times> XLogRecPtr" where
  "workers_of sh = map_of (sync_workers sh)"

lemma shared_effects [simp]:
  "catalog (set_worker r st lsn sh) = catalog sh" "workers_of (set_worker r st lsn sh) = (workers_of sh)(r \<mapsto> (st, lsn))"
  "catalog (finish_sync_worker r sh) = catalog sh" "workers_of (finish_sync_worker r sh) = (workers_of sh)(r := None)"
  "catalog (drop_origin r sh) = catalog sh" "workers_of (drop_origin r sh) = workers_of sh"
  by (simp_all add: catalog_def workers_of_def GetSubscriptionRelState_def set_worker_def finish_sync_worker_def drop_origin_def
      update_conv' delete_conv' fun_eq_iff)

lemma UpdateSubscriptionRelState_effect:
  "UpdateSubscriptionRelState r st lsn sh = Inr sh' \<Longrightarrow> catalog sh' = (catalog sh)(r := (st, lsn)) \<and> workers_of sh' = workers_of sh"
  by (auto simp: UpdateSubscriptionRelState_def catalog_def workers_of_def GetSubscriptionRelState_def fun_eq_iff split: option.splits)

lemma ReplicationSlotDrop_effect:
  "ReplicationSlotDropAtPubNode r ok sh = Inr sh' \<Longrightarrow> catalog sh' = catalog sh \<and> workers_of sh' = workers_of sh"
  by (auto simp: ReplicationSlotDropAtPubNode_def catalog_def workers_of_def GetSubscriptionRelState_def split: if_splits)

lemmas shared_dests = UpdateSubscriptionRelState_effect ReplicationSlotDrop_effect

lemma sync_table_begin_effect:
  assumes "sync_table_begin r sh = Inr (start, sh')"
  shows "(start = Sync_exit \<and> fst (catalog sh r) \<in> {SUBREL_STATE_SYNCDONE, SUBREL_STATE_READY, SUBREL_STATE_UNKNOWN} \<and>
      catalog sh' = catalog sh \<and> workers_of sh' = (workers_of sh)(r := None)) \<or>
    (start = Sync_copy \<and> fst (catalog sh r) \<notin> {SUBREL_STATE_SYNCDONE, SUBREL_STATE_READY, SUBREL_STATE_UNKNOWN, SUBREL_STATE_FINISHEDCOPY} \<and>
      catalog sh' = (catalog sh)(r := (SUBREL_STATE_DATASYNC, 0)) \<and> workers_of sh' = (workers_of sh)(r \<mapsto> (SUBREL_STATE_DATASYNC, 0))) \<or>
    (\<exists>lsn. start = Sync_copied lsn)"
proof -
  obtain st lsn where st: "GetSubscriptionRelState r sh = (st, lsn)" by force
  then have cat: "catalog sh r = (st, lsn)" by (simp add: catalog_def)
  show ?thesis using assms st cat
    by (auto simp: sync_table_begin_def Let_def bindR_eq_Inr_iff dest!: shared_dests split: if_splits option.splits)
qed

lemma sync_table_copy_effect:
  "sync_table_copy Inr L r (sh, u) = Inr (sh', u') \<Longrightarrow>
   catalog sh' = (catalog sh)(r := (SUBREL_STATE_FINISHEDCOPY, 0)) \<and> workers_of sh' = workers_of sh"
  by (auto simp: sync_table_copy_def Let_def bindR_eq_Inr_iff catalog_def workers_of_def GetSubscriptionRelState_def
      UpdateSubscriptionRelState_def fun_eq_iff split: if_splits option.splits)

lemma process_syncing_for_sync_effect:
  assumes "process_syncing_tables_for_sync r lsn sh = Inr (fin, sh')"
  shows "(\<not> fin \<and> sh' = sh) \<or>
    (fin \<and> (\<exists>T. workers_of sh r = Some (SUBREL_STATE_CATCHUP, T) \<and> T \<le> lsn) \<and> catalog sh' = (catalog sh)(r := (SUBREL_STATE_SYNCDONE, lsn)) \<and>
     workers_of sh' = (workers_of sh)(r := None))"
  using assms
  by (auto simp: process_syncing_tables_for_sync_def bindR_eq_Inr_iff workers_of_def [symmetric] dest!: shared_dests split: option.splits if_splits)

lemma sync_one_table_effect:
  assumes "sync_one_table cfg p rs sh ap = Inr (rs', sh', ap', started, wait)"
  obtains (ready) "rs_state rs = SUBREL_STATE_SYNCDONE" "rs_lsn rs \<le> p" "rs_state rs' = SUBREL_STATE_READY"
      "catalog sh' = (catalog sh)(rs_relid rs := (SUBREL_STATE_READY, p))" "workers_of sh' = workers_of sh" "\<not> wait"
  | (same) "rs' = rs" "catalog sh' = catalog sh" "workers_of sh' = workers_of sh" "\<not> wait"
  | (look) w where "workers_of sh (rs_relid rs) = Some w" "rs_relid rs' = rs_relid rs" "rs_state rs' = fst w" "sh' = sh" "\<not> wait"
  | (told) lsn where "workers_of sh (rs_relid rs) = Some (SUBREL_STATE_SYNCWAIT, lsn)" "rs_state rs' = SUBREL_STATE_SYNCWAIT" "wait"
      "catalog sh' = catalog sh" "workers_of sh' = (workers_of sh)(rs_relid rs \<mapsto> (SUBREL_STATE_CATCHUP, max lsn p))"
  | (launched) "rs' = rs" "workers_of sh (rs_relid rs) = None" "catalog sh' = catalog sh"
      "workers_of sh' = (workers_of sh)(rs_relid rs \<mapsto> (SUBREL_STATE_UNKNOWN, 0))" "\<not> wait"
proof (cases "rs_state rs = SUBREL_STATE_SYNCDONE")
  case True
  with assms show thesis
    by (cases "rs_lsn rs \<le> p") (auto simp: sync_one_table_def bindR_eq_Inr_iff dest!: shared_dests intro: ready same)
next
  case False
  show thesis
  proof (cases "workers_of sh (rs_relid rs)")
    case None
    with False assms show thesis
      by (auto simp: sync_one_table_def workers_of_def [symmetric] intro: same launched split: if_splits option.splits)
  next
    case (Some w)
    with False assms show thesis
      by (cases w) (auto simp: sync_one_table_def workers_of_def [symmetric] Let_def intro: look told split: if_splits)
  qed
qed

text \<open>
  The invariant of one table, by its state in the catalog. Nothing is copied before the copy is
  recorded; then its worker has published what ended by its position, which stays behind the
  position the blocked apply worker has told it; and the position where it stops is one the apply
  worker has not passed.
\<close>

definition table_inv ::
    "transaction list \<Rightarrow> XLogRecPtr \<Rightarrow> XLogRecPtr \<Rightarrow> bool \<Rightarrow> byte \<times> XLogRecPtr \<Rightarrow> (byte \<times> XLogRecPtr) option \<Rightarrow> sync_pc \<Rightarrow> XLogRecPtr \<Rightarrow>
     transaction list \<Rightarrow> transaction list \<Rightarrow> bool" where
  "table_inv hist astart apos waiting cat w pc pos cop str \<longleftrightarrow>
     (w = None \<longleftrightarrow> pc = Not_running) \<and>
     (if fst cat \<in> {SUBREL_STATE_UNKNOWN, SUBREL_STATE_INIT, SUBREL_STATE_DATASYNC} then
        cop = [] \<and> str = [] \<and> pc \<in> {Not_running, Launched, Copying} \<and> \<not> waiting \<and>
        w \<notin> Some ` ({SUBREL_STATE_SYNCWAIT, SUBREL_STATE_CATCHUP, SUBREL_STATE_SYNCDONE} \<times> UNIV)
      else clean hist pos \<and> cop @ str = ended_by hist pos \<and>
       (if fst cat = SUBREL_STATE_FINISHEDCOPY then
          pc = Waiting \<and> \<not> waiting \<and> (\<exists>L. w = Some (SUBREL_STATE_SYNCWAIT, L)) \<or>
          pc \<in> {Waiting, Streaming} \<and> waiting \<and> (\<exists>T. w = Some (SUBREL_STATE_CATCHUP, T) \<and> apos \<le> T)
        else astart \<le> pos \<and> pc \<in> {Not_running, Launched} \<and> w \<notin> Some ` ({SUBREL_STATE_SYNCWAIT, SUBREL_STATE_CATCHUP, SUBREL_STATE_SYNCDONE} \<times> UNIV) \<and>
          (if fst cat = SUBREL_STATE_SYNCDONE then pos = snd cat else fst cat = SUBREL_STATE_READY \<and> \<not> waiting)))"

text \<open>A table that the apply worker believes to be synchronised is, at the position it believes.\<close>

definition cached_ok :: "(Oid \<Rightarrow> byte \<times> XLogRecPtr) \<Rightarrow> SubscriptionRelState \<Rightarrow> bool" where
  "cached_ok cat rs \<longleftrightarrow>
     (rs_state rs = SUBREL_STATE_SYNCDONE \<longrightarrow>
      cat (rs_relid rs) = (SUBREL_STATE_SYNCDONE, rs_lsn rs) \<or> fst (cat (rs_relid rs)) = SUBREL_STATE_READY)"

definition sys_inv :: "transaction list \<Rightarrow> sync_sys \<Rightarrow> bool" where
  "sys_inv hist s \<longleftrightarrow>
     clean hist (a_pos s) \<and> a_start s \<le> a_pos s \<and> applied s = since hist (a_start s) (a_pos s) \<and>
     (\<forall>rs \<in> set (table_states_not_ready (a_ap s)) \<union> set (a_todo s) \<union> set (a_seen s). cached_ok (catalog (shared s)) rs) \<and>
     (\<forall>r. table_inv hist (a_start s) (a_pos s) (a_wait s = Some r) (catalog (shared s) r) (workers_of (shared s) r) (s_pc s r) (s_pos s r) (copied s r) (streamed s r))"

lemma prepare_start_times_states [simp]: "table_states_not_ready (prepare_start_times ap) = table_states_not_ready ap"
  by (simp add: prepare_start_times_def)

lemma FetchTableStates_cached:
  assumes "FetchTableStates rows sh ap = (has, ap')" and "\<forall>rs \<in> set (table_states_not_ready ap). cached_ok (catalog sh) rs"
  shows "\<forall>rs \<in> set (table_states_not_ready ap'). cached_ok (catalog sh) rs"
  using assms by (auto simp: FetchTableStates_def Let_def cached_ok_def catalog_def prod_eq_iff split: if_splits)

text \<open>The apply worker moves: the tables stay as they are.\<close>

lemma table_inv_apply: "table_inv hist a p False cat w pc pos cop str \<Longrightarrow> table_inv hist a q False cat w pc pos cop str"
  by (auto simp: table_inv_def split: if_splits)

lemma cached_ok_upd:
  "cached_ok cat rs \<Longrightarrow> fst (cat r) \<notin> {SUBREL_STATE_SYNCDONE, SUBREL_STATE_READY} \<or> fst v = SUBREL_STATE_READY \<Longrightarrow> cached_ok (cat(r := v)) rs"
  by (auto simp: cached_ok_def)

lemma sys_invD:
  assumes "sys_inv hist s"
  shows "clean hist (a_pos s)"
    and "rs \<in> set (table_states_not_ready (a_ap s)) \<union> set (a_todo s) \<union> set (a_seen s) \<Longrightarrow> cached_ok (catalog (shared s)) rs"
    and "table_inv hist (a_start s) (a_pos s) (a_wait s = Some r) (catalog (shared s) r) (workers_of (shared s) r) (s_pc s r) (s_pos s r) (copied s r) (streamed s r)"
    and "a_start s \<le> a_pos s" and "applied s = since hist (a_start s) (a_pos s)"
  using assms by (auto simp: sys_inv_def)

text \<open>A step of the worker of one table leaves the other tables and the apply worker alone.\<close>

lemma sys_inv_table:
  assumes inv: "sys_inv hist s" and "catalog sh = (catalog (shared s))(r := v)" and "workers_of sh = (workers_of (shared s))(r := w)"
    and "fst (catalog (shared s) r) \<notin> {SUBREL_STATE_SYNCDONE, SUBREL_STATE_READY} \<or> v = catalog (shared s) r"
    and "table_inv hist (a_start s) (a_pos s) (a_wait s = Some r) v w pc pos cop str"
  shows "sys_inv hist (s\<lparr>shared := sh, s_pc := (s_pc s)(r := pc), s_pos := (s_pos s)(r := pos),
    copied := (copied s)(r := cop), streamed := (streamed s)(r := str)\<rparr>)"
proof -
  have "cached_ok (catalog sh) rs" if "rs \<in> set (table_states_not_ready (a_ap s)) \<union> set (a_todo s) \<union> set (a_seen s)" for rs
    using cached_ok_upd [OF sys_invD(2) [OF inv that], of r v] sys_invD(2) [OF inv that] assms(2,4) by auto
  then show ?thesis using sys_invD(1,3-5) [OF inv] assms(2,3,5) by (auto simp: sys_inv_def)
qed

lemma sys_inv_apply_table:
  assumes inv: "sys_inv hist s" and todo: "a_todo s = rs # rest" "a_wait s = None"
    and one: "sync_one_table cfg (a_pos s) rs (shared s) (a_ap s) = Inr (rs', sh, ap, started, wait)"
  shows "sys_inv hist (s\<lparr>shared := sh, a_ap := ap\<lparr>table_states_not_ready := a_seen s @ rs' # rest\<rparr>, a_seen := a_seen s @ [rs'], a_todo := rest,
      a_wait := if wait then Some (rs_relid rs) else None,
      s_pc := (s_pc s)(rs_relid rs :=
        if map_of (sync_workers (shared s)) (rs_relid rs) = None \<and> map_of (sync_workers sh) (rs_relid rs) \<noteq> None
        then Launched else s_pc s (rs_relid rs))\<rparr>)"
proof -
  let ?r = "rs_relid rs" and ?cat = "catalog (shared s)" and ?w = "workers_of (shared s)"
  have tab: "table_inv hist (a_start s) (a_pos s) False (?cat r) (?w r) (s_pc s r) (s_pos s r) (copied s r) (streamed s r)" for r
    using sys_invD(3) [OF inv, of r] todo(2) by simp
  have cached: "cached_ok ?cat x" if "x \<in> set (a_seen s) \<union> set (rs # rest)" for x
    using sys_invD(2) [OF inv, of x] todo(1) that by auto
  have rs: "cached_ok ?cat rs" using cached by simp
  note clean = sys_invD(1,4,5) [OF inv]
  show ?thesis using one
  proof (cases rule: sync_one_table_effect)
    case ready
    have "cached_ok (catalog sh) x" if "x \<in> set (a_seen s) \<union> set (rs # rest)" for x
      unfolding ready(4) by (rule cached_ok_upd [OF cached [OF that]]) simp
    moreover have "cached_ok (catalog sh) rs'" using ready(3) by (simp add: cached_ok_def)
    moreover have "table_inv hist (a_start s) (a_pos s) False (SUBREL_STATE_READY, a_pos s) (?w ?r) (s_pc s ?r) (s_pos s ?r) (copied s ?r) (streamed s ?r)"
      using tab [of ?r] rs ready(1,2) by (auto simp: table_inv_def cached_ok_def max_def split: if_splits)
    ultimately show ?thesis using ready(4-) tab clean by (auto simp: sys_inv_def workers_of_def)
  next
    case same
    then show ?thesis using tab clean cached by (auto simp: sys_inv_def workers_of_def)
  next
    case (look w)
    have "fst w \<noteq> SUBREL_STATE_SYNCDONE" using tab [of ?r] look(1) by (cases w) (auto simp: table_inv_def split: if_splits)
    then have "cached_ok ?cat rs'" using look by (simp add: cached_ok_def)
    then show ?thesis using look tab clean cached by (auto simp: sys_inv_def workers_of_def)
  next
    case (told lsn)
    have "cached_ok ?cat rs'" using told by (simp add: cached_ok_def)
    moreover have "table_inv hist (a_start s) (a_pos s) True (?cat ?r) (Some (SUBREL_STATE_CATCHUP, max lsn (a_pos s))) (s_pc s ?r) (s_pos s ?r) (copied s ?r) (streamed s ?r)"
      using tab [of ?r] told(1) by (auto simp: table_inv_def split: if_splits)
    ultimately show ?thesis using told tab clean cached by (auto simp: sys_inv_def workers_of_def)
  next
    case launched
    have "table_inv hist (a_start s) (a_pos s) False (?cat ?r) (Some (SUBREL_STATE_UNKNOWN, 0)) Launched (s_pos s ?r) (copied s ?r) (streamed s ?r)"
      using tab [of ?r] launched(2) by (auto simp: table_inv_def split: if_splits)
    then show ?thesis using launched tab clean cached by (auto simp: sys_inv_def workers_of_def)
  qed
qed

lemma sys_inv_streamed:
  assumes h: "history_ok hist" and inv: "sys_inv hist s" and pc: "s_pc s r = Streaming"
    and ps: "process_syncing_tables_for_sync r q (shared s) = Inr (fin, sh)" and q: "clean hist q" "copied s r @ str = ended_by hist q"
  shows "sys_inv hist (s\<lparr>shared := sh, s_pc := (s_pc s)(r := if fin then Not_running else Streaming), s_pos := (s_pos s)(r := q),
    streamed := (streamed s)(r := str)\<rparr>)"
proof -
  have tab: "table_inv hist (a_start s) (a_pos s) (a_wait s = Some r) (catalog (shared s) r) (workers_of (shared s) r) Streaming (s_pos s r) (copied s r) (streamed s r)"
    using sys_invD(3) [OF inv, of r] pc by simp
  then have cat: "fst (catalog (shared s) r) = SUBREL_STATE_FINISHEDCOPY" by (auto simp: table_inv_def split: if_splits)
  from process_syncing_for_sync_effect [OF ps] show ?thesis
  proof
    assume "\<not> fin \<and> sh = shared s"
    moreover have "table_inv hist (a_start s) (a_pos s) (a_wait s = Some r) (catalog (shared s) r) (workers_of (shared s) r) Streaming q (copied s r) str"
      using tab q by (auto simp: table_inv_def split: if_splits)
    ultimately show ?thesis
      using sys_inv_table [OF inv, of sh r "catalog (shared s) r" "workers_of (shared s) r" Streaming q "copied s r" str] by simp
  next
    assume fin: "fin \<and> (\<exists>T. workers_of (shared s) r = Some (SUBREL_STATE_CATCHUP, T) \<and> T \<le> q) \<and>
      catalog sh = (catalog (shared s))(r := (SUBREL_STATE_SYNCDONE, q)) \<and> workers_of sh = (workers_of (shared s))(r := None)"
    then have "a_start s \<le> q" using tab cat sys_invD(4) [OF inv] by (auto simp: table_inv_def intro: order_trans)
    then have "table_inv hist (a_start s) (a_pos s) (a_wait s = Some r) (SUBREL_STATE_SYNCDONE, q) None Not_running q (copied s r) str"
      using q by (simp add: table_inv_def max_def)
    with fin cat show ?thesis
      using sys_inv_table [OF inv, of sh r "(SUBREL_STATE_SYNCDONE, q)" None Not_running q "copied s r" str] by simp
  qed
qed

lemma sys_inv_step:
  assumes h: "history_ok hist" and inv: "sys_inv hist s" and "sync_step hist rows s s'"
  shows "sys_inv hist s'"
  using assms(3)
proof cases
  case (apply_tx c e has ap)
  have "table_inv hist (a_start s') (a_pos s') (a_wait s' = Some r) (catalog (shared s') r) (workers_of (shared s') r) (s_pc s' r) (s_pos s' r)
      (copied s' r) (streamed s' r)" for r
    using table_inv_apply [where q = e] sys_invD(3) [OF inv, of r] apply_tx(1,3) by simp
  moreover have "\<forall>rs \<in> set (table_states_not_ready ap). cached_ok (catalog (shared s)) rs"
    using FetchTableStates_cached [OF apply_tx(5)] sys_invD(2) [OF inv] by blast
  moreover have "a_start s \<le> e" "applied s @ [(c, e)] = since hist (a_start s) e"
    using sys_invD(4,5) [OF inv] ended_by_next(1) [OF h apply_tx(4)] apply_tx(4) h by (auto simp: since_def next_tx_def history_ok_def)
  ultimately show ?thesis using apply_tx(1) ended_by_next(2) [OF h apply_tx(4)] by (simp add: sys_inv_def)
next
  case (apply_keepalive q has ap)
  have "table_inv hist (a_start s') (a_pos s') (a_wait s' = Some r) (catalog (shared s') r) (workers_of (shared s') r) (s_pc s' r) (s_pos s' r)
      (copied s' r) (streamed s' r)" for r
    using table_inv_apply [where q = q] sys_invD(3) [OF inv, of r] apply_keepalive(1,3) by simp
  moreover have "\<forall>rs \<in> set (table_states_not_ready ap). cached_ok (catalog (shared s)) rs"
    using FetchTableStates_cached [OF apply_keepalive(5)] sys_invD(2) [OF inv] by blast
  moreover have "a_start s \<le> q" "applied s = since hist (a_start s) q"
    using sys_invD(4,5) [OF inv] ended_by_no_tx(1) [OF h apply_keepalive(4)] apply_keepalive(4) by (auto simp: since_def no_tx_def)
  ultimately show ?thesis using apply_keepalive(1) ended_by_no_tx(2) [OF h apply_keepalive(4)] by (simp add: sys_inv_def)
next
  case (apply_table rs rest cfg rs' sh ap started wait)
  show ?thesis unfolding apply_table(1) by (rule sys_inv_apply_table [OF inv apply_table(2-4)])
next
  case (apply_wake r)
  have "table_inv hist (a_start s) (a_pos s) False (catalog (shared s) r') (workers_of (shared s) r') (s_pc s r') (s_pos s r') (copied s r') (streamed s r')" for r'
    using sys_invD(3) [OF inv, of r'] apply_wake(2,3) by (cases "r' = r") (auto simp: table_inv_def catalog_def)
  then show ?thesis using sys_invD(1,2,4,5) [OF inv] apply_wake(1) by (auto simp: sys_inv_def)
next
  case invalidated
  then show ?thesis using inv by (simp add: sys_inv_def)
next
  case (sync_begins r start sh)
  let ?cat = "catalog (shared s) r" and ?w = "workers_of (shared s) r"
  have tab: "table_inv hist (a_start s) (a_pos s) (a_wait s = Some r) ?cat ?w Launched (s_pos s r) (copied s r) (streamed s r)"
    using sys_invD(3) [OF inv, of r] sync_begins(2) by simp
  consider "start = Sync_exit" "catalog sh = catalog (shared s)" "workers_of sh = (workers_of (shared s))(r := None)"
    | "start = Sync_copy" "fst ?cat \<notin> {SUBREL_STATE_SYNCDONE, SUBREL_STATE_READY, SUBREL_STATE_UNKNOWN, SUBREL_STATE_FINISHEDCOPY}"
      "catalog sh = (catalog (shared s))(r := (SUBREL_STATE_DATASYNC, 0))" "workers_of sh = (workers_of (shared s))(r \<mapsto> (SUBREL_STATE_DATASYNC, 0))"
    using sync_table_begin_effect [OF sync_begins(3)] sync_begins(4) by blast
  then show ?thesis
  proof cases
    case 1
    have "table_inv hist (a_start s) (a_pos s) (a_wait s = Some r) ?cat None Not_running (s_pos s r) (copied s r) (streamed s r)"
      using tab by (auto simp: table_inv_def split: if_splits)
    with 1 sync_begins(1) show ?thesis
      using sys_inv_table [OF inv, of sh r ?cat None Not_running "s_pos s r" "copied s r" "streamed s r"] by simp
  next
    case 2
    have "table_inv hist (a_start s) (a_pos s) (a_wait s = Some r) (SUBREL_STATE_DATASYNC, 0) (Some (SUBREL_STATE_DATASYNC, 0)) Copying (s_pos s r) (copied s r) (streamed s r)"
      using tab 2(2) by (auto simp: table_inv_def split: if_splits)
    with 2 sync_begins(1) show ?thesis
      using sys_inv_table [OF inv, of sh r "(SUBREL_STATE_DATASYNC, 0)" "Some (SUBREL_STATE_DATASYNC, 0)" Copying "s_pos s r" "copied s r" "streamed s r"] by simp
  qed
next
  case (sync_copies r L sh u)
  have tab: "table_inv hist (a_start s) (a_pos s) (a_wait s = Some r) (catalog (shared s) r) (workers_of (shared s) r) Copying (s_pos s r) (copied s r) (streamed s r)"
    using sys_invD(3) [OF inv, of r] sync_copies(2) by simp
  have "table_inv hist (a_start s) (a_pos s) (a_wait s = Some r) (SUBREL_STATE_FINISHEDCOPY, 0) (Some (SUBREL_STATE_SYNCWAIT, L)) Waiting L (ended_by hist L) (streamed s r)"
    using tab sync_copies(3) by (auto simp: table_inv_def split: if_splits)
  moreover have "fst (catalog (shared s) r) \<notin> {SUBREL_STATE_SYNCDONE, SUBREL_STATE_READY}" using tab by (auto simp: table_inv_def split: if_splits)
  ultimately show ?thesis
    using sys_inv_table [OF inv, of "set_worker r SUBREL_STATE_SYNCWAIT L sh" r "(SUBREL_STATE_FINISHEDCOPY, 0)" "Some (SUBREL_STATE_SYNCWAIT, L)" Waiting L "ended_by hist L" "streamed s r"]
      sync_table_copy_effect [OF sync_copies(4)] sync_copies(1) by simp
next
  case (sync_catches_up r T)
  have "table_inv hist (a_start s) (a_pos s) (a_wait s = Some r) (catalog (shared s) r) (workers_of (shared s) r) Streaming (s_pos s r) (copied s r) (streamed s r)"
    using sys_invD(3) [OF inv, of r] sync_catches_up(2,3) by (auto simp: table_inv_def workers_of_def split: if_splits)
  then show ?thesis
    using sys_inv_table [OF inv, of "shared s" r "catalog (shared s) r" "workers_of (shared s) r" Streaming "s_pos s r" "copied s r" "streamed s r"] sync_catches_up(1) by simp
next
  case (sync_tx r c e fin sh)
  have "copied s r @ streamed s r = ended_by hist (s_pos s r)"
    using sys_invD(3) [OF inv, of r] sync_tx(2) by (auto simp: table_inv_def split: if_splits)
  then show ?thesis unfolding sync_tx(1) using ended_by_next [OF h sync_tx(3)]
    by (intro sys_inv_streamed [OF h inv sync_tx(2,4)]) simp_all
next
  case (sync_keepalive r q fin sh)
  have "copied s r @ streamed s r = ended_by hist (s_pos s r)"
    using sys_invD(3) [OF inv, of r] sync_keepalive(2) by (auto simp: table_inv_def split: if_splits)
  then have "copied s r @ streamed s r = ended_by hist q" using ended_by_no_tx(1) [OF h sync_keepalive(3)] by simp
  from sys_inv_streamed [OF h inv sync_keepalive(2,4) ended_by_no_tx(2) [OF h sync_keepalive(3)] this]
  show ?thesis unfolding sync_keepalive(1) by (simp only: fun_upd_triv) simp
qed

lemma sys_inv_reach:
  assumes "history_ok hist" and "sync_reach hist rows s"
  shows "sys_inv hist s"
  using assms(2)
proof induction
  case (start s)
  have cat: "fst (catalog (shared s) r) \<in> {SUBREL_STATE_UNKNOWN, SUBREL_STATE_INIT}" for r
    using start unfolding sync_initial_def catalog_def by blast
  have "table_inv hist (a_start s) (a_pos s) (a_wait s = Some r) (catalog (shared s) r) (workers_of (shared s) r) (s_pc s r) (s_pos s r) (copied s r) (streamed s r)" for r
    using cat [of r] start by (auto simp: table_inv_def sync_initial_def workers_of_def)
  then show ?case using start since_refl [OF assms(1)] by (simp add: sys_inv_def sync_initial_def)
next
  case (step s s')
  then show ?case using sys_inv_step [OF assms(1)] by blast
qed

lemma table_invE:
  assumes "table_inv hist astart apos waiting (st, lsn) w pc pos cop str"
  obtains (before) "st \<in> {SUBREL_STATE_UNKNOWN, SUBREL_STATE_INIT, SUBREL_STATE_DATASYNC}" "\<And>T. w \<noteq> Some (SUBREL_STATE_CATCHUP, T)"
  | (copied) "st = SUBREL_STATE_FINISHEDCOPY" "\<And>T. w = Some (SUBREL_STATE_CATCHUP, T) \<Longrightarrow> waiting \<and> apos \<le> T"
  | (synced) "st \<in> {SUBREL_STATE_SYNCDONE, SUBREL_STATE_READY}" "cop @ str = ended_by hist pos" "clean hist pos" "astart \<le> pos"
      "st = SUBREL_STATE_SYNCDONE \<Longrightarrow> pos = lsn" "\<And>T. w \<noteq> Some (SUBREL_STATE_CATCHUP, T)"
proof (cases "st \<in> {SUBREL_STATE_UNKNOWN, SUBREL_STATE_INIT, SUBREL_STATE_DATASYNC}")
  case True
  then show thesis using assms unfolding table_inv_def by (intro before) auto
next
  case False
  show thesis
  proof (cases "st = SUBREL_STATE_FINISHEDCOPY")
    case True
    then show thesis using assms unfolding table_inv_def by (intro copied) auto
  next
    case nf: False
    show thesis using assms False nf unfolding table_inv_def by (intro synced) (auto split: if_splits)
  qed
qed

text \<open>Claim C10. No transaction is lost when a table is handed over, in any interleaving of the apply worker with the
  synchronisation workers in which no worker fails: the copy of a synchronised table and the stream of its worker hold every
  transaction that ended by the position where the worker stopped, once and in commit order, the apply worker has published every
  transaction since its start, and the copy, the worker's stream and what the apply worker publishes behind that position are
  together every transaction once. What the apply worker has published before that position is published a second time, which the
  compiled-out test of the table's state would have prevented.\<close>

theorem handover_complete:
  assumes "history_ok hist" and "sync_reach hist rows s" and "GetSubscriptionRelState r (shared s) = (st, lsn)"
    and "st \<in> {SUBREL_STATE_SYNCDONE, SUBREL_STATE_READY}"
  shows "copied s r @ streamed s r = ended_by hist (s_pos s r) \<and> (st = SUBREL_STATE_SYNCDONE \<longrightarrow> s_pos s r = lsn) \<and>
    applied s = since hist (a_start s) (a_pos s) \<and>
    copied s r @ streamed s r @ filter (\<lambda>x. s_pos s r \<le> fst x) (applied s) = ended_by hist (max (s_pos s r) (a_pos s)) \<and>
    set (filter (\<lambda>x. fst x < s_pos s r) (applied s)) \<subseteq> set (copied s r @ streamed s r)"
proof -
  note inv = sys_inv_reach [OF assms(1,2)]
  have "table_inv hist (a_start s) (a_pos s) (a_wait s = Some r) (st, lsn) (map_of (sync_workers (shared s)) r) (s_pc s r) (s_pos s r) (copied s r) (streamed s r)"
    using sys_invD(3) [OF inv, of r] assms(3) by (simp add: catalog_def workers_of_def)
  then have tab: "copied s r @ streamed s r = ended_by hist (s_pos s r)" "clean hist (s_pos s r)" "a_start s \<le> s_pos s r"
      "st = SUBREL_STATE_SYNCDONE \<Longrightarrow> s_pos s r = lsn"
    using assms(4) by (cases rule: table_invE, auto)+
  have app: "applied s = since hist (a_start s) (a_pos s)" by (rule sys_invD(5) [OF inv])
  have "copied s r @ streamed s r @ filter (\<lambda>x. s_pos s r \<le> fst x) (applied s) = ended_by hist (max (s_pos s r) (a_pos s))"
    using ended_by_since [OF assms(1) tab(2)] tab(1) since_later [OF tab(3)] app by (metis append_assoc)
  moreover have "set (filter (\<lambda>x. fst x < s_pos s r) (applied s)) \<subseteq> set (copied s r @ streamed s r)"
    using tab(2) unfolding tab(1) app by (auto simp: since_def ended_by_def clean_def)
  ultimately show ?thesis using tab app by blast
qed

text \<open>Claim C18. In every interleaving without failures the states kept in the catalog are the persistent ones: SYNCWAIT and CATCHUP
  exist in shared memory only, a worker is told to catch up only behind a recorded copy, and while it catches up the apply worker stands
  still at a position it has yet to reach.\<close>

theorem catalog_states_persistent:
  assumes "history_ok hist" and "sync_reach hist rows s"
  shows "fst (GetSubscriptionRelState r (shared s)) \<in> {SUBREL_STATE_UNKNOWN, SUBREL_STATE_INIT, SUBREL_STATE_DATASYNC, SUBREL_STATE_FINISHEDCOPY,
      SUBREL_STATE_SYNCDONE, SUBREL_STATE_READY} \<and>
    (map_of (sync_workers (shared s)) r = Some (SUBREL_STATE_CATCHUP, T) \<longrightarrow>
      fst (GetSubscriptionRelState r (shared s)) = SUBREL_STATE_FINISHEDCOPY \<and> a_wait s = Some r \<and> a_pos s \<le> T)"
proof -
  obtain st lsn where st: "GetSubscriptionRelState r (shared s) = (st, lsn)" by force
  have "table_inv hist (a_start s) (a_pos s) (a_wait s = Some r) (st, lsn) (map_of (sync_workers (shared s)) r) (s_pc s r) (s_pos s r) (copied s r) (streamed s r)"
    using sys_invD(3) [OF sys_inv_reach [OF assms], of r] st by (simp add: catalog_def workers_of_def)
  then show ?thesis using st by (cases rule: table_invE) auto
qed

text \<open>A run: the apply worker publishes the transaction that ends at 20, the table is copied at position 5, and its worker
  publishes the transaction again.\<close>

definition demo_entry :: "byte \<Rightarrow> SubscriptionRelState" where
  "demo_entry st = \<lparr>rs_relid = 40, rs_state = st, rs_lsn = 0\<rparr>"

definition demo_sys ::
    "byte \<times> XLogRecPtr \<Rightarrow> (byte \<times> XLogRecPtr) option \<Rightarrow> bool \<Rightarrow> SubscriptionRelState list \<Rightarrow> SubscriptionRelState list \<Rightarrow> SubscriptionRelState list \<Rightarrow>
     Oid option \<Rightarrow> sync_pc \<Rightarrow> XLogRecPtr \<Rightarrow> transaction list \<Rightarrow> bool \<Rightarrow> (Oid \<rightharpoonup> TimestampTz) option \<Rightarrow> sync_sys" where
  "demo_sys cat w slot cached seen todo wait pc pos str valid starts =
     \<lparr>shared = \<lparr>subscription_rel = [40 \<mapsto> cat], sync_workers = (case w of None \<Rightarrow> [] | Some x \<Rightarrow> [(40, x)]),
         sync_origins = (\<lambda>r. if r = 40 \<and> slot then Some 5 else None), sync_slots = (\<lambda>r. r = 40 \<and> slot)\<rparr>,
      a_pos = (if valid then 20 else 5), a_ap = \<lparr>table_states_validity = (if valid then SYNC_TABLE_STATE_VALID else SYNC_TABLE_STATE_NEEDS_REBUILD),
         table_states_not_ready = cached, has_subrels = valid, last_start_times = starts\<rparr>,
      a_seen = seen, a_todo = todo, a_wait = wait, s_pc = (\<lambda>r. if r = 40 then pc else Not_running),
      s_pos = (\<lambda>r. if r = 40 then pos else 0), a_start = 5, applied = (if valid then [(10, 20)] else []),
      copied = (\<lambda>r. []), streamed = (\<lambda>r. if r = 40 then str else [])\<rparr>"

definition demo_sync_start :: sync_sys where
  "demo_sync_start = demo_sys (SUBREL_STATE_INIT, 0) None False [] [] [] None Not_running 0 [] False None"

lemma demo_sync_initial: "sync_initial [(10, 20)] demo_sync_start"
  by (simp add: sync_initial_def demo_sync_start_def demo_sys_def GetSubscriptionRelState_def clean_def)

lemma demo_history_ok: "history_ok [(10, 20)]"
  by (simp add: history_ok_def)

lemmas demo_sync_simps = demo_sys_def demo_entry_def GetSubscriptionRelState_def FetchTableStates_def prepare_start_times_def no_tx_def next_tx_def clean_def fun_upd_def

lemma demo_copied:
  "sync_reach [(10, 20)] [40] (demo_sys (SUBREL_STATE_FINISHEDCOPY, 0) (Some (SUBREL_STATE_SYNCWAIT, 5)) True
     [demo_entry SUBREL_STATE_INIT] [demo_entry SUBREL_STATE_INIT] [] None Waiting 5 [] True (Some [40 \<mapsto> 0]))"
proof -
  let ?e = "demo_entry SUBREL_STATE_INIT" and ?cfg = "\<lparr>sync_now = 0, max_sync_workers_per_subscription = 2, wal_retrieve_retry_interval = 5, worker_slot_free = True\<rparr>"
  let ?s1 = "demo_sys (SUBREL_STATE_INIT, 0) None False [?e] [] [?e] None Not_running 0 [] True (Some (\<lambda>_. None))"
    and ?s2 = "demo_sys (SUBREL_STATE_INIT, 0) (Some (SUBREL_STATE_UNKNOWN, 0)) False [?e] [?e] [] None Launched 0 [] True (Some [40 \<mapsto> 0])"
    and ?s3 = "demo_sys (SUBREL_STATE_DATASYNC, 0) (Some (SUBREL_STATE_DATASYNC, 0)) False [?e] [?e] [] None Copying 0 [] True (Some [40 \<mapsto> 0])"
  have "sync_reach [(10, 20)] [40] demo_sync_start" by (rule sync_reach.start [OF demo_sync_initial])
  moreover have "sync_step [(10, 20)] [40] demo_sync_start ?s1"
    using sync_step.apply_tx [of demo_sync_start "[(10, 20)]" 10 20 "[40]"] by (simp add: demo_sync_start_def demo_sync_simps)
  moreover have "sync_step [(10, 20)] [40] ?s1 ?s2"
    using sync_step.apply_table [of ?s1 ?e "[]" ?cfg ?e "shared ?s2" "a_ap ?s2" False False "[(10, 20)]" "[40]"]
    by (simp add: demo_sync_simps sync_one_table_def start_due_def set_worker_def cong: if_cong)
  moreover have "sync_step [(10, 20)] [40] ?s2 ?s3"
    using sync_step.sync_begins [of ?s2 40 Sync_copy "shared ?s3" "[(10, 20)]" "[40]"]
    by (simp add: demo_sync_simps sync_table_begin_def set_worker_def UpdateSubscriptionRelState_def cong: if_cong)
  moreover have "sync_step [(10, 20)] [40] ?s3 (demo_sys (SUBREL_STATE_FINISHEDCOPY, 0) (Some (SUBREL_STATE_SYNCWAIT, 5)) True
     [demo_entry SUBREL_STATE_INIT] [demo_entry SUBREL_STATE_INIT] [] None Waiting 5 [] True (Some [40 \<mapsto> 0]))"
    using sync_step.sync_copies [of ?s3 40 "[(10, 20)]" 5 "shared (demo_sys (SUBREL_STATE_FINISHEDCOPY, 0) (Some (SUBREL_STATE_DATASYNC, 0)) True
        [?e] [?e] [] None Copying 0 [] True (Some [40 \<mapsto> 0]))" "()" "[40]"]
    by (simp add: demo_sync_simps sync_table_copy_def set_worker_def UpdateSubscriptionRelState_def ended_by_def cong: if_cong)
  ultimately show ?thesis by (blast intro: sync_reach.step)
qed

lemma demo_catching_up:
  "sync_reach [(10, 20)] [40] (demo_sys (SUBREL_STATE_FINISHEDCOPY, 0) (Some (SUBREL_STATE_CATCHUP, 20)) True
     [demo_entry SUBREL_STATE_SYNCWAIT\<lparr>rs_lsn := 5\<rparr>] [demo_entry SUBREL_STATE_SYNCWAIT\<lparr>rs_lsn := 5\<rparr>] [] (Some 40) Streaming 5 [] True (Some [40 \<mapsto> 0]))"
proof -
  let ?e = "demo_entry SUBREL_STATE_INIT" and ?f = "demo_entry SUBREL_STATE_SYNCWAIT\<lparr>rs_lsn := 5\<rparr>"
    and ?cfg = "\<lparr>sync_now = 0, max_sync_workers_per_subscription = 2, wal_retrieve_retry_interval = 5, worker_slot_free = True\<rparr>"
  let ?s4 = "demo_sys (SUBREL_STATE_FINISHEDCOPY, 0) (Some (SUBREL_STATE_SYNCWAIT, 5)) True [?e] [?e] [] None Waiting 5 [] True (Some [40 \<mapsto> 0])"
    and ?s5 = "demo_sys (SUBREL_STATE_FINISHEDCOPY, 0) (Some (SUBREL_STATE_SYNCWAIT, 5)) True [?e] [] [?e] None Waiting 5 [] True (Some [40 \<mapsto> 0])"
    and ?s6 = "demo_sys (SUBREL_STATE_FINISHEDCOPY, 0) (Some (SUBREL_STATE_CATCHUP, 20)) True [?f] [?f] [] (Some 40) Waiting 5 [] True (Some [40 \<mapsto> 0])"
    and ?s7 = "demo_sys (SUBREL_STATE_FINISHEDCOPY, 0) (Some (SUBREL_STATE_CATCHUP, 20)) True [?f] [?f] [] (Some 40) Streaming 5 [] True (Some [40 \<mapsto> 0])"
  have "sync_step [(10, 20)] [40] ?s4 ?s5"
    using sync_step.apply_keepalive [of ?s4 "[(10, 20)]" 20 "[40]"] by (simp add: demo_sync_simps)
  moreover have "sync_step [(10, 20)] [40] ?s5 ?s6"
    using sync_step.apply_table [of ?s5 ?e "[]" ?cfg ?f "shared ?s6" "a_ap ?s5" True True "[(10, 20)]" "[40]"]
    by (simp add: demo_sync_simps sync_one_table_def set_worker_def Let_def cong: if_cong)
  moreover have "sync_step [(10, 20)] [40] ?s6 ?s7"
    using sync_step.sync_catches_up [of ?s6 40 20 "[(10, 20)]" "[40]"] by (simp add: demo_sync_simps cong: if_cong)
  ultimately show ?thesis using demo_copied by (blast intro: sync_reach.step)
qed

lemma demo_synced:
  "sync_reach [(10, 20)] [40] (demo_sys (SUBREL_STATE_SYNCDONE, 20) None False
     [demo_entry SUBREL_STATE_SYNCWAIT\<lparr>rs_lsn := 5\<rparr>] [demo_entry SUBREL_STATE_SYNCWAIT\<lparr>rs_lsn := 5\<rparr>] [] (Some 40) Not_running 20 [(10, 20)] True (Some [40 \<mapsto> 0]))"
proof -
  let ?f = "demo_entry SUBREL_STATE_SYNCWAIT\<lparr>rs_lsn := 5\<rparr>"
  let ?s7 = "demo_sys (SUBREL_STATE_FINISHEDCOPY, 0) (Some (SUBREL_STATE_CATCHUP, 20)) True [?f] [?f] [] (Some 40) Streaming 5 [] True (Some [40 \<mapsto> 0])"
    and ?s8 = "demo_sys (SUBREL_STATE_SYNCDONE, 20) None False [?f] [?f] [] (Some 40) Not_running 20 [(10, 20)] True (Some [40 \<mapsto> 0])"
  have "sync_step [(10, 20)] [40] ?s7 ?s8"
    using sync_step.sync_tx [of ?s7 40 "[(10, 20)]" 10 20 True "shared ?s8" "[40]"]
    by (simp add: demo_sync_simps process_syncing_tables_for_sync_def set_worker_def UpdateSubscriptionRelState_def ReplicationSlotDropAtPubNode_def
        drop_origin_def finish_sync_worker_def cong: if_cong)
  with demo_catching_up show ?thesis by (rule sync_reach.step)
qed

theorem handover_complete_witness:
  "\<exists>s. sync_reach [(10, 20)] [40] s \<and> GetSubscriptionRelState 40 (shared s) = (SUBREL_STATE_SYNCDONE, 20) \<and>
     copied s 40 @ streamed s 40 @ filter (\<lambda>x. s_pos s 40 \<le> fst x) (applied s) = ended_by [(10, 20)] (max (s_pos s 40) (a_pos s)) \<and>
     streamed s 40 = [(10, 20)] \<and> applied s = [(10, 20)]"
proof -
  let ?f = "demo_entry SUBREL_STATE_SYNCWAIT\<lparr>rs_lsn := 5\<rparr>"
  let ?s = "demo_sys (SUBREL_STATE_SYNCDONE, 20) None False [?f] [?f] [] (Some 40) Not_running 20 [(10, 20)] True (Some [40 \<mapsto> 0])"
  have "GetSubscriptionRelState 40 (shared ?s) = (SUBREL_STATE_SYNCDONE, 20)" "streamed ?s 40 = [(10, 20)]" "applied ?s = [(10, 20)]"
    by (simp_all add: demo_sys_def GetSubscriptionRelState_def)
  with handover_complete [OF demo_history_ok demo_synced this(1)] demo_synced show ?thesis by (intro exI [of _ ?s]) blast
qed

theorem catalog_states_persistent_witness:
  "\<exists>s. sync_reach [(10, 20)] [40] s \<and> map_of (sync_workers (shared s)) 40 = Some (SUBREL_STATE_CATCHUP, 20) \<and>
     fst (GetSubscriptionRelState 40 (shared s)) = SUBREL_STATE_FINISHEDCOPY \<and> a_wait s = Some 40 \<and> a_pos s \<le> 20"
proof -
  let ?f = "demo_entry SUBREL_STATE_SYNCWAIT\<lparr>rs_lsn := 5\<rparr>"
  let ?s = "demo_sys (SUBREL_STATE_FINISHEDCOPY, 0) (Some (SUBREL_STATE_CATCHUP, 20)) True [?f] [?f] [] (Some 40) Streaming 5 [] True (Some [40 \<mapsto> 0])"
  have "map_of (sync_workers (shared ?s)) 40 = Some (SUBREL_STATE_CATCHUP, 20)" by (simp add: demo_sys_def)
  with catalog_states_persistent [OF demo_history_ok demo_catching_up, of 40 20] demo_catching_up show ?thesis by (intro exI [of _ ?s]) blast
qed

end
