(* ===== verification/Launcher.thy ===== *)
theory Launcher
  imports FlushFeedback
begin

text \<open>
  The launcher of the workers, \<^verbatim>\<open>src/backend/replication/logical/launcher.c\<close>: the array of worker
  slots in shared memory, the functions that take, attach to, release and search slots under
  \<^verbatim>\<open>LogicalRepWorkerLock\<close>, the start times of apply workers, and the cycle of the launcher process.
  Each lock section is one function; the interleavings of the processes are a step relation.
  Clock, settings and the registration of background workers are arguments.
\<close>

type_synonym pid = int

abbreviation InvalidPid :: pid where "InvalidPid \<equiv> -1"
abbreviation TIMESTAMP_NOBEGIN :: TimestampTz where "TIMESTAMP_NOBEGIN \<equiv> 2 ^ 63"
abbreviation DEFAULT_NAPTIME_PER_CYCLE :: int where "DEFAULT_NAPTIME_PER_CYCLE \<equiv> 180000"

section \<open>Worker slots\<close>

text \<open>All four kinds of worker; the apply worker of this development is never a parallel one.\<close>

datatype worker_kind = WORKERTYPE_UNKNOWN | WORKERTYPE_TABLESYNC | WORKERTYPE_APPLY | WORKERTYPE_PARALLEL_APPLY

text \<open>A process is known by its id; the spin lock of a slot is left out.\<close>

record LogicalRepWorker =
  lw_type :: worker_kind
  launch_time :: TimestampTz
  in_use :: bool
  generation :: "16 word"
  lw_proc :: "pid option"
  lw_dbid :: Oid
  lw_userid :: Oid
  lw_subid :: Oid
  lw_relid :: Oid
  lw_relstate :: byte
  lw_relstate_lsn :: XLogRecPtr
  lw_stream_fileset :: bool
  leader_pid :: pid
  lw_parallel_apply :: bool
  lw_last_lsn :: XLogRecPtr
  lw_last_send_time :: TimestampTz
  lw_last_recv_time :: TimestampTz
  lw_reply_lsn :: XLogRecPtr
  lw_reply_time :: TimestampTz

record launcher_settings =
  max_sync_workers_per_subscription :: nat
  max_parallel_apply_workers_per_subscription :: nat
  max_active_replication_origins :: nat
  wal_receiver_timeout :: int
  retry_interval :: int

definition isParallelApplyWorker :: "LogicalRepWorker \<Rightarrow> bool" where
  "isParallelApplyWorker w \<longleftrightarrow> in_use w \<and> lw_type w = WORKERTYPE_PARALLEL_APPLY"

definition isTablesyncWorker :: "LogicalRepWorker \<Rightarrow> bool" where
  "isTablesyncWorker w \<longleftrightarrow> in_use w \<and> lw_type w = WORKERTYPE_TABLESYNC"

text \<open>A worker is named by its place in the array.\<close>

definition logicalrep_worker_find :: "Oid \<Rightarrow> Oid \<Rightarrow> bool \<Rightarrow> LogicalRepWorker list \<Rightarrow> nat option" where
  "logicalrep_worker_find subid relid only_running ws =
     List.find (\<lambda>i. \<not> isParallelApplyWorker (ws ! i) \<and> in_use (ws ! i) \<and> lw_subid (ws ! i) = subid \<and> lw_relid (ws ! i) = relid \<and>
       (\<not> only_running \<or> lw_proc (ws ! i) \<noteq> None)) [0..<length ws]"

definition logicalrep_workers_find :: "Oid \<Rightarrow> bool \<Rightarrow> LogicalRepWorker list \<Rightarrow> nat list" where
  "logicalrep_workers_find subid only_running ws =
     filter (\<lambda>i. in_use (ws ! i) \<and> lw_subid (ws ! i) = subid \<and> (\<not> only_running \<or> lw_proc (ws ! i) \<noteq> None)) [0..<length ws]"

definition logicalrep_sync_worker_count :: "Oid \<Rightarrow> LogicalRepWorker list \<Rightarrow> nat" where
  "logicalrep_sync_worker_count subid ws = length (filter (\<lambda>w. isTablesyncWorker w \<and> lw_subid w = subid) ws)"

definition logicalrep_pa_worker_count :: "Oid \<Rightarrow> LogicalRepWorker list \<Rightarrow> nat" where
  "logicalrep_pa_worker_count subid ws = length (filter (\<lambda>w. isParallelApplyWorker w \<and> lw_subid w = subid) ws)"

definition logicalrep_worker_cleanup :: "LogicalRepWorker \<Rightarrow> LogicalRepWorker" where
  "logicalrep_worker_cleanup w = w\<lparr>lw_type := WORKERTYPE_UNKNOWN, in_use := False, lw_proc := None, lw_dbid := 0, lw_userid := 0,
     lw_subid := 0, lw_relid := 0, leader_pid := InvalidPid, lw_parallel_apply := False\<rparr>"

section \<open>Launching a worker\<close>

definition find_unused :: "LogicalRepWorker list \<Rightarrow> nat option" where
  "find_unused ws = List.find (\<lambda>i. \<not> in_use (ws ! i)) [0..<length ws]"

text \<open>A worker that has been launched but did not attach in time.\<close>

definition stuck :: "launcher_settings \<Rightarrow> TimestampTz \<Rightarrow> LogicalRepWorker \<Rightarrow> bool" where
  "stuck cfg now w \<longleftrightarrow> in_use w \<and> lw_proc w = None \<and> TimestampDifferenceExceeds (launch_time w) now (wal_receiver_timeout cfg)"

definition collect_garbage :: "launcher_settings \<Rightarrow> TimestampTz \<Rightarrow> LogicalRepWorker list \<Rightarrow> LogicalRepWorker list" where
  "collect_garbage cfg now ws = map (\<lambda>w. if stuck cfg now w then logicalrep_worker_cleanup w else w) ws"

lemma cleanup_unused [simp]: "\<not> in_use (logicalrep_worker_cleanup w)" "lw_proc (logicalrep_worker_cleanup w) = None"
  "lw_type (logicalrep_worker_cleanup w) = WORKERTYPE_UNKNOWN" "generation (logicalrep_worker_cleanup w) = generation w"
  by (simp_all add: logicalrep_worker_cleanup_def)

lemma garbage_shrinks:
  assumes "\<exists>w \<in> set ws. stuck cfg now w"
  shows "length (filter in_use (collect_garbage cfg now ws)) < length (filter in_use ws)"
proof -
  have eq: "filter in_use (collect_garbage cfg now ws) = filter (\<lambda>w. \<not> stuck cfg now w) (filter in_use ws)"
    by (induction ws) (auto simp: collect_garbage_def)
  have "\<exists>w \<in> set (filter in_use ws). \<not> \<not> stuck cfg now w" using assms by (auto simp: stuck_def)
  then show ?thesis unfolding eq by (blast intro: length_filter_less)
qed

text \<open>
  The search for a slot, repeated after every collection of garbage; \<open>clock k\<close> is the time that
  the attempt with number \<open>k\<close> reads. It yields the slot, the number of synchronisation workers,
  the time and the array.
\<close>

function launch_scan :: "launcher_settings \<Rightarrow> (nat \<Rightarrow> TimestampTz) \<Rightarrow> nat \<Rightarrow> Oid \<Rightarrow> LogicalRepWorker list \<Rightarrow>
    nat option \<times> nat \<times> TimestampTz \<times> LogicalRepWorker list" where
  "launch_scan cfg clock k subid ws =
     (let worker = find_unused ws; nsyncworkers = logicalrep_sync_worker_count subid ws; now = clock k
      in if (worker = None \<or> max_sync_workers_per_subscription cfg \<le> nsyncworkers) \<and> (\<exists>w \<in> set ws. stuck cfg now w)
         then launch_scan cfg clock (Suc k) subid (collect_garbage cfg now ws)
         else (worker, nsyncworkers, now, ws))"
  by pat_completeness auto

termination
  by (relation "measure (\<lambda>(cfg, clock, k, subid, ws). length (filter in_use ws))") (auto intro: garbage_shrinks)

declare launch_scan.simps [simp del]

definition prepare_slot :: "worker_kind \<Rightarrow> TimestampTz \<Rightarrow> Oid \<Rightarrow> Oid \<Rightarrow> Oid \<Rightarrow> Oid \<Rightarrow> pid \<Rightarrow> LogicalRepWorker \<Rightarrow> LogicalRepWorker" where
  "prepare_slot wtype now dbid subid userid relid MyProcPid w =
     \<lparr>lw_type = wtype, launch_time = now, in_use = True, generation = generation w + 1, lw_proc = None, lw_dbid = dbid, lw_userid = userid,
      lw_subid = subid, lw_relid = relid, lw_relstate = NUL, lw_relstate_lsn = InvalidXLogRecPtr, lw_stream_fileset = False,
      leader_pid = (if wtype = WORKERTYPE_PARALLEL_APPLY then MyProcPid else InvalidPid), lw_parallel_apply = (wtype = WORKERTYPE_PARALLEL_APPLY),
      lw_last_lsn = InvalidXLogRecPtr, lw_last_send_time = TIMESTAMP_NOBEGIN, lw_last_recv_time = TIMESTAMP_NOBEGIN,
      lw_reply_lsn = InvalidXLogRecPtr, lw_reply_time = TIMESTAMP_NOBEGIN\<rparr>"

text \<open>
  The first lock section: the slot taken and its generation, or \<^const>\<open>None\<close> when nothing is launched.
\<close>

definition launch_prepare :: "launcher_settings \<Rightarrow> (nat \<Rightarrow> TimestampTz) \<Rightarrow> pid \<Rightarrow> worker_kind \<Rightarrow> Oid \<Rightarrow> Oid \<Rightarrow> Oid \<Rightarrow> Oid \<Rightarrow>
    LogicalRepWorker list \<Rightarrow> ((nat \<times> 16 word) option \<times> LogicalRepWorker list) res" where
  "launch_prepare cfg clock MyProcPid wtype dbid subid userid relid ws =
     (if max_active_replication_origins cfg = 0
      then Inl (PgError ''cannot start logical replication workers when max_active_replication_origins is 0'')
      else case launch_scan cfg clock 0 subid ws of (worker, nsyncworkers, now, ws) \<Rightarrow>
        if wtype = WORKERTYPE_TABLESYNC \<and> max_sync_workers_per_subscription cfg \<le> nsyncworkers then Inr (None, ws)
        else if wtype = WORKERTYPE_PARALLEL_APPLY \<and> max_parallel_apply_workers_per_subscription cfg \<le> logicalrep_pa_worker_count subid ws
          then Inr (None, ws)
        else case worker of
            None \<Rightarrow> Inr (None, ws)
          | Some slot \<Rightarrow>
              let w = prepare_slot wtype now dbid subid userid relid MyProcPid (ws ! slot)
              in Inr (Some (slot, generation w), ws[slot := w]))"

text \<open>
  The registration, without the lock: the kind of worker is read from the slot, and the second lock
  section releases the slot when the registration has failed. \<open>registered\<close> is the answer of
  \<^verbatim>\<open>RegisterDynamicBackgroundWorker\<close>.
\<close>

definition launch_register :: "bool \<Rightarrow> nat \<Rightarrow> LogicalRepWorker list \<Rightarrow> (bool \<times> LogicalRepWorker list) res" where
  "launch_register registered slot ws =
     (if lw_type (ws ! slot) = WORKERTYPE_UNKNOWN then Inl (PgError ''unknown worker type'')
      else if \<not> registered then Inr (False, ws[slot := logicalrep_worker_cleanup (ws ! slot)])
      else Inr (True, ws))"

text \<open>
  Up to the wait for the new process: the slot and the generation to wait for, or \<^const>\<open>None\<close> when
  nothing was launched. \<open>meanwhile\<close> is what other processes do to the array between the lock sections.
\<close>

definition logicalrep_worker_launch :: "launcher_settings \<Rightarrow> (nat \<Rightarrow> TimestampTz) \<Rightarrow> (LogicalRepWorker list \<Rightarrow> LogicalRepWorker list) \<Rightarrow>
    bool \<Rightarrow> pid \<Rightarrow> worker_kind \<Rightarrow> Oid \<Rightarrow> Oid \<Rightarrow> Oid \<Rightarrow> Oid \<Rightarrow>
    LogicalRepWorker list \<Rightarrow> ((nat \<times> 16 word) option \<times> LogicalRepWorker list) res" where
  "logicalrep_worker_launch cfg clock meanwhile registered MyProcPid wtype dbid subid userid relid ws =
     bindR (launch_prepare cfg clock MyProcPid wtype dbid subid userid relid ws) (\<lambda>(launched, ws).
       case launched of
         None \<Rightarrow> Inr (None, ws)
       | Some (slot, gen) \<Rightarrow>
           bindR (launch_register registered slot (meanwhile ws)) (\<lambda>(started, ws).
             Inr (if started then Some (slot, gen) else None, ws)))"

text \<open>One round of the wait: what the process sees, and the cleanup after a process that has stopped.\<close>

definition attach_seen :: "nat \<Rightarrow> LogicalRepWorker list \<Rightarrow> bool option" where
  "attach_seen slot ws = (if \<not> in_use (ws ! slot) \<or> lw_proc (ws ! slot) \<noteq> None then Some (in_use (ws ! slot)) else None)"

definition attach_reap :: "nat \<Rightarrow> 16 word \<Rightarrow> LogicalRepWorker list \<Rightarrow> LogicalRepWorker list" where
  "attach_reap slot gen ws = (if gen = generation (ws ! slot) then ws[slot := logicalrep_worker_cleanup (ws ! slot)] else ws)"

definition WaitForReplicationWorkerAttach :: "nat \<Rightarrow> 16 word \<Rightarrow> bool \<Rightarrow> LogicalRepWorker list \<Rightarrow> bool option \<times> LogicalRepWorker list" where
  "WaitForReplicationWorkerAttach slot gen stopped ws =
     (case attach_seen slot ws of
        Some result \<Rightarrow> (Some result, ws)
      | None \<Rightarrow> if stopped then (Some False, attach_reap slot gen ws) else (None, ws))"

section \<open>Attaching, detaching and stopping\<close>

definition logicalrep_worker_attach :: "pid \<Rightarrow> nat \<Rightarrow> LogicalRepWorker list \<Rightarrow> LogicalRepWorker list res" where
  "logicalrep_worker_attach MyProc slot ws =
     (if \<not> in_use (ws ! slot) then Inl (PgError ''logical replication worker slot is empty, cannot attach'')
      else if lw_proc (ws ! slot) \<noteq> None then Inl (PgError ''logical replication worker slot is already used by another worker, cannot attach'')
      else Inr (ws[slot := (ws ! slot)\<lparr>lw_proc := Some MyProc\<rparr>]))"

text \<open>
  One round of \<^verbatim>\<open>logicalrep_worker_stop_internal\<close>: the process to signal when the worker has attached,
  \<^const>\<open>None\<close> while it has not, and whether the wait for its end is over.
\<close>

definition stop_signal :: "nat \<Rightarrow> 16 word \<Rightarrow> LogicalRepWorker list \<Rightarrow> pid option" where
  "stop_signal slot gen ws = (if in_use (ws ! slot) \<and> generation (ws ! slot) = gen then lw_proc (ws ! slot) else None)"

definition stop_done :: "nat \<Rightarrow> 16 word \<Rightarrow> LogicalRepWorker list \<Rightarrow> bool" where
  "stop_done slot gen ws \<longleftrightarrow> lw_proc (ws ! slot) = None \<or> generation (ws ! slot) \<noteq> gen"

definition logicalrep_worker_stop :: "Oid \<Rightarrow> Oid \<Rightarrow> LogicalRepWorker list \<Rightarrow> (nat \<times> 16 word) option" where
  "logicalrep_worker_stop subid relid ws = map_option (\<lambda>i. (i, generation (ws ! i))) (logicalrep_worker_find subid relid False ws)"

definition logicalrep_pa_worker_stop :: "nat \<Rightarrow> 16 word \<Rightarrow> LogicalRepWorker list \<Rightarrow> (nat \<times> 16 word) option" where
  "logicalrep_pa_worker_stop slot_no gen ws =
     (if generation (ws ! slot_no) = gen \<and> lw_proc (ws ! slot_no) \<noteq> None then Some (slot_no, gen) else None)"

definition logicalrep_worker_wakeup :: "Oid \<Rightarrow> Oid \<Rightarrow> LogicalRepWorker list \<Rightarrow> pid option" where
  "logicalrep_worker_wakeup subid relid ws = Option.bind (logicalrep_worker_find subid relid True ws) (\<lambda>i. lw_proc (ws ! i))"

text \<open>A leader first stops its parallel apply workers (the slots given first), then releases its own slot.\<close>

definition logicalrep_worker_detach :: "nat \<Rightarrow> LogicalRepWorker list \<Rightarrow> nat list \<times> LogicalRepWorker list" where
  "logicalrep_worker_detach slot ws =
     (if lw_type (ws ! slot) = WORKERTYPE_APPLY
      then filter (\<lambda>i. isParallelApplyWorker (ws ! i)) (logicalrep_workers_find (lw_subid (ws ! slot)) True ws) else [],
      ws[slot := logicalrep_worker_cleanup (ws ! slot)])"

definition GetLeaderApplyWorkerPid :: "pid \<Rightarrow> LogicalRepWorker list \<Rightarrow> pid" where
  "GetLeaderApplyWorkerPid pid ws =
     (case List.find (\<lambda>w. isParallelApplyWorker w \<and> lw_proc w = Some pid) ws of Some w \<Rightarrow> leader_pid w | None \<Rightarrow> InvalidPid)"

definition zero_worker :: LogicalRepWorker where
  "zero_worker = \<lparr>lw_type = WORKERTYPE_UNKNOWN, launch_time = 0, in_use = False, generation = 0, lw_proc = None, lw_dbid = 0, lw_userid = 0,
     lw_subid = 0, lw_relid = 0, lw_relstate = NUL, lw_relstate_lsn = 0, lw_stream_fileset = False, leader_pid = 0, lw_parallel_apply = False,
     lw_last_lsn = 0, lw_last_send_time = 0, lw_last_recv_time = 0, lw_reply_lsn = 0, lw_reply_time = 0\<rparr>"

text \<open>The context in shared memory, with the hash table of start times, and the flag of a backend that asks for a wake-up.\<close>

record LogicalRepCtxStruct =
  launcher_pid :: pid
  start_times :: "Oid \<rightharpoonup> TimestampTz"
  workers :: "LogicalRepWorker list"

definition ApplyLauncherShmemInit :: "nat \<Rightarrow> LogicalRepCtxStruct" where
  "ApplyLauncherShmemInit max_logical_replication_workers =
     \<lparr>launcher_pid = 0, start_times = (\<lambda>_. None), workers = replicate max_logical_replication_workers zero_worker\<rparr>"

section \<open>Start times and wake-ups\<close>

definition ApplyLauncherSetWorkerStartTime :: "Oid \<Rightarrow> TimestampTz \<Rightarrow> LogicalRepCtxStruct \<Rightarrow> LogicalRepCtxStruct" where
  "ApplyLauncherSetWorkerStartTime subid start_time ctx = ctx\<lparr>start_times := (start_times ctx)(subid \<mapsto> start_time)\<rparr>"

definition ApplyLauncherGetWorkerStartTime :: "Oid \<Rightarrow> LogicalRepCtxStruct \<Rightarrow> TimestampTz" where
  "ApplyLauncherGetWorkerStartTime subid ctx = (case start_times ctx subid of None \<Rightarrow> 0 | Some t \<Rightarrow> t)"

definition ApplyLauncherForgetWorkerStartTime :: "Oid \<Rightarrow> LogicalRepCtxStruct \<Rightarrow> LogicalRepCtxStruct" where
  "ApplyLauncherForgetWorkerStartTime subid ctx = ctx\<lparr>start_times := (start_times ctx)(subid := None)\<rparr>"

text \<open>The process that is signalled, if any; the second function returns the flag as well.\<close>

definition ApplyLauncherWakeup :: "LogicalRepCtxStruct \<Rightarrow> pid option" where
  "ApplyLauncherWakeup ctx = (if launcher_pid ctx \<noteq> 0 then Some (launcher_pid ctx) else None)"

definition AtEOXact_ApplyLauncher :: "bool \<Rightarrow> bool \<Rightarrow> LogicalRepCtxStruct \<Rightarrow> pid option \<times> bool" where
  "AtEOXact_ApplyLauncher isCommit on_commit_launcher_wakeup ctx =
     (if isCommit \<and> on_commit_launcher_wakeup then ApplyLauncherWakeup ctx else None, False)"

definition TimestampDifferenceMilliseconds :: "TimestampTz \<Rightarrow> TimestampTz \<Rightarrow> int" where
  "TimestampDifferenceMilliseconds start_time stop_time =
     (let diff = sint stop_time - sint start_time
      in if sint stop_time \<le> sint start_time then 0
         else if 2 ^ 63 \<le> diff \<or> (2 ^ 31 - 1) * 1000 - 999 \<le> diff then 2 ^ 31 - 1
         else (diff + 999) div 1000)"

section \<open>The launcher process\<close>

record subscription_row =
  sr_oid :: Oid
  sr_dbid :: Oid
  sr_owner :: Oid
  sr_enabled :: bool

text \<open>
  What the launcher meets when it looks at a subscription: the time, the times, the steps of other
  processes and the answer during a launch, and the wait for the process, with whatever other
  processes do to the array then.
\<close>

record launcher_moment =
  lm_now :: TimestampTz
  lm_clock :: "nat \<Rightarrow> TimestampTz"
  lm_meanwhile :: "LogicalRepWorker list \<Rightarrow> LogicalRepWorker list"
  lm_registered :: bool
  lm_wait :: "nat \<Rightarrow> 16 word \<Rightarrow> LogicalRepWorker list \<Rightarrow> bool \<times> LogicalRepWorker list"

definition launcher_visit :: "launcher_settings \<Rightarrow> pid \<Rightarrow> launcher_moment \<Rightarrow> subscription_row \<Rightarrow> LogicalRepCtxStruct \<times> int \<Rightarrow>
    (LogicalRepCtxStruct \<times> int) res" where
  "launcher_visit cfg MyProcPid m sub = (\<lambda>(ctx, wait_time).
     if \<not> sr_enabled sub then Inr (ctx, wait_time)
     else if logicalrep_worker_find (sr_oid sub) 0 False (workers ctx) \<noteq> None then Inr (ctx, wait_time)
     else
       let last_start = ApplyLauncherGetWorkerStartTime (sr_oid sub) ctx;
           elapsed = TimestampDifferenceMilliseconds last_start (lm_now m)
       in if last_start = 0 \<or> retry_interval cfg \<le> elapsed then
            let ctx = ApplyLauncherSetWorkerStartTime (sr_oid sub) (lm_now m) ctx
            in bindR (logicalrep_worker_launch cfg (lm_clock m) (lm_meanwhile m) (lm_registered m) MyProcPid WORKERTYPE_APPLY
                 (sr_dbid sub) (sr_oid sub) (sr_owner sub) 0 (workers ctx)) (\<lambda>(launched, ws).
               case launched of
                 None \<Rightarrow> Inr (ctx\<lparr>workers := ws\<rparr>, min wait_time (retry_interval cfg))
               | Some (slot, gen) \<Rightarrow>
                   (case lm_wait m slot gen ws of (attached, ws) \<Rightarrow>
                      Inr (ctx\<lparr>workers := ws\<rparr>, if attached then wait_time else min wait_time (retry_interval cfg))))
          else Inr (ctx, min wait_time (retry_interval cfg - elapsed)))"

text \<open>The loop over the subscriptions of one cycle: the context and the time to sleep.\<close>

fun launcher_loop :: "launcher_settings \<Rightarrow> pid \<Rightarrow> (launcher_moment \<times> subscription_row) list \<Rightarrow> LogicalRepCtxStruct \<times> int \<Rightarrow>
    (LogicalRepCtxStruct \<times> int) res" where
  "launcher_loop cfg MyProcPid [] acc = Inr acc"
| "launcher_loop cfg MyProcPid ((m, sub) # subs) acc = bindR (launcher_visit cfg MyProcPid m sub acc) (launcher_loop cfg MyProcPid subs)"

definition launcher_cycle :: "launcher_settings \<Rightarrow> pid \<Rightarrow> (launcher_moment \<times> subscription_row) list \<Rightarrow> LogicalRepCtxStruct \<Rightarrow>
    (LogicalRepCtxStruct \<times> int) res" where
  "launcher_cycle cfg MyProcPid subs ctx = launcher_loop cfg MyProcPid subs (ctx, DEFAULT_NAPTIME_PER_CYCLE)"

section \<open>What a launch does\<close>

lemma find_index_Some: "List.find P [0..<n] = Some i \<Longrightarrow> i < n \<and> P i"
  by (auto simp: find_Some_iff)

lemma find_index_None: "List.find P [0..<n] = None \<longleftrightarrow> (\<forall>i < n. \<not> P i)"
  by (auto simp: find_None_iff)

lemma garbage_nth: "i < length ws \<Longrightarrow> collect_garbage cfg now ws ! i = (if stuck cfg now (ws ! i) then logicalrep_worker_cleanup (ws ! i) else ws ! i)"
  by (simp add: collect_garbage_def)

text \<open>Some slots of the array have been cleaned, all of workers that were stuck at a time the clock has shown.\<close>

definition cleaned :: "launcher_settings \<Rightarrow> (nat \<Rightarrow> TimestampTz) \<Rightarrow> LogicalRepWorker list \<Rightarrow> LogicalRepWorker list \<Rightarrow> bool" where
  "cleaned cfg clock ws ws' \<longleftrightarrow> length ws' = length ws \<and>
     (\<forall>i < length ws. ws' ! i = ws ! i \<or> (\<exists>k. stuck cfg (clock k) (ws ! i)) \<and> ws' ! i = logicalrep_worker_cleanup (ws ! i))"

lemma not_stuck_cleanup [simp]: "\<not> stuck cfg now (logicalrep_worker_cleanup w)"
  by (simp add: stuck_def)

lemma scan_cleans:
  assumes "launch_scan cfg clock k subid ws = (worker, n, now, ws')"
  shows "cleaned cfg clock ws ws' \<and> worker = find_unused ws' \<and> n = logicalrep_sync_worker_count subid ws' \<and>
    (worker = None \<or> max_sync_workers_per_subscription cfg \<le> n \<longrightarrow> (\<forall>w \<in> set ws'. \<not> stuck cfg now w))"
  using assms
proof (induction cfg clock k subid ws rule: launch_scan.induct)
  case (1 cfg clock k subid ws)
  let ?again = "(find_unused ws = None \<or> max_sync_workers_per_subscription cfg \<le> logicalrep_sync_worker_count subid ws) \<and> (\<exists>w \<in> set ws. stuck cfg (clock k) w)"
  show ?case
  proof (cases ?again)
    case True
    then have "launch_scan cfg clock (Suc k) subid (collect_garbage cfg (clock k) ws) = (worker, n, now, ws')"
      using "1.prems" by (subst (asm) launch_scan.simps) (simp add: Let_def)
    note ih = "1.IH" [OF refl refl refl True this]
    moreover have "cleaned cfg clock ws ws'"
      unfolding cleaned_def
    proof (intro conjI allI impI)
      show "length ws' = length ws" using ih by (simp add: cleaned_def collect_garbage_def)
      fix i assume i: "i < length ws"
      then have "ws' ! i = collect_garbage cfg (clock k) ws ! i \<or> (\<exists>k'. stuck cfg (clock k') (collect_garbage cfg (clock k) ws ! i)) \<and>
          ws' ! i = logicalrep_worker_cleanup (collect_garbage cfg (clock k) ws ! i)"
        using ih by (simp add: cleaned_def collect_garbage_def)
      then show "ws' ! i = ws ! i \<or> (\<exists>k. stuck cfg (clock k) (ws ! i)) \<and> ws' ! i = logicalrep_worker_cleanup (ws ! i)"
        by (auto simp: garbage_nth [OF i] split: if_splits)
    qed
    ultimately show ?thesis by simp
  next
    case False
    then show ?thesis using "1.prems" by (subst (asm) launch_scan.simps) (auto simp: Let_def cleaned_def)
  qed
qed

lemma cleaned_generation: "cleaned cfg clock ws ws' \<Longrightarrow> i < length ws \<Longrightarrow> generation (ws' ! i) = generation (ws ! i)"
  by (auto simp: cleaned_def)

lemma unused_first: "find_unused ws = Some slot \<Longrightarrow> slot < length ws \<and> \<not> in_use (ws ! slot) \<and> (\<forall>i < slot. in_use (ws ! i))"
  by (auto simp: find_unused_def find_Some_iff)

text \<open>The limit of the subscription for this kind of worker has been reached.\<close>

definition at_limit :: "launcher_settings \<Rightarrow> worker_kind \<Rightarrow> Oid \<Rightarrow> LogicalRepWorker list \<Rightarrow> bool" where
  "at_limit cfg wtype subid ws \<longleftrightarrow>
     wtype = WORKERTYPE_TABLESYNC \<and> max_sync_workers_per_subscription cfg \<le> logicalrep_sync_worker_count subid ws \<or>
     wtype = WORKERTYPE_PARALLEL_APPLY \<and> max_parallel_apply_workers_per_subscription cfg \<le> logicalrep_pa_worker_count subid ws"

text \<open>The first lock section always ends: the array after the collection of garbage, and what is done to it.\<close>

lemma prepare_effect:
  assumes "max_active_replication_origins cfg \<noteq> 0"
  obtains (refused) now wc where "launch_prepare cfg clock pid wtype dbid subid userid relid ws = Inr (None, wc)" "cleaned cfg clock ws wc"
      "at_limit cfg wtype subid wc \<or> (\<forall>w \<in> set wc. in_use w)"
      "wtype = WORKERTYPE_PARALLEL_APPLY \<and> at_limit cfg wtype subid wc \<or> (\<forall>w \<in> set wc. \<not> stuck cfg now w)"
    | (taken) now wc slot where "launch_prepare cfg clock pid wtype dbid subid userid relid ws =
        Inr (Some (slot, generation (ws ! slot) + 1), wc[slot := prepare_slot wtype now dbid subid userid relid pid (wc ! slot)])"
      "cleaned cfg clock ws wc" "slot < length ws" "\<not> in_use (wc ! slot)" "\<forall>i < slot. in_use (wc ! i)" "\<not> at_limit cfg wtype subid wc"
proof -
  obtain worker n now wc where scan: "launch_scan cfg clock 0 subid ws = (worker, n, now, wc)" by (metis prod_cases4)
  note s = scan_cleans [OF scan]
  show thesis
  proof (cases "at_limit cfg wtype subid wc \<or> worker = None")
    case True
    then have "launch_prepare cfg clock pid wtype dbid subid userid relid ws = Inr (None, wc)"
      using assms s by (auto simp: launch_prepare_def scan at_limit_def)
    moreover have "\<forall>w \<in> set wc. in_use w" if "worker = None"
      using that s find_index_None [of "\<lambda>i. \<not> in_use (wc ! i)" "length wc"] by (auto simp: find_unused_def in_set_conv_nth)
    ultimately show ?thesis using True s by (intro refused [of wc now]) (auto simp: at_limit_def)
  next
    case False
    then obtain slot where slot: "worker = Some slot" by auto
    have "slot < length wc" "\<not> in_use (wc ! slot)" "\<forall>i < slot. in_use (wc ! i)"
      using unused_first [of wc slot] s slot by auto
    moreover have "length wc = length ws" "generation (wc ! slot) = generation (ws ! slot)"
      using s cleaned_generation [of cfg clock ws wc slot] \<open>slot < length wc\<close> by (auto simp: cleaned_def)
    ultimately show ?thesis using False s assms slot
      by (intro taken [of slot wc now]) (auto simp: launch_prepare_def scan Let_def prepare_slot_def at_limit_def)
  qed
qed

lemma prepare_enabled: "launch_prepare cfg clock pid wtype dbid subid userid relid ws = Inr x \<Longrightarrow> max_active_replication_origins cfg \<noteq> 0"
  by (cases "max_active_replication_origins cfg = 0") (auto simp: launch_prepare_def)

text \<open>Claim C12. A launch with replication origins enabled always reaches one of these ends. Its first lock section cleans slots of workers that
  did not attach within the timeout, and no other. If then the limit of the subscription for this kind of worker has been reached or every
  slot is in use, nothing is launched and the array is left so; no slot is left to clean then, except at the limit of parallel apply
  workers. Otherwise the first free slot is taken with the next generation and every other slot stays as it was; whatever other processes
  then do to the array, the launch succeeds when the process is registered, releases the slot and only it when it is not, and fails only
  if the slot has lost its kind meanwhile.\<close>

theorem launch_takes_slot:
  assumes "max_active_replication_origins cfg \<noteq> 0"
  shows "\<exists>now wc. cleaned cfg clock ws wc \<and>
    (if at_limit cfg wtype subid wc \<or> (\<forall>w \<in> set wc. in_use w)
     then logicalrep_worker_launch cfg clock meanwhile registered pid wtype dbid subid userid relid ws = Inr (None, wc) \<and>
       (wtype = WORKERTYPE_PARALLEL_APPLY \<and> at_limit cfg wtype subid wc \<or> (\<forall>w \<in> set wc. \<not> stuck cfg now w))
     else \<exists>slot < length ws. \<not> in_use (wc ! slot) \<and> (\<forall>i < slot. in_use (wc ! i)) \<and>
       (let taken = wc[slot := prepare_slot wtype now dbid subid userid relid pid (wc ! slot)];
            then_seen = meanwhile taken
        in logicalrep_worker_launch cfg clock meanwhile registered pid wtype dbid subid userid relid ws =
           (if lw_type (then_seen ! slot) = WORKERTYPE_UNKNOWN then Inl (PgError ''unknown worker type'')
            else if registered then Inr (Some (slot, generation (ws ! slot) + 1), then_seen)
            else Inr (None, then_seen[slot := logicalrep_worker_cleanup (then_seen ! slot)]))))"
  using assms
proof (cases rule: prepare_effect [where cfg = cfg and clock = clock and pid = pid and wtype = wtype and dbid = dbid and subid = subid and userid = userid and relid = relid and ws = ws])
  case (refused now wc)
  show ?thesis by (intro exI [of _ now] exI [of _ wc]) (use refused in \<open>simp add: logicalrep_worker_launch_def\<close>)
next
  case (taken now wc slot)
  have some_free: "\<not> (\<forall>w \<in> set wc. in_use w)" using taken(2-4) nth_mem [of slot wc] by (auto simp: cleaned_def)
  show ?thesis
    by (intro exI [of _ now] exI [of _ wc])
      (use taken some_free in \<open>auto simp: logicalrep_worker_launch_def launch_register_def Let_def intro!: exI [of _ slot]\<close>)
qed

section \<open>Interleavings\<close>

text \<open>
  The processes around the array. A process that is launched is named by its slot and the number of
  launches of that slot so far, of which the generation is the remainder modulo \<open>2 ^ 16\<close>: its slot
  has been reserved, it has been registered and is on its way to the slot, it has attached, or it
  has ended or will never come. \<open>ls_choice\<close> is the subscription for which the launcher has found no
  worker and is about to launch one.
\<close>

datatype stage = Reserved | Registered

record launch_state =
  ls_workers :: "LogicalRepWorker list"
  ls_serial :: "nat \<Rightarrow> nat"
  ls_pending :: "nat \<times> nat \<rightharpoonup> stage"
  ls_dead :: "(nat \<times> nat) set"
  ls_running :: "pid \<rightharpoonup> nat \<times> nat"
  ls_choice :: "Oid option"

definition launches :: "LogicalRepWorker list \<Rightarrow> LogicalRepWorker list \<Rightarrow> (nat \<Rightarrow> nat) \<Rightarrow> nat \<Rightarrow> nat" where
  "launches ws ws' serial = (\<lambda>i. if i < length ws \<and> generation (ws' ! i) \<noteq> generation (ws ! i) then Suc (serial i) else serial i)"

text \<open>No launch that is still under way, before or after the registration, has been so for longer than the timeout.\<close>

definition prompt :: "launcher_settings \<Rightarrow> (nat \<Rightarrow> TimestampTz) \<Rightarrow> launch_state \<Rightarrow> bool" where
  "prompt cfg clock st \<longleftrightarrow> (\<forall>(i, n) \<in> dom (ls_pending st). \<forall>k. \<not> stuck cfg (clock k) (ls_workers st ! i))"

text \<open>
  One lock section of one process. Only the launcher launches apply workers; a process may end at
  any moment, also between the reservation of a slot and the registration, or before it attaches;
  and a process that waits for one it has launched cleans up after it. In the interleavings called
  timely, slots are reclaimed only after launches that will never be completed, and the cleanup comes
  within \<open>2 ^ 16\<close> launches of the slot.
\<close>

inductive launch_step :: "launcher_settings \<Rightarrow> bool \<Rightarrow> launch_state \<Rightarrow> launch_state \<Rightarrow> bool" for cfg timely where
  look: "logicalrep_worker_find subid 0 False (ls_workers st) = None \<Longrightarrow> launch_step cfg timely st (st\<lparr>ls_choice := Some subid\<rparr>)"
| prepare: "(wtype = WORKERTYPE_APPLY \<longrightarrow> ls_choice st = Some subid \<and> relid = 0) \<Longrightarrow> (timely \<longrightarrow> prompt cfg clock st) \<Longrightarrow>
    launch_prepare cfg clock pid wtype dbid subid userid relid (ls_workers st) = Inr (r, ws') \<Longrightarrow>
    serial' = launches (ls_workers st) ws' (ls_serial st) \<Longrightarrow>
    launch_step cfg timely st (st\<lparr>ls_workers := ws', ls_serial := serial',
      ls_pending := (case r of None \<Rightarrow> ls_pending st | Some (slot, gen) \<Rightarrow> (ls_pending st)((slot, serial' slot) \<mapsto> Reserved)),
      ls_choice := (if wtype = WORKERTYPE_APPLY then None else ls_choice st)\<rparr>)"
| register: "ls_pending st (slot, n) = Some Reserved \<Longrightarrow> launch_register registered slot (ls_workers st) = Inr (started, ws') \<Longrightarrow>
    launch_step cfg timely st (st\<lparr>ls_workers := ws', ls_pending := (ls_pending st)((slot, n) := (if started then Some Registered else None))\<rparr>)"
| attach: "ls_pending st (slot, n) = Some Registered \<Longrightarrow> ls_running st pid = None \<Longrightarrow> logicalrep_worker_attach pid slot (ls_workers st) = Inr ws' \<Longrightarrow>
    launch_step cfg timely st (st\<lparr>ls_workers := ws', ls_pending := (ls_pending st)((slot, n) := None), ls_running := (ls_running st)(pid \<mapsto> (slot, n))\<rparr>)"
| ends_early: "ls_pending st (slot, n) = Some s \<Longrightarrow>
    launch_step cfg timely st (st\<lparr>ls_pending := (ls_pending st)((slot, n) := None), ls_dead := insert (slot, n) (ls_dead st)\<rparr>)"
| exit: "ls_running st pid = Some (slot, n) \<Longrightarrow> logicalrep_worker_detach slot (ls_workers st) = (stopped, ws') \<Longrightarrow>
    launch_step cfg timely st (st\<lparr>ls_workers := ws', ls_running := (ls_running st)(pid := None), ls_dead := insert (slot, n) (ls_dead st)\<rparr>)"
| reap: "(slot, n) \<in> ls_dead st \<Longrightarrow> (timely \<longrightarrow> ls_serial st slot < n + 2 ^ 16) \<Longrightarrow>
    launch_step cfg timely st (st\<lparr>ls_workers := attach_reap slot (of_nat n) (ls_workers st)\<rparr>)"

definition launch_initial :: "nat \<Rightarrow> launch_state" where
  "launch_initial max_logical_replication_workers =
     \<lparr>ls_workers = workers (ApplyLauncherShmemInit max_logical_replication_workers), ls_serial = (\<lambda>_. 0), ls_pending = (\<lambda>_. None), ls_dead = {},
      ls_running = (\<lambda>_. None), ls_choice = None\<rparr>"

inductive launch_reach :: "launcher_settings \<Rightarrow> bool \<Rightarrow> nat \<Rightarrow> launch_state \<Rightarrow> bool" for cfg timely N where
  start: "launch_reach cfg timely N (launch_initial N)"
| step: "launch_reach cfg timely N st \<Longrightarrow> launch_step cfg timely st st' \<Longrightarrow> launch_reach cfg timely N st'"

section \<open>The array of slots\<close>

definition leader :: "LogicalRepWorker \<Rightarrow> bool" where
  "leader w \<longleftrightarrow> in_use w \<and> lw_type w = WORKERTYPE_APPLY"

definition table_ok :: "launcher_settings \<Rightarrow> LogicalRepWorker list \<Rightarrow> bool" where
  "table_ok cfg ws \<longleftrightarrow>
     (\<forall>s. logicalrep_sync_worker_count s ws \<le> max_sync_workers_per_subscription cfg) \<and>
     (\<forall>s. logicalrep_pa_worker_count s ws \<le> max_parallel_apply_workers_per_subscription cfg) \<and>
     (\<forall>i < length ws. leader (ws ! i) \<longrightarrow> lw_relid (ws ! i) = 0 \<and>
        (\<forall>j < length ws. leader (ws ! j) \<longrightarrow> lw_subid (ws ! j) = lw_subid (ws ! i) \<longrightarrow> j = i))"

text \<open>Slots are only released, or attached to.\<close>

definition covers :: "LogicalRepWorker list \<Rightarrow> LogicalRepWorker list \<Rightarrow> bool" where
  "covers ws ws' \<longleftrightarrow> length ws' = length ws \<and> (\<forall>i < length ws. in_use (ws' ! i) \<longrightarrow> in_use (ws ! i) \<and> lw_type (ws' ! i) = lw_type (ws ! i) \<and>
     lw_subid (ws' ! i) = lw_subid (ws ! i) \<and> lw_relid (ws' ! i) = lw_relid (ws ! i))"

lemma count_mono:
  assumes "length ws' = length ws" "\<And>i. i < length ws \<Longrightarrow> P (ws' ! i) \<Longrightarrow> P (ws ! i)"
  shows "length (filter P ws') \<le> length (filter P ws)"
  using assms by (auto simp: length_filter_conv_card intro!: card_mono)

lemma table_covers:
  assumes "table_ok cfg ws" "covers ws ws'"
  shows "table_ok cfg ws'"
proof -
  have "logicalrep_sync_worker_count s ws' \<le> logicalrep_sync_worker_count s ws" "logicalrep_pa_worker_count s ws' \<le> logicalrep_pa_worker_count s ws" for s
    using assms(2) unfolding logicalrep_sync_worker_count_def logicalrep_pa_worker_count_def
    by (auto intro!: count_mono simp: covers_def isTablesyncWorker_def isParallelApplyWorker_def)
  then show ?thesis using assms unfolding table_ok_def covers_def leader_def by (metis order_trans)
qed

lemma leaders_covers: "covers ws ws' \<Longrightarrow> (\<forall>w \<in> set ws. leader w \<longrightarrow> lw_subid w \<noteq> s) \<Longrightarrow> (\<forall>w \<in> set ws'. leader w \<longrightarrow> lw_subid w \<noteq> s)"
  unfolding covers_def leader_def by (metis in_set_conv_nth)

lemma count_update:
  assumes "slot < length ws"
  shows "length (filter P (ws[slot := x])) \<le> length (filter P ws) + (if P x then 1 else 0)"
proof -
  have "{i. i < length ws \<and> P (ws[slot := x] ! i)} \<subseteq> {i. i < length ws \<and> P (ws ! i)} \<union> (if P x then {slot} else {})"
    using assms by (auto simp: nth_list_update split: if_splits)
  then have "card {i. i < length ws \<and> P (ws[slot := x] ! i)} \<le> card ({i. i < length ws \<and> P (ws ! i)} \<union> (if P x then {slot} else {}))"
    by (intro card_mono) auto
  also have "\<dots> \<le> card {i. i < length ws \<and> P (ws ! i)} + (if P x then 1 else 0)" by (rule order_trans [OF card_Un_le]) simp
  finally show ?thesis by (simp add: length_filter_conv_card)
qed

lemma count_update_le:
  assumes "slot < length ws" "length (filter P ws) \<le> m" "P x \<Longrightarrow> length (filter P ws) < m"
  shows "length (filter P (ws[slot := x])) \<le> m"
  using count_update [OF assms(1), of P x] assms(2,3) by (cases "P x") auto

lemma table_update:
  assumes t: "table_ok cfg ws" and slot: "slot < length ws"
    and sync: "isTablesyncWorker x \<Longrightarrow> logicalrep_sync_worker_count (lw_subid x) ws < max_sync_workers_per_subscription cfg"
    and pa: "isParallelApplyWorker x \<Longrightarrow> logicalrep_pa_worker_count (lw_subid x) ws < max_parallel_apply_workers_per_subscription cfg"
    and lead: "leader x \<Longrightarrow> lw_relid x = 0 \<and> (\<forall>w \<in> set ws. leader w \<longrightarrow> lw_subid w \<noteq> lw_subid x)"
  shows "table_ok cfg (ws[slot := x])"
  unfolding table_ok_def
proof (intro conjI allI)
  fix s
  show "logicalrep_sync_worker_count s (ws[slot := x]) \<le> max_sync_workers_per_subscription cfg"
    using sync t slot unfolding logicalrep_sync_worker_count_def by (intro count_update_le) (auto simp: table_ok_def logicalrep_sync_worker_count_def)
  show "logicalrep_pa_worker_count s (ws[slot := x]) \<le> max_parallel_apply_workers_per_subscription cfg"
    using pa t slot unfolding logicalrep_pa_worker_count_def by (intro count_update_le) (auto simp: table_ok_def logicalrep_pa_worker_count_def)
next
  fix i
  have other: "\<not> leader (ws ! j)" if "leader x" "j < length ws" "lw_subid (ws ! j) = lw_subid x" for j using lead that nth_mem [of j ws] by auto
  show "i < length (ws[slot := x]) \<longrightarrow> leader (ws[slot := x] ! i) \<longrightarrow> lw_relid (ws[slot := x] ! i) = 0 \<and>
      (\<forall>j < length (ws[slot := x]). leader (ws[slot := x] ! j) \<longrightarrow> lw_subid (ws[slot := x] ! j) = lw_subid (ws[slot := x] ! i) \<longrightarrow> j = i)"
  proof (cases "i = slot")
    case True
    then show ?thesis using lead other by (auto simp: nth_list_update)
  next
    case False
    then have i: "ws[slot := x] ! i = ws ! i" by simp
    have "j = i" if "i < length ws" "leader (ws ! i)" "j < length ws" "leader (ws[slot := x] ! j)" "lw_subid (ws[slot := x] ! j) = lw_subid (ws ! i)" for j
    proof (cases "j = slot")
      case True
      then show ?thesis using that other [of i] by simp
    next
      case False
      then show ?thesis using that t by (simp add: table_ok_def)
    qed
    then show ?thesis using t unfolding i by (simp add: table_ok_def)
  qed
qed

section \<open>Invariant of the array\<close>

definition choice_ok :: "launch_state \<Rightarrow> bool" where
  "choice_ok st \<longleftrightarrow> (\<forall>s. ls_choice st = Some s \<longrightarrow> (\<forall>w \<in> set (ls_workers st). leader w \<longrightarrow> lw_subid w \<noteq> s))"

definition table_inv :: "launcher_settings \<Rightarrow> launch_state \<Rightarrow> bool" where
  "table_inv cfg st \<longleftrightarrow> table_ok cfg (ls_workers st) \<and> choice_ok st"

lemma cleaned_covers: "cleaned cfg clock ws ws' \<Longrightarrow> covers ws ws'"
  by (force simp: cleaned_def covers_def)

lemma covers_released: "covers ws (ws[slot := logicalrep_worker_cleanup w])"
  by (cases "slot < length ws") (auto simp: covers_def nth_list_update)

lemma covers_attached: "logicalrep_worker_attach pid slot ws = Inr ws' \<Longrightarrow> covers ws ws'"
  by (cases "slot < length ws") (auto simp: covers_def logicalrep_worker_attach_def nth_list_update split: if_splits)

lemma covers_registered: "launch_register registered slot ws = Inr (started, ws') \<Longrightarrow> covers ws ws'"
  using covers_released [of ws slot] by (auto simp: launch_register_def covers_def split: if_splits)

lemma covers_reaped: "covers ws (attach_reap slot gen ws)"
  using covers_released [of ws slot] by (auto simp: attach_reap_def covers_def)

lemma covers_detached: "logicalrep_worker_detach slot ws = (stopped, ws') \<Longrightarrow> covers ws ws'"
  using covers_released [of ws slot] by (auto simp: logicalrep_worker_detach_def)

lemma table_inv_covers:
  assumes "table_inv cfg st" "covers (ls_workers st) (ls_workers st')" "ls_choice st' = ls_choice st"
  shows "table_inv cfg st'"
  using assms table_covers [of cfg "ls_workers st" "ls_workers st'"] leaders_covers [OF assms(2)] by (simp add: table_inv_def choice_ok_def)

lemma look_choice:
  assumes "logicalrep_worker_find subid 0 False (ls_workers st) = None" "table_inv cfg st"
  shows "table_inv cfg (st\<lparr>ls_choice := Some subid\<rparr>)"
proof -
  have "lw_subid (ls_workers st ! i) \<noteq> subid" if "i < length (ls_workers st)" "leader (ls_workers st ! i)" for i
    using assms that by (auto simp: logicalrep_worker_find_def find_index_None table_inv_def table_ok_def leader_def isParallelApplyWorker_def)
  then have "\<forall>w \<in> set (ls_workers st). leader w \<longrightarrow> lw_subid w \<noteq> subid" by (metis in_set_conv_nth)
  then show ?thesis using assms(2) by (simp add: table_inv_def choice_ok_def)
qed

lemma prepare_table:
  assumes choice: "wtype = WORKERTYPE_APPLY \<longrightarrow> ls_choice st = Some subid \<and> relid = 0"
    and l: "launch_prepare cfg clock pid wtype dbid subid userid relid (ls_workers st) = Inr (r, ws')" and inv: "table_inv cfg st"
  shows "table_inv cfg (st\<lparr>ls_workers := ws', ls_choice := (if wtype = WORKERTYPE_APPLY then None else ls_choice st)\<rparr>)"
  using prepare_enabled [OF l]
proof (cases rule: prepare_effect [where cfg = cfg and clock = clock and pid = pid and wtype = wtype and dbid = dbid and subid = subid and userid = userid and relid = relid and ws = "ls_workers st"])
  case (refused now wc)
  have "table_inv cfg (st\<lparr>ls_workers := ws'\<rparr>)" using table_inv_covers [OF inv, of "st\<lparr>ls_workers := ws'\<rparr>"] cleaned_covers [OF refused(2)] refused(1) l by simp
  then show ?thesis by (simp add: table_inv_def choice_ok_def)
next
  case (taken now wc slot)
  let ?x = "prepare_slot wtype now dbid subid userid relid pid (wc ! slot)"
  have ws': "ws' = wc[slot := ?x]" using taken(1) l by simp
  have x: "lw_subid ?x = subid" "lw_type ?x = wtype" "lw_relid ?x = relid" by (simp_all add: prepare_slot_def)
  have wc: "table_ok cfg wc" "\<And>s. ls_choice st = Some s \<Longrightarrow> \<forall>w \<in> set wc. leader w \<longrightarrow> lw_subid w \<noteq> s"
    using table_inv_covers [OF inv, of "st\<lparr>ls_workers := wc\<rparr>"] cleaned_covers [OF taken(2)] by (auto simp: table_inv_def choice_ok_def)
  have slot: "slot < length wc" using taken(2,3) by (simp add: cleaned_def)
  have "table_ok cfg (wc[slot := ?x])"
  proof (rule table_update [OF wc(1) slot])
    show "lw_relid ?x = 0 \<and> (\<forall>w \<in> set wc. leader w \<longrightarrow> lw_subid w \<noteq> lw_subid ?x)" if "leader ?x"
      using that choice wc(2) x by (simp add: leader_def)
  qed (use taken(6) x in \<open>auto simp: isTablesyncWorker_def isParallelApplyWorker_def at_limit_def\<close>)
  moreover have "lw_subid w \<noteq> s" if "ls_choice st = Some s" "wtype \<noteq> WORKERTYPE_APPLY" "w \<in> set (wc[slot := ?x])" "leader w" for s w
  proof -
    have "w = ?x \<or> w \<in> set wc" using that(3) set_update_subset_insert [of wc slot ?x] by blast
    then show ?thesis using wc(2) [OF that(1)] that(2,4) x(2) by (auto simp: leader_def)
  qed
  ultimately show ?thesis by (auto simp: table_inv_def choice_ok_def ws' split: if_splits)
qed

lemma prepare_length:
  assumes "launch_prepare cfg clock pid wtype dbid subid userid relid ws = Inr (r, ws')"
  shows "length ws' = length ws"
  using prepare_enabled [OF assms]
  by (cases rule: prepare_effect [where cfg = cfg and clock = clock and pid = pid and wtype = wtype and dbid = dbid and subid = subid and userid = userid and relid = relid and ws = ws]) (use assms in \<open>auto simp: cleaned_def\<close>)

text \<open>The array is in order in every interleaving, also when processes come late.\<close>

lemma table_step:
  assumes "launch_step cfg timely st st'" "table_inv cfg st"
  shows "table_inv cfg st' \<and> length (ls_workers st') = length (ls_workers st)"
  using assms(1)
proof (cases rule: launch_step.cases)
  case (look subid)
  then show ?thesis using look_choice assms(2) by simp
next
  case (prepare wtype subid relid clock pid dbid userid r ws' serial')
  then show ?thesis using prepare_table [OF prepare(2,4) assms(2)] prepare_length [OF prepare(4)] by (simp add: table_inv_def choice_ok_def)
next
  case (register slot n registered started ws')
  then show ?thesis using table_inv_covers [OF assms(2), of st'] covers_registered [OF register(3)] by (simp add: covers_def)
next
  case (attach slot n pid ws')
  then show ?thesis using table_inv_covers [OF assms(2), of st'] covers_attached [OF attach(4)] by (simp add: covers_def)
next
  case (ends_early slot n s)
  then show ?thesis using assms(2) by (simp add: table_inv_def choice_ok_def)
next
  case (exit pid slot n stopped ws')
  then show ?thesis using table_inv_covers [OF assms(2), of st'] covers_detached [OF exit(3)] by (simp add: covers_def)
next
  case (reap slot n)
  then show ?thesis using table_inv_covers [OF assms(2), of st'] covers_reaped [of "ls_workers st" slot "of_nat n"] by (simp add: covers_def)
qed

lemma table_initial: "table_inv cfg (launch_initial N)"
  by (simp add: table_inv_def choice_ok_def table_ok_def launch_initial_def ApplyLauncherShmemInit_def zero_worker_def
      logicalrep_sync_worker_count_def logicalrep_pa_worker_count_def isTablesyncWorker_def isParallelApplyWorker_def leader_def)

lemma reach_table: "launch_reach cfg timely N st \<Longrightarrow> table_inv cfg st \<and> length (ls_workers st) = N"
proof (induction rule: launch_reach.induct)
  case start
  show ?case using table_initial by (auto simp: launch_initial_def ApplyLauncherShmemInit_def)
qed (use table_step in auto)

section \<open>Processes and their slots\<close>

definition slot_ok :: "launch_state \<Rightarrow> nat \<Rightarrow> bool" where
  "slot_ok st i \<longleftrightarrow> generation (ls_workers st ! i) = of_nat (ls_serial st i) \<and>
     (\<forall>n. (i, n) \<in> dom (ls_pending st) \<longrightarrow> n = ls_serial st i \<and> in_use (ls_workers st ! i) \<and> lw_proc (ls_workers st ! i) = None \<and> (i, n) \<notin> ls_dead st) \<and>
     (\<forall>n. (i, n) \<in> ls_dead st \<longrightarrow> n \<le> ls_serial st i \<and> (n = ls_serial st i \<longrightarrow> lw_proc (ls_workers st ! i) = None)) \<and>
     (\<forall>p n. ls_running st p = Some (i, n) \<longrightarrow> n = ls_serial st i \<and> in_use (ls_workers st ! i) \<and> lw_proc (ls_workers st ! i) = Some p) \<and>
     (\<forall>p. lw_proc (ls_workers st ! i) = Some p \<longrightarrow> ls_running st p = Some (i, ls_serial st i))"

definition slots_bounded :: "launch_state \<Rightarrow> bool" where
  "slots_bounded st \<longleftrightarrow> (\<forall>i n. (i, n) \<in> dom (ls_pending st) \<union> ls_dead st \<union> ran (ls_running st) \<longrightarrow> i < length (ls_workers st))"

definition launch_inv :: "launch_state \<Rightarrow> bool" where
  "launch_inv st \<longleftrightarrow> (\<forall>i < length (ls_workers st). slot_ok st i) \<and> slots_bounded st"

lemma inv_initial: "launch_inv (launch_initial N)"
  by (simp add: launch_inv_def slot_ok_def slots_bounded_def launch_initial_def ApplyLauncherShmemInit_def zero_worker_def)

lemma slot_okI:
  assumes "generation (ls_workers st ! i) = of_nat (ls_serial st i)"
    "\<And>n. (i, n) \<in> dom (ls_pending st) \<Longrightarrow> n = ls_serial st i \<and> in_use (ls_workers st ! i) \<and> lw_proc (ls_workers st ! i) = None \<and> (i, n) \<notin> ls_dead st"
    "\<And>n. (i, n) \<in> ls_dead st \<Longrightarrow> n \<le> ls_serial st i" "\<And>n. (i, n) \<in> ls_dead st \<Longrightarrow> n = ls_serial st i \<Longrightarrow> lw_proc (ls_workers st ! i) = None"
    "\<And>p n. ls_running st p = Some (i, n) \<Longrightarrow> n = ls_serial st i \<and> in_use (ls_workers st ! i) \<and> lw_proc (ls_workers st ! i) = Some p"
    "\<And>p. lw_proc (ls_workers st ! i) = Some p \<Longrightarrow> ls_running st p = Some (i, ls_serial st i)"
  shows "slot_ok st i"
  unfolding slot_ok_def using assms by blast

lemma slot_okD:
  assumes "slot_ok st i"
  shows "generation (ls_workers st ! i) = of_nat (ls_serial st i)"
    "(i, n) \<in> dom (ls_pending st) \<Longrightarrow> n = ls_serial st i \<and> in_use (ls_workers st ! i) \<and> lw_proc (ls_workers st ! i) = None \<and> (i, n) \<notin> ls_dead st"
    "(i, n) \<in> ls_dead st \<Longrightarrow> n \<le> ls_serial st i" "(i, ls_serial st i) \<in> ls_dead st \<Longrightarrow> lw_proc (ls_workers st ! i) = None"
    "ls_running st p = Some (i, n) \<Longrightarrow> n = ls_serial st i \<and> in_use (ls_workers st ! i) \<and> lw_proc (ls_workers st ! i) = Some p"
    "lw_proc (ls_workers st ! i) = Some p \<Longrightarrow> ls_running st p = Some (i, ls_serial st i)"
  using assms unfolding slot_ok_def by blast+

text \<open>A step that does not concern a slot, and the release of a slot whose process is gone.\<close>

lemma slot_ok_same:
  assumes "slot_ok st i" "ls_workers st' ! i = ls_workers st ! i" "ls_serial st' i = ls_serial st i"
    "\<And>n. (i, n) \<in> dom (ls_pending st') \<longleftrightarrow> (i, n) \<in> dom (ls_pending st)" "\<And>n. (i, n) \<in> ls_dead st' \<longleftrightarrow> (i, n) \<in> ls_dead st"
    "\<And>p n. ls_running st' p = Some (i, n) \<longleftrightarrow> ls_running st p = Some (i, n)"
  shows "slot_ok st' i"
  unfolding slot_ok_def assms(2-6) by (rule assms(1) [unfolded slot_ok_def])

lemma slot_ok_released:
  assumes "generation (ls_workers st' ! i) = of_nat (ls_serial st' i)" "\<And>n. (i, n) \<notin> dom (ls_pending st')" "\<And>p n. ls_running st' p \<noteq> Some (i, n)"
    "lw_proc (ls_workers st' ! i) = None" "\<And>n. (i, n) \<in> ls_dead st' \<Longrightarrow> n \<le> ls_serial st' i"
  shows "slot_ok st' i"
  by (rule slot_okI) (use assms in auto)

lemma launch_invI:
  assumes "length (ls_workers st') = length (ls_workers st)" "\<And>i. i < length (ls_workers st) \<Longrightarrow> slot_ok st' i" "slots_bounded st'"
  shows "launch_inv st'"
  using assms by (simp add: launch_inv_def)

lemma launch_invD: "launch_inv st \<Longrightarrow> i < length (ls_workers st) \<Longrightarrow> slot_ok st i" "launch_inv st \<Longrightarrow> slots_bounded st"
  by (simp_all add: launch_inv_def)

lemma inv_choice:
  assumes "launch_inv st"
  shows "launch_inv (st\<lparr>ls_choice := ch\<rparr>)"
proof (rule launch_invI)
  show "slot_ok (st\<lparr>ls_choice := ch\<rparr>) i" if "i < length (ls_workers st)" for i
    by (rule slot_ok_same [OF launch_invD(1) [OF assms that]]) simp_all
qed (use launch_invD(2) [OF assms] in \<open>simp_all add: slots_bounded_def\<close>)

text \<open>A launch under way is the only one of its slot.\<close>

lemma pending_slot:
  assumes "slot_ok st slot" "ls_pending st (slot, n) = Some s"
  shows "n = ls_serial st slot" "in_use (ls_workers st ! slot)" "lw_proc (ls_workers st ! slot) = None" "(slot, n) \<notin> ls_dead st"
    "(slot, m) \<in> dom (ls_pending st) \<Longrightarrow> m = n" "ls_running st p \<noteq> Some (slot, m)"
  using slot_okD(2) [OF assms(1) domI [of "ls_pending st", OF assms(2)]] slot_okD(2) [OF assms(1), of m] slot_okD(5) [OF assms(1), of p m] by auto

lemma pending_bounded: "launch_inv st \<Longrightarrow> ls_pending st (slot, n) = Some s \<Longrightarrow> slot < length (ls_workers st)"
  by (auto simp: launch_inv_def slots_bounded_def dom_def)

lemma inv_ends_early:
  assumes pend: "ls_pending st (slot, n) = Some s" and inv: "launch_inv st"
  shows "launch_inv (st\<lparr>ls_pending := (ls_pending st)((slot, n) := None), ls_dead := insert (slot, n) (ls_dead st)\<rparr>)" (is "launch_inv ?st'")
proof (rule launch_invI)
  show "slot_ok ?st' i" if i: "i < length (ls_workers st)" for i
  proof (cases "i = slot")
    case True
    with i have "slot_ok st slot" using launch_invD(1) [OF inv] by simp
    note p = pending_slot [OF this pend]
    have "n \<le> ls_serial st slot" using p(1) by simp
    then show ?thesis unfolding True using slot_okD(1,3) [OF \<open>slot_ok st slot\<close>] p(3,5,6) by (intro slot_ok_released) auto
  next
    case False
    then show ?thesis by (intro slot_ok_same [OF launch_invD(1) [OF inv i]]) auto
  qed
  show "slots_bounded ?st'" using launch_invD(2) [OF inv] pending_bounded [OF inv pend] by (auto simp: slots_bounded_def)
qed simp

lemma inv_register:
  assumes pend: "ls_pending st (slot, n) = Some Reserved" and reg: "launch_register registered slot (ls_workers st) = Inr (started, ws')" and inv: "launch_inv st"
  shows "launch_inv (st\<lparr>ls_workers := ws', ls_pending := (ls_pending st)((slot, n) := (if started then Some Registered else None))\<rparr>)" (is "launch_inv ?st'")
proof (rule launch_invI)
  have slot: "slot < length (ls_workers st)" by (rule pending_bounded [OF inv pend])
  have ws': "ws' = (if started then ls_workers st else (ls_workers st)[slot := logicalrep_worker_cleanup (ls_workers st ! slot)])"
    using reg by (auto simp: launch_register_def split: if_splits)
  show "length (ls_workers ?st') = length (ls_workers st)" by (simp add: ws')
  have dom: "dom (ls_pending ?st') = (if started then dom (ls_pending st) else dom (ls_pending st) - {(slot, n)})" using pend by auto
  show "slots_bounded ?st'" using launch_invD(2) [OF inv] unfolding slots_bounded_def dom by (auto simp: ws')
  show "slot_ok ?st' i" if i: "i < length (ls_workers st)" for i
  proof (cases "i = slot \<and> \<not> started")
    case True
    have ok: "slot_ok st slot" by (rule launch_invD(1) [OF inv slot])
    note p = pending_slot [OF ok pend]
    show ?thesis using True slot_okD(1,3) [OF ok] p(3,5,6) slot by (intro slot_ok_released) (auto simp: ws')
  next
    case False
    then show ?thesis by (intro slot_ok_same [OF launch_invD(1) [OF inv i]]) (use pend in \<open>auto simp: ws' split: if_splits\<close>)
  qed
qed

lemma inv_attach:
  assumes pend: "ls_pending st (slot, n) = Some Registered" and new: "ls_running st pid = None"
    and att: "logicalrep_worker_attach pid slot (ls_workers st) = Inr ws'" and inv: "launch_inv st"
  shows "launch_inv (st\<lparr>ls_workers := ws', ls_pending := (ls_pending st)((slot, n) := None), ls_running := (ls_running st)(pid \<mapsto> (slot, n))\<rparr>)"
    (is "launch_inv ?st'")
proof (rule launch_invI)
  have slot: "slot < length (ls_workers st)" by (rule pending_bounded [OF inv pend])
  have ws': "ws' = (ls_workers st)[slot := (ls_workers st ! slot)\<lparr>lw_proc := Some pid\<rparr>]"
    using att by (auto simp: logicalrep_worker_attach_def split: if_splits)
  have len: "length ws' = length (ls_workers st)" by (simp add: ws')
  then show "length (ls_workers ?st') = length (ls_workers st)" by simp
  show "slots_bounded ?st'" using launch_invD(2) [OF inv] slot by (auto simp: slots_bounded_def len ran_def split: if_splits)
  show "slot_ok ?st' i" if i: "i < length (ls_workers st)" for i
  proof (cases "i = slot")
    case True
    have ok: "slot_ok st slot" by (rule launch_invD(1) [OF inv slot])
    note p = pending_slot [OF ok pend]
    show ?thesis unfolding True
      by (rule slot_okI) (use slot_okD(1,3) [OF ok] p slot in \<open>auto simp: ws' split: if_splits\<close>)
  next
    case False
    then show ?thesis using new by (intro slot_ok_same [OF launch_invD(1) [OF inv i]]) (auto simp: ws')
  qed
qed

lemma inv_exit:
  assumes run: "ls_running st pid = Some (slot, n)" and det: "logicalrep_worker_detach slot (ls_workers st) = (stopped, ws')" and inv: "launch_inv st"
  shows "launch_inv (st\<lparr>ls_workers := ws', ls_running := (ls_running st)(pid := None), ls_dead := insert (slot, n) (ls_dead st)\<rparr>)"
    (is "launch_inv ?st'")
proof (rule launch_invI)
  have slot: "slot < length (ls_workers st)" using run launch_invD(2) [OF inv] by (auto simp: slots_bounded_def ran_def)
  have ws': "ws' = (ls_workers st)[slot := logicalrep_worker_cleanup (ls_workers st ! slot)]" using det by (simp add: logicalrep_worker_detach_def)
  have len: "length ws' = length (ls_workers st)" by (simp add: ws')
  then show "length (ls_workers ?st') = length (ls_workers st)" by simp
  show "slots_bounded ?st'" using launch_invD(2) [OF inv] slot by (auto simp: slots_bounded_def len ran_def split: if_splits)
  show "slot_ok ?st' i" if i: "i < length (ls_workers st)" for i
  proof (cases "i = slot")
    case True
    have ok: "slot_ok st slot" by (rule launch_invD(1) [OF inv slot])
    have r: "n = ls_serial st slot" "lw_proc (ls_workers st ! slot) = Some pid" using slot_okD(5) [OF ok run] by auto
    have only: "p = pid" if "ls_running st p = Some (slot, m)" for p m using slot_okD(5) [OF ok that] r(2) by simp
    have "(slot, m) \<notin> dom (ls_pending st)" for m using slot_okD(2) [OF ok, of m] r(2) by auto
    then show ?thesis unfolding True using slot_okD(1,3) [OF ok] r(1) slot only by (intro slot_ok_released) (auto simp: ws' split: if_splits)
  next
    case False
    then show ?thesis using run by (intro slot_ok_same [OF launch_invD(1) [OF inv i]]) (auto simp: ws')
  qed
qed

text \<open>Within \<open>2 ^ 16\<close> launches the generation tells whether the slot is still that of the process.\<close>

lemma same_generation:
  assumes "(of_nat n :: 16 word) = of_nat m" "n \<le> m" "m < n + 2 ^ 16"
  shows "n = m"
proof -
  have "n mod 2 ^ 16 = m mod 2 ^ 16" using assms(1) by (simp add: word_of_nat_eq_iff take_bit_eq_mod)
  then have "2 ^ 16 dvd m - n" using assms(2) by (metis mod_eq_dvd_iff_nat)
  then show ?thesis using assms(2,3) by (auto dest: dvd_imp_le)
qed

lemma inv_reap:
  assumes dead: "(slot, n) \<in> ls_dead st" and soon: "ls_serial st slot < n + 2 ^ 16" and inv: "launch_inv st"
  shows "launch_inv (st\<lparr>ls_workers := attach_reap slot (of_nat n) (ls_workers st)\<rparr>)" (is "launch_inv ?st'")
proof (cases "of_nat n = generation (ls_workers st ! slot)")
  case False
  then show ?thesis using inv by (simp add: attach_reap_def)
next
  case True
  have slot: "slot < length (ls_workers st)" using dead launch_invD(2) [OF inv] by (auto simp: slots_bounded_def)
  have ok: "slot_ok st slot" by (rule launch_invD(1) [OF inv slot])
  have n: "n = ls_serial st slot" using same_generation [of n "ls_serial st slot"] True slot_okD(1) [OF ok] slot_okD(3) [OF ok dead] soon by simp
  have ws': "attach_reap slot (of_nat n) (ls_workers st) = (ls_workers st)[slot := logicalrep_worker_cleanup (ls_workers st ! slot)]"
    using True by (simp add: attach_reap_def)
  have gone: "lw_proc (ls_workers st ! slot) = None" using slot_okD(4) [OF ok] dead n by simp
  show ?thesis
  proof (rule launch_invI)
    show "slots_bounded ?st'" using launch_invD(2) [OF inv] by (simp add: slots_bounded_def ws')
    show "slot_ok ?st' i" if i: "i < length (ls_workers st)" for i
    proof (cases "i = slot")
      case True
      have "(slot, m) \<notin> dom (ls_pending st)" for m using slot_okD(2) [OF ok, of m] dead n by auto
      moreover have "ls_running st p \<noteq> Some (slot, m)" for p m using slot_okD(5) [OF ok, of p m] gone by auto
      ultimately show ?thesis unfolding True using slot_okD(1,3) [OF ok] slot by (intro slot_ok_released) (auto simp: ws')
    next
      case False
      then show ?thesis by (intro slot_ok_same [OF launch_invD(1) [OF inv i]]) (auto simp: ws')
    qed
  qed (simp add: ws')
qed

lemma inv_cleaned:
  assumes c: "cleaned cfg clock (ls_workers st) wc" and pr: "prompt cfg clock st" and inv: "launch_inv st"
  shows "launch_inv (st\<lparr>ls_workers := wc\<rparr>)"
proof (rule launch_invI)
  show "length (ls_workers (st\<lparr>ls_workers := wc\<rparr>)) = length (ls_workers st)" using c by (simp add: cleaned_def)
  show "slots_bounded (st\<lparr>ls_workers := wc\<rparr>)" using launch_invD(2) [OF inv] c by (simp add: slots_bounded_def cleaned_def)
  show "slot_ok (st\<lparr>ls_workers := wc\<rparr>) i" if i: "i < length (ls_workers st)" for i
  proof (cases "wc ! i = ls_workers st ! i")
    case True
    then show ?thesis by (intro slot_ok_same [OF launch_invD(1) [OF inv i]]) auto
  next
    case False
    have ok: "slot_ok st i" by (rule launch_invD(1) [OF inv i])
    obtain k where k: "stuck cfg (clock k) (ls_workers st ! i)" "wc ! i = logicalrep_worker_cleanup (ls_workers st ! i)"
      using c i False by (auto simp: cleaned_def)
    have "(i, n) \<notin> dom (ls_pending st)" for n using pr k(1) unfolding prompt_def by (metis case_prodD)
    moreover have "ls_running st p \<noteq> Some (i, n)" for p n using slot_okD(5) [OF ok, of p n] k(1) by (auto simp: stuck_def)
    ultimately show ?thesis using slot_okD(1,3) [OF ok] by (intro slot_ok_released) (auto simp: k(2))
  qed
qed

text \<open>A free slot is taken with the next generation.\<close>

lemma inv_taken:
  assumes inv: "launch_inv st" and slot: "slot < length (ls_workers st)" and free: "\<not> in_use (ls_workers st ! slot)"
    and x: "generation x = generation (ls_workers st ! slot) + 1" "lw_proc x = None" "in_use x"
    and st': "st' = st\<lparr>ls_workers := (ls_workers st)[slot := x], ls_serial := (ls_serial st)(slot := Suc (ls_serial st slot)),
      ls_pending := (ls_pending st)((slot, Suc (ls_serial st slot)) \<mapsto> Reserved)\<rparr>"
  shows "launch_inv st'"
proof (rule launch_invI)
  have ok: "slot_ok st slot" by (rule launch_invD(1) [OF inv slot])
  show "slot_ok st' i" if i: "i < length (ls_workers st)" for i
  proof (cases "i = slot")
    case True
    have no: "(slot, n) \<notin> dom (ls_pending st)" "ls_running st p \<noteq> Some (slot, n)" for n p
      using slot_okD(2) [OF ok, of n] slot_okD(5) [OF ok, of p n] free by auto
    have "(slot, n) \<in> ls_dead st \<Longrightarrow> n \<le> Suc (ls_serial st slot)" "(slot, Suc (ls_serial st slot)) \<notin> ls_dead st" for n
      using slot_okD(3) [OF ok, of n] slot_okD(3) [OF ok, of "Suc (ls_serial st slot)"] by auto
    with no show ?thesis unfolding True
      by (intro slot_okI) (use x slot slot_okD(1) [OF ok] in \<open>auto simp: st' add.commute split: if_splits\<close>)
  next
    case False
    then show ?thesis by (intro slot_ok_same [OF launch_invD(1) [OF inv i]]) (auto simp: st')
  qed
  show "slots_bounded st'" using launch_invD(2) [OF inv] slot by (auto simp: slots_bounded_def st' split: if_splits)
qed (simp add: st')

lemma launches_cleaned: "cleaned cfg clock ws ws' \<Longrightarrow> launches ws ws' serial = serial"
  using cleaned_generation by (fastforce simp: launches_def)

lemma launches_taken:
  assumes "cleaned cfg clock ws wc" "slot < length ws" "generation x = generation (wc ! slot) + 1"
  shows "launches ws (wc[slot := x]) serial = serial(slot := Suc (serial slot))"
proof
  fix i
  have len: "length wc = length ws" using assms(1) by (simp add: cleaned_def)
  show "launches ws (wc[slot := x]) serial i = (serial(slot := Suc (serial slot))) i"
    using assms(2,3) len cleaned_generation [OF assms(1), of i] by (cases "i = slot") (auto simp: launches_def nth_list_update)
qed

lemma inv_prepare:
  assumes pr: "prompt cfg clock st"
    and l: "launch_prepare cfg clock pid wtype dbid subid userid relid (ls_workers st) = Inr (r, ws')"
    and serial': "serial' = launches (ls_workers st) ws' (ls_serial st)" and inv: "launch_inv st"
  shows "launch_inv (st\<lparr>ls_workers := ws', ls_serial := serial',
      ls_pending := (case r of None \<Rightarrow> ls_pending st | Some (slot, gen) \<Rightarrow> (ls_pending st)((slot, serial' slot) \<mapsto> Reserved))\<rparr>)" (is "launch_inv ?st'")
  using prepare_enabled [OF l]
proof (cases rule: prepare_effect [where cfg = cfg and clock = clock and pid = pid and wtype = wtype and dbid = dbid and subid = subid and userid = userid and relid = relid and ws = "ls_workers st"])
  case (refused now wc)
  have eq: "r = None" "ws' = wc" using refused(1) l by simp_all
  have "serial' = ls_serial st" using launches_cleaned [OF refused(2)] serial' eq by simp
  then show ?thesis using inv_cleaned [OF refused(2) pr inv] eq by simp
next
  case (taken now wc slot)
  let ?x = "prepare_slot wtype now dbid subid userid relid pid (wc ! slot)"
  have eq: "r = Some (slot, generation (ls_workers st ! slot) + 1)" "ws' = wc[slot := ?x]" using taken(1) l by simp_all
  have x: "generation ?x = generation (wc ! slot) + 1" "lw_proc ?x = None" "in_use ?x" by (simp_all add: prepare_slot_def)
  have serial: "serial' = (ls_serial st)(slot := Suc (ls_serial st slot))"
    using launches_taken [OF taken(2,3) x(1), of "ls_serial st"] serial' eq(2) by simp
  show ?thesis
    by (rule inv_taken [OF inv_cleaned [OF taken(2) pr inv], of slot ?x]) (use taken x serial eq in \<open>auto simp: cleaned_def\<close>)
qed

lemma reach_inv: "launch_reach cfg timely N st \<Longrightarrow> timely \<Longrightarrow> launch_inv st"
proof (induction rule: launch_reach.induct)
  case start
  show ?case by (rule inv_initial)
next
  case (step st st')
  then have inv: "launch_inv st" by simp
  from step.hyps(2) show ?case
  proof (cases rule: launch_step.cases)
    case (look subid)
    then show ?thesis using inv_choice [OF inv] by simp
  next
    case (prepare wtype subid relid clock pid dbid userid r ws' serial')
    then have "prompt cfg clock st" using step.prems by simp
    from inv_choice [OF inv_prepare [OF this prepare(4,5) inv]] show ?thesis by (simp add: prepare(1))
  next
    case (register slot n registered started ws')
    then show ?thesis using inv_register [OF register(2,3) inv] by simp
  next
    case (attach slot n pid ws')
    then show ?thesis using inv_attach [OF attach(2,3,4) inv] by simp
  next
    case (ends_early slot n s)
    then show ?thesis using inv_ends_early [OF ends_early(2) inv] by simp
  next
    case (exit pid slot n stopped ws')
    then show ?thesis using inv_exit [OF exit(2,3) inv] by simp
  next
    case (reap slot n)
    then show ?thesis using inv_reap [OF reap(2) _ inv] step.prems by simp
  qed
qed

text \<open>Claim C11. In every interleaving of the lock sections of the launcher, of the workers that launch others and of the launched processes, with
  processes that fail at any moment and slots that are reclaimed, also from processes that only come late, at most one slot at a time
  belongs to an apply worker of a subscription, and never more slots than its limits to synchronisation or parallel apply workers of it.
  If moreover no launch that is completed at all takes longer than the timeout after which its slot may be reclaimed, and the process that waits for
  one does not miss \<open>2 ^ 16\<close> launches of the slot, then every running process has a slot of its own.\<close>

theorem one_leader:
  assumes "launch_reach cfg timely N st"
  shows "length (ls_workers st) = N \<and>
    (\<forall>i < N. \<forall>j < N. leader (ls_workers st ! i) \<longrightarrow> leader (ls_workers st ! j) \<longrightarrow> lw_subid (ls_workers st ! i) = lw_subid (ls_workers st ! j) \<longrightarrow> i = j) \<and>
    (\<forall>s. logicalrep_sync_worker_count s (ls_workers st) \<le> max_sync_workers_per_subscription cfg \<and>
      logicalrep_pa_worker_count s (ls_workers st) \<le> max_parallel_apply_workers_per_subscription cfg) \<and>
    (timely \<longrightarrow> (\<forall>p i n. ls_running st p = Some (i, n) \<longrightarrow> i < N \<and> in_use (ls_workers st ! i) \<and> lw_proc (ls_workers st ! i) = Some p))"
proof -
  have table: "table_ok cfg (ls_workers st)" and N: "length (ls_workers st) = N" using reach_table [OF assms] by (auto simp: table_inv_def)
  have run: "i < N \<and> in_use (ls_workers st ! i) \<and> lw_proc (ls_workers st ! i) = Some p" if "ls_running st p = Some (i, n)" timely for p i n
  proof -
    have inv: "launch_inv st" by (rule reach_inv [OF assms that(2)])
    then have "i < length (ls_workers st)" using that(1) launch_invD(2) by (auto simp: slots_bounded_def ran_def)
    then show ?thesis using slot_okD(5) [OF launch_invD(1) [OF inv] that(1)] N by simp
  qed
  then show ?thesis using N table by (simp add: table_ok_def)
qed

text \<open>A signal to stop a worker goes to the process that runs in the slot of that generation.\<close>

lemma stop_signal_own:
  assumes "launch_inv st" "i < length (ls_workers st)" "stop_signal i gen (ls_workers st) = Some p"
  shows "ls_running st p = Some (i, ls_serial st i)" "generation (ls_workers st ! i) = gen"
  using assms slot_okD(6) [OF launch_invD(1) [OF assms(1,2)], of p] by (auto simp: stop_signal_def split: if_splits)

section \<open>Restarts\<close>

text \<open>
  A run of the launcher process: visits of subscriptions, and removals of start times by other
  processes. The log records at which times launches were attempted, and the removals.
\<close>

datatype launcher_event = Visit launcher_moment subscription_row | Forget Oid

datatype launch_log = Attempted Oid TimestampTz | Forgotten Oid

text \<open>Whether a visit attempts a launch.\<close>

definition attempts :: "launcher_settings \<Rightarrow> launcher_moment \<Rightarrow> subscription_row \<Rightarrow> LogicalRepCtxStruct \<Rightarrow> bool" where
  "attempts cfg m sub ctx \<longleftrightarrow> sr_enabled sub \<and> logicalrep_worker_find (sr_oid sub) 0 False (workers ctx) = None \<and>
     (ApplyLauncherGetWorkerStartTime (sr_oid sub) ctx = 0 \<or>
      retry_interval cfg \<le> TimestampDifferenceMilliseconds (ApplyLauncherGetWorkerStartTime (sr_oid sub) ctx) (lm_now m))"

fun launcher_run :: "launcher_settings \<Rightarrow> pid \<Rightarrow> launcher_event list \<Rightarrow> LogicalRepCtxStruct \<times> int \<Rightarrow> (LogicalRepCtxStruct \<times> int) res \<times> launch_log list" where
  "launcher_run cfg MyProcPid [] acc = (Inr acc, [])"
| "launcher_run cfg MyProcPid (Forget s # evs) (ctx, wait_time) =
     (case launcher_run cfg MyProcPid evs (ApplyLauncherForgetWorkerStartTime s ctx, wait_time) of (r, log) \<Rightarrow> (r, Forgotten s # log))"
| "launcher_run cfg MyProcPid (Visit m sub # evs) (ctx, wait_time) =
     (let entry = (if attempts cfg m sub ctx then [Attempted (sr_oid sub) (lm_now m)] else [])
      in case launcher_visit cfg MyProcPid m sub (ctx, wait_time) of
           Inl e \<Rightarrow> (Inl e, entry)
         | Inr acc \<Rightarrow> (case launcher_run cfg MyProcPid evs acc of (r, log) \<Rightarrow> (r, entry @ log)))"

definition mentions :: "Oid \<Rightarrow> launch_log \<Rightarrow> bool" where
  "mentions s e \<longleftrightarrow> (case e of Attempted s' t \<Rightarrow> s' = s | Forgotten s' \<Rightarrow> s' = s)"

lemma visit_start_times:
  assumes "launcher_visit cfg pid m sub (ctx, w) = Inr (ctx', w')"
  shows "start_times ctx' = (if attempts cfg m sub ctx then (start_times ctx)(sr_oid sub \<mapsto> lm_now m) else start_times ctx)"
proof (cases "attempts cfg m sub ctx")
  case True
  then show ?thesis using assms
    by (auto simp: launcher_visit_def attempts_def ApplyLauncherSetWorkerStartTime_def bindR_eq_Inr_iff Let_def case_prod_beta split: option.splits)
next
  case False
  then show ?thesis using assms by (auto simp: launcher_visit_def attempts_def Let_def split: if_splits)
qed

text \<open>The launcher never sleeps for longer than three minutes, and always for some time.\<close>

lemma visit_sleep:
  assumes "launcher_visit cfg pid m sub (ctx, w) = Inr (ctx', w')" "1 \<le> w" "1 \<le> retry_interval cfg"
  shows "1 \<le> w' \<and> w' \<le> w"
proof (cases "attempts cfg m sub ctx")
  case True
  let ?launch = "logicalrep_worker_launch cfg (lm_clock m) (lm_meanwhile m) (lm_registered m) pid WORKERTYPE_APPLY (sr_dbid sub) (sr_oid sub) (sr_owner sub) 0
    (workers (ApplyLauncherSetWorkerStartTime (sr_oid sub) (lm_now m) ctx))"
  have v: "bindR ?launch (\<lambda>(launched, ws). case launched of
        None \<Rightarrow> Inr ((ApplyLauncherSetWorkerStartTime (sr_oid sub) (lm_now m) ctx)\<lparr>workers := ws\<rparr>, min w (retry_interval cfg))
      | Some (slot, gen) \<Rightarrow> (case lm_wait m slot gen ws of (attached, ws) \<Rightarrow>
          Inr ((ApplyLauncherSetWorkerStartTime (sr_oid sub) (lm_now m) ctx)\<lparr>workers := ws\<rparr>, if attached then w else min w (retry_interval cfg)))) =
      Inr (ctx', w')"
    using True assms(1) by (simp add: launcher_visit_def attempts_def Let_def)
  obtain launched ws where l: "?launch = Inr (launched, ws)" using v by (cases ?launch) auto
  have "w' = w \<or> w' = min w (retry_interval cfg)"
  proof (cases launched)
    case (Some lg)
    then show ?thesis using v by (cases lg; cases "lm_wait m (fst lg) (snd lg) ws") (simp add: l split: if_splits)
  qed (use v in \<open>simp add: l\<close>)
  then show ?thesis using assms(2,3) by auto
next
  case False
  then show ?thesis using assms by (auto simp: launcher_visit_def attempts_def Let_def split: if_splits)
qed

lemma loop_sleep:
  assumes "launcher_loop cfg pid subs (ctx, w) = Inr (ctx', w')" "1 \<le> w" "1 \<le> retry_interval cfg"
  shows "1 \<le> w' \<and> w' \<le> w"
  using assms(1,2)
proof (induction subs arbitrary: ctx w)
  case (Cons v subs)
  obtain m sub where v: "v = (m, sub)" by (cases v)
  then obtain ctx1 w1 where "launcher_visit cfg pid m sub (ctx, w) = Inr (ctx1, w1)" "launcher_loop cfg pid subs (ctx1, w1) = Inr (ctx', w')"
    using Cons.prems(1) by (auto simp: bindR_eq_Inr_iff)
  then show ?case using visit_sleep Cons.IH [of ctx1 w1] Cons.prems(2) assms(3) by fastforce
qed simp

lemma cycle_sleep: "launcher_cycle cfg pid subs ctx = Inr (ctx', w') \<Longrightarrow> 1 \<le> retry_interval cfg \<Longrightarrow> 1 \<le> w' \<and> w' \<le> DEFAULT_NAPTIME_PER_CYCLE"
  using loop_sleep [of cfg pid subs ctx DEFAULT_NAPTIME_PER_CYCLE] by (simp add: launcher_cycle_def)

text \<open>The milliseconds are rounded up.\<close>

lemma elapsed_bound:
  assumes "msec \<le> TimestampDifferenceMilliseconds t now" "1 \<le> msec" "msec < 2 ^ 31"
  shows "(msec - 1) * 1000 < sint now - sint t"
proof -
  let ?d = "sint now - sint t"
  have pos: "\<not> sint now \<le> sint t" using assms(1,2) by (auto simp: TimestampDifferenceMilliseconds_def Let_def)
  show ?thesis
  proof (cases "2 ^ 63 \<le> ?d \<or> (2 ^ 31 - 1) * 1000 - 999 \<le> ?d")
    case True
    then have "(2 ^ 31 - 1) * 1000 - 999 \<le> ?d" by auto
    then show ?thesis using assms(3) by simp
  next
    case False
    then have "msec \<le> (?d + 999) div 1000" using assms(1) pos by (simp add: TimestampDifferenceMilliseconds_def Let_def)
    then have "1000 * msec \<le> 1000 * ((?d + 999) div 1000)" by simp
    also have "\<dots> \<le> ?d + 999" by simp
    finally show ?thesis by (simp add: left_diff_distrib)
  qed
qed

text \<open>The next entry of a subscription in the log, when it is an attempt, keeps its distance from the start time in the table.\<close>

lemma next_attempt:
  assumes "launcher_run cfg pid evs (ctx, w) = (r, mid @ Attempted s t2 # rest)" "list_all (\<lambda>e. \<not> mentions s e) mid"
    and "start_times ctx s = Some t1" "t1 \<noteq> 0" "1 \<le> retry_interval cfg" "retry_interval cfg < 2 ^ 31"
  shows "(retry_interval cfg - 1) * 1000 < sint t2 - sint t1"
  using assms(1,2,3)
proof (induction evs arbitrary: ctx w mid r)
  case Nil
  then show ?case by simp
next
  case (Cons ev evs)
  show ?case
  proof (cases ev)
    case (Forget s')
    obtain r' log where run: "launcher_run cfg pid evs (ApplyLauncherForgetWorkerStartTime s' ctx, w) = (r', log)" by fastforce
    then have log: "mid @ Attempted s t2 # rest = Forgotten s' # log" using Cons.prems(1) by (simp add: Forget)
    then obtain mid' where mid: "mid = Forgotten s' # mid'" "log = mid' @ Attempted s t2 # rest" by (cases mid) auto
    then have "s' \<noteq> s" using Cons.prems(2) by (simp add: mentions_def)
    then show ?thesis using Cons.IH [of "ApplyLauncherForgetWorkerStartTime s' ctx" w r' mid'] run mid Cons.prems(2,3)
      by (simp add: ApplyLauncherForgetWorkerStartTime_def)
  next
    case (Visit m sub)
    show ?thesis
    proof (cases "attempts cfg m sub ctx \<and> sr_oid sub = s \<and> mid = []")
      case True
      then have "t2 = lm_now m" using Cons.prems(1) by (auto simp: Visit Let_def split: sum.splits prod.splits)
      moreover have "retry_interval cfg \<le> TimestampDifferenceMilliseconds t1 (lm_now m)"
        using True Cons.prems(3) assms(4) by (auto simp: attempts_def ApplyLauncherGetWorkerStartTime_def)
      ultimately show ?thesis using elapsed_bound assms(5,6) by simp
    next
      case False
      let ?entry = "if attempts cfg m sub ctx then [Attempted (sr_oid sub) (lm_now m)] else []"
      have here: False if "mid @ Attempted s t2 # rest = ?entry"
        using that False by (cases mid) (auto split: if_splits)
      then obtain ctx' w' where v: "launcher_visit cfg pid m sub (ctx, w) = Inr (ctx', w')"
        using Cons.prems(1) by (cases "launcher_visit cfg pid m sub (ctx, w)") (auto simp: Visit Let_def)
      obtain r' log where run: "launcher_run cfg pid evs (ctx', w') = (r', log)" by fastforce
      have log: "mid @ Attempted s t2 # rest = ?entry @ log" using Cons.prems(1) v run by (simp add: Visit Let_def)
      obtain mid' where mid: "mid = ?entry @ mid'" "log = mid' @ Attempted s t2 # rest"
        using log False by (cases "attempts cfg m sub ctx"; cases mid) auto
      have "start_times ctx' s = Some t1" using visit_start_times [OF v] Cons.prems(2,3) mid(1) by (auto simp: mentions_def split: if_splits)
      then show ?thesis using Cons.IH [of ctx' w' r' mid'] run mid Cons.prems(2) by simp
    qed
  qed
qed

text \<open>Claim C13. Between two attempts to start the apply worker of the same subscription lies at least the retry interval, up to one millisecond,
  unless another process has removed the start time in between: an error does not make the launcher restart a worker as fast as it can.
  This holds for every sequence of visits and for a clock that may jump; a launch at time zero of the clock is not remembered.\<close>

theorem restarts_spaced:
  assumes "launcher_run cfg pid evs (ctx, w) = (r, front @ Attempted s t1 # mid @ Attempted s t2 # rest)"
    and "list_all (\<lambda>e. \<not> mentions s e) mid" and "t1 \<noteq> 0" and "1 \<le> retry_interval cfg" "retry_interval cfg < 2 ^ 31"
  shows "(retry_interval cfg - 1) * 1000 < sint t2 - sint t1"
  using assms(1)
proof (induction evs arbitrary: ctx w front r)
  case Nil
  then show ?case by simp
next
  case (Cons ev evs)
  show ?case
  proof (cases ev)
    case (Forget s')
    obtain r' log where run: "launcher_run cfg pid evs (ApplyLauncherForgetWorkerStartTime s' ctx, w) = (r', log)" by fastforce
    then have "front @ Attempted s t1 # mid @ Attempted s t2 # rest = Forgotten s' # log" using Cons.prems by (simp add: Forget)
    then obtain front' where "log = front' @ Attempted s t1 # mid @ Attempted s t2 # rest" by (cases front) auto
    then show ?thesis using Cons.IH run by blast
  next
    case (Visit m sub)
    let ?entry = "if attempts cfg m sub ctx then [Attempted (sr_oid sub) (lm_now m)] else []"
    have "length ?entry \<le> 1" by simp
    then obtain ctx' w' where v: "launcher_visit cfg pid m sub (ctx, w) = Inr (ctx', w')"
      using Cons.prems by (cases "launcher_visit cfg pid m sub (ctx, w)") (auto simp: Visit Let_def append_eq_Cons_conv split: if_splits)
    obtain r' log where run: "launcher_run cfg pid evs (ctx', w') = (r', log)" by fastforce
    have log: "front @ Attempted s t1 # mid @ Attempted s t2 # rest = ?entry @ log" using Cons.prems v run by (simp add: Visit Let_def)
    show ?thesis
    proof (cases "front = [] \<and> attempts cfg m sub ctx")
      case True
      then have "sr_oid sub = s" "lm_now m = t1" "log = mid @ Attempted s t2 # rest" using log by auto
      moreover from this have "start_times ctx' s = Some t1" using visit_start_times [OF v] True by simp
      ultimately show ?thesis using next_attempt [OF _ assms(2) _ assms(3-5)] run by simp
    next
      case False
      then obtain front' where "log = front' @ Attempted s t1 # mid @ Attempted s t2 # rest"
        using log by (cases "attempts cfg m sub ctx"; cases front) auto
      then show ?thesis using Cons.IH run by blast
    qed
  qed
qed

section \<open>Witnesses\<close>

definition demo_limits :: launcher_settings where
  "demo_limits = \<lparr>max_sync_workers_per_subscription = 1, max_parallel_apply_workers_per_subscription = 1, max_active_replication_origins = 1,
     wal_receiver_timeout = 60000, retry_interval = 5000\<rparr>"

definition demo_slots :: "LogicalRepWorker list" where
  "demo_slots = [zero_worker, zero_worker]"

text \<open>The process that is launched into the first slot for a subscription.\<close>

definition demo_taken :: "LogicalRepWorker list" where
  "demo_taken = [prepare_slot WORKERTYPE_APPLY 9 1 16400 10 0 7 zero_worker, zero_worker]"

lemma demo_prepared: "launch_prepare demo_limits (\<lambda>_. 9) 7 WORKERTYPE_APPLY 1 16400 10 0 demo_slots = Inr (Some (0, 1), demo_taken)"
  by (simp add: launch_prepare_def launch_scan.simps find_unused_def demo_slots_def demo_limits_def zero_worker_def demo_taken_def
      logicalrep_sync_worker_count_def isTablesyncWorker_def prepare_slot_def Let_def upt_rec)

lemma demo_launched: "logicalrep_worker_launch demo_limits (\<lambda>_. 9) (\<lambda>ws. ws) False 7 WORKERTYPE_APPLY 1 16400 10 0 demo_slots =
    Inr (None, demo_taken[0 := logicalrep_worker_cleanup (demo_taken ! 0)])"
  by (simp add: logicalrep_worker_launch_def demo_prepared launch_register_def) (simp add: demo_taken_def prepare_slot_def)

theorem launch_takes_slot_witness:
  "max_active_replication_origins demo_limits = 1 \<and>
   (\<exists>now wc slot. \<not> in_use (wc ! slot) \<and> demo_taken[0 := logicalrep_worker_cleanup (demo_taken ! 0)] =
     wc[slot := logicalrep_worker_cleanup (prepare_slot WORKERTYPE_APPLY now 1 16400 10 0 7 (wc ! slot))])"
proof -
  have "max_active_replication_origins demo_limits \<noteq> 0" by (simp add: demo_limits_def)
  from launch_takes_slot [OF this, of "\<lambda>_. 9" demo_slots WORKERTYPE_APPLY 16400 "\<lambda>ws. ws" False 7 1 10 0]
  obtain now wc where c: "cleaned demo_limits (\<lambda>_. 9) demo_slots wc" and l:
    "if at_limit demo_limits WORKERTYPE_APPLY 16400 wc \<or> (\<forall>w \<in> set wc. in_use w)
     then logicalrep_worker_launch demo_limits (\<lambda>_. 9) (\<lambda>ws. ws) False 7 WORKERTYPE_APPLY 1 16400 10 0 demo_slots = Inr (None, wc) \<and>
       (WORKERTYPE_APPLY = WORKERTYPE_PARALLEL_APPLY \<and> at_limit demo_limits WORKERTYPE_APPLY 16400 wc \<or> (\<forall>w \<in> set wc. \<not> stuck demo_limits now w))
     else \<exists>slot < length demo_slots. \<not> in_use (wc ! slot) \<and> (\<forall>i < slot. in_use (wc ! i)) \<and>
       (let taken = wc[slot := prepare_slot WORKERTYPE_APPLY now 1 16400 10 0 7 (wc ! slot)];
            then_seen = taken
        in logicalrep_worker_launch demo_limits (\<lambda>_. 9) (\<lambda>ws. ws) False 7 WORKERTYPE_APPLY 1 16400 10 0 demo_slots =
           (if lw_type (then_seen ! slot) = WORKERTYPE_UNKNOWN then Inl (PgError ''unknown worker type'')
            else if False then Inr (Some (slot, generation (demo_slots ! slot) + 1), then_seen)
            else Inr (None, then_seen[slot := logicalrep_worker_cleanup (then_seen ! slot)])))"
    by blast
  have slots: "length demo_slots = 2" by (simp add: demo_slots_def)
  have kept: "lw_type (prepare_slot WORKERTYPE_APPLY now 1 16400 10 0 7 w) = WORKERTYPE_APPLY" for w by (simp add: prepare_slot_def)
  have len: "length wc = 2" "\<not> in_use (wc ! 0)" using c by (auto simp: cleaned_def demo_slots_def zero_worker_def)
  then have "\<not> (at_limit demo_limits WORKERTYPE_APPLY 16400 wc \<or> (\<forall>w \<in> set wc. in_use w))"
    using nth_mem [of 0 wc] by (auto simp: at_limit_def)
  then obtain slot where s: "slot < 2" "\<not> in_use (wc ! slot)"
    "demo_taken[0 := logicalrep_worker_cleanup (demo_taken ! 0)] = wc[slot := logicalrep_worker_cleanup (prepare_slot WORKERTYPE_APPLY now 1 16400 10 0 7 (wc ! slot))]"
    using l len(1) slots by (auto simp: demo_launched kept Let_def split: if_splits)
  then show ?thesis by (auto simp: demo_limits_def)
qed

definition demo_choice :: launch_state where
  "demo_choice = (launch_initial 2)\<lparr>ls_choice := Some 16400\<rparr>"

definition demo_reserved :: launch_state where
  "demo_reserved = demo_choice\<lparr>ls_workers := demo_taken, ls_serial := (\<lambda>_. 0)(0 := 1), ls_pending := (\<lambda>_. None)((0, 1) \<mapsto> Reserved), ls_choice := None\<rparr>"

definition demo_registered :: launch_state where
  "demo_registered = demo_reserved\<lparr>ls_pending := (\<lambda>_. None)((0, 1) \<mapsto> Registered)\<rparr>"

definition demo_started :: launch_state where
  "demo_started = demo_registered\<lparr>ls_workers := demo_taken[0 := (demo_taken ! 0)\<lparr>lw_proc := Some 8\<rparr>], ls_pending := (\<lambda>_. None),
     ls_running := (\<lambda>_. None)(8 \<mapsto> (0, 1))\<rparr>"

lemma demo_choice_reach: "launch_reach demo_limits True 2 demo_choice"
proof -
  have "launch_step demo_limits True (launch_initial 2) demo_choice"
    unfolding demo_choice_def
    by (rule launch_step.look) (simp add: logicalrep_worker_find_def find_index_None launch_initial_def ApplyLauncherShmemInit_def zero_worker_def less_2_cases_iff)
  then show ?thesis using launch_reach.start launch_reach.step by blast
qed

lemma demo_reserved_reach: "launch_reach demo_limits True 2 demo_reserved"
proof -
  have ws: "ls_workers demo_choice = demo_slots"
    by (simp add: demo_choice_def launch_initial_def ApplyLauncherShmemInit_def demo_slots_def numeral_2_eq_2)
  have pr: "True \<longrightarrow> prompt demo_limits (\<lambda>_. 9) demo_choice" by (simp add: prompt_def demo_choice_def launch_initial_def)
  have serial: "launches (ls_workers demo_choice) demo_taken (ls_serial demo_choice) = (\<lambda>_. 0)(0 := 1)"
  proof -
    have "ls_serial demo_choice = (\<lambda>_. 0)" by (simp add: demo_choice_def launch_initial_def)
    then show ?thesis unfolding ws by (auto simp: launches_def fun_eq_iff demo_slots_def demo_taken_def prepare_slot_def zero_worker_def less_Suc_eq)
  qed
  have "launch_step demo_limits True demo_choice demo_reserved"
    using launch_step.prepare [of WORKERTYPE_APPLY demo_choice 16400 0, OF _ pr demo_prepared [folded ws] refl] unfolding serial
    by (simp add: demo_reserved_def demo_choice_def launch_initial_def)
  with demo_choice_reach show ?thesis by (rule launch_reach.step)
qed

lemma demo_reach: "launch_reach demo_limits True 2 demo_started"
proof -
  have taken: "in_use (demo_taken ! 0)" "lw_type (demo_taken ! 0) = WORKERTYPE_APPLY" "lw_proc (demo_taken ! 0) = None"
    by (simp_all add: demo_taken_def prepare_slot_def)
  have "ls_pending demo_reserved (0, 1) = Some Reserved" "launch_register True 0 (ls_workers demo_reserved) = Inr (True, demo_taken)"
    using taken by (simp_all add: demo_reserved_def launch_register_def)
  from launch_step.register [OF this, of demo_limits True] have "launch_step demo_limits True demo_reserved demo_registered"
    by (simp add: demo_registered_def demo_reserved_def demo_choice_def launch_initial_def)
  then have "launch_reach demo_limits True 2 demo_registered" by (rule launch_reach.step [OF demo_reserved_reach])
  moreover have "launch_step demo_limits True demo_registered demo_started"
  proof -
    have "ls_pending demo_registered (0, 1) = Some Registered" "ls_running demo_registered 8 = None"
      "logicalrep_worker_attach 8 0 (ls_workers demo_registered) = Inr (demo_taken[0 := (demo_taken ! 0)\<lparr>lw_proc := Some 8\<rparr>])"
      using taken by (simp_all add: demo_registered_def demo_reserved_def demo_choice_def launch_initial_def logicalrep_worker_attach_def)
    from launch_step.attach [OF this, of demo_limits True] show ?thesis
      by (simp add: demo_started_def demo_registered_def demo_reserved_def demo_choice_def launch_initial_def)
  qed
  ultimately show ?thesis by (rule launch_reach.step)
qed

theorem one_leader_witness:
  "length (ls_workers demo_started) = 2 \<and> leader (ls_workers demo_started ! 0) \<and> lw_subid (ls_workers demo_started ! 0) = 16400 \<and>
   logicalrep_sync_worker_count 16400 (ls_workers demo_started) \<le> 1 \<and> logicalrep_pa_worker_count 16400 (ls_workers demo_started) \<le> 1 \<and>
   ls_running demo_started 8 = Some (0, 1) \<and> lw_proc (ls_workers demo_started ! 0) = Some 8"
proof -
  have "leader (ls_workers demo_started ! 0)" "lw_subid (ls_workers demo_started ! 0) = 16400" "ls_running demo_started 8 = Some (0, 1)"
    by (simp_all add: demo_started_def demo_taken_def prepare_slot_def leader_def)
  then show ?thesis using one_leader [OF demo_reach] by (simp add: demo_limits_def)
qed

text \<open>A subscription whose worker never attaches is visited at three times; the second visit comes too early.\<close>

definition demo_moment :: "TimestampTz \<Rightarrow> launcher_moment" where
  "demo_moment now = \<lparr>lm_now = now, lm_clock = (\<lambda>_. now), lm_meanwhile = (\<lambda>ws. ws), lm_registered = False, lm_wait = (\<lambda>slot gen ws. (False, ws))\<rparr>"

definition demo_visits :: "launcher_event list" where
  "demo_visits = map (\<lambda>now. Visit (demo_moment now) \<lparr>sr_oid = 16400, sr_dbid = 1, sr_owner = 10, sr_enabled = True\<rparr>) [1000, 2000, 6000000]"

lemma demo_log: "snd (launcher_run demo_limits 7 demo_visits (ApplyLauncherShmemInit 1, 180000)) = [Attempted 16400 1000, Attempted 16400 6000000]"
  by code_simp

theorem restarts_spaced_witness:
  "snd (launcher_run demo_limits 7 demo_visits (ApplyLauncherShmemInit 1, 180000)) = [] @ Attempted 16400 1000 # [] @ Attempted 16400 6000000 # [] \<and>
   (retry_interval demo_limits - 1) * 1000 < sint (6000000 :: TimestampTz) - sint (1000 :: TimestampTz)"
proof -
  obtain r where "launcher_run demo_limits 7 demo_visits (ApplyLauncherShmemInit 1, 180000) =
      (r, [] @ Attempted 16400 1000 # [] @ Attempted 16400 6000000 # [])"
    using demo_log by (metis append_Nil prod.collapse)
  from restarts_spaced [OF this] show ?thesis using demo_log by (simp add: demo_limits_def)
qed

end
