(* ===== verification/CJsonSafety.thy ===== *)
theory CJsonSafety
  imports CJsonRoundtrip "HOL-Library.Sublist"
begin

text \<open>
  Where the JSON parser of \<^verbatim>\<open>src/backend/utils/adt/cJSON.c\<close> stays inside its buffers and where it
  does not. The first pass over a string literal measures it, counting an escape as one
  character, and the second pass copies it, skipping four characters behind \<^verbatim>\<open>\u\<close> whatever they
  are. On texts whose escapes are complete the copy fits and the parser returns; behind a
  truncated escape the copy runs past the closing quote and over the end of the buffer.
\<close>

section \<open>Complete escapes\<close>









section \<open>The two passes\<close>

lemma scan_len_plain: "c \<noteq> CHR 0x22 \<Longrightarrow> c \<noteq> CHR 0x5C \<Longrightarrow> scan_len (c # p) = bindR (scan_len p) (\<lambda>n. Inr (n + 1))"
  by (simp add: scan_len.simps)









section \<open>The parser\<close>

text \<open>A result of parsing inside a text: the rest is a suffix of it, and nothing failed.\<close>

definition in_text :: "byte list \<Rightarrow> 'a parsed \<Rightarrow> bool" where
  "in_text v x \<longleftrightarrow> (case x of Inl e \<Rightarrow> e = Diverges | Inr (Inl ep) \<Rightarrow> True | Inr (Inr (a, r)) \<Rightarrow> suffix r v)"

lemma in_text_simps [simp]:
  "in_text v (Inl Diverges)" "in_text v (Inr (Inl ep))" "in_text v (Inr (Inr (a, r))) \<longleftrightarrow> suffix r v"
  by (simp_all add: in_text_def)




lemma suffix_tl [simp]: "suffix r v \<Longrightarrow> suffix (tl r) v"
  by (meson suffix_order.trans suffix_tl)

lemma suffix_drop_of [simp]: "suffix r v \<Longrightarrow> suffix (drop n r) v"
  by (meson suffix_drop suffix_order.trans)













section \<open>Truncated escapes\<close>

definition plain_text :: "byte list \<Rightarrow> bool" where
  "plain_text t \<longleftrightarrow> list_all (\<lambda>c. c \<noteq> CHR 0x22 \<and> c \<noteq> CHR 0x5C) t"

lemma scan_len_plain_text: "plain_text t \<Longrightarrow> scan_len (t @ p) = bindR (scan_len p) (\<lambda>n. Inr (n + int (length t)))"
  by (induction t) (cases "scan_len p"; simp add: plain_text_def scan_len_plain)+

lemma unescape_plain: "c \<noteq> CHR 0x22 \<Longrightarrow> c \<noteq> CHR 0x5C \<Longrightarrow> unescape (c # p) w = bindR (put [c] w) (unescape p)"
  by (subst unescape.simps) (simp add: deref_def unescape_char.simps)

lemma unescape_plain_text:
  assumes "plain_text t" and "i + length t \<le> length m"
  shows "\<exists>m'. length m' = length m \<and> unescape (t @ p) (m, i) = unescape p (m', i + length t)"
  using assms
proof (induction t arbitrary: m i)
  case (Cons c t)
  then have "put [c] (m, i) = Inr (take i m @ Some c # drop (i + 1) m, i + 1)" by (simp add: put_def mem_write_def)
  moreover have "length (take i m @ Some c # drop (i + 1) m) = length m" using Cons.prems(2) by simp
  ultimately show ?case using Cons.IH [of "i + 1" "take i m @ Some c # drop (i + 1) m"] Cons.prems
    by (fastforce simp: plain_text_def unescape_plain)
qed auto

lemma unescape_overflow:
  assumes "plain_text t" and "length m < i + length t"  and "i \<le> length m"
  shows "unescape (t @ p) (m, i) = Inl (Undefined OutOfBounds)"
proof -
  have split: "t = take (length m - i) t @ drop (length m - i) t" by simp
  have d: "drop (length m - i) t \<noteq> []" using assms(2,3) by (simp add: not_le less_diff_conv2)
  have plain: "plain_text (take (length m - i) t)" "plain_text (drop (length m - i) t)"
    using assms(1) by (auto simp: plain_text_def list_all_iff dest: in_set_takeD in_set_dropD)
  obtain m' where "length m' = length m" "unescape (t @ p) (m, i) = unescape (drop (length m - i) t @ p) (m', length m)"
    using unescape_plain_text [OF plain(1), of i m "drop (length m - i) t @ p"] assms(2,3) split
    by (auto simp flip: append_assoc)
  then show ?thesis using d plain(2)
    by (cases "drop (length m - i) t") (auto simp: plain_text_def unescape_plain put_def mem_write_def)
qed

lemma parse_hex4_invalid: "k < 4 \<Longrightarrow> hexval (deref (drop k q)) = None \<Longrightarrow> parse_hex4 q = 0"
  by (cases "k = 0"; cases "k = 1"; cases "k = 2"; cases "k = 3") (auto simp: parse_hex4_def split: option.splits)

lemma unescape_truncated:
  assumes "length frag + length gap = 3" and "i \<le> length m"
  shows "unescape (CHR 0x5C # CHR ''u'' # frag @ CHR 0x22 # gap @ p) (m, i) = unescape p (m, i)"
proof -
  have "parse_hex4 (frag @ CHR 0x22 # gap @ p) = 0"
    using assms(1) by (intro parse_hex4_invalid [of "length frag"]) (auto simp: deref_def hexval_def)
  moreover have "4 - length frag = Suc (length gap)" using assms(1) by linarith
  then have "adv 4 (frag @ CHR 0x22 # gap @ p) = Inr p" using assms(1) by (simp add: adv_def)
  ultimately have "unescape_u (frag @ CHR 0x22 # gap @ p) = Inr ([], p)" by (simp add: unescape_u_def)
  then show ?thesis using assms(2) by (subst unescape.simps) (simp add: deref_def unescape_char.simps put_def mem_write_def)
qed

lemma parse_string_overflow:
  assumes "plain_text pre" and "plain_text frag" and "length frag + length gap = 3"
    and "plain_text t" and "length frag + 3 \<le> length t" and "length pre + 5 \<le> MaxAllocSize"
  shows "parse_string (CHR 0x22 # pre @ CHR 0x5C # CHR ''u'' # frag @ CHR 0x22 # gap @ t @ p) = Inl (Undefined OutOfBounds)"
proof -
  let ?lit = "CHR 0x5C # CHR ''u'' # frag @ CHR 0x22 # gap @ t @ p" and ?n = "int (length pre + length frag + 1)"
  have len: "length frag \<le> 3" using assms(3) by linarith
  have "scan_len (pre @ ?lit) = Inr ?n"
    by (simp add: scan_len_plain_text [OF assms(1)] scan_len_plain_text [OF assms(2)] scan_len.simps)
  moreover have "palloc0 (c_int (c_int ?n + 1)) = Inr (replicate (length pre + length frag + 2) (Some NUL))"
    using len assms(6) by (simp add: palloc0_def MaxAllocSize_def c_int_small nat_add_distrib)
  moreover have "unescape (pre @ ?lit) (replicate (length pre + length frag + 2) (Some NUL), 0) = Inl (Undefined OutOfBounds)"
  proof -
    let ?m = "replicate (length pre + length frag + 2) (Some NUL) :: cell list"
    obtain m' where m': "length m' = length ?m" "unescape (pre @ ?lit) (?m, 0) = unescape ?lit (m', length pre)"
      using unescape_plain_text [OF assms(1), of 0 ?m ?lit] by auto
    have "unescape ?lit (m', length pre) = unescape (t @ p) (m', length pre)"
      using m'(1) by (intro unescape_truncated [OF assms(3)]) simp
    also have "\<dots> = Inl (Undefined OutOfBounds)"
      using m'(1) assms(5) by (intro unescape_overflow [OF assms(4)]) simp_all
    finally show ?thesis using m'(2) by simp
  qed
  ultimately show ?thesis by (simp add: parse_string_def deref_def)
qed

text \<open>Claim C38. A string literal that ends inside a \<^verbatim>\<open>\u\<close> escape, after fewer than four characters of it, and is followed by
  enough further text makes the parser write outside the buffer it allocated: the first pass stops at the closing quote, which
  the second pass skips with the escape. The literal may begin with any plain characters, the text that overruns the buffer
  starts at most three characters behind the closing quote, is at least three characters longer than the fragment of the
  escape, and anything may follow it.\<close>

theorem truncated_escape_overflow:
  assumes "nul_free text0" and "text0 = CHR 0x22 # pre @ CHR 0x5C # CHR ''u'' # frag @ CHR 0x22 # gap @ t @ rest"
    and "plain_text pre" and "plain_text frag" and "length frag + length gap = 3"
    and "plain_text t" and "length frag + 3 \<le> length t" and "length pre + 5 \<le> MaxAllocSize"
  shows "cJSON_Parse fp text0 = Inl (Undefined OutOfBounds)"
proof -
  have "parse_string text0 = Inl (Undefined OutOfBounds)" using parse_string_overflow assms by blast
  moreover have "c_str text0 = text0" using assms(1) by simp
  moreover have "skip text0 = text0" "deref text0 = CHR 0x22" unfolding assms(2) by (simp_all add: skip_def deref_def)
  moreover have "\<not> starts_with ''null'' text0" "\<not> starts_with ''false'' text0" "\<not> starts_with ''true'' text0"
    unfolding assms(2) by (simp_all add: starts_with_def)
  moreover have "parse_fuel text0 = Suc (3 * length text0 + 2)" by (simp add: parse_fuel_def)
  ultimately show ?thesis by (simp add: cJSON_Parse_def cJSON_ParseWithOpts_def parse_value.simps on_parsed_def)
qed

theorem truncated_escape_overflow_witness:
  "cJSON_Parse demo_fp ([CHR 0x22] @ ''id'' @ [CHR 0x5C] @ ''u00'' @ [CHR 0x22] @ '',some further text'') = Inl (Undefined OutOfBounds)"
  by (rule truncated_escape_overflow [where pre = "''id''" and frag = "''00''" and gap = "'',''" and t = "''some further text''" and rest = "[]"])
    (simp_all add: plain_text_def MaxAllocSize_def)

end
