(* ===== verification/Spec2Isabelle.thy ===== *)
theory Spec2Isabelle
  imports WorkerReplay StreamOptions RowFilter TableSync Launcher CJsonSafety
begin

text \<open>
  Verification of the change-data-capture path of postgres-cdc-kafka.

  The repository is a PostgreSQL 18 source tree whose logical replication subscriber has been
  changed: instead of applying the changes it receives to local tables, it turns each of them
  into a JSON text and hands it to a Kafka producer. The development models this path from the
  message the publisher writes to the message the producer accepts, and the bookkeeping around
  it. Paths below are relative to \<^verbatim>\<open>src/postgres-cdc-kafka/src\<close>.

  \<^bold>\<open>Common ground.\<close> \<^verbatim>\<open>CDC_Prelude\<close>: bytes are characters, a C string a byte list read up to
  its terminator, memory a list of cells that are \<^const>\<open>None\<close> until written, and a fallible
  operation a value of \<^verbatim>\<open>'a res\<close>: \<^const>\<open>Inl\<close> an error (an \<^verbatim>\<open>ereport\<close>, undefined behaviour with
  its kind, the end of the process, or a loop that exhausts its fuel), \<^const>\<open>Inr\<close> a result.

  \<^bold>\<open>Buffers and messages.\<close> \<^verbatim>\<open>StringInfo\<close> is \<^verbatim>\<open>common/stringinfo.c\<close> with the growth
  of buffers; \<^verbatim>\<open>PqFormat\<close> the writers and readers of \<^verbatim>\<open>backend/libpq/pqformat.c\<close>;
  \<^verbatim>\<open>LogicalProto\<close> every message of \<^verbatim>\<open>backend/replication/logical/proto.c\<close>. The appends
  share the interface \<^verbatim>\<open>byte_sink\<close>, the messages the interface \<^verbatim>\<open>wire_sequence\<close>; both are
  interpreted on the models of the C functions. \<^verbatim>\<open>ProtoRoundtrip\<close> shows that a reader
  returns what the writer was given, and that no reader leaves the message.

  \<^bold>\<open>JSON.\<close> \<^verbatim>\<open>CJson\<close>, \<^verbatim>\<open>CJsonPrint\<close> and \<^verbatim>\<open>CJsonParse\<close> are \<^verbatim>\<open>backend/utils/adt/cJSON.c\<close>
  with items as trees; \<^verbatim>\<open>CJsonRoundtrip\<close> relates both directions to a datatype of JSON
  values, and \<^verbatim>\<open>CJsonSafety\<close> separates the texts on which the parser stays inside its buffers
  (those with complete escapes) from a family on which it does not. The fuel of the parser is
  three times the length of the text, which is shown to suffice for every text.

  \<^bold>\<open>Producer.\<close> \<^verbatim>\<open>KafkaProducer\<close> is \<^verbatim>\<open>backend/utils/adt/kafka.c\<close>. The client library is a
  record of functions; what is assumed of it are the predicates \<^verbatim>\<open>client_contract\<close> (sending) and
  \<^verbatim>\<open>client_starts\<close> (start-up), which a concrete client satisfies in the witnesses.

  \<^bold>\<open>Publisher.\<close> \<^verbatim>\<open>Publication\<close> holds what \<^verbatim>\<open>pg_publication.c\<close> decides of a table and the
  conversion of a partition's rows for its root (\<^verbatim>\<open>attmap.c\<close>, \<^verbatim>\<open>tupconvert.c\<close>); \<^verbatim>\<open>PgOutput\<close> is
  the output plugin \<^verbatim>\<open>pgoutput.c\<close> with the callback wrappers of \<^verbatim>\<open>logical.c\<close>: which changes of
  a decoded transaction are sent, as what, and when tables are described. The catalogs are a
  record of functions. \<^verbatim>\<open>RowFilter\<close> shows that combined row filters are the union of what the
  publications let pass, and that filtered changes keep the filtered part of a table.
  \<^verbatim>\<open>OutputStream\<close> shows what each message conveys to the subscriber, with the interface
  \<^verbatim>\<open>message_channel\<close> interpreted on the functions that write to the connection, and
  \<^verbatim>\<open>PublisherFlow\<close> follows a history of transactions through the plugin and, composed with
  the main loop below, to Kafka.

  \<^bold>\<open>Negotiation.\<close> \<^verbatim>\<open>StartCommand\<close> holds the options a worker derives from its subscription, the
  command it writes (\<^verbatim>\<open>libpqwalreceiver.c\<close>, with the escaping of \<^verbatim>\<open>fe-exec.c\<close>) and the scanner and
  grammar that read it (\<^verbatim>\<open>repl_scanner.l\<close>, \<^verbatim>\<open>repl_gram.y\<close>); \<^verbatim>\<open>StreamOptions\<close> the start-up of the
  output plugin. The theorems join them: what the subscription asks for is what the plugin is
  started with, which is the state from which the publisher theorem begins; a name with a
  backslash and options without value are shown to fail. The encoding of the connection and the
  locale are parameters.

  \<^bold>\<open>Subscriber.\<close> \<^verbatim>\<open>RelationMap\<close> is \<^verbatim>\<open>relation.c\<close> over a local catalog;
  \<^verbatim>\<open>ChangeJson\<close> the functions \<^verbatim>\<open>INSERT_TO_JSON\<close>, \<^verbatim>\<open>UPDATE_TO_JSON\<close> and
  \<^verbatim>\<open>DELETE_TO_JSON\<close> of \<^verbatim>\<open>worker.c\<close>, whose first call in a process starts the producer
  (\<^verbatim>\<open>serving\<close> covers a process before and after it); \<^verbatim>\<open>LocalXact\<close> the part of
  \<^verbatim>\<open>xact.c\<close>, \<^verbatim>\<open>twophase.c\<close> and \<^verbatim>\<open>origin.c\<close> that the worker observes;
  \<^verbatim>\<open>FlushFeedback\<close> the acknowledgement of positions; \<^verbatim>\<open>SpoolFile\<close> the files of
  streamed transactions, with the interface \<^verbatim>\<open>change_journal\<close> interpreted on them;
  \<^verbatim>\<open>ApplyWorker\<close> the message handlers, the dispatcher and the replay. A worker is one
  record of the static variables of \<^verbatim>\<open>worker.c\<close>; the rest of the server is a record of
  parameters.

  \<^bold>\<open>Whole path.\<close> \<^verbatim>\<open>WorkerPublish\<close> composes the parts: what the publisher writes for a
  row is what the producer is handed, and a remote transaction is published in order.
  \<^verbatim>\<open>WorkerReplay\<close> shows that a streamed transaction is replayed like a direct one, and
  which messages reach Kafka at all. \<^verbatim>\<open>ChangeStream\<close>
  follows the worker from message to message, table descriptions included, and
  \<^verbatim>\<open>ApplyLoop\<close> is the main loop of \<^verbatim>\<open>worker.c\<close> over what the connection delivers: it
  publishes every change of a stream that is cut into rounds anywhere, confirms nothing that
  it has not received, and gives a silent publisher up in time.

  \<^bold>\<open>Initial copy.\<close> A new table is copied before its changes are streamed.
  \<^verbatim>\<open>CopyCommand\<close> is the COPY command of \<^verbatim>\<open>tablesync.c\<close> with the quoting of
  \<^verbatim>\<open>ruleutils.c\<close>; \<^verbatim>\<open>CopyText\<close> the text format, written by \<^verbatim>\<open>copyto.c\<close> and split by
  \<^verbatim>\<open>copyfromparse.c\<close>; \<^verbatim>\<open>CopyInput\<close> the buffering between the messages of the connection
  and the lines, with the interface \<^verbatim>\<open>line_source\<close> interpreted on it; \<^verbatim>\<open>CopyPublish\<close>
  the loop of \<^verbatim>\<open>CopyFrom\<close>, which publishes each row as JSON and stores none, and
  \<^verbatim>\<open>copy_table\<close>. The rows the publisher writes are the rows the producer is handed.

  \<^bold>\<open>Table synchronisation.\<close> \<^verbatim>\<open>TableSync\<close> is the state machine of \<^verbatim>\<open>tablesync.c\<close>: the
  start and the end of a synchronisation worker, the loop of the apply worker over the tables,
  and the interleavings of all of them as a step relation, with an invariant from which the
  hand-over of a table to the apply worker is shown to lose no transaction.

  \<^bold>\<open>Launcher.\<close> \<^verbatim>\<open>Launcher\<close> is \<^verbatim>\<open>launcher.c\<close>: the slots of the workers in shared memory, taken,
  attached to, reclaimed and released in lock sections, and the cycle of the launcher. The
  interleavings of the processes are a step relation, whose invariant gives a subscription one
  apply worker at most (so that one process publishes its changes) and keeps the limits;
  restarts keep their distance. A launch is two lock sections with the registration between
  them. The part of the invariant on the slots of running processes holds when a started process
  attaches before its slot is reclaimed; that nobody waits through \<open>2 ^ 16\<close> launches of a slot is a
  guard of the steps.

  \<^bold>\<open>Bounds and fuel.\<close> The dispatcher calls itself through the replay of a spooled
  transaction, so it has a depth; the replay reads records of at least five bytes, so one more
  than the length of the file suffices. A transaction may have \<open>2 ^ 25\<close> subtransactions before
  the array of their offsets meets the allocation limit. Integers of fixed width are words or
  written with their wrap-around. The loop of a COPY is a partial function, shown to return
  on every input that consists of rows; the loops below it have termination proofs, by what
  is still to arrive. The main loop of the worker ends with its input: the rounds it is given
  are those of a run up to any moment.

  \<^bold>\<open>Not modelled.\<close> The branches of \<^verbatim>\<open>worker.c\<close> for parallel apply workers (processes and
  shared memory queues), its start-up (connection, signals) and the
  code it disables; the CSV and binary formats of COPY and the conversion of its encoding; the
  queries for the description of a remote table; connections, permissions, locks and waits of
  the table synchronisation; the buffered printer of \<^verbatim>\<open>cJSON.c\<close>, which nothing calls; the
  registration of background workers, signals and latches of the launcher;
  the decoding of the log into transactions (\<^verbatim>\<open>reorderbuffer.c\<close>, \<^verbatim>\<open>snapbuild.c\<close>), whose result
  is the input of the output plugin, and the main loop of the sender; and the
  rest of the server, which the modelled parts reach through parameters.
\<close>

end
